(* ===== verification/Prelude.thy ===== *)
theory Prelude
  imports Main "HOL-Library.Word"
begin

text \<open>
  The vocabulary every component shares: the names of the machine types, the outcome of a
  Rust function (a value, an error value, a panic), programs that thread a state, a small
  weakest-precondition calculus for them, and the two list operations by which the code
  reads and overwrites byte ranges (\<open>slice\<close>, \<open>put\<close>).
\<close>

unbundle bit_operations_syntax

type_synonym u8 = "8 word"
type_synonym u16 = "16 word"
type_synonym u32 = "32 word"
type_synonym u64 = "64 word"
type_synonym i16 = "16 word"
type_synonym bytes = "u8 list"

text \<open>
  \<open>slice_simps\<close> collects the rewrite rules for byte ranges, \<open>wp_simps\<close> the ones that run a
  program symbolically, \<open>roundtrip\<close> the decode-after-encode laws of the on-disk formats.
\<close>

named_theorems slice_simps
named_theorems wp_simps
named_theorems roundtrip
named_theorems keeps_intros


subsection \<open>Outcomes\<close>

text \<open>
  The outcome of a Rust function of type \<open>Result<'a, 'e>\<close>: \<open>Panic\<close> is an out-of-range slice
  or index, a failed \<open>unwrap\<close>, an \<open>assert!\<close>, never a value of the program.
\<close>

datatype ('a, 'e) res = Ok 'a | Err 'e | Panic

fun and_then :: "('a, 'e) res \<Rightarrow> ('a \<Rightarrow> ('b, 'e) res) \<Rightarrow> ('b, 'e) res" where
  "and_then (Ok x) f = f x"
| "and_then (Err e) f = Err e"
| "and_then Panic f = Panic"

fun map_err :: "('e \<Rightarrow> 'f) \<Rightarrow> ('a, 'e) res \<Rightarrow> ('a, 'f) res" where
  "map_err g (Ok x) = Ok x"
| "map_err g (Err e) = Err (g e)"
| "map_err g Panic = Panic"

fun is_ok :: "('a, 'e) res \<Rightarrow> bool" where
  "is_ok (Ok _) = True"
| "is_ok _ = False"

definition ok_or :: "'e \<Rightarrow> 'a option \<Rightarrow> ('a, 'e) res" where
  "ok_or e x = (case x of Some y \<Rightarrow> Ok y | None \<Rightarrow> Err e)"

lemma ok_or_simps [simp]:
  "ok_or e (Some y) = Ok y" "ok_or e None = Err e"
  by (simp_all add: ok_or_def)

lemma and_then_Ok_iff [simp]: "and_then m f = Ok y \<longleftrightarrow> (\<exists>x. m = Ok x \<and> f x = Ok y)"
  by (cases m) auto

lemma and_then_Panic_iff: "and_then m f = Panic \<longleftrightarrow> m = Panic \<or> (\<exists>x. m = Ok x \<and> f x = Panic)"
  by (cases m) auto

lemma map_err_Ok_iff [simp]: "map_err g m = Ok y \<longleftrightarrow> m = Ok y"
  by (cases m) auto

lemma map_err_Panic_iff [simp]: "map_err g m = Panic \<longleftrightarrow> m = Panic"
  by (cases m) auto

lemma and_then_cong [fundef_cong]:
  assumes "m = m'" and "\<And>x. m' = Ok x \<Longrightarrow> f x = g x"
  shows "and_then m f = and_then m' g"
  using assms by (cases m') auto


subsection \<open>Programs over a state\<close>

text \<open>
  A function with a \<open>&mut\<close> state. An error keeps the state reached so far: Rust rolls nothing
  back when \<open>?\<close> returns early.
\<close>

type_synonym ('s, 'a, 'e) prog = "'s \<Rightarrow> ('a, 'e) res \<times> 's"

definition ret :: "'a \<Rightarrow> ('s, 'a, 'e) prog" where
  "ret x = (\<lambda>s. (Ok x, s))"

definition raise :: "'e \<Rightarrow> ('s, 'a, 'e) prog" where
  "raise e = (\<lambda>s. (Err e, s))"

definition lift :: "('a, 'e) res \<Rightarrow> ('s, 'a, 'e) prog" where
  "lift r = (\<lambda>s. (r, s))"

definition get :: "('s \<Rightarrow> 'a) \<Rightarrow> ('s, 'a, 'e) prog" where
  "get f = (\<lambda>s. (Ok (f s), s))"

definition modify :: "('s \<Rightarrow> 's) \<Rightarrow> ('s, unit, 'e) prog" where
  "modify f = (\<lambda>s. (Ok (), f s))"

definition bind :: "('s, 'a, 'e) prog \<Rightarrow> ('a \<Rightarrow> ('s, 'b, 'e) prog) \<Rightarrow> ('s, 'b, 'e) prog" where
  "bind m f = (\<lambda>s. case m s of
     (Ok x, t) \<Rightarrow> f x t
   | (Err e, t) \<Rightarrow> (Err e, t)
   | (Panic, t) \<Rightarrow> (Panic, t))"

fun for_each :: "'i list \<Rightarrow> ('i \<Rightarrow> ('s, unit, 'e) prog) \<Rightarrow> ('s, unit, 'e) prog" where
  "for_each [] body = ret ()"
| "for_each (i # todo) body = bind (body i) (\<lambda>_. for_each todo body)"

lemma bind_cong [fundef_cong]:
  assumes "m = m'" and "s = s'" and "\<And>x t. m' s' = (Ok x, t) \<Longrightarrow> f x t = g x t"
  shows "bind m f s = bind m' g s'"
  using assms by (auto simp: bind_def split: prod.splits res.splits)

lemma run_simps:
  "ret x s = (Ok x, s)" "raise e s = (Err e, s)" "lift r s = (r, s)"
  "get f s = (Ok (f s), s)" "modify h s = (Ok (), h s)"
  by (simp_all add: ret_def raise_def lift_def get_def modify_def)

lemma bind_run:
  "m s = (Ok x, t) \<Longrightarrow> bind m f s = f x t"
  "m s = (Err e, t) \<Longrightarrow> bind m f s = (Err e, t)"
  "m s = (Panic, t) \<Longrightarrow> bind m f s = (Panic, t)"
  by (simp_all add: bind_def)

lemma bind_assoc: "bind (bind m f) g = bind m (\<lambda>x. bind (f x) g)"
  by (rule ext) (simp add: bind_def split: prod.splits res.splits)

lemma bind_raise: "bind (raise x) f = raise x"
  by (rule ext) (simp add: bind_def raise_def)

lemma bind_if_distrib: "bind (if b then m else n) f = (if b then bind m f else bind n f)"
  by simp

lemma bind_OkE:
  assumes "bind m f s = (Ok y, u)"
  obtains x t where "m s = (Ok x, t)" and "f x t = (Ok y, u)"
  using assms by (auto simp: bind_def split: prod.splits res.splits)


subsection \<open>Weakest preconditions\<close>

text \<open>
  \<open>wp m Q E s\<close>: run from \<open>s\<close>, \<open>m\<close> does not panic; if it returns a value, \<open>Q\<close> holds of it and
  the state after, and if it returns an error, \<open>E\<close> does. With \<open>no_err\<close> for \<open>E\<close> it is total
  correctness: the program returns a value.
\<close>

definition wp :: "('s, 'a, 'e) prog \<Rightarrow> ('a \<Rightarrow> 's \<Rightarrow> bool) \<Rightarrow> ('e \<Rightarrow> 's \<Rightarrow> bool) \<Rightarrow> 's \<Rightarrow> bool" where
  "wp m Q E s = (case m s of
     (Ok x, t) \<Rightarrow> Q x t
   | (Err e, t) \<Rightarrow> E e t
   | (Panic, t) \<Rightarrow> False)"

abbreviation no_err :: "'e \<Rightarrow> 's \<Rightarrow> bool" where
  "no_err \<equiv> (\<lambda>_ _. False)"

lemma wp_bind [wp_simps]: "wp (bind m f) Q E s = wp m (\<lambda>x. wp (f x) Q E) E s"
  by (simp add: wp_def bind_def split: prod.splits res.splits)

lemma wp_prim [wp_simps]:
  "wp (ret x) Q E s = Q x s"
  "wp (raise e) Q E s = E e s"
  "wp (get f) Q E s = Q (f s) s"
  "wp (lift (Ok x)) Q E s = Q x s"
  "wp (lift (Err e)) Q E s = E e s"
  "wp (lift Panic) Q E s = False"
  by (simp_all add: wp_def run_simps)

lemma wp_modify [wp_simps]: "wp (modify h) Q E s = Q () (h s)"
  by (simp add: wp_def run_simps)

lemma wp_if: "wp (if b then m else n) Q E s = (if b then wp m Q E s else wp n Q E s)"
  by simp

lemma wp_conseq:
  assumes "wp m Q E s"
    and "\<And>x t. Q x t \<Longrightarrow> Q' x t" and "\<And>e t. E e t \<Longrightarrow> E' e t"
  shows "wp m Q' E' s"
  using assms by (auto simp: wp_def split: prod.splits res.splits)

lemma wp_conj:
  assumes "wp m Q E s" and "wp m Q' E' s"
  shows "wp m (\<lambda>x t. Q x t \<and> Q' x t) (\<lambda>e t. E e t \<and> E' e t) s"
  using assms by (auto simp: wp_def split: prod.splits res.splits)

lemma wp_OkD: "wp m Q E s \<Longrightarrow> m s = (Ok x, t) \<Longrightarrow> Q x t"
  by (simp add: wp_def)

lemma wp_ErrD: "wp m Q E s \<Longrightarrow> m s = (Err e, t) \<Longrightarrow> E e t"
  by (simp add: wp_def)

lemma wp_not_panic: "wp m Q E s \<Longrightarrow> fst (m s) \<noteq> Panic"
  by (auto simp: wp_def split: prod.splits res.splits)

lemma wp_no_err: "wp m Q no_err s \<longleftrightarrow> (\<exists>x t. m s = (Ok x, t) \<and> Q x t)"
  by (auto simp: wp_def split: prod.splits res.splits)

text \<open>A loop over a list, with an invariant indexed by the elements already visited.\<close>

lemma wp_for_each:
  assumes "I [] s"
    and "\<And>past i todo t. all = past @ i # todo \<Longrightarrow> I past t \<Longrightarrow>
           wp (body i) (\<lambda>_. I (past @ [i])) E t"
    and "\<And>t. I all t \<Longrightarrow> Q () t"
  shows "wp (for_each all body) Q E s"
proof -
  have "wp (for_each todo body) (\<lambda>_. I all) E t" if "all = past @ todo" "I past t" for past todo t
    using that
  proof (induction todo arbitrary: past t)
    case Nil
    then show ?case by (simp add: wp_simps)
  next
    case (Cons i todo)
    from Cons.prems have "wp (body i) (\<lambda>_. I (past @ [i])) E t"
      by (intro assms(2)) auto
    then have "wp (body i) (\<lambda>_. wp (for_each todo body) (\<lambda>_. I all) E) E t"
      by (rule wp_conseq) (use Cons in auto)
    then show ?case by (simp add: wp_simps)
  qed
  from this [of "[]" all s] assms(1) have "wp (for_each all body) (\<lambda>_. I all) E s"
    by simp
  then show ?thesis
    by (rule wp_conseq) (use assms(3) in auto)
qed


subsection \<open>What every run keeps\<close>

text \<open>
  \<open>runs R m\<close>: whatever \<open>m\<close> returns, the states before and after it are related by \<open>R\<close>. When \<open>R\<close> is a
  preorder, a program keeps to it if its parts do.
\<close>

definition runs :: "('s \<Rightarrow> 's \<Rightarrow> bool) \<Rightarrow> ('s, 'a, 'e) prog \<Rightarrow> bool" where
  "runs R m \<longleftrightarrow> (\<forall>s. R s (snd (m s)))"

lemma runsD: "runs R m \<Longrightarrow> m s = (r, t) \<Longrightarrow> R s t"
  unfolding runs_def by (metis snd_conv)

locale step_preorder =
  fixes R :: "'s \<Rightarrow> 's \<Rightarrow> bool"
  assumes same: "R s s"
    and chain: "R s t \<Longrightarrow> R t u \<Longrightarrow> R s u"
begin

lemma runs_prim [keeps_intros]:
  "runs R (ret x)" "runs R (raise y)" "runs R (lift r)" "runs R (get f)"
  by (simp_all add: runs_def run_simps same)

lemma runs_modify: "(\<And>s. R s (h s)) \<Longrightarrow> runs R (modify h)"
  by (simp add: runs_def run_simps)

lemma runs_bind [keeps_intros]:
  assumes "runs R m" "\<And>x. runs R (f x)"
  shows "runs R (bind m f)"
  unfolding runs_def
proof
  fix s
  obtain r t where t: "m s = (r, t)" by (cases "m s")
  have st: "R s t" by (rule runsD [OF assms(1) t])
  show "R s (snd (bind m f s))"
  proof (cases r)
    case (Ok x)
    obtain y u where u: "f x t = (y, u)" by (cases "f x t")
    show ?thesis using chain [OF st runsD [OF assms(2) u]] by (simp add: bind_def t Ok u)
  qed (use st in \<open>simp_all add: bind_def t\<close>)
qed

lemma runs_state: "(\<And>s. R s (snd (f s s))) \<Longrightarrow> runs R (bind (get (\<lambda>s. s)) f)"
  by (simp add: runs_def bind_def run_simps)

lemma runs_if [keeps_intros]: "runs R m \<Longrightarrow> runs R n \<Longrightarrow> runs R (if b then m else n)"
  by simp

lemma runs_let [keeps_intros]: "(\<And>x. runs R (f x)) \<Longrightarrow> runs R (let x = v in f x)"
  by simp

lemma runs_option [keeps_intros]:
  "runs R m \<Longrightarrow> (\<And>x. runs R (f x)) \<Longrightarrow> runs R (case v of None \<Rightarrow> m | Some x \<Rightarrow> f x)"
  by (cases v) simp_all

lemma runs_pair [keeps_intros]: "(\<And>x y. runs R (f x y)) \<Longrightarrow> runs R (case v of (x, y) \<Rightarrow> f x y)"
  by (cases v) simp

lemma runs_for_each [keeps_intros]: "(\<And>i. runs R (body i)) \<Longrightarrow> runs R (for_each todo body)"
  by (induction todo) (auto intro: keeps_intros)

end


subsection \<open>Byte ranges\<close>

text \<open>\<open>slice xs a b\<close> is \<open>&xs[a..b]\<close>; \<open>put xs a ys\<close> is \<open>xs[a..a + ys.len()].copy_from_slice(ys)\<close>.\<close>

definition slice :: "'a list \<Rightarrow> nat \<Rightarrow> nat \<Rightarrow> 'a list" where
  "slice xs a b = take (b - a) (drop a xs)"

definition put :: "'a list \<Rightarrow> nat \<Rightarrow> 'a list \<Rightarrow> 'a list" where
  "put xs a ys = take a xs @ ys @ drop (a + length ys) xs"

lemma length_slice [simp]: "length (slice xs a b) = min (b - a) (length xs - a)"
  by (simp add: slice_def)

lemma length_put [simp]: "a + length ys \<le> length xs \<Longrightarrow> length (put xs a ys) = length xs"
  by (simp add: put_def)

lemma nth_slice: "i < b - a \<Longrightarrow> a + i < length xs \<Longrightarrow> slice xs a b ! i = xs ! (a + i)"
  by (simp add: slice_def)

lemma nth_put:
  assumes "a + length ys \<le> length xs" and "i < length xs"
  shows "put xs a ys ! i = (if a \<le> i \<and> i < a + length ys then ys ! (i - a) else xs ! i)"
  using assms by (auto simp: put_def nth_append min_def)

lemma slice_put_same [slice_simps]:
  "b = a + length ys \<Longrightarrow> b \<le> length xs \<Longrightarrow> slice (put xs a ys) a b = ys"
  by (simp add: slice_def put_def)

lemma slice_put_before [slice_simps]:
  "d \<le> a \<Longrightarrow> a \<le> length xs \<Longrightarrow> slice (put xs a ys) c d = slice xs c d"
  by (cases "c \<le> d") (simp_all add: slice_def put_def take_drop min_absorb1)

lemma slice_put_after [slice_simps]:
  "a + length ys \<le> c \<Longrightarrow> a \<le> length xs \<Longrightarrow> slice (put xs a ys) c d = slice xs c d"
  by (simp add: slice_def put_def drop_append)

lemma slice_whole [simp]: "slice xs 0 (length xs) = xs"
  by (simp add: slice_def)

lemma put_slice_id: "b \<le> length xs \<Longrightarrow> a \<le> b \<Longrightarrow> put xs a (slice xs a b) = xs"
proof -
  assume "b \<le> length xs" "a \<le> b"
  then have "take (b - a) (drop a xs) @ drop b xs = drop a xs"
    using append_take_drop_id [of "b - a" "drop a xs"] by simp
  with \<open>b \<le> length xs\<close> \<open>a \<le> b\<close> show ?thesis
    by (simp add: slice_def put_def)
qed

lemma slice_replicate [slice_simps]: "b \<le> n \<Longrightarrow> slice (replicate n x) a b = replicate (b - a) x"
  by (simp add: slice_def)

lemma put_put_same: "length ys = length zs \<Longrightarrow> a + length ys \<le> length xs \<Longrightarrow>
    put (put xs a ys) a zs = put xs a zs"
  by (simp add: put_def)

lemma put_0_whole: "length ys = length xs \<Longrightarrow> put xs 0 ys = ys"
  by (simp add: put_def)

lemma slice_slice: "slice (slice xs a b) c d = slice xs (a + c) (min (a + d) b)"
  by (simp add: slice_def drop_take min_def) (simp add: add.commute diff_diff_left)

lemma slice_eq_sub:
  assumes "slice ys a b = slice xs a b" "a \<le> c" "d \<le> b"
  shows "slice ys c d = slice xs c d"
proof (cases "c \<le> d")
  case True
  have "slice zs c d = slice (slice zs a b) (c - a) (d - a)" for zs :: "'a list"
    using assms(2,3) True by (simp add: slice_slice)
  then show ?thesis using assms(1) by metis
qed (simp add: slice_def)

lemma slice_eq_nth:
  assumes "slice ys a b = slice xs a b" "a \<le> i" "i < b" "i < length xs" "i < length ys"
  shows "ys ! i = xs ! i"
  using assms nth_slice [of "i - a" b a ys] nth_slice [of "i - a" b a xs] by simp

text \<open>
  A header is a series of such writes at increasing offsets: \<open>put_all\<close> performs them in order, and
  \<open>ordered\<close> says that no write touches an earlier one, so each field can be read back.
\<close>

fun put_all :: "'a list \<Rightarrow> (nat \<times> 'a list) list \<Rightarrow> 'a list" where
  "put_all xs [] = xs"
| "put_all xs ((a, ys) # ws) = put_all (put xs a ys) ws"

fun ordered :: "nat \<Rightarrow> nat \<Rightarrow> (nat \<times> 'a list) list \<Rightarrow> bool" where
  "ordered lo hi [] = (lo \<le> hi)"
| "ordered lo hi ((a, ys) # ws) = (lo \<le> a \<and> ordered (a + length ys) hi ws)"

lemma ordered_le: "ordered lo hi ws \<Longrightarrow> lo \<le> hi"
  by (induction lo hi ws rule: ordered.induct) simp_all

lemma length_put_all: "ordered lo (length xs) ws \<Longrightarrow> length (put_all xs ws) = length xs"
proof (induction ws arbitrary: xs lo)
  case (Cons w ws)
  then show ?case using ordered_le [of "fst w + length (snd w)" "length xs" ws]
      Cons.IH [of "fst w + length (snd w)" "put xs (fst w) (snd w)"]
    by (cases w) simp
qed simp

lemma slice_put_all_before:
  "ordered lo (length xs) ws \<Longrightarrow> d \<le> lo \<Longrightarrow> slice (put_all xs ws) c d = slice xs c d"
proof (induction ws arbitrary: xs lo)
  case (Cons w ws)
  then show ?case using ordered_le [of "fst w + length (snd w)" "length xs" ws]
      Cons.IH [of "fst w + length (snd w)" "put xs (fst w) (snd w)"]
    by (cases w) (simp add: slice_put_before)
qed simp

lemma slice_put_all_outside:
  "ordered lo (length xs) ws \<Longrightarrow> \<forall>(a, ys) \<in> set ws. d \<le> a \<or> a + length ys \<le> c \<Longrightarrow>
    slice (put_all xs ws) c d = slice xs c d"
proof (induction ws arbitrary: xs lo)
  case (Cons w ws)
  then show ?case using ordered_le [of "fst w + length (snd w)" "length xs" ws]
      Cons.IH [of "fst w + length (snd w)" "put xs (fst w) (snd w)"]
    by (cases w) (auto simp: slice_put_after slice_put_before)
qed simp

lemma slice_put_all:
  assumes "ordered lo (length xs) ws" "(a, ys) \<in> set ws" "b = a + length ys"
  shows "slice (put_all xs ws) a b = ys"
  using assms(1,2)
proof (induction ws arbitrary: xs lo)
  case (Cons w ws)
  obtain a' ys' where w: "w = (a', ys')" by (cases w)
  have le: "a' + length ys' \<le> length xs"
    using Cons.prems(1) ordered_le [of "a' + length ys'" "length xs" ws] w by simp
  show ?case
  proof (cases "(a, ys) \<in> set ws")
    case True
    with Cons.prems Cons.IH [of "a' + length ys'" "put xs a' ys'"] w le show ?thesis by simp
  next
    case False
    with Cons.prems w have "a' = a" "ys' = ys" by simp_all
    with Cons.prems w le assms(3) slice_put_all_before [of b "put xs a ys" ws b a] show ?thesis
      by (simp add: slice_put_same)
  qed
qed simp

lemma put_append_left: "a + length ys \<le> length xs \<Longrightarrow> put (xs @ zs) a ys = put xs a ys @ zs"
  by (simp add: put_def)

lemma put_all_append_left:
  "ordered lo (length xs) ws \<Longrightarrow> put_all (xs @ zs) ws = put_all xs ws @ zs"
proof (induction ws arbitrary: xs lo)
  case (Cons w ws)
  then show ?case using ordered_le [of "fst w + length (snd w)" "length xs" ws]
      Cons.IH [of "fst w + length (snd w)" "put xs (fst w) (snd w)"]
    by (cases w) (simp add: put_append_left)
qed simp

text \<open>The range of the small words, and counts that fit them.\<close>

lemma unat_u8: "unat (w :: u8) < 256"
  using unsigned_less [of w, where ?'a = nat] by simp

lemma unat_u16: "unat (w :: u16) < 65536"
  using unsigned_less [of w, where ?'a = nat] by simp

lemma unat_u32: "unat (w :: u32) < 2 ^ 32"
  using unsigned_less [of w, where 'a = nat] by simp

lemma unat_u64: "unat (w :: u64) < 2 ^ 64"
  using unsigned_less [of w, where 'a = nat] by simp

lemma unat_of_nat32: "r < 2 ^ 32 \<Longrightarrow> unat (of_nat r :: u32) = r"
  by (simp add: unat_of_nat take_bit_eq_mod)

lemma unat_of_nat64: "r < 2 ^ 64 \<Longrightarrow> unat (of_nat r :: u64) = r"
  by (simp add: unat_of_nat take_bit_eq_mod)

lemma unat_of_nat16: "r < 65536 \<Longrightarrow> unat (of_nat r :: u16) = r"
  by (simp add: unat_of_nat take_bit_eq_mod)

text \<open>\<open>n.div_ceil(d)\<close> and its two bounds.\<close>

definition div_ceil :: "nat \<Rightarrow> nat \<Rightarrow> nat" where
  "div_ceil n d = (if n mod d = 0 then n div d else n div d + 1)"

lemma div_ceil_le_iff: "0 < d \<Longrightarrow> div_ceil n d \<le> k \<longleftrightarrow> n \<le> k * d"
proof -
  assume d: "0 < d"
  have n: "n = n div d * d + n mod d" by simp
  show ?thesis
  proof (cases "n mod d = 0")
    case True
    then show ?thesis using d n
      by (metis add.right_neutral div_ceil_def mult_le_cancel2)
  next
    case False
    have "n div d < k \<longleftrightarrow> n div d * d < k * d" using d by simp
    also have "\<dots> \<longleftrightarrow> n \<le> k * d"
    proof
      assume "n div d * d < k * d"
      then have "Suc (n div d) * d \<le> k * d" using d by (metis Suc_leI mult_le_mono1 mult_less_cancel2)
      moreover have "n mod d < d" using d by simp
      ultimately show "n \<le> k * d" using n by (metis add.commute add_le_cancel_left le_trans less_imp_le mult_Suc)
    next
      assume "n \<le> k * d"
      moreover have "n div d * d < n" using n False by linarith
      ultimately show "n div d * d < k * d" by linarith
    qed
    finally show ?thesis using False by (simp add: div_ceil_def Suc_le_eq)
  qed
qed

lemma less_div_ceil_iff: "0 < d \<Longrightarrow> k < div_ceil n d \<longleftrightarrow> k * d < n"
  using div_ceil_le_iff [of d n k] by linarith

lemma div_ceil_mult: "0 < d \<Longrightarrow> n \<le> div_ceil n d * d"
  using div_ceil_le_iff [of d n "div_ceil n d"] by simp

end
