(* ===== verification/Bytes.thy ===== *)
theory Bytes
  imports Prelude
begin

text \<open>
  Little-endian integers (\<open>to_le_bytes\<close>, \<open>from_le_bytes\<close>) and the interface of a fixed-width
  on-disk record: its encoding has a constant length and decodes back. The clients are the
  pointer blocks and the inode table, both arrays of such records inside one block, so the
  laws of an array slot are proved once, in the locale.
\<close>


subsection \<open>Little-endian words\<close>

definition to_le :: "nat \<Rightarrow> 'a::len word \<Rightarrow> bytes" where
  "to_le n w = map (\<lambda>i. ucast (drop_bit (8 * i) w)) [0..<n]"

fun from_le :: "bytes \<Rightarrow> 'a::len word" where
  "from_le [] = 0"
| "from_le (b # bs) = ucast b OR push_bit 8 (from_le bs)"

lemma length_to_le [simp]: "length (to_le n w) = n"
  by (simp add: to_le_def)

lemma bit_from_le:
  "bit (from_le bs :: 'a::len word) k \<longleftrightarrow>
     k < LENGTH('a) \<and> k div 8 < length bs \<and> bit (bs ! (k div 8)) (k mod 8)"
proof (induction bs arbitrary: k)
  case Nil
  then show ?case by simp
next
  case (Cons b bs)
  have b8: "bit b k \<Longrightarrow> k < 8" using bit_imp_le_length [of b k] by simp
  show ?case
  proof (cases "k < 8")
    case True
    then show ?thesis
      by (auto simp: bit_simps)
  next
    case False
    then have "k div 8 = Suc ((k - 8) div 8)" and "k mod 8 = (k - 8) mod 8"
      by (simp_all add: le_div_geq le_mod_geq)
    with False Cons.IH [of "k - 8"] b8 show ?thesis
      by (auto simp: bit_simps)
  qed
qed

lemma bit_to_le_nth: "i < n \<Longrightarrow> bit (to_le n w ! i) j \<longleftrightarrow> j < 8 \<and> bit w (8 * i + j)"
  by (auto simp: to_le_def bit_simps)

lemma from_le_to_le:
  fixes w :: "'a::len word"
  assumes "LENGTH('a) \<le> 8 * n"
  shows "from_le (to_le n w) = w"
proof (rule bit_word_eqI)
  fix k assume k: "k < LENGTH('a)"
  with assms have "k div 8 < n" by linarith
  with k show "bit (from_le (to_le n w) :: 'a word) k = bit w k"
    by (simp add: bit_from_le bit_to_le_nth)
qed

lemma to_le_from_le:
  assumes "8 * length bs \<le> LENGTH('a)"
  shows "to_le (length bs) (from_le bs :: 'a::len word) = bs"
proof (rule nth_equalityI)
  show "length (to_le (length bs) (from_le bs :: 'a word)) = length bs" by simp
next
  fix i assume i: "i < length (to_le (length bs) (from_le bs :: 'a word))"
  show "to_le (length bs) (from_le bs :: 'a word) ! i = bs ! i"
  proof (rule bit_word_eqI)
    fix j assume "j < LENGTH(8)"
    then have j: "j < 8" by simp
    with i assms have "8 * i + j < LENGTH('a)" by simp
    with i j show "bit (to_le (length bs) (from_le bs :: 'a word) ! i) j = bit (bs ! i) j"
      by (simp add: bit_to_le_nth bit_from_le)
  qed
qed

lemma le16 [simp]: "from_le (to_le 2 (w :: u16)) = w"
  and le32 [simp]: "from_le (to_le 4 (v :: u32)) = v"
  and le64 [simp]: "from_le (to_le 8 (u :: u64)) = u"
  by (simp_all add: from_le_to_le)

lemma to_le_inject:
  fixes v w :: "'a::len word"
  assumes "LENGTH('a) \<le> 8 * n"
  shows "to_le n v = to_le n w \<longleftrightarrow> v = w"
  using assms by (metis from_le_to_le)

lemma from_le_replicate_0 [simp]: "from_le (replicate n 0) = 0"
  by (induction n) auto

lemma to_le_0 [simp]: "to_le n 0 = replicate n 0"
  by (rule nth_equalityI) (simp_all add: to_le_def)

lemma to_le_all_zero_iff:
  fixes w :: "'a::len word"
  assumes "LENGTH('a) \<le> 8 * n"
  shows "to_le n w = replicate n 0 \<longleftrightarrow> w = 0"
  using to_le_inject [OF assms, of w 0] by simp


subsection \<open>Checked reads\<close>

text \<open>
  \<open>&xs[a..b]\<close>, \<open>xs[i]\<close> and \<open>from_le_bytes(xs[a..a + n])\<close> on bytes of unknown length: a read out of
  range is a panic. The rest of the function is the continuation \<open>k\<close>.
\<close>

definition with_range :: "bytes \<Rightarrow> nat \<Rightarrow> nat \<Rightarrow> (bytes \<Rightarrow> ('r, 'e) res) \<Rightarrow> ('r, 'e) res" where
  "with_range xs a b k = (if a \<le> b \<and> b \<le> length xs then k (slice xs a b) else Panic)"

definition with_at :: "bytes \<Rightarrow> nat \<Rightarrow> (u8 \<Rightarrow> ('r, 'e) res) \<Rightarrow> ('r, 'e) res" where
  "with_at xs i k = (if i < length xs then k (xs ! i) else Panic)"

definition with_le :: "nat \<Rightarrow> bytes \<Rightarrow> nat \<Rightarrow> ('a::len word \<Rightarrow> ('r, 'e) res) \<Rightarrow> ('r, 'e) res" where
  "with_le n xs a k = with_range xs a (a + n) (\<lambda>s. k (from_le s))"

lemma with_le_in [simp]: "a + n \<le> length xs \<Longrightarrow> with_le n xs a k = k (from_le (slice xs a (a + n)))"
  by (simp add: with_le_def with_range_def)

lemma with_at_in [simp]: "i < length xs \<Longrightarrow> with_at xs i k = k (xs ! i)"
  by (simp add: with_at_def)

lemma with_range_in [simp]:
  "a \<le> b \<Longrightarrow> b \<le> length xs \<Longrightarrow> with_range xs a b k = k (slice xs a b)"
  by (simp add: with_range_def)

lemma with_Ok_iff:
  "with_range xs a b k = Ok y \<longleftrightarrow> a \<le> b \<and> b \<le> length xs \<and> k (slice xs a b) = Ok y"
  "with_at xs i h = Ok y \<longleftrightarrow> i < length xs \<and> h (xs ! i) = Ok y"
  "with_le n xs a g = Ok y \<longleftrightarrow> a + n \<le> length xs \<and> g (from_le (slice xs a (a + n))) = Ok y"
  by (auto simp: with_range_def with_at_def with_le_def)


subsection \<open>UTF-8, as \<open>std::str::from_utf8\<close> decides it\<close>

definition is_cont :: "u8 \<Rightarrow> bool" where
  "is_cont b \<longleftrightarrow> 0x80 \<le> b \<and> b \<le> 0xBF"

function utf8_valid :: "bytes \<Rightarrow> bool" where
  "utf8_valid bs = (case bs of
     [] \<Rightarrow> True
   | b0 # r \<Rightarrow>
      if b0 < 0x80 then utf8_valid r
      else (case r of
        [] \<Rightarrow> False
      | b1 # r1 \<Rightarrow>
         if 0xC2 \<le> b0 \<and> b0 \<le> 0xDF then is_cont b1 \<and> utf8_valid r1
         else (case r1 of
           [] \<Rightarrow> False
         | b2 # r2 \<Rightarrow>
            if b0 = 0xE0 then 0xA0 \<le> b1 \<and> b1 \<le> 0xBF \<and> is_cont b2 \<and> utf8_valid r2
            else if b0 = 0xED then 0x80 \<le> b1 \<and> b1 \<le> 0x9F \<and> is_cont b2 \<and> utf8_valid r2
            else if 0xE1 \<le> b0 \<and> b0 \<le> 0xEF then is_cont b1 \<and> is_cont b2 \<and> utf8_valid r2
            else (case r2 of
              [] \<Rightarrow> False
            | b3 # r3 \<Rightarrow>
               if b0 = 0xF0 then 0x90 \<le> b1 \<and> b1 \<le> 0xBF \<and> is_cont b2 \<and> is_cont b3 \<and> utf8_valid r3
               else if 0xF1 \<le> b0 \<and> b0 \<le> 0xF3 then
                 is_cont b1 \<and> is_cont b2 \<and> is_cont b3 \<and> utf8_valid r3
               else if b0 = 0xF4 then
                 0x80 \<le> b1 \<and> b1 \<le> 0x8F \<and> is_cont b2 \<and> is_cont b3 \<and> utf8_valid r3
               else False))))"
  by pat_completeness auto
termination by (relation "measure length") auto

declare utf8_valid.simps [simp del]

lemma utf8_valid_Nil [simp]: "utf8_valid []"
  by (simp add: utf8_valid.simps)

lemma utf8_valid_ascii_Cons: "b < 0x80 \<Longrightarrow> utf8_valid (b # bs) = utf8_valid bs"
  by (simp add: utf8_valid.simps [of "b # bs"])

lemma utf8_valid_ascii: "\<forall>b \<in> set bs. b < 0x80 \<Longrightarrow> utf8_valid bs"
  by (induction bs) (simp_all add: utf8_valid_ascii_Cons)


subsection \<open>Fixed-width records in a block\<close>

text \<open>
  The interface of a record the code stores at \<open>index * width\<close>: what an encoder and a decoder
  of fixed width promise each other.
\<close>

locale fixed_record =
  fixes enc :: "'r \<Rightarrow> bytes"
    and dec :: "bytes \<Rightarrow> 'r"
    and valid :: "'r \<Rightarrow> bool"
    and width :: nat
  assumes width_pos: "0 < width"
    and length_enc: "valid r \<Longrightarrow> length (enc r) = width"
    and dec_enc: "valid r \<Longrightarrow> dec (enc r) = r"
begin

text \<open>The \<open>i\<close>-th record of a block, and the block with it overwritten.\<close>

definition get_slot :: "bytes \<Rightarrow> nat \<Rightarrow> 'r" where
  "get_slot blk i = dec (slice blk (i * width) (i * width + width))"

definition set_slot :: "bytes \<Rightarrow> nat \<Rightarrow> 'r \<Rightarrow> bytes" where
  "set_slot blk i r = put blk (i * width) (enc r)"

lemma slot_bound:
  assumes "i < n" and "n * width \<le> m"
  shows "i * width + width \<le> m"
proof -
  have "i * width + width = Suc i * width" by simp
  also have "\<dots> \<le> n * width" using assms(1) by (intro mult_le_mono1) simp
  finally show ?thesis using assms(2) by simp
qed

lemma length_set_slot:
  assumes "valid r" "i < n" "n * width \<le> length blk"
  shows "length (set_slot blk i r) = length blk"
  using assms slot_bound [of i n "length blk"] by (simp add: set_slot_def length_enc)

lemma get_set_same:
  assumes "valid r" "i < n" "n * width \<le> length blk"
  shows "get_slot (set_slot blk i r) i = r"
  using assms slot_bound [of i n "length blk"]
  by (simp add: get_slot_def set_slot_def slice_put_same length_enc dec_enc)

lemma get_set_other:
  assumes "valid r" "i < n" "n * width \<le> length blk" "j \<noteq> i"
  shows "get_slot (set_slot blk i r) j = get_slot blk j"
proof -
  have le: "i * width \<le> length blk" using assms slot_bound [of i n "length blk"] by simp
  show ?thesis
  proof (cases "j < i")
    case True
    then have "j * width + width \<le> i * width"
      using slot_bound [of j i "i * width"] by simp
    with le show ?thesis
      by (simp add: get_slot_def set_slot_def slice_put_before)
  next
    case False
    with assms(4) have "i < j" by simp
    then have "i * width + width \<le> j * width"
      using slot_bound [of i j "j * width"] by simp
    with le assms(1) show ?thesis
      by (simp add: get_slot_def set_slot_def slice_put_after length_enc)
  qed
qed

lemma get_set:
  assumes "valid r" "i < n" "n * width \<le> length blk"
  shows "get_slot (set_slot blk i r) j = (if j = i then r else get_slot blk j)"
  using assms get_set_same get_set_other by simp

end

end
