(* ===== verification/FsTypes.thy ===== *)
theory FsTypes
  imports Bytes
begin

text \<open>
  \<^verbatim>\<open>src/fs/mod.rs\<close> and the error type of \<^verbatim>\<open>src/stego/mod.rs\<close>: the block geometry, the error
  values, and the plaintext physical block (a 64-byte header with a CRC, then the payload).
  The CRC is the function of the crate \<^verbatim>\<open>crc32fast\<close>, a parameter \<open>crc32\<close> of the model.
\<close>


subsection \<open>Errors\<close>

text \<open>
  The messages carried by \<open>Manifest\<close>, \<open>Jpeg\<close> and \<open>InvalidMode\<close> are kept without the values the
  code interpolates into them; the payloads of foreign errors are not modelled.
\<close>

datatype codec_error =
    Image
  | CodecIo
  | PayloadTooLarge nat nat
  | NotACarrier
  | HeaderCrc
  | Jpeg string
  | InvalidMode string

datatype fs_error =
    Codec codec_error
  | Io
  | BlockCrc nat
  | Auth
  | AnchorRequired
  | SuperblockCrc
  | BadMagic
  | NoPrimary
  | Manifest string
  | BadBlock nat
  | NoSpace
  | EmptyPool
  | AlreadyFormatted
  | NotFound
  | Exists
  | NotEmpty
  | NotDir
  | IsDir


subsection \<open>Geometry\<close>

definition PB :: nat where "PB = 4096"
definition BLOCK_HEADER :: nat where "BLOCK_HEADER = 64"
definition UB :: nat where "UB = PB - BLOCK_HEADER"
definition SB_MAGIC :: bytes where
  "SB_MAGIC = [65, 76, 66, 85, 77, 70, 83, 0]"
definition FS_VERSION :: u32 where "FS_VERSION = 2"

text \<open>\<open>usize\<close> and \<open>u64\<close> arithmetic that the code checks is checked against this bound.\<close>

definition MAX64 :: nat where "MAX64 = 2 ^ 64 - 1"

lemma UB_val: "UB = 4032"
  by (simp add: UB_def PB_def BLOCK_HEADER_def)

lemma PB_val: "PB = 4096"
  by (simp add: PB_def)

lemma PB_split: "PB = BLOCK_HEADER + UB"
  by (simp add: UB_def PB_def BLOCK_HEADER_def)

lemma UB_pos [simp]: "0 < UB"
  by (simp add: UB_val)

text \<open>\<open>let mut b = [0u8; UB]; b[..p.len()].copy_from_slice(p)\<close>: a payload as a whole block.\<close>

definition pad :: "bytes \<Rightarrow> bytes" where
  "pad p = put (replicate UB 0) 0 p"

lemma pad_eq: "length p \<le> UB \<Longrightarrow> pad p = p @ replicate (UB - length p) 0"
  by (simp add: pad_def put_def)

lemma length_pad [simp]: "length p \<le> UB \<Longrightarrow> length (pad p) = UB"
  by (simp add: pad_eq)

lemma pad_whole [simp]: "length p = UB \<Longrightarrow> pad p = p"
  by (simp add: pad_eq)

lemma pad_Nil [simp]: "pad [] = replicate UB 0"
  by (simp add: pad_eq)


subsection \<open>The plaintext physical block\<close>

definition build_physical_block :: "(bytes \<Rightarrow> u32) \<Rightarrow> bytes \<Rightarrow> (bytes, fs_error) res" where
  "build_physical_block crc32 payload =
     (if length payload \<le> UB
      then let blk = put (replicate PB 0) BLOCK_HEADER payload
           in Ok (put blk 40 (to_le 4 (crc32 (slice blk BLOCK_HEADER PB))))
      else Panic)"

definition read_physical_block :: "(bytes \<Rightarrow> u32) \<Rightarrow> nat \<Rightarrow> bytes \<Rightarrow> (bytes, fs_error) res" where
  "read_physical_block crc32 lba blk =
     (if length blk \<noteq> PB then Err (Manifest ''physical block length'')
      else if crc32 (slice blk BLOCK_HEADER PB) \<noteq> from_le (slice blk 40 44)
        then Err (BlockCrc lba)
      else Ok (slice blk BLOCK_HEADER PB))"

lemma build_physical_block_Ok:
  assumes "length payload \<le> UB"
  obtains blk where "build_physical_block crc32 payload = Ok blk"
    and "length blk = PB"
    and "slice blk BLOCK_HEADER PB = pad payload"
    and "from_le (slice blk 40 44) = crc32 (pad payload)"
    and "slice blk 0 40 = replicate 40 0"
proof -
  define b0 where "b0 = put (replicate PB (0::u8)) BLOCK_HEADER payload"
  have l0: "length b0 = PB" using assms by (simp add: b0_def PB_split)
  have pl: "slice b0 BLOCK_HEADER PB = pad payload"
    using assms by (simp add: b0_def slice_def put_def pad_eq PB_split)
  define blk where "blk = put b0 40 (to_le 4 (crc32 (pad payload)))"
  have "build_physical_block crc32 payload = Ok blk"
    using assms by (simp add: build_physical_block_def Let_def b0_def [symmetric] pl blk_def)
  moreover have "length blk = PB" using l0 by (simp add: blk_def PB_def)
  moreover have "slice blk BLOCK_HEADER PB = pad payload"
    using l0 by (simp add: blk_def slice_put_after BLOCK_HEADER_def PB_def pl [symmetric])
  moreover have "slice blk 40 44 = to_le 4 (crc32 (pad payload))"
    using l0 by (simp add: blk_def slice_put_same PB_def)
  moreover have "slice blk 0 40 = slice b0 0 40"
    using l0 by (simp add: blk_def slice_put_before PB_def)
  moreover have "slice b0 0 40 = replicate 40 0"
    by (simp add: b0_def slice_put_before slice_replicate BLOCK_HEADER_def PB_def)
  ultimately show ?thesis using that by simp
qed

lemma read_build_physical_block [roundtrip]:
  assumes "length payload \<le> UB" and "build_physical_block crc32 payload = Ok blk"
  shows "read_physical_block crc32 lba blk = Ok (pad payload)"
proof (rule build_physical_block_Ok [OF assms(1), of crc32])
  fix b assume "build_physical_block crc32 payload = Ok b" "length b = PB"
    "slice b BLOCK_HEADER PB = pad payload" "from_le (slice b 40 44) = crc32 (pad payload)"
  with assms(2) show ?thesis by (simp add: read_physical_block_def)
qed

lemma read_physical_block_no_panic: "read_physical_block crc32 lba blk \<noteq> Panic"
  by (simp add: read_physical_block_def)

lemma read_physical_block_Ok_iff:
  "read_physical_block crc32 lba blk = Ok p \<longleftrightarrow>
     length blk = PB \<and> p = slice blk BLOCK_HEADER PB \<and> crc32 p = from_le (slice blk 40 44)"
  by (auto simp: read_physical_block_def)

lemma read_physical_block_length:
  "read_physical_block crc32 lba blk = Ok p \<Longrightarrow> length p = UB"
  by (auto simp: read_physical_block_Ok_iff UB_def)

end
