(* ===== verification/Stego.thy ===== *)
theory Stego
  imports FsTypes "HOL-Library.List_Lexorder"
begin

text \<open>
  \<^verbatim>\<open>src/stego/mod.rs\<close>: carrier paths, the chunk header, the ordering of the embedding positions,
  and the two bit loops the image codecs share. The functions of the crates the code calls are
  the fields of \<open>ext\<close>; nothing is known of them but the named hypotheses in the theorems.
\<close>


subsection \<open>Paths\<close>

text \<open>
  A path is the name of a file in the album directory, the only directory the code addresses.
  \<open>paths.sort()\<close> orders them by their bytes.
\<close>

datatype path = Path (path_name: bytes)

instantiation path :: linorder
begin

definition less_eq_path :: "path \<Rightarrow> path \<Rightarrow> bool" where
  "less_eq_path p q \<longleftrightarrow> path_name p \<le> path_name q"

definition less_path :: "path \<Rightarrow> path \<Rightarrow> bool" where
  "less_path p q \<longleftrightarrow> path_name p < path_name q"

instance
  by standard (auto simp: less_eq_path_def less_path_def path.expand)

end

type_synonym files = "path \<rightharpoonup> bytes"


subsection \<open>Foreign functions\<close>

record rgba_image =
  im_width :: u32
  im_height :: u32
  im_data :: bytes

record jpeg_image =
  jp_components :: "i16 list list list"

text \<open>
  \<^verbatim>\<open>crc\<close>, \<^verbatim>\<open>crc32fast\<close>, \<^verbatim>\<open>blake3\<close>, \<^verbatim>\<open>rand\<close> with \<^verbatim>\<open>rand_chacha\<close>, \<^verbatim>\<open>image\<close>, the C bridge to
  \<^verbatim>\<open>mozjpeg\<close>, \<^verbatim>\<open>argon2\<close> and \<^verbatim>\<open>chacha20poly1305\<close>. Random bytes and the clock are read at a
  position that each read advances. \<open>e_fs_write\<close> and \<open>e_fs_rename\<close> tell whether the operating system lets
  the code write a file and move it in a directory that holds these files.
\<close>

record ext =
  e_crc16 :: "bytes \<Rightarrow> u16"
  e_crc32 :: "bytes \<Rightarrow> u32"
  e_derive_key :: "string \<Rightarrow> bytes \<Rightarrow> bytes"
  e_shuffle :: "bytes \<Rightarrow> nat list \<Rightarrow> nat list"
  e_png_dimensions :: "bytes \<Rightarrow> (u32 \<times> u32) option"
  e_png_open :: "bytes \<Rightarrow> rgba_image option"
  e_png_save :: "rgba_image \<Rightarrow> bytes option"
  e_jpeg_read :: "bytes \<Rightarrow> (jpeg_image, string) res"
  e_jpeg_write :: "bytes \<Rightarrow> jpeg_image \<Rightarrow> (bytes, string) res"
  e_argon2 :: "u32 \<Rightarrow> u32 \<Rightarrow> u32 \<Rightarrow> nat \<Rightarrow> bytes \<Rightarrow> bytes \<Rightarrow> bytes option"
  e_seal :: "bytes \<Rightarrow> bytes \<Rightarrow> bytes \<Rightarrow> bytes \<Rightarrow> (bytes \<times> bytes) option"
  e_unseal :: "bytes \<Rightarrow> bytes \<Rightarrow> bytes \<Rightarrow> bytes \<Rightarrow> bytes \<Rightarrow> bytes option"
  e_random :: "nat \<Rightarrow> nat \<Rightarrow> bytes"
  e_now :: "nat \<Rightarrow> u64"
  e_fs_write :: "files \<Rightarrow> path \<Rightarrow> bytes \<Rightarrow> bool"
  e_fs_rename :: "files \<Rightarrow> path \<Rightarrow> path \<Rightarrow> bool"

subsection \<open>Names of paths\<close>

text \<open>\<open>Path::file_stem\<close> and \<open>Path::extension\<close>: the name is split at its last dot, unless that is
  its first byte.\<close>

definition split_name :: "bytes \<Rightarrow> bytes \<times> bytes option" where
  "split_name name =
     (let after = rev (takeWhile (\<lambda>c. c \<noteq> 46) (rev name));
          before = rev (dropWhile (\<lambda>c. c \<noteq> 46) (rev name))
      in if name = [46, 46] \<or> length before \<le> 1 then (name, None)
         else (butlast before, Some after))"

definition extension :: "path \<Rightarrow> bytes option" where
  "extension p = snd (split_name (path_name p))"

definition with_extension :: "path \<Rightarrow> bytes \<Rightarrow> path" where
  "with_extension p e = Path (fst (split_name (path_name p)) @ 46 # e)"

definition to_ascii_lowercase :: "bytes \<Rightarrow> bytes" where
  "to_ascii_lowercase xs = map (\<lambda>c. if 65 \<le> c \<and> c \<le> 90 then c + 32 else c) xs"

datatype image_kind = Png | JpegKind

definition kind_for :: "path \<Rightarrow> image_kind option" where
  "kind_for p = Option.bind (extension p) (\<lambda>e.
     if \<not> utf8_valid e then None
     else let e = to_ascii_lowercase e
       in if e = [112, 110, 103] then Some Png
          else if e = [106, 112, 103] \<or> e = [106, 112, 101, 103] then Some JpegKind
          else None)"


subsection \<open>Chunks\<close>

definition CHUNK_MAGIC :: u32 where "CHUNK_MAGIC = 0x414C424D"
definition CHUNK_HEADER_LEN :: nat where "CHUNK_HEADER_LEN = 16"

record chunk_meta =
  cm_chunk_index :: u32
  cm_flags :: u16

datatype chunk_write =
    WriteFramed chunk_meta
  | WriteMarkerless u32

datatype chunk_read =
    ReadFramed
  | ReadMarkerless u32 nat

definition order_positions ::
    "ext \<Rightarrow> nat list \<Rightarrow> bytes \<Rightarrow> u32 \<Rightarrow> (nat list, codec_error) res" where
  "order_positions e positions order_key chunk_index =
     (if length order_key \<noteq> 32
      then Err (InvalidMode ''markerless mode requires a 32-byte order key'')
      else
        let material = replicate 36 0;
            material = put material 0 order_key;
            material = put material 32 (to_le 4 chunk_index);
            seed = e_derive_key e ''albumfs carrier order v1'' material
        in Ok (e_shuffle e seed positions))"

definition encode_header :: "ext \<Rightarrow> chunk_meta \<Rightarrow> u32 \<Rightarrow> bytes" where
  "encode_header e meta chunk_len =
     (let h = replicate CHUNK_HEADER_LEN 0;
          h = put h 0 (to_le 4 CHUNK_MAGIC);
          h = put h 4 (to_le 4 (cm_chunk_index meta));
          h = put h 8 (to_le 4 chunk_len);
          h = put h 12 (to_le 2 (cm_flags meta));
          crc = e_crc16 e (slice h 0 14)
      in put h 14 (to_le 2 crc))"

definition decode_header :: "ext \<Rightarrow> bytes \<Rightarrow> (chunk_meta \<times> u32, codec_error) res" where
  "decode_header e h =
     (if length h < CHUNK_HEADER_LEN then Err NotACarrier
      else
        with_le 4 h 0 (\<lambda>magic.
        if magic \<noteq> CHUNK_MAGIC then Err NotACarrier
        else
          with_le 2 h 14 (\<lambda>stored.
          with_range h 0 14 (\<lambda>checked.
          if e_crc16 e checked \<noteq> stored then Err HeaderCrc
          else
            with_le 4 h 4 (\<lambda>chunk_index.
            with_le 4 h 8 (\<lambda>chunk_len.
            with_le 2 h 12 (\<lambda>flags.
            Ok (\<lparr>cm_chunk_index = chunk_index, cm_flags = flags\<rparr>, chunk_len))))))))"


subsection \<open>The bit loops\<close>

text \<open>
  \<open>write_bytes\<close> of \<^verbatim>\<open>png.rs\<close> and \<open>embed_bytes\<close> of \<^verbatim>\<open>jpeg.rs\<close> run the same loop over the bits of
  \<open>first\<close> followed by \<open>second\<close>, most significant bit first, and differ in how one bit is stored
  (\<open>put_bit\<close>); \<open>read_bytes\<close> and \<open>extract_bytes\<close> likewise (\<open>get_bit\<close>).
\<close>

definition payload_bit :: "bytes \<Rightarrow> bytes \<Rightarrow> nat \<Rightarrow> u8" where
  "payload_bit first second bit_index =
     (let byte_index = bit_index div 8;
          bit_in_byte = 7 - bit_index mod 8;
          byte = (if byte_index < length first then first ! byte_index
                  else second ! (byte_index - length first))
      in drop_bit bit_in_byte byte AND 1)"

fun embed_loop ::
    "('c \<Rightarrow> nat \<Rightarrow> u8 \<Rightarrow> ('c, codec_error) res) \<Rightarrow> bytes \<Rightarrow> bytes \<Rightarrow> 'c \<Rightarrow> nat \<Rightarrow> nat list \<Rightarrow>
      ('c, codec_error) res" where
  "embed_loop put_bit first second img bit_index [] = Ok img"
| "embed_loop put_bit first second img bit_index (position # positions) =
     and_then (put_bit img position (payload_bit first second bit_index)) (\<lambda>img.
     embed_loop put_bit first second img (Suc bit_index) positions)"

definition embed_with ::
    "('c \<Rightarrow> nat \<Rightarrow> u8 \<Rightarrow> ('c, codec_error) res) \<Rightarrow> 'c \<Rightarrow> nat list \<Rightarrow> bytes \<Rightarrow> bytes \<Rightarrow>
      ('c, codec_error) res" where
  "embed_with put_bit img positions first second =
     (if length first + length second > MAX64 \<or> (length first + length second) * 8 > MAX64
      then Err (InvalidMode ''payload bit length overflow'')
      else
        let total_bits = (length first + length second) * 8
        in if length positions < total_bits
           then Err (PayloadTooLarge (length second) (length positions div 8))
           else embed_loop put_bit first second img 0 (take total_bits positions))"

fun extract_loop ::
    "('c \<Rightarrow> nat \<Rightarrow> (u8, codec_error) res) \<Rightarrow> 'c \<Rightarrow> bytes \<Rightarrow> nat \<Rightarrow> nat list \<Rightarrow>
      (bytes, codec_error) res" where
  "extract_loop get_bit img bs output_bit [] = Ok bs"
| "extract_loop get_bit img bs output_bit (position # positions) =
     and_then (get_bit img position) (\<lambda>bit.
     extract_loop get_bit img
       (bs[output_bit div 8 :=
          bs ! (output_bit div 8) OR push_bit (7 - output_bit mod 8) bit])
       (Suc output_bit) positions)"

definition extract_with ::
    "('c \<Rightarrow> nat \<Rightarrow> (u8, codec_error) res) \<Rightarrow> 'c \<Rightarrow> nat list \<Rightarrow> nat \<Rightarrow> nat \<Rightarrow>
      (bytes, codec_error) res" where
  "extract_with get_bit img positions bit_offset len =
     (if len * 8 > MAX64 then Err (InvalidMode ''payload bit length overflow'')
      else if bit_offset + len * 8 > MAX64 then Err (InvalidMode ''payload bit range overflow'')
      else
        let end_bit = bit_offset + len * 8
        in if end_bit > length positions then Err NotACarrier
           else extract_loop get_bit img (replicate len 0) 0 (slice positions bit_offset end_bit))"


subsection \<open>The header round-trips\<close>

lemma length_encode_header [simp]: "length (encode_header e meta n) = 16"
  by (simp add: encode_header_def CHUNK_HEADER_LEN_def Let_def)

lemma decode_encode_header [roundtrip]:
  "decode_header e (encode_header e meta n) = Ok (meta, n)"
proof -
  define h where "h = put (put (put (put (replicate CHUNK_HEADER_LEN 0) 0 (to_le 4 CHUNK_MAGIC)) 4
    (to_le 4 (cm_chunk_index meta))) 8 (to_le 4 n)) 12 (to_le 2 (cm_flags meta))"
  have l: "length h = 16" by (simp add: h_def CHUNK_HEADER_LEN_def)
  have e: "encode_header e meta n = put h 14 (to_le 2 (e_crc16 e (slice h 0 14)))"
    by (simp add: encode_header_def h_def Let_def)
  have f: "slice h 0 4 = to_le 4 CHUNK_MAGIC" "slice h 4 8 = to_le 4 (cm_chunk_index meta)"
    "slice h 8 12 = to_le 4 n" "slice h 12 14 = to_le 2 (cm_flags meta)"
    by (simp_all add: h_def CHUNK_HEADER_LEN_def slice_simps)
  have g: "slice (put h 14 y) a b = slice h a b" if "b \<le> 14" "length y = 2" for y a b
    using that l by (simp add: slice_put_before)
  have "slice (put h 14 y) 14 16 = y" if "length y = 2" for y
    using that l by (simp add: slice_put_same)
  with l f show ?thesis
    by (simp add: decode_header_def e g CHUNK_HEADER_LEN_def)
qed

lemma decode_header_no_panic: "decode_header e h \<noteq> Panic"
  by (auto simp: decode_header_def CHUNK_HEADER_LEN_def)

lemma length_order_positions:
  assumes "order_positions e ps key i = Ok qs"
  shows "length key = 32"
  using assms by (simp add: order_positions_def split: if_splits)

subsection \<open>Carriers of bits\<close>

lemma payload_bit_append:
  "k < 8 * (length first + length second) \<Longrightarrow>
    payload_bit first second k = of_bool (bit ((first @ second) ! (k div 8)) (7 - k mod 8))"
  by (auto simp: payload_bit_def Let_def nth_append bit_iff_odd_drop_bit and_one_eq mod_2_eq_odd)

lemma payload_bit_le: "payload_bit first second k \<le> 1"
  by (simp add: payload_bit_def Let_def word_and_le1)

text \<open>The accumulator of the reading loop after \<open>i\<close> bits of \<open>target\<close>.\<close>

definition holds_bits :: "bytes \<Rightarrow> nat \<Rightarrow> bytes \<Rightarrow> bool" where
  "holds_bits target i bs \<longleftrightarrow> length bs = length target \<and>
     (\<forall>j < length target. \<forall>n < 8. bit (bs ! j) n \<longleftrightarrow> 8 * j + (7 - n) < i \<and> bit (target ! j) n)"

lemma holds_bits_0: "holds_bits target 0 (replicate (length target) 0)"
  by (simp add: holds_bits_def)

lemma holds_bits_end: "holds_bits target (8 * length target) bs \<Longrightarrow> bs = target"
proof (rule nth_equalityI)
  assume h: "holds_bits target (8 * length target) bs"
  then show "length bs = length target" by (simp add: holds_bits_def)
  fix j assume j: "j < length bs"
  show "bs ! j = target ! j"
  proof (rule bit_word_eqI)
    fix n assume "n < LENGTH(8)"
    moreover have "8 * j + (7 - n) < 8 * length target" if "n < 8"
      using h j that by (simp add: holds_bits_def)
    ultimately show "bit (bs ! j) n \<longleftrightarrow> bit (target ! j) n"
      using h j by (simp add: holds_bits_def)
  qed
qed

lemma holds_bits_step:
  assumes h: "holds_bits target i bs" and i: "i < 8 * length target"
  shows "holds_bits target (Suc i) (bs[i div 8 := bs ! (i div 8) OR
    push_bit (7 - i mod 8) (of_bool (bit (target ! (i div 8)) (7 - i mod 8)))])"
proof -
  have l: "length bs = length target" "i div 8 < length target" using h i by (auto simp: holds_bits_def)
  have "bit ((bs[i div 8 := bs ! (i div 8) OR
      push_bit (7 - i mod 8) (of_bool (bit (target ! (i div 8)) (7 - i mod 8)))]) ! j) n \<longleftrightarrow>
      8 * j + (7 - n) < Suc i \<and> bit (target ! j) n"
    if j: "j < length target" and n: "n < 8" for j n
  proof (cases "j = i div 8")
    case False
    have "8 * j + (7 - n) \<noteq> i"
    proof
      assume "8 * j + (7 - n) = i"
      then have "i div 8 = j" using n by auto
      with False show False by simp
    qed
    with False h j n show ?thesis by (auto simp: holds_bits_def less_Suc_eq)
  next
    case True
    have e: "8 * j + (7 - n) = i \<longleftrightarrow> n = 7 - i mod 8"
      unfolding True using n by presburger
    have "bit (push_bit (7 - i mod 8) (of_bool P :: u8)) n \<longleftrightarrow> P \<and> n = 7 - i mod 8" for P
      using n by (auto simp: bit_push_bit_iff bit_1_iff)
    with True h j n l e show ?thesis
      by (auto simp: holds_bits_def less_Suc_eq bit_or_iff)
  qed
  with l show ?thesis by (simp add: holds_bits_def)
qed

lemma extract_loop_holds:
  assumes "holds_bits target i bs" "i + length ps = 8 * length target"
    and "\<forall>k < length ps. get_bit c (ps ! k) =
      Ok (of_bool (bit (target ! ((i + k) div 8)) (7 - (i + k) mod 8)))"
  shows "extract_loop get_bit c bs i ps = Ok target"
  using assms
proof (induction ps arbitrary: i bs)
  case Nil
  then show ?case using holds_bits_end by simp
next
  case (Cons p ps)
  have "get_bit c p = Ok (of_bool (bit (target ! (i div 8)) (7 - i mod 8)))"
    using Cons.prems(3) by (auto dest: spec [where x = 0])
  moreover have "\<forall>k < length ps. get_bit c (ps ! k) =
      Ok (of_bool (bit (target ! ((Suc i + k) div 8)) (7 - (Suc i + k) mod 8)))"
    using Cons.prems(3) by (metis add_Suc_shift length_Cons nth_Cons_Suc Suc_less_eq)
  moreover have "holds_bits target (Suc i) (bs[i div 8 := bs ! (i div 8) OR
    push_bit (7 - i mod 8) (of_bool (bit (target ! (i div 8)) (7 - i mod 8)))])"
    by (rule holds_bits_step) (use Cons.prems in simp_all)
  ultimately show ?case
    using Cons.IH [of "Suc i"] Cons.prems(2) by (simp del: push_bit_of_1)
qed

text \<open>
  What one bit of an image promises the loops: storing a usable position succeeds, is read
  back, leaves every other usable position as it was, and keeps the set of usable positions;
  \<open>same\<close> is what the image keeps of its cover.
\<close>

locale bit_carrier =
  fixes put_bit :: "'c \<Rightarrow> nat \<Rightarrow> u8 \<Rightarrow> ('c, codec_error) res"
    and get_bit :: "'c \<Rightarrow> nat \<Rightarrow> (u8, codec_error) res"
    and usable :: "'c \<Rightarrow> nat list"
    and same :: "'c \<Rightarrow> 'c \<Rightarrow> bool"
  assumes put_usable: "p \<in> set (usable c) \<Longrightarrow> b \<le> 1 \<Longrightarrow>
      \<exists>c'. put_bit c p b = Ok c' \<and> usable c' = usable c \<and> same c c' \<and> get_bit c' p = Ok b \<and>
        (\<forall>q \<in> set (usable c). q \<noteq> p \<longrightarrow> get_bit c' q = get_bit c q)"
    and same_refl: "same c c"
    and same_trans: "same c c' \<Longrightarrow> same c' c'' \<Longrightarrow> same c c''"
begin

lemma embed_loop_stores:
  assumes "distinct ps" "set ps \<subseteq> set (usable c)"
  shows "\<exists>c'. embed_loop put_bit first second c i ps = Ok c' \<and> usable c' = usable c \<and> same c c' \<and>
    (\<forall>k < length ps. get_bit c' (ps ! k) = Ok (payload_bit first second (i + k))) \<and>
    (\<forall>q \<in> set (usable c). q \<notin> set ps \<longrightarrow> get_bit c' q = get_bit c q)"
  using assms
proof (induction ps arbitrary: c i)
  case Nil
  then show ?case by (simp add: same_refl)
next
  case (Cons p ps)
  obtain c1 where c1: "put_bit c p (payload_bit first second i) = Ok c1" "usable c1 = usable c"
      "same c c1" "get_bit c1 p = Ok (payload_bit first second i)"
      "\<forall>q \<in> set (usable c). q \<noteq> p \<longrightarrow> get_bit c1 q = get_bit c q"
    using put_usable [of p c "payload_bit first second i"] Cons.prems(2) payload_bit_le by auto
  obtain c' where c': "embed_loop put_bit first second c1 (Suc i) ps = Ok c'" "usable c' = usable c1"
      "same c1 c'" "\<forall>k < length ps. get_bit c' (ps ! k) = Ok (payload_bit first second (Suc i + k))"
      "\<forall>q \<in> set (usable c1). q \<notin> set ps \<longrightarrow> get_bit c' q = get_bit c1 q"
    using Cons.IH [of c1 "Suc i"] Cons.prems c1(2) by auto
  have "get_bit c' p = Ok (payload_bit first second i)"
    using c'(5) c1 Cons.prems by auto
  then have "\<forall>k < length (p # ps). get_bit c' ((p # ps) ! k) = Ok (payload_bit first second (i + k))"
    using c'(4) by (auto simp: nth_Cons split: nat.splits)
  with c1 c' same_trans show ?case by auto
qed

lemma embed_extract:
  fixes first second :: bytes
  defines "n \<equiv> 8 * (length first + length second)"
  assumes ps: "distinct ps" "set ps \<subseteq> set (usable c)" "n \<le> length ps" and max: "n \<le> MAX64"
  shows "\<exists>c'. embed_with put_bit c ps first second = Ok c' \<and> usable c' = usable c \<and> same c c' \<and>
    (\<forall>q \<in> set (usable c). q \<notin> set (take n ps) \<longrightarrow> get_bit c' q = get_bit c q) \<and>
    (\<forall>qs a m. take n qs = take n ps \<longrightarrow> 8 * (a + m) \<le> n \<longrightarrow>
       extract_with get_bit c' qs (8 * a) m = Ok (slice (first @ second) a (a + m)))"
proof -
  let ?b = "first @ second"
  have d: "distinct (take n ps)" "set (take n ps) \<subseteq> set (usable c)"
    using ps set_take_subset [of n ps] by auto
  obtain c' where c': "embed_loop put_bit first second c 0 (take n ps) = Ok c'"
      "usable c' = usable c" "same c c'"
      "\<forall>k < length (take n ps). get_bit c' (take n ps ! k) = Ok (payload_bit first second (0 + k))"
      "\<forall>q \<in> set (usable c). q \<notin> set (take n ps) \<longrightarrow> get_bit c' q = get_bit c q"
    using embed_loop_stores [OF d, of first second 0] by auto
  have e: "embed_with put_bit c ps first second = Ok c'"
    using c'(1) ps(3) max by (simp add: embed_with_def n_def mult.commute)
  have g: "get_bit c' (qs ! k) = Ok (of_bool (bit (?b ! (k div 8)) (7 - k mod 8)))"
    if "take n qs = take n ps" "k < n" for qs k
  proof -
    have "qs ! k = take n ps ! k" using that by (metis nth_take)
    with c'(4) that ps(3) show ?thesis
      using payload_bit_append [of k first second] by (simp add: n_def)
  qed
  have "extract_with get_bit c' qs (8 * a) m = Ok (slice ?b a (a + m))"
    if q: "take n qs = take n ps" "8 * (a + m) \<le> n" for qs a m
  proof -
    have lq: "n \<le> length qs"
      using q(1) ps(3) by (metis length_take min.absorb2 min_def nle_le)
    have lb: "length (slice ?b a (a + m)) = m" using q(2) by (simp add: n_def)
    have "extract_loop get_bit c' (replicate m 0) 0 (slice qs (8 * a) (8 * a + m * 8)) =
        Ok (slice ?b a (a + m))"
    proof (rule extract_loop_holds)
      show "holds_bits (slice ?b a (a + m)) 0 (replicate m 0)"
        using holds_bits_0 [of "slice ?b a (a + m)"] lb by simp
      show "0 + length (slice qs (8 * a) (8 * a + m * 8)) = 8 * length (slice ?b a (a + m))"
        using lq q(2) lb by simp
      show "\<forall>k < length (slice qs (8 * a) (8 * a + m * 8)).
          get_bit c' (slice qs (8 * a) (8 * a + m * 8) ! k) =
          Ok (of_bool (bit (slice ?b a (a + m) ! ((0 + k) div 8)) (7 - (0 + k) mod 8)))"
      proof (intro allI impI)
        fix k assume "k < length (slice qs (8 * a) (8 * a + m * 8))"
        then have k: "k < 8 * m" by simp
        then have "8 * a + k < n" using q(2) by simp
        note g [OF q(1) this]
        moreover have "(8 * a + k) div 8 = a + k div 8" "(8 * a + k) mod 8 = k mod 8" by auto
        moreover have "k div 8 < m" using k by auto
        ultimately show "get_bit c' (slice qs (8 * a) (8 * a + m * 8) ! k) =
            Ok (of_bool (bit (slice ?b a (a + m) ! ((0 + k) div 8)) (7 - (0 + k) mod 8)))"
          using k lq q(2) by (simp add: nth_slice n_def)
      qed
    qed
    with lq q(2) max show ?thesis by (simp add: extract_with_def mult.commute)
  qed
  with e c' show ?thesis by blast
qed

end

end
