(* ===== verification/Png.thy ===== *)
theory Png
  imports Stego "HOL-Library.Multiset"
begin

text \<open>
  \<^verbatim>\<open>src/stego/png.rs\<close>: the PNG carrier. One payload bit is the least significant bit of one
  colour channel; the alpha channel is never touched. The files are a map from paths to
  contents, and a call returns the map after it.
\<close>

definition png_raw_capacity :: "u32 \<Rightarrow> u32 \<Rightarrow> u64" where
  "png_raw_capacity w h = (ucast w * ucast h * 3) div 8"

definition image_open :: "ext \<Rightarrow> path \<Rightarrow> files \<Rightarrow> (rgba_image, codec_error) res" where
  "image_open e path fs = ok_or Image (Option.bind (fs path) (e_png_open e))"

text \<open>\<open>get_pixel\<close> and \<open>get_pixel_mut\<close> of the crate panic outside the image.\<close>

definition pixel_offset :: "rgba_image \<Rightarrow> u32 \<Rightarrow> u32 \<Rightarrow> (nat, codec_error) res" where
  "pixel_offset img x y =
     (if x < im_width img \<and> y < im_height img
      then Ok ((unat y * unat (im_width img) + unat x) * 4) else Panic)"

definition png_put_bit :: "rgba_image \<Rightarrow> nat \<Rightarrow> u8 \<Rightarrow> (rgba_image, codec_error) res" where
  "png_put_bit img position bit_value =
     (let width = unat (im_width img);
          pixel_index = position div 3;
          channel = position mod 3
      in if width = 0 then Panic
         else
           let x = of_nat (pixel_index mod width);
               y = of_nat (pixel_index div width)
           in and_then (pixel_offset img x y) (\<lambda>pixel.
              Ok (img\<lparr>im_data := (im_data img)[pixel + channel :=
                    (im_data img ! (pixel + channel) AND 0xfe) OR bit_value]\<rparr>)))"

definition png_get_bit :: "rgba_image \<Rightarrow> nat \<Rightarrow> (u8, codec_error) res" where
  "png_get_bit img position =
     (let width = unat (im_width img);
          pixel_index = position div 3;
          channel = position mod 3
      in if width = 0 then Panic
         else
           let x = of_nat (pixel_index mod width);
               y = of_nat (pixel_index div width)
           in and_then (pixel_offset img x y) (\<lambda>pixel.
              Ok (im_data img ! (pixel + channel) AND 1)))"

definition png_write_bytes ::
    "rgba_image \<Rightarrow> nat list \<Rightarrow> bytes \<Rightarrow> bytes \<Rightarrow> (rgba_image, codec_error) res" where
  "png_write_bytes = embed_with png_put_bit"

definition png_read_bytes ::
    "rgba_image \<Rightarrow> nat list \<Rightarrow> nat \<Rightarrow> nat \<Rightarrow> (bytes, codec_error) res" where
  "png_read_bytes = extract_with png_get_bit"

text \<open>\<^verbatim>\<open>albumfs-tmp.png\<close>.\<close>

definition PNG_TMP :: bytes where
  "PNG_TMP = [97, 108, 98, 117, 109, 102, 115, 45, 116, 109, 112, 46, 112, 110, 103]"

definition png_save_atomic ::
    "ext \<Rightarrow> path \<Rightarrow> rgba_image \<Rightarrow> files \<Rightarrow> (files, codec_error) res" where
  "png_save_atomic e path img fs =
     (let tmp = with_extension path PNG_TMP
      in and_then (ok_or Image (e_png_save e img)) (\<lambda>encoded.
         if \<not> e_fs_write e fs tmp encoded then Err Image
         else
           let fs = fs(tmp \<mapsto> encoded)
           in if \<not> e_fs_rename e fs tmp path then Err CodecIo
              else Ok ((fs(tmp := None))(path := fs tmp))))"

definition png_slots :: "rgba_image \<Rightarrow> nat" where
  "png_slots img = unat (ucast (im_width img) * ucast (im_height img) * 3 :: u64)"

definition png_raw_capacity_bytes :: "ext \<Rightarrow> path \<Rightarrow> files \<Rightarrow> (u64, codec_error) res" where
  "png_raw_capacity_bytes e path fs =
     and_then (ok_or Image (Option.bind (fs path) (e_png_dimensions e))) (\<lambda>(w, h).
     Ok (png_raw_capacity w h))"

definition png_write_chunk ::
    "ext \<Rightarrow> path \<Rightarrow> chunk_write \<Rightarrow> bytes \<Rightarrow> bytes \<Rightarrow> files \<Rightarrow> (files, codec_error) res" where
  "png_write_chunk e path mode payload order_key fs =
     and_then (image_open e path fs) (\<lambda>img.
     let raw = unat (png_raw_capacity (im_width img) (im_height img))
     in and_then
          (case mode of
             WriteFramed meta \<Rightarrow>
               if order_key \<noteq> [] then Err (InvalidMode ''framed mode requires an empty order key'')
               else if length payload > 2 ^ 32 - 1 then
                 Err (PayloadTooLarge (length payload) (raw - CHUNK_HEADER_LEN))
               else
                 let need = CHUNK_HEADER_LEN + length payload
                 in if need > raw
                    then Err (PayloadTooLarge (length payload) (raw - CHUNK_HEADER_LEN))
                    else Ok (Some (encode_header e meta (of_nat (length payload))), [0..<need * 8])
           | WriteMarkerless chunk_index \<Rightarrow>
               if length payload > raw then Err (PayloadTooLarge (length payload) raw)
               else
                 and_then (order_positions e [0..<png_slots img] order_key chunk_index)
                   (\<lambda>positions. Ok (None, positions)))
        (\<lambda>(header, positions).
     let header = (case header of None \<Rightarrow> [] | Some bs \<Rightarrow> bs)
     in and_then (png_write_bytes img positions header payload) (\<lambda>img.
        png_save_atomic e path img fs)))"

definition png_read_chunk ::
    "ext \<Rightarrow> path \<Rightarrow> chunk_read \<Rightarrow> bytes \<Rightarrow> files \<Rightarrow> (chunk_meta \<times> bytes, codec_error) res" where
  "png_read_chunk e path mode order_key fs =
     and_then (image_open e path fs) (\<lambda>img.
     let slots = png_slots img;
         raw = unat (png_raw_capacity (im_width img) (im_height img))
     in case mode of
          ReadFramed \<Rightarrow>
            if order_key \<noteq> [] then Err (InvalidMode ''framed mode requires an empty order key'')
            else
              let identity = [0..<slots]
              in and_then (png_read_bytes img identity 0 CHUNK_HEADER_LEN) (\<lambda>header.
                 and_then (decode_header e header) (\<lambda>(meta, payload_len).
                 if unat payload_len > raw - CHUNK_HEADER_LEN then Err NotACarrier
                 else
                   and_then (png_read_bytes img identity (CHUNK_HEADER_LEN * 8) (unat payload_len))
                     (\<lambda>payload. Ok (meta, payload))))
        | ReadMarkerless chunk_index payload_len \<Rightarrow>
            if payload_len > raw then Err NotACarrier
            else
              and_then (order_positions e [0..<slots] order_key chunk_index) (\<lambda>positions.
              and_then (png_read_bytes img positions 0 payload_len) (\<lambda>payload.
              Ok (\<lparr>cm_chunk_index = chunk_index, cm_flags = 0\<rparr>, payload))))"

definition png_write_prefix :: "ext \<Rightarrow> path \<Rightarrow> bytes \<Rightarrow> files \<Rightarrow> (files, codec_error) res" where
  "png_write_prefix e path bs fs =
     and_then (image_open e path fs) (\<lambda>img.
     let raw = unat (png_raw_capacity (im_width img) (im_height img))
     in if length bs > raw then Err (PayloadTooLarge (length bs) raw)
        else
          let positions = [0..<length bs * 8]
          in and_then (png_write_bytes img positions [] bs) (\<lambda>img.
             png_save_atomic e path img fs))"

definition png_read_prefix :: "ext \<Rightarrow> path \<Rightarrow> nat \<Rightarrow> files \<Rightarrow> (bytes, codec_error) res" where
  "png_read_prefix e path len fs =
     and_then (image_open e path fs) (\<lambda>img.
     if len > unat (png_raw_capacity (im_width img) (im_height img)) then Err NotACarrier
     else png_read_bytes img [0..<len * 8] 0 len)"


subsection \<open>The interpretation of the bit interface\<close>

definition png_wf :: "rgba_image \<Rightarrow> bool" where
  "png_wf img \<longleftrightarrow> length (im_data img) = 4 * (unat (im_width img) * unat (im_height img)) \<and>
     length (im_data img) \<le> MAX64"

definition png_positions :: "rgba_image \<Rightarrow> nat list" where
  "png_positions img =
     (if png_wf img then [0..<3 * (unat (im_width img) * unat (im_height img))] else [])"

definition png_same :: "rgba_image \<Rightarrow> rgba_image \<Rightarrow> bool" where
  "png_same img img' \<longleftrightarrow> im_width img' = im_width img \<and> im_height img' = im_height img \<and>
     length (im_data img') = length (im_data img) \<and>
     (\<forall>i < length (im_data img). im_data img' ! i AND 0xfe = im_data img ! i AND 0xfe \<and>
        (i mod 4 = 3 \<longrightarrow> im_data img' ! i = im_data img ! i))"

text \<open>The byte a position addresses.\<close>

definition png_slot :: "nat \<Rightarrow> nat" where
  "png_slot p = p div 3 * 4 + p mod 3"

lemma png_slot_parts: "png_slot p div 4 = p div 3" "png_slot p mod 4 = p mod 3"
proof -
  have "p mod 3 < 4" by (rule less_trans [of _ 3]) simp_all
  then show "png_slot p div 4 = p div 3" "png_slot p mod 4 = p mod 3" by (simp_all add: png_slot_def)
qed

lemma png_slot_inj: "png_slot p = png_slot q \<Longrightarrow> p = q"
  by (metis png_slot_parts mult_div_mod_eq)

lemma png_slot_mod: "png_slot p mod 4 \<noteq> 3"
  using mod_less_divisor [of 3 p] unfolding png_slot_parts by simp

lemma png_slot_less:
  assumes "p < 3 * n" shows "png_slot p < 4 * n"
proof -
  have "p div 3 < n" using assms by (simp add: less_mult_imp_div_less mult.commute)
  then show ?thesis using png_slot_parts(1) [of p] by (metis div_less_iff_less_mult less_mult_imp_div_less
    mult.commute zero_less_numeral)
qed

lemma pixel_offset_slot:
  assumes p: "p < 3 * (unat (im_width img) * unat (im_height img))"
  shows "0 < unat (im_width img)"
    "pixel_offset img (of_nat (p div 3 mod unat (im_width img)))
       (of_nat (p div 3 div unat (im_width img))) = Ok (p div 3 * 4)"
proof -
  let ?w = "unat (im_width img)" and ?h = "unat (im_height img)"
  show w: "0 < ?w" using p by (cases "?w = 0") auto
  have x: "p div 3 mod ?w < ?w" using w by simp
  have "p div 3 < ?w * ?h" using p by auto
  then have y: "p div 3 div ?w < ?h" by (simp add: less_mult_imp_div_less mult.commute)
  note ub = unat_u32
  have un: "unat (of_nat (p div 3 mod ?w) :: u32) = p div 3 mod ?w"
    "unat (of_nat (p div 3 div ?w) :: u32) = p div 3 div ?w"
    using less_trans [OF x ub] less_trans [OF y ub] by (simp_all add: unat_of_nat32)
  have "of_nat (p div 3 mod ?w) < im_width img" "of_nat (p div 3 div ?w) < im_height img"
    using x y un by (simp_all add: word_less_nat_alt)
  then show "pixel_offset img (of_nat (p div 3 mod ?w)) (of_nat (p div 3 div ?w)) = Ok (p div 3 * 4)"
    using un by (simp add: pixel_offset_def mult.commute div_mult_mod_eq)
qed

lemma png_bits:
  assumes "p < 3 * (unat (im_width img) * unat (im_height img))"
  shows "png_get_bit img p = Ok (im_data img ! png_slot p AND 1)"
    "png_put_bit img p b = Ok (img\<lparr>im_data :=
       (im_data img)[png_slot p := (im_data img ! png_slot p AND 0xfe) OR b]\<rparr>)"
  using pixel_offset_slot [OF assms]
  by (simp_all add: png_get_bit_def png_put_bit_def png_slot_def Let_def)

lemma low_bit:
  fixes x b :: u8
  assumes "b \<le> 1"
  shows "((x AND 0xfe) OR b) AND 1 = b" "((x AND 0xfe) OR b) AND 0xfe = x AND 0xfe"
proof -
  have "unat b = 0 \<or> unat b = 1" using assms by (auto simp: word_le_nat_alt)
  then have "b = 0 \<or> b = 1" by (metis unsigned_0 unsigned_1 word_unat_eq_iff)
  then show "((x AND 0xfe) OR b) AND 1 = b" "((x AND 0xfe) OR b) AND 0xfe = x AND 0xfe"
    by (auto simp: bit.conj_disj_distrib2 and.assoc)
qed

interpretation png: bit_carrier png_put_bit png_get_bit png_positions png_same
proof
  fix p and b :: u8 and c :: rgba_image
  assume p: "p \<in> set (png_positions c)" and b: "b \<le> 1"
  then have wf: "png_wf c" and lt: "p < 3 * (unat (im_width c) * unat (im_height c))"
    by (auto simp: png_positions_def split: if_splits)
  let ?c = "c\<lparr>im_data := (im_data c)[png_slot p := (im_data c ! png_slot p AND 0xfe) OR b]\<rparr>"
  have sl: "png_slot p < length (im_data c)" using wf png_slot_less [OF lt] by (simp add: png_wf_def)
  have "png_same c ?c"
    using png_slot_mod [of p] sl low_bit [OF b] by (auto simp: png_same_def nth_list_update)
  moreover have "png_get_bit ?c p = Ok b"
    using lt sl low_bit [OF b] png_bits(1) [of p ?c] by simp
  moreover have "png_get_bit ?c q = png_get_bit c q" if "q \<in> set (png_positions c)" "q \<noteq> p" for q
  proof -
    have "q < 3 * (unat (im_width c) * unat (im_height c))"
      using that(1) wf by (simp add: png_positions_def)
    moreover have ne: "png_slot p \<noteq> png_slot q" using png_slot_inj that(2) by blast
    ultimately show ?thesis
      using png_bits(1) [of q ?c] png_bits(1) [of q c] ne by simp
  qed
  moreover have "png_positions ?c = png_positions c" by (simp add: png_positions_def png_wf_def)
  ultimately show "\<exists>c'. png_put_bit c p b = Ok c' \<and> png_positions c' = png_positions c \<and>
      png_same c c' \<and> png_get_bit c' p = Ok b \<and>
      (\<forall>q \<in> set (png_positions c). q \<noteq> p \<longrightarrow> png_get_bit c' q = png_get_bit c q)"
    using png_bits(2) [OF lt] by blast
qed (auto simp: png_same_def)


subsection \<open>The file operations\<close>

text \<open>
  What the code relies on of the crate \<^verbatim>\<open>image\<close>: the pixel buffer of a decoded image has the size
  its dimensions give, a saved image opens as the image that was saved, and \<open>image_dimensions\<close>
  agrees with \<open>open\<close>.
\<close>

definition png_laws :: "ext \<Rightarrow> bool" where
  "png_laws e \<longleftrightarrow>
     (\<forall>bs img. e_png_open e bs = Some img \<longrightarrow>
        png_wf img \<and> e_png_dimensions e bs = Some (im_width img, im_height img)) \<and>
     (\<forall>img bs. png_wf img \<longrightarrow> e_png_save e img = Some bs \<longrightarrow> e_png_open e bs = Some img)"

definition shuffle_laws :: "ext \<Rightarrow> bool" where
  "shuffle_laws e \<longleftrightarrow> (\<forall>s ps. mset (e_shuffle e s ps) = mset ps)"

lemma order_positions_perm:
  assumes "shuffle_laws e" "order_positions e ps key i = Ok qs"
  shows "mset qs = mset ps"
  using assms by (auto simp: order_positions_def shuffle_laws_def Let_def split: if_splits)

lemma unat_ucast64: "unat (ucast (w :: u32) :: u64) = unat w"
  using unat_u32 [of w] by (simp add: unsigned_ucast_eq take_bit_eq_mod)

lemma png_capacity:
  assumes "png_wf img"
  shows "png_slots img = 3 * (unat (im_width img) * unat (im_height img))"
    "unat (png_raw_capacity (im_width img) (im_height img)) = png_slots img div 8"
    "length (png_positions img) = png_slots img"
proof -
  let ?n = "unat (im_width img) * unat (im_height img)"
  have "4 * ?n \<le> MAX64" using assms by (simp add: png_wf_def)
  then have n: "?n < 2 ^ 62" by (simp add: MAX64_def)
  have "unat (ucast (im_width img) * ucast (im_height img) :: u64) = ?n"
    using n by (simp add: unat_word_ariths unat_ucast64)
  then have "unat (ucast (im_width img) * ucast (im_height img) * 3 :: u64) = 3 * ?n"
    using n unat_word_ariths(2) [of "ucast (im_width img) * ucast (im_height img) :: u64" 3]
    by (simp add: mult.commute)
  then show s: "png_slots img = 3 * (unat (im_width img) * unat (im_height img))"
    and "unat (png_raw_capacity (im_width img) (im_height img)) = png_slots img div 8"
    by (simp_all add: png_slots_def png_raw_capacity_def unat_div)
  show "length (png_positions img) = png_slots img"
    using assms s by (simp add: png_positions_def)
qed

lemma png_save_atomic_Ok:
  assumes laws: "png_laws e" and wf: "png_wf img" and ok: "png_save_atomic e path img fs = Ok fs'"
  shows "image_open e path fs' = Ok img"
    "\<forall>q. q \<noteq> path \<longrightarrow> q \<noteq> with_extension path PNG_TMP \<longrightarrow> fs' q = fs q"
    "png_raw_capacity_bytes e path fs' = Ok (png_raw_capacity (im_width img) (im_height img))"
proof -
  obtain bs where bs: "e_png_save e img = Some bs"
    using ok by (cases "e_png_save e img") (simp_all add: png_save_atomic_def Let_def)
  have fs': "fs' = (fs(with_extension path PNG_TMP := None))(path := Some bs)"
    using ok bs by (auto simp: png_save_atomic_def Let_def split: if_splits)
  have o: "e_png_open e bs = Some img" using laws wf bs unfolding png_laws_def by blast
  with laws have d: "e_png_dimensions e bs = Some (im_width img, im_height img)"
    unfolding png_laws_def by blast
  show "image_open e path fs' = Ok img"
    using o by (simp add: image_open_def fs')
  show "\<forall>q. q \<noteq> path \<longrightarrow> q \<noteq> with_extension path PNG_TMP \<longrightarrow> fs' q = fs q"
    by (simp add: fs')
  show "png_raw_capacity_bytes e path fs' = Ok (png_raw_capacity (im_width img) (im_height img))"
    using d by (simp add: png_raw_capacity_bytes_def fs')
qed


lemma image_open_OkD:
  assumes "image_open e path fs = Ok img"
  obtains bs where "fs path = Some bs" "e_png_open e bs = Some img"
  using assms by (auto simp: image_open_def ok_or_def bind_eq_Some_conv split: option.splits)

lemma image_open_wf:
  assumes "png_laws e" "image_open e path fs = Ok img" shows "png_wf img"
  using assms(1) image_open_OkD [OF assms(2)] unfolding png_laws_def by metis

lemma png_same_slots:
  "png_same img img' \<Longrightarrow> png_slots img' = png_slots img \<and>
    png_raw_capacity (im_width img') (im_height img') = png_raw_capacity (im_width img) (im_height img)"
  by (simp add: png_same_def png_slots_def)

text \<open>Embedding at usable positions and saving: what later calls read, and what is untouched.\<close>

lemma png_store:
  fixes first second :: bytes
  defines "n \<equiv> 8 * (length first + length second)"
  assumes laws: "png_laws e" and op: "image_open e path fs = Ok img"
    and ps: "distinct ps" "set ps \<subseteq> {0..<png_slots img}" "n \<le> length ps"
    and ok: "and_then (png_write_bytes img ps first second) (\<lambda>img. png_save_atomic e path img fs) = Ok fs'"
  obtains img' where "image_open e path fs' = Ok img'" "png_same img img'"
    "\<And>qs a m. take n qs = take n ps \<Longrightarrow> 8 * (a + m) \<le> n \<Longrightarrow>
       png_read_bytes img' qs (8 * a) m = Ok (slice (first @ second) a (a + m))"
    "\<forall>q. q \<noteq> path \<longrightarrow> q \<noteq> with_extension path PNG_TMP \<longrightarrow> fs' q = fs q"
    "png_raw_capacity_bytes e path fs' = Ok (png_raw_capacity (im_width img) (im_height img))"
proof -
  have wf: "png_wf img" by (rule image_open_wf [OF laws op])
  have sub: "set ps \<subseteq> set (png_positions img)"
    using ps(2) wf png_capacity(1) [OF wf] by (simp add: png_positions_def atLeast0LessThan)
  have "png_slots img \<le> MAX64"
    using wf png_capacity(1) [OF wf] by (simp add: png_wf_def)
  moreover have "length ps \<le> png_slots img"
    using ps(1,2) card_mono [of "{0..<png_slots img}" "set ps"] by (simp add: distinct_card)
  ultimately have max: "n \<le> MAX64" using ps(3) by simp
  obtain img' where img': "embed_with png_put_bit img ps first second = Ok img'"
      "png_positions img' = png_positions img" "png_same img img'"
      "\<forall>qs a m. take n qs = take n ps \<longrightarrow> 8 * (a + m) \<le> n \<longrightarrow>
        extract_with png_get_bit img' qs (8 * a) m = Ok (slice (first @ second) a (a + m))"
    using png.embed_extract [OF ps(1) sub ps(3) [unfolded n_def] max [unfolded n_def]]
    unfolding n_def by blast
  have wf': "png_wf img'" using img'(3) wf by (simp add: png_same_def png_wf_def)
  have sv: "png_save_atomic e path img' fs = Ok fs'"
    using ok img'(1) by (simp add: png_write_bytes_def)
  show thesis
    using that [OF png_save_atomic_Ok(1) [OF laws wf' sv] img'(3)] img'(3,4)
      png_save_atomic_Ok(2,3) [OF laws wf' sv]
    by (simp add: png_read_bytes_def png_same_def)
qed

lemma png_write_chunk_fits:
  assumes laws: "png_laws e" and op: "image_open e path fs = Ok img"
    and save: "\<And>i. e_png_save e i \<noteq> None" "\<And>fs p bs. e_fs_write e fs p bs" "\<And>fs p q. e_fs_rename e fs p q"
    and len: "length payload < 2 ^ 32"
    and room: "16 + length payload \<le> unat (png_raw_capacity (im_width img) (im_height img))"
  shows "\<exists>fs'. png_write_chunk e path (WriteFramed m) payload [] fs = Ok fs'"
proof -
  have wf: "png_wf img" by (rule image_open_wf [OF laws op])
  note cap = png_capacity [OF wf]
  let ?h = "encode_header e m (of_nat (length payload))" and ?ps = "[0..<(16 + length payload) * 8]"
  have sl: "(16 + length payload) * 8 \<le> png_slots img" using room cap(2) by simp
  have sub: "set ?ps \<subseteq> set (png_positions img)"
    using sl wf cap(1) by (auto simp: png_positions_def)
  have "png_slots img \<le> MAX64" using wf cap(1) by (simp add: png_wf_def)
  then have max: "8 * (length ?h + length payload) \<le> MAX64" using sl by simp
  obtain img' where "png_write_bytes img ?ps ?h payload = Ok img'"
    using png.embed_extract [of ?ps img ?h payload, OF _ sub _ max] sl
    by (auto simp: png_write_bytes_def)
  moreover obtain bs where "e_png_save e img' = Some bs" using save(1) [of img'] by auto
  ultimately show ?thesis
    using op len room save(2,3)
    by (simp add: png_write_chunk_def CHUNK_HEADER_LEN_def png_save_atomic_def Let_def)
qed

definition png_kept :: "ext \<Rightarrow> path \<Rightarrow> files \<Rightarrow> files \<Rightarrow> bool" where
  "png_kept e path fs fs' \<longleftrightarrow>
     (\<forall>q. q \<noteq> path \<longrightarrow> q \<noteq> with_extension path PNG_TMP \<longrightarrow> fs' q = fs q) \<and>
     (\<exists>img img'. image_open e path fs = Ok img \<and> image_open e path fs' = Ok img' \<and>
        png_same img img' \<and>
        png_raw_capacity_bytes e path fs = Ok (png_raw_capacity (im_width img) (im_height img)) \<and>
        png_raw_capacity_bytes e path fs' = png_raw_capacity_bytes e path fs)"

lemma png_capacity_open:
  assumes "png_laws e" "image_open e path fs = Ok img"
  shows "png_raw_capacity_bytes e path fs = Ok (png_raw_capacity (im_width img) (im_height img))"
proof -
  obtain bs where "fs path = Some bs" "e_png_open e bs = Some img"
    by (rule image_open_OkD [OF assms(2)])
  moreover from this have "e_png_dimensions e bs = Some (im_width img, im_height img)"
    using assms(1) unfolding png_laws_def by blast
  ultimately show ?thesis by (simp add: png_raw_capacity_bytes_def)
qed

lemma png_framed_roundtrip:
  assumes laws: "png_laws e" and ok: "png_write_chunk e path (WriteFramed meta) payload key fs = Ok fs'"
  shows "png_read_chunk e path ReadFramed [] fs' = Ok (meta, payload) \<and> png_kept e path fs fs'"
proof -
  obtain img where op: "image_open e path fs = Ok img" and len: "length payload < 2 ^ 32"
      and need: "16 + length payload \<le> unat (png_raw_capacity (im_width img) (im_height img))"
      and emb: "and_then (png_write_bytes img [0..<(16 + length payload) * 8]
          (encode_header e meta (of_nat (length payload))) payload)
        (\<lambda>img. png_save_atomic e path img fs) = Ok fs'"
    using ok by (auto simp: png_write_chunk_def Let_def CHUNK_HEADER_LEN_def split: if_splits)
  let ?h = "encode_header e meta (of_nat (length payload))"
  note cap = png_capacity [OF image_open_wf [OF laws op]]
  have sl: "(16 + length payload) * 8 \<le> png_slots img" using need cap(2) by simp
  obtain img' where img': "image_open e path fs' = Ok img'" "png_same img img'"
      "\<And>qs a m. take (8 * (length ?h + length payload)) qs =
          take (8 * (length ?h + length payload)) [0..<(16 + length payload) * 8] \<Longrightarrow>
        8 * (a + m) \<le> 8 * (length ?h + length payload) \<Longrightarrow>
        png_read_bytes img' qs (8 * a) m = Ok (slice (?h @ payload) a (a + m))"
      "\<forall>q. q \<noteq> path \<longrightarrow> q \<noteq> with_extension path PNG_TMP \<longrightarrow> fs' q = fs q"
      "png_raw_capacity_bytes e path fs' = Ok (png_raw_capacity (im_width img) (im_height img))"
    by (rule png_store [OF laws op _ _ _ emb]) (use sl in auto)
  note same = png_same_slots [OF img'(2)]
  have t: "take (8 * (length ?h + length payload)) [0..<png_slots img] =
      take (8 * (length ?h + length payload)) [0..<(16 + length payload) * 8]"
    using sl by (simp add: take_upt mult.commute)
  have r: "png_read_bytes img' [0..<png_slots img] 0 16 = Ok ?h"
    "png_read_bytes img' [0..<png_slots img] 128 (length payload) = Ok payload"
    using img'(3) [OF t, of 0 16] img'(3) [OF t, of 16 "length payload"]
    by (simp_all add: slice_def)
  have "png_read_chunk e path ReadFramed [] fs' = Ok (meta, payload)"
    using img'(1) r same need len
    by (simp add: png_read_chunk_def CHUNK_HEADER_LEN_def decode_encode_header unat_of_nat32)
  moreover have "png_kept e path fs fs'"
    using op img' png_capacity_open [OF laws op] unfolding png_kept_def by auto
  ultimately show ?thesis by simp
qed

lemma png_markerless_roundtrip:
  assumes laws: "png_laws e" "shuffle_laws e"
    and ok: "png_write_chunk e path (WriteMarkerless index) payload key fs = Ok fs'"
  shows "png_read_chunk e path (ReadMarkerless index (length payload)) key fs' =
      Ok (\<lparr>cm_chunk_index = index, cm_flags = 0\<rparr>, payload) \<and> png_kept e path fs fs'"
proof -
  obtain img ps where op: "image_open e path fs = Ok img"
      and need: "length payload \<le> unat (png_raw_capacity (im_width img) (im_height img))"
      and ps: "order_positions e [0..<png_slots img] key index = Ok ps"
      and emb: "and_then (png_write_bytes img ps [] payload)
        (\<lambda>img. png_save_atomic e path img fs) = Ok fs'"
    using ok by (auto simp: png_write_chunk_def Let_def split: if_splits)
  note cap = png_capacity [OF image_open_wf [OF laws(1) op]]
  have perm: "mset ps = mset [0..<png_slots img]" by (rule order_positions_perm [OF laws(2) ps])
  then have d: "distinct ps" "set ps \<subseteq> {0..<png_slots img}" "length ps = png_slots img"
    using mset_eq_imp_distinct_iff [OF perm] mset_eq_setD [OF perm] mset_eq_length [OF perm] by auto
  have sl: "8 * (length ([] :: bytes) + length payload) \<le> length ps" using need cap(2) d(3) by simp
  obtain img' where img': "image_open e path fs' = Ok img'" "png_same img img'"
      "\<And>qs a m. take (8 * (length ([] :: bytes) + length payload)) qs =
          take (8 * (length ([] :: bytes) + length payload)) ps \<Longrightarrow>
        8 * (a + m) \<le> 8 * (length ([] :: bytes) + length payload) \<Longrightarrow>
        png_read_bytes img' qs (8 * a) m = Ok (slice ([] @ payload) a (a + m))"
      "\<forall>q. q \<noteq> path \<longrightarrow> q \<noteq> with_extension path PNG_TMP \<longrightarrow> fs' q = fs q"
      "png_raw_capacity_bytes e path fs' = Ok (png_raw_capacity (im_width img) (im_height img))"
    by (rule png_store [OF laws(1) op d(1,2) sl emb]) auto
  note same = png_same_slots [OF img'(2)]
  have "png_read_bytes img' ps 0 (length payload) = Ok payload"
    using img'(3) [OF refl, of 0 "length payload"] by simp
  then have "png_read_chunk e path (ReadMarkerless index (length payload)) key fs' =
      Ok (\<lparr>cm_chunk_index = index, cm_flags = 0\<rparr>, payload)"
    using img'(1) same need ps by (simp add: png_read_chunk_def)
  moreover have "png_kept e path fs fs'"
    using op img' png_capacity_open [OF laws(1) op] unfolding png_kept_def by auto
  ultimately show ?thesis by simp
qed

lemma png_prefix_roundtrip:
  assumes laws: "png_laws e" and ok: "png_write_prefix e path bs fs = Ok fs'"
  shows "png_read_prefix e path (length bs) fs' = Ok bs \<and> png_kept e path fs fs'"
proof -
  obtain img where op: "image_open e path fs = Ok img"
      and need: "length bs \<le> unat (png_raw_capacity (im_width img) (im_height img))"
      and emb: "and_then (png_write_bytes img [0..<length bs * 8] [] bs)
        (\<lambda>img. png_save_atomic e path img fs) = Ok fs'"
    using ok by (auto simp: png_write_prefix_def Let_def split: if_splits)
  note cap = png_capacity [OF image_open_wf [OF laws op]]
  have sl: "8 * length bs \<le> png_slots img" using need cap(2) by simp
  obtain img' where img': "image_open e path fs' = Ok img'" "png_same img img'"
      "\<And>qs a m. take (8 * (length ([] :: bytes) + length bs)) qs =
          take (8 * (length ([] :: bytes) + length bs)) [0..<length bs * 8] \<Longrightarrow>
        8 * (a + m) \<le> 8 * (length ([] :: bytes) + length bs) \<Longrightarrow>
        png_read_bytes img' qs (8 * a) m = Ok (slice ([] @ bs) a (a + m))"
      "\<forall>q. q \<noteq> path \<longrightarrow> q \<noteq> with_extension path PNG_TMP \<longrightarrow> fs' q = fs q"
      "png_raw_capacity_bytes e path fs' = Ok (png_raw_capacity (im_width img) (im_height img))"
    by (rule png_store [OF laws op _ _ _ emb]) (use sl in auto)
  have "png_read_bytes img' [0..<length bs * 8] 0 (length bs) = Ok bs"
    using img'(3) [OF refl, of 0 "length bs"] by simp
  then have "png_read_prefix e path (length bs) fs' = Ok bs"
    using img'(1) png_same_slots [OF img'(2)] need by (simp add: png_read_prefix_def)
  moreover have "png_kept e path fs fs'"
    using op img' png_capacity_open [OF laws op] unfolding png_kept_def by auto
  ultimately show ?thesis by simp
qed

text \<open>C36: Embedding bytes at distinct positions of a PNG image that has room for them succeeds. The
  bytes are read back, the image keeps its dimensions, no alpha byte changes, and of every other
  byte only the least significant bit can.\<close>

theorem png_embedding:
  assumes "png_wf img" "distinct ps" "set ps \<subseteq> {0..<png_slots img}"
    and "8 * (length first + length second) \<le> length ps"
  shows "\<exists>img'. png_write_bytes img ps first second = Ok img' \<and> png_same img img' \<and>
    png_read_bytes img' ps 0 (length first + length second) = Ok (first @ second)"
proof -
  note cap = png_capacity(1) [OF assms(1)]
  have sub: "set ps \<subseteq> set (png_positions img)"
    using assms(1,3) cap by (simp add: png_positions_def atLeast0LessThan)
  have "length ps \<le> png_slots img"
    using assms(2,3) card_mono [of "{0..<png_slots img}" "set ps"] by (simp add: distinct_card)
  then have "length ps \<le> MAX64" using assms(1) cap by (simp add: png_wf_def)
  with assms(4) have max: "8 * (length first + length second) \<le> MAX64" by simp
  obtain img' where img': "embed_with png_put_bit img ps first second = Ok img'" "png_same img img'"
      "\<forall>qs a m. take (8 * (length first + length second)) qs = take (8 * (length first + length second)) ps \<longrightarrow>
        8 * (a + m) \<le> 8 * (length first + length second) \<longrightarrow>
        extract_with png_get_bit img' qs (8 * a) m = Ok (slice (first @ second) a (a + m))"
    using png.embed_extract [OF assms(2) sub assms(4) max] by blast
  from img'(3) [rule_format, OF refl, of 0 "length first + length second"]
  have "extract_with png_get_bit img' ps 0 (length first + length second) = Ok (first @ second)"
    using slice_whole [of "first @ second"] by simp
  with img'(1,2) show ?thesis by (auto simp: png_write_bytes_def png_read_bytes_def)
qed

end
