(* ===== verification/Jpeg.thy ===== *)
theory Jpeg
  imports Png
begin

text \<open>
  \<^verbatim>\<open>src/stego/jpeg.rs\<close>: the JPEG carrier. One payload bit is the low bit of the magnitude of one
  quantised AC coefficient; only coefficients of magnitude at least 2 are used, and embedding
  keeps that set. Coefficients are \<open>i16\<close>, and the wrap-around of \<open>as i16\<close> is the one of words.
\<close>

type_synonym i16_block = "i16 list"

definition magnitude :: "i16 \<Rightarrow> nat" where
  "magnitude c = nat \<bar>sint c\<bar>"

definition block_positions :: "nat \<Rightarrow> i16_block \<Rightarrow> nat list" where
  "block_positions global_block block =
     map (\<lambda>(index, c). global_block * 64 + index)
       (filter (\<lambda>(index, c). magnitude c \<ge> 2) (drop 1 (enumerate 0 block)))"

fun component_positions :: "nat \<Rightarrow> i16_block list \<Rightarrow> nat list \<times> nat" where
  "component_positions global_block [] = ([], global_block)"
| "component_positions global_block (block # blocks) =
     (let (positions, g) = component_positions (global_block + 1) blocks
      in (block_positions global_block block @ positions, g))"

fun image_positions :: "nat \<Rightarrow> i16_block list list \<Rightarrow> nat list" where
  "image_positions global_block [] = []"
| "image_positions global_block (component # components) =
     (let (positions, g) = component_positions global_block component
      in positions @ image_positions g components)"

definition usable_positions :: "jpeg_image \<Rightarrow> nat list" where
  "usable_positions img = image_positions 0 (jp_components img)"

definition jpeg_raw_capacity :: "jpeg_image \<Rightarrow> u64" where
  "jpeg_raw_capacity img = of_nat (length (usable_positions img)) div 8"

fun coefficient_in :: "i16_block list list \<Rightarrow> nat \<Rightarrow> nat \<Rightarrow> i16 option" where
  "coefficient_in [] block_index coefficient_index = None"
| "coefficient_in (component # components) block_index coefficient_index =
     (if block_index < length component then
        let block = component ! block_index
        in if coefficient_index < length block then Some (block ! coefficient_index) else None
      else coefficient_in components (block_index - length component) coefficient_index)"

definition coefficient :: "jpeg_image \<Rightarrow> nat \<Rightarrow> i16 option" where
  "coefficient img position = coefficient_in (jp_components img) (position div 64) (position mod 64)"

text \<open>\<open>coefficient_mut\<close>: the components with the coefficient it points at replaced.\<close>

fun coefficient_mut_in ::
    "i16_block list list \<Rightarrow> nat \<Rightarrow> nat \<Rightarrow> i16 \<Rightarrow> i16_block list list option" where
  "coefficient_mut_in [] block_index coefficient_index v = None"
| "coefficient_mut_in (component # components) block_index coefficient_index v =
     (if block_index < length component then
        let block = component ! block_index
        in if coefficient_index < length block
           then Some (component[block_index := block[coefficient_index := v]] # components)
           else None
      else map_option (\<lambda>rest. component # rest)
        (coefficient_mut_in components (block_index - length component) coefficient_index v))"

definition coefficient_mut :: "jpeg_image \<Rightarrow> nat \<Rightarrow> i16 \<Rightarrow> jpeg_image option" where
  "coefficient_mut img position v =
     map_option (\<lambda>cs. img\<lparr>jp_components := cs\<rparr>)
       (coefficient_mut_in (jp_components img) (position div 64) (position mod 64) v)"

definition embed_coefficient :: "i16 \<Rightarrow> u8 \<Rightarrow> i16" where
  "embed_coefficient v bit_value =
     (let signed = sint v;
          embedded = (\<bar>signed\<bar> AND NOT 1) OR uint bit_value
      in if signed < 0 then word_of_int (- embedded) else word_of_int embedded)"

definition jpeg_put_bit :: "jpeg_image \<Rightarrow> nat \<Rightarrow> u8 \<Rightarrow> (jpeg_image, codec_error) res" where
  "jpeg_put_bit img position bit_value =
     and_then (ok_or (Jpeg ''usable coefficient position went out of range'')
         (coefficient img position)) (\<lambda>v.
     ok_or (Jpeg ''usable coefficient position went out of range'')
       (coefficient_mut img position (embed_coefficient v bit_value)))"

definition jpeg_get_bit :: "jpeg_image \<Rightarrow> nat \<Rightarrow> (u8, codec_error) res" where
  "jpeg_get_bit img position =
     and_then (ok_or (Jpeg ''usable coefficient position went out of range'')
         (coefficient img position)) (\<lambda>v.
     Ok (of_nat (magnitude v) AND 1))"

definition embed_bytes ::
    "jpeg_image \<Rightarrow> nat list \<Rightarrow> bytes \<Rightarrow> bytes \<Rightarrow> (jpeg_image, codec_error) res" where
  "embed_bytes = embed_with jpeg_put_bit"

definition extract_bytes ::
    "jpeg_image \<Rightarrow> nat list \<Rightarrow> nat \<Rightarrow> nat \<Rightarrow> (bytes, codec_error) res" where
  "extract_bytes = extract_with jpeg_get_bit"

definition jpeg_error :: "(string \<Rightarrow> codec_error)" where
  "jpeg_error error = Jpeg error"

definition read_original :: "path \<Rightarrow> files \<Rightarrow> (bytes, codec_error) res" where
  "read_original path fs = ok_or CodecIo (fs path)"

definition read_coefficients :: "ext \<Rightarrow> bytes \<Rightarrow> (jpeg_image, codec_error) res" where
  "read_coefficients e bs = map_err jpeg_error (e_jpeg_read e bs)"

text \<open>\<^verbatim>\<open>albumfs-tmp.jpg\<close>.\<close>

definition JPG_TMP :: bytes where
  "JPG_TMP = [97, 108, 98, 117, 109, 102, 115, 45, 116, 109, 112, 46, 106, 112, 103]"

text \<open>The last four lines of \<open>write_chunk\<close> and of \<open>write_prefix\<close>.\<close>

definition jpeg_save ::
    "ext \<Rightarrow> path \<Rightarrow> bytes \<Rightarrow> jpeg_image \<Rightarrow> files \<Rightarrow> (files, codec_error) res" where
  "jpeg_save e path original img fs =
     and_then (map_err jpeg_error (e_jpeg_write e original img)) (\<lambda>encoded.
     let tmp = with_extension path JPG_TMP
     in if \<not> e_fs_write e fs tmp encoded then Err CodecIo
        else
          let fs = fs(tmp \<mapsto> encoded)
          in if \<not> e_fs_rename e fs tmp path then Err CodecIo
             else Ok ((fs(tmp := None))(path := fs tmp)))"

definition jpeg_raw_capacity_bytes :: "ext \<Rightarrow> path \<Rightarrow> files \<Rightarrow> (u64, codec_error) res" where
  "jpeg_raw_capacity_bytes e path fs =
     and_then (read_original path fs) (\<lambda>bs.
     and_then (read_coefficients e bs) (\<lambda>img.
     Ok (jpeg_raw_capacity img)))"

definition jpeg_write_chunk ::
    "ext \<Rightarrow> path \<Rightarrow> chunk_write \<Rightarrow> bytes \<Rightarrow> bytes \<Rightarrow> files \<Rightarrow> (files, codec_error) res" where
  "jpeg_write_chunk e path mode payload order_key fs =
     and_then (read_original path fs) (\<lambda>original.
     and_then (read_coefficients e original) (\<lambda>img.
     let raw = unat (jpeg_raw_capacity img)
     in and_then
          (case mode of
             WriteFramed meta \<Rightarrow>
               if order_key \<noteq> [] then Err (InvalidMode ''framed mode requires an empty order key'')
               else if length payload > 2 ^ 32 - 1 \<or> CHUNK_HEADER_LEN + length payload > raw then
                 Err (PayloadTooLarge (length payload) (raw - CHUNK_HEADER_LEN))
               else Ok (Some (encode_header e meta (of_nat (length payload))), usable_positions img)
           | WriteMarkerless chunk_index \<Rightarrow>
               if length payload > raw then Err (PayloadTooLarge (length payload) raw)
               else
                 and_then (order_positions e (usable_positions img) order_key chunk_index)
                   (\<lambda>positions. Ok (None, positions)))
        (\<lambda>(header, positions).
     let header = (case header of None \<Rightarrow> [] | Some bs \<Rightarrow> bs)
     in and_then (embed_bytes img positions header payload) (\<lambda>img.
        jpeg_save e path original img fs))))"

definition jpeg_read_chunk ::
    "ext \<Rightarrow> path \<Rightarrow> chunk_read \<Rightarrow> bytes \<Rightarrow> files \<Rightarrow> (chunk_meta \<times> bytes, codec_error) res" where
  "jpeg_read_chunk e path mode order_key fs =
     and_then (read_original path fs) (\<lambda>bs.
     and_then (read_coefficients e bs) (\<lambda>img.
     let raw = unat (jpeg_raw_capacity img)
     in case mode of
          ReadFramed \<Rightarrow>
            if order_key \<noteq> [] then Err (InvalidMode ''framed mode requires an empty order key'')
            else
              let positions = usable_positions img
              in and_then (extract_bytes img positions 0 CHUNK_HEADER_LEN) (\<lambda>header.
                 and_then (decode_header e header) (\<lambda>(meta, payload_len).
                 if unat payload_len > raw - CHUNK_HEADER_LEN then Err NotACarrier
                 else
                   and_then (extract_bytes img positions (CHUNK_HEADER_LEN * 8) (unat payload_len))
                     (\<lambda>payload. Ok (meta, payload))))
        | ReadMarkerless chunk_index payload_len \<Rightarrow>
            if payload_len > raw then Err NotACarrier
            else
              and_then (order_positions e (usable_positions img) order_key chunk_index) (\<lambda>positions.
              and_then (extract_bytes img positions 0 payload_len) (\<lambda>payload.
              Ok (\<lparr>cm_chunk_index = chunk_index, cm_flags = 0\<rparr>, payload)))))"

definition jpeg_write_prefix :: "ext \<Rightarrow> path \<Rightarrow> bytes \<Rightarrow> files \<Rightarrow> (files, codec_error) res" where
  "jpeg_write_prefix e path bs fs =
     and_then (read_original path fs) (\<lambda>original.
     and_then (read_coefficients e original) (\<lambda>img.
     let raw = unat (jpeg_raw_capacity img)
     in if length bs > raw then Err (PayloadTooLarge (length bs) raw)
        else
          let positions = usable_positions img
          in and_then (embed_bytes img positions [] bs) (\<lambda>img.
             jpeg_save e path original img fs)))"

definition jpeg_read_prefix :: "ext \<Rightarrow> path \<Rightarrow> nat \<Rightarrow> files \<Rightarrow> (bytes, codec_error) res" where
  "jpeg_read_prefix e path len fs =
     and_then (read_original path fs) (\<lambda>bs.
     and_then (read_coefficients e bs) (\<lambda>img.
     if len > unat (jpeg_raw_capacity img) then Err NotACarrier
     else extract_bytes img (usable_positions img) 0 len))"

subsection \<open>The coefficients as one array\<close>

definition jpeg_wf :: "jpeg_image \<Rightarrow> bool" where
  "jpeg_wf img \<longleftrightarrow> (\<forall>component \<in> set (jp_components img). \<forall>block \<in> set component. length block = 64) \<and>
     length (concat (concat (jp_components img))) \<le> MAX64"

definition coeffs :: "jpeg_image \<Rightarrow> i16 list" where
  "coeffs img = concat (concat (jp_components img))"

definition usable_at :: "i16 list \<Rightarrow> nat \<Rightarrow> bool" where
  "usable_at cs p \<longleftrightarrow> p mod 64 \<noteq> 0 \<and> magnitude (cs ! p) \<ge> 2"

lemma component_positions_eq:
  "component_positions g blocks =
    (concat (map (\<lambda>(k, b). block_positions k b) (enumerate g blocks)), g + length blocks)"
  by (induction blocks arbitrary: g) (auto simp: Let_def)

lemma image_positions_eq:
  "image_positions g cs = concat (map (\<lambda>(k, b). block_positions k b) (enumerate g (concat cs)))"
  by (induction cs arbitrary: g)
    (simp_all add: component_positions_eq enumerate_append_eq)

lemma block_positions_eq:
  assumes "length block = 64"
  shows "block_positions g block =
    filter (\<lambda>p. p mod 64 \<noteq> 0 \<and> magnitude (block ! (p - 64 * g)) \<ge> 2) [64 * g..<64 * g + 64]"
proof -
  have e: "enumerate 0 block = map (\<lambda>i. (i, block ! i)) [0..<64]"
    using assms by (intro nth_equalityI) (simp_all add: nth_enumerate_eq)
  have u: "[0..<64] = 0 # [1..<64]" by (simp add: upt_conv_Cons)
  have l: "block_positions g block = map (\<lambda>i. 64 * g + i) (filter (\<lambda>i. magnitude (block ! i) \<ge> 2) [1..<64])"
    unfolding block_positions_def e u
    by (simp add: filter_map o_def mult.commute del: upt_conv_Cons_Cons)
  have r: "[64 * g..<64 * g + 64] = map (\<lambda>i. 64 * g + i) [0..<64]"
    using map_add_upt [of "64 * g" 64] by (simp add: add.commute)
  have "filter (\<lambda>i. (64 * g + i) mod 64 \<noteq> 0 \<and> magnitude (block ! i) \<ge> 2) [1..<64] =
      filter (\<lambda>i. magnitude (block ! i) \<ge> 2) [1..<64]"
    by (rule filter_cong) auto
  with l show ?thesis unfolding r u by (simp add: filter_map o_def del: upt_conv_Cons_Cons)
qed

lemma blocks_positions_eq:
  assumes "\<forall>b \<in> set blocks. length b = 64"
  shows "concat (map (\<lambda>(k, b). block_positions k b) (enumerate g blocks)) =
    filter (\<lambda>p. usable_at (replicate (64 * g) 0 @ concat blocks) p) [64 * g..<64 * g + length (concat blocks)]"
  using assms
proof (induction blocks arbitrary: g)
  case Nil
  then show ?case by simp
next
  case (Cons b bs)
  let ?n = "length (concat bs)"
  have b: "length b = 64" using Cons.prems by simp
  have s: "[64 * g..<64 * g + length (concat (b # bs))] =
      [64 * g..<64 * g + 64] @ [64 * Suc g..<64 * Suc g + ?n]"
    using upt_add_eq_append [of "64 * g" "64 * g + 64" ?n] b by (simp add: ac_simps)
  have f1: "filter (usable_at (replicate (64 * g) 0 @ concat (b # bs))) [64 * g..<64 * g + 64] =
      block_positions g b"
    unfolding block_positions_eq [OF b]
    by (rule filter_cong) (use b in \<open>auto simp: usable_at_def nth_append\<close>)
  have f2: "filter (usable_at (replicate (64 * g) 0 @ concat (b # bs))) [64 * Suc g..<64 * Suc g + ?n] =
      filter (usable_at (replicate (64 * Suc g) 0 @ concat bs)) [64 * Suc g..<64 * Suc g + ?n]"
    by (rule filter_cong) (use b in \<open>auto simp: usable_at_def nth_append add.commute [of "64 * g"]\<close>)
  show ?case
    unfolding s filter_append f1 f2 using Cons.IH [of "Suc g"] Cons.prems by simp
qed

lemma usable_positions_eq:
  assumes "jpeg_wf img"
  shows "usable_positions img = filter (usable_at (coeffs img)) [0..<length (coeffs img)]"
  using blocks_positions_eq [of "concat (jp_components img)" 0] assms
  by (auto simp: usable_positions_def image_positions_eq jpeg_wf_def coeffs_def)

lemma nth_concat64_at:
  assumes "\<forall>b \<in> set bs. length b = 64" "i < 64"
  shows "64 * k + i < length (concat bs) \<longleftrightarrow> k < length bs"
    "k < length bs \<Longrightarrow> concat bs ! (64 * k + i) = bs ! k ! i"
    "k < length bs \<Longrightarrow> concat (bs[k := (bs ! k)[i := v]]) = (concat bs)[64 * k + i := v]"
proof -
  have len: "length (concat bs) = 64 * length bs"
    using assms(1) by (induction bs) auto
  show "64 * k + i < length (concat bs) \<longleftrightarrow> k < length bs" unfolding len using assms(2) by linarith
  show "k < length bs \<Longrightarrow> concat bs ! (64 * k + i) = bs ! k ! i"
    using assms
  proof (induction bs arbitrary: k)
    case (Cons b bs)
    then show ?case by (cases k) (simp_all add: nth_append)
  qed simp
  show "k < length bs \<Longrightarrow> concat (bs[k := (bs ! k)[i := v]]) = (concat bs)[64 * k + i := v]"
    using assms
  proof (induction bs arbitrary: k)
    case (Cons b bs)
    then show ?case by (cases k) (simp_all add: list_update_append)
  qed simp
qed

lemma nth_concat64:
  assumes "\<forall>b \<in> set bs. length b = 64"
  shows "p < length (concat bs) \<longleftrightarrow> p div 64 < length bs"
    "p div 64 < length bs \<Longrightarrow> concat bs ! p = bs ! (p div 64) ! (p mod 64)"
    "p div 64 < length bs \<Longrightarrow>
      concat (bs[p div 64 := (bs ! (p div 64))[p mod 64 := v]]) = (concat bs)[p := v]"
  using nth_concat64_at [OF assms, of "p mod 64" "p div 64"] by simp_all

lemma coefficient_in_eq:
  "coefficient_in cs bi ci =
    (if bi < length (concat cs) \<and> ci < length (concat cs ! bi) then Some (concat cs ! bi ! ci) else None)"
  by (induction cs arbitrary: bi) (auto simp: nth_append Let_def)

lemma coefficient_mut_in_eq:
  assumes "bi < length (concat cs)" "ci < length (concat cs ! bi)"
  shows "\<exists>cs'. coefficient_mut_in cs bi ci v = Some cs' \<and> map length cs' = map length cs \<and>
    concat cs' = (concat cs)[bi := (concat cs ! bi)[ci := v]]"
  using assms
proof (induction cs arbitrary: bi)
  case (Cons c cs)
  show ?case
  proof (cases "bi < length c")
    case True
    with Cons.prems show ?thesis by (simp add: nth_append list_update_append)
  next
    case False
    then have "bi - length c < length (concat cs)" "ci < length (concat cs ! (bi - length c))"
      using Cons.prems by (auto simp: nth_append)
    then obtain cs' where "coefficient_mut_in cs (bi - length c) ci v = Some cs'"
        "map length cs' = map length cs"
        "concat cs' = (concat cs)[bi - length c := (concat cs ! (bi - length c))[ci := v]]"
      using Cons.IH [of "bi - length c"] by blast
    with False show ?thesis by (simp add: nth_append list_update_append)
  qed
qed simp

lemma wf_block:
  assumes "jpeg_wf img" "p < length (coeffs img)"
  shows "\<forall>b \<in> set (concat (jp_components img)). length b = 64"
    "p div 64 < length (concat (jp_components img))"
    "length (concat (jp_components img) ! (p div 64)) = 64"
proof -
  show l: "\<forall>b \<in> set (concat (jp_components img)). length b = 64" using assms(1) by (auto simp: jpeg_wf_def)
  show i: "p div 64 < length (concat (jp_components img))"
    using nth_concat64(1) [OF l] assms(2) by (simp add: coeffs_def)
  show "length (concat (jp_components img) ! (p div 64)) = 64"
    by (rule bspec [OF l nth_mem [OF i]])
qed

lemma coefficient_eq:
  assumes "jpeg_wf img" "p < length (coeffs img)"
  shows "coefficient img p = Some (coeffs img ! p)"
  using wf_block(2,3) [OF assms] nth_concat64(2) [OF wf_block(1,2) [OF assms]]
  by (simp add: coefficient_def coefficient_in_eq coeffs_def)

lemma coefficient_mut_eq:
  assumes wf: "jpeg_wf img" and p: "p < length (coeffs img)"
  shows "\<exists>img'. coefficient_mut img p v = Some img' \<and> jpeg_wf img' \<and>
    map length (jp_components img') = map length (jp_components img) \<and> coeffs img' = (coeffs img)[p := v]"
proof -
  let ?b = "concat (jp_components img)"
  note l = wf_block [OF wf p]
  have "p mod 64 < length (?b ! (p div 64))" using l(3) by simp
  then obtain cs' where cs': "coefficient_mut_in (jp_components img) (p div 64) (p mod 64) v = Some cs'"
      "map length cs' = map length (jp_components img)"
      "concat cs' = ?b[p div 64 := (?b ! (p div 64))[p mod 64 := v]]"
    using coefficient_mut_in_eq l(2) by blast
  have c: "concat (concat cs') = (coeffs img)[p := v]"
    using nth_concat64(3) [OF l(1,2)] cs'(3) by (simp add: coeffs_def)
  have "\<forall>b \<in> set (concat cs'). length b = 64"
    using l(1,3) unfolding cs'(3) by (auto dest!: set_update_subset_insert [THEN subsetD])
  with c wf have "jpeg_wf (img\<lparr>jp_components := cs'\<rparr>)"
    by (auto simp: jpeg_wf_def coeffs_def)
  with cs' c show ?thesis by (auto simp: coefficient_mut_def coeffs_def)
qed

subsection \<open>One coefficient\<close>

lemma int_embed:
  fixes m :: int
  shows "(m AND NOT 1) OR of_bool b = 2 * (m div 2) + of_bool b"
proof -
  have "m AND NOT 1 = 2 * (m div 2)"
    by (subst and_int_rec) simp
  moreover have "(2 * k) OR of_bool b = 2 * k + of_bool b" for k :: int
    by (subst or_int_rec) auto
  ultimately show ?thesis by simp
qed

lemma sint_i16: "- 32768 \<le> sint (v :: i16)" "sint v \<le> 32767"
  using sint_ge [of v] sint_lt [of v] by simp_all

lemma sint_of_int16: "- 32768 \<le> k \<Longrightarrow> k \<le> 32767 \<Longrightarrow> sint (word_of_int k :: i16) = k"
  by (simp add: signed_of_int signed_take_bit_int_eq_self)

lemma word_bool: "(b :: u8) \<le> 1 \<Longrightarrow> \<exists>B. b = of_bool B"
proof -
  assume "b \<le> 1"
  then have "unat b = 0 \<or> unat b = 1" by (auto simp: word_le_nat_alt)
  then have "b = 0 \<or> b = 1" by (metis unsigned_0 unsigned_1 word_unat_eq_iff)
  then show ?thesis by (metis of_bool_eq)
qed

lemma sint_embed:
  "sint (embed_coefficient v (of_bool B)) =
    (if sint v = - 32768 \<and> B then 32767
     else (if sint v < 0 then - 1 else 1) * (2 * (\<bar>sint v\<bar> div 2) + of_bool B))"
proof -
  let ?m = "2 * (\<bar>sint v\<bar> div 2) + of_bool B"
  have u: "uint (of_bool B :: u8) = of_bool B" by simp
  have e: "embed_coefficient v (of_bool B) = (if sint v < 0 then word_of_int (- ?m) else word_of_int ?m)"
    by (simp only: embed_coefficient_def Let_def u int_embed)
  note r = sint_i16 [of v]
  define m where "m = ?m"
  have m: "0 \<le> m" by (simp add: m_def)
  consider "sint v = - 32768 \<and> B" | "sint v < 0" "\<not> (sint v = - 32768 \<and> B)" | "0 \<le> sint v"
    by linarith
  then show ?thesis
  proof cases
    case 1
    then show ?thesis unfolding e by (simp add: signed_of_int signed_take_bit_eq_if_negative)
  next
    case 2
    then have "m \<le> 32768" using r unfolding m_def by (cases B) auto
    with m have "sint (word_of_int (- m) :: i16) = - m" by (intro sint_of_int16) simp_all
    then show ?thesis
      unfolding e m_def [symmetric] using 2 by (auto simp del: of_int_minus)
  next
    case 3
    then have "m \<le> 32767" using r unfolding m_def by (cases B) auto
    with m have "sint (word_of_int m :: i16) = m" by (intro sint_of_int16) simp_all
    then show ?thesis unfolding e m_def [symmetric] using 3 by auto
  qed
qed

text \<open>
  What embedding keeps of a coefficient: it changes only when its magnitude is at least 2, which
  it stays. It keeps its sign and all but the low bit of its magnitude, except for
  \<open>i16::MIN\<close>, whose magnitude with the low bit set is 32769 and wraps to 32767.
\<close>

definition close_coefficient :: "i16 \<Rightarrow> i16 \<Rightarrow> bool" where
  "close_coefficient v v' \<longleftrightarrow> v' = v \<or>
     (2 \<le> magnitude v \<and> 2 \<le> magnitude v' \<and>
      (sint v \<noteq> - 32768 \<longrightarrow> sint v' \<noteq> - 32768 \<and> magnitude v' div 2 = magnitude v div 2 \<and>
         (sint v' < 0 \<longleftrightarrow> sint v < 0)))"

lemma close_coefficient_trans:
  "close_coefficient u v \<Longrightarrow> close_coefficient v w \<Longrightarrow> close_coefficient u w"
  by (auto simp: close_coefficient_def)

lemma embed_coefficient:
  assumes "b \<le> 1" "2 \<le> magnitude v"
  shows "magnitude (embed_coefficient v b) mod 2 = unat b"
    "2 \<le> magnitude (embed_coefficient v b)"
    "close_coefficient v (embed_coefficient v b)"
proof -
  obtain B where b: "b = of_bool B" using word_bool [OF assms(1)] by blast
  note s = sint_embed [of v B]
  have m: "2 \<le> \<bar>sint v\<bar>" using assms(2) by (simp add: magnitude_def)
  have u: "unat b = of_bool B" by (simp add: b)
  have mag: "magnitude (embed_coefficient v b) =
      (if sint v = - 32768 \<and> B then 32767 else 2 * (magnitude v div 2) + of_bool B)"
    unfolding b magnitude_def s by (cases B) (auto simp: nat_add_distrib nat_mult_distrib nat_div_distrib)
  then show "magnitude (embed_coefficient v b) mod 2 = unat b" unfolding u by auto
  from mag show g: "2 \<le> magnitude (embed_coefficient v b)" using assms(2) by (auto split: if_splits)
  show "close_coefficient v (embed_coefficient v b)"
  proof (cases "sint v = - 32768")
    case True
    then show ?thesis using g assms(2) by (simp add: close_coefficient_def)
  next
    case False
    have "- 32768 < sint v" using False sint_i16(1) [of v] by linarith
    then have "sint (embed_coefficient v b) \<noteq> - 32768"
      unfolding b s by (cases B) (auto, presburger?)
    moreover have "sint (embed_coefficient v b) < 0 \<longleftrightarrow> sint v < 0"
      unfolding b s using m False by (cases B) auto
    moreover have "magnitude (embed_coefficient v b) div 2 = magnitude v div 2"
      using mag False by simp
    ultimately show ?thesis using g assms(2) by (simp add: close_coefficient_def)
  qed
qed

subsection \<open>The interpretation of the bit interface\<close>

definition jpeg_positions :: "jpeg_image \<Rightarrow> nat list" where
  "jpeg_positions img = (if jpeg_wf img then usable_positions img else [])"

definition jpeg_same :: "jpeg_image \<Rightarrow> jpeg_image \<Rightarrow> bool" where
  "jpeg_same img img' \<longleftrightarrow> map length (jp_components img') = map length (jp_components img) \<and>
     (jpeg_wf img \<longrightarrow> jpeg_wf img') \<and> length (coeffs img') = length (coeffs img) \<and>
     (\<forall>p < length (coeffs img). close_coefficient (coeffs img ! p) (coeffs img' ! p) \<and>
        (p mod 64 = 0 \<longrightarrow> coeffs img' ! p = coeffs img ! p))"

lemma usable_after_embed:
  assumes "usable_at cs p" "p < length cs" "b \<le> 1"
  shows "usable_at (cs[p := embed_coefficient (cs ! p) b]) q \<longleftrightarrow> usable_at cs q"
  using assms embed_coefficient(2) [OF assms(3)] by (cases "q = p") (auto simp: usable_at_def)

interpretation jpeg: bit_carrier jpeg_put_bit jpeg_get_bit jpeg_positions jpeg_same
proof
  fix p and b :: u8 and c :: jpeg_image
  assume p: "p \<in> set (jpeg_positions c)" and b: "b \<le> 1"
  then have wf: "jpeg_wf c" by (auto simp: jpeg_positions_def split: if_splits)
  from p have u: "p < length (coeffs c)" "usable_at (coeffs c) p"
    unfolding jpeg_positions_def usable_positions_eq [OF wf] by (auto split: if_splits)
  let ?v = "embed_coefficient (coeffs c ! p) b"
  obtain c' where c': "coefficient_mut c p ?v = Some c'" "jpeg_wf c'"
      "map length (jp_components c') = map length (jp_components c)" "coeffs c' = (coeffs c)[p := ?v]"
    using coefficient_mut_eq [OF wf u(1)] by blast
  note em = embed_coefficient [OF b, of "coeffs c ! p"]
  have v: "2 \<le> magnitude (coeffs c ! p)" "p mod 64 \<noteq> 0" using u(2) by (simp_all add: usable_at_def)
  have get: "jpeg_get_bit i q = Ok (of_nat (magnitude (coeffs i ! q)) AND 1)"
    if "jpeg_wf i" "q < length (coeffs i)" for i q
    using coefficient_eq [OF that] by (simp add: jpeg_get_bit_def)
  have "jpeg_put_bit c p b = Ok c'"
    using coefficient_eq [OF wf u(1)] c'(1) by (simp add: jpeg_put_bit_def)
  moreover have "jpeg_positions c' = jpeg_positions c"
    using wf c' usable_after_embed [OF u(2,1) b]
    by (simp add: jpeg_positions_def usable_positions_eq cong: filter_cong)
  moreover have "jpeg_same c c'"
    unfolding jpeg_same_def using c' em v u(1)
    by (auto simp: nth_list_update close_coefficient_def)
  moreover have "jpeg_get_bit c' p = Ok b"
  proof -
    have "of_nat n AND (1 :: u8) = of_nat (n mod 2)" for n
      by (simp add: and_one_eq mod_2_eq_odd)
    then show ?thesis using get [OF c'(2)] c'(4) u(1) em(1) [OF v(1)] by simp
  qed
  moreover have "jpeg_get_bit c' q = jpeg_get_bit c q" if "q \<in> set (jpeg_positions c)" "q \<noteq> p" for q
  proof -
    have "q < length (coeffs c)"
      using that(1) wf by (simp add: jpeg_positions_def usable_positions_eq)
    then show ?thesis using get [OF c'(2)] get [OF wf] c'(4) that(2) by simp
  qed
  ultimately show "\<exists>c'. jpeg_put_bit c p b = Ok c' \<and> jpeg_positions c' = jpeg_positions c \<and>
      jpeg_same c c' \<and> jpeg_get_bit c' p = Ok b \<and>
      (\<forall>q \<in> set (jpeg_positions c). q \<noteq> p \<longrightarrow> jpeg_get_bit c' q = jpeg_get_bit c q)"
    by blast
next
  show "jpeg_same c c" for c by (simp add: jpeg_same_def close_coefficient_def)
  show "jpeg_same c c' \<Longrightarrow> jpeg_same c' c'' \<Longrightarrow> jpeg_same c c''" for c c' c''
    unfolding jpeg_same_def by (auto intro: close_coefficient_trans)
qed



subsection \<open>The file operations\<close>

text \<open>
  What the code relies on of libjpeg behind the C bridge: coefficient blocks have 64 entries, and
  the coefficients written over an original with the same layout are read back exactly
  (\<open>jpeg_write_coefficients\<close> is a lossless transcoding).
\<close>

definition jpeg_laws :: "ext \<Rightarrow> bool" where
  "jpeg_laws e \<longleftrightarrow>
     (\<forall>bs img. e_jpeg_read e bs = Ok img \<longrightarrow> jpeg_wf img) \<and>
     (\<forall>original img0 img bs. e_jpeg_read e original = Ok img0 \<longrightarrow>
        map length (jp_components img) = map length (jp_components img0) \<longrightarrow> jpeg_wf img \<longrightarrow>
        e_jpeg_write e original img = Ok bs \<longrightarrow> e_jpeg_read e bs = Ok img)"

lemma length_usable:
  assumes "jpeg_wf img"
  shows "unat (jpeg_raw_capacity img) = length (usable_positions img) div 8"
    "length (usable_positions img) \<le> MAX64" "distinct (usable_positions img)"
    "set (usable_positions img) = set (jpeg_positions img)"
proof -
  have "length (usable_positions img) \<le> length (coeffs img)"
    unfolding usable_positions_eq [OF assms] by (rule le_trans [OF length_filter_le]) simp
  then show m: "length (usable_positions img) \<le> MAX64"
    using assms by (simp add: jpeg_wf_def coeffs_def)
  then show "unat (jpeg_raw_capacity img) = length (usable_positions img) div 8"
    by (simp add: jpeg_raw_capacity_def unat_div unat_of_nat64 MAX64_def)
  show "distinct (usable_positions img)" by (simp add: usable_positions_eq [OF assms])
  show "set (usable_positions img) = set (jpeg_positions img)" using assms by (simp add: jpeg_positions_def)
qed

definition jpeg_open :: "ext \<Rightarrow> path \<Rightarrow> files \<Rightarrow> (jpeg_image, codec_error) res" where
  "jpeg_open e path fs = and_then (read_original path fs) (read_coefficients e)"

lemma jpeg_open_OkD:
  assumes "jpeg_open e path fs = Ok img"
  obtains bs where "fs path = Some bs" "e_jpeg_read e bs = Ok img"
  using assms by (auto simp: jpeg_open_def read_original_def read_coefficients_def ok_or_def split: option.splits)

lemma jpeg_open_wf:
  assumes "jpeg_laws e" "jpeg_open e path fs = Ok img" shows "jpeg_wf img"
  using assms(1) jpeg_open_OkD [OF assms(2)] unfolding jpeg_laws_def by metis

lemma jpeg_open_steps:
  assumes "jpeg_open e path fs = Ok img"
  obtains bs where "read_original path fs = Ok bs" "read_coefficients e bs = Ok img"
  using assms by (auto simp: jpeg_open_def)

lemma jpeg_save_Ok:
  assumes laws: "jpeg_laws e" and orig: "e_jpeg_read e original = Ok img0"
    and wf: "jpeg_wf img" "map length (jp_components img) = map length (jp_components img0)"
    and ok: "jpeg_save e path original img fs = Ok fs'"
  shows "jpeg_open e path fs' = Ok img"
    "\<forall>q. q \<noteq> path \<longrightarrow> q \<noteq> with_extension path JPG_TMP \<longrightarrow> fs' q = fs q"
proof -
  obtain bs where bs: "e_jpeg_write e original img = Ok bs"
    using ok by (auto simp: jpeg_save_def Let_def)
  have fs': "fs' = (fs(with_extension path JPG_TMP := None))(path := Some bs)"
    using ok bs by (auto simp: jpeg_save_def Let_def split: if_splits)
  have "e_jpeg_read e bs = Ok img" using laws orig wf bs unfolding jpeg_laws_def by blast
  then show "jpeg_open e path fs' = Ok img"
    by (simp add: jpeg_open_def read_original_def read_coefficients_def fs')
  show "\<forall>q. q \<noteq> path \<longrightarrow> q \<noteq> with_extension path JPG_TMP \<longrightarrow> fs' q = fs q"
    by (simp add: fs')
qed

lemma jpeg_store:
  fixes first second :: bytes
  defines "n \<equiv> 8 * (length first + length second)"
  assumes laws: "jpeg_laws e" and orig: "e_jpeg_read e original = Ok img"
    and ps: "mset ps = mset (usable_positions img)" "n \<le> length ps"
    and ok: "and_then (embed_bytes img ps first second) (\<lambda>img. jpeg_save e path original img fs) = Ok fs'"
  obtains img' where "jpeg_open e path fs' = Ok img'" "jpeg_same img img'"
    "usable_positions img' = usable_positions img"
    "\<And>a m. 8 * (a + m) \<le> n \<Longrightarrow>
       extract_bytes img' ps (8 * a) m = Ok (slice (first @ second) a (a + m))"
    "\<forall>q. q \<noteq> path \<longrightarrow> q \<noteq> with_extension path JPG_TMP \<longrightarrow> fs' q = fs q"
proof -
  have wf: "jpeg_wf img" using laws orig unfolding jpeg_laws_def by metis
  note u = length_usable [OF wf]
  have d: "distinct ps" "set ps \<subseteq> set (jpeg_positions img)"
    using mset_eq_imp_distinct_iff [OF ps(1)] mset_eq_setD [OF ps(1)] u(3,4) by auto
  have max: "n \<le> MAX64" using ps(2) mset_eq_length [OF ps(1)] u(2) by simp
  obtain img' where img': "embed_with jpeg_put_bit img ps first second = Ok img'"
      "jpeg_positions img' = jpeg_positions img" "jpeg_same img img'"
      "\<forall>qs a m. take n qs = take n ps \<longrightarrow> 8 * (a + m) \<le> n \<longrightarrow>
        extract_with jpeg_get_bit img' qs (8 * a) m = Ok (slice (first @ second) a (a + m))"
    using jpeg.embed_extract [OF d ps(2) [unfolded n_def] max [unfolded n_def]]
    unfolding n_def by blast
  have wf': "jpeg_wf img'" and lay: "map length (jp_components img') = map length (jp_components img)"
    using img'(3) wf by (simp_all add: jpeg_same_def)
  have sv: "jpeg_save e path original img' fs = Ok fs'"
    using ok img'(1) by (simp add: embed_bytes_def)
  have "usable_positions img' = usable_positions img"
    using img'(2) wf wf' by (simp add: jpeg_positions_def)
  then show thesis
    using that [OF jpeg_save_Ok(1) [OF laws orig wf' lay sv] img'(3)] img'(4)
      jpeg_save_Ok(2) [OF laws orig wf' lay sv]
    by (simp add: extract_bytes_def)
qed

definition jpeg_kept :: "ext \<Rightarrow> path \<Rightarrow> files \<Rightarrow> files \<Rightarrow> bool" where
  "jpeg_kept e path fs fs' \<longleftrightarrow>
     (\<forall>q. q \<noteq> path \<longrightarrow> q \<noteq> with_extension path JPG_TMP \<longrightarrow> fs' q = fs q) \<and>
     (\<exists>img img'. jpeg_open e path fs = Ok img \<and> jpeg_open e path fs' = Ok img' \<and>
        jpeg_same img img' \<and> usable_positions img' = usable_positions img)"

lemma jpeg_capacity_open:
  "jpeg_open e path fs = Ok img \<Longrightarrow> jpeg_raw_capacity_bytes e path fs = Ok (jpeg_raw_capacity img)"
  by (auto simp: jpeg_open_def jpeg_raw_capacity_bytes_def)

lemma jpeg_read_open:
  assumes "jpeg_open e path fs = Ok img"
  shows "jpeg_read_chunk e path mode key fs =
    (let raw = unat (jpeg_raw_capacity img)
     in case mode of
          ReadFramed \<Rightarrow>
            if key \<noteq> [] then Err (InvalidMode ''framed mode requires an empty order key'')
            else
              let positions = usable_positions img
              in and_then (extract_bytes img positions 0 CHUNK_HEADER_LEN) (\<lambda>header.
                 and_then (decode_header e header) (\<lambda>(meta, payload_len).
                 if unat payload_len > raw - CHUNK_HEADER_LEN then Err NotACarrier
                 else
                   and_then (extract_bytes img positions (CHUNK_HEADER_LEN * 8) (unat payload_len))
                     (\<lambda>payload. Ok (meta, payload))))
        | ReadMarkerless chunk_index payload_len \<Rightarrow>
            if payload_len > raw then Err NotACarrier
            else
              and_then (order_positions e (usable_positions img) key chunk_index) (\<lambda>positions.
              and_then (extract_bytes img positions 0 payload_len) (\<lambda>payload.
              Ok (\<lparr>cm_chunk_index = chunk_index, cm_flags = 0\<rparr>, payload))))"
  using assms by (auto simp: jpeg_open_def jpeg_read_chunk_def)

lemma jpeg_framed_roundtrip:
  assumes laws: "jpeg_laws e" and ok: "jpeg_write_chunk e path (WriteFramed meta) payload key fs = Ok fs'"
  shows "jpeg_read_chunk e path ReadFramed [] fs' = Ok (meta, payload) \<and> jpeg_kept e path fs fs'"
proof -
  obtain original img where op: "read_original path fs = Ok original" "read_coefficients e original = Ok img"
      and len: "length payload < 2 ^ 32"
      and need: "16 + length payload \<le> unat (jpeg_raw_capacity img)"
      and emb: "and_then (embed_bytes img (usable_positions img)
          (encode_header e meta (of_nat (length payload))) payload)
        (\<lambda>img. jpeg_save e path original img fs) = Ok fs'"
    using ok by (auto simp: jpeg_write_chunk_def Let_def CHUNK_HEADER_LEN_def split: if_splits)
  let ?h = "encode_header e meta (of_nat (length payload))"
  have orig: "e_jpeg_read e original = Ok img" using op(2) by (simp add: read_coefficients_def)
  have wf: "jpeg_wf img" using laws orig unfolding jpeg_laws_def by metis
  have sl: "8 * (length ?h + length payload) \<le> length (usable_positions img)"
    using need length_usable(1) [OF wf] by simp
  obtain img' where img': "jpeg_open e path fs' = Ok img'" "jpeg_same img img'"
      "usable_positions img' = usable_positions img"
      "\<And>a m. 8 * (a + m) \<le> 8 * (length ?h + length payload) \<Longrightarrow>
        extract_bytes img' (usable_positions img) (8 * a) m = Ok (slice (?h @ payload) a (a + m))"
      "\<forall>q. q \<noteq> path \<longrightarrow> q \<noteq> with_extension path JPG_TMP \<longrightarrow> fs' q = fs q"
    by (rule jpeg_store [OF laws orig refl sl emb]) auto
  have r: "extract_bytes img' (usable_positions img) 0 16 = Ok ?h"
    "extract_bytes img' (usable_positions img) 128 (length payload) = Ok payload"
    using img'(4) [of 0 16] img'(4) [of 16 "length payload"] by (simp_all add: slice_def)
  have "jpeg_raw_capacity img' = jpeg_raw_capacity img" using img'(3) by (simp add: jpeg_raw_capacity_def)
  with r need len have "jpeg_read_chunk e path ReadFramed [] fs' = Ok (meta, payload)"
    by (simp add: jpeg_read_open [OF img'(1)] img'(3) CHUNK_HEADER_LEN_def decode_encode_header unat_of_nat32)
  moreover have "jpeg_open e path fs = Ok img" using op by (simp add: jpeg_open_def)
  ultimately show ?thesis using img' unfolding jpeg_kept_def by auto
qed

lemma jpeg_markerless_roundtrip:
  assumes laws: "jpeg_laws e" "shuffle_laws e"
    and ok: "jpeg_write_chunk e path (WriteMarkerless index) payload key fs = Ok fs'"
  shows "jpeg_read_chunk e path (ReadMarkerless index (length payload)) key fs' =
      Ok (\<lparr>cm_chunk_index = index, cm_flags = 0\<rparr>, payload) \<and> jpeg_kept e path fs fs'"
proof -
  obtain original img ps where op: "read_original path fs = Ok original"
        "read_coefficients e original = Ok img"
      and need: "length payload \<le> unat (jpeg_raw_capacity img)"
      and ps: "order_positions e (usable_positions img) key index = Ok ps"
      and emb: "and_then (embed_bytes img ps [] payload)
        (\<lambda>img. jpeg_save e path original img fs) = Ok fs'"
    using ok by (auto simp: jpeg_write_chunk_def Let_def split: if_splits)
  have orig: "e_jpeg_read e original = Ok img" using op(2) by (simp add: read_coefficients_def)
  have wf: "jpeg_wf img" using laws(1) orig unfolding jpeg_laws_def by metis
  have perm: "mset ps = mset (usable_positions img)" by (rule order_positions_perm [OF laws(2) ps])
  have sl: "8 * (length ([] :: bytes) + length payload) \<le> length ps"
    using need length_usable(1) [OF wf] mset_eq_length [OF perm] by simp
  obtain img' where img': "jpeg_open e path fs' = Ok img'" "jpeg_same img img'"
      "usable_positions img' = usable_positions img"
      "\<And>a m. 8 * (a + m) \<le> 8 * (length ([] :: bytes) + length payload) \<Longrightarrow>
        extract_bytes img' ps (8 * a) m = Ok (slice ([] @ payload) a (a + m))"
      "\<forall>q. q \<noteq> path \<longrightarrow> q \<noteq> with_extension path JPG_TMP \<longrightarrow> fs' q = fs q"
    by (rule jpeg_store [OF laws(1) orig perm sl emb]) auto
  have r: "extract_bytes img' ps 0 (length payload) = Ok payload"
    using img'(4) [of 0 "length payload"] by simp
  have "jpeg_raw_capacity img' = jpeg_raw_capacity img" using img'(3) by (simp add: jpeg_raw_capacity_def)
  with r need ps have "jpeg_read_chunk e path (ReadMarkerless index (length payload)) key fs' =
      Ok (\<lparr>cm_chunk_index = index, cm_flags = 0\<rparr>, payload)"
    by (simp add: jpeg_read_open [OF img'(1)] img'(3))
  moreover have "jpeg_open e path fs = Ok img" using op by (simp add: jpeg_open_def)
  ultimately show ?thesis using img' unfolding jpeg_kept_def by auto
qed

lemma jpeg_prefix_roundtrip:
  assumes laws: "jpeg_laws e" and ok: "jpeg_write_prefix e path bs fs = Ok fs'"
  shows "jpeg_read_prefix e path (length bs) fs' = Ok bs \<and> jpeg_kept e path fs fs'"
proof -
  obtain original img where op: "read_original path fs = Ok original" "read_coefficients e original = Ok img"
      and need: "length bs \<le> unat (jpeg_raw_capacity img)"
      and emb: "and_then (embed_bytes img (usable_positions img) [] bs)
        (\<lambda>img. jpeg_save e path original img fs) = Ok fs'"
    using ok by (auto simp: jpeg_write_prefix_def Let_def split: if_splits)
  have orig: "e_jpeg_read e original = Ok img" using op(2) by (simp add: read_coefficients_def)
  have wf: "jpeg_wf img" using laws orig unfolding jpeg_laws_def by metis
  have sl: "8 * (length ([] :: bytes) + length bs) \<le> length (usable_positions img)"
    using need length_usable(1) [OF wf] by simp
  obtain img' where img': "jpeg_open e path fs' = Ok img'" "jpeg_same img img'"
      "usable_positions img' = usable_positions img"
      "\<And>a m. 8 * (a + m) \<le> 8 * (length ([] :: bytes) + length bs) \<Longrightarrow>
        extract_bytes img' (usable_positions img) (8 * a) m = Ok (slice ([] @ bs) a (a + m))"
      "\<forall>q. q \<noteq> path \<longrightarrow> q \<noteq> with_extension path JPG_TMP \<longrightarrow> fs' q = fs q"
    by (rule jpeg_store [OF laws orig refl sl emb]) auto
  have r: "extract_bytes img' (usable_positions img) 0 (length bs) = Ok bs"
    using img'(4) [of 0 "length bs"] by simp
  obtain bs' where bs': "read_original path fs' = Ok bs'" "read_coefficients e bs' = Ok img'"
    by (rule jpeg_open_steps [OF img'(1)])
  have "jpeg_raw_capacity img' = jpeg_raw_capacity img" using img'(3) by (simp add: jpeg_raw_capacity_def)
  with r need bs' have "jpeg_read_prefix e path (length bs) fs' = Ok bs"
    by (simp add: jpeg_read_prefix_def img'(3))
  moreover have "jpeg_open e path fs = Ok img" using op by (simp add: jpeg_open_def)
  ultimately show ?thesis using img' unfolding jpeg_kept_def by auto
qed

text \<open>C37: Embedding bytes into the usable coefficients of a JPEG image that has room for them
  succeeds and leaves the set of usable coefficients what it was, so the bytes are read back from
  the positions the image itself gives. DC coefficients and coefficients of magnitude below 2 are
  untouched; every other one keeps its sign and all but the low bit of its magnitude, unless it is
  \<open>i16::MIN\<close>.\<close>

theorem jpeg_embedding:
  assumes "jpeg_wf img" "8 * length bs \<le> length (usable_positions img)"
  shows "\<exists>img'. embed_bytes img (usable_positions img) [] bs = Ok img' \<and> jpeg_same img img' \<and>
    usable_positions img' = usable_positions img \<and>
    extract_bytes img' (usable_positions img') 0 (length bs) = Ok bs"
proof -
  note u = length_usable [OF assms(1)]
  have sub: "set (usable_positions img) \<subseteq> set (jpeg_positions img)" using u(4) by simp
  have room: "8 * (length ([] :: bytes) + length bs) \<le> length (usable_positions img)"
    using assms(2) by simp
  have max: "8 * (length ([] :: bytes) + length bs) \<le> MAX64" using room u(2) by simp
  obtain img' where img': "embed_with jpeg_put_bit img (usable_positions img) [] bs = Ok img'"
      "jpeg_positions img' = jpeg_positions img" "jpeg_same img img'"
      "\<forall>qs a m. take (8 * (length ([] :: bytes) + length bs)) qs =
          take (8 * (length ([] :: bytes) + length bs)) (usable_positions img) \<longrightarrow>
        8 * (a + m) \<le> 8 * (length ([] :: bytes) + length bs) \<longrightarrow>
        extract_with jpeg_get_bit img' qs (8 * a) m = Ok (slice ([] @ bs) a (a + m))"
    using jpeg.embed_extract [OF u(3) sub room max] by blast
  have p: "usable_positions img' = usable_positions img"
    using img'(2,3) assms(1) by (simp add: jpeg_positions_def jpeg_same_def)
  from img'(4) [rule_format, OF refl, of 0 "length bs"]
  have "extract_with jpeg_get_bit img' (usable_positions img') 0 (length bs) = Ok bs"
    unfolding p by simp
  with img'(1,3) p show ?thesis by (auto simp: embed_bytes_def extract_bytes_def)
qed

end
