(* ===== verification/Codec.thy ===== *)
theory Codec
  imports Jpeg
begin

text \<open>
  The \<open>Codec\<close> enumeration of \<^verbatim>\<open>src/stego/mod.rs\<close>, which dispatches the \<open>CarrierCodec\<close> operations
  on the kind of the image, and the contract of a carrier codec the block store relies on.
\<close>

definition codec_for_path :: "path \<Rightarrow> image_kind option" where
  "codec_for_path p = kind_for p"

definition codec_raw_capacity_bytes ::
    "ext \<Rightarrow> image_kind \<Rightarrow> path \<Rightarrow> files \<Rightarrow> (u64, codec_error) res" where
  "codec_raw_capacity_bytes e kind path fs =
     (case kind of Png \<Rightarrow> png_raw_capacity_bytes e path fs
      | JpegKind \<Rightarrow> jpeg_raw_capacity_bytes e path fs)"

definition codec_capacity_bytes ::
    "ext \<Rightarrow> image_kind \<Rightarrow> path \<Rightarrow> files \<Rightarrow> (u64, codec_error) res" where
  "codec_capacity_bytes e kind path fs =
     and_then (codec_raw_capacity_bytes e kind path fs) (\<lambda>raw.
     Ok (of_nat (unat raw - CHUNK_HEADER_LEN)))"

definition codec_write_chunk ::
    "ext \<Rightarrow> image_kind \<Rightarrow> path \<Rightarrow> chunk_write \<Rightarrow> bytes \<Rightarrow> bytes \<Rightarrow> files \<Rightarrow> (files, codec_error) res" where
  "codec_write_chunk e kind path mode payload order_key fs =
     (case kind of Png \<Rightarrow> png_write_chunk e path mode payload order_key fs
      | JpegKind \<Rightarrow> jpeg_write_chunk e path mode payload order_key fs)"

definition codec_read_chunk ::
    "ext \<Rightarrow> image_kind \<Rightarrow> path \<Rightarrow> chunk_read \<Rightarrow> bytes \<Rightarrow> files \<Rightarrow>
      (chunk_meta \<times> bytes, codec_error) res" where
  "codec_read_chunk e kind path mode order_key fs =
     (case kind of Png \<Rightarrow> png_read_chunk e path mode order_key fs
      | JpegKind \<Rightarrow> jpeg_read_chunk e path mode order_key fs)"

definition codec_write_prefix ::
    "ext \<Rightarrow> image_kind \<Rightarrow> path \<Rightarrow> bytes \<Rightarrow> files \<Rightarrow> (files, codec_error) res" where
  "codec_write_prefix e kind path bs fs =
     (case kind of Png \<Rightarrow> png_write_prefix e path bs fs
      | JpegKind \<Rightarrow> jpeg_write_prefix e path bs fs)"

definition codec_read_prefix ::
    "ext \<Rightarrow> image_kind \<Rightarrow> path \<Rightarrow> nat \<Rightarrow> files \<Rightarrow> (bytes, codec_error) res" where
  "codec_read_prefix e kind path len fs =
     (case kind of Png \<Rightarrow> png_read_prefix e path len fs
      | JpegKind \<Rightarrow> jpeg_read_prefix e path len fs)"


subsection \<open>The contract\<close>

definition codec_laws :: "ext \<Rightarrow> bool" where
  "codec_laws e \<longleftrightarrow> png_laws e \<and> jpeg_laws e \<and> shuffle_laws e"

definition tmp_path :: "image_kind \<Rightarrow> path \<Rightarrow> path" where
  "tmp_path kind p = with_extension p (case kind of Png \<Rightarrow> PNG_TMP | JpegKind \<Rightarrow> JPG_TMP)"

text \<open>
  What a codec promises the block store: a chunk or a prefix that was written is read back, the
  capacity stays what it was, and no file changes but the carrier and its temporary file.
\<close>

locale carrier_codec =
  fixes laws :: "ext \<Rightarrow> bool"
    and capacity :: "ext \<Rightarrow> 'k \<Rightarrow> path \<Rightarrow> files \<Rightarrow> (u64, codec_error) res"
    and write_chunk :: "ext \<Rightarrow> 'k \<Rightarrow> path \<Rightarrow> chunk_write \<Rightarrow> bytes \<Rightarrow> bytes \<Rightarrow> files \<Rightarrow> (files, codec_error) res"
    and read_chunk :: "ext \<Rightarrow> 'k \<Rightarrow> path \<Rightarrow> chunk_read \<Rightarrow> bytes \<Rightarrow> files \<Rightarrow> (chunk_meta \<times> bytes, codec_error) res"
    and write_prefix :: "ext \<Rightarrow> 'k \<Rightarrow> path \<Rightarrow> bytes \<Rightarrow> files \<Rightarrow> (files, codec_error) res"
    and read_prefix :: "ext \<Rightarrow> 'k \<Rightarrow> path \<Rightarrow> nat \<Rightarrow> files \<Rightarrow> (bytes, codec_error) res"
    and tmp :: "'k \<Rightarrow> path \<Rightarrow> path"
  assumes framed: "laws e \<Longrightarrow> write_chunk e k p (WriteFramed m) b key fs = Ok fs' \<Longrightarrow>
      read_chunk e k p ReadFramed [] fs' = Ok (m, b)"
    and markerless: "laws e \<Longrightarrow> write_chunk e k p (WriteMarkerless i) b key fs = Ok fs' \<Longrightarrow>
      read_chunk e k p (ReadMarkerless i (length b)) key fs' =
        Ok (\<lparr>cm_chunk_index = i, cm_flags = 0\<rparr>, b)"
    and prefix_back: "laws e \<Longrightarrow> write_prefix e k p b fs = Ok fs' \<Longrightarrow>
      read_prefix e k p (length b) fs' = Ok b"
    and chunk_frame: "laws e \<Longrightarrow> write_chunk e k p mode b key fs = Ok fs' \<Longrightarrow>
      q \<noteq> p \<Longrightarrow> q \<noteq> tmp k p \<Longrightarrow> fs' q = fs q"
    and prefix_frame: "laws e \<Longrightarrow> write_prefix e k p b fs = Ok fs' \<Longrightarrow>
      q \<noteq> p \<Longrightarrow> q \<noteq> tmp k p \<Longrightarrow> fs' q = fs q"
    and capacity_kept: "laws e \<Longrightarrow> write_chunk e k p mode b key fs = Ok fs' \<Longrightarrow>
      capacity e k p fs' = capacity e k p fs"
    and prefix_capacity_kept: "laws e \<Longrightarrow> write_prefix e k p b fs = Ok fs' \<Longrightarrow>
      capacity e k p fs' = capacity e k p fs"
    and read_local: "fs' p = fs p \<Longrightarrow> read_chunk e k p rmode key fs' = read_chunk e k p rmode key fs"
    and capacity_local: "fs' p = fs p \<Longrightarrow> capacity e k p fs' = capacity e k p fs"
    and prefix_local: "fs' p = fs p \<Longrightarrow> read_prefix e k p n fs' = read_prefix e k p n fs"
begin

lemma chunk_survives:
  assumes "laws e" "write_chunk e k p mode b key fs = Ok fs'" "q \<noteq> p" "q \<noteq> tmp k p"
  shows "read_chunk e k' q rmode key' fs' = read_chunk e k' q rmode key' fs"
  by (rule read_local) (rule chunk_frame [OF assms])

end

lemma png_kept_frame:
  assumes "png_laws e" "png_write_chunk e path mode payload key fs = Ok fs'"
  assumes sh: "shuffle_laws e"
  shows "png_kept e path fs fs'"
proof (cases mode)
  case (WriteFramed m)
  with assms png_framed_roundtrip show ?thesis by blast
next
  case (WriteMarkerless i)
  with assms png_markerless_roundtrip show ?thesis by blast
qed

lemma jpeg_kept_frame:
  assumes "jpeg_laws e" "jpeg_write_chunk e path mode payload key fs = Ok fs'"
  assumes sh: "shuffle_laws e"
  shows "jpeg_kept e path fs fs'"
proof (cases mode)
  case (WriteFramed m)
  with assms jpeg_framed_roundtrip show ?thesis by blast
next
  case (WriteMarkerless i)
  with assms jpeg_markerless_roundtrip show ?thesis by blast
qed

lemma png_kept_parts:
  assumes "png_kept e p fs fs'"
  shows "q \<noteq> p \<Longrightarrow> q \<noteq> tmp_path Png p \<Longrightarrow> fs' q = fs q"
    "png_raw_capacity_bytes e p fs' = png_raw_capacity_bytes e p fs"
  using assms by (auto simp: png_kept_def tmp_path_def)

lemma jpeg_kept_parts:
  assumes "jpeg_kept e p fs fs'"
  shows "q \<noteq> p \<Longrightarrow> q \<noteq> tmp_path JpegKind p \<Longrightarrow> fs' q = fs q"
    "jpeg_raw_capacity_bytes e p fs' = jpeg_raw_capacity_bytes e p fs"
  using assms by (auto simp: jpeg_kept_def tmp_path_def jpeg_capacity_open jpeg_raw_capacity_def)

lemma png_read_local:
  "fs' p = fs p \<Longrightarrow> png_read_chunk e p rmode key fs' = png_read_chunk e p rmode key fs"
  by (simp add: png_read_chunk_def image_open_def)

lemma jpeg_read_local:
  "fs' p = fs p \<Longrightarrow> jpeg_read_chunk e p rmode key fs' = jpeg_read_chunk e p rmode key fs"
  by (simp add: jpeg_read_chunk_def read_original_def)

interpretation codec: carrier_codec codec_laws codec_raw_capacity_bytes codec_write_chunk
  codec_read_chunk codec_write_prefix codec_read_prefix tmp_path
proof
  fix e :: ext and k p b key fs fs' and m :: chunk_meta
  assume "codec_laws e" "codec_write_chunk e k p (WriteFramed m) b key fs = Ok fs'"
  then show "codec_read_chunk e k p ReadFramed [] fs' = Ok (m, b)"
    using png_framed_roundtrip jpeg_framed_roundtrip
    by (cases k) (auto simp: codec_laws_def codec_write_chunk_def codec_read_chunk_def)
next
  fix e :: ext and k p b key fs fs' i
  assume "codec_laws e" "codec_write_chunk e k p (WriteMarkerless i) b key fs = Ok fs'"
  then show "codec_read_chunk e k p (ReadMarkerless i (length b)) key fs' =
      Ok (\<lparr>cm_chunk_index = i, cm_flags = 0\<rparr>, b)"
    using png_markerless_roundtrip jpeg_markerless_roundtrip
    by (cases k) (auto simp: codec_laws_def codec_write_chunk_def codec_read_chunk_def)
next
  fix e :: ext and k p b fs fs'
  assume w: "codec_laws e" "codec_write_prefix e k p b fs = Ok fs'"
  then show "codec_read_prefix e k p (length b) fs' = Ok b"
    using png_prefix_roundtrip jpeg_prefix_roundtrip
    by (cases k) (auto simp: codec_laws_def codec_write_prefix_def codec_read_prefix_def)
  show "codec_raw_capacity_bytes e k p fs' = codec_raw_capacity_bytes e k p fs"
    using w png_prefix_roundtrip [of e p b fs fs'] jpeg_prefix_roundtrip [of e p b fs fs']
      png_kept_parts(2) [of e p fs fs'] jpeg_kept_parts(2) [of e p fs fs']
    by (cases k) (auto simp: codec_laws_def codec_write_prefix_def codec_raw_capacity_bytes_def)
  fix q assume "q \<noteq> p" "q \<noteq> tmp_path k p"
  then show "fs' q = fs q"
    using w png_prefix_roundtrip [of e p b fs fs'] jpeg_prefix_roundtrip [of e p b fs fs']
      png_kept_parts(1) [of e p fs fs' q] jpeg_kept_parts(1) [of e p fs fs' q]
    by (cases k) (auto simp: codec_laws_def codec_write_prefix_def)
next
  fix e :: ext and k p mode b key fs fs'
  assume w: "codec_laws e" "codec_write_chunk e k p mode b key fs = Ok fs'"
  then show "codec_raw_capacity_bytes e k p fs' = codec_raw_capacity_bytes e k p fs"
    using png_kept_frame [of e p mode b key fs fs'] jpeg_kept_frame [of e p mode b key fs fs']
      png_kept_parts(2) [of e p fs fs'] jpeg_kept_parts(2) [of e p fs fs']
    by (cases k) (auto simp: codec_laws_def codec_write_chunk_def codec_raw_capacity_bytes_def)
  fix q assume "q \<noteq> p" "q \<noteq> tmp_path k p"
  then show "fs' q = fs q"
    using w png_kept_frame [of e p mode b key fs fs'] jpeg_kept_frame [of e p mode b key fs fs']
      png_kept_parts(1) [of e p fs fs' q] jpeg_kept_parts(1) [of e p fs fs' q]
    by (cases k) (auto simp: codec_laws_def codec_write_chunk_def)
next
  fix e :: ext and k p rmode key and fs fs' :: files
  assume "fs' p = fs p"
  then show "codec_read_chunk e k p rmode key fs' = codec_read_chunk e k p rmode key fs"
    using png_read_local [of fs' p fs e rmode key] jpeg_read_local [of fs' p fs e rmode key]
    by (cases k) (simp_all add: codec_read_chunk_def)
  from \<open>fs' p = fs p\<close> show "codec_raw_capacity_bytes e k p fs' = codec_raw_capacity_bytes e k p fs"
    by (cases k) (simp_all add: codec_raw_capacity_bytes_def png_raw_capacity_bytes_def image_open_def
        jpeg_raw_capacity_bytes_def read_original_def)
  from \<open>fs' p = fs p\<close> show "codec_read_prefix e k p n fs' = codec_read_prefix e k p n fs" for n
    by (cases k) (simp_all add: codec_read_prefix_def png_read_prefix_def image_open_def jpeg_read_prefix_def read_original_def)
qed

text \<open>Only a file that exists has a capacity.\<close>

lemma capacity_exists: "codec_raw_capacity_bytes e k p fs = Ok n \<Longrightarrow> fs p \<noteq> None"
  by (cases k; cases "fs p")
    (simp_all add: codec_raw_capacity_bytes_def png_raw_capacity_bytes_def jpeg_raw_capacity_bytes_def read_original_def)

text \<open>C27: A chunk written into a carrier image, framed or markerless, PNG or JPEG, is read back
  exactly by the read the store uses for that mode. No file but the carrier and its temporary file
  changes, and the capacity of the carrier stays what it was.\<close>

theorem codec_roundtrip:
  assumes "codec_laws e" "codec_write_chunk e k p mode b key fs = Ok fs'"
  shows "(case mode of
      WriteFramed m \<Rightarrow> codec_read_chunk e k p ReadFramed [] fs' = Ok (m, b)
    | WriteMarkerless i \<Rightarrow> codec_read_chunk e k p (ReadMarkerless i (length b)) key fs' =
        Ok (\<lparr>cm_chunk_index = i, cm_flags = 0\<rparr>, b)) \<and>
    (\<forall>q. q \<noteq> p \<and> q \<noteq> tmp_path k p \<longrightarrow> fs' q = fs q) \<and>
    codec_raw_capacity_bytes e k p fs' = codec_raw_capacity_bytes e k p fs"
  using codec.framed codec.markerless codec.chunk_frame [OF assms] codec.capacity_kept [OF assms] assms
  by (auto split: chunk_write.split)

end
