(* ===== verification/Dirent.thy ===== *)
theory Dirent
  imports FsTypes
begin

text \<open>
  \<^verbatim>\<open>src/fs/dirent.rs\<close>: the directory record, its encoder and its checked decoder, and the first
  block of a directory. A record whose inode is 0 is free. A Rust string is the list of its
  bytes; its \<open>utf8_valid\<close> is defined in \<open>Bytes\<close>.
\<close>

subsection \<open>The record\<close>

definition FILE_TYPE_FILE :: u8 where "FILE_TYPE_FILE = 1"
definition FILE_TYPE_DIR :: u8 where "FILE_TYPE_DIR = 2"

record dir_entry =
  d_inode :: u64
  d_rec_len :: u16
  d_name :: bytes
  d_file_type :: u8

definition required_len :: "nat \<Rightarrow> nat" where
  "required_len name_len = div_ceil (12 + name_len) 4 * 4"

definition dirent_new :: "u64 \<Rightarrow> bytes \<Rightarrow> u8 \<Rightarrow> nat \<Rightarrow> (dir_entry, fs_error) res" where
  "dirent_new ino name file_type rec_len =
     (if length name > 255 \<or> rec_len < required_len (length name) \<or> rec_len > 65535
      then Err (Manifest ''invalid directory entry size'')
      else Ok \<lparr>d_inode = ino, d_rec_len = of_nat rec_len, d_name = name, d_file_type = file_type\<rparr>)"

definition dirent_encode_into :: "dir_entry \<Rightarrow> bytes \<Rightarrow> (bytes, fs_error) res" where
  "dirent_encode_into e target =
     (let rec_len = unat (d_rec_len e)
      in if length target < rec_len \<or> rec_len < required_len (length (d_name e))
         then Err (Manifest ''directory entry does not fit'')
         else let t = put target 0 (replicate rec_len 0);
                  t = put t 0 (to_le 8 (d_inode e));
                  t = put t 8 (to_le 2 (d_rec_len e));
                  t = t[10 := of_nat (length (d_name e))];
                  t = t[11 := d_file_type e];
                  t = put t 12 (d_name e)
              in Ok t)"

definition dirent_decode :: "bytes \<Rightarrow> nat \<Rightarrow> (dir_entry, fs_error) res" where
  "dirent_decode block offset =
     (let header_end = offset + 12
      in if header_end > MAX64 then Err (Manifest ''directory entry offset overflow'')
         else if header_end > length block then Err (Manifest ''truncated directory entry'')
         else
           with_le 8 block offset (\<lambda>ino.
           with_le 2 block (offset + 8) (\<lambda>rec_len :: u16.
           with_at block (offset + 10) (\<lambda>name_len.
           let name_len = unat name_len;
               end_off = offset + unat rec_len
           in if end_off > MAX64 then Err (Manifest ''directory entry record overflow'')
              else if rec_len = 0 \<or> \<not> 4 dvd unat rec_len \<or> end_off > length block
                      \<or> 12 + name_len > unat rec_len
                then Err (Manifest ''invalid directory entry record'')
              else
                let name_end = header_end + name_len
                in if name_end > MAX64 then Err (Manifest ''directory entry name overflow'')
                   else
                     with_range block header_end name_end (\<lambda>name.
                     if \<not> utf8_valid name
                     then Err (Manifest ''directory entry name is not UTF-8'')
                     else
                       with_at block (offset + 11) (\<lambda>file_type.
                       Ok \<lparr>d_inode = ino, d_rec_len = rec_len, d_name = name,
                           d_file_type = file_type\<rparr>))))))"

definition initial_directory_block :: "u64 \<Rightarrow> u64 \<Rightarrow> (bytes, fs_error) res" where
  "initial_directory_block ino parent =
     (let block = replicate UB 0; dot_len = required_len 1
      in and_then (dirent_new ino [46] FILE_TYPE_DIR dot_len) (\<lambda>dot.
         and_then (dirent_encode_into dot (slice block 0 dot_len)) (\<lambda>t.
         let block = put block 0 t
         in and_then (dirent_new parent [46, 46] FILE_TYPE_DIR (UB - dot_len)) (\<lambda>dotdot.
            and_then (dirent_encode_into dotdot (slice block dot_len UB)) (\<lambda>t.
            Ok (put block dot_len t))))))"


subsection \<open>What a successful decode says\<close>

lemma required_len_bounds: "12 + n \<le> required_len n" "required_len n < 16 + n" "4 dvd required_len n"
  by (auto simp: required_len_def div_ceil_def) presburger+

lemma required_len_le: "12 + n \<le> r \<Longrightarrow> 4 dvd r \<Longrightarrow> required_len n \<le> r"
  using div_ceil_le_iff [of 4 "12 + n" "r div 4"] by (auto simp: required_len_def)

definition decodes :: "bytes \<Rightarrow> nat \<Rightarrow> dir_entry \<Rightarrow> bool" where
  "decodes b off e \<longleftrightarrow>
     from_le (slice b off (off + 8)) = d_inode e \<and>
     from_le (slice b (off + 8) (off + 10)) = d_rec_len e \<and>
     d_rec_len e \<noteq> 0 \<and> 4 dvd unat (d_rec_len e) \<and> off + unat (d_rec_len e) \<le> length b \<and>
     unat (b ! (off + 10)) = length (d_name e) \<and>
     12 + length (d_name e) \<le> unat (d_rec_len e) \<and>
     slice b (off + 12) (off + 12 + length (d_name e)) = d_name e \<and>
     utf8_valid (d_name e) \<and> b ! (off + 11) = d_file_type e"

lemma dirent_decode_Ok_iff:
  assumes "length b \<le> MAX64"
  shows "dirent_decode b off = Ok e \<longleftrightarrow> decodes b off e"
proof -
  define rl :: u16 where "rl = from_le (slice b (off + 8) (off + 10))"
  define nl where "nl = unat (b ! (off + 10))"
  show ?thesis
  proof (cases "off + 12 \<le> length b \<and> rl \<noteq> 0 \<and> 4 dvd unat rl \<and> off + unat rl \<le> length b \<and>
      12 + nl \<le> unat rl \<and> utf8_valid (slice b (off + 12) (off + 12 + nl))")
    case True
    then have le: "off + 12 + nl \<le> length b" by linarith
    from True le assms have "dirent_decode b off = Ok \<lparr>d_inode = from_le (slice b off (off + 8)),
      d_rec_len = rl, d_name = slice b (off + 12) (off + 12 + nl), d_file_type = b ! (off + 11)\<rparr>"
      by (simp add: dirent_decode_def Let_def rl_def nl_def add.commute add.left_commute)
    moreover have "length (slice b (off + 12) (off + 12 + nl)) = nl" using le by simp
    ultimately show ?thesis using True
      by (auto simp: decodes_def rl_def [symmetric] nl_def [symmetric])
  next
    case False
    then have "dirent_decode b off \<noteq> Ok e"
      by (auto simp: dirent_decode_def Let_def rl_def nl_def add.commute add.left_commute)
    moreover have "\<not> decodes b off e"
      using False unfolding decodes_def rl_def nl_def by auto
    ultimately show ?thesis by simp
  qed
qed

lemma dirent_decode_no_panic: "dirent_decode b off \<noteq> Panic"
  by (simp add: dirent_decode_def Let_def)

lemma dirent_decode_OkD:
  assumes "dirent_decode b off = Ok e"
  shows "0 < unat (d_rec_len e)" "4 dvd unat (d_rec_len e)" "off + unat (d_rec_len e) \<le> length b"
    "12 + length (d_name e) \<le> unat (d_rec_len e)" "utf8_valid (d_name e)" "off < length b"
    "off + unat (d_rec_len e) \<le> MAX64"
  using assms by (auto simp: dirent_decode_def Let_def unat_gt_0 split: if_splits)

lemma dirent_decode_name_len: "dirent_decode b off = Ok e \<Longrightarrow> length (d_name e) \<le> 255"
  using unat_u8 [of "b ! (off + 10)"] by (auto simp: dirent_decode_def Let_def split: if_splits)

lemma dirent_decode_minimal:
  "dirent_decode b off = Ok e \<Longrightarrow> required_len (length (d_name e)) \<le> unat (d_rec_len e)"
  by (rule required_len_le) (auto dest: dirent_decode_OkD)

text \<open>Decoding reads the record's own bytes only.\<close>

lemma dirent_decode_local:
  assumes "dirent_decode b off = Ok e" "length b' = length b" "length b \<le> MAX64"
    and "slice b' off (off + unat (d_rec_len e)) = slice b off (off + unat (d_rec_len e))"
  shows "dirent_decode b' off = Ok e"
proof -
  from assms(1,3) have d: "decodes b off e" by (simp add: dirent_decode_Ok_iff)
  then have r: "12 + length (d_name e) \<le> unat (d_rec_len e)" "off + unat (d_rec_len e) \<le> length b"
    unfolding decodes_def by blast+
  have sub: "slice b c f = slice b' c f" if "off \<le> c" "f \<le> off + unat (d_rec_len e)" for c f
    using slice_eq_sub [OF assms(4)] that by simp
  have nth: "b ! i = b' ! i" if "off \<le> i" "i < off + unat (d_rec_len e)" for i
    using slice_eq_nth [OF assms(4), of i] that assms(2) r by simp
  have eqs: "slice b off (off + 8) = slice b' off (off + 8)"
    "slice b (off + 8) (off + 10) = slice b' (off + 8) (off + 10)"
    "b ! (off + 10) = b' ! (off + 10)" "b ! (off + 11) = b' ! (off + 11)"
    "slice b (off + 12) (off + 12 + length (d_name e)) =
      slice b' (off + 12) (off + 12 + length (d_name e))"
    using r by (auto intro!: sub nth)
  from d have "decodes b' off e"
    unfolding decodes_def eqs assms(2) .
  then show ?thesis using assms(2,3) by (simp add: dirent_decode_Ok_iff)
qed

lemma dirent_encode_into_Ok:
  assumes "dirent_encode_into e target = Ok t"
  shows "unat (d_rec_len e) \<le> length target" "12 + length (d_name e) \<le> unat (d_rec_len e)"
    "length t = length target"
    "slice t 0 8 = to_le 8 (d_inode e)" "slice t 8 10 = to_le 2 (d_rec_len e)"
    "t ! 10 = of_nat (length (d_name e))" "t ! 11 = d_file_type e"
    "slice t 12 (12 + length (d_name e)) = d_name e"
proof -
  let ?r = "unat (d_rec_len e)" and ?n = "length (d_name e)"
  from assms show r: "?r \<le> length target"
    by (auto simp: dirent_encode_into_def Let_def split: if_splits)
  from assms have "required_len ?n \<le> ?r"
    by (auto simp: dirent_encode_into_def Let_def split: if_splits)
  then show n: "12 + ?n \<le> ?r" using required_len_bounds(1) [of ?n] by simp
  define t1 where "t1 = put (put (put target 0 (replicate ?r 0)) 0 (to_le 8 (d_inode e))) 8
    (to_le 2 (d_rec_len e))"
  define t2 where "t2 = t1[10 := of_nat ?n, 11 := d_file_type e]"
  have t: "t = put t2 12 (d_name e)"
    using assms by (auto simp: dirent_encode_into_def Let_def t1_def t2_def split: if_splits)
  have l1: "length t1 = length target" using r n by (simp add: t1_def)
  then have l2: "length t2 = length target" by (simp add: t2_def)
  then show "length t = length target" using r n by (simp add: t)
  have s2: "slice t2 a b = slice t1 a b" if "b \<le> 10" for a b
    using that by (simp add: t2_def slice_def take_drop min_def)
      (cases "a \<le> b"; simp add: drop_update_cancel take_update_cancel)
  show "slice t 0 8 = to_le 8 (d_inode e)" "slice t 8 10 = to_le 2 (d_rec_len e)"
    using r n l1 l2 by (simp_all add: t slice_put_before s2 t1_def slice_simps)
  show "t ! 10 = of_nat ?n" "t ! 11 = d_file_type e"
    using r n l1 l2 by (simp_all add: t nth_put t2_def)
  show "slice t 12 (12 + ?n) = d_name e"
    using r n l2 by (simp add: t slice_put_same)
qed


text \<open>
  Writing one record inside a block: what decoding it gives back. The three writes of the code
  are a whole record (\<open>encode_into\<close>), a new \<open>rec_len\<close>, and a zeroed inode.
\<close>

lemma decode_after_encode:
  assumes "length p \<le> MAX64" "off + length t \<le> length p"
    and enc: "dirent_encode_into e target = Ok t"
    and "utf8_valid (d_name e)" "length (d_name e) \<le> 255" "4 dvd unat (d_rec_len e)"
  shows "dirent_decode (put p off t) off = Ok e"
proof -
  note E = dirent_encode_into_Ok [OF enc]
  let ?b = "put p off t" and ?n = "length (d_name e)"
  have lb: "length ?b = length p" using assms(2) by simp
  have sl: "slice ?b off (off + length t) = t" using assms(2) by (simp add: slice_put_same)
  have sub: "slice ?b (off + c) (off + f) = slice t c f" if "f \<le> length t" for c f
    using slice_slice [of ?b off "off + length t" c f] sl that by (simp add: min_def)
  have nth: "?b ! (off + k) = t ! k" if "k < length t" for k
    using that assms(2) by (simp add: nth_put)
  have "decodes ?b off e"
    unfolding decodes_def
    using E assms sub [of 8 0] sub [of 10 8] sub [of "12 + ?n" 12] nth [of 10] nth [of 11]
    by (auto simp: lb unat_eq_0 unat_of_nat take_bit_eq_mod add.assoc)
  then show ?thesis using lb assms(1) by (simp add: dirent_decode_Ok_iff)
qed

lemma decode_after_rec_len:
  assumes "dirent_decode p off = Ok e" "length p \<le> MAX64"
    and "12 + length (d_name e) \<le> r" "4 dvd r" "off + r \<le> length p" "r < 65536"
  shows "dirent_decode (put p (off + 8) (to_le 2 (of_nat r :: u16))) off =
    Ok (e\<lparr>d_rec_len := of_nat r\<rparr>)"
proof -
  let ?b = "put p (off + 8) (to_le 2 (of_nat r :: u16))"
  from assms(1,2) have d: "decodes p off e" by (simp add: dirent_decode_Ok_iff)
  have ur: "unat (of_nat r :: u16) = r" using assms(6) by (simp add: unat_of_nat take_bit_eq_mod)
  then have r0: "(of_nat r :: u16) \<noteq> 0" using assms(3) by (metis add_is_0 not_numeral_le_zero unat_0 zero_neq_numeral le_zero_eq)
  have "off + 12 \<le> length p" using assms(3,5) by linarith
  then have s: "slice ?b c f = slice p c f" if "f \<le> off + 8 \<or> off + 10 \<le> c" for c f
    using that by (auto simp: slice_put_before slice_put_after)
  have s': "slice ?b (off + 8) (off + 10) = to_le 2 (of_nat r :: u16)" and lb: "length ?b = length p"
    using \<open>off + 12 \<le> length p\<close> by (simp_all add: slice_put_same)
  have n: "?b ! (off + 10) = p ! (off + 10)" "?b ! (off + 11) = p ! (off + 11)"
    using \<open>off + 12 \<le> length p\<close> by (simp_all add: nth_put)
  have "decodes ?b off (e\<lparr>d_rec_len := of_nat r\<rparr>)"
    using d assms(3-5) r0 unfolding decodes_def by (simp add: s s' n lb ur)
  then show ?thesis using lb assms(2) by (simp add: dirent_decode_Ok_iff)
qed

lemma decode_after_clear:
  assumes "dirent_decode p off = Ok e" "length p \<le> MAX64"
  shows "dirent_decode (put p off (replicate 8 0)) off = Ok (e\<lparr>d_inode := 0\<rparr>)"
    and "dirent_decode (put p off (to_le 8 v)) off = Ok (e\<lparr>d_inode := v\<rparr>)"
proof -
  show *: "dirent_decode (put p off (to_le 8 v)) off = Ok (e\<lparr>d_inode := v\<rparr>)" for v :: u64
  proof -
    let ?b = "put p off (to_le 8 v)"
    from assms have d: "decodes p off e" by (simp add: dirent_decode_Ok_iff)
    have l: "off + 12 \<le> length p" using dirent_decode_OkD [OF assms(1)] by linarith
    then have s: "slice ?b c f = slice p c f" if "off + 8 \<le> c" for c f
      using that by (auto simp: slice_put_after)
    have s': "slice ?b off (off + 8) = to_le 8 v" and lb: "length ?b = length p"
      using l by (simp_all add: slice_put_same)
    have n: "?b ! (off + 10) = p ! (off + 10)" "?b ! (off + 11) = p ! (off + 11)"
      using l by (simp_all add: nth_put)
    have "decodes ?b off (e\<lparr>d_inode := v\<rparr>)"
      using d unfolding decodes_def by (simp add: s s' n lb)
    then show ?thesis using lb assms(2) by (simp add: dirent_decode_Ok_iff)
  qed
  from * [of 0] show "dirent_decode (put p off (replicate 8 0)) off = Ok (e\<lparr>d_inode := 0\<rparr>)"
    by simp
qed

end
