(* ===== verification/Superblock.thy ===== *)
theory Superblock
  imports Dirent
begin

text \<open>
  \<^verbatim>\<open>src/fs/superblock.rs\<close>: the superblock, its carrier manifest and their encoding in the three
  format versions. The decoder reads untrusted bytes, so every range it takes is a checked read.
\<close>

definition CRYPTO_FLAG_ENCRYPTED :: u32 where "CRYPTO_FLAG_ENCRYPTED = 1"
definition MARKERLESS_FS_VERSION :: u32 where "MARKERLESS_FS_VERSION = 3"
definition V1_HEADER_LEN :: nat where "V1_HEADER_LEN = 80"
definition V2_HEADER_LEN :: nat where "V2_HEADER_LEN = 108"
definition V3_HEADER_LEN :: nat where "V3_HEADER_LEN = 80"

text \<open>From \<^verbatim>\<open>src/fs/crypto.rs\<close>.\<close>

definition ARGON2_MEM_KIB :: u32 where "ARGON2_MEM_KIB = 65536"
definition ARGON2_ITERS :: u32 where "ARGON2_ITERS = 3"
definition ARGON2_PARALLEL :: u32 where "ARGON2_PARALLEL = 1"

record carrier_range =
  cr_name :: bytes
  cr_chunk_index :: u32
  cr_block_start :: u64
  cr_block_count :: u64

record superblock =
  sb_version :: u32
  sb_block_size :: u32
  sb_usable_size :: u32
  sb_total_blocks :: u64
  sb_inode_count :: u64
  sb_bitmap_start :: u64
  sb_inode_table_start :: u64
  sb_data_start :: u64
  sb_root_inode :: u64
  sb_crypto_flags :: u32
  sb_salt :: bytes
  sb_argon2_mem_kib :: u32
  sb_argon2_iters :: u32
  sb_argon2_parallel :: u32
  sb_manifest :: "carrier_range list"

definition header_len_of :: "u32 \<Rightarrow> nat" where
  "header_len_of version =
     (if version = 1 then V1_HEADER_LEN else if version = 2 then V2_HEADER_LEN else V3_HEADER_LEN)"

definition manifest_len_of :: "superblock \<Rightarrow> nat" where
  "manifest_len_of sb =
     (if sb_version sb \<ge> MARKERLESS_FS_VERSION
      then sum_list (map (\<lambda>carrier. 2 + length (cr_name carrier) + 20) (sb_manifest sb))
      else 20 * length (sb_manifest sb))"

fun put_manifest :: "u32 \<Rightarrow> bytes \<Rightarrow> nat \<Rightarrow> carrier_range list \<Rightarrow> bytes" where
  "put_manifest version bs offset [] = bs"
| "put_manifest version bs offset (carrier # rest) =
     (let (bs, offset) =
        (if version \<ge> MARKERLESS_FS_VERSION then
           let bs = put bs offset (to_le 2 (of_nat (length (cr_name carrier)) :: u16));
               offset = offset + 2;
               bs = put bs offset (cr_name carrier)
           in (bs, offset + length (cr_name carrier))
         else (bs, offset));
        bs = put bs offset (to_le 4 (cr_chunk_index carrier));
        bs = put bs (offset + 4) (to_le 8 (cr_block_start carrier));
        bs = put bs (offset + 12) (to_le 8 (cr_block_count carrier))
      in put_manifest version bs (offset + 20) rest)"

text \<open>Lines 53 to 70: the fixed fields and the offsets they are written at.\<close>

definition header_writes :: "superblock \<Rightarrow> (nat \<times> bytes) list" where
  "header_writes sb =
     [(0, SB_MAGIC),
      (8, to_le 4 (sb_version sb)),
      (12, to_le 4 (sb_block_size sb)),
      (16, to_le 4 (sb_usable_size sb)),
      (20, to_le 8 (sb_total_blocks sb)),
      (28, to_le 8 (sb_inode_count sb)),
      (36, to_le 8 (sb_bitmap_start sb)),
      (44, to_le 8 (sb_inode_table_start sb)),
      (52, to_le 8 (sb_data_start sb)),
      (60, to_le 8 (sb_root_inode sb)),
      (68, to_le 4 (of_nat (length (sb_manifest sb)) :: u32)),
      (72, to_le 4 (sb_crypto_flags sb))] @
     (if sb_version sb = 2 then
        [(80, sb_salt sb),
         (96, to_le 4 (sb_argon2_mem_kib sb)),
         (100, to_le 4 (sb_argon2_iters sb)),
         (104, to_le 4 (sb_argon2_parallel sb))]
      else [])"

definition superblock_encode :: "(bytes \<Rightarrow> u32) \<Rightarrow> superblock \<Rightarrow> bytes" where
  "superblock_encode crc32 sb = (
     let header_len = header_len_of (sb_version sb);
         bs = replicate (header_len + manifest_len_of sb) 0;
         bs = put_all bs (header_writes sb);
         bs = put_manifest (sb_version sb) bs header_len (sb_manifest sb)
     in put bs 76 (to_le 4 (crc32 bs)))"

definition has_sub :: "u8 \<Rightarrow> bytes \<Rightarrow> bool" where
  "has_sub c name \<longleftrightarrow> c \<in> set name"

definition validate_name :: "bytes \<Rightarrow> (unit, fs_error) res" where
  "validate_name name =
     (if name = [] \<or> name = [46] \<or> name = [46, 46] \<or> has_sub 47 name \<or> has_sub 92 name
         \<or> length name > 65535
      then Err (Manifest ''invalid carrier manifest name'') else Ok ())"

definition decode_manifest_name ::
    "u32 \<Rightarrow> bytes \<Rightarrow> nat \<Rightarrow> (bytes \<times> nat, fs_error) res" where
  "decode_manifest_name version buf offset =
     (if version \<ge> MARKERLESS_FS_VERSION then
        let name_len_end = offset + 2
        in if name_len_end > MAX64 then Err (Manifest ''manifest offset overflow'')
           else if name_len_end > length buf then Err (Manifest ''truncated manifest name length'')
           else
             with_le 2 buf offset (\<lambda>name_len :: u16.
             let name_end = name_len_end + unat name_len
             in if name_end > MAX64 then Err (Manifest ''manifest name overflow'')
                else if name_end > length buf then Err (Manifest ''truncated manifest name'')
                else
                  with_range buf name_len_end name_end (\<lambda>name.
                  if \<not> utf8_valid name then Err (Manifest ''manifest name is not UTF-8'')
                  else and_then (validate_name name) (\<lambda>_. Ok (name, name_end))))
      else Ok ([], offset))"

fun decode_manifest ::
    "u32 \<Rightarrow> bytes \<Rightarrow> nat \<Rightarrow> nat \<Rightarrow> (carrier_range list \<times> nat, fs_error) res" where
  "decode_manifest version buf 0 offset = Ok ([], offset)"
| "decode_manifest version buf (Suc n) offset =
     and_then (decode_manifest_name version buf offset)
       (\<lambda>(name, offset).
          let entry_end = offset + 20
          in if entry_end > MAX64 then Err (Manifest ''manifest entry overflow'')
             else if entry_end > length buf then Err (Manifest ''truncated manifest'')
             else
               with_le 4 buf offset (\<lambda>chunk_index.
               with_le 8 buf (offset + 4) (\<lambda>block_start.
               with_le 8 buf (offset + 12) (\<lambda>block_count.
               and_then (decode_manifest version buf n entry_end) (\<lambda>(manifest, end_off).
               Ok (\<lparr>cr_name = name, cr_chunk_index = chunk_index, cr_block_start = block_start,
                    cr_block_count = block_count\<rparr> # manifest, end_off))))))"

definition superblock_decode :: "(bytes \<Rightarrow> u32) \<Rightarrow> bytes \<Rightarrow> (superblock, fs_error) res" where
  "superblock_decode crc32 buf =
     (if length buf < V1_HEADER_LEN \<or> slice buf 0 8 \<noteq> SB_MAGIC then Err BadMagic
      else
        with_le 4 buf 8 (\<lambda>version :: u32.
        and_then
          (if version = 1 then Ok V1_HEADER_LEN
           else if version = 2 then Ok V2_HEADER_LEN
           else if version = MARKERLESS_FS_VERSION then Ok V3_HEADER_LEN
           else Err (Manifest ''unsupported filesystem version''))
        (\<lambda>header_len.
        if length buf < header_len then Err (Manifest ''truncated superblock header'')
        else
          with_le 4 buf 68 (\<lambda>image_count :: u32.
          and_then (decode_manifest version buf (unat image_count) header_len)
          (\<lambda>(manifest, offset).
          with_le 4 buf 76 (\<lambda>stored :: u32.
          with_range buf 0 offset (\<lambda>check.
          if crc32 (put check 76 (replicate 4 0)) \<noteq> stored then Err SuperblockCrc
          else
            with_le 4 buf 12 (\<lambda>block_size.
            with_le 4 buf 16 (\<lambda>usable_size.
            with_le 8 buf 20 (\<lambda>total_blocks.
            with_le 8 buf 28 (\<lambda>inode_count.
            with_le 8 buf 36 (\<lambda>bitmap_start.
            with_le 8 buf 44 (\<lambda>inode_table_start.
            with_le 8 buf 52 (\<lambda>data_start.
            with_le 8 buf 60 (\<lambda>root_inode.
            with_le 4 buf 72 (\<lambda>crypto_flags.
            (if version = 2 then with_range buf 80 96
             else (\<lambda>k. k (replicate 16 0))) (\<lambda>salt.
            (if version = 2 then with_le 4 buf 96 else (\<lambda>k. k 0)) (\<lambda>argon2_mem_kib.
            (if version = 2 then with_le 4 buf 100 else (\<lambda>k. k 0)) (\<lambda>argon2_iters.
            (if version = 2 then with_le 4 buf 104 else (\<lambda>k. k 0)) (\<lambda>argon2_parallel.
            Ok \<lparr>sb_version = version, sb_block_size = block_size, sb_usable_size = usable_size,
                sb_total_blocks = total_blocks, sb_inode_count = inode_count,
                sb_bitmap_start = bitmap_start, sb_inode_table_start = inode_table_start,
                sb_data_start = data_start, sb_root_inode = root_inode,
                sb_crypto_flags = crypto_flags, sb_salt = salt,
                sb_argon2_mem_kib = argon2_mem_kib, sb_argon2_iters = argon2_iters,
                sb_argon2_parallel = argon2_parallel, sb_manifest = manifest\<rparr>))))))))))))))))))))"

definition superblock_standard ::
    "u64 \<Rightarrow> u64 \<Rightarrow> u64 \<Rightarrow> u64 \<Rightarrow> u64 \<Rightarrow> carrier_range list \<Rightarrow> bool \<Rightarrow> superblock" where
  "superblock_standard total_blocks inode_count bitmap_start inode_table_start data_start
     manifest encrypted =
     \<lparr>sb_version = FS_VERSION, sb_block_size = of_nat PB, sb_usable_size = of_nat UB,
      sb_total_blocks = total_blocks, sb_inode_count = inode_count,
      sb_bitmap_start = bitmap_start, sb_inode_table_start = inode_table_start,
      sb_data_start = data_start, sb_root_inode = 1,
      sb_crypto_flags = (if encrypted then CRYPTO_FLAG_ENCRYPTED else 0),
      sb_salt = replicate 16 0, sb_argon2_mem_kib = ARGON2_MEM_KIB,
      sb_argon2_iters = ARGON2_ITERS, sb_argon2_parallel = ARGON2_PARALLEL,
      sb_manifest = manifest\<rparr>"

definition superblock_markerless ::
    "u64 \<Rightarrow> u64 \<Rightarrow> u64 \<Rightarrow> u64 \<Rightarrow> u64 \<Rightarrow> carrier_range list \<Rightarrow> superblock" where
  "superblock_markerless total_blocks inode_count bitmap_start inode_table_start data_start
     manifest =
     (superblock_standard total_blocks inode_count bitmap_start inode_table_start data_start
        manifest True)
     \<lparr>sb_version := MARKERLESS_FS_VERSION, sb_argon2_mem_kib := 0, sb_argon2_iters := 0,
      sb_argon2_parallel := 0\<rparr>"

definition sb_encrypted :: "superblock \<Rightarrow> bool" where
  "sb_encrypted sb \<longleftrightarrow> sb_crypto_flags sb AND CRYPTO_FLAG_ENCRYPTED \<noteq> 0"

definition markerless_encrypted :: "superblock \<Rightarrow> bool" where
  "markerless_encrypted sb \<longleftrightarrow> sb_version sb = MARKERLESS_FS_VERSION \<and> sb_encrypted sb"

subsection \<open>What round-trips\<close>

definition carrier_wf :: "u32 \<Rightarrow> carrier_range \<Rightarrow> bool" where
  "carrier_wf version c \<longleftrightarrow>
     (if version \<ge> MARKERLESS_FS_VERSION
      then utf8_valid (cr_name c) \<and> validate_name (cr_name c) = Ok ()
      else cr_name c = [])"

definition superblock_wf :: "superblock \<Rightarrow> bool" where
  "superblock_wf sb \<longleftrightarrow>
     sb_version sb \<in> {1, 2, 3} \<and> length (sb_salt sb) = 16 \<and>
     (sb_version sb \<noteq> 2 \<longrightarrow> sb_salt sb = replicate 16 0 \<and> sb_argon2_mem_kib sb = 0 \<and>
        sb_argon2_iters sb = 0 \<and> sb_argon2_parallel sb = 0) \<and>
     length (sb_manifest sb) < 2 ^ 32 \<and>
     (\<forall>c \<in> set (sb_manifest sb). carrier_wf (sb_version sb) c)"

lemma validate_name_no_panic [simp]: "validate_name name \<noteq> Panic"
  by (simp add: validate_name_def)

text \<open>The bytes of one manifest entry.\<close>

definition carrier_bytes :: "u32 \<Rightarrow> carrier_range \<Rightarrow> bytes" where
  "carrier_bytes version c =
     (if version \<ge> MARKERLESS_FS_VERSION
      then to_le 2 (of_nat (length (cr_name c)) :: u16) @ cr_name c else []) @
     to_le 4 (cr_chunk_index c) @ to_le 8 (cr_block_start c) @ to_le 8 (cr_block_count c)"

lemma put_put_adjacent:
  "b = a + length ys \<Longrightarrow> b + length zs \<le> length xs \<Longrightarrow> put (put xs a ys) b zs = put xs a (ys @ zs)"
  by (simp add: put_def drop_append add.commute add.left_commute)

lemma put_append_zeros:
  "length h = a \<Longrightarrow> length ys \<le> m \<Longrightarrow>
    put (h @ replicate m x) a ys = (h @ ys) @ replicate (m - length ys) x"
  by (simp add: put_def)

lemma length_carrier_bytes:
  "length (carrier_bytes version c) =
     (if version \<ge> MARKERLESS_FS_VERSION then 2 + length (cr_name c) else 0) + 20"
  by (simp add: carrier_bytes_def)

lemma put_manifest_step:
  assumes "offset + length (carrier_bytes version c) \<le> length bs"
  shows "put_manifest version bs offset (c # cs) =
    put_manifest version (put bs offset (carrier_bytes version c))
      (offset + length (carrier_bytes version c)) cs"
  using assms
  by (cases "version \<ge> MARKERLESS_FS_VERSION")
    (simp_all add: Let_def put_put_adjacent length_carrier_bytes carrier_bytes_def add.assoc
      del: add_2_eq_Suc add_2_eq_Suc')

lemma put_manifest_eq:
  assumes "length h = offset" "length (concat (map (carrier_bytes version) cs)) = m"
  shows "put_manifest version (h @ replicate m 0) offset cs =
    h @ concat (map (carrier_bytes version) cs)"
  using assms
proof (induction cs arbitrary: h offset m)
  case Nil
  then show ?case by simp
next
  case (Cons c cs)
  let ?c = "carrier_bytes version c"
  have m: "m = length ?c + length (concat (map (carrier_bytes version) cs))"
    using Cons.prems(2) by simp
  have "put_manifest version (h @ replicate m 0) offset (c # cs) =
      put_manifest version (put (h @ replicate m 0) offset ?c) (offset + length ?c) cs"
    by (rule put_manifest_step) (use Cons.prems(1) m in simp)
  also have "put (h @ replicate m 0) offset ?c = (h @ ?c) @ replicate (m - length ?c) 0"
    by (rule put_append_zeros) (use Cons.prems(1) m in simp_all)
  also have "put_manifest version \<dots> (offset + length ?c) cs =
      (h @ ?c) @ concat (map (carrier_bytes version) cs)"
    by (rule Cons.IH) (use Cons.prems(1) m in simp_all)
  finally show ?case by simp
qed

lemma manifest_len_eq:
  "manifest_len_of sb = length (concat (map (carrier_bytes (sb_version sb)) (sb_manifest sb)))"
proof -
  have "length (concat (map (carrier_bytes v) cs)) =
      (if v \<ge> MARKERLESS_FS_VERSION
       then sum_list (map (\<lambda>c. 2 + length (cr_name c) + 20) cs) else 20 * length cs)" for v cs
    by (induction cs) (simp_all add: length_carrier_bytes)
  then show ?thesis by (simp add: manifest_len_of_def)
qed

text \<open>The decoding loop on the bytes the encoding loop wrote.\<close>

lemma slice_middle:
  "length h = a \<Longrightarrow> slice (h @ xs @ t) (a + i) (a + i + n) = slice xs i (i + n)"
  if "i + n \<le> length xs" for n
  using that by (auto simp: slice_def)

lemma decode_manifest_carrier:
  assumes "length h = offset" "carrier_wf version c"
    and len: "length (h @ carrier_bytes version c @ t) \<le> MAX64"
  shows "decode_manifest version (h @ carrier_bytes version c @ t) (Suc n) offset =
    and_then (decode_manifest version (h @ carrier_bytes version c @ t) n
        (offset + length (carrier_bytes version c)))
      (\<lambda>(manifest, end_off). Ok (c # manifest, end_off))"
proof (cases "version \<ge> MARKERLESS_FS_VERSION")
  case False
  let ?b = "h @ carrier_bytes version c @ t"
  have l: "length (carrier_bytes version c) = 20" using False by (simp add: length_carrier_bytes)
  have "slice ?b offset (offset + 4) = to_le 4 (cr_chunk_index c)"
    "slice ?b (offset + 4) (offset + 4 + 8) = to_le 8 (cr_block_start c)"
    "slice ?b (offset + 12) (offset + 12 + 8) = to_le 8 (cr_block_count c)"
    using slice_middle [of 0 4 "carrier_bytes version c" h offset t]
      slice_middle [of 4 8 "carrier_bytes version c" h offset t]
      slice_middle [of 12 8 "carrier_bytes version c" h offset t] assms(1) l False
    by (simp_all add: carrier_bytes_def slice_def)
  moreover have "cr_name c = []" using assms(2) False by (simp add: carrier_wf_def)
  ultimately show ?thesis
    using False assms(1) len l by (cases c) (simp add: decode_manifest_name_def split_beta)
next
  case True
  let ?b = "h @ carrier_bytes version c @ t" and ?n = "length (cr_name c)"
  have l: "length (carrier_bytes version c) = ?n + 22" using True by (simp add: length_carrier_bytes)
  have nm: "utf8_valid (cr_name c)" "validate_name (cr_name c) = Ok ()" "?n < 65536"
    using assms(2) True by (simp_all add: carrier_wf_def validate_name_def split: if_splits)
  have "slice ?b offset (offset + 2) = to_le 2 (of_nat ?n :: u16)"
    "slice ?b (offset + 2) (offset + 2 + ?n) = cr_name c"
    "slice ?b (offset + (2 + ?n)) (offset + (2 + ?n) + 4) = to_le 4 (cr_chunk_index c)"
    "slice ?b (offset + (6 + ?n)) (offset + (6 + ?n) + 8) = to_le 8 (cr_block_start c)"
    "slice ?b (offset + (14 + ?n)) (offset + (14 + ?n) + 8) = to_le 8 (cr_block_count c)"
    using slice_middle [of 0 2 "carrier_bytes version c" h offset t]
      slice_middle [of 2 ?n "carrier_bytes version c" h offset t]
      slice_middle [of "2 + ?n" 4 "carrier_bytes version c" h offset t]
      slice_middle [of "6 + ?n" 8 "carrier_bytes version c" h offset t]
      slice_middle [of "14 + ?n" 8 "carrier_bytes version c" h offset t] assms(1) l True
    by (simp_all add: carrier_bytes_def slice_def)
  then show ?thesis
    using True assms(1) len l nm
    by (cases c) (simp add: decode_manifest_name_def unat_of_nat16 split_beta Let_def ac_simps)
qed


lemma decode_manifest_bytes:
  assumes "\<forall>c \<in> set cs. carrier_wf version c" "length h = offset"
    and "length (h @ concat (map (carrier_bytes version) cs) @ t) \<le> MAX64"
  shows "decode_manifest version (h @ concat (map (carrier_bytes version) cs) @ t)
    (length cs) offset = Ok (cs, offset + length (concat (map (carrier_bytes version) cs)))"
  using assms
proof (induction cs arbitrary: h offset)
  case Nil
  then show ?case by simp
next
  case (Cons c cs)
  let ?c = "carrier_bytes version c" and ?r = "concat (map (carrier_bytes version) cs)"
  have "decode_manifest version ((h @ ?c) @ ?r @ t) (length cs) (offset + length ?c) =
      Ok (cs, offset + length ?c + length ?r)"
    by (rule Cons.IH) (use Cons.prems in simp_all)
  moreover have "decode_manifest version (h @ ?c @ ?r @ t) (Suc (length cs)) offset =
    and_then (decode_manifest version (h @ ?c @ ?r @ t) (length cs) (offset + length ?c))
      (\<lambda>(manifest, end_off). Ok (c # manifest, end_off))"
    by (rule decode_manifest_carrier) (use Cons.prems in simp_all)
  ultimately show ?case by (simp add: add.assoc)
qed

text \<open>The header: what the code has written before the manifest loop.\<close>

definition header_bytes :: "superblock \<Rightarrow> bytes" where
  "header_bytes sb = put_all (replicate (header_len_of (sb_version sb)) 0) (header_writes sb)"

lemma length_SB_MAGIC [simp]: "length SB_MAGIC = 8"
  by (simp add: SB_MAGIC_def)

lemma header_len_ge: "80 \<le> header_len_of v"
  by (simp add: header_len_of_def V1_HEADER_LEN_def V2_HEADER_LEN_def V3_HEADER_LEN_def)

lemma header_len_2 [simp]: "header_len_of 2 = 108"
  by (simp add: header_len_of_def V2_HEADER_LEN_def)

lemma header_ordered:
  assumes "length (sb_salt sb) = 16"
  shows "ordered 0 (header_len_of (sb_version sb)) (header_writes sb)"
  using assms header_len_ge [of "sb_version sb"]
  by (cases "sb_version sb = 2") (simp_all add: header_writes_def)

lemma length_header_bytes:
  "length (sb_salt sb) = 16 \<Longrightarrow> length (header_bytes sb) = header_len_of (sb_version sb)"
  using header_ordered [of sb] by (simp add: header_bytes_def length_put_all)

lemma header_field:
  assumes "length (sb_salt sb) = 16" "(a, ys) \<in> set (header_writes sb)" "b = a + length ys"
  shows "slice (header_bytes sb) a b = ys"
  using slice_put_all [OF _ assms(2,3)] header_ordered [OF assms(1)]
  by (simp add: header_bytes_def)

text \<open>The four bytes of the CRC are zero until it is written.\<close>

lemma header_crc_zero:
  assumes "length (sb_salt sb) = 16"
  shows "slice (header_bytes sb) 76 80 = replicate 4 0"
proof -
  have "\<forall>(a, ys) \<in> set (header_writes sb). 80 \<le> a \<or> a + length ys \<le> 76"
    by (auto simp: header_writes_def)
  then show ?thesis
    using slice_put_all_outside [of 0 "replicate (header_len_of (sb_version sb)) 0"
        "header_writes sb" 80 76] header_ordered [OF assms] header_len_ge [of "sb_version sb"]
    by (simp add: header_bytes_def slice_replicate)
qed

definition body_bytes :: "superblock \<Rightarrow> bytes" where
  "body_bytes sb = header_bytes sb @ concat (map (carrier_bytes (sb_version sb)) (sb_manifest sb))"

lemma superblock_encode_eq:
  assumes "length (sb_salt sb) = 16"
  shows "superblock_encode crc32 sb = put (body_bytes sb) 76 (to_le 4 (crc32 (body_bytes sb)))"
proof -
  have "put_all (replicate (header_len_of (sb_version sb) + manifest_len_of sb) 0) (header_writes sb) =
      header_bytes sb @ replicate (manifest_len_of sb) 0"
    using put_all_append_left [of 0 "replicate (header_len_of (sb_version sb)) 0" "header_writes sb"]
      header_ordered [OF assms] by (simp add: replicate_add header_bytes_def)
  then show ?thesis
    using put_manifest_eq [OF length_header_bytes [OF assms] manifest_len_eq [of sb, symmetric]]
    by (simp add: superblock_encode_def Let_def body_bytes_def)
qed

lemma length_body:
  "length (sb_salt sb) = 16 \<Longrightarrow> length (body_bytes sb) =
     header_len_of (sb_version sb) + manifest_len_of sb"
  by (simp add: body_bytes_def length_header_bytes manifest_len_eq)

lemma length_superblock_encode:
  "length (sb_salt sb) = 16 \<Longrightarrow>
    length (superblock_encode crc32 sb) = header_len_of (sb_version sb) + manifest_len_of sb"
  using header_len_ge [of "sb_version sb"] by (simp add: superblock_encode_eq length_body)

text \<open>Reading a field of the encoding, whatever follows it.\<close>

lemma slice_encode:
  assumes "length (sb_salt sb) = 16" "d \<le> header_len_of (sb_version sb)" "d \<le> 76 \<or> 80 \<le> c"
  shows "slice (superblock_encode crc32 sb @ t) c d = slice (header_bytes sb) c d"
proof -
  note l = length_header_bytes [OF assms(1)]
  note h = header_len_ge [of "sb_version sb"]
  have ap: "slice (xs @ ys) c d = slice xs c d" if "d \<le> length xs" for xs ys :: bytes
    using that by (simp add: slice_def)
  let ?x = "to_le 4 (crc32 (body_bytes sb))"
  have "slice (superblock_encode crc32 sb @ t) c d = slice (put (body_bytes sb) 76 ?x) c d"
    unfolding superblock_encode_eq [OF assms(1)]
    by (rule ap) (use assms(2) l h in \<open>simp add: body_bytes_def\<close>)
  also have "\<dots> = slice (body_bytes sb) c d"
    using assms(3) l h by (auto simp: slice_put_before slice_put_after body_bytes_def)
  also have "\<dots> = slice (header_bytes sb) c d"
    unfolding body_bytes_def by (rule ap) (use assms(2) l in simp)
  finally show ?thesis .
qed

lemma slice_encode_crc:
  assumes "length (sb_salt sb) = 16"
  shows "slice (superblock_encode crc32 sb @ t) 76 80 = to_le 4 (crc32 (body_bytes sb))"
proof -
  have l: "80 \<le> length (body_bytes sb)"
    using length_body [OF assms] header_len_ge [of "sb_version sb"] by simp
  then have "superblock_encode crc32 sb @ t =
      put (body_bytes sb @ t) 76 (to_le 4 (crc32 (body_bytes sb)))"
    by (simp add: superblock_encode_eq [OF assms] put_append_left)
  with l show ?thesis by (simp add: slice_put_same)
qed

text \<open>What the decoder checks the CRC over: the encoding with the CRC bytes zeroed again.\<close>

lemma crc_input:
  assumes "length (sb_salt sb) = 16"
  shows "put (superblock_encode crc32 sb) 76 (replicate 4 0) = body_bytes sb"
proof -
  have l: "80 \<le> length (body_bytes sb)"
    using length_body [OF assms] header_len_ge [of "sb_version sb"] by simp
  have "slice (body_bytes sb) 76 80 = replicate 4 0"
    using header_crc_zero [OF assms] length_header_bytes [OF assms] header_len_ge [of "sb_version sb"]
    by (simp add: body_bytes_def slice_def)
  then have "put (body_bytes sb) 76 (replicate 4 0) = body_bytes sb"
    using put_slice_id [of 80 "body_bytes sb" 76] l by simp
  then show ?thesis
    using l by (simp add: superblock_encode_eq [OF assms] put_put_same)
qed

lemma decode_manifest_encode:
  assumes "superblock_wf sb" "length (superblock_encode crc32 sb @ t) \<le> MAX64"
  shows "decode_manifest (sb_version sb) (superblock_encode crc32 sb @ t) (length (sb_manifest sb))
      (header_len_of (sb_version sb)) = Ok (sb_manifest sb, length (superblock_encode crc32 sb))"
proof -
  have s: "length (sb_salt sb) = 16" and c: "\<forall>c \<in> set (sb_manifest sb). carrier_wf (sb_version sb) c"
    using assms(1) by (simp_all add: superblock_wf_def)
  note l = length_header_bytes [OF s]
  let ?h = "put (header_bytes sb) 76 (to_le 4 (crc32 (body_bytes sb)))"
  let ?m = "concat (map (carrier_bytes (sb_version sb)) (sb_manifest sb))"
  have e: "superblock_encode crc32 sb = ?h @ ?m"
    using l header_len_ge [of "sb_version sb"]
    by (simp add: superblock_encode_eq [OF s] body_bytes_def put_append_left)
  have lh: "length ?h = header_len_of (sb_version sb)"
    using l header_len_ge [of "sb_version sb"] by simp
  show ?thesis
    using decode_manifest_bytes [OF c lh, of t] assms(2) lh unfolding e by simp
qed

lemma superblock_decode_encode [roundtrip]:
  assumes wf: "superblock_wf sb" and len: "length (superblock_encode crc32 sb @ t) \<le> MAX64"
  shows "superblock_decode crc32 (superblock_encode crc32 sb @ t) = Ok sb"
proof -
  let ?e = "superblock_encode crc32 sb"
  let ?b = "?e @ t" and ?H = "header_len_of (sb_version sb)"
  have s: "length (sb_salt sb) = 16" using wf by (simp add: superblock_wf_def)
  have n: "unat (of_nat (length (sb_manifest sb)) :: u32) = length (sb_manifest sb)"
    using wf by (simp add: superblock_wf_def unat_of_nat take_bit_eq_mod)
  note H = header_len_ge [of "sb_version sb"]
  have lb: "?H \<le> length ?b" "length ?e \<le> length ?b"
    using length_superblock_encode [OF s, of crc32] by simp_all
  have f: "slice ?b a c = ys" if "(a, ys) \<in> set (header_writes sb)" "c = a + length ys"
      "c \<le> 76 \<or> 80 \<le> a" "c \<le> ?H" for a c ys
    using slice_encode [OF s that(4,3)] header_field [OF s that(1,2)] by simp
  have F: "slice ?b 0 8 = SB_MAGIC" "slice ?b 8 12 = to_le 4 (sb_version sb)"
    "slice ?b 12 16 = to_le 4 (sb_block_size sb)" "slice ?b 16 20 = to_le 4 (sb_usable_size sb)"
    "slice ?b 20 28 = to_le 8 (sb_total_blocks sb)" "slice ?b 28 36 = to_le 8 (sb_inode_count sb)"
    "slice ?b 36 44 = to_le 8 (sb_bitmap_start sb)"
    "slice ?b 44 52 = to_le 8 (sb_inode_table_start sb)"
    "slice ?b 52 60 = to_le 8 (sb_data_start sb)" "slice ?b 60 68 = to_le 8 (sb_root_inode sb)"
    "slice ?b 68 72 = to_le 4 (of_nat (length (sb_manifest sb)) :: u32)"
    "slice ?b 72 76 = to_le 4 (sb_crypto_flags sb)"
    using H by (auto intro!: f simp: header_writes_def)
  have F2: "slice ?b 80 96 = sb_salt sb" "slice ?b 96 100 = to_le 4 (sb_argon2_mem_kib sb)"
    "slice ?b 100 104 = to_le 4 (sb_argon2_iters sb)"
    "slice ?b 104 108 = to_le 4 (sb_argon2_parallel sb)" if "sb_version sb = 2"
    using that s by (auto intro!: f simp: header_writes_def)
  note M = decode_manifest_encode [OF wf len]
  have C: "slice ?b 76 80 = to_le 4 (crc32 (body_bytes sb))" by (rule slice_encode_crc [OF s])
  have K: "slice ?b 0 (length ?e) = ?e" by (simp add: slice_def)
  note E = crc_input [OF s, of crc32]
  have S: "\<lparr>sb_version = sb_version sb, sb_block_size = sb_block_size sb,
    sb_usable_size = sb_usable_size sb, sb_total_blocks = sb_total_blocks sb,
    sb_inode_count = sb_inode_count sb, sb_bitmap_start = sb_bitmap_start sb,
    sb_inode_table_start = sb_inode_table_start sb, sb_data_start = sb_data_start sb,
    sb_root_inode = sb_root_inode sb, sb_crypto_flags = sb_crypto_flags sb, sb_salt = sb_salt sb,
    sb_argon2_mem_kib = sb_argon2_mem_kib sb, sb_argon2_iters = sb_argon2_iters sb,
    sb_argon2_parallel = sb_argon2_parallel sb, sb_manifest = sb_manifest sb\<rparr> = sb" by simp
  have ge: "80 \<le> length ?b" "length ?e = length ?b - length t" using lb H by simp_all
  define b where "b = ?b"
  note G = F [folded b_def] F2 [folded b_def] M [folded b_def] C [folded b_def] K [folded b_def]
    lb [folded b_def] ge(1) [folded b_def]
  have "superblock_decode crc32 b = Ok sb"
  proof (cases "sb_version sb = 2")
    case True
    with G have "108 \<le> length b" by simp
    with G E S n True show ?thesis
      by (simp add: superblock_decode_def V1_HEADER_LEN_def V2_HEADER_LEN_def)
  next
    case False
    then have v: "sb_version sb = 1 \<or> sb_version sb = 3"
      and z: "sb_salt sb = replicate 16 0" "sb_argon2_mem_kib sb = 0" "sb_argon2_iters sb = 0"
        "sb_argon2_parallel sb = 0"
      using wf by (auto simp: superblock_wf_def)
    from v show ?thesis
    proof
      assume v1: "sb_version sb = 1"
      show ?thesis
        using G(1-12) G(17-) E S [unfolded z] n v1
        by (simp add: superblock_decode_def V1_HEADER_LEN_def header_len_of_def)
    next
      assume v3: "sb_version sb = 3"
      show ?thesis
        using G(1-12) G(17-) E S [unfolded z] n v3
        by (simp add: superblock_decode_def V1_HEADER_LEN_def V3_HEADER_LEN_def header_len_of_def
            MARKERLESS_FS_VERSION_def)
    qed
  qed
  then show ?thesis by (simp add: b_def)
qed

text \<open>C31: Every superblock with a valid manifest decodes from its encoding, in all three format
  versions and whatever bytes follow it in its block.\<close>

theorem superblock_roundtrip:
  assumes "superblock_wf sb" "length (superblock_encode crc32 sb @ t) \<le> MAX64"
  shows "superblock_decode crc32 (superblock_encode crc32 sb @ t) = Ok sb"
  by (rule superblock_decode_encode [OF assms])


subsection \<open>Decoding untrusted bytes\<close>

lemma decode_manifest_name_safe:
  "decode_manifest_name version buf offset \<noteq> Panic"
  by (auto simp: decode_manifest_name_def Let_def and_then_Panic_iff)

lemma decode_manifest_name_OkD:
  assumes "decode_manifest_name version buf offset = Ok (nm, off')"
  shows "offset \<le> off'"
    "version \<ge> MARKERLESS_FS_VERSION \<Longrightarrow> utf8_valid nm \<and> validate_name nm = Ok ()"
    "\<not> version \<ge> MARKERLESS_FS_VERSION \<Longrightarrow> nm = []"
  using assms by (auto simp: decode_manifest_name_def Let_def with_Ok_iff split: if_splits)

lemma decode_manifest_no_panic:
  "decode_manifest version buf n offset \<noteq> Panic"
proof (induction version buf n offset rule: decode_manifest.induct)
  case (2 version buf n offset)
  show ?case
  proof (cases "decode_manifest_name version buf offset")
    case (Ok p)
    obtain nm off' where p: "p = (nm, off')" by (cases p)
    show ?thesis
      using 2 Ok unfolding p by (auto simp: Let_def and_then_Panic_iff)
  qed (use decode_manifest_name_safe in auto)
qed simp

lemma decode_manifest_OkD:
  assumes "decode_manifest version buf n offset = Ok (ms, e)" "offset \<le> length buf"
  shows "offset \<le> e \<and> e \<le> length buf \<and> length ms = n \<and> (\<forall>c \<in> set ms. carrier_wf version c)"
  using assms
proof (induction n arbitrary: offset ms)
  case (Suc n)
  from Suc.prems(1) obtain nm off' ms' c where
      nm: "decode_manifest_name version buf offset = Ok (nm, off')"
      and len: "off' + 20 \<le> length buf"
      and rest: "decode_manifest version buf n (off' + 20) = Ok (ms', e)"
      and ms: "ms = c # ms'" "cr_name c = nm"
    by (auto simp: Let_def and_then_Ok_iff with_Ok_iff split: if_splits prod.splits)
  have "off' + 20 \<le> e \<and> e \<le> length buf \<and> length ms' = n \<and> (\<forall>c \<in> set ms'. carrier_wf version c)"
    by (rule Suc.IH [OF rest len])
  with decode_manifest_name_OkD [OF nm] ms show ?case
    by (auto simp: carrier_wf_def)
qed simp

lemma superblock_decode_in_range: "superblock_decode crc32 buf \<noteq> Panic"
proof -
  have M: "e \<le> length buf \<and> h \<le> e" if "decode_manifest v buf n h = Ok (ms, e)" "h \<le> length buf"
    for v n h ms e using decode_manifest_OkD [OF that] by simp
  show ?thesis
    by (auto simp: superblock_decode_def and_then_Panic_iff decode_manifest_no_panic
       V1_HEADER_LEN_def V2_HEADER_LEN_def V3_HEADER_LEN_def
        not_less split: if_splits dest!: M)
qed

text \<open>C38: Decoding a superblock from arbitrary bytes never reads out of range, whatever lengths and
  counts the bytes claim.\<close>

theorem superblock_decode_no_panic: "superblock_decode crc32 buf \<noteq> Panic"
  by (rule superblock_decode_in_range)

lemma superblock_decode_OkD:
  assumes "superblock_decode crc32 buf = Ok sb"
  shows "superblock_wf sb"
proof -
  have le: "decode_manifest v buf n h = Ok (ms, e) \<Longrightarrow> h \<le> length buf \<Longrightarrow>
      length ms = n \<and> (\<forall>c \<in> set ms. carrier_wf v c)" for v n h ms e
    using decode_manifest_OkD [of v buf n h ms e] by simp
  have u: "unat (w :: u32) < 4294967296" for w using unsigned_less [of w, where 'a=nat] by simp
  show ?thesis
    using assms u
    by (auto simp: superblock_decode_def with_Ok_iff superblock_wf_def header_len_of_def
        MARKERLESS_FS_VERSION_def not_less length_slice split: if_splits dest!: le)
qed

text \<open>C39: What decodes as a superblock is one the encoder can produce: a known version, a salt of 16
  bytes, and carrier names that are valid (no separator, not empty, UTF-8) in the version that has
  them.\<close>

theorem superblock_decode_wf:
  assumes "superblock_decode crc32 buf = Ok sb"
  shows "superblock_wf sb"
  by (rule superblock_decode_OkD [OF assms])

end
