(* ===== verification/Crypto.thy ===== *)
theory Crypto
  imports Superblock Stego
begin

text \<open>
  \<^verbatim>\<open>src/fs/crypto.rs\<close>: key derivation, the encrypted physical block and the anchor bootstrap.
  Argon2, BLAKE3 and XChaCha20-Poly1305 are the fields of \<open>ext\<close>; the keys are their 32 bytes.
  Zeroing the buffers after use is not modelled: nothing reads them again.
\<close>


subsection \<open>The world outside the program\<close>

text \<open>
  The files of the album directory, the names its listing yields in the order of the directory, and
  how many reads of the random source and of the clock have been made. A carrier is replaced by a
  rename, so the listing never changes.
\<close>

record world =
  w_files :: files
  w_entries :: "path list"
  w_draws :: nat
  w_ticks :: nat

definition fill_bytes :: "ext \<Rightarrow> nat \<Rightarrow> ('a world_scheme, bytes, 'e) prog" where
  "fill_bytes e len =
     bind (get w_draws) (\<lambda>n.
     bind (modify (w_draws_update Suc)) (\<lambda>_.
     ret (e_random e n len)))"

text \<open>\<open>now\<close> of \<^verbatim>\<open>src/fs/album.rs\<close>.\<close>

definition now :: "ext \<Rightarrow> ('a world_scheme, u64, 'e) prog" where
  "now e =
     bind (get w_ticks) (\<lambda>n.
     bind (modify (w_ticks_update Suc)) (\<lambda>_.
     ret (e_now e n)))"


subsection \<open>Keys\<close>

definition ARGON2_OUTPUT_LEN :: nat where "ARGON2_OUTPUT_LEN = 32"
definition BOOTSTRAP_LEN :: nat where "BOOTSTRAP_LEN = 16 + 24 + 16 + UB"

text \<open>\<^verbatim>\<open>albumfs-superblock-v1\<close>.\<close>

definition BOOT_AAD :: bytes where
  "BOOT_AAD = [97, 108, 98, 117, 109, 102, 115, 45, 115, 117, 112, 101, 114, 98, 108, 111, 99, 107,
     45, 118, 49]"

record derived_keys =
  dk_block :: bytes
  dk_order :: bytes
  dk_boot :: bytes

record store_keys =
  sk_cipher :: bytes
  sk_order :: bytes

definition derive_keys :: "ext \<Rightarrow> bytes \<Rightarrow> bytes \<Rightarrow> (derived_keys, fs_error) res" where
  "derive_keys e passphrase salt =
     (case e_argon2 e ARGON2_MEM_KIB ARGON2_ITERS ARGON2_PARALLEL ARGON2_OUTPUT_LEN passphrase salt of
        None \<Rightarrow> Err Auth
      | Some master \<Rightarrow>
          Ok \<lparr>dk_block = e_derive_key e ''albumfs block v1'' master,
              dk_order = e_derive_key e ''albumfs order v1'' master,
              dk_boot = e_derive_key e ''albumfs boot v1'' master\<rparr>)"

text \<open>\<open>XChaCha20Poly1305::new_from_slice(key)\<close> rejects a key that is not 32 bytes.\<close>

definition cipher_new :: "bytes \<Rightarrow> (bytes, fs_error) res" where
  "cipher_new key = (if length key = 32 then Ok key else Err Auth)"


subsection \<open>The bootstrap of the anchor image\<close>

definition create_bootstrap ::
    "ext \<Rightarrow> bytes \<Rightarrow> bytes \<Rightarrow> ('a world_scheme, bytes \<times> store_keys, fs_error) prog" where
  "create_bootstrap e passphrase encoded_superblock =
     (if length encoded_superblock > UB
      then raise (Manifest ''encrypted superblock does not fit the anchor bootstrap'')
      else
        bind (fill_bytes e 16) (\<lambda>salt.
        bind (lift (derive_keys e passphrase salt)) (\<lambda>keys.
        bind (fill_bytes e 24) (\<lambda>nonce.
        let ciphertext = put (replicate UB 0) 0 encoded_superblock
        in bind (lift (cipher_new (dk_boot keys))) (\<lambda>cipher.
           case e_seal e cipher nonce BOOT_AAD ciphertext of
             None \<Rightarrow> raise Auth
           | Some (ciphertext, tag) \<Rightarrow>
               let bootstrap = replicate BOOTSTRAP_LEN 0;
                   bootstrap = put bootstrap 0 salt;
                   bootstrap = put bootstrap 16 nonce;
                   bootstrap = put bootstrap 40 tag;
                   bootstrap = put bootstrap 56 ciphertext
               in ret (bootstrap, \<lparr>sk_cipher = dk_block keys, sk_order = dk_order keys\<rparr>))))))"

definition open_bootstrap ::
    "ext \<Rightarrow> bytes \<Rightarrow> bytes \<Rightarrow> (bytes \<times> store_keys, fs_error) res" where
  "open_bootstrap e passphrase bootstrap =
     (if length bootstrap \<noteq> BOOTSTRAP_LEN then Err Auth
      else
        let salt = slice bootstrap 0 16
        in and_then (derive_keys e passphrase salt) (\<lambda>keys.
           let plaintext = slice bootstrap 56 BOOTSTRAP_LEN
           in and_then (cipher_new (dk_boot keys)) (\<lambda>cipher.
              case e_unseal e cipher (slice bootstrap 16 40) BOOT_AAD plaintext
                     (slice bootstrap 40 56) of
                None \<Rightarrow> Err Auth
              | Some plaintext \<Rightarrow>
                  Ok (plaintext, \<lparr>sk_cipher = dk_block keys, sk_order = dk_order keys\<rparr>))))"


subsection \<open>The encrypted physical block\<close>

definition cipher_encode ::
    "ext \<Rightarrow> bytes \<Rightarrow> nat \<Rightarrow> bytes \<Rightarrow> ('a world_scheme, bytes, fs_error) prog" where
  "cipher_encode e key lba payload =
     (if length payload > UB then raise (Manifest ''block payload exceeds maximum'')
      else
        let block = replicate PB 0;
            plaintext = put (replicate UB 0) 0 payload
        in bind (fill_bytes e 24) (\<lambda>nonce.
           bind (lift (cipher_new key)) (\<lambda>cipher.
           case e_seal e cipher nonce (to_le 8 (of_nat lba :: u64)) plaintext of
             None \<Rightarrow> raise Auth
           | Some (plaintext, tag) \<Rightarrow>
               let block = put block 0 nonce;
                   block = put block 24 tag;
                   block = put block BLOCK_HEADER plaintext;
                   crc = e_crc32 e (slice block BLOCK_HEADER PB)
               in ret (put block 40 (to_le 4 crc)))))"

definition cipher_decode :: "ext \<Rightarrow> bytes \<Rightarrow> nat \<Rightarrow> bytes \<Rightarrow> (bytes, fs_error) res" where
  "cipher_decode e key lba block =
     (if length block \<noteq> PB then Err Auth
      else
        let stored_crc = from_le (slice block 40 44)
        in if e_crc32 e (slice block BLOCK_HEADER PB) \<noteq> stored_crc then Err Auth
           else
             let plaintext = slice block BLOCK_HEADER PB
             in and_then (cipher_new key) (\<lambda>cipher.
                case e_unseal e cipher (slice block 0 24) (to_le 8 (of_nat lba :: u64)) plaintext
                       (slice block 24 40) of
                  None \<Rightarrow> Err Auth
                | Some plaintext \<Rightarrow> Ok plaintext))"


subsection \<open>Round trips\<close>

text \<open>
  What the code relies on of the crates: BLAKE3 derives 32 bytes, \<open>fill_bytes\<close> fills its buffer,
  and XChaCha20-Poly1305 with a 32-byte key and a 24-byte nonce seals a block in place (same
  length, a 16-byte tag) so that opening it with the same key, nonce and associated data gives it
  back; opening never changes the length.
\<close>

definition crypto_laws :: "ext \<Rightarrow> bool" where
  "crypto_laws e \<longleftrightarrow>
     (\<forall>ctx m. length (e_derive_key e ctx m) = 32) \<and>
     (\<forall>n len. length (e_random e n len) = len) \<and>
     (\<forall>key nonce aad pt. length key = 32 \<longrightarrow> length nonce = 24 \<longrightarrow> length pt = UB \<longrightarrow>
        (\<exists>ct tag. e_seal e key nonce aad pt = Some (ct, tag) \<and> length ct = UB \<and> length tag = 16 \<and>
           e_unseal e key nonce aad ct tag = Some pt)) \<and>
     (\<forall>key nonce aad ct tag pt. e_unseal e key nonce aad ct tag = Some pt \<longrightarrow> length pt = length ct)"

lemma crypto_lawsD:
  assumes "crypto_laws e"
  shows "length (e_derive_key e ctx m) = 32" "length (e_random e n len) = len"
    "length key = 32 \<Longrightarrow> length nonce = 24 \<Longrightarrow> length pt = UB \<Longrightarrow>
      \<exists>ct tag. e_seal e key nonce aad pt = Some (ct, tag) \<and> length ct = UB \<and> length tag = 16 \<and>
        e_unseal e key nonce aad ct tag = Some pt"
    "e_unseal e key nonce aad ct tag = Some pt \<Longrightarrow> length pt = length ct"
  using assms unfolding crypto_laws_def by blast+

lemma fill_bytes_run: "fill_bytes e len s = (Ok (e_random e (w_draws s) len), w_draws_update Suc s)"
  by (simp add: fill_bytes_def bind_def run_simps)

lemma now_run: "now e s = (Ok (e_now e (w_ticks s)), w_ticks_update Suc s)"
  by (simp add: now_def bind_def run_simps)

lemma cipher_encode_run:
  assumes laws: "crypto_laws e" and key: "length key = 32" and len: "length payload \<le> UB"
  shows "\<exists>block. cipher_encode e key lba payload s = (Ok block, w_draws_update Suc s) \<and>
    length block = PB \<and> cipher_decode e key lba block = Ok (pad payload)"
proof -
  let ?nonce = "e_random e (w_draws s) 24" and ?aad = "to_le 8 (of_nat lba :: u64)"
  obtain ct tag where seal: "e_seal e key ?nonce ?aad (pad payload) = Some (ct, tag)"
      "length ct = UB" "length tag = 16" "e_unseal e key ?nonce ?aad ct tag = Some (pad payload)"
    using crypto_lawsD(3) [OF laws key, of ?nonce "pad payload" ?aad] crypto_lawsD(2) [OF laws] len
    by auto
  have nonce: "length ?nonce = 24" by (rule crypto_lawsD(2) [OF laws])
  define b where "b = put (put (put (replicate PB 0) 0 ?nonce) 24 tag) BLOCK_HEADER ct"
  have l: "length b = PB" using nonce seal by (simp add: b_def PB_split BLOCK_HEADER_def)
  have f: "slice b 0 24 = ?nonce" "slice b 24 40 = tag" "slice b BLOCK_HEADER PB = ct"
    using nonce seal
    by (simp_all add: b_def PB_val BLOCK_HEADER_def UB_val slice_put_before slice_put_same)
  define block where "block = put b 40 (to_le 4 (e_crc32 e ct))"
  have g: "slice block 0 24 = ?nonce" "slice block 24 40 = tag" "slice block BLOCK_HEADER PB = ct"
    "slice block 40 44 = to_le 4 (e_crc32 e ct)" "length block = PB"
    using f l
    by (simp_all add: block_def PB_val BLOCK_HEADER_def slice_put_before slice_put_after slice_put_same)
  have "cipher_encode e key lba payload s = (Ok block, w_draws_update Suc s)"
    using len seal key f
    by (simp add: cipher_encode_def bind_def fill_bytes_run run_simps cipher_new_def Let_def
        pad_def [symmetric] b_def [symmetric] block_def)
  moreover have "cipher_decode e key lba block = Ok (pad payload)"
    using g seal key by (simp add: cipher_decode_def cipher_new_def)
  ultimately show ?thesis using g by blast
qed

lemma cipher_encode_too_long:
  "length payload > UB \<Longrightarrow> cipher_encode e key lba payload s =
    (Err (Manifest ''block payload exceeds maximum''), s)"
  by (simp add: cipher_encode_def run_simps)

lemma cipher_decode_no_panic: "cipher_decode e key lba block \<noteq> Panic"
  by (auto simp: cipher_decode_def cipher_new_def Let_def split: option.splits)

lemma cipher_decode_length:
  assumes "crypto_laws e" "cipher_decode e key lba block = Ok p"
  shows "length p = UB"
  using assms(2) crypto_lawsD(4) [OF assms(1)]
  by (fastforce simp: cipher_decode_def cipher_new_def Let_def UB_def split: if_splits option.splits)

lemma bootstrap_roundtrip:
  assumes laws: "crypto_laws e"
    and ok: "create_bootstrap e passphrase sb s = (Ok (bootstrap, keys), t)"
  shows "open_bootstrap e passphrase bootstrap = Ok (pad sb, keys) \<and> length bootstrap = BOOTSTRAP_LEN \<and>
    length (sk_cipher keys) = 32 \<and> length (sk_order keys) = 32 \<and>
    t = w_draws_update (\<lambda>n. n + 2) s"
proof -
  let ?salt = "e_random e (w_draws s) 16" and ?nonce = "e_random e (Suc (w_draws s)) 24"
  have len: "length sb \<le> UB"
    using ok by (simp add: create_bootstrap_def run_simps split: if_splits)
  obtain dk where dk: "derive_keys e passphrase ?salt = Ok dk"
    using ok len by (cases "derive_keys e passphrase ?salt")
      (simp_all add: create_bootstrap_def bind_def fill_bytes_run run_simps)
  have dl: "length (dk_boot dk) = 32" "length (dk_block dk) = 32" "length (dk_order dk) = 32"
    using dk crypto_lawsD(1) [OF laws] by (auto simp: derive_keys_def split: option.splits)
  have rl: "length ?salt = 16" "length ?nonce = 24" by (simp_all add: crypto_lawsD(2) [OF laws])
  obtain ct tag where seal: "e_seal e (dk_boot dk) ?nonce BOOT_AAD (pad sb) = Some (ct, tag)"
      "length ct = UB" "length tag = 16" "e_unseal e (dk_boot dk) ?nonce BOOT_AAD ct tag = Some (pad sb)"
    using crypto_lawsD(3) [OF laws dl(1) rl(2), of "pad sb" BOOT_AAD] len by auto
  define b where "b = put (put (put (put (replicate BOOTSTRAP_LEN 0) 0 ?salt) 16 ?nonce) 40 tag) 56 ct"
  have f: "length b = BOOTSTRAP_LEN" "slice b 0 16 = ?salt" "slice b 16 40 = ?nonce"
    "slice b 40 56 = tag" "slice b 56 BOOTSTRAP_LEN = ct"
    using rl seal
    by (simp_all add: b_def BOOTSTRAP_LEN_def UB_val slice_put_before slice_put_same)
  have "bootstrap = b \<and> keys = \<lparr>sk_cipher = dk_block dk, sk_order = dk_order dk\<rparr> \<and>
      t = w_draws_update Suc (w_draws_update Suc s)"
    using ok len dk seal dl
    by (simp add: create_bootstrap_def bind_def fill_bytes_run run_simps cipher_new_def Let_def
        pad_def [symmetric] b_def)
  with f dk dl seal show ?thesis
    by (simp add: open_bootstrap_def cipher_new_def o_def)
qed

text \<open>C32: An encrypted block decodes, under the key and the block number it was encoded for, to its
  payload padded with zeros; encoding draws one nonce and changes nothing else.\<close>

theorem cipher_roundtrip:
  assumes "crypto_laws e" "length key = 32" "length payload \<le> UB"
  shows "\<exists>block. cipher_encode e key lba payload s = (Ok block, w_draws_update Suc s) \<and>
    length block = PB \<and> cipher_decode e key lba block = Ok (pad payload)"
  by (rule cipher_encode_run [OF assms])

end
