(* ===== verification/Block.thy ===== *)
theory Block
  imports Codec Crypto
begin

text \<open>
  \<^verbatim>\<open>src/fs/block.rs\<close>: the block store. It maps a logical block to a carrier image and an offset in
  its payload, loads payloads on first use, and writes the dirty ones back on \<open>flush\<close>. Block
  numbers are natural numbers below \<open>2 ^ 64\<close>; the products that address the payload are \<open>u64\<close>
  products and wrap.
\<close>

record carrier_slot =
  cs_path :: path
  cs_chunk_index :: u32
  cs_is_primary :: bool
  cs_block_start :: u64
  cs_block_count :: u64
  cs_buffer :: "bytes option"
  cs_dirty :: bool

record store = world +
  bs_carriers :: "carrier_slot list"
  bs_total_blocks :: u64
  bs_encrypted :: bool
  bs_cipher :: "bytes option"
  bs_order_key :: "bytes option"

definition store_of ::
    "carrier_slot list \<Rightarrow> carrier_range list \<Rightarrow> store_keys option \<Rightarrow> world \<Rightarrow> store" where
  "store_of carriers manifest keys w =
     \<lparr>w_files = w_files w, w_entries = w_entries w, w_draws = w_draws w, w_ticks = w_ticks w,
      bs_carriers = carriers,
      bs_total_blocks = sum_list (map cr_block_count manifest),
      bs_encrypted = (keys \<noteq> None),
      bs_cipher = map_option sk_cipher keys,
      bs_order_key = map_option sk_order keys\<rparr>"

definition new_for_format ::
    "path list \<Rightarrow> carrier_range list \<Rightarrow> store_keys option \<Rightarrow> world \<Rightarrow> store" where
  "new_for_format paths manifest keys w =
     store_of
       (map (\<lambda>(path, range).
          \<lparr>cs_path = path, cs_chunk_index = cr_chunk_index range,
           cs_is_primary = (cr_chunk_index range = 0),
           cs_block_start = cr_block_start range, cs_block_count = cr_block_count range,
           cs_buffer = Some (replicate (unat (cr_block_count range * of_nat PB)) 0),
           cs_dirty = True\<rparr>) (zip paths manifest))
       manifest keys w"

definition from_manifest ::
    "(path \<times> bool) list \<Rightarrow> carrier_range list \<Rightarrow> store_keys option \<Rightarrow> world \<Rightarrow> store" where
  "from_manifest paths manifest keys w =
     store_of
       (map (\<lambda>((path, is_primary), range).
          \<lparr>cs_path = path, cs_chunk_index = cr_chunk_index range,
           cs_is_primary = is_primary,
           cs_block_start = cr_block_start range, cs_block_count = cr_block_count range,
           cs_buffer = None, cs_dirty = False\<rparr>) (zip paths manifest))
       manifest keys w"

text \<open>\<open>Iterator::position\<close>.\<close>

fun position :: "('a \<Rightarrow> bool) \<Rightarrow> 'a list \<Rightarrow> nat option" where
  "position P [] = None"
| "position P (x # xs) = (if P x then Some 0 else map_option Suc (position P xs))"

definition carrier_for :: "'a store_scheme \<Rightarrow> nat \<Rightarrow> (nat, fs_error) res" where
  "carrier_for s lba =
     (if lba \<ge> unat (bs_total_blocks s) then Err (BadBlock lba)
      else ok_or (BadBlock lba)
        (position (\<lambda>slot. lba \<ge> unat (cs_block_start slot) \<and>
           lba < unat (cs_block_start slot + cs_block_count slot)) (bs_carriers s)))"

text \<open>The payload \<open>ensure_loaded\<close> reads from the carrier of a slot.\<close>

definition load_slot :: "ext \<Rightarrow> 'a store_scheme \<Rightarrow> carrier_slot \<Rightarrow> (bytes, fs_error) res" where
  "load_slot e s slot =
     (case codec_for_path (cs_path slot) of
        None \<Rightarrow> Err (Manifest ''unsupported carrier type'')
      | Some codec \<Rightarrow>
          let expected = unat (cs_block_count slot * of_nat PB)
          in and_then
               (if bs_encrypted s then
                  case bs_order_key s of
                    None \<Rightarrow> Err Auth
                  | Some order_key \<Rightarrow> Ok (ReadMarkerless (cs_chunk_index slot) expected, order_key)
                else Ok (ReadFramed, []))
             (\<lambda>(mode, order_key).
             and_then (map_err Codec
                 (codec_read_chunk e codec (cs_path slot) mode order_key (w_files s)))
             (\<lambda>(meta, payload).
             if cm_chunk_index meta \<noteq> cs_chunk_index slot
             then Err (Manifest ''carrier reports another chunk index'')
             else if length payload \<noteq> expected
             then Err (Manifest ''carrier has another payload length'')
             else Ok payload)))"

definition ensure_loaded :: "ext \<Rightarrow> nat \<Rightarrow> ('a store_scheme, unit, fs_error) prog" where
  "ensure_loaded e slot_idx =
     bind (get (\<lambda>s. s)) (\<lambda>s.
     let slot = bs_carriers s ! slot_idx
     in if cs_buffer slot = None then
          bind (lift (load_slot e s slot)) (\<lambda>payload.
          modify (bs_carriers_update (\<lambda>cs. cs[slot_idx := slot\<lparr>cs_buffer := Some payload\<rparr>])))
        else ret ())"

definition block_offset :: "carrier_slot \<Rightarrow> nat \<Rightarrow> nat" where
  "block_offset slot lba = unat ((of_nat lba - cs_block_start slot) * of_nat PB)"

definition decode_block :: "ext \<Rightarrow> 'a store_scheme \<Rightarrow> nat \<Rightarrow> bytes \<Rightarrow> (bytes, fs_error) res" where
  "decode_block e s lba block =
     (if bs_encrypted s then
        and_then (ok_or Auth (bs_cipher s)) (\<lambda>key. cipher_decode e key lba block)
      else read_physical_block (e_crc32 e) lba block)"

definition read_block :: "ext \<Rightarrow> nat \<Rightarrow> ('a store_scheme, bytes, fs_error) prog" where
  "read_block e lba =
     bind (get (\<lambda>s. s)) (\<lambda>s.
     bind (lift (carrier_for s lba)) (\<lambda>slot_idx.
     bind (ensure_loaded e slot_idx) (\<lambda>_.
     bind (get (\<lambda>s. s)) (\<lambda>s.
     let slot = bs_carriers s ! slot_idx;
         offset = block_offset slot lba
     in bind (lift (ok_or (Manifest ''carrier buffer was not loaded'') (cs_buffer slot))) (\<lambda>buffer.
        lift (with_range buffer offset (offset + PB) (decode_block e s lba)))))))"

definition encode_block ::
    "ext \<Rightarrow> nat \<Rightarrow> bytes \<Rightarrow> ('a store_scheme, bytes, fs_error) prog" where
  "encode_block e lba payload =
     bind (get (\<lambda>s. s)) (\<lambda>s.
     if bs_encrypted s then
       bind (lift (ok_or Auth (bs_cipher s))) (\<lambda>key. cipher_encode e key lba payload)
     else lift (build_physical_block (e_crc32 e) payload))"

definition write_block :: "ext \<Rightarrow> nat \<Rightarrow> bytes \<Rightarrow> ('a store_scheme, unit, fs_error) prog" where
  "write_block e lba payload =
     (if length payload > UB then raise (Manifest ''block payload exceeds maximum'')
      else
        bind (get (\<lambda>s. s)) (\<lambda>s.
        bind (lift (carrier_for s lba)) (\<lambda>slot_idx.
        bind (ensure_loaded e slot_idx) (\<lambda>_.
        bind (encode_block e lba payload) (\<lambda>block.
        bind (get (\<lambda>s. s)) (\<lambda>s.
        let slot = bs_carriers s ! slot_idx;
            offset = block_offset slot lba
        in bind (lift (ok_or (Manifest ''carrier buffer was not loaded'') (cs_buffer slot))) (\<lambda>buffer.
           if offset + PB > length buffer then lift Panic
           else
             modify (bs_carriers_update (\<lambda>cs. cs[slot_idx :=
               slot\<lparr>cs_buffer := Some (put buffer offset block), cs_dirty := True\<rparr>])))))))))"

definition flush_slot :: "ext \<Rightarrow> nat \<Rightarrow> ('a store_scheme, unit, fs_error) prog" where
  "flush_slot e slot_idx =
     bind (get (\<lambda>s. s)) (\<lambda>s.
     let slot = bs_carriers s ! slot_idx
     in if cs_dirty slot then
          bind (lift (ok_or (Manifest ''dirty carrier has no buffer'') (cs_buffer slot))) (\<lambda>buffer.
          bind (lift (ok_or (Manifest ''unsupported carrier type'') (codec_for_path (cs_path slot))))
            (\<lambda>codec.
          bind (lift
            (if bs_encrypted s then
               and_then (ok_or Auth (bs_order_key s)) (\<lambda>order_key.
               Ok (WriteMarkerless (cs_chunk_index slot), order_key))
             else
               Ok (WriteFramed \<lparr>cm_chunk_index = cs_chunk_index slot,
                     cm_flags = (if cs_is_primary slot then 1 else 0)\<rparr>, [])))
            (\<lambda>(mode, order_key).
          bind (lift (map_err Codec
              (codec_write_chunk e codec (cs_path slot) mode buffer order_key (w_files s))))
            (\<lambda>files.
          bind (modify (w_files_update (\<lambda>_. files))) (\<lambda>_.
          modify (bs_carriers_update (\<lambda>cs. cs[slot_idx := slot\<lparr>cs_dirty := False\<rparr>])))))))
        else ret ())"

definition flush :: "ext \<Rightarrow> ('a store_scheme, unit, fs_error) prog" where
  "flush e = bind (get (\<lambda>s. length (bs_carriers s))) (\<lambda>n. for_each [0..<n] (flush_slot e))"

definition store_total_blocks :: "'a store_scheme \<Rightarrow> u64" where
  "store_total_blocks s = bs_total_blocks s"

subsection \<open>The blocks a store holds\<close>

text \<open>
  What the store is, apart from what is cached: the block range of every carrier and its payload,
  loaded or not.
\<close>

type_synonym layout = "(u64 \<times> u64 \<times> (bytes, fs_error) res) list"

definition slot_bytes :: "ext \<Rightarrow> 'a store_scheme \<Rightarrow> carrier_slot \<Rightarrow> (bytes, fs_error) res" where
  "slot_bytes e s slot = (case cs_buffer slot of Some b \<Rightarrow> Ok b | None \<Rightarrow> load_slot e s slot)"

definition layout :: "ext \<Rightarrow> 'a store_scheme \<Rightarrow> layout" where
  "layout e s = map (\<lambda>c. (cs_block_start c, cs_block_count c, slot_bytes e s c)) (bs_carriers s)"

definition contains :: "nat \<Rightarrow> u64 \<times> u64 \<times> (bytes, fs_error) res \<Rightarrow> bool" where
  "contains lba c \<longleftrightarrow> (case c of (st, ct, _) \<Rightarrow> unat st \<le> lba \<and> lba < unat st + unat ct)"

fun tiled :: "layout \<Rightarrow> nat \<Rightarrow> nat \<Rightarrow> bool" where
  "tiled [] a n \<longleftrightarrow> a = n"
| "tiled ((st, ct, r) # L) a n \<longleftrightarrow> unat st = a \<and> tiled L (a + unat ct) n"

definition layout_wf :: "layout \<Rightarrow> nat \<Rightarrow> bool" where
  "layout_wf L n \<longleftrightarrow> tiled L 0 n \<and> n * PB \<le> MAX64 \<and>
     (\<forall>(st, ct, r) \<in> set L. \<exists>b. r = Ok b \<and> length b = unat ct * PB)"

definition physical :: "layout \<Rightarrow> nat \<Rightarrow> bytes option" where
  "physical L lba = Option.bind (position (contains lba) L) (\<lambda>i.
     case L ! i of
       (st, ct, Ok b) \<Rightarrow> Some (slice b ((lba - unat st) * PB) ((lba - unat st) * PB + PB))
     | _ \<Rightarrow> None)"

definition store_ok :: "ext \<Rightarrow> 'a store_scheme \<Rightarrow> bool" where
  "store_ok e s \<longleftrightarrow>
     (bs_encrypted s \<longrightarrow> crypto_laws e \<and> (\<exists>key. bs_cipher s = Some key \<and> length key = 32)) \<and>
     layout_wf (layout e s) (unat (bs_total_blocks s)) \<and>
     (\<forall>lba < unat (bs_total_blocks s). \<exists>blk p. physical (layout e s) lba = Some blk \<and>
        decode_block e s lba blk = Ok p)"

text \<open>Only the blocks of \<open>D\<close> decode, as while a new store is filled.\<close>

definition store_part :: "ext \<Rightarrow> nat set \<Rightarrow> 'a store_scheme \<Rightarrow> bool" where
  "store_part e D s \<longleftrightarrow>
     (bs_encrypted s \<longrightarrow> crypto_laws e \<and> (\<exists>key. bs_cipher s = Some key \<and> length key = 32)) \<and>
     layout_wf (layout e s) (unat (bs_total_blocks s)) \<and>
     (\<forall>lba < unat (bs_total_blocks s). lba \<in> D \<longrightarrow> (\<exists>blk p. physical (layout e s) lba = Some blk \<and>
        decode_block e s lba blk = Ok p))"

lemma store_ok_part: "store_ok e s \<longleftrightarrow> store_part e UNIV s"
  by (simp add: store_ok_def store_part_def)

lemma store_part_all: "store_part e D s \<Longrightarrow> {..<unat (bs_total_blocks s)} \<subseteq> D \<Longrightarrow> store_ok e s"
  unfolding store_ok_def store_part_def by blast

definition view :: "ext \<Rightarrow> 'a store_scheme \<Rightarrow> nat \<Rightarrow> bytes" where
  "view e s lba =
     (if lba < unat (bs_total_blocks s) then
        case physical (layout e s) lba of
          None \<Rightarrow> []
        | Some blk \<Rightarrow> (case decode_block e s lba blk of Ok p \<Rightarrow> p | _ \<Rightarrow> [])
      else [])"

lemma position_map: "position P (map f xs) = position (P \<circ> f) xs"
  by (induction xs) auto

lemma position_SomeD: "position P xs = Some i \<Longrightarrow> i < length xs \<and> P (xs ! i)"
  by (induction xs arbitrary: i) (auto split: if_splits)

lemma position_cong: "(\<And>x. x \<in> set xs \<Longrightarrow> P x = Q x) \<Longrightarrow> position P xs = position Q xs"
  by (induction xs) auto

lemma tiled_nth:
  assumes "tiled L a n" "i < length L" "L ! i = (st, ct, r)"
  shows "a \<le> unat st \<and> unat st + unat ct \<le> n"
  using assms
proof (induction L a n arbitrary: i rule: tiled.induct)
  case (2 st' ct' r' L a n)
  have mono: "a' \<le> n" if "tiled L a' n" for a' :: nat and L
    using that by (induction L a' n rule: tiled.induct) auto
  show ?case
  proof (cases i)
    case 0
    then show ?thesis using 2 mono by auto
  next
    case (Suc k)
    then show ?thesis using 2 by fastforce
  qed
qed simp

lemma tiled_position:
  assumes "tiled L a n" "a \<le> lba" "lba < n"
  shows "\<exists>i. position (contains lba) L = Some i"
  using assms
proof (induction L a n rule: tiled.induct)
  case (2 st ct r L a n)
  then show ?case by (cases "lba < a + unat ct") (auto simp: contains_def)
qed simp

lemma tiled_update:
  "i < length L \<Longrightarrow> L ! i = (st, ct, r) \<Longrightarrow> tiled (L[i := (st, ct, r')]) a n = tiled L a n"
proof (induction L a n arbitrary: i rule: tiled.induct)
  case (2 st' ct' r'' L a n)
  then show ?case by (cases i) auto
qed simp

lemma position_update:
  assumes "i < length L" "L ! i = (st, ct, r)"
  shows "position (contains lba) (L[i := (st, ct, r')]) = position (contains lba) L"
  using assms
proof (induction L arbitrary: i)
  case (Cons c L)
  then show ?case by (cases i) (auto simp: contains_def)
qed simp

lemma layout_wf_physical:
  assumes "layout_wf L n" "lba < n"
  obtains i st ct b where "position (contains lba) L = Some i" "i < length L" "L ! i = (st, ct, Ok b)"
    "unat st \<le> lba" "lba < unat st + unat ct" "length b = unat ct * PB"
    "(lba - unat st) * PB + PB \<le> length b" "unat st + unat ct \<le> n"
    "physical L lba = Some (slice b ((lba - unat st) * PB) ((lba - unat st) * PB + PB))"
proof -
  have t: "tiled L 0 n" using assms(1) by (simp add: layout_wf_def)
  obtain i where i: "position (contains lba) L = Some i"
    using tiled_position [OF t _ assms(2)] by auto
  note p = position_SomeD [OF i]
  obtain st ct r where c: "L ! i = (st, ct, r)" by (cases "L ! i")
  with p have "(st, ct, r) \<in> set L" by (metis nth_mem)
  with assms(1) obtain b where b: "r = Ok b" "length b = unat ct * PB"
    by (auto simp: layout_wf_def)
  have k: "unat st \<le> lba" "lba < unat st + unat ct" using p c by (auto simp: contains_def)
  then have "Suc (lba - unat st) * PB \<le> unat ct * PB" by (intro mult_le_mono1) simp
  then have "(lba - unat st) * PB + PB \<le> length b" using b(2) by (simp add: add.commute)
  moreover have "physical L lba = Some (slice b ((lba - unat st) * PB) ((lba - unat st) * PB + PB))"
    using i c b by (simp add: physical_def)
  ultimately show thesis
    using that i p c b k tiled_nth [OF t, of i st ct r] by blast
qed

lemma slice_put_block:
  assumes "length blk = PB" "(k + 1) * PB \<le> length b" "(j + 1) * PB \<le> length b"
  shows "slice (put b (k * PB) blk) (j * PB) (j * PB + PB) =
    (if j = k then blk else slice b (j * PB) (j * PB + PB))"
proof -
  consider "j = k" | "j < k" | "k < j" by linarith
  then show ?thesis
  proof cases
    case 1
    then show ?thesis using assms by (simp add: slice_put_same add.commute)
  next
    case 2
    then have "Suc j * PB \<le> k * PB" by (intro mult_le_mono1) simp
    then show ?thesis using 2 assms by (simp add: slice_put_before add.commute)
  next
    case 3
    then have "Suc k * PB \<le> j * PB" by (intro mult_le_mono1) simp
    then show ?thesis using 3 assms by (simp add: slice_put_after add.commute)
  qed
qed

lemma physical_update:
  assumes wf: "layout_wf L n" and lba: "lba < n" and blk: "length blk = PB"
    and i: "position (contains lba) L = Some i" "L ! i = (st, ct, Ok b)"
  defines "L' \<equiv> L[i := (st, ct, Ok (put b ((lba - unat st) * PB) blk))]"
  shows "layout_wf L' n"
    "l < n \<Longrightarrow> physical L' l = (if l = lba then Some blk else physical L l)"
proof -
  have p: "i < length L" "unat st \<le> lba" "lba < unat st + unat ct"
    using position_SomeD [OF i(1)] i(2) by (auto simp: contains_def)
  have "(st, ct, Ok b) \<in> set L" using p(1) i(2) by (metis nth_mem)
  then have lb: "length b = unat ct * PB" using wf by (auto simp: layout_wf_def)
  have room: "(lba - unat st + 1) * PB \<le> length b"
    unfolding lb by (intro mult_le_mono1) (use p in linarith)
  have t: "tiled L' 0 n" using tiled_update [OF p(1) i(2)] wf by (simp add: L'_def layout_wf_def)
  show wf': "layout_wf L' n"
    using wf t room blk lb set_update_subset_insert [of L i "(st, ct, Ok (put b ((lba - unat st) * PB) blk))"]
    by (auto simp: layout_wf_def L'_def)
  show "physical L' l = (if l = lba then Some blk else physical L l)" if l: "l < n"
  proof (rule layout_wf_physical [OF wf l])
    fix j st' ct' b'
    assume j: "position (contains l) L = Some j" "j < length L" "L ! j = (st', ct', Ok b')"
      "unat st' \<le> l" "l < unat st' + unat ct'" "length b' = unat ct' * PB"
      "physical L l = Some (slice b' ((l - unat st') * PB) ((l - unat st') * PB + PB))"
    have pos: "position (contains l) L' = Some j"
      using position_update [OF p(1) i(2)] j(1) by (simp add: L'_def)
    show ?thesis
    proof (cases "j = i")
      case False
      then have "l \<noteq> lba" using i j by auto
      with False show ?thesis using pos j by (simp add: physical_def L'_def)
    next
      case True
      then have e: "st' = st" "ct' = ct" "b' = b" using i j by simp_all
      have "(l - unat st + 1) * PB \<le> length b"
        unfolding lb by (intro mult_le_mono1) (use j(4,5) e in simp)
      note s = slice_put_block [OF blk room this]
      have "physical L' l = Some (slice (put b ((lba - unat st) * PB) blk) ((l - unat st) * PB)
          ((l - unat st) * PB + PB))"
        using pos True p(1) by (simp add: physical_def L'_def)
      also have "\<dots> = (if l = lba then Some blk else physical L l)"
        unfolding s using j e p by auto
      finally show ?thesis .
    qed
  qed
qed



subsection \<open>Running the operations\<close>

lemma load_slot_carriers [simp]:
  "load_slot e (bs_carriers_update f s) = load_slot e s"
  "slot_bytes e (bs_carriers_update f s) = slot_bytes e s"
  "load_slot e (w_draws_update g s) = load_slot e s"
  "slot_bytes e (w_draws_update g s) = slot_bytes e s"
  by (simp_all add: fun_eq_iff load_slot_def slot_bytes_def cong: if_cong option.case_cong)

lemma decode_block_carriers [simp]:
  "decode_block e (bs_carriers_update f s) = decode_block e s"
  "decode_block e (w_draws_update g s) = decode_block e s"
  by (simp_all add: fun_eq_iff decode_block_def)

lemma layout_draws [simp]: "layout e (w_draws_update g s) = layout e s"
  by (simp add: layout_def)

lemma slot_bytes_buffer: "cs_buffer c = Some b \<Longrightarrow> slot_bytes e s c = Ok b"
  by (simp add: slot_bytes_def)

lemma layout_nth:
  "i < length (bs_carriers s) \<Longrightarrow> layout e s ! i =
    (cs_block_start (bs_carriers s ! i), cs_block_count (bs_carriers s ! i), slot_bytes e s (bs_carriers s ! i))"
  by (simp add: layout_def)

lemma length_layout [simp]: "length (layout e s) = length (bs_carriers s)"
  by (simp add: layout_def)

definition load_carrier :: "nat \<Rightarrow> bytes \<Rightarrow> 'a store_scheme \<Rightarrow> 'a store_scheme" where
  "load_carrier i b = bs_carriers_update (\<lambda>cs. cs[i := (cs ! i)\<lparr>cs_buffer := Some b\<rparr>])"

lemma layout_load:
  assumes "i < length (bs_carriers s)" "slot_bytes e s (bs_carriers s ! i) = Ok b"
  shows "layout e (load_carrier i b s) = layout e s"
proof -
  have "slot_bytes e s ((bs_carriers s ! i)\<lparr>cs_buffer := Some b\<rparr>) = Ok b" by (simp add: slot_bytes_def)
  with assms show ?thesis
    by (simp add: layout_def load_carrier_def map_update list_update_same_conv)
qed

lemma ensure_loaded_run:
  assumes "i < length (bs_carriers s)" "slot_bytes e s (bs_carriers s ! i) = Ok b"
  shows "ensure_loaded e i s = (Ok (), load_carrier i b s)"
proof (cases "cs_buffer (bs_carriers s ! i)")
  case None
  with assms show ?thesis
    by (simp add: ensure_loaded_def bind_def run_simps slot_bytes_def load_carrier_def)
next
  case (Some b')
  with assms(2) have "(bs_carriers s ! i)\<lparr>cs_buffer := Some b\<rparr> = bs_carriers s ! i"
    by (simp add: slot_bytes_def)
  with Some show ?thesis
    by (simp add: ensure_loaded_def bind_def run_simps load_carrier_def)
qed

lemma carrier_for_run:
  assumes wf: "layout_wf (layout e s) (unat (bs_total_blocks s))" and lba: "lba < unat (bs_total_blocks s)"
    and i: "position (contains lba) (layout e s) = Some i"
  shows "carrier_for s lba = Ok i"
proof -
  have eq: "(lba \<ge> unat (cs_block_start c) \<and> lba < unat (cs_block_start c + cs_block_count c)) =
      (contains lba \<circ> (\<lambda>c. (cs_block_start c, cs_block_count c, slot_bytes e s c))) c"
    if c: "c \<in> set (bs_carriers s)" for c
  proof -
    obtain j where j: "j < length (bs_carriers s)" "bs_carriers s ! j = c"
      using c by (auto simp: in_set_conv_nth)
    have "unat (cs_block_start c) + unat (cs_block_count c) \<le> unat (bs_total_blocks s)"
      using tiled_nth [of "layout e s" 0 "unat (bs_total_blocks s)" j] wf j
      by (simp add: layout_wf_def layout_nth)
    then have "unat (cs_block_start c) + unat (cs_block_count c) < 2 ^ 64"
      using unat_u64 [of "bs_total_blocks s"] by linarith
    then have "unat (cs_block_start c + cs_block_count c) =
        unat (cs_block_start c) + unat (cs_block_count c)"
      by (simp add: unat_word_ariths)
    then show ?thesis by (simp add: contains_def)
  qed
  have "position (\<lambda>slot. lba \<ge> unat (cs_block_start slot) \<and>
      lba < unat (cs_block_start slot + cs_block_count slot)) (bs_carriers s) = Some i"
    by (rule trans [OF position_cong i [unfolded layout_def position_map]]) (rule eq)
  with lba show ?thesis by (simp add: carrier_for_def)
qed

lemma block_offset_eq:
  assumes "unat (cs_block_start c) \<le> lba" "lba < n" "n * PB \<le> MAX64"
  shows "block_offset c lba = (lba - unat (cs_block_start c)) * PB"
proof -
  have n: "lba < 2 ^ 64" using assms(2,3) by (simp add: PB_val MAX64_def)
  have d: "unat (of_nat lba - cs_block_start c :: u64) = lba - unat (cs_block_start c)"
    using assms(1) n by (simp add: unat_sub word_le_nat_alt unat_of_nat64)
  have u: "unat (of_nat PB :: u64) = PB" by (simp add: PB_val)
  have "(lba - unat (cs_block_start c)) * PB < 2 ^ 64"
    using assms(2,3) by (simp add: PB_val MAX64_def)
  then have "unat (of_nat lba - cs_block_start c :: u64) * unat (of_nat PB :: u64) < 2 ^ LENGTH(64)"
    unfolding d u by simp
  from unat_mult_lem [THEN iffD1, OF this] show ?thesis
    unfolding block_offset_def d u .
qed

lemma read_block_run:
  assumes ok: "store_ok e s" and lba: "lba < unat (bs_total_blocks s)"
  shows "\<exists>i b. i < length (bs_carriers s) \<and> slot_bytes e s (bs_carriers s ! i) = Ok b \<and>
    read_block e lba s = (Ok (view e s lba), load_carrier i b s)"
proof -
  have wf: "layout_wf (layout e s) (unat (bs_total_blocks s))" using ok by (simp add: store_ok_def)
  have max: "unat (bs_total_blocks s) * PB \<le> MAX64" using wf by (simp add: layout_wf_def)
  show ?thesis
  proof (rule layout_wf_physical [OF wf lba])
    fix i st ct b
    assume i: "position (contains lba) (layout e s) = Some i" "i < length (layout e s)"
      "layout e s ! i = (st, ct, Ok b)" "unat st \<le> lba" "lba < unat st + unat ct"
      "(lba - unat st) * PB + PB \<le> length b"
      "physical (layout e s) lba = Some (slice b ((lba - unat st) * PB) ((lba - unat st) * PB + PB))"
    let ?c = "bs_carriers s ! i"
    have c: "i < length (bs_carriers s)" "cs_block_start ?c = st" "cs_block_count ?c = ct"
      "slot_bytes e s ?c = Ok b"
      using i(2,3) layout_nth [of i s e] by auto
    obtain p where p: "decode_block e s lba (slice b ((lba - unat st) * PB) ((lba - unat st) * PB + PB)) = Ok p"
      using ok lba i(7) by (fastforce simp: store_ok_def)
    have v: "view e s lba = p" using lba i(7) p by (simp add: view_def)
    have off: "block_offset (?c\<lparr>cs_buffer := Some b\<rparr>) lba = (lba - unat st) * PB"
      using block_offset_eq [of "?c\<lparr>cs_buffer := Some b\<rparr>", OF _ lba max] c(2) i(4) by simp
    have "read_block e lba s = (Ok p, load_carrier i b s)"
      using c p off i(6) carrier_for_run [OF wf lba i(1)] ensure_loaded_run [OF c(1,4)]
      by (simp add: read_block_def bind_def run_simps load_carrier_def)
    with v c show ?thesis by blast
  qed
qed


lemma load_carrier_fields [simp]:
  "bs_total_blocks (load_carrier i b s) = bs_total_blocks s"
  "bs_encrypted (load_carrier i b s) = bs_encrypted s"
  "bs_cipher (load_carrier i b s) = bs_cipher s"
  "length (bs_carriers (load_carrier i b s)) = length (bs_carriers s)"
  "decode_block e (load_carrier i b s) = decode_block e s"
  "slot_bytes e (load_carrier i b s) = slot_bytes e s"
  "w_files (load_carrier i b s) = w_files s" "w_ticks (load_carrier i b s) = w_ticks s"
  "more (load_carrier i b s) = more s"
  by (simp_all add: load_carrier_def)

lemma store_ok_cong:
  assumes "bs_encrypted t = bs_encrypted s" "bs_cipher t = bs_cipher s"
    "bs_total_blocks t = bs_total_blocks s" "layout e t = layout e s"
  shows "store_ok e t = store_ok e s" "view e t = view e s"
proof -
  have d: "decode_block e t = decode_block e s"
    using assms by (simp add: fun_eq_iff decode_block_def)
  show "store_ok e t = store_ok e s" "view e t = view e s"
    using assms unfolding store_ok_def view_def d by auto
qed

lemma load_carrier_same:
  assumes "i < length (bs_carriers s)" "slot_bytes e s (bs_carriers s ! i) = Ok b"
  shows "store_ok e (load_carrier i b s) = store_ok e s" "view e (load_carrier i b s) = view e s"
  by (rule store_ok_cong; simp add: layout_load [OF assms])+

lemma load_carrier_part:
  assumes "i < length (bs_carriers s)" "slot_bytes e s (bs_carriers s ! i) = Ok b"
  shows "store_part e D (load_carrier i b s) = store_part e D s"
  unfolding store_part_def by (simp add: layout_load [OF assms])

lemma encode_block_run:
  assumes ok: "store_part e D s" and len: "length payload \<le> UB"
  shows "\<exists>block n. encode_block e lba payload s = (Ok block, w_draws_update n s) \<and> length block = PB \<and>
    decode_block e s lba block = Ok (pad payload)"
proof (cases "bs_encrypted s")
  case True
  with ok obtain key where key: "crypto_laws e" "bs_cipher s = Some key" "length key = 32"
    by (auto simp: store_part_def)
  from cipher_encode_run [OF key(1,3) len, of lba s] obtain block where
      "cipher_encode e key lba payload s = (Ok block, w_draws_update Suc s)" "length block = PB"
      "cipher_decode e key lba block = Ok (pad payload)" by blast
  with True key show ?thesis
    by (intro exI [of _ block] exI [of _ Suc])
      (simp add: encode_block_def bind_def run_simps decode_block_def)
next
  case False
  show ?thesis
  proof (rule build_physical_block_Ok [OF len, of "e_crc32 e"])
    fix blk assume b: "build_physical_block (e_crc32 e) payload = Ok blk" "length blk = PB"
    note r = read_build_physical_block [OF len b(1), of lba]
    show ?thesis
      using False b r
      by (intro exI [of _ blk] exI [of _ "\<lambda>n. n"])
        (simp add: encode_block_def bind_def run_simps decode_block_def)
  qed
qed

lemma write_block_part:
  assumes ok: "store_part e D s" and lba: "lba < unat (bs_total_blocks s)" and len: "length payload \<le> UB"
  shows "\<exists>t. write_block e lba payload s = (Ok (), t) \<and> store_part e (insert lba D) t \<and>
    view e t = (view e s)(lba := pad payload) \<and> bs_total_blocks t = bs_total_blocks s \<and>
    w_files t = w_files s \<and> w_ticks t = w_ticks s \<and> more t = more s \<and>
    (\<exists>i b b' n. i < length (bs_carriers s) \<and> slot_bytes e s (bs_carriers s ! i) = Ok b \<and>
       t = bs_carriers_update (\<lambda>cs. cs[i := (bs_carriers s ! i)\<lparr>cs_buffer := Some b', cs_dirty := True\<rparr>])
         (w_draws_update n (load_carrier i b s)))"
proof -
  have wf: "layout_wf (layout e s) (unat (bs_total_blocks s))" using ok by (simp add: store_part_def)
  have max: "unat (bs_total_blocks s) * PB \<le> MAX64" using wf by (simp add: layout_wf_def)
  show ?thesis
  proof (rule layout_wf_physical [OF wf lba])
    fix i st ct b
    assume i: "position (contains lba) (layout e s) = Some i" "i < length (layout e s)"
      "layout e s ! i = (st, ct, Ok b)" "unat st \<le> lba" "lba < unat st + unat ct"
      "(lba - unat st) * PB + PB \<le> length b"
    let ?c = "bs_carriers s ! i" and ?s1 = "load_carrier i b s"
    have c: "i < length (bs_carriers s)" "cs_block_start ?c = st" "cs_block_count ?c = ct"
      "slot_bytes e s ?c = Ok b"
      using i(2,3) layout_nth [of i s e] by auto
    note same = load_carrier_same [OF c(1,4)] and lay = layout_load [OF c(1,4)]
    from encode_block_run [of e D ?s1 payload lba] ok load_carrier_part [OF c(1,4)] len
    obtain block n where enc: "encode_block e lba payload ?s1 = (Ok block, w_draws_update n ?s1)"
        "length block = PB" "decode_block e s lba block = Ok (pad payload)"
      by auto
    let ?c1 = "?c\<lparr>cs_buffer := Some b\<rparr>"
    let ?c2 = "?c1\<lparr>cs_buffer := Some (put b ((lba - unat st) * PB) block), cs_dirty := True\<rparr>"
    let ?t = "bs_carriers_update (\<lambda>cs. cs[i := ?c2]) (w_draws_update n ?s1)"
    have off: "block_offset ?c1 lba = (lba - unat st) * PB"
      using block_offset_eq [of ?c1, OF _ lba max] c(2) i(4) by simp
    have nth: "bs_carriers ?s1 ! i = ?c1" using c(1) by (simp add: load_carrier_def)
    have run: "write_block e lba payload s = (Ok (), ?t)"
      using c(1) enc off i(6) nth len carrier_for_run [OF wf lba i(1)] ensure_loaded_run [OF c(1,4)]
      by (simp add: write_block_def bind_def run_simps)
    let ?L = "(layout e s)[i := (st, ct, Ok (put b ((lba - unat st) * PB) block))]"
    have l: "layout e ?t = ?L"
      using lay c by (simp add: layout_def map_update slot_bytes_buffer)
    note upd = physical_update [OF wf lba enc(2) i(1,3)]
    have dec: "decode_block e ?t = decode_block e s" by simp
    have ph: "physical ?L k = (if k = lba then Some block else physical (layout e s) k)"
      if "k < unat (bs_total_blocks s)" for k using upd(2) [OF that] .
    have "store_part e (insert lba D) ?t"
      unfolding store_part_def l dec using ok upd(1) ph enc(3) by (auto simp: store_part_def)
    moreover have "view e ?t = (view e s)(lba := pad payload)"
      unfolding view_def l dec using ph enc(3) lba by (auto simp: fun_eq_iff view_def)
    ultimately have "store_part e (insert lba D) ?t" "view e ?t = (view e s)(lba := pad payload)" by blast+
    moreover have "bs_total_blocks ?t = bs_total_blocks s" "w_files ?t = w_files s"
      "w_ticks ?t = w_ticks s" "more ?t = more s" by simp_all
    moreover have "\<exists>i b b' n. i < length (bs_carriers s) \<and> slot_bytes e s (bs_carriers s ! i) = Ok b \<and>
       ?t = bs_carriers_update (\<lambda>cs. cs[i := (bs_carriers s ! i)\<lparr>cs_buffer := Some b', cs_dirty := True\<rparr>])
         (w_draws_update n (load_carrier i b s))"
      by (intro exI [of _ i] exI [of _ b] exI [of _ "put b ((lba - unat st) * PB) block"] exI [of _ n])
        (use c in simp)
    ultimately show ?thesis using run by blast
  qed
qed

lemma write_block_run:
  assumes ok: "store_ok e s" and lba: "lba < unat (bs_total_blocks s)" and len: "length payload \<le> UB"
  shows "\<exists>t. write_block e lba payload s = (Ok (), t) \<and> store_ok e t \<and>
    view e t = (view e s)(lba := pad payload) \<and> bs_total_blocks t = bs_total_blocks s \<and>
    w_files t = w_files s \<and> w_ticks t = w_ticks s \<and> more t = more s \<and>
    (\<exists>i b b' n. i < length (bs_carriers s) \<and> slot_bytes e s (bs_carriers s ! i) = Ok b \<and>
       t = bs_carriers_update (\<lambda>cs. cs[i := (bs_carriers s ! i)\<lparr>cs_buffer := Some b', cs_dirty := True\<rparr>])
         (w_draws_update n (load_carrier i b s)))"
  using write_block_part [OF ok [unfolded store_ok_part] lba len] unfolding store_ok_part by simp

lemma block_out_of_range:
  assumes "unat (bs_total_blocks s) \<le> lba"
  shows "read_block e lba s = (Err (BadBlock lba), s)"
    "length payload \<le> UB \<Longrightarrow> write_block e lba payload s = (Err (BadBlock lba), s)"
  using assms by (simp_all add: read_block_def write_block_def carrier_for_def bind_def run_simps)

lemma write_block_too_long:
  "UB < length payload \<Longrightarrow>
    write_block e lba payload s = (Err (Manifest ''block payload exceeds maximum''), s)"
  by (simp add: write_block_def run_simps)

lemma view_length:
  assumes ok: "store_ok e s" and lba: "lba < unat (bs_total_blocks s)"
  shows "length (view e s lba) = UB"
proof -
  obtain blk p where p: "physical (layout e s) lba = Some blk" "decode_block e s lba blk = Ok p"
    using assms by (fastforce simp: store_ok_def)
  have "length p = UB"
  proof (cases "bs_encrypted s")
    case True
    with ok p(2) show ?thesis
      using cipher_decode_length by (auto simp: store_ok_def decode_block_def ok_or_def split: option.splits)
  next
    case False
    with p(2) show ?thesis by (simp add: decode_block_def read_physical_block_length)
  qed
  with p lba show ?thesis by (simp add: view_def)
qed

subsection \<open>The block device\<close>

text \<open>
  What the filesystem relies on of its store: an array of \<open>total\<close> blocks of \<open>UB\<close> bytes. Reading
  changes nothing that can be observed, writing changes one block, and neither touches what
  \<open>rest\<close> reads of the state.
\<close>

locale block_device =
  fixes ok :: "'s \<Rightarrow> bool"
    and blocks :: "'s \<Rightarrow> nat"
    and content :: "'s \<Rightarrow> nat \<Rightarrow> bytes"
    and rest :: "'s \<Rightarrow> 'r"
    and rd :: "nat \<Rightarrow> ('s, bytes, fs_error) prog"
    and wr :: "nat \<Rightarrow> bytes \<Rightarrow> ('s, unit, fs_error) prog"
  assumes content_length: "ok s \<Longrightarrow> l < blocks s \<Longrightarrow> length (content s l) = UB"
    and rd_in: "ok s \<Longrightarrow> l < blocks s \<Longrightarrow> \<exists>t. rd l s = (Ok (content s l), t) \<and> ok t \<and>
      blocks t = blocks s \<and> content t = content s \<and> rest t = rest s"
    and rd_out: "blocks s \<le> l \<Longrightarrow> rd l s = (Err (BadBlock l), s)"
    and wr_in: "ok s \<Longrightarrow> l < blocks s \<Longrightarrow> length p \<le> UB \<Longrightarrow> \<exists>t. wr l p s = (Ok (), t) \<and> ok t \<and>
      blocks t = blocks s \<and> content t = (content s)(l := pad p) \<and> rest t = rest s"
    and wr_out: "blocks s \<le> l \<Longrightarrow> length p \<le> UB \<Longrightarrow> wr l p s = (Err (BadBlock l), s)"
begin

lemma wp_rd:
  assumes "ok s" "l < blocks s"
    and "\<And>t. ok t \<Longrightarrow> blocks t = blocks s \<Longrightarrow> content t = content s \<Longrightarrow> rest t = rest s \<Longrightarrow>
      Q (content s l) t"
  shows "wp (rd l) Q E s"
  using rd_in [OF assms(1,2)] assms(3) by (auto simp: wp_def)

lemma wp_wr:
  assumes "ok s" "l < blocks s" "length p \<le> UB"
    and "\<And>t. ok t \<Longrightarrow> blocks t = blocks s \<Longrightarrow> content t = (content s)(l := pad p) \<Longrightarrow>
      rest t = rest s \<Longrightarrow> Q () t"
  shows "wp (wr l p) Q E s"
  using wr_in [OF assms(1-3)] assms(4) by (auto simp: wp_def)

text \<open>Reading, changing and writing back a block is an update of its content.\<close>

lemma wp_rmw:
  assumes "ok s" "l < blocks s" "\<And>b. length b = UB \<Longrightarrow> length (f b) = UB"
    and "\<And>t. ok t \<Longrightarrow> blocks t = blocks s \<Longrightarrow> content t = (content s)(l := f (content s l)) \<Longrightarrow>
      rest t = rest s \<Longrightarrow> Q () t"
  shows "wp (bind (rd l) (\<lambda>b. wr l (f b))) Q E s"
  unfolding wp_bind
proof (rule wp_rd [OF assms(1,2)])
  fix t assume t: "ok t" "blocks t = blocks s" "content t = content s" "rest t = rest s"
  have l: "length (f (content s l)) = UB" by (rule assms(3) [OF content_length [OF assms(1,2)]])
  show "wp (wr l (f (content s l))) Q E t"
    by (rule wp_wr) (use t assms(2,4) l in auto)
qed

end

definition store_rest :: "'a store_scheme \<Rightarrow> files \<times> nat \<times> 'a" where
  "store_rest s = (w_files s, w_ticks s, more s)"

interpretation dev: block_device "store_ok e" "\<lambda>s. unat (bs_total_blocks s)" "view e" store_rest
  "read_block e" "write_block e" for e
proof
  fix s :: "'a store_scheme" and l p
  show "store_ok e s \<Longrightarrow> l < unat (bs_total_blocks s) \<Longrightarrow> length (view e s l) = UB"
    by (rule view_length)
  show "unat (bs_total_blocks s) \<le> l \<Longrightarrow> read_block e l s = (Err (BadBlock l), s)"
    by (rule block_out_of_range)
  show "unat (bs_total_blocks s) \<le> l \<Longrightarrow> length p \<le> UB \<Longrightarrow> write_block e l p s = (Err (BadBlock l), s)"
    by (rule block_out_of_range)
  show "\<exists>t. read_block e l s = (Ok (view e s l), t) \<and> store_ok e t \<and>
      unat (bs_total_blocks t) = unat (bs_total_blocks s) \<and> view e t = view e s \<and>
      store_rest t = store_rest s" if "store_ok e s" "l < unat (bs_total_blocks s)"
  proof -
    from read_block_run [OF that] obtain i b where r: "i < length (bs_carriers s)"
        "slot_bytes e s (bs_carriers s ! i) = Ok b"
        "read_block e l s = (Ok (view e s l), load_carrier i b s)" by blast
    with that(1) load_carrier_same [OF r(1,2)] show ?thesis by (auto simp: store_rest_def)
  qed
  show "\<exists>t. write_block e l p s = (Ok (), t) \<and> store_ok e t \<and>
      unat (bs_total_blocks t) = unat (bs_total_blocks s) \<and> view e t = (view e s)(l := pad p) \<and>
      store_rest t = store_rest s" if "store_ok e s" "l < unat (bs_total_blocks s)" "length p \<le> UB"
    using write_block_run [OF that] by (fastforce simp: store_rest_def)
qed

text \<open>C25: On a store whose blocks all decode, writing a payload of at most one block to a block in
  range succeeds, and afterwards every block reads as before but the written one, which reads as the
  payload padded with zeros. The files are not touched before a flush.\<close>

theorem block_write_read:
  assumes "store_ok e s" "lba < unat (bs_total_blocks s)" "length payload \<le> UB"
  shows "\<exists>t. write_block e lba payload s = (Ok (), t) \<and> w_files t = w_files s \<and>
    (\<forall>l < unat (bs_total_blocks s).
       fst (read_block e l s) = Ok (view e s l) \<and>
       fst (read_block e l t) = Ok (if l = lba then pad payload else view e s l))"
proof -
  obtain t where t: "write_block e lba payload s = (Ok (), t)" "store_ok e t"
      "unat (bs_total_blocks t) = unat (bs_total_blocks s)" "view e t = (view e s)(lba := pad payload)"
      "store_rest t = store_rest s"
    using dev.wr_in [OF assms] by blast
  have "fst (read_block e l u) = Ok (view e u l)"
    if "store_ok e u" "l < unat (bs_total_blocks u)" for u :: "'a store_scheme" and l
    using dev.rd_in [OF that] by auto
  with t assms(1) show ?thesis by (auto simp: store_rest_def)
qed

end
