(* ===== verification/BlockFlush.thy ===== *)
theory BlockFlush
  imports Block
begin

text \<open>
  What \<open>flush\<close> of \<^verbatim>\<open>src/fs/block.rs\<close> leaves in the files: a store opened on them again, with
  nothing loaded, holds the same blocks.
\<close>

text \<open>
  The carriers are distinct files and no temporary file of one is another carrier. The code does
  not check the second: a carrier named \<^verbatim>\<open>a.albumfs-tmp.png\<close> is overwritten when \<^verbatim>\<open>a.png\<close> is saved.
\<close>

definition separate :: "path list \<Rightarrow> bool" where
  "separate ps \<longleftrightarrow> distinct ps \<and>
     (\<forall>p \<in> set ps. \<forall>q \<in> set ps. \<forall>kind. kind_for p = Some kind \<longrightarrow> q \<noteq> tmp_path kind p)"

definition clean_slot :: "ext \<Rightarrow> 'a store_scheme \<Rightarrow> carrier_slot \<Rightarrow> bool" where
  "clean_slot e s c \<longleftrightarrow> load_slot e s c = slot_bytes e s c"

definition synced :: "ext \<Rightarrow> 'a store_scheme \<Rightarrow> bool" where
  "synced e s \<longleftrightarrow> separate (map cs_path (bs_carriers s)) \<and>
     (\<forall>c \<in> set (bs_carriers s). (cs_dirty c \<longrightarrow> cs_buffer c \<noteq> None) \<and>
        (\<not> cs_dirty c \<longrightarrow> clean_slot e s c))"

definition drop_buffers :: "'a store_scheme \<Rightarrow> 'a store_scheme" where
  "drop_buffers = bs_carriers_update (map (\<lambda>c. c\<lparr>cs_buffer := None, cs_dirty := False\<rparr>))"

lemma load_slot_fields:
  "load_slot e s (c\<lparr>cs_dirty := d\<rparr>) = load_slot e s c"
  "load_slot e s (c\<lparr>cs_buffer := b\<rparr>) = load_slot e s c"
  by (simp_all add: load_slot_def cong: if_cong option.case_cong)

lemma load_slot_local:
  assumes "fs (cs_path c) = w_files s (cs_path c)"
  shows "load_slot e (w_files_update (\<lambda>_. fs) s) c = load_slot e s c"
  using codec.read_local [of fs "cs_path c" "w_files s"] assms
  by (simp add: load_slot_def cong: if_cong option.case_cong)

lemma load_slot_written:
  assumes laws: "codec_laws e" and k: "codec_for_path (cs_path c) = Some k"
    and len: "length b = unat (cs_block_count c * of_nat PB)"
    and wr: "codec_write_chunk e k (cs_path c)
      (if bs_encrypted s then WriteMarkerless (cs_chunk_index c)
       else WriteFramed \<lparr>cm_chunk_index = cs_chunk_index c, cm_flags = f\<rparr>)
      b (if bs_encrypted s then key else []) (w_files s) = Ok fs"
    and key: "bs_encrypted s \<Longrightarrow> bs_order_key s = Some key"
  shows "load_slot e (w_files_update (\<lambda>_. fs) s) c = Ok b"
proof (cases "bs_encrypted s")
  case True
  with wr have "codec_read_chunk e k (cs_path c) (ReadMarkerless (cs_chunk_index c) (length b)) key fs =
      Ok (\<lparr>cm_chunk_index = cs_chunk_index c, cm_flags = 0\<rparr>, b)"
    by (intro codec.markerless [OF laws]) simp
  with True k len key show ?thesis by (simp add: load_slot_def)
next
  case False
  with wr have "codec_read_chunk e k (cs_path c) ReadFramed [] fs =
      Ok (\<lparr>cm_chunk_index = cs_chunk_index c, cm_flags = f\<rparr>, b)"
    by (intro codec.framed [OF laws]) simp
  with False k len show ?thesis by (simp add: load_slot_def)
qed

text \<open>What a carrier of a plaintext store reads back after it was written.\<close>

definition framed :: "ext \<Rightarrow> files \<Rightarrow> carrier_slot \<Rightarrow> bytes \<Rightarrow> bool" where
  "framed e fs c b \<longleftrightarrow> (\<exists>k. codec_for_path (cs_path c) = Some k \<and> codec_read_chunk e k (cs_path c) ReadFramed [] fs =
     Ok (\<lparr>cm_chunk_index = cs_chunk_index c, cm_flags = (if cs_is_primary c then 1 else 0)\<rparr>, b))"

text \<open>One step of the loop.\<close>

lemma flush_slot_run:
  assumes laws: "codec_laws e" and i: "i < length (bs_carriers s)"
    and dirty: "cs_dirty (bs_carriers s ! i)" and b: "cs_buffer (bs_carriers s ! i) = Some b"
    and sep: "separate (map cs_path (bs_carriers s))"
    and ok: "flush_slot e i s = (Ok (), t)"
  shows "\<exists>fs. t = bs_carriers_update (\<lambda>cs. cs[i := (bs_carriers s ! i)\<lparr>cs_dirty := False\<rparr>])
      (w_files_update (\<lambda>_. fs) s) \<and>
    (length b = unat (cs_block_count (bs_carriers s ! i) * of_nat PB) \<longrightarrow>
       load_slot e (w_files_update (\<lambda>_. fs) s) (bs_carriers s ! i) = Ok b) \<and>
    (\<forall>j < length (bs_carriers s). j \<noteq> i \<longrightarrow>
       fs (cs_path (bs_carriers s ! j)) = w_files s (cs_path (bs_carriers s ! j))) \<and>
    (\<not> bs_encrypted s \<longrightarrow> framed e fs (bs_carriers s ! i) b) \<and>
    (\<forall>k. codec_for_path (cs_path (bs_carriers s ! i)) = Some k \<longrightarrow>
       codec_raw_capacity_bytes e k (cs_path (bs_carriers s ! i)) fs =
       codec_raw_capacity_bytes e k (cs_path (bs_carriers s ! i)) (w_files s) \<and>
       (\<forall>q. q \<noteq> cs_path (bs_carriers s ! i) \<longrightarrow> q \<noteq> tmp_path k (cs_path (bs_carriers s ! i)) \<longrightarrow> fs q = w_files s q))"
proof -
  let ?c = "bs_carriers s ! i"
  obtain k where k: "codec_for_path (cs_path ?c) = Some k"
    using ok dirty b
    by (cases "codec_for_path (cs_path ?c)") (simp_all add: flush_slot_def bind_def run_simps)
  have "bs_order_key s \<noteq> None" if "bs_encrypted s"
    using ok dirty b k that
    by (cases "bs_order_key s") (simp_all add: flush_slot_def bind_def run_simps Let_def)
  then obtain key where key: "bs_encrypted s \<Longrightarrow> bs_order_key s = Some key" by auto
  let ?mode = "if bs_encrypted s then WriteMarkerless (cs_chunk_index ?c)
    else WriteFramed \<lparr>cm_chunk_index = cs_chunk_index ?c, cm_flags = (if cs_is_primary ?c then 1 else 0)\<rparr>"
  let ?key = "if bs_encrypted s then key else []"
  let ?r = "codec_write_chunk e k (cs_path ?c) ?mode b ?key (w_files s)"
  have run: "flush_slot e i s = (case map_err Codec ?r of
      Ok fs \<Rightarrow> (Ok (), bs_carriers_update (\<lambda>cs. cs[i := ?c\<lparr>cs_dirty := False\<rparr>]) (w_files_update (\<lambda>_. fs) s))
    | Err x \<Rightarrow> (Err x, s) | Panic \<Rightarrow> (Panic, s))"
    using dirty b k key
    by (cases "bs_encrypted s") (simp_all add: flush_slot_def bind_def run_simps Let_def split: res.split)
  obtain fs where fs: "?r = Ok fs"
    using ok unfolding run by (cases ?r) auto
  have t: "t = bs_carriers_update (\<lambda>cs. cs[i := ?c\<lparr>cs_dirty := False\<rparr>]) (w_files_update (\<lambda>_. fs) s)"
    using ok unfolding run fs by simp
  have ld: "load_slot e (w_files_update (\<lambda>_. fs) s) ?c = Ok b" if "length b = unat (cs_block_count ?c * of_nat PB)"
    by (rule load_slot_written [OF laws k that fs key])
  have "fs (cs_path (bs_carriers s ! j)) = w_files s (cs_path (bs_carriers s ! j))"
    if j: "j < length (bs_carriers s)" "j \<noteq> i" for j
  proof (rule codec.chunk_frame [OF laws fs])
    show "cs_path (bs_carriers s ! j) \<noteq> cs_path ?c"
      using sep i j nth_eq_iff_index_eq [of "map cs_path (bs_carriers s)" j i]
      by (auto simp: separate_def)
    show "cs_path (bs_carriers s ! j) \<noteq> tmp_path k (cs_path ?c)"
      using sep i j k nth_mem [OF i] nth_mem [OF j(1)]
      by (auto simp: separate_def codec_for_path_def)
  qed
  moreover have "framed e fs ?c b" if "\<not> bs_encrypted s"
    using codec.framed [OF laws, of k "cs_path ?c"] fs k that by (simp add: framed_def)
  moreover have "codec_raw_capacity_bytes e k (cs_path ?c) fs = codec_raw_capacity_bytes e k (cs_path ?c) (w_files s)"
    by (rule codec.capacity_kept [OF laws fs])
  moreover have "fs q = w_files s q" if "q \<noteq> cs_path ?c" "q \<noteq> tmp_path k (cs_path ?c)" for q
    by (rule codec.chunk_frame [OF laws fs that])
  ultimately show ?thesis using t ld k by auto
qed


definition all_clean :: "'a store_scheme \<Rightarrow> bool" where
  "all_clean s \<longleftrightarrow> (\<forall>c \<in> set (bs_carriers s). \<not> cs_dirty c)"

lemma flush_slot_clean:
  "\<not> cs_dirty (bs_carriers s ! i) \<Longrightarrow> flush_slot e i s = (Ok (), s)"
  by (simp add: flush_slot_def bind_def run_simps)

text \<open>The invariant of the loop: the first \<open>k\<close> slots are written back.\<close>

definition flushed ::
    "ext \<Rightarrow> 'a store_scheme \<Rightarrow> nat \<Rightarrow> 'a store_scheme \<Rightarrow> bool" where
  "flushed e s k t \<longleftrightarrow>
     t = bs_carriers_update (\<lambda>_. bs_carriers t) (w_files_update (\<lambda>_. w_files t) s) \<and>
     length (bs_carriers t) = length (bs_carriers s) \<and>
     (\<forall>i < length (bs_carriers s).
        (if i < k then bs_carriers t ! i = (bs_carriers s ! i)\<lparr>cs_dirty := False\<rparr> \<and>
             load_slot e t (bs_carriers s ! i) = slot_bytes e s (bs_carriers s ! i)
         else bs_carriers t ! i = bs_carriers s ! i \<and>
           w_files t (cs_path (bs_carriers s ! i)) = w_files s (cs_path (bs_carriers s ! i))))"

lemma load_slot_cong:
  assumes "t = bs_carriers_update f (w_files_update g s)"
    "w_files t (cs_path c) = w_files s (cs_path c)"
  shows "load_slot e t c = load_slot e s c"
proof -
  have "load_slot e (w_files_update (\<lambda>_. w_files t) s) c = load_slot e s c"
    by (rule load_slot_local) (use assms(2) in simp)
  moreover have "load_slot e t c = load_slot e (w_files_update (\<lambda>_. w_files t) s) c"
    unfolding assms(1) by (simp add: load_slot_def cong: if_cong option.case_cong)
  ultimately show ?thesis by simp
qed

text \<open>A dirty slot has a payload of its length; the product that computes the length does not wrap.\<close>

lemma dirty_slot:
  assumes ok: "store_ok e s" and sy: "synced e s" and k: "k < length (bs_carriers s)" and d: "cs_dirty (bs_carriers s ! k)"
  obtains b where "cs_buffer (bs_carriers s ! k) = Some b"
    "length b = unat (cs_block_count (bs_carriers s ! k) * of_nat PB)"
proof -
  let ?c = "bs_carriers s ! k"
  obtain b where b: "cs_buffer ?c = Some b" using sy k d by (fastforce simp: synced_def)
  have wf: "layout_wf (layout e s) (unat (bs_total_blocks s))" using ok by (simp add: store_ok_def)
  have "(cs_block_start ?c, cs_block_count ?c, Ok b) \<in> set (layout e s)"
    using nth_mem [of k "layout e s"] k b by (simp add: layout_nth slot_bytes_buffer)
  then have lb: "length b = unat (cs_block_count ?c) * PB" using wf by (auto simp: layout_wf_def)
  have "unat (cs_block_count ?c) \<le> unat (bs_total_blocks s)"
    using tiled_nth [of "layout e s" 0 _ k] wf k by (fastforce simp: layout_wf_def layout_nth)
  then have "unat (cs_block_count ?c) * PB \<le> MAX64"
    using wf le_trans [OF mult_le_mono1 [of _ "unat (bs_total_blocks s)" PB]]
    by (simp add: layout_wf_def)
  then have "unat (cs_block_count ?c) * unat (of_nat PB :: u64) < 2 ^ LENGTH(64)"
    by (simp add: PB_val MAX64_def)
  from unat_mult_lem [THEN iffD1, OF this] have "length b = unat (cs_block_count ?c * of_nat PB)"
    using lb by (simp add: PB_val)
  with b show thesis by (rule that)
qed

lemma flushed_step:
  assumes laws: "codec_laws e" and ok: "store_ok e s" and sy: "synced e s"
    and k: "k < length (bs_carriers s)" and inv: "flushed e s k t"
    and run: "flush_slot e k t = (Ok (), u)"
  shows "flushed e s (Suc k) u"
proof -
  let ?c = "bs_carriers s ! k"
  have tk: "bs_carriers t ! k = ?c" "w_files t (cs_path ?c) = w_files s (cs_path ?c)"
    and lt: "length (bs_carriers t) = length (bs_carriers s)"
    and te: "t = bs_carriers_update (\<lambda>_. bs_carriers t) (w_files_update (\<lambda>_. w_files t) s)"
    using inv k by (auto simp: flushed_def)
  have paths: "map cs_path (bs_carriers t) = map cs_path (bs_carriers s)"
    using inv by (intro nth_equalityI) (auto simp: flushed_def split: if_splits)
  show ?thesis
  proof (cases "cs_dirty ?c")
    case False
    then have u: "u = t" using run tk by (simp add: flush_slot_clean)
    have "load_slot e t ?c = load_slot e s ?c" by (rule load_slot_cong [OF te tk(2)])
    also have "\<dots> = slot_bytes e s ?c" using sy False k by (auto simp: synced_def clean_slot_def)
    finally have "load_slot e t ?c = slot_bytes e s ?c" .
    moreover have "?c\<lparr>cs_dirty := False\<rparr> = ?c" using False by simp
    ultimately show ?thesis
      using inv tk unfolding u flushed_def by (auto simp: less_Suc_eq)
  next
    case True
    obtain b where b: "cs_buffer ?c = Some b" and len: "length b = unat (cs_block_count ?c * of_nat PB)"
      by (rule dirty_slot [OF ok sy k True])
    obtain fs where u: "u = bs_carriers_update (\<lambda>cs. cs[k := ?c\<lparr>cs_dirty := False\<rparr>])
          (w_files_update (\<lambda>_. fs) t)"
        and ld: "load_slot e (w_files_update (\<lambda>_. fs) t) ?c = Ok b"
        and fr: "\<forall>j < length (bs_carriers t). j \<noteq> k \<longrightarrow>
          fs (cs_path (bs_carriers t ! j)) = w_files t (cs_path (bs_carriers t ! j))"
      using flush_slot_run [OF laws _ _ _ _ run, of b] k lt tk True b len sy paths
      by (auto simp: synced_def)
    have p: "cs_path (bs_carriers t ! j) = cs_path (bs_carriers s ! j)" if "j < length (bs_carriers s)" for j
      using that paths lt by (metis nth_map)
    have lu: "load_slot e u c = load_slot e (w_files_update (\<lambda>_. fs) t) c" for c
      unfolding u by simp
    have old: "load_slot e u (bs_carriers s ! i) = slot_bytes e s (bs_carriers s ! i)"
      if i: "i < k" for i
    proof -
      have "fs (cs_path (bs_carriers s ! i)) = w_files t (cs_path (bs_carriers s ! i))"
        using fr [rule_format, of i] i k lt p [of i] by simp
      then have "load_slot e (w_files_update (\<lambda>_. fs) t) (bs_carriers s ! i) =
          load_slot e t (bs_carriers s ! i)" by (rule load_slot_local)
      with inv i k show ?thesis unfolding lu by (auto simp: flushed_def)
    qed
    have new: "load_slot e u ?c = slot_bytes e s ?c" unfolding lu ld by (simp add: slot_bytes_buffer b)
    have rest: "fs (cs_path (bs_carriers s ! i)) = w_files s (cs_path (bs_carriers s ! i))"
      if "i < length (bs_carriers s)" "k < i" for i
      using fr [rule_format, of i] inv that lt p [of i] by (auto simp: flushed_def)
    have "u = bs_carriers_update (\<lambda>_. bs_carriers u) (w_files_update (\<lambda>_. w_files u) s)"
      unfolding u by (subst te) simp
    moreover have "length (bs_carriers u) = length (bs_carriers s)" using lt by (simp add: u)
    moreover have "bs_carriers u ! i = (if i = k then ?c\<lparr>cs_dirty := False\<rparr> else bs_carriers t ! i)"
      if "i < length (bs_carriers s)" for i using lt that by (simp add: u)
    moreover have "w_files u = fs" by (simp add: u)
    ultimately show ?thesis
      using inv old new rest unfolding flushed_def by (auto simp: less_Suc_eq)
  qed
qed

text \<open>An invariant of the loop of a flush that succeeds.\<close>

lemma flush_induct:
  assumes step: "\<And>k u v. k < length (bs_carriers s) \<Longrightarrow> I k u \<Longrightarrow> flush_slot e k u = (Ok (), v) \<Longrightarrow> I (Suc k) v"
    and init: "I 0 s" and run: "flush e s = (Ok (), t)"
  shows "I (length (bs_carriers s)) t"
proof -
  let ?n = "length (bs_carriers s)"
  have loop: "for_each [k..<?n] (flush_slot e) u = (Ok (), t) \<Longrightarrow> k \<le> ?n \<Longrightarrow> I k u \<Longrightarrow> I ?n t" for k u
  proof (induction "?n - k" arbitrary: k u)
    case 0
    then show ?case by (simp add: run_simps)
  next
    case (Suc m)
    then have k: "k < ?n" by simp
    from Suc.prems(1) obtain u' where u': "flush_slot e k u = (Ok (), u')"
        "for_each [Suc k..<?n] (flush_slot e) u' = (Ok (), t)"
      using k by (auto simp: upt_conv_Cons elim: bind_OkE)
    show ?case by (rule Suc.hyps(1) [OF _ u'(2)]) (use Suc.hyps(2) k step [OF k Suc.prems(3) u'(1)] in simp_all)
  qed
  have "for_each [0..<?n] (flush_slot e) s = (Ok (), t)"
    using run by (simp add: flush_def bind_def run_simps)
  with loop [of 0 s] init show ?thesis by simp
qed

text \<open>An invariant of every slot written back, whether it succeeds or not.\<close>

lemma flush_slot_frame:
  "flush_slot e i s = (r, t) \<Longrightarrow> t = bs_carriers_update (\<lambda>_. bs_carriers t) (w_files_update (\<lambda>_. w_files t) s)"
  by (auto simp: flush_slot_def bind_def run_simps Let_def split: if_splits option.splits res.splits prod.splits)

lemma flush_slot_failed:
  "flush_slot e i s = (r, t) \<Longrightarrow> r \<noteq> Ok () \<Longrightarrow> t = s"
  by (auto simp: flush_slot_def bind_def run_simps Let_def split: if_splits option.splits res.splits prod.splits)

lemma flush_keeps:
  assumes step: "\<And>k u r v. k < length (bs_carriers s) \<Longrightarrow> I u \<Longrightarrow> flush_slot e k u = (r, v) \<Longrightarrow> I v" and init: "I s"
  shows "I (snd (flush e s))"
proof -
  have "set ks \<subseteq> {..<length (bs_carriers s)} \<Longrightarrow> I u \<Longrightarrow> I (snd (for_each ks (flush_slot e) u))" for ks u
  proof (induction ks arbitrary: u)
    case (Cons k ks)
    obtain r v where v: "flush_slot e k u = (r, v)" by (cases "flush_slot e k u")
    then have "I v" using step [of k u r v] Cons.prems by simp
    then show ?case using Cons.IH [of v] Cons.prems by (cases r) (simp_all add: bind_def v)
  qed (simp add: run_simps)
  from this [of "[0..<length (bs_carriers s)]" s] init show ?thesis
    by (simp add: flush_def bind_def run_simps atLeastLessThan_def)
qed

lemma flush_all:
  assumes laws: "codec_laws e" and ok: "store_ok e s" and sy: "synced e s"
    and run: "flush e s = (Ok (), t)"
  shows "flushed e s (length (bs_carriers s)) t"
  by (rule flush_induct [where I = "flushed e s", OF _ _ run])
    (rule flushed_step [OF laws ok sy], assumption+, simp add: flushed_def)


lemma flushed_slots:
  assumes "flushed e s (length (bs_carriers s)) t" "i < length (bs_carriers s)"
  shows "bs_carriers t ! i = (bs_carriers s ! i)\<lparr>cs_dirty := False\<rparr>"
    "load_slot e t (bs_carriers s ! i) = slot_bytes e s (bs_carriers s ! i)"
    "slot_bytes e t ((bs_carriers s ! i)\<lparr>cs_dirty := False\<rparr>) = slot_bytes e s (bs_carriers s ! i)"
proof -
  show c: "bs_carriers t ! i = (bs_carriers s ! i)\<lparr>cs_dirty := False\<rparr>"
    and l: "load_slot e t (bs_carriers s ! i) = slot_bytes e s (bs_carriers s ! i)"
    using assms by (auto simp: flushed_def)
  show "slot_bytes e t ((bs_carriers s ! i)\<lparr>cs_dirty := False\<rparr>) = slot_bytes e s (bs_carriers s ! i)"
    using l unfolding slot_bytes_def by (simp add: load_slot_fields split: option.split)
qed

lemma flushed_clean: "flushed e s (length (bs_carriers s)) t \<Longrightarrow> all_clean t"
  using flushed_slots(1) by (fastforce simp: all_clean_def in_set_conv_nth flushed_def)

lemma flushed_layout:
  assumes "flushed e s (length (bs_carriers s)) t"
  shows "layout e t = layout e s" "layout e (drop_buffers t) = layout e s"
proof -
  have l: "length (bs_carriers t) = length (bs_carriers s)" using assms by (simp add: flushed_def)
  show "layout e t = layout e s"
    by (rule nth_equalityI) (simp_all add: l layout_nth flushed_slots [OF assms])
  have "layout e (drop_buffers t) ! i = layout e s ! i" if i: "i < length (bs_carriers s)" for i
    using i l flushed_slots [OF assms i]
    by (simp add: layout_nth drop_buffers_def slot_bytes_def load_slot_fields)
  then show "layout e (drop_buffers t) = layout e s"
    by (intro nth_equalityI) (simp_all add: drop_buffers_def l)
qed

lemma flushed_same:
  assumes "flushed e s (length (bs_carriers s)) t"
  shows "store_ok e t = store_ok e s" "view e t = view e s"
    "store_ok e (drop_buffers t) = store_ok e s" "view e (drop_buffers t) = view e s"
proof -
  have t: "t = bs_carriers_update (\<lambda>_. bs_carriers t) (w_files_update (\<lambda>_. w_files t) s)"
    using assms by (simp add: flushed_def)
  have f: "bs_encrypted t = bs_encrypted s" "bs_cipher t = bs_cipher s"
      "bs_total_blocks t = bs_total_blocks s"
    by (subst t, simp)+
  show "store_ok e t = store_ok e s" "view e t = view e s"
    using store_ok_cong [OF f flushed_layout(1) [OF assms]] by simp_all
  show "store_ok e (drop_buffers t) = store_ok e s" "view e (drop_buffers t) = view e s"
    using store_ok_cong [of "drop_buffers t" s] f flushed_layout(2) [OF assms]
    by (simp_all add: drop_buffers_def)
qed

lemma flushed_synced:
  assumes f: "flushed e s (length (bs_carriers s)) t" and sy: "synced e s"
  shows "synced e t"
proof -
  have l: "length (bs_carriers t) = length (bs_carriers s)" using f by (simp add: flushed_def)
  have "map cs_path (bs_carriers t) = map cs_path (bs_carriers s)"
    by (rule nth_equalityI) (simp_all add: l flushed_slots [OF f])
  moreover have "\<not> cs_dirty c \<and> clean_slot e t c" if c: "c \<in> set (bs_carriers t)" for c
  proof -
    obtain i where i: "i < length (bs_carriers s)" "bs_carriers t ! i = c"
      using c l unfolding in_set_conv_nth by auto
    from flushed_slots [OF f i(1)] i(2) show ?thesis
      by (auto simp: clean_slot_def load_slot_fields)
  qed
  ultimately show ?thesis using sy by (auto simp: synced_def)
qed

text \<open>Loading and writing blocks keeps a store ready to be flushed.\<close>

lemma load_carrier_synced:
  assumes i: "i < length (bs_carriers s)" "slot_bytes e s (bs_carriers s ! i) = Ok b" and sy: "synced e s"
  shows "synced e (load_carrier i b s)"
proof -
  have "map cs_path (bs_carriers (load_carrier i b s)) = map cs_path (bs_carriers s)"
    using i(1) by (intro nth_equalityI) (simp_all add: load_carrier_def nth_list_update)
  moreover have "(cs_dirty c \<longrightarrow> cs_buffer c \<noteq> None) \<and> (\<not> cs_dirty c \<longrightarrow> clean_slot e (load_carrier i b s) c)"
    if c: "c \<in> set (bs_carriers (load_carrier i b s))" for c
  proof (cases "c \<in> set (bs_carriers s)")
    case True
    then show ?thesis using sy by (auto simp: synced_def clean_slot_def load_carrier_def)
  next
    case False
    with c have ce: "c = (bs_carriers s ! i)\<lparr>cs_buffer := Some b\<rparr>"
      using set_update_subset_insert [of "bs_carriers s" i] by (auto simp: load_carrier_def)
    have "load_slot e s (bs_carriers s ! i) = Ok b" if "\<not> cs_dirty (bs_carriers s ! i)"
      using sy that i by (auto simp: synced_def clean_slot_def)
    then show ?thesis unfolding ce
      by (auto simp: clean_slot_def load_slot_fields slot_bytes_buffer load_carrier_def)
  qed
  ultimately show ?thesis using sy by (auto simp: synced_def)
qed

lemma written_synced:
  assumes i: "i < length (bs_carriers s)" and sy: "synced e s"
  shows "synced e (bs_carriers_update
      (\<lambda>cs. cs[i := (bs_carriers s ! i)\<lparr>cs_buffer := Some b', cs_dirty := True\<rparr>]) (w_draws_update n s))"
    (is "synced e ?t")
proof -
  have "map cs_path (bs_carriers ?t) = map cs_path (bs_carriers s)"
    using i by (intro nth_equalityI) (simp_all add: nth_list_update)
  moreover have "(cs_dirty c \<longrightarrow> cs_buffer c \<noteq> None) \<and> (\<not> cs_dirty c \<longrightarrow> clean_slot e ?t c)"
    if c: "c \<in> set (bs_carriers ?t)" for c
  proof (cases "c \<in> set (bs_carriers s)")
    case True
    then show ?thesis using sy by (auto simp: synced_def clean_slot_def)
  next
    case False
    with c have "c = (bs_carriers s ! i)\<lparr>cs_buffer := Some b', cs_dirty := True\<rparr>"
      using set_update_subset_insert [of "bs_carriers s" i] by auto
    then show ?thesis by simp
  qed
  ultimately show ?thesis using sy by (auto simp: synced_def)
qed

lemma write_block_synced:
  assumes ok: "store_part e D s" "synced e s" and l: "l < unat (bs_total_blocks s)" and p: "length p \<le> UB"
  shows "\<exists>t. write_block e l p s = (Ok (), t) \<and> store_part e (insert l D) t \<and> synced e t \<and>
    bs_total_blocks t = bs_total_blocks s \<and> view e t = (view e s)(l := pad p) \<and> store_rest t = store_rest s"
proof -
  from write_block_part [OF ok(1) l p] obtain t i b b' n where
      t: "write_block e l p s = (Ok (), t)" "store_part e (insert l D) t" "view e t = (view e s)(l := pad p)"
        "bs_total_blocks t = bs_total_blocks s" "w_files t = w_files s" "w_ticks t = w_ticks s"
        "more t = more s" and i: "i < length (bs_carriers s)" "slot_bytes e s (bs_carriers s ! i) = Ok b"
      and te: "t = bs_carriers_update (\<lambda>cs. cs[i := (bs_carriers s ! i)\<lparr>cs_buffer := Some b', cs_dirty := True\<rparr>])
        (w_draws_update n (load_carrier i b s))" by blast
  let ?u = "load_carrier i b s"
  have "synced e (bs_carriers_update
    (\<lambda>cs. cs[i := (bs_carriers ?u ! i)\<lparr>cs_buffer := Some b', cs_dirty := True\<rparr>]) (w_draws_update n ?u))"
    by (rule written_synced) (use i load_carrier_synced [OF i ok(2)] in simp_all)
  moreover have "(bs_carriers ?u ! i)\<lparr>cs_buffer := Some b', cs_dirty := True\<rparr> =
      (bs_carriers s ! i)\<lparr>cs_buffer := Some b', cs_dirty := True\<rparr>"
    using i by (simp add: load_carrier_def)
  ultimately have "synced e t" unfolding te by simp
  with t show ?thesis by (simp add: store_rest_def)
qed

text \<open>A device that can be flushed at any point: the same interface, with \<open>synced\<close> in its invariant.\<close>

definition device_ok :: "ext \<Rightarrow> 'a store_scheme \<Rightarrow> bool" where
  "device_ok e s \<longleftrightarrow> store_ok e s \<and> synced e s"

interpretation sdev: block_device "device_ok e" "\<lambda>s. unat (bs_total_blocks s)" "view e" store_rest
  "read_block e" "write_block e" for e
proof
  fix s :: "'a store_scheme" and l p
  show "device_ok e s \<Longrightarrow> l < unat (bs_total_blocks s) \<Longrightarrow> length (view e s l) = UB"
    by (simp add: device_ok_def view_length)
  show "\<exists>t. read_block e l s = (Ok (view e s l), t) \<and> device_ok e t \<and>
      unat (bs_total_blocks t) = unat (bs_total_blocks s) \<and> view e t = view e s \<and>
      store_rest t = store_rest s" if "device_ok e s" "l < unat (bs_total_blocks s)"
  proof -
    from that(1) have ok: "store_ok e s" "synced e s" by (simp_all add: device_ok_def)
    from read_block_run [OF ok(1) that(2)] obtain i b where r: "i < length (bs_carriers s)"
        "slot_bytes e s (bs_carriers s ! i) = Ok b"
        "read_block e l s = (Ok (view e s l), load_carrier i b s)" by blast
    with ok load_carrier_same [OF r(1,2)] load_carrier_synced [OF r(1,2) ok(2)] show ?thesis
      by (auto simp: store_rest_def device_ok_def)
  qed
  show "\<exists>t. write_block e l p s = (Ok (), t) \<and> device_ok e t \<and>
      unat (bs_total_blocks t) = unat (bs_total_blocks s) \<and> view e t = (view e s)(l := pad p) \<and>
      store_rest t = store_rest s" if "device_ok e s" "l < unat (bs_total_blocks s)" "length p \<le> UB"
    using that write_block_synced [of e UNIV s l p] unfolding device_ok_def store_ok_part by auto
qed (rule block_out_of_range; assumption)+

text \<open>C26: After a flush that succeeds, the blocks are the same, and so are the blocks of a store that
  has nothing loaded and reads the files again: everything written is durable.\<close>

theorem flush_durable:
  assumes "codec_laws e" "store_ok e s" "synced e s" "flush e s = (Ok (), t)"
  shows "store_ok e t \<and> view e t = view e s \<and> synced e t \<and>
    store_ok e (drop_buffers t) \<and> view e (drop_buffers t) = view e s"
proof -
  have f: "flushed e s (length (bs_carriers s)) t" by (rule flush_all [OF assms])
  show ?thesis using flushed_same [OF f] flushed_synced [OF f] assms by simp
qed

end
