(* ===== verification/Bitmap.thy ===== *)
theory Bitmap
  imports FsTypes
begin

text \<open>
  \<^verbatim>\<open>src/fs/bitmap.rs\<close>: the free-space bitmap, one bit per block. Its abstraction is the set of
  used blocks. The interface \<open>allocator\<close> states what the file-system layer relies on.
\<close>

record bitmap =
  bm_bits :: bytes
  bm_total :: nat

definition bitmap_new :: "nat \<Rightarrow> bitmap" where
  "bitmap_new n = \<lparr>bm_bits = replicate (div_ceil n 8) 0, bm_total = n\<rparr>"

definition bitmap_from_bytes :: "bytes \<Rightarrow> nat \<Rightarrow> bitmap" where
  "bitmap_from_bytes bs total_blocks =
     (let len = div_ceil total_blocks 8; n = min len (length bs)
      in \<lparr>bm_bits = put (replicate len 0) 0 (take n bs), bm_total = total_blocks\<rparr>)"

definition is_set :: "bitmap \<Rightarrow> nat \<Rightarrow> bool" where
  "is_set bm block \<longleftrightarrow> block < bm_total bm \<and>
     (drop_bit (block mod 8) (bm_bits bm ! (block div 8))) AND 1 = 1"

definition set_block :: "bitmap \<Rightarrow> nat \<Rightarrow> bitmap" where
  "set_block bm block =
     (if block < bm_total bm
      then bm\<lparr>bm_bits := (bm_bits bm)[block div 8 :=
             (bm_bits bm ! (block div 8)) OR push_bit (block mod 8) 1]\<rparr>
      else bm)"

definition clear_block :: "bitmap \<Rightarrow> nat \<Rightarrow> bitmap" where
  "clear_block bm block =
     (if block < bm_total bm
      then bm\<lparr>bm_bits := (bm_bits bm)[block div 8 :=
             (bm_bits bm ! (block div 8)) AND NOT (push_bit (block mod 8) 1)]\<rparr>
      else bm)"

definition count_free :: "bitmap \<Rightarrow> nat" where
  "count_free bm = length (filter (\<lambda>block. \<not> is_set bm block) [0..<bm_total bm])"

fun alloc_scan :: "bitmap \<Rightarrow> nat list \<Rightarrow> (nat \<times> bitmap, fs_error) res" where
  "alloc_scan bm [] = Err NoSpace"
| "alloc_scan bm (block # blocks) =
     (if \<not> is_set bm block then Ok (block, set_block bm block) else alloc_scan bm blocks)"

definition alloc_from :: "bitmap \<Rightarrow> nat \<Rightarrow> (nat \<times> bitmap, fs_error) res" where
  "alloc_from bm start = alloc_scan bm [start..<bm_total bm]"


subsection \<open>The abstraction: the set of used blocks\<close>

text \<open>Both constructors give the bit vector exactly the bytes it needs, so no index is out of range.\<close>

definition bitmap_wf :: "bitmap \<Rightarrow> bool" where
  "bitmap_wf bm \<longleftrightarrow> length (bm_bits bm) = div_ceil (bm_total bm) 8"

definition used :: "bitmap \<Rightarrow> nat set" where
  "used bm = {block. is_set bm block}"

lemma and_1_eq_1_iff: "(w :: u8) AND 1 = 1 \<longleftrightarrow> bit w 0"
  by (simp add: and_one_eq odd_iff_mod_2_eq_one bit_0)

lemma is_set_bit:
  "is_set bm block \<longleftrightarrow> block < bm_total bm \<and> bit (bm_bits bm ! (block div 8)) (block mod 8)"
  by (simp add: is_set_def and_1_eq_1_iff bit_drop_bit_eq)

lemma wf_index:
  assumes "bitmap_wf bm" "block < bm_total bm"
  shows "block div 8 < length (bm_bits bm)"
  using assms less_div_ceil_iff [of 8 "block div 8" "bm_total bm"]
  by (simp add: bitmap_wf_def)

lemma bm_total_set [simp]: "bm_total (set_block bm b) = bm_total bm"
  and bm_total_clear [simp]: "bm_total (clear_block bm b) = bm_total bm"
  by (simp_all add: set_block_def clear_block_def)

lemma wf_new [simp]: "bitmap_wf (bitmap_new n)"
  by (simp add: bitmap_wf_def bitmap_new_def)

lemma wf_from_bytes [simp]: "bitmap_wf (bitmap_from_bytes bs n)"
  by (simp add: bitmap_wf_def bitmap_from_bytes_def Let_def)

lemma wf_set [simp]: "bitmap_wf bm \<Longrightarrow> bitmap_wf (set_block bm b)"
  and wf_clear [simp]: "bitmap_wf bm \<Longrightarrow> bitmap_wf (clear_block bm b)"
  by (simp_all add: bitmap_wf_def set_block_def clear_block_def)

lemma same_bit: "(b :: nat) div 8 = c div 8 \<Longrightarrow> b mod 8 = c mod 8 \<Longrightarrow> b = c"
  by (metis div_mult_mod_eq)

lemma bit_single8: "j < 8 \<Longrightarrow> bit (2 ^ k :: u8) j \<longleftrightarrow> j = k"
  by (auto simp: bit_simps)

lemma is_set_set_block:
  assumes "bitmap_wf bm"
  shows "is_set (set_block bm b) c \<longleftrightarrow> is_set bm c \<or> (b < bm_total bm \<and> c = b)"
  using wf_index [OF assms, of b] same_bit [of b c]
  by (auto simp: is_set_bit set_block_def nth_list_update bit_or_iff bit_single8)

lemma is_set_clear_block:
  assumes "bitmap_wf bm"
  shows "is_set (clear_block bm b) c \<longleftrightarrow> is_set bm c \<and> c \<noteq> b"
  using wf_index [OF assms, of b] same_bit [of b c]
  by (auto simp: is_set_bit clear_block_def nth_list_update bit_and_iff bit_not_iff bit_single8)

lemma used_bound: "used bm \<subseteq> {..<bm_total bm}"
  by (auto simp: used_def is_set_def)

lemma used_new [simp]: "used (bitmap_new n) = {}"
  using less_div_ceil_iff [of 8]
  by (auto simp: used_def is_set_bit bitmap_new_def)

lemma used_set: "bitmap_wf bm \<Longrightarrow> b < bm_total bm \<Longrightarrow> used (set_block bm b) = insert b (used bm)"
  by (auto simp: used_def is_set_set_block)

lemma used_clear: "bitmap_wf bm \<Longrightarrow> used (clear_block bm b) = used bm - {b}"
  by (auto simp: used_def is_set_clear_block)

lemma alloc_scan_Ok:
  assumes "alloc_scan bm blocks = Ok (b, bm')"
  shows "\<exists>pre post. blocks = pre @ b # post \<and> (\<forall>c \<in> set pre. is_set bm c) \<and>
    \<not> is_set bm b \<and> bm' = set_block bm b"
  using assms
proof (induction blocks)
  case Nil
  then show ?case by simp
next
  case (Cons a blocks)
  show ?case
  proof (cases "is_set bm a")
    case True
    with Cons obtain pre post where "blocks = pre @ b # post" "\<forall>c \<in> set pre. is_set bm c"
      "\<not> is_set bm b" "bm' = set_block bm b" by auto
    with True show ?thesis by (intro exI [of _ "a # pre"] exI [of _ post]) auto
  next
    case False
    with Cons.prems show ?thesis by (intro exI [of _ "[]"] exI [of _ blocks]) auto
  qed
qed

lemma alloc_scan_Err: "alloc_scan bm blocks = Err e \<longleftrightarrow> e = NoSpace \<and> (\<forall>c \<in> set blocks. is_set bm c)"
  by (induction blocks) auto

lemma alloc_scan_no_panic: "alloc_scan bm blocks \<noteq> Panic"
  by (induction blocks) auto

lemma alloc_from_Ok:
  assumes "alloc_from bm start = Ok (b, bm')"
  shows "start \<le> b \<and> b < bm_total bm \<and> b \<notin> used bm \<and> {start..<b} \<subseteq> used bm \<and> bm' = set_block bm b"
proof -
  from assms obtain pre post where *: "[start..<bm_total bm] = pre @ b # post"
    "\<forall>c \<in> set pre. is_set bm c" "\<not> is_set bm b" "bm' = set_block bm b"
    unfolding alloc_from_def by (meson alloc_scan_Ok)
  have b: "start \<le> b \<and> b < bm_total bm"
    using arg_cong [OF *(1), of set] by auto
  have "length pre < bm_total bm - start"
    using arg_cong [OF *(1), of length] by simp
  then have "b = start + length pre"
    using arg_cong [OF *(1), of "\<lambda>xs. xs ! length pre"] by simp
  moreover have "pre = take (length pre) [start..<bm_total bm]"
    using *(1) by simp
  then have "pre = [start..<start + length pre]"
    using \<open>length pre < bm_total bm - start\<close> by (metis add_leD1 le_add_diff_inverse less_imp_le
        nat_add_left_cancel_le take_upt b \<open>b = start + length pre\<close>)
  ultimately have "set pre = {start..<b}" by (metis set_upt)
  with * b show ?thesis by (auto simp: used_def)
qed

lemma alloc_from_Err: "alloc_from bm start = Err e \<longleftrightarrow> e = NoSpace \<and> {start..<bm_total bm} \<subseteq> used bm"
  by (auto simp: alloc_from_def alloc_scan_Err used_def)


subsection \<open>The interface of the allocator\<close>

locale allocator =
  fixes inv :: "'b \<Rightarrow> bool"
    and occupied :: "'b \<Rightarrow> nat set"
    and limit :: "'b \<Rightarrow> nat"
    and take_block :: "'b \<Rightarrow> nat \<Rightarrow> (nat \<times> 'b, fs_error) res"
    and release :: "'b \<Rightarrow> nat \<Rightarrow> 'b"
  assumes occupied_bound: "inv b \<Longrightarrow> occupied b \<subseteq> {..<limit b}"
    and take_Ok: "inv b \<Longrightarrow> take_block b start = Ok (k, b') \<Longrightarrow>
      start \<le> k \<and> k < limit b \<and> k \<notin> occupied b \<and> occupied b' = insert k (occupied b) \<and>
      limit b' = limit b \<and> inv b'"
    and take_Err: "inv b \<Longrightarrow>
      take_block b start = Err e \<longleftrightarrow> e = NoSpace \<and> {start..<limit b} \<subseteq> occupied b"
    and take_no_panic: "take_block b start \<noteq> Panic"
    and release: "inv b \<Longrightarrow>
      occupied (release b k) = occupied b - {k} \<and> limit (release b k) = limit b \<and> inv (release b k)"
begin

text \<open>The free blocks from a starting point, and how the two operations change their number.\<close>

definition free_from :: "'b \<Rightarrow> nat \<Rightarrow> nat set" where
  "free_from b start = {start..<limit b} - occupied b"

lemma take_succeeds:
  assumes "inv b" and "free_from b start \<noteq> {}"
  obtains k b' where "take_block b start = Ok (k, b')"
  using assms take_Err [of b start] take_no_panic [of b start]
  by (cases "take_block b start") (auto simp: free_from_def)

lemma take_free:
  assumes "inv b" and "take_block b start = Ok (k, b')"
  shows "k \<in> free_from b start" and "free_from b' start = free_from b start - {k}"
  using take_Ok [OF assms] by (auto simp: free_from_def)

lemma card_take:
  assumes "inv b" and "take_block b start = Ok (k, b')"
  shows "card (free_from b start) = Suc (card (free_from b' start))"
proof -
  have "finite (free_from b start)" by (simp add: free_from_def)
  with take_free [OF assms] show ?thesis
    by (metis card_Suc_Diff1)
qed

lemma release_take:
  assumes "inv b" and "take_block b start = Ok (k, b')"
  shows "occupied (release b' k) = occupied b"
  using take_Ok [OF assms] release [of b' k] by auto

end

interpretation bm: allocator bitmap_wf used bm_total alloc_from clear_block
proof unfold_locales
  fix b start k b'
  assume "bitmap_wf b" "alloc_from b start = Ok (k, b')"
  then show "start \<le> k \<and> k < bm_total b \<and> k \<notin> used b \<and> used b' = insert k (used b) \<and>
      bm_total b' = bm_total b \<and> bitmap_wf b'"
    using alloc_from_Ok [of b start k b'] by (auto simp: used_set)
next
  fix b start e
  show "alloc_from b start = Err e \<longleftrightarrow> e = NoSpace \<and> {start..<bm_total b} \<subseteq> used b"
    by (rule alloc_from_Err)
next
  show "alloc_from b start \<noteq> Panic" for b start
    by (simp add: alloc_from_def alloc_scan_no_panic)
qed (auto simp: used_clear used_bound)

text \<open>The count the code prints is the number of blocks outside the used set.\<close>

lemma count_free_card: "count_free bm = card ({..<bm_total bm} - used bm)"
proof -
  have "count_free bm = card (set (filter (\<lambda>b. \<not> is_set bm b) [0..<bm_total bm]))"
    unfolding count_free_def by (rule distinct_card [symmetric]) simp
  also have "set (filter (\<lambda>b. \<not> is_set bm b) [0..<bm_total bm]) = {..<bm_total bm} - used bm"
    by (auto simp: used_def)
  finally show ?thesis .
qed

text \<open>The on-disk form is the bit vector itself.\<close>

lemma from_bytes_bits [roundtrip]:
  "bitmap_wf bm \<Longrightarrow> bitmap_from_bytes (bm_bits bm) (bm_total bm) = bm"
  by (simp add: bitmap_from_bytes_def bitmap_wf_def Let_def put_0_whole)

text \<open>C35: On a bitmap with its bytes, allocation takes the lowest free block from the start block on and
  marks it: afterwards exactly the blocks used before and that one are used, the number of blocks and of
  bytes is the same, and one block less is free. It fails with \<open>NoSpace\<close> only when no block from the
  start on is free, and it never panics.\<close>

theorem alloc_lowest_free:
  assumes "bitmap_wf bm"
  shows "case alloc_from bm start of
      Ok (b, bm') \<Rightarrow> start \<le> b \<and> b < bm_total bm \<and> \<not> is_set bm b \<and> list_all (is_set bm) [start..<b] \<and>
        bitmap_wf bm' \<and> bm_total bm' = bm_total bm \<and> (\<forall>c. is_set bm' c \<longleftrightarrow> is_set bm c \<or> c = b) \<and>
        count_free bm' + 1 = count_free bm
    | Err x \<Rightarrow> x = NoSpace \<and> list_all (is_set bm) [start..<bm_total bm]
    | Panic \<Rightarrow> False"
proof (cases "alloc_from bm start")
  case (Ok r)
  obtain b bm' where r: "r = (b, bm')" by (cases r)
  have b: "start \<le> b" "b < bm_total bm" "\<not> is_set bm b" "list_all (is_set bm) [start..<b]" "bm' = set_block bm b"
    using alloc_from_Ok [of bm start b bm'] Ok r by (auto simp: used_def list_all_iff)
  have "card ({..<bm_total bm} - used bm - {b}) + 1 = card ({..<bm_total bm} - used bm)"
    using card_Suc_Diff1 [of "{..<bm_total bm} - used bm" b] b(2,3) by (simp add: used_def)
  moreover have "{..<bm_total bm'} - used bm' = {..<bm_total bm} - used bm - {b}"
    unfolding b(5) bm_total_set used_set [OF assms b(2)] by blast
  ultimately have "count_free bm' + 1 = count_free bm" by (simp only: count_free_card)
  then show ?thesis
    using b is_set_set_block [OF assms, of b] assms by (simp add: Ok r)
next
  case (Err x)
  then show ?thesis using alloc_from_Err [of bm start x] by (auto simp: used_def list_all_iff)
next
  case Panic
  then show ?thesis using alloc_scan_no_panic [of bm] by (simp add: alloc_from_def)
qed

text \<open>Of nine blocks the first and the last are used: the allocation from block 0 takes block 1.\<close>

theorem alloc_lowest_free_witness:
  "\<exists>bm'. alloc_from (set_block (set_block (bitmap_new 9) 0) 8) 0 = Ok (1, bm') \<and> is_set bm' 1 \<and> is_set bm' 8 \<and>
     \<not> is_set bm' 2"
proof -
  let ?bm = "set_block (set_block (bitmap_new 9) 0) 8"
  have wf: "bitmap_wf ?bm" by simp
  have run: "alloc_from ?bm 0 = Ok (1, set_block ?bm 1)" "is_set ?bm 8" "\<not> is_set ?bm 2" by code_simp+
  with alloc_lowest_free [OF wf, of 0] show ?thesis by simp
qed

end
