(* ===== verification/Inode.thy ===== *)
theory Inode
  imports FsTypes
begin

text \<open>
  \<^verbatim>\<open>src/fs/inode.rs\<close>: the inode and its 192-byte encoding. The encoder writes the fields at
  their offsets into a zeroed array, the decoder reads them back; bytes 52 to 55 and 168 to 191
  are reserved and stay zero.
\<close>

definition INODE_SIZE :: nat where "INODE_SIZE = 192"
definition INODES_PER_BLOCK :: nat where "INODES_PER_BLOCK = UB div INODE_SIZE"
definition S_IFDIR :: u32 where "S_IFDIR = 0x4000"
definition S_IFREG :: u32 where "S_IFREG = 0x8000"
definition S_IFMT :: u32 where "S_IFMT = 0xF000"

record inode =
  i_mode :: u32
  i_uid :: u32
  i_gid :: u32
  i_nlink :: u32
  i_size :: u64
  i_atime :: u64
  i_mtime :: u64
  i_ctime :: u64
  i_block_count :: u32
  i_direct :: "u64 list"
  i_single :: u64
  i_double :: u64

text \<open>\<open>Inode::default()\<close>, and the length of the array \<open>direct: [u64; 12]\<close>.\<close>

definition inode_default :: inode where
  "inode_default = \<lparr>i_mode = 0, i_uid = 0, i_gid = 0, i_nlink = 0, i_size = 0, i_atime = 0,
     i_mtime = 0, i_ctime = 0, i_block_count = 0, i_direct = replicate 12 0,
     i_single = 0, i_double = 0\<rparr>"

definition inode_wf :: "inode \<Rightarrow> bool" where
  "inode_wf i \<longleftrightarrow> length (i_direct i) = 12"

fun put_words :: "bytes \<Rightarrow> nat \<Rightarrow> u64 list \<Rightarrow> bytes" where
  "put_words bs start [] = bs"
| "put_words bs start (p # ps) = put_words (put bs start (to_le 8 p)) (start + 8) ps"

fun get_words :: "bytes \<Rightarrow> nat \<Rightarrow> nat \<Rightarrow> u64 list" where
  "get_words bs start 0 = []"
| "get_words bs start (Suc n) = from_le (slice bs start (start + 8)) # get_words bs (start + 8) n"

definition inode_encode :: "inode \<Rightarrow> bytes" where
  "inode_encode i = (
     let bs = replicate INODE_SIZE 0;
         bs = put bs 0 (to_le 4 (i_mode i));
         bs = put bs 4 (to_le 4 (i_uid i));
         bs = put bs 8 (to_le 4 (i_gid i));
         bs = put bs 12 (to_le 4 (i_nlink i));
         bs = put bs 16 (to_le 8 (i_size i));
         bs = put bs 24 (to_le 8 (i_atime i));
         bs = put bs 32 (to_le 8 (i_mtime i));
         bs = put bs 40 (to_le 8 (i_ctime i));
         bs = put bs 48 (to_le 4 (i_block_count i));
         bs = put_words bs 56 (i_direct i);
         bs = put bs 152 (to_le 8 (i_single i));
         bs = put bs 160 (to_le 8 (i_double i))
     in bs)"

definition inode_decode :: "bytes \<Rightarrow> (inode, fs_error) res" where
  "inode_decode bs = (
     if length bs < INODE_SIZE then Err (Manifest ''truncated inode'')
     else Ok \<lparr>
       i_mode = from_le (slice bs 0 4),
       i_uid = from_le (slice bs 4 8),
       i_gid = from_le (slice bs 8 12),
       i_nlink = from_le (slice bs 12 16),
       i_size = from_le (slice bs 16 24),
       i_atime = from_le (slice bs 24 32),
       i_mtime = from_le (slice bs 32 40),
       i_ctime = from_le (slice bs 40 48),
       i_block_count = from_le (slice bs 48 52),
       i_direct = get_words bs 56 12,
       i_single = from_le (slice bs 152 160),
       i_double = from_le (slice bs 160 168)\<rparr>)"

definition is_dir :: "inode \<Rightarrow> bool" where
  "is_dir i \<longleftrightarrow> i_mode i AND S_IFMT = S_IFDIR"

definition is_file :: "inode \<Rightarrow> bool" where
  "is_file i \<longleftrightarrow> i_mode i AND S_IFMT = S_IFREG"


subsection \<open>The encoding\<close>

lemma length_put_words [simp]:
  "start + 8 * length ps \<le> length bs \<Longrightarrow> length (put_words bs start ps) = length bs"
  by (induction bs start ps rule: put_words.induct) simp_all

lemma slice_put_words_outside [slice_simps]:
  "start + 8 * length ps \<le> length bs \<Longrightarrow> d \<le> start \<or> start + 8 * length ps \<le> c \<Longrightarrow>
     slice (put_words bs start ps) c d = slice bs c d"
  by (induction bs start ps rule: put_words.induct)
    (auto simp: slice_put_before slice_put_after)

lemma length_get_words [simp]: "length (get_words bs start n) = n"
  by (induction bs start n rule: get_words.induct) simp_all

lemma get_words_put_words [slice_simps]:
  "n = length ps \<Longrightarrow> start + 8 * n \<le> length bs \<Longrightarrow> get_words (put_words bs start ps) start n = ps"
proof (induction bs start ps arbitrary: n rule: put_words.induct)
  case (1 bs start)
  then show ?case by simp
next
  case (2 bs start p ps)
  then show ?case by (simp add: slice_put_words_outside slice_put_same)
qed

lemma get_words_put_after [slice_simps]:
  "start + 8 * n \<le> a \<Longrightarrow> a \<le> length bs \<Longrightarrow> get_words (put bs a ys) start n = get_words bs start n"
  by (induction bs start n rule: get_words.induct) (simp_all add: slice_put_before)

lemma get_words_zeros: "start + 8 * n \<le> m \<Longrightarrow> get_words (replicate m 0) start n = replicate n 0"
  by (induction "replicate m (0 :: u8)" start n rule: get_words.induct) (simp_all add: slice_replicate)

lemma length_inode_encode: "inode_wf i \<Longrightarrow> length (inode_encode i) = INODE_SIZE"
  by (simp add: inode_encode_def inode_wf_def INODE_SIZE_def)

lemma inode_decode_encode [roundtrip]:
  assumes "inode_wf i"
  shows "inode_decode (inode_encode i) = Ok i"
  using assms length_inode_encode [OF assms]
  unfolding inode_decode_def inode_encode_def Let_def
  by (simp add: inode_wf_def slice_simps INODE_SIZE_def del: get_words.simps)

lemma inode_decode_wf: "inode_decode bs = Ok i \<Longrightarrow> inode_wf i"
  by (auto simp: inode_decode_def inode_wf_def split: if_splits)

lemma inode_decode_no_panic: "inode_decode bs \<noteq> Panic"
  by (simp add: inode_decode_def)

lemma inode_wf_default [simp]: "inode_wf inode_default"
  by (simp add: inode_wf_def inode_default_def)

lemma i_mode_default [simp]: "i_mode inode_default = 0"
  by (simp add: inode_default_def)

text \<open>An inode of all-zero bytes is the default one: a zeroed table block holds free inodes only.\<close>

lemma inode_decode_zeros: "inode_decode (replicate INODE_SIZE 0) = Ok inode_default"
  by (simp add: inode_decode_def inode_default_def slice_replicate get_words_zeros INODE_SIZE_def
      del: get_words.simps)

text \<open>The type bits decide: a directory is not a regular file.\<close>

lemma not_dir_and_file: "\<not> (is_dir i \<and> is_file i)"
  by (auto simp: is_dir_def is_file_def S_IFDIR_def S_IFREG_def)

lemma mode_type_bits:
  "(S_IFDIR OR (m AND 0xFFF)) AND S_IFMT = S_IFDIR"
  "(S_IFREG OR (m AND 0xFFF)) AND S_IFMT = S_IFREG"
proof -
  have "(m AND 0xFFF) AND 0xF000 = (0 :: u32)"
    by (simp add: and.assoc)
  then show "(S_IFDIR OR (m AND 0xFFF)) AND S_IFMT = S_IFDIR"
    "(S_IFREG OR (m AND 0xFFF)) AND S_IFMT = S_IFREG"
    by (simp_all add: S_IFDIR_def S_IFREG_def S_IFMT_def bit.conj_disj_distrib2)
qed


subsection \<open>The inode table as an array of records\<close>

interpretation ino: fixed_record inode_encode "\<lambda>bs. case inode_decode bs of Ok i \<Rightarrow> i | _ \<Rightarrow> inode_default"
    inode_wf INODE_SIZE
  by unfold_locales (simp_all add: length_inode_encode inode_decode_encode, simp add: INODE_SIZE_def)

lemma inodes_fill_block: "INODES_PER_BLOCK * INODE_SIZE = UB"
  by (simp add: INODES_PER_BLOCK_def INODE_SIZE_def UB_val)

text \<open>C34: Every inode with its twelve direct pointers survives encoding and decoding, the encoding has
  192 bytes, and what any bytes decode to is such an inode or an error, never a panic.\<close>

theorem inode_roundtrip:
  "(inode_wf i \<longrightarrow> length (inode_encode i) = INODE_SIZE \<and> inode_decode (inode_encode i) = Ok i) \<and>
    inode_decode bs \<noteq> Panic \<and> (\<forall>j. inode_decode bs = Ok j \<longrightarrow> inode_wf j)"
  using length_inode_encode inode_decode_encode inode_decode_no_panic inode_decode_wf by blast

end
