(* ===== verification/DirChain.thy ===== *)
theory DirChain
  imports Dirent
begin

text \<open>
  The loops over the records of one directory block in \<^verbatim>\<open>src/fs/album.rs\<close> (the inner \<open>while\<close> of
  \<open>directory_entries\<close>, \<open>add_dir_entry\<close>, \<open>remove_dir_entry\<close> and \<open>update_dotdot\<close>). A block holds a
  chain of variable-length records that covers it exactly; the lemmas say what each loop makes
  of that chain, and \<open>listing\<close> is what the chain means: the live entries in order.
\<close>

subsection \<open>The loops over the records of a block\<close>

function scan_entries :: "bytes \<Rightarrow> nat \<Rightarrow> ((nat \<times> dir_entry) list, fs_error) res" where
  "scan_entries payload offset =
     (if offset < UB then
        and_then (dirent_decode payload offset) (\<lambda>entry.
        and_then (scan_entries payload (offset + unat (d_rec_len entry))) (\<lambda>entries.
        Ok ((offset, entry) # entries)))
      else Ok [])"
  by pat_completeness auto
termination
  by (relation "measure (\<lambda>(payload, offset). UB - offset)") (auto dest: dirent_decode_OkD(1))

function insert_entry ::
    "bytes \<Rightarrow> nat \<Rightarrow> u64 \<Rightarrow> bytes \<Rightarrow> u8 \<Rightarrow> nat \<Rightarrow> (bytes option, fs_error) res" where
  "insert_entry payload offset ino name file_type needed =
     (if offset < UB then
        and_then (dirent_decode payload offset) (\<lambda>entry.
          let rec_len = unat (d_rec_len entry)
          in if d_inode entry = 0 \<and> needed \<le> rec_len then
               and_then (dirent_new ino name file_type rec_len) (\<lambda>e.
               and_then (dirent_encode_into e (slice payload offset (offset + rec_len))) (\<lambda>t.
               Ok (Some (put payload offset t))))
             else
               let minimal = required_len (length (d_name entry))
               in if d_inode entry \<noteq> 0 \<and> needed \<le> rec_len - minimal then
                    let payload = put payload (offset + 8) (to_le 2 (of_nat minimal :: u16));
                        new_offset = offset + minimal;
                        new_len = rec_len - minimal
                    in and_then (dirent_new ino name file_type new_len) (\<lambda>e.
                       and_then (dirent_encode_into e
                         (slice payload new_offset (new_offset + new_len))) (\<lambda>t.
                       Ok (Some (put payload new_offset t))))
                  else insert_entry payload (offset + rec_len) ino name file_type needed)
      else Ok None)"
  by pat_completeness auto
termination
  by (relation "measure (\<lambda>(payload, offset, _). UB - offset)") (auto dest: dirent_decode_OkD(1))

function remove_entry ::
    "bytes \<Rightarrow> nat \<Rightarrow> nat option \<Rightarrow> bytes \<Rightarrow> (bytes option, fs_error) res" where
  "remove_entry payload offset previous name =
     (if offset < UB then
        and_then (dirent_decode payload offset) (\<lambda>entry.
          let rec_len = unat (d_rec_len entry)
          in if d_inode entry \<noteq> 0 \<and> d_name entry = name then
               (case previous of
                  Some previous_offset \<Rightarrow>
                    let old_len = unat (from_le (slice payload (previous_offset + 8)
                          (previous_offset + 10)) :: u16);
                        combined = old_len + rec_len
                    in Ok (Some (put payload (previous_offset + 8) (to_le 2 (of_nat combined :: u16))))
                | None \<Rightarrow> Ok (Some (put payload offset (replicate 8 0))))
             else
               remove_entry payload (offset + rec_len)
                 (if d_inode entry \<noteq> 0 then Some offset else previous) name)
      else Ok None)"
  by pat_completeness auto
termination
  by (relation "measure (\<lambda>(payload, offset, _). UB - offset)") (auto dest: dirent_decode_OkD(1))

function retarget_dotdot :: "bytes \<Rightarrow> nat \<Rightarrow> u64 \<Rightarrow> (bytes option, fs_error) res" where
  "retarget_dotdot payload offset new_parent =
     (if offset < UB then
        and_then (dirent_decode payload offset) (\<lambda>entry.
          if d_inode entry \<noteq> 0 \<and> d_name entry = [46, 46]
          then Ok (Some (put payload offset (to_le 8 new_parent)))
          else retarget_dotdot payload (offset + unat (d_rec_len entry)) new_parent)
      else Ok None)"
  by pat_completeness auto
termination
  by (relation "measure (\<lambda>(payload, offset, _). UB - offset)") (auto dest: dirent_decode_OkD(1))

declare scan_entries.simps [simp del] insert_entry.simps [simp del]
  remove_entry.simps [simp del] retarget_dotdot.simps [simp del]



subsection \<open>Chains of records\<close>

definition live :: "nat \<times> dir_entry \<Rightarrow> bool" where
  "live x \<longleftrightarrow> d_inode (snd x) \<noteq> 0"

definition listing :: "(nat \<times> dir_entry) list \<Rightarrow> (u64 \<times> bytes \<times> u8) list" where
  "listing es = map (\<lambda>(_, e). (d_inode e, d_name e, d_file_type e)) (filter live es)"

definition rec_len :: "dir_entry \<Rightarrow> nat" where
  "rec_len e = unat (d_rec_len e)"

fun chain_end :: "nat \<Rightarrow> (nat \<times> dir_entry) list \<Rightarrow> nat" where
  "chain_end off [] = off"
| "chain_end off (x # xs) = chain_end (off + rec_len (snd x)) xs"

lemma listing_simps [simp]:
  "listing [] = []"
  "listing ((off, e) # es) =
     (if d_inode e \<noteq> 0 then [(d_inode e, d_name e, d_file_type e)] else []) @ listing es"
  "listing (es @ fs) = listing es @ listing fs"
  by (simp_all add: listing_def live_def)

lemma scan_Nil_iff: "scan_entries p off = Ok [] \<longleftrightarrow> UB \<le> off"
  by (subst scan_entries.simps) auto

lemma scan_Cons_iff:
  "scan_entries p off = Ok ((off', e) # es) \<longleftrightarrow>
     off' = off \<and> off < UB \<and> dirent_decode p off = Ok e \<and>
     scan_entries p (off + rec_len e) = Ok es"
  by (subst scan_entries.simps) (auto simp: rec_len_def)

lemma chain_end_append: "chain_end off (xs @ ys) = chain_end (chain_end off xs) ys"
  by (induction off xs rule: chain_end.induct) simp_all

lemma chain_end_ge: "off \<le> chain_end off xs"
proof (induction off xs rule: chain_end.induct)
  case (2 off x xs)
  then show ?case by simp
qed simp

lemma scan_append:
  "scan_entries p off = Ok (pre @ rest) \<Longrightarrow> scan_entries p (chain_end off pre) = Ok rest"
proof (induction pre arbitrary: off)
  case (Cons x pre)
  then show ?case by (cases x) (simp add: scan_Cons_iff)
qed simp

lemma scan_bounded:
  assumes "scan_entries p off = Ok es" "length p = UB" "off \<le> UB"
  shows "chain_end off es = UB"
  using assms
proof (induction es arbitrary: off)
  case Nil
  then show ?case by (simp add: scan_Nil_iff)
next
  case (Cons x es)
  then obtain e where x: "x = (off, e)" "dirent_decode p off = Ok e"
    "scan_entries p (off + rec_len e) = Ok es" by (cases x) (simp add: scan_Cons_iff)
  from dirent_decode_OkD(3) [OF x(2)] Cons.prems(2) have "off + rec_len e \<le> UB"
    by (simp add: rec_len_def)
  with Cons x show ?case by simp
qed

lemma UB_small: "length (p :: bytes) = UB \<Longrightarrow> length p \<le> MAX64"
  by (simp add: UB_val MAX64_def)

text \<open>A chain depends only on the bytes from its start on, and its prefix only on those bytes.\<close>

lemma scan_local:
  assumes "scan_entries p off = Ok (pre @ rest)" "length p = UB" "length p' = UB"
    and "slice p' off (chain_end off pre) = slice p off (chain_end off pre)"
    and "scan_entries p' (chain_end off pre) = Ok rest'"
  shows "scan_entries p' off = Ok (pre @ rest')"
  using assms
proof (induction pre arbitrary: off)
  case Nil
  then show ?case by simp
next
  case (Cons x pre)
  from Cons.prems(1) obtain e where x: "x = (off, e)" "dirent_decode p off = Ok e" "off < UB"
    "scan_entries p (off + rec_len e) = Ok (pre @ rest)" by (cases x) (simp add: scan_Cons_iff)
  let ?m = "off + rec_len e" and ?z = "chain_end off (x # pre)"
  have z: "?z = chain_end ?m pre" using x by simp
  have "?m \<le> ?z" using chain_end_ge [of ?m pre] z by simp
  then have "slice p' off ?m = slice p off ?m" "slice p' ?m ?z = slice p ?m ?z"
    using slice_eq_sub [OF Cons.prems(4)] by simp_all
  then have "dirent_decode p' off = Ok e" "scan_entries p' ?m = Ok (pre @ rest')"
    using dirent_decode_local [OF x(2)] Cons.IH [OF x(4)] Cons.prems z UB_small
    by (simp_all add: rec_len_def)
  then show ?case using x by (simp add: scan_Cons_iff)
qed

lemma scan_suffix:
  assumes "scan_entries p off = Ok es" "length p = UB" "length p' = UB" "off \<le> UB"
    and "slice p' off UB = slice p off UB"
  shows "scan_entries p' off = Ok es"
  using scan_local [of p off es "[]" p' "[]"] scan_bounded [OF assms(1,2,4)] assms
  by (simp add: scan_Nil_iff)

lemma scan_no_panic: "scan_entries p off \<noteq> Panic"
proof (induction p off rule: scan_entries.induct)
  case (1 p off)
  then show ?case
    by (subst scan_entries.simps) (auto simp: and_then_Panic_iff dirent_decode_no_panic)
qed

lemma dirent_new_Ok:
  assumes "length name \<le> 255" "required_len (length name) \<le> r" "r \<le> 65535"
  shows "dirent_new i name ft r =
    Ok \<lparr>d_inode = i, d_rec_len = of_nat r, d_name = name, d_file_type = ft\<rparr>"
  using assms by (simp add: dirent_new_def)

lemma dirent_encode_into_fits:
  assumes "rec_len e \<le> length target" "required_len (length (d_name e)) \<le> rec_len e"
  obtains t where "dirent_encode_into e target = Ok t"
  using assms by (auto simp: dirent_encode_into_def Let_def rec_len_def not_less)

text \<open>Writing a fresh record of length \<open>r\<close> at \<open>off\<close>: it is decoded back and the bytes around stay.\<close>

lemma write_record:
  assumes len: "length p = UB" and fit: "off + r \<le> UB"
    and name: "length name \<le> 255" "utf8_valid name"
    and r: "required_len (length name) \<le> r" "4 dvd r"
  obtains t where
    "dirent_new i name ft r = Ok \<lparr>d_inode = i, d_rec_len = of_nat r, d_name = name, d_file_type = ft\<rparr>"
    "dirent_encode_into \<lparr>d_inode = i, d_rec_len = of_nat r, d_name = name, d_file_type = ft\<rparr>
       (slice p off (off + r)) = Ok t"
    "length t = r"
    "dirent_decode (put p off t) off =
       Ok \<lparr>d_inode = i, d_rec_len = of_nat r, d_name = name, d_file_type = ft\<rparr>"
proof -
  let ?e = "\<lparr>d_inode = i, d_rec_len = of_nat r, d_name = name, d_file_type = ft\<rparr>"
  have r16: "r < 65536" using fit by (simp add: UB_val)
  then have ur: "rec_len ?e = r" by (simp add: rec_len_def unat_of_nat16)
  have ls: "length (slice p off (off + r)) = r" using len fit by simp
  obtain t where t: "dirent_encode_into ?e (slice p off (off + r)) = Ok t"
    by (rule dirent_encode_into_fits [of ?e "slice p off (off + r)"]) (use r ur ls in auto)
  have lt: "length t = r" using dirent_encode_into_Ok(3) [OF t] ls by simp
  have "dirent_decode (put p off t) off = Ok ?e"
    using decode_after_encode [OF UB_small [OF len] _ t] lt len fit name r r16
    by (simp add: unat_of_nat16)
  with that t lt r name r16 show ?thesis by (simp add: dirent_new_Ok)
qed



subsection \<open>Insertion\<close>

text \<open>
  \<open>fits needed e\<close>: the condition under which the loop stops at a record. \<open>inserted\<close> is what it
  makes of that record: a free one is reused whole, a live one is cut to its minimal length.
\<close>

definition fits :: "nat \<Rightarrow> dir_entry \<Rightarrow> bool" where
  "fits needed e \<longleftrightarrow>
     (if d_inode e = 0 then needed \<le> rec_len e
      else needed \<le> rec_len e - required_len (length (d_name e)))"

definition fresh_entry :: "u64 \<Rightarrow> bytes \<Rightarrow> u8 \<Rightarrow> nat \<Rightarrow> dir_entry" where
  "fresh_entry i name ft r = \<lparr>d_inode = i, d_rec_len = of_nat r, d_name = name, d_file_type = ft\<rparr>"

definition inserted :: "u64 \<Rightarrow> bytes \<Rightarrow> u8 \<Rightarrow> nat \<Rightarrow> dir_entry \<Rightarrow> (nat \<times> dir_entry) list" where
  "inserted i name ft off e =
     (if d_inode e = 0 then [(off, fresh_entry i name ft (rec_len e))]
      else let m = required_len (length (d_name e))
           in [(off, e\<lparr>d_rec_len := of_nat m\<rparr>), (off + m, fresh_entry i name ft (rec_len e - m))])"

lemma insert_at_fit:
  assumes dec: "dirent_decode p off = Ok e" and off: "off < UB"
    and rest: "scan_entries p (off + rec_len e) = Ok post"
    and len: "length p = UB" and name: "length name \<le> 255" "utf8_valid name"
    and fit: "fits (required_len (length name)) e"
  obtains p' where
    "insert_entry p off i name ft (required_len (length name)) = Ok (Some p')"
    "length p' = UB" "slice p' 0 off = slice p 0 off"
    "scan_entries p' off = Ok (inserted i name ft off e @ post)"
proof (cases "d_inode e = 0")
  case True
  note D = dirent_decode_OkD [OF dec]
  let ?r = "rec_len e"
  have e: "off + ?r \<le> UB" "required_len (length name) \<le> ?r" "4 dvd ?r"
    using D len fit True by (simp_all add: rec_len_def fits_def)
  obtain t where t: "dirent_new i name ft ?r = Ok (fresh_entry i name ft ?r)"
    "dirent_encode_into (fresh_entry i name ft ?r) (slice p off (off + ?r)) = Ok t" "length t = ?r"
    "dirent_decode (put p off t) off = Ok (fresh_entry i name ft ?r)"
    by (rule write_record [OF len e(1) name e(2,3), of i ft]) (simp add: fresh_entry_def)
  have lp: "length (put p off t) = UB" using len e t(3) by simp
  have "scan_entries (put p off t) (off + ?r) = Ok post"
    by (rule scan_suffix [OF rest len lp e(1)]) (use len e t(3) in \<open>simp add: slice_put_after\<close>)
  moreover have "?r < 65536" using e(1) by (simp add: UB_val)
  then have "rec_len (fresh_entry i name ft ?r) = ?r"
    by (simp add: fresh_entry_def rec_len_def unat_of_nat16)
  ultimately have "scan_entries (put p off t) off = Ok (inserted i name ft off e @ post)"
    using True t(4) off by (simp add: inserted_def scan_Cons_iff)
  moreover have "insert_entry p off i name ft (required_len (length name)) = Ok (Some (put p off t))"
    using off dec True fit t(1,2) by (subst insert_entry.simps) (simp add: rec_len_def fits_def)
  ultimately show ?thesis
    using that [of "put p off t"] lp len off by (simp add: slice_put_before)
next
  case False
  note D = dirent_decode_OkD [OF dec]
  let ?m = "required_len (length (d_name e))"
  let ?r = "rec_len e - ?m" and ?p1 = "put p (off + 8) (to_le 2 (of_nat ?m :: u16))"
  have m: "12 + length (d_name e) \<le> ?m" "4 dvd ?m" "?m \<le> rec_len e"
    using dirent_decode_minimal [OF dec] by (simp_all add: required_len_bounds rec_len_def)
  have e: "off + rec_len e \<le> UB" "required_len (length name) \<le> ?r" "4 dvd ?r"
    using D len fit False m by (simp_all add: rec_len_def fits_def)
  have sm: "?m < 65536" "?r < 65536" using m(3) e(1) by (simp_all add: UB_val)
  have l1: "length ?p1 = UB" using m e(1) len by simp
  have d1: "dirent_decode ?p1 off = Ok (e\<lparr>d_rec_len := of_nat ?m\<rparr>)"
    using decode_after_rec_len [OF dec UB_small [OF len] m(1,2)] m e(1) len sm by simp
  have fit1: "off + ?m + ?r \<le> UB" using m(3) e(1) by simp
  obtain t where t: "dirent_new i name ft ?r = Ok (fresh_entry i name ft ?r)"
    "dirent_encode_into (fresh_entry i name ft ?r) (slice ?p1 (off + ?m) (off + ?m + ?r)) = Ok t"
    "length t = ?r" "dirent_decode (put ?p1 (off + ?m) t) (off + ?m) = Ok (fresh_entry i name ft ?r)"
    by (rule write_record [OF l1 fit1 name e(2,3), of i ft]) (simp add: fresh_entry_def)
  let ?p2 = "put ?p1 (off + ?m) t"
  have l2: "length ?p2 = UB" using l1 fit1 t(3) by simp
  have "slice ?p2 (off + rec_len e) UB = slice p (off + rec_len e) UB"
    using len l1 t(3) m e(1) by (simp add: slice_put_after)
  then have "scan_entries ?p2 (off + rec_len e) = Ok post"
    by (rule scan_suffix [OF rest len l2 e(1)])
  moreover have "slice ?p2 off (off + ?m) = slice ?p1 off (off + ?m)"
    using l1 fit1 by (simp add: slice_put_before)
  then have "dirent_decode ?p2 off = Ok (e\<lparr>d_rec_len := of_nat ?m\<rparr>)"
    using dirent_decode_local [OF d1] l1 l2 UB_small sm by (simp add: unat_of_nat16)
  moreover have "rec_len (fresh_entry i name ft ?r) = ?r" "rec_len (e\<lparr>d_rec_len := of_nat ?m\<rparr>) = ?m"
    using sm by (simp_all add: fresh_entry_def rec_len_def unat_of_nat16)
  ultimately have "scan_entries ?p2 off = Ok (inserted i name ft off e @ post)"
    using False t(4) off m(3) e(1) e(2) required_len_bounds(1) [of "length name"]
    by (simp add: inserted_def scan_Cons_iff Let_def)
  moreover have "insert_entry p off i name ft (required_len (length name)) = Ok (Some ?p2)"
    using off dec False fit t(1,2)
    by (subst insert_entry.simps) (simp add: rec_len_def fits_def Let_def)
  moreover have "slice ?p2 0 off = slice p 0 off"
    using l1 len off fit1 m e(1) by (simp add: slice_put_before)
  ultimately show ?thesis using that [of ?p2] l2 by simp
qed

lemma insert_skip:
  assumes "dirent_decode p off = Ok e" "off < UB" "\<not> fits needed e"
  shows "insert_entry p off i name ft needed = insert_entry p (off + rec_len e) i name ft needed"
  using assms by (subst insert_entry.simps) (simp add: fits_def rec_len_def split: if_splits)

lemma chain_entry_at:
  assumes "scan_entries p off = Ok (pre @ (o', e) # post)"
  shows "o' = chain_end off pre" "dirent_decode p o' = Ok e" "o' < UB"
    "scan_entries p (o' + rec_len e) = Ok post"
  using scan_append [OF assms] by (simp_all add: scan_Cons_iff)

lemma listing_inserted:
  "i \<noteq> 0 \<Longrightarrow> \<exists>xs. listing (inserted i name ft off e) = xs @ [(i, name, ft)] \<and> xs = listing [(off, e)]"
  by (simp add: inserted_def fresh_entry_def Let_def)

lemma insert_skip_prefix:
  assumes "scan_entries p off = Ok (pre @ rest)" and "\<forall>x \<in> set pre. \<not> fits needed (snd x)"
  shows "insert_entry p off i name ft needed = insert_entry p (chain_end off pre) i name ft needed"
  using assms
proof (induction pre arbitrary: off)
  case Nil
  then show ?case by simp
next
  case (Cons x pre)
  from Cons.prems(1) obtain e where x: "x = (off, e)" "dirent_decode p off = Ok e" "off < UB"
    "scan_entries p (off + rec_len e) = Ok (pre @ rest)"
    by (cases x) (simp add: scan_Cons_iff)
  with Cons.prems(2) Cons.IH [OF x(4)] insert_skip [OF x(2,3), of needed] show ?case by simp
qed

lemma insert_first_fit:
  assumes scan: "scan_entries p 0 = Ok (pre @ (off, e) # post)" and len: "length p = UB"
    and name: "length name \<le> 255" "utf8_valid name"
    and skip: "\<forall>x \<in> set pre. \<not> fits (required_len (length name)) (snd x)"
    and fit: "fits (required_len (length name)) e"
  obtains p' where
    "insert_entry p 0 i name ft (required_len (length name)) = Ok (Some p')"
    "length p' = UB" "scan_entries p' 0 = Ok (pre @ inserted i name ft off e @ post)"
proof -
  note E = chain_entry_at [OF scan]
  obtain p' where P: "insert_entry p off i name ft (required_len (length name)) = Ok (Some p')"
    "length p' = UB" "slice p' 0 off = slice p 0 off"
    "scan_entries p' off = Ok (inserted i name ft off e @ post)"
    by (rule insert_at_fit [OF E(2,3,4) len name fit])
  have "scan_entries p' 0 = Ok (pre @ inserted i name ft off e @ post)"
    using scan_local [OF scan len P(2)] P(3,4) E(1) by simp
  then show ?thesis
    using that P(1,2) insert_skip_prefix [OF scan skip, of i name ft] E(1) by simp
qed

lemma insert_no_fit:
  assumes "scan_entries p off = Ok es" "length p = UB" "off \<le> UB"
    and "\<forall>x \<in> set es. \<not> fits needed (snd x)"
  shows "insert_entry p off i name ft needed = Ok None"
  using insert_skip_prefix [of p off es "[]" needed i name ft] scan_bounded [OF assms(1-3)] assms
  by (simp add: insert_entry.simps)

text \<open>
  The whole loop on a well-formed block: it finds no room, or it takes the first record with
  room and adds the entry there, every other entry kept.
\<close>

lemma insert_entry_spec:
  assumes scan: "scan_entries p 0 = Ok es" and len: "length p = UB"
    and name: "length name \<le> 255" "utf8_valid name" and ino: "i \<noteq> 0"
  shows "(\<forall>x \<in> set es. \<not> fits (required_len (length name)) (snd x)) \<and>
      insert_entry p 0 i name ft (required_len (length name)) = Ok None
    \<or> (\<exists>p' es' xs ys. insert_entry p 0 i name ft (required_len (length name)) = Ok (Some p') \<and>
        length p' = UB \<and> scan_entries p' 0 = Ok es' \<and>
        listing es = xs @ ys \<and> listing es' = xs @ [(i, name, ft)] @ ys)"
proof (cases "\<exists>x \<in> set es. fits (required_len (length name)) (snd x)")
  case False
  then show ?thesis using insert_no_fit [OF scan len] by simp
next
  case True
  from split_list_first_prop [OF this] obtain pre x post where
    es: "es = pre @ x # post" and x: "fits (required_len (length name)) (snd x)"
    and pre: "\<forall>y \<in> set pre. \<not> fits (required_len (length name)) (snd y)" by blast
  obtain off e where oe: "x = (off, e)" by (cases x)
  obtain p' where "insert_entry p 0 i name ft (required_len (length name)) = Ok (Some p')"
    "length p' = UB" "scan_entries p' 0 = Ok (pre @ inserted i name ft off e @ post)"
    by (rule insert_first_fit [OF scan [unfolded es oe] len name pre])
      (use x oe in simp_all)
  moreover have "listing (pre @ inserted i name ft off e @ post) =
      (listing pre @ listing [(off, e)]) @ [(i, name, ft)] @ listing post"
    using ino listing_inserted [of i name ft off e] by auto
  ultimately show ?thesis
    unfolding es oe by (intro disjI2 exI [of _ p']
        exI [of _ "pre @ inserted i name ft off e @ post"]
        exI [of _ "listing pre @ listing [(off, e)]"] exI [of _ "listing post"]) simp
qed


subsection \<open>Removal\<close>

definition has_name :: "bytes \<Rightarrow> nat \<times> dir_entry \<Rightarrow> bool" where
  "has_name name x \<longleftrightarrow> live x \<and> d_name (snd x) = name"

text \<open>The offset the loop holds in \<open>previous\<close> after a prefix of the chain.\<close>

fun last_live :: "nat option \<Rightarrow> (nat \<times> dir_entry) list \<Rightarrow> nat option" where
  "last_live prev [] = prev"
| "last_live prev (x # xs) = last_live (if live x then Some (fst x) else prev) xs"

text \<open>Free records, if any, come before all live ones.\<close>

fun tidy :: "(nat \<times> dir_entry) list \<Rightarrow> bool" where
  "tidy [] = True"
| "tidy (x # xs) = (if live x then \<forall>y \<in> set xs. live y else tidy xs)"

lemma last_live_append: "last_live prev (xs @ ys) = last_live (last_live prev xs) ys"
  by (induction prev xs rule: last_live.induct) simp_all

lemma last_live_all_free: "\<forall>x \<in> set xs. \<not> live x \<Longrightarrow> last_live prev xs = prev"
  by (induction prev xs rule: last_live.induct) simp_all

lemma tidy_all_live: "\<forall>y \<in> set xs. live y \<Longrightarrow> tidy xs"
  by (cases xs) auto

lemma tidy_append_cases:
  assumes "tidy (pre @ x # post)" "live x"
  shows "(\<forall>y \<in> set pre. \<not> live y) \<or> (\<exists>pre' z. pre = pre' @ [z] \<and> live z)"
  using assms
proof (induction pre)
  case Nil
  then show ?case by simp
next
  case (Cons y pre)
  show ?case
  proof (cases "live y")
    case True
    with Cons.prems have "\<forall>z \<in> set pre. live z" by simp
    with True show ?thesis by (cases pre rule: rev_cases) auto
  next
    case False
    with Cons show ?thesis by auto
  qed
qed

lemma tidy_prefix_live:
  assumes "tidy (xs @ x # ys)" "live x"
  shows "\<forall>y \<in> set ys. live y"
  using assms(1)
proof (induction xs)
  case Nil
  with assms(2) show ?case by simp
next
  case (Cons z xs)
  then show ?case by (cases "live z") simp_all
qed

lemma tidy_drop_live:
  assumes "tidy (xs @ x # y # ys)" "live x" "live x'"
  shows "tidy (xs @ x' # ys)"
  using assms(1)
proof (induction xs)
  case Nil
  with assms(2,3) show ?case by simp
next
  case (Cons z xs)
  with assms(3) show ?case by (cases "live z") simp_all
qed

lemma remove_entry_result:
  assumes "scan_entries p off = Ok (pre @ (o', e) # post)"
    and "\<forall>x \<in> set pre. \<not> has_name name x" and "has_name name (o', e)"
  shows "remove_entry p off prev name = Ok (Some (case last_live prev pre of
      Some po \<Rightarrow> put p (po + 8) (to_le 2 (of_nat
        (unat (from_le (slice p (po + 8) (po + 10)) :: u16) + rec_len e) :: u16))
    | None \<Rightarrow> put p o' (replicate 8 0)))"
  using assms
proof (induction pre arbitrary: off prev)
  case Nil
  then show ?case
    by (subst remove_entry.simps)
      (auto simp: scan_Cons_iff has_name_def live_def rec_len_def Let_def split: option.splits)
next
  case (Cons x pre)
  then obtain e' where x: "x = (off, e')" "dirent_decode p off = Ok e'" "off < UB"
    "scan_entries p (off + rec_len e') = Ok (pre @ (o', e) # post)"
    by (cases x) (simp add: scan_Cons_iff)
  from Cons.prems(2) x have n: "\<not> (d_inode e' \<noteq> 0 \<and> d_name e' = name)"
    by (simp add: has_name_def live_def)
  from Cons.IH [OF x(4) _ Cons.prems(3)] Cons.prems(2) x n show ?case
    by (subst remove_entry.simps) (auto simp: rec_len_def live_def)
qed

lemma remove_entry_None:
  assumes "scan_entries p off = Ok es" and "\<forall>x \<in> set es. \<not> has_name name x"
  shows "remove_entry p off prev name = Ok None"
  using assms
proof (induction es arbitrary: off prev)
  case Nil
  then show ?case by (auto simp: scan_Nil_iff remove_entry.simps)
next
  case (Cons x es)
  then obtain e' where x: "x = (off, e')" "dirent_decode p off = Ok e'" "off < UB"
    "scan_entries p (off + rec_len e') = Ok es"
    by (cases x) (simp add: scan_Cons_iff)
  from Cons.prems(2) have "\<forall>x \<in> set es. \<not> has_name name x" "\<not> has_name name (off, e')"
    using x(1) by simp_all
  with Cons.IH [OF x(4)] x(2,3) show ?case
    by (subst remove_entry.simps) (auto simp: rec_len_def live_def has_name_def Let_def)
qed

text \<open>
  The merge of a record with the last live one before it, \<open>po\<close>: correct when nothing lies
  between them. With free records in between, the new length is short by their lengths.
\<close>

lemma merge_result:
  assumes scan: "scan_entries p off = Ok (pre @ (po, pe) # mid @ (o', e) # post)"
    and len: "length p = UB" "off \<le> UB"
  defines "r \<equiv> rec_len pe + rec_len e"
  defines "p' \<equiv> put p (po + 8) (to_le 2 (of_nat
      (unat (from_le (slice p (po + 8) (po + 10)) :: u16) + rec_len e) :: u16))"
  shows "length p' = UB" "slice p' 0 po = slice p 0 po" "r < 65536" "po + r \<le> UB"
    "dirent_decode p' po = Ok (pe\<lparr>d_rec_len := of_nat r\<rparr>)"
    "slice p' (po + rec_len pe) UB = slice p (po + rec_len pe) UB"
proof -
  note P = chain_entry_at [OF scan]
  have scan2: "scan_entries p (po + rec_len pe) = Ok (mid @ (o', e) # post)" by (rule P(4))
  note E = chain_entry_at [OF scan2]
  have "po + rec_len pe \<le> o'" using chain_end_ge [of "po + rec_len pe" mid] E(1) by simp
  moreover have "o' + rec_len e \<le> UB"
    using dirent_decode_OkD(3) [OF E(2)] len by (simp add: rec_len_def)
  ultimately show r: "po + r \<le> UB" by (simp add: r_def)
  then show r16: "r < 65536" by (simp add: UB_val)
  note D = dirent_decode_OkD [OF P(2)]
  have "from_le (slice p (po + 8) (po + 10)) = d_rec_len pe"
    using P(2) UB_small [OF len(1)] by (simp add: dirent_decode_Ok_iff decodes_def)
  then have p': "p' = put p (po + 8) (to_le 2 (of_nat r :: u16))"
    by (simp add: p'_def r_def rec_len_def)
  have fit: "po + 12 \<le> UB" using D(4,3) len by simp
  then show "length p' = UB" "slice p' 0 po = slice p 0 po"
    using len by (simp_all add: p' slice_put_before)
  have "4 dvd rec_len e" using dirent_decode_OkD(2) [OF E(2)] by (simp add: rec_len_def)
  then have "4 dvd r" using D(2) by (simp add: r_def rec_len_def)
  then show "dirent_decode p' po = Ok (pe\<lparr>d_rec_len := of_nat r\<rparr>)"
    unfolding p' using decode_after_rec_len [OF P(2) UB_small [OF len(1)], of r] D(4) r r16 len
    by (simp add: r_def rec_len_def)
  show "slice p' (po + rec_len pe) UB = slice p (po + rec_len pe) UB"
    using D(4) fit len by (simp add: p' slice_put_after rec_len_def)
qed

text \<open>The two correct cases: no live record before the entry, or a live one right before it.\<close>

lemma remove_entry_unled:
  assumes scan: "scan_entries p 0 = Ok (pre @ (o', e) # post)" and len: "length p = UB"
    and free: "\<forall>x \<in> set pre. \<not> live x" and here: "has_name name (o', e)"
  obtains p' where "remove_entry p 0 None name = Ok (Some p')" "length p' = UB"
    "scan_entries p' 0 = Ok (pre @ (o', e\<lparr>d_inode := 0\<rparr>) # post)"
proof -
  let ?p = "put p o' (replicate 8 0)"
  note E = chain_entry_at [OF scan]
  have D: "12 \<le> rec_len e" "o' + rec_len e \<le> UB"
    using dirent_decode_OkD(4,3) [OF E(2)] len by (simp_all add: rec_len_def)
  have lp: "length ?p = UB" using D len by simp
  have dec: "dirent_decode ?p o' = Ok (e\<lparr>d_inode := 0\<rparr>)"
    by (rule decode_after_clear(1) [OF E(2) UB_small [OF len]])
  have "scan_entries ?p (o' + rec_len e) = Ok post"
    by (rule scan_suffix [OF E(4) len lp D(2)]) (use D len in \<open>simp add: slice_put_after\<close>)
  then have "scan_entries ?p o' = Ok ((o', e\<lparr>d_inode := 0\<rparr>) # post)"
    using dec E(3) by (simp add: scan_Cons_iff rec_len_def)
  then have "scan_entries ?p 0 = Ok (pre @ (o', e\<lparr>d_inode := 0\<rparr>) # post)"
    using scan_local [OF scan len lp] D len E(1) by (simp add: slice_put_before)
  moreover have "\<forall>x \<in> set pre. \<not> has_name name x" using free by (simp add: has_name_def)
  then have "remove_entry p 0 None name = Ok (Some ?p)"
    using remove_entry_result [OF scan _ here, of None] last_live_all_free [OF free, of None] by simp
  ultimately show ?thesis using that lp by blast
qed

lemma remove_entry_merge:
  assumes scan: "scan_entries p 0 = Ok (pre @ (po, pe) # (o', e) # post)" and len: "length p = UB"
    and first: "\<forall>x \<in> set pre. \<not> has_name name x" "\<not> has_name name (po, pe)"
    and here: "has_name name (o', e)" and lz: "live (po, pe)"
  obtains p' where "remove_entry p 0 None name = Ok (Some p')" "length p' = UB"
    "scan_entries p' 0 = Ok (pre @ (po, pe\<lparr>d_rec_len := of_nat (rec_len pe + rec_len e)\<rparr>) # post)"
proof -
  have scan1: "scan_entries p 0 = Ok ((pre @ [(po, pe)]) @ (o', e) # post)"
    and scan2: "scan_entries p 0 = Ok (pre @ (po, pe) # [] @ (o', e) # post)"
    using scan by simp_all
  note E = chain_entry_at [OF scan1]
  note P = chain_entry_at [OF scan]
  note M = merge_result [OF scan2 len le0]
  let ?p = "put p (po + 8) (to_le 2 (of_nat
    (unat (from_le (slice p (po + 8) (po + 10)) :: u16) + rec_len e) :: u16))"
  let ?e = "pe\<lparr>d_rec_len := of_nat (rec_len pe + rec_len e)\<rparr>"
  have o': "o' = po + rec_len pe" using E(1) P(1) by (simp add: chain_end_append)
  have re: "rec_len ?e = rec_len pe + rec_len e"
    using unat_of_nat16 [OF M(3)] by (simp add: rec_len_def)
  have "slice ?p (o' + rec_len e) UB = slice p (o' + rec_len e) UB"
    using slice_eq_sub [OF M(6), of "o' + rec_len e" UB] o' by simp
  then have "scan_entries ?p (o' + rec_len e) = Ok post"
    using scan_suffix [OF E(4) len M(1)] M(4) o' by simp
  then have "scan_entries ?p po = Ok ((po, ?e) # post)"
    using M(5) P(3) re o' by (simp add: scan_Cons_iff add.assoc)
  then have "scan_entries ?p 0 = Ok (pre @ (po, ?e) # post)"
    using scan_local [OF scan2 len M(1)] M(2) P(1) by simp
  moreover have "remove_entry p 0 None name = Ok (Some ?p)"
    using remove_entry_result [OF scan1 _ here, of None] first lz by (simp add: last_live_append)
  ultimately show ?thesis using that M(1) by blast
qed

text \<open>
  Removal from a tidy chain: the entry disappears, every other one stays in place, the chain
  still covers the block and stays tidy; if all records were live, they still are.
\<close>

lemma remove_entry_tidy:
  assumes scan: "scan_entries p 0 = Ok (pre @ (o', e) # post)" and len: "length p = UB"
    and tidy: "tidy (pre @ (o', e) # post)"
    and first: "\<forall>x \<in> set pre. \<not> has_name name x" and here: "has_name name (o', e)"
  obtains p' es' where "remove_entry p 0 None name = Ok (Some p')" "length p' = UB"
    "scan_entries p' 0 = Ok es'" "listing es' = listing pre @ listing post" "tidy es'"
    "pre \<noteq> [] \<Longrightarrow> \<forall>x \<in> set (pre @ post). live x \<Longrightarrow> \<forall>x \<in> set es'. live x"
proof -
  have liv: "live (o', e)" using here by (simp add: has_name_def)
  from tidy_append_cases [OF tidy liv] show ?thesis
  proof
    assume free: "\<forall>y \<in> set pre. \<not> live y"
    have t: "tidy (pre @ (o', e\<lparr>d_inode := 0\<rparr>) # post)"
      using free tidy_prefix_live [OF tidy liv]
      by (induction pre) (auto simp: live_def intro!: tidy_all_live)
    obtain p' where p': "remove_entry p 0 None name = Ok (Some p')" "length p' = UB"
      "scan_entries p' 0 = Ok (pre @ (o', e\<lparr>d_inode := 0\<rparr>) # post)"
      by (rule remove_entry_unled [OF scan len free here])
    show ?thesis
    proof (rule that [OF p' _ t])
      show "listing (pre @ (o', e\<lparr>d_inode := 0\<rparr>) # post) = listing pre @ listing post" by simp
      assume "pre \<noteq> []" "\<forall>x \<in> set (pre @ post). live x"
      with free have False by (cases pre) simp_all
      then show "\<forall>x \<in> set (pre @ (o', e\<lparr>d_inode := 0\<rparr>) # post). live x" ..
    qed
  next
    assume "\<exists>pre' z. pre = pre' @ [z] \<and> live z"
    then obtain pre' po pe where pre: "pre = pre' @ [(po, pe)]" and lz: "live (po, pe)" by auto
    let ?e = "pe\<lparr>d_rec_len := of_nat (rec_len pe + rec_len e)\<rparr>"
    have t: "tidy (pre' @ (po, ?e) # post)"
      using tidy_drop_live [of pre' "(po, pe)" "(o', e)" post "(po, ?e)"] tidy pre lz
      by (simp add: live_def)
    have scan': "scan_entries p 0 = Ok (pre' @ (po, pe) # (o', e) # post)" using scan pre by simp
    obtain p' where "remove_entry p 0 None name = Ok (Some p')" "length p' = UB"
      "scan_entries p' 0 = Ok (pre' @ (po, ?e) # post)"
      by (rule remove_entry_merge [OF scan' len _ _ here lz]) (use first pre in simp_all)
    then show ?thesis
      by (rule that) (use t pre lz in \<open>auto simp: live_def\<close>)
  qed
qed

text \<open>
  Removal when a free record lies between the entry and the last live one before it: the
  merged length falls short. If the two skipped records have equal lengths, the chain resumes
  at the entry itself, which the call reports as removed.
\<close>

lemma remove_entry_over_free:
  assumes scan: "scan_entries p 0 = Ok (pre @ (po, pe) # (fo, fe) # (o', e) # post)"
    and len: "length p = UB"
    and first: "\<forall>x \<in> set pre. \<not> has_name name x" "\<not> has_name name (po, pe)"
    and here: "has_name name (o', e)" and kinds: "live (po, pe)" "\<not> live (fo, fe)"
    and same: "rec_len fe = rec_len e"
  shows "\<exists>p'. remove_entry p 0 None name = Ok (Some p') \<and> length p' = UB \<and>
    scan_entries p' 0 =
      Ok (pre @ (po, pe\<lparr>d_rec_len := of_nat (rec_len pe + rec_len e)\<rparr>) # (o', e) # post)"
proof -
  have nf: "\<not> has_name name (fo, fe)" using kinds(2) by (simp add: has_name_def)
  have scan1: "scan_entries p 0 = Ok ((pre @ [(po, pe), (fo, fe)]) @ (o', e) # post)"
    using scan by simp
  have R: "remove_entry p 0 None name = Ok (Some (put p (po + 8) (to_le 2 (of_nat
      (unat (from_le (slice p (po + 8) (po + 10)) :: u16) + rec_len e) :: u16))))"
    using remove_entry_result [OF scan1 _ here, of None] first nf kinds
    by (simp add: last_live_append)
  let ?p = "put p (po + 8) (to_le 2 (of_nat
      (unat (from_le (slice p (po + 8) (po + 10)) :: u16) + rec_len e) :: u16))"
  let ?e = "pe\<lparr>d_rec_len := of_nat (rec_len pe + rec_len e)\<rparr>"
  have scan2: "scan_entries p 0 = Ok (pre @ (po, pe) # [(fo, fe)] @ (o', e) # post)"
    using scan by simp
  note M = merge_result [OF scan2 len le0]
  note P = chain_entry_at [OF scan]
  note E = chain_entry_at [OF scan1]
  have o': "o' = po + (rec_len pe + rec_len fe)"
    using E(1) P(1) by (simp add: chain_end_append add.assoc)
  have re: "rec_len ?e = rec_len pe + rec_len e"
    using unat_of_nat16 [OF M(3)] by (simp add: rec_len_def)
  have "scan_entries p o' = Ok ((o', e) # post)" using E by (simp add: scan_Cons_iff)
  then have "scan_entries ?p o' = Ok ((o', e) # post)"
    by (rule scan_suffix [OF _ len M(1)])
      (use E(3) slice_eq_sub [OF M(6), of o' UB] o' in simp_all)
  then have "scan_entries ?p po = Ok ((po, ?e) # (o', e) # post)"
    using M(5) P(3) re o' same by (simp add: scan_Cons_iff)
  then have "scan_entries ?p 0 = Ok (pre @ (po, ?e) # (o', e) # post)"
    using scan_local [OF scan2 len M(1)] M(2) P(1) by simp
  then show ?thesis using R M(1) by blast
qed


subsection \<open>The first block of a directory\<close>

lemma initial_directory_block_chain:
  obtains b where "initial_directory_block ino parent = Ok b" "length b = UB"
    "scan_entries b 0 = Ok [(0, fresh_entry ino [46] FILE_TYPE_DIR 16),
       (16, fresh_entry parent [46, 46] FILE_TYPE_DIR (UB - 16))]"
proof -
  have r1: "required_len 1 = 16" "required_len (Suc 0) = 16" by (simp_all add: required_len_def div_ceil_def)
  have r2: "required_len 2 = 16" "required_len (Suc (Suc 0)) = 16" by (simp_all add: required_len_def div_ceil_def)
  have u1: "utf8_valid [46]" "utf8_valid [46, 46]" by (simp_all add: utf8_valid_ascii)
  let ?z = "replicate UB (0 :: u8)"
  let ?d = "fresh_entry ino [46] FILE_TYPE_DIR 16"
  let ?dd = "fresh_entry parent [46, 46] FILE_TYPE_DIR (UB - 16)"
  obtain t where t: "dirent_new ino [46] FILE_TYPE_DIR 16 = Ok ?d"
    "dirent_encode_into ?d (slice ?z 0 (0 + 16)) = Ok t" "length t = 16"
    "dirent_decode (put ?z 0 t) 0 = Ok ?d"
    by (rule write_record [of ?z 0 16 "[46]" ino FILE_TYPE_DIR])
      (use u1 in \<open>simp_all add: r1 UB_val fresh_entry_def\<close>)
  let ?b = "put ?z 0 t"
  have lb: "length ?b = UB" using t(3) by (simp add: UB_val)
  obtain t' where t': "dirent_new parent [46, 46] FILE_TYPE_DIR (UB - 16) = Ok ?dd"
    "dirent_encode_into ?dd (slice ?b 16 (16 + (UB - 16))) = Ok t'" "length t' = UB - 16"
    "dirent_decode (put ?b 16 t') 16 = Ok ?dd"
    by (rule write_record [OF lb, of 16 "UB - 16" "[46, 46]" parent FILE_TYPE_DIR])
      (use u1 in \<open>simp_all add: r2 UB_val fresh_entry_def\<close>)
  let ?b2 = "put ?b 16 t'"
  have "16 + (UB - 16) = UB" by (simp add: UB_val)
  with t' have enc2: "dirent_encode_into ?dd (slice ?b 16 UB) = Ok t'" by simp
  have l2: "length ?b2 = UB" using lb t'(3) by (simp add: UB_val)
  have I: "initial_directory_block ino parent = Ok ?b2"
    using t(1,2) t'(1) enc2 by (simp add: initial_directory_block_def r1)
  have rl: "rec_len ?d = 16" "rec_len ?dd = UB - 16"
    by (simp_all add: fresh_entry_def rec_len_def unat_of_nat16 UB_val)
  have "slice ?b2 0 16 = slice ?b 0 16" using lb by (simp add: slice_put_before UB_val)
  then have "dirent_decode ?b2 0 = Ok ?d"
    using dirent_decode_local [OF t(4)] lb l2 UB_small [OF lb] rl by (simp add: rec_len_def)
  then have "scan_entries ?b2 0 = Ok [(0, ?d), (16, ?dd)]"
    using t'(4) rl by (simp add: scan_Cons_iff scan_Nil_iff UB_val)
  with that I l2 show ?thesis by blast
qed

end
