(* ===== verification/DirReach.thy ===== *)
theory DirReach
  imports DirChain
begin

text \<open>
  A directory block as a state machine: the states it reaches from its creation under the
  insertions, removals and the rewrite of \<open>..\<close> of \<^verbatim>\<open>src/fs/album.rs\<close>. In the first block of a
  directory, where \<open>.\<close> leads, removal is exact; in a later block it can leave the removed entry
  in place.
\<close>

subsection \<open>Blocks the file system can reach\<close>

text \<open>
  Line 536 of \<^verbatim>\<open>album.rs\<close>: the block appended to a directory when no record has room.
\<close>

definition fresh_directory_block :: "u64 \<Rightarrow> bytes \<Rightarrow> u8 \<Rightarrow> (bytes, fs_error) res" where
  "fresh_directory_block ino name file_type =
     and_then (dirent_new ino name file_type UB) (\<lambda>e. dirent_encode_into e (replicate UB 0))"

lemma fresh_directory_block_chain:
  assumes "length name \<le> 255" "utf8_valid name"
  obtains b where "fresh_directory_block ino name ft = Ok b" "length b = UB"
    "scan_entries b 0 = Ok [(0, fresh_entry ino name ft UB)]"
proof -
  let ?z = "replicate UB (0 :: u8)" and ?e = "fresh_entry ino name ft UB"
  have r: "required_len (length name) \<le> UB" "4 dvd UB" "UB \<le> 65535"
    using required_len_bounds(2) [of "length name"] assms(1) by (simp_all add: UB_val)
  obtain t where t: "dirent_new ino name ft UB = Ok ?e"
    "dirent_encode_into ?e (slice ?z 0 (0 + UB)) = Ok t" "length t = UB"
    "dirent_decode (put ?z 0 t) 0 = Ok ?e"
    by (rule write_record [of ?z 0 UB name ino ft]) (use assms r in \<open>simp_all add: fresh_entry_def\<close>)
  have z: "slice ?z 0 (0 + UB) = ?z" by (simp add: slice_def)
  have "put ?z 0 t = t" using t(3) by (simp add: put_0_whole)
  moreover have "rec_len ?e = UB" using r by (simp add: rec_len_def fresh_entry_def unat_of_nat16)
  ultimately have "scan_entries t 0 = Ok [(0, ?e)]"
    using t(4) by (simp add: scan_Cons_iff scan_Nil_iff)
  with that t z show ?thesis by (simp add: fresh_directory_block_def)
qed

text \<open>
  The writes a directory block sees after its creation. The names \<open>.\<close> and \<open>..\<close> are never removed:
  \<open>unlink\<close> refuses a directory and the kernel refuses \<open>rmdir\<close> and \<open>rename\<close> of them.
\<close>

definition dots :: "bytes set" where "dots = {[46], [46, 46]}"

inductive block_reach :: "bytes \<Rightarrow> bytes \<Rightarrow> bool" where
  start: "block_reach b b"
| add: "block_reach b p \<Longrightarrow> ino \<noteq> 0 \<Longrightarrow> length name \<le> 255 \<Longrightarrow> utf8_valid name \<Longrightarrow>
    insert_entry p 0 ino name ft (required_len (length name)) = Ok (Some p') \<Longrightarrow> block_reach b p'"
| remove: "block_reach b p \<Longrightarrow> name \<notin> dots \<Longrightarrow>
    remove_entry p 0 None name = Ok (Some p') \<Longrightarrow> block_reach b p'"
| dotdot: "block_reach b p \<Longrightarrow> parent \<noteq> 0 \<Longrightarrow>
    retarget_dotdot p 0 parent = Ok (Some p') \<Longrightarrow> block_reach b p'"

text \<open>The invariant of a first block: the chain is whole, all its records are live, \<open>.\<close> leads,
  \<open>..\<close> is there.\<close>

definition first_block_ok :: "u64 \<Rightarrow> bytes \<Rightarrow> bool" where
  "first_block_ok ino p \<longleftrightarrow> length p = UB \<and>
     (\<exists>es rest. scan_entries p 0 = Ok es \<and> (\<forall>x \<in> set es. live x) \<and>
        listing es = (ino, [46], FILE_TYPE_DIR) # rest \<and> list_ex (\<lambda>(_, n, _). n = [46, 46]) rest)"

lemma inserted_live: "d_inode e \<noteq> 0 \<Longrightarrow> i \<noteq> 0 \<Longrightarrow> \<forall>x \<in> set (inserted i name ft off e). live x"
  by (auto simp: inserted_def live_def fresh_entry_def Let_def)

text \<open>Where all records are live, they are after an insertion.\<close>

lemma insert_live:
  assumes es: "scan_entries p 0 = Ok es" "length p = UB" "\<forall>x \<in> set es. live x"
    and n: "i \<noteq> 0" "length name \<le> 255" "utf8_valid name"
    and ins: "insert_entry p 0 i name ft (required_len (length name)) = Ok (Some q)"
  obtains pre off e post where "es = pre @ (off, e) # post" "d_inode e \<noteq> 0"
    "scan_entries q 0 = Ok (pre @ inserted i name ft off e @ post)" "length q = UB"
    "\<forall>x \<in> set (pre @ inserted i name ft off e @ post). live x"
proof -
  have "\<exists>x \<in> set es. fits (required_len (length name)) (snd x)"
    using insert_no_fit [OF es(1,2)] ins by fastforce
  from split_list_first_prop [OF this] obtain pre x post where
    sp: "es = pre @ x # post" and x: "fits (required_len (length name)) (snd x)"
    and pre: "\<forall>y \<in> set pre. \<not> fits (required_len (length name)) (snd y)" by blast
  obtain off e where oe: "x = (off, e)" by (cases x)
  have e: "d_inode e \<noteq> 0" using es(3) sp oe by (simp add: live_def)
  obtain q' where "insert_entry p 0 i name ft (required_len (length name)) = Ok (Some q')"
    "length q' = UB" "scan_entries q' 0 = Ok (pre @ inserted i name ft off e @ post)"
    by (rule insert_first_fit [OF es(1) [unfolded sp oe] es(2) n(2,3) pre]) (use x oe in simp_all)
  moreover have "\<forall>x \<in> set (pre @ inserted i name ft off e @ post). live x"
    using inserted_live [OF e n(1), of name ft off] es(3) sp by auto
  ultimately show thesis using that [OF sp [unfolded oe] e] ins by simp
qed

lemma insert_first_block_ok:
  assumes "first_block_ok ino p" "i \<noteq> 0" "length name \<le> 255" "utf8_valid name"
    and ins: "insert_entry p 0 i name ft (required_len (length name)) = Ok (Some p')"
  shows "first_block_ok ino p'"
proof -
  from assms(1) obtain es rest where es: "length p = UB" "scan_entries p 0 = Ok es"
    "\<forall>x \<in> set es. live x" "listing es = (ino, [46], FILE_TYPE_DIR) # rest"
    "list_ex (\<lambda>(_, n, _). n = [46, 46]) rest"
    by (auto simp: first_block_ok_def)
  obtain pre off e post where q: "es = pre @ (off, e) # post" "d_inode e \<noteq> 0"
    "scan_entries p' 0 = Ok (pre @ inserted i name ft off e @ post)" "length p' = UB"
    "\<forall>x \<in> set (pre @ inserted i name ft off e @ post). live x"
    by (rule insert_live [OF es(2,1,3) assms(2-4) ins])
  moreover obtain xs where "listing (inserted i name ft off e) = (d_inode e, d_name e, d_file_type e) # xs"
    using listing_inserted [OF assms(2), of name ft off e] q(2) by simp
  ultimately show ?thesis
    using es(4,5) by (cases "listing pre") (auto simp: first_block_ok_def)
qed

lemma remove_first_block_ok:
  assumes "first_block_ok ino p" "name \<notin> dots"
    and rm: "remove_entry p 0 None name = Ok (Some p')"
  shows "first_block_ok ino p'"
proof -
  from assms(1) obtain es rest where es: "length p = UB" "scan_entries p 0 = Ok es"
    "\<forall>x \<in> set es. live x" "listing es = (ino, [46], FILE_TYPE_DIR) # rest"
    "list_ex (\<lambda>(_, n, _). n = [46, 46]) rest"
    by (auto simp: first_block_ok_def)
  have "\<exists>x \<in> set es. has_name name x"
    using remove_entry_None [OF es(2), of name None] rm by fastforce
  from split_list_first_prop [OF this] obtain pre x post where
    sp: "es = pre @ x # post" and x: "has_name name x"
    and pre: "\<forall>y \<in> set pre. \<not> has_name name y" by blast
  obtain off e where oe: "x = (off, e)" by (cases x)
  have ne: "pre \<noteq> []"
    using es(4) x assms(2) by (auto simp: sp oe has_name_def live_def dots_def)
  have "tidy es" by (rule tidy_all_live [OF es(3)])
  then have t: "tidy (pre @ (off, e) # post)" using sp oe by simp
  obtain q es' where q: "remove_entry p 0 None name = Ok (Some q)" "length q = UB"
    "scan_entries q 0 = Ok es'" "listing es' = listing pre @ listing post"
    "\<forall>x \<in> set (pre @ post). live x \<Longrightarrow> \<forall>x \<in> set es'. live x"
    by (rule remove_entry_tidy [OF es(2) [unfolded sp oe] es(1) t pre x [unfolded oe]])
      (use ne in blast)
  have "\<forall>x \<in> set (pre @ post). live x" using es(3) sp by auto
  note q(1-4) q(5) [OF this]
  moreover have "listing pre \<noteq> []" using ne es(3) by (cases pre) (auto simp: sp live_def)
  ultimately show ?thesis
    using rm es(4,5) x assms(2) by (cases "listing pre") (auto simp: first_block_ok_def sp oe has_name_def live_def dots_def)
qed


lemma retarget_dotdot_result:
  assumes "scan_entries p off = Ok (pre @ (o', e) # post)"
    and "\<forall>x \<in> set pre. \<not> has_name [46, 46] x" and "has_name [46, 46] (o', e)"
  shows "retarget_dotdot p off v = Ok (Some (put p o' (to_le 8 v)))"
  using assms
proof (induction pre arbitrary: off)
  case Nil
  then show ?case
    by (subst retarget_dotdot.simps) (auto simp: scan_Cons_iff has_name_def live_def)
next
  case (Cons x pre)
  then obtain e' where x: "x = (off, e')" "dirent_decode p off = Ok e'" "off < UB"
    "scan_entries p (off + rec_len e') = Ok (pre @ (o', e) # post)"
    by (cases x) (simp add: scan_Cons_iff)
  from Cons.IH [OF x(4) _ Cons.prems(3)] Cons.prems(2) x show ?case
    by (subst retarget_dotdot.simps) (auto simp: rec_len_def has_name_def live_def)
qed

lemma retarget_dotdot_None:
  assumes "scan_entries p off = Ok es" and "\<forall>x \<in> set es. \<not> has_name [46, 46] x"
  shows "retarget_dotdot p off v = Ok None"
  using assms
proof (induction es arbitrary: off)
  case Nil
  then show ?case by (auto simp: scan_Nil_iff retarget_dotdot.simps)
next
  case (Cons x es)
  then obtain e' where x: "x = (off, e')" "dirent_decode p off = Ok e'" "off < UB"
    "scan_entries p (off + rec_len e') = Ok es"
    by (cases x) (simp add: scan_Cons_iff)
  from Cons.prems(2) have "\<forall>x \<in> set es. \<not> has_name [46, 46] x" "\<not> has_name [46, 46] (off, e')"
    using x(1) by simp_all
  with Cons.IH [OF x(4)] x(2,3) show ?case
    by (subst retarget_dotdot.simps) (auto simp: rec_len_def live_def has_name_def)
qed

text \<open>Overwriting the inode number of a record keeps the chain.\<close>

lemma scan_after_reinode:
  assumes scan: "scan_entries p 0 = Ok (pre @ (o', e) # post)" and len: "length p = UB"
  shows "length (put p o' (to_le 8 v)) = UB"
    "scan_entries (put p o' (to_le 8 v)) 0 = Ok (pre @ (o', e\<lparr>d_inode := v\<rparr>) # post)"
proof -
  let ?p = "put p o' (to_le 8 v)"
  note E = chain_entry_at [OF scan]
  have D: "12 \<le> rec_len e" "o' + rec_len e \<le> UB"
    using dirent_decode_OkD(4,3) [OF E(2)] len by (simp_all add: rec_len_def)
  show lp: "length ?p = UB" using D len by simp
  have "scan_entries ?p (o' + rec_len e) = Ok post"
    by (rule scan_suffix [OF E(4) len lp D(2)]) (use D len in \<open>simp add: slice_put_after\<close>)
  then have "scan_entries ?p o' = Ok ((o', e\<lparr>d_inode := v\<rparr>) # post)"
    using decode_after_clear(2) [OF E(2) UB_small [OF len]] E(3)
    by (simp add: scan_Cons_iff rec_len_def)
  then show "scan_entries ?p 0 = Ok (pre @ (o', e\<lparr>d_inode := v\<rparr>) # post)"
    using scan_local [OF scan len lp] D len E(1) by (simp add: slice_put_before)
qed

lemma retarget_first_block_ok:
  assumes "first_block_ok ino p" "v \<noteq> 0"
    and rt: "retarget_dotdot p 0 v = Ok (Some p')"
  shows "first_block_ok ino p'"
proof -
  from assms(1) obtain es rest where es: "length p = UB" "scan_entries p 0 = Ok es"
    "\<forall>x \<in> set es. live x" "listing es = (ino, [46], FILE_TYPE_DIR) # rest"
    "list_ex (\<lambda>(_, n, _). n = [46, 46]) rest"
    by (auto simp: first_block_ok_def)
  have "\<exists>x \<in> set es. has_name [46, 46] x"
    using retarget_dotdot_None [OF es(2), of v] rt by fastforce
  from split_list_first_prop [OF this] obtain pre x post where
    sp: "es = pre @ x # post" and x: "has_name [46, 46] x"
    and pre: "\<forall>y \<in> set pre. \<not> has_name [46, 46] y" by blast
  obtain off e where oe: "x = (off, e)" by (cases x)
  have ne: "pre \<noteq> []" using es(4) x by (auto simp: sp oe has_name_def live_def)
  have p': "p' = put p off (to_le 8 v)"
    using retarget_dotdot_result [OF es(2) [unfolded sp oe] pre x [unfolded oe]] rt by simp
  note S = scan_after_reinode [OF es(2) [unfolded sp oe] es(1), of v]
  have "\<forall>x \<in> set (pre @ (off, e\<lparr>d_inode := v\<rparr>) # post). live x"
    using es(3) assms(2) by (auto simp: sp live_def)
  moreover have "listing pre \<noteq> []" using ne es(3) by (cases pre) (auto simp: sp live_def)
  ultimately show ?thesis
    using S es(4,5) x assms(2) by (cases "listing pre") (auto simp: first_block_ok_def sp oe p' has_name_def live_def)
qed

lemma initial_first_block_ok:
  assumes "initial_directory_block ino parent = Ok b" "ino \<noteq> 0" "parent \<noteq> 0"
  shows "first_block_ok ino b"
proof -
  obtain b' where "initial_directory_block ino parent = Ok b'" "length b' = UB"
    "scan_entries b' 0 = Ok [(0, fresh_entry ino [46] FILE_TYPE_DIR 16),
       (16, fresh_entry parent [46, 46] FILE_TYPE_DIR (UB - 16))]"
    by (rule initial_directory_block_chain)
  with assms show ?thesis by (simp add: first_block_ok_def fresh_entry_def live_def)
qed

lemma block_reach_first_ok:
  assumes "block_reach b p" "first_block_ok ino b"
  shows "first_block_ok ino p"
  using assms
proof (induction rule: block_reach.induct)
  case (start b)
  then show ?case .
next
  case (add b p i name ft p')
  then show ?case using insert_first_block_ok by blast
next
  case (remove b p name p')
  then show ?case using remove_first_block_ok by blast
next
  case (dotdot b p v p')
  then show ?case using retarget_first_block_ok by blast
qed

text \<open>C28: In the first block of a directory, whatever entries were added, removed or re-parented in it
  since \<open>initial_directory_block\<close> made it, removing a name takes exactly the first entry of that name out of the listing and keeps the others in order, or reports that there is
  none.\<close>

theorem first_block_removal_correct:
  assumes init: "initial_directory_block ino parent = Ok b" "ino \<noteq> 0" "parent \<noteq> 0"
    and reach: "block_reach b p"
  shows "\<exists>es. scan_entries p 0 = Ok es \<and>
    (case remove_entry p 0 None name of
       Ok None \<Rightarrow> \<forall>x \<in> set (listing es). fst (snd x) \<noteq> name
     | Ok (Some p') \<Rightarrow> \<exists>es' xs x ys. scan_entries p' 0 = Ok es' \<and>
         listing es = xs @ x # ys \<and> fst (snd x) = name \<and>
         (\<forall>y \<in> set xs. fst (snd y) \<noteq> name) \<and> listing es' = xs @ ys
     | _ \<Rightarrow> False)"
proof -
  have "first_block_ok ino p"
    by (rule block_reach_first_ok [OF reach initial_first_block_ok [OF init]])
  then obtain es where es: "length p = UB" "scan_entries p 0 = Ok es" "\<forall>x \<in> set es. live x"
    by (auto simp: first_block_ok_def)
  have mem: "(\<forall>x \<in> set (listing xs). fst (snd x) \<noteq> name) \<longleftrightarrow> (\<forall>x \<in> set xs. \<not> has_name name x)" for xs
    by (force simp: listing_def has_name_def)
  show ?thesis
  proof (cases "\<exists>x \<in> set es. has_name name x")
    case False
    then show ?thesis using es(2) remove_entry_None [OF es(2)] mem [of es] by auto
  next
    case True
    from split_list_first_prop [OF this] obtain pre x post where
      sp: "es = pre @ x # post" and x: "has_name name x"
      and pre: "\<forall>y \<in> set pre. \<not> has_name name y" by blast
    obtain off e where oe: "x = (off, e)" by (cases x)
    have t: "tidy (pre @ (off, e) # post)" using tidy_all_live [OF es(3)] sp oe by simp
    obtain p' es' where "remove_entry p 0 None name = Ok (Some p')" "scan_entries p' 0 = Ok es'"
      "listing es' = listing pre @ listing post"
      by (rule remove_entry_tidy [OF es(2) [unfolded sp oe] es(1) t pre x [unfolded oe]])
    moreover have "listing es = listing pre @ (d_inode e, d_name e, d_file_type e) # listing post"
      using x by (simp add: sp oe has_name_def live_def)
    moreover have "d_name e = name" using x oe by (simp add: has_name_def)
    ultimately show ?thesis
      using es(2) pre mem [of pre] by fastforce
  qed
qed

text \<open>Records of files whose names are one ASCII character.\<close>

definition letter :: "u64 \<Rightarrow> u8 \<Rightarrow> nat \<Rightarrow> dir_entry" where
  "letter i n r = fresh_entry i [n] FILE_TYPE_FILE r"

lemma letter_simps [simp]:
  "d_inode (letter i n r) = i" "d_name (letter i n r) = [n]" "d_file_type (letter i n r) = FILE_TYPE_FILE"
  "(letter i n r)\<lparr>d_inode := j\<rparr> = letter j n r" "(letter i n r)\<lparr>d_rec_len := 16\<rparr> = letter i n 16"
  "(letter i n r)\<lparr>d_rec_len := 32\<rparr> = letter i n 32"
  "r < 65536 \<Longrightarrow> rec_len (letter i n r) = r"
  "has_name [m] (off, letter i n r) \<longleftrightarrow> i \<noteq> 0 \<and> n = m" "live (off, letter i n r) \<longleftrightarrow> i \<noteq> 0"
  by (auto simp: letter_def fresh_entry_def rec_len_def unat_of_nat16 has_name_def live_def)

lemma letter_required: "required_len (length [n :: u8]) = 16"
  by (simp add: required_len_def div_ceil_def)

lemma letter_fits [simp]: "r < 65536 \<Longrightarrow> fits 16 (letter i n r) \<longleftrightarrow> (if i = 0 then 16 \<le> r else 32 \<le> r)"
  using letter_required [of n] by (auto simp: fits_def)

lemma letter_inserted:
  "r < 65536 \<Longrightarrow> inserted i [n] FILE_TYPE_FILE off (letter j m r) =
     (if j = 0 then [(off, letter i n r)] else [(off, letter j m 16), (off + 16, letter i n (r - 16))])"
  using letter_required [of m] by (simp add: inserted_def Let_def letter_def [symmetric])

lemma letter_added:
  assumes b: "block_reach b p" "length p = UB" "scan_entries p 0 = Ok (pre @ (off, letter j m r) # post)"
    and n: "i \<noteq> 0" "n < 128" and f: "r < 65536" "\<forall>x \<in> set pre. \<not> fits 16 (snd x)" "fits 16 (letter j m r)"
  obtains q where "block_reach b q" "length q = UB"
    "scan_entries q 0 = Ok (pre @ (if j = 0 then [(off, letter i n r)] else [(off, letter j m 16), (off + 16, letter i n (r - 16))]) @ post)"
proof -
  have u: "length [n] \<le> 255" "utf8_valid [n]" using n(2) by (simp_all add: utf8_valid_ascii)
  obtain q where q: "insert_entry p 0 i [n] FILE_TYPE_FILE (required_len (length [n])) = Ok (Some q)" "length q = UB"
    "scan_entries q 0 = Ok (pre @ inserted i [n] FILE_TYPE_FILE off (letter j m r) @ post)"
    by (rule insert_first_fit [OF b(3,2) u]) (use f in \<open>simp_all only: letter_required\<close>)
  show thesis
    by (rule that [OF block_reach.add [OF b(1) n(1) u q(1)] q(2)]) (use q(3) in \<open>simp add: letter_inserted [OF f(1)]\<close>)
qed

text \<open>The first record with a name, taken out where no live record stands before it.\<close>

lemma letter_removed:
  assumes b: "block_reach b p" "length p = UB" "scan_entries p 0 = Ok (pre @ (off, letter i n r) # post)"
    and n: "i \<noteq> 0" "n \<noteq> 46" "\<forall>x \<in> set pre. \<not> live x"
  obtains q where "block_reach b q" "length q = UB" "scan_entries q 0 = Ok (pre @ (off, letter 0 n r) # post)"
proof -
  obtain q where q: "remove_entry p 0 None [n] = Ok (Some q)" "length q = UB"
    "scan_entries q 0 = Ok (pre @ (off, (letter i n r)\<lparr>d_inode := 0\<rparr>) # post)"
    by (rule remove_entry_unled [OF b(3,2)]) (use n in \<open>simp_all add: has_name_def live_def\<close>)
  have "[n] \<notin> dots" using n(2) by (simp add: dots_def)
  from that [OF block_reach.remove [OF b(1) this q(1)] q(2)] q(3) show thesis by simp
qed

text \<open>C40: In a later block of a directory removal can fail silently: from a block made by
  \<open>add_dir_entry\<close>, additions and removals reach a state in which a removal reports success while the removed entry
  stays listed, because its length is added to the last live record even when free records lie
  between the two.\<close>

theorem removed_entry_stays_listed:
  "\<exists>b p p' es'. fresh_directory_block 10 [97] FILE_TYPE_FILE = Ok b \<and> block_reach b p \<and>
     remove_entry p 0 None [99] = Ok (Some p') \<and> scan_entries p' 0 = Ok es' \<and>
     (12, [99], FILE_TYPE_FILE) \<in> set (listing es')"
proof -
  obtain b where b: "fresh_directory_block 10 [97] FILE_TYPE_FILE = Ok b" "length b = UB"
    "scan_entries b 0 = Ok ([] @ (0, letter 10 97 4032) # [])"
    by (rule fresh_directory_block_chain [of "[97]" 10 FILE_TYPE_FILE]) (simp_all add: utf8_valid_ascii letter_def UB_val)
  obtain p1 where p1: "block_reach b p1" "length p1 = UB"
    "scan_entries p1 0 = Ok ([(0, letter 10 97 16)] @ (16, letter 11 98 4016) # [])"
    by (rule letter_added [OF block_reach.start b(2,3), of 11 98]) simp_all
  obtain p2 where p2: "block_reach b p2" "length p2 = UB"
    "scan_entries p2 0 = Ok ([(0, letter 10 97 16), (16, letter 11 98 16)] @ (32, letter 12 99 4000) # [])"
    by (rule letter_added [OF p1, of 12 99]) simp_all
  obtain p3 where p3: "block_reach b p3" "length p3 = UB"
    "scan_entries p3 0 = Ok ([] @ (0, letter 10 97 16) # [(16, letter 11 98 16), (32, letter 12 99 16), (48, letter 14 101 3984)])"
    by (rule letter_added [OF p2, of 14 101]) simp_all
  obtain p4 where p4: "block_reach b p4" "length p4 = UB"
    "scan_entries p4 0 = Ok ([(0, letter 0 97 16)] @ (16, letter 11 98 16) # [(32, letter 12 99 16), (48, letter 14 101 3984)])"
    by (rule letter_removed [OF p3]) simp_all
  obtain p5 where p5: "block_reach b p5" "length p5 = UB"
    "scan_entries p5 0 = Ok ([] @ (0, letter 0 97 16) # [(16, letter 0 98 16), (32, letter 12 99 16), (48, letter 14 101 3984)])"
    by (rule letter_removed [OF p4]) simp_all
  obtain p6 where p6: "block_reach b p6" "length p6 = UB"
    "scan_entries p6 0 = Ok [(0, letter 13 100 16), (16, letter 0 98 16), (32, letter 12 99 16), (48, letter 14 101 3984)]"
    by (rule letter_added [OF p5, of 13 100]) simp_all
  obtain p7 where p7: "remove_entry p6 0 None [99] = Ok (Some p7)"
    "scan_entries p7 0 = Ok [(0, letter 13 100 32), (32, letter 12 99 16), (48, letter 14 101 3984)]"
    using remove_entry_over_free [of p6 "[]" 0 "letter 13 100 16" 16 "letter 0 98 16" 32 "letter 12 99 16"
        "[(48, letter 14 101 3984)]" "[99]"] p6 by auto
  have "(12, [99], FILE_TYPE_FILE) \<in>
      set (listing [(0, letter 13 100 32), (32, letter 12 99 16), (48, letter 14 101 3984)])" by simp
  with b(1) p6(1) p7 show ?thesis by blast
qed

text \<open>C29: Adding an entry to a directory block whose chain of records decodes either finds no record
  with room and changes nothing, or lists the new entry, keeps every other entry in its order, and
  leaves a chain that decodes.\<close>

theorem insert_keeps_entries:
  assumes "scan_entries p 0 = Ok es" "length p = UB" "length name \<le> 255" "utf8_valid name" "i \<noteq> 0"
  shows "case insert_entry p 0 i name ft (required_len (length name)) of
      Ok None \<Rightarrow> \<forall>x \<in> set es. \<not> fits (required_len (length name)) (snd x)
    | Ok (Some p') \<Rightarrow> length p' = UB \<and> (\<exists>es' xs ys. scan_entries p' 0 = Ok es' \<and>
        listing es = xs @ ys \<and> listing es' = xs @ [(i, name, ft)] @ ys)
    | _ \<Rightarrow> False"
  using insert_entry_spec [OF assms, of ft] by (elim disjE conjE exE) auto

end
