(* ===== verification/Format.thy ===== *)
theory Format
  imports BlockFlush Bitmap Inode DirReach
begin

text \<open>
  \<^verbatim>\<open>src/fs/format.rs\<close>: creating a filesystem on the images of a directory, opening one, and the
  bitmap blocks. Paths are names in the album directory, so \<open>dir.join\<close> and \<open>canonicalize\<close> are the
  identity on the names of files that exist (symbolic links are not modelled).
\<close>

definition carrier_paths :: "world \<Rightarrow> path list" where
  "carrier_paths w = sort (filter (\<lambda>p. kind_for p \<noteq> None) (w_entries w))"

definition unsupported :: fs_error where
  "unsupported = Manifest ''unsupported carrier type''"

definition codec_of :: "path \<Rightarrow> (image_kind, fs_error) res" where
  "codec_of p = ok_or unsupported (codec_for_path p)"

definition canonicalize :: "path \<Rightarrow> files \<Rightarrow> (path, fs_error) res" where
  "canonicalize p fs = (if fs p = None then Err Io else Ok p)"


subsection \<open>The anchor\<close>

fun largest_carrier ::
    "ext \<Rightarrow> path list \<Rightarrow> (path \<times> u64) option \<Rightarrow> files \<Rightarrow> ((path \<times> u64) option, fs_error) res" where
  "largest_carrier e [] largest fs = Ok largest"
| "largest_carrier e (path # paths) largest fs =
     and_then (codec_of path) (\<lambda>codec.
     and_then (map_err Codec (codec_raw_capacity_bytes e codec path fs)) (\<lambda>capacity.
     largest_carrier e paths
       (if (case largest of None \<Rightarrow> True | Some (_, largest_capacity) \<Rightarrow> capacity > largest_capacity)
        then Some (path, capacity) else largest) fs))"

definition select_anchor ::
    "ext \<Rightarrow> path list \<Rightarrow> path option \<Rightarrow> files \<Rightarrow> (path, fs_error) res" where
  "select_anchor e paths requested fs =
     and_then
       (case requested of
          Some candidate \<Rightarrow>
            and_then (canonicalize candidate fs) (\<lambda>canonical.
            ok_or (Manifest ''anchor is not an image carrier'')
              (find (\<lambda>path. canonicalize path fs = Ok canonical) paths))
        | None \<Rightarrow>
            and_then (largest_carrier e paths None fs) (\<lambda>largest.
            ok_or EmptyPool (map_option fst largest)))
     (\<lambda>anchor.
     and_then (codec_of anchor) (\<lambda>codec.
     and_then (map_err Codec (codec_raw_capacity_bytes e codec anchor fs)) (\<lambda>capacity.
     if unat capacity < BOOTSTRAP_LEN
     then Err (Manifest ''anchor is too small for the bootstrap'')
     else Ok anchor)))"

text \<open>An error on one carrier is skipped: \<open>let Ok(..) = .. else continue\<close>.\<close>

fun contains_valid_plaintext_filesystem :: "ext \<Rightarrow> path list \<Rightarrow> files \<Rightarrow> (bool, fs_error) res" where
  "contains_valid_plaintext_filesystem e [] fs = Ok False"
| "contains_valid_plaintext_filesystem e (path # paths) fs =
     (case codec_for_path path of
        None \<Rightarrow> contains_valid_plaintext_filesystem e paths fs
      | Some codec \<Rightarrow>
          (case codec_read_chunk e codec path ReadFramed [] fs of
             Panic \<Rightarrow> Panic
           | Err _ \<Rightarrow> contains_valid_plaintext_filesystem e paths fs
           | Ok (meta, payload) \<Rightarrow>
               if cm_flags meta AND 1 = 0 \<or> length payload < PB
               then contains_valid_plaintext_filesystem e paths fs
               else
                 (case read_physical_block (e_crc32 e) 0 (slice payload 0 PB) of
                    Panic \<Rightarrow> Panic
                  | Err _ \<Rightarrow> contains_valid_plaintext_filesystem e paths fs
                  | Ok block_zero \<Rightarrow>
                      (case superblock_decode (e_crc32 e) block_zero of
                         Panic \<Rightarrow> Panic
                       | Err _ \<Rightarrow> contains_valid_plaintext_filesystem e paths fs
                       | Ok _ \<Rightarrow> Ok True))))"

definition contains_valid_markerless_filesystem ::
    "ext \<Rightarrow> path \<Rightarrow> bytes \<Rightarrow> files \<Rightarrow> (bool, fs_error) res" where
  "contains_valid_markerless_filesystem e anchor passphrase fs =
     and_then (codec_of anchor) (\<lambda>codec.
     and_then (map_err Codec (codec_read_prefix e codec anchor BOOTSTRAP_LEN fs)) (\<lambda>prefix.
     case open_bootstrap e passphrase prefix of
       Panic \<Rightarrow> Panic
     | Err _ \<Rightarrow> Ok False
     | Ok (plaintext, _) \<Rightarrow>
         (case superblock_decode (e_crc32 e) plaintext of
            Panic \<Rightarrow> Panic
          | Err _ \<Rightarrow> Ok False
          | Ok sb \<Rightarrow> Ok (markerless_encrypted sb))))"


subsection \<open>The bitmap blocks\<close>

fun load_bitmap_loop ::
    "ext \<Rightarrow> nat \<Rightarrow> nat list \<Rightarrow> bytes \<Rightarrow> ('a store_scheme, bytes, fs_error) prog" where
  "load_bitmap_loop e needed [] bs = ret bs"
| "load_bitmap_loop e needed (block # blocks) bs =
     bind (read_block e block) (\<lambda>payload.
     let remaining = needed - length bs
     in load_bitmap_loop e needed blocks (bs @ take (min remaining UB) payload))"

definition load_bitmap :: "ext \<Rightarrow> superblock \<Rightarrow> ('a store_scheme, bitmap, fs_error) prog" where
  "load_bitmap e sb =
     (let needed = div_ceil (unat (sb_total_blocks sb)) 8
      in bind (load_bitmap_loop e needed
             [unat (sb_bitmap_start sb)..<unat (sb_inode_table_start sb)] [])
           (\<lambda>bs. ret (bitmap_from_bytes bs (unat (sb_total_blocks sb)))))"

definition write_bitmap ::
    "ext \<Rightarrow> superblock \<Rightarrow> bitmap \<Rightarrow> ('a store_scheme, unit, fs_error) prog" where
  "write_bitmap e sb bm =
     for_each (enumerate 0 [unat (sb_bitmap_start sb)..<unat (sb_inode_table_start sb)])
       (\<lambda>(index, block).
          let start = index * UB;
              end_off = min (start + UB) (length (bm_bits bm));
              part = (if start < end_off then slice (bm_bits bm) start end_off else [])
          in write_block e block part)"



subsection \<open>Formatting\<close>

record format_result =
  fr_superblock :: superblock
  fr_anchor :: "path option"

text \<open>Lines 78 to 117: the carriers with room for at least one block, and their names.\<close>

fun usable_carriers ::
    "ext \<Rightarrow> bool \<Rightarrow> path option \<Rightarrow> files \<Rightarrow> bytes list \<Rightarrow> path list \<Rightarrow>
      ((path \<times> bytes \<times> u64) list, fs_error) res" where
  "usable_carriers e encrypted anchor fs names [] = Ok []"
| "usable_carriers e encrypted anchor fs names (path # paths) =
     (if anchor = Some path then usable_carriers e encrypted anchor fs names paths
      else
        and_then (codec_of path) (\<lambda>codec.
        and_then (map_err Codec
            (if encrypted then codec_raw_capacity_bytes e codec path fs
             else codec_capacity_bytes e codec path fs)) (\<lambda>capacity.
        let block_count = capacity div of_nat PB
        in if block_count = 0 then usable_carriers e encrypted anchor fs names paths
           else
             and_then
               (if encrypted then
                  let name = path_name path
                  in if \<not> utf8_valid name then Err (Manifest ''carrier name is not valid UTF-8'')
                     else and_then (validate_name name) (\<lambda>_.
                       if name \<in> set names then Err (Manifest ''duplicate carrier name'')
                       else Ok (name, name # names))
                else Ok ([], names))
             (\<lambda>(name, names).
             and_then (usable_carriers e encrypted anchor fs names paths) (\<lambda>rest.
             Ok ((path, name, block_count) # rest))))))"

text \<open>Lines 122 to 135.\<close>

fun build_manifest ::
    "nat \<Rightarrow> u64 \<Rightarrow> (path \<times> bytes \<times> u64) list \<Rightarrow> carrier_range list \<times> u64" where
  "build_manifest chunk_index block_start [] = ([], block_start)"
| "build_manifest chunk_index block_start ((path, name, block_count) # rest) =
     (let (manifest, total) = build_manifest (chunk_index + 1) (block_start + block_count) rest
      in (\<lparr>cr_name = name, cr_chunk_index = of_nat chunk_index, cr_block_start = block_start,
           cr_block_count = block_count\<rparr> # manifest, total))"

record geometry =
  g_total_blocks :: u64
  g_inode_count :: u64
  g_bitmap_start :: u64
  g_inode_table_start :: u64
  g_data_start :: u64

definition format_geometry :: "u64 \<Rightarrow> (geometry, fs_error) res" where
  "format_geometry total_blocks =
     (let bitmap_start = 1;
          bitmap_blocks = of_nat (div_ceil (div_ceil (unat total_blocks) 8) UB);
          inode_table_start = bitmap_start + bitmap_blocks;
          inode_count = max 64 (total_blocks div 4);
          inode_table_blocks = of_nat (div_ceil (unat inode_count) 21);
          data_start = inode_table_start + inode_table_blocks
      in if data_start \<ge> total_blocks then Err EmptyPool
         else Ok \<lparr>g_total_blocks = total_blocks, g_inode_count = inode_count,
           g_bitmap_start = bitmap_start, g_inode_table_start = inode_table_start,
           g_data_start = data_start\<rparr>)"

text \<open>Lines 146 to 172: the superblock and, for an encrypted format, the bootstrap and the keys.\<close>

definition format_superblock ::
    "ext \<Rightarrow> bytes option \<Rightarrow> geometry \<Rightarrow> carrier_range list \<Rightarrow>
      (world, superblock \<times> bytes option \<times> store_keys option, fs_error) prog" where
  "format_superblock e passphrase g manifest =
     (case passphrase of
        Some passphrase \<Rightarrow>
          let sb = superblock_markerless (g_total_blocks g) (g_inode_count g) (g_bitmap_start g)
                (g_inode_table_start g) (g_data_start g) manifest
          in bind (create_bootstrap e passphrase (superblock_encode (e_crc32 e) sb))
               (\<lambda>(bootstrap, keys). ret (sb, Some bootstrap, Some keys))
      | None \<Rightarrow>
          ret (superblock_standard (g_total_blocks g) (g_inode_count g) (g_bitmap_start g)
                (g_inode_table_start g) (g_data_start g) manifest False, None, None))"

text \<open>Lines 174 to 207: what is written through the block store.\<close>

definition root_inode_of :: "nat \<Rightarrow> inode" where
  "root_inode_of root_block =
     inode_default\<lparr>i_mode := S_IFDIR OR 0x1ED, i_nlink := 2, i_size := of_nat UB,
       i_block_count := 1, i_direct := (i_direct inode_default)[0 := of_nat root_block]\<rparr>"

definition format_store :: "ext \<Rightarrow> superblock \<Rightarrow> (store, unit, fs_error) prog" where
  "format_store e sb =
     (let zero = replicate UB 0; total = unat (sb_total_blocks sb)
      in bind (for_each [0..<total] (\<lambda>lba. write_block e lba zero)) (\<lambda>_.
         bind
           (if \<not> sb_encrypted sb then
              let encoded = superblock_encode (e_crc32 e) sb
              in if length encoded > UB then raise (Manifest ''superblock does not fit the block'')
                 else write_block e 0 encoded
            else ret ()) (\<lambda>_.
         let bm = foldl set_block (bitmap_new total) [0..<unat (sb_data_start sb)]
         in bind (lift (alloc_from bm (unat (sb_data_start sb)))) (\<lambda>(root_block, bm).
            bind (lift (initial_directory_block 1 1)) (\<lambda>block.
            bind (write_block e root_block block) (\<lambda>_.
            let root = root_inode_of root_block
            in bind (read_block e (unat (sb_inode_table_start sb))) (\<lambda>inode_table.
               let inode_table = put inode_table 0 (inode_encode root)
               in bind (write_block e (unat (sb_inode_table_start sb)) inode_table) (\<lambda>_.
                  bind (write_bitmap e sb bm) (\<lambda>_.
                  flush e)))))))))"

text \<open>A store is created from the world and used for the rest of the function.\<close>

definition with_store ::
    "(world \<Rightarrow> store) \<Rightarrow> (store, 'b, fs_error) prog \<Rightarrow> (world, 'b, fs_error) prog" where
  "with_store create m = (\<lambda>w. let (r, s) = m (create w) in (r, world.truncate s))"

definition format_with_anchor_options ::
    "ext \<Rightarrow> bytes option \<Rightarrow> path option \<Rightarrow> bool \<Rightarrow> (world, format_result, fs_error) prog" where
  "format_with_anchor_options e passphrase requested_anchor force =
     (if requested_anchor \<noteq> None \<and> passphrase = None
      then raise (Manifest ''--anchor requires an encrypted format with a passphrase'')
      else
        bind (get carrier_paths) (\<lambda>all_paths.
        bind (get w_files) (\<lambda>fs.
        if all_paths = [] then raise EmptyPool
        else
          bind (lift (case passphrase of
              Some _ \<Rightarrow> and_then (select_anchor e all_paths requested_anchor fs) (\<lambda>a. Ok (Some a))
            | None \<Rightarrow> Ok None)) (\<lambda>anchor.
          bind (lift (if force then Ok False
              else contains_valid_plaintext_filesystem e all_paths fs)) (\<lambda>plaintext.
          if plaintext then raise AlreadyFormatted
          else
            bind (lift (case (passphrase, anchor) of
                (Some passphrase, Some anchor) \<Rightarrow>
                  if \<not> force then contains_valid_markerless_filesystem e anchor passphrase fs
                  else Ok False
              | _ \<Rightarrow> Ok False)) (\<lambda>present.
            if present then raise AlreadyFormatted
            else
              bind (lift (usable_carriers e (passphrase \<noteq> None) anchor fs [] all_paths)) (\<lambda>usable.
              if usable = [] then raise EmptyPool
              else
                let (manifest, total_blocks) = build_manifest 0 0 usable;
                    paths = map fst usable
                in bind (lift (format_geometry total_blocks)) (\<lambda>g.
                   bind (format_superblock e passphrase g manifest) (\<lambda>(sb, bootstrap, store_keys).
                   bind (with_store (new_for_format paths (sb_manifest sb) store_keys)
                       (format_store e sb)) (\<lambda>_.
                   bind (case (anchor, bootstrap) of
                       (Some anchor, Some bootstrap) \<Rightarrow>
                         bind (lift (codec_of anchor)) (\<lambda>codec.
                         bind (get w_files) (\<lambda>fs.
                         bind (lift (map_err Codec (codec_write_prefix e codec anchor bootstrap fs)))
                           (\<lambda>fs. modify (w_files_update (\<lambda>_. fs)))))
                     | _ \<Rightarrow> ret ()) (\<lambda>_.
                   ret \<lparr>fr_superblock = sb, fr_anchor = anchor\<rparr>)))))))))))"

definition format_pool :: "ext \<Rightarrow> (world, superblock, fs_error) prog" where
  "format_pool e =
     bind (format_with_anchor_options e None None False) (\<lambda>r. ret (fr_superblock r))"

definition format_with_passphrase :: "ext \<Rightarrow> bytes option \<Rightarrow> (world, superblock, fs_error) prog" where
  "format_with_passphrase e passphrase =
     bind (format_with_anchor_options e passphrase None False) (\<lambda>r. ret (fr_superblock r))"

definition format_with_options ::
    "ext \<Rightarrow> bytes option \<Rightarrow> bool \<Rightarrow> (world, superblock, fs_error) prog" where
  "format_with_options e passphrase force =
     bind (format_with_anchor_options e passphrase None force) (\<lambda>r. ret (fr_superblock r))"


subsection \<open>Opening\<close>

fun validate_ranges :: "u64 \<Rightarrow> carrier_range list \<Rightarrow> (u64, fs_error) res" where
  "validate_ranges next_block [] = Ok next_block"
| "validate_ranges next_block (rng # ranges) =
     (if cr_block_start rng \<noteq> next_block \<or> cr_block_count rng = 0
      then Err (Manifest ''carrier manifest block ranges are not contiguous'')
      else if unat next_block + unat (cr_block_count rng) > MAX64
      then Err (Manifest ''carrier block range overflow'')
      else validate_ranges (next_block + cr_block_count rng) ranges)"

definition validate_manifest_geometry :: "superblock \<Rightarrow> (unit, fs_error) res" where
  "validate_manifest_geometry sb =
     and_then (validate_ranges 0 (sb_manifest sb)) (\<lambda>next_block.
     if next_block \<noteq> sb_total_blocks sb
     then Err (Manifest ''carrier manifest total does not match superblock'') else Ok ())"

fun scan_carriers ::
    "ext \<Rightarrow> files \<Rightarrow> path list \<Rightarrow> ((path \<times> chunk_meta \<times> bytes) list, fs_error) res" where
  "scan_carriers e fs [] = Ok []"
| "scan_carriers e fs (path # paths) =
     (case codec_for_path path of
        None \<Rightarrow> scan_carriers e fs paths
      | Some codec \<Rightarrow>
          (case codec_read_chunk e codec path ReadFramed [] fs of
             Panic \<Rightarrow> Panic
           | Err _ \<Rightarrow> scan_carriers e fs paths
           | Ok (meta, payload) \<Rightarrow>
               and_then (scan_carriers e fs paths) (\<lambda>rest.
               Ok ((path, meta, payload) # rest))))"

fun match_carriers ::
    "ext \<Rightarrow> files \<Rightarrow> (path \<times> chunk_meta \<times> bytes) list \<Rightarrow> carrier_range list \<Rightarrow>
      ((path \<times> bool) list, fs_error) res" where
  "match_carriers e fs scanned [] = Ok []"
| "match_carriers e fs scanned (rng # ranges) =
     and_then (ok_or (Manifest ''missing chunk index'')
         (find (\<lambda>(_, meta, _). cm_chunk_index meta = cr_chunk_index rng) scanned))
       (\<lambda>(path, meta, payload).
     let expected = unat (cr_block_count rng * of_nat PB)
     in if length payload \<noteq> expected then Err (Manifest ''chunk has another length'')
        else
          and_then (codec_of path) (\<lambda>codec.
          and_then (map_err Codec (codec_capacity_bytes e codec path fs)) (\<lambda>capacity.
          if unat capacity < expected then Err (Manifest ''chunk no longer has enough capacity'')
          else
            and_then (match_carriers e fs scanned ranges) (\<lambda>rest.
            Ok ((path, cm_flags meta AND 1 \<noteq> 0) # rest)))))"

definition open_plaintext :: "ext \<Rightarrow> world \<Rightarrow> (superblock \<times> store, fs_error) res" where
  "open_plaintext e w =
     (let fs = w_files w
      in and_then (scan_carriers e fs (carrier_paths w)) (\<lambda>scanned.
         and_then (ok_or NoPrimary (find (\<lambda>(_, meta, _). cm_flags meta AND 1 \<noteq> 0) scanned))
           (\<lambda>(_, _, primary).
         if length primary < PB then Err (Manifest ''primary carrier is shorter than one block'')
         else
           and_then (read_physical_block (e_crc32 e) 0 (slice primary 0 PB)) (\<lambda>block_zero.
           and_then (superblock_decode (e_crc32 e) block_zero) (\<lambda>sb.
           if sb_encrypted sb then Err AnchorRequired
           else if length scanned \<noteq> length (sb_manifest sb)
           then Err (Manifest ''found carriers do not match the manifest'')
           else
             and_then (match_carriers e fs scanned (sb_manifest sb)) (\<lambda>paths.
             and_then (validate_manifest_geometry sb) (\<lambda>_.
             Ok (sb, from_manifest paths (sb_manifest sb) None w))))))))"

definition open_pool :: "ext \<Rightarrow> world \<Rightarrow> (superblock \<times> store, fs_error) res" where
  "open_pool = open_plaintext"

definition open_with_passphrase ::
    "ext \<Rightarrow> bytes option \<Rightarrow> world \<Rightarrow> (superblock \<times> store, fs_error) res" where
  "open_with_passphrase e passphrase w =
     (if passphrase \<noteq> None then Err AnchorRequired else open_plaintext e w)"

fun check_ranges ::
    "ext \<Rightarrow> path \<Rightarrow> files \<Rightarrow> bytes list \<Rightarrow> carrier_range list \<Rightarrow>
      ((path \<times> bool) list, fs_error) res" where
  "check_ranges e anchor fs seen [] = Ok []"
| "check_ranges e anchor fs seen (rng # ranges) =
     and_then (validate_name (cr_name rng)) (\<lambda>_.
     if cr_name rng \<in> set seen then Err (Manifest ''duplicate carrier name'')
     else
       let path = Path (cr_name rng)
       in and_then (canonicalize path fs) (\<lambda>canonical_path.
          and_then (canonicalize anchor fs) (\<lambda>canonical_anchor.
          if canonical_path = canonical_anchor
          then Err (Manifest ''anchor must not appear in the data-carrier manifest'')
          else
            and_then (codec_of path) (\<lambda>codec.
            let expected = unat (cr_block_count rng) * PB
            in if expected > MAX64 then Err (Manifest ''carrier payload length overflow'')
               else
                 and_then (map_err Codec (codec_raw_capacity_bytes e codec path fs)) (\<lambda>capacity.
                 if unat capacity < expected
                 then Err (Manifest ''carrier no longer has enough capacity'')
                 else
                   and_then (check_ranges e anchor fs (cr_name rng # seen) ranges) (\<lambda>rest.
                   Ok ((path, False) # rest)))))))"

definition open_with_anchor ::
    "ext \<Rightarrow> path \<Rightarrow> bytes \<Rightarrow> world \<Rightarrow> (superblock \<times> store, fs_error) res" where
  "open_with_anchor e anchor passphrase w =
     (let fs = w_files w; paths = carrier_paths w
      in and_then (select_anchor e paths (Some anchor) fs) (\<lambda>anchor.
         and_then (codec_of anchor) (\<lambda>codec.
         and_then (map_err Codec (codec_read_prefix e codec anchor BOOTSTRAP_LEN fs)) (\<lambda>prefix.
         and_then (open_bootstrap e passphrase prefix) (\<lambda>(plaintext, keys).
         and_then (map_err (\<lambda>_. Auth) (superblock_decode (e_crc32 e) plaintext)) (\<lambda>sb.
         if \<not> markerless_encrypted sb then Err Auth
         else
           and_then (check_ranges e anchor fs [] (sb_manifest sb)) (\<lambda>data_paths.
           and_then (validate_manifest_geometry sb) (\<lambda>_.
           Ok (sb, from_manifest data_paths (sb_manifest sb) (Some keys) w)))))))))"

end
