(* ===== verification/Album.thy ===== *)
theory Album
  imports Format
begin

text \<open>
  \<^verbatim>\<open>src/fs/album.rs\<close>: the filesystem. An operation is a program over the block store, the
  superblock and the bitmap; an error leaves the state where it was reached, as the code does.
  Offsets and logical block indices are natural numbers below \<open>2 ^ 64\<close>.
\<close>

record album = store +
  al_sb :: superblock
  al_bitmap :: bitmap

definition POINTERS_PER_BLOCK :: nat where "POINTERS_PER_BLOCK = UB div 8"

text \<open>\<open>AlbumFs { store, sb, bitmap }\<close>.\<close>

definition album_of :: "store \<Rightarrow> superblock \<Rightarrow> bitmap \<Rightarrow> album" where
  "album_of s sb bm = store.extend s (album.fields sb bm)"

definition album_open_store ::
    "ext \<Rightarrow> (superblock \<times> store, fs_error) res \<Rightarrow> (album, fs_error) res" where
  "album_open_store e opened =
     and_then opened (\<lambda>(sb, s).
     case load_bitmap e sb s of
       (Ok bm, s) \<Rightarrow> Ok (album_of s sb bm)
     | (Err x, s) \<Rightarrow> Err x
     | (Panic, s) \<Rightarrow> Panic)"

definition album_open :: "ext \<Rightarrow> world \<Rightarrow> (album, fs_error) res" where
  "album_open e w = album_open_store e (open_pool e w)"

definition album_open_with_passphrase :: "ext \<Rightarrow> bytes option \<Rightarrow> world \<Rightarrow> (album, fs_error) res" where
  "album_open_with_passphrase e passphrase w =
     album_open_store e (open_with_passphrase e passphrase w)"

definition album_open_with_anchor ::
    "ext \<Rightarrow> path \<Rightarrow> bytes \<Rightarrow> world \<Rightarrow> (album, fs_error) res" where
  "album_open_with_anchor e anchor passphrase w =
     album_open_store e (open_with_anchor e anchor passphrase w)"

definition sync :: "ext \<Rightarrow> ('a album_scheme, unit, fs_error) prog" where
  "sync e =
     bind (get (\<lambda>s. (al_sb s, al_bitmap s))) (\<lambda>(sb, bm).
     bind (write_bitmap e sb bm) (\<lambda>_.
     flush e))"

definition total_blocks :: "'a album_scheme \<Rightarrow> u64" where
  "total_blocks s = sb_total_blocks (al_sb s)"

definition free_blocks :: "'a album_scheme \<Rightarrow> nat" where
  "free_blocks s = count_free (al_bitmap s)"

definition inode_count :: "'a album_scheme \<Rightarrow> u64" where
  "inode_count s = sb_inode_count (al_sb s)"


subsection \<open>Inodes\<close>

definition inode_location :: "'a album_scheme \<Rightarrow> u64 \<Rightarrow> (u64 \<times> nat, fs_error) res" where
  "inode_location s ino =
     (if ino = 0 \<or> ino > sb_inode_count (al_sb s) then Err NotFound
      else
        let byte_offset = unat ((ino - 1) * of_nat INODE_SIZE)
        in Ok (sb_inode_table_start (al_sb s) + of_nat (byte_offset div UB), byte_offset mod UB))"

definition read_inode :: "ext \<Rightarrow> u64 \<Rightarrow> ('a album_scheme, inode, fs_error) prog" where
  "read_inode e ino =
     bind (get (\<lambda>s. inode_location s ino)) (\<lambda>location.
     bind (lift location) (\<lambda>(block, offset).
     bind (read_block e (unat block)) (\<lambda>payload.
     lift (inode_decode (slice payload offset (offset + INODE_SIZE))))))"

definition write_inode :: "ext \<Rightarrow> u64 \<Rightarrow> inode \<Rightarrow> ('a album_scheme, unit, fs_error) prog" where
  "write_inode e ino inode =
     bind (get (\<lambda>s. inode_location s ino)) (\<lambda>location.
     bind (lift location) (\<lambda>(block, offset).
     bind (read_block e (unat block)) (\<lambda>payload.
     write_block e (unat block) (put payload offset (inode_encode inode)))))"

fun count_inodes :: "ext \<Rightarrow> nat \<Rightarrow> nat list \<Rightarrow> ('a album_scheme, nat, fs_error) prog" where
  "count_inodes e n [] = ret n"
| "count_inodes e n (ino # inos) =
     bind (read_inode e (of_nat ino)) (\<lambda>inode.
     count_inodes e (if i_mode inode \<noteq> 0 then n + 1 else n) inos)"

definition used_inodes :: "ext \<Rightarrow> ('a album_scheme, nat, fs_error) prog" where
  "used_inodes e =
     bind (get inode_count) (\<lambda>count. count_inodes e 0 [1..<Suc (unat count)])"

fun find_free_inode :: "ext \<Rightarrow> nat list \<Rightarrow> ('a album_scheme, u64, fs_error) prog" where
  "find_free_inode e [] = raise NoSpace"
| "find_free_inode e (ino # inos) =
     bind (read_inode e (of_nat ino)) (\<lambda>inode.
     if i_mode inode = 0 then ret (of_nat ino) else find_free_inode e inos)"

definition alloc_inode :: "ext \<Rightarrow> ('a album_scheme, u64, fs_error) prog" where
  "alloc_inode e =
     bind (get inode_count) (\<lambda>count. find_free_inode e [1..<Suc (unat count)])"

definition free_inode :: "ext \<Rightarrow> u64 \<Rightarrow> ('a album_scheme, unit, fs_error) prog" where
  "free_inode e ino = write_inode e ino inode_default"

definition getattr :: "ext \<Rightarrow> u64 \<Rightarrow> ('a album_scheme, inode, fs_error) prog" where
  "getattr e ino =
     bind (read_inode e ino) (\<lambda>inode.
     if i_mode inode = 0 then raise NotFound else ret inode)"


subsection \<open>Block mapping\<close>

definition allocate_block :: "ext \<Rightarrow> ('a album_scheme, u64, fs_error) prog" where
  "allocate_block e =
     bind (get (\<lambda>s. alloc_from (al_bitmap s) (unat (sb_data_start (al_sb s))))) (\<lambda>found.
     bind (lift found) (\<lambda>(block, bm).
     bind (modify (al_bitmap_update (\<lambda>_. bm))) (\<lambda>_.
     bind (write_block e block []) (\<lambda>_.
     ret (of_nat block)))))"

definition pointer_at :: "bytes \<Rightarrow> nat \<Rightarrow> u64" where
  "pointer_at block index = from_le (slice block (index * 8) (index * 8 + 8))"

definition set_pointer :: "bytes \<Rightarrow> nat \<Rightarrow> u64 \<Rightarrow> bytes" where
  "set_pointer block index pointer = put block (index * 8) (to_le 8 pointer)"

text \<open>\<open>(p != 0).then_some(p)\<close>.\<close>

definition then_some :: "u64 \<Rightarrow> u64 option" where
  "then_some p = (if p \<noteq> 0 then Some p else None)"

definition bmap_direct ::
    "ext \<Rightarrow> inode \<Rightarrow> nat \<Rightarrow> bool \<Rightarrow> ('a album_scheme, u64 option \<times> inode, fs_error) prog" where
  "bmap_direct e inode index allocate =
     (let slot = i_direct inode ! index
      in if slot = 0 \<and> allocate then
           bind (allocate_block e) (\<lambda>block.
           let inode = inode\<lparr>i_direct := (i_direct inode)[index := block],
                 i_block_count := i_block_count inode + 1\<rparr>
           in ret (then_some block, inode))
         else ret (then_some slot, inode))"

text \<open>
  Lines 153 to 163 and 186 to 194: the pointer at \<open>index\<close> of the pointer block \<open>table\<close>, allocated
  when it is 0 and \<open>allocate\<close> is set.
\<close>

definition bmap_leaf ::
    "ext \<Rightarrow> inode \<Rightarrow> u64 \<Rightarrow> nat \<Rightarrow> bool \<Rightarrow> ('a album_scheme, u64 option \<times> inode, fs_error) prog" where
  "bmap_leaf e inode table index allocate =
     bind (read_block e (unat table)) (\<lambda>pointers.
     let pointer = pointer_at pointers index
     in if pointer = 0 \<and> allocate then
          bind (allocate_block e) (\<lambda>new_block.
          let pointers = set_pointer pointers index new_block
          in bind (write_block e (unat table) pointers) (\<lambda>_.
             ret (Some new_block, inode\<lparr>i_block_count := i_block_count inode + 1\<rparr>)))
        else ret (then_some pointer, inode))"

definition bmap_single ::
    "ext \<Rightarrow> inode \<Rightarrow> nat \<Rightarrow> bool \<Rightarrow> ('a album_scheme, u64 option \<times> inode, fs_error) prog" where
  "bmap_single e inode relative allocate =
     (if i_single inode = 0 then
        if \<not> allocate then ret (None, inode)
        else
          bind (allocate_block e) (\<lambda>block.
          let inode = inode\<lparr>i_single := block\<rparr>
          in bmap_leaf e inode (i_single inode) relative allocate)
      else bmap_leaf e inode (i_single inode) relative allocate)"

text \<open>Lines 173 to 194.\<close>

definition bmap_inner ::
    "ext \<Rightarrow> inode \<Rightarrow> nat \<Rightarrow> bool \<Rightarrow> ('a album_scheme, u64 option \<times> inode, fs_error) prog" where
  "bmap_inner e inode relative allocate =
     (let outer_index = relative div POINTERS_PER_BLOCK;
          inner_index = relative mod POINTERS_PER_BLOCK
      in bind (read_block e (unat (i_double inode))) (\<lambda>outer.
         let inner_block = pointer_at outer outer_index
         in if inner_block = 0 then
              if \<not> allocate then ret (None, inode)
              else
                bind (allocate_block e) (\<lambda>inner_block.
                let outer = set_pointer outer outer_index inner_block
                in bind (write_block e (unat (i_double inode)) outer) (\<lambda>_.
                   bmap_leaf e inode inner_block inner_index allocate))
            else bmap_leaf e inode inner_block inner_index allocate))"

definition bmap ::
    "ext \<Rightarrow> inode \<Rightarrow> nat \<Rightarrow> bool \<Rightarrow> ('a album_scheme, u64 option \<times> inode, fs_error) prog" where
  "bmap e inode index allocate =
     (if index < 12 then bmap_direct e inode index allocate
      else
        let relative = index - 12
        in if relative < POINTERS_PER_BLOCK then bmap_single e inode relative allocate
           else
             let relative = relative - POINTERS_PER_BLOCK
             in if relative \<ge> POINTERS_PER_BLOCK * POINTERS_PER_BLOCK then raise (BadBlock index)
                else if i_double inode = 0 then
                  if \<not> allocate then ret (None, inode)
                  else
                    bind (allocate_block e) (\<lambda>block.
                    bmap_inner e (inode\<lparr>i_double := block\<rparr>) relative allocate)
                else bmap_inner e inode relative allocate)"


subsection \<open>Removing blocks\<close>

definition clear_bit :: "u64 \<Rightarrow> ('a album_scheme, unit, fs_error) prog" where
  "clear_bit block = modify (al_bitmap_update (\<lambda>bm. clear_block bm (unat block)))"

text \<open>
  Clearing the pointer at \<open>index\<close> of the loaded pointer block: the block it points to is freed and
  counted off.
\<close>

definition drop_pointer ::
    "inode \<Rightarrow> bytes \<Rightarrow> nat \<Rightarrow> ('a album_scheme, bytes \<times> inode, fs_error) prog" where
  "drop_pointer inode pointers index =
     (let block = pointer_at pointers index
      in if block \<noteq> 0 then
           bind (clear_bit block) (\<lambda>_.
           ret (set_pointer pointers index 0, inode\<lparr>i_block_count := i_block_count inode - 1\<rparr>))
         else ret (pointers, inode))"

definition all_zero :: "bytes \<Rightarrow> bool" where
  "all_zero bs \<longleftrightarrow> list_all (\<lambda>b. b = 0) bs"

definition remove_direct ::
    "inode \<Rightarrow> nat \<Rightarrow> ('a album_scheme, inode, fs_error) prog" where
  "remove_direct inode index =
     (let block = i_direct inode ! index;
          inode = inode\<lparr>i_direct := (i_direct inode)[index := 0]\<rparr>
      in if block \<noteq> 0 then
           bind (clear_bit block) (\<lambda>_.
           ret (inode\<lparr>i_block_count := i_block_count inode - 1\<rparr>))
         else ret inode)"

definition remove_single ::
    "ext \<Rightarrow> inode \<Rightarrow> nat \<Rightarrow> ('a album_scheme, inode, fs_error) prog" where
  "remove_single e inode relative =
     (if i_single inode = 0 then ret inode
      else
        bind (read_block e (unat (i_single inode))) (\<lambda>pointers.
        bind (drop_pointer inode pointers relative) (\<lambda>(pointers, inode).
        if all_zero pointers then
          bind (clear_bit (i_single inode)) (\<lambda>_. ret (inode\<lparr>i_single := 0\<rparr>))
        else
          bind (write_block e (unat (i_single inode)) pointers) (\<lambda>_. ret inode))))"

definition remove_double ::
    "ext \<Rightarrow> inode \<Rightarrow> nat \<Rightarrow> ('a album_scheme, inode, fs_error) prog" where
  "remove_double e inode relative =
     (let outer_index = relative div POINTERS_PER_BLOCK;
          inner_index = relative mod POINTERS_PER_BLOCK
      in bind (read_block e (unat (i_double inode))) (\<lambda>outer.
         let inner_block = pointer_at outer outer_index
         in if inner_block = 0 then ret inode
            else
              bind (read_block e (unat inner_block)) (\<lambda>inner.
              bind (drop_pointer inode inner inner_index) (\<lambda>(inner, inode).
              bind
                (if all_zero inner then
                   bind (clear_bit inner_block) (\<lambda>_. ret (set_pointer outer outer_index 0))
                 else
                   bind (write_block e (unat inner_block) inner) (\<lambda>_. ret outer)) (\<lambda>outer.
              if all_zero outer then
                bind (clear_bit (i_double inode)) (\<lambda>_. ret (inode\<lparr>i_double := 0\<rparr>))
              else
                bind (write_block e (unat (i_double inode)) outer) (\<lambda>_. ret inode))))))"

definition remove_mapped_block ::
    "ext \<Rightarrow> inode \<Rightarrow> nat \<Rightarrow> ('a album_scheme, inode, fs_error) prog" where
  "remove_mapped_block e inode index =
     (if index < 12 then remove_direct inode index
      else
        let relative = index - 12
        in if relative < POINTERS_PER_BLOCK then remove_single e inode relative
           else
             let relative = relative - POINTERS_PER_BLOCK
             in if relative \<ge> POINTERS_PER_BLOCK * POINTERS_PER_BLOCK \<or> i_double inode = 0
                then ret inode
                else remove_double e inode relative)"

fun remove_blocks :: "ext \<Rightarrow> inode \<Rightarrow> nat list \<Rightarrow> ('a album_scheme, inode, fs_error) prog" where
  "remove_blocks e inode [] = ret inode"
| "remove_blocks e inode (index # indices) =
     bind (remove_mapped_block e inode index) (\<lambda>inode. remove_blocks e inode indices)"

definition free_all_blocks :: "ext \<Rightarrow> inode \<Rightarrow> ('a album_scheme, inode, fs_error) prog" where
  "free_all_blocks e inode =
     (let logical_blocks = div_ceil (unat (i_size inode)) UB
      in bind (remove_blocks e inode [0..<logical_blocks]) (\<lambda>inode.
         ret (inode\<lparr>i_size := 0\<rparr>)))"

end
