(* ===== verification/AlbumOps.thy ===== *)
theory AlbumOps
  imports Album
begin

text \<open>
  The operations of \<^verbatim>\<open>src/fs/album.rs\<close> on directories and files, composed of the block mapping of
  \<open>Album\<close> and the record loops of \<open>DirChain\<close>.
\<close>


subsection \<open>Directories\<close>

fun entries_loop ::
    "ext \<Rightarrow> inode \<Rightarrow> nat list \<Rightarrow> ('a album_scheme, (nat \<times> dir_entry) list, fs_error) prog" where
  "entries_loop e inode [] = ret []"
| "entries_loop e inode (logical # logicals) =
     bind (bmap e inode logical False) (\<lambda>(block, inode).
     case block of
       None \<Rightarrow> entries_loop e inode logicals
     | Some block \<Rightarrow>
         bind (read_block e (unat block)) (\<lambda>payload.
         bind (lift (scan_entries payload 0)) (\<lambda>entries.
         bind (entries_loop e inode logicals) (\<lambda>rest.
         ret (map (\<lambda>(offset, entry). (logical * UB + offset, entry)) entries @ rest)))))"

definition directory_entries ::
    "ext \<Rightarrow> inode \<Rightarrow> ('a album_scheme, (nat \<times> dir_entry) list, fs_error) prog" where
  "directory_entries e inode =
     (let blocks = div_ceil (unat (i_size inode)) UB in entries_loop e inode [0..<blocks])"

definition lookup ::
    "ext \<Rightarrow> u64 \<Rightarrow> bytes \<Rightarrow> ('a album_scheme, u64 option, fs_error) prog" where
  "lookup e parent_ino name =
     bind (getattr e parent_ino) (\<lambda>parent.
     if \<not> is_dir parent then raise NotDir
     else
       bind (directory_entries e parent) (\<lambda>entries.
       ret (map_option (\<lambda>(_, entry). d_inode entry)
         (find (\<lambda>(_, entry). d_inode entry \<noteq> 0 \<and> d_name entry = name) entries))))"

definition readdir ::
    "ext \<Rightarrow> u64 \<Rightarrow> ('a album_scheme, (u64 \<times> bytes \<times> u8) list, fs_error) prog" where
  "readdir e ino =
     bind (getattr e ino) (\<lambda>inode.
     if \<not> is_dir inode then raise NotDir
     else
       bind (directory_entries e inode) (\<lambda>entries.
       ret (map (\<lambda>(_, entry). (d_inode entry, d_name entry, d_file_type entry))
         (filter (\<lambda>(_, entry). d_inode entry \<noteq> 0) entries))))"

definition bump_directory ::
    "ext \<Rightarrow> u64 \<Rightarrow> inode \<Rightarrow> ('a album_scheme, unit, fs_error) prog" where
  "bump_directory e ino inode =
     bind (now e) (\<lambda>t.
     write_inode e ino (inode\<lparr>i_mtime := t, i_ctime := t\<rparr>))"

text \<open>
  The loop over the blocks of the directory: \<open>Some ()\<close> when the entry was placed. The last lines
  of \<open>add_dir_entry\<close> append a block.
\<close>

fun add_loop ::
    "ext \<Rightarrow> u64 \<Rightarrow> inode \<Rightarrow> u64 \<Rightarrow> bytes \<Rightarrow> u8 \<Rightarrow> nat \<Rightarrow> nat list \<Rightarrow>
      ('a album_scheme, inode option, fs_error) prog" where
  "add_loop e parent_ino parent ino name file_type needed [] = ret (Some parent)"
| "add_loop e parent_ino parent ino name file_type needed (logical # logicals) =
     bind (bmap e parent logical False) (\<lambda>(block, parent).
     bind (lift (ok_or (Manifest ''directory has a hole'') block)) (\<lambda>block.
     bind (read_block e (unat block)) (\<lambda>payload.
     bind (lift (insert_entry payload 0 ino name file_type needed)) (\<lambda>placed.
     case placed of
       Some payload \<Rightarrow>
         bind (write_block e (unat block) payload) (\<lambda>_.
         bind (bump_directory e parent_ino parent) (\<lambda>_.
         ret None))
     | None \<Rightarrow> add_loop e parent_ino parent ino name file_type needed logicals))))"

definition add_dir_entry ::
    "ext \<Rightarrow> u64 \<Rightarrow> u64 \<Rightarrow> bytes \<Rightarrow> u8 \<Rightarrow> ('a album_scheme, unit, fs_error) prog" where
  "add_dir_entry e parent_ino ino name file_type =
     bind (getattr e parent_ino) (\<lambda>parent.
     if \<not> is_dir parent then raise NotDir
     else
       let needed = required_len (length name)
       in if needed > UB \<or> length name > 255 then raise NoSpace
          else
            let block_count = div_ceil (unat (i_size parent)) UB
            in bind (add_loop e parent_ino parent ino name file_type needed [0..<block_count])
                 (\<lambda>unplaced.
               case unplaced of
                 None \<Rightarrow> ret ()
               | Some parent \<Rightarrow>
                   bind (bmap e parent block_count True) (\<lambda>(block, parent).
                   bind (lift (ok_or NoSpace block)) (\<lambda>block.
                   bind (lift (fresh_directory_block ino name file_type)) (\<lambda>payload.
                   bind (write_block e (unat block) payload) (\<lambda>_.
                   bump_directory e parent_ino (parent\<lparr>i_size := i_size parent + of_nat UB\<rparr>)))))))"

fun remove_loop ::
    "ext \<Rightarrow> u64 \<Rightarrow> inode \<Rightarrow> bytes \<Rightarrow> nat list \<Rightarrow> ('a album_scheme, unit, fs_error) prog" where
  "remove_loop e parent_ino parent name [] = raise NotFound"
| "remove_loop e parent_ino parent name (logical # logicals) =
     bind (bmap e parent logical False) (\<lambda>(block, parent).
     bind (lift (ok_or (Manifest ''directory has a hole'') block)) (\<lambda>block.
     bind (read_block e (unat block)) (\<lambda>payload.
     bind (lift (remove_entry payload 0 None name)) (\<lambda>removed.
     case removed of
       Some payload \<Rightarrow>
         bind (write_block e (unat block) payload) (\<lambda>_.
         bump_directory e parent_ino parent)
     | None \<Rightarrow> remove_loop e parent_ino parent name logicals))))"

definition remove_dir_entry ::
    "ext \<Rightarrow> u64 \<Rightarrow> bytes \<Rightarrow> ('a album_scheme, unit, fs_error) prog" where
  "remove_dir_entry e parent_ino name =
     bind (getattr e parent_ino) (\<lambda>parent.
     if \<not> is_dir parent then raise NotDir
     else
       let blocks = div_ceil (unat (i_size parent)) UB
       in remove_loop e parent_ino parent name [0..<blocks])"

definition update_dotdot :: "ext \<Rightarrow> inode \<Rightarrow> u64 \<Rightarrow> ('a album_scheme, unit, fs_error) prog" where
  "update_dotdot e directory new_parent =
     bind (bmap e directory 0 False) (\<lambda>(block, _).
     bind (lift (ok_or (Manifest ''directory has no first block'') block)) (\<lambda>block.
     bind (read_block e (unat block)) (\<lambda>payload.
     bind (lift (retarget_dotdot payload 0 new_parent)) (\<lambda>found.
     case found of
       Some payload \<Rightarrow> write_block e (unat block) payload
     | None \<Rightarrow> raise (Manifest ''directory has no parent entry'')))))"


subsection \<open>Creating\<close>

definition create_file ::
    "ext \<Rightarrow> u64 \<Rightarrow> bytes \<Rightarrow> u32 \<Rightarrow> ('a album_scheme, u64, fs_error) prog" where
  "create_file e parent_ino name mode =
     bind (lookup e parent_ino name) (\<lambda>found.
     if found \<noteq> None then raise Exists
     else
       bind (alloc_inode e) (\<lambda>ino.
       bind (now e) (\<lambda>t.
       let inode = inode_default\<lparr>i_mode := S_IFREG OR (mode AND 0xFFF), i_nlink := 1,
             i_atime := t, i_mtime := t, i_ctime := t\<rparr>
       in bind (write_inode e ino inode) (\<lambda>_.
          bind (add_dir_entry e parent_ino ino name FILE_TYPE_FILE) (\<lambda>_.
          bind (sync e) (\<lambda>_.
          ret ino))))))"

definition mkdir ::
    "ext \<Rightarrow> u64 \<Rightarrow> bytes \<Rightarrow> u32 \<Rightarrow> ('a album_scheme, u64, fs_error) prog" where
  "mkdir e parent_ino name mode =
     bind (lookup e parent_ino name) (\<lambda>found.
     if found \<noteq> None then raise Exists
     else
       bind (getattr e parent_ino) (\<lambda>parent.
       if \<not> is_dir parent then raise NotDir
       else
         bind (alloc_inode e) (\<lambda>ino.
         bind (allocate_block e) (\<lambda>data_block.
         bind (lift (initial_directory_block ino parent_ino)) (\<lambda>payload.
         bind (write_block e (unat data_block) payload) (\<lambda>_.
         bind (now e) (\<lambda>t.
         let inode = inode_default\<lparr>i_mode := S_IFDIR OR (mode AND 0xFFF), i_nlink := 2,
               i_size := of_nat UB, i_atime := t, i_mtime := t, i_ctime := t, i_block_count := 1,
               i_direct := (i_direct inode_default)[0 := data_block]\<rparr>
         in bind (write_inode e ino inode) (\<lambda>_.
            bind (add_dir_entry e parent_ino ino name FILE_TYPE_DIR) (\<lambda>_.
            bind (getattr e parent_ino) (\<lambda>parent.
            bind (write_inode e parent_ino
                (parent\<lparr>i_nlink := i_nlink parent + 1, i_mtime := t, i_ctime := t\<rparr>)) (\<lambda>_.
            bind (sync e) (\<lambda>_.
            ret ino))))))))))))"


subsection \<open>Reading and writing\<close>

lemma step_positive: "0 < n \<Longrightarrow> 0 < min n (UB - pos mod UB)"
  by (simp add: mod_less_divisor)

function read_loop ::
    "ext \<Rightarrow> inode \<Rightarrow> nat \<Rightarrow> nat \<Rightarrow> bytes \<Rightarrow> ('a album_scheme, bytes, fs_error) prog" where
  "read_loop e inode pos end_off output =
     (if pos < end_off then
        let logical = pos div UB;
            within = pos mod UB;
            take_len = min (end_off - pos) (UB - within)
        in bind (bmap e inode logical False) (\<lambda>(block, inode).
           bind
             (case block of
                Some block \<Rightarrow>
                  bind (read_block e (unat block)) (\<lambda>payload.
                  ret (output @ slice payload within (within + take_len)))
              | None \<Rightarrow> ret (output @ replicate take_len 0)) (\<lambda>output.
           read_loop e inode (pos + take_len) end_off output))
      else ret output)"
  by pat_completeness auto
termination
  by (relation "measure (\<lambda>(_, _, pos, end_off, _). end_off - pos)")
    (use step_positive in \<open>force simp: Let_def intro: diff_less_mono2\<close>)+

declare read_loop.simps [simp del]

definition read_file ::
    "ext \<Rightarrow> u64 \<Rightarrow> nat \<Rightarrow> nat \<Rightarrow> ('a album_scheme, bytes, fs_error) prog" where
  "read_file e ino offset len =
     bind (getattr e ino) (\<lambda>inode.
     if is_dir inode then raise IsDir
     else if offset \<ge> unat (i_size inode) \<or> len = 0 then ret []
     else
       let end_off = min (unat (i_size inode)) (min (offset + len) MAX64)
       in read_loop e inode offset end_off [])"

function write_loop ::
    "ext \<Rightarrow> inode \<Rightarrow> nat \<Rightarrow> bytes \<Rightarrow> nat \<Rightarrow> ('a album_scheme, inode, fs_error) prog" where
  "write_loop e inode pos data consumed =
     (if consumed < length data then
        let logical = pos div UB;
            within = pos mod UB;
            take_len = min (length data - consumed) (UB - within)
        in bind (bmap e inode logical True) (\<lambda>(block, inode).
           bind (lift (ok_or NoSpace block)) (\<lambda>block.
           bind (read_block e (unat block)) (\<lambda>payload.
           let payload = put payload within (slice data consumed (consumed + take_len))
           in bind (write_block e (unat block) payload) (\<lambda>_.
              write_loop e inode (pos + take_len) data (consumed + take_len)))))
      else ret inode)"
  by pat_completeness auto
termination
  by (relation "measure (\<lambda>(_, _, _, data, consumed). length data - consumed)")
    (use step_positive in \<open>force simp: Let_def intro: diff_less_mono2\<close>)+

declare write_loop.simps [simp del]

definition write_file ::
    "ext \<Rightarrow> u64 \<Rightarrow> nat \<Rightarrow> bytes \<Rightarrow> ('a album_scheme, nat, fs_error) prog" where
  "write_file e ino offset data =
     bind (getattr e ino) (\<lambda>inode.
     if is_dir inode then raise IsDir
     else
       let end_off = offset + length data
       in if end_off > MAX64 then raise (Manifest ''file offset overflow'')
          else
            bind (write_loop e inode offset data 0) (\<lambda>inode.
            let inode = (if end_off > unat (i_size inode)
                  then inode\<lparr>i_size := of_nat end_off\<rparr> else inode)
            in bind (now e) (\<lambda>timestamp.
               bind (write_inode e ino (inode\<lparr>i_mtime := timestamp, i_ctime := timestamp\<rparr>)) (\<lambda>_.
               bind (sync e) (\<lambda>_.
               ret (length data))))))"

definition truncate_file ::
    "ext \<Rightarrow> u64 \<Rightarrow> nat \<Rightarrow> ('a album_scheme, unit, fs_error) prog" where
  "truncate_file e ino new_size =
     bind (getattr e ino) (\<lambda>inode.
     if is_dir inode then raise IsDir
     else
       bind
         (if new_size < unat (i_size inode) then
            let keep_blocks = div_ceil new_size UB;
                old_blocks = div_ceil (unat (i_size inode)) UB
            in bind (remove_blocks e inode [keep_blocks..<old_blocks]) (\<lambda>inode.
               let tail = new_size mod UB
               in if tail \<noteq> 0 then
                    bind (bmap e inode (keep_blocks - 1) False) (\<lambda>(block, inode).
                    case block of
                      Some block \<Rightarrow>
                        bind (read_block e (unat block)) (\<lambda>payload.
                        bind (write_block e (unat block)
                            (put payload tail (replicate (length payload - tail) 0))) (\<lambda>_.
                        ret inode))
                    | None \<Rightarrow> ret inode)
                  else ret inode)
          else ret inode) (\<lambda>inode.
       bind (now e) (\<lambda>t.
       bind (write_inode e ino (inode\<lparr>i_size := of_nat new_size, i_mtime := t, i_ctime := t\<rparr>)) (\<lambda>_.
       sync e))))"


subsection \<open>Removing and renaming\<close>

definition saturating_pred :: "u32 \<Rightarrow> u32" where
  "saturating_pred n = (if n = 0 then 0 else n - 1)"

definition unlink :: "ext \<Rightarrow> u64 \<Rightarrow> bytes \<Rightarrow> ('a album_scheme, unit, fs_error) prog" where
  "unlink e parent_ino name =
     bind (lookup e parent_ino name) (\<lambda>found.
     bind (lift (ok_or NotFound found)) (\<lambda>ino.
     bind (getattr e ino) (\<lambda>inode.
     if is_dir inode then raise IsDir
     else
       bind (remove_dir_entry e parent_ino name) (\<lambda>_.
       let inode = inode\<lparr>i_nlink := saturating_pred (i_nlink inode)\<rparr>
       in bind
            (if i_nlink inode = 0 then
               bind (free_all_blocks e inode) (\<lambda>_. free_inode e ino)
             else
               bind (now e) (\<lambda>t. write_inode e ino (inode\<lparr>i_ctime := t\<rparr>))) (\<lambda>_.
          sync e)))))"

definition rmdir :: "ext \<Rightarrow> u64 \<Rightarrow> bytes \<Rightarrow> ('a album_scheme, unit, fs_error) prog" where
  "rmdir e parent_ino name =
     bind (lookup e parent_ino name) (\<lambda>found.
     bind (lift (ok_or NotFound found)) (\<lambda>ino.
     bind (getattr e ino) (\<lambda>inode.
     if \<not> is_dir inode then raise NotDir
     else
       bind (readdir e ino) (\<lambda>entries.
       if list_ex (\<lambda>(_, entry_name, _). entry_name \<noteq> [46] \<and> entry_name \<noteq> [46, 46]) entries
       then raise NotEmpty
       else
         bind (remove_dir_entry e parent_ino name) (\<lambda>_.
         bind (free_all_blocks e inode) (\<lambda>_.
         bind (free_inode e ino) (\<lambda>_.
         bind (getattr e parent_ino) (\<lambda>parent.
         bind (now e) (\<lambda>t.
         bind (write_inode e parent_ino
             (parent\<lparr>i_nlink := saturating_pred (i_nlink parent), i_mtime := t, i_ctime := t\<rparr>)) (\<lambda>_.
         sync e))))))))))"

definition rename_entry ::
    "ext \<Rightarrow> u64 \<Rightarrow> bytes \<Rightarrow> u64 \<Rightarrow> bytes \<Rightarrow> ('a album_scheme, unit, fs_error) prog" where
  "rename_entry e parent_ino name new_parent_ino new_name =
     (if parent_ino = new_parent_ino \<and> name = new_name then ret ()
      else
        bind (lookup e parent_ino name) (\<lambda>found.
        bind (lift (ok_or NotFound found)) (\<lambda>ino.
        bind (getattr e ino) (\<lambda>source.
        bind (lookup e new_parent_ino new_name) (\<lambda>existing.
        if existing = Some ino then ret ()
        else
          bind
            (case existing of
               None \<Rightarrow> ret ()
             | Some target_ino \<Rightarrow>
                 bind (getattr e target_ino) (\<lambda>target.
                 if is_dir source \<and> \<not> is_dir target then raise NotDir
                 else if \<not> is_dir source \<and> is_dir target then raise IsDir
                 else if is_dir source then rmdir e new_parent_ino new_name
                 else unlink e new_parent_ino new_name)) (\<lambda>_.
          let file_type = (if is_dir source then FILE_TYPE_DIR else FILE_TYPE_FILE)
          in bind (add_dir_entry e new_parent_ino ino new_name file_type) (\<lambda>_.
             bind (remove_dir_entry e parent_ino name) (\<lambda>_.
             bind
               (if is_dir source \<and> parent_ino \<noteq> new_parent_ino then
                  bind (update_dotdot e source new_parent_ino) (\<lambda>_.
                  bind (now e) (\<lambda>timestamp.
                  bind (getattr e parent_ino) (\<lambda>old_parent.
                  bind (write_inode e parent_ino
                      (old_parent\<lparr>i_nlink := saturating_pred (i_nlink old_parent),
                         i_mtime := timestamp, i_ctime := timestamp\<rparr>)) (\<lambda>_.
                  bind (getattr e new_parent_ino) (\<lambda>new_parent.
                  write_inode e new_parent_ino
                    (new_parent\<lparr>i_nlink := i_nlink new_parent + 1,
                       i_mtime := timestamp, i_ctime := timestamp\<rparr>))))))
                else ret ()) (\<lambda>_.
             sync e)))))))))"

end
