(* ===== verification/Fuse.thy ===== *)
theory Fuse
  imports AlbumOps
begin

text \<open>
  \<^verbatim>\<open>src/fs/fuse.rs\<close>: the handlers the kernel calls. A handler takes the lock, runs one or more
  filesystem operations and replies with a value or an \<open>errno\<close>, so it is a program whose error is
  a number. A panic while the lock is held poisons it, and every later handler replies \<open>EIO\<close>.
\<close>

subsection \<open>Errors and attributes\<close>

definition ENOENT :: int where "ENOENT = 2"
definition EIO :: int where "EIO = 5"
definition EACCES :: int where "EACCES = 13"
definition EEXIST :: int where "EEXIST = 17"
definition ENOTDIR :: int where "ENOTDIR = 20"
definition EISDIR :: int where "EISDIR = 21"
definition EINVAL :: int where "EINVAL = 22"
definition ENOSPC :: int where "ENOSPC = 28"
definition ENOTEMPTY :: int where "ENOTEMPTY = 39"

fun errno_for :: "fs_error \<Rightarrow> int" where
  "errno_for NotFound = ENOENT"
| "errno_for Exists = EEXIST"
| "errno_for NotEmpty = ENOTEMPTY"
| "errno_for NotDir = ENOTDIR"
| "errno_for IsDir = EISDIR"
| "errno_for NoSpace = ENOSPC"
| "errno_for Auth = EACCES"
| "errno_for _ = EIO"

datatype file_kind = Directory | RegularFile

record file_attr =
  fa_ino :: u64
  fa_size :: u64
  fa_blocks :: u64
  fa_atime :: u64
  fa_mtime :: u64
  fa_ctime :: u64
  fa_crtime :: u64
  fa_kind :: file_kind
  fa_perm :: u16
  fa_nlink :: u32
  fa_uid :: u32
  fa_gid :: u32
  fa_rdev :: u32
  fa_blksize :: u32
  fa_flags :: u32

text \<open>
  A \<open>SystemTime\<close> is its number of seconds since the epoch; \<open>checked_add\<close> fails beyond \<open>i64::MAX\<close>.
\<close>

definition timestamp :: "u64 \<Rightarrow> u64" where
  "timestamp seconds = (if unat seconds \<le> 2 ^ 63 - 1 then seconds else 0)"

definition to_fileattr :: "u64 \<Rightarrow> inode \<Rightarrow> file_attr" where
  "to_fileattr ino inode =
     (let atime = timestamp (i_atime inode);
          mtime = timestamp (i_mtime inode);
          ctime = timestamp (i_ctime inode)
      in \<lparr>fa_ino = ino, fa_size = i_size inode,
          fa_blocks = of_nat (div_ceil (unat (i_size inode)) 512),
          fa_atime = atime, fa_mtime = mtime, fa_ctime = ctime, fa_crtime = ctime,
          fa_kind = (if is_dir inode then Directory else RegularFile),
          fa_perm = ucast (i_mode inode AND 0xFFF), fa_nlink = i_nlink inode,
          fa_uid = i_uid inode, fa_gid = i_gid inode, fa_rdev = 0, fa_blksize = 4096,
          fa_flags = 0\<rparr>)"

definition readdir_page :: "nat \<Rightarrow> int \<Rightarrow> nat \<Rightarrow> (nat \<times> int) list" where
  "readdir_page entry_count offset max_entries =
     (let start = nat (max offset 0)
      in map (\<lambda>index. (index, int index + 1)) (take max_entries [start..<entry_count]))"


subsection \<open>The lock\<close>

text \<open>The filesystem behind its mutex, which a panic of the code that holds it poisons.\<close>

record fuse_state =
  fu_fs :: album
  fu_poisoned :: bool

definition lock :: "(album, 'b, fs_error) prog \<Rightarrow> (fuse_state, 'b, int) prog" where
  "lock m = (\<lambda>s.
     if fu_poisoned s then (Err EIO, s)
     else case m (fu_fs s) of
       (Ok x, fs) \<Rightarrow> (Ok x, s\<lparr>fu_fs := fs\<rparr>)
     | (Err e, fs) \<Rightarrow> (Err (errno_for e), s\<lparr>fu_fs := fs\<rparr>)
     | (Panic, fs) \<Rightarrow> (Panic, s\<lparr>fu_fs := fs, fu_poisoned := True\<rparr>))"

text \<open>\<open>name.to_str()\<close>: a name that is not UTF-8 is refused before the lock is taken.\<close>

definition with_name :: "bytes \<Rightarrow> ('s, 'b, int) prog \<Rightarrow> ('s, 'b, int) prog" where
  "with_name name m = (if utf8_valid name then m else raise EINVAL)"


subsection \<open>Handlers\<close>

definition fuse_destroy :: "ext \<Rightarrow> (fuse_state, unit, int) prog" where
  "fuse_destroy e = (\<lambda>s. case lock (sync e) s of (Panic, s) \<Rightarrow> (Panic, s) | (_, s) \<Rightarrow> (Ok (), s))"

definition fuse_lookup ::
    "ext \<Rightarrow> u64 \<Rightarrow> bytes \<Rightarrow> (fuse_state, file_attr, int) prog" where
  "fuse_lookup e parent name =
     with_name name (lock (
       bind (lookup e parent name) (\<lambda>found.
       bind (lift (ok_or NotFound found)) (\<lambda>ino.
       bind (getattr e ino) (\<lambda>inode.
       ret (to_fileattr ino inode))))))"

definition fuse_getattr :: "ext \<Rightarrow> u64 \<Rightarrow> (fuse_state, file_attr, int) prog" where
  "fuse_getattr e ino = lock (bind (getattr e ino) (\<lambda>inode. ret (to_fileattr ino inode)))"

text \<open>
  A \<open>SystemTime\<close> argument is its whole seconds relative to the epoch, negative before it, where
  \<open>duration_since\<close> fails and the code takes 0.
\<close>

definition system_time_seconds :: "int \<Rightarrow> u64" where
  "system_time_seconds t = (if t < 0 then 0 else of_int t)"

datatype time_or_now = SpecificTime int | Now

definition time_or_now_seconds :: "ext \<Rightarrow> time_or_now \<Rightarrow> ('a world_scheme, u64, fs_error) prog" where
  "time_or_now_seconds e t =
     (case t of SpecificTime t \<Rightarrow> ret (system_time_seconds t) | Now \<Rightarrow> now e)"

definition set_time ::
    "ext \<Rightarrow> time_or_now option \<Rightarrow> (u64 \<Rightarrow> inode \<Rightarrow> inode) \<Rightarrow> inode \<Rightarrow>
      ('a world_scheme, inode, fs_error) prog" where
  "set_time e t put_time inode =
     (case t of
        None \<Rightarrow> ret inode
      | Some t \<Rightarrow> bind (time_or_now_seconds e t) (\<lambda>seconds. ret (put_time seconds inode)))"

definition fuse_setattr ::
    "ext \<Rightarrow> u64 \<Rightarrow> u32 option \<Rightarrow> u32 option \<Rightarrow> u32 option \<Rightarrow> u64 option \<Rightarrow>
      time_or_now option \<Rightarrow> time_or_now option \<Rightarrow> int option \<Rightarrow>
      (fuse_state, file_attr, int) prog" where
  "fuse_setattr e ino mode uid gid requested_size atime mtime ctime =
     lock (
       bind (case requested_size of None \<Rightarrow> ret () | Some new_size \<Rightarrow> truncate_file e ino (unat new_size)) (\<lambda>_.
       bind (getattr e ino) (\<lambda>inode.
       let inode = (case mode of None \<Rightarrow> inode
             | Some new_mode \<Rightarrow> inode\<lparr>i_mode := (i_mode inode AND S_IFMT) OR (new_mode AND 0xFFF)\<rparr>);
           inode = (case uid of None \<Rightarrow> inode | Some new_uid \<Rightarrow> inode\<lparr>i_uid := new_uid\<rparr>);
           inode = (case gid of None \<Rightarrow> inode | Some new_gid \<Rightarrow> inode\<lparr>i_gid := new_gid\<rparr>)
       in bind (set_time e atime (\<lambda>t i. i\<lparr>i_atime := t\<rparr>) inode) (\<lambda>inode.
          bind (set_time e mtime (\<lambda>t i. i\<lparr>i_mtime := t\<rparr>) inode) (\<lambda>inode.
          let inode = (case ctime of None \<Rightarrow> inode | Some t \<Rightarrow> inode\<lparr>i_ctime := system_time_seconds t\<rparr>)
          in bind (write_inode e ino inode) (\<lambda>_.
             bind (sync e) (\<lambda>_.
             ret (to_fileattr ino inode))))))))"

definition fuse_read ::
    "ext \<Rightarrow> u64 \<Rightarrow> int \<Rightarrow> u32 \<Rightarrow> (fuse_state, bytes, int) prog" where
  "fuse_read e ino offset len =
     (if offset < 0 then raise EINVAL
      else lock (read_file e ino (nat offset) (unat len)))"

definition fuse_write ::
    "ext \<Rightarrow> u64 \<Rightarrow> int \<Rightarrow> bytes \<Rightarrow> (fuse_state, u32, int) prog" where
  "fuse_write e ino offset data =
     (if offset < 0 then raise EINVAL
      else lock (bind (write_file e ino (nat offset) data) (\<lambda>written. ret (of_nat written))))"

text \<open>The owner of a new inode is set by a second write, as the handlers do.\<close>

definition own_new_inode ::
    "ext \<Rightarrow> u64 \<Rightarrow> u32 \<Rightarrow> u32 \<Rightarrow> ('a album_scheme, file_attr, fs_error) prog" where
  "own_new_inode e ino uid gid =
     bind (getattr e ino) (\<lambda>inode.
     let inode = inode\<lparr>i_uid := uid, i_gid := gid\<rparr>
     in bind (write_inode e ino inode) (\<lambda>_.
        bind (sync e) (\<lambda>_.
        ret (to_fileattr ino inode))))"

definition fuse_create ::
    "ext \<Rightarrow> u32 \<Rightarrow> u32 \<Rightarrow> u64 \<Rightarrow> bytes \<Rightarrow> u32 \<Rightarrow> u32 \<Rightarrow> (fuse_state, file_attr, int) prog" where
  "fuse_create e uid gid parent name mode umask =
     with_name name (lock (
       bind (create_file e parent name (mode AND NOT umask)) (\<lambda>ino. own_new_inode e ino uid gid)))"

definition fuse_mkdir ::
    "ext \<Rightarrow> u32 \<Rightarrow> u32 \<Rightarrow> u64 \<Rightarrow> bytes \<Rightarrow> u32 \<Rightarrow> u32 \<Rightarrow> (fuse_state, file_attr, int) prog" where
  "fuse_mkdir e uid gid parent name mode umask =
     with_name name (lock (
       bind (mkdir e parent name (mode AND NOT umask)) (\<lambda>ino. own_new_inode e ino uid gid)))"

definition fuse_unlink :: "ext \<Rightarrow> u64 \<Rightarrow> bytes \<Rightarrow> (fuse_state, unit, int) prog" where
  "fuse_unlink e parent name = with_name name (lock (unlink e parent name))"

definition fuse_rmdir :: "ext \<Rightarrow> u64 \<Rightarrow> bytes \<Rightarrow> (fuse_state, unit, int) prog" where
  "fuse_rmdir e parent name = with_name name (lock (rmdir e parent name))"

definition fuse_rename ::
    "ext \<Rightarrow> u64 \<Rightarrow> bytes \<Rightarrow> u64 \<Rightarrow> bytes \<Rightarrow> u32 \<Rightarrow> (fuse_state, unit, int) prog" where
  "fuse_rename e parent name newparent newname flags =
     (if flags \<noteq> 0 then raise EINVAL
      else with_name name (with_name newname (lock (rename_entry e parent name newparent newname))))"

text \<open>\<open>reply.add\<close> returns true when the entry does not fit the kernel's buffer: \<open>full added entry\<close>.\<close>

fun fill_reply ::
    "((u64 \<times> int \<times> file_kind \<times> bytes) list \<Rightarrow> u64 \<times> int \<times> file_kind \<times> bytes \<Rightarrow> bool) \<Rightarrow>
      (u64 \<times> bytes \<times> u8) list \<Rightarrow> (u64 \<times> int \<times> file_kind \<times> bytes) list \<Rightarrow> (nat \<times> int) list \<Rightarrow>
      (u64 \<times> int \<times> file_kind \<times> bytes) list" where
  "fill_reply full entries added [] = added"
| "fill_reply full entries added ((index, next_offset) # page) =
     (let (entry_ino, name, file_type) = entries ! index;
          kind = (if file_type = 2 then Directory else RegularFile);
          item = (entry_ino, next_offset, kind, name)
      in if full added item then added else fill_reply full entries (added @ [item]) page)"

definition fuse_readdir ::
    "ext \<Rightarrow> ((u64 \<times> int \<times> file_kind \<times> bytes) list \<Rightarrow> u64 \<times> int \<times> file_kind \<times> bytes \<Rightarrow> bool) \<Rightarrow>
      u64 \<Rightarrow> int \<Rightarrow> (fuse_state, (u64 \<times> int \<times> file_kind \<times> bytes) list, int) prog" where
  "fuse_readdir e full ino offset =
     bind (lock (readdir e ino)) (\<lambda>entries.
     ret (fill_reply full entries [] (readdir_page (length entries) offset (length entries))))"

definition sync_reply :: "ext \<Rightarrow> (fuse_state, unit, int) prog" where
  "sync_reply e = (\<lambda>s. case lock (sync e) s of (Err _, s) \<Rightarrow> (Err EIO, s) | r \<Rightarrow> r)"

text \<open>The handlers that only make the filesystem durable.\<close>

definition fuse_flush :: "ext \<Rightarrow> (fuse_state, unit, int) prog" where
  "fuse_flush e = sync_reply e"

definition fuse_release :: "ext \<Rightarrow> (fuse_state, unit, int) prog" where
  "fuse_release e = sync_reply e"

definition fuse_releasedir :: "ext \<Rightarrow> (fuse_state, unit, int) prog" where
  "fuse_releasedir e = sync_reply e"

definition fuse_fsync :: "ext \<Rightarrow> (fuse_state, unit, int) prog" where
  "fuse_fsync e = sync_reply e"

definition fuse_fsyncdir :: "ext \<Rightarrow> (fuse_state, unit, int) prog" where
  "fuse_fsyncdir e = sync_reply e"

record fs_stat =
  st_blocks :: u64
  st_bfree :: nat
  st_bavail :: nat
  st_files :: u64
  st_ffree :: u64
  st_bsize :: u32
  st_namelen :: u32
  st_frsize :: u32

definition fuse_statfs :: "ext \<Rightarrow> (fuse_state, fs_stat, int) prog" where
  "fuse_statfs e =
     lock (
       bind (used_inodes e) (\<lambda>used_inodes.
       bind (get (\<lambda>s. (total_blocks s, free_blocks s, inode_count s))) (\<lambda>(blocks, free, inodes).
       ret \<lparr>st_blocks = blocks, st_bfree = free, st_bavail = free, st_files = inodes,
            st_ffree = inodes - of_nat used_inodes, st_bsize = 4096, st_namelen = 255, st_frsize = 4096\<rparr>)))"


subsection \<open>Mounting\<close>

text \<open>
  \<open>fuser::mount2\<close> is foreign: it calls the handlers on the shared state until the filesystem is
  unmounted. It is the program \<open>mount2\<close>, an argument of the definitions below.
\<close>

type_synonym session = "(fuse_state, unit, fs_error) prog"

definition lock_shared :: "(album, 'b, fs_error) prog \<Rightarrow> (fuse_state, 'b, fs_error) prog" where
  "lock_shared m = (\<lambda>s.
     if fu_poisoned s then (Err Io, s)
     else case m (fu_fs s) of
       (Panic, fs) \<Rightarrow> (Panic, s\<lparr>fu_fs := fs, fu_poisoned := True\<rparr>)
     | (r, fs) \<Rightarrow> (r, s\<lparr>fu_fs := fs\<rparr>))"

definition fuse_new :: "album \<Rightarrow> fuse_state" where
  "fuse_new fs = \<lparr>fu_fs = fs, fu_poisoned = False\<rparr>"

definition mount_filesystem :: "ext \<Rightarrow> session \<Rightarrow> (album, unit, fs_error) prog" where
  "mount_filesystem e mount2 =
     bind (sync e) (\<lambda>_ fs.
       case mount2 (fuse_new fs) of
         (Panic, shared) \<Rightarrow> (Panic, fu_fs shared)
       | (mount_result, shared) \<Rightarrow>
           (case lock_shared (sync e) shared of
              (Panic, shared) \<Rightarrow> (Panic, fu_fs shared)
            | (sync_result, shared) \<Rightarrow> (and_then mount_result (\<lambda>_. sync_result), fu_fs shared)))"

text \<open>An album is opened from the files; what the session wrote is in them afterwards.\<close>

definition mount_album ::
    "ext \<Rightarrow> session \<Rightarrow> (world \<Rightarrow> (album, fs_error) res) \<Rightarrow> (world, unit, fs_error) prog" where
  "mount_album e mount2 opened w =
     (case opened w of
        Ok fs \<Rightarrow> let (r, fs) = mount_filesystem e mount2 fs in (r, world.truncate fs)
      | Err x \<Rightarrow> (Err x, w)
      | Panic \<Rightarrow> (Panic, w))"

definition mount_with_passphrase :: "ext \<Rightarrow> session \<Rightarrow> bytes option \<Rightarrow> (world, unit, fs_error) prog" where
  "mount_with_passphrase e mount2 passphrase = mount_album e mount2 (album_open_with_passphrase e passphrase)"

definition mount :: "ext \<Rightarrow> session \<Rightarrow> (world, unit, fs_error) prog" where
  "mount e mount2 = mount_with_passphrase e mount2 None"

definition mount_with_anchor :: "ext \<Rightarrow> session \<Rightarrow> path \<Rightarrow> bytes \<Rightarrow> (world, unit, fs_error) prog" where
  "mount_with_anchor e mount2 anchor passphrase = mount_album e mount2 (album_open_with_anchor e anchor passphrase)"

text \<open>
  The status of the external command: whether it could be run, and whether it succeeded.
\<close>

definition umount :: "(bool, fs_error) res \<Rightarrow> (unit, fs_error) res" where
  "umount status = and_then status (\<lambda>success. if success then Ok () else Err Io)"

end
