(* ===== verification/Stats.thy ===== *)
theory Stats
  imports AlbumOps
begin

text \<open>
  \<^verbatim>\<open>src/fs/stats.rs\<close>: the usage report. The counts are \<open>u64\<close> in the code and natural numbers
  bounded by the number of blocks here.
\<close>

record carrier_fill =
  cf_chunk_index :: u32
  cf_used_blocks :: nat
  cf_capacity_blocks :: u64

record fs_stats =
  ss_block_size :: u32
  ss_total_blocks :: u64
  ss_free_blocks :: nat
  ss_used_inodes :: nat
  ss_total_inodes :: u64
  ss_encrypted :: bool
  ss_carriers :: "carrier_fill list"

definition low_space :: "fs_stats \<Rightarrow> bool" where
  "low_space st \<longleftrightarrow> ss_total_blocks st \<noteq> 0 \<and>
     ss_free_blocks st * 100 < unat (ss_total_blocks st) * 10"

definition carrier_fill_of :: "bitmap \<Rightarrow> carrier_range \<Rightarrow> carrier_fill" where
  "carrier_fill_of bm rng =
     \<lparr>cf_chunk_index = cr_chunk_index rng,
      cf_used_blocks = length (filter (is_set bm)
        [unat (cr_block_start rng)..<unat (cr_block_start rng + cr_block_count rng)]),
      cf_capacity_blocks = cr_block_count rng\<rparr>"

definition collect_opened :: "ext \<Rightarrow> superblock \<Rightarrow> store \<Rightarrow> (fs_stats, fs_error) res" where
  "collect_opened e sb s =
     (case load_bitmap e sb s of
        (Err x, _) \<Rightarrow> Err x
      | (Panic, _) \<Rightarrow> Panic
      | (Ok bm, s) \<Rightarrow>
          let carriers = map (carrier_fill_of bm) (sb_manifest sb);
              free = count_free bm;
              fs = album_of s sb bm
          in and_then (fst (used_inodes e fs)) (\<lambda>used.
             Ok \<lparr>ss_block_size = sb_block_size sb, ss_total_blocks = sb_total_blocks sb,
                 ss_free_blocks = free, ss_used_inodes = used,
                 ss_total_inodes = sb_inode_count sb, ss_encrypted = sb_encrypted sb,
                 ss_carriers = carriers\<rparr>))"

definition collect :: "ext \<Rightarrow> bytes option \<Rightarrow> world \<Rightarrow> (fs_stats, fs_error) res" where
  "collect e passphrase w =
     and_then (open_with_passphrase e passphrase w) (\<lambda>(sb, s). collect_opened e sb s)"

definition collect_with_anchor ::
    "ext \<Rightarrow> path \<Rightarrow> bytes \<Rightarrow> world \<Rightarrow> (fs_stats, fs_error) res" where
  "collect_with_anchor e anchor passphrase w =
     and_then (open_with_anchor e anchor passphrase w) (\<lambda>(sb, s). collect_opened e sb s)"


subsection \<open>Rendering\<close>

text \<open>
  A line of output is its format string with its arguments; laying them out is the work of the
  formatter of the standard library. \<open>Ratio a b\<close> is the quotient of \<open>a\<close> and \<open>b\<close>, which the code computes in floating point.
\<close>

datatype format_arg = Num nat | Flag bool | Str string | Name path | Ratio nat nat

type_synonym text_line = "string \<times> format_arg list"

definition field_line :: "string \<Rightarrow> format_arg \<Rightarrow> text_line" where
  "field_line label v = (''{:<18} {}'', [Str label, v])"

definition carrier_line :: "carrier_fill \<Rightarrow> text_line" where
  "carrier_line carrier =
     (let percentage =
            (if cf_capacity_blocks carrier = 0 then Ratio 0 1
             else Ratio (cf_used_blocks carrier * 100) (unat (cf_capacity_blocks carrier)))
      in (''carrier {:<10} {} / {} blocks ({percentage:.1}%)'',
          [Num (unat (cf_chunk_index carrier)), Num (cf_used_blocks carrier),
           Num (unat (cf_capacity_blocks carrier)), percentage]))"

definition render :: "fs_stats \<Rightarrow> text_line list" where
  "render stats =
     [field_line ''block size'' (Num (unat (ss_block_size stats))),
      field_line ''total blocks'' (Num (unat (ss_total_blocks stats))),
      field_line ''free blocks'' (Num (ss_free_blocks stats)),
      field_line ''used inodes'' (Num (ss_used_inodes stats)),
      field_line ''total inodes'' (Num (unat (ss_total_inodes stats))),
      field_line ''encrypted'' (Str (if ss_encrypted stats then ''yes'' else ''no'')),
      field_line ''carrier count'' (Num (length (ss_carriers stats)))] @
     map carrier_line (ss_carriers stats) @
     (if low_space stats then [(''{:<18} free space is below 10 percent'', [Str ''warning''])] else [])"

end
