(* ===== verification/BlockTree.thy ===== *)
theory BlockTree
  imports Album
begin

text \<open>
  The tree of blocks an inode holds, seen through the contents of the blocks alone: twelve direct
  pointers, a table of pointers, and a table of tables. A node of the tree is a data block, named by
  its logical index, or a table; its pointer is stored in the inode or in its parent table.
\<close>

subsection \<open>Nodes and pointers\<close>

datatype node = Data nat | Single | Double | Inner nat

definition MAX_BLOCKS :: nat where
  "MAX_BLOCKS = 12 + POINTERS_PER_BLOCK + POINTERS_PER_BLOCK * POINTERS_PER_BLOCK"

lemma PPB_val: "POINTERS_PER_BLOCK = 504"
  by (simp add: POINTERS_PER_BLOCK_def UB_val)

fun valid_node :: "node \<Rightarrow> bool" where
  "valid_node (Data k) \<longleftrightarrow> k < MAX_BLOCKS"
| "valid_node (Inner j) \<longleftrightarrow> j < POINTERS_PER_BLOCK"
| "valid_node _ \<longleftrightarrow> True"

type_synonym contents = "nat \<Rightarrow> bytes"

definition entry :: "contents \<Rightarrow> u64 \<Rightarrow> nat \<Rightarrow> u64" where
  "entry V table k = (if table = 0 then 0 else pointer_at (V (unat table)) k)"

fun ptr :: "contents \<Rightarrow> inode \<Rightarrow> node \<Rightarrow> u64" where
  "ptr V i Single = i_single i"
| "ptr V i Double = i_double i"
| "ptr V i (Inner j) = entry V (i_double i) j"
| "ptr V i (Data k) =
     (if k < 12 then i_direct i ! k
      else if k - 12 < POINTERS_PER_BLOCK then entry V (i_single i) (k - 12)
      else
        let r = k - 12 - POINTERS_PER_BLOCK
        in entry V (entry V (i_double i) (r div POINTERS_PER_BLOCK)) (r mod POINTERS_PER_BLOCK))"

text \<open>The block a logical index is mapped to; 0 is a hole.\<close>

definition mapped :: "contents \<Rightarrow> inode \<Rightarrow> nat \<Rightarrow> u64" where
  "mapped V i k = ptr V i (Data k)"

text \<open>The blocks of the tree lie in the data region, are marked used, and no two nodes share one.\<close>

definition tree_ok :: "nat \<Rightarrow> nat \<Rightarrow> nat set \<Rightarrow> contents \<Rightarrow> inode \<Rightarrow> bool" where
  "tree_ok lo hi U V i \<longleftrightarrow> inode_wf i \<and>
     (\<forall>n. valid_node n \<longrightarrow> ptr V i n \<noteq> 0 \<longrightarrow>
        lo \<le> unat (ptr V i n) \<and> unat (ptr V i n) < hi \<and> unat (ptr V i n) \<in> U) \<and>
     (\<forall>n m. valid_node n \<longrightarrow> valid_node m \<longrightarrow> ptr V i n \<noteq> 0 \<longrightarrow> ptr V i n = ptr V i m \<longrightarrow> n = m)"

definition tree_blocks :: "contents \<Rightarrow> inode \<Rightarrow> nat set" where
  "tree_blocks V i = {unat (ptr V i n) | n. valid_node n \<and> ptr V i n \<noteq> 0}"

lemma tree_okD:
  assumes "tree_ok lo hi U V i" "valid_node n" "ptr V i n \<noteq> 0"
  shows "lo \<le> unat (ptr V i n)" "unat (ptr V i n) < hi" "unat (ptr V i n) \<in> U"
  using assms unfolding tree_ok_def by blast+

lemma tree_ok_inj:
  "tree_ok lo hi U V i \<Longrightarrow> valid_node n \<Longrightarrow> valid_node m \<Longrightarrow> ptr V i n \<noteq> 0 \<Longrightarrow>
    unat (ptr V i n) = unat (ptr V i m) \<Longrightarrow> n = m"
  unfolding tree_ok_def by (metis unsigned_word_eqI)

lemma tree_ok_wf: "tree_ok lo hi U V i \<Longrightarrow> length (i_direct i) = 12"
  by (simp add: tree_ok_def inode_wf_def)

text \<open>The place of a data node below the tables.\<close>

lemma outer_index: "k < MAX_BLOCKS \<Longrightarrow> \<not> k < 12 \<Longrightarrow> \<not> k - 12 < POINTERS_PER_BLOCK \<Longrightarrow>
    (k - 12 - POINTERS_PER_BLOCK) div POINTERS_PER_BLOCK < POINTERS_PER_BLOCK"
  by (simp add: MAX_BLOCKS_def PPB_val div_less_iff_less_mult)

lemma inner_index: "r mod POINTERS_PER_BLOCK < POINTERS_PER_BLOCK"
  by (simp add: PPB_val)

lemma data_index_eq:
  assumes "\<not> k < 12" "\<not> k - 12 < POINTERS_PER_BLOCK" "\<not> m < 12" "\<not> m - 12 < POINTERS_PER_BLOCK"
    "(k - 12 - POINTERS_PER_BLOCK) div POINTERS_PER_BLOCK = (m - 12 - POINTERS_PER_BLOCK) div POINTERS_PER_BLOCK"
    "(k - 12 - POINTERS_PER_BLOCK) mod POINTERS_PER_BLOCK = (m - 12 - POINTERS_PER_BLOCK) mod POINTERS_PER_BLOCK"
  shows "k = m"
proof -
  have "k - 12 - POINTERS_PER_BLOCK = m - 12 - POINTERS_PER_BLOCK"
    using assms(5,6) by (metis div_mult_mod_eq)
  with assms(1-4) show ?thesis by simp
qed


subsection \<open>Pointer blocks\<close>

lemma pointer_set:
  assumes "length b = UB" "j < POINTERS_PER_BLOCK" "k < POINTERS_PER_BLOCK"
  shows "pointer_at (set_pointer b j p) k = (if k = j then p else pointer_at b k)"
    "length (set_pointer b j p) = UB"
proof -
  have j: "j * 8 + 8 \<le> UB" "k * 8 + 8 \<le> UB" using assms by (simp_all add: PPB_val UB_val)
  show "length (set_pointer b j p) = UB" using assms j by (simp add: set_pointer_def)
  consider "k = j" | "k < j" | "j < k" by linarith
  then show "pointer_at (set_pointer b j p) k = (if k = j then p else pointer_at b k)"
  proof cases
    case 1
    then show ?thesis using assms j by (simp add: pointer_at_def set_pointer_def slice_put_same)
  next
    case 2
    then show ?thesis using assms j by (simp add: pointer_at_def set_pointer_def slice_put_before)
  next
    case 3
    then show ?thesis using assms j by (simp add: pointer_at_def set_pointer_def slice_put_after)
  qed
qed

lemma pointer_zeros: "k < POINTERS_PER_BLOCK \<Longrightarrow> pointer_at (replicate UB 0) k = 0"
  by (simp add: pointer_at_def slice_replicate PPB_val UB_val)

text \<open>A pointer block is all zero exactly when it holds no pointer.\<close>

lemma all_zero_iff: "all_zero b \<longleftrightarrow> b = replicate (length b) 0"
  by (simp add: all_zero_def list_all_iff list_eq_iff_nth_eq all_set_conv_all_nth)

lemma all_zero_pointers:
  assumes "length b = UB"
  shows "all_zero b \<longleftrightarrow> (\<forall>k < POINTERS_PER_BLOCK. pointer_at b k = 0)"
proof
  assume "all_zero b"
  then have "b = replicate UB 0" using assms by (simp add: all_zero_iff)
  then show "\<forall>k < POINTERS_PER_BLOCK. pointer_at b k = 0" using pointer_zeros by simp
next
  assume z: "\<forall>k < POINTERS_PER_BLOCK. pointer_at b k = 0"
  have "b ! i = 0" if i: "i < UB" for i
  proof -
    let ?k = "i div 8"
    have k: "?k < POINTERS_PER_BLOCK" using i by (simp add: PPB_val UB_val)
    then have le: "?k * 8 + 8 \<le> length b" using assms by (simp add: PPB_val UB_val)
    let ?s = "slice b (?k * 8) (?k * 8 + 8)"
    have l: "length ?s = 8" using le by simp
    have "to_le 8 (from_le ?s :: u64) = ?s" using to_le_from_le [of ?s, where 'a = 64] l by simp
    moreover have "from_le ?s = (0 :: u64)" using z k by (simp add: pointer_at_def)
    ultimately have "?s = replicate 8 0" by simp
    then have "?s ! (i mod 8) = 0" by (simp add: nth_replicate)
    moreover have "?s ! (i mod 8) = b ! (?k * 8 + i mod 8)" using le by (intro nth_slice) simp_all
    ultimately show ?thesis by simp
  qed
  then show "all_zero b" using assms by (simp add: all_zero_def list_all_length)
qed

subsection \<open>Changing one pointer\<close>

lemma entry_upd: "entry (V(t := b)) p k = (if p \<noteq> 0 \<and> unat p = t then pointer_at b k else entry V p k)"
  by (simp add: entry_def)

lemma entry_0 [simp]: "entry V 0 k = 0"
  by (simp add: entry_def)

text \<open>A tree reads nothing but its tables.\<close>

fun is_table :: "node \<Rightarrow> bool" where
  "is_table (Data _) = False"
| "is_table _ = True"

lemma ptr_frame:
  assumes "\<And>n. is_table n \<Longrightarrow> valid_node n \<Longrightarrow> ptr V i n \<noteq> 0 \<Longrightarrow>
      V' (unat (ptr V i n)) = V (unat (ptr V i n))"
    and "valid_node m"
  shows "ptr V' i m = ptr V i m"
proof -
  have inner: "entry V' (i_double i) j = entry V (i_double i) j" for j
    using assms(1) [of Double] by (auto simp: entry_def)
  have single: "entry V' (i_single i) j = entry V (i_single i) j" for j
    using assms(1) [of Single] by (auto simp: entry_def)
  have leaf: "entry V' (entry V (i_double i) o') j = entry V (entry V (i_double i) o') j"
    if "o' < POINTERS_PER_BLOCK" for o' j
    using assms(1) [of "Inner o'"] that by (auto simp: entry_def)
  show ?thesis
    using assms(2) outer_index by (cases m) (auto simp: inner single leaf Let_def)
qed

lemma ptr_inode_cong:
  assumes "i_direct i' = i_direct i" "i_single i' = i_single i" "i_double i' = i_double i"
  shows "ptr V i' n = ptr V i n"
  using assms by (cases n) simp_all

lemma tree_ok_inode_cong:
  assumes "i_direct i' = i_direct i" "i_single i' = i_single i" "i_double i' = i_double i"
  shows "tree_ok lo hi U V i' = tree_ok lo hi U V i"
  using assms by (simp add: tree_ok_def inode_wf_def ptr_inode_cong [OF assms])

lemma tree_ok_frame:
  assumes ok: "tree_ok lo hi U V i"
    and same: "\<And>n. is_table n \<Longrightarrow> valid_node n \<Longrightarrow> ptr V i n \<noteq> 0 \<Longrightarrow>
      V' (unat (ptr V i n)) = V (unat (ptr V i n))"
    and U: "tree_blocks V i \<subseteq> U'"
  shows "tree_ok lo hi U' V' i" "valid_node m \<Longrightarrow> ptr V' i m = ptr V i m"
proof -
  show p: "valid_node m \<Longrightarrow> ptr V' i m = ptr V i m" for m by (rule ptr_frame) (use same in auto)
  have "unat (ptr V i n) \<in> U'" if "valid_node n" "ptr V i n \<noteq> 0" for n
    using U that unfolding tree_blocks_def by blast
  with ok show "tree_ok lo hi U' V' i" unfolding tree_ok_def by (simp add: p)
qed

text \<open>Where the pointer of a node is stored, and the table above it.\<close>

fun above :: "node \<Rightarrow> node option" where
  "above (Data k) =
     (if k < 12 then None
      else if k - 12 < POINTERS_PER_BLOCK then Some Single
      else Some (Inner ((k - 12 - POINTERS_PER_BLOCK) div POINTERS_PER_BLOCK)))"
| "above (Inner _) = Some Double"
| "above _ = None"

fun place :: "node \<Rightarrow> nat" where
  "place (Data k) =
     (if k < 12 then k
      else if k - 12 < POINTERS_PER_BLOCK then k - 12
      else (k - 12 - POINTERS_PER_BLOCK) mod POINTERS_PER_BLOCK)"
| "place (Inner j) = j"
| "place _ = 0"

lemma ptr_above: "above n = Some p \<Longrightarrow> ptr V i n = entry V (ptr V i p) (place n)"
  by (cases n) (auto simp: Let_def split: if_splits)

lemma above_valid: "valid_node n \<Longrightarrow> above n = Some p \<Longrightarrow> valid_node p \<and> is_table p"
  using outer_index by (cases n) (auto split: if_splits)

lemma place_bound: "valid_node n \<Longrightarrow> above n = Some p \<Longrightarrow> place n < POINTERS_PER_BLOCK"
  using inner_index by (cases n) (auto split: if_splits)

lemma above_place_inj:
  "above n = Some p \<Longrightarrow> above m = Some p \<Longrightarrow> place n = place m \<Longrightarrow> n = m"
  by (cases n; cases m) (auto split: if_splits intro: data_index_eq)

lemma above_table: "above n = Some p \<Longrightarrow> p = Single \<or> p = Double \<or> (\<exists>j. p = Inner j)"
  by (cases n) (auto split: if_splits)

lemma above_irrefl: "above n \<noteq> Some n"
  by (cases n) auto

lemma data_place:
  assumes "\<not> k < 12" "k - 12 < POINTERS_PER_BLOCK"
  shows "above (Data k) = Some Single" "place (Data k) = k - 12"
  using assms by simp_all

lemma data_place_double:
  assumes "\<not> k < 12" "\<not> k - 12 < POINTERS_PER_BLOCK"
  shows "above (Data k) = Some (Inner ((k - 12 - POINTERS_PER_BLOCK) div POINTERS_PER_BLOCK))"
    "place (Data k) = (k - 12 - POINTERS_PER_BLOCK) mod POINTERS_PER_BLOCK"
  using assms by simp_all

lemma max_blocks_iff:
  assumes "\<not> k < 12" "\<not> k - 12 < POINTERS_PER_BLOCK"
  shows "k < MAX_BLOCKS \<longleftrightarrow> \<not> k - 12 - POINTERS_PER_BLOCK \<ge> POINTERS_PER_BLOCK * POINTERS_PER_BLOCK"
  using assms by (auto simp: MAX_BLOCKS_def PPB_val)

fun put_root :: "inode \<Rightarrow> node \<Rightarrow> u64 \<Rightarrow> inode" where
  "put_root i (Data k) b = i\<lparr>i_direct := (i_direct i)[k := b]\<rparr>"
| "put_root i Single b = i\<lparr>i_single := b\<rparr>"
| "put_root i Double b = i\<lparr>i_double := b\<rparr>"
| "put_root i (Inner _) b = i"

definition set_ptr :: "contents \<Rightarrow> inode \<Rightarrow> node \<Rightarrow> u64 \<Rightarrow> contents \<times> inode" where
  "set_ptr V i n b =
     (case above n of
        None \<Rightarrow> (V, put_root i n b)
      | Some p \<Rightarrow>
          let t = unat (ptr V i p) in (V(t := set_pointer (V t) (place n) b), i))"

text \<open>
  Storing \<open>b\<close> at a node without children changes the pointer of that node and no other, when \<open>b\<close> is
  0 or a zeroed block outside the tree.
\<close>

lemma ptr_put_root:
  assumes ok: "tree_ok lo hi U V i" and n: "valid_node n" "above n = None"
    and kids: "\<And>m. valid_node m \<Longrightarrow> above m = Some n \<Longrightarrow> ptr V i m = 0"
    and b: "b = 0 \<or> V (unat b) = replicate UB 0"
    and m: "valid_node m"
  shows "ptr V (put_root i n b) m = (if m = n then b else ptr V i m)"
proof -
  note wf = tree_ok_wf [OF ok]
  have zb: "entry V b k = 0" if "k < POINTERS_PER_BLOCK" for k
    using b that pointer_zeros by (auto simp: entry_def)
  show ?thesis
  proof (cases n)
    case (Data k)
    with n(2) have k: "k < 12" by (auto split: if_splits)
    show ?thesis using wf k by (cases m) (auto simp: Data nth_list_update Let_def)
  next
    case Single
    then show ?thesis using kids [of m] m zb by (cases m) (auto simp: Let_def)
  next
    case Double
    have inner: "entry V (i_double i) j = 0" if "j < POINTERS_PER_BLOCK" for j
      using kids [of "Inner j"] Double that by simp
    show ?thesis using m zb inner outer_index by (cases m) (auto simp: Let_def Double)
  next
    case (Inner j)
    with n(2) show ?thesis by simp
  qed
qed

lemma ptr_put_table:
  assumes ok: "tree_ok lo hi U V i" and len: "\<And>l. l < hi \<Longrightarrow> length (V l) = UB"
    and n: "valid_node n" "above n = Some p" and p: "ptr V i p \<noteq> 0"
    and kids: "\<And>m. valid_node m \<Longrightarrow> above m = Some n \<Longrightarrow> ptr V i m = 0"
    and b: "b = 0 \<or> (V (unat b) = replicate UB 0 \<and> unat b \<noteq> unat (ptr V i p))"
    and V': "V' = V(unat (ptr V i p) := set_pointer (V (unat (ptr V i p))) (place n) b)"
    and m: "valid_node m"
  shows "ptr V' i m = (if m = n then b else ptr V i m)"
proof -
  let ?t = "ptr V i p"
  note vp = above_valid [OF n]
  have l: "length (V (unat ?t)) = UB" using len tree_okD(2) [OF ok _ p] vp by simp
  have same: "entry V' (ptr V i q) k = entry V (ptr V i q) k" if "valid_node q" "q \<noteq> p" for q k
    using tree_ok_inj [OF ok that(1), of p] that vp by (auto simp: V' entry_upd)
  have upd: "entry V' ?t (place q) = (if q = n then b else entry V ?t (place q))"
    if "valid_node q" "above q = Some p" for q
    using p l pointer_set(1) [OF l place_bound [OF n] place_bound [OF that], of b]
      above_place_inj [OF n(2) that(2)] by (auto simp: V' entry_upd entry_def)
  have zb: "entry V' b k = 0" if "k < POINTERS_PER_BLOCK" for k
    using b that pointer_zeros by (auto simp: V' entry_def)
  have root: "above q = None \<Longrightarrow> ptr V' i q = ptr V i q" for q
    by (cases q) (auto split: if_splits)
  have table: "ptr V' i q = (if q = n then b else ptr V i q)" if q: "valid_node q" "above q = Some r"
    and r: "above r = None" for q r
  proof (cases "r = p")
    case True
    then show ?thesis using ptr_above [OF q(2)] upd [OF q(1)] q(2) root [OF r] by simp
  next
    case False
    then have "q \<noteq> n" using n(2) q(2) by auto
    then show ?thesis
      using ptr_above [OF q(2)] same [of r] False above_valid [OF q] root [OF r] by simp
  qed
  show ?thesis
  proof (cases "above m")
    case None
    then show ?thesis using root n(2) by auto
  next
    case (Some r)
    note vr = above_valid [OF m Some]
    show ?thesis
    proof (cases "above r")
      case None
      then show ?thesis using table [OF m Some] by simp
    next
      case (Some d)
      with \<open>above m = Some r\<close> above_table [OF \<open>above m = Some r\<close>] have d: "above d = None" by auto
      have pr: "ptr V' i r = (if r = n then b else ptr V i r)"
        by (rule table [OF _ Some d]) (use vr in simp)
      note pm = ptr_above [OF \<open>above m = Some r\<close>]
      show ?thesis
      proof (cases "r = p")
        case True
        have "r \<noteq> n" using True n(2) above_irrefl by blast
        then show ?thesis using pm upd [OF m] True \<open>above m = Some r\<close> pr by simp
      next
        case False
        have mn: "m \<noteq> n" using False n(2) \<open>above m = Some r\<close> by auto
        show ?thesis
        proof (cases "r = n")
          case True
          then show ?thesis
            using pm pr mn zb place_bound [OF m \<open>above m = Some r\<close>] kids [OF m] \<open>above m = Some r\<close>
            by simp
        next
          case False
          then show ?thesis using pm pr mn same [of r] vr \<open>r \<noteq> p\<close> by simp
        qed
      qed
    qed
  qed
qed

lemma ptr_set_ptr:
  assumes ok: "tree_ok lo hi U V i" and len: "\<And>l. l < hi \<Longrightarrow> length (V l) = UB"
    and n: "valid_node n" and p: "\<And>p. above n = Some p \<Longrightarrow> ptr V i p \<noteq> 0"
    and kids: "\<And>m. valid_node m \<Longrightarrow> above m = Some n \<Longrightarrow> ptr V i m = 0"
    and b: "b = 0 \<or> (V (unat b) = replicate UB 0 \<and> unat b \<notin> U)"
    and m: "valid_node m"
  shows "ptr (fst (set_ptr V i n b)) (snd (set_ptr V i n b)) m = (if m = n then b else ptr V i m)"
proof (cases "above n")
  case None
  show ?thesis
    using ptr_put_root [OF ok n None kids _ m] b by (auto simp: set_ptr_def None)
next
  case (Some p)
  have "unat (ptr V i p) \<in> U"
    using tree_okD(3) [OF ok _ assms(4) [OF Some]] above_valid [OF n Some] by simp
  then have "b = 0 \<or> (V (unat b) = replicate UB 0 \<and> unat b \<noteq> unat (ptr V i p))" using b by auto
  from ptr_put_table [OF ok len n Some assms(4) [OF Some] kids this refl m] show ?thesis
    unfolding set_ptr_def by (simp only: Some option.case Let_def fst_conv snd_conv)
qed

subsection \<open>Growing a tree\<close>

definition zeros :: bytes where "zeros = replicate UB 0"

text \<open>The logical contents of a file: a hole reads as zeros.\<close>

definition logical :: "contents \<Rightarrow> inode \<Rightarrow> nat \<Rightarrow> bytes" where
  "logical V i k = (if mapped V i k = 0 then zeros else V (unat (mapped V i k)))"

definition tables :: "contents \<Rightarrow> inode \<Rightarrow> nat set" where
  "tables V i = {unat (ptr V i n) | n. is_table n \<and> valid_node n \<and> ptr V i n \<noteq> 0}"

definition same_attrs :: "inode \<Rightarrow> inode \<Rightarrow> bool" where
  "same_attrs i' i \<longleftrightarrow> i_mode i' = i_mode i \<and> i_uid i' = i_uid i \<and> i_gid i' = i_gid i \<and>
     i_nlink i' = i_nlink i \<and> i_size i' = i_size i \<and> i_atime i' = i_atime i \<and>
     i_mtime i' = i_mtime i \<and> i_ctime i' = i_ctime i"

definition blocks_full :: "nat \<Rightarrow> contents \<Rightarrow> bool" where
  "blocks_full hi V \<longleftrightarrow> (\<forall>l < hi. length (V l) = UB)"

text \<open>
  \<open>extends lo hi K U V i U' V' i'\<close>: blocks not used before were taken for the tree, as zeroed data
  blocks of indices in \<open>K\<close> or as tables; nothing else changed, but for the tables of the tree.
\<close>

definition extends ::
    "nat \<Rightarrow> nat \<Rightarrow> nat set \<Rightarrow> nat set \<Rightarrow> contents \<Rightarrow> inode \<Rightarrow> nat set \<Rightarrow> contents \<Rightarrow> inode \<Rightarrow> bool" where
  "extends lo hi K U V i U' V' i' \<longleftrightarrow>
     tree_ok lo hi U' V' i' \<and> U \<subseteq> U' \<and> U' - U \<subseteq> {lo..<hi} \<and> blocks_full hi V' \<and> same_attrs i' i \<and>
     (\<forall>l. l \<notin> U' - U \<longrightarrow> l \<notin> tables V i \<longrightarrow> V' l = V l) \<and>
     tables V' i' \<subseteq> tables V i \<union> (U' - U) \<and>
     (\<forall>k < MAX_BLOCKS. if mapped V i k \<noteq> 0 then mapped V' i' k = mapped V i k
        else mapped V' i' k = 0 \<or> (k \<in> K \<and> unat (mapped V' i' k) \<in> U' - U \<and>
          V' (unat (mapped V' i' k)) = zeros))"

lemma same_attrs_refl [simp]: "same_attrs i i"
  by (simp add: same_attrs_def)

lemma same_attrs_trans: "same_attrs k j \<Longrightarrow> same_attrs j i \<Longrightarrow> same_attrs k i"
  by (simp add: same_attrs_def)

lemma data_not_table:
  assumes "tree_ok lo hi U V i" "k < MAX_BLOCKS" "mapped V i k \<noteq> 0"
  shows "unat (mapped V i k) \<notin> tables V i"
proof
  assume "unat (mapped V i k) \<in> tables V i"
  then obtain n where n: "is_table n" "valid_node n" "unat (ptr V i (Data k)) = unat (ptr V i n)"
    unfolding tables_def mapped_def by blast
  with tree_ok_inj [OF assms(1), of "Data k" n] assms(2,3) have "Data k = n"
    by (simp add: mapped_def del: ptr.simps)
  with n(1) show False by auto
qed

lemma tables_used: "tree_ok lo hi U V i \<Longrightarrow> tables V i \<subseteq> U \<inter> {lo..<hi}"
  unfolding tables_def using tree_okD by fastforce

lemma mapped_used:
  assumes "tree_ok lo hi U V i" "k < MAX_BLOCKS" "mapped V i k \<noteq> 0"
  shows "unat (mapped V i k) \<in> U" "lo \<le> unat (mapped V i k)" "unat (mapped V i k) < hi"
  using tree_okD [OF assms(1), of "Data k"] assms(2,3) by (simp_all add: mapped_def del: ptr.simps)

lemma mapped_inj:
  assumes "tree_ok lo hi U V i" "k < MAX_BLOCKS" "m < MAX_BLOCKS" "mapped V i k \<noteq> 0"
    "unat (mapped V i k) = unat (mapped V i m)"
  shows "k = m"
  using tree_ok_inj [OF assms(1), of "Data k" "Data m"] assms(2-) by (simp add: mapped_def del: ptr.simps)

lemma extendsD:
  assumes "extends lo hi K U V i U' V' i'"
  shows "tree_ok lo hi U' V' i'" "U \<subseteq> U'" "U' - U \<subseteq> {lo..<hi}" "blocks_full hi V'" "same_attrs i' i"
    "l \<notin> U' - U \<Longrightarrow> l \<notin> tables V i \<Longrightarrow> V' l = V l" "tables V' i' \<subseteq> tables V i \<union> (U' - U)"
  using assms unfolding extends_def by blast+

lemma extends_kept:
  "extends lo hi K U V i U' V' i' \<Longrightarrow> k < MAX_BLOCKS \<Longrightarrow> mapped V i k \<noteq> 0 \<Longrightarrow>
    mapped V' i' k = mapped V i k"
  unfolding extends_def by (auto split: if_splits)

lemma extends_new:
  assumes "extends lo hi K U V i U' V' i'" "k < MAX_BLOCKS" "mapped V i k = 0" "mapped V' i' k \<noteq> 0"
  shows "k \<in> K" "unat (mapped V' i' k) \<in> U' - U" "V' (unat (mapped V' i' k)) = zeros"
  using assms unfolding extends_def by auto

lemma extends_logical:
  assumes "tree_ok lo hi U V i" "extends lo hi K U V i U' V' i'" "k < MAX_BLOCKS"
  shows "logical V' i' k = logical V i k"
proof (cases "mapped V i k = 0")
  case True
  then show ?thesis using extends_new(3) [OF assms(2,3)] by (simp add: logical_def)
next
  case False
  have "V' (unat (mapped V i k)) = V (unat (mapped V i k))"
    by (rule extendsD(6) [OF assms(2)])
      (use mapped_used(1) [OF assms(1,3) False] data_not_table [OF assms(1,3) False] in auto)
  with False extends_kept [OF assms(2,3)] show ?thesis by (simp add: logical_def)
qed

lemma extends_refl:
  "tree_ok lo hi U V i \<Longrightarrow> blocks_full hi V \<Longrightarrow> extends lo hi K U V i U V i"
  by (simp add: extends_def)

lemma extends_trans:
  assumes a: "extends lo hi K U V i U' V' i'" and b: "extends lo hi K U' V' i' U'' V'' i''"
  shows "extends lo hi K U V i U'' V'' i''"
proof -
  note u = extendsD(2) [OF a] extendsD(2) [OF b]
  have v: "V'' l = V l" if l: "l \<notin> U'' - U" "l \<notin> tables V i" for l
  proof -
    have "l \<notin> U' - U" "l \<notin> U'' - U'" using l u by auto
    moreover from this have "l \<notin> tables V' i'" using l extendsD(7) [OF a] by auto
    ultimately show ?thesis using l extendsD(6) [OF a, of l] extendsD(6) [OF b, of l] by simp
  qed
  have m: "if mapped V i k \<noteq> 0 then mapped V'' i'' k = mapped V i k
      else mapped V'' i'' k = 0 \<or> (k \<in> K \<and> unat (mapped V'' i'' k) \<in> U'' - U \<and>
        V'' (unat (mapped V'' i'' k)) = zeros)" if k: "k < MAX_BLOCKS" for k
  proof (cases "mapped V' i' k = 0")
    case True
    then have "mapped V i k = 0" using extends_kept [OF a k] by auto
    then show ?thesis using extends_new [OF b k True] u by auto
  next
    case False
    note kept = extends_kept [OF b k False]
    have "V'' (unat (mapped V' i' k)) = V' (unat (mapped V' i' k))"
      by (rule extendsD(6) [OF b])
        (use mapped_used(1) [OF extendsD(1) [OF a] k False] data_not_table [OF extendsD(1) [OF a] k False]
         in auto)
    then show ?thesis
      using kept extends_kept [OF a k] extends_new [OF a k _ False] u by auto
  qed
  have t: "tables V'' i'' \<subseteq> tables V i \<union> (U'' - U)"
    using extendsD(7) [OF a] extendsD(7) [OF b] u by blast
  have r: "U'' - U \<subseteq> {lo..<hi}" using extendsD(3) [OF a] extendsD(3) [OF b] by blast
  have "same_attrs i'' i" by (rule same_attrs_trans [OF extendsD(5) [OF b] extendsD(5) [OF a]])
  moreover have "U \<subseteq> U''" using u by blast
  ultimately show ?thesis
    unfolding extends_def using t r extendsD(1,4) [OF b]
    by - (intro conjI allI impI; (rule v m)?; assumption)
qed

text \<open>One more block at a node that has none.\<close>

lemma set_ptr_frame:
  assumes "valid_node n" "l \<notin> tables V i" "\<And>p. above n = Some p \<Longrightarrow> ptr V i p \<noteq> 0"
  shows "fst (set_ptr V i n b) l = V l"
proof (cases "above n")
  case (Some p)
  then have "unat (ptr V i p) \<in> tables V i"
    using assms above_valid [OF assms(1) Some] unfolding tables_def by blast
  then have "l \<noteq> unat (ptr V i p)" using assms(2) by auto
  then show ?thesis by (simp add: set_ptr_def Some Let_def)
qed (simp add: set_ptr_def)

lemma set_ptr_full:
  assumes ok: "tree_ok lo hi U V i" and full: "blocks_full hi V" and n: "valid_node n"
    and p: "\<And>p. above n = Some p \<Longrightarrow> ptr V i p \<noteq> 0"
  shows "blocks_full hi (fst (set_ptr V i n b))"
proof (cases "above n")
  case (Some q)
  have q: "unat (ptr V i q) < hi" using tree_okD(2) [OF ok _ p [OF Some]] above_valid [OF n Some] by simp
  have "length (set_pointer (V (unat (ptr V i q))) (place n) b) = UB"
    using full q pointer_set(2) [OF _ place_bound [OF n Some] place_bound [OF n Some]]
    by (simp add: blocks_full_def)
  then show ?thesis using full by (simp add: set_ptr_def Some Let_def blocks_full_def)
qed (simp add: set_ptr_def full)

lemma set_ptr_attrs: "same_attrs (snd (set_ptr V i n b)) i"
proof -
  have "same_attrs (put_root i n b) i" by (cases n) (simp_all add: same_attrs_def)
  then show ?thesis by (simp add: set_ptr_def Let_def split: option.split)
qed

lemma tables_cong:
  assumes "\<And>n. valid_node n \<Longrightarrow> ptr V' i' n = ptr V i n"
  shows "tables V' i' = tables V i"
  unfolding tables_def by (intro Collect_cong iff_exI) (use assms in auto)

lemma kids_zero: "ptr V i n = 0 \<Longrightarrow> above m = Some n \<Longrightarrow> ptr V i m = 0"
  using ptr_above [of m n V i] by simp

lemma graft:
  assumes ok: "tree_ok lo hi U V i" and full: "blocks_full hi V"
    and n: "valid_node n" and p: "\<And>q. above n = Some q \<Longrightarrow> ptr V i q \<noteq> 0" and free: "ptr V i n = 0"
    and b: "lo \<le> unat b" "unat b < hi" "b \<noteq> 0" "unat b \<notin> U"
    and K: "\<And>k. n = Data k \<Longrightarrow> k \<in> K"
    and r: "r = set_ptr (V(unat b := zeros)) i n b"
  shows "extends lo hi K U V i (insert (unat b) U) (fst r) (snd r)"
    "valid_node m \<Longrightarrow> ptr (fst r) (snd r) m = (if m = n then b else ptr V i m)"
    "fst r (unat b) = zeros"
proof -
  let ?W = "V(unat b := zeros)"
  have same: "?W (unat (ptr V i m)) = V (unat (ptr V i m))" if "valid_node m" "ptr V i m \<noteq> 0" for m
    using tree_okD(3) [OF ok that] b(4) by auto
  have used: "tree_blocks V i \<subseteq> U" unfolding tree_blocks_def using tree_okD(3) [OF ok] by blast
  have okW: "tree_ok lo hi U ?W i" by (rule tree_ok_frame(1) [OF ok _ used]) (use same in auto)
  have ptrW: "ptr ?W i m = ptr V i m" if "valid_node m" for m
    by (rule tree_ok_frame(2) [OF ok _ used that]) (use same in auto)
  have fullW: "blocks_full hi ?W" using full by (simp add: blocks_full_def zeros_def)
  have lenW: "\<And>l. l < hi \<Longrightarrow> length (?W l) = UB" using fullW by (simp add: blocks_full_def)
  have pW: "ptr ?W i q \<noteq> 0" if "above n = Some q" for q
    using p [OF that] ptrW [of q] above_valid [OF n that] by simp
  have kids: "ptr ?W i m = 0" if "valid_node m" "above m = Some n" for m
    using ptrW [OF that(1)] kids_zero [OF free that(2)] by simp
  have bW: "b = 0 \<or> (?W (unat b) = replicate UB 0 \<and> unat b \<notin> U)" using b(4) by (simp add: zeros_def)
  show q: "ptr (fst r) (snd r) m = (if m = n then b else ptr V i m)" if "valid_node m" for m
    unfolding r using ptr_set_ptr [OF okW lenW n pW kids bW that] unfolding ptrW [OF that] .
  have tab: "tables ?W i = tables V i" by (rule tables_cong [OF ptrW])
  have bt: "unat b \<notin> tables V i" using tables_used [OF ok] b(4) by auto
  have fr: "fst r l = ?W l" if "l \<notin> tables V i" for l
    unfolding r by (rule set_ptr_frame [OF n _ pW]) (use that tab in auto)
  show z: "fst r (unat b) = zeros" using fr [OF bt] by simp
  have wf: "inode_wf (snd r)"
    using tree_ok_wf [OF ok] unfolding r set_ptr_def inode_wf_def
    by (cases n) (auto simp: Let_def split: option.split)
  have okr: "tree_ok lo hi (insert (unat b) U) (fst r) (snd r)"
    unfolding tree_ok_def
  proof (intro conjI allI impI)
    fix m assume m: "valid_node m" "ptr (fst r) (snd r) m \<noteq> 0"
    then consider "ptr (fst r) (snd r) m = b" | "ptr (fst r) (snd r) m = ptr V i m" "ptr V i m \<noteq> 0"
      using q [OF m(1)] by metis
    then show "lo \<le> unat (ptr (fst r) (snd r) m)" "unat (ptr (fst r) (snd r) m) < hi"
      "unat (ptr (fst r) (snd r) m) \<in> insert (unat b) U"
      by (cases; use tree_okD [OF ok m(1)] b in simp)+
  next
    fix m k assume mk: "valid_node m" "valid_node k" "ptr (fst r) (snd r) m \<noteq> 0"
      "ptr (fst r) (snd r) m = ptr (fst r) (snd r) k"
    have "x = n" if "valid_node x" "ptr V i x = b" for x
      using tree_okD(3) [OF ok that(1)] that(2) b by auto
    then show "m = k"
      using q [OF mk(1)] q [OF mk(2)] mk tree_ok_inj [OF ok mk(1,2)] by metis
  qed (rule wf)
  have at: "same_attrs (snd r) i" unfolding r by (rule set_ptr_attrs)
  have fullr: "blocks_full hi (fst r)" unfolding r by (rule set_ptr_full [OF okW fullW n pW])
  have tr: "tables (fst r) (snd r) \<subseteq> tables V i \<union> (insert (unat b) U - U)"
    unfolding tables_def using q b(4) by (auto split: if_splits)
  have mp: "mapped (fst r) (snd r) k = (if Data k = n then b else mapped V i k)" if "k < MAX_BLOCKS" for k
    using q [of "Data k"] that by (simp add: mapped_def del: ptr.simps)
  have fm: "mapped V i k = 0" if "Data k = n" for k using free that by (simp add: mapped_def)
  have mm: "if mapped V i k \<noteq> 0 then mapped (fst r) (snd r) k = mapped V i k
      else mapped (fst r) (snd r) k = 0 \<or> (k \<in> K \<and>
        unat (mapped (fst r) (snd r) k) \<in> insert (unat b) U - U \<and>
        fst r (unat (mapped (fst r) (snd r) k)) = zeros)" if "k < MAX_BLOCKS" for k
    using mp [OF that] fm [of k] K [of k] z b(4) by (auto split: if_splits)
  have fr': "fst r l = V l" if "l \<notin> insert (unat b) U - U" "l \<notin> tables V i" for l
    using fr [OF that(2)] that(1) b(4) by auto
  have rng: "insert (unat b) U - U \<subseteq> {lo..<hi}" "U \<subseteq> insert (unat b) U" using b by auto
  show "extends lo hi K U V i (insert (unat b) U) (fst r) (snd r)"
    unfolding extends_def using okr fullr at tr rng
    by - (intro conjI allI impI; (rule fr' mm)?; assumption)
qed

text \<open>Writing a data block changes the logical contents of its index and nothing else.\<close>

lemma write_logical:
  assumes ok: "tree_ok lo hi U V i" and full: "blocks_full hi V"
    and k: "k < MAX_BLOCKS" "mapped V i k \<noteq> 0" and len: "length c = UB"
    and V': "V' = V(unat (mapped V i k) := c)"
  shows "tree_ok lo hi U V' i" "blocks_full hi V'" "tables V' i = tables V i"
    "m < MAX_BLOCKS \<Longrightarrow> mapped V' i m = mapped V i m"
    "m < MAX_BLOCKS \<Longrightarrow> logical V' i m = (if m = k then c else logical V i m)"
proof -
  have nt: "unat (mapped V i k) \<notin> tables V i" by (rule data_not_table [OF ok k])
  have same: "V' (unat (ptr V i n)) = V (unat (ptr V i n))"
    if "is_table n" "valid_node n" "ptr V i n \<noteq> 0" for n
  proof -
    have "unat (ptr V i n) \<in> tables V i" using that unfolding tables_def by blast
    with nt have "unat (ptr V i n) \<noteq> unat (mapped V i k)" by metis
    then show ?thesis by (simp add: V')
  qed
  have used: "tree_blocks V i \<subseteq> U" unfolding tree_blocks_def using tree_okD(3) [OF ok] by blast
  show "tree_ok lo hi U V' i" by (rule tree_ok_frame(1) [OF ok _ used]) (use same in auto)
  have p: "ptr V' i m = ptr V i m" if "valid_node m" for m
    by (rule tree_ok_frame(2) [OF ok _ used that]) (use same in auto)
  show "blocks_full hi V'" using full len by (simp add: V' blocks_full_def)
  show "tables V' i = tables V i" by (rule tables_cong [OF p])
  show mp: "mapped V' i m = mapped V i m" if "m < MAX_BLOCKS" for m
    using p [of "Data m"] that by (simp add: mapped_def del: ptr.simps)
  show "logical V' i m = (if m = k then c else logical V i m)" if "m < MAX_BLOCKS"
    using mp [OF that] mapped_inj [OF ok k(1) that k(2)] k(2) by (auto simp: logical_def V')
qed


subsection \<open>Shrinking a tree\<close>

text \<open>
  \<open>shrinks\<close>: the blocks of some nodes were released, and nothing changed in the blocks that remain
  but for the tables.
\<close>

definition shrinks ::
    "nat \<Rightarrow> nat \<Rightarrow> node set \<Rightarrow> nat set \<Rightarrow> contents \<Rightarrow> inode \<Rightarrow> nat set \<Rightarrow> contents \<Rightarrow> inode \<Rightarrow> bool" where
  "shrinks lo hi N U V i U' V' i' \<longleftrightarrow>
     tree_ok lo hi U' V' i' \<and> blocks_full hi V' \<and> same_attrs i' i \<and>
     (\<forall>n. valid_node n \<longrightarrow> ptr V' i' n = (if n \<in> N then 0 else ptr V i n)) \<and>
     U' = U - {unat (ptr V i n) | n. valid_node n \<and> n \<in> N \<and> ptr V i n \<noteq> 0} \<and>
     (\<forall>l. l \<notin> tables V i \<longrightarrow> V' l = V l)"

lemma shrinksD:
  assumes "shrinks lo hi N U V i U' V' i'"
  shows "tree_ok lo hi U' V' i'" "blocks_full hi V'" "same_attrs i' i"
    "valid_node n \<Longrightarrow> ptr V' i' n = (if n \<in> N then 0 else ptr V i n)"
    "U' = U - {unat (ptr V i n) | n. valid_node n \<and> n \<in> N \<and> ptr V i n \<noteq> 0}"
    "l \<notin> tables V i \<Longrightarrow> V' l = V l"
  using assms unfolding shrinks_def by blast+

lemma shrinks_refl:
  "tree_ok lo hi U V i \<Longrightarrow> blocks_full hi V \<Longrightarrow> shrinks lo hi {} U V i U V i"
  by (simp add: shrinks_def)

lemma shrinks_tables: "shrinks lo hi N U V i U' V' i' \<Longrightarrow> tables V' i' \<subseteq> tables V i"
  using shrinksD(4) unfolding tables_def by (fastforce split: if_splits)

lemma shrinks_trans:
  assumes a: "shrinks lo hi N U V i U' V' i'" and b: "shrinks lo hi M U' V' i' U'' V'' i''"
  shows "shrinks lo hi (N \<union> M) U V i U'' V'' i''"
proof -
  have p: "ptr V'' i'' n = (if n \<in> N \<union> M then 0 else ptr V i n)" if "valid_node n" for n
    using shrinksD(4) [OF a that] shrinksD(4) [OF b that] by auto
  have "{unat (ptr V' i' n) | n. valid_node n \<and> n \<in> M \<and> ptr V' i' n \<noteq> 0} =
      {unat (ptr V i n) | n. valid_node n \<and> n \<in> M - N \<and> ptr V i n \<noteq> 0}"
    using shrinksD(4) [OF a] by (auto split: if_splits) metis+
  then have u: "U'' = U - {unat (ptr V i n) | n. valid_node n \<and> n \<in> N \<union> M \<and> ptr V i n \<noteq> 0}"
    unfolding shrinksD(5) [OF b] shrinksD(5) [OF a] by auto
  have v: "V'' l = V l" if "l \<notin> tables V i" for l
    using shrinksD(6) [OF a that] shrinksD(6) [OF b, of l] shrinks_tables [OF a] that by auto
  have at: "same_attrs i'' i" by (rule same_attrs_trans [OF shrinksD(3) [OF b] shrinksD(3) [OF a]])
  show ?thesis
    unfolding shrinks_def using at shrinksD(1,2) [OF b] u
    by - (intro conjI allI impI; (rule v p)?; assumption)
qed

lemma prune:
  assumes ok: "tree_ok lo hi U V i" and full: "blocks_full hi V"
    and n: "valid_node n" and p: "\<And>q. above n = Some q \<Longrightarrow> ptr V i q \<noteq> 0"
    and kids: "\<And>m. valid_node m \<Longrightarrow> above m = Some n \<Longrightarrow> ptr V i m = 0"
    and U': "U' = (if ptr V i n = 0 then U else U - {unat (ptr V i n)})"
    and r: "r = set_ptr V i n 0"
  shows "shrinks lo hi {n} U V i U' (fst r) (snd r)"
proof -
  have len: "\<And>l. l < hi \<Longrightarrow> length (V l) = UB" using full by (simp add: blocks_full_def)
  have q: "ptr (fst r) (snd r) m = (if m = n then 0 else ptr V i m)" if "valid_node m" for m
    unfolding r by (rule ptr_set_ptr [OF ok len n p kids _ that]) simp_all
  have wf: "inode_wf (snd r)"
    using tree_ok_wf [OF ok] unfolding r set_ptr_def inode_wf_def
    by (cases n) (auto simp: Let_def split: option.split)
  have okr: "tree_ok lo hi U' (fst r) (snd r)"
    unfolding tree_ok_def
  proof (intro conjI allI impI)
    fix m assume m: "valid_node m" "ptr (fst r) (snd r) m \<noteq> 0"
    with q [OF m(1)] have mn: "m \<noteq> n" "ptr (fst r) (snd r) m = ptr V i m" "ptr V i m \<noteq> 0"
      by metis+
    then show "lo \<le> unat (ptr (fst r) (snd r) m)" "unat (ptr (fst r) (snd r) m) < hi"
      using tree_okD [OF ok m(1)] by simp_all
    have "unat (ptr V i m) \<noteq> unat (ptr V i n)"
      using tree_ok_inj [OF ok m(1) n mn(3)] mn(1) by blast
    then show "unat (ptr (fst r) (snd r) m) \<in> U'"
      using tree_okD(3) [OF ok m(1) mn(3)] mn(2) by (simp add: U')
  next
    fix m k assume mk: "valid_node m" "valid_node k" "ptr (fst r) (snd r) m \<noteq> 0"
      "ptr (fst r) (snd r) m = ptr (fst r) (snd r) k"
    then show "m = k"
      using q [OF mk(1)] q [OF mk(2)] mk tree_ok_inj [OF ok mk(1,2)] by metis
  qed (rule wf)
  have at: "same_attrs (snd r) i" unfolding r by (rule set_ptr_attrs)
  have fullr: "blocks_full hi (fst r)" unfolding r by (rule set_ptr_full [OF ok full n p])
  have fr: "fst r l = V l" if "l \<notin> tables V i" for l
    unfolding r by (rule set_ptr_frame [OF n that p])
  have u: "U' = U - {unat (ptr V i m) | m. valid_node m \<and> m \<in> {n} \<and> ptr V i m \<noteq> 0}"
    using n by (auto simp: U')
  have q': "ptr (fst r) (snd r) m = (if m \<in> {n} then 0 else ptr V i m)" if "valid_node m" for m
    using q [OF that] by simp
  show ?thesis
    unfolding shrinks_def using okr fullr at u
    by - (intro conjI allI impI; (rule fr q')?; assumption)
qed

text \<open>What stands in a released table does not matter.\<close>

lemma shrinks_vary:
  assumes s: "shrinks lo hi N U V i U' V1 i'" and full: "blocks_full hi W"
    and same: "\<And>l. l \<notin> tables V i - tables V1 i' \<Longrightarrow> W l = V1 l"
  shows "shrinks lo hi N U V i U' W i'"
proof -
  have ok: "tree_ok lo hi U' V1 i'" by (rule shrinksD(1) [OF s])
  have eq: "W (unat (ptr V1 i' n)) = V1 (unat (ptr V1 i' n))"
    if "is_table n" "valid_node n" "ptr V1 i' n \<noteq> 0" for n
    by (rule same) (use that in \<open>auto simp: tables_def\<close>)
  have used: "tree_blocks V1 i' \<subseteq> U'" unfolding tree_blocks_def using tree_okD(3) [OF ok] by blast
  have okW: "tree_ok lo hi U' W i'" by (rule tree_ok_frame(1) [OF ok _ used]) (use eq in auto)
  have p: "ptr W i' n = (if n \<in> N then 0 else ptr V i n)" if "valid_node n" for n
    using tree_ok_frame(2) [OF ok _ used that, of W] eq shrinksD(4) [OF s that] by simp
  have fr: "W l = V l" if "l \<notin> tables V i" for l
    using same [of l] shrinksD(6) [OF s that] that by simp
  show ?thesis
    unfolding shrinks_def using okW full shrinksD(3,5) [OF s]
    by - (intro conjI allI impI; (rule p fr)?; assumption)
qed

lemma shrinks_logical:
  assumes ok: "tree_ok lo hi U V i" and s: "shrinks lo hi N U V i U' V' i'" and k: "k < MAX_BLOCKS"
  shows "mapped V' i' k = (if Data k \<in> N then 0 else mapped V i k)"
    "logical V' i' k = (if Data k \<in> N then zeros else logical V i k)"
proof -
  show m: "mapped V' i' k = (if Data k \<in> N then 0 else mapped V i k)"
    using shrinksD(4) [OF s, of "Data k"] k by (simp add: mapped_def del: ptr.simps)
  have "V' (unat (mapped V i k)) = V (unat (mapped V i k))" if "mapped V i k \<noteq> 0"
    by (rule shrinksD(6) [OF s data_not_table [OF ok k that]])
  then show "logical V' i' k = (if Data k \<in> N then zeros else logical V i k)"
    using m by (simp add: logical_def)
qed

end
