(* ===== verification/FlushSafe.thy ===== *)
theory FlushSafe
  imports BlockFlush
begin

text \<open>
  \<open>flush\<close> when a step fails: no block of the store changes and the rest can be flushed again. No
  step panics, on carriers the store was opened on.
\<close>

subsection \<open>Writing a chunk does not panic\<close>

text \<open>The bridge to libjpeg reports every failure as an error.\<close>

definition jpeg_returns :: "ext \<Rightarrow> bool" where
  "jpeg_returns e \<longleftrightarrow> (\<forall>bs. e_jpeg_read e bs \<noteq> Panic) \<and> (\<forall>original img. e_jpeg_write e original img \<noteq> Panic)"

lemma ok_or_no_panic [simp]: "ok_or x y \<noteq> Panic"
  by (cases y) simp_all

lemma png_write_chunk_no_panic:
  assumes laws: "png_laws e" "shuffle_laws e"
  shows "png_write_chunk e path mode payload key fs \<noteq> Panic"
proof
  assume p: "png_write_chunk e path mode payload key fs = Panic"
  then obtain img where op: "image_open e path fs = Ok img"
    by (cases "image_open e path fs") (auto simp: png_write_chunk_def image_open_def ok_or_def split: option.splits)
  have wf: "png_wf img" by (rule image_open_wf [OF laws(1) op])
  note cap = png_capacity [OF wf]
  have "png_slots img \<le> MAX64" using wf cap(1) by (simp add: png_wf_def)
  have fits: "\<exists>img'. png_write_bytes img ps first payload = Ok img'"
    if "distinct ps" "set ps \<subseteq> {0..<png_slots img}" "8 * (length first + length payload) \<le> length ps" for ps first
  proof -
    have sub: "set ps \<subseteq> set (png_positions img)"
      using that(2) wf cap(1) by (simp add: png_positions_def atLeast0LessThan)
    have "length ps \<le> png_slots img"
      using that(1,2) card_mono [of "{0..<png_slots img}" "set ps"] by (simp add: distinct_card)
    with \<open>png_slots img \<le> MAX64\<close> have max: "8 * (length first + length payload) \<le> MAX64" using that(3) by simp
    from png.embed_extract [OF that(1) sub that(3) max] show ?thesis by (auto simp: png_write_bytes_def)
  qed
  have sv: "png_save_atomic e path i fs \<noteq> Panic" for i
    by (simp add: png_save_atomic_def Let_def and_then_Panic_iff)
  show False
  proof (cases mode)
    case (WriteFramed meta)
    have "\<exists>img'. png_write_bytes img [0..<(16 + length payload) * 8] (encode_header e meta (of_nat (length payload))) payload = Ok img'"
      if "16 + length payload \<le> png_slots img div 8"
      by (rule fits) (use that in auto)
    then show ?thesis
      using p op sv cap(2) WriteFramed
      by (auto simp: png_write_chunk_def Let_def CHUNK_HEADER_LEN_def and_then_Panic_iff split: if_splits)
  next
    case (WriteMarkerless index)
    have w: "\<exists>img'. png_write_bytes img ps [] payload = Ok img'"
      if ps: "order_positions e [0..<png_slots img] key index = Ok ps" and len: "length payload \<le> png_slots img div 8" for ps
    proof -
      have perm: "mset ps = mset [0..<png_slots img]" by (rule order_positions_perm [OF laws(2) ps])
      then have d: "distinct ps" "set ps \<subseteq> {0..<png_slots img}" "length ps = png_slots img"
        using mset_eq_imp_distinct_iff [OF perm] mset_eq_setD [OF perm] mset_eq_length [OF perm] by auto
      show ?thesis by (rule fits [OF d(1,2)]) (use d(3) len in simp)
    qed
    have "order_positions e ps key index \<noteq> Panic" for ps by (simp add: order_positions_def Let_def)
    then show ?thesis
      using p op sv cap(2) WriteMarkerless w
      by (fastforce simp: png_write_chunk_def Let_def and_then_Panic_iff split: if_splits)
  qed
qed

lemma jpeg_write_chunk_no_panic:
  assumes laws: "jpeg_laws e" "shuffle_laws e" "jpeg_returns e"
  shows "jpeg_write_chunk e path mode payload key fs \<noteq> Panic"
proof
  assume p: "jpeg_write_chunk e path mode payload key fs = Panic"
  have rd: "read_original path fs \<noteq> Panic" "read_coefficients e bs \<noteq> Panic" for bs
    using laws(3) by (simp_all add: read_original_def read_coefficients_def jpeg_returns_def)
  obtain original img where op: "read_original path fs = Ok original" "read_coefficients e original = Ok img"
    using p rd by (auto simp: jpeg_write_chunk_def and_then_Panic_iff)
  have orig: "e_jpeg_read e original = Ok img" using op(2) by (simp add: read_coefficients_def)
  have wf: "jpeg_wf img" using laws(1) orig unfolding jpeg_laws_def by metis
  note u = length_usable [OF wf]
  have fits: "\<exists>img'. embed_bytes img ps first payload = Ok img'"
    if ps: "mset ps = mset (usable_positions img)" "8 * (length first + length payload) \<le> length ps" for ps first
  proof -
    have d: "distinct ps" "set ps \<subseteq> set (jpeg_positions img)"
      using mset_eq_imp_distinct_iff [OF ps(1)] mset_eq_setD [OF ps(1)] u(3,4) by auto
    have max: "8 * (length first + length payload) \<le> MAX64"
      using ps(2) mset_eq_length [OF ps(1)] u(2) by simp
    from jpeg.embed_extract [OF d ps(2) max] show ?thesis by (auto simp: embed_bytes_def)
  qed
  have sv: "jpeg_save e path original i fs \<noteq> Panic" for i
    using laws(3) by (simp add: jpeg_save_def Let_def and_then_Panic_iff jpeg_returns_def)
  show False
  proof (cases mode)
    case (WriteFramed meta)
    have "\<exists>img'. embed_bytes img (usable_positions img) (encode_header e meta (of_nat (length payload))) payload = Ok img'"
      if "16 + length payload \<le> length (usable_positions img) div 8"
      by (rule fits) (use that in auto)
    then show ?thesis
      using p op sv u(1) WriteFramed
      by (auto simp: jpeg_write_chunk_def Let_def CHUNK_HEADER_LEN_def and_then_Panic_iff split: if_splits)
  next
    case (WriteMarkerless index)
    have w: "\<exists>img'. embed_bytes img ps [] payload = Ok img'"
      if ps: "order_positions e (usable_positions img) key index = Ok ps"
        and len: "length payload \<le> length (usable_positions img) div 8" for ps
    proof -
      have perm: "mset ps = mset (usable_positions img)" by (rule order_positions_perm [OF laws(2) ps])
      show ?thesis by (rule fits [OF perm]) (use mset_eq_length [OF perm] len in simp)
    qed
    have "order_positions e ps key index \<noteq> Panic" for ps by (simp add: order_positions_def Let_def)
    then show ?thesis
      using p op sv u(1) WriteMarkerless w
      by (fastforce simp: jpeg_write_chunk_def Let_def and_then_Panic_iff split: if_splits)
  qed
qed

lemma codec_write_chunk_no_panic:
  assumes "codec_laws e" "jpeg_returns e"
  shows "codec_write_chunk e k path mode payload key fs \<noteq> Panic"
  using assms png_write_chunk_no_panic jpeg_write_chunk_no_panic
  by (cases k) (auto simp: codec_write_chunk_def codec_laws_def)

text \<open>A step of \<open>flush\<close> that fails leaves the state as it was.\<close>

lemma flush_slot_fails:
  assumes "codec_laws e" "jpeg_returns e" "flush_slot e i s = (r, t)" "r \<noteq> Ok ()"
  shows "(\<exists>x. r = Err x) \<and> t = s"
  using assms(3,4) codec_write_chunk_no_panic [OF assms(1,2)]
  by (auto simp: flush_slot_def bind_def run_simps Let_def ok_or_def split: if_splits option.splits res.splits prod.splits)


text \<open>What holds after any number of steps: no block changed, and the rest can still be flushed.\<close>

lemma flushed_slot_bytes:
  assumes f: "flushed e s k t" and i: "i < length (bs_carriers s)"
  shows "slot_bytes e t (bs_carriers t ! i) = slot_bytes e s (bs_carriers s ! i)"
proof (cases "i < k")
  case True
  then have "bs_carriers t ! i = (bs_carriers s ! i)\<lparr>cs_dirty := False\<rparr>"
    "load_slot e t (bs_carriers s ! i) = slot_bytes e s (bs_carriers s ! i)"
    using f i by (auto simp: flushed_def)
  then show ?thesis unfolding slot_bytes_def by (simp add: load_slot_fields split: option.split)
next
  case False
  have te: "t = bs_carriers_update (\<lambda>_. bs_carriers t) (w_files_update (\<lambda>_. w_files t) s)"
    using f by (simp add: flushed_def)
  have "bs_carriers t ! i = bs_carriers s ! i"
    "w_files t (cs_path (bs_carriers s ! i)) = w_files s (cs_path (bs_carriers s ! i))"
    using f i False by (auto simp: flushed_def)
  with load_slot_cong [OF te, of "bs_carriers s ! i" e] show ?thesis by (simp add: slot_bytes_def split: option.split)
qed

lemma flushed_part:
  assumes f: "flushed e s k t"
  shows "store_ok e t = store_ok e s" "view e t = view e s" "bs_total_blocks t = bs_total_blocks s"
    "store.more t = store.more s" "w_ticks t = w_ticks s"
proof -
  have t: "t = bs_carriers_update (\<lambda>_. bs_carriers t) (w_files_update (\<lambda>_. w_files t) s)"
    using f by (simp add: flushed_def)
  have l: "length (bs_carriers t) = length (bs_carriers s)" using f by (simp add: flushed_def)
  have lay: "layout e t = layout e s"
  proof (rule nth_equalityI)
    fix i assume "i < length (layout e t)"
    then have i: "i < length (bs_carriers s)" by (simp add: l)
    then have "bs_carriers t ! i = (bs_carriers s ! i)\<lparr>cs_dirty := False\<rparr> \<or> bs_carriers t ! i = bs_carriers s ! i"
      using f by (auto simp: flushed_def split: if_splits)
    then show "layout e t ! i = layout e s ! i"
      using i l flushed_slot_bytes [OF f i] by (auto simp: layout_nth)
  qed (simp add: l)
  show "store.more t = store.more s" "w_ticks t = w_ticks s" "bs_total_blocks t = bs_total_blocks s"
    by (subst t, simp)+
  have c: "bs_encrypted t = bs_encrypted s" "bs_cipher t = bs_cipher s" "bs_total_blocks t = bs_total_blocks s"
    by (subst t, simp)+
  show "store_ok e t = store_ok e s" "view e t = view e s" using store_ok_cong [OF c lay] .
qed

lemma flushed_part_synced:
  assumes f: "flushed e s k t" and sy: "synced e s"
  shows "synced e t"
proof -
  have l: "length (bs_carriers t) = length (bs_carriers s)" using f by (simp add: flushed_def)
  have te: "t = bs_carriers_update (\<lambda>_. bs_carriers t) (w_files_update (\<lambda>_. w_files t) s)"
    using f by (simp add: flushed_def)
  have "map cs_path (bs_carriers t) = map cs_path (bs_carriers s)"
    using f l by (intro nth_equalityI) (auto simp: flushed_def split: if_splits)
  moreover have "(cs_dirty c \<longrightarrow> cs_buffer c \<noteq> None) \<and> (\<not> cs_dirty c \<longrightarrow> clean_slot e t c)"
    if c: "c \<in> set (bs_carriers t)" for c
  proof -
    obtain i where i: "i < length (bs_carriers s)" "bs_carriers t ! i = c"
      using c l unfolding in_set_conv_nth by auto
    have m: "bs_carriers s ! i \<in> set (bs_carriers s)" using i(1) by simp
    note b = flushed_slot_bytes [OF f i(1)]
    show ?thesis
    proof (cases "i < k")
      case True
      then have "c = (bs_carriers s ! i)\<lparr>cs_dirty := False\<rparr>"
        "load_slot e t (bs_carriers s ! i) = slot_bytes e s (bs_carriers s ! i)"
        using f i by (auto simp: flushed_def)
      with b i(2) show ?thesis by (simp add: clean_slot_def load_slot_fields)
    next
      case False
      then have c': "c = bs_carriers s ! i"
        "w_files t (cs_path (bs_carriers s ! i)) = w_files s (cs_path (bs_carriers s ! i))"
        using f i by (auto simp: flushed_def)
      have "load_slot e t c = load_slot e s c" by (rule load_slot_cong [OF te]) (use c' in simp)
      with sy m b i(2) c'(1) show ?thesis by (auto simp: synced_def clean_slot_def)
    qed
  qed
  ultimately show ?thesis using sy by (auto simp: synced_def)
qed

lemma flush_loop:
  assumes laws: "codec_laws e" "jpeg_returns e" and ok: "store_ok e s" "synced e s"
  shows "k \<le> length (bs_carriers s) \<Longrightarrow> flushed e s k u \<Longrightarrow>
    wp (for_each [k..<length (bs_carriers s)] (flush_slot e))
      (\<lambda>_ t. flushed e s (length (bs_carriers s)) t) (\<lambda>_ t. \<exists>k. flushed e s k t) u"
proof (induction "length (bs_carriers s) - k" arbitrary: k u)
  case 0
  then show ?case by (simp add: wp_simps)
next
  case (Suc m)
  then have k: "k < length (bs_carriers s)" by simp
  obtain r v where r: "flush_slot e k u = (r, v)" by (cases "flush_slot e k u")
  show ?case
  proof (cases "r = Ok ()")
    case True
    have "flushed e s (Suc k) v"
      by (rule flushed_step [OF laws(1) ok k Suc.prems(2)]) (use r True in simp)
    from Suc.hyps(1) [OF _ _ this] Suc.hyps(2) k r True show ?thesis
      by (simp add: upt_conv_Cons wp_def bind_def)
  next
    case False
    have "\<exists>k. flushed e s k u" using Suc.prems(2) by blast
    with flush_slot_fails [OF laws r False] r k show ?thesis
      by (auto simp: upt_conv_Cons wp_def bind_def) (rule exI, assumption)
  qed
qed

lemma wp_flush:
  assumes laws: "codec_laws e" "jpeg_returns e" and ok: "device_ok e s"
    and Q: "\<And>t. device_ok e t \<Longrightarrow> view e t = view e s \<Longrightarrow> bs_total_blocks t = bs_total_blocks s \<Longrightarrow>
      store.more t = store.more s \<Longrightarrow> store_ok e (drop_buffers t) \<Longrightarrow> view e (drop_buffers t) = view e s \<Longrightarrow>
      all_clean t \<Longrightarrow> Q () t"
    and E: "\<And>x t. device_ok e t \<Longrightarrow> view e t = view e s \<Longrightarrow> bs_total_blocks t = bs_total_blocks s \<Longrightarrow>
      store.more t = store.more s \<Longrightarrow> E x t"
  shows "wp (flush e) Q E s"
proof -
  have d: "store_ok e s" "synced e s" using ok by (simp_all add: device_ok_def)
  have same: "device_ok e t" "view e t = view e s" "bs_total_blocks t = bs_total_blocks s" "store.more t = store.more s"
    if "flushed e s k t" for k t
    using flushed_part [OF that] flushed_part_synced [OF that d(2)] d(1) by (simp_all add: device_ok_def)
  have "flushed e s 0 s" by (simp add: flushed_def)
  from flush_loop [OF laws d _ this]
  have "wp (for_each [0..<length (bs_carriers s)] (flush_slot e)) Q E s"
  proof (rule wp_conseq)
    fix x t assume "flushed e s (length (bs_carriers s)) t"
    then show "Q x t" using Q [OF same] flushed_same flushed_clean d(1) by (cases x) blast
  qed (use E [OF same] in auto)
  then show ?thesis by (simp add: flush_def wp_simps)
qed

end
