(* ===== verification/Disk.thy ===== *)
theory Disk
  imports AlbumOps BlockTree FlushSafe
begin

text \<open>
  The state of the filesystem as what it stores: the contents of the blocks, the superblock and the
  bitmap. \<open>album_ok\<close> is the invariant of the state; under it the programs of \<open>Album\<close> read and write
  this abstract disk, whatever carriers, buffers and ciphers lie below.
\<close>

subsection \<open>The abstract disk\<close>

record disk =
  dk_block :: contents
  dk_sb :: superblock
  dk_bitmap :: bitmap

definition disk :: "ext \<Rightarrow> 'a album_scheme \<Rightarrow> disk" where
  "disk e s = \<lparr>dk_block = view e s, dk_sb = al_sb s, dk_bitmap = al_bitmap s\<rparr>"

text \<open>The four regions are in order, and the bitmap and the inode table fit in theirs.\<close>

definition regions_ok :: "superblock \<Rightarrow> bool" where
  "regions_ok sb \<longleftrightarrow>
     1 \<le> unat (sb_bitmap_start sb) \<and>
     unat (sb_bitmap_start sb) + div_ceil (div_ceil (unat (sb_total_blocks sb)) 8) UB
       \<le> unat (sb_inode_table_start sb) \<and>
     unat (sb_inode_table_start sb) + div_ceil (unat (sb_inode_count sb)) INODES_PER_BLOCK
       \<le> unat (sb_data_start sb) \<and>
     unat (sb_data_start sb) \<le> unat (sb_total_blocks sb)"

definition disk_ok :: "disk \<Rightarrow> bool" where
  "disk_ok d \<longleftrightarrow> regions_ok (dk_sb d) \<and> unat (sb_total_blocks (dk_sb d)) * PB \<le> MAX64 \<and>
     bitmap_wf (dk_bitmap d) \<and> bm_total (dk_bitmap d) = unat (sb_total_blocks (dk_sb d)) \<and>
     blocks_full (unat (sb_total_blocks (dk_sb d))) (dk_block d)"

text \<open>Block 0 of a plaintext album holds its superblock, where \<open>open\<close> looks for it.\<close>

definition super_ok :: "ext \<Rightarrow> superblock \<Rightarrow> 'a store_scheme \<Rightarrow> bool" where
  "super_ok e sb s \<longleftrightarrow> (\<not> sb_encrypted sb \<longrightarrow> superblock_decode (e_crc32 e) (view e s 0) = Ok sb)"

lemma super_ok_cong: "view e t 0 = view e s 0 \<Longrightarrow> super_ok e sb t = super_ok e sb s"
  by (simp add: super_ok_def)

definition album_ok :: "ext \<Rightarrow> 'a album_scheme \<Rightarrow> bool" where
  "album_ok e s \<longleftrightarrow> device_ok e s \<and> sb_total_blocks (al_sb s) = bs_total_blocks s \<and>
     regions_ok (al_sb s) \<and> bitmap_wf (al_bitmap s) \<and>
     bm_total (al_bitmap s) = unat (sb_total_blocks (al_sb s)) \<and> super_ok e (al_sb s) s"

abbreviation dk_total :: "disk \<Rightarrow> nat" where "dk_total d \<equiv> unat (sb_total_blocks (dk_sb d))"
abbreviation dk_data :: "disk \<Rightarrow> nat" where "dk_data d \<equiv> unat (sb_data_start (dk_sb d))"
abbreviation dk_used :: "disk \<Rightarrow> nat set" where "dk_used d \<equiv> used (dk_bitmap d)"

lemma disk_sel:
  "dk_block (disk e s) = view e s" "dk_sb (disk e s) = al_sb s" "dk_bitmap (disk e s) = al_bitmap s"
  by (simp_all add: disk_def)

lemma album_ok_disk: "album_ok e s \<Longrightarrow> disk_ok (disk e s)"
  using sdev.content_length [of e s]
  by (auto simp: disk_sel album_ok_def disk_ok_def blocks_full_def device_ok_def store_ok_def layout_wf_def)

lemma album_more:
  fixes s t :: "'a album_scheme"
  assumes "store.more t = store.more s"
  shows "al_sb t = al_sb s" "al_bitmap t = al_bitmap s"
  using assms by (cases s; cases t; simp)+

lemma bitmap_update_device:
  fixes s :: "'a album_scheme"
  shows "device_ok e (al_bitmap_update f s) = device_ok e s" "view e (al_bitmap_update f s) = view e s"
proof -
  have l: "load_slot e (al_bitmap_update f s) = load_slot e s"
    by (simp add: fun_eq_iff load_slot_def cong: if_cong option.case_cong)
  then have b: "slot_bytes e (al_bitmap_update f s) = slot_bytes e s"
    by (simp add: fun_eq_iff slot_bytes_def cong: option.case_cong)
  then have "layout e (al_bitmap_update f s) = layout e s" by (simp add: layout_def)
  note c = store_ok_cong [of "al_bitmap_update f s" s e, OF _ _ _ this]
  show "view e (al_bitmap_update f s) = view e s" using c by simp
  have "synced e (al_bitmap_update f s) = synced e s"
    by (simp add: synced_def clean_slot_def l b)
  then show "device_ok e (al_bitmap_update f s) = device_ok e s" using c by (simp add: device_ok_def)
qed

lemma ticks_update_device:
  fixes s :: "'a album_scheme"
  shows "device_ok e (w_ticks_update f s) = device_ok e s" "view e (w_ticks_update f s) = view e s"
proof -
  have l: "load_slot e (w_ticks_update f s) = load_slot e s"
    by (simp add: fun_eq_iff load_slot_def cong: if_cong option.case_cong)
  then have b: "slot_bytes e (w_ticks_update f s) = slot_bytes e s"
    by (simp add: fun_eq_iff slot_bytes_def cong: option.case_cong)
  then have "layout e (w_ticks_update f s) = layout e s" by (simp add: layout_def)
  note c = store_ok_cong [of "w_ticks_update f s" s e, OF _ _ _ this]
  show "view e (w_ticks_update f s) = view e s" using c by simp
  have "synced e (w_ticks_update f s) = synced e s"
    by (simp add: synced_def clean_slot_def l b)
  then show "device_ok e (w_ticks_update f s) = device_ok e s" using c by (simp add: device_ok_def)
qed


subsection \<open>Running programs on the abstract disk\<close>

lemma device_step:
  fixes s t :: "'a album_scheme"
  assumes ok: "album_ok e s" and t: "device_ok e t"
    "unat (bs_total_blocks t) = unat (bs_total_blocks s)" "store_rest t = store_rest s" and z: "view e t 0 = view e s 0"
  shows "album_ok e t" "al_sb t = al_sb s" "al_bitmap t = al_bitmap s"
proof -
  have m: "store.more t = store.more s" using t(3) by (simp add: store_rest_def)
  show "al_sb t = al_sb s" "al_bitmap t = al_bitmap s" using album_more [OF m] .
  then show "album_ok e t" using ok t(1,2) super_ok_cong [OF z] by (simp add: album_ok_def word_unat_eq_iff)
qed

lemma wp_disk_read:
  fixes s :: "'a album_scheme"
  assumes ok: "album_ok e s" and l: "l < dk_total (disk e s)"
    and Q: "\<And>t. album_ok e t \<Longrightarrow> disk e t = disk e s \<Longrightarrow> Q (dk_block (disk e s) l) t"
  shows "wp (read_block e l) Q E s"
proof (rule sdev.wp_rd)
  show "device_ok e s" "l < unat (bs_total_blocks s)" using ok l by (simp_all add: album_ok_def disk_sel)
  fix t assume t: "device_ok e t" "unat (bs_total_blocks t) = unat (bs_total_blocks s)"
    "view e t = view e s" "store_rest t = store_rest s"
  show "Q (view e s l) t"
    using Q [of t] device_step [OF ok t(1,2,4)] t(3) by (simp add: disk_def)
qed

lemma wp_disk_write:
  fixes s :: "'a album_scheme"
  assumes ok: "album_ok e s" and l: "l \<noteq> 0" "l < dk_total (disk e s)" and p: "length p \<le> UB"
    and Q: "\<And>t. album_ok e t \<Longrightarrow>
      disk e t = (disk e s)\<lparr>dk_block := (dk_block (disk e s))(l := pad p)\<rparr> \<Longrightarrow> Q () t"
  shows "wp (write_block e l p) Q E s"
proof (rule sdev.wp_wr)
  show "device_ok e s" "l < unat (bs_total_blocks s)" using ok l(2) by (simp_all add: album_ok_def disk_sel)
  fix t assume t: "device_ok e t" "unat (bs_total_blocks t) = unat (bs_total_blocks s)"
    "view e t = (view e s)(l := pad p)" "store_rest t = store_rest s"
  show "Q () t"
    using Q [of t] device_step [OF ok t(1,2,4)] t(3) l(1) by (simp add: disk_def)
qed (rule p)

lemma wp_disk_bitmap:
  fixes s :: "'a album_scheme"
  assumes ok: "album_ok e s" and f: "bitmap_wf (f (al_bitmap s))" "bm_total (f (al_bitmap s)) = bm_total (al_bitmap s)"
    and Q: "\<And>t. album_ok e t \<Longrightarrow> disk e t = (disk e s)\<lparr>dk_bitmap := f (dk_bitmap (disk e s))\<rparr> \<Longrightarrow> Q () t"
  shows "wp (modify (al_bitmap_update f)) Q E s"
proof -
  have "album_ok e (al_bitmap_update f s)"
    using ok f by (simp add: album_ok_def bitmap_update_device super_ok_def)
  then show ?thesis using Q by (simp add: wp_simps disk_def bitmap_update_device)
qed

lemma wp_disk_now:
  fixes s :: "'a album_scheme"
  assumes ok: "album_ok e s"
    and Q: "\<And>x t. album_ok e t \<Longrightarrow> disk e t = disk e s \<Longrightarrow> Q x t"
  shows "wp (now e) Q E s"
proof -
  have "album_ok e (w_ticks_update f s)" "disk e (w_ticks_update f s) = disk e s" for f
    using ok by (simp_all add: album_ok_def disk_def ticks_update_device super_ok_def)
  then show ?thesis using Q by (simp add: now_def wp_simps)
qed

lemma wp_disk_clear:
  fixes s :: "'a album_scheme"
  assumes ok: "album_ok e s"
    and Q: "\<And>t. album_ok e t \<Longrightarrow> disk e t = (disk e s)\<lparr>dk_bitmap := clear_block (dk_bitmap (disk e s)) (unat b)\<rparr> \<Longrightarrow> Q () t"
  shows "wp (clear_bit b) Q E s"
  unfolding clear_bit_def by (rule wp_disk_bitmap [OF ok]) (use ok Q in \<open>auto simp: album_ok_def disk_sel\<close>)

text \<open>
  Allocation: a free block of the data region is marked used and zeroed; when there is none the
  error is \<open>NoSpace\<close> and nothing changed.
\<close>

lemma wp_disk_allocate:
  fixes s :: "'a album_scheme"
  assumes ok: "album_ok e s"
    and Q: "\<And>b t. album_ok e t \<Longrightarrow> b \<noteq> 0 \<Longrightarrow> dk_data (disk e s) \<le> unat b \<Longrightarrow>
      unat b < dk_total (disk e s) \<Longrightarrow> unat b \<notin> dk_used (disk e s) \<Longrightarrow>
      {dk_data (disk e s)..<unat b} \<subseteq> dk_used (disk e s) \<Longrightarrow>
      disk e t = (disk e s)\<lparr>dk_block := (dk_block (disk e s))(unat b := zeros),
        dk_bitmap := set_block (dk_bitmap (disk e s)) (unat b)\<rparr> \<Longrightarrow> Q b t"
    and E: "{dk_data (disk e s)..<dk_total (disk e s)} \<subseteq> dk_used (disk e s) \<Longrightarrow> E NoSpace s"
  shows "wp (allocate_block e) Q E s"
proof -
  have wf: "bitmap_wf (al_bitmap s)" "bm_total (al_bitmap s) = unat (sb_total_blocks (al_sb s))"
    using ok by (simp_all add: album_ok_def)
  show ?thesis
  proof (cases "alloc_from (al_bitmap s) (unat (sb_data_start (al_sb s)))")
    case (Err x)
    then show ?thesis
      using E wf alloc_from_Err [of "al_bitmap s" "unat (sb_data_start (al_sb s))" x]
      by (simp add: allocate_block_def wp_simps disk_sel)
  next
    case Panic
    then show ?thesis using bm.take_no_panic by blast
  next
    case (Ok r)
    obtain b bm where r: "r = (b, bm)" by (cases r)
    note a = alloc_from_Ok [OF Ok [unfolded r]]
    have b: "b < 2 ^ 64" "unat (of_nat b :: u64) = b"
      using a wf(2) unat_of_nat64 [of b] unat_u64 [of "sb_total_blocks (al_sb s)"] by simp_all
    have pos: "0 < b" using ok a by (auto simp: album_ok_def regions_ok_def)
    have nz: "(of_nat b :: u64) \<noteq> 0" using pos b by (metis gr_implies_not0 unat_0)
    have upd: "wp (modify (al_bitmap_update (\<lambda>_. bm))) (\<lambda>_. wp (bind (write_block e b []) (\<lambda>_. ret (of_nat b))) Q E) E s"
    proof (rule wp_disk_bitmap [OF ok])
      show "bitmap_wf bm" "bm_total bm = bm_total (al_bitmap s)" using a wf by simp_all
      fix t :: "'a album_scheme" assume t: "album_ok e t" "disk e t = (disk e s)\<lparr>dk_bitmap := bm\<rparr>"
      show "wp (bind (write_block e b []) (\<lambda>_. ret (of_nat b))) Q E t"
        unfolding wp_bind
      proof (rule wp_disk_write [OF t(1)])
        show "b \<noteq> 0" "b < dk_total (disk e t)" using pos a wf t(2) by (simp_all add: disk_sel)
        fix u :: "'a album_scheme" assume u: "album_ok e u" "disk e u = (disk e t)\<lparr>dk_block := (dk_block (disk e t))(b := pad [])\<rparr>"
        show "wp (ret (of_nat b)) Q E u"
          unfolding wp_prim
          by (rule Q) (use u t a b nz wf in \<open>simp_all add: zeros_def disk_sel\<close>)
      qed simp
    qed
    then show ?thesis using Ok r by (simp add: allocate_block_def wp_simps)
  qed
qed

end
