(* ===== verification/BlockShrink.thy ===== *)
theory BlockShrink
  imports BlockTree
begin

text \<open>
  Removing one logical block from the tree of an inode: the pointer is cleared, and a table left
  without pointers is released with it.
\<close>

subsection \<open>Removing one block\<close>

lemma set_pointer_same:
  assumes "length b = UB" "j < POINTERS_PER_BLOCK" "pointer_at b j = p"
  shows "set_pointer b j p = b"
proof -
  have le: "j * 8 + 8 \<le> length b" using assms by (simp add: PPB_val UB_val)
  let ?s = "slice b (j * 8) (j * 8 + 8)"
  have "length ?s = 8" using le by simp
  then have "to_le 8 (from_le ?s :: u64) = ?s" using to_le_from_le [of ?s, where 'a = 64] by simp
  then have "to_le 8 p = ?s" using assms(3) by (simp add: pointer_at_def)
  then show ?thesis using le by (simp add: set_pointer_def put_slice_id)
qed

fun child :: "node \<Rightarrow> nat \<Rightarrow> node" where
  "child Single j = Data (12 + j)"
| "child Double j = Inner j"
| "child (Inner o') j = Data (12 + POINTERS_PER_BLOCK + (o' * POINTERS_PER_BLOCK + j))"
| "child (Data k) j = Data k"

lemma child:
  assumes "is_table p" "valid_node p" "j < POINTERS_PER_BLOCK"
  shows "valid_node (child p j)" "above (child p j) = Some p" "place (child p j) = j"
proof -
  have b: "o' * POINTERS_PER_BLOCK + j < POINTERS_PER_BLOCK * POINTERS_PER_BLOCK"
    if "o' < POINTERS_PER_BLOCK" for o'
    using assms(3) that by (simp add: PPB_val)
  show "valid_node (child p j)" "above (child p j) = Some p" "place (child p j) = j"
    using assms b by (cases p; simp add: MAX_BLOCKS_def)+
qed

text \<open>A table is all zero exactly when nothing hangs below it.\<close>

lemma all_zero_children:
  assumes ok: "tree_ok lo hi U V i" and full: "blocks_full hi V"
    and p: "is_table p" "valid_node p" "ptr V i p \<noteq> 0"
  shows "all_zero (V (unat (ptr V i p))) \<longleftrightarrow> (\<forall>m. valid_node m \<longrightarrow> above m = Some p \<longrightarrow> ptr V i m = 0)"
proof -
  have len: "length (V (unat (ptr V i p))) = UB"
    using full tree_okD(2) [OF ok p(2,3)] by (simp add: blocks_full_def)
  have e: "ptr V i m = pointer_at (V (unat (ptr V i p))) (place m)" if "above m = Some p" for m
    using ptr_above [OF that] p(3) by (simp add: entry_def)
  show ?thesis
    unfolding all_zero_pointers [OF len]
    using e place_bound child [OF p(1,2)] by metis
qed

text \<open>An emptied table is released too; what was written to a released block does not matter.\<close>

lemma prune_empty:
  assumes sh: "shrinks lo hi N U V i U1 W j" and p: "is_table p" "valid_node p" "ptr W j p \<noteq> 0"
    and q: "\<And>q. above p = Some q \<Longrightarrow> ptr W j q \<noteq> 0" and z: "all_zero (W (unat (ptr W j p)))"
    and r: "set_ptr W j p 0 = (W', j')"
  shows "shrinks lo hi (insert p N) U V i (U1 - {unat (ptr W j p)}) W' j'"
proof -
  note ok = shrinksD(1,2) [OF sh]
  have kids: "ptr W j m = 0" if "valid_node m" "above m = Some p" for m
    using all_zero_children [OF ok p] z that by blast
  have "shrinks lo hi {p} U1 W j (U1 - {unat (ptr W j p)}) (fst (set_ptr W j p 0)) (snd (set_ptr W j p 0))"
    by (rule prune [OF ok p(2) q kids _ refl]) (use p(3) in simp_all)
  from shrinks_trans [OF sh this] show ?thesis unfolding r by simp
qed

lemma shrinks_released:
  assumes sh: "shrinks lo hi N U V i U' X j" and full: "blocks_full hi V"
    and b: "b \<in> tables V i" "b \<notin> U'"
  shows "shrinks lo hi N U V i U' (X(b := V b)) j"
proof (rule shrinks_vary [OF sh])
  show "blocks_full hi (X(b := V b))"
    using full shrinksD(2) [OF sh] by (simp add: blocks_full_def)
  fix l assume "l \<notin> tables V i - tables X j"
  moreover have "b \<notin> tables X j" using tables_used [OF shrinksD(1) [OF sh]] b(2) by blast
  ultimately have "l \<noteq> b" using b(1) by auto
  then show "(X(b := V b)) l = X l" by simp
qed

lemma in_tables: "is_table p \<Longrightarrow> valid_node p \<Longrightarrow> ptr V i p \<noteq> 0 \<Longrightarrow> unat (ptr V i p) \<in> tables V i"
  unfolding tables_def by blast

lemma prune_data:
  assumes ok: "tree_ok lo hi U V i" and full: "blocks_full hi V" and k: "k < MAX_BLOCKS"
    and p: "above (Data k) = Some p" "ptr V i p \<noteq> 0"
    and U1: "U1 = (if mapped V i k = 0 then U else U - {unat (mapped V i k)})"
    and c: "c = set_pointer (V (unat (ptr V i p))) (place (Data k)) 0"
  shows "shrinks lo hi {Data k} U V i U1 (V(unat (ptr V i p) := c)) i"
proof -
  have vk: "valid_node (Data k)" using k by simp
  have sp: "set_ptr V i (Data k) 0 = (V(unat (ptr V i p) := c), i)"
    unfolding set_ptr_def p(1) by (simp only: option.case Let_def c)
  have "shrinks lo hi {Data k} U V i U1 (fst (set_ptr V i (Data k) 0)) (snd (set_ptr V i (Data k) 0))"
    by (rule prune [OF ok full vk _ _ U1 [unfolded mapped_def] refl])
      (use p above_table in \<open>auto split: if_splits\<close>)
  then show ?thesis unfolding sp fst_conv snd_conv .
qed

lemma prune_single:
  assumes ok: "tree_ok lo hi U V i" and full: "blocks_full hi V"
    and k: "\<not> k < 12" "k - 12 < POINTERS_PER_BLOCK" and s: "i_single i \<noteq> 0"
    and U1: "U1 = (if mapped V i k = 0 then U else U - {unat (mapped V i k)})"
    and c: "c = set_pointer (V (unat (i_single i))) (k - 12) 0"
  shows "\<not> all_zero c \<Longrightarrow> shrinks lo hi {Data k} U V i U1 (V(unat (i_single i) := c)) i \<and>
      (\<exists>m. valid_node m \<and> above m = Some Single \<and> ptr (V(unat (i_single i) := c)) i m \<noteq> 0)"
    "all_zero c \<Longrightarrow> shrinks lo hi {Data k, Single} U V i (U1 - {unat (i_single i)}) V (i\<lparr>i_single := 0\<rparr>)"
proof -
  let ?t = "unat (i_single i)" and ?W = "V(unat (i_single i) := c)"
  have kM: "k < MAX_BLOCKS" using k by (simp add: MAX_BLOCKS_def PPB_val)
  note n = data_place [OF k]
  have sh: "shrinks lo hi {Data k} U V i U1 ?W i"
    using prune_data [OF ok full kM n(1) _ U1] s by (simp add: c n(2) del: place.simps)
  show "shrinks lo hi {Data k} U V i U1 ?W i \<and>
      (\<exists>m. valid_node m \<and> above m = Some Single \<and> ptr ?W i m \<noteq> 0)" if "\<not> all_zero c"
    using sh all_zero_children [OF shrinksD(1,2) [OF sh], of Single] s that by auto
  show "shrinks lo hi {Data k, Single} U V i (U1 - {?t}) V (i\<lparr>i_single := 0\<rparr>)" if "all_zero c"
  proof -
    have "shrinks lo hi {Single, Data k} U V i (U1 - {?t}) ?W (i\<lparr>i_single := 0\<rparr>)"
      using prune_empty [OF sh, of Single ?W "i\<lparr>i_single := 0\<rparr>"] s that by (simp add: set_ptr_def)
    from shrinks_released [OF this full, of ?t] in_tables [of Single V i] s show ?thesis
      by (simp add: insert_commute)
  qed
qed

lemma prune_double:
  assumes ok: "tree_ok lo hi U V i" and full: "blocks_full hi V" and kM: "k < MAX_BLOCKS"
    and k: "\<not> k < 12" "\<not> k - 12 < POINTERS_PER_BLOCK"
    and r: "r = k - 12 - POINTERS_PER_BLOCK" and n': "n' = Inner (r div POINTERS_PER_BLOCK)"
    and s: "i_double i \<noteq> 0" "ptr V i n' \<noteq> 0"
    and U1: "U1 = (if mapped V i k = 0 then U else U - {unat (mapped V i k)})"
    and c: "c = set_pointer (V (unat (ptr V i n'))) (r mod POINTERS_PER_BLOCK) 0"
    and o': "o' = set_pointer (V (unat (i_double i))) (r div POINTERS_PER_BLOCK) 0"
  shows "\<not> all_zero c \<Longrightarrow> shrinks lo hi {Data k} U V i U1 (V(unat (ptr V i n') := c)) i \<and>
      \<not> all_zero (V (unat (i_double i))) \<and>
      (\<exists>m. valid_node m \<and> above m = Some n' \<and> ptr (V(unat (ptr V i n') := c)) i m \<noteq> 0)"
    "all_zero c \<Longrightarrow> \<not> all_zero o' \<Longrightarrow>
      shrinks lo hi {Data k, n'} U V i (U1 - {unat (ptr V i n')}) (V(unat (i_double i) := o')) i \<and>
      (\<exists>m. valid_node m \<and> above m = Some Double \<and> ptr (V(unat (i_double i) := o')) i m \<noteq> 0)"
    "all_zero c \<Longrightarrow> all_zero o' \<Longrightarrow>
      shrinks lo hi {Data k, n', Double} U V i (U1 - {unat (ptr V i n')} - {unat (i_double i)}) V
        (i\<lparr>i_double := 0\<rparr>)"
proof -
  let ?b = "unat (ptr V i n')" and ?d = "unat (i_double i)"
  let ?W = "V(?b := c)" and ?Y = "V(?d := o')"
  have vn: "valid_node n'" using outer_index [OF kM k] by (simp add: n' r)
  have tn: "is_table n'" "above n' = Some Double" by (simp_all add: n')
  have n: "above (Data k) = Some n'" "place (Data k) = r mod POINTERS_PER_BLOCK"
    using data_place_double [OF k] by (simp_all add: n' r)
  have bd: "?b \<noteq> ?d" using tree_ok_inj [OF ok vn _ s(2), of Double] by (auto simp: n')
  have bt: "?b \<in> tables V i" "?d \<in> tables V i"
    using in_tables [OF tn(1) vn s(2)] in_tables [of Double V i] s(1) by simp_all
  have sh: "shrinks lo hi {Data k} U V i U1 ?W i"
    by (rule prune_data [OF ok full kM n(1) s(2) U1]) (simp only: c n(2))
  have pW: "ptr ?W i n' = ptr V i n'" using shrinksD(4) [OF sh vn] by (simp add: n')
  have zd: "all_zero (V ?d) \<longleftrightarrow> (\<forall>m. valid_node m \<longrightarrow> above m = Some Double \<longrightarrow> ptr V i m = 0)"
    using all_zero_children [OF ok full, of Double] s(1) by simp
  show "shrinks lo hi {Data k} U V i U1 ?W i \<and> \<not> all_zero (V ?d) \<and>
      (\<exists>m. valid_node m \<and> above m = Some n' \<and> ptr ?W i m \<noteq> 0)" if "\<not> all_zero c"
    using all_zero_children [OF shrinksD(1,2) [OF sh] tn(1) vn] s(2) sh zd that vn tn(2)
    unfolding pW by auto
  have s2: "shrinks lo hi {n', Data k} U V i (U1 - {?b}) (?W(?d := o')) i" if "all_zero c"
    using prune_empty [OF sh tn(1) vn, of "?W(?d := o')" i] s that bd tn(2)
    unfolding pW by (simp add: set_ptr_def Let_def o' n')
  have s3: "shrinks lo hi {n', Data k} U V i (U1 - {?b}) ?Y i" if "all_zero c"
  proof -
    have "(?W(?d := o'))(?b := V ?b) = ?Y" using bd by (auto simp: fun_eq_iff)
    then show ?thesis using shrinks_released [OF s2 [OF that] full bt(1)] by simp
  qed
  show "shrinks lo hi {Data k, n'} U V i (U1 - {?b}) ?Y i \<and>
      (\<exists>m. valid_node m \<and> above m = Some Double \<and> ptr ?Y i m \<noteq> 0)"
    if "all_zero c" "\<not> all_zero o'"
    using all_zero_children [OF shrinksD(1,2) [OF s3 [OF that(1)]], of Double] s(1) s3 that
    by (auto simp: insert_commute)
  show "shrinks lo hi {Data k, n', Double} U V i (U1 - {?b} - {?d}) V (i\<lparr>i_double := 0\<rparr>)"
    if "all_zero c" "all_zero o'"
  proof -
    have "shrinks lo hi {Double, n', Data k} U V i (U1 - {?b} - {?d}) ?Y (i\<lparr>i_double := 0\<rparr>)"
      using prune_empty [OF s3 [OF that(1)], of Double ?Y "i\<lparr>i_double := 0\<rparr>"] s(1) that(2)
      by (simp add: set_ptr_def)
    from shrinks_released [OF this full bt(2)] show ?thesis by (simp add: insert_commute)
  qed
qed

end
