(* ===== verification/BlockMap.thy ===== *)
theory BlockMap
  imports Disk BlockShrink
begin

text \<open>
  The block mapping of \<open>Album\<close> on the abstract disk: what \<open>bmap\<close> returns and how it extends the tree
  of the inode, and what \<open>remove_mapped_block\<close> releases.
\<close>

abbreviation tree :: "disk \<Rightarrow> inode \<Rightarrow> bool" where
  "tree d i \<equiv> tree_ok (dk_data d) (dk_total d) (dk_used d) (dk_block d) i"

definition grows :: "nat \<Rightarrow> nat set \<Rightarrow> disk \<Rightarrow> inode \<Rightarrow> disk \<Rightarrow> inode \<Rightarrow> bool" where
  "grows c K d i d' i' \<longleftrightarrow> dk_sb d' = dk_sb d \<and>
     extends (dk_data d) (dk_total d) K (dk_used d) (dk_block d) i (dk_used d') (dk_block d') i' \<and>
     card (dk_used d' - dk_used d) \<le> c"

text \<open>Where a failing allocation leaves the disk: full, with the blocks in use untouched.\<close>

definition stuck :: "nat \<Rightarrow> disk \<Rightarrow> inode \<Rightarrow> disk \<Rightarrow> bool" where
  "stuck c d i d' \<longleftrightarrow> dk_sb d' = dk_sb d \<and> dk_used d \<subseteq> dk_used d' \<and>
     {dk_data d..<dk_total d} \<subseteq> dk_used d' \<and> dk_used d' - dk_used d \<subseteq> {dk_data d..<dk_total d} \<and>
     card (dk_used d' - dk_used d) \<le> c \<and>
     (\<forall>l. l \<notin> dk_used d' - dk_used d \<longrightarrow> l \<notin> tables (dk_block d) i \<longrightarrow> dk_block d' l = dk_block d l)"

lemma finite_used [simp]: "finite (used bm)"
  using finite_subset [OF used_bound] by blast

lemma growsD:
  assumes "grows c K d i d' i'"
  shows "dk_sb d' = dk_sb d"
    "extends (dk_data d) (dk_total d) K (dk_used d) (dk_block d) i (dk_used d') (dk_block d') i'"
    "card (dk_used d' - dk_used d) \<le> c"
  using assms by (simp_all add: grows_def)

lemma grows_tree: "grows c K d i d' i' \<Longrightarrow> tree d' i'"
  using extendsD(1) growsD by metis

lemma grows_refl: "tree d i \<Longrightarrow> disk_ok d \<Longrightarrow> grows c K d i d i"
  by (simp add: grows_def extends_refl disk_ok_def)

lemma card_added:
  assumes "A \<subseteq> B" "B \<subseteq> C"
  shows "card (C - A) \<le> card (C - B) + card (B - A)"
proof -
  have "C - A = (C - B) \<union> (B - A)" using assms by blast
  then show ?thesis by (simp add: card_Un_le)
qed

lemma grows_trans:
  assumes a: "grows c K d i d' i'" and b: "grows c' K d' i' d'' i''"
  shows "grows (c + c') K d i d'' i''"
proof -
  note A = growsD [OF a] and B = growsD [OF b]
  have "card (dk_used d'' - dk_used d) \<le> c + c'"
    using card_added [OF extendsD(2) [OF A(2)] extendsD(2) [OF B(2)]] A(3) B(3) by simp
  moreover have "extends (dk_data d) (dk_total d) K (dk_used d) (dk_block d) i (dk_used d'') (dk_block d'') i''"
    using extends_trans [OF A(2)] B(2) A(1) by simp
  ultimately show ?thesis using A(1) B(1) by (simp add: grows_def)
qed

lemma grows_stuck:
  assumes a: "grows c K d i d' i'" and b: "stuck c' d' i' d''"
  shows "stuck (c + c') d i d''"
proof -
  note A = growsD [OF a] and E = extendsD [OF growsD(2) [OF a]]
  have B: "dk_sb d'' = dk_sb d'" "dk_used d' \<subseteq> dk_used d''" "{dk_data d'..<dk_total d'} \<subseteq> dk_used d''"
    "dk_used d'' - dk_used d' \<subseteq> {dk_data d'..<dk_total d'}" "card (dk_used d'' - dk_used d') \<le> c'"
    "\<And>l. l \<notin> dk_used d'' - dk_used d' \<Longrightarrow> l \<notin> tables (dk_block d') i' \<Longrightarrow> dk_block d'' l = dk_block d' l"
    using b by (simp_all add: stuck_def)
  have "dk_block d'' l = dk_block d l" if l: "l \<notin> dk_used d'' - dk_used d" "l \<notin> tables (dk_block d) i" for l
  proof -
    have "l \<notin> dk_used d' - dk_used d" "l \<notin> dk_used d'' - dk_used d'" using l(1) E(2) B(2) by blast+
    moreover from this have "l \<notin> tables (dk_block d') i'" using l(2) E(7) by blast
    ultimately show ?thesis using B(6) [of l] E(6) [of l] l(2) by simp
  qed
  moreover have "card (dk_used d'' - dk_used d) \<le> c + c'"
    using card_added [OF E(2) B(2)] A(3) B(5) by simp
  moreover have "dk_sb d'' = dk_sb d" using A(1) B(1) by simp
  moreover have "dk_used d \<subseteq> dk_used d''" using E(2) B(2) by blast
  moreover have "{dk_data d..<dk_total d} \<subseteq> dk_used d''" using B(3) A(1) by simp
  moreover have "dk_used d'' - dk_used d \<subseteq> {dk_data d..<dk_total d}"
    using B(4) E(3) A(1) by auto
  ultimately show ?thesis unfolding stuck_def by blast
qed

lemma stuck_mono: "stuck c d i d' \<Longrightarrow> c \<le> c' \<Longrightarrow> stuck c' d i d'"
  unfolding stuck_def by (elim conjE, intro conjI) (assumption | rule le_trans)+

lemma grows_mono: "grows c K d i d' i' \<Longrightarrow> c \<le> c' \<Longrightarrow> grows c' K d i d' i'"
  by (auto simp: grows_def)

lemma stuck_refl: "{dk_data d..<dk_total d} \<subseteq> dk_used d \<Longrightarrow> stuck c d i d"
  by (simp add: stuck_def)

text \<open>The count of blocks of an inode is no part of its tree.\<close>

lemma ptr_count: "ptr V (i\<lparr>i_block_count := c\<rparr>) n = ptr V i n"
  by (rule ptr_inode_cong) simp_all

lemma mapped_count [simp]: "mapped V (i\<lparr>i_block_count := n\<rparr>) k = mapped V i k"
  by (simp add: mapped_def ptr_count del: ptr.simps)

lemma logical_count [simp]: "logical V (i\<lparr>i_block_count := n\<rparr>) k = logical V i k"
  by (simp add: logical_def)

lemma tables_count [simp]: "tables V (i\<lparr>i_block_count := n\<rparr>) = tables V i"
  by (simp add: tables_def ptr_count del: ptr.simps)

lemma tree_ok_count [simp]: "tree_ok lo hi U V (i\<lparr>i_block_count := n\<rparr>) = tree_ok lo hi U V i"
  by (rule tree_ok_inode_cong) simp_all

lemma same_attrs_count [simp]: "same_attrs (i'\<lparr>i_block_count := n\<rparr>) i = same_attrs i' i"
  by (simp add: same_attrs_def)

lemma grows_count: "grows c K d i d' i' \<Longrightarrow> grows c K d i d' (i'\<lparr>i_block_count := n\<rparr>)"
  unfolding grows_def extends_def same_attrs_count mapped_count tables_count tree_ok_count .

text \<open>One allocated block stored at a node: \<open>graft\<close> on the disk.\<close>

lemma grows_graft:
  assumes ok: "disk_ok d" and t: "tree d i" and n: "valid_node n"
    and p: "\<And>q. above n = Some q \<Longrightarrow> ptr (dk_block d) i q \<noteq> 0" and free: "ptr (dk_block d) i n = 0"
    and b: "b \<noteq> 0" "dk_data d \<le> unat b" "unat b < dk_total d" "unat b \<notin> dk_used d"
    and K: "\<And>k. n = Data k \<Longrightarrow> k \<in> K"
    and V': "(V', i') = set_ptr ((dk_block d)(unat b := zeros)) i n b"
    and d': "d' = d\<lparr>dk_block := V', dk_bitmap := set_block (dk_bitmap d) (unat b)\<rparr>"
  shows "grows 1 K d i d' i'" "valid_node m \<Longrightarrow> ptr V' i' m = (if m = n then b else ptr (dk_block d) i m)"
proof -
  have full: "blocks_full (dk_total d) (dk_block d)" and bm: "bitmap_wf (dk_bitmap d)"
    "bm_total (dk_bitmap d) = dk_total d" using ok by (simp_all add: disk_ok_def)
  note g = graft [OF t full n p free b(2,3,1,4) K V']
  have u: "dk_used d' = insert (unat b) (dk_used d)"
    using used_set [OF bm(1), of "unat b"] bm(2) b(3) by (simp add: d')
  have "dk_used d' - dk_used d = {unat b}" using b(4) by (auto simp: u)
  with g(1) u show "grows 1 K d i d' i'" by (simp add: grows_def d')
  show "valid_node m \<Longrightarrow> ptr V' i' m = (if m = n then b else ptr (dk_block d) i m)"
    using g(2) by simp
qed


lemma wp_allocate_at:
  fixes s :: "'a album_scheme"
  assumes ok: "album_ok e s" and t: "tree (disk e s) i" and n: "valid_node n"
    and p: "\<And>q. above n = Some q \<Longrightarrow> ptr (dk_block (disk e s)) i q \<noteq> 0"
    and free: "ptr (dk_block (disk e s)) i n = 0"
    and Q: "\<And>b u. album_ok e u \<Longrightarrow> b \<noteq> 0 \<Longrightarrow> unat b \<notin> dk_used (disk e s) \<Longrightarrow>
      disk e u = (disk e s)\<lparr>dk_block := (dk_block (disk e s))(unat b := zeros),
        dk_bitmap := set_block (dk_bitmap (disk e s)) (unat b)\<rparr> \<Longrightarrow>
      (\<And>K V' i' d'. (\<And>k. n = Data k \<Longrightarrow> k \<in> K) \<Longrightarrow> (V', i') = set_ptr (dk_block (disk e u)) i n b \<Longrightarrow>
        d' = (disk e u)\<lparr>dk_block := V'\<rparr> \<Longrightarrow>
        grows 1 K (disk e s) i d' i' \<and>
        (\<forall>m. valid_node m \<longrightarrow> ptr V' i' m = (if m = n then b else ptr (dk_block (disk e s)) i m))) \<Longrightarrow> Q b u"
    and E: "stuck 0 (disk e s) i (disk e s) \<Longrightarrow> E NoSpace s"
  shows "wp (allocate_block e) Q E s"
proof (rule wp_disk_allocate [OF ok])
  fix b :: u64 and u :: "'a album_scheme"
  assume u: "album_ok e u" "b \<noteq> 0" "dk_data (disk e s) \<le> unat b" "unat b < dk_total (disk e s)"
    "unat b \<notin> dk_used (disk e s)"
    and du: "disk e u = (disk e s)\<lparr>dk_block := (dk_block (disk e s))(unat b := zeros),
        dk_bitmap := set_block (dk_bitmap (disk e s)) (unat b)\<rparr>"
  show "Q b u"
  proof (rule Q [OF u(1,2,5) du])
    fix K V' i' and d' :: disk assume K: "\<And>k. n = Data k \<Longrightarrow> k \<in> K" and V': "(V', i') = set_ptr (dk_block (disk e u)) i n b"
      and d': "d' = (disk e u)\<lparr>dk_block := V'\<rparr>"
    have V: "(V', i') = set_ptr ((dk_block (disk e s))(unat b := zeros)) i n b"
      using V' unfolding du by simp
    have d: "d' = (disk e s)\<lparr>dk_block := V', dk_bitmap := set_block (dk_bitmap (disk e s)) (unat b)\<rparr>"
      unfolding d' du by simp
    note g = grows_graft [OF album_ok_disk [OF ok] t n p free u(2-5) K V d]
    from g show "grows 1 K (disk e s) i d' i' \<and>
        (\<forall>m. valid_node m \<longrightarrow> ptr V' i' m = (if m = n then b else ptr (dk_block (disk e s)) i m))" by blast
  qed
next
  assume "{dk_data (disk e s)..<dk_total (disk e s)} \<subseteq> dk_used (disk e s)"
  then show "E NoSpace s" using E stuck_refl by blast
qed


subsection \<open>Looking a block up\<close>

lemma table_in_range:
  assumes "tree d i" "valid_node n" "above n = Some p" "ptr (dk_block d) i p \<noteq> 0"
  shows "unat (ptr (dk_block d) i p) < dk_total d"
  using tree_okD(2) [OF assms(1) _ assms(4)] above_valid [OF assms(2,3)] by simp

lemma wp_leaf_lookup:
  fixes s :: "'a album_scheme"
  assumes ok: "album_ok e s" and t: "tree (disk e s) i" and n: "valid_node n" "above n = Some p"
    and p: "ptr (dk_block (disk e s)) i p \<noteq> 0"
    and Q: "\<And>t. album_ok e t \<Longrightarrow> disk e t = disk e s \<Longrightarrow>
      Q (then_some (ptr (dk_block (disk e s)) i n), i) t"
  shows "wp (bmap_leaf e i (ptr (dk_block (disk e s)) i p) (place n) False) Q E s"
  unfolding bmap_leaf_def wp_bind
proof (rule wp_disk_read [OF ok table_in_range [OF t n p]])
  fix u :: "'a album_scheme" assume u: "album_ok e u" "disk e u = disk e s"
  have "pointer_at (dk_block (disk e s) (unat (ptr (dk_block (disk e s)) i p))) (place n) =
      ptr (dk_block (disk e s)) i n"
    using ptr_above [OF n(2)] p by (simp add: entry_def)
  then show "wp (let pointer = pointer_at (dk_block (disk e s) (unat (ptr (dk_block (disk e s)) i p))) (place n)
      in if pointer = 0 \<and> False then bind (allocate_block e) (\<lambda>new_block.
          let pointers = set_pointer (dk_block (disk e s) (unat (ptr (dk_block (disk e s)) i p))) (place n) new_block
          in bind (write_block e (unat (ptr (dk_block (disk e s)) i p)) pointers) (\<lambda>_.
             ret (Some new_block, i\<lparr>i_block_count := i_block_count i + 1\<rparr>)))
         else ret (then_some pointer, i)) Q E u"
    using Q [OF u] by (simp add: wp_simps)
qed

lemma wp_bmap_lookup:
  fixes s :: "'a album_scheme"
  assumes ok: "album_ok e s" and t: "tree (disk e s) i" and k: "k < MAX_BLOCKS"
    and Q: "\<And>t. album_ok e t \<Longrightarrow> disk e t = disk e s \<Longrightarrow>
      Q (then_some (mapped (dk_block (disk e s)) i k), i) t"
  shows "wp (bmap e i k False) Q E s"
proof -
  let ?V = "dk_block (disk e s)" and ?P = POINTERS_PER_BLOCK
  consider "k < 12" | "\<not> k < 12" "k - 12 < ?P" | "\<not> k < 12" "\<not> k - 12 < ?P" by blast
  then show ?thesis
  proof cases
    case 1
    then show ?thesis using Q [OF ok refl] by (simp add: bmap_def bmap_direct_def wp_simps mapped_def Let_def)
  next
    case 2
    note n = data_place [OF 2]
    show ?thesis
    proof (cases "i_single i = 0")
      case True
      then show ?thesis
        using Q [OF ok refl] 2 by (simp add: bmap_def bmap_single_def wp_simps mapped_def then_some_def entry_def)
    next
      case False
      have "wp (bmap_leaf e i (ptr ?V i Single) (place (Data k)) False) Q E s"
        by (rule wp_leaf_lookup [OF ok t _ n(1)]) (use k False Q in \<open>simp_all add: mapped_def\<close>)
      then show ?thesis using 2 False by (simp add: bmap_def bmap_single_def)
    qed
  next
    case 3
    note n = data_place_double [OF 3]
    let ?r = "k - 12 - ?P"
    have r: "\<not> ?r \<ge> ?P * ?P" using max_blocks_iff [OF 3] k by simp
    show ?thesis
    proof (cases "i_double i = 0")
      case True
      then have "wp (ret (None, i)) Q E s"
        using Q [OF ok refl] 3 by (simp add: wp_simps mapped_def then_some_def entry_def Let_def)
      then show ?thesis using 3 r True by (simp add: bmap_def Let_def)
    next
      case False
      have vi: "valid_node (Inner (?r div ?P))" using outer_index [OF k 3] by simp
      have d: "unat (i_double i) < dk_total (disk e s)"
        using table_in_range [OF t vi, of Double] False by simp
      have inner: "wp (bmap_inner e i ?r False) Q E s"
        unfolding bmap_inner_def Let_def wp_bind
      proof (rule wp_disk_read [OF ok d])
        fix u :: "'a album_scheme" assume u: "album_ok e u" "disk e u = disk e s"
        have pi: "pointer_at (?V (unat (i_double i))) (?r div ?P) = ptr ?V i (Inner (?r div ?P))"
          using False by (simp add: entry_def)
        have leaf: "wp (bmap_leaf e i (ptr (dk_block (disk e u)) i (Inner (?r div ?P))) (place (Data k)) False) Q E u"
          if "ptr ?V i (Inner (?r div ?P)) \<noteq> 0"
          by (rule wp_leaf_lookup [OF u(1) _ _ n(1)]) (use k t that Q u in \<open>simp_all add: mapped_def\<close>)
        have hole: "Q (None, i) u" if "ptr ?V i (Inner (?r div ?P)) = 0"
        proof -
          have "mapped ?V i k = 0"
            unfolding mapped_def using ptr_above [OF n(1)] that by (simp del: ptr.simps)
          then show ?thesis using Q [OF u] by (simp add: then_some_def)
        qed
        show "wp (if pointer_at (?V (unat (i_double i))) (?r div ?P) = 0
            then if \<not> False then ret (None, i)
              else bind (allocate_block e) (\<lambda>inner_block.
                bind (write_block e (unat (i_double i)) (set_pointer (?V (unat (i_double i))) (?r div ?P) inner_block))
                  (\<lambda>_. bmap_leaf e i inner_block (?r mod ?P) False))
            else bmap_leaf e i (pointer_at (?V (unat (i_double i))) (?r div ?P)) (?r mod ?P) False) Q E u"
          unfolding pi using leaf hole u(2) n(2) by (auto simp: wp_simps simp del: ptr.simps)
      qed
      then show ?thesis using 3 r False by (simp add: bmap_def Let_def)
    qed
  qed
qed

lemma wp_bmap_beyond:
  assumes "\<not> k < MAX_BLOCKS"
  shows "bmap e i k allocate s = (Err (BadBlock k), s)"
proof -
  have "\<not> k < 12" "\<not> k - 12 < POINTERS_PER_BLOCK"
    "k - 12 - POINTERS_PER_BLOCK \<ge> POINTERS_PER_BLOCK * POINTERS_PER_BLOCK"
    using assms by (auto simp: MAX_BLOCKS_def PPB_val)
  then show ?thesis by (simp add: bmap_def Let_def run_simps)
qed

subsection \<open>Mapping a block\<close>

lemma wp_graft_root:
  fixes s :: "'a album_scheme"
  assumes ok: "album_ok e s" and t: "tree (disk e s) i" and n: "valid_node n" "above n = None"
    and free: "ptr (dk_block (disk e s)) i n = 0" and K: "\<And>k. n = Data k \<Longrightarrow> k \<in> K"
    and Q: "\<And>b u. album_ok e u \<Longrightarrow> b \<noteq> 0 \<Longrightarrow> grows 1 K (disk e s) i (disk e u) (put_root i n b) \<Longrightarrow>
      (\<And>m. valid_node m \<Longrightarrow> ptr (dk_block (disk e u)) (put_root i n b) m =
         (if m = n then b else ptr (dk_block (disk e s)) i m)) \<Longrightarrow> wp (f b) Q E u"
    and E: "stuck 0 (disk e s) i (disk e s) \<Longrightarrow> E NoSpace s"
  shows "wp (bind (allocate_block e) f) Q E s"
  unfolding wp_bind
proof (rule wp_allocate_at [OF ok t n(1) _ free])
  fix b :: u64 and u :: "'a album_scheme"
  assume u: "album_ok e u" "b \<noteq> 0"
    and g: "\<And>K V' i' d'. (\<And>k. n = Data k \<Longrightarrow> k \<in> K) \<Longrightarrow> (V', i') = set_ptr (dk_block (disk e u)) i n b \<Longrightarrow>
        d' = (disk e u)\<lparr>dk_block := V'\<rparr> \<Longrightarrow> grows 1 K (disk e s) i d' i' \<and>
        (\<forall>m. valid_node m \<longrightarrow> ptr V' i' m = (if m = n then b else ptr (dk_block (disk e s)) i m))"
  have "grows 1 K (disk e s) i (disk e u) (put_root i n b) \<and>
      (\<forall>m. valid_node m \<longrightarrow> ptr (dk_block (disk e u)) (put_root i n b) m =
         (if m = n then b else ptr (dk_block (disk e s)) i m))"
    by (rule g [OF K]) (simp_all add: set_ptr_def n(2))
  then show "wp (f b) Q E u" using Q [OF u] by blast
qed (use n(2) E in simp_all)

lemma wp_graft_below:
  fixes s :: "'a album_scheme"
  assumes ok: "album_ok e s" and t: "tree (disk e s) i" and n: "valid_node n" "above n = Some p"
    and p: "ptr (dk_block (disk e s)) i p = table" "table \<noteq> 0"
    and free: "ptr (dk_block (disk e s)) i n = 0" and K: "\<And>k. n = Data k \<Longrightarrow> k \<in> K"
    and Q: "\<And>b u. album_ok e u \<Longrightarrow> b \<noteq> 0 \<Longrightarrow> grows 1 K (disk e s) i (disk e u) i \<Longrightarrow>
      (\<And>m. valid_node m \<Longrightarrow> ptr (dk_block (disk e u)) i m =
         (if m = n then b else ptr (dk_block (disk e s)) i m)) \<Longrightarrow> wp (f b) Q E u"
    and E: "stuck 0 (disk e s) i (disk e s) \<Longrightarrow> E NoSpace s"
  shows "wp (bind (allocate_block e) (\<lambda>b. bind (write_block e (unat table)
      (set_pointer (dk_block (disk e s) (unat table)) (place n) b)) (\<lambda>_. f b))) Q E s"
  unfolding wp_bind
proof (rule wp_allocate_at [OF ok t n(1) _ free])
  fix b :: u64 and u :: "'a album_scheme"
  assume u: "album_ok e u" "b \<noteq> 0" "unat b \<notin> dk_used (disk e s)"
    and du: "disk e u = (disk e s)\<lparr>dk_block := (dk_block (disk e s))(unat b := zeros),
        dk_bitmap := set_block (dk_bitmap (disk e s)) (unat b)\<rparr>"
    and g: "\<And>K V' i' d'. (\<And>k. n = Data k \<Longrightarrow> k \<in> K) \<Longrightarrow> (V', i') = set_ptr (dk_block (disk e u)) i n b \<Longrightarrow>
        d' = (disk e u)\<lparr>dk_block := V'\<rparr> \<Longrightarrow> grows 1 K (disk e s) i d' i' \<and>
        (\<forall>m. valid_node m \<longrightarrow> ptr V' i' m = (if m = n then b else ptr (dk_block (disk e s)) i m))"
  let ?V = "dk_block (disk e s)" and ?c = "set_pointer (dk_block (disk e s) (unat table)) (place n) b"
  have tp: "unat table < dk_total (disk e s)" using table_in_range [OF t n] p by simp
  have len: "length (?V (unat table)) = UB"
    using album_ok_disk [OF ok] tp by (simp add: disk_ok_def blocks_full_def)
  have cl: "length ?c = UB" using pointer_set(2) [OF len place_bound [OF n] place_bound [OF n]] .
  have tu: "unat table \<in> dk_used (disk e s)"
    using tree_okD(3) [OF t _ _] above_valid [OF n] p by metis
  then have ne: "unat table \<noteq> unat b" using u(3) by auto
  have pu: "ptr (dk_block (disk e u)) i p = table"
  proof -
    have away: "unat (ptr ?V i m) \<noteq> unat b" if "valid_node m" "ptr ?V i m \<noteq> 0" for m
      using tree_okD(3) [OF t that] u(3) by metis
    have "ptr (dk_block (disk e u)) i p = ptr ?V i p"
      unfolding du by (rule ptr_frame) (use away above_valid [OF n] in simp_all)
    then show ?thesis using p by simp
  qed
  show "wp (write_block e (unat table) ?c) (\<lambda>_. wp (f b) Q E) E u"
  proof (rule wp_disk_write [OF u(1)])
    show "unat table \<noteq> 0" "unat table < dk_total (disk e u)" using tp p(2) by (simp_all add: du unat_gt_0)
    show "length ?c \<le> UB" using cl by simp
    fix w :: "'a album_scheme"
    assume w: "album_ok e w" "disk e w = (disk e u)\<lparr>dk_block := (dk_block (disk e u))(unat table := pad ?c)\<rparr>"
    have V': "(dk_block (disk e w), i) = set_ptr (dk_block (disk e u)) i n b"
      using w(2) cl ne pu by (simp add: set_ptr_def n(2) Let_def) (simp add: du)
    have "disk e w = (disk e u)\<lparr>dk_block := dk_block (disk e w)\<rparr>" unfolding w(2) by simp
    from g [OF K V' this] Q [OF w(1) u(2)] show "wp (f b) Q E w" by blast
  qed
qed (use n p E in simp_all)

lemma wp_leaf_alloc:
  fixes s :: "'a album_scheme"
  assumes ok: "album_ok e s" and t: "tree (disk e s) i" and k: "k < MAX_BLOCKS" "above (Data k) = Some p"
    and p: "ptr (dk_block (disk e s)) i p = table" "table \<noteq> 0"
    and Q: "\<And>b i' u. album_ok e u \<Longrightarrow> grows 1 {k} (disk e s) i (disk e u) i' \<Longrightarrow>
      mapped (dk_block (disk e u)) i' k = b \<Longrightarrow> b \<noteq> 0 \<Longrightarrow> Q (Some b, i') u"
    and E: "\<And>u. album_ok e u \<Longrightarrow> stuck 0 (disk e s) i (disk e u) \<Longrightarrow> E NoSpace u"
  shows "wp (bmap_leaf e i table (place (Data k)) True) Q E s"
  unfolding bmap_leaf_def wp_bind
proof (rule wp_disk_read [OF ok])
  let ?V = "dk_block (disk e s)"
  have vk: "valid_node (Data k)" using k(1) by simp
  show "unat table < dk_total (disk e s)" using table_in_range [OF t vk k(2)] p by simp
  fix u :: "'a album_scheme" assume u: "album_ok e u" "disk e u = disk e s"
  have pt: "pointer_at (?V (unat table)) (place (Data k)) = mapped ?V i k"
    unfolding mapped_def using ptr_above [OF k(2)] p by (simp add: entry_def del: ptr.simps)
  have new: "wp (bind (allocate_block e) (\<lambda>b. bind (write_block e (unat table)
      (set_pointer (dk_block (disk e u) (unat table)) (place (Data k)) b))
      (\<lambda>_. ret (Some b, i\<lparr>i_block_count := i_block_count i + 1\<rparr>)))) Q E u" if "mapped ?V i k = 0"
  proof (rule wp_graft_below [OF u(1) _ vk k(2)])
    show "tree (disk e u) i" "ptr (dk_block (disk e u)) i p = table" using t p u(2) by simp_all
    show "ptr (dk_block (disk e u)) i (Data k) = 0" using that u(2) by (simp add: mapped_def del: ptr.simps)
    fix b :: u64 and w :: "'a album_scheme"
    assume w: "album_ok e w" "b \<noteq> 0" "grows 1 {k} (disk e u) i (disk e w) i"
      "\<And>m. valid_node m \<Longrightarrow> ptr (dk_block (disk e w)) i m = (if m = Data k then b else ptr (dk_block (disk e u)) i m)"
    have "mapped (dk_block (disk e w)) i k = b" using w(4) [OF vk] by (simp add: mapped_def del: ptr.simps)
    then show "wp (ret (Some b, i\<lparr>i_block_count := i_block_count i + 1\<rparr>)) Q E w"
      unfolding wp_prim using w u(2) by (intro Q [OF w(1)] grows_count) simp_all
  qed (use E u p in simp_all)
  have old: "wp (ret (then_some (mapped ?V i k), i)) Q E u" if "mapped ?V i k \<noteq> 0"
    using Q [OF u(1), of i] that u(2) grows_refl [OF t album_ok_disk [OF ok]]
    by (simp add: wp_simps then_some_def)
  show "wp (let pointer = pointer_at (?V (unat table)) (place (Data k))
      in if pointer = 0 \<and> True then bind (allocate_block e) (\<lambda>new_block.
          let pointers = set_pointer (?V (unat table)) (place (Data k)) new_block
          in bind (write_block e (unat table) pointers) (\<lambda>_.
             ret (Some new_block, i\<lparr>i_block_count := i_block_count i + 1\<rparr>)))
         else ret (then_some pointer, i)) Q E u"
    unfolding pt Let_def using new old u(2) by auto
qed

lemma wp_bmap_alloc:
  fixes s :: "'a album_scheme"
  assumes ok: "album_ok e s" and t: "tree (disk e s) i" and k: "k < MAX_BLOCKS"
    and Q: "\<And>b i' u. album_ok e u \<Longrightarrow> grows 3 {k} (disk e s) i (disk e u) i' \<Longrightarrow>
      mapped (dk_block (disk e u)) i' k = b \<Longrightarrow> b \<noteq> 0 \<Longrightarrow> Q (Some b, i') u"
    and E: "\<And>u. album_ok e u \<Longrightarrow> stuck 2 (disk e s) i (disk e u) \<Longrightarrow> E NoSpace u"
  shows "wp (bmap e i k True) Q E s"
proof -
  let ?V = "dk_block (disk e s)" and ?P = POINTERS_PER_BLOCK
  have vk: "valid_node (Data k)" using k by simp
  text \<open>Mapping below a table, after \<open>c\<close> blocks were taken for the tables.\<close>
  have leaf: "wp (bmap_leaf e j table (place (Data k)) True) Q E w"
    if w: "album_ok e w" and g: "grows c {k} (disk e s) i (disk e w) j" "c \<le> 2"
      and p: "above (Data k) = Some p" "ptr (dk_block (disk e w)) j p = table" "table \<noteq> 0"
    for w :: "'a album_scheme" and j c p table
  proof (rule wp_leaf_alloc [OF w grows_tree [OF g(1)] k p])
    fix b j' and u :: "'a album_scheme"
    assume u: "album_ok e u" "grows 1 {k} (disk e w) j (disk e u) j'"
      "mapped (dk_block (disk e u)) j' k = b" "b \<noteq> 0"
    show "Q (Some b, j') u"
      by (rule Q [OF u(1) grows_mono [OF grows_trans [OF g(1) u(2)]] u(3,4)]) (use g(2) in simp)
  next
    fix u :: "'a album_scheme" assume u: "album_ok e u" "stuck 0 (disk e w) j (disk e u)"
    show "E NoSpace u"
      by (rule E [OF u(1) stuck_mono [OF grows_stuck [OF g(1) u(2)]]]) (use g(2) in simp)
  qed
  have start: "grows 0 {k} (disk e s) i (disk e s) i" by (rule grows_refl [OF t album_ok_disk [OF ok]])
  have full: "E NoSpace w" if "album_ok e w" "grows c {k} (disk e s) i (disk e w) j" "c \<le> 2"
      "stuck 0 (disk e w) j (disk e w)" for w :: "'a album_scheme" and c j
    by (rule E [OF that(1) stuck_mono [OF grows_stuck [OF that(2,4)]]]) (use that(3) in simp)
  consider "k < 12" | "\<not> k < 12" "k - 12 < ?P" | "\<not> k < 12" "\<not> k - 12 < ?P" by blast
  then show ?thesis
  proof cases
    case 1
    then have a: "above (Data k) = None" by simp
    show ?thesis
    proof (cases "i_direct i ! k = 0")
      case True
      have f: "ptr ?V i (Data k) = 0" using True 1 by simp
      have "wp (bind (allocate_block e) (\<lambda>b. ret (then_some b, i\<lparr>i_direct := (i_direct i)[k := b],
          i_block_count := i_block_count i + 1\<rparr>))) Q E s"
      proof (rule wp_graft_root [OF ok t vk a f])
        fix b :: u64 and u :: "'a album_scheme"
        assume u: "album_ok e u" "b \<noteq> 0" "grows 1 {k} (disk e s) i (disk e u) (put_root i (Data k) b)"
          "\<And>m. valid_node m \<Longrightarrow> ptr (dk_block (disk e u)) (put_root i (Data k) b) m =
             (if m = Data k then b else ptr ?V i m)"
        let ?j = "(put_root i (Data k) b)\<lparr>i_block_count := i_block_count i + 1\<rparr>"
        have "mapped (dk_block (disk e u)) (put_root i (Data k) b) k = b"
          using u(4) [OF vk] by (simp only: mapped_def if_True simp_thms)
        then have "Q (Some b, ?j) u"
          using Q [OF u(1) grows_mono [OF grows_count [OF u(3)]], of _ b] u(2) by (simp only: mapped_count) simp
        then show "wp (ret (then_some b, i\<lparr>i_direct := (i_direct i)[k := b],
          i_block_count := i_block_count i + 1\<rparr>)) Q E u"
          using u(2) by (simp add: wp_simps then_some_def)
      qed (use full [OF ok start] in simp_all)
      with 1 True show ?thesis by (simp add: bmap_def bmap_direct_def Let_def)
    next
      case False
      have "Q (Some (i_direct i ! k), i) s"
        using Q [OF ok grows_mono [OF start], of "i_direct i ! k"] False 1 by (simp add: mapped_def)
      with 1 False show ?thesis by (simp add: bmap_def bmap_direct_def Let_def wp_simps then_some_def)
    qed
  next
    case 2
    note n = data_place [OF 2]
    show ?thesis
    proof (cases "i_single i = 0")
      case True
      have "wp (bind (allocate_block e) (\<lambda>b. bmap_leaf e (i\<lparr>i_single := b\<rparr>) b (place (Data k)) True)) Q E s"
      proof (rule wp_graft_root [OF ok t, of Single])
        fix b :: u64 and u :: "'a album_scheme"
        assume u: "album_ok e u" "b \<noteq> 0" "grows 1 {k} (disk e s) i (disk e u) (put_root i Single b)"
        show "wp (bmap_leaf e (i\<lparr>i_single := b\<rparr>) b (place (Data k)) True) Q E u"
          by (rule leaf [OF u(1), where c = 1, OF _ _ n(1)]) (use u in simp_all)
      qed (use True full [OF ok start] in simp_all)
      with 2 True show ?thesis by (simp add: bmap_def bmap_single_def Let_def)
    next
      case False
      have "wp (bmap_leaf e i (i_single i) (place (Data k)) True) Q E s"
        by (rule leaf [OF ok start _ n(1)]) (use False in simp_all)
      with 2 False show ?thesis by (simp add: bmap_def bmap_single_def Let_def)
    qed
  next
    case 3
    note n = data_place_double [OF 3]
    let ?r = "k - 12 - ?P"
    let ?o = "?r div ?P"
    have r: "\<not> ?r \<ge> ?P * ?P" using max_blocks_iff [OF 3] k by simp
    have vi: "valid_node (Inner ?o)" using outer_index [OF k 3] by simp
    have inner: "wp (bmap_inner e j ?r True) Q E w"
      if w: "album_ok e w" and g: "grows c {k} (disk e s) i (disk e w) j" "c \<le> 1" and d: "i_double j \<noteq> 0"
      for w :: "'a album_scheme" and j c
      unfolding bmap_inner_def Let_def wp_bind
    proof (rule wp_disk_read [OF w])
      note tj = grows_tree [OF g(1)]
      show "unat (i_double j) < dk_total (disk e w)" using table_in_range [OF tj vi, of Double] d by simp
      fix u :: "'a album_scheme" assume u: "album_ok e u" "disk e u = disk e w"
      let ?W = "dk_block (disk e w)"
      have pi: "pointer_at (?W (unat (i_double j))) ?o = ptr ?W j (Inner ?o)"
        using d by (simp add: entry_def)
      have new: "wp (bind (allocate_block e) (\<lambda>b. bind (write_block e (unat (i_double j))
          (set_pointer (dk_block (disk e u) (unat (i_double j))) (place (Inner ?o)) b))
          (\<lambda>_. bmap_leaf e j b (place (Data k)) True))) Q E u" if z: "ptr ?W j (Inner ?o) = 0"
      proof (rule wp_graft_below [OF u(1) _ vi, of _ Double])
        show "tree (disk e u) j" "ptr (dk_block (disk e u)) j (Inner ?o) = 0" using tj z u(2) by simp_all
        fix b :: u64 and v :: "'a album_scheme"
        assume v: "album_ok e v" "b \<noteq> 0" "grows 1 {k} (disk e u) j (disk e v) j"
          "\<And>m. valid_node m \<Longrightarrow> ptr (dk_block (disk e v)) j m =
             (if m = Inner ?o then b else ptr (dk_block (disk e u)) j m)"
        have gv: "grows (c + 1) {k} (disk e s) i (disk e v) j"
          using grows_trans [OF g(1) v(3) [unfolded u(2)]] .
        show "wp (bmap_leaf e j b (place (Data k)) True) Q E v"
          by (rule leaf [OF v(1) gv _ n(1)]) (use v(2) v(4) [OF vi] g(2) in \<open>simp_all del: ptr.simps\<close>)
      next
        assume "stuck 0 (disk e u) j (disk e u)"
        then show "E NoSpace u" using full [OF u(1), of c j] g u(2) by simp
      qed (use d in simp_all)
      have old: "wp (bmap_leaf e j (ptr ?W j (Inner ?o)) (place (Data k)) True) Q E u"
        if "ptr ?W j (Inner ?o) \<noteq> 0"
        by (rule leaf [OF u(1), where c = c, OF _ _ n(1)]) (use that g u(2) in \<open>simp_all del: ptr.simps\<close>)
      show "wp (if pointer_at (?W (unat (i_double j))) ?o = 0
          then if \<not> True then ret (None, j)
            else bind (allocate_block e) (\<lambda>inner_block.
              bind (write_block e (unat (i_double j)) (set_pointer (?W (unat (i_double j))) ?o inner_block))
                (\<lambda>_. bmap_leaf e j inner_block (?r mod ?P) True))
          else bmap_leaf e j (pointer_at (?W (unat (i_double j))) ?o) (?r mod ?P) True) Q E u"
        unfolding pi using new old u(2) n(2) by (simp del: ptr.simps)
    qed
    show ?thesis
    proof (cases "i_double i = 0")
      case True
      have "wp (bind (allocate_block e) (\<lambda>b. bmap_inner e (i\<lparr>i_double := b\<rparr>) ?r True)) Q E s"
      proof (rule wp_graft_root [OF ok t, of Double])
        fix b :: u64 and u :: "'a album_scheme"
        assume u: "album_ok e u" "b \<noteq> 0" "grows 1 {k} (disk e s) i (disk e u) (put_root i Double b)"
        show "wp (bmap_inner e (i\<lparr>i_double := b\<rparr>) ?r True) Q E u"
          by (rule inner [OF u(1), where c = 1]) (use u in simp_all)
      qed (use True full [OF ok start] in simp_all)
      with 3 r True show ?thesis by (simp add: bmap_def Let_def)
    next
      case False
      have "wp (bmap_inner e i ?r True) Q E s" by (rule inner [OF ok start _ False]) simp
      with 3 r False show ?thesis by (simp add: bmap_def Let_def)
    qed
  qed
qed

end
