(* ===== verification/BlockFree.thy ===== *)
theory BlockFree
  imports BlockMap
begin

text \<open>
  Releasing blocks: \<open>remove_mapped_block\<close> unmaps one logical index and releases its block together
  with the tables that are left empty; \<open>free_all_blocks\<close> gives back every block of a file.
\<close>

subsection \<open>Removing one logical block\<close>

definition drops :: "node set \<Rightarrow> disk \<Rightarrow> inode \<Rightarrow> disk \<Rightarrow> inode \<Rightarrow> bool" where
  "drops N d i d' i' \<longleftrightarrow> dk_sb d' = dk_sb d \<and>
     shrinks (dk_data d) (dk_total d) N (dk_used d) (dk_block d) i (dk_used d') (dk_block d') i'"

text \<open>The tables above a node.\<close>

definition ancestors :: "node \<Rightarrow> node set" where
  "ancestors n = {p. above n = Some p} \<union> {q. \<exists>p. above n = Some p \<and> above p = Some q}"

text \<open>No table is without pointers.\<close>

definition tidy_tree :: "contents \<Rightarrow> inode \<Rightarrow> bool" where
  "tidy_tree V i \<longleftrightarrow> (\<forall>p. is_table p \<longrightarrow> valid_node p \<longrightarrow> ptr V i p \<noteq> 0 \<longrightarrow>
     (\<exists>m. valid_node m \<and> above m = Some p \<and> ptr V i m \<noteq> 0))"

definition unmaps :: "nat \<Rightarrow> disk \<Rightarrow> inode \<Rightarrow> disk \<Rightarrow> inode \<Rightarrow> bool" where
  "unmaps k d i d' i' \<longleftrightarrow>
     (\<exists>N. drops N d i d' i' \<and> N \<subseteq> insert (Data k) (ancestors (Data k))) \<and>
     mapped (dk_block d') i' k = 0 \<and> (tidy_tree (dk_block d) i \<longrightarrow> tidy_tree (dk_block d') i')"

lemma ancestors_up:
  "m \<in> insert n (ancestors n) \<Longrightarrow> above m = Some p \<Longrightarrow> p \<in> ancestors n"
  unfolding ancestors_def by (cases n) (auto split: if_splits)

lemma drops_refl: "tree d i \<Longrightarrow> disk_ok d \<Longrightarrow> drops {} d i d i"
  by (simp add: drops_def shrinks_refl disk_ok_def)

lemma drops_count: "drops N d i d' i' \<Longrightarrow> drops N d i d' (i'\<lparr>i_block_count := n\<rparr>)"
  unfolding drops_def shrinks_def tree_ok_count same_attrs_count ptr_count .

lemma unmaps_count: "unmaps k d i d' i' \<Longrightarrow> unmaps k d i d' (i'\<lparr>i_block_count := n\<rparr>)"
  unfolding unmaps_def tidy_tree_def mapped_count ptr_count using drops_count by blast

lemma unmapsI:
  assumes sh: "shrinks (dk_data d) (dk_total d) N (dk_used d) (dk_block d) i U' V' i'"
    and d': "dk_sb d' = dk_sb d" "dk_used d' = U'" "dk_block d' = V'"
    and N: "Data k \<in> N" "N \<subseteq> insert (Data k) (ancestors (Data k))" and k: "k < MAX_BLOCKS"
    and kept: "\<And>p. p \<in> ancestors (Data k) \<Longrightarrow> ptr V' i' p \<noteq> 0 \<Longrightarrow>
      \<exists>m. valid_node m \<and> above m = Some p \<and> ptr V' i' m \<noteq> 0"
  shows "unmaps k d i d' i'"
proof -
  have "drops N d i d' i'" using sh d' by (simp add: drops_def)
  moreover have "mapped (dk_block d') i' k = 0"
    using shrinksD(4) [OF sh, of "Data k"] N(1) k d'(3) by (simp add: mapped_def del: ptr.simps)
  moreover have "tidy_tree V' i'" if t: "tidy_tree (dk_block d) i"
    unfolding tidy_tree_def
  proof (intro allI impI)
    fix p assume p: "is_table p" "valid_node p" "ptr V' i' p \<noteq> 0"
    show "\<exists>m. valid_node m \<and> above m = Some p \<and> ptr V' i' m \<noteq> 0"
    proof (cases "p \<in> ancestors (Data k)")
      case False
      have "ptr (dk_block d) i p \<noteq> 0" using shrinksD(4) [OF sh p(2)] p(3) by (auto split: if_splits)
      then obtain m where m: "valid_node m" "above m = Some p" "ptr (dk_block d) i m \<noteq> 0"
        using t p unfolding tidy_tree_def by blast
      moreover have "m \<notin> N" using ancestors_up [of m "Data k" p] N(2) m(2) False by blast
      ultimately show ?thesis using shrinksD(4) [OF sh m(1)] by auto
    qed (use kept p(3) in blast)
  qed
  ultimately show ?thesis unfolding unmaps_def d'(3) using N(2) by blast
qed

text \<open>When there is nothing to remove, nothing changes.\<close>

lemma unmaps_refl:
  assumes "disk_ok d" "tree d i" "mapped (dk_block d) i k = 0"
  shows "unmaps k d i d i"
  using drops_refl [OF assms(2,1)] assms(3) unfolding unmaps_def by blast

lemma ancestors_simps:
  "k < 12 \<Longrightarrow> ancestors (Data k) = {}"
  "\<not> k < 12 \<Longrightarrow> k - 12 < POINTERS_PER_BLOCK \<Longrightarrow> ancestors (Data k) = {Single}"
  "\<not> k < 12 \<Longrightarrow> \<not> k - 12 < POINTERS_PER_BLOCK \<Longrightarrow> ancestors (Data k) =
     {Inner ((k - 12 - POINTERS_PER_BLOCK) div POINTERS_PER_BLOCK), Double}"
  by (auto simp: ancestors_def)

lemma count_commute:
  "i\<lparr>i_single := a, i_block_count := n\<rparr> = i\<lparr>i_block_count := n, i_single := a\<rparr>"
  "i\<lparr>i_double := a, i_block_count := n\<rparr> = i\<lparr>i_block_count := n, i_double := a\<rparr>"
  by (cases i; simp)+

lemma wp_drop_pointer:
  fixes s :: "'a album_scheme"
  assumes ok: "album_ok e s" and b: "length b = UB" and j: "j < POINTERS_PER_BLOCK"
    and Q: "\<And>n t. album_ok e t \<Longrightarrow> disk e t = (disk e s)\<lparr>dk_bitmap :=
        (if pointer_at b j = 0 then dk_bitmap (disk e s)
         else clear_block (dk_bitmap (disk e s)) (unat (pointer_at b j)))\<rparr> \<Longrightarrow>
      Q (set_pointer b j 0, i\<lparr>i_block_count := n\<rparr>) t"
  shows "wp (drop_pointer i b j) Q E s"
proof (cases "pointer_at b j = 0")
  case True
  have "Q (b, i\<lparr>i_block_count := i_block_count i\<rparr>) s"
    using Q [OF ok, of "i_block_count i"] True set_pointer_same [OF b j True] by simp
  then show ?thesis using True by (simp add: drop_pointer_def wp_simps Let_def)
next
  case False
  show ?thesis
    unfolding drop_pointer_def Let_def if_P [OF False] wp_bind
  proof (rule wp_disk_clear [OF ok])
    fix t :: "'a album_scheme" assume t: "album_ok e t" "disk e t = (disk e s)\<lparr>dk_bitmap :=
        clear_block (dk_bitmap (disk e s)) (unat (pointer_at b j))\<rparr>"
    show "wp (ret (set_pointer b j 0, i\<lparr>i_block_count := i_block_count i - 1\<rparr>)) Q E t"
      using Q [OF t(1)] t(2) False by (simp add: wp_simps)
  qed
qed

text \<open>A table is written back, or released when it holds no pointer.\<close>

lemma wp_settle:
  fixes s :: "'a album_scheme"
  assumes ok: "album_ok e s" and c: "table \<noteq> 0" "unat table < dk_total (disk e s)" "length c = UB"
    and zero: "\<And>t. all_zero c \<Longrightarrow> album_ok e t \<Longrightarrow> disk e t = (disk e s)\<lparr>dk_bitmap :=
      clear_block (dk_bitmap (disk e s)) (unat table)\<rparr> \<Longrightarrow> wp z Q E t"
    and kept: "\<And>t. \<not> all_zero c \<Longrightarrow> album_ok e t \<Longrightarrow> disk e t = (disk e s)\<lparr>dk_block :=
      (dk_block (disk e s))(unat table := c)\<rparr> \<Longrightarrow> wp m Q E t"
  shows "wp (if all_zero c then bind (clear_bit table) (\<lambda>_. z)
    else bind (write_block e (unat table) c) (\<lambda>_. m)) Q E s"
proof (cases "all_zero c")
  case True
  have "wp (bind (clear_bit table) (\<lambda>_. z)) Q E s"
    unfolding wp_bind by (rule wp_disk_clear [OF ok zero [OF True]])
  with True show ?thesis by simp
next
  case False
  have "wp (bind (write_block e (unat table) c) (\<lambda>_. m)) Q E s"
    unfolding wp_bind by (rule wp_disk_write [OF ok _ c(2)]) (use c(1,3) kept [OF False] in \<open>simp_all add: unat_gt_0\<close>)
  with False show ?thesis by simp
qed

text \<open>The blocks in use after the bits of some blocks were cleared.\<close>

lemma used_dropped:
  "disk_ok d \<Longrightarrow> used (if p = 0 then dk_bitmap d else clear_block (dk_bitmap d) (unat p)) =
     (if p = 0 then dk_used d else dk_used d - {unat p})"
  by (simp add: disk_ok_def used_clear)

lemma dropped_wf:
  "disk_ok d \<Longrightarrow> bitmap_wf (if p = 0 then dk_bitmap d else clear_block (dk_bitmap d) (unat p))"
  by (simp add: disk_ok_def)

lemma wp_remove_direct:
  fixes s :: "'a album_scheme"
  assumes ok: "album_ok e s" and t: "tree (disk e s) i" and k: "k < 12"
    and Q: "\<And>i' t. album_ok e t \<Longrightarrow> unmaps k (disk e s) i (disk e t) i' \<Longrightarrow> Q i' t"
  shows "wp (remove_direct i k) Q E s"
proof -
  let ?V = "dk_block (disk e s)" and ?b = "i_direct i ! k"
  let ?j = "i\<lparr>i_direct := (i_direct i)[k := 0]\<rparr>"
  note dk = album_ok_disk [OF ok]
  have full: "blocks_full (dk_total (disk e s)) ?V" using dk by (simp add: disk_ok_def)
  have vk: "valid_node (Data k)" using k by (simp add: MAX_BLOCKS_def)
  have m: "mapped ?V i k = ?b" using k by (simp add: mapped_def)
  have sp: "set_ptr ?V i (Data k) 0 = (?V, ?j)" using k by (simp add: set_ptr_def)
  have "shrinks (dk_data (disk e s)) (dk_total (disk e s)) {Data k} (dk_used (disk e s)) ?V i
      (if ptr ?V i (Data k) = 0 then dk_used (disk e s) else dk_used (disk e s) - {unat (ptr ?V i (Data k))})
      (fst (set_ptr ?V i (Data k) 0)) (snd (set_ptr ?V i (Data k) 0))"
    by (rule prune [OF t full vk _ _ refl refl]) (use k above_table in \<open>auto split: if_splits\<close>)
  then have sh: "shrinks (dk_data (disk e s)) (dk_total (disk e s)) {Data k} (dk_used (disk e s)) ?V i
      (if ?b = 0 then dk_used (disk e s) else dk_used (disk e s) - {unat ?b}) ?V ?j"
    unfolding sp using k by (simp cong: if_cong)
  have un: "unmaps k (disk e s) i (disk e u) ?j"
    if u: "disk e u = (disk e s)\<lparr>dk_bitmap := (if ?b = 0 then dk_bitmap (disk e s)
        else clear_block (dk_bitmap (disk e s)) (unat ?b))\<rparr>" for u :: "'a album_scheme"
  proof -
    show ?thesis
      by (rule unmapsI [OF sh]) (use k used_dropped [OF dk, of ?b] ancestors_simps(1) [OF k] in
        \<open>simp_all add: u MAX_BLOCKS_def\<close>)
  qed
  show ?thesis
  proof (cases "?b = 0")
    case True
    then have "disk e s = (disk e s)\<lparr>dk_bitmap := (if ?b = 0 then dk_bitmap (disk e s)
        else clear_block (dk_bitmap (disk e s)) (unat ?b))\<rparr>" by simp
    from Q [OF ok un [OF this]] True show ?thesis by (simp add: remove_direct_def wp_simps Let_def)
  next
    case False
    show ?thesis
      unfolding remove_direct_def Let_def if_P [OF False] wp_bind
    proof (rule wp_disk_clear [OF ok])
      fix u :: "'a album_scheme" assume u: "album_ok e u" "disk e u = (disk e s)\<lparr>dk_bitmap :=
        clear_block (dk_bitmap (disk e s)) (unat ?b)\<rparr>"
      show "wp (ret (?j\<lparr>i_block_count := i_block_count ?j - 1\<rparr>)) Q E u"
        unfolding wp_prim by (rule Q [OF u(1) unmaps_count [OF un]]) (use u(2) False in simp)
    qed
  qed
qed


lemma wp_remove_single:
  fixes s :: "'a album_scheme"
  assumes ok: "album_ok e s" and t: "tree (disk e s) i"
    and k: "\<not> k < 12" "k - 12 < POINTERS_PER_BLOCK"
    and Q: "\<And>i' t. album_ok e t \<Longrightarrow> unmaps k (disk e s) i (disk e t) i' \<Longrightarrow> Q i' t"
  shows "wp (remove_single e i (k - 12)) Q E s"
proof (cases "i_single i = 0")
  case True
  have "unmaps k (disk e s) i (disk e s) i"
    by (rule unmaps_refl [OF album_ok_disk [OF ok] t]) (use k True in \<open>simp add: mapped_def\<close>)
  with True show ?thesis by (simp add: remove_single_def wp_simps Q [OF ok])
next
  case False
  let ?d = "disk e s" and ?t = "unat (i_single i)"
  let ?b = "mapped (dk_block ?d) i k" and ?c = "set_pointer (dk_block ?d ?t) (k - 12) 0"
  note dk = album_ok_disk [OF ok]
  have full: "blocks_full (dk_total ?d) (dk_block ?d)" using dk by (simp add: disk_ok_def)
  have rng: "?t < dk_total ?d" using tree_okD(2) [OF t, of Single] False by simp
  have len: "length (dk_block ?d ?t) = UB" using full rng by (simp add: blocks_full_def)
  have cl: "length ?c = UB" using pointer_set(2) [OF len k(2) k(2)] .
  have pb: "pointer_at (dk_block ?d ?t) (k - 12) = ?b" using k False by (simp add: mapped_def entry_def)
  note pr = prune_single [OF t full k False refl refl]
  have kM: "k < MAX_BLOCKS" using k by (simp add: MAX_BLOCKS_def PPB_val)
  text \<open>After the pointer is dropped: the table is written back, or released.\<close>
  have kept: "unmaps k ?d i d' i" if "\<not> all_zero ?c" "dk_sb d' = dk_sb ?d"
      "dk_block d' = (dk_block ?d)(?t := ?c)" "dk_used d' = (if ?b = 0 then dk_used ?d else dk_used ?d - {unat ?b})" for d'
    by (rule unmapsI [OF conjunct1 [OF pr(1) [OF that(1)]] that(2,4,3)])
      (use kM pr(1) [OF that(1)] ancestors_simps(2) [OF k] in \<open>auto simp del: ptr.simps\<close>)
  have gone: "unmaps k ?d i d' (i\<lparr>i_single := 0\<rparr>)" if "all_zero ?c" "dk_sb d' = dk_sb ?d"
      "dk_block d' = dk_block ?d" "dk_used d' = (if ?b = 0 then dk_used ?d else dk_used ?d - {unat ?b}) - {?t}" for d'
    by (rule unmapsI [OF pr(2) [OF that(1)] that(2,4,3)])
      (use kM ancestors_simps(2) [OF k] in auto)
  show ?thesis
    unfolding remove_single_def if_not_P [OF False] wp_bind
  proof (rule wp_disk_read [OF ok rng], rule wp_drop_pointer)
    fix u :: "'a album_scheme" assume u: "album_ok e u" "disk e u = ?d"
    show "album_ok e u" by (rule u)
    fix n and w :: "'a album_scheme"
    assume w: "album_ok e w" "disk e w = (disk e u)\<lparr>dk_bitmap :=
        (if pointer_at (dk_block ?d ?t) (k - 12) = 0 then dk_bitmap (disk e u)
         else clear_block (dk_bitmap (disk e u)) (unat (pointer_at (dk_block ?d ?t) (k - 12))))\<rparr>"
    let ?j = "i\<lparr>i_block_count := n\<rparr>"
    have dw: "disk e w = ?d\<lparr>dk_bitmap := (if ?b = 0 then dk_bitmap ?d else clear_block (dk_bitmap ?d) (unat ?b))\<rparr>"
      using w(2) unfolding pb u(2) .
    have uw: "dk_used (disk e w) = (if ?b = 0 then dk_used ?d else dk_used ?d - {unat ?b})"
      unfolding dw using used_dropped [OF dk, of ?b] by simp
    have zero: "wp (bind (clear_bit (i_single ?j)) (\<lambda>_. ret (?j\<lparr>i_single := 0\<rparr>))) Q E w" if z: "all_zero ?c"
      unfolding wp_bind
    proof (rule wp_disk_clear [OF w(1)])
      fix x :: "'a album_scheme" assume x: "album_ok e x"
        "disk e x = (disk e w)\<lparr>dk_bitmap := clear_block (dk_bitmap (disk e w)) (unat (i_single ?j))\<rparr>"
      have "unmaps k ?d i (disk e x) (i\<lparr>i_single := 0\<rparr>)"
        by (rule gone [OF z]) (use x(2) dw uw dropped_wf [OF dk, of ?b] in \<open>simp_all add: used_clear\<close>)
      from Q [OF x(1) unmaps_count [OF this, of n]] show "wp (ret (?j\<lparr>i_single := 0\<rparr>)) Q E x"
        by (simp add: wp_simps count_commute)
    qed
    have stored: "wp (bind (write_block e (unat (i_single ?j)) ?c) (\<lambda>_. ret ?j)) Q E w" if z: "\<not> all_zero ?c"
      unfolding wp_bind
    proof (rule wp_disk_write [OF w(1)])
      fix x :: "'a album_scheme" assume x: "album_ok e x"
        "disk e x = (disk e w)\<lparr>dk_block := (dk_block (disk e w))(unat (i_single ?j) := pad ?c)\<rparr>"
      have "unmaps k ?d i (disk e x) i" by (rule kept [OF z]) (use x(2) dw uw cl in simp_all)
      from Q [OF x(1) unmaps_count [OF this, of n]] show "wp (ret ?j) Q E x" by (simp add: wp_simps)
    qed (use rng cl dw False in \<open>simp_all add: unat_gt_0\<close>)
    show "wp (case (?c, ?j) of (pointers, inode) \<Rightarrow>
        if all_zero pointers then bind (clear_bit (i_single inode)) (\<lambda>_. ret (inode\<lparr>i_single := 0\<rparr>))
        else bind (write_block e (unat (i_single inode)) pointers) (\<lambda>_. ret inode)) Q E w"
      using zero stored by simp
  qed (use len k in simp_all)
qed

text \<open>The three ways the tables of a doubly indirect index are left.\<close>

lemma unmaps_double:
  assumes dk: "disk_ok d" and t: "tree d i" and kM: "k < MAX_BLOCKS"
    and k: "\<not> k < 12" "\<not> k - 12 < POINTERS_PER_BLOCK" and r: "r = k - 12 - POINTERS_PER_BLOCK"
    and n: "n = Inner (r div POINTERS_PER_BLOCK)" and dbl: "i_double i \<noteq> 0"
    and b: "b = ptr (dk_block d) i n" "b \<noteq> 0"
    and U: "U = (if mapped (dk_block d) i k = 0 then dk_used d else dk_used d - {unat (mapped (dk_block d) i k)})"
    and c: "c = set_pointer (dk_block d (unat b)) (r mod POINTERS_PER_BLOCK) 0"
    and o': "o' = set_pointer (dk_block d (unat (i_double i))) (r div POINTERS_PER_BLOCK) 0"
    and d': "dk_sb d' = dk_sb d"
  shows "\<not> all_zero c \<Longrightarrow> \<not> all_zero (dk_block d (unat (i_double i)))"
    "\<not> all_zero c \<Longrightarrow> dk_used d' = U \<Longrightarrow> dk_block d' = (dk_block d)(unat b := c) \<Longrightarrow> unmaps k d i d' i"
    "all_zero c \<Longrightarrow> \<not> all_zero o' \<Longrightarrow> dk_used d' = U - {unat b} \<Longrightarrow>
      dk_block d' = (dk_block d)(unat (i_double i) := o') \<Longrightarrow> unmaps k d i d' i"
    "all_zero c \<Longrightarrow> all_zero o' \<Longrightarrow> dk_used d' = U - {unat b} - {unat (i_double i)} \<Longrightarrow>
      dk_block d' = dk_block d \<Longrightarrow> unmaps k d i d' (i\<lparr>i_double := 0\<rparr>)"
proof -
  let ?V = "dk_block d" and ?t = "unat (i_double i)"
  have full: "blocks_full (dk_total d) ?V" using dk by (simp add: disk_ok_def)
  note pr = prune_double [OF t full kM k r n dbl b(2) [unfolded b(1)] U, folded b(1), OF c o']
  have vn: "valid_node n" using outer_index [OF kM k] by (simp add: n r)
  have an: "above n = Some Double" by (simp add: n)
  note an3 = ancestors_simps(3) [OF k, folded r, folded n]
  show "\<not> all_zero (?V ?t)" if "\<not> all_zero c" using pr(1) [OF that] by blast
  show "unmaps k d i d' i" if "\<not> all_zero c" "dk_used d' = U" "dk_block d' = ?V(unat b := c)"
  proof (rule unmapsI [OF conjunct1 [OF pr(1) [OF that(1)]] d' that(2,3) _ _ kM])
    have "ptr (?V(unat b := c)) i n \<noteq> 0"
      using shrinksD(4) [OF conjunct1 [OF pr(1) [OF that(1)]] vn] b by (simp add: n)
    then show "\<exists>m. valid_node m \<and> above m = Some p \<and> ptr (?V(unat b := c)) i m \<noteq> 0"
      if "p \<in> ancestors (Data k)" for p
      using that pr(1) [OF \<open>\<not> all_zero c\<close>] vn an unfolding an3 by blast
  qed simp_all
  show "unmaps k d i d' i" if "all_zero c" "\<not> all_zero o'" "dk_used d' = U - {unat b}" "dk_block d' = ?V(?t := o')"
  proof (rule unmapsI [OF conjunct1 [OF pr(2) [OF that(1,2)]] d' that(3,4) _ _ kM])
    have "ptr (?V(?t := o')) i n = 0"
      using shrinksD(4) [OF conjunct1 [OF pr(2) [OF that(1,2)]] vn] by (simp add: n)
    then show "\<exists>m. valid_node m \<and> above m = Some p \<and> ptr (?V(?t := o')) i m \<noteq> 0"
      if "p \<in> ancestors (Data k)" "ptr (?V(?t := o')) i p \<noteq> 0" for p
      using that pr(2) [OF \<open>all_zero c\<close> \<open>\<not> all_zero o'\<close>] unfolding an3 by auto
  qed (use an3 in auto)
  show "unmaps k d i d' (i\<lparr>i_double := 0\<rparr>)" if "all_zero c" "all_zero o'"
    "dk_used d' = U - {unat b} - {?t}" "dk_block d' = ?V"
  proof (rule unmapsI [OF pr(3) [OF that(1,2)] d' that(3,4) _ _ kM])
    show "\<exists>m. valid_node m \<and> above m = Some p \<and> ptr ?V (i\<lparr>i_double := 0\<rparr>) m \<noteq> 0"
      if "p \<in> ancestors (Data k)" "ptr ?V (i\<lparr>i_double := 0\<rparr>) p \<noteq> 0" for p
      using that unfolding an3 by (auto simp: n)
  qed (use an3 in auto)
qed

text \<open>The end of the removal: the outer table is written back or released.\<close>

lemma wp_settle_outer:
  fixes s :: "'a album_scheme"
  assumes ok: "album_ok e s" and c: "i_double i \<noteq> 0" "unat (i_double i) < dk_total (disk e s)" "length c = UB"
    and zero: "\<And>t :: 'a album_scheme. all_zero c \<Longrightarrow> dk_sb (disk e t) = dk_sb (disk e s) \<Longrightarrow> dk_block (disk e t) = dk_block (disk e s) \<Longrightarrow>
      dk_used (disk e t) = dk_used (disk e s) - {unat (i_double i)} \<Longrightarrow> unmaps k d i (disk e t) (i\<lparr>i_double := 0\<rparr>)"
    and kept: "\<And>t :: 'a album_scheme. \<not> all_zero c \<Longrightarrow> dk_sb (disk e t) = dk_sb (disk e s) \<Longrightarrow>
      dk_block (disk e t) = (dk_block (disk e s))(unat (i_double i) := c) \<Longrightarrow>
      dk_used (disk e t) = dk_used (disk e s) \<Longrightarrow> unmaps k d i (disk e t) i"
    and Q: "\<And>i' t. album_ok e t \<Longrightarrow> unmaps k d i (disk e t) i' \<Longrightarrow> Q i' t"
    and j: "j = i\<lparr>i_block_count := m\<rparr>"
  shows "wp (if all_zero c then bind (clear_bit (i_double j)) (\<lambda>_. ret (j\<lparr>i_double := 0\<rparr>))
    else bind (write_block e (unat (i_double j)) c) (\<lambda>_. ret j)) Q E s"
proof (rule wp_settle [OF ok])
  show "i_double j \<noteq> 0" "unat (i_double j) < dk_total (disk e s)" "length c = UB" using c j by simp_all
  fix t :: "'a album_scheme" assume t: "all_zero c" "album_ok e t" "disk e t = (disk e s)\<lparr>dk_bitmap :=
    clear_block (dk_bitmap (disk e s)) (unat (i_double j))\<rparr>"
  have "unmaps k d i (disk e t) (i\<lparr>i_double := 0\<rparr>)"
    by (rule zero) (use t j album_ok_disk [OF ok] in \<open>simp_all add: used_clear disk_ok_def\<close>)
  from Q [OF t(2) unmaps_count [OF this, of m]] show "wp (ret (j\<lparr>i_double := 0\<rparr>)) Q E t"
    by (simp add: wp_simps count_commute j)
next
  fix t :: "'a album_scheme" assume t: "\<not> all_zero c" "album_ok e t" "disk e t = (disk e s)\<lparr>dk_block :=
    (dk_block (disk e s))(unat (i_double j) := c)\<rparr>"
  have "unmaps k d i (disk e t) i" by (rule kept) (use t j in simp_all)
  from Q [OF t(2) unmaps_count [OF this, of m]] show "wp (ret j) Q E t" by (simp add: wp_simps j)
qed

lemma wp_settle_inner:
  fixes s w :: "'a album_scheme"
  assumes ok: "album_ok e s" and t: "tree (disk e s) i" and kM: "k < MAX_BLOCKS"
    and k: "\<not> k < 12" "\<not> k - 12 < POINTERS_PER_BLOCK" and r: "r = k - 12 - POINTERS_PER_BLOCK"
    and dbl: "i_double i \<noteq> 0" and b: "b = ptr (dk_block (disk e s)) i (Inner (r div POINTERS_PER_BLOCK))" "b \<noteq> 0"
    and outer: "outer = dk_block (disk e s) (unat (i_double i))"
    and c: "c = set_pointer (dk_block (disk e s) (unat b)) (r mod POINTERS_PER_BLOCK) 0"
    and w: "album_ok e w" "disk e w = (disk e s)\<lparr>dk_bitmap := (if mapped (dk_block (disk e s)) i k = 0
      then dk_bitmap (disk e s)
      else clear_block (dk_bitmap (disk e s)) (unat (mapped (dk_block (disk e s)) i k)))\<rparr>"
    and Q: "\<And>i' t. album_ok e t \<Longrightarrow> unmaps k (disk e s) i (disk e t) i' \<Longrightarrow> Q i' t"
    and j: "j = i\<lparr>i_block_count := m\<rparr>"
  shows "wp (bind (if all_zero c then bind (clear_bit b) (\<lambda>_. ret (set_pointer outer (r div POINTERS_PER_BLOCK) 0))
      else bind (write_block e (unat b) c) (\<lambda>_. ret outer))
    (\<lambda>outer. if all_zero outer then bind (clear_bit (i_double j)) (\<lambda>_. ret (j\<lparr>i_double := 0\<rparr>))
      else bind (write_block e (unat (i_double j)) outer) (\<lambda>_. ret j))) Q E w"
  unfolding wp_bind
proof (rule wp_settle [OF w(1)])
  let ?d = "disk e s" and ?t = "unat (i_double i)" and ?n = "Inner (r div POINTERS_PER_BLOCK)"
  note dk = album_ok_disk [OF ok]
  have full: "blocks_full (dk_total ?d) (dk_block ?d)" using dk by (simp add: disk_ok_def)
  have vn: "valid_node ?n" using outer_index [OF kM k] by (simp add: r)
  have rng: "?t < dk_total ?d" "length outer = UB" "unat b < dk_total ?d" "length (dk_block ?d (unat b)) = UB"
    using tree_okD(2) [OF t, of Double] tree_okD(2) [OF t vn] b dbl full outer by (simp_all add: blocks_full_def)
  have ne: "unat b \<noteq> ?t" using tree_ok_inj [OF t vn _ b(2) [unfolded b(1)], of Double] b(1) by auto
  note un = unmaps_double [OF dk t kM k r refl dbl b refl c refl, folded outer]
  have uw: "dk_used (disk e w) = (if mapped (dk_block ?d) i k = 0 then dk_used ?d
      else dk_used ?d - {unat (mapped (dk_block ?d) i k)})" "bitmap_wf (dk_bitmap (disk e w))"
    unfolding w(2) using used_dropped [OF dk, of "mapped (dk_block ?d) i k"]
      dropped_wf [OF dk, of "mapped (dk_block ?d) i k"] by simp_all
  have pl: "length (set_pointer outer (r div POINTERS_PER_BLOCK) 0) = UB"
    using pointer_set(2) [OF rng(2)] vn by simp
  show "b \<noteq> 0" "unat b < dk_total (disk e w)" "length c = UB"
    using b(2) rng pointer_set(2) [OF rng(4) inner_index inner_index] by (simp_all add: w(2) c)
  fix x :: "'a album_scheme"
  show "wp (ret (set_pointer outer (r div POINTERS_PER_BLOCK) 0)) (\<lambda>outer. wp (if all_zero outer
      then bind (clear_bit (i_double j)) (\<lambda>_. ret (j\<lparr>i_double := 0\<rparr>))
      else bind (write_block e (unat (i_double j)) outer) (\<lambda>_. ret j)) Q E) E x"
    if x: "all_zero c" "album_ok e x" "disk e x = (disk e w)\<lparr>dk_bitmap := clear_block (dk_bitmap (disk e w)) (unat b)\<rparr>"
  proof -
    have "dk_sb (disk e x) = dk_sb ?d" "dk_block (disk e x) = dk_block ?d" "dk_used (disk e x) = dk_used (disk e w) - {unat b}"
      unfolding x(3) using uw(2) by (simp_all add: w(2) used_clear)
    then show ?thesis
      unfolding wp_prim
      by (intro wp_settle_outer [OF x(2) dbl _ _ _ _ Q j]) (use rng pl x(1) un(3,4) uw(1) in simp_all)
  qed
  show "wp (ret outer) (\<lambda>outer. wp (if all_zero outer
      then bind (clear_bit (i_double j)) (\<lambda>_. ret (j\<lparr>i_double := 0\<rparr>))
      else bind (write_block e (unat (i_double j)) outer) (\<lambda>_. ret j)) Q E) E x"
    if x: "\<not> all_zero c" "album_ok e x" "disk e x = (disk e w)\<lparr>dk_block := (dk_block (disk e w))(unat b := c)\<rparr>"
  proof -
    have bx: "dk_sb (disk e x) = dk_sb ?d" "dk_block (disk e x) = (dk_block ?d)(unat b := c)"
      "dk_used (disk e x) = dk_used (disk e w)"
      unfolding x(3) by (simp_all add: w(2))
    have "((dk_block ?d)(unat b := c))(?t := outer) = (dk_block ?d)(unat b := c)"
      using ne by (auto simp: fun_eq_iff outer)
    with bx show ?thesis
      unfolding wp_prim
      by (intro wp_settle_outer [OF x(2) dbl _ _ _ _ Q j]) (use rng x(1) un(1,2) uw(1) in simp_all)
  qed
qed

lemma wp_remove_double:
  fixes s :: "'a album_scheme"
  assumes ok: "album_ok e s" and t: "tree (disk e s) i" and kM: "k < MAX_BLOCKS"
    and k: "\<not> k < 12" "\<not> k - 12 < POINTERS_PER_BLOCK" and dbl: "i_double i \<noteq> 0"
    and r: "r = k - 12 - POINTERS_PER_BLOCK"
    and Q: "\<And>i' t. album_ok e t \<Longrightarrow> unmaps k (disk e s) i (disk e t) i' \<Longrightarrow> Q i' t"
  shows "wp (remove_double e i r) Q E s"
  unfolding remove_double_def Let_def wp_bind
proof (rule wp_disk_read [OF ok])
  let ?d = "disk e s" and ?t = "unat (i_double i)" and ?n = "Inner (r div POINTERS_PER_BLOCK)"
  let ?ib = "ptr (dk_block ?d) i ?n" and ?b = "mapped (dk_block ?d) i k" and ?outer = "dk_block ?d ?t"
  note dk = album_ok_disk [OF ok]
  have full: "blocks_full (dk_total ?d) (dk_block ?d)" using dk by (simp add: disk_ok_def)
  have vn: "valid_node ?n" using outer_index [OF kM k] by (simp add: r)
  show "?t < dk_total ?d" using tree_okD(2) [OF t, of Double] dbl by simp
  have po: "pointer_at ?outer (r div POINTERS_PER_BLOCK) = ?ib" using dbl by (simp add: entry_def)
  have mp: "?b = entry (dk_block ?d) ?ib (r mod POINTERS_PER_BLOCK)"
    unfolding mapped_def using ptr_above [OF data_place_double(1) [OF k]]
    by (simp only: data_place_double(2) [OF k] r)
  fix u :: "'a album_scheme" assume u: "album_ok e u" "disk e u = ?d"
  have hole: "wp (ret i) Q E u" if "?ib = 0"
    using Q [OF u(1), of i] unmaps_refl [OF dk t] mp that u(2) by (simp add: wp_simps)
  let ?rest = "\<lambda>(inner, inode). bind (if all_zero inner
        then bind (clear_bit ?ib) (\<lambda>_. ret (set_pointer ?outer (r div POINTERS_PER_BLOCK) 0))
        else bind (write_block e (unat ?ib) inner) (\<lambda>_. ret ?outer))
      (\<lambda>outer. if all_zero outer then bind (clear_bit (i_double inode)) (\<lambda>_. ret (inode\<lparr>i_double := 0\<rparr>))
        else bind (write_block e (unat (i_double inode)) outer) (\<lambda>_. ret inode))"
  have present: "wp (bind (read_block e (unat ?ib)) (\<lambda>inner. bind (drop_pointer i inner (r mod POINTERS_PER_BLOCK)) ?rest)) Q E u"
    if ib: "?ib \<noteq> 0"
    unfolding wp_bind
  proof (rule wp_disk_read [OF u(1)], goal_cases)
    case 1
    show ?case using tree_okD(2) [OF t vn ib] u(2) by simp
  next
    case (2 v)
    have pb: "pointer_at (dk_block ?d (unat ?ib)) (r mod POINTERS_PER_BLOCK) = ?b" using mp ib by (simp add: entry_def)
    have len: "length (dk_block ?d (unat ?ib)) = UB" using tree_okD(2) [OF t vn ib] full by (simp add: blocks_full_def)
    show ?case
      unfolding u(2)
    proof (rule wp_drop_pointer [OF 2(1) len inner_index])
      fix m and w :: "'a album_scheme"
      assume w: "album_ok e w" "disk e w = (disk e v)\<lparr>dk_bitmap :=
        (if pointer_at (dk_block ?d (unat ?ib)) (r mod POINTERS_PER_BLOCK) = 0 then dk_bitmap (disk e v)
         else clear_block (dk_bitmap (disk e v)) (unat (pointer_at (dk_block ?d (unat ?ib)) (r mod POINTERS_PER_BLOCK))))\<rparr>"
      show "wp (?rest (set_pointer (dk_block ?d (unat ?ib)) (r mod POINTERS_PER_BLOCK) 0, i\<lparr>i_block_count := m\<rparr>)) Q E w"
        unfolding prod.case
        by (rule wp_settle_inner [OF ok t kM k r dbl refl ib refl refl w(1) w(2) [unfolded 2(2) u(2) pb] Q refl])
    qed
  qed
  show "wp (if pointer_at ?outer (r div POINTERS_PER_BLOCK) = 0 then ret i
      else bind (read_block e (unat (pointer_at ?outer (r div POINTERS_PER_BLOCK))))
        (\<lambda>inner. bind (drop_pointer i inner (r mod POINTERS_PER_BLOCK)) (\<lambda>(inner, inode).
          bind (if all_zero inner
              then bind (clear_bit (pointer_at ?outer (r div POINTERS_PER_BLOCK)))
                (\<lambda>_. ret (set_pointer ?outer (r div POINTERS_PER_BLOCK) 0))
              else bind (write_block e (unat (pointer_at ?outer (r div POINTERS_PER_BLOCK))) inner) (\<lambda>_. ret ?outer))
            (\<lambda>outer. if all_zero outer then bind (clear_bit (i_double inode)) (\<lambda>_. ret (inode\<lparr>i_double := 0\<rparr>))
              else bind (write_block e (unat (i_double inode)) outer) (\<lambda>_. ret inode))))) Q E u"
    unfolding po using hole present by simp
qed


lemma wp_remove_mapped_block:
  fixes s :: "'a album_scheme"
  assumes ok: "album_ok e s" and t: "tree (disk e s) i" and k: "k < MAX_BLOCKS"
    and Q: "\<And>i' t. album_ok e t \<Longrightarrow> unmaps k (disk e s) i (disk e t) i' \<Longrightarrow> Q i' t"
  shows "wp (remove_mapped_block e i k) Q E s"
proof -
  let ?P = POINTERS_PER_BLOCK
  consider "k < 12" | "\<not> k < 12" "k - 12 < ?P" | "\<not> k < 12" "\<not> k - 12 < ?P" by blast
  then show ?thesis
  proof cases
    case 1
    then show ?thesis using wp_remove_direct [OF ok t 1 Q] by (simp add: remove_mapped_block_def)
  next
    case 2
    then show ?thesis using wp_remove_single [OF ok t 2 Q] by (simp add: remove_mapped_block_def)
  next
    case 3
    have r: "\<not> k - 12 - ?P \<ge> ?P * ?P" using max_blocks_iff [OF 3] k by simp
    show ?thesis
    proof (cases "i_double i = 0")
      case True
      then have "mapped (dk_block (disk e s)) i k = 0" using 3 by (simp add: mapped_def Let_def)
      from unmaps_refl [OF album_ok_disk [OF ok] t this] Q [OF ok] show ?thesis
        using 3 True by (simp add: remove_mapped_block_def Let_def wp_simps)
    next
      case False
      from wp_remove_double [OF ok t k 3 False refl Q] show ?thesis
        using 3 r False by (simp add: remove_mapped_block_def Let_def)
    qed
  qed
qed

text \<open>Beyond the largest index nothing is mapped, and nothing is done.\<close>

lemma remove_mapped_block_beyond:
  assumes "\<not> k < MAX_BLOCKS"
  shows "remove_mapped_block e i k s = (Ok i, s)"
proof -
  have "\<not> k < 12" "\<not> k - 12 < POINTERS_PER_BLOCK"
    "k - 12 - POINTERS_PER_BLOCK \<ge> POINTERS_PER_BLOCK * POINTERS_PER_BLOCK"
    using assms by (auto simp: MAX_BLOCKS_def PPB_val)
  then show ?thesis by (simp add: remove_mapped_block_def Let_def run_simps)
qed


subsection \<open>Removing several blocks\<close>

text \<open>
  After the removal of the indices in \<open>ks\<close>: the blocks of \<open>N\<close> are released, \<open>N\<close> holds no other data
  node, and tables only when they were left empty.
\<close>

definition unmapped :: "nat set \<Rightarrow> disk \<Rightarrow> inode \<Rightarrow> disk \<Rightarrow> inode \<Rightarrow> bool" where
  "unmapped ks d i d' i' \<longleftrightarrow>
     (\<exists>N. drops N d i d' i' \<and> (\<forall>k. Data k \<in> N \<longrightarrow> k \<in> ks)) \<and>
     (\<forall>k \<in> ks. k < MAX_BLOCKS \<longrightarrow> mapped (dk_block d') i' k = 0) \<and>
     (tidy_tree (dk_block d) i \<longrightarrow> tidy_tree (dk_block d') i')"

lemma dropsD:
  assumes "drops N d i d' i'"
  shows "dk_sb d' = dk_sb d" "tree d' i'" "same_attrs i' i"
  using assms shrinksD(1,3) unfolding drops_def by (metis, metis, metis)

lemma drops_trans:
  assumes a: "drops N d i d' i'" and b: "drops M d' i' d'' i''"
  shows "drops (N \<union> M) d i d'' i''"
proof -
  note sb = dropsD(1) [OF a] dropsD(1) [OF b]
  have A: "shrinks (dk_data d) (dk_total d) N (dk_used d) (dk_block d) i (dk_used d') (dk_block d') i'"
    using a by (simp add: drops_def)
  have B: "shrinks (dk_data d) (dk_total d) M (dk_used d') (dk_block d') i' (dk_used d'') (dk_block d'') i''"
    using b sb by (simp add: drops_def)
  from shrinks_trans [OF A B] sb show ?thesis by (simp add: drops_def)
qed

lemma ancestors_no_data: "Data k \<notin> ancestors n"
  unfolding ancestors_def by (cases n) (auto split: if_splits)

lemma unmapped_refl: "disk_ok d \<Longrightarrow> tree d i \<Longrightarrow> unmapped {} d i d i"
  unfolding unmapped_def using drops_refl by (auto intro!: exI [of _ "{}"])

lemma unmapped_step:
  assumes a: "unmaps k d i d' i'" and b: "unmapped ks d' i' d'' i''"
  shows "unmapped (insert k ks) d i d'' i''"
proof -
  obtain N where N: "drops N d i d' i'" "N \<subseteq> insert (Data k) (ancestors (Data k))"
      "mapped (dk_block d') i' k = 0" "tidy_tree (dk_block d) i \<longrightarrow> tidy_tree (dk_block d') i'"
    using a unfolding unmaps_def by blast
  obtain M where M: "drops M d' i' d'' i''" "\<forall>m. Data m \<in> M \<longrightarrow> m \<in> ks"
      "\<forall>m \<in> ks. m < MAX_BLOCKS \<longrightarrow> mapped (dk_block d'') i'' m = 0"
      "tidy_tree (dk_block d') i' \<longrightarrow> tidy_tree (dk_block d'') i''"
    using b unfolding unmapped_def by blast
  have "\<forall>m. Data m \<in> N \<union> M \<longrightarrow> m \<in> insert k ks" using N(2) M(2) ancestors_no_data by blast
  moreover have "mapped (dk_block d'') i'' k = 0" if "k < MAX_BLOCKS"
    using M(1) shrinksD(4) [of _ _ M _ _ _ _ "dk_block d''" i'' "Data k"] N(3) that
    unfolding drops_def mapped_def by (auto simp del: ptr.simps)
  ultimately show ?thesis
    unfolding unmapped_def using drops_trans [OF N(1) M(1)] M(3,4) N(4) by blast
qed

lemma unmapped_beyond: "unmapped ks d i d' i' \<Longrightarrow> \<not> k < MAX_BLOCKS \<Longrightarrow> unmapped (insert k ks) d i d' i'"
  unfolding unmapped_def by blast

lemma unmaps_tree: "unmaps k d i d' i' \<Longrightarrow> tree d' i'"
  unfolding unmaps_def using dropsD(2) by blast

lemma wp_remove_blocks:
  fixes s :: "'a album_scheme"
  assumes "album_ok e s" "tree (disk e s) i"
    and "\<And>i' t. album_ok e t \<Longrightarrow> unmapped (set ks) (disk e s) i (disk e t) i' \<Longrightarrow> Q i' t"
  shows "wp (remove_blocks e i ks) Q E s"
  using assms
proof (induction ks arbitrary: i s)
  case Nil
  then show ?case using unmapped_refl [OF album_ok_disk [OF Nil(1)] Nil(2)] by (simp add: wp_simps)
next
  case (Cons k ks)
  show ?case
  proof (cases "k < MAX_BLOCKS")
    case True
    have "wp (bind (remove_mapped_block e i k) (\<lambda>i. remove_blocks e i ks)) Q E s"
      unfolding wp_bind
    proof (rule wp_remove_mapped_block [OF Cons.prems(1,2) True])
      fix i' and t :: "'a album_scheme"
      assume t: "album_ok e t" "unmaps k (disk e s) i (disk e t) i'"
      show "wp (remove_blocks e i' ks) Q E t"
        by (rule Cons.IH [OF t(1) unmaps_tree [OF t(2)]])
          (use Cons.prems(3) unmapped_step [OF t(2)] in simp)
    qed
    then show ?thesis by simp
  next
    case False
    have "wp (remove_blocks e i ks) Q E s"
      by (rule Cons.IH [OF Cons.prems(1,2)]) (use Cons.prems(3) unmapped_beyond False in simp)
    then show ?thesis by (simp add: wp_def bind_def remove_mapped_block_beyond [OF False])
  qed
qed

text \<open>When no index of a tidy tree is mapped, the tree has no blocks.\<close>

lemma tidy_empty:
  assumes tidy: "tidy_tree V i" and none: "\<And>k. k < MAX_BLOCKS \<Longrightarrow> mapped V i k = 0" and n: "valid_node n"
  shows "ptr V i n = 0"
proof -
  have leaf: "ptr V i m = 0" if "valid_node m" "\<not> is_table m" for m
    using that none by (cases m) (simp_all add: mapped_def del: ptr.simps)
  have inner: "ptr V i (Inner j) = 0" if "j < POINTERS_PER_BLOCK" for j
  proof (rule ccontr)
    assume "ptr V i (Inner j) \<noteq> 0"
    moreover have "is_table (Inner j)" "valid_node (Inner j)" using that by simp_all
    ultimately obtain m where "valid_node m" "above m = Some (Inner j)" "ptr V i m \<noteq> 0"
      using tidy unfolding tidy_tree_def by blast
    then show False using leaf [of m] by (cases m) (auto split: if_splits)
  qed
  have top: "ptr V i p = 0" if p: "p = Single \<or> p = Double" for p
  proof (rule ccontr)
    assume "ptr V i p \<noteq> 0"
    moreover have "is_table p" "valid_node p" using p by auto
    ultimately obtain m where m: "valid_node m" "above m = Some p" "ptr V i m \<noteq> 0"
      using tidy unfolding tidy_tree_def by blast
    then show False using leaf [of m] inner p by (cases m) (auto split: if_splits)
  qed
  show ?thesis using n leaf [of n] inner top by (cases n) (simp_all del: ptr.simps)
qed

lemma unmapped_all:
  assumes t: "tree d i" and u: "unmapped (set [0..<div_ceil (unat (i_size i)) UB]) d i d' i'"
    and tidy: "tidy_tree (dk_block d) i"
    and size: "\<And>k. k < MAX_BLOCKS \<Longrightarrow> div_ceil (unat (i_size i)) UB \<le> k \<Longrightarrow> mapped (dk_block d) i k = 0"
  shows "dk_used d' = dk_used d - tree_blocks (dk_block d) i"
    "\<And>n. valid_node n \<Longrightarrow> ptr (dk_block d') i' n = 0"
proof -
  let ?V = "dk_block d"
  obtain N where N: "drops N d i d' i'" "tidy_tree (dk_block d') i'"
      "\<And>k. k < div_ceil (unat (i_size i)) UB \<Longrightarrow> k < MAX_BLOCKS \<Longrightarrow> mapped (dk_block d') i' k = 0"
    using u tidy unfolding unmapped_def by auto
  have sh: "shrinks (dk_data d) (dk_total d) N (dk_used d) ?V i (dk_used d') (dk_block d') i'"
    using N(1) by (simp add: drops_def)
  have none: "mapped (dk_block d') i' k = 0" if "k < MAX_BLOCKS" for k
    using shrinks_logical(1) [OF t sh that] N(3) [OF _ that] size [OF that] by (cases "k < div_ceil (unat (i_size i)) UB") auto
  show empty: "ptr (dk_block d') i' n = 0" if "valid_node n" for n
    by (rule tidy_empty [OF N(2) none that])
  have "n \<in> N" if "valid_node n" "ptr ?V i n \<noteq> 0" for n
    using shrinksD(4) [OF sh that(1)] empty [OF that(1)] that(2) by (auto split: if_splits)
  then have "{unat (ptr ?V i n) | n. valid_node n \<and> n \<in> N \<and> ptr ?V i n \<noteq> 0} = tree_blocks ?V i"
    unfolding tree_blocks_def by blast
  then show "dk_used d' = dk_used d - tree_blocks ?V i" using shrinksD(5) [OF sh] by simp
qed

text \<open>
  \<open>free_all_blocks\<close> gives back exactly the blocks of the file, tables included, when no block is
  mapped beyond its size and no table is empty.
\<close>

lemma wp_free_all_blocks:
  fixes s :: "'a album_scheme"
  assumes ok: "album_ok e s" and t: "tree (disk e s) i" and tidy: "tidy_tree (dk_block (disk e s)) i"
    and size: "\<And>k. k < MAX_BLOCKS \<Longrightarrow> div_ceil (unat (i_size i)) UB \<le> k \<Longrightarrow> mapped (dk_block (disk e s)) i k = 0"
    and Q: "\<And>i' t. album_ok e t \<Longrightarrow> dk_sb (disk e t) = dk_sb (disk e s) \<Longrightarrow>
      dk_used (disk e t) = dk_used (disk e s) - tree_blocks (dk_block (disk e s)) i \<Longrightarrow>
      (\<forall>l. l \<notin> tables (dk_block (disk e s)) i \<longrightarrow> dk_block (disk e t) l = dk_block (disk e s) l) \<Longrightarrow>
      tree_blocks (dk_block (disk e t)) i' = {} \<Longrightarrow> Q i' t"
  shows "wp (free_all_blocks e i) Q E s"
  unfolding free_all_blocks_def Let_def wp_bind
proof (rule wp_remove_blocks [OF ok t])
  let ?V = "dk_block (disk e s)"
  fix i' and u :: "'a album_scheme"
  assume u: "album_ok e u"
    "unmapped (set [0..<div_ceil (unat (i_size i)) UB]) (disk e s) i (disk e u) i'"
  have us: "dk_used (disk e u) = dk_used (disk e s) - tree_blocks ?V i"
    by (rule unmapped_all(1) [OF t u(2) tidy]) (rule size)
  have empty: "ptr (dk_block (disk e u)) i' n = 0" if "valid_node n" for n
    by (rule unmapped_all(2) [OF t u(2) tidy _ that]) (rule size)
  obtain N where N: "drops N (disk e s) i (disk e u) i'" using u(2) unfolding unmapped_def by blast
  then have sh: "shrinks (dk_data (disk e s)) (dk_total (disk e s)) N (dk_used (disk e s)) ?V i
      (dk_used (disk e u)) (dk_block (disk e u)) i'" by (simp add: drops_def)
  have ptr0: "ptr W (i'\<lparr>i_size := 0\<rparr>) n = ptr W i' n" for W n by (rule ptr_inode_cong) simp_all
  have te: "tree_blocks (dk_block (disk e u)) (i'\<lparr>i_size := 0\<rparr>) = {}"
    unfolding tree_blocks_def ptr0 using empty by blast
  show "wp (ret (i'\<lparr>i_size := 0\<rparr>)) Q E u"
    unfolding wp_prim
    by (rule Q [OF u(1) dropsD(1) [OF N] us _ te]) (use shrinksD(6) [OF sh] in blast)
qed

end
