(* ===== verification/InodeTable.thy ===== *)
theory InodeTable
  imports BlockFree
begin

text \<open>
  The inode table on the abstract disk: an array of inodes indexed from 1, packed without gaps into
  the blocks from \<open>inode_table_start\<close> on, 21 to a block.
\<close>

subsection \<open>Slots\<close>

definition slot_block :: "superblock \<Rightarrow> nat \<Rightarrow> nat" where
  "slot_block sb n = unat (sb_inode_table_start sb) + (n - 1) div INODES_PER_BLOCK"

definition slot_index :: "nat \<Rightarrow> nat" where
  "slot_index n = (n - 1) mod INODES_PER_BLOCK"

definition inode_at :: "disk \<Rightarrow> nat \<Rightarrow> inode" where
  "inode_at d n = ino.get_slot (dk_block d (slot_block (dk_sb d) n)) (slot_index n)"

definition set_inode :: "disk \<Rightarrow> nat \<Rightarrow> inode \<Rightarrow> disk" where
  "set_inode d n i = d\<lparr>dk_block := (dk_block d)(slot_block (dk_sb d) n :=
     ino.set_slot (dk_block d (slot_block (dk_sb d) n)) (slot_index n) i)\<rparr>"

definition ino_ok :: "disk \<Rightarrow> nat \<Rightarrow> bool" where
  "ino_ok d n \<longleftrightarrow> 1 \<le> n \<and> n \<le> unat (sb_inode_count (dk_sb d))"

lemma IPB_val: "INODES_PER_BLOCK = 21"
  by (simp add: INODES_PER_BLOCK_def UB_val INODE_SIZE_def)

lemma slot_index_bound: "slot_index n < INODES_PER_BLOCK"
  by (simp add: slot_index_def IPB_val)

text \<open>The table lies between the bitmap and the data.\<close>

lemma slot_block_bounds:
  assumes "disk_ok d" "ino_ok d n"
  shows "unat (sb_inode_table_start (dk_sb d)) \<le> slot_block (dk_sb d) n" "slot_block (dk_sb d) n < dk_data d"
    "slot_block (dk_sb d) n < dk_total d"
proof -
  have "(n - 1) div INODES_PER_BLOCK < div_ceil (unat (sb_inode_count (dk_sb d))) INODES_PER_BLOCK"
    using assms(2) unfolding less_div_ceil_iff [of INODES_PER_BLOCK, simplified IPB_val, simplified]
    by (simp add: ino_ok_def IPB_val less_div_ceil_iff) linarith
  with assms(1) show "unat (sb_inode_table_start (dk_sb d)) \<le> slot_block (dk_sb d) n"
    "slot_block (dk_sb d) n < dk_data d" "slot_block (dk_sb d) n < dk_total d"
    by (simp_all add: slot_block_def disk_ok_def regions_ok_def)
qed

lemma slot_block_length: "disk_ok d \<Longrightarrow> ino_ok d n \<Longrightarrow> length (dk_block d (slot_block (dk_sb d) n)) = UB"
  using slot_block_bounds(3) by (simp add: disk_ok_def blocks_full_def)

lemma same_slot:
  assumes "1 \<le> n" "1 \<le> m" "slot_block sb n = slot_block sb m" "slot_index n = slot_index m"
  shows "n = m"
proof -
  have "(n - 1) div INODES_PER_BLOCK = (m - 1) div INODES_PER_BLOCK" using assms(3) by (simp add: slot_block_def)
  with assms(4) have "n - 1 = m - 1" unfolding slot_index_def by (metis div_mult_mod_eq)
  with assms(1,2) show ?thesis by simp
qed

text \<open>The laws of an array.\<close>

lemma inode_at_set:
  assumes "disk_ok d" "ino_ok d n" "ino_ok d m" "inode_wf i"
  shows "inode_at (set_inode d n i) m = (if m = n then i else inode_at d m)"
proof (cases "slot_block (dk_sb d) m = slot_block (dk_sb d) n")
  case True
  have g: "ino.get_slot (ino.set_slot (dk_block d (slot_block (dk_sb d) n)) (slot_index n) i) (slot_index m) =
      (if slot_index m = slot_index n then i else ino.get_slot (dk_block d (slot_block (dk_sb d) n)) (slot_index m))"
    by (rule ino.get_set [OF assms(4) slot_index_bound])
      (simp add: inodes_fill_block slot_block_length [OF assms(1,2)])
  have "slot_index m = slot_index n \<longleftrightarrow> m = n"
    using same_slot [of m n "dk_sb d"] assms(2,3) True by (auto simp: ino_ok_def)
  with g True show ?thesis by (simp add: inode_at_def set_inode_def)
next
  case False
  then have "m \<noteq> n" by auto
  with False show ?thesis by (simp add: inode_at_def set_inode_def)
qed

lemma set_inode_frame:
  assumes "disk_ok d" "ino_ok d n"
  shows "dk_sb (set_inode d n i) = dk_sb d" "dk_bitmap (set_inode d n i) = dk_bitmap d"
    "dk_data d \<le> l \<Longrightarrow> dk_block (set_inode d n i) l = dk_block d l"
    "l < unat (sb_inode_table_start (dk_sb d)) \<Longrightarrow> dk_block (set_inode d n i) l = dk_block d l"
  using slot_block_bounds [OF assms] by (auto simp: set_inode_def)

lemma set_inode_ok:
  assumes "disk_ok d" "ino_ok d n" "inode_wf i"
  shows "disk_ok (set_inode d n i)"
proof -
  have "length (ino.set_slot (dk_block d (slot_block (dk_sb d) n)) (slot_index n) i) = UB"
    using ino.length_set_slot [OF assms(3) slot_index_bound] slot_block_length [OF assms(1,2)]
    by (simp add: inodes_fill_block)
  with assms(1) show ?thesis by (simp add: disk_ok_def set_inode_def blocks_full_def)
qed

lemma inode_at_wf: "inode_wf (inode_at d n)"
  unfolding inode_at_def ino.get_slot_def by (auto split: res.split dest: inode_decode_wf)


subsection \<open>Reading and writing inodes\<close>

lemma inode_location_ok:
  fixes s :: "'a album_scheme"
  assumes ok: "album_ok e s" and n: "ino_ok (disk e s) (unat ino)"
  obtains b where "inode_location s ino = Ok (b, slot_index (unat ino) * INODE_SIZE)"
    "unat b = slot_block (dk_sb (disk e s)) (unat ino)"
proof -
  let ?n = "unat ino - 1"
  note dk = album_ok_disk [OF ok]
  have z: "ino \<noteq> 0" "\<not> ino > sb_inode_count (al_sb s)"
    using n by (auto simp: ino_ok_def disk_sel word_le_nat_alt word_less_nat_alt unat_eq_zero)
  have u1: "unat (ino - 1) = ?n" using z(1) by (metis unat_minus_one)
  have sb: "slot_block (al_sb s) (unat ino) < unat (sb_total_blocks (al_sb s))"
    using slot_block_bounds(3) [OF dk n] by (simp add: disk_sel)
  have mx: "unat (sb_total_blocks (al_sb s)) * 4096 < 2 ^ 64"
    using dk by (simp add: disk_ok_def disk_sel PB_val MAX64_def)
  have "?n div 21 < unat (sb_total_blocks (al_sb s))" using sb by (simp add: slot_block_def IPB_val)
  then have "?n * 192 < 2 ^ 64" using mx by linarith
  then have "unat ((ino - 1) * of_nat INODE_SIZE :: u64) = ?n * INODE_SIZE"
    using unat_mult_lem [of "ino - 1" "of_nat INODE_SIZE :: u64"] u1 by (simp add: INODE_SIZE_def)
  then have bo: "unat ((ino - 1) * of_nat INODE_SIZE :: u64) div UB = ?n div INODES_PER_BLOCK"
      "unat ((ino - 1) * of_nat INODE_SIZE :: u64) mod UB = slot_index (unat ino) * INODE_SIZE"
    using div_mult_mult2 [of INODE_SIZE ?n INODES_PER_BLOCK] mult_mod_left [of ?n INODES_PER_BLOCK INODE_SIZE]
    by (simp_all add: inodes_fill_block [symmetric] slot_index_def INODE_SIZE_def)
  let ?b = "sb_inode_table_start (al_sb s) + of_nat (?n div INODES_PER_BLOCK) :: u64"
  have "unat ?b = unat (sb_inode_table_start (al_sb s)) + ?n div INODES_PER_BLOCK"
    using sb unat_u64 [of "sb_total_blocks (al_sb s)"]
    by (simp add: slot_block_def unat_word_ariths unat_of_nat64)
  then have "unat ?b = slot_block (dk_sb (disk e s)) (unat ino)" by (simp add: slot_block_def disk_sel)
  moreover have "inode_location s ino = Ok (?b, slot_index (unat ino) * INODE_SIZE)"
    using z bo by (simp add: inode_location_def Let_def)
  ultimately show ?thesis using that by blast
qed

lemma inode_location_bad:
  "\<not> (1 \<le> unat ino \<and> unat ino \<le> unat (sb_inode_count (al_sb s))) \<Longrightarrow> inode_location s ino = Err NotFound"
  by (auto simp: inode_location_def word_less_nat_alt Suc_le_eq unat_gt_0)

lemma slot_slice: "slice b (slot_index n * INODE_SIZE) (slot_index n * INODE_SIZE + INODE_SIZE) = s \<Longrightarrow>
    inode_decode s = Ok i \<Longrightarrow> ino.get_slot b (slot_index n) = i"
  by (simp add: ino.get_slot_def)

lemma wp_read_inode:
  fixes s :: "'a album_scheme"
  assumes ok: "album_ok e s" and n: "ino_ok (disk e s) (unat ino)"
    and Q: "\<And>t. album_ok e t \<Longrightarrow> disk e t = disk e s \<Longrightarrow> Q (inode_at (disk e s) (unat ino)) t"
  shows "wp (read_inode e ino) Q E s"
proof -
  let ?d = "disk e s" and ?o = "slot_index (unat ino) * INODE_SIZE"
  note dk = album_ok_disk [OF ok]
  obtain b where b: "inode_location s ino = Ok (b, ?o)" "unat b = slot_block (dk_sb ?d) (unat ino)"
    using inode_location_ok [OF ok n] .
  let ?p = "dk_block ?d (unat b)"
  have len: "length ?p = UB" using slot_block_length [OF dk n] b(2) by simp
  have le: "?o + INODE_SIZE \<le> UB"
    using ino.slot_bound [OF slot_index_bound, of UB "unat ino"] inodes_fill_block by simp
  obtain i where i: "inode_decode (slice ?p ?o (?o + INODE_SIZE)) = Ok i"
    using len le by (simp add: inode_decode_def)
  have "i = inode_at ?d (unat ino)"
    using slot_slice [OF refl i] b(2) by (simp add: inode_at_def)
  moreover have "wp (read_block e (unat b)) (\<lambda>payload. wp (lift (inode_decode (slice payload ?o (?o + INODE_SIZE)))) Q E) E s"
    by (rule wp_disk_read [OF ok])
      (use slot_block_bounds(3) [OF dk n] b(2) i Q \<open>i = inode_at ?d (unat ino)\<close> in \<open>simp_all add: wp_simps\<close>)
  ultimately show ?thesis using b(1) by (simp add: read_inode_def wp_simps)
qed

lemma read_inode_bad:
  "\<not> ino_ok (disk e s) (unat ino) \<Longrightarrow> read_inode e ino s = (Err NotFound, s)"
  using inode_location_bad [of ino s] by (simp add: ino_ok_def disk_sel read_inode_def bind_def run_simps)

lemma write_inode_bad:
  "\<not> ino_ok (disk e s) (unat ino) \<Longrightarrow> write_inode e ino i s = (Err NotFound, s)"
  using inode_location_bad [of ino s] by (simp add: ino_ok_def disk_sel write_inode_def bind_def run_simps)

lemma wp_write_inode:
  fixes s :: "'a album_scheme"
  assumes ok: "album_ok e s" and n: "ino_ok (disk e s) (unat ino)" and i: "inode_wf i"
    and Q: "\<And>t. album_ok e t \<Longrightarrow> disk e t = set_inode (disk e s) (unat ino) i \<Longrightarrow> Q () t"
  shows "wp (write_inode e ino i) Q E s"
proof -
  let ?d = "disk e s" and ?o = "slot_index (unat ino) * INODE_SIZE"
  note dk = album_ok_disk [OF ok]
  obtain b where b: "inode_location s ino = Ok (b, ?o)" "unat b = slot_block (dk_sb ?d) (unat ino)"
    using inode_location_ok [OF ok n] .
  have rng: "unat b < dk_total ?d" using slot_block_bounds(3) [OF dk n] b(2) by simp
  have nz: "unat b \<noteq> 0" using slot_block_bounds(1) [OF dk n] b(2) dk by (simp add: disk_ok_def regions_ok_def)
  let ?c = "put (dk_block ?d (unat b)) ?o (inode_encode i)"
  have c: "?c = ino.set_slot (dk_block ?d (unat b)) (slot_index (unat ino)) i" by (simp add: ino.set_slot_def)
  have cl: "length ?c = UB"
    unfolding c using ino.length_set_slot [OF i slot_index_bound] slot_block_length [OF dk n] b(2)
    by (simp add: inodes_fill_block)
  have "wp (read_block e (unat b)) (\<lambda>payload. wp (write_block e (unat b) (put payload ?o (inode_encode i))) Q E) E s"
  proof (rule wp_disk_read [OF ok rng])
    fix u :: "'a album_scheme" assume u: "album_ok e u" "disk e u = ?d"
    show "wp (write_block e (unat b) ?c) Q E u"
      by (rule wp_disk_write [OF u(1)])
        (use rng nz cl u(2) Q b(2) c in \<open>simp_all add: set_inode_def\<close>)
  qed
  then show ?thesis using b(1) by (simp add: write_inode_def wp_simps)
qed

end
