(* ===== verification/FileData.thy ===== *)
theory FileData
  imports InodeTable
begin

text \<open>
  The bytes of a file on the abstract disk, and the loops of \<open>read\<close> and \<open>write\<close> over them.
\<close>

subsection \<open>Bytes\<close>

definition byte_at :: "contents \<Rightarrow> inode \<Rightarrow> nat \<Rightarrow> u8" where
  "byte_at V i pos = logical V i (pos div UB) ! (pos mod UB)"

definition file_bytes :: "contents \<Rightarrow> inode \<Rightarrow> nat \<Rightarrow> nat \<Rightarrow> bytes" where
  "file_bytes V i a b = map (byte_at V i) [a..<b]"

definition MAX_BYTES :: nat where "MAX_BYTES = MAX_BLOCKS * UB"

lemma in_max_bytes: "pos < MAX_BYTES \<Longrightarrow> pos div UB < MAX_BLOCKS"
  by (simp add: MAX_BYTES_def div_less_iff_less_mult)

lemma file_bytes_split: "a \<le> b \<Longrightarrow> b \<le> c \<Longrightarrow> file_bytes V i a b @ file_bytes V i b c = file_bytes V i a c"
  by (simp add: file_bytes_def flip: map_append) (metis le_Suc_ex upt_add_eq_append)

lemma length_file_bytes [simp]: "length (file_bytes V i a b) = b - a"
  by (simp add: file_bytes_def)

lemma nth_file_bytes: "j < b - a \<Longrightarrow> file_bytes V i a b ! j = byte_at V i (a + j)"
  by (simp add: file_bytes_def)

lemma logical_length:
  assumes "tree_ok lo hi U V i" "blocks_full hi V" "k < MAX_BLOCKS"
  shows "length (logical V i k) = UB"
  using assms mapped_used(3) [OF assms(1,3)] by (simp add: logical_def zeros_def blocks_full_def)

lemma slice_logical:
  assumes "length (logical V i (pos div UB)) = UB" "pos mod UB + n \<le> UB"
  shows "slice (logical V i (pos div UB)) (pos mod UB) (pos mod UB + n) = file_bytes V i pos (pos + n)"
proof (rule nth_equalityI)
  show "length (slice (logical V i (pos div UB)) (pos mod UB) (pos mod UB + n)) =
      length (file_bytes V i pos (pos + n))" using assms by simp
  fix j assume j: "j < length (slice (logical V i (pos div UB)) (pos mod UB) (pos mod UB + n))"
  then have jn: "j < n" "pos mod UB + j < UB" using assms by simp_all
  have "pos + j = pos div UB * UB + (pos mod UB + j)" by simp
  then have "(pos + j) div UB = pos div UB" "(pos + j) mod UB = pos mod UB + j"
    using jn(2) by (metis UB_pos div_mult_self3 div_less add_0_right less_numeral_extra(3), metis mod_mult_self3 mod_less)
  with jn assms(1) show "slice (logical V i (pos div UB)) (pos mod UB) (pos mod UB + n) ! j = file_bytes V i pos (pos + n) ! j"
    by (simp add: nth_slice nth_file_bytes byte_at_def)
qed

text \<open>One round of a loop over a range of bytes: the part of the range in the block of \<open>pos\<close>.\<close>

lemma chunk:
  assumes "0 < n"
  shows "0 < min n (UB - pos mod UB)" "pos mod UB + min n (UB - pos mod UB) \<le> UB"
    "min n (UB - pos mod UB) \<le> n"
  using assms step_positive [OF assms, of pos] by (auto simp: min_def le_diff_conv2 less_imp_le)


subsection \<open>Reading\<close>

lemma wp_read_loop:
  fixes s :: "'a album_scheme"
  assumes "album_ok e s" "tree (disk e s) i" "pos \<le> n" "n \<le> MAX_BYTES"
    and "\<And>t. album_ok e t \<Longrightarrow> disk e t = disk e s \<Longrightarrow>
      Q (acc @ file_bytes (dk_block (disk e s)) i pos n) t"
  shows "wp (read_loop e i pos n acc) Q E s"
  using assms
proof (induction "n - pos" arbitrary: pos acc s rule: less_induct)
  case less
  note ok = less.prems(1) and t = less.prems(2) and Q = less.prems(5)
  let ?d = "disk e s"
  let ?V = "dk_block ?d" and ?k = "pos div UB" and ?w = "pos mod UB"
  let ?n = "min (n - pos) (UB - ?w)"
  have full: "blocks_full (dk_total ?d) ?V" using album_ok_disk [OF ok] by (simp add: disk_ok_def)
  show ?case
  proof (cases "pos < n")
    case False
    then have "file_bytes ?V i pos n = []" by (simp add: file_bytes_def)
    then show ?thesis using Q [OF ok refl] False by (simp add: read_loop.simps [of e i pos] wp_simps)
  next
    case True
    then have k: "?k < MAX_BLOCKS" using less.prems(4) by (intro in_max_bytes) simp
    note c = chunk [of "n - pos" pos]
    have sl: "slice (logical ?V i ?k) ?w (?w + ?n) = file_bytes ?V i pos (pos + ?n)"
      by (rule slice_logical [OF logical_length [OF t full k]]) (use c True in simp)
    have app: "file_bytes ?V i pos (pos + ?n) @ file_bytes ?V i (pos + ?n) n = file_bytes ?V i pos n"
      by (rule file_bytes_split) (use c True in simp_all)
    have rest: "wp (read_loop e i (pos + ?n) n (acc @ file_bytes ?V i pos (pos + ?n))) Q E u"
      if u: "album_ok e u" "disk e u = ?d" for u :: "'a album_scheme"
    proof (rule less.hyps [OF _ u(1)])
      show "n - (pos + ?n) < n - pos" using c(1) True by linarith
    qed (use c True t less.prems Q app u in simp_all)
    let ?b = "mapped ?V i ?k"
    have "wp (bind (case then_some ?b of
          Some block \<Rightarrow> bind (read_block e (unat block)) (\<lambda>payload. ret (acc @ slice payload ?w (?w + ?n)))
        | None \<Rightarrow> ret (acc @ replicate ?n 0)) (\<lambda>output. read_loop e i (pos + ?n) n output)) Q E u"
      if u: "album_ok e u" "disk e u = ?d" for u :: "'a album_scheme"
    proof (cases "?b = 0")
      case b: True
      have "slice zeros ?w (?w + ?n) = replicate ?n 0"
        using c True by (simp add: zeros_def slice_replicate)
      then have "replicate ?n 0 = file_bytes ?V i pos (pos + ?n)" using sl b by (simp add: logical_def)
      with rest [OF u] b show ?thesis by (simp add: then_some_def wp_simps)
    next
      case b: False
      have "wp (read_block e (unat ?b)) (\<lambda>payload. wp (ret (acc @ slice payload ?w (?w + ?n)))
          (\<lambda>output. wp (read_loop e i (pos + ?n) n output) Q E) E) E u"
      proof (rule wp_disk_read [OF u(1)])
        show "unat ?b < dk_total (disk e u)" using mapped_used(3) [OF t k b] u(2) by simp
        fix v :: "'a album_scheme" assume v: "album_ok e v" "disk e v = disk e u"
        have "slice (?V (unat ?b)) ?w (?w + ?n) = file_bytes ?V i pos (pos + ?n)"
          using sl b by (simp add: logical_def)
        with rest [OF v(1)] v(2) u(2)
        show "wp (ret (acc @ slice (dk_block (disk e u) (unat ?b)) ?w (?w + ?n)))
            (\<lambda>output. wp (read_loop e i (pos + ?n) n output) Q E) E v"
          by (simp add: wp_simps)
      qed
      with b show ?thesis by (simp add: then_some_def wp_simps)
    qed
    then have "wp (bmap e i ?k False) (\<lambda>(block, i). wp (bind (case block of
          Some block \<Rightarrow> bind (read_block e (unat block)) (\<lambda>payload. ret (acc @ slice payload ?w (?w + ?n)))
        | None \<Rightarrow> ret (acc @ replicate ?n 0)) (\<lambda>output. read_loop e i (pos + ?n) n output)) Q E) E s"
      by (intro wp_bmap_lookup [OF ok t k]) simp
    then show ?thesis
      using True by (subst read_loop.simps) (simp add: Let_def wp_simps case_prod_beta')
  qed
qed


subsection \<open>Writing\<close>

text \<open>
  The effect of a write on the file of an inode: the bytes of a patch are replaced, blocks may have
  been added, and no block outside the file changed.
\<close>

definition updates :: "nat \<Rightarrow> (nat \<rightharpoonup> u8) \<Rightarrow> disk \<Rightarrow> inode \<Rightarrow> disk \<Rightarrow> inode \<Rightarrow> bool" where
  "updates c P d i d' i' \<longleftrightarrow> dk_sb d' = dk_sb d \<and> tree d' i' \<and> same_attrs i' i \<and>
     dk_used d \<subseteq> dk_used d' \<and> dk_used d' - dk_used d \<subseteq> {dk_data d..<dk_total d} \<and>
     card (dk_used d' - dk_used d) \<le> c \<and>
     (\<forall>l. l \<notin> dk_used d' - dk_used d \<longrightarrow> l \<notin> tree_blocks (dk_block d) i \<longrightarrow> dk_block d' l = dk_block d l) \<and>
     tree_blocks (dk_block d') i' \<subseteq> tree_blocks (dk_block d) i \<union> (dk_used d' - dk_used d) \<and>
     (\<forall>p < MAX_BYTES. byte_at (dk_block d') i' p =
        (case P p of Some b \<Rightarrow> b | None \<Rightarrow> byte_at (dk_block d) i p))"

definition spoiled :: "nat \<Rightarrow> disk \<Rightarrow> inode \<Rightarrow> disk \<Rightarrow> bool" where
  "spoiled c d i d' \<longleftrightarrow> dk_sb d' = dk_sb d \<and> dk_used d \<subseteq> dk_used d' \<and>
     {dk_data d..<dk_total d} \<subseteq> dk_used d' \<and> dk_used d' - dk_used d \<subseteq> {dk_data d..<dk_total d} \<and>
     card (dk_used d' - dk_used d) \<le> c \<and>
     (\<forall>l. l \<notin> dk_used d' - dk_used d \<longrightarrow> l \<notin> tree_blocks (dk_block d) i \<longrightarrow> dk_block d' l = dk_block d l)"

lemma updatesD:
  assumes "updates c P d i d' i'"
  shows "dk_sb d' = dk_sb d" "tree d' i'" "same_attrs i' i" "dk_used d \<subseteq> dk_used d'"
    "dk_used d' - dk_used d \<subseteq> {dk_data d..<dk_total d}" "card (dk_used d' - dk_used d) \<le> c"
    "l \<notin> dk_used d' - dk_used d \<Longrightarrow> l \<notin> tree_blocks (dk_block d) i \<Longrightarrow> dk_block d' l = dk_block d l"
    "tree_blocks (dk_block d') i' \<subseteq> tree_blocks (dk_block d) i \<union> (dk_used d' - dk_used d)"
    "p < MAX_BYTES \<Longrightarrow> byte_at (dk_block d') i' p =
        (case P p of Some b \<Rightarrow> b | None \<Rightarrow> byte_at (dk_block d) i p)"
  using assms unfolding updates_def by blast+

lemma spoiledD:
  assumes "spoiled c d i d'"
  shows "dk_sb d' = dk_sb d" "dk_used d \<subseteq> dk_used d'" "{dk_data d..<dk_total d} \<subseteq> dk_used d'"
    "dk_used d' - dk_used d \<subseteq> {dk_data d..<dk_total d}" "card (dk_used d' - dk_used d) \<le> c"
    "l \<notin> dk_used d' - dk_used d \<Longrightarrow> l \<notin> tree_blocks (dk_block d) i \<Longrightarrow> dk_block d' l = dk_block d l"
  using assms unfolding spoiled_def by blast+

lemma tables_in_tree: "tables V i \<subseteq> tree_blocks V i"
  unfolding tables_def tree_blocks_def by blast

lemma tree_blocks_split: "tree_blocks V i = tables V i \<union> {unat (mapped V i k) | k. k < MAX_BLOCKS \<and> mapped V i k \<noteq> 0}"
proof (intro subset_antisym subsetI)
  fix l assume "l \<in> tree_blocks V i"
  then obtain n where n: "valid_node n" "ptr V i n \<noteq> 0" "l = unat (ptr V i n)" unfolding tree_blocks_def by blast
  show "l \<in> tables V i \<union> {unat (mapped V i k) | k. k < MAX_BLOCKS \<and> mapped V i k \<noteq> 0}"
  proof (cases "is_table n")
    case True
    with n show ?thesis unfolding tables_def by blast
  next
    case False
    then obtain k where "n = Data k" by (cases n) auto
    with n have "k < MAX_BLOCKS \<and> mapped V i k \<noteq> 0 \<and> l = unat (mapped V i k)"
      by (simp add: mapped_def del: ptr.simps)
    then show ?thesis by blast
  qed
next
  fix l assume "l \<in> tables V i \<union> {unat (mapped V i k) | k. k < MAX_BLOCKS \<and> mapped V i k \<noteq> 0}"
  then show "l \<in> tree_blocks V i"
    unfolding tables_def mapped_def tree_blocks_def by (auto simp del: ptr.simps)
qed

lemma tree_used: "tree_ok lo hi U V i \<Longrightarrow> tree_blocks V i \<subseteq> U"
  unfolding tree_blocks_def using tree_okD(3) by fastforce

lemma extends_blocks:
  assumes "extends lo hi K U V i U' V' i'"
  shows "tree_blocks V' i' \<subseteq> tree_blocks V i \<union> (U' - U)"
proof -
  have "unat (mapped V' i' k) \<in> tree_blocks V i \<union> (U' - U)" if "k < MAX_BLOCKS" "mapped V' i' k \<noteq> 0" for k
  proof (cases "mapped V i k = 0")
    case True
    then show ?thesis using extends_new(2) [OF assms that(1) _ that(2)] by simp
  next
    case False
    then show ?thesis using extends_kept [OF assms that(1) False] that(1) by (auto simp: tree_blocks_split)
  qed
  moreover have "tables V' i' \<subseteq> tree_blocks V i \<union> (U' - U)"
    using extendsD(7) [OF assms] tables_in_tree by blast
  ultimately show ?thesis unfolding tree_blocks_split [of V' i'] by blast
qed

lemma grows_updates:
  assumes t: "tree d i" and g: "grows c K d i d' i'"
  shows "updates c Map.empty d i d' i'"
proof -
  note G = growsD [OF g]
  note E = extendsD [OF G(2)]
  have b: "byte_at (dk_block d') i' p = (case Map.empty p of Some b \<Rightarrow> b | None \<Rightarrow> byte_at (dk_block d) i p)"
    if "p < MAX_BYTES" for p
    using extends_logical [OF t G(2) in_max_bytes [OF that]] by (simp add: byte_at_def)
  have v: "dk_block d' l = dk_block d l" if "l \<notin> dk_used d' - dk_used d" "l \<notin> tree_blocks (dk_block d) i" for l
    by (rule E(6) [OF that(1)]) (use that(2) tables_in_tree in blast)
  have t': "tree d' i'" by (rule grows_tree [OF g])
  show ?thesis
    unfolding updates_def using G(1,3) E(2,3,5) extends_blocks [OF G(2)] t'
    by - (intro conjI allI impI; (rule b v)?; assumption)
qed

lemma stuck_spoiled: "stuck c d i d' \<Longrightarrow> spoiled c d i d'"
  unfolding stuck_def spoiled_def using tables_in_tree by blast

lemma updates_trans:
  assumes a: "updates c P d i d' i'" and b: "updates c' P' d' i' d'' i''"
  shows "updates (c + c') (P ++ P') d i d'' i''"
proof -
  note A = updatesD [OF a] and B = updatesD [OF b]
  have v: "dk_block d'' l = dk_block d l" if l: "l \<notin> dk_used d'' - dk_used d" "l \<notin> tree_blocks (dk_block d) i" for l
  proof -
    have "l \<notin> dk_used d' - dk_used d" "l \<notin> dk_used d'' - dk_used d'" using l(1) A(4) B(4) by blast+
    moreover from this have "l \<notin> tree_blocks (dk_block d') i'" using l(2) A(8) by blast
    ultimately show ?thesis using B(7) [of l] A(7) [of l] l(2) by simp
  qed
  have p: "byte_at (dk_block d'') i'' q = (case (P ++ P') q of Some x \<Rightarrow> x | None \<Rightarrow> byte_at (dk_block d) i q)"
    if "q < MAX_BYTES" for q
    using A(9) [OF that] B(9) [OF that] by (simp add: map_add_def split: option.split)
  have k: "dk_used d \<subseteq> dk_used d''" "dk_used d'' - dk_used d \<subseteq> {dk_data d..<dk_total d}"
    "tree_blocks (dk_block d'') i'' \<subseteq> tree_blocks (dk_block d) i \<union> (dk_used d'' - dk_used d)"
    using A(1,4,5,8) B(4,5,8) by (blast, auto)
  have sb: "dk_sb d'' = dk_sb d" using A(1) B(1) by simp
  have t: "tree d'' i''" using B(2) .
  have at: "same_attrs i'' i" by (rule same_attrs_trans [OF B(3) A(3)])
  have cd: "card (dk_used d'' - dk_used d) \<le> c + c'"
    using card_added [OF A(4) B(4)] A(6) B(6) by simp
  show ?thesis
    unfolding updates_def using sb t at k cd
    by - (intro conjI allI impI; (rule v p)?; assumption)
qed

lemma updates_spoiled:
  assumes a: "updates c P d i d' i'" and b: "spoiled c' d' i' d''"
  shows "spoiled (c + c') d i d''"
proof -
  note A = updatesD [OF a] and B = spoiledD [OF b]
  have v: "dk_block d'' l = dk_block d l" if l: "l \<notin> dk_used d'' - dk_used d" "l \<notin> tree_blocks (dk_block d) i" for l
  proof -
    have "l \<notin> dk_used d' - dk_used d" "l \<notin> dk_used d'' - dk_used d'" using l(1) A(4) B(2) by blast+
    moreover from this have "l \<notin> tree_blocks (dk_block d') i'" using l(2) A(8) by blast
    ultimately show ?thesis using B(6) [of l] A(7) [of l] l(2) by simp
  qed
  have k: "dk_used d \<subseteq> dk_used d''" "dk_used d'' - dk_used d \<subseteq> {dk_data d..<dk_total d}"
    "{dk_data d..<dk_total d} \<subseteq> dk_used d''"
    using A(1,4,5) B(2,3,4) by (blast, auto)
  have sb: "dk_sb d'' = dk_sb d" using A(1) B(1) by simp
  have cd: "card (dk_used d'' - dk_used d) \<le> c + c'"
    using card_added [OF A(4) B(2)] A(6) B(5) by simp
  show ?thesis
    unfolding spoiled_def using sb k cd
    by - (intro conjI allI impI; (rule v)?; assumption)
qed

lemma updates_mono: "updates c P d i d' i' \<Longrightarrow> c \<le> c' \<Longrightarrow> updates c' P d i d' i'"
  unfolding updates_def by (elim conjE, intro conjI) (assumption | rule le_trans)+

lemma spoiled_mono: "spoiled c d i d' \<Longrightarrow> c \<le> c' \<Longrightarrow> spoiled c' d i d'"
  unfolding spoiled_def by (elim conjE, intro conjI) (assumption | rule le_trans)+

lemma updates_refl: "tree d i \<Longrightarrow> updates c Map.empty d i d i"
  by (simp add: updates_def)

definition written :: "nat \<Rightarrow> bytes \<Rightarrow> nat \<rightharpoonup> u8" where
  "written pos data = (\<lambda>p. if pos \<le> p \<and> p < pos + length data then Some (data ! (p - pos)) else None)"

lemma written_Nil [simp]: "written pos [] = Map.empty"
  by (simp add: written_def fun_eq_iff)

lemma written_split:
  "n \<le> length data \<Longrightarrow> written pos (take n data) ++ written (pos + n) (drop n data) = written pos data"
  by (auto simp: written_def fun_eq_iff map_add_def min_def algebra_simps)

text \<open>Writing a part of one block.\<close>

lemma updates_block:
  assumes ok: "disk_ok d" and t: "tree d i" and k: "pos div UB < MAX_BLOCKS"
    and m: "mapped (dk_block d) i (pos div UB) \<noteq> 0" and n: "pos mod UB + length xs \<le> UB"
    and d': "d' = d\<lparr>dk_block := (dk_block d)(unat (mapped (dk_block d) i (pos div UB)) :=
      put (dk_block d (unat (mapped (dk_block d) i (pos div UB)))) (pos mod UB) xs)\<rparr>"
  shows "updates 0 (written pos xs) d i d' i"
proof -
  let ?V = "dk_block d" and ?k = "pos div UB"
  let ?b = "mapped ?V i ?k"
  have full: "blocks_full (dk_total d) ?V" using ok by (simp add: disk_ok_def)
  have lb: "length (?V (unat ?b)) = UB" using full mapped_used(3) [OF t k m] by (simp add: blocks_full_def)
  have lc: "length (put (?V (unat ?b)) (pos mod UB) xs) = UB" using lb n by simp
  have V': "dk_block d' = ?V(unat ?b := put (?V (unat ?b)) (pos mod UB) xs)" by (simp add: d')
  note w = write_logical [OF t full k m lc V']
  have lg: "logical ?V i ?k = ?V (unat ?b)" using m by (simp add: logical_def)
  have p: "byte_at (dk_block d') i q = (case written pos xs q of Some x \<Rightarrow> x | None \<Rightarrow> byte_at ?V i q)"
    if q: "q < MAX_BYTES" for q
  proof -
    have div: "q = q div UB * UB + q mod UB" "pos = ?k * UB + pos mod UB" by simp_all
    have "q mod UB < UB" by simp
    show ?thesis
    proof (cases "q div UB = ?k")
      case True
      have "pos \<le> q \<longleftrightarrow> pos mod UB \<le> q mod UB" "q < pos + length xs \<longleftrightarrow> q mod UB < pos mod UB + length xs"
        "pos \<le> q \<Longrightarrow> q - pos = q mod UB - pos mod UB"
        using div unfolding True by linarith+
      then show ?thesis
        using True w(5) [OF in_max_bytes [OF q]] nth_put [of "pos mod UB" xs "?V (unat ?b)" "q mod UB"] n lb lg
        by (auto simp: byte_at_def written_def)
    next
      case False
      have "\<not> (pos \<le> q \<and> q < pos + length xs)"
      proof
        assume "pos \<le> q \<and> q < pos + length xs"
        then have "?k * UB \<le> q" "q < ?k * UB + UB" using div(2) n by linarith+
        then have "q div UB = ?k" by (metis add.commute div_nat_eqI mult.commute mult_Suc)
        with False show False ..
      qed
      then show ?thesis using False w(5) [OF in_max_bytes [OF q]] by (auto simp: byte_at_def written_def)
    qed
  qed
  have tb: "tree_blocks (dk_block d') i \<subseteq> tree_blocks ?V i"
    unfolding tree_blocks_split w(3) using w(4) by auto
  have "unat ?b \<in> tree_blocks ?V i" using k m by (auto simp: tree_blocks_split)
  then have v: "dk_block d' l = ?V l" if "l \<notin> tree_blocks ?V i" for l using that by (auto simp: V')
  have u: "dk_used d' = dk_used d" "dk_sb d' = dk_sb d" by (simp_all add: d')
  show ?thesis
    unfolding updates_def u using w(1) tb
    by - (intro conjI allI impI; (rule v p)?; (assumption | simp))
qed


text \<open>The number of blocks a range of bytes touches.\<close>

definition touched :: "nat \<Rightarrow> nat \<Rightarrow> nat" where
  "touched pos n = (if n = 0 then 0 else div_ceil (pos + n) UB - pos div UB)"

lemma touched_step:
  assumes "0 < n"
  shows "Suc (touched (pos + min n (UB - pos mod UB)) (n - min n (UB - pos mod UB))) \<le> touched pos n"
proof -
  let ?m = "min n (UB - pos mod UB)"
  have lt: "pos div UB < div_ceil (pos + n) UB"
    unfolding less_div_ceil_iff [OF UB_pos] using assms div_times_less_eq_dividend [of pos UB] by linarith
  show ?thesis
  proof (cases "n - ?m = 0")
    case True
    then show ?thesis using lt assms by (simp add: touched_def)
  next
    case False
    then have m: "?m = UB - pos mod UB" "?m < n" by auto
    have "pos mod UB < UB" by simp
    then have "pos + ?m = Suc (pos div UB) * UB"
      unfolding m(1) mult_Suc using div_mult_mod_eq [of pos UB] by linarith
    then have "(pos + ?m) div UB = Suc (pos div UB)" by (metis UB_pos div_mult_self_is_m mult.commute)
    moreover have "pos + ?m + (n - ?m) = pos + n" using m(2) by linarith
    ultimately have "touched (pos + ?m) (n - ?m) = div_ceil (pos + n) UB - Suc (pos div UB)"
      unfolding touched_def using False by metis
    moreover have "touched pos n = div_ceil (pos + n) UB - pos div UB" using assms by (simp add: touched_def)
    ultimately show ?thesis using lt by linarith
  qed
qed

lemma wp_write_loop:
  fixes s :: "'a album_scheme"
  assumes "album_ok e s" "tree (disk e s) i" "pos + (length data - consumed) \<le> MAX_BYTES"
    and "\<And>i' t. album_ok e t \<Longrightarrow>
      updates (3 * touched pos (length data - consumed)) (written pos (drop consumed data)) (disk e s) i (disk e t) i' \<Longrightarrow> Q i' t"
    and "\<And>t. album_ok e t \<Longrightarrow> spoiled (3 * touched pos (length data - consumed)) (disk e s) i (disk e t) \<Longrightarrow> E NoSpace t"
  shows "wp (write_loop e i pos data consumed) Q E s"
  using assms
proof (induction "length data - consumed" arbitrary: pos consumed i s rule: less_induct)
  case less
  note ok = less.prems(1) and t = less.prems(2) and Q = less.prems(4) and E = less.prems(5)
  let ?d = "disk e s"
  let ?k = "pos div UB" and ?w = "pos mod UB"
  let ?m = "length data - consumed"
  let ?n = "min ?m (UB - ?w)" and ?T = "touched pos ?m"
  let ?xs = "slice data consumed (consumed + ?n)"
  show ?case
  proof (cases "consumed < length data")
    case False
    then have "updates (3 * ?T) (written pos (drop consumed data)) ?d i ?d i"
      using updates_refl [OF t, of "3 * ?T"] by simp
    then show ?thesis using Q [OF ok] False by (simp add: write_loop.simps [of e i pos] wp_simps)
  next
    case True
    then have m: "0 < ?m" by simp
    note c = chunk [OF m, of pos]
    have k: "?k < MAX_BLOCKS" using less.prems(3) m by (intro in_max_bytes) simp
    have lx: "length ?xs = ?n" using c(3) by simp
    have T: "Suc (touched (pos + ?n) (?m - ?n)) \<le> ?T" by (rule touched_step [OF m])
    have rem: "length data - (consumed + ?n) = ?m - ?n" by simp
    have xs: "?xs = take ?n (drop consumed data)" "drop (consumed + ?n) data = drop ?n (drop consumed data)"
      by (simp_all add: slice_def add.commute)
    have patch: "written pos ?xs ++ written (pos + ?n) (drop (consumed + ?n) data) = written pos (drop consumed data)"
      unfolding xs by (rule written_split) simp
    let ?next = "\<lambda>i. write_loop e i (pos + ?n) data (consumed + ?n)"
    have body: "wp (bind (lift (ok_or NoSpace (Some b))) (\<lambda>block. bind (read_block e (unat block)) (\<lambda>payload.
        bind (write_block e (unat block) (put payload ?w ?xs)) (\<lambda>_. ?next j)))) Q E u"
      if u: "album_ok e u" "grows 3 {?k} ?d i (disk e u) j" "mapped (dk_block (disk e u)) j ?k = b" "b \<noteq> 0"
      for b j and u :: "'a album_scheme"
      unfolding ok_or_simps wp_bind wp_prim
    proof (rule wp_disk_read [OF u(1)])
      have tu: "tree (disk e u) j" by (rule grows_tree [OF u(2)])
      have dku: "disk_ok (disk e u)" by (rule album_ok_disk [OF u(1)])
      have m0: "mapped (dk_block (disk e u)) j ?k \<noteq> 0" using u(3,4) by simp
      show lt: "unat b < dk_total (disk e u)" using mapped_used(3) [OF tu k m0] u(3) by simp
      fix v :: "'a album_scheme" assume v: "album_ok e v" "disk e v = disk e u"
      have lb: "length (dk_block (disk e u) (unat b)) = UB" using dku lt by (simp add: disk_ok_def blocks_full_def)
      then have lp: "length (put (dk_block (disk e u) (unat b)) ?w ?xs) = UB" using c(2) lx by simp
      show "wp (write_block e (unat b) (put (dk_block (disk e u) (unat b)) ?w ?xs)) (\<lambda>_. wp (?next j) Q E) E v"
      proof (rule wp_disk_write [OF v(1)])
        show "unat b \<noteq> 0" "unat b < dk_total (disk e v)" "length (put (dk_block (disk e u) (unat b)) ?w ?xs) \<le> UB"
          using lt lp v(2) u(3,4) by (simp_all add: unat_gt_0)
        fix x :: "'a album_scheme"
        assume x: "album_ok e x" "disk e x = (disk e v)\<lparr>dk_block := (dk_block (disk e v))(unat b :=
          pad (put (dk_block (disk e u) (unat b)) ?w ?xs))\<rparr>"
        have dx: "disk e x = (disk e u)\<lparr>dk_block := (dk_block (disk e u))(unat (mapped (dk_block (disk e u)) j ?k) :=
          put (dk_block (disk e u) (unat (mapped (dk_block (disk e u)) j ?k))) ?w ?xs)\<rparr>"
          using x(2) pad_eq [OF eq_imp_le [OF lp]] lp u(3) v(2) by simp
        have "updates 0 (written pos ?xs) (disk e u) j (disk e x) j"
          by (rule updates_block [OF dku tu k m0 _ dx]) (use c(2) lx in simp)
        from updates_trans [OF grows_updates [OF t u(2)] this]
        have up: "updates 3 (written pos ?xs) ?d i (disk e x) j" by simp
        show "wp (?next j) Q E x"
        proof (rule less.hyps [OF _ x(1) updatesD(2) [OF up]])
          show "length data - (consumed + ?n) < ?m" unfolding rem by (rule diff_less [OF c(1) m])
          have "pos + ?n + (?m - ?n) = pos + ?m" using c(3) by (metis add.assoc le_add_diff_inverse)
          then show "pos + ?n + (length data - (consumed + ?n)) \<le> MAX_BYTES" unfolding rem using less.prems(3) by metis
        next
          fix i' and y :: "'a album_scheme"
          assume y: "album_ok e y" "updates (3 * touched (pos + ?n) (length data - (consumed + ?n)))
            (written (pos + ?n) (drop (consumed + ?n) data)) (disk e x) j (disk e y) i'"
          have "3 + 3 * touched (pos + ?n) (length data - (consumed + ?n)) \<le> 3 * ?T" unfolding rem using T by linarith
          from updates_mono [OF updates_trans [OF up y(2), unfolded patch] this] show "Q i' y" by (rule Q [OF y(1)])
        next
          fix y :: "'a album_scheme"
          assume y: "album_ok e y" "spoiled (3 * touched (pos + ?n) (length data - (consumed + ?n))) (disk e x) j (disk e y)"
          have "3 + 3 * touched (pos + ?n) (length data - (consumed + ?n)) \<le> 3 * ?T" unfolding rem using T by linarith
          from spoiled_mono [OF updates_spoiled [OF up y(2)] this] show "E NoSpace y" by (rule E [OF y(1)])
        qed
      qed
    qed
    let ?K = "\<lambda>x :: u64 option \<times> inode. case x of (block, j) \<Rightarrow> bind (lift (ok_or NoSpace block)) (\<lambda>block.
        bind (read_block e (unat block)) (\<lambda>payload.
        bind (write_block e (unat block) (put payload ?w ?xs)) (\<lambda>_. ?next j)))"
    have "wp (bmap e i ?k True) (\<lambda>x. wp (?K x) Q E) E s"
    proof (rule wp_bmap_alloc [OF ok t k])
      fix b j and u :: "'a album_scheme"
      assume "album_ok e u" "grows 3 {?k} ?d i (disk e u) j" "mapped (dk_block (disk e u)) j ?k = b" "b \<noteq> 0"
      from body [OF this] show "wp (?K (Some b, j)) Q E u" by simp
    next
      fix u :: "'a album_scheme" assume u: "album_ok e u" "stuck 2 ?d i (disk e u)"
      show "E NoSpace u"
        by (rule E [OF u(1) spoiled_mono [OF stuck_spoiled [OF u(2)]]]) (use T in linarith)
    qed
    then show ?thesis
      using True by (subst write_loop.simps) (simp add: Let_def wp_bind case_prod_beta')
  qed
qed


subsection \<open>Past the range of the block map\<close>

lemma slice_take: "b \<le> m \<Longrightarrow> slice (take m xs) a b = slice xs a b"
  by (simp add: slice_def drop_take min.absorb1 diff_le_mono)

lemma bind_chunk:
  "bind m (\<lambda>(b, i). bind (f b) (\<lambda>x. bind (g x) (\<lambda>p. bind (h x p) (\<lambda>_. bind (next_step i) rest)))) =
    bind (bind m (\<lambda>(b, i). bind (f b) (\<lambda>x. bind (g x) (\<lambda>p. bind (h x p) (\<lambda>_. next_step i))))) rest"
  by (simp only: bind_assoc split_def)

text \<open>A write across a block boundary is the write up to the boundary, then the rest.\<close>

lemma write_loop_split:
  assumes "consumed \<le> m" "m \<le> length data" "(pos + (m - consumed)) mod UB = 0"
  shows "(write_loop e i pos data consumed :: ('a album_scheme, inode, fs_error) prog) =
    bind (write_loop e i pos (take m data) consumed) (\<lambda>j. write_loop e j (pos + (m - consumed)) data m)"
  using assms
proof (induction "m - consumed" arbitrary: pos consumed i rule: less_induct)
  case less
  show ?case
  proof (cases "consumed = m")
    case True
    then show ?thesis by (intro ext) (simp add: write_loop.simps [of e i pos "take m data"] bind_def run_simps)
  next
    case False
    then have lt: "consumed < m" using less.prems(1) by simp
    let ?n = "min (length data - consumed) (UB - pos mod UB)"
    have room: "UB - pos mod UB \<le> m - consumed"
    proof -
      have "pos div UB < (pos + (m - consumed)) div UB"
      proof (rule ccontr)
        assume "\<not> pos div UB < (pos + (m - consumed)) div UB"
        then have "(pos + (m - consumed)) div UB * UB \<le> pos div UB * UB" by simp
        moreover have "(pos + (m - consumed)) div UB * UB = pos + (m - consumed)"
          using less.prems(3) div_mult_mod_eq [of "pos + (m - consumed)" UB] by simp
        moreover have "pos div UB * UB \<le> pos" by simp
        ultimately show False using lt by linarith
      qed
      then have "Suc (pos div UB) * UB \<le> (pos + (m - consumed)) div UB * UB" by (intro mult_le_mono1) simp
      also have "\<dots> \<le> pos + (m - consumed)" by simp
      finally show ?thesis unfolding mult_Suc using div_mult_mod_eq [of pos UB] by linarith
    qed
    have "UB - pos mod UB \<le> length data - consumed" using room diff_le_mono [OF less.prems(2), of consumed] by (rule order_trans)
    moreover have "length (take m data) = m" using less.prems(2) by simp
    ultimately have n: "?n = min (length (take m data) - consumed) (UB - pos mod UB)" "?n = UB - pos mod UB" "0 < ?n"
      using room by (simp_all add: min.absorb2)
    have le: "consumed + ?n \<le> m" using room n(2) lt by simp
    have sl: "slice (take m data) consumed (consumed + ?n) = slice data consumed (consumed + ?n)"
      by (rule slice_take [OF le])
    have ih: "(write_loop e j (pos + ?n) data (consumed + ?n) :: ('a album_scheme, inode, fs_error) prog) =
      bind (write_loop e j (pos + ?n) (take m data) (consumed + ?n)) (\<lambda>j. write_loop e j (pos + (m - consumed)) data m)" for j
    proof -
      have sum: "pos + ?n + (m - (consumed + ?n)) = pos + (m - consumed)" using le by linarith
      have "m - (consumed + ?n) < m - consumed" using lt n(3) by linarith
      from less.hyps [OF this le less.prems(2), where pos = "pos + ?n" and i = j, unfolded sum, OF less.prems(3)]
      show ?thesis .
    qed
    have c: "(consumed < length data) = True" "(consumed < length (take m data)) = True" using lt less.prems(2) by simp_all
    show ?thesis
      unfolding write_loop.simps [of e i pos data] write_loop.simps [of e i pos "take m data"] c if_True Let_def n(1) [symmetric] sl ih
      by (rule bind_chunk)
  qed
qed

lemma wp_write_loop_beyond:
  fixes s :: "'a album_scheme"
  assumes ok: "album_ok e s" and t: "tree (disk e s) i" and d: "data \<noteq> []" and far: "MAX_BYTES < pos + length data"
    and B: "\<And>c P i' t. album_ok e t \<Longrightarrow> updates c P (disk e s) i (disk e t) i' \<Longrightarrow> E (BadBlock (max MAX_BLOCKS (pos div UB))) t"
    and N: "\<And>c t. album_ok e t \<Longrightarrow> spoiled c (disk e s) i (disk e t) \<Longrightarrow> E NoSpace t"
  shows "wp (write_loop e i pos data 0) Q E s"
proof -
  have stop: "write_loop e j p data c u = (Err (BadBlock (p div UB)), u)" if "c < length data" "MAX_BYTES \<le> p" for j p c and u :: "'a album_scheme"
  proof -
    have "\<not> p div UB < MAX_BLOCKS" using that(2) by (simp add: MAX_BYTES_def not_less less_eq_div_iff_mult_less_eq)
    from wp_bmap_beyond [OF this, of e j True u] that(1) show ?thesis by (subst write_loop.simps) (simp add: bind_def Let_def)
  qed
  show ?thesis
  proof (cases "MAX_BYTES \<le> pos")
    case True
    then have "MAX_BLOCKS \<le> pos div UB" by (simp add: MAX_BYTES_def less_eq_div_iff_mult_less_eq)
    with B [OF ok updates_refl [OF t, of 0]] d show ?thesis by (simp add: wp_def stop [OF _ True] max_def)
  next
    case False
    let ?m = "MAX_BYTES - pos"
    have le: "?m \<le> length data" using far by linarith
    have sp: "write_loop e i pos data 0 = bind (write_loop e i pos (take ?m data) 0) (\<lambda>j. write_loop e j MAX_BYTES data ?m)"
      using write_loop_split [of 0 ?m data pos e i] False le by (simp add: MAX_BYTES_def)
    have k: "max MAX_BLOCKS (pos div UB) = MAX_BLOCKS" "MAX_BYTES div UB = MAX_BLOCKS"
      using False in_max_bytes [of pos] by (simp_all add: MAX_BYTES_def)
    show ?thesis
      unfolding sp wp_bind
    proof (rule wp_write_loop [OF ok t])
      show "pos + (length (take ?m data) - 0) \<le> MAX_BYTES" using False by simp
      fix j and u :: "'a album_scheme"
      assume u: "album_ok e u" "updates (3 * touched pos (length (take ?m data) - 0)) (written pos (drop 0 (take ?m data))) (disk e s) i (disk e u) j"
      have "?m < length data" using False far by simp
      then show "wp (write_loop e j MAX_BYTES data ?m) Q E u" using B [OF u] stop [of ?m MAX_BYTES j u] k by (simp add: wp_def)
    qed (use N in blast)
  qed
qed

end
