(* ===== verification/Edits.thy ===== *)
theory Edits
  imports FileData
begin

text \<open>
  Changes of one file of the abstract disk: what an operation on the tree of an inode leaves of
  every other file, of the inode table, and of the bytes of the file.
\<close>

subsection \<open>Edits\<close>

text \<open>Nothing used outside the file changed or was released.\<close>

definition others_kept :: "disk \<Rightarrow> inode \<Rightarrow> disk \<Rightarrow> bool" where
  "others_kept d i d' \<longleftrightarrow> dk_sb d' = dk_sb d \<and> (\<forall>l < dk_data d. dk_block d' l = dk_block d l) \<and>
     (\<forall>l. l \<in> dk_used d \<longrightarrow> l \<notin> tree_blocks (dk_block d) i \<longrightarrow> l \<in> dk_used d' \<and> dk_block d' l = dk_block d l)"

definition edits :: "(nat \<rightharpoonup> u8) \<Rightarrow> disk \<Rightarrow> inode \<Rightarrow> disk \<Rightarrow> inode \<Rightarrow> bool" where
  "edits P d i d' i' \<longleftrightarrow> others_kept d i d' \<and> tree d' i' \<and> same_attrs i' i \<and>
     tree_blocks (dk_block d') i' \<inter> dk_used d \<subseteq> tree_blocks (dk_block d) i \<and>
     (\<forall>p < MAX_BYTES. byte_at (dk_block d') i' p =
        (case P p of Some b \<Rightarrow> b | None \<Rightarrow> byte_at (dk_block d) i p))"

lemma others_keptD:
  assumes "others_kept d i d'"
  shows "dk_sb d' = dk_sb d" "l < dk_data d \<Longrightarrow> dk_block d' l = dk_block d l"
    "l \<in> dk_used d \<Longrightarrow> l \<notin> tree_blocks (dk_block d) i \<Longrightarrow> l \<in> dk_used d'"
    "l \<in> dk_used d \<Longrightarrow> l \<notin> tree_blocks (dk_block d) i \<Longrightarrow> dk_block d' l = dk_block d l"
  using assms unfolding others_kept_def by blast+

lemma editsD:
  assumes "edits P d i d' i'"
  shows "others_kept d i d'" "tree d' i'" "same_attrs i' i"
    "tree_blocks (dk_block d') i' \<inter> dk_used d \<subseteq> tree_blocks (dk_block d) i"
    "p < MAX_BYTES \<Longrightarrow> byte_at (dk_block d') i' p =
        (case P p of Some b \<Rightarrow> b | None \<Rightarrow> byte_at (dk_block d) i p)"
  using assms unfolding edits_def by blast+

lemma tree_data: "tree d i \<Longrightarrow> l \<in> tree_blocks (dk_block d) i \<Longrightarrow> dk_data d \<le> l \<and> l \<in> dk_used d"
  unfolding tree_blocks_def using tree_okD(1,3) by fastforce

lemma others_kept_trans:
  assumes a: "others_kept d i d'" and t: "tree_blocks (dk_block d') i' \<inter> dk_used d \<subseteq> tree_blocks (dk_block d) i"
    and b: "others_kept d' i' d''"
  shows "others_kept d i d''"
proof -
  note A = others_keptD [OF a] and B = others_keptD [OF b]
  have "l \<in> dk_used d'' \<and> dk_block d'' l = dk_block d l"
    if l: "l \<in> dk_used d" "l \<notin> tree_blocks (dk_block d) i" for l
  proof -
    have "l \<notin> tree_blocks (dk_block d') i'" using l t by blast
    then show ?thesis using A(3,4) [OF l] B(3,4) by simp
  qed
  then show ?thesis using A(1,2) B(1,2) by (simp add: others_kept_def)
qed

lemma edits_trans:
  assumes a: "edits P d i d' i'" and b: "edits P' d' i' d'' i''"
  shows "edits (P ++ P') d i d'' i''"
proof -
  note A = editsD [OF a] and B = editsD [OF b]
  have p: "byte_at (dk_block d'') i'' q = (case (P ++ P') q of Some x \<Rightarrow> x | None \<Rightarrow> byte_at (dk_block d) i q)"
    if "q < MAX_BYTES" for q
    using A(5) [OF that] B(5) [OF that] by (simp add: map_add_def split: option.split)
  have t: "tree_blocks (dk_block d'') i'' \<inter> dk_used d \<subseteq> tree_blocks (dk_block d) i"
  proof
    fix l assume l: "l \<in> tree_blocks (dk_block d'') i'' \<inter> dk_used d"
    show "l \<in> tree_blocks (dk_block d) i"
    proof (rule ccontr)
      assume n: "l \<notin> tree_blocks (dk_block d) i"
      then have "l \<in> dk_used d'" using l others_keptD(3) [OF A(1)] by blast
      then have "l \<in> tree_blocks (dk_block d') i'" using l B(4) by blast
      then show False using l n A(4) by blast
    qed
  qed
  have o: "others_kept d i d''" by (rule others_kept_trans [OF A(1,4) B(1)])
  have at: "same_attrs i'' i" by (rule same_attrs_trans [OF B(3) A(3)])
  show ?thesis
    unfolding edits_def using o t at B(2)
    by - (intro conjI allI impI; (rule p)?; assumption)
qed

lemma updates_edits:
  assumes t: "tree d i" and u: "updates c P d i d' i'"
  shows "edits P d i d' i'"
proof -
  note U = updatesD [OF u]
  have lo: "dk_block d' l = dk_block d l" if "l < dk_data d" for l
    by (rule U(7)) (use that U(5) tree_data [OF t] in \<open>force+\<close>)
  have "others_kept d i d'" unfolding others_kept_def using U(1,4,7) lo by blast
  then show ?thesis unfolding edits_def using U(2,3,8,9) by blast
qed

lemma edits_refl: "tree d i \<Longrightarrow> edits Map.empty d i d i"
  by (simp add: edits_def others_kept_def)

lemma spoiled_others:
  assumes t: "tree d i" and u: "spoiled c d i d'"
  shows "others_kept d i d'"
proof -
  note U = spoiledD [OF u]
  have lo: "dk_block d' l = dk_block d l" if "l < dk_data d" for l
    by (rule U(6)) (use that U(4) tree_data [OF t] in \<open>force+\<close>)
  show ?thesis unfolding others_kept_def using U(1,2,6) lo by blast
qed

text \<open>Removing the blocks with indices in \<open>ks\<close> puts zeros there.\<close>

lemma unmapped_edits:
  assumes t: "tree d i" and u: "unmapped ks d i d' i'"
  shows "edits (\<lambda>p. if p div UB \<in> ks then Some 0 else None) d i d' i'"
proof -
  obtain N where N: "drops N d i d' i'" "\<And>k. Data k \<in> N \<Longrightarrow> k \<in> ks"
      "\<And>k. k \<in> ks \<Longrightarrow> k < MAX_BLOCKS \<Longrightarrow> mapped (dk_block d') i' k = 0"
    using u unfolding unmapped_def by blast
  have sb: "dk_sb d' = dk_sb d" and sh: "shrinks (dk_data d) (dk_total d) N (dk_used d) (dk_block d) i (dk_used d') (dk_block d') i'"
    using N(1) by (simp_all add: drops_def)
  note S = shrinksD [OF sh]
  have gone: "dk_used d - tree_blocks (dk_block d) i \<subseteq> dk_used d'"
    unfolding S(5) tree_blocks_def by blast
  have nt: "dk_block d' l = dk_block d l" if "l \<notin> tree_blocks (dk_block d) i" for l
    by (rule S(6)) (use that tables_in_tree in blast)
  have lo: "dk_block d' l = dk_block d l" if "l < dk_data d" for l
    by (rule nt) (use that tree_data [OF t, of l] in auto)
  have o: "others_kept d i d'" unfolding others_kept_def using sb lo nt gone by blast
  have tb: "tree_blocks (dk_block d') i' \<subseteq> tree_blocks (dk_block d) i"
  proof
    fix l assume "l \<in> tree_blocks (dk_block d') i'"
    then obtain n where n: "valid_node n" "ptr (dk_block d') i' n \<noteq> 0" "l = unat (ptr (dk_block d') i' n)"
      unfolding tree_blocks_def by blast
    then have "ptr (dk_block d') i' n = ptr (dk_block d) i n" using S(4) [OF n(1)] by (auto split: if_splits)
    with n show "l \<in> tree_blocks (dk_block d) i" unfolding tree_blocks_def by auto
  qed
  have p: "byte_at (dk_block d') i' p =
      (case if p div UB \<in> ks then Some 0 else None of Some b \<Rightarrow> b | None \<Rightarrow> byte_at (dk_block d) i p)"
    if "p < MAX_BYTES" for p
  proof -
    note l = shrinks_logical [OF t sh in_max_bytes [OF that]]
    have z: "zeros ! (p mod UB) = 0" by (simp add: zeros_def)
    show ?thesis
    proof (cases "p div UB \<in> ks")
      case True
      then have "logical (dk_block d') i' (p div UB) = zeros"
        using N(3) in_max_bytes [OF that] by (simp add: logical_def)
      with True z show ?thesis by (simp add: byte_at_def)
    next
      case False
      then show ?thesis using l(2) N(2) by (auto simp: byte_at_def)
    qed
  qed
  have tr: "tree d' i'" using S(1) sb by simp
  have tbi: "tree_blocks (dk_block d') i' \<inter> dk_used d \<subseteq> tree_blocks (dk_block d) i" using tb by blast
  show ?thesis
    unfolding edits_def using o tbi S(3) tr
    by - (intro conjI allI impI; (rule p)?; assumption)
qed


subsection \<open>Other files\<close>

text \<open>A file whose blocks kept their contents and stay in use is the same file.\<close>

lemma file_frame:
  assumes t: "tree d j" and sb: "dk_sb d' = dk_sb d"
    and kept: "\<And>l. l \<in> tree_blocks (dk_block d) j \<Longrightarrow> l \<in> dk_used d' \<and> dk_block d' l = dk_block d l"
  shows "tree d' j" "tree_blocks (dk_block d') j = tree_blocks (dk_block d) j"
    "p < MAX_BYTES \<Longrightarrow> byte_at (dk_block d') j p = byte_at (dk_block d) j p"
proof -
  have same: "dk_block d' (unat (ptr (dk_block d) j n)) = dk_block d (unat (ptr (dk_block d) j n))"
    if "valid_node n" "ptr (dk_block d) j n \<noteq> 0" for n
    using kept that unfolding tree_blocks_def by blast
  have U: "tree_blocks (dk_block d) j \<subseteq> dk_used d'" using kept by blast
  have f: "tree_ok (dk_data d) (dk_total d) (dk_used d') (dk_block d') j"
    by (rule tree_ok_frame(1) [OF t _ U]) (rule same)
  then show "tree d' j" by (simp add: sb)
  have p: "ptr (dk_block d') j n = ptr (dk_block d) j n" if "valid_node n" for n
    by (rule tree_ok_frame(2) [OF t _ U that]) (rule same)
  show "tree_blocks (dk_block d') j = tree_blocks (dk_block d) j"
    unfolding tree_blocks_def by (intro Collect_cong iff_exI) (use p in auto)
  show "byte_at (dk_block d') j p = byte_at (dk_block d) j p" if "p < MAX_BYTES"
  proof -
    have v: "valid_node (Data (p div UB))" using in_max_bytes [OF that] by simp
    have "logical (dk_block d') j (p div UB) = logical (dk_block d) j (p div UB)"
      unfolding logical_def mapped_def p [OF v] using same [OF v] by simp
    then show ?thesis by (simp add: byte_at_def)
  qed
qed

lemma others_frame:
  assumes o: "others_kept d i d'" and t: "tree d j" and dis: "tree_blocks (dk_block d) j \<inter> tree_blocks (dk_block d) i = {}"
  shows "tree d' j" "tree_blocks (dk_block d') j = tree_blocks (dk_block d) j"
    "p < MAX_BYTES \<Longrightarrow> byte_at (dk_block d') j p = byte_at (dk_block d) j p"
proof -
  have k: "l \<in> dk_used d' \<and> dk_block d' l = dk_block d l" if "l \<in> tree_blocks (dk_block d) j" for l
    using others_keptD(3,4) [OF o] tree_data [OF t that] dis that by blast
  show "tree d' j" "tree_blocks (dk_block d') j = tree_blocks (dk_block d) j"
    "p < MAX_BYTES \<Longrightarrow> byte_at (dk_block d') j p = byte_at (dk_block d) j p"
    using file_frame [OF t others_keptD(1) [OF o] k] by blast+
qed

lemma others_inode:
  assumes "others_kept d i d'" "disk_ok d" "ino_ok d m"
  shows "inode_at d' m = inode_at d m"
  using others_keptD(1) [OF assms(1)] others_keptD(2) [OF assms(1) slot_block_bounds(2) [OF assms(2,3)]]
  by (simp add: inode_at_def)

text \<open>What stands below the data region is in no file.\<close>

lemma below_data_frame:
  assumes "tree d j" "dk_sb d' = dk_sb d" "dk_bitmap d' = dk_bitmap d"
    "\<And>l. dk_data d \<le> l \<Longrightarrow> dk_block d' l = dk_block d l"
  shows "tree d' j" "tree_blocks (dk_block d') j = tree_blocks (dk_block d) j"
    "p < MAX_BYTES \<Longrightarrow> byte_at (dk_block d') j p = byte_at (dk_block d) j p"
  using file_frame [OF assms(1,2)] tree_data [OF assms(1)] assms(3,4) by auto

end
