(* ===== verification/Sync.thy ===== *)
theory Sync
  imports FileData
begin

text \<open>
  \<open>sync\<close>: the bitmap is written to its blocks and the carriers are written back. What is on the
  abstract disk afterwards is what an album opened on the files holds.
\<close>

subsection \<open>The saved bitmap\<close>

definition bitmap_part :: "bitmap \<Rightarrow> nat \<Rightarrow> bytes" where
  "bitmap_part bm k =
     (if k * UB < min (k * UB + UB) (length (bm_bits bm))
      then slice (bm_bits bm) (k * UB) (min (k * UB + UB) (length (bm_bits bm))) else [])"

abbreviation dk_bm_start :: "disk \<Rightarrow> nat" where "dk_bm_start d \<equiv> unat (sb_bitmap_start (dk_sb d))"
abbreviation dk_table :: "disk \<Rightarrow> nat" where "dk_table d \<equiv> unat (sb_inode_table_start (dk_sb d))"

definition save_part :: "nat \<Rightarrow> disk \<Rightarrow> disk" where
  "save_part n d = d\<lparr>dk_block := \<lambda>l. if dk_bm_start d \<le> l \<and> l < n
     then pad (bitmap_part (dk_bitmap d) (l - dk_bm_start d)) else dk_block d l\<rparr>"

definition save_bitmap :: "disk \<Rightarrow> disk" where
  "save_bitmap d = save_part (dk_table d) d"

definition bm_saved :: "disk \<Rightarrow> bool" where
  "bm_saved d \<longleftrightarrow> (\<forall>l. dk_bm_start d \<le> l \<longrightarrow> l < dk_table d \<longrightarrow>
     dk_block d l = pad (bitmap_part (dk_bitmap d) (l - dk_bm_start d)))"

lemma length_bitmap_part: "length (bitmap_part bm k) \<le> UB"
  by (auto simp: bitmap_part_def)

lemma save_bitmap_saved [simp]: "bm_saved (save_bitmap d)"
  by (simp add: bm_saved_def save_bitmap_def save_part_def)

lemma save_bitmap_sel [simp]:
  "dk_sb (save_bitmap d) = dk_sb d" "dk_bitmap (save_bitmap d) = dk_bitmap d"
  by (simp_all add: save_bitmap_def save_part_def)

lemma save_bitmap_frame: "dk_table d \<le> l \<Longrightarrow> dk_block (save_bitmap d) l = dk_block d l"
  by (simp add: save_bitmap_def save_part_def)

text \<open>What a store holds, under a superblock and a bitmap.\<close>

definition disk_of :: "ext \<Rightarrow> superblock \<Rightarrow> bitmap \<Rightarrow> 'a store_scheme \<Rightarrow> disk" where
  "disk_of e sb bm s = \<lparr>dk_block = view e s, dk_sb = sb, dk_bitmap = bm\<rparr>"

lemma wp_store_bitmap:
  fixes s :: "'a store_scheme"
  assumes ok: "device_ok e s" and rng: "unat (sb_inode_table_start sb) \<le> unat (bs_total_blocks s)"
    and az: "unat (sb_bitmap_start sb) \<le> unat (sb_inode_table_start sb)"
    and Q: "\<And>t. device_ok e t \<Longrightarrow> unat (bs_total_blocks t) = unat (bs_total_blocks s) \<Longrightarrow> store_rest t = store_rest s \<Longrightarrow>
      disk_of e sb bm t = save_bitmap (disk_of e sb bm s) \<Longrightarrow> Q () t"
  shows "wp (write_bitmap e sb bm) Q E s"
proof -
  let ?d = "disk_of e sb bm s"
  let ?a = "dk_bm_start ?d" and ?z = "dk_table ?d"
  let ?I = "\<lambda>past (t :: 'a store_scheme). device_ok e t \<and> unat (bs_total_blocks t) = unat (bs_total_blocks s) \<and>
    store_rest t = store_rest s \<and> disk_of e sb bm t = save_part (?a + length past) ?d"
  have "wp (for_each (enumerate 0 [?a..<?z]) (\<lambda>(index, block).
      write_block e block (bitmap_part bm index))) Q E s"
  proof (rule wp_for_each [where I = ?I])
    have "save_part ?a ?d = ?d" by (cases ?d) (auto simp: save_part_def fun_eq_iff)
    then show "?I [] s" using ok by simp
    fix past i todo and t :: "'a store_scheme"
    assume split: "enumerate 0 [?a..<?z] = past @ i # todo" and t: "?I past t"
    have n: "length past < ?z - ?a" using arg_cong [OF split, of length] by simp
    have "i = enumerate 0 [?a..<?z] ! length past" by (simp add: split)
    then have i: "i = (length past, ?a + length past)" using n by (simp add: nth_enumerate_eq)
    have "wp (write_block e (?a + length past) (bitmap_part bm (length past)))
        (\<lambda>_. ?I (past @ [i])) E t"
    proof (rule sdev.wp_wr [OF conjunct1 [OF t]])
      show "?a + length past < unat (bs_total_blocks t)" using t n rng by (simp add: disk_of_def)
      fix u :: "'a store_scheme"
      assume u: "device_ok e u" "unat (bs_total_blocks u) = unat (bs_total_blocks t)"
        "view e u = (view e t)(?a + length past := pad (bitmap_part bm (length past)))" "store_rest u = store_rest t"
      have "view e t = dk_block (disk_of e sb bm t)" by (simp add: disk_of_def)
      also have "\<dots> = dk_block (save_part (?a + length past) ?d)" using t by simp
      finally have "view e t = dk_block (save_part (?a + length past) ?d)" .
      then have "disk_of e sb bm u = save_part (?a + length (past @ [i])) ?d"
        using u(3) by (auto simp: disk_of_def save_part_def fun_eq_iff less_Suc_eq)
      with u(1,2,4) t show "?I (past @ [i]) u" by simp
    qed (rule length_bitmap_part)
    then show "wp (case i of (index, block) \<Rightarrow> write_block e block (bitmap_part bm index))
        (\<lambda>_. ?I (past @ [i])) E t" by (simp add: i)
  next
    fix t :: "'a store_scheme" assume "?I (enumerate 0 [?a..<?z]) t"
    then show "Q () t" using Q [of t] az by (simp add: save_bitmap_def disk_of_def)
  qed
  then show ?thesis by (simp add: write_bitmap_def bitmap_part_def disk_of_def Let_def cong: if_cong)
qed

lemma save_bitmap_0: "regions_ok (dk_sb d) \<Longrightarrow> dk_block (save_bitmap d) 0 = dk_block d 0"
  by (simp add: save_bitmap_def save_part_def regions_ok_def)

lemma wp_write_bitmap:
  fixes s :: "'a album_scheme"
  assumes ok: "album_ok e s"
    and Q: "\<And>t. album_ok e t \<Longrightarrow> disk e t = save_bitmap (disk e s) \<Longrightarrow> Q () t"
  shows "wp (write_bitmap e (al_sb s) (al_bitmap s)) Q E s"
proof (rule wp_store_bitmap)
  show "device_ok e s" "unat (sb_inode_table_start (al_sb s)) \<le> unat (bs_total_blocks s)"
    "unat (sb_bitmap_start (al_sb s)) \<le> unat (sb_inode_table_start (al_sb s))"
    using ok unfolding album_ok_def regions_ok_def by auto
  fix t :: "'a album_scheme"
  assume t: "device_ok e t" "unat (bs_total_blocks t) = unat (bs_total_blocks s)" "store_rest t = store_rest s"
    "disk_of e (al_sb s) (al_bitmap s) t = save_bitmap (disk_of e (al_sb s) (al_bitmap s) s)"
  have "view e t 0 = view e s 0"
    using arg_cong [OF t(4), of "\<lambda>d. dk_block d 0"] ok save_bitmap_0 [of "disk_of e (al_sb s) (al_bitmap s) s"]
    by (simp add: disk_of_def album_ok_def)
  note D = device_step [OF ok t(1-3) this]
  show "Q () t" by (rule Q [OF D(1)]) (use t(4) D(2,3) in \<open>simp add: disk_def disk_of_def\<close>)
qed

text \<open>
  Everything is in the files: a store that reads them again holds the same blocks, the bitmap is
  among them, and no carrier waits to be written.
\<close>

definition durable :: "ext \<Rightarrow> 'a album_scheme \<Rightarrow> bool" where
  "durable e t \<longleftrightarrow> bm_saved (disk e t) \<and> store_ok e (drop_buffers t) \<and>
     view e (drop_buffers t) = view e t \<and> all_clean t"

lemma wp_sync:
  fixes s :: "'a album_scheme"
  assumes laws: "codec_laws e" "jpeg_returns e" and ok: "album_ok e s"
    and Q: "\<And>t. album_ok e t \<Longrightarrow> disk e t = save_bitmap (disk e s) \<Longrightarrow> durable e t \<Longrightarrow> Q () t"
    and E: "\<And>x t. album_ok e t \<Longrightarrow> disk e t = save_bitmap (disk e s) \<Longrightarrow> E x t"
  shows "wp (sync e) Q E s"
proof -
  have "wp (write_bitmap e (al_sb s) (al_bitmap s)) (\<lambda>_. wp (flush e) Q E) E s"
  proof (rule wp_write_bitmap [OF ok])
    fix t :: "'a album_scheme" assume t: "album_ok e t" "disk e t = save_bitmap (disk e s)"
    have d: "device_ok e t" using t(1) by (simp add: album_ok_def)
    have step: "album_ok e u \<and> disk e u = save_bitmap (disk e s)"
      if u: "device_ok e u" "view e u = view e t" "bs_total_blocks u = bs_total_blocks t"
        "store.more u = store.more t" for u :: "'a album_scheme"
      using album_more [OF u(4)] t u by (simp add: album_ok_def disk_def super_ok_def)
    show "wp (flush e) Q E t"
    proof (rule wp_flush [OF laws d])
      fix u :: "'a album_scheme"
      assume u: "device_ok e u" "view e u = view e t" "bs_total_blocks u = bs_total_blocks t"
        "store.more u = store.more t" "store_ok e (drop_buffers u)" "view e (drop_buffers u) = view e t" "all_clean u"
      note st = step [OF u(1-4)]
      then have "durable e u" using u(2,5-7) by (simp add: durable_def)
      then show "Q () u" using st Q by blast
    qed (use step E in blast)
  qed
  then show ?thesis by (simp add: sync_def wp_simps)
qed


subsection \<open>Loading the bitmap\<close>

lemma wp_load_bitmap_loop:
  assumes "device_ok e s" "n \<le> unat (bs_total_blocks s)" "k \<le> n"
    and saved: "\<And>l. a \<le> l \<Longrightarrow> l < n \<Longrightarrow> view e s l = pad (bitmap_part bm (l - a))"
    and "a \<le> k"
    and "\<And>t. device_ok e t \<Longrightarrow> bs_total_blocks t = bs_total_blocks s \<Longrightarrow> view e t = view e s \<Longrightarrow>
      store_rest t = store_rest s \<Longrightarrow> Q (take ((n - a) * UB) (bm_bits bm)) t"
  shows "wp (load_bitmap_loop e (length (bm_bits bm)) [k..<n] (take ((k - a) * UB) (bm_bits bm))) Q E s"
  using assms
proof (induction "n - k" arbitrary: k s)
  case 0
  then show ?case by (simp add: wp_simps)
next
  case (Suc m)
  let ?bits = "bm_bits bm" and ?j = "k - a"
  let ?done = "take (?j * UB) ?bits"
  have k: "k < n" using Suc.hyps(2) by simp
  have vk: "view e s k = pad (bitmap_part bm ?j)" using Suc.prems(4,5) k by simp
  have part: "?done @ take (min (length ?bits - length ?done) UB) (pad (bitmap_part bm ?j)) =
      take ((Suc k - a) * UB) ?bits"
  proof (cases "?j * UB < length ?bits")
    case True
    let ?p = "bitmap_part bm ?j"
    have p: "?p = slice ?bits (?j * UB) (min (?j * UB + UB) (length ?bits))"
      using True by (simp add: bitmap_part_def)
    have "length ?p = min (length ?bits - length ?done) UB" unfolding p using True by (simp add: min_def) linarith
    then have "take (min (length ?bits - length ?done) UB) (pad ?p) = ?p"
      using pad_eq [OF length_bitmap_part, of bm ?j] by simp
    moreover have "(Suc k - a) * UB = ?j * UB + UB" using Suc.prems(5) by (simp add: Suc_diff_le)
    moreover have "?p = take UB (drop (?j * UB) ?bits)"
      unfolding p slice_def using True by (simp add: min_def)
    ultimately show ?thesis by (simp add: take_add)
  next
    case False
    moreover have "?j * UB \<le> (Suc k - a) * UB" by (intro mult_le_mono1 diff_le_mono) simp
    ultimately have "length ?bits \<le> (Suc k - a) * UB" by linarith
    with False show ?thesis by simp
  qed
  have "wp (read_block e k) (\<lambda>payload. wp (load_bitmap_loop e (length ?bits) [Suc k..<n]
      (?done @ take (min (length ?bits - length ?done) UB) payload)) Q E) E s"
  proof (rule sdev.wp_rd [OF Suc.prems(1)])
    show "k < unat (bs_total_blocks s)" using k Suc.prems(2) by simp
    fix t assume t: "device_ok e t" "unat (bs_total_blocks t) = unat (bs_total_blocks s)"
      "view e t = view e s" "store_rest t = store_rest s"
    have tb: "bs_total_blocks t = bs_total_blocks s" using t(2) by (simp add: word_unat_eq_iff)
    show "wp (load_bitmap_loop e (length ?bits) [Suc k..<n]
      (?done @ take (min (length ?bits - length ?done) UB) (view e s k))) Q E t"
      unfolding vk part
      by (rule Suc.hyps(1)) (use Suc t tb k in \<open>simp_all\<close>)
  qed
  then show ?case using k by (simp add: upt_conv_Cons wp_simps Let_def)
qed

text \<open>The bitmap that was saved is the bitmap that is loaded.\<close>

lemma wp_load_bitmap:
  assumes ok: "device_ok e s" and tb: "sb_total_blocks sb = bs_total_blocks s" and r: "regions_ok sb"
    and bm: "bitmap_wf bm" "bm_total bm = unat (sb_total_blocks sb)"
    and saved: "\<And>l. unat (sb_bitmap_start sb) \<le> l \<Longrightarrow> l < unat (sb_inode_table_start sb) \<Longrightarrow>
      view e s l = pad (bitmap_part bm (l - unat (sb_bitmap_start sb)))"
    and Q: "\<And>t. device_ok e t \<Longrightarrow> bs_total_blocks t = bs_total_blocks s \<Longrightarrow> view e t = view e s \<Longrightarrow>
      store_rest t = store_rest s \<Longrightarrow> Q bm t"
  shows "wp (load_bitmap e sb) Q E s"
proof -
  let ?a = "unat (sb_bitmap_start sb)" and ?z = "unat (sb_inode_table_start sb)"
  let ?need = "div_ceil (unat (sb_total_blocks sb)) 8"
  have len: "length (bm_bits bm) = ?need" using bm by (simp add: bitmap_wf_def)
  have rg: "?a + div_ceil ?need UB \<le> ?z" "?z \<le> unat (sb_total_blocks sb)" using r by (simp_all add: regions_ok_def)
  then have "?need \<le> (?z - ?a) * UB" using div_ceil_le_iff [of UB ?need "?z - ?a"] by (metis UB_pos add_le_imp_le_diff add.commute)
  then have whole: "take ((?z - ?a) * UB) (bm_bits bm) = bm_bits bm" using len by simp
  have loaded: "bitmap_from_bytes (bm_bits bm) (unat (sb_total_blocks sb)) = bm"
    using bm(2) len by (simp add: bitmap_from_bytes_def put_0_whole Let_def)
  have "wp (load_bitmap_loop e (length (bm_bits bm)) [?a..<?z] (take ((?a - ?a) * UB) (bm_bits bm)))
      (\<lambda>bs. wp (ret (bitmap_from_bytes bs (unat (sb_total_blocks sb)))) Q E) E s"
  proof (rule wp_load_bitmap_loop [OF ok _ _ saved])
    show "?z \<le> unat (bs_total_blocks s)" "?a \<le> ?z" using rg tb by simp_all
    fix t assume "device_ok e t" "bs_total_blocks t = bs_total_blocks s" "view e t = view e s" "store_rest t = store_rest s"
    then show "wp (ret (bitmap_from_bytes (take ((?z - ?a) * UB) (bm_bits bm)) (unat (sb_total_blocks sb)))) Q E t"
      unfolding whole loaded wp_prim by (rule Q)
  next
    show "?a \<le> ?a" by simp
  qed
  then show ?thesis by (simp add: load_bitmap_def wp_simps len)
qed



subsection \<open>Opening the album again\<close>

text \<open>The blocks a store gives do not depend on what its state is extended with.\<close>

lemma truncate_sel:
  "bs_carriers (store.truncate s) = bs_carriers s" "bs_encrypted (store.truncate s) = bs_encrypted s"
  "bs_cipher (store.truncate s) = bs_cipher s" "bs_order_key (store.truncate s) = bs_order_key s"
  "bs_total_blocks (store.truncate s) = bs_total_blocks s" "w_files (store.truncate s) = w_files s"
  by (simp_all add: store.defs)

lemma extend_sel:
  "bs_carriers (store.extend s x) = bs_carriers s" "bs_encrypted (store.extend s x) = bs_encrypted s"
  "bs_cipher (store.extend s x) = bs_cipher s" "bs_order_key (store.extend s x) = bs_order_key s"
  "bs_total_blocks (store.extend s x) = bs_total_blocks s" "w_files (store.extend s x) = w_files s"
  by (simp_all add: store.defs)

text \<open>
  Which slot is the primary one does not matter to the blocks, nor do the files that are no carriers.
\<close>

lemma store_like_cong:
  fixes s :: "'a store_scheme" and t :: "'b store_scheme"
  assumes "bs_carriers t = map (\<lambda>c. c\<lparr>cs_is_primary := P c\<rparr>) (bs_carriers s)" "bs_encrypted t = bs_encrypted s"
    "bs_cipher t = bs_cipher s" "bs_order_key t = bs_order_key s" "bs_total_blocks t = bs_total_blocks s"
    and f: "\<forall>c \<in> set (bs_carriers s). w_files t (cs_path c) = w_files s (cs_path c)"
  shows "device_ok e t = device_ok e s" "store_ok e t = store_ok e s" "view e t = view e s"
proof -
  have l: "load_slot e t (c\<lparr>cs_is_primary := P c\<rparr>) = load_slot e s c" if "c \<in> set (bs_carriers s)" for c
    using codec.read_local [of "w_files t" "cs_path c" "w_files s"] f that
    by (simp add: load_slot_def assms(2-4) cong: if_cong option.case_cong)
  then have b: "slot_bytes e t (c\<lparr>cs_is_primary := P c\<rparr>) = slot_bytes e s c" if "c \<in> set (bs_carriers s)" for c
    using that by (simp add: slot_bytes_def split: option.split)
  have y: "layout e t = layout e s" using b by (simp add: layout_def assms(1))
  have d: "decode_block e t = decode_block e s" using assms by (simp add: fun_eq_iff decode_block_def)
  show o: "store_ok e t = store_ok e s" using assms y d by (simp add: store_ok_def)
  show "view e t = view e s" by (intro ext) (simp add: view_def assms y d split: option.split)
  have "synced e t = synced e s" using l b by (simp add: synced_def clean_slot_def assms(1) o_def)
  with o show "device_ok e t = device_ok e s" by (simp add: device_ok_def)
qed

lemma store_view_cong:
  fixes s :: "'a store_scheme" and t :: "'b store_scheme"
  assumes "bs_carriers t = bs_carriers s" "bs_encrypted t = bs_encrypted s" "bs_cipher t = bs_cipher s"
    "bs_order_key t = bs_order_key s" "bs_total_blocks t = bs_total_blocks s" "w_files t = w_files s"
  shows "device_ok e t = device_ok e s" "store_ok e t = store_ok e s" "view e t = view e s"
  using store_like_cong [of t cs_is_primary s e] assms by simp_all

lemma drop_buffers_device:
  assumes "synced e s" "store_ok e (drop_buffers s)"
  shows "device_ok e (drop_buffers s)"
proof -
  have "synced e (drop_buffers s)"
    using assms(1) by (auto simp: synced_def clean_slot_def slot_bytes_def drop_buffers_def o_def)
  with assms(2) show ?thesis by (simp add: device_ok_def)
qed

text \<open>The store of an album that was closed: nothing is loaded.\<close>

definition closed :: "'a store_scheme \<Rightarrow> store" where
  "closed s = store.truncate (drop_buffers s)"

lemma closed_store:
  fixes t :: "'a album_scheme"
  assumes ok: "album_ok e t" and dur: "durable e t"
  shows "device_ok e (closed t)" "view e (closed t) = view e t" "bs_total_blocks (closed t) = bs_total_blocks t"
proof -
  have c: "store_ok e (drop_buffers t)" "view e (drop_buffers t) = view e t"
    using dur by (simp_all add: durable_def)
  have "device_ok e (drop_buffers t)"
    by (rule drop_buffers_device) (use ok c in \<open>simp_all add: album_ok_def device_ok_def\<close>)
  moreover note cong = store_view_cong [of "closed t" "drop_buffers t" e, unfolded closed_def truncate_sel, OF refl refl refl refl refl refl]
  ultimately show "device_ok e (closed t)" "view e (closed t) = view e t" using c(2) by (simp_all add: closed_def)
  show "bs_total_blocks (closed t) = bs_total_blocks t" by (simp add: closed_def truncate_sel drop_buffers_def)
qed

text \<open>Any store that holds the blocks of a durable album opens as the album.\<close>

lemma reopen_store:
  fixes t :: "'a album_scheme" and c :: store
  assumes ok: "album_ok e t" and dur: "durable e t"
    and d: "device_ok e c" "view e c = view e t" and tb: "bs_total_blocks c = bs_total_blocks t"
  shows "\<exists>a. album_open_store e (Ok (al_sb t, c)) = Ok a \<and> album_ok e a \<and> disk e a = disk e t"
proof -
  have saved: "bm_saved (disk e t)" using dur by (simp add: durable_def)
  have "wp (load_bitmap e (al_sb t)) (\<lambda>bm u. bm = al_bitmap t \<and> device_ok e u \<and>
      bs_total_blocks u = bs_total_blocks t \<and> view e u = view e t) no_err c"
  proof (rule wp_load_bitmap [OF d(1)])
    fix l assume "unat (sb_bitmap_start (al_sb t)) \<le> l" "l < unat (sb_inode_table_start (al_sb t))"
    then show "view e c l = pad (bitmap_part (al_bitmap t) (l - unat (sb_bitmap_start (al_sb t))))"
      using saved d(2) by (simp add: bm_saved_def disk_sel)
  qed (use ok d(2) tb in \<open>simp_all add: album_ok_def\<close>)
  then obtain u where u: "load_bitmap e (al_sb t) c = (Ok (al_bitmap t), u)" "device_ok e u"
      "bs_total_blocks u = bs_total_blocks t" "view e u = view e t"
    unfolding wp_no_err by blast
  let ?a = "album_of u (al_sb t) (al_bitmap t)"
  have sel: "al_sb ?a = al_sb t" "al_bitmap ?a = al_bitmap t"
    by (simp_all add: album_of_def store.defs album.defs)
  have au: "device_ok e ?a" "view e ?a = view e t" "bs_total_blocks ?a = bs_total_blocks t"
    using store_view_cong [of ?a u e] u(2-4) by (simp_all add: album_of_def extend_sel)
  have "album_open_store e (Ok (al_sb t, c)) = Ok ?a" by (simp add: album_open_store_def u(1))
  moreover have "album_ok e ?a" using ok sel au by (simp add: album_ok_def super_ok_def)
  moreover have "disk e ?a = disk e t" using sel au by (simp add: disk_def)
  ultimately show ?thesis by blast
qed

lemma reopen:
  fixes t :: "'a album_scheme"
  assumes "album_ok e t" "durable e t"
  shows "\<exists>a. album_open_store e (Ok (al_sb t, closed t)) = Ok a \<and> album_ok e a \<and> disk e a = disk e t"
  by (rule reopen_store [OF assms closed_store [OF assms]])

end
