(* ===== verification/Programs.thy ===== *)
theory Programs
  imports AlbumOps
begin

text \<open>
  The programs of \<^verbatim>\<open>block.rs\<close> and \<^verbatim>\<open>album.rs\<close> change a state by a few steps only: a buffer is loaded or written,
  a nonce is drawn, the clock is read, the bitmap is replaced, a slot is written back. A preorder on states that
  holds of the steps therefore holds of every run. This theory walks through the programs once, under
  that contract.
\<close>

subsection \<open>The store\<close>

locale store_programs = step_preorder R for R :: "'a store_scheme \<Rightarrow> 'a store_scheme \<Rightarrow> bool" +
  assumes loaded: "R s (bs_carriers_update (\<lambda>cs. cs[i := (bs_carriers s ! i)\<lparr>cs_buffer := b\<rparr>]) s)"
    and stored: "R s (bs_carriers_update (\<lambda>cs. cs[i := (bs_carriers s ! i)\<lparr>cs_buffer := b, cs_dirty := True\<rparr>]) s)"
    and drawn: "R s (w_draws_update Suc s)"
    and ticked: "R s (w_ticks_update Suc s)"
begin

lemma runs_ensure_loaded [keeps_intros]: "runs R (ensure_loaded e i)"
  unfolding ensure_loaded_def
  by (rule runs_state) (auto simp: bind_def run_simps Let_def loaded same split: res.splits)

lemma runs_read_block [keeps_intros]: "runs R (read_block e l)"
  unfolding read_block_def by (intro keeps_intros)

lemma runs_fill [keeps_intros]: "runs R (fill_bytes e n)"
  unfolding fill_bytes_def by (intro keeps_intros runs_modify drawn)

lemma runs_now [keeps_intros]: "runs R (now e)"
  unfolding now_def by (intro keeps_intros runs_modify ticked)

lemma runs_cipher_encode [keeps_intros]: "runs R (cipher_encode e key lba p)"
  unfolding cipher_encode_def by (intro keeps_intros)

lemma runs_encode_block [keeps_intros]: "runs R (encode_block e l p)"
  unfolding encode_block_def by (intro keeps_intros)

lemma runs_write_block [keeps_intros]: "runs R (write_block e l p)"
proof -
  have tail: "runs R (bind (get (\<lambda>s :: 'a store_scheme. s)) (\<lambda>s.
      let slot = bs_carriers s ! i; offset = block_offset slot l
      in bind (lift (ok_or (Manifest ''carrier buffer was not loaded'') (cs_buffer slot))) (\<lambda>buffer.
         if offset + PB > length buffer then lift Panic
         else modify (bs_carriers_update (\<lambda>cs. cs[i :=
             slot\<lparr>cs_buffer := Some (put buffer offset block), cs_dirty := True\<rparr>])))))" for i block
    by (rule runs_state) (auto simp: bind_def run_simps Let_def stored same split: res.splits)
  show ?thesis
    unfolding write_block_def
    by (rule runs_if, rule runs_prim, rule runs_bind, rule runs_prim, rule runs_bind, rule runs_prim,
      rule runs_bind, rule runs_ensure_loaded, rule runs_bind, rule runs_encode_block, rule tail)
qed

lemma runs_write_bitmap [keeps_intros]: "runs R (write_bitmap e sb bm)"
  unfolding write_bitmap_def by (intro keeps_intros)

lemma runs_load_bitmap_loop [keeps_intros]: "runs R (load_bitmap_loop e n ks bs)"
  by (induction ks arbitrary: bs) (auto intro!: keeps_intros simp: Let_def)

lemma runs_load_bitmap [keeps_intros]: "runs R (load_bitmap e sb)"
  unfolding load_bitmap_def by (intro keeps_intros)

end


subsection \<open>The album, up to \<open>sync\<close>\<close>

locale album_programs = store_programs R for R :: "'a album_scheme \<Rightarrow> 'a album_scheme \<Rightarrow> bool" +
  assumes mapped: "R s (al_bitmap_update f s)"
begin

lemma runs_bitmap [keeps_intros]: "runs R (modify (al_bitmap_update f))"
  by (rule runs_modify) (rule mapped)

lemma runs_inodes [keeps_intros]:
  "runs R (read_inode e n)" "runs R (write_inode e n i)" "runs R (getattr e n)" "runs R (free_inode e n)"
  unfolding getattr_def free_inode_def read_inode_def write_inode_def by (intro keeps_intros)+

lemma runs_find_free [keeps_intros]: "runs R (find_free_inode e ns)"
  by (induction ns) (auto intro!: keeps_intros)

lemma runs_alloc [keeps_intros]: "runs R (alloc_inode e)" "runs R (allocate_block e)" "runs R (clear_bit b)"
  unfolding alloc_inode_def allocate_block_def clear_bit_def by (intro keeps_intros)+

lemma runs_bmap [keeps_intros]: "runs R (bmap e i k a)"
proof -
  have leaf: "runs R (bmap_leaf e i t k a)" for i t k unfolding bmap_leaf_def by (intro keeps_intros)
  then have "runs R (bmap_single e i r a)" "runs R (bmap_inner e i r a)" for i r
    unfolding bmap_single_def bmap_inner_def by (intro keeps_intros leaf)+
  then show ?thesis unfolding bmap_def bmap_direct_def by (intro keeps_intros)
qed

lemma runs_remove [keeps_intros]: "runs R (remove_mapped_block e i k)"
  unfolding remove_mapped_block_def remove_direct_def remove_single_def remove_double_def drop_pointer_def
  by (intro keeps_intros)

lemma runs_remove_blocks [keeps_intros]: "runs R (remove_blocks e i ks)"
  by (induction ks arbitrary: i) (auto intro!: keeps_intros)

lemma runs_free_all [keeps_intros]: "runs R (free_all_blocks e i)"
  unfolding free_all_blocks_def by (intro keeps_intros)

lemma runs_write_loop [keeps_intros]: "runs R (write_loop e i pos data consumed)"
proof (induction "length data - consumed" arbitrary: i pos consumed rule: less_induct)
  case less
  show ?case
  proof (cases "consumed < length data")
    case True
    then have lt: "length data - (consumed + min (length data - consumed) (UB - pos mod UB)) < length data - consumed"
      using step_positive [of "length data - consumed" pos] by linarith
    show ?thesis
      by (subst write_loop.simps) (simp only: True if_True Let_def, intro keeps_intros less.hyps lt)
  next
    case False
    then show ?thesis by (subst write_loop.simps) (simp add: keeps_intros)
  qed
qed

lemma runs_read_loop [keeps_intros]: "runs R (read_loop e i pos n acc)"
proof (induction "n - pos" arbitrary: i pos acc rule: less_induct)
  case less
  show ?case
  proof (cases "pos < n")
    case True
    then have lt: "n - (pos + min (n - pos) (UB - pos mod UB)) < n - pos"
      using step_positive [of "n - pos" pos] by linarith
    show ?thesis
      by (subst read_loop.simps) (simp only: True if_True Let_def, intro keeps_intros less.hyps lt)
  next
    case False
    then show ?thesis by (subst read_loop.simps) (simp add: keeps_intros)
  qed
qed

lemma runs_bump [keeps_intros]: "runs R (bump_directory e ino i)"
  unfolding bump_directory_def by (intro keeps_intros)

lemma runs_entries [keeps_intros]: "runs R (entries_loop e i ks)"
  by (induction ks arbitrary: i) (auto intro!: keeps_intros)

lemma runs_add_loop [keeps_intros]: "runs R (add_loop e p pi i name t needed ks)"
  by (induction ks arbitrary: pi) (auto intro!: keeps_intros)

lemma runs_remove_loop [keeps_intros]: "runs R (remove_loop e p pi name ks)"
  by (induction ks arbitrary: pi) (auto intro!: keeps_intros)

lemma runs_directories [keeps_intros]:
  "runs R (lookup e p name)" "runs R (readdir e p)" "runs R (add_dir_entry e p i name t)"
  "runs R (remove_dir_entry e p name)" "runs R (update_dotdot e di q)"
  unfolding lookup_def readdir_def directory_entries_def add_dir_entry_def remove_dir_entry_def
    update_dotdot_def Let_def by (intro keeps_intros)+

lemma runs_read_file [keeps_intros]: "runs R (read_file e i offset n)"
  unfolding read_file_def Let_def by (intro keeps_intros)

end


subsection \<open>The operations with their \<open>sync\<close>\<close>

locale album_sessions = album_programs R for R :: "'a album_scheme \<Rightarrow> 'a album_scheme \<Rightarrow> bool" +
  fixes e :: ext
  assumes written_back: "R s (snd (flush e s))"
begin

lemma runs_flush [keeps_intros]: "runs R (flush e)"
  by (simp add: runs_def written_back)

lemma runs_sync [keeps_intros]: "runs R (sync e)"
  unfolding sync_def by (intro keeps_intros)

lemma runs_files:
  "runs R (write_file e i offset data)" "runs R (truncate_file e i n)"
  unfolding write_file_def truncate_file_def Let_def by (intro keeps_intros)+

lemma runs_making:
  "runs R (create_file e p name mode)" "runs R (mkdir e p name mode)"
  unfolding create_file_def mkdir_def Let_def by (intro keeps_intros)+

lemma runs_removing [keeps_intros]:
  "runs R (unlink e p name)" "runs R (rmdir e p name)"
  unfolding unlink_def rmdir_def Let_def by (intro keeps_intros)+

lemma runs_rename: "runs R (rename_entry e p name q new)"
  unfolding rename_entry_def Let_def by (intro keeps_intros)

end

end
