(* ===== verification/Static.thy ===== *)
theory Static
  imports Sync Programs
begin

text \<open>
  What only a flush changes, if anything: the files and their listing, the paths and ranges of the carriers, and the keys. No other
  operation touches them, so whether the carriers can be written back does not depend on what was
  done to the blocks.
\<close>

definition static :: "'a store_scheme \<Rightarrow>
    (path \<times> u32 \<times> bool \<times> u64 \<times> u64) list \<times> u64 \<times> bool \<times> bytes option \<times> bytes option \<times> files \<times> path list" where
  "static s = (map (\<lambda>c. (cs_path c, cs_chunk_index c, cs_is_primary c, cs_block_start c, cs_block_count c))
       (bs_carriers s), bs_total_blocks s, bs_encrypted s, bs_cipher s, bs_order_key s, w_files s, w_entries s)"

text \<open>Nor does any other operation take a carrier for written that was not.\<close>

definition dirtier :: "'a store_scheme \<Rightarrow> 'a store_scheme \<Rightarrow> bool" where
  "dirtier s t \<longleftrightarrow> list_all2 (\<lambda>c d. cs_dirty c \<longrightarrow> cs_dirty d) (bs_carriers s) (bs_carriers t)"

lemma dirtier_refl: "bs_carriers t = bs_carriers s \<Longrightarrow> dirtier s t"
  by (simp add: dirtier_def list_all2_conv_all_nth)

lemma dirtier_trans: "dirtier s t \<Longrightarrow> dirtier t u \<Longrightarrow> dirtier s u"
  by (simp add: dirtier_def list_all2_conv_all_nth)

lemma dirtier_buffer:
  assumes "c = bs_carriers s ! i"
  shows "dirtier s (bs_carriers_update (\<lambda>cs. cs[i := c\<lparr>cs_buffer := b\<rparr>]) s)"
    "dirtier s (bs_carriers_update (\<lambda>cs. cs[i := c\<lparr>cs_buffer := b, cs_dirty := True\<rparr>]) s)"
  using assms by (cases "i < length (bs_carriers s)"; auto simp: dirtier_def list_all2_conv_all_nth nth_list_update)+

text \<open>Loading a payload and writing into it.\<close>

lemma static_buffer:
  assumes "c = bs_carriers s ! i"
  shows "static (bs_carriers_update (\<lambda>cs. cs[i := c\<lparr>cs_buffer := b\<rparr>]) s) = static s"
    "static (bs_carriers_update (\<lambda>cs. cs[i := c\<lparr>cs_buffer := b, cs_dirty := d\<rparr>]) s) = static s"
proof -
  have u: "map g (xs[i := y]) = map g xs" if "g y = g (xs ! i)" for g :: "carrier_slot \<Rightarrow> 'x" and xs y
    unfolding map_update using that by (metis list_update_beyond list_update_id map_update not_le_imp_less nth_map)
  show "static (bs_carriers_update (\<lambda>cs. cs[i := c\<lparr>cs_buffer := b\<rparr>]) s) = static s"
    "static (bs_carriers_update (\<lambda>cs. cs[i := c\<lparr>cs_buffer := b, cs_dirty := d\<rparr>]) s) = static s"
    unfolding static_def using assms by (simp_all add: u)
qed

lemma static_frame:
  fixes s :: "'a store_scheme" and a :: "'b album_scheme"
  shows "static (w_draws_update Suc s) = static s" "static (w_ticks_update Suc s) = static s"
    "static (al_bitmap_update f a) = static a"
  by (simp_all add: static_def)

definition only_blocks :: "'a store_scheme \<Rightarrow> 'a store_scheme \<Rightarrow> bool" where
  "only_blocks s t \<longleftrightarrow> static t = static s \<and> dirtier s t"

interpretation sb: store_programs only_blocks
  by unfold_locales
    (auto simp: only_blocks_def static_buffer dirtier_buffer dirtier_refl static_frame intro: dirtier_trans)

interpretation ab: album_programs "only_blocks :: 'a album_scheme \<Rightarrow> 'a album_scheme \<Rightarrow> bool"
  by unfold_locales (simp add: only_blocks_def static_frame dirtier_refl)

abbreviation keeps :: "('a store_scheme, 'b, 'e) prog \<Rightarrow> bool" where
  "keeps m \<equiv> runs only_blocks m"

lemma keepsD: "keeps m \<Longrightarrow> m s = (r, t) \<Longrightarrow> static t = static s"
  and keeps_dirtier: "keeps m \<Longrightarrow> m s = (r, t) \<Longrightarrow> dirtier s t"
  using runsD by (force simp: only_blocks_def)+

text \<open>
  The carriers can be written back: whatever the blocks hold, as long as nothing else changed, a
  flush succeeds.
\<close>

definition writable :: "ext \<Rightarrow> 'a store_scheme \<Rightarrow> bool" where
  "writable e s \<longleftrightarrow> (\<forall>t :: 'a store_scheme. static t = static s \<longrightarrow> device_ok e t \<longrightarrow> (\<exists>u. flush e t = (Ok (), u)))"

lemma writable_static:
  fixes s t :: "'a store_scheme"
  shows "static t = static s \<Longrightarrow> writable e t = writable e s"
  by (simp add: writable_def)

lemma wp_sync_writable:
  fixes s :: "'a album_scheme"
  assumes laws: "codec_laws e" "jpeg_returns e" and ok: "album_ok e s" and w: "writable e s"
    and Q: "\<And>t. album_ok e t \<Longrightarrow> disk e t = save_bitmap (disk e s) \<Longrightarrow> durable e t \<Longrightarrow> Q () t"
  shows "wp (sync e) Q E s"
proof -
  have "wp (sync e) (\<lambda>r t. album_ok e t \<and> disk e t = save_bitmap (disk e s) \<and> durable e t) (\<lambda>_ _. True) s"
    by (rule wp_sync [OF laws ok]) blast+
  moreover have "\<exists>t. sync e s = (Ok (), t)"
  proof -
    have "wp (write_bitmap e (al_sb s) (al_bitmap s)) (\<lambda>_ t. album_ok e t) no_err s"
      by (rule wp_write_bitmap [OF ok]) blast
    then obtain t where t: "write_bitmap e (al_sb s) (al_bitmap s) s = (Ok (), t)" "album_ok e t"
      unfolding wp_no_err by auto
    have "static t = static s" by (rule keepsD [OF sb.runs_write_bitmap t(1)])
    with w t(2) obtain u where "flush e t = (Ok (), u)" unfolding writable_def album_ok_def by blast
    with t(1) show ?thesis by (simp add: sync_def bind_def run_simps)
  qed
  ultimately show ?thesis using Q by (auto simp: wp_def)
qed


text \<open>A program up to \<open>sync\<close> and the \<open>sync\<close> after it.\<close>

lemma wp_keeps:
  assumes "keeps m" "wp m (\<lambda>x t. static t = static s \<longrightarrow> Q x t) E s"
  shows "wp m Q E s"
  using assms(2) keepsD [OF assms(1), of s] by (auto simp: wp_def split: prod.splits res.splits)

lemma wp_then_sync:
  fixes s :: "'a album_scheme"
  assumes laws: "codec_laws e" "jpeg_returns e" and k: "keeps m"
    and m: "wp m (\<lambda>x t. album_ok e t \<and> R x (save_bitmap (disk e t))) E s"
    and Q: "\<And>x t. album_ok e t \<Longrightarrow> durable e t \<Longrightarrow> R x (disk e t) \<Longrightarrow> Q x () t"
    and E: "\<And>x y t. \<not> writable e s \<Longrightarrow> album_ok e t \<Longrightarrow> R x (disk e t) \<Longrightarrow> E y t"
  shows "wp m (\<lambda>x. wp (sync e) (Q x) E) E s"
proof (rule wp_keeps [OF k], rule wp_conseq [OF m])
  fix x and t :: "'a album_scheme" assume t: "album_ok e t \<and> R x (save_bitmap (disk e t))"
  show "static t = static s \<longrightarrow> wp (sync e) (Q x) E t"
  proof
    assume st: "static t = static s"
    show "wp (sync e) (Q x) E t"
    proof (cases "writable e s")
      case True
      then have w: "writable e t" using writable_static [OF st] by simp
      show ?thesis by (rule wp_sync_writable [OF laws _ w]) (use t Q in auto)
    next
      case False
      show ?thesis by (rule wp_sync [OF laws]) (use t Q E [OF False] in auto)
    qed
  qed
qed

end
