(* ===== verification/FileOps.thy ===== *)
theory FileOps
  imports Edits Static
begin

text \<open>
  \<open>read\<close>, \<open>write\<close> and \<open>truncate\<close> of \<^verbatim>\<open>src/fs/album.rs\<close> against their specification: a file is the
  list of its bytes, and the operations are the ones on lists.
\<close>

subsection \<open>Files\<close>

definition file_ok :: "disk \<Rightarrow> nat \<Rightarrow> bool" where
  "file_ok d n \<longleftrightarrow> ino_ok d n \<and> tree d (inode_at d n) \<and> unat (i_size (inode_at d n)) \<le> MAX_BYTES \<and>
     (\<forall>p < MAX_BYTES. unat (i_size (inode_at d n)) \<le> p \<longrightarrow> byte_at (dk_block d) (inode_at d n) p = 0)"

definition file_data :: "disk \<Rightarrow> nat \<Rightarrow> bytes" where
  "file_data d n = file_bytes (dk_block d) (inode_at d n) 0 (unat (i_size (inode_at d n)))"

definition file_blocks :: "disk \<Rightarrow> nat \<Rightarrow> nat set" where
  "file_blocks d n = tree_blocks (dk_block d) (inode_at d n)"

definition regular :: "disk \<Rightarrow> nat \<Rightarrow> bool" where
  "regular d n \<longleftrightarrow> i_mode (inode_at d n) \<noteq> 0 \<and> \<not> is_dir (inode_at d n)"

lemma file_okD:
  assumes "file_ok d n"
  shows "ino_ok d n" "tree d (inode_at d n)" "unat (i_size (inode_at d n)) \<le> MAX_BYTES"
    "p < MAX_BYTES \<Longrightarrow> unat (i_size (inode_at d n)) \<le> p \<Longrightarrow> byte_at (dk_block d) (inode_at d n) p = 0"
  using assms unfolding file_ok_def by blast+

lemma MAX_BYTES_u64: "MAX_BYTES < 2 ^ 64"
  by (simp add: MAX_BYTES_def MAX_BLOCKS_def PPB_val UB_val)

text \<open>An operation on the file of inode \<open>n\<close> leaves every other inode and its file alone.\<close>

definition only_file :: "nat \<Rightarrow> disk \<Rightarrow> disk \<Rightarrow> bool" where
  "only_file n d d' \<longleftrightarrow> dk_sb d' = dk_sb d \<and>
     (\<forall>m. ino_ok d m \<longrightarrow> m \<noteq> n \<longrightarrow> inode_at d' m = inode_at d m) \<and>
     (\<forall>l. dk_data d \<le> l \<longrightarrow> l \<in> dk_used d \<longrightarrow> l \<notin> file_blocks d n \<longrightarrow>
        l \<in> dk_used d' \<and> dk_block d' l = dk_block d l)"

lemma only_file_other:
  assumes o: "only_file n d d'" and m: "ino_ok d m" "m \<noteq> n" "tree d (inode_at d m)"
    and dis: "file_blocks d m \<inter> file_blocks d n = {}"
  shows "inode_at d' m = inode_at d m" "tree d' (inode_at d' m)" "file_blocks d' m = file_blocks d m"
    "p < MAX_BYTES \<Longrightarrow> byte_at (dk_block d') (inode_at d' m) p = byte_at (dk_block d) (inode_at d m) p"
proof -
  show i: "inode_at d' m = inode_at d m" using o m(1,2) unfolding only_file_def by blast
  have sb: "dk_sb d' = dk_sb d" using o by (simp add: only_file_def)
  have k: "l \<in> dk_used d' \<and> dk_block d' l = dk_block d l" if "l \<in> tree_blocks (dk_block d) (inode_at d m)" for l
  proof -
    have "l \<notin> file_blocks d n" using that dis unfolding file_blocks_def by blast
    then show ?thesis using o tree_data [OF m(3) that] unfolding only_file_def by blast
  qed
  note f = file_frame [OF m(3) sb k]
  show "tree d' (inode_at d' m)" unfolding i by (rule f(1))
  show "file_blocks d' m = file_blocks d m" unfolding file_blocks_def i by (rule f(2))
  show "byte_at (dk_block d') (inode_at d' m) p = byte_at (dk_block d) (inode_at d m) p" if "p < MAX_BYTES"
    unfolding i by (rule f(3) [OF _ that])
qed

lemma only_file_data:
  assumes o: "only_file n d d'" and m: "file_ok d m" "m \<noteq> n"
    and dis: "file_blocks d m \<inter> file_blocks d n = {}"
  shows "file_ok d' m" "file_data d' m = file_data d m"
proof -
  note F = file_okD [OF m(1)]
  note f = only_file_other [OF o F(1) m(2) F(2) dis]
  have "ino_ok d' m" using F(1) o by (simp add: ino_ok_def only_file_def)
  then show "file_ok d' m" unfolding file_ok_def using f F by auto
  show "file_data d' m = file_data d m"
    unfolding file_data_def file_bytes_def f(1)
    by (rule map_cong [OF refl]) (use f(1,4) F(3) in auto)
qed

lemma others_only:
  assumes "others_kept d (inode_at d n) d'" "disk_ok d"
  shows "only_file n d d'"
  using assms others_keptD [OF assms(1)] others_inode [OF assms]
  unfolding only_file_def file_blocks_def by blast


subsection \<open>Storing the inode\<close>

definition publish :: "disk \<Rightarrow> nat \<Rightarrow> inode \<Rightarrow> disk" where
  "publish d n i = save_bitmap (set_inode d n i)"

lemma save_bitmap_inode:
  assumes "disk_ok d" "ino_ok d m"
  shows "inode_at (save_bitmap d) m = inode_at d m"
  using save_bitmap_frame [of d "slot_block (dk_sb d) m"] slot_block_bounds(1) [OF assms]
  by (simp add: inode_at_def)

lemma wp_getattr:
  fixes s :: "'a album_scheme"
  assumes ok: "album_ok e s" and n: "ino_ok (disk e s) (unat ino)"
    and m: "i_mode (inode_at (disk e s) (unat ino)) \<noteq> 0"
    and Q: "\<And>t. album_ok e t \<Longrightarrow> disk e t = disk e s \<Longrightarrow> Q (inode_at (disk e s) (unat ino)) t"
  shows "wp (getattr e ino) Q E s"
  unfolding getattr_def wp_bind by (rule wp_read_inode [OF ok n]) (use m Q in \<open>simp add: wp_simps\<close>)


subsection \<open>Reading\<close>

lemma slice_file_bytes: "slice (file_bytes V i 0 n) a b = file_bytes V i a (min n b)"
proof (rule nth_equalityI)
  fix j assume "j < length (slice (file_bytes V i 0 n) a b)"
  then have "j < b - a" "j < n - a" by simp_all
  then show "slice (file_bytes V i 0 n) a b ! j = file_bytes V i a (min n b) ! j"
    by (simp add: nth_slice nth_file_bytes)
qed simp

lemma wp_read_file:
  fixes s :: "'a album_scheme"
  assumes ok: "album_ok e s" and f: "file_ok (disk e s) (unat ino)" and r: "regular (disk e s) (unat ino)"
    and Q: "\<And>t. album_ok e t \<Longrightarrow> disk e t = disk e s \<Longrightarrow>
      Q (slice (file_data (disk e s) (unat ino)) offset (offset + len)) t"
  shows "wp (read_file e ino offset len) Q E s"
  unfolding read_file_def wp_bind
proof (rule wp_getattr [OF ok file_okD(1) [OF f]])
  let ?d = "disk e s" and ?i = "inode_at (disk e s) (unat ino)"
  let ?n = "unat (i_size ?i)"
  show "i_mode ?i \<noteq> 0" using r by (simp add: regular_def)
  fix t :: "'a album_scheme" assume t: "album_ok e t" "disk e t = ?d"
  have sl: "slice (file_data ?d (unat ino)) offset (offset + len) = file_bytes (dk_block ?d) ?i offset (min ?n (offset + len))"
    by (simp add: file_data_def slice_file_bytes)
  have n64: "?n \<le> MAX64" using unat_u64 [of "i_size ?i"] by (simp add: MAX64_def)
  show "wp (if is_dir ?i then raise IsDir
      else if offset \<ge> ?n \<or> len = 0 then ret []
      else let end_off = min ?n (min (offset + len) MAX64) in read_loop e ?i offset end_off []) Q E t"
  proof (cases "offset \<ge> ?n \<or> len = 0")
    case True
    then have "file_bytes (dk_block ?d) ?i offset (min ?n (offset + len)) = []" by (auto simp: file_bytes_def)
    with Q [OF t] sl True r show ?thesis by (simp add: wp_simps regular_def)
  next
    case False
    have m: "min ?n (min (offset + len) MAX64) = min ?n (offset + len)" using n64 by simp
    have "wp (read_loop e ?i offset (min ?n (offset + len)) []) Q E t"
    proof (rule wp_read_loop [OF t(1)])
      show "tree (disk e t) ?i" using file_okD(2) [OF f] t(2) by simp
      show "offset \<le> min ?n (offset + len)" "min ?n (offset + len) \<le> MAX_BYTES"
        using False file_okD(3) [OF f] by simp_all
      fix u :: "'a album_scheme" assume "album_ok e u" "disk e u = disk e t"
      then show "Q ([] @ file_bytes (dk_block (disk e t)) ?i offset (min ?n (offset + len))) u"
        using Q [of u] t(2) sl by simp
    qed
    then show ?thesis using False m r by (simp add: regular_def)
  qed
qed


subsection \<open>Replacing the contents of a file\<close>

definition overwrite :: "nat \<Rightarrow> bytes \<Rightarrow> bytes \<Rightarrow> bytes" where
  "overwrite offset data xs =
     take offset (xs @ replicate (offset - length xs) 0) @ data @ drop (offset + length data) xs"

definition resize :: "nat \<Rightarrow> bytes \<Rightarrow> bytes" where
  "resize n xs = take n xs @ replicate (n - length xs) 0"

definition changed :: "bytes \<Rightarrow> nat \<Rightarrow> disk \<Rightarrow> disk \<Rightarrow> bool" where
  "changed xs n d d' \<longleftrightarrow> only_file n d d' \<and> file_ok d' n \<and> file_data d' n = xs \<and>
     i_mode (inode_at d' n) = i_mode (inode_at d n) \<and> i_nlink (inode_at d' n) = i_nlink (inode_at d n) \<and>
     file_blocks d' n \<inter> dk_used d \<subseteq> file_blocks d n"

text \<open>The same with the bitmap on disk up to date, as \<open>sync\<close> leaves it.\<close>

definition replaced :: "bytes \<Rightarrow> nat \<Rightarrow> disk \<Rightarrow> disk \<Rightarrow> bool" where
  "replaced xs n d d' \<longleftrightarrow> changed xs n d d' \<and> bm_saved d'"

lemma wp_ret: "wp (ret x) Q E = Q x"
  by (rule ext) (simp add: wp_prim)

lemma inode_cong:
  assumes "i_direct i' = i_direct i" "i_single i' = i_single i" "i_double i' = i_double i"
  shows "byte_at V i' p = byte_at V i p" "tree_blocks V i' = tree_blocks V i"
  by (simp_all only: byte_at_def logical_def mapped_def tree_blocks_def ptr_inode_cong [OF assms])

lemma changedI:
  assumes ok: "disk_ok d" and n: "ino_ok d n" and e: "edits P d (inode_at d n) d1 i1" and ok1: "disk_ok d1"
    and cong: "i_direct i2 = i_direct i1" "i_single i2 = i_single i1" "i_double i2 = i_double i1"
    and attrs: "i_mode i2 = i_mode i1" "i_nlink i2 = i_nlink i1"
    and size: "unat (i_size i2) = sz" "sz \<le> MAX_BYTES"
    and zero: "\<And>p. p < MAX_BYTES \<Longrightarrow> sz \<le> p \<Longrightarrow> byte_at (dk_block d1) i1 p = 0"
    and xs: "file_bytes (dk_block d1) i1 0 sz = xs"
  shows "changed xs n d (set_inode d1 n i2)"
proof -
  let ?e = "set_inode d1 n i2"
  note E = editsD [OF e] and O = others_only [OF editsD(1) [OF e] ok]
  have sb: "dk_sb d1 = dk_sb d" by (rule others_keptD(1) [OF E(1)])
  have n1: "ino_ok d1 n" using n by (simp add: ino_ok_def sb)
  have wf: "inode_wf i2" using tree_ok_wf [OF E(2)] cong(1) by (simp add: inode_wf_def)
  note P = set_inode_frame [OF ok1 n1, where i = i2] and A = inode_at_set [OF ok1 n1 _ wf]
  note C = inode_cong [OF cong]
  have i: "inode_at ?e n = i2" using A [OF n1] by simp
  have t2: "tree d1 i2" using E(2) tree_ok_inode_cong [OF cong] by simp
  note B = below_data_frame [OF t2 P(1,2,3)]
  have other: "inode_at ?e m = inode_at d m" if m: "ino_ok d m" "m \<noteq> n" for m
  proof -
    have "ino_ok d1 m" using m by (simp add: ino_ok_def sb)
    then show ?thesis using A m O by (simp add: only_file_def)
  qed
  have "only_file n d ?e"
    unfolding only_file_def using other P(1,2,3) O by (auto simp: only_file_def sb)
  moreover have "file_ok ?e n"
    unfolding file_ok_def i using B n1 size zero C(1) by (simp add: ino_ok_def P(1))
  moreover have "file_data ?e n = xs"
    unfolding file_data_def i size(1) xs [symmetric] file_bytes_def
    by (rule map_cong [OF refl]) (use B(3) C(1) size(2) in simp)
  moreover have "i_mode (inode_at ?e n) = i_mode (inode_at d n)" "i_nlink (inode_at ?e n) = i_nlink (inode_at d n)"
    unfolding i using attrs E(3) by (simp_all add: same_attrs_def)
  moreover have "file_blocks ?e n \<inter> dk_used d \<subseteq> file_blocks d n"
    unfolding file_blocks_def i using E(4) B(2) C(2) by simp
  ultimately show ?thesis by (simp add: changed_def)
qed

text \<open>What stands behind the bitmap blocks is as it was before they were written.\<close>

lemma save_bitmap_file:
  assumes ok: "disk_ok d" and n: "ino_ok d n" "tree d (inode_at d n)"
  shows "inode_at (save_bitmap d) n = inode_at d n" "tree (save_bitmap d) (inode_at d n)"
    "file_blocks (save_bitmap d) n = file_blocks d n"
    "p < MAX_BYTES \<Longrightarrow> byte_at (dk_block (save_bitmap d)) (inode_at d n) p = byte_at (dk_block d) (inode_at d n) p"
proof -
  show i: "inode_at (save_bitmap d) n = inode_at d n" by (rule save_bitmap_inode [OF ok n(1)])
  have "dk_block (save_bitmap d) l = dk_block d l" if "dk_data d \<le> l" for l
    by (rule save_bitmap_frame) (use that ok in \<open>simp add: disk_ok_def regions_ok_def\<close>)
  note B = below_data_frame [OF n(2) save_bitmap_sel this]
  show "tree (save_bitmap d) (inode_at d n)" by (rule B(1)) simp
  show "file_blocks (save_bitmap d) n = file_blocks d n"
    unfolding file_blocks_def i by (rule B(2)) simp
  show "byte_at (dk_block (save_bitmap d)) (inode_at d n) p = byte_at (dk_block d) (inode_at d n) p" if "p < MAX_BYTES"
    by (rule B(3) [OF _ that])
qed

lemma save_bitmap_data:
  assumes ok: "disk_ok d" and f: "file_ok d n"
  shows "file_ok (save_bitmap d) n" "file_data (save_bitmap d) n = file_data d n"
proof -
  note F = file_okD [OF f]
  note B = save_bitmap_file [OF ok F(1,2)]
  show "file_ok (save_bitmap d) n" unfolding file_ok_def B(1) using B F by (auto simp: ino_ok_def)
  show "file_data (save_bitmap d) n = file_data d n"
    unfolding file_data_def file_bytes_def B(1)
    by (rule map_cong [OF refl]) (use B(4) F(3) in auto)
qed

lemma changed_saved:
  assumes c: "changed xs n d d'" and ok: "disk_ok d'"
  shows "replaced xs n d (save_bitmap d')"
proof -
  from c have f: "file_ok d' n" and o: "only_file n d d'" by (simp_all add: changed_def)
  note B = save_bitmap_file [OF ok file_okD(1,2) [OF f]] and D = save_bitmap_data [OF ok f]
  have td: "dk_table d' \<le> dk_data d'" "dk_sb d' = dk_sb d"
    using ok o by (simp_all add: disk_ok_def regions_ok_def only_file_def)
  have "inode_at (save_bitmap d') m = inode_at d m" if m: "ino_ok d m" "m \<noteq> n" for m
    using save_bitmap_inode [OF ok, of m] m o by (simp add: only_file_def ino_ok_def)
  then have "only_file n d (save_bitmap d')"
    using o td save_bitmap_frame [of d'] by (simp add: only_file_def)
  with c B(1,3) D show ?thesis by (simp add: replaced_def changed_def)
qed

lemma replacedI:
  assumes ok: "disk_ok d" and n: "ino_ok d n" and e: "edits P d (inode_at d n) d1 i1" and ok1: "disk_ok d1"
    and cong: "i_direct i2 = i_direct i1" "i_single i2 = i_single i1" "i_double i2 = i_double i1"
    and attrs: "i_mode i2 = i_mode i1" "i_nlink i2 = i_nlink i1"
    and size: "unat (i_size i2) = sz" "sz \<le> MAX_BYTES"
    and zero: "\<And>p. p < MAX_BYTES \<Longrightarrow> sz \<le> p \<Longrightarrow> byte_at (dk_block d1) i1 p = 0"
    and xs: "file_bytes (dk_block d1) i1 0 sz = xs"
  shows "replaced xs n d (publish d1 n i2)"
  unfolding publish_def
proof (rule changed_saved [OF changedI [OF assms]])
  have "inode_wf i2" using tree_ok_wf [OF editsD(2) [OF e]] cong(1) by (simp add: inode_wf_def)
  moreover have "ino_ok d1 n" using n others_keptD(1) [OF editsD(1) [OF e]] by (simp add: ino_ok_def)
  ultimately show "disk_ok (set_inode d1 n i2)" using set_inode_ok [OF ok1] by blast
qed


subsection \<open>Writing\<close>

text \<open>The bytes of the file after the loop.\<close>

lemma overwrite_bytes:
  assumes new: "\<And>p. p < MAX_BYTES \<Longrightarrow> byte_at V' i' p =
      (case written offset data p of Some b \<Rightarrow> b | None \<Rightarrow> byte_at V i p)"
    and zero: "\<And>p. p < MAX_BYTES \<Longrightarrow> n \<le> p \<Longrightarrow> byte_at V i p = 0" and n: "n \<le> MAX_BYTES"
    and m: "m = max n (offset + length data)" "m \<le> MAX_BYTES"
  shows "file_bytes V' i' 0 m = overwrite offset data (file_bytes V i 0 n)"
    "p < MAX_BYTES \<Longrightarrow> m \<le> p \<Longrightarrow> byte_at V' i' p = 0"
proof -
  let ?xs = "file_bytes V i 0 n"
  show "file_bytes V' i' 0 m = overwrite offset data ?xs"
  proof (rule nth_equalityI)
    show "length (file_bytes V' i' 0 m) = length (overwrite offset data ?xs)"
      by (auto simp: overwrite_def m(1) max_def)
    fix j assume "j < length (file_bytes V' i' 0 m)"
    then have j: "j < m" "j < MAX_BYTES" using m(2) by simp_all
    have lim: "j < n \<or> j < offset + length data" using j(1) m(1) by linarith
    have old: "?xs ! j = byte_at V i j" if "j < n" using that by (simp add: nth_file_bytes)
    have "overwrite offset data ?xs ! j = (if offset \<le> j \<and> j < offset + length data then data ! (j - offset)
        else if j < n then ?xs ! j else 0)"
      using lim by (auto simp: overwrite_def nth_append min_def add.commute)
    then show "file_bytes V' i' 0 m ! j = overwrite offset data ?xs ! j"
      using new [OF j(2)] zero [OF j(2)] old j(1) by (auto simp: nth_file_bytes written_def)
  qed
  show "byte_at V' i' p = 0" if "p < MAX_BYTES" "m \<le> p"
    using new [OF that(1)] zero [OF that(1)] that(2) m(1) by (simp add: written_def)
qed

text \<open>\<open>write\<close> up to \<open>sync\<close>.\<close>

definition write_data ::
    "ext \<Rightarrow> u64 \<Rightarrow> nat \<Rightarrow> bytes \<Rightarrow> ('a album_scheme, unit, fs_error) prog" where
  "write_data e ino offset data =
     bind (getattr e ino) (\<lambda>inode.
     if is_dir inode then raise IsDir
     else if offset + length data > MAX64 then raise (Manifest ''file offset overflow'')
     else
       bind (write_loop e inode offset data 0) (\<lambda>inode.
       bind (now e) (\<lambda>timestamp.
       write_inode e ino ((if offset + length data > unat (i_size inode)
           then inode\<lparr>i_size := of_nat (offset + length data)\<rparr> else inode)
         \<lparr>i_mtime := timestamp, i_ctime := timestamp\<rparr>))))"

lemma write_file_split:
  "write_file e ino offset data = bind (write_data e ino offset data) (\<lambda>_. bind (sync e) (\<lambda>_. ret (length data)))"
  by (simp add: write_file_def write_data_def bind_assoc bind_raise bind_if_distrib Let_def cong: if_cong)

lemma keeps_write_data: "keeps (write_data e ino offset data)"
  unfolding write_data_def by (intro keeps_intros)

lemma wp_write_data:
  fixes s :: "'a album_scheme"
  assumes ok: "album_ok e s" and f: "file_ok (disk e s) (unat ino)" and r: "regular (disk e s) (unat ino)"
    and rng: "offset + length data \<le> MAX_BYTES"
    and Q: "\<And>t. album_ok e t \<Longrightarrow> replaced (overwrite offset data (file_data (disk e s) (unat ino)))
      (unat ino) (disk e s) (save_bitmap (disk e t)) \<Longrightarrow> Q () t"
    and E: "\<And>t. album_ok e t \<Longrightarrow> only_file (unat ino) (disk e s) (disk e t) \<Longrightarrow>
      card ({dk_data (disk e s)..<dk_total (disk e s)} - dk_used (disk e s)) \<le> 3 * touched offset (length data) \<Longrightarrow>
      E NoSpace t"
  shows "wp (write_data e ino offset data) Q E s"
  unfolding write_data_def wp_bind [of "getattr e ino"]
proof (rule wp_getattr [OF ok file_okD(1) [OF f]])
  let ?d = "disk e s" and ?n = "unat ino"
  let ?i = "inode_at ?d ?n" and ?new = "overwrite offset data (file_data (disk e s) (unat ino))"
  let ?stop = "offset + length data"
  note F = file_okD [OF f] and dk = album_ok_disk [OF ok]
  show "i_mode ?i \<noteq> 0" using r by (simp add: regular_def)
  fix t :: "'a album_scheme" assume t: "album_ok e t" "disk e t = ?d"
  have e64: "\<not> ?stop > MAX64" using rng MAX_BYTES_u64 by (simp add: MAX64_def)
  let ?fin = "\<lambda>inode. bind (now e) (\<lambda>timestamp.
      write_inode e ino ((if ?stop > unat (i_size inode) then inode\<lparr>i_size := of_nat ?stop\<rparr> else inode)
        \<lparr>i_mtime := timestamp, i_ctime := timestamp\<rparr>))"
  have finish: "wp (?fin i1) Q E u"
    if u: "album_ok e u" "edits (written offset data) ?d ?i (disk e u) i1" for i1 and u :: "'a album_scheme"
    unfolding wp_bind
  proof (rule wp_disk_now [OF u(1)])
    fix now and v :: "'a album_scheme" assume v: "album_ok e v" "disk e v = disk e u"
    let ?i2 = "(if ?stop > unat (i_size i1) then i1\<lparr>i_size := of_nat ?stop\<rparr> else i1)\<lparr>i_mtime := now, i_ctime := now\<rparr>"
    let ?m = "max (unat (i_size ?i)) ?stop"
    note Ed = editsD [OF u(2)]
    have sz: "i_size i1 = i_size ?i" using Ed(3) by (simp add: same_attrs_def)
    have m: "unat (i_size ?i2) = ?m" "?m \<le> MAX_BYTES"
      using sz rng F(3) MAX_BYTES_u64 unat_of_nat64 [of ?stop] by (auto simp: max_def)
    note ob = overwrite_bytes [OF Ed(5) F(4) F(3) refl m(2)]
    have rep: "replaced ?new ?n ?d (publish (disk e u) ?n ?i2)"
      by (rule replacedI [OF dk F(1) u(2) album_ok_disk [OF u(1)] _ _ _ _ _ m ob(2)])
        (use ob(1) in \<open>simp_all add: file_data_def\<close>)
    have "ino_ok (disk e v) ?n" using F(1) others_keptD(1) [OF Ed(1)] v(2) by (simp add: ino_ok_def)
    moreover have "inode_wf ?i2" using tree_ok_wf [OF Ed(2)] by (simp add: inode_wf_def)
    ultimately show "wp (write_inode e ino ?i2) Q E v"
      by (rule wp_write_inode [OF v(1)]) (use Q rep v(2) in \<open>auto simp: publish_def\<close>)
  qed
  have "wp (write_loop e ?i offset data 0) (\<lambda>i1. wp (?fin i1) Q E) E t"
  proof (rule wp_write_loop [OF t(1)])
    show "tree (disk e t) ?i" using F(2) t(2) by simp
    show "offset + (length data - 0) \<le> MAX_BYTES" using rng by simp
  next
    fix i1 and u :: "'a album_scheme"
    assume u: "album_ok e u" "updates (3 * touched offset (length data - 0)) (written offset (drop 0 data)) (disk e t) ?i (disk e u) i1"
    have "edits (written offset data) ?d ?i (disk e u) i1"
      using updates_edits [OF F(2)] u(2) t(2) by simp
    from finish [OF u(1) this] show "wp (?fin i1) Q E u" .
  next
    fix u :: "'a album_scheme"
    assume u: "album_ok e u" "spoiled (3 * touched offset (length data - 0)) (disk e t) ?i (disk e u)"
    have sp: "spoiled (3 * touched offset (length data)) ?d ?i (disk e u)" using u(2) t(2) by simp
    have "card ({dk_data ?d..<dk_total ?d} - dk_used ?d) \<le> card (dk_used (disk e u) - dk_used ?d)"
      using spoiledD(3) [OF sp] by (intro card_mono) auto
    then have "card ({dk_data ?d..<dk_total ?d} - dk_used ?d) \<le> 3 * touched offset (length data)"
      using spoiledD(5) [OF sp] by linarith
    then show "E NoSpace u" using E [OF u(1) others_only [OF spoiled_others [OF F(2) sp] dk]] by blast
  qed
  then have run: "wp (bind (write_loop e ?i offset data 0) ?fin) Q E t" by (rule wp_bind [THEN iffD2])
  have nd: "\<not> is_dir ?i" using r by (simp add: regular_def)
  show "wp (if is_dir ?i then raise IsDir
      else if ?stop > MAX64 then raise (Manifest ''file offset overflow'')
      else bind (write_loop e ?i offset data 0) ?fin) Q E t"
    unfolding if_not_P [OF nd] if_not_P [OF e64] using run .
qed

lemma wp_write_file:
  fixes s :: "'a album_scheme"
  assumes laws: "codec_laws e" "jpeg_returns e"
    and ok: "album_ok e s" and f: "file_ok (disk e s) (unat ino)" and r: "regular (disk e s) (unat ino)"
    and rng: "offset + length data \<le> MAX_BYTES"
    and Q: "\<And>t. album_ok e t \<Longrightarrow> durable e t \<Longrightarrow>
      replaced (overwrite offset data (file_data (disk e s) (unat ino))) (unat ino) (disk e s) (disk e t) \<Longrightarrow>
      Q (length data) t"
    and E: "\<And>x t. album_ok e t \<Longrightarrow> (x = NoSpace \<and> only_file (unat ino) (disk e s) (disk e t) \<and>
        card ({dk_data (disk e s)..<dk_total (disk e s)} - dk_used (disk e s)) \<le> 3 * touched offset (length data)) \<or>
      (\<not> writable e s \<and>
        replaced (overwrite offset data (file_data (disk e s) (unat ino))) (unat ino) (disk e s) (disk e t)) \<Longrightarrow> E x t"
  shows "wp (write_file e ino offset data) Q E s"
proof -
  let ?R = "replaced (overwrite offset data (file_data (disk e s) (unat ino))) (unat ino) (disk e s)"
  have "wp (write_data e ino offset data) (\<lambda>_ t. album_ok e t \<and> ?R (save_bitmap (disk e t))) E s"
    by (rule wp_write_data [OF ok f r rng]) (use E in blast)+
  then have "wp (write_data e ino offset data) (\<lambda>_. wp (sync e) (\<lambda>_. Q (length data)) E) E s"
    by (rule wp_then_sync [OF laws keeps_write_data]) (use Q E in blast)+
  then show ?thesis unfolding write_file_split wp_bind wp_ret .
qed

text \<open>A write that ends past the range of the block map fails, and touches no other file.\<close>

lemma wp_write_file_beyond:
  fixes s :: "'a album_scheme"
  assumes ok: "album_ok e s" and f: "file_ok (disk e s) (unat ino)" and r: "regular (disk e s) (unat ino)"
    and d: "data \<noteq> []" and far: "MAX_BYTES < offset + length data"
    and E: "\<And>x t. album_ok e t \<Longrightarrow> only_file (unat ino) (disk e s) (disk e t) \<Longrightarrow>
      (if MAX64 < offset + length data then x = Manifest ''file offset overflow'' \<and> disk e t = disk e s
       else x = NoSpace \<or> x = BadBlock (max MAX_BLOCKS (offset div UB))) \<Longrightarrow> E x t"
  shows "wp (write_file e ino offset data) Q E s"
  unfolding write_file_def wp_bind [of "getattr e ino"]
proof (rule wp_getattr [OF ok file_okD(1) [OF f]])
  let ?d = "disk e s" and ?n = "unat ino"
  let ?i = "inode_at ?d ?n" and ?stop = "offset + length data"
  note F = file_okD [OF f] and dk = album_ok_disk [OF ok]
  show "i_mode ?i \<noteq> 0" using r by (simp add: regular_def)
  fix t :: "'a album_scheme" assume t: "album_ok e t" "disk e t = ?d"
  have nd: "\<not> is_dir ?i" using r by (simp add: regular_def)
  show "wp (if is_dir ?i then raise IsDir
     else
       let end_off = ?stop
       in if end_off > MAX64 then raise (Manifest ''file offset overflow'')
          else
            bind (write_loop e ?i offset data 0) (\<lambda>inode.
            let inode = (if end_off > unat (i_size inode)
                  then inode\<lparr>i_size := of_nat end_off\<rparr> else inode)
            in bind (now e) (\<lambda>timestamp.
               bind (write_inode e ino (inode\<lparr>i_mtime := timestamp, i_ctime := timestamp\<rparr>)) (\<lambda>_.
               bind (sync e) (\<lambda>_.
               ret (length data)))))) Q E t"
  proof (cases "MAX64 < ?stop")
    case True
    then show ?thesis using nd E [OF t(1)] t(2) by (simp add: wp_prim only_file_def)
  next
    case False
    have tt: "tree (disk e t) ?i" using F(2) t(2) by simp
    have kept: "only_file ?n ?d d'" if "others_kept (disk e t) ?i d'" for d'
      by (rule others_only [OF _ dk]) (use that t(2) in simp)
    have "wp (write_loop e ?i offset data 0) R E t" for R
    proof (rule wp_write_loop_beyond [OF t(1) tt d far])
      fix c P i' and u :: "'a album_scheme"
      assume u: "album_ok e u" "updates c P (disk e t) ?i (disk e u) i'"
      have "only_file ?n ?d (disk e u)"
        by (rule kept [OF editsD(1) [OF updates_edits [OF tt u(2)]]])
      then show "E (BadBlock (max MAX_BLOCKS (offset div UB))) u" using E [OF u(1)] False by simp
    next
      fix c and u :: "'a album_scheme"
      assume u: "album_ok e u" "spoiled c (disk e t) ?i (disk e u)"
      have "only_file ?n ?d (disk e u)" by (rule kept [OF spoiled_others [OF tt u(2)]])
      then show "E NoSpace u" using E [OF u(1)] False by simp
    qed
    then show ?thesis using nd False by (simp add: Let_def wp_bind)
  qed
qed

end
