(* ===== verification/FileTrunc.thy ===== *)
theory FileTrunc
  imports FileOps
begin

text \<open>\<open>truncate\<close> of \<^verbatim>\<open>src/fs/album.rs\<close> against its specification.\<close>

subsection \<open>Truncating\<close>

text \<open>After the blocks and the tail were dropped: the bytes from \<open>n\<close> on are zeros.\<close>

definition cut :: "nat \<Rightarrow> disk \<Rightarrow> inode \<Rightarrow> disk \<Rightarrow> inode \<Rightarrow> bool" where
  "cut n d i d' i' \<longleftrightarrow> (\<exists>P. edits P d i d' i') \<and>
     (\<forall>p < MAX_BYTES. byte_at (dk_block d') i' p = (if p < n then byte_at (dk_block d) i p else 0))"

lemma cut_bytes:
  assumes c: "cut n d i d' i'"
    and zero: "\<And>p. p < MAX_BYTES \<Longrightarrow> m \<le> p \<Longrightarrow> byte_at (dk_block d) i p = 0"
    and n: "n \<le> MAX_BYTES"
  shows "file_bytes (dk_block d') i' 0 n = resize n (file_bytes (dk_block d) i 0 m)"
proof (rule nth_equalityI)
  show "length (file_bytes (dk_block d') i' 0 n) = length (resize n (file_bytes (dk_block d) i 0 m))"
    by (simp add: resize_def)
  fix j assume j: "j < length (file_bytes (dk_block d') i' 0 n)"
  then have "byte_at (dk_block d') i' j = byte_at (dk_block d) i j" using c n by (simp add: cut_def)
  then show "file_bytes (dk_block d') i' 0 n ! j = resize n (file_bytes (dk_block d) i 0 m) ! j"
    using j n zero [of j] by (simp add: resize_def nth_append nth_file_bytes)
qed

lemma wp_cut:
  fixes s :: "'a album_scheme"
  assumes ok: "album_ok e s" and t: "tree (disk e s) i" and n: "n < m" "m \<le> MAX_BYTES" "m = unat (i_size i)"
    and zero: "\<And>p. p < MAX_BYTES \<Longrightarrow> m \<le> p \<Longrightarrow> byte_at (dk_block (disk e s)) i p = 0"
    and Q: "\<And>i' t. album_ok e t \<Longrightarrow> cut n (disk e s) i (disk e t) i' \<Longrightarrow> Q i' t"
  shows "wp (bind (remove_blocks e i [div_ceil n UB..<div_ceil m UB]) (\<lambda>inode.
      let tail = n mod UB
      in if tail \<noteq> 0 then
           bind (bmap e inode (div_ceil n UB - 1) False) (\<lambda>(block, inode).
           case block of
             Some block \<Rightarrow>
               bind (read_block e (unat block)) (\<lambda>payload.
               bind (write_block e (unat block) (put payload tail (replicate (length payload - tail) 0))) (\<lambda>_.
               ret inode))
           | None \<Rightarrow> ret inode)
         else ret inode)) Q E s"
  unfolding wp_bind [of "remove_blocks e i [div_ceil n UB..<div_ceil m UB]"] Let_def
proof (rule wp_remove_blocks [OF ok t])
  let ?d = "disk e s" and ?keep = "div_ceil n UB" and ?tail = "n mod UB"
  let ?ks = "set [?keep..<div_ceil m UB]"
  fix i1 and u :: "'a album_scheme" assume u: "album_ok e u" "unmapped ?ks ?d i (disk e u) i1"
  note e1 = unmapped_edits [OF t u(2)]
  note E1 = editsD [OF e1]
  have dku: "disk_ok (disk e u)" by (rule album_ok_disk [OF u(1)])
  have low: "p div UB < ?keep" if "p < n" for p
    using that unfolding less_div_ceil_iff [OF UB_pos] by (metis div_times_less_eq_dividend le_less_trans)
  have high: "byte_at (dk_block (disk e u)) i1 p = 0" if p: "p < MAX_BYTES" "?keep \<le> p div UB" for p
  proof (cases "p div UB < div_ceil m UB")
    case True
    then show ?thesis using E1(5) [OF p(1)] p(2) by simp
  next
    case False
    then have "m \<le> p" unfolding less_div_ceil_iff [OF UB_pos] using div_times_less_eq_dividend [of p UB] by linarith
    then show ?thesis using E1(5) [OF p(1)] zero [OF p(1)] False by simp
  qed
  have same: "byte_at (dk_block (disk e u)) i1 p = byte_at (dk_block ?d) i p" if "p < MAX_BYTES" "p div UB < ?keep" for p
    using E1(5) [OF that(1)] that(2) by simp
  show "wp (if ?tail \<noteq> 0 then
           bind (bmap e i1 (?keep - 1) False) (\<lambda>(block, inode).
           case block of
             Some block \<Rightarrow>
               bind (read_block e (unat block)) (\<lambda>payload.
               bind (write_block e (unat block) (put payload ?tail (replicate (length payload - ?tail) 0))) (\<lambda>_.
               ret inode))
           | None \<Rightarrow> ret inode)
         else ret i1) Q E u"
  proof (cases "?tail = 0")
    case True
    then have "?keep = n div UB" by (simp add: div_ceil_def)
    then have "?keep \<le> p div UB" if "n \<le> p" for p using that by (simp add: div_le_mono)
    then have "cut n ?d i (disk e u) i1" unfolding cut_def using e1 high same low by auto
    then show ?thesis using True Q [OF u(1)] by (simp add: wp_simps)
  next
    case False
    then have keep: "?keep - 1 = n div UB" "?keep = Suc (n div UB)" by (simp_all add: div_ceil_def)
    have k: "n div UB < MAX_BLOCKS" by (rule in_max_bytes) (use n in simp)
    have tail: "?tail < UB" by simp
    let ?b = "mapped (dk_block (disk e u)) i1 (n div UB)"
    have block: "p div UB = n div UB" if "n \<le> p" "\<not> ?keep \<le> p div UB" for p
      using that div_le_mono [OF that(1), of UB] keep(2) by linarith
    have hole: "wp (ret i1) Q E v" if v: "album_ok e v" "disk e v = disk e u" and b: "?b = 0" for v :: "'a album_scheme"
    proof -
      have "byte_at (dk_block (disk e u)) i1 p = 0" if "p < MAX_BYTES" "n \<le> p" for p
      proof (cases "?keep \<le> p div UB")
        case False
        then have "p div UB = n div UB" by (rule block [OF that(2)])
        then show ?thesis using b by (simp add: byte_at_def logical_def zeros_def)
      qed (use high that in simp)
      then have "cut n ?d i (disk e v) i1" unfolding cut_def v(2) using e1 same low by auto
      then show ?thesis using Q [OF v(1)] by (simp add: wp_simps)
    qed
    have full: "wp (bind (read_block e (unat ?b)) (\<lambda>payload.
        bind (write_block e (unat ?b) (put payload ?tail (replicate (length payload - ?tail) 0))) (\<lambda>_. ret i1))) Q E v"
      if v: "album_ok e v" "disk e v = disk e u" and b: "?b \<noteq> 0" for v :: "'a album_scheme"
      unfolding wp_bind
    proof (rule wp_disk_read [OF v(1)])
      have lt: "unat ?b < dk_total (disk e u)" by (rule mapped_used(3) [OF E1(2) k b])
      then show "unat ?b < dk_total (disk e v)" using v(2) by simp
      let ?p = "dk_block (disk e u) (unat ?b)"
      let ?c = "put ?p ?tail (replicate (length ?p - ?tail) 0)"
      have len: "length ?p = UB" using dku lt by (simp add: disk_ok_def blocks_full_def)
      then have lc: "length ?c = UB" using tail by simp
      fix w :: "'a album_scheme" assume w: "album_ok e w" "disk e w = disk e v"
      have "wp (write_block e (unat ?b) ?c) (\<lambda>_. wp (ret i1) Q E) E w"
      proof (rule wp_disk_write [OF w(1)])
        show "unat ?b \<noteq> 0" "unat ?b < dk_total (disk e w)" "length ?c \<le> UB" using lt lc v(2) w(2) b by (simp_all add: unat_gt_0)
        fix x :: "'a album_scheme"
        assume x: "album_ok e x" "disk e x = (disk e w)\<lparr>dk_block := (dk_block (disk e w))(unat ?b := pad ?c)\<rparr>"
        have dx: "disk e x = (disk e u)\<lparr>dk_block := (dk_block (disk e u))(unat ?b := put ?p ?tail (replicate (UB - ?tail) 0))\<rparr>"
          using x(2) w(2) v(2) pad_eq [OF eq_imp_le [OF lc]] lc len by simp
        have up: "updates 0 (written n (replicate (UB - ?tail) 0)) (disk e u) i1 (disk e x) i1"
          by (rule updates_block [OF dku E1(2) k b _ dx]) (use tail in simp)
        note e2 = updates_edits [OF E1(2) up]
        have "byte_at (dk_block (disk e x)) i1 p = (if p < n then byte_at (dk_block ?d) i p else 0)"
          if p: "p < MAX_BYTES" for p
        proof (cases "p < n")
          case True
          then show ?thesis using editsD(5) [OF e2 p] same [OF p low [OF True]] by (simp add: written_def)
        next
          case False
          show ?thesis
          proof (cases "?keep \<le> p div UB")
            case True
            then show ?thesis using editsD(5) [OF e2 p] high [OF p] False by (simp add: written_def)
          next
            case ne: False
            then have "p div UB = n div UB" using block False by simp
            then have "p = n div UB * UB + p mod UB" by (metis div_mult_mod_eq)
            moreover have "p mod UB < UB" by simp
            ultimately have "p < n + (UB - ?tail)" using div_mult_mod_eq [of n UB] tail by linarith
            then show ?thesis using editsD(5) [OF e2 p] False by (simp add: written_def)
          qed
        qed
        then have "cut n ?d i (disk e x) i1" unfolding cut_def using edits_trans [OF e1 e2] by blast
        then show "wp (ret i1) Q E x" using Q [OF x(1)] by (simp add: wp_simps)
      qed
      then show "wp (write_block e (unat ?b) (put (dk_block (disk e v) (unat ?b)) ?tail
          (replicate (length (dk_block (disk e v) (unat ?b)) - ?tail) 0))) (\<lambda>_. wp (ret i1) Q E) E w"
        using v(2) by simp
    qed
    have "wp (bmap e i1 (n div UB) False) (\<lambda>(block, inode). wp (case block of
        Some block \<Rightarrow> bind (read_block e (unat block)) (\<lambda>payload.
          bind (write_block e (unat block) (put payload ?tail (replicate (length payload - ?tail) 0))) (\<lambda>_. ret inode))
      | None \<Rightarrow> ret inode) Q E) E u"
      by (rule wp_bmap_lookup [OF u(1) E1(2) k]) (use hole full in \<open>auto simp: then_some_def\<close>)
    then show ?thesis using False keep(1) by (simp add: wp_bind case_prod_beta')
  qed
qed

text \<open>\<open>truncate\<close> up to \<open>sync\<close>.\<close>

definition truncate_data ::
    "ext \<Rightarrow> u64 \<Rightarrow> nat \<Rightarrow> ('a album_scheme, unit, fs_error) prog" where
  "truncate_data e ino new_size =
     bind (getattr e ino) (\<lambda>inode.
     if is_dir inode then raise IsDir
     else
       bind
         (if new_size < unat (i_size inode) then
            let keep_blocks = div_ceil new_size UB;
                old_blocks = div_ceil (unat (i_size inode)) UB
            in bind (remove_blocks e inode [keep_blocks..<old_blocks]) (\<lambda>inode.
               let tail = new_size mod UB
               in if tail \<noteq> 0 then
                    bind (bmap e inode (keep_blocks - 1) False) (\<lambda>(block, inode).
                    case block of
                      Some block \<Rightarrow>
                        bind (read_block e (unat block)) (\<lambda>payload.
                        bind (write_block e (unat block)
                            (put payload tail (replicate (length payload - tail) 0))) (\<lambda>_.
                        ret inode))
                    | None \<Rightarrow> ret inode)
                  else ret inode)
          else ret inode) (\<lambda>inode.
       bind (now e) (\<lambda>t.
       write_inode e ino (inode\<lparr>i_size := of_nat new_size, i_mtime := t, i_ctime := t\<rparr>))))"

lemma truncate_file_split:
  "truncate_file e ino n = bind (truncate_data e ino n) (\<lambda>_. sync e)"
  unfolding truncate_file_def truncate_data_def bind_assoc bind_if_distrib bind_raise ..

lemma keeps_truncate_data: "keeps (truncate_data e ino n)"
  unfolding truncate_data_def by (intro keeps_intros)

lemma wp_truncate_data:
  fixes s :: "'a album_scheme"
  assumes ok: "album_ok e s" and f: "file_ok (disk e s) (unat ino)" and r: "regular (disk e s) (unat ino)"
    and n: "n \<le> MAX_BYTES"
    and Q: "\<And>t. album_ok e t \<Longrightarrow>
      replaced (resize n (file_data (disk e s) (unat ino))) (unat ino) (disk e s) (save_bitmap (disk e t)) \<Longrightarrow> Q () t"
  shows "wp (truncate_data e ino n) Q E s"
  unfolding truncate_data_def wp_bind [of "getattr e ino"]
proof (rule wp_getattr [OF ok file_okD(1) [OF f]])
  let ?d = "disk e s" and ?n = "unat ino"
  let ?i = "inode_at ?d ?n" and ?new = "resize n (file_data (disk e s) (unat ino))"
  let ?m = "unat (i_size ?i)"
  note F = file_okD [OF f] and dk = album_ok_disk [OF ok]
  show "i_mode ?i \<noteq> 0" using r by (simp add: regular_def)
  fix t :: "'a album_scheme" assume t: "album_ok e t" "disk e t = ?d"
  let ?fin = "\<lambda>inode. bind (now e) (\<lambda>t.
       write_inode e ino (inode\<lparr>i_size := of_nat n, i_mtime := t, i_ctime := t\<rparr>))"
  have finish: "wp (?fin i1) Q E u"
    if u: "album_ok e u" "cut n ?d ?i (disk e u) i1" for i1 and u :: "'a album_scheme"
    unfolding wp_bind
  proof (rule wp_disk_now [OF u(1)])
    fix now and v :: "'a album_scheme" assume v: "album_ok e v" "disk e v = disk e u"
    let ?i2 = "i1\<lparr>i_size := of_nat n, i_mtime := now, i_ctime := now\<rparr>"
    obtain P where P: "edits P ?d ?i (disk e u) i1" using u(2) unfolding cut_def by blast
    note Ed = editsD [OF P]
    have sz: "unat (i_size ?i2) = n" using n MAX_BYTES_u64 unat_of_nat64 [of n] by simp
    have rep: "replaced ?new ?n ?d (publish (disk e u) ?n ?i2)"
      by (rule replacedI [OF dk F(1) P album_ok_disk [OF u(1)] _ _ _ _ _ sz n])
        (use u(2) cut_bytes [OF u(2) F(4) n] in \<open>simp_all add: file_data_def cut_def\<close>)
    have "ino_ok (disk e v) ?n" using F(1) others_keptD(1) [OF Ed(1)] v(2) by (simp add: ino_ok_def)
    moreover have "inode_wf ?i2" using tree_ok_wf [OF Ed(2)] by (simp add: inode_wf_def)
    ultimately show "wp (write_inode e ino ?i2) Q E v"
      by (rule wp_write_inode [OF v(1)]) (use Q rep v(2) in \<open>auto simp: publish_def\<close>)
  qed
  let ?shrink = "\<lambda>i. bind (remove_blocks e i [div_ceil n UB..<div_ceil ?m UB]) (\<lambda>inode.
      let tail = n mod UB
      in if tail \<noteq> 0 then
           bind (bmap e inode (div_ceil n UB - 1) False) (\<lambda>(block, inode).
           case block of
             Some block \<Rightarrow>
               bind (read_block e (unat block)) (\<lambda>payload.
               bind (write_block e (unat block) (put payload tail (replicate (length payload - tail) 0))) (\<lambda>_.
               ret inode))
           | None \<Rightarrow> ret inode)
         else ret inode)"
  have "wp (if n < ?m then ?shrink ?i else ret ?i) (\<lambda>i. wp (?fin i) Q E) E t"
  proof (cases "n < ?m")
    case True
    have "wp (?shrink ?i) (\<lambda>i. wp (?fin i) Q E) E t"
      by (rule wp_cut [OF t(1) _ True F(3) refl]) (use F(2,4) t(2) finish in simp_all)
    with True show ?thesis by simp
  next
    case False
    have z: "byte_at (dk_block ?d) ?i p = 0" if "p < MAX_BYTES" "n \<le> p" for p
      by (rule F(4)) (use that False in simp_all)
    then have "cut n ?d ?i (disk e t) ?i" unfolding cut_def t(2) using edits_refl [OF F(2)] by auto
    from finish [OF t(1) this] False show ?thesis by (simp add: wp_prim)
  qed
  then have run: "wp (bind (if n < ?m then ?shrink ?i else ret ?i) ?fin) Q E t" by (rule wp_bind [THEN iffD2])
  have nd: "\<not> is_dir ?i" using r by (simp add: regular_def)
  show "wp (if is_dir ?i then raise IsDir
      else bind (if n < ?m then
            let keep_blocks = div_ceil n UB; old_blocks = div_ceil ?m UB
            in bind (remove_blocks e ?i [keep_blocks..<old_blocks]) (\<lambda>inode.
               let tail = n mod UB
               in if tail \<noteq> 0 then
                    bind (bmap e inode (keep_blocks - 1) False) (\<lambda>(block, inode).
                    case block of
                      Some block \<Rightarrow>
                        bind (read_block e (unat block)) (\<lambda>payload.
                        bind (write_block e (unat block) (put payload tail (replicate (length payload - tail) 0))) (\<lambda>_.
                        ret inode))
                    | None \<Rightarrow> ret inode)
                  else ret inode)
          else ret ?i) ?fin) Q E t"
    unfolding if_not_P [OF nd] Let_def using run [unfolded Let_def] .
qed

lemma wp_truncate_file:
  fixes s :: "'a album_scheme"
  assumes laws: "codec_laws e" "jpeg_returns e"
    and ok: "album_ok e s" and f: "file_ok (disk e s) (unat ino)" and r: "regular (disk e s) (unat ino)"
    and n: "n \<le> MAX_BYTES"
    and Q: "\<And>t. album_ok e t \<Longrightarrow> durable e t \<Longrightarrow>
      replaced (resize n (file_data (disk e s) (unat ino))) (unat ino) (disk e s) (disk e t) \<Longrightarrow> Q () t"
    and E: "\<And>x t. \<not> writable e s \<Longrightarrow> album_ok e t \<Longrightarrow>
      replaced (resize n (file_data (disk e s) (unat ino))) (unat ino) (disk e s) (disk e t) \<Longrightarrow> E x t"
  shows "wp (truncate_file e ino n) Q E s"
proof -
  let ?R = "replaced (resize n (file_data (disk e s) (unat ino))) (unat ino) (disk e s)"
  have "wp (truncate_data e ino n) (\<lambda>_ t. album_ok e t \<and> ?R (save_bitmap (disk e t))) E s"
    by (rule wp_truncate_data [OF ok f r n]) blast
  then have "wp (truncate_data e ino n) (\<lambda>_. wp (sync e) Q E) E s"
    by (rule wp_then_sync [OF laws keeps_truncate_data]) (use Q E in blast)+
  then show ?thesis unfolding truncate_file_split wp_bind .
qed

end
