(* ===== verification/FileSpec.thy ===== *)
theory FileSpec
  imports FileTrunc
begin

text \<open>
  The contract of the operations on files: reading, writing and truncating are the operations on
  lists of bytes, they leave every other file alone, keep the volume intact, and what they wrote is
  found again when the album is opened anew.
\<close>

subsection \<open>The volume\<close>

definition inode_used :: "disk \<Rightarrow> nat \<Rightarrow> bool" where
  "inode_used d n \<longleftrightarrow> ino_ok d n \<and> i_mode (inode_at d n) \<noteq> 0"

text \<open>Every inode in use has an intact file, and no two files share a block.\<close>

definition volume_ok :: "disk \<Rightarrow> bool" where
  "volume_ok d \<longleftrightarrow> (\<forall>n. inode_used d n \<longrightarrow> file_ok d n) \<and>
     (\<forall>n m. inode_used d n \<longrightarrow> inode_used d m \<longrightarrow> n \<noteq> m \<longrightarrow> file_blocks d n \<inter> file_blocks d m = {})"

lemma volume_okD:
  assumes "volume_ok d"
  shows "inode_used d n \<Longrightarrow> file_ok d n"
    "inode_used d n \<Longrightarrow> inode_used d m \<Longrightarrow> n \<noteq> m \<Longrightarrow> file_blocks d n \<inter> file_blocks d m = {}"
  using assms unfolding volume_ok_def by blast+

lemma regular_used: "file_ok d n \<Longrightarrow> regular d n \<Longrightarrow> inode_used d n"
  by (simp add: inode_used_def regular_def file_ok_def)

lemma file_blocks_used: "file_ok d n \<Longrightarrow> file_blocks d n \<subseteq> dk_used d"
  using tree_data file_okD(2) unfolding file_blocks_def by blast

lemma changedD:
  assumes "changed xs n d d'"
  shows "only_file n d d'" "file_ok d' n" "file_data d' n = xs"
    "i_mode (inode_at d' n) = i_mode (inode_at d n)" "i_nlink (inode_at d' n) = i_nlink (inode_at d n)"
    "file_blocks d' n \<inter> dk_used d \<subseteq> file_blocks d n"
  using assms by (simp_all add: changed_def)

lemma replacedD:
  assumes "replaced xs n d d'"
  shows "changed xs n d d'" "only_file n d d'" "file_ok d' n" "file_data d' n = xs" "bm_saved d'"
  using assms by (simp_all add: replaced_def changed_def)

lemma only_file_used:
  assumes "only_file n d d'" "m \<noteq> n"
  shows "inode_used d' m = inode_used d m"
  using assms by (auto simp: only_file_def inode_used_def ino_ok_def)

lemma changed_used:
  assumes r: "changed xs n d d'"
  shows "inode_used d' m = inode_used d m"
proof (cases "m = n")
  case True
  have "ino_ok d' n = ino_ok d n" using changedD(1) [OF r] by (simp add: only_file_def ino_ok_def)
  then show ?thesis using changedD(4) [OF r] True by (simp add: inode_used_def)
qed (rule only_file_used [OF changedD(1) [OF r]])

lemma changed_volume:
  assumes v: "volume_ok d" and n: "inode_used d n" and r: "changed xs n d d'"
  shows "volume_ok d'"
proof -
  note R = changedD [OF r] and f = volume_okD(1) [OF v n]
  note lv = changed_used [OF r]
  have other: "file_ok d' m" "file_blocks d' m = file_blocks d m" if m: "inode_used d m" "m \<noteq> n" for m
  proof -
    note fm = volume_okD(1) [OF v m(1)] and dis = volume_okD(2) [OF v m(1) n m(2)]
    show "file_ok d' m" by (rule only_file_data(1) [OF R(1) fm m(2) dis])
    show "file_blocks d' m = file_blocks d m"
      by (rule only_file_other(3) [OF R(1) file_okD(1) [OF fm] m(2) file_okD(2) [OF fm] dis])
  qed
  have apart: "file_blocks d' n \<inter> file_blocks d m = {}" if m: "inode_used d m" "m \<noteq> n" for m
    using R(6) file_blocks_used [OF volume_okD(1) [OF v m(1)]] volume_okD(2) [OF v m(1) n m(2)] by blast
  have "file_blocks d' m \<inter> file_blocks d' k = {}" if "inode_used d m" "inode_used d k" "m \<noteq> k" for m k
  proof (cases "m = n \<or> k = n")
    case True
    then show ?thesis using apart other(2) that by (metis inf_commute)
  next
    case False
    then show ?thesis using other(2) volume_okD(2) [OF v that] that by simp
  qed
  moreover have "file_ok d' m" if "inode_used d m" for m using other(1) R(2) that by metis
  ultimately show ?thesis by (simp add: volume_ok_def lv)
qed

lemma read_file_run:
  fixes s :: "'a album_scheme"
  assumes "album_ok e s" "file_ok (disk e s) (unat ino)" "regular (disk e s) (unat ino)"
  shows "\<exists>t. read_file e ino offset len s =
      (Ok (slice (file_data (disk e s) (unat ino)) offset (offset + len)), t) \<and>
    album_ok e t \<and> disk e t = disk e s"
proof -
  have "wp (read_file e ino offset len) (\<lambda>r t. r = slice (file_data (disk e s) (unat ino)) offset (offset + len) \<and>
      album_ok e t \<and> disk e t = disk e s) no_err s"
    by (rule wp_read_file [OF assms]) simp
  then show ?thesis unfolding wp_no_err by auto
qed


subsection \<open>Properties\<close>

text \<open>C3: Reading a file refines taking a slice of its bytes: a read of any range succeeds, gives the
  bytes of the file in that range (fewer at the end of the file), and changes nothing.\<close>

theorem read_file_refines:
  fixes s :: "'a album_scheme"
  assumes "album_ok e s" "file_ok (disk e s) (unat ino)" "regular (disk e s) (unat ino)"
  shows "\<exists>t. read_file e ino offset len s =
      (Ok (slice (file_data (disk e s) (unat ino)) offset (offset + len)), t) \<and>
    album_ok e t \<and> disk e t = disk e s"
  by (rule read_file_run [OF assms])

text \<open>C2: Writing a file refines overwriting a list: the bytes from the offset on are replaced, a gap
  is filled with zeros, the file grows when needed, and every other file and inode is untouched. A write
  that succeeds lies within \<open>MAX_BYTES\<close>, the bytes the block map can hold. When it lies there and the carriers
  can be written back, it only fails for lack of space, and then fewer blocks were free than three for each
  block of the range; when the carriers cannot be written back it can fail after the file has changed. A
  write that ends past \<open>MAX_BYTES\<close> always fails, with \<open>BadBlock\<close> for the first block past the range or with
  \<open>NoSpace\<close> before it gets there; past \<open>2^64\<close> it is refused and nothing changes. No failure touches another file.
  Only a write of no bytes at an offset past \<open>MAX_BYTES\<close> is left out: the code then just records the size.\<close>

theorem write_file_refines:
  fixes s :: "'a album_scheme"
  assumes "codec_laws e" "jpeg_returns e" "album_ok e s"
    "file_ok (disk e s) (unat ino)" "regular (disk e s) (unat ino)" "data \<noteq> [] \<or> offset \<le> MAX_BYTES"
  shows "case write_file e ino offset data s of
      (Ok n, t) \<Rightarrow> offset + length data \<le> MAX_BYTES \<and> n = length data \<and> album_ok e t \<and> durable e t \<and>
        replaced (overwrite offset data (file_data (disk e s) (unat ino))) (unat ino) (disk e s) (disk e t)
    | (Err x, t) \<Rightarrow> album_ok e t \<and> only_file (unat ino) (disk e s) (disk e t) \<and>
        (if MAX64 < offset + length data then x = Manifest ''file offset overflow'' \<and> disk e t = disk e s
         else if MAX_BYTES < offset + length data then x = NoSpace \<or> x = BadBlock (max MAX_BLOCKS (offset div UB))
         else writable e s \<longrightarrow> x = NoSpace \<and>
           card ({dk_data (disk e s)..<dk_total (disk e s)} - dk_used (disk e s)) \<le> 3 * touched offset (length data))
    | (Panic, t) \<Rightarrow> False"
proof (cases "offset + length data \<le> MAX_BYTES")
  case True
  then have "\<not> MAX64 < offset + length data" "\<not> MAX_BYTES < offset + length data"
    using MAX_BYTES_u64 by (simp_all add: MAX64_def)
  then show ?thesis
    by (intro wp_write_file [OF assms(1-5) True, unfolded wp_def]) (auto dest: replacedD(2) simp: True)
next
  case False
  then have far: "MAX_BYTES < offset + length data" "data \<noteq> []" using assms(6) by auto
  show ?thesis
    by (rule wp_write_file_beyond [OF assms(3-5) far(2,1), unfolded wp_def]) (use far(1) in \<open>auto split: if_splits\<close>)
qed

text \<open>C4: Truncating a file refines cutting its list of bytes or filling it up with zeros, for every
  size the block map can hold. It only fails when the carriers cannot be written back.\<close>

theorem truncate_file_refines:
  fixes s :: "'a album_scheme"
  assumes "codec_laws e" "jpeg_returns e" "album_ok e s"
    "file_ok (disk e s) (unat ino)" "regular (disk e s) (unat ino)" "n \<le> MAX_BYTES"
  shows "case truncate_file e ino n s of
      (Ok _, t) \<Rightarrow> album_ok e t \<and> durable e t \<and>
        replaced (resize n (file_data (disk e s) (unat ino))) (unat ino) (disk e s) (disk e t)
    | (Err x, t) \<Rightarrow> \<not> writable e s \<and> album_ok e t \<and>
        replaced (resize n (file_data (disk e s) (unat ino))) (unat ino) (disk e s) (disk e t)
    | (Panic, t) \<Rightarrow> False"
  by (rule wp_truncate_file [OF assms, unfolded wp_def]) blast+

text \<open>What is read after a write.\<close>

lemma overwrite_slice: "slice (overwrite offset data xs) offset (offset + length data) = data"
proof -
  have "length (take offset (xs @ replicate (offset - length xs) 0)) = offset" by simp
  then show ?thesis by (simp add: slice_def overwrite_def)
qed

lemma write_file_Ok:
  fixes s :: "'a album_scheme"
  assumes "codec_laws e" "jpeg_returns e" "album_ok e s"
    "file_ok (disk e s) (unat ino)" "regular (disk e s) (unat ino)" "offset + length data \<le> MAX_BYTES"
    and "write_file e ino offset data s = (Ok n, t)"
  shows "n = length data" "album_ok e t" "durable e t"
    "replaced (overwrite offset data (file_data (disk e s) (unat ino))) (unat ino) (disk e s) (disk e t)"
proof -
  have "n = length data \<and> album_ok e t \<and> durable e t \<and>
    replaced (overwrite offset data (file_data (disk e s) (unat ino))) (unat ino) (disk e s) (disk e t)"
    by (rule wp_OkD [OF wp_write_file [OF assms(1-6)] assms(7)]) auto
  then show "n = length data" "album_ok e t" "durable e t"
    "replaced (overwrite offset data (file_data (disk e s) (unat ino))) (unat ino) (disk e s) (disk e t)" by blast+
qed

lemma replaced_regular: "replaced xs n d d' \<Longrightarrow> regular d n \<Longrightarrow> regular d' n"
  by (simp add: replaced_def changed_def regular_def is_dir_def)

text \<open>C1: After a write that succeeds, reading the range it wrote gives the bytes that were written,
  in the album at hand and in one opened anew on its carriers; every other file of an intact volume
  reads as before, and the volume is still intact.\<close>

theorem write_then_read:
  fixes s :: "'a album_scheme"
  assumes laws: "codec_laws e" "jpeg_returns e" and ok: "album_ok e s" "volume_ok (disk e s)"
    and n: "inode_used (disk e s) (unat ino)" "regular (disk e s) (unat ino)"
    and rng: "offset + length data \<le> MAX_BYTES"
    and run: "write_file e ino offset data s = (Ok k, t)"
  shows "fst (read_file e ino offset (length data) t) = Ok data \<and>
    (\<exists>a. album_open_store e (Ok (al_sb t, closed t)) = Ok a \<and>
      fst (read_file e ino offset (length data) a) = Ok data) \<and>
    (\<forall>m. m \<noteq> ino \<longrightarrow> inode_used (disk e s) (unat m) \<longrightarrow> regular (disk e s) (unat m) \<longrightarrow>
      (\<forall>o' l. fst (read_file e m o' l t) = fst (read_file e m o' l s))) \<and>
    volume_ok (disk e t)"
proof -
  note f = volume_okD(1) [OF ok(2) n(1)]
  note W = write_file_Ok [OF laws ok(1) f n(2) rng run]
  note R = replacedD [OF W(4)]
  have again: "fst (read_file e ino offset (length data) a) = Ok data"
    if a: "album_ok e a" "disk e a = disk e t" for a :: "'b album_scheme"
  proof -
    have "file_ok (disk e a) (unat ino)" "regular (disk e a) (unat ino)"
      using R(3) replaced_regular [OF W(4) n(2)] a(2) by simp_all
    from read_file_run [OF a(1) this, of offset "length data"] show ?thesis
      using R(4) a(2) by (auto simp: overwrite_slice)
  qed
  obtain a where a: "album_open_store e (Ok (al_sb t, closed t)) = Ok a" "album_ok e a" "disk e a = disk e t"
    using reopen [OF W(2,3)] by blast
  have "fst (read_file e m o' l t) = fst (read_file e m o' l s)"
    if m: "m \<noteq> ino" "inode_used (disk e s) (unat m)" "regular (disk e s) (unat m)" for m o' l
  proof -
    have ne: "unat m \<noteq> unat ino" using m(1) by (simp add: word_unat_eq_iff)
    note fm = volume_okD(1) [OF ok(2) m(2)] and dis = volume_okD(2) [OF ok(2) m(2) n(1) ne]
    note same = only_file_data [OF R(2) fm ne dis]
    have "inode_at (disk e t) (unat m) = inode_at (disk e s) (unat m)"
      using R(2) file_okD(1) [OF fm] ne by (simp add: only_file_def)
    then have "regular (disk e t) (unat m)" using m(3) by (simp add: regular_def)
    from read_file_run [OF W(2) same(1) this, of o' l] read_file_run [OF ok(1) fm m(3), of o' l] same(2)
    show ?thesis by auto
  qed
  with again [OF W(2) refl] a again [OF a(2,3)] changed_volume [OF ok(2) n(1) R(1)] show ?thesis by blast
qed

end
