(* ===== verification/AlbumSpec.thy ===== *)
theory AlbumSpec
  imports FileSpec
begin

text \<open>
  The contract of the lower operations of the album: block mapping, allocation, the inode table,
  \<open>sync\<close>.
\<close>

subsection \<open>Blocks\<close>

text \<open>C33: Mapping a logical block for writing never changes what the file holds. An index inside the range of
  the block map ends up with a block: at most three blocks that were free are taken, all of them from the
  data region, and the logical contents of every index are as before; or no block is free any more, which is
  \<open>NoSpace\<close>, the only error there, and no block used by anything but this file has changed. An index past
  the range is \<open>BadBlock\<close> and nothing happens.\<close>

theorem bmap_allocate:
  fixes s :: "'a album_scheme"
  assumes "album_ok e s" "tree (disk e s) i"
  shows "case bmap e i k True s of
      (Ok (b, i'), t) \<Rightarrow> k < MAX_BLOCKS \<and> album_ok e t \<and> tree (disk e t) i' \<and>
        b = Some (mapped (dk_block (disk e t)) i' k) \<and> mapped (dk_block (disk e t)) i' k \<noteq> 0 \<and>
        dk_used (disk e s) \<subseteq> dk_used (disk e t) \<and>
        dk_used (disk e t) - dk_used (disk e s) \<subseteq> {dk_data (disk e s)..<dk_total (disk e s)} \<and>
        card (dk_used (disk e t) - dk_used (disk e s)) \<le> 3 \<and>
        (\<forall>m < MAX_BLOCKS. logical (dk_block (disk e t)) i' m = logical (dk_block (disk e s)) i m)
    | (Err x, t) \<Rightarrow> if k < MAX_BLOCKS
        then album_ok e t \<and> x = NoSpace \<and> {dk_data (disk e s)..<dk_total (disk e s)} \<subseteq> dk_used (disk e t) \<and>
          (\<forall>l \<in> dk_used (disk e s) - tree_blocks (dk_block (disk e s)) i.
            dk_block (disk e t) l = dk_block (disk e s) l)
        else x = BadBlock k \<and> t = s
    | (Panic, t) \<Rightarrow> False"
proof (cases "k < MAX_BLOCKS")
  case False
  then show ?thesis by (simp add: wp_bmap_beyond)
next
  case True
  let ?Q = "\<lambda>(b, i') t. album_ok e t \<and> tree (disk e t) i' \<and>
      b = Some (mapped (dk_block (disk e t)) i' k) \<and> mapped (dk_block (disk e t)) i' k \<noteq> 0 \<and>
      dk_used (disk e s) \<subseteq> dk_used (disk e t) \<and>
      dk_used (disk e t) - dk_used (disk e s) \<subseteq> {dk_data (disk e s)..<dk_total (disk e s)} \<and>
      card (dk_used (disk e t) - dk_used (disk e s)) \<le> 3 \<and>
      (\<forall>m < MAX_BLOCKS. logical (dk_block (disk e t)) i' m = logical (dk_block (disk e s)) i m)"
  let ?E = "\<lambda>x t. album_ok e t \<and> x = NoSpace \<and> {dk_data (disk e s)..<dk_total (disk e s)} \<subseteq> dk_used (disk e t) \<and>
      (\<forall>l \<in> dk_used (disk e s) - tree_blocks (dk_block (disk e s)) i. dk_block (disk e t) l = dk_block (disk e s) l)"
  have "wp (bmap e i k True) ?Q ?E s"
  proof (rule wp_bmap_alloc [OF assms True])
    fix b i' and t :: "'a album_scheme"
    assume t: "album_ok e t" "grows 3 {k} (disk e s) i (disk e t) i'" "mapped (dk_block (disk e t)) i' k = b" "b \<noteq> 0"
    note G = growsD [OF t(2)]
    note E = extendsD [OF G(2)]
    have "logical (dk_block (disk e t)) i' m = logical (dk_block (disk e s)) i m" if "m < MAX_BLOCKS" for m
      by (rule extends_logical [OF assms(2) G(2) that])
    with t grows_tree [OF t(2)] G(3) E(2,3) show "?Q (Some b, i') t" by simp
  next
    fix t :: "'a album_scheme" assume "album_ok e t" "stuck 2 (disk e s) i (disk e t)"
    then show "?E NoSpace t" using tables_in_tree unfolding stuck_def by blast
  qed
  then show ?thesis using True unfolding wp_def by (simp split: prod.splits res.splits)
qed

text \<open>C17: Freeing all blocks of a file releases exactly the blocks of its tree, data and tables, when
  nothing is mapped past its size and no table is empty; it succeeds, no other block is released or
  changed, and the inode that is left has no blocks.\<close>

theorem free_all_releases:
  fixes s :: "'a album_scheme"
  assumes "album_ok e s" "tree (disk e s) i" "tidy_tree (dk_block (disk e s)) i"
    "\<forall>k < MAX_BLOCKS. div_ceil (unat (i_size i)) UB \<le> k \<longrightarrow> mapped (dk_block (disk e s)) i k = 0"
  shows "\<exists>i' t. free_all_blocks e i s = (Ok i', t) \<and> album_ok e t \<and>
    dk_used (disk e t) = dk_used (disk e s) - tree_blocks (dk_block (disk e s)) i \<and>
    (\<forall>l. l \<notin> tree_blocks (dk_block (disk e s)) i \<longrightarrow> dk_block (disk e t) l = dk_block (disk e s) l) \<and>
    tree_blocks (dk_block (disk e t)) i' = {}"
proof -
  have "wp (free_all_blocks e i) (\<lambda>i' t. album_ok e t \<and>
    dk_used (disk e t) = dk_used (disk e s) - tree_blocks (dk_block (disk e s)) i \<and>
    (\<forall>l. l \<notin> tree_blocks (dk_block (disk e s)) i \<longrightarrow> dk_block (disk e t) l = dk_block (disk e s) l) \<and>
    tree_blocks (dk_block (disk e t)) i' = {}) no_err s"
  proof (rule wp_free_all_blocks [OF assms(1-3)])
    show "mapped (dk_block (disk e s)) i k = 0" if "k < MAX_BLOCKS" "div_ceil (unat (i_size i)) UB \<le> k" for k
      using assms(4) that by blast
  qed (use tables_in_tree in blast)
  then show ?thesis unfolding wp_no_err by blast
qed


subsection \<open>Inodes\<close>

text \<open>C18: The inode table is an array: an inode that was written is read back, every other inode, the
  bitmap and the data blocks stay as they were, and an inode number outside \<open>1..inode_count\<close> is
  \<open>NotFound\<close> for both and changes nothing.\<close>

theorem inode_table_array:
  fixes s :: "'a album_scheme"
  assumes "album_ok e s" "inode_wf i"
  shows "if ino_ok (disk e s) (unat n)
    then \<exists>t. write_inode e n i s = (Ok (), t) \<and> album_ok e t \<and>
      (\<forall>m. ino_ok (disk e s) (unat m) \<longrightarrow> fst (read_inode e m t) = (if m = n then Ok i else fst (read_inode e m s))) \<and>
      dk_bitmap (disk e t) = dk_bitmap (disk e s) \<and>
      (\<forall>l \<ge> dk_data (disk e s). dk_block (disk e t) l = dk_block (disk e s) l)
    else write_inode e n i s = (Err NotFound, s) \<and> read_inode e n s = (Err NotFound, s)"
proof (cases "ino_ok (disk e s) (unat n)")
  case True
  have "wp (write_inode e n i) (\<lambda>_ t. album_ok e t \<and> disk e t = set_inode (disk e s) (unat n) i) no_err s"
    by (rule wp_write_inode [OF assms(1) True assms(2)]) blast
  then obtain t where t: "write_inode e n i s = (Ok (), t)" "album_ok e t" "disk e t = set_inode (disk e s) (unat n) i"
    unfolding wp_no_err by auto
  note dk = album_ok_disk [OF assms(1)]
  have rd: "fst (read_inode e m u) = Ok (inode_at (disk e u) (unat m))"
    if "album_ok e u" "ino_ok (disk e u) (unat m)" for m and u :: "'a album_scheme"
  proof -
    have "wp (read_inode e m) (\<lambda>r _. r = inode_at (disk e u) (unat m)) no_err u"
      by (rule wp_read_inode [OF that]) blast
    then show ?thesis unfolding wp_no_err by auto
  qed
  have "fst (read_inode e m t) = (if m = n then Ok i else fst (read_inode e m s))"
    if m: "ino_ok (disk e s) (unat m)" for m
  proof -
    have "ino_ok (disk e t) (unat m)" using m t(3) by (simp add: ino_ok_def set_inode_def)
    from rd [OF t(2) this] rd [OF assms(1) m] inode_at_set [OF dk True m assms(2)]
    show ?thesis unfolding t(3) by (simp add: word_unat_eq_iff)
  qed
  moreover note set_inode_frame [OF dk True, where i = i]
  ultimately show ?thesis using True t by auto
next
  case False
  with read_inode_bad [OF False] write_inode_bad [OF False] show ?thesis by simp
qed

text \<open>The search for a free inode.\<close>

lemma wp_find_free_inode:
  fixes s :: "'a album_scheme"
  assumes "album_ok e s" "\<forall>n \<in> set ns. ino_ok (disk e s) n \<and> n < 2 ^ 64"
    and "\<And>n t xs ys. album_ok e t \<Longrightarrow> disk e t = disk e s \<Longrightarrow> ns = xs @ n # ys \<Longrightarrow>
      i_mode (inode_at (disk e s) n) = 0 \<Longrightarrow> (\<forall>m \<in> set xs. i_mode (inode_at (disk e s) m) \<noteq> 0) \<Longrightarrow> Q (of_nat n) t"
    and "\<And>t. album_ok e t \<Longrightarrow> disk e t = disk e s \<Longrightarrow> (\<forall>m \<in> set ns. i_mode (inode_at (disk e s) m) \<noteq> 0) \<Longrightarrow>
      E NoSpace t"
  shows "wp (find_free_inode e ns) Q E s"
  using assms
proof (induction ns arbitrary: s)
  case Nil
  then show ?case by (simp add: wp_simps)
next
  case (Cons n ns)
  have n: "unat (of_nat n :: u64) = n" "ino_ok (disk e s) n" using Cons.prems(2) unat_of_nat64 [of n] by simp_all
  have "wp (read_inode e (of_nat n)) (\<lambda>i. wp (if i_mode i = 0 then ret (of_nat n) else find_free_inode e ns) Q E) E s"
  proof (rule wp_read_inode [OF Cons.prems(1)])
    show "ino_ok (disk e s) (unat (of_nat n :: u64))" using n by simp
    fix t :: "'a album_scheme" assume t: "album_ok e t" "disk e t = disk e s"
    show "wp (if i_mode (inode_at (disk e s) (unat (of_nat n :: u64))) = 0 then ret (of_nat n) else find_free_inode e ns) Q E t"
    proof (cases "i_mode (inode_at (disk e s) n) = 0")
      case True
      then show ?thesis using Cons.prems(3) [OF t, of "[]" n ns] n by (simp add: wp_simps)
    next
      case False
      have "wp (find_free_inode e ns) Q E t"
      proof (rule Cons.IH [OF t(1)])
        show "\<forall>m \<in> set ns. ino_ok (disk e t) m \<and> m < 2 ^ 64" using Cons.prems(2) t(2) by simp
      next
        fix m xs ys and u :: "'a album_scheme"
        assume u: "album_ok e u" "disk e u = disk e t" "ns = xs @ m # ys" "i_mode (inode_at (disk e t) m) = 0"
          "\<forall>m \<in> set xs. i_mode (inode_at (disk e t) m) \<noteq> 0"
        show "Q (of_nat m) u" by (rule Cons.prems(3) [of _ "n # xs" m ys]) (use u t(2) False in simp_all)
      next
        fix u :: "'a album_scheme"
        assume u: "album_ok e u" "disk e u = disk e t" "\<forall>m \<in> set ns. i_mode (inode_at (disk e t) m) \<noteq> 0"
        show "E NoSpace u" by (rule Cons.prems(4)) (use u t(2) False in simp_all)
      qed
      then show ?thesis using False n by simp
    qed
  qed
  then show ?case by (simp add: wp_bind)
qed

lemma upt_split: "[a..<b] = xs @ n # ys \<Longrightarrow> xs = [a..<n]"
proof (induction xs arbitrary: a)
  case (Cons x xs)
  have p: "a < b \<and> a = x \<and> [Suc a..<b] = xs @ n # ys"
    using Cons.prems unfolding append_Cons upt_eq_Cons_conv Suc_eq_plus1 .
  note x = p [THEN conjunct2, THEN conjunct1, symmetric] p [THEN conjunct2, THEN conjunct2]
  have "n \<in> set [Suc a..<b]" unfolding x(2) by simp
  then have "a < n" by simp
  with Cons.IH [OF x(2)] x(1) show ?case by (simp add: upt_conv_Cons)
qed (simp add: upt_eq_Cons_conv)

lemma wp_alloc_inode:
  fixes s :: "'a album_scheme"
  assumes "album_ok e s"
  shows "wp (alloc_inode e) (\<lambda>n t. album_ok e t \<and> disk e t = disk e s \<and> ino_ok (disk e s) (unat n) \<and>
        \<not> inode_used (disk e s) (unat n) \<and> (\<forall>m. 1 \<le> m \<longrightarrow> m < unat n \<longrightarrow> inode_used (disk e s) m))
      (\<lambda>x t. album_ok e t \<and> disk e t = disk e s \<and> x = NoSpace \<and>
        (\<forall>m. ino_ok (disk e s) m \<longrightarrow> inode_used (disk e s) m)) s"
proof -
  let ?d = "disk e s" and ?c = "unat (sb_inode_count (al_sb s))"
  have rng: "ino_ok ?d m \<longleftrightarrow> m \<in> set [1..<Suc ?c]" for m by (auto simp: ino_ok_def disk_sel)
  have c64: "m < 2 ^ 64" if "ino_ok ?d m" for m
    using that unat_u64 [of "sb_inode_count (al_sb s)"] by (simp add: ino_ok_def disk_sel)
  have "wp (find_free_inode e [1..<Suc ?c]) (\<lambda>n t. album_ok e t \<and> disk e t = ?d \<and> ino_ok ?d (unat n) \<and>
        \<not> inode_used ?d (unat n) \<and> (\<forall>m. 1 \<le> m \<longrightarrow> m < unat n \<longrightarrow> inode_used ?d m))
      (\<lambda>x t. album_ok e t \<and> disk e t = ?d \<and> x = NoSpace \<and> (\<forall>m. ino_ok ?d m \<longrightarrow> inode_used ?d m)) s"
  proof (rule wp_find_free_inode [OF assms])
    show "\<forall>n \<in> set [1..<Suc ?c]. ino_ok ?d n \<and> n < 2 ^ 64" using rng c64 by blast
  next
    fix n xs ys and t :: "'a album_scheme"
    assume t: "album_ok e t" "disk e t = ?d" "[1..<Suc ?c] = xs @ n # ys" "i_mode (inode_at ?d n) = 0"
      "\<forall>m \<in> set xs. i_mode (inode_at ?d m) \<noteq> 0"
    have n: "n \<in> set [1..<Suc ?c]" unfolding t(3) by simp
    then have un: "unat (of_nat n :: u64) = n" using c64 rng unat_of_nat64 [of n] by blast
    have "xs = [1..<n]" by (rule upt_split [OF t(3)])
    then have "inode_used ?d m" if "1 \<le> m" "m < n" for m using t(5) that n by (auto simp: inode_used_def rng)
    then show "album_ok e t \<and> disk e t = ?d \<and> ino_ok ?d (unat (of_nat n :: u64)) \<and>
        \<not> inode_used ?d (unat (of_nat n :: u64)) \<and> (\<forall>m. 1 \<le> m \<longrightarrow> m < unat (of_nat n :: u64) \<longrightarrow> inode_used ?d m)"
      using t(1,2,4) n rng un by (auto simp: inode_used_def)
  next
    fix t :: "'a album_scheme"
    assume "album_ok e t" "disk e t = ?d" "\<forall>m \<in> set [1..<Suc ?c]. i_mode (inode_at ?d m) \<noteq> 0"
    then show "album_ok e t \<and> disk e t = ?d \<and> NoSpace = NoSpace \<and> (\<forall>m. ino_ok ?d m \<longrightarrow> inode_used ?d m)"
      using rng by (auto simp: inode_used_def)
  qed
  moreover have "alloc_inode e s = find_free_inode e [1..<Suc ?c] s"
    by (simp add: alloc_inode_def inode_count_def bind_def run_simps del: upt_Suc)
  ultimately show ?thesis unfolding wp_def by metis
qed

text \<open>C19: \<open>alloc_inode\<close> returns the lowest inode number that is not in use, or \<open>NoSpace\<close> when every
  inode of the table is in use. The search always ends and changes nothing.\<close>

theorem alloc_inode_lowest:
  fixes s :: "'a album_scheme"
  assumes "album_ok e s"
  shows "case alloc_inode e s of
      (Ok n, t) \<Rightarrow> album_ok e t \<and> disk e t = disk e s \<and> ino_ok (disk e s) (unat n) \<and>
        \<not> inode_used (disk e s) (unat n) \<and> (\<forall>m. 1 \<le> m \<longrightarrow> m < unat n \<longrightarrow> inode_used (disk e s) m)
    | (Err x, t) \<Rightarrow> album_ok e t \<and> disk e t = disk e s \<and> x = NoSpace \<and>
        (\<forall>m. ino_ok (disk e s) m \<longrightarrow> inode_used (disk e s) m)
    | (Panic, t) \<Rightarrow> False"
  by (rule wp_alloc_inode [OF assms, unfolded wp_def])


subsection \<open>Sync\<close>

text \<open>C16: A \<open>sync\<close> that succeeds makes everything durable: an album opened on the store with nothing
  loaded, which reads the carriers and the bitmap again, has the same disk. It never panics, an error
  loses no block, and it succeeds whenever the carriers can be written back.\<close>

theorem sync_reopen:
  fixes s :: "'a album_scheme"
  assumes "codec_laws e" "jpeg_returns e" "album_ok e s"
  shows "case sync e s of
      (Ok _, t) \<Rightarrow> \<exists>a. album_open_store e (Ok (al_sb t, closed t)) = Ok a \<and> album_ok e a \<and>
        disk e a = disk e t \<and> dk_bitmap (disk e t) = dk_bitmap (disk e s) \<and>
        (\<forall>l \<ge> dk_table (disk e s). dk_block (disk e t) l = dk_block (disk e s) l)
    | (Err x, t) \<Rightarrow> \<not> writable e s \<and> album_ok e t \<and> dk_bitmap (disk e t) = dk_bitmap (disk e s) \<and>
        (\<forall>l \<ge> dk_table (disk e s). dk_block (disk e t) l = dk_block (disk e s) l)
    | (Panic, t) \<Rightarrow> False"
proof -
  let ?P = "\<lambda>t. dk_bitmap (disk e t) = dk_bitmap (disk e s) \<and>
    (\<forall>l \<ge> dk_table (disk e s). dk_block (disk e t) l = dk_block (disk e s) l)"
  have "wp (sync e) (\<lambda>_ t. album_ok e t \<and> durable e t \<and> ?P t) (\<lambda>_ t. \<not> writable e s \<and> album_ok e t \<and> ?P t) s"
  proof (cases "writable e s")
    case True
    show ?thesis by (rule wp_sync_writable [OF assms True]) (simp add: save_bitmap_frame)
  next
    case False
    show ?thesis by (rule wp_sync [OF assms]) (use False in \<open>simp_all add: save_bitmap_frame\<close>)
  qed
  then show ?thesis
    unfolding wp_def using reopen by (auto split: prod.splits res.splits)
qed

end
