(* ===== verification/Witnesses.thy ===== *)
theory Witnesses
  imports Fuse Stats BlockFlush DirReach AlbumSpec
begin

text \<open>
  A concrete environment in which the laws the theorems assume of foreign code hold, small concrete
  states, and for each property with hypotheses an instance at a concrete input.
\<close>

subsection \<open>A lawful environment\<close>

definition demo_png_save :: "rgba_image \<Rightarrow> bytes option" where
  "demo_png_save img = Some (to_le 4 (im_width img) @ to_le 4 (im_height img) @ im_data img)"

definition demo_png_open :: "bytes \<Rightarrow> rgba_image option" where
  "demo_png_open bs =
     (let img = \<lparr>im_width = from_le (slice bs 0 4), im_height = from_le (slice bs 4 8),
            im_data = drop 8 bs\<rparr>
      in if png_wf img then Some img else None)"

definition demo_ext :: ext where
  "demo_ext =
     \<lparr>e_crc16 = (\<lambda>_. 0), e_crc32 = (\<lambda>_. 0), e_derive_key = (\<lambda>_ _. replicate 32 0),
      e_shuffle = (\<lambda>_ ps. ps),
      e_png_dimensions = (\<lambda>bs. map_option (\<lambda>i. (im_width i, im_height i)) (demo_png_open bs)),
      e_png_open = demo_png_open, e_png_save = demo_png_save,
      e_jpeg_read = (\<lambda>_. Err ''unsupported''), e_jpeg_write = (\<lambda>_ _. Err ''unsupported''),
      e_argon2 = (\<lambda>_ _ _ _ _ _. Some (replicate 32 0)),
      e_seal = (\<lambda>_ _ _ pt. Some (pt, replicate 16 0)), e_unseal = (\<lambda>_ _ _ ct _. Some ct),
      e_random = (\<lambda>_ len. replicate len 0), e_now = of_nat,
      e_fs_write = (\<lambda>_ _ _. True), e_fs_rename = (\<lambda>_ _ _. True)\<rparr>"

lemma demo_png_open_save: "png_wf img \<Longrightarrow> demo_png_save img = Some bs \<Longrightarrow> demo_png_open bs = Some img"
  by (cases img) (auto simp: demo_png_save_def demo_png_open_def slice_def)

lemma demo_ext_png:
  "e_png_open demo_ext = demo_png_open" "e_png_save demo_ext = demo_png_save"
  "e_png_dimensions demo_ext bs = map_option (\<lambda>i. (im_width i, im_height i)) (demo_png_open bs)"
  by (simp_all add: demo_ext_def)

lemma demo_png_laws: "png_laws demo_ext"
proof -
  have "png_wf img \<and> map_option (\<lambda>i. (im_width i, im_height i)) (demo_png_open bs) =
      Some (im_width img, im_height img)" if "demo_png_open bs = Some img" for bs img
    using that by (auto simp: demo_png_open_def Let_def split: if_splits)
  then show ?thesis
    unfolding png_laws_def demo_ext_png using demo_png_open_save by blast
qed

lemma demo_codec_laws: "codec_laws demo_ext"
  using demo_png_laws by (simp add: codec_laws_def jpeg_laws_def shuffle_laws_def) (simp add: demo_ext_def)

lemma demo_crypto_laws: "crypto_laws demo_ext"
  by (simp add: crypto_laws_def demo_ext_def)


subsection \<open>A carrier and a store\<close>

text \<open>The file \<^verbatim>\<open>a.png\<close>, a black image of 512 by 512 pixels.\<close>

definition demo_path :: path where "demo_path = Path [97, 46, 112, 110, 103]"

definition demo_image :: rgba_image where
  "demo_image = \<lparr>im_width = 512, im_height = 512, im_data = replicate 1048576 0\<rparr>"

definition demo_files :: files where
  "demo_files = [demo_path \<mapsto> the (demo_png_save demo_image)]"

definition demo_world :: world where
  "demo_world = \<lparr>w_files = demo_files, w_entries = [demo_path], w_draws = 0, w_ticks = 0\<rparr>"

definition demo_store :: store where
  "demo_store = new_for_format [demo_path]
     [\<lparr>cr_name = [], cr_chunk_index = 0, cr_block_start = 0, cr_block_count = 12\<rparr>] None demo_world"

lemma demo_image_wf: "png_wf demo_image"
  by (simp add: png_wf_def demo_image_def MAX64_def)

lemma demo_open: "image_open demo_ext demo_path demo_files = Ok demo_image"
proof -
  obtain bs where bs: "demo_png_save demo_image = Some bs" by (simp add: demo_png_save_def)
  from demo_png_open_save [OF demo_image_wf bs] bs show ?thesis
    by (simp add: image_open_def demo_files_def demo_ext_def)
qed

lemma demo_kind: "codec_for_path demo_path = Some Png"
  by (simp add: codec_for_path_def kind_for_def demo_path_def extension_def split_name_def
      to_ascii_lowercase_def utf8_valid_ascii)

lemma demo_write:
  assumes "length payload \<le> 23 * PB"
  shows "\<exists>fs'. codec_write_chunk demo_ext Png demo_path (WriteFramed m) payload [] demo_files = Ok fs'"
proof -
  have "\<exists>fs'. png_write_chunk demo_ext demo_path (WriteFramed m) payload [] demo_files = Ok fs'"
    by (rule png_write_chunk_fits [OF demo_png_laws demo_open])
      (use assms in \<open>simp_all add: demo_ext_def demo_png_save_def PB_val demo_image_def png_raw_capacity_def\<close>)
  then show ?thesis by (simp add: codec_write_chunk_def)
qed

lemma demo_slots:
  "bs_carriers demo_store = [\<lparr>cs_path = demo_path, cs_chunk_index = 0, cs_is_primary = True,
     cs_block_start = 0, cs_block_count = 12, cs_buffer = Some (replicate (12 * PB) 0), cs_dirty = True\<rparr>]"
  "unat (bs_total_blocks demo_store) = 12" "\<not> bs_encrypted demo_store" "w_files demo_store = demo_files"
  by (simp_all add: demo_store_def new_for_format_def store_of_def PB_val demo_world_def)

lemma demo_decode: "decode_block demo_ext demo_store lba (replicate PB 0) = Ok zeros"
  by (simp add: decode_block_def demo_slots read_physical_block_def demo_ext_def slice_replicate PB_val
      BLOCK_HEADER_def UB_val zeros_def)

lemma demo_physical: "lba < 12 \<Longrightarrow> physical (layout demo_ext demo_store) lba = Some (replicate PB 0)"
  by (simp add: layout_def demo_slots slot_bytes_def physical_def contains_def slice_replicate)

lemma demo_store_ok: "store_ok demo_ext demo_store"
proof -
  have "layout_wf (layout demo_ext demo_store) 12"
    by (simp add: layout_def demo_slots slot_bytes_def layout_wf_def) (simp add: PB_val MAX64_def)
  then show ?thesis by (simp add: store_ok_def demo_slots demo_physical demo_decode)
qed

lemma demo_view: "view demo_ext demo_store lba = (if lba < 12 then zeros else [])"
  by (simp add: view_def demo_slots demo_physical demo_decode)

lemma demo_synced: "synced demo_ext demo_store"
proof -
  have "demo_path \<noteq> tmp_path kind demo_path" for kind
    by (cases kind) (simp_all add: demo_path_def tmp_path_def with_extension_def split_name_def
        PNG_TMP_def JPG_TMP_def)
  then show ?thesis by (simp add: synced_def separate_def demo_slots)
qed

lemma demo_flush: "\<exists>t. flush demo_ext demo_store = (Ok (), t)"
proof -
  obtain fs' where "codec_write_chunk demo_ext Png demo_path
      (WriteFramed \<lparr>cm_chunk_index = 0, cm_flags = 1\<rparr>) (replicate (12 * PB) 0) [] demo_files = Ok fs'"
    using demo_write [of "replicate (12 * PB) 0"] by (auto simp: PB_val)
  then show ?thesis
    by (simp add: flush_def flush_slot_def bind_def run_simps demo_slots demo_kind)
qed


subsection \<open>Instances\<close>

theorem codec_roundtrip_witness:
  "\<exists>fs'. codec_write_chunk demo_ext Png demo_path
       (WriteFramed \<lparr>cm_chunk_index = 3, cm_flags = 0\<rparr>) [1, 2] [] demo_files = Ok fs' \<and>
     codec_read_chunk demo_ext Png demo_path ReadFramed [] fs' =
       Ok (\<lparr>cm_chunk_index = 3, cm_flags = 0\<rparr>, [1, 2])"
proof -
  obtain fs' where w: "codec_write_chunk demo_ext Png demo_path
       (WriteFramed \<lparr>cm_chunk_index = 3, cm_flags = 0\<rparr>) [1, 2] [] demo_files = Ok fs'"
    using demo_write [of "[1, 2]"] by (auto simp: PB_val)
  from codec_roundtrip [OF demo_codec_laws w] w show ?thesis by simp
qed

theorem png_embedding_witness:
  "\<exists>img'. png_write_bytes \<lparr>im_width = 3, im_height = 1, im_data = replicate 12 7\<rparr> [0..<8] [] [5] = Ok img' \<and>
     png_read_bytes img' [0..<8] 0 1 = Ok [5]"
  using png_embedding [of "\<lparr>im_width = 3, im_height = 1, im_data = replicate 12 7\<rparr>" "[0..<8]" "[]" "[5]"]
  by (auto simp: png_wf_def MAX64_def png_slots_def)

theorem jpeg_embedding_witness:
  "\<exists>img'. embed_bytes \<lparr>jp_components = [[replicate 64 2]]\<rparr>
       (usable_positions \<lparr>jp_components = [[replicate 64 2]]\<rparr>) [] [9] = Ok img' \<and>
     extract_bytes img' (usable_positions img') 0 1 = Ok [9]"
proof -
  let ?i = "\<lparr>jp_components = [[replicate 64 2]]\<rparr>"
  have "8 * length [9 :: u8] \<le> length (usable_positions ?i)" by code_simp
  from jpeg_embedding [OF _ this] show ?thesis by (auto simp: jpeg_wf_def MAX64_def)
qed

theorem block_write_read_witness:
  "\<exists>t. write_block demo_ext 0 [42] demo_store = (Ok (), t) \<and>
     fst (read_block demo_ext 0 t) = Ok (pad [42])"
  using block_write_read [OF demo_store_ok, of 0 "[42]"] by (auto simp: demo_slots UB_val)

theorem flush_durable_witness:
  "\<exists>t. flush demo_ext demo_store = (Ok (), t) \<and>
     view demo_ext (drop_buffers t) = view demo_ext demo_store"
  using demo_flush flush_durable [OF demo_codec_laws demo_store_ok demo_synced] by blast

theorem cipher_roundtrip_witness:
  "\<exists>block. cipher_encode demo_ext (replicate 32 1) 7 [1, 2, 3] demo_world =
       (Ok block, w_draws_update Suc demo_world) \<and>
     cipher_decode demo_ext (replicate 32 1) 7 block = Ok (pad [1, 2, 3])"
  using cipher_roundtrip [OF demo_crypto_laws, of "replicate 32 1" "[1, 2, 3]" 7 demo_world]
  by (auto simp: UB_val)

definition demo_superblock :: superblock where
  "demo_superblock = superblock_standard 100 64 1 2 6 [] False"

lemma demo_superblock_wf: "superblock_wf demo_superblock"
  by (simp add: superblock_wf_def demo_superblock_def superblock_standard_def FS_VERSION_def)

lemma demo_superblock_len:
  "length (superblock_encode (\<lambda>_. 0) demo_superblock @ [9]) \<le> MAX64"
  using length_superblock_encode [of demo_superblock "\<lambda>_. 0"]
  by (simp add: demo_superblock_def superblock_standard_def FS_VERSION_def manifest_len_of_def MAX64_def)

theorem superblock_roundtrip_witness:
  "superblock_decode (\<lambda>_. 0) (superblock_encode (\<lambda>_. 0) demo_superblock @ [9]) = Ok demo_superblock"
  by (rule superblock_roundtrip [OF demo_superblock_wf demo_superblock_len])

theorem superblock_decode_wf_witness:
  "\<exists>sb. superblock_decode (\<lambda>_. 0) (superblock_encode (\<lambda>_. 0) demo_superblock @ [9]) = Ok sb \<and>
     superblock_wf sb"
  using superblock_decode_wf [OF superblock_decode_encode [OF demo_superblock_wf demo_superblock_len]]
    superblock_decode_encode [OF demo_superblock_wf demo_superblock_len] by blast

theorem inode_roundtrip_witness: "inode_decode (inode_encode inode_default) = Ok inode_default"
  using inode_roundtrip [of inode_default] by simp

theorem first_block_removal_correct_witness:
  "\<exists>b es. initial_directory_block 5 1 = Ok b \<and> scan_entries b 0 = Ok es \<and>
     (remove_entry b 0 None [120] = Ok None \<longrightarrow> (\<forall>x \<in> set (listing es). fst (snd x) \<noteq> [120]))"
proof (rule initial_directory_block_chain [of 5 1])
  fix b assume b: "initial_directory_block 5 1 = Ok b"
  obtain es where es: "scan_entries b 0 = Ok es"
      "case remove_entry b 0 None [120] of Ok None \<Rightarrow> \<forall>x \<in> set (listing es). fst (snd x) \<noteq> [120]
       | Ok (Some p') \<Rightarrow> \<exists>es' xs x ys. scan_entries p' 0 = Ok es' \<and> listing es = xs @ x # ys \<and>
           fst (snd x) = [120] \<and> (\<forall>y \<in> set xs. fst (snd y) \<noteq> [120]) \<and> listing es' = xs @ ys
       | _ \<Rightarrow> False"
    using first_block_removal_correct [OF b _ _ block_reach.start, of "[120]"] by auto
  have "remove_entry b 0 None [120] = Ok None \<longrightarrow> (\<forall>x \<in> set (listing es). fst (snd x) \<noteq> [120])"
    by (rule impI) (use es(2) in simp)
  with b es(1) show ?thesis by blast
qed

theorem insert_keeps_entries_witness:
  "\<exists>b es. initial_directory_block 5 1 = Ok b \<and> scan_entries b 0 = Ok es \<and>
     (\<forall>p'. insert_entry b 0 7 [120] 1 (required_len 1) = Ok (Some p') \<longrightarrow> length p' = UB)"
proof (rule initial_directory_block_chain [of 5 1])
  fix b assume b: "initial_directory_block 5 1 = Ok b" "length b = UB"
    "scan_entries b 0 = Ok [(0, fresh_entry 5 [46] FILE_TYPE_DIR 16),
       (16, fresh_entry 1 [46, 46] FILE_TYPE_DIR (UB - 16))]"
  show ?thesis
    using insert_keeps_entries [OF b(3,2), of "[120]" 7 1] b by (auto simp: utf8_valid_ascii)
qed

end
