(* ===== verification/AlbumWitnesses.thy ===== *)
theory AlbumWitnesses
  imports Witnesses
begin

text \<open>
  A small album: 12 blocks, the root directory in block 3, an empty file as inode 2. Instances of
  the properties of the filesystem on it.
\<close>

subsection \<open>The album\<close>

definition demo_sb :: superblock where
  "demo_sb = superblock_standard 12 10 1 2 3
     [\<lparr>cr_name = [], cr_chunk_index = 0, cr_block_start = 0, cr_block_count = 12\<rparr>] False"

definition demo_bitmap :: bitmap where
  "demo_bitmap = set_block (set_block (set_block (set_block (bitmap_new 12) 0) 1) 2) 3"

definition demo_root_block :: bytes where
  "demo_root_block = (case initial_directory_block 1 1 of Ok b \<Rightarrow> b | _ \<Rightarrow> [])"

definition demo_root :: inode where
  "demo_root = inode_default\<lparr>i_mode := S_IFDIR OR 0x1ED, i_nlink := 2, i_size := of_nat UB, i_block_count := 1,
     i_direct := (i_direct inode_default)[0 := 3]\<rparr>"

definition demo_file :: inode where
  "demo_file = inode_default\<lparr>i_mode := S_IFREG OR 0x1A4, i_nlink := 1\<rparr>"

definition demo_super :: bytes where
  "demo_super = superblock_encode (e_crc32 demo_ext) demo_sb"

definition demo_formatted :: store where
  "demo_formatted = snd (write_block demo_ext 0 demo_super demo_store)"

definition demo_empty :: album where
  "demo_empty = album_of demo_formatted demo_sb demo_bitmap"

definition demo_album :: album where
  "demo_album = snd (bind (write_block demo_ext 3 demo_root_block) (\<lambda>_.
     bind (write_inode demo_ext 1 demo_root) (\<lambda>_.
     write_inode demo_ext 2 demo_file)) demo_empty)"

lemma demo_sb_sel [simp]:
  "unat (sb_total_blocks demo_sb) = 12" "sb_inode_count demo_sb = 10" "unat (sb_bitmap_start demo_sb) = 1"
  "unat (sb_inode_table_start demo_sb) = 2" "unat (sb_data_start demo_sb) = 3"
  by (simp_all add: demo_sb_def superblock_standard_def)

lemma demo_bitmap_facts:
  "bitmap_wf demo_bitmap" "bm_total demo_bitmap = 12" "used demo_bitmap = {0, 1, 2, 3}"
proof -
  have t: "bm_total (bitmap_new 12) = 12" by (simp add: bitmap_new_def)
  then show "bitmap_wf demo_bitmap" "bm_total demo_bitmap = 12" by (simp_all add: demo_bitmap_def)
  show "used demo_bitmap = {0, 1, 2, 3}" using t by (auto simp: demo_bitmap_def used_set)
qed

lemma demo_super_fits: "length demo_super \<le> UB"
  "superblock_decode (e_crc32 demo_ext) (pad demo_super) = Ok demo_sb"
proof -
  have wf: "superblock_wf demo_sb"
    by (simp add: demo_sb_def superblock_standard_def superblock_wf_def carrier_wf_def FS_VERSION_def MARKERLESS_FS_VERSION_def)
  then show p: "length demo_super \<le> UB"
    using length_superblock_encode [of demo_sb "e_crc32 demo_ext"]
    by (simp add: demo_super_def superblock_wf_def manifest_len_of_def header_len_of_def)
      (simp add: demo_sb_def superblock_standard_def FS_VERSION_def MARKERLESS_FS_VERSION_def V2_HEADER_LEN_def UB_val)
  have "UB \<le> MAX64" by (simp add: UB_val MAX64_def)
  then show "superblock_decode (e_crc32 demo_ext) (pad demo_super) = Ok demo_sb"
    unfolding pad_eq [OF p] using p wf unfolding demo_super_def by (intro superblock_decode_encode) simp_all
qed

lemma demo_formatted:
  "device_ok demo_ext demo_formatted" "bs_total_blocks demo_formatted = bs_total_blocks demo_store"
  "view demo_ext demo_formatted = (view demo_ext demo_store)(0 := pad demo_super)"
proof -
  have d: "device_ok demo_ext demo_store" using demo_store_ok demo_synced by (simp add: device_ok_def)
  have "wp (write_block demo_ext 0 demo_super) (\<lambda>_ t. device_ok demo_ext t \<and> bs_total_blocks t = bs_total_blocks demo_store \<and>
      view demo_ext t = (view demo_ext demo_store)(0 := pad demo_super)) no_err demo_store"
    by (rule sdev.wp_wr [OF d _ demo_super_fits(1)]) (simp_all add: demo_slots word_unat_eq_iff)
  then show "device_ok demo_ext demo_formatted" "bs_total_blocks demo_formatted = bs_total_blocks demo_store"
    "view demo_ext demo_formatted = (view demo_ext demo_store)(0 := pad demo_super)"
    unfolding wp_no_err demo_formatted_def by auto
qed

lemma demo_empty_sel:
  "al_sb demo_empty = demo_sb" "al_bitmap demo_empty = demo_bitmap" "unat (bs_total_blocks demo_empty) = 12"
  using demo_formatted(2) demo_slots
  by (simp_all add: demo_empty_def album_of_def store.defs album.defs)

lemma demo_empty_device: "device_ok demo_ext demo_empty" "view demo_ext demo_empty = (view demo_ext demo_store)(0 := pad demo_super)"
  using store_view_cong [of demo_empty demo_formatted demo_ext] demo_formatted
  by (simp_all add: demo_empty_def album_of_def extend_sel)

lemma demo_empty_ok: "album_ok demo_ext demo_empty"
proof -
  have "regions_ok demo_sb" by (simp add: regions_ok_def div_ceil_def UB_val IPB_val)
  moreover have "sb_total_blocks demo_sb = bs_total_blocks demo_empty"
    using demo_empty_sel(3) by (simp add: word_unat_eq_iff)
  ultimately show ?thesis
    using demo_empty_device demo_bitmap_facts demo_super_fits(2) by (simp add: album_ok_def demo_empty_sel super_ok_def)
qed

lemma demo_root_block: "initial_directory_block 1 1 = Ok demo_root_block" "length demo_root_block = UB"
  by (rule initial_directory_block_chain [of 1 1]; simp add: demo_root_block_def)+

lemma demo_inodes:
  "inode_wf demo_root" "inode_wf demo_file" "i_mode demo_root \<noteq> 0" "i_mode demo_file \<noteq> 0"
  "is_dir demo_root" "\<not> is_dir demo_file"
  by (simp_all add: inode_wf_def demo_root_def demo_file_def inode_default_def is_dir_def S_IFDIR_def S_IFREG_def
      S_IFMT_def)

definition demo_disk0 :: disk where
  "demo_disk0 = \<lparr>dk_block = (view demo_ext demo_store)(0 := pad demo_super, 3 := demo_root_block), dk_sb = demo_sb, dk_bitmap = demo_bitmap\<rparr>"

lemma demo_album_run:
  "album_ok demo_ext demo_album \<and> disk demo_ext demo_album = set_inode (set_inode demo_disk0 1 demo_root) 2 demo_file"
proof -
  let ?P = "\<lambda>(_ :: unit) t. album_ok demo_ext t \<and>
    disk demo_ext t = set_inode (set_inode demo_disk0 1 demo_root) 2 demo_file"
  have in1: "ino_ok d n" if "dk_sb d = demo_sb" "1 \<le> n" "n \<le> 10" for d n using that by (simp add: ino_ok_def)
  have "wp (bind (write_block demo_ext 3 demo_root_block) (\<lambda>_.
     bind (write_inode demo_ext 1 demo_root) (\<lambda>_. write_inode demo_ext 2 demo_file))) ?P no_err demo_empty"
    unfolding wp_bind
  proof (rule wp_disk_write [OF demo_empty_ok])
    show "(3 :: nat) \<noteq> 0" "3 < dk_total (disk demo_ext demo_empty)" "length demo_root_block \<le> UB"
      by (simp_all add: disk_sel demo_empty_sel demo_root_block(2))
    fix t :: album assume t: "album_ok demo_ext t" "disk demo_ext t = (disk demo_ext demo_empty)
      \<lparr>dk_block := (dk_block (disk demo_ext demo_empty))(3 := pad demo_root_block)\<rparr>"
    have d: "disk demo_ext t = demo_disk0"
      using t(2) pad_eq [of demo_root_block] demo_root_block(2)
      by (simp add: demo_disk0_def disk_def demo_empty_sel demo_empty_device(2))
    have u1: "unat (1 :: u64) = 1" "unat (2 :: u64) = 2" by simp_all
    show "wp (write_inode demo_ext 1 demo_root) (\<lambda>_. wp (write_inode demo_ext 2 demo_file) ?P no_err) no_err t"
    proof (rule wp_write_inode [OF t(1) _ demo_inodes(1)])
      show "ino_ok (disk demo_ext t) (unat 1)" by (rule in1) (simp_all add: d demo_disk0_def)
      fix u :: album assume u: "album_ok demo_ext u" "disk demo_ext u = set_inode (disk demo_ext t) (unat 1) demo_root"
      show "wp (write_inode demo_ext 2 demo_file) ?P no_err u"
        by (rule wp_write_inode [OF u(1) _ demo_inodes(2)], rule in1)
          (use u(2) d in \<open>simp_all add: set_inode_def demo_disk0_def\<close>)
    qed
  qed
  then show ?thesis unfolding wp_no_err demo_album_def by auto
qed

lemmas demo_album_ok = demo_album_run [THEN conjunct1]
lemmas demo_disk = demo_album_run [THEN conjunct2]

lemma demo_disk0_ok: "disk_ok demo_disk0"
proof -
  have "disk_ok (disk demo_ext demo_empty)" by (rule album_ok_disk [OF demo_empty_ok])
  then show ?thesis
    using demo_root_block(2) by (auto simp: disk_ok_def demo_disk0_def disk_def demo_empty_sel demo_empty_device(2) blocks_full_def)
qed

lemma demo_ino: "1 \<le> n \<Longrightarrow> n \<le> 10 \<Longrightarrow> ino_ok demo_disk0 n"
  by (simp add: ino_ok_def demo_disk0_def)

lemma demo_disk0_free: "1 \<le> n \<Longrightarrow> n \<le> 10 \<Longrightarrow> inode_at demo_disk0 n = inode_default"
proof -
  assume n: "1 \<le> n" "n \<le> 10"
  have b: "slot_block demo_sb n = 2" using n by (simp add: slot_block_def IPB_val)
  have "slot_index n * INODE_SIZE + INODE_SIZE \<le> UB"
    using ino.slot_bound [OF slot_index_bound, of UB n] inodes_fill_block by simp
  then have "slice zeros (slot_index n * INODE_SIZE) (slot_index n * INODE_SIZE + INODE_SIZE) = replicate INODE_SIZE 0"
    by (simp add: zeros_def slice_replicate)
  then show ?thesis
    using inode_decode_zeros by (simp add: inode_at_def demo_disk0_def b demo_view ino.get_slot_def)
qed

lemma demo_inode_at:
  assumes "1 \<le> n" "n \<le> 10"
  shows "inode_at (disk demo_ext demo_album) n = (if n = 1 then demo_root else if n = 2 then demo_file else inode_default)"
proof -
  have i: "ino_ok demo_disk0 1" "ino_ok demo_disk0 2" "ino_ok demo_disk0 n" using assms by (simp_all add: demo_ino)
  let ?d = "set_inode demo_disk0 1 demo_root"
  note ok1 = set_inode_ok [OF demo_disk0_ok i(1) demo_inodes(1)]
  have j: "ino_ok ?d 2" "ino_ok ?d n" using i(2,3) by (simp_all add: ino_ok_def set_inode_def)
  show ?thesis
    unfolding demo_disk inode_at_set [OF ok1 j demo_inodes(2)] inode_at_set [OF demo_disk0_ok i(1,3) demo_inodes(1)]
    using demo_disk0_free [OF assms] by simp
qed

lemma demo_disk_sel:
  "dk_sb (disk demo_ext demo_album) = demo_sb" "dk_used (disk demo_ext demo_album) = {0, 1, 2, 3}"
  "dk_block (disk demo_ext demo_album) 3 = demo_root_block"
  "4 \<le> l \<Longrightarrow> l < 12 \<Longrightarrow> dk_block (disk demo_ext demo_album) l = zeros"
proof -
  have "slot_block demo_sb 1 = 2" "slot_block demo_sb 2 = 2" by (simp_all add: slot_block_def IPB_val)
  then show "dk_sb (disk demo_ext demo_album) = demo_sb" "dk_used (disk demo_ext demo_album) = {0, 1, 2, 3}"
    "dk_block (disk demo_ext demo_album) 3 = demo_root_block"
    "4 \<le> l \<Longrightarrow> l < 12 \<Longrightarrow> dk_block (disk demo_ext demo_album) l = zeros"
    unfolding demo_disk by (simp_all add: set_inode_def demo_disk0_def demo_bitmap_facts demo_view)
qed

text \<open>The trees: the root has block 3 at index 0, the file has none.\<close>

lemma demo_ptr:
  "ptr V demo_root n = (if n = Data 0 then 3 else 0)" if "valid_node n"
  by (cases n) (auto simp: demo_root_def inode_default_def Let_def nth_Cons split: nat.split)

lemma demo_ptr_file: "ptr V demo_file n = 0" if "valid_node n"
  by (cases n) (auto simp: demo_file_def inode_default_def Let_def)

lemma demo_trees:
  "tree (disk demo_ext demo_album) demo_root" "tree (disk demo_ext demo_album) demo_file"
  "tree_blocks V demo_root = {3}" "tree_blocks V demo_file = {}"
proof -
  show "tree (disk demo_ext demo_album) demo_root"
    unfolding tree_ok_def using demo_inodes(1) by (auto simp: demo_ptr demo_disk_sel split: if_splits)
  show "tree (disk demo_ext demo_album) demo_file"
    unfolding tree_ok_def using demo_inodes(2) by (auto simp: demo_ptr_file)
  have v: "valid_node (Data 0)" by (simp add: MAX_BLOCKS_def)
  have "3 \<in> tree_blocks V demo_root"
    unfolding tree_blocks_def
    by (intro CollectI exI [of _ "Data 0"]) (use v demo_ptr [OF v, of V] in \<open>simp del: ptr.simps\<close>)
  moreover have "tree_blocks V demo_root \<subseteq> {3}"
    unfolding tree_blocks_def by (auto simp: demo_ptr simp del: ptr.simps split: if_splits)
  ultimately show "tree_blocks V demo_root = {3}" by blast
  show "tree_blocks V demo_file = {}" unfolding tree_blocks_def by (auto simp: demo_ptr_file)
qed

lemma demo_mapped:
  "k < MAX_BLOCKS \<Longrightarrow> mapped V demo_root k = (if k = 0 then 3 else 0)"
  "k < MAX_BLOCKS \<Longrightarrow> mapped V demo_file k = 0"
  by (simp_all add: mapped_def demo_ptr demo_ptr_file del: ptr.simps)

lemma demo_file_ok: "file_ok (disk demo_ext demo_album) 1" "file_ok (disk demo_ext demo_album) 2"
proof -
  have i: "ino_ok (disk demo_ext demo_album) 1" "ino_ok (disk demo_ext demo_album) 2"
    by (simp_all add: ino_ok_def demo_disk_sel)
  have s: "unat (i_size demo_root) = UB" "unat (i_size demo_file) = 0"
    by (simp_all add: demo_root_def demo_file_def inode_default_def UB_val)
  have z: "zeros ! (p mod UB) = 0" for p by (simp add: zeros_def)
  have b: "byte_at V demo_root p = 0" if "p < MAX_BYTES" "UB \<le> p" for V p
  proof -
    have "p div UB \<noteq> 0" using that(2) by (simp add: div_eq_0_iff)
    then show ?thesis using demo_mapped(1) [OF in_max_bytes [OF that(1)]] z by (simp add: byte_at_def logical_def)
  qed
  have c: "byte_at V demo_file p = 0" if "p < MAX_BYTES" for V p
    using demo_mapped(2) [OF in_max_bytes [OF that]] z by (simp add: byte_at_def logical_def)
  have m: "UB \<le> MAX_BYTES" by (simp add: MAX_BYTES_def MAX_BLOCKS_def)
  show "file_ok (disk demo_ext demo_album) 1" unfolding file_ok_def using i demo_trees b s m by (simp add: demo_inode_at)
  show "file_ok (disk demo_ext demo_album) 2" unfolding file_ok_def using i demo_trees c s by (simp add: demo_inode_at)
qed

lemma demo_used: "inode_used (disk demo_ext demo_album) n \<longleftrightarrow> n = 1 \<or> n = 2"
proof -
  have "ino_ok (disk demo_ext demo_album) n \<longleftrightarrow> 1 \<le> n \<and> n \<le> 10" by (simp add: ino_ok_def demo_disk_sel)
  then show ?thesis using demo_inodes(3,4) by (auto simp: inode_used_def demo_inode_at split: if_splits)
qed

lemma demo_regular: "regular (disk demo_ext demo_album) 2" "\<not> regular (disk demo_ext demo_album) 1"
  using demo_inodes by (simp_all add: regular_def demo_inode_at)

lemma demo_volume_ok: "volume_ok (disk demo_ext demo_album)"
proof -
  have "file_blocks (disk demo_ext demo_album) 1 = {3}" "file_blocks (disk demo_ext demo_album) 2 = {}"
    by (simp_all add: file_blocks_def demo_inode_at demo_trees)
  then show ?thesis unfolding volume_ok_def demo_used using demo_file_ok by auto
qed

lemma demo_jpeg_returns: "jpeg_returns demo_ext"
  by (simp add: jpeg_returns_def demo_ext_def)



text \<open>Its carrier can be written back.\<close>

lemma demo_static:
  "static demo_album = ([(demo_path, 0, True, 0, 12)], 12, False, None, None, demo_files, [demo_path])"
proof -
  have "keeps (bind (write_block demo_ext 3 demo_root_block) (\<lambda>_.
     bind (write_inode demo_ext 1 demo_root) (\<lambda>_. write_inode demo_ext 2 demo_file)))"
    by (intro keeps_intros)
  then have "static demo_album = static demo_empty" unfolding demo_album_def runs_def only_blocks_def by blast
  also have "static demo_empty = static demo_formatted"
    by (simp add: static_def demo_empty_def album_of_def extend_sel store.defs)
  also have "static demo_formatted = static demo_store"
    using sb.runs_write_block unfolding demo_formatted_def runs_def only_blocks_def by blast
  also have "static demo_store = ([(demo_path, 0, True, 0, 12)], 12, False, None, None, demo_files, [demo_path])"
    using demo_slots by (simp add: static_def demo_store_def new_for_format_def store_of_def demo_world_def)
  finally show ?thesis .
qed

lemma demo_static_writable:
  fixes s :: "'a store_scheme"
  assumes s: "static s = ([(demo_path, 0, True, 0, n)], n, False, None, None, demo_files, [demo_path])" and n: "unat n \<le> 23"
  shows "writable demo_ext s"
  unfolding writable_def
proof (intro allI impI)
  fix t :: "'a store_scheme" assume t: "static t = static s" "device_ok demo_ext t"
  obtain c where c: "bs_carriers t = [c]" "cs_path c = demo_path" "cs_chunk_index c = 0" "cs_is_primary c"
      "cs_block_start c = 0" "cs_block_count c = n" and e: "\<not> bs_encrypted t" "w_files t = demo_files"
    using t(1) unfolding s by (auto simp: static_def)
  show "\<exists>u. flush demo_ext t = (Ok (), u)"
  proof (cases "cs_dirty c")
    case False
    then show ?thesis using c by (simp add: flush_def flush_slot_def bind_def run_simps)
  next
    case True
    have ok: "store_ok demo_ext t" "synced demo_ext t" using t(2) by (simp_all add: device_ok_def)
    obtain b where b: "cs_buffer c = Some b" using ok(2) c(1) True by (auto simp: synced_def)
    have "length b = unat n * PB"
      using ok(1) c b by (auto simp: store_ok_def layout_wf_def layout_def slot_bytes_def)
    then obtain fs' where "codec_write_chunk demo_ext Png demo_path
        (WriteFramed \<lparr>cm_chunk_index = 0, cm_flags = 1\<rparr>) b [] demo_files = Ok fs'"
      using demo_write [of b] n by auto
    then show ?thesis
      using c b e True by (simp add: flush_def flush_slot_def bind_def run_simps demo_kind)
  qed
qed

lemma demo_writable: "writable demo_ext demo_album"
  by (rule demo_static_writable [OF demo_static]) simp

lemma demo_data: "file_data (disk demo_ext demo_album) 2 = []"
  by (simp add: file_data_def file_bytes_def demo_inode_at) (simp add: demo_file_def inode_default_def)

lemma demo_max: "n \<le> 100 \<Longrightarrow> n \<le> MAX_BYTES"
  by (simp add: MAX_BYTES_def MAX_BLOCKS_def UB_val)

lemma demo_free: "card ({dk_data (disk demo_ext demo_album)..<dk_total (disk demo_ext demo_album)} -
    dk_used (disk demo_ext demo_album)) = 8"
proof -
  have "{3 :: nat..<12} - {0, 1, 2, 3} = {4..<12}" by auto
  then show ?thesis by (simp add: demo_disk_sel)
qed


subsection \<open>Instances\<close>

theorem read_file_refines_witness:
  "\<exists>t. read_file demo_ext 2 0 5 demo_album = (Ok [], t)"
proof -
  have "file_data (disk demo_ext demo_album) 2 = []"
    by (simp add: file_data_def file_bytes_def demo_inode_at) (simp add: demo_file_def inode_default_def)
  with read_file_refines [OF demo_album_ok, of 2 0 5] demo_file_ok demo_regular show ?thesis
    by (auto simp: slice_def)
qed

theorem write_file_refines_witness:
  "\<exists>t. write_file demo_ext 2 3 [7] demo_album = (Ok 1, t) \<and> file_data (disk demo_ext t) 2 = [0, 0, 0, 7]"
proof -
  have "overwrite 3 [7] [] = ([0, 0, 0, 7] :: bytes)" by (simp add: overwrite_def numeral_3_eq_3)
  moreover have "touched 3 1 = 1" by (simp add: touched_def div_ceil_def UB_val)
  moreover obtain r t where run: "write_file demo_ext 2 3 [7] demo_album = (r, t)"
    by (cases "write_file demo_ext 2 3 [7] demo_album")
  ultimately show ?thesis
    using write_file_refines [OF demo_codec_laws demo_jpeg_returns demo_album_ok,
        where ino = 2 and offset = 3 and data = "[7]"]
      demo_file_ok demo_regular demo_writable demo_data demo_free demo_max [of 4] MAX_BYTES_u64
    by (cases r) (auto simp: replaced_def changed_def MAX64_def)
qed

theorem truncate_file_refines_witness:
  "\<exists>t. truncate_file demo_ext 2 2 demo_album = (Ok (), t) \<and> file_data (disk demo_ext t) 2 = [0, 0]"
proof -
  have "resize 2 [] = ([0, 0] :: bytes)" by (simp add: resize_def numeral_2_eq_2)
  moreover obtain r t where run: "truncate_file demo_ext 2 2 demo_album = (r, t)"
    by (cases "truncate_file demo_ext 2 2 demo_album")
  ultimately show ?thesis
    using truncate_file_refines [OF demo_codec_laws demo_jpeg_returns demo_album_ok, of 2 2]
      demo_file_ok demo_regular demo_writable demo_data demo_max [of 2]
    by (cases r) (auto simp: replaced_def changed_def)
qed

theorem write_then_read_witness:
  "\<exists>t. write_file demo_ext 2 3 [7] demo_album = (Ok 1, t) \<and> fst (read_file demo_ext 2 3 1 t) = Ok [7] \<and>
     volume_ok (disk demo_ext t)"
proof -
  have "touched 3 1 = 1" by (simp add: touched_def div_ceil_def UB_val)
  then obtain t where t: "write_file demo_ext 2 3 [7] demo_album = (Ok 1, t)"
    using wp_write_file [OF demo_codec_laws demo_jpeg_returns demo_album_ok, of 2 3 "[7]" "\<lambda>n _. n = 1" no_err]
      demo_file_ok demo_regular demo_writable demo_free demo_max [of 4]
    by (auto simp: wp_no_err)
  from write_then_read [OF demo_codec_laws demo_jpeg_returns demo_album_ok demo_volume_ok _ _ _ t]
  show ?thesis using t demo_used demo_regular demo_max [of 4] by auto
qed

theorem bmap_allocate_witness:
  "\<exists>b i' t. bmap demo_ext demo_file 0 True demo_album = (Ok (Some b, i'), t) \<and> tree (disk demo_ext t) i'"
proof -
  have m: "(0 :: nat) < MAX_BLOCKS" by (simp add: MAX_BLOCKS_def)
  have "wp (bmap demo_ext demo_file 0 True) (\<lambda>_ _. True) (\<lambda>_ t. stuck 2 (disk demo_ext demo_album) demo_file (disk demo_ext t)) demo_album"
    by (rule wp_bmap_alloc [OF demo_album_ok demo_trees(2) m]) blast+
  moreover have "\<not> stuck 2 (disk demo_ext demo_album) demo_file d" for d
  proof
    assume s: "stuck 2 (disk demo_ext demo_album) demo_file d"
    then have "{dk_data (disk demo_ext demo_album)..<dk_total (disk demo_ext demo_album)} - dk_used (disk demo_ext demo_album)
        \<subseteq> dk_used d - dk_used (disk demo_ext demo_album)" unfolding stuck_def by blast
    from card_mono [OF _ this] s show False by (simp add: demo_free stuck_def)
  qed
  moreover obtain r t where run: "bmap demo_ext demo_file 0 True demo_album = (r, t)"
    by (cases "bmap demo_ext demo_file 0 True demo_album")
  ultimately show ?thesis
    using bmap_allocate [OF demo_album_ok demo_trees(2), of 0] by (cases r) (auto simp: wp_def)
qed

theorem free_all_releases_witness:
  "\<exists>i' t. free_all_blocks demo_ext demo_root demo_album = (Ok i', t) \<and> dk_used (disk demo_ext t) = {0, 1, 2}"
proof -
  have "tidy_tree V demo_root" for V
    unfolding tidy_tree_def by (auto simp: demo_ptr simp del: ptr.simps split: if_splits)
  moreover have "div_ceil (unat (i_size demo_root)) UB = 1"
    by (simp add: demo_root_def div_ceil_def UB_val)
  ultimately show ?thesis
    using free_all_releases [OF demo_album_ok demo_trees(1)] demo_mapped(1)
    by (fastforce simp: demo_trees demo_disk_sel)
qed

theorem inode_table_array_witness:
  "\<exists>t. write_inode demo_ext 3 demo_file demo_album = (Ok (), t) \<and> fst (read_inode demo_ext 3 t) = Ok demo_file"
proof -
  have "ino_ok (disk demo_ext demo_album) (unat (3 :: u64))" by (simp add: ino_ok_def demo_disk_sel)
  with inode_table_array [OF demo_album_ok demo_inodes(2), of 3] show ?thesis by auto
qed

theorem alloc_inode_lowest_witness:
  "\<exists>t. alloc_inode demo_ext demo_album = (Ok 3, t)"
proof -
  obtain r t where run: "alloc_inode demo_ext demo_album = (r, t)" by (cases "alloc_inode demo_ext demo_album")
  have free: "ino_ok (disk demo_ext demo_album) 3" "\<not> inode_used (disk demo_ext demo_album) 3"
    by (simp_all add: ino_ok_def demo_disk_sel demo_used)
  note a = alloc_inode_lowest [OF demo_album_ok, unfolded run prod.case]
  obtain n where n: "r = Ok n" using a free by (cases r) auto
  have "unat n = 3"
  proof (rule ccontr)
    assume ne: "unat n \<noteq> 3"
    have "\<not> inode_used (disk demo_ext demo_album) (unat n)" "1 \<le> unat n"
      using a n by (auto simp: ino_ok_def)
    then have "3 < unat n" using ne demo_used by force
    then show False using a n free(2) by simp
  qed
  then have "n = 3" by (simp add: word_unat_eq_iff)
  with run n show ?thesis by simp
qed

theorem sync_reopen_witness:
  "\<exists>t a. sync demo_ext demo_album = (Ok (), t) \<and>
     album_open_store demo_ext (Ok (al_sb t, closed t)) = Ok a \<and> disk demo_ext a = disk demo_ext t"
proof -
  obtain r t where run: "sync demo_ext demo_album = (r, t)" by (cases "sync demo_ext demo_album")
  with sync_reopen [OF demo_codec_laws demo_jpeg_returns demo_album_ok] demo_writable show ?thesis
    by (cases r) auto
qed

end
