(* ===== verification/DirData.thy ===== *)
theory DirData
  imports DirReach FileData
begin

text \<open>
  The contents of a directory as a finite map from names to inodes: what the chains of its blocks
  list, the invariant of the blocks, and what one changed or appended block does to the map.
\<close>

subsection \<open>The blocks of a directory\<close>

definition dir_chunk :: "bytes \<Rightarrow> nat \<Rightarrow> bytes" where
  "dir_chunk xs k = slice xs (k * UB) (k * UB + UB)"

definition chain :: "bytes \<Rightarrow> (nat \<times> dir_entry) list" where
  "chain p = (case scan_entries p 0 of Ok es \<Rightarrow> es | _ \<Rightarrow> [])"

definition chained :: "bytes \<Rightarrow> bool" where
  "chained p \<longleftrightarrow> (\<exists>es. scan_entries p 0 = Ok es)"

definition dir_entries :: "bytes \<Rightarrow> nat list \<Rightarrow> (nat \<times> dir_entry) list" where
  "dir_entries xs ks = concat (map (\<lambda>k. map (\<lambda>(off, e). (k * UB + off, e)) (chain (dir_chunk xs k))) ks)"

definition dir_list :: "bytes \<Rightarrow> (u64 \<times> bytes \<times> u8) list" where
  "dir_list xs = concat (map (\<lambda>k. listing (chain (dir_chunk xs k))) [0..<length xs div UB])"

definition dir_names :: "(u64 \<times> bytes \<times> u8) list \<Rightarrow> bytes list" where
  "dir_names es = map (\<lambda>(_, name, _). name) es"

definition dir_map :: "bytes \<Rightarrow> bytes \<rightharpoonup> u64 \<times> u8" where
  "dir_map xs = map_of (map (\<lambda>(i, name, t). (name, (i, t))) (dir_list xs))"

text \<open>
  The invariant: whole blocks, \<open>.\<close> leads the first one, every chain decodes, no name twice.
\<close>

definition dir_bytes_ok :: "u64 \<Rightarrow> bytes \<Rightarrow> bool" where
  "dir_bytes_ok ino xs \<longleftrightarrow> UB dvd length xs \<and> 0 < length xs \<and> first_block_ok ino (dir_chunk xs 0) \<and>
     (\<forall>k < length xs div UB. chained (dir_chunk xs k)) \<and> distinct (dir_names (dir_list xs))"

lemma dir_bytes_okD:
  assumes "dir_bytes_ok ino xs"
  shows "UB dvd length xs" "0 < length xs" "first_block_ok ino (dir_chunk xs 0)"
    "k < length xs div UB \<Longrightarrow> chained (dir_chunk xs k)" "distinct (dir_names (dir_list xs))"
    "0 < length xs div UB"
proof -
  show l: "UB dvd length xs" "0 < length xs" "first_block_ok ino (dir_chunk xs 0)"
    "k < length xs div UB \<Longrightarrow> chained (dir_chunk xs k)" "distinct (dir_names (dir_list xs))"
    using assms unfolding dir_bytes_ok_def by blast+
  show "0 < length xs div UB" using dvd_imp_le [OF l(1,2)] by (simp add: div_greater_zero_iff)
qed

lemma chained_chain: "chained p \<longleftrightarrow> scan_entries p 0 = Ok (chain p)"
  by (auto simp: chained_def chain_def)

lemma chain_Ok: "scan_entries p 0 = Ok es \<Longrightarrow> chain p = es"
  by (simp add: chain_def)

lemma first_block_chained: "first_block_ok ino p \<Longrightarrow> chained p"
  by (auto simp: first_block_ok_def chained_def)

text \<open>A block of zeros is no chain, so a directory has no holes.\<close>

lemma zeros_unchained: "\<not> chained zeros"
proof -
  have "dirent_decode zeros 0 \<noteq> Ok e" for e
  proof
    assume d: "dirent_decode zeros 0 = Ok e"
    have l: "length zeros = UB" by (simp add: zeros_def)
    have "decodes zeros 0 e"
      using d dirent_decode_Ok_iff [of zeros 0 e] l by (simp add: UB_val MAX64_def)
    moreover have "slice zeros 8 10 = replicate 2 0" by (simp add: zeros_def slice_replicate UB_val)
    ultimately show False by (auto simp: decodes_def)
  qed
  then show ?thesis unfolding chained_def by (subst scan_entries.simps) auto
qed

lemma block_bound: "k < n div UB \<Longrightarrow> k * UB + UB \<le> n"
proof -
  assume "k < n div UB"
  then have "Suc k * UB \<le> n div UB * UB" by (intro mult_le_mono1) simp
  also have "\<dots> \<le> n" by simp
  finally show ?thesis by simp
qed

lemma length_dir_chunk: "k < length xs div UB \<Longrightarrow> length (dir_chunk xs k) = UB"
  using block_bound [of k "length xs"] by (simp add: dir_chunk_def)


subsection \<open>The map\<close>

lemma dir_names_append [simp]: "dir_names (xs @ ys) = dir_names xs @ dir_names ys"
  by (simp add: dir_names_def)

lemma dir_map_dom: "name \<in> set (dir_names (dir_list xs)) \<longleftrightarrow> dir_map xs name \<noteq> None"
proof -
  have "fst ` set (map (\<lambda>(i, name, t). (name, (i, t))) es) = set (dir_names es)" for es :: "(u64 \<times> bytes \<times> u8) list"
    by (induction es) (auto simp: dir_names_def)
  then show ?thesis unfolding dir_map_def using map_of_eq_None_iff by metis
qed

text \<open>Lookup takes the first live record of the name, over all blocks.\<close>

lemma find_entries:
  "map_option (\<lambda>(_, e). d_inode e) (find (\<lambda>(_, e). d_inode e \<noteq> 0 \<and> d_name e = name) es) =
     map_option fst (map_of (map (\<lambda>(i, name, t). (name, (i, t))) (listing es)) name)"
  by (induction es) (auto simp: listing_def live_def)

lemma listing_concat: "listing (concat ess) = concat (map listing ess)"
  by (induction ess) auto

lemma listing_shift: "listing (map (\<lambda>(off, e). (c + off, e)) es) = listing es"
  by (induction es) auto

lemma listing_dir_entries: "listing (dir_entries xs ks) = concat (map (\<lambda>k. listing (chain (dir_chunk xs k))) ks)"
  by (simp add: dir_entries_def listing_concat comp_def listing_shift)

lemma dir_lookup:
  "map_option (\<lambda>(_, e). d_inode e) (find (\<lambda>(_, e). d_inode e \<noteq> 0 \<and> d_name e = name)
     (dir_entries xs [0..<length xs div UB])) = map_option fst (dir_map xs name)"
  by (simp add: find_entries listing_dir_entries dir_map_def dir_list_def)


subsection \<open>One changed block\<close>

lemma upt_at: "k < n \<Longrightarrow> [0..<n] = [0..<k] @ k # [Suc k..<n]"
  by (metis less_imp_le_nat upt_add_eq_append upt_conv_Cons le_add_diff_inverse zero_le)

lemma dir_chunk_put:
  assumes "k < length xs div UB" "length p = UB"
  shows "dir_chunk (put xs (k * UB) p) k = p" "j \<noteq> k \<Longrightarrow> dir_chunk (put xs (k * UB) p) j = dir_chunk xs j"
    "length (put xs (k * UB) p) = length xs"
proof -
  have b: "k * UB + UB \<le> length xs" by (rule block_bound [OF assms(1)])
  show "dir_chunk (put xs (k * UB) p) k = p" unfolding dir_chunk_def by (rule slice_put_same) (use assms b in simp_all)
  show "length (put xs (k * UB) p) = length xs" using assms b by simp
  assume "j \<noteq> k"
  then have "Suc j \<le> k \<or> Suc k \<le> j" by linarith
  then have "j * UB + UB \<le> k * UB \<or> k * UB + UB \<le> j * UB"
    using mult_le_mono1 [of "Suc j" k UB] mult_le_mono1 [of "Suc k" j UB] by auto
  then show "dir_chunk (put xs (k * UB) p) j = dir_chunk xs j"
    using assms b by (auto simp: dir_chunk_def slice_put_before slice_put_after)
qed

lemma dir_list_put:
  assumes "k < length xs div UB" "length p = UB"
  obtains A B where "dir_list xs = A @ listing (chain (dir_chunk xs k)) @ B"
    "dir_list (put xs (k * UB) p) = A @ listing (chain p) @ B"
proof (rule that)
  let ?f = "\<lambda>k. listing (chain (dir_chunk xs k))"
  let ?A = "concat (map ?f [0..<k])" and ?B = "concat (map ?f [Suc k..<length xs div UB])"
  note c = dir_chunk_put [OF assms]
  show "dir_list xs = ?A @ ?f k @ ?B" by (simp add: dir_list_def upt_at [OF assms(1)])
  have m: "map (\<lambda>j. listing (chain (dir_chunk (put xs (k * UB) p) j))) js = map ?f js" if "k \<notin> set js" for js
    by (rule map_cong [OF refl]) (metis c(2) that)
  have "k \<notin> set [0..<k]" "k \<notin> set [Suc k..<length xs div UB]" by simp_all
  note m = this [THEN m]
  show "dir_list (put xs (k * UB) p) = ?A @ listing (chain p) @ ?B"
    unfolding dir_list_def c(3) upt_at [OF assms(1)] map_append list.map m c(1) by simp
qed

lemma dir_bytes_ok_put:
  assumes ok: "dir_bytes_ok ino xs" and k: "k < length xs div UB" and p: "length p = UB" "chained p"
    and first: "k = 0 \<Longrightarrow> first_block_ok ino p"
    and names: "distinct (dir_names (dir_list (put xs (k * UB) p)))"
  shows "dir_bytes_ok ino (put xs (k * UB) p)"
proof -
  note O = dir_bytes_okD [OF ok] and c = dir_chunk_put [OF k p(1)]
  have "chained (dir_chunk (put xs (k * UB) p) j)" if "j < length xs div UB" for j
    using c(1,2) p(2) O(4) [OF that] by (cases "j = k") simp_all
  moreover have "first_block_ok ino (dir_chunk (put xs (k * UB) p) 0)"
    using c(1,2) first O(3) by (cases "k = 0") simp_all
  ultimately show ?thesis unfolding dir_bytes_ok_def c(3) using O(1,2) names by blast
qed

text \<open>A block appended to the directory.\<close>

lemma dir_chunk_append:
  assumes "UB dvd length xs" "length p = UB"
  shows "k < length xs div UB \<Longrightarrow> dir_chunk (xs @ p) k = dir_chunk xs k"
    "dir_chunk (xs @ p) (length xs div UB) = p" "length (xs @ p) div UB = Suc (length xs div UB)"
proof -
  show "dir_chunk (xs @ p) k = dir_chunk xs k" if "k < length xs div UB"
    using block_bound [OF that] by (simp add: dir_chunk_def slice_def)
  have "length xs div UB * UB = length xs" using assms(1) by simp
  then show "dir_chunk (xs @ p) (length xs div UB) = p" using assms(2) by (simp add: dir_chunk_def slice_def)
  show "length (xs @ p) div UB = Suc (length xs div UB)" using assms by simp
qed

lemma dir_list_append:
  assumes "UB dvd length xs" "length p = UB"
  shows "dir_list (xs @ p) = dir_list xs @ listing (chain p)"
proof -
  note c = dir_chunk_append [OF assms]
  have m: "map (\<lambda>k. listing (chain (dir_chunk (xs @ p) k))) [0..<length xs div UB] =
      map (\<lambda>k. listing (chain (dir_chunk xs k))) [0..<length xs div UB]"
    by (rule map_cong [OF refl]) (use c(1) in auto)
  show ?thesis unfolding dir_list_def c(3) upt_Suc_append [OF zero_le] map_append m concat_append by (simp add: c(2))
qed

lemma dir_bytes_ok_append:
  assumes ok: "dir_bytes_ok ino xs" and p: "length p = UB" "chained p"
    and names: "distinct (dir_names (dir_list (xs @ p)))"
  shows "dir_bytes_ok ino (xs @ p)"
proof -
  note O = dir_bytes_okD [OF ok] and c = dir_chunk_append [OF dir_bytes_okD(1) [OF ok] p(1)]
  have "chained (dir_chunk (xs @ p) j)" if "j < Suc (length xs div UB)" for j
    using c(1,2) p(2) O(4) that by (cases "j = length xs div UB") (simp_all add: less_Suc_eq)
  moreover have "dir_chunk (xs @ p) 0 = dir_chunk xs 0" by (rule c(1)) (rule O(6))
  moreover have "UB dvd length (xs @ p)" using O(1) p(1) by simp
  ultimately show ?thesis unfolding dir_bytes_ok_def c(3) using O(2,3) names by simp
qed


subsection \<open>One more, one less name\<close>

lemma map_of_mid:
  assumes "distinct (map fst (xs @ (k, v) # ys))"
  shows "map_of (xs @ (k, v) # ys) = (map_of (xs @ ys))(k \<mapsto> v)" "map_of (xs @ ys) = (map_of (xs @ (k, v) # ys))(k := None)"
proof -
  have n: "map_of xs k = None" "map_of ys k = None"
    using assms by (auto simp: map_of_eq_None_iff)
  show "map_of (xs @ (k, v) # ys) = (map_of (xs @ ys))(k \<mapsto> v)"
    "map_of (xs @ ys) = (map_of (xs @ (k, v) # ys))(k := None)"
    using n by (auto simp: fun_eq_iff map_add_def split: option.split)
qed

lemma names_of: "map fst (map (\<lambda>(i, name, t). (name, (i, t))) es) = dir_names es"
  by (induction es) (auto simp: dir_names_def)

lemma dir_map_insert:
  assumes "dir_list xs = A @ B" "dir_list ys = A @ (i, name, t) # B" "distinct (dir_names (dir_list xs))"
    and "dir_map xs name = None"
  shows "distinct (dir_names (dir_list ys))" "dir_map ys = (dir_map xs)(name \<mapsto> (i, t))"
proof -
  have "name \<notin> set (dir_names (A @ B))" using dir_map_dom [of name xs] assms(1,4) by simp
  with assms(1-3) show d: "distinct (dir_names (dir_list ys))" by (auto simp: dir_names_def)
  let ?m = "map (\<lambda>(i, name, t). (name, (i :: u64, t :: u8)))"
  have "distinct (map fst (?m A @ (name, (i, t)) # ?m B))"
    using d unfolding assms(2) names_of [symmetric] by simp
  from map_of_mid(1) [OF this] show "dir_map ys = (dir_map xs)(name \<mapsto> (i, t))"
    unfolding dir_map_def assms(1,2) by simp
qed

lemma dir_map_delete:
  assumes "dir_list xs = A @ (i, name, t) # B" "dir_list ys = A @ B" "distinct (dir_names (dir_list xs))"
  shows "distinct (dir_names (dir_list ys))" "dir_map ys = (dir_map xs)(name := None)"
    "dir_map xs name = Some (i, t)"
proof -
  from assms show "distinct (dir_names (dir_list ys))" by (auto simp: dir_names_def)
  let ?m = "map (\<lambda>(i, name, t). (name, (i :: u64, t :: u8)))"
  have d: "distinct (map fst (?m A @ (name, (i, t)) # ?m B))"
    using assms(3) unfolding assms(1) names_of [symmetric] by simp
  from map_of_mid [OF this] show "dir_map ys = (dir_map xs)(name := None)" "dir_map xs name = Some (i, t)"
    unfolding dir_map_def assms(1,2) by simp_all
qed


subsection \<open>Directories without free records\<close>

definition packed :: "bytes \<Rightarrow> bool" where
  "packed xs \<longleftrightarrow> (\<forall>k < length xs div UB. \<forall>x \<in> set (chain (dir_chunk xs k)). live x)"

lemma packed_put:
  assumes "packed xs" "k < length xs div UB" "length p = UB" "\<forall>x \<in> set (chain p). live x"
  shows "packed (put xs (k * UB) p)"
  unfolding packed_def
proof (intro allI impI)
  fix j assume "j < length (put xs (k * UB) p) div UB"
  then show "\<forall>x \<in> set (chain (dir_chunk (put xs (k * UB) p) j)). live x"
    using dir_chunk_put [OF assms(2,3)] assms(1,4) unfolding packed_def by (cases "j = k") simp_all
qed

lemma packed_append:
  assumes "packed xs" "UB dvd length xs" "length p = UB" "\<forall>x \<in> set (chain p). live x"
  shows "packed (xs @ p)"
  unfolding packed_def
proof (intro allI impI)
  note c = dir_chunk_append [OF assms(2,3)]
  fix j assume "j < length (xs @ p) div UB"
  then consider "j < length xs div UB" | "j = length xs div UB" unfolding c(3) by linarith
  then show "\<forall>x \<in> set (chain (dir_chunk (xs @ p) j)). live x"
    using c(1,2) assms(1,4) unfolding packed_def by cases simp_all
qed

text \<open>A directory of one block has none.\<close>

lemma packed_one_block:
  assumes "dir_bytes_ok i xs" "length xs = UB"
  shows "packed xs"
  using dir_bytes_okD(3) [OF assms(1)] assms(2) by (auto simp: packed_def first_block_ok_def chain_Ok)

end
