(* ===== verification/DirOps.thy ===== *)
theory DirOps
  imports DirData AlbumSpec
begin

text \<open>
  The operations of \<^verbatim>\<open>src/fs/album.rs\<close> on the entries of one directory against the map of
  \<open>DirData\<close>: looking up, listing, adding and removing a name.
\<close>

subsection \<open>Directories on the disk\<close>

definition dir_ok :: "disk \<Rightarrow> nat \<Rightarrow> bool" where
  "dir_ok d n \<longleftrightarrow> file_ok d n \<and> i_mode (inode_at d n) \<noteq> 0 \<and> is_dir (inode_at d n) \<and>
     dir_bytes_ok (of_nat n) (file_data d n)"

definition names :: "disk \<Rightarrow> nat \<Rightarrow> bytes \<rightharpoonup> u64 \<times> u8" where
  "names d n = dir_map (file_data d n)"

abbreviation dir_blocks :: "disk \<Rightarrow> nat \<Rightarrow> nat" where
  "dir_blocks d n \<equiv> length (file_data d n) div UB"

lemma dir_okD:
  assumes "dir_ok d n"
  shows "file_ok d n" "i_mode (inode_at d n) \<noteq> 0" "is_dir (inode_at d n)"
    "dir_bytes_ok (of_nat n) (file_data d n)"
  using assms unfolding dir_ok_def by blast+

lemma length_file_data [simp]: "length (file_data d n) = unat (i_size (inode_at d n))"
  by (simp add: file_data_def)

lemma dir_blocks_ceil:
  assumes "dir_ok d n"
  shows "div_ceil (unat (i_size (inode_at d n))) UB = dir_blocks d n"
  using dir_bytes_okD(1) [OF dir_okD(4) [OF assms]] by (auto simp: div_ceil_def)

lemma dir_block:
  assumes ok: "disk_ok d" and dir: "dir_ok d n" and k: "k < dir_blocks d n"
  shows "k < MAX_BLOCKS" "mapped (dk_block d) (inode_at d n) k \<noteq> 0"
    "unat (mapped (dk_block d) (inode_at d n) k) < dk_total d"
    "dk_block d (unat (mapped (dk_block d) (inode_at d n) k)) = dir_chunk (file_data d n) k"
proof -
  let ?V = "dk_block d" and ?i = "inode_at d n"
  note F = file_okD [OF dir_okD(1) [OF dir]] and D = dir_bytes_okD [OF dir_okD(4) [OF dir]]
  have b: "k * UB + UB \<le> unat (i_size ?i)" using block_bound [OF k] by simp
  then have "k * UB < MAX_BYTES" using F(3) by (simp add: UB_val)
  from in_max_bytes [OF this] show km: "k < MAX_BLOCKS" by simp
  have full: "blocks_full (dk_total d) ?V" using ok by (simp add: disk_ok_def)
  have "slice (logical ?V ?i k) 0 UB = file_bytes ?V ?i (k * UB) (k * UB + UB)"
    using slice_logical [of ?V ?i "k * UB" UB] logical_length [OF F(2) full km] by simp
  moreover have "slice (logical ?V ?i k) 0 UB = logical ?V ?i k"
    using logical_length [OF F(2) full km] by (simp add: slice_def)
  ultimately have c: "dir_chunk (file_data d n) k = logical ?V ?i k"
    using b by (simp add: dir_chunk_def file_data_def slice_file_bytes)
  have "chained (logical ?V ?i k)" using D(4) [OF k] c by simp
  then show m: "mapped ?V ?i k \<noteq> 0" using zeros_unchained by (auto simp: logical_def)
  show "unat (mapped ?V ?i k) < dk_total d" by (rule mapped_used(3) [OF F(2) km m])
  show "?V (unat (mapped ?V ?i k)) = dir_chunk (file_data d n) k" using c m by (simp add: logical_def)
qed

lemma wp_dir_bmap:
  fixes s :: "'a album_scheme"
  assumes ok: "album_ok e s" and dir: "dir_ok (disk e s) n" and k: "k < dir_blocks (disk e s) n"
    and Q: "\<And>t. album_ok e t \<Longrightarrow> disk e t = disk e s \<Longrightarrow>
      Q (Some (mapped (dk_block (disk e s)) (inode_at (disk e s) n) k), inode_at (disk e s) n) t"
  shows "wp (bmap e (inode_at (disk e s) n) k False) Q E s"
proof (rule wp_bmap_lookup [OF ok])
  note B = dir_block [OF album_ok_disk [OF ok] dir k]
  show "tree (disk e s) (inode_at (disk e s) n)" by (rule file_okD(2) [OF dir_okD(1) [OF dir]])
  show "k < MAX_BLOCKS" by (rule B(1))
  fix t :: "'a album_scheme" assume "album_ok e t" "disk e t = disk e s"
  with Q B(2) show "Q (then_some (mapped (dk_block (disk e s)) (inode_at (disk e s) n) k), inode_at (disk e s) n) t"
    by (simp add: then_some_def)
qed

lemma wp_dir_read:
  fixes s :: "'a album_scheme"
  assumes ok: "album_ok e s" and dir: "dir_ok (disk e s) n" and k: "k < dir_blocks (disk e s) n"
    and Q: "\<And>t. album_ok e t \<Longrightarrow> disk e t = disk e s \<Longrightarrow> Q (dir_chunk (file_data (disk e s) n) k) t"
  shows "wp (read_block e (unat (mapped (dk_block (disk e s)) (inode_at (disk e s) n) k))) Q E s"
  using wp_disk_read [OF ok dir_block(3) [OF album_ok_disk [OF ok] dir k], of Q] Q
    dir_block(4) [OF album_ok_disk [OF ok] dir k] by simp


subsection \<open>Reading the entries\<close>

lemma dir_entries_Cons:
  "dir_entries xs (k # ks) = map (\<lambda>(off, e). (k * UB + off, e)) (chain (dir_chunk xs k)) @ dir_entries xs ks"
  by (simp add: dir_entries_def)

lemma wp_entries_loop:
  fixes s :: "'a album_scheme"
  assumes "album_ok e s" "dir_ok (disk e s) n" "\<forall>k \<in> set ks. k < dir_blocks (disk e s) n"
    and "\<And>t. album_ok e t \<Longrightarrow> disk e t = disk e s \<Longrightarrow> Q (dir_entries (file_data (disk e s) n) ks) t"
  shows "wp (entries_loop e (inode_at (disk e s) n) ks) Q E s"
  using assms
proof (induction ks arbitrary: s Q)
  case Nil
  then show ?case by (simp add: wp_simps dir_entries_def)
next
  case (Cons k ks)
  let ?d = "disk e s" and ?xs = "file_data (disk e s) n"
  have k: "k < dir_blocks ?d n" using Cons.prems(3) by simp
  have c: "scan_entries (dir_chunk ?xs k) 0 = Ok (chain (dir_chunk ?xs k))"
    using dir_bytes_okD(4) [OF dir_okD(4) [OF Cons.prems(2)] k] by (simp add: chained_chain)
  have rest: "wp (entries_loop e (inode_at ?d n) ks) (\<lambda>rest.
      wp (ret (map (\<lambda>(off, e). (k * UB + off, e)) (chain (dir_chunk ?xs k)) @ rest)) Q E) E u"
    if u: "album_ok e u" "disk e u = ?d" for u :: "'a album_scheme"
    unfolding u(2) [symmetric]
    by (rule Cons.IH [OF u(1)]) (use Cons.prems u in \<open>simp_all add: wp_simps dir_entries_Cons\<close>)
  show ?case
    unfolding entries_loop.simps wp_bind
  proof (rule wp_dir_bmap [OF Cons.prems(1,2) k])
    fix t :: "'a album_scheme" assume t: "album_ok e t" "disk e t = ?d"
    have "wp (read_block e (unat (mapped (dk_block ?d) (inode_at ?d n) k))) (\<lambda>payload.
        wp (bind (lift (scan_entries payload 0)) (\<lambda>entries.
         bind (entries_loop e (inode_at ?d n) ks) (\<lambda>rest.
         ret (map (\<lambda>(off, e). (k * UB + off, e)) entries @ rest)))) Q E) E t"
      unfolding t(2) [symmetric]
      by (rule wp_dir_read [OF t(1)]) (use Cons.prems(2) k c rest t in \<open>simp_all add: wp_simps\<close>)
    then show "wp (case (Some (mapped (dk_block ?d) (inode_at ?d n) k), inode_at ?d n) of
        (block, inode) \<Rightarrow> case block of None \<Rightarrow> entries_loop e inode ks
        | Some block \<Rightarrow> bind (read_block e (unat block)) (\<lambda>payload.
            bind (lift (scan_entries payload 0)) (\<lambda>entries.
            bind (entries_loop e inode ks) (\<lambda>rest.
            ret (map (\<lambda>(off, e). (k * UB + off, e)) entries @ rest))))) Q E t"
      by (simp add: wp_bind)
  qed
qed

lemma wp_directory_entries:
  fixes s :: "'a album_scheme"
  assumes ok: "album_ok e s" and dir: "dir_ok (disk e s) n"
    and Q: "\<And>t. album_ok e t \<Longrightarrow> disk e t = disk e s \<Longrightarrow>
      Q (dir_entries (file_data (disk e s) n) [0..<dir_blocks (disk e s) n]) t"
  shows "wp (directory_entries e (inode_at (disk e s) n)) Q E s"
  unfolding directory_entries_def Let_def dir_blocks_ceil [OF dir]
  by (rule wp_entries_loop [OF ok dir]) (use Q in simp_all)

lemma wp_lookup:
  fixes s :: "'a album_scheme"
  assumes ok: "album_ok e s" and dir: "dir_ok (disk e s) (unat ino)"
    and Q: "\<And>t. album_ok e t \<Longrightarrow> disk e t = disk e s \<Longrightarrow>
      Q (map_option fst (names (disk e s) (unat ino) name)) t"
  shows "wp (lookup e ino name) Q E s"
  unfolding lookup_def wp_bind [of "getattr e ino"]
proof (rule wp_getattr [OF ok])
  show "ino_ok (disk e s) (unat ino)" by (rule file_okD(1) [OF dir_okD(1) [OF dir]])
  show "i_mode (inode_at (disk e s) (unat ino)) \<noteq> 0" by (rule dir_okD(2) [OF dir])
  fix t :: "'a album_scheme" assume t: "album_ok e t" "disk e t = disk e s"
  have "wp (directory_entries e (inode_at (disk e t) (unat ino))) (\<lambda>entries.
      wp (ret (map_option (\<lambda>(_, entry). d_inode entry)
         (find (\<lambda>(_, entry). d_inode entry \<noteq> 0 \<and> d_name entry = name) entries))) Q E) E t"
    by (rule wp_directory_entries [OF t(1)])
      (use dir t Q in \<open>simp_all add: wp_simps dir_lookup [of name "file_data (disk e s) (unat ino)", simplified] names_def\<close>)
  then show "wp (if \<not> is_dir (inode_at (disk e s) (unat ino)) then raise NotDir
      else bind (directory_entries e (inode_at (disk e s) (unat ino))) (\<lambda>entries.
       ret (map_option (\<lambda>(_, entry). d_inode entry)
         (find (\<lambda>(_, entry). d_inode entry \<noteq> 0 \<and> d_name entry = name) entries)))) Q E t"
    using dir_okD(3) [OF dir] t(2) by (simp add: wp_bind)
qed

lemma listing_filter:
  "map (\<lambda>(_, entry). (d_inode entry, d_name entry, d_file_type entry))
     (filter (\<lambda>(_, entry). d_inode entry \<noteq> 0) es) = listing es"
  by (simp add: listing_def live_def [abs_def] case_prod_beta')

lemma wp_readdir:
  fixes s :: "'a album_scheme"
  assumes ok: "album_ok e s" and dir: "dir_ok (disk e s) (unat ino)"
    and Q: "\<And>t. album_ok e t \<Longrightarrow> disk e t = disk e s \<Longrightarrow> Q (dir_list (file_data (disk e s) (unat ino))) t"
  shows "wp (readdir e ino) Q E s"
  unfolding readdir_def wp_bind [of "getattr e ino"]
proof (rule wp_getattr [OF ok])
  show "ino_ok (disk e s) (unat ino)" by (rule file_okD(1) [OF dir_okD(1) [OF dir]])
  show "i_mode (inode_at (disk e s) (unat ino)) \<noteq> 0" by (rule dir_okD(2) [OF dir])
  fix t :: "'a album_scheme" assume t: "album_ok e t" "disk e t = disk e s"
  have "wp (directory_entries e (inode_at (disk e t) (unat ino))) (\<lambda>entries. wp (ret (listing entries)) Q E) E t"
    by (rule wp_directory_entries [OF t(1)])
      (use dir t Q in \<open>simp_all add: wp_simps listing_dir_entries dir_list_def\<close>)
  then show "wp (if \<not> is_dir (inode_at (disk e s) (unat ino)) then raise NotDir
      else bind (directory_entries e (inode_at (disk e s) (unat ino))) (\<lambda>entries.
       ret (map (\<lambda>(_, entry). (d_inode entry, d_name entry, d_file_type entry))
         (filter (\<lambda>(_, entry). d_inode entry \<noteq> 0) entries)))) Q E t"
    using dir_okD(3) [OF dir] t(2) by (simp add: wp_bind listing_filter)
qed

end
