(* ===== verification/DirEdit.thy ===== *)
theory DirEdit
  imports DirOps
begin

text \<open>
  Adding and removing a name: one block of the directory is rewritten, or a block appended, and the
  inode is stored with a new time.
\<close>

subsection \<open>Rewriting a block\<close>

lemma wp_bind_fun: "wp (bind m f) Q E = wp m (\<lambda>x. wp (f x) Q E) E"
  by (rule ext) (rule wp_bind)

lemma wp_bump:
  fixes s :: "'a album_scheme"
  assumes dk: "disk_ok d" and n: "ino_ok d (unat ino)" and ok: "album_ok e s"
    and ed: "edits P d (inode_at d (unat ino)) (disk e s) i1"
    and cong: "i_direct i2 = i_direct i1" "i_single i2 = i_single i1" "i_double i2 = i_double i1"
      "i_mode i2 = i_mode i1" "i_nlink i2 = i_nlink i1"
    and sz: "unat (i_size i2) = sz" "sz \<le> MAX_BYTES"
    and zero: "\<And>p. p < MAX_BYTES \<Longrightarrow> sz \<le> p \<Longrightarrow> byte_at (dk_block (disk e s)) i1 p = 0"
    and xs: "file_bytes (dk_block (disk e s)) i1 0 sz = xs"
    and Q: "\<And>t. album_ok e t \<Longrightarrow> changed xs (unat ino) d (disk e t) \<Longrightarrow>
      dk_bitmap (disk e t) = dk_bitmap (disk e s) \<Longrightarrow> Q () t"
  shows "wp (bump_directory e ino i2) Q E s"
  unfolding bump_directory_def wp_bind
proof (rule wp_disk_now [OF ok])
  fix now and v :: "'a album_scheme" assume v: "album_ok e v" "disk e v = disk e s"
  let ?i = "i2\<lparr>i_mtime := now, i_ctime := now\<rparr>"
  note Ed = editsD [OF ed]
  have n1: "ino_ok (disk e v) (unat ino)" using n others_keptD(1) [OF Ed(1)] v(2) by (simp add: ino_ok_def)
  have wf: "inode_wf ?i" using tree_ok_wf [OF Ed(2)] cong(1) by (simp add: inode_wf_def)
  have "changed xs (unat ino) d (set_inode (disk e s) (unat ino) ?i)"
    by (rule changedI [OF dk n ed album_ok_disk [OF ok]]) (use cong sz zero xs in simp_all)
  then show "wp (write_inode e ino ?i) Q E v"
    by (intro wp_write_inode [OF v(1) n1 wf]) (use Q v(2) in \<open>simp add: set_inode_def\<close>)
qed

lemma overwrite_put: "a + length ys \<le> length xs \<Longrightarrow> overwrite a ys xs = put xs a ys"
  by (simp add: overwrite_def put_def)

lemma wp_dir_write:
  fixes s :: "'a album_scheme"
  assumes ok: "album_ok e s" and dir: "dir_ok (disk e s) (unat ino)" and k: "k < dir_blocks (disk e s) (unat ino)"
    and p: "length p = UB"
    and Q: "\<And>t. album_ok e t \<Longrightarrow>
      changed (put (file_data (disk e s) (unat ino)) (k * UB) p) (unat ino) (disk e s) (disk e t) \<Longrightarrow>
      dk_bitmap (disk e t) = dk_bitmap (disk e s) \<Longrightarrow> Q () t"
  shows "wp (write_block e (unat (mapped (dk_block (disk e s)) (inode_at (disk e s) (unat ino)) k)) p)
    (\<lambda>_. wp (bump_directory e ino (inode_at (disk e s) (unat ino))) Q E) E s"
proof (rule wp_disk_write [OF ok])
  let ?d = "disk e s" and ?n = "unat ino"
  let ?i = "inode_at ?d ?n" and ?xs = "file_data (disk e s) (unat ino)"
  let ?sz = "unat (i_size ?i)" and ?b = "mapped (dk_block ?d) (inode_at ?d ?n) k"
  note dk = album_ok_disk [OF ok] and F = file_okD [OF dir_okD(1) [OF dir]]
  note B = dir_block [OF dk dir k]
  show "unat ?b \<noteq> 0" "unat ?b < dk_total ?d" "length p \<le> UB" using B(2,3) p by (simp_all add: unat_gt_0)
  fix t :: "'a album_scheme" assume t: "album_ok e t" "disk e t = ?d\<lparr>dk_block := (dk_block ?d)(unat ?b := pad p)\<rparr>"
  have l: "length (dk_block ?d (unat ?b)) = UB" using dk B(3) by (simp add: disk_ok_def blocks_full_def)
  have up: "updates 0 (written (k * UB) p) ?d ?i (disk e t) ?i"
    by (rule updates_block [OF dk F(2)])
      (use B(1,2) p l t(2) pad_eq [of p] put_0_whole [of p "dk_block ?d (unat ?b)"] in simp_all)
  note ed = updates_edits [OF F(2) up]
  have b: "k * UB + UB \<le> ?sz" using block_bound [OF k] by simp
  then have m: "?sz = max ?sz (k * UB + length p)" using p by simp
  note ob = overwrite_bytes [OF editsD(5) [OF ed] F(4,3) m F(3)]
  have fb: "file_bytes (dk_block (disk e t)) ?i 0 ?sz = put ?xs (k * UB) p"
    using ob(1) overwrite_put [of "k * UB" p ?xs] b p by (simp add: file_data_def)
  show "wp (bump_directory e ino ?i) Q E t"
    by (rule wp_bump [OF dk F(1) t(1) ed refl refl refl refl refl refl F(3) _ fb])
      (use ob(2) Q t(2) in simp_all)
qed


subsection \<open>Adding a name\<close>

text \<open>What adding an entry makes of the directory.\<close>

definition dir_added :: "u64 \<Rightarrow> bytes \<Rightarrow> u8 \<Rightarrow> nat \<Rightarrow> disk \<Rightarrow> disk \<Rightarrow> bool" where
  "dir_added i name t n d d' \<longleftrightarrow> (\<exists>ys. changed ys n d d') \<and> dir_ok d' n \<and>
     names d' n = (names d n)(name \<mapsto> (i, t)) \<and> (packed (file_data d n) \<longrightarrow> packed (file_data d' n)) \<and>
     (\<exists>A B. dir_list (file_data d n) = A @ B \<and> dir_list (file_data d' n) = A @ (i, name, t) # B)"

lemma changed_dir:
  assumes dir: "dir_ok d n" and c: "changed ys n d d'" and ok: "dir_bytes_ok (of_nat n) ys"
  shows "dir_ok d' n"
  unfolding dir_ok_def using changedD [OF c] dir_okD [OF dir] ok by (simp add: is_dir_def)

lemma dir_addedI:
  assumes dir: "dir_ok d n" and new: "names d n name = None" and c: "changed ys n d d'"
    and ok: "distinct (dir_names (dir_list ys)) \<Longrightarrow> dir_bytes_ok (of_nat n) ys"
    and l: "dir_list (file_data d n) = A @ B" "dir_list ys = A @ (i, name, t) # B"
    and pk: "packed (file_data d n) \<Longrightarrow> packed ys"
  shows "dir_added i name t n d d'"
proof -
  have "distinct (dir_names (dir_list (file_data d n)))"
    using dir_bytes_okD(5) [OF dir_okD(4) [OF dir]] .
  note m = dir_map_insert [OF l this new [unfolded names_def]]
  have y: "file_data d' n = ys" using changedD(3) [OF c] .
  show ?thesis
    unfolding dir_added_def names_def y using changed_dir [OF dir c ok [OF m(1)]] c m(2) l pk by blast
qed

text \<open>The loop over the blocks.\<close>

definition no_room :: "bytes \<Rightarrow> bytes \<Rightarrow> nat \<Rightarrow> bool" where
  "no_room name xs k \<longleftrightarrow> (\<forall>x \<in> set (chain (dir_chunk xs k)). \<not> fits (required_len (length name)) (snd x))"

lemma dir_insert_block:
  assumes dir: "dir_ok d n" and k: "k < dir_blocks d n" and name: "length name \<le> 255" "utf8_valid name"
    and i: "i \<noteq> 0"
  obtains "insert_entry (dir_chunk (file_data d n) k) 0 i name t (required_len (length name)) = Ok None"
      "no_room name (file_data d n) k"
  | p A B where "insert_entry (dir_chunk (file_data d n) k) 0 i name t (required_len (length name)) = Ok (Some p)"
      "length p = UB" "dir_list (file_data d n) = A @ B"
      "dir_list (put (file_data d n) (k * UB) p) = A @ (i, name, t) # B"
      "distinct (dir_names (dir_list (put (file_data d n) (k * UB) p))) \<Longrightarrow>
        dir_bytes_ok (of_nat n) (put (file_data d n) (k * UB) p)"
      "packed (file_data d n) \<Longrightarrow> packed (put (file_data d n) (k * UB) p)"
proof -
  let ?xs = "file_data d n"
  note D = dir_bytes_okD [OF dir_okD(4) [OF dir]]
  have c: "scan_entries (dir_chunk ?xs k) 0 = Ok (chain (dir_chunk ?xs k))"
    using D(4) [OF k] by (simp add: chained_chain)
  note l = length_dir_chunk [OF k]
  from insert_entry_spec [OF c l name i, of t] show ?thesis
  proof (elim disjE conjE exE)
    assume "\<forall>x \<in> set (chain (dir_chunk ?xs k)). \<not> fits (required_len (length name)) (snd x)"
      "insert_entry (dir_chunk ?xs k) 0 i name t (required_len (length name)) = Ok None"
    then show ?thesis by (intro that(1)) (simp_all add: no_room_def)
  next
    fix p es ys zs
    assume p: "insert_entry (dir_chunk ?xs k) 0 i name t (required_len (length name)) = Ok (Some p)" "length p = UB"
      and es: "scan_entries p 0 = Ok es" "listing (chain (dir_chunk ?xs k)) = ys @ zs"
        "listing es = ys @ [(i, name, t)] @ zs"
    obtain A B where AB: "dir_list ?xs = A @ listing (chain (dir_chunk ?xs k)) @ B"
      "dir_list (put ?xs (k * UB) p) = A @ listing (chain p) @ B"
      by (rule dir_list_put [OF k p(2)])
    have ce: "chained p" "chain p = es" using es(1) by (auto simp: chained_def chain_Ok)
    show ?thesis
    proof (rule that(2) [OF p])
      show "dir_list ?xs = (A @ ys) @ (zs @ B)" "dir_list (put ?xs (k * UB) p) = (A @ ys) @ (i, name, t) # (zs @ B)"
        using AB es ce by simp_all
      assume d: "distinct (dir_names (dir_list (put ?xs (k * UB) p)))"
      show "dir_bytes_ok (of_nat n) (put ?xs (k * UB) p)"
        by (rule dir_bytes_ok_put [OF dir_okD(4) [OF dir] k p(2) ce(1) _ d])
          (use insert_first_block_ok [OF _ i name p(1)] D(3) in simp)
    next
      assume pk: "packed ?xs"
      then have live: "\<forall>x \<in> set (chain (dir_chunk ?xs k)). live x" using k by (simp add: packed_def)
      have "\<forall>x \<in> set (chain p). live x"
        by (rule insert_live [OF c l live i name p(1)]) (simp add: chain_Ok)
      then show "packed (put ?xs (k * UB) p)" by (rule packed_put [OF pk k p(2)])
    qed
  qed
qed

lemma wp_add_loop:
  fixes s :: "'a album_scheme"
  assumes "album_ok e s" "dir_ok (disk e s) (unat ino)" "\<forall>k \<in> set ks. k < dir_blocks (disk e s) (unat ino)"
    and name: "length name \<le> 255" "utf8_valid name" and i: "i \<noteq> 0"
    and new: "names (disk e s) (unat ino) name = None"
    and "\<And>t. album_ok e t \<Longrightarrow> dir_added i name ft (unat ino) (disk e s) (disk e t) \<Longrightarrow> Q None t"
    and "\<And>t. album_ok e t \<Longrightarrow> disk e t = disk e s \<Longrightarrow>
      \<forall>k \<in> set ks. no_room name (file_data (disk e s) (unat ino)) k \<Longrightarrow> Q (Some (inode_at (disk e s) (unat ino))) t"
  shows "wp (add_loop e ino (inode_at (disk e s) (unat ino)) i name ft (required_len (length name)) ks) Q E s"
  using assms
proof (induction ks arbitrary: s)
  case Nil
  then show ?case by (simp add: wp_simps)
next
  case (Cons k ks)
  let ?d = "disk e s" and ?n = "unat ino"
  let ?i = "inode_at ?d ?n" and ?xs = "file_data ?d ?n"
  let ?b = "mapped (dk_block ?d) ?i k"
  note ok = Cons.prems(1) and dir = Cons.prems(2)
  have k: "k < dir_blocks ?d ?n" using Cons.prems(3) by simp
  have body: "wp (bind (lift (insert_entry (dir_chunk ?xs k) 0 i name ft (required_len (length name)))) (\<lambda>placed.
     case placed of
       Some payload \<Rightarrow>
         bind (write_block e (unat ?b) payload) (\<lambda>_.
         bind (bump_directory e ino ?i) (\<lambda>_.
         ret None))
     | None \<Rightarrow> add_loop e ino ?i i name ft (required_len (length name)) ks)) Q E u"
    if u: "album_ok e u" "disk e u = ?d" for u :: "'a album_scheme"
  proof (rule dir_insert_block [OF dir k name i, of ft])
    assume none: "insert_entry (dir_chunk ?xs k) 0 i name ft (required_len (length name)) = Ok None" "no_room name ?xs k"
    have "wp (add_loop e ino (inode_at (disk e u) ?n) i name ft (required_len (length name)) ks) Q E u"
      by (rule Cons.IH [OF u(1)]) (use Cons.prems none(2) u(2) in simp_all)
    then show ?thesis using none(1) u(2) by (simp add: wp_simps)
  next
    fix p A B
    assume p: "insert_entry (dir_chunk ?xs k) 0 i name ft (required_len (length name)) = Ok (Some p)" "length p = UB"
      and l: "dir_list ?xs = A @ B" "dir_list (put ?xs (k * UB) p) = A @ (i, name, ft) # B"
      and bo: "distinct (dir_names (dir_list (put ?xs (k * UB) p))) \<Longrightarrow>
        dir_bytes_ok (of_nat ?n) (put ?xs (k * UB) p)"
      and pk: "packed ?xs \<Longrightarrow> packed (put ?xs (k * UB) p)"
    have "wp (write_block e (unat (mapped (dk_block (disk e u)) (inode_at (disk e u) ?n) k)) p)
        (\<lambda>_. wp (bump_directory e ino (inode_at (disk e u) ?n)) (\<lambda>_. wp (ret None) Q E) E) E u"
    proof (rule wp_dir_write [OF u(1) _ _ p(2)])
      show "dir_ok (disk e u) ?n" "k < dir_blocks (disk e u) ?n" using dir k u(2) by simp_all
      fix t :: "'a album_scheme"
      assume t: "album_ok e t" "changed (put (file_data (disk e u) ?n) (k * UB) p) ?n (disk e u) (disk e t)"
      have "dir_added i name ft ?n ?d (disk e t)"
        by (rule dir_addedI [OF dir Cons.prems(7) t(2) [unfolded u(2)] bo l pk])
      then show "wp (ret None) Q E t" unfolding wp_prim by (rule Cons.prems(8) [OF t(1)])
    qed
    then show ?thesis using p(1) u(2) by (simp add: wp_prim wp_bind_fun)
  qed
  show ?case
    unfolding add_loop.simps wp_bind [of "bmap e ?i k False"]
  proof (rule wp_dir_bmap [OF ok dir k])
    fix t :: "'a album_scheme" assume t: "album_ok e t" "disk e t = ?d"
    have "wp (read_block e (unat (mapped (dk_block (disk e t)) (inode_at (disk e t) ?n) k))) (\<lambda>payload.
      wp (bind (lift (insert_entry payload 0 i name ft (required_len (length name)))) (\<lambda>placed.
     case placed of
       Some payload \<Rightarrow>
         bind (write_block e (unat ?b) payload) (\<lambda>_.
         bind (bump_directory e ino ?i) (\<lambda>_.
         ret None))
     | None \<Rightarrow> add_loop e ino ?i i name ft (required_len (length name)) ks)) Q E) E t"
    proof (rule wp_dir_read [OF t(1)])
      show "dir_ok (disk e t) ?n" "k < dir_blocks (disk e t) ?n" using dir k t(2) by simp_all
      fix u :: "'a album_scheme" assume u: "album_ok e u" "disk e u = disk e t"
      show "wp (bind (lift (insert_entry (dir_chunk (file_data (disk e t) ?n) k) 0 i name ft (required_len (length name)))) (\<lambda>placed.
     case placed of
       Some payload \<Rightarrow>
         bind (write_block e (unat ?b) payload) (\<lambda>_.
         bind (bump_directory e ino ?i) (\<lambda>_.
         ret None))
     | None \<Rightarrow> add_loop e ino ?i i name ft (required_len (length name)) ks)) Q E u"
        using body [OF u(1)] u(2) t(2) by simp
    qed
    then show "wp (case (Some ?b, ?i) of (block, parent) \<Rightarrow>
        bind (lift (ok_or (Manifest ''directory has a hole'') block)) (\<lambda>block.
        bind (read_block e (unat block)) (\<lambda>payload.
        bind (lift (insert_entry payload 0 i name ft (required_len (length name)))) (\<lambda>placed.
        case placed of
          Some payload \<Rightarrow>
            bind (write_block e (unat block) payload) (\<lambda>_.
            bind (bump_directory e ino parent) (\<lambda>_.
            ret None))
        | None \<Rightarrow> add_loop e ino parent i name ft (required_len (length name)) ks)))) Q E t"
      using t(2) by (simp add: wp_bind [of "lift _"] wp_prim wp_bind [of "read_block _ _"])
  qed
qed


text \<open>A block of its own for the entry, appended to the directory.\<close>

lemma only_file_refl: "only_file n d d"
  by (simp add: only_file_def)

lemma dir_append:
  assumes dir: "dir_ok d n" and new: "names d n name = None" and p: "length p = UB"
    and s: "scan_entries p 0 = Ok [(0, fresh_entry i name t UB)]" and i: "i \<noteq> 0"
    and c: "changed (file_data d n @ p) n d d'"
  shows "dir_added i name t n d d'"
proof (rule dir_addedI [OF dir new c])
  let ?xs = "file_data d n"
  have l: "listing (chain p) = [(i, name, t)]" "chained p"
    using i s by (simp_all add: chain_Ok fresh_entry_def chained_def)
  show "dir_list ?xs = dir_list ?xs @ []" "dir_list (?xs @ p) = dir_list ?xs @ (i, name, t) # []"
    using dir_list_append [OF dir_bytes_okD(1) [OF dir_okD(4) [OF dir]] p] l by simp_all
  show "dir_bytes_ok (of_nat n) (?xs @ p)" if "distinct (dir_names (dir_list (?xs @ p)))"
    by (rule dir_bytes_ok_append [OF dir_okD(4) [OF dir] p l(2) that])
  show "packed (?xs @ p)" if "packed ?xs"
    by (rule packed_append [OF that dir_bytes_okD(1) [OF dir_okD(4) [OF dir]] p])
      (use s i in \<open>simp add: chain_Ok live_def fresh_entry_def\<close>)
qed

text \<open>An entry can find no room for three reasons: its name is too long, the directory has all the blocks
  an inode can map, or few blocks are free.\<close>

definition few :: "nat \<Rightarrow> disk \<Rightarrow> bool" where
  "few k d \<longleftrightarrow> card ({dk_data d..<dk_total d} - dk_used d) \<le> k"

definition cramped :: "nat \<Rightarrow> bytes \<Rightarrow> nat \<Rightarrow> disk \<Rightarrow> bool" where
  "cramped k name n d \<longleftrightarrow> 255 < length name \<or> MAX_BLOCKS \<le> dir_blocks d n \<or> few k d"

lemma stuck_few:
  assumes "stuck c d i d'"
  shows "few c d"
proof -
  have "{dk_data d..<dk_total d} - dk_used d \<subseteq> dk_used d' - dk_used d" "card (dk_used d' - dk_used d) \<le> c"
    using assms by (auto simp: stuck_def)
  then show ?thesis using card_mono [of "dk_used d' - dk_used d"] unfolding few_def by (meson finite_Diff finite_used order_trans)
qed

lemma wp_add_block:
  fixes s :: "'a album_scheme"
  assumes ok: "album_ok e s" and dir: "dir_ok (disk e s) (unat ino)"
    and p: "length p = UB"
    and Q: "\<And>t. album_ok e t \<Longrightarrow>
      changed (file_data (disk e s) (unat ino) @ p) (unat ino) (disk e s) (disk e t) \<Longrightarrow> Q () t"
    and E: "\<And>x t. album_ok e t \<Longrightarrow> only_file (unat ino) (disk e s) (disk e t) \<Longrightarrow>
      MAX_BLOCKS \<le> dir_blocks (disk e s) (unat ino) \<or> few 2 (disk e s) \<Longrightarrow> E x t"
  shows "wp (bind (bmap e (inode_at (disk e s) (unat ino)) (dir_blocks (disk e s) (unat ino)) True) (\<lambda>(block, parent).
     bind (lift (ok_or NoSpace block)) (\<lambda>block.
     bind (write_block e (unat block) p) (\<lambda>_.
     bump_directory e ino (parent\<lparr>i_size := i_size parent + of_nat UB\<rparr>))))) Q E s"
proof (cases "dir_blocks (disk e s) (unat ino) < MAX_BLOCKS")
  case False
  then show ?thesis using wp_bmap_beyond [OF False, of e _ True s] E [OF ok only_file_refl] False
    by (simp add: wp_def bind_def)
next
  case True
  let ?d = "disk e s" and ?n = "unat ino"
  let ?i = "inode_at ?d ?n" and ?xs = "file_data ?d ?n" and ?k = "dir_blocks (disk e s) (unat ino)"
  let ?sz = "unat (i_size ?i)"
  note dk = album_ok_disk [OF ok] and F = file_okD [OF dir_okD(1) [OF dir]]
  have sz: "?k * UB = ?sz" using dir_bytes_okD(1) [OF dir_okD(4) [OF dir]] by simp
  have mx: "?sz + UB \<le> MAX_BYTES"
    using mult_le_mono1 [of "Suc ?k" MAX_BLOCKS UB] True sz by (simp add: MAX_BYTES_def)
  show ?thesis
    unfolding wp_bind [of "bmap e ?i ?k True"]
  proof (rule wp_bmap_alloc [OF ok F(2) True])
    fix b j and u :: "'a album_scheme"
    assume u: "album_ok e u" "grows 3 {?k} ?d ?i (disk e u) j" "mapped (dk_block (disk e u)) j ?k = b" "b \<noteq> 0"
    note gu = grows_updates [OF F(2) u(2)] and dku = album_ok_disk [OF u(1)]
    note tj = grows_tree [OF u(2)]
    have bt: "unat b < dk_total (disk e u)" using mapped_used(3) [OF tj True] u(3,4) by simp
    have "wp (write_block e (unat b) p) (\<lambda>_. wp (bump_directory e ino (j\<lparr>i_size := i_size j + of_nat UB\<rparr>)) Q E) E u"
    proof (rule wp_disk_write [OF u(1) _ bt])
      show "unat b \<noteq> 0" using u(4) by (simp add: unat_gt_0)
      show "length p \<le> UB" using p by simp
      fix v :: "'a album_scheme"
      assume v: "album_ok e v" "disk e v = (disk e u)\<lparr>dk_block := (dk_block (disk e u))(unat b := pad p)\<rparr>"
      have l: "length (dk_block (disk e u) (unat b)) = UB" using dku bt by (simp add: disk_ok_def blocks_full_def)
      have up: "updates 0 (written (?k * UB) p) (disk e u) j (disk e v) j"
        by (rule updates_block [OF dku tj])
          (use u(3,4) True p l v(2) pad_eq [of p] put_0_whole [of p "dk_block (disk e u) (unat b)"] in simp_all)
      have ed: "edits (written ?sz p) ?d ?i (disk e v) j"
        using updates_edits [OF F(2) updates_trans [OF gu up]] sz by simp
      have m: "?sz + UB = max ?sz (?sz + length p)" using p by simp
      note ob = overwrite_bytes [OF editsD(5) [OF ed] F(4,3) m mx]
      have fb: "file_bytes (dk_block (disk e v)) j 0 (?sz + UB) = ?xs @ p"
        using ob(1) by (simp add: file_data_def overwrite_def)
      have "i_size j = i_size ?i" using editsD(3) [OF ed] by (simp add: same_attrs_def)
      then have s2: "unat (i_size (j\<lparr>i_size := i_size j + of_nat UB\<rparr>)) = ?sz + UB"
        using mx MAX_BYTES_u64 by (simp add: unat_word_ariths UB_val)
      show "wp (bump_directory e ino (j\<lparr>i_size := i_size j + of_nat UB\<rparr>)) Q E v"
        by (rule wp_bump [OF dk F(1) v(1) ed _ _ _ _ _ s2 mx _ fb]) (simp_all, (rule ob(2) Q; assumption)+)
    qed
    then show "wp (case (Some b, j) of (block, parent) \<Rightarrow> bind (lift (ok_or NoSpace block)) (\<lambda>block.
        bind (write_block e (unat block) p) (\<lambda>_.
        bump_directory e ino (parent\<lparr>i_size := i_size parent + of_nat UB\<rparr>)))) Q E u"
      by (simp add: wp_prim wp_bind)
  next
    fix u :: "'a album_scheme" assume u: "album_ok e u" "stuck 2 ?d ?i (disk e u)"
    show "E NoSpace u"
      by (rule E [OF u(1) others_only [OF spoiled_others [OF F(2) stuck_spoiled [OF u(2)]] dk] disjI2 [OF stuck_few [OF u(2)]]])
  qed
qed

lemma wp_add_dir_entry:
  fixes s :: "'a album_scheme"
  assumes ok: "album_ok e s" and dir: "dir_ok (disk e s) (unat ino)"
    and name: "utf8_valid name" and i: "i \<noteq> 0" and new: "names (disk e s) (unat ino) name = None"
    and Q: "\<And>t. album_ok e t \<Longrightarrow> dir_added i name ft (unat ino) (disk e s) (disk e t) \<Longrightarrow> Q () t"
    and E: "\<And>x t. album_ok e t \<Longrightarrow> only_file (unat ino) (disk e s) (disk e t) \<Longrightarrow>
      cramped 2 name (unat ino) (disk e s) \<Longrightarrow> E x t"
  shows "wp (add_dir_entry e ino i name ft) Q E s"
  unfolding add_dir_entry_def wp_bind [of "getattr e ino"]
proof (rule wp_getattr [OF ok])
  let ?d = "disk e s" and ?n = "unat ino"
  let ?i = "inode_at ?d ?n"
  show "ino_ok ?d ?n" by (rule file_okD(1) [OF dir_okD(1) [OF dir]])
  show "i_mode ?i \<noteq> 0" by (rule dir_okD(2) [OF dir])
  fix t :: "'a album_scheme" assume t: "album_ok e t" "disk e t = ?d"
  have nd: "\<not> \<not> is_dir ?i" using dir_okD(3) [OF dir] by simp
  let ?next = "\<lambda>unplaced. case unplaced of
       None \<Rightarrow> ret ()
     | Some parent \<Rightarrow>
         bind (bmap e parent (dir_blocks ?d ?n) True) (\<lambda>(block, parent).
         bind (lift (ok_or NoSpace block)) (\<lambda>block.
         bind (lift (fresh_directory_block i name ft)) (\<lambda>payload.
         bind (write_block e (unat block) payload) (\<lambda>_.
         bump_directory e ino (parent\<lparr>i_size := i_size parent + of_nat UB\<rparr>)))))"
  have run: "wp (bind (add_loop e ino ?i i name ft (required_len (length name)) [0..<dir_blocks ?d ?n]) ?next) Q E t"
    if l: "length name \<le> 255"
  proof -
    obtain b where b: "fresh_directory_block i name ft = Ok b" "length b = UB"
      "scan_entries b 0 = Ok [(0, fresh_entry i name ft UB)]"
      by (rule fresh_directory_block_chain [OF l name])
    have "wp (add_loop e ino (inode_at (disk e t) ?n) i name ft (required_len (length name)) [0..<dir_blocks ?d ?n])
        (\<lambda>unplaced. wp (?next unplaced) Q E) E t"
    proof (rule wp_add_loop [OF t(1) _ _ l name i])
      show "dir_ok (disk e t) ?n" "names (disk e t) ?n name = None" using dir new t(2) by simp_all
      show "\<forall>k \<in> set [0..<dir_blocks ?d ?n]. k < dir_blocks (disk e t) ?n" using t(2) by simp
    next
      fix u :: "'a album_scheme"
      assume u: "album_ok e u" "dir_added i name ft ?n (disk e t) (disk e u)"
      then show "wp (?next None) Q E u" using Q [of u] t(2) by (simp add: wp_prim)
    next
      fix u :: "'a album_scheme" assume u: "album_ok e u" "disk e u = disk e t"
      have "wp (bind (bmap e (inode_at (disk e u) ?n) (dir_blocks (disk e u) ?n) True) (\<lambda>(block, parent).
         bind (lift (ok_or NoSpace block)) (\<lambda>block.
         bind (write_block e (unat block) b) (\<lambda>_.
         bump_directory e ino (parent\<lparr>i_size := i_size parent + of_nat UB\<rparr>))))) Q E u"
      proof (rule wp_add_block [OF u(1) _ b(2)])
        show "dir_ok (disk e u) ?n" using dir u(2) t(2) by simp
        fix v :: "'a album_scheme" assume v: "album_ok e v"
        show "Q () v" if "changed (file_data (disk e u) ?n @ b) ?n (disk e u) (disk e v)"
          by (rule Q [OF v dir_append [OF dir new b(2,3) i]]) (use that u(2) t(2) in simp)
        show "E x v" if "only_file ?n (disk e u) (disk e v)" "MAX_BLOCKS \<le> dir_blocks (disk e u) ?n \<or> few 2 (disk e u)" for x
          using E [OF v] that u(2) t(2) by (simp add: cramped_def)
      qed
      moreover have "bind (lift (fresh_directory_block i name ft)) f = f b" for f :: "bytes \<Rightarrow> ('a album_scheme, unit, fs_error) prog"
        by (rule ext) (simp add: bind_def run_simps b(1))
      ultimately show "wp (?next (Some (inode_at (disk e t) ?n))) Q E u" using u(2) t(2) by simp
    qed
    then show ?thesis unfolding wp_bind using t(2) by simp
  qed
  have ceil: "div_ceil (unat (i_size ?i)) UB = dir_blocks ?d ?n" by (rule dir_blocks_ceil [OF dir])
  have big: "required_len (length name) \<le> UB" if "length name \<le> 255"
    using required_len_bounds(2) [of "length name"] that by (simp add: UB_val)
  show "wp (if \<not> is_dir ?i then raise NotDir
     else
       let needed = required_len (length name)
       in if needed > UB \<or> length name > 255 then raise NoSpace
          else
            let block_count = div_ceil (unat (i_size ?i)) UB
            in bind (add_loop e ino ?i i name ft needed [0..<block_count])
                 (\<lambda>unplaced.
               case unplaced of
                 None \<Rightarrow> ret ()
               | Some parent \<Rightarrow>
                   bind (bmap e parent block_count True) (\<lambda>(block, parent).
                   bind (lift (ok_or NoSpace block)) (\<lambda>block.
                   bind (lift (fresh_directory_block i name ft)) (\<lambda>payload.
                   bind (write_block e (unat block) payload) (\<lambda>_.
                   bump_directory e ino (parent\<lparr>i_size := i_size parent + of_nat UB\<rparr>))))))) Q E t"
    unfolding if_not_P [OF nd] Let_def ceil
  proof (cases "length name \<le> 255")
    case True
    then have n: "\<not> (required_len (length name) > UB \<or> length name > 255)" using big by simp
    show "wp (if required_len (length name) > UB \<or> length name > 255 then raise NoSpace
        else bind (add_loop e ino ?i i name ft (required_len (length name)) [0..<dir_blocks ?d ?n]) ?next) Q E t"
      unfolding if_not_P [OF n] using run [OF True] .
  next
    case False
    then show "wp (if required_len (length name) > UB \<or> length name > 255 then raise NoSpace
        else bind (add_loop e ino ?i i name ft (required_len (length name)) [0..<dir_blocks ?d ?n]) ?next) Q E t"
      using E [OF t(1)] only_file_refl t(2) False by (simp add: wp_prim cramped_def)
  qed
qed

end
