(* ===== verification/DirRemove.thy ===== *)
theory DirRemove
  imports DirEdit
begin

text \<open>
  Removing a name. The removal in one block is exact when its free records come before its live
  ones (\<open>tidy\<close>), which is always so in the first block of a directory; \<open>DirReach\<close> shows what
  happens in a block that is not tidy.
\<close>

definition dir_tidy :: "disk \<Rightarrow> nat \<Rightarrow> bool" where
  "dir_tidy d n \<longleftrightarrow> (\<forall>k < dir_blocks d n. tidy (chain (dir_chunk (file_data d n) k)))"

definition dir_removed :: "bytes \<Rightarrow> nat \<Rightarrow> disk \<Rightarrow> disk \<Rightarrow> bool" where
  "dir_removed name n d d' \<longleftrightarrow> dk_bitmap d' = dk_bitmap d \<and> (\<exists>ys. changed ys n d d') \<and> dir_ok d' n \<and> dir_tidy d' n \<and>
     names d' n = (names d n)(name := None) \<and> names d n name \<noteq> None \<and>
     length (file_data d' n) = length (file_data d n) \<and>
     (\<exists>A x B. dir_list (file_data d n) = A @ x # B \<and> dir_list (file_data d' n) = A @ B)"

lemma listing_name: "name \<in> set (dir_names (listing es)) \<longleftrightarrow> (\<exists>x \<in> set es. has_name name x)"
  by (force simp: dir_names_def listing_def has_name_def)

lemma dir_remove_block:
  assumes dir: "dir_ok d n" and k: "k < dir_blocks d n" and name: "name \<notin> dots"
    and td: "tidy (chain (dir_chunk (file_data d n) k))"
  obtains "remove_entry (dir_chunk (file_data d n) k) 0 None name = Ok None"
      "name \<notin> set (dir_names (listing (chain (dir_chunk (file_data d n) k))))"
  | p A i t B where "remove_entry (dir_chunk (file_data d n) k) 0 None name = Ok (Some p)"
      "length p = UB" "dir_list (file_data d n) = A @ (i, name, t) # B"
      "dir_list (put (file_data d n) (k * UB) p) = A @ B" "tidy (chain p)"
      "distinct (dir_names (dir_list (put (file_data d n) (k * UB) p))) \<Longrightarrow>
        dir_bytes_ok (of_nat n) (put (file_data d n) (k * UB) p)"
proof -
  let ?xs = "file_data d n"
  let ?es = "chain (dir_chunk ?xs k)"
  note D = dir_bytes_okD [OF dir_okD(4) [OF dir]]
  have c: "scan_entries (dir_chunk ?xs k) 0 = Ok ?es" using D(4) [OF k] by (simp add: chained_chain)
  note l = length_dir_chunk [OF k]
  show ?thesis
  proof (cases "\<exists>x \<in> set ?es. has_name name x")
    case False
    show ?thesis
      by (rule that(1)) (use remove_entry_None [OF c, of name None] False listing_name in auto)
  next
    case True
    from split_list_first_prop [OF this] obtain pre x post where
      sp: "?es = pre @ x # post" and x: "has_name name x"
      and pre: "\<forall>y \<in> set pre. \<not> has_name name y" by blast
    obtain off e where oe: "x = (off, e)" by (cases x)
    obtain p es where p: "remove_entry (dir_chunk ?xs k) 0 None name = Ok (Some p)" "length p = UB"
      "scan_entries p 0 = Ok es" "listing es = listing pre @ listing post" "tidy es"
      by (rule remove_entry_tidy [OF c [unfolded sp oe] l td [unfolded sp oe] pre x [unfolded oe]])
    obtain A B where AB: "dir_list ?xs = A @ listing ?es @ B"
      "dir_list (put ?xs (k * UB) p) = A @ listing (chain p) @ B"
      by (rule dir_list_put [OF k p(2)])
    have lx: "listing ?es = listing pre @ (d_inode e, name, d_file_type e) # listing post"
      using x oe by (simp add: sp has_name_def live_def)
    have ce: "chained p" "chain p = es" using p(3) by (auto simp: chained_def chain_Ok)
    show ?thesis
    proof (rule that(2) [OF p(1,2)])
      show "dir_list ?xs = (A @ listing pre) @ (d_inode e, name, d_file_type e) # (listing post @ B)"
        "dir_list (put ?xs (k * UB) p) = (A @ listing pre) @ (listing post @ B)" "tidy (chain p)"
        using AB lx p(4,5) ce(2) by simp_all
      assume d: "distinct (dir_names (dir_list (put ?xs (k * UB) p)))"
      show "dir_bytes_ok (of_nat n) (put ?xs (k * UB) p)"
        by (rule dir_bytes_ok_put [OF dir_okD(4) [OF dir] k p(2) ce(1) _ d])
          (use remove_first_block_ok [OF _ name p(1)] D(3) in simp)
    qed
  qed
qed

lemma dir_removedI:
  assumes dir: "dir_ok d n" and td: "dir_tidy d n" and k: "k < dir_blocks d n" and p: "length p = UB" "tidy (chain p)"
    and c: "changed (put (file_data d n) (k * UB) p) n d d'" and bm: "dk_bitmap d' = dk_bitmap d"
    and l: "dir_list (file_data d n) = A @ (i, name, t) # B" "dir_list (put (file_data d n) (k * UB) p) = A @ B"
    and ok: "distinct (dir_names (dir_list (put (file_data d n) (k * UB) p))) \<Longrightarrow>
        dir_bytes_ok (of_nat n) (put (file_data d n) (k * UB) p)"
  shows "dir_removed name n d d'"
proof -
  have "distinct (dir_names (dir_list (file_data d n)))"
    using dir_bytes_okD(5) [OF dir_okD(4) [OF dir]] .
  note m = dir_map_delete [OF l this]
  have y: "file_data d' n = put (file_data d n) (k * UB) p" using changedD(3) [OF c] .
  note ch = dir_chunk_put [OF k p(1)]
  have "tidy (chain (dir_chunk (file_data d' n) j))" if "j < length (file_data d' n) div UB" for j
    using that td p(2) ch unfolding y dir_tidy_def ch(3) by (cases "j = k") auto
  then have "dir_tidy d' n" unfolding dir_tidy_def by blast
  then show ?thesis
    unfolding dir_removed_def names_def y
    using changed_dir [OF dir c ok [OF m(1)]] c bm m(2,3) l ch(3) by blast
qed

lemma dir_names_mem: "name \<in> set (dir_names es) \<longleftrightarrow> (\<exists>i t. (i, name, t) \<in> set es)"
  by (force simp: dir_names_def)

lemma dir_list_nowhere:
  assumes "\<And>k. k < length xs div UB \<Longrightarrow> name \<notin> set (dir_names (listing (chain (dir_chunk xs k))))"
  shows "name \<notin> set (dir_names (dir_list xs))"
  using assms unfolding dir_names_mem dir_list_def by auto

lemma wp_remove_loop:
  fixes s :: "'a album_scheme"
  assumes "album_ok e s" "dir_ok (disk e s) (unat ino)" "\<forall>k \<in> set ks. k < dir_blocks (disk e s) (unat ino)"
    and td: "dir_tidy (disk e s) (unat ino)" and name: "name \<notin> dots"
    and "\<And>t. album_ok e t \<Longrightarrow> dir_removed name (unat ino) (disk e s) (disk e t) \<Longrightarrow> Q () t"
    and "\<And>t. album_ok e t \<Longrightarrow> disk e t = disk e s \<Longrightarrow>
      \<forall>k \<in> set ks. name \<notin> set (dir_names (listing (chain (dir_chunk (file_data (disk e s) (unat ino)) k)))) \<Longrightarrow> E NotFound t"
  shows "wp (remove_loop e ino (inode_at (disk e s) (unat ino)) name ks) Q E s"
  using assms
proof (induction ks arbitrary: s)
  case Nil
  then show ?case by (simp add: wp_simps)
next
  case (Cons k ks)
  let ?d = "disk e s" and ?n = "unat ino"
  let ?i = "inode_at ?d ?n" and ?xs = "file_data ?d ?n"
  let ?b = "mapped (dk_block ?d) ?i k"
  note ok = Cons.prems(1) and dir = Cons.prems(2)
  have k: "k < dir_blocks ?d ?n" using Cons.prems(3) by simp
  have tk: "tidy (chain (dir_chunk ?xs k))" using Cons.prems(4) k unfolding dir_tidy_def by blast
  let ?next = "\<lambda>removed. case removed of
       Some payload \<Rightarrow> bind (write_block e (unat ?b) payload) (\<lambda>_. bump_directory e ino ?i)
     | None \<Rightarrow> remove_loop e ino ?i name ks"
  have body: "wp (bind (lift (remove_entry (dir_chunk ?xs k) 0 None name)) ?next) Q E u"
    if u: "album_ok e u" "disk e u = ?d" for u :: "'a album_scheme"
  proof (rule dir_remove_block [OF dir k name tk])
    assume none: "remove_entry (dir_chunk ?xs k) 0 None name = Ok None"
      "name \<notin> set (dir_names (listing (chain (dir_chunk ?xs k))))"
    have "wp (remove_loop e ino (inode_at (disk e u) ?n) name ks) Q E u"
      by (rule Cons.IH [OF u(1)]) (use Cons.prems none(2) u(2) in simp_all)
    then show ?thesis using none(1) u(2) by (simp add: wp_simps)
  next
    fix p A i t B
    assume p: "remove_entry (dir_chunk ?xs k) 0 None name = Ok (Some p)" "length p = UB"
      and l: "dir_list ?xs = A @ (i, name, t) # B" "dir_list (put ?xs (k * UB) p) = A @ B"
      and tp: "tidy (chain p)"
      and bo: "distinct (dir_names (dir_list (put ?xs (k * UB) p))) \<Longrightarrow>
        dir_bytes_ok (of_nat ?n) (put ?xs (k * UB) p)"
    have "wp (write_block e (unat (mapped (dk_block (disk e u)) (inode_at (disk e u) ?n) k)) p)
        (\<lambda>_. wp (bump_directory e ino (inode_at (disk e u) ?n)) Q E) E u"
    proof (rule wp_dir_write [OF u(1) _ _ p(2)])
      show "dir_ok (disk e u) ?n" "k < dir_blocks (disk e u) ?n" using dir k u(2) by simp_all
      fix t :: "'a album_scheme"
      assume t: "album_ok e t" "changed (put (file_data (disk e u) ?n) (k * UB) p) ?n (disk e u) (disk e t)"
        "dk_bitmap (disk e t) = dk_bitmap (disk e u)"
      show "Q () t"
        by (rule Cons.prems(6) [OF t(1) dir_removedI [OF dir Cons.prems(4) k p(2) tp t(2,3) [unfolded u(2)] l bo]])
    qed
    then show ?thesis using p(1) u(2) by (simp add: wp_prim wp_bind_fun)
  qed
  show ?case
    unfolding remove_loop.simps wp_bind [of "bmap e ?i k False"]
  proof (rule wp_dir_bmap [OF ok dir k])
    fix t :: "'a album_scheme" assume t: "album_ok e t" "disk e t = ?d"
    have "wp (read_block e (unat (mapped (dk_block (disk e t)) (inode_at (disk e t) ?n) k))) (\<lambda>payload.
      wp (bind (lift (remove_entry payload 0 None name)) ?next) Q E) E t"
    proof (rule wp_dir_read [OF t(1)])
      show "dir_ok (disk e t) ?n" "k < dir_blocks (disk e t) ?n" using dir k t(2) by simp_all
      fix u :: "'a album_scheme" assume u: "album_ok e u" "disk e u = disk e t"
      show "wp (bind (lift (remove_entry (dir_chunk (file_data (disk e t) ?n) k) 0 None name)) ?next) Q E u"
        using body [OF u(1)] u(2) t(2) by simp
    qed
    then show "wp (case (Some ?b, ?i) of (block, parent) \<Rightarrow>
        bind (lift (ok_or (Manifest ''directory has a hole'') block)) (\<lambda>block.
        bind (read_block e (unat block)) (\<lambda>payload.
        bind (lift (remove_entry payload 0 None name)) (\<lambda>removed.
        case removed of
          Some payload \<Rightarrow>
            bind (write_block e (unat block) payload) (\<lambda>_.
            bump_directory e ino parent)
        | None \<Rightarrow> remove_loop e ino parent name ks)))) Q E t"
      using t(2) by (simp add: wp_bind [of "lift _"] wp_prim wp_bind [of "read_block _ _"])
  qed
qed

lemma wp_remove_dir_entry:
  fixes s :: "'a album_scheme"
  assumes ok: "album_ok e s" and dir: "dir_ok (disk e s) (unat ino)" and td: "dir_tidy (disk e s) (unat ino)"
    and name: "name \<notin> dots" "names (disk e s) (unat ino) name \<noteq> None"
    and Q: "\<And>t. album_ok e t \<Longrightarrow> dir_removed name (unat ino) (disk e s) (disk e t) \<Longrightarrow> Q () t"
  shows "wp (remove_dir_entry e ino name) Q E s"
  unfolding remove_dir_entry_def wp_bind [of "getattr e ino"]
proof (rule wp_getattr [OF ok])
  let ?d = "disk e s" and ?n = "unat ino"
  let ?i = "inode_at ?d ?n"
  show "ino_ok ?d ?n" by (rule file_okD(1) [OF dir_okD(1) [OF dir]])
  show "i_mode ?i \<noteq> 0" by (rule dir_okD(2) [OF dir])
  fix t :: "'a album_scheme" assume t: "album_ok e t" "disk e t = ?d"
  have nd: "\<not> \<not> is_dir ?i" using dir_okD(3) [OF dir] by simp
  have "name \<in> set (dir_names (dir_list (file_data ?d ?n)))"
    using dir_map_dom name(2) by (simp add: names_def)
  then have here: "\<not> (\<forall>k < dir_blocks ?d ?n. name \<notin> set (dir_names (listing (chain (dir_chunk (file_data ?d ?n) k)))))"
    using dir_list_nowhere [of "file_data ?d ?n" name] by blast
  have run: "wp (remove_loop e ino (inode_at (disk e t) ?n) name [0..<dir_blocks ?d ?n]) Q E t"
  proof (rule wp_remove_loop [OF t(1) _ _ _ name(1)])
    show "dir_ok (disk e t) ?n" "dir_tidy (disk e t) ?n" using dir td t(2) by simp_all
    show "\<forall>k \<in> set [0..<dir_blocks ?d ?n]. k < dir_blocks (disk e t) ?n" using t(2) by simp
  next
    fix u :: "'a album_scheme" assume u: "album_ok e u" "dir_removed name ?n (disk e t) (disk e u)"
    then show "Q () u" using Q [of u] t(2) by simp
  next
    fix u :: "'a album_scheme"
    assume "\<forall>k \<in> set [0..<dir_blocks ?d ?n].
      name \<notin> set (dir_names (listing (chain (dir_chunk (file_data (disk e t) ?n) k))))"
    then show "E NotFound u" using here t(2) by auto
  qed
  have ceil: "div_ceil (unat (i_size ?i)) UB = dir_blocks ?d ?n" by (rule dir_blocks_ceil [OF dir])
  show "wp (if \<not> is_dir ?i then raise NotDir
     else let blocks = div_ceil (unat (i_size ?i)) UB in remove_loop e ino ?i name [0..<blocks]) Q E t"
    unfolding if_not_P [OF nd] Let_def ceil using run t(2) by simp
qed

end
