(* ===== verification/Volume.thy ===== *)
theory Volume
  imports DirRemove
begin

text \<open>
  The volume as a map from inode numbers to files: mode, link count and bytes. Storing an inode
  changes one entry of the map.
\<close>

subsection \<open>Files by number\<close>

definition node :: "disk \<Rightarrow> nat \<rightharpoonup> u32 \<times> u32 \<times> bytes" where
  "node d n = (if inode_used d n
     then Some (i_mode (inode_at d n), i_nlink (inode_at d n), file_data d n) else None)"

lemma node_dom: "node d n \<noteq> None \<longleftrightarrow> inode_used d n"
  by (simp add: node_def)

lemma node_SomeD:
  "node d n = Some (m, l, xs) \<Longrightarrow> inode_used d n \<and> i_mode (inode_at d n) = m \<and>
     i_nlink (inode_at d n) = l \<and> file_data d n = xs"
  by (simp add: node_def split: if_splits)

text \<open>Every file but that of inode \<open>n\<close> is as it was.\<close>

definition spares :: "nat \<Rightarrow> disk \<Rightarrow> disk \<Rightarrow> bool" where
  "spares n d d' \<longleftrightarrow> dk_sb d' = dk_sb d \<and> (\<forall>m. m \<noteq> n \<longrightarrow> inode_used d' m = inode_used d m) \<and>
     (\<forall>m. m \<noteq> n \<longrightarrow> inode_used d m \<longrightarrow> inode_at d' m = inode_at d m \<and> file_ok d' m \<and>
        file_data d' m = file_data d m \<and> file_blocks d' m = file_blocks d m)"

lemma spares_refl: "volume_ok d \<Longrightarrow> spares n d d"
  by (simp add: spares_def volume_okD(1))

lemma only_file_spares:
  assumes v: "volume_ok d" and n: "inode_used d n" and o: "only_file n d d'"
  shows "spares n d d'"
proof -
  have "inode_at d' m = inode_at d m \<and> file_ok d' m \<and> file_data d' m = file_data d m \<and>
      file_blocks d' m = file_blocks d m" if m: "m \<noteq> n" "inode_used d m" for m
  proof -
    note f = volume_okD(1) [OF v m(2)] and dis = volume_okD(2) [OF v m(2) n m(1)]
    note F = file_okD [OF f]
    show ?thesis
      using only_file_data [OF o f m(1) dis] only_file_other(1,3) [OF o F(1) m(1) F(2) dis] by blast
  qed
  then show ?thesis using only_file_used [OF o] o by (simp add: spares_def only_file_def)
qed

lemma spares_node: "spares n d d' \<Longrightarrow> m \<noteq> n \<Longrightarrow> node d' m = node d m"
  by (auto simp: spares_def node_def)

lemma changed_node:
  assumes v: "volume_ok d" and n: "inode_used d n" and c: "changed xs n d d'"
  shows "node d' = (node d)(n \<mapsto> (i_mode (inode_at d n), i_nlink (inode_at d n), xs))"
proof (rule ext)
  fix m
  note C = changedD [OF c]
  show "node d' m = ((node d)(n \<mapsto> (i_mode (inode_at d n), i_nlink (inode_at d n), xs))) m"
    using spares_node [OF only_file_spares [OF v n C(1)], of m] changed_used [OF c, of n] C(3,4,5) n
    by (cases "m = n") (simp_all add: node_def)
qed

text \<open>Writing the bitmap blocks changes no file.\<close>

lemma save_bitmap_used:
  assumes "disk_ok d"
  shows "inode_used (save_bitmap d) n = inode_used d n"
  using save_bitmap_inode [OF assms, of n] by (auto simp: inode_used_def ino_ok_def)

lemma save_bitmap_volume:
  assumes ok: "disk_ok d" and v: "volume_ok d"
  shows "volume_ok (save_bitmap d)" "node (save_bitmap d) = node d"
proof -
  note u = save_bitmap_used [OF ok]
  have f: "file_ok (save_bitmap d) n \<and> file_data (save_bitmap d) n = file_data d n \<and>
      file_blocks (save_bitmap d) n = file_blocks d n \<and> inode_at (save_bitmap d) n = inode_at d n"
    if "inode_used d n" for n
    using save_bitmap_data [OF ok volume_okD(1) [OF v that]]
      save_bitmap_file(1,3) [OF ok file_okD(1,2) [OF volume_okD(1) [OF v that]]] by blast
  then show "volume_ok (save_bitmap d)" using v unfolding volume_ok_def u by auto
  show "node (save_bitmap d) = node d"
    by (rule ext) (use f in \<open>auto simp: node_def u\<close>)
qed


subsection \<open>Storing an inode\<close>

lemma set_inode_tree:
  assumes ok: "disk_ok d" and n: "ino_ok d n" and t: "tree d j"
  shows "tree (set_inode d n i) j" "tree_blocks (dk_block (set_inode d n i)) j = tree_blocks (dk_block d) j"
    "p < MAX_BYTES \<Longrightarrow> byte_at (dk_block (set_inode d n i)) j p = byte_at (dk_block d) j p"
  using below_data_frame [OF t set_inode_frame(1,2,3) [OF ok n]] by blast+

lemma set_inode_spares:
  assumes ok: "disk_ok d" and v: "\<And>m. m \<noteq> n \<Longrightarrow> inode_used d m \<Longrightarrow> file_ok d m" and n: "ino_ok d n" and i: "inode_wf i"
  shows "spares n d (set_inode d n i)"
proof -
  let ?e = "set_inode d n i"
  have at: "inode_at ?e m = inode_at d m" if "m \<noteq> n" "ino_ok d m" for m
    using inode_at_set [OF ok n that(2) i] that(1) by simp
  have u: "inode_used ?e m = inode_used d m" if "m \<noteq> n" for m
    using at [OF that] set_inode_frame(1) [OF ok n] by (auto simp: inode_used_def ino_ok_def)
  have "inode_at ?e m = inode_at d m \<and> file_ok ?e m \<and> file_data ?e m = file_data d m \<and>
      file_blocks ?e m = file_blocks d m" if m: "m \<noteq> n" "inode_used d m" for m
  proof -
    note F = file_okD [OF v [OF m]]
    note T = set_inode_tree [OF ok n F(2), where i = i] and a = at [OF m(1) F(1)]
    have "file_data ?e m = file_data d m"
      unfolding file_data_def file_bytes_def a
      by (rule map_cong [OF refl]) (use T(3) F(3) in auto)
    moreover have "file_ok ?e m"
      unfolding file_ok_def a using T F set_inode_frame(1) [OF ok n] by (auto simp: ino_ok_def)
    ultimately show ?thesis using a T(2) by (simp add: file_blocks_def)
  qed
  then show ?thesis using u set_inode_frame(1) [OF ok n] by (simp add: spares_def)
qed

lemma spares_trans: "spares n d d1 \<Longrightarrow> spares n d1 d2 \<Longrightarrow> spares n d d2"
  unfolding spares_def by metis

text \<open>
  The inode stored at \<open>n\<close> has a file of its own or is unused; every other file is one of \<open>d\<close>.
\<close>

lemma store_node:
  assumes v: "volume_ok d" and sp: "spares n d d1" and ok: "disk_ok d1" and n: "ino_ok d n" and i: "inode_wf i"
    and own: "i_mode i \<noteq> 0 \<Longrightarrow> tree d1 i \<and> unat (i_size i) \<le> MAX_BYTES \<and>
      (\<forall>p < MAX_BYTES. unat (i_size i) \<le> p \<longrightarrow> byte_at (dk_block d1) i p = 0) \<and>
      (\<forall>m. m \<noteq> n \<longrightarrow> inode_used d m \<longrightarrow> tree_blocks (dk_block d1) i \<inter> file_blocks d m = {})"
  shows "volume_ok (set_inode d1 n i)"
    "node (set_inode d1 n i) = (node d)(n := if i_mode i = 0 then None
       else Some (i_mode i, i_nlink i, file_bytes (dk_block d1) i 0 (unat (i_size i))))"
proof -
  let ?e = "set_inode d1 n i"
  have n1: "ino_ok d1 n" using n sp by (simp add: spares_def ino_ok_def)
  have f1: "file_ok d1 m" if "m \<noteq> n" "inode_used d1 m" for m using sp that by (auto simp: spares_def)
  have S: "spares n d ?e" by (rule spares_trans [OF sp set_inode_spares [OF ok f1 n1 i]])
  have a: "inode_at ?e n = i" using inode_at_set [OF ok n1 n1 i] by simp
  have ne: "ino_ok ?e n" using n1 set_inode_frame(1) [OF ok n1] by (simp add: ino_ok_def)
  have u: "inode_used ?e n \<longleftrightarrow> i_mode i \<noteq> 0" using a ne by (simp add: inode_used_def)
  have mine: "file_ok ?e n \<and> file_blocks ?e n = tree_blocks (dk_block d1) i \<and>
      file_data ?e n = file_bytes (dk_block d1) i 0 (unat (i_size i))" if m: "i_mode i \<noteq> 0"
  proof -
    have t: "tree d1 i" "unat (i_size i) \<le> MAX_BYTES" using own [OF m] by blast+
    note T = set_inode_tree [OF ok n1 t(1), where i = i]
    have "file_data ?e n = file_bytes (dk_block d1) i 0 (unat (i_size i))"
      unfolding file_data_def file_bytes_def a
      by (rule map_cong [OF refl]) (use T(3) t(2) in auto)
    then show ?thesis unfolding file_ok_def file_blocks_def a using T own [OF m] ne by auto
  qed
  have "file_ok ?e m" if "inode_used ?e m" for m
    using that S u mine by (cases "m = n") (auto simp: spares_def)
  moreover have "file_blocks ?e m \<inter> file_blocks ?e k = {}" if mk: "inode_used ?e m" "inode_used ?e k" "m \<noteq> k" for m k
  proof -
    have old: "inode_used d j \<and> file_blocks ?e j = file_blocks d j" if "inode_used ?e j" "j \<noteq> n" for j
      using S that by (auto simp: spares_def)
    consider "m = n" "k \<noteq> n" | "m \<noteq> n" "k = n" | "m \<noteq> n" "k \<noteq> n" using mk(3) by blast
    then show ?thesis
    proof cases
      case 1
      then have "i_mode i \<noteq> 0" using mk(1) u by simp
      from own [OF this] mine [OF this] old [OF mk(2) 1(2)] 1 show ?thesis by simp
    next
      case 2
      then have "i_mode i \<noteq> 0" using mk(2) u by simp
      from own [OF this] mine [OF this] old [OF mk(1) 2(1)] 2 show ?thesis by (simp add: inf_commute)
    next
      case 3
      then show ?thesis using old mk volume_okD(2) [OF v _ _ mk(3)] by simp
    qed
  qed
  ultimately show "volume_ok ?e" by (simp add: volume_ok_def)
  show "node ?e = (node d)(n := if i_mode i = 0 then None
       else Some (i_mode i, i_nlink i, file_bytes (dk_block d1) i 0 (unat (i_size i))))"
  proof (rule ext)
    fix m
    show "node ?e m = ((node d)(n := if i_mode i = 0 then None
       else Some (i_mode i, i_nlink i, file_bytes (dk_block d1) i 0 (unat (i_size i))))) m"
      using spares_node [OF S, of m] u a mine by (cases "m = n") (simp_all add: node_def)
  qed
qed

text \<open>A new file without blocks.\<close>

definition blank :: "inode \<Rightarrow> bool" where
  "blank i \<longleftrightarrow> i_direct i = replicate 12 0 \<and> i_single i = 0 \<and> i_double i = 0 \<and> i_size i = 0"

lemma blank_ptr: "blank i \<Longrightarrow> valid_node n \<Longrightarrow> ptr V i n = 0"
  by (cases n) (auto simp: blank_def Let_def)

lemma blank_facts:
  assumes "blank i"
  shows "inode_wf i" "tree d i" "tree_blocks V i = {}" "byte_at V i p = 0 \<or> MAX_BYTES \<le> p"
proof -
  show wf: "inode_wf i" using assms by (simp add: blank_def inode_wf_def)
  show "tree d i" unfolding tree_ok_def using wf blank_ptr [OF assms] by simp
  show "tree_blocks V i = {}" unfolding tree_blocks_def using blank_ptr [OF assms] by auto
  have "mapped V i (p div UB) = 0" if "p < MAX_BYTES"
    unfolding mapped_def by (rule blank_ptr [OF assms]) (use in_max_bytes [OF that] in simp)
  then show "byte_at V i p = 0 \<or> MAX_BYTES \<le> p"
    by (cases "p < MAX_BYTES") (simp_all add: byte_at_def logical_def zeros_def)
qed

lemma born_node:
  assumes v: "volume_ok d" and ok: "disk_ok d" and n: "ino_ok d n" and i: "blank i" "i_mode i \<noteq> 0"
  shows "volume_ok (set_inode d n i)" "node (set_inode d n i) = (node d)(n \<mapsto> (i_mode i, i_nlink i, []))"
proof -
  note B = blank_facts [OF i(1)]
  have s: "unat (i_size i) = 0" using i(1) by (simp add: blank_def)
  have own: "tree d i \<and> unat (i_size i) \<le> MAX_BYTES \<and>
      (\<forall>p < MAX_BYTES. unat (i_size i) \<le> p \<longrightarrow> byte_at (dk_block d) i p = 0) \<and>
      (\<forall>m. m \<noteq> n \<longrightarrow> inode_used d m \<longrightarrow> tree_blocks (dk_block d) i \<inter> file_blocks d m = {})"
    using B s by (metis inf_bot_left leD le0)
  note N = store_node [OF v spares_refl [OF v] ok n B(1) own]
  show "volume_ok (set_inode d n i)" by (rule N(1))
  show "node (set_inode d n i) = (node d)(n \<mapsto> (i_mode i, i_nlink i, []))"
    using N(2) i(2) s by (simp add: file_bytes_def)
qed

end
