(* ===== verification/Create.thy ===== *)
theory Create
  imports Volume
begin

text \<open>
  \<open>create\<close> and \<open>mkdir\<close> of \<^verbatim>\<open>src/fs/album.rs\<close> against the map of files: a new inode, a new name in the
  parent, nothing else.
\<close>

lemma dir_ok_node:
  assumes "volume_ok d"
  shows "dir_ok d n \<longleftrightarrow> (\<exists>m l xs. node d n = Some (m, l, xs) \<and> m AND S_IFMT = S_IFDIR \<and>
    dir_bytes_ok (of_nat n) xs)"
proof
  assume a: "dir_ok d n"
  have "inode_used d n" using dir_okD(2) [OF a] file_okD(1) [OF dir_okD(1) [OF a]] by (simp add: inode_used_def)
  then show "\<exists>m l xs. node d n = Some (m, l, xs) \<and> m AND S_IFMT = S_IFDIR \<and> dir_bytes_ok (of_nat n) xs"
    using dir_okD(3,4) [OF a] by (simp add: node_def is_dir_def)
next
  assume "\<exists>m l xs. node d n = Some (m, l, xs) \<and> m AND S_IFMT = S_IFDIR \<and> dir_bytes_ok (of_nat n) xs"
  then obtain m l xs where n: "node d n = Some (m, l, xs)" "m AND S_IFMT = S_IFDIR" "dir_bytes_ok (of_nat n) xs" by blast
  note N = node_SomeD [OF n(1)]
  then show "dir_ok d n"
    using volume_okD(1) [OF assms, of n] n(2,3) by (auto simp: dir_ok_def inode_used_def is_dir_def)
qed

lemma dir_ok_used: "dir_ok d n \<Longrightarrow> inode_used d n"
  using dir_okD(1,2) file_okD(1) by (simp add: inode_used_def)

lemma dir_ok_same:
  assumes "volume_ok d" "volume_ok d'" "node d' n = node d n"
  shows "dir_ok d' n = dir_ok d n" "inode_used d n \<Longrightarrow> names d' n = names d n"
proof -
  show "dir_ok d' n = dir_ok d n" unfolding dir_ok_node [OF assms(1)] dir_ok_node [OF assms(2)] assms(3) ..
  assume u: "inode_used d n"
  then have "inode_used d' n" using assms(3) node_dom by metis
  with u assms(3) show "names d' n = names d n" by (simp add: node_def names_def)
qed


subsection \<open>A file in a directory\<close>

text \<open>The file, or directory, \<open>f\<close> at the unused number \<open>ino\<close>, with a name in the directory \<open>p\<close>.\<close>

definition added :: "u64 \<Rightarrow> bytes \<Rightarrow> u8 \<Rightarrow> u32 \<times> u32 \<times> bytes \<Rightarrow> u32 \<Rightarrow> u64 \<Rightarrow> disk \<Rightarrow> disk \<Rightarrow> bool" where
  "added p name t f links ino d d' \<longleftrightarrow> ino_ok d (unat ino) \<and> \<not> inode_used d (unat ino) \<and>
     (\<forall>m. 1 \<le> m \<longrightarrow> m < unat ino \<longrightarrow> inode_used d m) \<and> volume_ok d' \<and>
     (\<exists>ys. dir_bytes_ok p ys \<and> dir_map ys = (names d (unat p))(name \<mapsto> (ino, t)) \<and>
       (packed (file_data d (unat p)) \<longrightarrow> packed ys) \<and>
       node d' = (node d)(unat ino \<mapsto> f,
         unat p \<mapsto> (i_mode (inode_at d (unat p)), i_nlink (inode_at d (unat p)) + links, ys)))"

text \<open>On an error only the parent and numbers that were unused may differ.\<close>

definition others_same :: "nat \<Rightarrow> disk \<Rightarrow> disk \<Rightarrow> bool" where
  "others_same p d d' \<longleftrightarrow> (\<forall>m. m \<noteq> p \<longrightarrow> inode_used d m \<longrightarrow> node d' m = node d m)"

lemma file_mode: "S_IFREG OR (mode AND 0xFFF) \<noteq> 0" "S_IFDIR OR (mode AND 0xFFF) \<noteq> 0" for mode :: u32
  using mode_type_bits [of mode] by (auto simp: S_IFREG_def S_IFDIR_def)

lemma ino_nonzero: "ino_ok d (unat ino) \<Longrightarrow> ino \<noteq> 0"
  by (auto simp: ino_ok_def)

text \<open>A file cannot be made where its entry has no room or every number is in use.\<close>

definition no_place :: "bytes \<Rightarrow> nat \<Rightarrow> disk \<Rightarrow> bool" where
  "no_place name n d \<longleftrightarrow> cramped 3 name n d \<or> (\<forall>m. ino_ok d m \<longrightarrow> inode_used d m)"

text \<open>Naming a file that has just been stored.\<close>

lemma wp_name_new:
  fixes s :: "'a album_scheme"
  assumes ok: "album_ok e s" and v: "volume_ok d" "volume_ok (disk e s)"
    and dir: "dir_ok d (unat p)" and name: "utf8_valid name" "names d (unat p) name = None"
    and ino: "ino_ok d (unat ino)" "\<not> inode_used d (unat ino)" and nd: "node (disk e s) = (node d)(unat ino \<mapsto> f)"
    and Q: "\<And>t ys. album_ok e t \<Longrightarrow> volume_ok (disk e t) \<Longrightarrow> dir_bytes_ok p ys \<Longrightarrow>
      dir_map ys = (names d (unat p))(name \<mapsto> (ino, ft)) \<Longrightarrow> (packed (file_data d (unat p)) \<longrightarrow> packed ys) \<Longrightarrow>
      node (disk e t) = (node d)(unat ino \<mapsto> f, unat p \<mapsto> (i_mode (inode_at d (unat p)), i_nlink (inode_at d (unat p)), ys)) \<Longrightarrow>
      Q () t"
    and few: "few 2 (disk e s) \<Longrightarrow> few 3 d"
    and E: "\<And>x t. album_ok e t \<Longrightarrow> others_same (unat p) d (disk e t) \<Longrightarrow> no_place name (unat p) d \<Longrightarrow> E x t"
  shows "wp (add_dir_entry e p ino name ft) Q E s"
proof -
  let ?d = "disk e s"
  have pu: "inode_used d (unat p)" by (rule dir_ok_used [OF dir])
  then have ne: "unat p \<noteq> unat ino" using ino(2) by auto
  then have same: "node ?d (unat p) = node d (unat p)" using nd by simp
  have dir1: "dir_ok ?d (unat p)" "names ?d (unat p) name = None"
    using dir_ok_same [OF v(1,2) same] dir pu name(2) by simp_all
  have pu1: "inode_used ?d (unat p)" by (rule dir_ok_used [OF dir1(1)])
  have at: "i_mode (inode_at ?d (unat p)) = i_mode (inode_at d (unat p))"
    "i_nlink (inode_at ?d (unat p)) = i_nlink (inode_at d (unat p))" "names ?d (unat p) = names d (unat p)"
    "file_data ?d (unat p) = file_data d (unat p)"
    using same pu pu1 by (simp_all add: node_def names_def)
  show ?thesis
  proof (rule wp_add_dir_entry [OF ok dir1(1) name(1) ino_nonzero [OF ino(1)] dir1(2)])
    fix t :: "'a album_scheme" assume t: "album_ok e t" "dir_added ino name ft (unat p) ?d (disk e t)"
    then obtain ys where c: "changed ys (unat p) ?d (disk e t)" and D: "dir_ok (disk e t) (unat p)"
      "names (disk e t) (unat p) = (names ?d (unat p))(name \<mapsto> (ino, ft))"
      "packed (file_data ?d (unat p)) \<longrightarrow> packed (file_data (disk e t) (unat p))" unfolding dir_added_def by blast
    have y: "file_data (disk e t) (unat p) = ys" by (rule changedD(3) [OF c])
    show "Q () t"
    proof (rule Q [OF t(1) changed_volume [OF v(2) pu1 c]])
      show "dir_bytes_ok p ys" using dir_okD(4) [OF D(1)] y by simp
      show "dir_map ys = (names d (unat p))(name \<mapsto> (ino, ft))" using D(2) y at(3) by (simp add: names_def)
      show "packed (file_data d (unat p)) \<longrightarrow> packed ys" using D(3) y at(4) by simp
      show "node (disk e t) = (node d)(unat ino \<mapsto> f, unat p \<mapsto> (i_mode (inode_at d (unat p)), i_nlink (inode_at d (unat p)), ys))"
        using changed_node [OF v(2) pu1 c] nd at(1,2) by simp
    qed
  next
    fix x and t :: "'a album_scheme"
    assume t: "album_ok e t" "only_file (unat p) ?d (disk e t)" "cramped 2 name (unat p) ?d"
    have "node (disk e t) m = node d m" if m: "m \<noteq> unat p" "inode_used d m" for m
      using spares_node [OF only_file_spares [OF v(2) pu1 t(2)] m(1)] m(2) ino(2) nd by auto
    moreover have "no_place name (unat p) d" using t(3) few at(4) unfolding no_place_def cramped_def by auto
    ultimately show "E x t" by (intro E [OF t(1)]) (simp_all add: others_same_def)
  qed
qed


subsection \<open>Creating a file\<close>

definition create_data ::
    "ext \<Rightarrow> u64 \<Rightarrow> bytes \<Rightarrow> u32 \<Rightarrow> ('a album_scheme, u64, fs_error) prog" where
  "create_data e parent_ino name mode =
     bind (lookup e parent_ino name) (\<lambda>found.
     if found \<noteq> None then raise Exists
     else
       bind (alloc_inode e) (\<lambda>ino.
       bind (now e) (\<lambda>t.
       bind (write_inode e ino (inode_default\<lparr>i_mode := S_IFREG OR (mode AND 0xFFF), i_nlink := 1,
             i_atime := t, i_mtime := t, i_ctime := t\<rparr>)) (\<lambda>_.
       bind (add_dir_entry e parent_ino ino name FILE_TYPE_FILE) (\<lambda>_.
       ret ino)))))"

lemma bind_ret: "bind (ret x) f = f x"
  by (rule ext) (simp add: bind_def run_simps)

lemma create_file_split:
  "create_file e p name mode = bind (create_data e p name mode) (\<lambda>ino. bind (sync e) (\<lambda>_. ret ino))"
  by (simp add: create_file_def create_data_def bind_assoc bind_raise bind_if_distrib bind_ret Let_def cong: if_cong)

lemma keeps_create_data: "keeps (create_data e p name mode)"
  unfolding create_data_def by (intro keeps_intros)

lemma wp_create_data:
  fixes s :: "'a album_scheme"
  assumes ok: "album_ok e s" and v: "volume_ok (disk e s)" and dir: "dir_ok (disk e s) (unat p)"
    and name: "utf8_valid name"
    and Q: "\<And>ino t. album_ok e t \<Longrightarrow> names (disk e s) (unat p) name = None \<Longrightarrow>
      added p name FILE_TYPE_FILE (S_IFREG OR (mode AND 0xFFF), 1, []) 0 ino (disk e s) (disk e t) \<Longrightarrow> Q ino t"
    and E: "\<And>x t. album_ok e t \<Longrightarrow>
      if names (disk e s) (unat p) name \<noteq> None then x = Exists \<and> disk e t = disk e s
      else others_same (unat p) (disk e s) (disk e t) \<and> no_place name (unat p) (disk e s) \<Longrightarrow> E x t"
  shows "wp (create_data e p name mode) Q E s"
  unfolding create_data_def wp_bind [of "lookup e p name"]
proof (rule wp_lookup [OF ok dir])
  let ?d = "disk e s" and ?found = "map_option fst (names (disk e s) (unat p) name)"
  fix t :: "'a album_scheme" assume t: "album_ok e t" "disk e t = ?d"
  let ?i = "\<lambda>now. inode_default\<lparr>i_mode := S_IFREG OR (mode AND 0xFFF), i_nlink := 1,
             i_atime := now, i_mtime := now, i_ctime := now\<rparr>"
  let ?new = "bind (alloc_inode e) (\<lambda>ino. bind (now e) (\<lambda>t. bind (write_inode e ino (?i t)) (\<lambda>_.
       bind (add_dir_entry e p ino name FILE_TYPE_FILE) (\<lambda>_. ret ino))))"
  have run: "wp ?new Q E t" if new: "names ?d (unat p) name = None"
    unfolding wp_bind [of "alloc_inode e"]
  proof (rule wp_conseq [OF wp_alloc_inode [OF t(1)]])
    fix ino :: u64 and u :: "'a album_scheme"
    assume u: "album_ok e u \<and> disk e u = disk e t \<and> ino_ok (disk e t) (unat ino) \<and>
        \<not> inode_used (disk e t) (unat ino) \<and> (\<forall>m. 1 \<le> m \<longrightarrow> m < unat ino \<longrightarrow> inode_used (disk e t) m)"
    then have du: "album_ok e u" "disk e u = ?d" "ino_ok ?d (unat ino)" "\<not> inode_used ?d (unat ino)"
      "\<forall>m. 1 \<le> m \<longrightarrow> m < unat ino \<longrightarrow> inode_used ?d m" using t(2) by simp_all
    show "wp (bind (now e) (\<lambda>t. bind (write_inode e ino (?i t)) (\<lambda>_.
       bind (add_dir_entry e p ino name FILE_TYPE_FILE) (\<lambda>_. ret ino)))) Q E u"
      unfolding wp_bind [of "now e"]
    proof (rule wp_disk_now [OF du(1)])
      fix n and w :: "'a album_scheme" assume w: "album_ok e w" "disk e w = disk e u"
      have b: "blank (?i n)" "inode_wf (?i n)" "i_mode (?i n) \<noteq> 0"
        using file_mode by (simp_all add: blank_def inode_wf_def inode_default_def)
      have iw: "ino_ok (disk e w) (unat ino)" using du w(2) by simp
      show "wp (bind (write_inode e ino (?i n)) (\<lambda>_. bind (add_dir_entry e p ino name FILE_TYPE_FILE) (\<lambda>_. ret ino))) Q E w"
        unfolding wp_bind [of "write_inode e ino (?i n)"]
      proof (rule wp_write_inode [OF w(1) iw b(2)])
        fix x :: "'a album_scheme" assume x: "album_ok e x" "disk e x = set_inode (disk e w) (unat ino) (?i n)"
        note B = born_node [OF v album_ok_disk [OF ok] du(3) b(1,3)]
        have dx: "disk e x = set_inode ?d (unat ino) (?i n)" using x(2) w(2) du(2) by simp
        show "wp (bind (add_dir_entry e p ino name FILE_TYPE_FILE) (\<lambda>_. ret ino)) Q E x"
          unfolding wp_bind wp_ret
        proof (rule wp_name_new [OF x(1) v _ dir name new du(3,4)])
          show "volume_ok (disk e x)" unfolding dx by (rule B(1))
          show "node (disk e x) = (node ?d)(unat ino \<mapsto> (S_IFREG OR (mode AND 0xFFF), 1, []))"
            unfolding dx B(2) by simp
        next
          fix y :: "'a album_scheme" and ys assume "album_ok e y" "volume_ok (disk e y)" "dir_bytes_ok p ys"
            "dir_map ys = (names ?d (unat p))(name \<mapsto> (ino, FILE_TYPE_FILE))"
            "packed (file_data ?d (unat p)) \<longrightarrow> packed ys"
            "node (disk e y) = (node ?d)(unat ino \<mapsto> (S_IFREG OR (mode AND 0xFFF), 1, []),
              unat p \<mapsto> (i_mode (inode_at ?d (unat p)), i_nlink (inode_at ?d (unat p)), ys))"
          then show "Q ino y" by (intro Q [OF _ new]) (use du(3,4,5) in \<open>auto simp: added_def\<close>)
        next
          show "few 3 ?d" if "few 2 (disk e x)" using that unfolding dx few_def by (simp add: set_inode_def)
        qed (use E new in simp)
      qed
    qed
  next
    fix x and u :: "'a album_scheme"
    assume "album_ok e u \<and> disk e u = disk e t \<and> x = NoSpace \<and> (\<forall>m. ino_ok (disk e t) m \<longrightarrow> inode_used (disk e t) m)"
    then show "E x u" using E new t(2) by (simp add: others_same_def no_place_def)
  qed
  show "wp (if ?found \<noteq> None then raise Exists else ?new) Q E t"
  proof (cases "names ?d (unat p) name")
    case None
    then show ?thesis using run by simp
  next
    case (Some x)
    then show ?thesis using E [OF t(1)] t(2) by (simp add: wp_prim)
  qed
qed

lemma added_saved:
  assumes "disk_ok d'" "added p name t f links ino d d'"
  shows "added p name t f links ino d (save_bitmap d')"
  using assms(2) save_bitmap_volume [OF assms(1)] unfolding added_def by simp

lemma wp_create_file:
  fixes s :: "'a album_scheme"
  assumes laws: "codec_laws e" "jpeg_returns e"
    and ok: "album_ok e s" and v: "volume_ok (disk e s)" and dir: "dir_ok (disk e s) (unat p)"
    and name: "utf8_valid name"
    and Q: "\<And>ino t. album_ok e t \<Longrightarrow> durable e t \<Longrightarrow> names (disk e s) (unat p) name = None \<Longrightarrow>
      added p name FILE_TYPE_FILE (S_IFREG OR (mode AND 0xFFF), 1, []) 0 ino (disk e s) (disk e t) \<Longrightarrow> Q ino t"
    and E: "\<And>x t. album_ok e t \<Longrightarrow>
      if names (disk e s) (unat p) name \<noteq> None then x = Exists \<and> disk e t = disk e s
      else others_same (unat p) (disk e s) (disk e t) \<and> (no_place name (unat p) (disk e s) \<or> \<not> writable e s) \<Longrightarrow> E x t"
  shows "wp (create_file e p name mode) Q E s"
proof -
  let ?d = "disk e s"
  let ?R = "\<lambda>ino d'. names ?d (unat p) name = None \<and>
    added p name FILE_TYPE_FILE (S_IFREG OR (mode AND 0xFFF), 1, []) 0 ino ?d d'"
  have "wp (create_data e p name mode) (\<lambda>ino t. album_ok e t \<and> ?R ino (save_bitmap (disk e t))) E s"
  proof (rule wp_create_data [OF ok v dir name])
    fix x and t :: "'a album_scheme" assume "album_ok e t" "if names ?d (unat p) name \<noteq> None then x = Exists \<and> disk e t = ?d
      else others_same (unat p) ?d (disk e t) \<and> no_place name (unat p) ?d"
    then show "E x t" by (intro E) (auto split: if_splits)
  qed (use added_saved album_ok_disk in blast)
  then have "wp (create_data e p name mode) (\<lambda>ino. wp (sync e) (\<lambda>_. Q ino) E) E s"
  proof (rule wp_then_sync [OF laws keeps_create_data])
    fix ino :: u64 and t :: "'a album_scheme" assume "album_ok e t" "durable e t" "?R ino (disk e t)"
    then show "Q ino t" using Q by blast
  next
    fix ino :: u64 and x and t :: "'a album_scheme" assume t: "\<not> writable e s" "album_ok e t" "?R ino (disk e t)"
    then have "others_same (unat p) ?d (disk e t)" by (auto simp: others_same_def added_def)
    then show "E x t" using E [OF t(2)] t(1,3) by simp
  qed
  then show ?thesis unfolding create_file_split wp_bind wp_bind_fun wp_ret .
qed

end
