(* ===== verification/Mkdir.thy ===== *)
theory Mkdir
  imports Create
begin

text \<open>\<open>mkdir\<close> of \<^verbatim>\<open>src/fs/album.rs\<close>: a directory is a file of one block, and its parent gains a link.\<close>

subsection \<open>A file of one block\<close>

definition one_block :: "inode \<Rightarrow> u64 \<Rightarrow> bool" where
  "one_block i b \<longleftrightarrow> i_direct i = (replicate 12 0)[0 := b] \<and> i_single i = 0 \<and> i_double i = 0 \<and>
     unat (i_size i) = UB"

lemma one_block_ptr: "one_block i b \<Longrightarrow> valid_node n \<Longrightarrow> ptr V i n = (if n = Data 0 then b else 0)"
  by (cases n) (auto simp: one_block_def Let_def nth_list_update)

lemma one_block_tree:
  assumes i: "one_block i b" and b: "b \<noteq> 0" "dk_data d \<le> unat b" "unat b < dk_total d" "unat b \<in> dk_used d"
    and l: "length (dk_block d (unat b)) = UB"
  shows "inode_wf i" "tree d i" "tree_blocks (dk_block d) i = {unat b}"
    "file_bytes (dk_block d) i 0 UB = dk_block d (unat b)"
    "p < MAX_BYTES \<Longrightarrow> UB \<le> p \<Longrightarrow> byte_at (dk_block d) i p = 0"
proof -
  have v: "valid_node (Data 0)" by (simp add: MAX_BLOCKS_def)
  note P = one_block_ptr [OF i]
  show wf: "inode_wf i" using i by (simp add: one_block_def inode_wf_def)
  show "tree d i" unfolding tree_ok_def using wf b by (auto simp: P split: if_splits)
  have "unat b \<in> tree_blocks (dk_block d) i"
    unfolding tree_blocks_def
    by (intro CollectI exI [of _ "Data 0"]) (use v P [OF v, of "dk_block d"] b(1) in \<open>simp del: ptr.simps\<close>)
  moreover have "tree_blocks (dk_block d) i \<subseteq> {unat b}"
    unfolding tree_blocks_def by (auto simp: P simp del: ptr.simps split: if_splits)
  ultimately show "tree_blocks (dk_block d) i = {unat b}" by blast
  have m: "mapped (dk_block d) i k = (if k = 0 then b else 0)" if "k < MAX_BLOCKS" for k
    unfolding mapped_def using P [of "Data k"] that by simp
  have "byte_at (dk_block d) i j = dk_block d (unat b) ! j" if "j < UB" for j
    using m [of 0] that b(1) by (simp add: byte_at_def logical_def MAX_BLOCKS_def)
  then show "file_bytes (dk_block d) i 0 UB = dk_block d (unat b)"
    by (intro nth_equalityI) (use l in \<open>simp_all add: nth_file_bytes\<close>)
  assume p: "p < MAX_BYTES" "UB \<le> p"
  then have "p div UB \<noteq> 0" by (simp add: div_eq_0_iff)
  then show "byte_at (dk_block d) i p = 0"
    using m [OF in_max_bytes [OF p(1)]] by (simp add: byte_at_def logical_def zeros_def)
qed

lemma fresh_spares:
  assumes v: "volume_ok d" and ok: "disk_ok d" and sb: "dk_sb d' = dk_sb d" and u: "dk_used d \<subseteq> dk_used d'"
    and b: "dk_data d \<le> b" "b \<notin> dk_used d" and V: "\<And>l. l \<noteq> b \<Longrightarrow> dk_block d' l = dk_block d l"
  shows "spares n d d'"
proof -
  have at: "inode_at d' m = inode_at d m" if "ino_ok d m" for m
    using V [of "slot_block (dk_sb d) m"] slot_block_bounds(2) [OF ok that] b(1) sb by (simp add: inode_at_def)
  have us: "inode_used d' m = inode_used d m" for m
    using at [of m] sb by (auto simp: inode_used_def ino_ok_def)
  have "inode_at d' m = inode_at d m \<and> file_ok d' m \<and> file_data d' m = file_data d m \<and>
      file_blocks d' m = file_blocks d m" if m: "inode_used d m" for m
  proof -
    note F = file_okD [OF volume_okD(1) [OF v m]]
    have k: "l \<in> dk_used d' \<and> dk_block d' l = dk_block d l" if "l \<in> tree_blocks (dk_block d) (inode_at d m)" for l
      using tree_data [OF F(2) that] u V [of l] b(2) by auto
    note fr = file_frame [OF F(2) sb k] and a = at [OF F(1)]
    have "file_data d' m = file_data d m"
      unfolding file_data_def file_bytes_def a
      by (rule map_cong [OF refl]) (use fr(3) F(3) in auto)
    moreover have "file_ok d' m"
      unfolding file_ok_def a using fr F sb by (auto simp: ino_ok_def)
    ultimately show ?thesis using a fr(2) by (simp add: file_blocks_def)
  qed
  then show ?thesis using us sb by (simp add: spares_def)
qed

lemma born_block_node:
  assumes v: "volume_ok d" and ok: "disk_ok d" "disk_ok d1" and n: "ino_ok d n" and i: "one_block i b" "i_mode i \<noteq> 0"
    and sb: "dk_sb d1 = dk_sb d" and u: "dk_used d1 = insert (unat b) (dk_used d)"
    and b: "b \<noteq> 0" "dk_data d \<le> unat b" "unat b < dk_total d" "unat b \<notin> dk_used d"
    and V: "\<And>l. l \<noteq> unat b \<Longrightarrow> dk_block d1 l = dk_block d l" and xs: "dk_block d1 (unat b) = xs" "length xs = UB"
  shows "volume_ok (set_inode d1 n i)" "node (set_inode d1 n i) = (node d)(n \<mapsto> (i_mode i, i_nlink i, xs))"
proof -
  have sp: "spares n d d1" by (rule fresh_spares [OF v ok(1) sb _ b(2,4) V]) (use u in auto)
  have b1: "dk_data d1 \<le> unat b" "unat b < dk_total d1" "unat b \<in> dk_used d1" "length (dk_block d1 (unat b)) = UB"
    using b sb u xs by simp_all
  note T = one_block_tree [OF i(1) b(1) b1]
  have s: "unat (i_size i) = UB" using i(1) by (simp add: one_block_def)
  have own: "tree d1 i \<and> unat (i_size i) \<le> MAX_BYTES \<and>
      (\<forall>p < MAX_BYTES. unat (i_size i) \<le> p \<longrightarrow> byte_at (dk_block d1) i p = 0) \<and>
      (\<forall>m. m \<noteq> n \<longrightarrow> inode_used d m \<longrightarrow> tree_blocks (dk_block d1) i \<inter> file_blocks d m = {})"
  proof (intro conjI allI impI)
    show "unat (i_size i) \<le> MAX_BYTES" unfolding s by (simp add: MAX_BYTES_def MAX_BLOCKS_def)
    show "tree_blocks (dk_block d1) i \<inter> file_blocks d m = {}" if "inode_used d m" for m
      using T(3) b(4) file_blocks_used [OF volume_okD(1) [OF v that]] by auto
  qed (use T(2,5) s in auto)
  note N = store_node [OF v sp ok(2) n T(1) own]
  show "volume_ok (set_inode d1 n i)" by (rule N(1))
  show "node (set_inode d1 n i) = (node d)(n \<mapsto> (i_mode i, i_nlink i, xs))"
    using N(2) i(2) s T(4) xs(1) by simp
qed


subsection \<open>New attributes\<close>

text \<open>Mode, owner, links and times of an inode change, its file stays.\<close>

lemma reattr_node:
  assumes v: "volume_ok d" and ok: "disk_ok d" and n: "inode_used d n"
    and i: "i_direct i = i_direct (inode_at d n)" "i_single i = i_single (inode_at d n)"
      "i_double i = i_double (inode_at d n)" "i_size i = i_size (inode_at d n)" "i_mode i \<noteq> 0"
  shows "volume_ok (set_inode d n i)"
    "node (set_inode d n i) = (node d)(n \<mapsto> (i_mode i, i_nlink i, file_data d n))"
    "inode_wf i"
proof -
  note F = file_okD [OF volume_okD(1) [OF v n]] and C = inode_cong [OF i(1-3)]
  show wf: "inode_wf i" using inode_at_wf [of d n] i(1) by (simp add: inode_wf_def)
  have own: "tree d i \<and> unat (i_size i) \<le> MAX_BYTES \<and>
      (\<forall>p < MAX_BYTES. unat (i_size i) \<le> p \<longrightarrow> byte_at (dk_block d) i p = 0) \<and>
      (\<forall>m. m \<noteq> n \<longrightarrow> inode_used d m \<longrightarrow> tree_blocks (dk_block d) i \<inter> file_blocks d m = {})"
    using F(2,3,4) C i(4) tree_ok_inode_cong [OF i(1-3)] volume_okD(2) [OF v n]
    by (auto simp: file_blocks_def)
  note N = store_node [OF v spares_refl [OF v] ok F(1) wf own]
  show "volume_ok (set_inode d n i)" by (rule N(1))
  show "node (set_inode d n i) = (node d)(n \<mapsto> (i_mode i, i_nlink i, file_data d n))"
    using N(2) i(4,5) ext [of "byte_at (dk_block d) i", OF C(1)] by (simp add: file_data_def file_bytes_def)
qed

lemma restamp_node:
  assumes v: "volume_ok d" and ok: "disk_ok d" and n: "inode_used d n"
    and i: "i_direct i = i_direct (inode_at d n)" "i_single i = i_single (inode_at d n)"
      "i_double i = i_double (inode_at d n)" "i_size i = i_size (inode_at d n)" "i_mode i = i_mode (inode_at d n)"
  shows "volume_ok (set_inode d n i)"
    "node (set_inode d n i) = (node d)(n \<mapsto> (i_mode (inode_at d n), i_nlink i, file_data d n))"
    "inode_wf i"
proof -
  have m: "i_mode i \<noteq> 0" using n i(5) by (simp add: inode_used_def)
  show "volume_ok (set_inode d n i)"
    "node (set_inode d n i) = (node d)(n \<mapsto> (i_mode (inode_at d n), i_nlink i, file_data d n))"
    "inode_wf i"
    using reattr_node [OF v ok n i(1-4) m] i(5) by simp_all
qed



subsection \<open>Creating a directory\<close>

definition mkdir_data ::
    "ext \<Rightarrow> u64 \<Rightarrow> bytes \<Rightarrow> u32 \<Rightarrow> ('a album_scheme, u64, fs_error) prog" where
  "mkdir_data e parent_ino name mode =
     bind (lookup e parent_ino name) (\<lambda>found.
     if found \<noteq> None then raise Exists
     else
       bind (getattr e parent_ino) (\<lambda>parent.
       if \<not> is_dir parent then raise NotDir
       else
         bind (alloc_inode e) (\<lambda>ino.
         bind (allocate_block e) (\<lambda>data_block.
         bind (lift (initial_directory_block ino parent_ino)) (\<lambda>payload.
         bind (write_block e (unat data_block) payload) (\<lambda>_.
         bind (now e) (\<lambda>t.
         bind (write_inode e ino (inode_default\<lparr>i_mode := S_IFDIR OR (mode AND 0xFFF), i_nlink := 2,
               i_size := of_nat UB, i_atime := t, i_mtime := t, i_ctime := t, i_block_count := 1,
               i_direct := (i_direct inode_default)[0 := data_block]\<rparr>)) (\<lambda>_.
         bind (add_dir_entry e parent_ino ino name FILE_TYPE_DIR) (\<lambda>_.
         bind (getattr e parent_ino) (\<lambda>parent.
         bind (write_inode e parent_ino
             (parent\<lparr>i_nlink := i_nlink parent + 1, i_mtime := t, i_ctime := t\<rparr>)) (\<lambda>_.
         ret ino)))))))))))"

lemma mkdir_split:
  "mkdir e p name mode = bind (mkdir_data e p name mode) (\<lambda>ino. bind (sync e) (\<lambda>_. ret ino))"
  by (simp add: mkdir_def mkdir_data_def bind_assoc bind_raise bind_if_distrib bind_ret Let_def cong: if_cong)

lemma keeps_mkdir_data: "keeps (mkdir_data e p name mode)"
  unfolding mkdir_data_def by (intro keeps_intros)

text \<open>From the block of the new directory to the end.\<close>

lemma wp_mkdir_tail:
  fixes s :: "'a album_scheme"
  assumes ok: "album_ok e s" and v: "volume_ok d" "volume_ok (disk e s)"
    and dir: "dir_ok d (unat p)" and name: "utf8_valid name" "names d (unat p) name = None"
    and ino: "ino_ok d (unat ino)" "\<not> inode_used d (unat ino)" "\<forall>m. 1 \<le> m \<longrightarrow> m < unat ino \<longrightarrow> inode_used d m"
    and nd: "node (disk e s) = (node d)(unat ino \<mapsto> f)"
    and Q: "\<And>t. album_ok e t \<Longrightarrow> added p name FILE_TYPE_DIR f 1 ino d (disk e t) \<Longrightarrow> Q ino t"
    and few: "few 2 (disk e s) \<Longrightarrow> few 3 d"
    and E: "\<And>x t. album_ok e t \<Longrightarrow> others_same (unat p) d (disk e t) \<Longrightarrow> no_place name (unat p) d \<Longrightarrow> E x t"
  shows "wp (bind (add_dir_entry e p ino name FILE_TYPE_DIR) (\<lambda>_.
         bind (getattr e p) (\<lambda>parent.
         bind (write_inode e p (parent\<lparr>i_nlink := i_nlink parent + 1, i_mtime := n, i_ctime := n\<rparr>)) (\<lambda>_.
         ret ino)))) Q E s"
  unfolding wp_bind [of "add_dir_entry e p ino name FILE_TYPE_DIR"]
proof (rule wp_name_new [OF ok v dir name ino(1,2) nd])
  fix t :: "'a album_scheme" and ys
  assume t: "album_ok e t" "volume_ok (disk e t)" "dir_bytes_ok p ys"
    "dir_map ys = (names d (unat p))(name \<mapsto> (ino, FILE_TYPE_DIR))" "packed (file_data d (unat p)) \<longrightarrow> packed ys"
    "node (disk e t) = (node d)(unat ino \<mapsto> f, unat p \<mapsto> (i_mode (inode_at d (unat p)), i_nlink (inode_at d (unat p)), ys))"
  let ?d = "disk e t" and ?p = "unat p"
  let ?i = "(inode_at ?d ?p)\<lparr>i_nlink := i_nlink (inode_at ?d ?p) + 1, i_mtime := n, i_ctime := n\<rparr>"
  have at: "inode_used ?d ?p \<and> i_mode (inode_at ?d ?p) = i_mode (inode_at d ?p) \<and>
      i_nlink (inode_at ?d ?p) = i_nlink (inode_at d ?p) \<and> file_data ?d ?p = ys"
    by (rule node_SomeD) (simp add: t(6))
  then have pu: "inode_used ?d ?p" by blast
  note R = restamp_node [OF t(2) album_ok_disk [OF t(1)] pu, of ?i]
  have p1: "ino_ok ?d ?p" using pu by (simp add: inode_used_def)
  show "wp (bind (getattr e p) (\<lambda>parent.
         bind (write_inode e p (parent\<lparr>i_nlink := i_nlink parent + 1, i_mtime := n, i_ctime := n\<rparr>)) (\<lambda>_. ret ino))) Q E t"
    unfolding wp_bind [of "getattr e p"]
  proof (rule wp_getattr [OF t(1) p1])
    show "i_mode (inode_at ?d ?p) \<noteq> 0" using pu by (simp add: inode_used_def)
    fix u :: "'a album_scheme" assume u: "album_ok e u" "disk e u = ?d"
    show "wp (bind (write_inode e p ?i) (\<lambda>_. ret ino)) Q E u"
      unfolding wp_bind wp_ret
    proof (rule wp_write_inode [OF u(1)])
      show "ino_ok (disk e u) ?p" "inode_wf ?i" using p1 u(2) R(3) by simp_all
      fix w :: "'a album_scheme" assume w: "album_ok e w" "disk e w = set_inode (disk e u) ?p ?i"
      have dw: "disk e w = set_inode ?d ?p ?i" using w(2) u(2) by simp
      have "added p name FILE_TYPE_DIR f 1 ino d (disk e w)"
        unfolding added_def dw using ino t(3,4) R(1,2) at t(5,6) by auto
      then show "Q ino w" by (rule Q [OF w(1)])
    qed
  qed
qed (rule few E; assumption)+

lemma wp_mkdir_data:
  fixes s :: "'a album_scheme"
  assumes ok: "album_ok e s" and v: "volume_ok (disk e s)" and dir: "dir_ok (disk e s) (unat p)"
    and name: "utf8_valid name"
    and Q: "\<And>ino b t. album_ok e t \<Longrightarrow> names (disk e s) (unat p) name = None \<Longrightarrow> initial_directory_block ino p = Ok b \<Longrightarrow>
      added p name FILE_TYPE_DIR (S_IFDIR OR (mode AND 0xFFF), 2, b) 1 ino (disk e s) (disk e t) \<Longrightarrow> Q ino t"
    and E: "\<And>x t. album_ok e t \<Longrightarrow>
      if names (disk e s) (unat p) name \<noteq> None then x = Exists \<and> disk e t = disk e s
      else others_same (unat p) (disk e s) (disk e t) \<and> no_place name (unat p) (disk e s) \<Longrightarrow> E x t"
  shows "wp (mkdir_data e p name mode) Q E s"
proof -
  let ?d = "disk e s" and ?p = "unat p"
  note dk = album_ok_disk [OF ok]
  let ?i = "\<lambda>t b. inode_default\<lparr>i_mode := S_IFDIR OR (mode AND 0xFFF), i_nlink := 2,
               i_size := of_nat UB, i_atime := t, i_mtime := t, i_ctime := t, i_block_count := 1,
               i_direct := (i_direct inode_default)[0 := b]\<rparr>"
  let ?tail = "\<lambda>ino t. bind (add_dir_entry e p ino name FILE_TYPE_DIR) (\<lambda>_.
         bind (getattr e p) (\<lambda>parent.
         bind (write_inode e p (parent\<lparr>i_nlink := i_nlink parent + 1, i_mtime := t, i_ctime := t\<rparr>)) (\<lambda>_. ret ino)))"
  let ?block = "\<lambda>ino. bind (allocate_block e) (\<lambda>data_block.
         bind (lift (initial_directory_block ino p)) (\<lambda>payload.
         bind (write_block e (unat data_block) payload) (\<lambda>_.
         bind (now e) (\<lambda>t. bind (write_inode e ino (?i t data_block)) (\<lambda>_. ?tail ino t)))))"
  have block: "wp (?block ino) Q E u"
    if new: "names ?d ?p name = None" and u: "album_ok e u" "disk e u = ?d"
      and ino: "ino_ok ?d (unat ino)" "\<not> inode_used ?d (unat ino)" "\<forall>m. 1 \<le> m \<longrightarrow> m < unat ino \<longrightarrow> inode_used ?d m"
    for ino and u :: "'a album_scheme"
    unfolding wp_bind [of "allocate_block e"]
  proof (rule wp_disk_allocate [OF u(1)])
    fix b :: u64 and w :: "'a album_scheme"
    assume w: "album_ok e w" "b \<noteq> 0" "dk_data (disk e u) \<le> unat b" "unat b < dk_total (disk e u)"
      "unat b \<notin> dk_used (disk e u)" "disk e w = (disk e u)\<lparr>dk_block := (dk_block (disk e u))(unat b := zeros),
        dk_bitmap := set_block (dk_bitmap (disk e u)) (unat b)\<rparr>"
    obtain c where c: "initial_directory_block ino p = Ok c" "length c = UB" by (rule initial_directory_block_chain)
    have "wp (write_block e (unat b) c) (\<lambda>_. wp (bind (now e) (\<lambda>t. bind (write_inode e ino (?i t b)) (\<lambda>_. ?tail ino t))) Q E) E w"
    proof (rule wp_disk_write [OF w(1)])
      show "unat b \<noteq> 0" "unat b < dk_total (disk e w)" "length c \<le> UB" using w(2,4,6) c(2) by (simp_all add: unat_gt_0)
      fix x :: "'a album_scheme"
      assume x: "album_ok e x" "disk e x = (disk e w)\<lparr>dk_block := (dk_block (disk e w))(unat b := pad c)\<rparr>"
      let ?x = "disk e x"
      have sx: "dk_sb ?x = dk_sb ?d" "dk_block ?x (unat b) = c" "l \<noteq> unat b \<Longrightarrow> dk_block ?x l = dk_block ?d l" for l
        using x(2) w(6) u(2) pad_eq [of c] c(2) by simp_all
      have bm: "bitmap_wf (dk_bitmap ?d)" "bm_total (dk_bitmap ?d) = dk_total ?d" using dk by (simp_all add: disk_ok_def)
      have ux: "dk_used ?x = insert (unat b) (dk_used ?d)"
        using x(2) w(4,6) u(2) used_set [OF bm(1), of "unat b"] bm(2) by simp
      show "wp (bind (now e) (\<lambda>t. bind (write_inode e ino (?i t b)) (\<lambda>_. ?tail ino t))) Q E x"
        unfolding wp_bind [of "now e"]
      proof (rule wp_disk_now [OF x(1)])
        fix t and y :: "'a album_scheme" assume y: "album_ok e y" "disk e y = ?x"
        have i: "one_block (?i t b) b" "i_mode (?i t b) \<noteq> 0" "inode_wf (?i t b)"
          using file_mode by (simp_all add: one_block_def inode_wf_def inode_default_def UB_val)
        have iy: "ino_ok (disk e y) (unat ino)" using ino(1) y(2) sx(1) by (simp add: ino_ok_def)
        have bd: "dk_data ?d \<le> unat b" "unat b < dk_total ?d" "unat b \<notin> dk_used ?d" using w(3-5) u(2) by simp_all
        note N = born_block_node [OF v dk album_ok_disk [OF x(1)] ino(1) i(1,2) sx(1) ux w(2) bd sx(3,2) c(2)]
        show "wp (bind (write_inode e ino (?i t b)) (\<lambda>_. ?tail ino t)) Q E y"
          unfolding wp_bind [of "write_inode e ino (?i t b)"]
        proof (rule wp_write_inode [OF y(1) iy i(3)])
          fix z :: "'a album_scheme" assume z: "album_ok e z" "disk e z = set_inode (disk e y) (unat ino) (?i t b)"
          have dz: "disk e z = set_inode ?x (unat ino) (?i t b)" using z(2) y(2) by simp
          show "wp (?tail ino t) Q E z"
          proof (rule wp_mkdir_tail [OF z(1) v _ dir name new ino])
            show "volume_ok (disk e z)" unfolding dz by (rule N(1))
            show "node (disk e z) = (node ?d)(unat ino \<mapsto> (S_IFDIR OR (mode AND 0xFFF), 2, c))"
              unfolding dz using N(2) by simp
          next
            have "{dk_data ?d..<dk_total ?d} - dk_used ?d \<subseteq> insert (unat b) ({dk_data ?d..<dk_total ?d} - dk_used ?x)"
              unfolding ux by blast
            from card_mono [OF _ this] card_insert_le_m1 have "card ({dk_data ?d..<dk_total ?d} - dk_used ?d) \<le>
                Suc (card ({dk_data ?d..<dk_total ?d} - dk_used ?x))" by (simp add: card_insert_if split: if_splits)
            then show "few 3 ?d" if "few 2 (disk e z)" using that sx(1) unfolding dz few_def by (simp add: set_inode_def)
          qed (use Q [OF _ new c(1)] E new in simp_all)
        qed
      qed
    qed
    then show "wp (bind (lift (initial_directory_block ino p)) (\<lambda>payload.
         bind (write_block e (unat b) payload) (\<lambda>_.
         bind (now e) (\<lambda>t. bind (write_inode e ino (?i t b)) (\<lambda>_. ?tail ino t))))) Q E w"
      using c(1) by (simp only: wp_bind [of "lift _"] wp_prim wp_bind [of "write_block _ _ _"])
  next
    assume "{dk_data (disk e u)..<dk_total (disk e u)} \<subseteq> dk_used (disk e u)"
    then have "few 3 ?d" unfolding few_def u(2) by (simp add: Diff_eq_empty_iff [THEN iffD2])
    then show "E NoSpace u" using E [OF u(1)] u(2) new by (simp add: others_same_def no_place_def cramped_def)
  qed
  have pdir: "ino_ok ?d ?p" "i_mode (inode_at ?d ?p) \<noteq> 0" "\<not> \<not> is_dir (inode_at ?d ?p)"
    using file_okD(1) [OF dir_okD(1) [OF dir]] dir_okD(2,3) [OF dir] by simp_all
  have new_run: "wp (bind (getattr e p) (\<lambda>parent. if \<not> is_dir parent then raise NotDir
       else bind (alloc_inode e) ?block)) Q E t"
    if new: "names ?d ?p name = None" and t: "album_ok e t" "disk e t = ?d" for t :: "'a album_scheme"
    unfolding wp_bind [of "getattr e p"]
  proof (rule wp_getattr [OF t(1)])
    show "ino_ok (disk e t) ?p" "i_mode (inode_at (disk e t) ?p) \<noteq> 0" using pdir t(2) by simp_all
    fix u :: "'a album_scheme" assume u: "album_ok e u" "disk e u = disk e t"
    have "wp (alloc_inode e) (\<lambda>ino. wp (?block ino) Q E) E u"
    proof (rule wp_conseq [OF wp_alloc_inode [OF u(1)]])
      fix ino :: u64 and x :: "'a album_scheme"
      assume "album_ok e x \<and> disk e x = disk e u \<and> ino_ok (disk e u) (unat ino) \<and>
        \<not> inode_used (disk e u) (unat ino) \<and> (\<forall>m. 1 \<le> m \<longrightarrow> m < unat ino \<longrightarrow> inode_used (disk e u) m)"
      then show "wp (?block ino) Q E x" using block [OF new, of x ino] u(2) t(2) by simp
    next
      fix y and x :: "'a album_scheme"
      assume "album_ok e x \<and> disk e x = disk e u \<and> y = NoSpace \<and> (\<forall>m. ino_ok (disk e u) m \<longrightarrow> inode_used (disk e u) m)"
      then show "E y x" using E [of x] new u(2) t(2) by (simp add: others_same_def no_place_def)
    qed
    then have "wp (bind (alloc_inode e) ?block) Q E u" by (rule wp_bind [THEN iffD2])
    then show "wp (if \<not> is_dir (inode_at (disk e t) ?p) then raise NotDir else bind (alloc_inode e) ?block) Q E u"
      unfolding t(2) if_not_P [OF pdir(3)] .
  qed
  show ?thesis
    unfolding mkdir_data_def wp_bind [of "lookup e p name"]
  proof (rule wp_lookup [OF ok dir])
    fix t :: "'a album_scheme" assume t: "album_ok e t" "disk e t = ?d"
    show "wp (if map_option fst (names ?d ?p name) \<noteq> None then raise Exists
       else bind (getattr e p) (\<lambda>parent. if \<not> is_dir parent then raise NotDir
       else bind (alloc_inode e) ?block)) Q E t"
    proof (cases "names ?d ?p name")
      case None
      then show ?thesis using new_run [OF None t] by simp
    next
      case (Some x)
      then show ?thesis using E [OF t(1)] t(2) by (simp add: wp_prim)
    qed
  qed
qed

lemma wp_mkdir:
  fixes s :: "'a album_scheme"
  assumes laws: "codec_laws e" "jpeg_returns e"
    and ok: "album_ok e s" and v: "volume_ok (disk e s)" and dir: "dir_ok (disk e s) (unat p)"
    and name: "utf8_valid name"
    and Q: "\<And>ino b t. album_ok e t \<Longrightarrow> durable e t \<Longrightarrow> names (disk e s) (unat p) name = None \<Longrightarrow>
      initial_directory_block ino p = Ok b \<Longrightarrow>
      added p name FILE_TYPE_DIR (S_IFDIR OR (mode AND 0xFFF), 2, b) 1 ino (disk e s) (disk e t) \<Longrightarrow> Q ino t"
    and E: "\<And>x t. album_ok e t \<Longrightarrow>
      if names (disk e s) (unat p) name \<noteq> None then x = Exists \<and> disk e t = disk e s
      else others_same (unat p) (disk e s) (disk e t) \<and> (no_place name (unat p) (disk e s) \<or> \<not> writable e s) \<Longrightarrow> E x t"
  shows "wp (mkdir e p name mode) Q E s"
proof -
  let ?d = "disk e s"
  let ?R = "\<lambda>ino d'. names ?d (unat p) name = None \<and> (\<exists>b. initial_directory_block ino p = Ok b \<and>
    added p name FILE_TYPE_DIR (S_IFDIR OR (mode AND 0xFFF), 2, b) 1 ino ?d d')"
  have "wp (mkdir_data e p name mode) (\<lambda>ino t. album_ok e t \<and> ?R ino (save_bitmap (disk e t))) E s"
  proof (rule wp_mkdir_data [OF ok v dir name])
    fix x and t :: "'a album_scheme" assume "album_ok e t" "if names ?d (unat p) name \<noteq> None then x = Exists \<and> disk e t = ?d
      else others_same (unat p) ?d (disk e t) \<and> no_place name (unat p) ?d"
    then show "E x t" by (intro E) (auto split: if_splits)
  qed (use added_saved album_ok_disk in blast)
  then have "wp (mkdir_data e p name mode) (\<lambda>ino. wp (sync e) (\<lambda>_. Q ino) E) E s"
  proof (rule wp_then_sync [OF laws keeps_mkdir_data])
    fix ino :: u64 and t :: "'a album_scheme" assume "album_ok e t" "durable e t" "?R ino (disk e t)"
    then show "Q ino t" using Q by blast
  next
    fix ino :: u64 and x and t :: "'a album_scheme" assume t: "\<not> writable e s" "album_ok e t" "?R ino (disk e t)"
    then have "others_same (unat p) ?d (disk e t)" by (auto simp: others_same_def added_def)
    then show "E x t" using E [OF t(2)] t(1,3) by simp
  qed
  then show ?thesis unfolding mkdir_split wp_bind wp_bind_fun wp_ret .
qed

end
