(* ===== verification/Unlink.thy ===== *)
theory Unlink
  imports Mkdir
begin

text \<open>
  \<open>unlink\<close> and \<open>rmdir\<close> of \<^verbatim>\<open>src/fs/album.rs\<close> against the map of files: a name less in the parent,
  and the inode it led to is released when no link is left.
\<close>

subsection \<open>Releasing an inode\<close>

text \<open>
  What a release gives back. Every block that holds a byte of the file is free, nothing that belongs
  to another file is, and nothing is taken; when no pointer block of the file is empty and no block
  lies past its size, exactly its blocks go, the pointer blocks among them.
\<close>

definition full_tree :: "disk \<Rightarrow> nat \<Rightarrow> bool" where
  "full_tree d n \<longleftrightarrow> tidy_tree (dk_block d) (inode_at d n) \<and>
     (\<forall>k < MAX_BLOCKS. div_ceil (unat (i_size (inode_at d n))) UB \<le> k \<longrightarrow> mapped (dk_block d) (inode_at d n) k = 0)"

definition releases :: "nat \<Rightarrow> disk \<Rightarrow> disk \<Rightarrow> bool" where
  "releases n d d' \<longleftrightarrow> dk_used d' \<subseteq> dk_used d \<and> dk_used d - file_blocks d n \<subseteq> dk_used d' \<and>
     (\<forall>k < div_ceil (unat (i_size (inode_at d n))) UB. mapped (dk_block d) (inode_at d n) k \<noteq> 0 \<longrightarrow>
        unat (mapped (dk_block d) (inode_at d n) k) \<notin> dk_used d') \<and>
     (full_tree d n \<longrightarrow> dk_used d' = dk_used d - file_blocks d n)"

lemma releases_cong: "dk_bitmap d'' = dk_bitmap d' \<Longrightarrow> releases n d d'' = releases n d d'"
  by (simp add: releases_def)

text \<open>A change to one file leaves the tree of pointers of every other one.\<close>

definition same_tree :: "nat \<Rightarrow> disk \<Rightarrow> disk \<Rightarrow> bool" where
  "same_tree n d d' \<longleftrightarrow> inode_at d' n = inode_at d n \<and>
     (\<forall>q. valid_node q \<longrightarrow> ptr (dk_block d') (inode_at d n) q = ptr (dk_block d) (inode_at d n) q)"

lemma only_file_tree:
  assumes v: "volume_ok d" and u: "inode_used d n" "inode_used d m" "m \<noteq> n" and o: "only_file n d d'"
  shows "same_tree m d d'"
proof -
  let ?j = "inode_at d m"
  note F = file_okD [OF volume_okD(1) [OF v u(2)]]
  have k: "l \<in> dk_used d' \<and> dk_block d' l = dk_block d l" if "l \<in> tree_blocks (dk_block d) ?j" for l
  proof -
    have "l \<notin> file_blocks d n" using that volume_okD(2) [OF v u(2,1,3)] unfolding file_blocks_def by blast
    then show ?thesis using o tree_data [OF F(2) that] unfolding only_file_def by blast
  qed
  have same: "dk_block d' (unat (ptr (dk_block d) ?j q)) = dk_block d (unat (ptr (dk_block d) ?j q))"
    if "valid_node q" "ptr (dk_block d) ?j q \<noteq> 0" for q using k that unfolding tree_blocks_def by blast
  have U: "tree_blocks (dk_block d) ?j \<subseteq> dk_used d'" using k by blast
  have "ptr (dk_block d') ?j q = ptr (dk_block d) ?j q" if "valid_node q" for q
    by (rule tree_ok_frame(2) [OF F(2) _ U that]) (rule same)
  moreover have "inode_at d' m = ?j" using o F(1) u(3) unfolding only_file_def by blast
  ultimately show ?thesis by (simp add: same_tree_def)
qed

lemma same_treeD:
  assumes "same_tree n d d'"
  shows "file_blocks d' n = file_blocks d n" "full_tree d' n = full_tree d n"
    "k < MAX_BLOCKS \<Longrightarrow> mapped (dk_block d') (inode_at d' n) k = mapped (dk_block d) (inode_at d n) k"
    "inode_at d' n = inode_at d n"
proof -
  show i: "inode_at d' n = inode_at d n" using assms by (simp add: same_tree_def)
  have p: "ptr (dk_block d') (inode_at d n) q = ptr (dk_block d) (inode_at d n) q" if "valid_node q" for q
    using assms that by (simp add: same_tree_def)
  show "file_blocks d' n = file_blocks d n"
    unfolding file_blocks_def tree_blocks_def i by (intro Collect_cong iff_exI) (use p in auto)
  have m: "mapped (dk_block d') (inode_at d n) k = mapped (dk_block d) (inode_at d n) k" if "k < MAX_BLOCKS" for k
    using p [of "Data k"] that by (simp add: mapped_def del: ptr.simps)
  then show "k < MAX_BLOCKS \<Longrightarrow> mapped (dk_block d') (inode_at d' n) k = mapped (dk_block d) (inode_at d n) k"
    unfolding i .
  have "tidy_tree (dk_block d') (inode_at d n) = tidy_tree (dk_block d) (inode_at d n)"
    unfolding tidy_tree_def by (intro iff_allI imp_cong refl) (use p in \<open>auto simp del: ptr.simps\<close>)
  with m show "full_tree d' n = full_tree d n" unfolding full_tree_def i by auto
qed

lemma ceil_max: "n \<le> MAX_BYTES \<Longrightarrow> div_ceil n UB \<le> MAX_BLOCKS"
  using less_div_ceil_iff [of UB MAX_BLOCKS n] by (simp add: MAX_BYTES_def not_less [symmetric] UB_val)

lemma releases_from:
  assumes t: "same_tree n d d1" and b: "dk_bitmap d1 = dk_bitmap d" and f: "file_ok d n" and r: "releases n d1 d2"
  shows "releases n d d2"
proof -
  note S = same_treeD [OF t]
  have "k < MAX_BLOCKS" if "k < div_ceil (unat (i_size (inode_at d n))) UB" for k
    using ceil_max [OF file_okD(3) [OF f]] that by simp
  with S(3) r show ?thesis unfolding releases_def S(1,2,4) b by auto
qed

lemma unmapped_releases:
  assumes t: "tree d i" and u: "unmapped (set [0..<div_ceil (unat (i_size i)) UB]) d i d' i'"
    and i: "i_direct i = i_direct (inode_at d n)" "i_single i = i_single (inode_at d n)"
      "i_double i = i_double (inode_at d n)" "i_size i = i_size (inode_at d n)"
    and f: "file_ok d n"
  shows "releases n d d'"
proof -
  let ?V = "dk_block d" and ?c = "div_ceil (unat (i_size i)) UB"
  obtain N where N: "drops N d i d' i'" "tidy_tree ?V i \<Longrightarrow> tidy_tree (dk_block d') i'"
      "\<And>k. k < ?c \<Longrightarrow> k < MAX_BLOCKS \<Longrightarrow> mapped (dk_block d') i' k = 0"
    using u unfolding unmapped_def by auto
  have sh: "shrinks (dk_data d) (dk_total d) N (dk_used d) ?V i (dk_used d') (dk_block d') i'"
    using N(1) by (simp add: drops_def)
  have bl: "file_blocks d n = tree_blocks ?V i" unfolding file_blocks_def inode_cong(2) [OF i(1-3)] ..
  have mp: "mapped ?V (inode_at d n) k = mapped ?V i k" for k unfolding mapped_def ptr_inode_cong [OF i(1-3)] ..
  have ft: "full_tree d n \<longleftrightarrow> tidy_tree ?V i \<and> (\<forall>k < MAX_BLOCKS. ?c \<le> k \<longrightarrow> mapped ?V i k = 0)"
    unfolding full_tree_def tidy_tree_def mp i(4) ptr_inode_cong [OF i(1-3)] ..
  have gone: "unat (mapped ?V i k) \<notin> dk_used d'" if k: "k < ?c" "mapped ?V i k \<noteq> 0" for k
  proof -
    have "k < MAX_BLOCKS" using ceil_max [OF file_okD(3) [OF f]] k(1) i(4) by simp
    then have v: "valid_node (Data k)" by simp
    have "Data k \<in> N" using N(3) [OF k(1) \<open>k < MAX_BLOCKS\<close>] shrinksD(4) [OF sh v] k(2)
      by (auto simp: mapped_def simp del: ptr.simps split: if_splits)
    then show ?thesis using shrinksD(5) [OF sh] v k(2) unfolding mapped_def by blast
  qed
  have all: "dk_used d' = dk_used d - tree_blocks ?V i"
    if tidy: "tidy_tree ?V i" and size: "\<And>k. k < MAX_BLOCKS \<Longrightarrow> ?c \<le> k \<Longrightarrow> mapped ?V i k = 0"
    by (rule unmapped_all(1) [OF t u tidy]) (rule size)
  have "dk_used d' \<subseteq> dk_used d" using shrinksD(5) [OF sh] by blast
  moreover have "dk_used d - tree_blocks ?V i \<subseteq> dk_used d'"
    unfolding shrinksD(5) [OF sh] tree_blocks_def by blast
  ultimately show ?thesis
    unfolding releases_def bl mp i(4) [symmetric] ft using gone all by blast
qed

text \<open>The inode \<open>i\<close> in memory may have a lower link count than the one on disk.\<close>

lemma wp_release:
  fixes s :: "'a album_scheme"
  assumes ok: "album_ok e s" and v: "volume_ok (disk e s)" and n: "inode_used (disk e s) (unat ino)"
    and i: "i_direct i = i_direct (inode_at (disk e s) (unat ino))"
      "i_single i = i_single (inode_at (disk e s) (unat ino))"
      "i_double i = i_double (inode_at (disk e s) (unat ino))"
      "i_size i = i_size (inode_at (disk e s) (unat ino))"
    and Q: "\<And>t. album_ok e t \<Longrightarrow> volume_ok (disk e t) \<Longrightarrow>
      node (disk e t) = (node (disk e s))(unat ino := None) \<Longrightarrow>
      (\<And>m. m \<noteq> unat ino \<Longrightarrow> inode_used (disk e s) m \<Longrightarrow> inode_at (disk e t) m = inode_at (disk e s) m) \<Longrightarrow>
      releases (unat ino) (disk e s) (disk e t) \<Longrightarrow> Q () t"
  shows "wp (bind (free_all_blocks e i) (\<lambda>_. free_inode e ino)) Q E s"
proof -
  let ?d = "disk e s" and ?n = "unat ino"
  let ?ks = "[0..<div_ceil (unat (i_size i)) UB]"
  note F = file_okD [OF volume_okD(1) [OF v n]] and dk = album_ok_disk [OF ok]
  have t: "tree ?d i" using F(2) tree_ok_inode_cong [OF i(1-3)] by simp
  have "wp (remove_blocks e i ?ks) (\<lambda>_. wp (free_inode e ino) Q E) E s"
  proof (rule wp_remove_blocks [OF ok t])
    fix j and u :: "'a album_scheme" assume u: "album_ok e u" "unmapped (set ?ks) ?d i (disk e u) j"
    have "others_kept ?d i (disk e u)" by (rule editsD(1) [OF unmapped_edits [OF t u(2)]])
    then have "others_kept ?d (inode_at ?d ?n) (disk e u)"
      unfolding others_kept_def inode_cong(2) [OF i(1-3)] .
    then have sp: "spares ?n ?d (disk e u)" by (rule only_file_spares [OF v n others_only [OF _ dk]])
    have "volume_ok (set_inode (disk e u) ?n inode_default) \<and>
        node (set_inode (disk e u) ?n inode_default) = (node ?d)(?n := None)"
      using store_node [OF v sp album_ok_disk [OF u(1)] F(1) inode_wf_default] by simp
    moreover have io: "ino_ok (disk e u) ?n" using F(1) sp by (simp add: spares_def ino_ok_def)
    moreover have "inode_at (set_inode (disk e u) ?n inode_default) m = inode_at ?d m" if m: "m \<noteq> ?n" "inode_used ?d m" for m
    proof -
      have "ino_ok (disk e u) m" using m(2) sp by (simp add: spares_def inode_used_def ino_ok_def)
      from inode_at_set [OF album_ok_disk [OF u(1)] io this inode_wf_default] m sp show ?thesis by (simp add: spares_def)
    qed
    moreover have "releases ?n ?d (set_inode (disk e u) ?n inode_default)"
      using unmapped_releases [OF t u(2) i volume_okD(1) [OF v n]] by (simp add: releases_def set_inode_def)
    ultimately show "wp (free_inode e ino) Q E u"
      unfolding free_inode_def by (intro wp_write_inode [OF u(1) _ inode_wf_default]) (use Q in simp_all)
  qed
  then show ?thesis by (simp add: free_all_blocks_def Let_def wp_bind wp_prim wp_ret wp_bind_fun)
qed


subsection \<open>Removing a name\<close>

definition unnamed :: "u64 \<Rightarrow> bytes \<Rightarrow> bytes \<Rightarrow> disk \<Rightarrow> bool" where
  "unnamed p name ys d \<longleftrightarrow> dir_bytes_ok p ys \<and> dir_map ys = (names d (unat p))(name := None) \<and>
     length ys = length (file_data d (unat p)) \<and>
     (\<forall>k < length ys div UB. tidy (chain (dir_chunk ys k)))"

lemma wp_unname:
  fixes s :: "'a album_scheme"
  assumes ok: "album_ok e s" and v: "volume_ok (disk e s)"
    and dir: "dir_ok (disk e s) (unat p)" "dir_tidy (disk e s) (unat p)"
    and name: "name \<notin> dots" "names (disk e s) (unat p) name \<noteq> None"
    and Q: "\<And>t ys. album_ok e t \<Longrightarrow> volume_ok (disk e t) \<Longrightarrow> unnamed p name ys (disk e s) \<Longrightarrow>
      node (disk e t) = (node (disk e s))(unat p \<mapsto>
        (i_mode (inode_at (disk e s) (unat p)), i_nlink (inode_at (disk e s) (unat p)), ys)) \<Longrightarrow>
      (\<And>m. m \<noteq> unat p \<Longrightarrow> inode_used (disk e s) m \<Longrightarrow> inode_at (disk e t) m = inode_at (disk e s) m) \<Longrightarrow>
      (\<And>m. m \<noteq> unat p \<Longrightarrow> inode_used (disk e s) m \<Longrightarrow> same_tree m (disk e s) (disk e t)) \<Longrightarrow>
      dk_bitmap (disk e t) = dk_bitmap (disk e s) \<Longrightarrow> Q () t"
  shows "wp (remove_dir_entry e p name) Q E s"
proof (rule wp_remove_dir_entry [OF ok dir name])
  let ?d = "disk e s"
  fix t :: "'a album_scheme" assume t: "album_ok e t" "dir_removed name (unat p) ?d (disk e t)"
  then obtain ys where c: "changed ys (unat p) ?d (disk e t)" and D: "dir_ok (disk e t) (unat p)" "dir_tidy (disk e t) (unat p)"
    "names (disk e t) (unat p) = (names ?d (unat p))(name := None)"
    "length (file_data (disk e t) (unat p)) = length (file_data ?d (unat p))" unfolding dir_removed_def by blast
  have y: "file_data (disk e t) (unat p) = ys" by (rule changedD(3) [OF c])
  have pu: "inode_used ?d (unat p)" by (rule dir_ok_used [OF dir(1)])
  show "Q () t"
  proof (rule Q [OF t(1) changed_volume [OF v pu c]])
    show "unnamed p name ys ?d"
      using dir_okD(4) [OF D(1)] D(2-4) y unfolding unnamed_def dir_tidy_def names_def by simp
    show "node (disk e t) = (node ?d)(unat p \<mapsto> (i_mode (inode_at ?d (unat p)), i_nlink (inode_at ?d (unat p)), ys))"
      by (rule changed_node [OF v pu c])
    show "inode_at (disk e t) m = inode_at ?d m" if "m \<noteq> unat p" "inode_used ?d m" for m
      using only_file_spares [OF v pu changedD(1) [OF c]] that by (simp add: spares_def)
    show "same_tree m ?d (disk e t)" if "m \<noteq> unat p" "inode_used ?d m" for m
      by (rule only_file_tree [OF v pu that(2,1) changedD(1) [OF c]])
    show "dk_bitmap (disk e t) = dk_bitmap ?d" using t(2) by (simp add: dir_removed_def)
  qed
qed


subsection \<open>Unlinking a file\<close>

definition unlink_data :: "ext \<Rightarrow> u64 \<Rightarrow> bytes \<Rightarrow> ('a album_scheme, unit, fs_error) prog" where
  "unlink_data e parent_ino name =
     bind (lookup e parent_ino name) (\<lambda>found.
     bind (lift (ok_or NotFound found)) (\<lambda>ino.
     bind (getattr e ino) (\<lambda>inode.
     if is_dir inode then raise IsDir
     else
       bind (remove_dir_entry e parent_ino name) (\<lambda>_.
       if saturating_pred (i_nlink inode) = 0 then
         bind (free_all_blocks e (inode\<lparr>i_nlink := saturating_pred (i_nlink inode)\<rparr>)) (\<lambda>_. free_inode e ino)
       else
         bind (now e) (\<lambda>t. write_inode e ino (inode\<lparr>i_nlink := saturating_pred (i_nlink inode), i_ctime := t\<rparr>))))))"

lemma unlink_split: "unlink e p name = bind (unlink_data e p name) (\<lambda>_. sync e)"
  by (simp add: unlink_def unlink_data_def bind_assoc bind_raise bind_if_distrib Let_def cong: if_cong)

lemma keeps_unlink_data: "keeps (unlink_data e p name)"
  unfolding unlink_data_def by (intro keeps_intros)

text \<open>The map of files after the name \<open>name\<close> of the file \<open>n\<close> was removed from \<open>p\<close>.\<close>

definition unlinked :: "u64 \<Rightarrow> bytes \<Rightarrow> nat \<Rightarrow> disk \<Rightarrow> disk \<Rightarrow> bool" where
  "unlinked p name n d d' \<longleftrightarrow> volume_ok d' \<and> (\<exists>ys. unnamed p name ys d \<and>
     node d' = (node d)(unat p \<mapsto> (i_mode (inode_at d (unat p)), i_nlink (inode_at d (unat p)), ys),
       n := (if saturating_pred (i_nlink (inode_at d n)) = 0 then None
         else Some (i_mode (inode_at d n), saturating_pred (i_nlink (inode_at d n)), file_data d n)))) \<and>
     (if saturating_pred (i_nlink (inode_at d n)) = 0 then releases n d d' else dk_used d' = dk_used d)"

lemma wp_unlink_data:
  fixes s :: "'a album_scheme"
  assumes ok: "album_ok e s" and v: "volume_ok (disk e s)"
    and dir: "dir_ok (disk e s) (unat p)" "dir_tidy (disk e s) (unat p)"
    and name: "names (disk e s) (unat p) name = Some (ino, ft)" and f: "regular (disk e s) (unat ino)"
      "inode_used (disk e s) (unat ino)" "name \<notin> dots"
    and Q: "\<And>t. album_ok e t \<Longrightarrow> unlinked p name (unat ino) (disk e s) (disk e t) \<Longrightarrow> Q () t"
  shows "wp (unlink_data e p name) Q E s"
  unfolding unlink_data_def wp_bind [of "lookup e p name"]
proof (rule wp_lookup [OF ok dir(1)])
  let ?d = "disk e s" and ?n = "unat ino"
  let ?i = "inode_at (disk e s) (unat ino)"
  let ?j = "?i\<lparr>i_nlink := saturating_pred (i_nlink ?i)\<rparr>"
  have ne: "?n \<noteq> unat p" using f(1) dir_okD(3) [OF dir(1)] by (auto simp: regular_def)
  have nd: "\<not> is_dir ?i" using f(1) by (simp add: regular_def)
  have some: "names ?d (unat p) name \<noteq> None" using name by simp
  let ?rest = "bind (remove_dir_entry e p name) (\<lambda>_.
       if saturating_pred (i_nlink ?i) = 0 then bind (free_all_blocks e ?j) (\<lambda>_. free_inode e ino)
       else bind (now e) (\<lambda>t. write_inode e ino (?i\<lparr>i_nlink := saturating_pred (i_nlink ?i), i_ctime := t\<rparr>)))"
  have run: "wp ?rest Q E u" if u: "album_ok e u" "disk e u = ?d" for u :: "'a album_scheme"
    unfolding wp_bind [of "remove_dir_entry e p name"]
  proof (rule wp_unname [OF u(1)])
    show "volume_ok (disk e u)" "dir_ok (disk e u) (unat p)" "dir_tidy (disk e u) (unat p)" "name \<notin> dots"
      "names (disk e u) (unat p) name \<noteq> None" using v dir f(3) some u(2) by simp_all
  next
    fix w :: "'a album_scheme" and ys
    assume w: "album_ok e w" "volume_ok (disk e w)" "unnamed p name ys (disk e u)"
      "node (disk e w) = (node (disk e u))(unat p \<mapsto>
        (i_mode (inode_at (disk e u) (unat p)), i_nlink (inode_at (disk e u) (unat p)), ys))"
      "\<And>m. m \<noteq> unat p \<Longrightarrow> inode_used (disk e u) m \<Longrightarrow> inode_at (disk e w) m = inode_at (disk e u) m"
      "\<And>m. m \<noteq> unat p \<Longrightarrow> inode_used (disk e u) m \<Longrightarrow> same_tree m (disk e u) (disk e w)"
      "dk_bitmap (disk e w) = dk_bitmap (disk e u)"
    have from_w: "releases ?n ?d d'" if "releases ?n (disk e w) d'" for d'
      by (rule releases_from [OF _ _ volume_okD(1) [OF v f(2)] that]) (use w(6) [OF ne] w(7) f(2) u(2) in simp_all)
    have at: "inode_at (disk e w) ?n = ?i" using w(5) [OF ne] f(2) u(2) by simp
    have nw: "node (disk e w) ?n = node ?d ?n" using w(4) ne u(2) by simp
    have nu: "inode_used (disk e w) ?n" using nw f(2) node_dom by metis
    have data: "file_data (disk e w) ?n = file_data ?d ?n"
      using nw f(2) nu by (simp add: node_def)
    show "wp (if saturating_pred (i_nlink ?i) = 0 then bind (free_all_blocks e ?j) (\<lambda>_. free_inode e ino)
       else bind (now e) (\<lambda>t. write_inode e ino (?i\<lparr>i_nlink := saturating_pred (i_nlink ?i), i_ctime := t\<rparr>))) Q E w"
    proof (cases "saturating_pred (i_nlink ?i) = 0")
      case True
      have "wp (bind (free_all_blocks e ?j) (\<lambda>_. free_inode e ino)) Q E w"
      proof (rule wp_release [OF w(1,2) nu])
        fix x :: "'a album_scheme"
        assume x: "album_ok e x" "volume_ok (disk e x)" "node (disk e x) = (node (disk e w))(?n := None)"
          "releases ?n (disk e w) (disk e x)"
        show "Q () x"
          by (rule Q [OF x(1)]) (use x(2,3) from_w [OF x(4)] w(3,4) u(2) True in \<open>auto simp: unlinked_def\<close>)
      qed (simp_all add: at)
      with True show ?thesis by simp
    next
      case False
      have "wp (bind (now e) (\<lambda>t. write_inode e ino (?i\<lparr>i_nlink := saturating_pred (i_nlink ?i), i_ctime := t\<rparr>))) Q E w"
        unfolding wp_bind
      proof (rule wp_disk_now [OF w(1)])
        fix t and x :: "'a album_scheme" assume x: "album_ok e x" "disk e x = disk e w"
        let ?k = "?i\<lparr>i_nlink := saturating_pred (i_nlink ?i), i_ctime := t\<rparr>"
        note R = restamp_node [OF w(2) album_ok_disk [OF w(1)] nu, of ?k]
        show "wp (write_inode e ino ?k) Q E x"
        proof (rule wp_write_inode [OF x(1)])
          show "ino_ok (disk e x) ?n" using nu x(2) by (simp add: inode_used_def)
          show "inode_wf ?k" by (rule R(3)) (simp_all add: at)
          fix y :: "'a album_scheme" assume y: "album_ok e y" "disk e y = set_inode (disk e x) ?n ?k"
          have "volume_ok (disk e y)" "node (disk e y) = (node (disk e w))(?n \<mapsto> (i_mode ?i, saturating_pred (i_nlink ?i), file_data ?d ?n))"
            using R(1,2) y(2) x(2) at data by simp_all
          moreover have "dk_used (disk e y) = dk_used ?d" using y(2) x(2) w(7) u(2) by (simp add: set_inode_def)
          ultimately show "Q () y"
            by (intro Q [OF y(1)]) (use w(3,4) u(2) False in \<open>auto simp: unlinked_def\<close>)
        qed
      qed
      with False show ?thesis by simp
    qed
  qed
  fix t :: "'a album_scheme" assume t: "album_ok e t" "disk e t = ?d"
  have "wp (getattr e ino) (\<lambda>inode. wp (if is_dir inode then raise IsDir
     else
       bind (remove_dir_entry e p name) (\<lambda>_.
       if saturating_pred (i_nlink inode) = 0 then
         bind (free_all_blocks e (inode\<lparr>i_nlink := saturating_pred (i_nlink inode)\<rparr>)) (\<lambda>_. free_inode e ino)
       else
         bind (now e) (\<lambda>t. write_inode e ino (inode\<lparr>i_nlink := saturating_pred (i_nlink inode), i_ctime := t\<rparr>)))) Q E) E t"
  proof (rule wp_getattr [OF t(1)])
    show "ino_ok (disk e t) ?n" "i_mode (inode_at (disk e t) ?n) \<noteq> 0"
      using f(2) t(2) by (simp_all add: inode_used_def)
    fix u :: "'a album_scheme" assume u: "album_ok e u" "disk e u = disk e t"
    have "disk e u = ?d" using u(2) t(2) by simp
    from run [OF u(1) this] show "wp (if is_dir (inode_at (disk e t) ?n) then raise IsDir
     else
       bind (remove_dir_entry e p name) (\<lambda>_.
       if saturating_pred (i_nlink (inode_at (disk e t) ?n)) = 0 then
         bind (free_all_blocks e ((inode_at (disk e t) ?n)\<lparr>i_nlink := saturating_pred (i_nlink (inode_at (disk e t) ?n))\<rparr>)) (\<lambda>_. free_inode e ino)
       else
         bind (now e) (\<lambda>ta. write_inode e ino ((inode_at (disk e t) ?n)\<lparr>i_nlink := saturating_pred (i_nlink (inode_at (disk e t) ?n)), i_ctime := ta\<rparr>)))) Q E u"
      unfolding t(2) if_not_P [OF nd] .
  qed
  then show "wp (bind (lift (ok_or NotFound (map_option fst (names ?d (unat p) name)))) (\<lambda>ino.
     bind (getattr e ino) (\<lambda>inode.
     if is_dir inode then raise IsDir
     else
       bind (remove_dir_entry e p name) (\<lambda>_.
       if saturating_pred (i_nlink inode) = 0 then
         bind (free_all_blocks e (inode\<lparr>i_nlink := saturating_pred (i_nlink inode)\<rparr>)) (\<lambda>_. free_inode e ino)
       else
         bind (now e) (\<lambda>t. write_inode e ino (inode\<lparr>i_nlink := saturating_pred (i_nlink inode), i_ctime := t\<rparr>)))))) Q E t"
    by (simp only: name option.map fst_conv ok_or_simps wp_bind [of "lift _"] wp_prim wp_bind [of "getattr e ino"])
qed

lemma wp_unlink:
  fixes s :: "'a album_scheme"
  assumes laws: "codec_laws e" "jpeg_returns e"
    and ok: "album_ok e s" and v: "volume_ok (disk e s)"
    and dir: "dir_ok (disk e s) (unat p)" "dir_tidy (disk e s) (unat p)"
    and name: "names (disk e s) (unat p) name = Some (ino, ft)" and f: "regular (disk e s) (unat ino)"
      "inode_used (disk e s) (unat ino)" "name \<notin> dots"
    and Q: "\<And>t. album_ok e t \<Longrightarrow> durable e t \<Longrightarrow> unlinked p name (unat ino) (disk e s) (disk e t) \<Longrightarrow> Q () t"
    and E: "\<And>x t. album_ok e t \<Longrightarrow> \<not> writable e s \<Longrightarrow> unlinked p name (unat ino) (disk e s) (disk e t) \<Longrightarrow> E x t"
  shows "wp (unlink e p name) Q E s"
proof -
  let ?R = "\<lambda>(_ :: unit). unlinked p name (unat ino) (disk e s)"
  have "wp (unlink_data e p name) (\<lambda>x t. album_ok e t \<and> ?R x (save_bitmap (disk e t))) E s"
    by (rule wp_unlink_data [OF ok v dir name f])
      (use save_bitmap_volume album_ok_disk in \<open>auto simp: unlinked_def releases_def\<close>)
  then have "wp (unlink_data e p name) (\<lambda>x. wp (sync e) Q E) E s"
    by (rule wp_then_sync [OF laws keeps_unlink_data]) (use Q E in blast)+
  then show ?thesis unfolding unlink_split wp_bind .
qed

end
