(* ===== verification/Rmdir.thy ===== *)
theory Rmdir
  imports Unlink
begin

text \<open>\<open>rmdir\<close> of \<^verbatim>\<open>src/fs/album.rs\<close>: only a directory that lists nothing but \<open>.\<close> and \<open>..\<close> goes.\<close>

definition dots_only :: "bytes \<Rightarrow> bool" where
  "dots_only xs \<longleftrightarrow> \<not> list_ex (\<lambda>(_, entry_name, _). entry_name \<noteq> [46] \<and> entry_name \<noteq> [46, 46]) (dir_list xs)"

lemma dots_only_map: "dots_only xs \<longleftrightarrow> dom (dir_map xs) \<subseteq> {[46], [46, 46]}"
proof -
  have "dots_only xs \<longleftrightarrow> set (dir_names (dir_list xs)) \<subseteq> {[46], [46, 46]}"
    unfolding dots_only_def dir_names_def by (auto simp: list_ex_iff)
  also have "set (dir_names (dir_list xs)) = dom (dir_map xs)" using dir_map_dom by auto
  finally show ?thesis .
qed

definition rmdir_data :: "ext \<Rightarrow> u64 \<Rightarrow> bytes \<Rightarrow> ('a album_scheme, unit, fs_error) prog" where
  "rmdir_data e parent_ino name =
     bind (lookup e parent_ino name) (\<lambda>found.
     bind (lift (ok_or NotFound found)) (\<lambda>ino.
     bind (getattr e ino) (\<lambda>inode.
     if \<not> is_dir inode then raise NotDir
     else
       bind (readdir e ino) (\<lambda>entries.
       if list_ex (\<lambda>(_, entry_name, _). entry_name \<noteq> [46] \<and> entry_name \<noteq> [46, 46]) entries
       then raise NotEmpty
       else
         bind (remove_dir_entry e parent_ino name) (\<lambda>_.
         bind (bind (free_all_blocks e inode) (\<lambda>_. free_inode e ino)) (\<lambda>_.
         bind (getattr e parent_ino) (\<lambda>parent.
         bind (now e) (\<lambda>t.
         write_inode e parent_ino
             (parent\<lparr>i_nlink := saturating_pred (i_nlink parent), i_mtime := t, i_ctime := t\<rparr>)))))))))"

lemma rmdir_split: "rmdir e p name = bind (rmdir_data e p name) (\<lambda>_. sync e)"
  by (simp add: rmdir_def rmdir_data_def bind_assoc bind_raise bind_if_distrib cong: if_cong)

lemma keeps_rmdir_data: "keeps (rmdir_data e p name)"
  unfolding rmdir_data_def by (intro keeps_intros)

definition rmdired :: "u64 \<Rightarrow> bytes \<Rightarrow> nat \<Rightarrow> disk \<Rightarrow> disk \<Rightarrow> bool" where
  "rmdired p name n d d' \<longleftrightarrow> volume_ok d' \<and>
     (\<forall>m. m \<noteq> n \<longrightarrow> m \<noteq> unat p \<longrightarrow> inode_used d m \<longrightarrow> inode_at d' m = inode_at d m) \<and> (\<exists>ys. unnamed p name ys d \<and>
     node d' = (node d)(n := None,
       unat p \<mapsto> (i_mode (inode_at d (unat p)), saturating_pred (i_nlink (inode_at d (unat p))), ys))) \<and>
     releases n d d'"

text \<open>A new link count and new times.\<close>

lemma wp_restamp:
  fixes s :: "'a album_scheme"
  assumes ok: "album_ok e s" and v: "volume_ok (disk e s)" and n: "node (disk e s) (unat p) = Some (m, l, ys)"
    and Q: "\<And>t. album_ok e t \<Longrightarrow> volume_ok (disk e t) \<Longrightarrow>
      node (disk e t) = (node (disk e s))(unat p \<mapsto> (m, l', ys)) \<Longrightarrow>
      (\<And>k. k \<noteq> unat p \<Longrightarrow> inode_used (disk e s) k \<Longrightarrow> inode_at (disk e t) k = inode_at (disk e s) k) \<Longrightarrow>
      dk_bitmap (disk e t) = dk_bitmap (disk e s) \<Longrightarrow> Q () t"
  shows "wp (write_inode e p ((inode_at (disk e s) (unat p))\<lparr>i_nlink := l', i_mtime := x, i_ctime := x\<rparr>)) Q E s"
proof -
  let ?d = "disk e s" and ?p = "unat p"
  let ?i = "(inode_at ?d ?p)\<lparr>i_nlink := l', i_mtime := x, i_ctime := x\<rparr>"
  note dk = album_ok_disk [OF ok]
  from node_SomeD [OF n] have at: "inode_used ?d ?p" "i_mode (inode_at ?d ?p) = m" "file_data ?d ?p = ys" by simp_all
  note R = restamp_node [OF v dk at(1), of ?i]
  have p: "ino_ok ?d ?p" using at(1) by (simp add: inode_used_def)
  show ?thesis
  proof (rule wp_write_inode [OF ok p])
    show wf: "inode_wf ?i" by (rule R(3)) simp_all
    fix t :: "'a album_scheme" assume t: "album_ok e t" "disk e t = set_inode ?d ?p ?i"
    show "Q () t"
    proof (rule Q [OF t(1)])
      show "inode_at (disk e t) k = inode_at ?d k" if "k \<noteq> ?p" "inode_used ?d k" for k
        using inode_at_set [OF dk p _ wf, of k] that t(2) by (simp add: inode_used_def)
      show "dk_bitmap (disk e t) = dk_bitmap ?d" using t(2) by (simp add: set_inode_def)
    qed (use R(1,2) t(2) at in simp_all)
  qed
qed

text \<open>The parent after the directory is gone.\<close>

lemma wp_drop_link:
  fixes s :: "'a album_scheme"
  assumes ok: "album_ok e s" and v: "volume_ok (disk e s)" and n: "node (disk e s) (unat p) = Some (m, l, ys)"
    and Q: "\<And>t. album_ok e t \<Longrightarrow> volume_ok (disk e t) \<Longrightarrow>
      node (disk e t) = (node (disk e s))(unat p \<mapsto> (m, saturating_pred l, ys)) \<Longrightarrow>
      (\<And>k. k \<noteq> unat p \<Longrightarrow> inode_used (disk e s) k \<Longrightarrow> inode_at (disk e t) k = inode_at (disk e s) k) \<Longrightarrow>
      dk_bitmap (disk e t) = dk_bitmap (disk e s) \<Longrightarrow> Q () t"
  shows "wp (bind (getattr e p) (\<lambda>parent. bind (now e) (\<lambda>t.
         write_inode e p (parent\<lparr>i_nlink := saturating_pred (i_nlink parent), i_mtime := t, i_ctime := t\<rparr>)))) Q E s"
  unfolding wp_bind [of "getattr e p"]
proof (rule wp_getattr [OF ok])
  let ?d = "disk e s" and ?p = "unat p"
  from node_SomeD [OF n] have at: "inode_used ?d ?p" "i_nlink (inode_at ?d ?p) = l" by simp_all
  then show "ino_ok ?d ?p" "i_mode (inode_at ?d ?p) \<noteq> 0" by (simp_all add: inode_used_def)
  fix t :: "'a album_scheme" assume t: "album_ok e t" "disk e t = ?d"
  show "wp (bind (now e) (\<lambda>ta. write_inode e p ((inode_at ?d ?p)\<lparr>i_nlink := saturating_pred (i_nlink (inode_at ?d ?p)),
      i_mtime := ta, i_ctime := ta\<rparr>))) Q E t"
    unfolding wp_bind
  proof (rule wp_disk_now [OF t(1)])
    fix x and u :: "'a album_scheme" assume u: "album_ok e u" "disk e u = disk e t"
    then have du: "disk e u = ?d" using t(2) by simp
    have "wp (write_inode e p ((inode_at (disk e u) ?p)\<lparr>i_nlink := saturating_pred l, i_mtime := x, i_ctime := x\<rparr>)) Q E u"
      by (rule wp_restamp [OF u(1), where m = m and l = l and ys = ys]) (use v n Q du in simp_all)
    then show "wp (write_inode e p ((inode_at ?d ?p)\<lparr>i_nlink := saturating_pred (i_nlink (inode_at ?d ?p)),
        i_mtime := x, i_ctime := x\<rparr>)) Q E u"
      using at(2) du by simp
  qed
qed

lemma wp_rmdir_data:
  fixes s :: "'a album_scheme"
  assumes ok: "album_ok e s" and v: "volume_ok (disk e s)"
    and dir: "dir_ok (disk e s) (unat p)" "dir_tidy (disk e s) (unat p)"
    and name: "names (disk e s) (unat p) name = Some (ino, ft)" and f: "dir_ok (disk e s) (unat ino)"
      "ino \<noteq> p" "name \<notin> dots"
    and Q: "\<And>t. album_ok e t \<Longrightarrow> dots_only (file_data (disk e s) (unat ino)) \<Longrightarrow>
      rmdired p name (unat ino) (disk e s) (disk e t) \<Longrightarrow> Q () t"
    and E: "\<And>t. album_ok e t \<Longrightarrow> disk e t = disk e s \<Longrightarrow> \<not> dots_only (file_data (disk e s) (unat ino)) \<Longrightarrow> E NotEmpty t"
  shows "wp (rmdir_data e p name) Q E s"
  unfolding rmdir_data_def wp_bind [of "lookup e p name"]
proof (rule wp_lookup [OF ok dir(1)])
  let ?d = "disk e s" and ?n = "unat ino"
  let ?i = "inode_at (disk e s) (unat ino)"
  have ne: "?n \<noteq> unat p" using f(2) by (simp add: word_unat_eq_iff)
  have some: "names ?d (unat p) name \<noteq> None" using name by simp
  have fu: "inode_used ?d ?n" by (rule dir_ok_used [OF f(1)])
  let ?last = "bind (getattr e p) (\<lambda>parent. bind (now e) (\<lambda>t.
         write_inode e p (parent\<lparr>i_nlink := saturating_pred (i_nlink parent), i_mtime := t, i_ctime := t\<rparr>)))"
  let ?rest = "bind (remove_dir_entry e p name) (\<lambda>_.
         bind (bind (free_all_blocks e ?i) (\<lambda>_. free_inode e ino)) (\<lambda>_. ?last))"
  have run: "wp ?rest Q E u" if u: "album_ok e u" "disk e u = ?d" and dots: "dots_only (file_data ?d ?n)"
    for u :: "'a album_scheme"
    unfolding wp_bind [of "remove_dir_entry e p name"]
  proof (rule wp_unname [OF u(1)])
    show "volume_ok (disk e u)" "dir_ok (disk e u) (unat p)" "dir_tidy (disk e u) (unat p)" "name \<notin> dots"
      "names (disk e u) (unat p) name \<noteq> None" using v dir f(3) some u(2) by simp_all
  next
    fix w :: "'a album_scheme" and ys
    assume w: "album_ok e w" "volume_ok (disk e w)" "unnamed p name ys (disk e u)"
      "node (disk e w) = (node (disk e u))(unat p \<mapsto>
        (i_mode (inode_at (disk e u) (unat p)), i_nlink (inode_at (disk e u) (unat p)), ys))"
      "\<And>m. m \<noteq> unat p \<Longrightarrow> inode_used (disk e u) m \<Longrightarrow> inode_at (disk e w) m = inode_at (disk e u) m"
      "\<And>m. m \<noteq> unat p \<Longrightarrow> inode_used (disk e u) m \<Longrightarrow> same_tree m (disk e u) (disk e w)"
      "dk_bitmap (disk e w) = dk_bitmap (disk e u)"
    have from_w: "releases ?n ?d d'" if "releases ?n (disk e w) d'" for d'
      by (rule releases_from [OF _ _ dir_okD(1) [OF f(1)] that]) (use w(6) [OF ne] w(7) fu u(2) in simp_all)
    have at: "inode_at (disk e w) ?n = ?i" using w(5) [OF ne] fu u(2) by simp
    have nw: "node (disk e w) ?n = node ?d ?n" using w(4) ne u(2) by simp
    have nu: "inode_used (disk e w) ?n" using nw fu node_dom by metis
    show "wp (bind (bind (free_all_blocks e ?i) (\<lambda>_. free_inode e ino)) (\<lambda>_. ?last)) Q E w"
      unfolding wp_bind [of "bind (free_all_blocks e ?i) (\<lambda>_. free_inode e ino)"]
    proof (rule wp_release [OF w(1,2) nu])
      fix x :: "'a album_scheme"
      assume x: "album_ok e x" "volume_ok (disk e x)" "node (disk e x) = (node (disk e w))(?n := None)"
        "\<And>k. k \<noteq> ?n \<Longrightarrow> inode_used (disk e w) k \<Longrightarrow> inode_at (disk e x) k = inode_at (disk e w) k"
        "releases ?n (disk e w) (disk e x)"
      have "node (disk e x) (unat p) = Some (i_mode (inode_at ?d (unat p)), i_nlink (inode_at ?d (unat p)), ys)"
        using x(3) w(4) ne u(2) by simp
      then show "wp ?last Q E x"
      proof (rule wp_drop_link [OF x(1,2)])
        fix y :: "'a album_scheme" assume y: "album_ok e y" "volume_ok (disk e y)" "node (disk e y) = (node (disk e x))
          (unat p \<mapsto> (i_mode (inode_at ?d (unat p)), saturating_pred (i_nlink (inode_at ?d (unat p))), ys))"
          "\<And>k. k \<noteq> unat p \<Longrightarrow> inode_used (disk e x) k \<Longrightarrow> inode_at (disk e y) k = inode_at (disk e x) k"
          "dk_bitmap (disk e y) = dk_bitmap (disk e x)"
        have rel: "releases ?n ?d (disk e y)" using from_w [OF x(5)] releases_cong [OF y(5)] by simp
        have same: "inode_at (disk e y) k = inode_at ?d k" if k: "k \<noteq> ?n" "k \<noteq> unat p" "inode_used ?d k" for k
        proof -
          have "inode_used (disk e w) k" "inode_used (disk e x) k"
            using k w(4) x(3) u(2) unfolding node_dom [symmetric] by simp_all
          then show ?thesis using k w(5) x(4) y(4) u(2) by simp
        qed
        have "node (disk e y) = (node ?d)(?n := None,
            unat p \<mapsto> (i_mode (inode_at ?d (unat p)), saturating_pred (i_nlink (inode_at ?d (unat p))), ys))"
          unfolding y(3) x(3) w(4) u(2) using ne by (auto simp: fun_eq_iff)
        then show "Q () y" by (intro Q [OF y(1) dots]) (use y(2) w(3) u(2) same rel in \<open>auto simp: rmdired_def\<close>)
      qed
    qed (simp_all add: at)
  qed
  have nd: "\<not> \<not> is_dir ?i" using dir_okD(3) [OF f(1)] by simp
  let ?check = "bind (readdir e ino) (\<lambda>entries.
       if list_ex (\<lambda>(_, entry_name, _). entry_name \<noteq> [46] \<and> entry_name \<noteq> [46, 46]) entries
       then raise NotEmpty else ?rest)"
  have check: "wp ?check Q E u" if u: "album_ok e u" "disk e u = ?d" for u :: "'a album_scheme"
    unfolding wp_bind [of "readdir e ino"]
  proof (rule wp_readdir [OF u(1)])
    show "dir_ok (disk e u) ?n" using f(1) u(2) by simp
    fix w :: "'a album_scheme" assume w: "album_ok e w" "disk e w = disk e u"
    then have dw: "disk e w = ?d" using u(2) by simp
    show "wp (if list_ex (\<lambda>(_, entry_name, _). entry_name \<noteq> [46] \<and> entry_name \<noteq> [46, 46]) (dir_list (file_data (disk e u) ?n))
       then raise NotEmpty else ?rest) Q E w"
    proof (cases "dots_only (file_data ?d ?n)")
      case True
      then have no: "\<not> list_ex (\<lambda>(_, entry_name, _). entry_name \<noteq> [46] \<and> entry_name \<noteq> [46, 46]) (dir_list (file_data (disk e u) ?n))"
        using u(2) by (simp add: dots_only_def)
      from run [OF w(1) dw True] show ?thesis unfolding if_not_P [OF no] .
    next
      case False
      then show ?thesis using E [OF w(1) dw False] u(2) by (simp add: dots_only_def wp_prim)
    qed
  qed
  fix t :: "'a album_scheme" assume t: "album_ok e t" "disk e t = ?d"
  let ?body = "\<lambda>ino inode. if \<not> is_dir inode then raise NotDir
     else
       bind (readdir e ino) (\<lambda>entries.
       if list_ex (\<lambda>(_, entry_name, _). entry_name \<noteq> [46] \<and> entry_name \<noteq> [46, 46]) entries
       then raise NotEmpty
       else
         bind (remove_dir_entry e p name) (\<lambda>_.
         bind (bind (free_all_blocks e inode) (\<lambda>_. free_inode e ino)) (\<lambda>_. ?last)))"
  have "wp (getattr e ino) (\<lambda>inode. wp (?body ino inode) Q E) E t"
  proof (rule wp_getattr [OF t(1)])
    show "ino_ok (disk e t) ?n" "i_mode (inode_at (disk e t) ?n) \<noteq> 0"
      using fu t(2) by (simp_all add: inode_used_def)
    fix u :: "'a album_scheme" assume u: "album_ok e u" "disk e u = disk e t"
    have "disk e u = ?d" using u(2) t(2) by simp
    from check [OF u(1) this] show "wp (?body ino (inode_at (disk e t) ?n)) Q E u"
      unfolding t(2) if_not_P [OF nd] .
  qed
  then show "wp (bind (lift (ok_or NotFound (map_option fst (names ?d (unat p) name)))) (\<lambda>ino.
     bind (getattr e ino) (?body ino))) Q E t"
    by (simp only: name option.map fst_conv ok_or_simps wp_bind [of "lift _"] wp_prim wp_bind [of "getattr e ino"])
qed

lemma rmdired_saved:
  assumes ok: "album_ok e t" and r: "rmdired p name n d (disk e t)"
  shows "rmdired p name n d (save_bitmap (disk e t))"
proof -
  note dk = album_ok_disk [OF ok]
  have v: "volume_ok (disk e t)" using r by (simp add: rmdired_def)
  note S = save_bitmap_volume [OF dk v]
  have "inode_at (save_bitmap (disk e t)) m = inode_at d m" if m: "m \<noteq> n" "m \<noteq> unat p" "inode_used d m" for m
  proof -
    have "inode_at (disk e t) m = inode_at d m" using m r unfolding rmdired_def by blast
    moreover have "inode_used (disk e t) m" using m r unfolding rmdired_def node_dom [symmetric] by auto
    ultimately show ?thesis using save_bitmap_inode [OF dk] by (simp add: inode_used_def)
  qed
  then show ?thesis using r S releases_cong [of "save_bitmap (disk e t)" "disk e t"] unfolding rmdired_def by simp
qed

lemma wp_rmdir:
  fixes s :: "'a album_scheme"
  assumes laws: "codec_laws e" "jpeg_returns e"
    and ok: "album_ok e s" and v: "volume_ok (disk e s)"
    and dir: "dir_ok (disk e s) (unat p)" "dir_tidy (disk e s) (unat p)"
    and name: "names (disk e s) (unat p) name = Some (ino, ft)" and f: "dir_ok (disk e s) (unat ino)"
      "ino \<noteq> p" "name \<notin> dots"
    and Q: "\<And>t. album_ok e t \<Longrightarrow> durable e t \<Longrightarrow> dots_only (file_data (disk e s) (unat ino)) \<Longrightarrow>
      rmdired p name (unat ino) (disk e s) (disk e t) \<Longrightarrow> Q () t"
    and E: "\<And>x t. album_ok e t \<Longrightarrow>
      if dots_only (file_data (disk e s) (unat ino))
      then \<not> writable e s \<and> rmdired p name (unat ino) (disk e s) (disk e t)
      else x = NotEmpty \<and> disk e t = disk e s \<Longrightarrow> E x t"
  shows "wp (rmdir e p name) Q E s"
proof -
  let ?R = "\<lambda>(_ :: unit) d'. dots_only (file_data (disk e s) (unat ino)) \<and> rmdired p name (unat ino) (disk e s) d'"
  have saved: "rmdired p name (unat ino) (disk e s) (save_bitmap (disk e t))"
    if "album_ok e t" "rmdired p name (unat ino) (disk e s) (disk e t)" for t :: "'a album_scheme"
    using that by (rule rmdired_saved)
  have "wp (rmdir_data e p name) (\<lambda>x t. album_ok e t \<and> ?R x (save_bitmap (disk e t))) E s"
    by (rule wp_rmdir_data [OF ok v dir name f])
      (use saved E in auto)
  then have "wp (rmdir_data e p name) (\<lambda>x. wp (sync e) Q E) E s"
    by (rule wp_then_sync [OF laws keeps_rmdir_data]) (use Q E in simp_all)
  then show ?thesis unfolding rmdir_split wp_bind .
qed

end
