(* ===== verification/FsTree.thy ===== *)
theory FsTree
  imports Rmdir
begin

text \<open>
  The invariant of the whole tree of names, over the map of files: every directory is well formed,
  every name leads to a file in use of the type the entry gives, apart from \<open>.\<close> and \<open>..\<close> no file
  has two names, \<open>.\<close> is the directory itself and \<open>..\<close> the one that names it, and the root is a
  directory that no other name leads to.
\<close>

type_synonym nodes = "nat \<rightharpoonup> u32 \<times> u32 \<times> bytes"

definition dir_node :: "nodes \<Rightarrow> nat \<Rightarrow> bytes \<Rightarrow> bool" where
  "dir_node N n xs \<longleftrightarrow> (\<exists>m l. N n = Some (m, l, xs) \<and> m AND S_IFMT = S_IFDIR)"

text \<open>\<open>entry N n name i t\<close>: the directory \<open>n\<close> has the entry.\<close>

definition entry_in :: "nodes \<Rightarrow> nat \<Rightarrow> bytes \<Rightarrow> u64 \<Rightarrow> u8 \<Rightarrow> bool" where
  "entry_in N n name i t \<longleftrightarrow> (\<exists>xs. dir_node N n xs \<and> dir_map xs name = Some (i, t))"

definition names_ok :: "nodes \<Rightarrow> bool" where
  "names_ok N \<longleftrightarrow>
     (\<forall>n xs. dir_node N n xs \<longrightarrow> n < 2 ^ 64 \<and> dir_bytes_ok (of_nat n) xs) \<and>
     (\<forall>n name i t. entry_in N n name i t \<longrightarrow>
        N (unat i) \<noteq> None \<and> (t = FILE_TYPE_DIR \<longleftrightarrow> (\<exists>ys. dir_node N (unat i) ys))) \<and>
     (\<forall>n name i t n' name' t'. entry_in N n name i t \<longrightarrow> entry_in N n' name' i t' \<longrightarrow>
        name \<notin> dots \<longrightarrow> name' \<notin> dots \<longrightarrow> n = n' \<and> name = name') \<and>
     (\<forall>n xs. dir_node N n xs \<longrightarrow> dir_map xs [46] = Some (of_nat n, FILE_TYPE_DIR) \<and>
        (\<exists>q. dir_map xs [46, 46] = Some (q, FILE_TYPE_DIR) \<and>
           (n = 1 \<and> q = 1 \<or> (\<exists>name. name \<notin> dots \<and> entry_in N (unat q) name (of_nat n) FILE_TYPE_DIR)))) \<and>
     (\<exists>xs. dir_node N 1 xs) \<and> (\<forall>n name i t. entry_in N n name i t \<longrightarrow> name \<notin> dots \<longrightarrow> unat i \<noteq> 1)"

definition fs_ok :: "disk \<Rightarrow> bool" where
  "fs_ok d \<longleftrightarrow> volume_ok d \<and> names_ok (node d)"

lemma names_okD:
  assumes "names_ok N"
  shows "dir_node N n xs \<Longrightarrow> n < 2 ^ 64" "dir_node N n xs \<Longrightarrow> dir_bytes_ok (of_nat n) xs"
    "entry_in N n name i t \<Longrightarrow> N (unat i) \<noteq> None"
    "entry_in N n name i t \<Longrightarrow> t = FILE_TYPE_DIR \<longleftrightarrow> (\<exists>ys. dir_node N (unat i) ys)"
    "entry_in N n name i t \<Longrightarrow> entry_in N n' name' i t' \<Longrightarrow> name \<notin> dots \<Longrightarrow> name' \<notin> dots \<Longrightarrow> n = n' \<and> name = name'"
    "dir_node N n xs \<Longrightarrow> dir_map xs [46] = Some (of_nat n, FILE_TYPE_DIR)"
    "dir_node N n xs \<Longrightarrow> \<exists>q. dir_map xs [46, 46] = Some (q, FILE_TYPE_DIR) \<and>
       (n = 1 \<and> q = 1 \<or> (\<exists>name. name \<notin> dots \<and> entry_in N (unat q) name (of_nat n) FILE_TYPE_DIR))"
    "\<exists>xs. dir_node N 1 xs" "entry_in N n name i t \<Longrightarrow> name \<notin> dots \<Longrightarrow> unat i \<noteq> 1"
  using assms unfolding names_ok_def by blast+

lemma dir_node_unique: "dir_node N n xs \<Longrightarrow> dir_node N n ys \<Longrightarrow> xs = ys"
  by (auto simp: dir_node_def)

lemma entry_in_dir: "dir_node N n xs \<Longrightarrow> entry_in N n name i t \<longleftrightarrow> dir_map xs name = Some (i, t)"
  using dir_node_unique unfolding entry_in_def by blast

lemma names_okI:
  assumes "\<And>n xs. dir_node N n xs \<Longrightarrow> n < 2 ^ 64" "\<And>n xs. dir_node N n xs \<Longrightarrow> dir_bytes_ok (of_nat n) xs"
    "\<And>n name i t. entry_in N n name i t \<Longrightarrow> N (unat i) \<noteq> None"
    "\<And>n name i t. entry_in N n name i t \<Longrightarrow> t = FILE_TYPE_DIR \<longleftrightarrow> (\<exists>ys. dir_node N (unat i) ys)"
    "\<And>n name i t n' name' t'. entry_in N n name i t \<Longrightarrow> entry_in N n' name' i t' \<Longrightarrow> name \<notin> dots \<Longrightarrow> name' \<notin> dots \<Longrightarrow>
      n = n' \<and> name = name'"
    "\<And>n xs. dir_node N n xs \<Longrightarrow> dir_map xs [46] = Some (of_nat n, FILE_TYPE_DIR)"
    "\<And>n xs. dir_node N n xs \<Longrightarrow> \<exists>q. dir_map xs [46, 46] = Some (q, FILE_TYPE_DIR) \<and>
       (n = 1 \<and> q = 1 \<or> (\<exists>name. name \<notin> dots \<and> entry_in N (unat q) name (of_nat n) FILE_TYPE_DIR))"
    "\<exists>xs. dir_node N 1 xs" "\<And>n name i t. entry_in N n name i t \<Longrightarrow> name \<notin> dots \<Longrightarrow> unat i \<noteq> 1"
  shows "names_ok N"
  unfolding names_ok_def
  by (intro conjI allI impI; (rule assms(8) | rule assms(1,2,3,4,6,7); assumption | rule assms(9); assumption | rule assms(5) [THEN conjunct1]; assumption
      | rule assms(5) [THEN conjunct2]; assumption))


subsection \<open>A new name\<close>

text \<open>A new regular file.\<close>

lemma names_ok_create:
  assumes ok: "names_ok N" and p: "N p = Some (m, l, xs)" "m AND S_IFMT = S_IFDIR"
    and i: "N (unat i) = None" and f: "\<not> fm AND S_IFMT = S_IFDIR"
    and name: "dir_map xs name = None" and ys: "dir_bytes_ok (of_nat p) ys" "dir_map ys = (dir_map xs)(name \<mapsto> (i, t))"
    and t: "t \<noteq> FILE_TYPE_DIR"
  shows "names_ok (N(unat i \<mapsto> (fm, fl, fx), p \<mapsto> (m, l', ys)))" (is "names_ok ?N")
proof -
  note O = names_okD [OF ok]
  have dp: "dir_node N p xs" using p by (simp add: dir_node_def)
  have ne: "unat i \<noteq> p" using p(1) i by auto
  have dirs: "dir_node ?N n zs \<longleftrightarrow> (if n = p then zs = ys else dir_node N n zs)" for n zs
    using ne p(2) f i by (auto simp: dir_node_def)
  have ent: "entry_in ?N n nm j u \<longleftrightarrow> entry_in N n nm j u \<or> (n = p \<and> nm = name \<and> j = i \<and> u = t)" for n nm j u
  proof (cases "n = p")
    case True
    have "dir_node ?N p ys" unfolding dirs by simp
    from entry_in_dir [OF this] entry_in_dir [OF dp] show ?thesis using True ys(2) name by auto
  qed (simp add: entry_in_def dirs)
  have isd: "(\<exists>zs. dir_node ?N n zs) \<longleftrightarrow> (\<exists>zs. dir_node N n zs)" for n unfolding dirs using dp by auto
  have other: "\<not> entry_in N n nm i u" for n nm u using O(3) i by blast
  have nd: "name \<noteq> [46]" "name \<noteq> [46, 46]" using O(6,7) [OF dp] name by auto
  have noti: "\<not> dir_node N (unat i) zs" for zs using i by (simp add: dir_node_def)
  show ?thesis
  proof (rule names_okI)
    show "\<exists>zs. dir_node ?N 1 zs" using O(8) unfolding isd by blast
    show "unat j \<noteq> 1" if "entry_in ?N n nm j u" "nm \<notin> dots" for n nm j u
      using that O(8,9) noti unfolding ent by (auto simp: dots_def)
  next
    fix n zs assume d: "dir_node ?N n zs"
    show "n < 2 ^ 64" "dir_bytes_ok (of_nat n) zs" using d O(1,2) dp ys(1) unfolding dirs by (auto split: if_splits)
    show "dir_map zs [46] = Some (of_nat n, FILE_TYPE_DIR)"
      using d O(6) dp ys(2) nd unfolding dirs by (auto split: if_splits)
    have "\<exists>q. dir_map zs [46, 46] = Some (q, FILE_TYPE_DIR) \<and>
       (n = 1 \<and> q = 1 \<or> (\<exists>name. name \<notin> dots \<and> entry_in N (unat q) name (of_nat n) FILE_TYPE_DIR))"
      using d O(7) [of n] dp ys(2) nd unfolding dirs by (auto split: if_splits)
    then show "\<exists>q. dir_map zs [46, 46] = Some (q, FILE_TYPE_DIR) \<and>
       (n = 1 \<and> q = 1 \<or> (\<exists>name. name \<notin> dots \<and> entry_in ?N (unat q) name (of_nat n) FILE_TYPE_DIR))"
      unfolding ent by blast
  next
    fix n nm j u assume e: "entry_in ?N n nm j u"
    show "?N (unat j) \<noteq> None" using e O(3) unfolding ent by auto
    from e consider "entry_in N n nm j u" | "j = i" "u = t" unfolding ent by blast
    then show "u = FILE_TYPE_DIR \<longleftrightarrow> (\<exists>zs. dir_node ?N (unat j) zs)"
    proof cases
      case 1
      then show ?thesis unfolding isd by (rule O(4))
    qed (use t noti in \<open>simp add: isd\<close>)
    fix n' nm' u' assume "entry_in ?N n' nm' j u'" "nm \<notin> dots" "nm' \<notin> dots"
    then show "n = n' \<and> nm = nm'" using e O(5) other unfolding ent by blast
  qed
qed

text \<open>A new directory.\<close>

lemma names_ok_mkdir:
  assumes ok: "names_ok N" and p: "N (unat q) = Some (m, l, xs)" "m AND S_IFMT = S_IFDIR"
    and i: "N (unat i) = None" and f: "fm AND S_IFMT = S_IFDIR"
    and name: "dir_map xs name = None" and ys: "dir_bytes_ok q ys" "dir_map ys = (dir_map xs)(name \<mapsto> (i, FILE_TYPE_DIR))"
    and fx: "dir_bytes_ok i fx" "dir_map fx = [[46] \<mapsto> (i, FILE_TYPE_DIR), [46, 46] \<mapsto> (q, FILE_TYPE_DIR)]"
  shows "names_ok (N(unat i \<mapsto> (fm, fl, fx), unat q \<mapsto> (m, l', ys)))" (is "names_ok ?N")
proof -
  let ?p = "unat q"
  note O = names_okD [OF ok]
  have dp: "dir_node N ?p xs" using p by (simp add: dir_node_def)
  have ne: "unat i \<noteq> ?p" using p(1) i by auto
  have dirs: "dir_node ?N n zs \<longleftrightarrow> (if n = ?p then zs = ys else if n = unat i then zs = fx else dir_node N n zs)" for n zs
    using ne p(2) f by (auto simp: dir_node_def)
  have noti: "\<not> dir_node N (unat i) zs" for zs using i by (simp add: dir_node_def)
  have ent: "entry_in ?N n nm j u \<longleftrightarrow> entry_in N n nm j u \<or> (n = ?p \<and> nm = name \<and> j = i \<and> u = FILE_TYPE_DIR) \<or>
      (n = unat i \<and> u = FILE_TYPE_DIR \<and> (nm = [46] \<and> j = i \<or> nm = [46, 46] \<and> j = q))" for n nm j u
  proof -
    have e: "dir_node ?N ?p ys" "dir_node ?N (unat i) fx" unfolding dirs using ne by simp_all
    consider "n = ?p" | "n = unat i" | "n \<noteq> ?p" "n \<noteq> unat i" by blast
    then show ?thesis
    proof cases
      case 1
      then show ?thesis using entry_in_dir [OF e(1)] entry_in_dir [OF dp] ys(2) name ne by auto
    next
      case 2
      then show ?thesis using entry_in_dir [OF e(2)] noti fx(2) ne by (auto simp: entry_in_def)
    qed (simp add: entry_in_def dirs)
  qed
  have isd: "(\<exists>zs. dir_node ?N n zs) \<longleftrightarrow> (\<exists>zs. dir_node N n zs) \<or> n = unat i" for n unfolding dirs using dp by auto
  have other: "\<not> entry_in N n nm i u" for n nm u using O(3) i by blast
  have nd: "name \<notin> dots" using O(6,7) [OF dp] name by (auto simp: dots_def)
  show ?thesis
  proof (rule names_okI)
    show "\<exists>zs. dir_node ?N 1 zs" using O(8) unfolding isd by blast
    show "unat j \<noteq> 1" if "entry_in ?N n nm j u" "nm \<notin> dots" for n nm j u
      using that O(8,9) noti unfolding ent by (auto simp: dots_def)
  next
    fix n zs assume d: "dir_node ?N n zs"
    show "n < 2 ^ 64" using d O(1) unat_u64 [of i] unat_u64 [of q] unfolding dirs by (auto split: if_splits)
    show "dir_bytes_ok (of_nat n) zs" using d O(2) ys(1) fx(1) unfolding dirs by (auto split: if_splits)
    show "dir_map zs [46] = Some (of_nat n, FILE_TYPE_DIR)"
      using d O(6) [of n] O(6) [OF dp] ys(2) fx(2) nd unfolding dirs by (auto simp: dots_def split: if_splits)
    have np: "\<exists>name. name \<notin> dots \<and> entry_in ?N ?p name i FILE_TYPE_DIR" using nd unfolding ent by blast
    have old: "\<exists>r. dir_map zs' [46, 46] = Some (r, FILE_TYPE_DIR) \<and>
       (n = 1 \<and> r = 1 \<or> (\<exists>name. name \<notin> dots \<and> entry_in ?N (unat r) name (of_nat n) FILE_TYPE_DIR))" if "dir_node N n zs'" for zs'
      using O(7) [OF that] unfolding ent by blast
    show "\<exists>r. dir_map zs [46, 46] = Some (r, FILE_TYPE_DIR) \<and>
       (n = 1 \<and> r = 1 \<or> (\<exists>name. name \<notin> dots \<and> entry_in ?N (unat r) name (of_nat n) FILE_TYPE_DIR))"
    proof (cases "n = unat i")
      case True
      then have "zs = fx" using d ne unfolding dirs by simp
      then show ?thesis using True fx(2) np by auto
    next
      case False
      show ?thesis
      proof (cases "n = ?p")
        case True
        then have "zs = ys" using d unfolding dirs by simp
        then show ?thesis using old [of xs] dp True ys(2) nd by (auto simp: dots_def)
      next
        case False
        with \<open>n \<noteq> unat i\<close> show ?thesis using d old unfolding dirs by simp
      qed
    qed
  next
    fix n nm j u assume e: "entry_in ?N n nm j u"
    show "?N (unat j) \<noteq> None" using e O(3) p(1) unfolding ent by auto
    have "\<exists>zs. dir_node ?N (unat q) zs" unfolding isd using dp by blast
    then have q: "\<exists>zs. dir_node N (unat q) zs \<or> unat q = unat i" unfolding isd by blast
    from e consider "entry_in N n nm j u" | "u = FILE_TYPE_DIR" "j = i \<or> j = q" unfolding ent by blast
    then show "u = FILE_TYPE_DIR \<longleftrightarrow> (\<exists>zs. dir_node ?N (unat j) zs)"
    proof cases
      case 1
      have "unat j \<noteq> unat i" using O(3) [OF 1] i by auto
      then show ?thesis unfolding isd using O(4) [OF 1] by blast
    qed (use q isd in auto)
    fix n' nm' u' assume "entry_in ?N n' nm' j u'" "nm \<notin> dots" "nm' \<notin> dots"
    then show "n = n' \<and> nm = nm'" using e O(5) other unfolding ent by (auto simp: dots_def)
  qed
qed


subsection \<open>A name less\<close>

text \<open>The name of a regular file goes; the file may stay, without names, or go too.\<close>

lemma names_ok_unlink:
  assumes ok: "names_ok N" and p: "N p = Some (m, l, xs)" "m AND S_IFMT = S_IFDIR"
    and i: "\<nexists>zs. dir_node N (unat i) zs" and f: "f = None \<or> (\<exists>fm fl fx. f = Some (fm, fl, fx) \<and> \<not> fm AND S_IFMT = S_IFDIR)"
    and name: "dir_map xs name = Some (i, t)" and ys: "dir_bytes_ok (of_nat p) ys" "dir_map ys = (dir_map xs)(name := None)"
  shows "names_ok (N(p \<mapsto> (m, l', ys), unat i := f))" (is "names_ok ?N")
proof -
  note O = names_okD [OF ok]
  have dp: "dir_node N p xs" using p by (simp add: dir_node_def)
  have ne: "unat i \<noteq> p" using i dp by auto
  have dirs: "dir_node ?N n zs \<longleftrightarrow> (if n = p then zs = ys else dir_node N n zs)" for n zs
    using ne p(2) f i by (auto simp: dir_node_def)
  have ent: "entry_in ?N n nm j u \<longleftrightarrow> entry_in N n nm j u \<and> \<not> (n = p \<and> nm = name)" for n nm j u
  proof (cases "n = p")
    case True
    have "dir_node ?N p ys" unfolding dirs by simp
    from entry_in_dir [OF this] entry_in_dir [OF dp] show ?thesis using True ys(2) by auto
  qed (simp add: entry_in_def dirs)
  have isd: "(\<exists>zs. dir_node ?N n zs) \<longleftrightarrow> (\<exists>zs. dir_node N n zs)" for n unfolding dirs using dp by auto
  have here: "entry_in N p name i t" using dp name by (auto simp: entry_in_def)
  have dotdir: "\<exists>zs. dir_node N (unat j) zs" if e: "entry_in N n nm j u" "nm \<in> dots" for n nm j u
  proof -
    obtain zs where z: "dir_node N n zs" "dir_map zs nm = Some (j, u)" using e(1) by (auto simp: entry_in_def)
    have "u = FILE_TYPE_DIR" using O(6,7) [OF z(1)] z(2) e(2) by (auto simp: dots_def)
    then show ?thesis using O(4) [OF e(1)] by blast
  qed
  have nd: "name \<notin> dots" using dotdir [OF here] i by blast
  then have nd': "name \<noteq> [46]" "name \<noteq> [46, 46]" by (simp_all add: dots_def)
  have alone: "n = p \<and> nm = name" if "entry_in N n nm i u" for n nm u
    using O(5) [OF that here] dotdir [OF that] nd i by blast
  show ?thesis
  proof (rule names_okI)
    show "\<exists>zs. dir_node ?N 1 zs" using O(8) unfolding isd .
    show "unat j \<noteq> 1" if "entry_in ?N n nm j u" "nm \<notin> dots" for n nm j u
      using that O(9) unfolding ent by blast
  next
    fix n zs assume d: "dir_node ?N n zs"
    show "n < 2 ^ 64" "dir_bytes_ok (of_nat n) zs" using d O(1,2) dp ys(1) unfolding dirs by (auto split: if_splits)
    show "dir_map zs [46] = Some (of_nat n, FILE_TYPE_DIR)"
      using d O(6) dp ys(2) nd' unfolding dirs by (auto split: if_splits)
    have "\<exists>q. dir_map zs [46, 46] = Some (q, FILE_TYPE_DIR) \<and>
       (n = 1 \<and> q = 1 \<or> (\<exists>name. name \<notin> dots \<and> entry_in N (unat q) name (of_nat n) FILE_TYPE_DIR))"
      using d O(7) [of n] dp ys(2) nd' unfolding dirs by (auto split: if_splits)
    moreover have "entry_in ?N q nm (of_nat n) u" if "entry_in N q nm (of_nat n) u" for q nm u
    proof -
      have "unat (of_nat n :: u64) = n" using \<open>n < 2 ^ 64\<close> by (simp add: unat_of_nat64)
      moreover have "n \<noteq> unat i" using d i dp unfolding dirs by (auto split: if_splits)
      ultimately have "of_nat n \<noteq> i" by auto
      then have "\<not> (q = p \<and> nm = name)" using that entry_in_dir [OF dp] name by auto
      then show ?thesis using that unfolding ent by blast
    qed
    ultimately show "\<exists>q. dir_map zs [46, 46] = Some (q, FILE_TYPE_DIR) \<and>
       (n = 1 \<and> q = 1 \<or> (\<exists>name. name \<notin> dots \<and> entry_in ?N (unat q) name (of_nat n) FILE_TYPE_DIR))" by blast
  next
    fix n nm j u assume e: "entry_in ?N n nm j u"
    then have e': "entry_in N n nm j u" "j \<noteq> i" using alone unfolding ent by auto
    then have "unat j \<noteq> unat i" by (simp add: word_unat_eq_iff)
    then show "?N (unat j) \<noteq> None" using O(3) [OF e'(1)] by auto
    show "u = FILE_TYPE_DIR \<longleftrightarrow> (\<exists>zs. dir_node ?N (unat j) zs)"
      unfolding isd using O(4) [OF e'(1)] .
    fix n' nm' u' assume "entry_in ?N n' nm' j u'" "nm \<notin> dots" "nm' \<notin> dots"
    then show "n = n' \<and> nm = nm'" using e O(5) unfolding ent by blast
  qed
qed

text \<open>An empty directory goes.\<close>

lemma names_ok_rmdir:
  assumes ok: "names_ok N" and p: "N (unat q) = Some (m, l, xs)" "m AND S_IFMT = S_IFDIR"
    and i: "dir_node N (unat i) fx" "dots_only fx" "i \<noteq> q"
    and name: "dir_map xs name = Some (i, t)" "name \<notin> dots"
    and ys: "dir_bytes_ok q ys" "dir_map ys = (dir_map xs)(name := None)"
  shows "names_ok (N(unat i := None, unat q \<mapsto> (m, l', ys)))" (is "names_ok ?N")
proof -
  let ?p = "unat q"
  note O = names_okD [OF ok]
  have dp: "dir_node N ?p xs" using p by (simp add: dir_node_def)
  have ne: "unat i \<noteq> ?p" using i(3) by (simp add: word_unat_eq_iff)
  have dirs: "dir_node ?N n zs \<longleftrightarrow> (if n = ?p then zs = ys else n \<noteq> unat i \<and> dir_node N n zs)" for n zs
    using ne p(2) by (auto simp: dir_node_def)
  have ent: "entry_in ?N n nm j u \<longleftrightarrow> n \<noteq> unat i \<and> entry_in N n nm j u \<and> \<not> (n = ?p \<and> nm = name)" for n nm j u
  proof (cases "n = ?p")
    case True
    have "dir_node ?N ?p ys" unfolding dirs by simp
    from entry_in_dir [OF this] entry_in_dir [OF dp] show ?thesis using True ys(2) ne by auto
  qed (simp add: entry_in_def dirs)
  have here: "entry_in N ?p name i t" using dp name by (auto simp: entry_in_def)
  have root: "unat i \<noteq> 1" by (rule O(9) [OF here name(2)])
  have nd': "name \<noteq> [46]" "name \<noteq> [46, 46]" using name(2) by (simp_all add: dots_def)
  text \<open>Only the parent, the directory itself and its children have an entry that leads to it.\<close>
  have alone: "n = unat i \<or> n = ?p \<and> nm = name" if e: "entry_in N n nm i u" for n nm u
  proof (cases "nm \<in> dots")
    case False
    then show ?thesis using O(5) [OF e here False name(2)] by blast
  next
    case True
    obtain zs where z: "dir_node N n zs" "dir_map zs nm = Some (i, u)" using e by (auto simp: entry_in_def)
    have n64: "unat (of_nat n :: u64) = n" using O(1) [OF z(1)] by (simp add: unat_of_nat64)
    consider "nm = [46]" | "nm = [46, 46]" using True by (auto simp: dots_def)
    then show ?thesis
    proof cases
      case 1
      then show ?thesis using O(6) [OF z(1)] z(2) n64 by auto
    next
      case 2
      then consider "i = 1" | nm' where "nm' \<notin> dots" "entry_in N (unat i) nm' (of_nat n) FILE_TYPE_DIR"
        using O(7) [OF z(1)] z(2) by auto
      then show ?thesis
      proof cases
        case 1
        then show ?thesis using root by simp
      next
        case 2
        then have "nm' \<in> dom (dir_map fx)" using entry_in_dir [OF i(1)] by auto
        then show ?thesis using 2(1) i(2) unfolding dots_only_map dots_def by auto
      qed
    qed
  qed
  have isd: "(\<exists>zs. dir_node ?N n zs) \<longleftrightarrow> (\<exists>zs. dir_node N n zs) \<and> n \<noteq> unat i" for n unfolding dirs using dp ne by auto
  show ?thesis
  proof (rule names_okI)
    show "\<exists>zs. dir_node ?N 1 zs" using O(8) root unfolding isd by metis
    show "unat j \<noteq> 1" if "entry_in ?N n nm j u" "nm \<notin> dots" for n nm j u
      using that O(9) unfolding ent by blast
  next
    fix n zs assume d: "dir_node ?N n zs"
    then have dn: "\<exists>zs. dir_node N n zs" "n \<noteq> unat i" using isd by blast+
    show n64: "n < 2 ^ 64" using dn O(1) by blast
    show "dir_bytes_ok (of_nat n) zs" using d O(2) ys(1) unfolding dirs by (auto split: if_splits)
    show "dir_map zs [46] = Some (of_nat n, FILE_TYPE_DIR)"
      using d O(6) [of n] O(6) [OF dp] ys(2) nd' unfolding dirs by (auto split: if_splits)
    have "\<exists>q. dir_map zs [46, 46] = Some (q, FILE_TYPE_DIR) \<and>
       (n = 1 \<and> q = 1 \<or> (\<exists>name. name \<notin> dots \<and> entry_in N (unat q) name (of_nat n) FILE_TYPE_DIR))"
      using d O(7) [of n] dp ys(2) nd' unfolding dirs by (auto split: if_splits)
    moreover have "entry_in ?N r nm (of_nat n) u"
      if e: "entry_in N r nm (of_nat n) u" "nm \<notin> dots" for r nm u
    proof -
      have "unat (of_nat n :: u64) = n" using n64 by (simp add: unat_of_nat64)
      then have ni: "of_nat n \<noteq> i" using dn(2) by auto
      have "r \<noteq> unat i"
      proof
        assume "r = unat i"
        then have "nm \<in> dom (dir_map fx)" using e(1) entry_in_dir [OF i(1)] by auto
        then show False using e(2) i(2) unfolding dots_only_map dots_def by auto
      qed
      moreover have "\<not> (r = ?p \<and> nm = name)" using e(1) ni entry_in_dir [OF dp] name(1) by auto
      ultimately show ?thesis using e(1) unfolding ent by blast
    qed
    ultimately show "\<exists>q. dir_map zs [46, 46] = Some (q, FILE_TYPE_DIR) \<and>
       (n = 1 \<and> q = 1 \<or> (\<exists>name. name \<notin> dots \<and> entry_in ?N (unat q) name (of_nat n) FILE_TYPE_DIR))" by blast
  next
    fix n nm j u assume e: "entry_in ?N n nm j u"
    then have e': "entry_in N n nm j u" "j \<noteq> i" using alone unfolding ent by auto
    then have ji: "unat j \<noteq> unat i" by (simp add: word_unat_eq_iff)
    then show "?N (unat j) \<noteq> None" using O(3) [OF e'(1)] by auto
    show "u = FILE_TYPE_DIR \<longleftrightarrow> (\<exists>zs. dir_node ?N (unat j) zs)"
      unfolding isd using O(4) [OF e'(1)] ji by blast
    fix n' nm' u' assume "entry_in ?N n' nm' j u'" "nm \<notin> dots" "nm' \<notin> dots"
    then show "n = n' \<and> nm = nm'" using e O(5) unfolding ent by blast
  qed
qed

end
