(* ===== verification/DirSpec.thy ===== *)
theory DirSpec
  imports FsTree
begin

text \<open>
  The contract of the operations on names: over the map of files and the maps of the directories,
  \<open>lookup\<close> and \<open>readdir\<close> read, \<open>create\<close> and \<open>mkdir\<close> add, \<open>unlink\<close> and \<open>rmdir\<close> remove; the invariant of
  the tree of names holds in every state they reach.
\<close>

subsection \<open>Directories of an intact tree\<close>

lemma fs_dir:
  assumes "fs_ok d" "node d (unat p) = Some (m, l, xs)" "m AND S_IFMT = S_IFDIR"
  shows "dir_ok d (unat p)" "names d (unat p) = dir_map xs" "file_data d (unat p) = xs"
    "i_mode (inode_at d (unat p)) = m" "i_nlink (inode_at d (unat p)) = l" "dir_bytes_ok p xs"
    "dir_node (node d) (unat p) xs"
proof -
  show dn: "dir_node (node d) (unat p) xs" using assms(2,3) by (simp add: dir_node_def)
  have N: "names_ok (node d)" "volume_ok d" using assms(1) by (simp_all add: fs_ok_def)
  show b: "dir_bytes_ok p xs" using names_okD(2) [OF N(1) dn] by simp
  then show "dir_ok d (unat p)" using dir_ok_node [OF N(2), of "unat p"] assms(2,3) by simp
  show "file_data d (unat p) = xs" "names d (unat p) = dir_map xs"
    "i_mode (inode_at d (unat p)) = m" "i_nlink (inode_at d (unat p)) = l"
    using node_SomeD [OF assms(2)] by (simp_all add: names_def)
qed

lemma getattr_unused:
  fixes s :: "'a album_scheme"
  assumes ok: "album_ok e s" and n: "\<not> inode_used (disk e s) (unat ino)"
  shows "\<exists>t. getattr e ino s = (Err NotFound, t) \<and> album_ok e t \<and> disk e t = disk e s"
proof (cases "ino_ok (disk e s) (unat ino)")
  case True
  then have z: "i_mode (inode_at (disk e s) (unat ino)) = 0" using n by (simp add: inode_used_def)
  have "wp (getattr e ino) (\<lambda>_ _. False) (\<lambda>x t. x = NotFound \<and> album_ok e t \<and> disk e t = disk e s) s"
    unfolding getattr_def wp_bind by (rule wp_read_inode [OF ok True]) (use z in \<open>simp add: wp_prim\<close>)
  then show ?thesis unfolding wp_def by (auto split: prod.splits res.splits)
next
  case False
  then show ?thesis using read_inode_bad [OF False] ok by (simp add: getattr_def bind_def)
qed

lemma wp_Ok_run: "wp m (\<lambda>r t. r = v \<and> P t) no_err s \<Longrightarrow> \<exists>t. m s = (Ok v, t) \<and> P t"
  unfolding wp_no_err by auto

lemma lookup_run:
  fixes s :: "'a album_scheme"
  assumes ok: "album_ok e s" and fs: "fs_ok (disk e s)"
  shows "\<exists>t. lookup e p name s = (case node (disk e s) (unat p) of None \<Rightarrow> Err NotFound
      | Some (m, l, xs) \<Rightarrow> if m AND S_IFMT = S_IFDIR then Ok (map_option fst (dir_map xs name)) else Err NotDir, t) \<and>
      album_ok e t \<and> disk e t = disk e s" (is ?L)
    "\<exists>t. readdir e p s = (case node (disk e s) (unat p) of None \<Rightarrow> Err NotFound
      | Some (m, l, xs) \<Rightarrow> if m AND S_IFMT = S_IFDIR then Ok (dir_list xs) else Err NotDir, t) \<and>
      album_ok e t \<and> disk e t = disk e s" (is ?R)
proof -
  let ?d = "disk e s"
  have "?L \<and> ?R"
  proof (cases "node ?d (unat p)")
    case None
    then obtain t where "getattr e p s = (Err NotFound, t)" "album_ok e t" "disk e t = ?d"
      using getattr_unused [OF ok] node_dom by metis
    then show ?thesis using None by (simp add: lookup_def readdir_def bind_def)
  next
    case (Some f)
    obtain m l xs where f: "f = (m, l, xs)" by (cases f)
    note n = Some [unfolded f]
    show ?thesis
    proof (cases "m AND S_IFMT = S_IFDIR")
      case True
      note D = fs_dir [OF fs n True]
      have "wp (lookup e p name) (\<lambda>r t. r = map_option fst (dir_map xs name) \<and> album_ok e t \<and> disk e t = ?d) no_err s"
        by (rule wp_lookup [OF ok D(1)]) (simp add: D(2))
      from wp_Ok_run [OF this]
      have L: "\<exists>t. lookup e p name s = (Ok (map_option fst (dir_map xs name)), t) \<and> album_ok e t \<and> disk e t = ?d" .
      have "wp (readdir e p) (\<lambda>r t. r = dir_list xs \<and> album_ok e t \<and> disk e t = ?d) no_err s"
        by (rule wp_readdir [OF ok D(1)]) (simp add: D(3))
      from wp_Ok_run [OF this] L show ?thesis using n True by simp
    next
      case False
      note N = node_SomeD [OF n]
      have nd: "\<not> is_dir (inode_at ?d (unat p))" using N False by (simp add: is_dir_def)
      have "wp (getattr e p) (\<lambda>r t. r = inode_at ?d (unat p) \<and> album_ok e t \<and> disk e t = ?d) no_err s"
        by (rule wp_getattr [OF ok]) (use conjunct1 [OF N] in \<open>simp_all add: inode_used_def\<close>)
      from wp_Ok_run [OF this] obtain t
        where "getattr e p s = (Ok (inode_at ?d (unat p)), t)" "album_ok e t" "disk e t = ?d" by blast
      then show ?thesis using n False nd by (simp add: lookup_def readdir_def bind_def run_simps)
    qed
  qed
  then show ?L ?R by blast+
qed


subsection \<open>Adding\<close>

lemma one_block_dir:
  assumes s: "scan_entries b 0 = Ok es" and l: "length b = UB" and f: "first_block_ok i b"
    and n: "distinct (dir_names (listing es))"
  shows "dir_bytes_ok i b" "dir_list b = listing es"
proof -
  have c: "dir_chunk b 0 = b" using l by (simp add: dir_chunk_def slice_def)
  show L: "dir_list b = listing es" using l s c by (simp add: dir_list_def chain_Ok)
  show "dir_bytes_ok i b"
    unfolding dir_bytes_ok_def L using l c f n first_block_chained [OF f] by simp
qed

lemma initial_directory:
  assumes b: "initial_directory_block i p = Ok b" "i \<noteq> 0" "p \<noteq> 0"
  shows "dir_bytes_ok i b" "dir_map b = [[46] \<mapsto> (i, FILE_TYPE_DIR), [46, 46] \<mapsto> (p, FILE_TYPE_DIR)]" "length b = UB"
    "\<forall>k < length b div UB. tidy (chain (dir_chunk b k))"
    "dir_list b = [(i, [46], FILE_TYPE_DIR), (p, [46, 46], FILE_TYPE_DIR)]"
proof -
  obtain b' where "initial_directory_block i p = Ok b'" "length b' = UB"
    "scan_entries b' 0 = Ok [(0, fresh_entry i [46] FILE_TYPE_DIR 16),
       (16, fresh_entry p [46, 46] FILE_TYPE_DIR (UB - 16))]"
    by (rule initial_directory_block_chain)
  with b(1) have B: "length b = UB" "scan_entries b 0 = Ok [(0, fresh_entry i [46] FILE_TYPE_DIR 16),
       (16, fresh_entry p [46, 46] FILE_TYPE_DIR (UB - 16))]" by simp_all
  have ls: "listing [(0, fresh_entry i [46] FILE_TYPE_DIR 16), (16, fresh_entry p [46, 46] FILE_TYPE_DIR (UB - 16))] =
      [(i, [46], FILE_TYPE_DIR), (p, [46, 46], FILE_TYPE_DIR)]" using b(2,3) by (simp add: fresh_entry_def)
  have d: "distinct (dir_names (listing [(0, fresh_entry i [46] FILE_TYPE_DIR 16), (16, fresh_entry p [46, 46] FILE_TYPE_DIR (UB - 16))]))"
    unfolding ls by (simp add: dir_names_def)
  note O = one_block_dir [OF B(2,1) initial_first_block_ok [OF b] d]
  show "dir_bytes_ok i b" "length b = UB" by (rule O(1)) (rule B(1))
  show "dir_list b = [(i, [46], FILE_TYPE_DIR), (p, [46, 46], FILE_TYPE_DIR)]" unfolding O(2) ls ..
  show "dir_map b = [[46] \<mapsto> (i, FILE_TYPE_DIR), [46, 46] \<mapsto> (p, FILE_TYPE_DIR)]"
    unfolding dir_map_def O(2) ls by (simp add: fun_eq_iff)
  have "dir_chunk b 0 = b" using B(1) by (simp add: dir_chunk_def slice_def)
  then show "\<forall>k < length b div UB. tidy (chain (dir_chunk b k))"
    using B b(2,3) by (simp add: chain_Ok live_def fresh_entry_def)
qed

text \<open>What \<open>create\<close> and \<open>mkdir\<close> make of the map of files.\<close>

definition with_file :: "nodes \<Rightarrow> u64 \<Rightarrow> bytes \<Rightarrow> u64 \<Rightarrow> u8 \<Rightarrow> u32 \<times> u32 \<times> bytes \<Rightarrow> u32 \<Rightarrow> nodes \<Rightarrow> bool" where
  "with_file N p name i t f links N' \<longleftrightarrow> i \<noteq> 0 \<and> N (unat i) = None \<and> (\<exists>m l xs ys. N (unat p) = Some (m, l, xs) \<and>
     dir_map ys = (dir_map xs)(name \<mapsto> (i, t)) \<and> (packed xs \<longrightarrow> packed ys) \<and> N' = N(unat i \<mapsto> f, unat p \<mapsto> (m, l + links, ys)))"

lemma added_with_file:
  assumes fs: "fs_ok d" and n: "node d (unat p) = Some (m, l, xs)" "m AND S_IFMT = S_IFDIR"
    and a: "added p name t f links i d d'"
  shows "with_file (node d) p name i t f links (node d')"
proof -
  note D = fs_dir [OF fs n]
  have "node d (unat i) = None" "i \<noteq> 0" using a ino_nonzero by (auto simp: added_def node_def)
  then show ?thesis using a D(2,3,4,5) n(1) unfolding added_def with_file_def by force
qed

lemma added_file_ok:
  assumes fs: "fs_ok d" and n: "node d (unat p) = Some (m, l, xs)" "m AND S_IFMT = S_IFDIR"
    and new: "dir_map xs name = None"
    and a: "added p name FILE_TYPE_FILE (S_IFREG OR (mode AND 0xFFF), 1, []) 0 i d d'"
  shows "fs_ok d'"
proof -
  note D = fs_dir [OF fs n]
  obtain ys where y: "volume_ok d'" "dir_bytes_ok p ys" "dir_map ys = (dir_map xs)(name \<mapsto> (i, FILE_TYPE_FILE))"
    "node d' = (node d)(unat i \<mapsto> (S_IFREG OR (mode AND 0xFFF), 1, []), unat p \<mapsto> (m, l, ys))" "node d (unat i) = None"
    using a D(2,4,5) by (auto simp: added_def node_def)
  have "names_ok (node d')"
    unfolding y(4)
  proof (rule names_ok_create [OF _ n y(5) _ new])
    show "names_ok (node d)" using fs by (simp add: fs_ok_def)
    show "(S_IFREG OR (mode AND 0xFFF)) AND S_IFMT \<noteq> S_IFDIR"
      by (simp add: mode_type_bits) (simp add: S_IFREG_def S_IFDIR_def)
    show "dir_bytes_ok (of_nat (unat p)) ys" using y(2) by simp
    show "dir_map ys = (dir_map xs)(name \<mapsto> (i, FILE_TYPE_FILE))" by (rule y(3))
    show "FILE_TYPE_FILE \<noteq> FILE_TYPE_DIR" by (simp add: FILE_TYPE_FILE_def FILE_TYPE_DIR_def)
  qed
  with y(1) show ?thesis by (simp add: fs_ok_def)
qed

lemma dir_nonzero: "node d (unat p) = Some f \<Longrightarrow> p \<noteq> 0"
  by (cases f) (auto dest!: node_SomeD simp: inode_used_def ino_ok_def)

lemma added_dir_ok:
  assumes fs: "fs_ok d" and n: "node d (unat p) = Some (m, l, xs)" "m AND S_IFMT = S_IFDIR"
    and new: "dir_map xs name = None" and b: "initial_directory_block i p = Ok b"
    and a: "added p name FILE_TYPE_DIR (S_IFDIR OR (mode AND 0xFFF), 2, b) 1 i d d'"
  shows "fs_ok d'"
proof -
  note D = fs_dir [OF fs n]
  obtain ys where y: "volume_ok d'" "dir_bytes_ok p ys" "dir_map ys = (dir_map xs)(name \<mapsto> (i, FILE_TYPE_DIR))"
    "node d' = (node d)(unat i \<mapsto> (S_IFDIR OR (mode AND 0xFFF), 2, b), unat p \<mapsto> (m, l + 1, ys))" "node d (unat i) = None"
    "ino_ok d (unat i)" using a D(2,4,5) by (auto simp: added_def node_def)
  note I = initial_directory [OF b ino_nonzero [OF y(6)] dir_nonzero [OF n(1)]]
  have "names_ok (node d')"
    unfolding y(4)
    by (rule names_ok_mkdir [OF _ n y(5) mode_type_bits(1) new y(2,3) I(1,2)]) (use fs in \<open>simp add: fs_ok_def\<close>)
  with y(1) show ?thesis by (simp add: fs_ok_def)
qed

subsection \<open>Removing\<close>

text \<open>What removing a name leaves of the list of bytes of its directory.\<close>

definition tidy_dir :: "bytes \<Rightarrow> bool" where
  "tidy_dir xs \<longleftrightarrow> (\<forall>k < length xs div UB. tidy (chain (dir_chunk xs k)))"

lemma packed_tidy: "packed xs \<Longrightarrow> tidy_dir xs"
  by (simp add: packed_def tidy_dir_def tidy_all_live)

text \<open>
  Where removal is exact: in a directory of one block always; in a larger one when no block has a free
  record after a live one.
\<close>

definition removable :: "bytes \<Rightarrow> bool" where
  "removable xs \<longleftrightarrow> length xs \<le> UB \<or> tidy_dir xs"

definition without_name :: "bytes \<Rightarrow> bytes \<Rightarrow> bytes \<Rightarrow> bool" where
  "without_name xs name ys \<longleftrightarrow> dir_map ys = (dir_map xs)(name := None) \<and> length ys = length xs \<and> tidy_dir ys"

lemma one_block:
  assumes "dir_bytes_ok p xs" "length xs \<le> UB"
  shows "length xs = UB"
  using dvd_imp_le [OF dir_bytes_okD(1,2) [OF assms(1)]] assms(2) by simp

lemma removable_tidy: "dir_bytes_ok p xs \<Longrightarrow> removable xs \<Longrightarrow> tidy_dir xs"
  using one_block packed_tidy [OF packed_one_block] by (auto simp: removable_def)

lemma fs_target:
  assumes fs: "fs_ok d" and n: "node d (unat p) = Some (m, l, xs)" "m AND S_IFMT = S_IFDIR"
    and name: "dir_map xs name = Some (i, t)"
  shows "inode_used d (unat i)" "t = FILE_TYPE_DIR \<longleftrightarrow> is_dir (inode_at d (unat i))"
    "t \<noteq> FILE_TYPE_DIR \<Longrightarrow> regular d (unat i)" "t = FILE_TYPE_DIR \<Longrightarrow> dir_ok d (unat i)"
    "t \<noteq> FILE_TYPE_DIR \<Longrightarrow> name \<notin> dots" "name \<notin> dots \<Longrightarrow> unat i \<noteq> 1"
    "entry_in (node d) (unat p) name i t"
proof -
  have N: "names_ok (node d)" using fs by (simp add: fs_ok_def)
  have dn: "dir_node (node d) (unat p) xs" using n by (simp add: dir_node_def)
  show e: "entry_in (node d) (unat p) name i t" using dn name by (auto simp: entry_in_def)
  note O = names_okD [OF N]
  show u: "inode_used d (unat i)" using O(3) [OF e] by (simp add: node_def split: if_splits)
  then obtain m' l' ys where n': "node d (unat i) = Some (m', l', ys)" by (simp add: node_def)
  note S = node_SomeD [OF n']
  have "(\<exists>ys. dir_node (node d) (unat i) ys) \<longleftrightarrow> is_dir (inode_at d (unat i))"
    using n' S by (auto simp: dir_node_def is_dir_def)
  with O(4) [OF e] show t: "t = FILE_TYPE_DIR \<longleftrightarrow> is_dir (inode_at d (unat i))" by blast
  show "regular d (unat i)" if "t \<noteq> FILE_TYPE_DIR" using that t u by (simp add: regular_def inode_used_def)
  show "dir_ok d (unat i)" if "t = FILE_TYPE_DIR"
    using fs_dir(1) [OF fs n'] that t S by (simp add: is_dir_def)
  show "name \<notin> dots" if "t \<noteq> FILE_TYPE_DIR" using O(6,7) [OF dn] name that by (auto simp: dots_def)
  show "name \<notin> dots \<Longrightarrow> unat i \<noteq> 1" by (rule O(9) [OF e])
qed

lemma tidy_dir_iff:
  fixes p :: u64
  assumes "fs_ok d" "node d (unat p) = Some (m, l, xs)" "m AND S_IFMT = S_IFDIR"
  shows "dir_tidy d (unat p) \<longleftrightarrow> tidy_dir xs"
  unfolding dir_tidy_def tidy_dir_def fs_dir(3) [OF assms] ..

lemma unlinked_ok:
  assumes fs: "fs_ok d" and n: "node d (unat p) = Some (m, l, xs)" "m AND S_IFMT = S_IFDIR"
    and name: "dir_map xs name = Some (i, t)" "t \<noteq> FILE_TYPE_DIR" and u: "unlinked p name (unat i) d d'"
  shows "fs_ok d'" "\<exists>ys m' l' zs. without_name xs name ys \<and> node d (unat i) = Some (m', l', zs) \<and>
    node d' = (node d)(unat p \<mapsto> (m, l, ys),
      unat i := (if l' \<le> 1 then None else Some (m', l' - 1, zs))) \<and>
    (if l' \<le> 1 then releases (unat i) d d' else dk_used d' = dk_used d)"
proof -
  note D = fs_dir [OF fs n] and T = fs_target [OF fs n name(1)]
  let ?i = "inode_at d (unat i)"
  obtain ys where y: "volume_ok d'" "dir_bytes_ok p ys" "without_name xs name ys"
    "node d' = (node d)(unat p \<mapsto> (m, l, ys), unat i := (if saturating_pred (i_nlink ?i) = 0 then None
       else Some (i_mode ?i, saturating_pred (i_nlink ?i), file_data d (unat i))))"
    "if saturating_pred (i_nlink ?i) = 0 then releases (unat i) d d' else dk_used d' = dk_used d"
    using u D(2,3,4,5) by (auto simp: unlinked_def unnamed_def without_name_def tidy_dir_def)
  have nd: "\<not> i_mode ?i AND S_IFMT = S_IFDIR" using T(2) name(2) by (simp add: is_dir_def)
  have ni: "node d (unat i) = Some (i_mode ?i, i_nlink ?i, file_data d (unat i))" using T(1) by (simp add: node_def)
  have "names_ok (node d')"
    unfolding y(4)
  proof (rule names_ok_unlink [where N = "node d" and xs = xs and name = name and t = t])
    show "names_ok (node d)" using fs by (simp add: fs_ok_def)
    show "\<nexists>zs. dir_node (node d) (unat i) zs" using ni nd by (simp add: dir_node_def)
    show "dir_bytes_ok (of_nat (unat p)) ys" using y(2) by simp
    show "dir_map ys = (dir_map xs)(name := None)" using y(3) by (simp add: without_name_def)
  qed (use nd n name(1) in simp_all)
  with y(1) show "fs_ok d'" by (simp add: fs_ok_def)
  have sat: "saturating_pred w = 0 \<longleftrightarrow> w \<le> 1" "w > 1 \<Longrightarrow> saturating_pred w = w - 1" for w :: u32
    unfolding saturating_pred_def by (auto simp: not_le word_le_nat_alt word_less_nat_alt word_unat_eq_iff unat_sub)
  then have "(if saturating_pred l = 0 then None else Some (m', saturating_pred l, zs)) =
      (if l \<le> 1 then None else Some (m', l - 1, zs))" for l m' :: u32 and zs :: bytes by (simp add: linorder_not_le [symmetric])
  from y(4) [unfolded this] y(5) [unfolded sat(1)] y(3) ni show "\<exists>ys m' l' zs. without_name xs name ys \<and> node d (unat i) = Some (m', l', zs) \<and>
    node d' = (node d)(unat p \<mapsto> (m, l, ys),
      unat i := (if l' \<le> 1 then None else Some (m', l' - 1, zs))) \<and>
    (if l' \<le> 1 then releases (unat i) d d' else dk_used d' = dk_used d)" by blast
qed

lemma rmdired_ok:
  assumes fs: "fs_ok d" and n: "node d (unat p) = Some (m, l, xs)" "m AND S_IFMT = S_IFDIR"
    and name: "dir_map xs name = Some (i, FILE_TYPE_DIR)" "name \<notin> dots" and ip: "i \<noteq> p"
    and u: "dots_only (file_data d (unat i))" "rmdired p name (unat i) d d'"
  shows "fs_ok d'" "\<exists>ys. without_name xs name ys \<and>
    node d' = (node d)(unat i := None, unat p \<mapsto> (m, saturating_pred l, ys))"
proof -
  note D = fs_dir [OF fs n] and T = fs_target [OF fs n name(1)]
  let ?i = "inode_at d (unat i)"
  obtain ys where y: "volume_ok d'" "dir_bytes_ok p ys" "without_name xs name ys"
    "node d' = (node d)(unat i := None, unat p \<mapsto> (m, saturating_pred l, ys))"
    using u D(2,3,4,5) by (auto simp: rmdired_def unnamed_def without_name_def tidy_dir_def)
  have di: "dir_node (node d) (unat i) (file_data d (unat i))"
    using T(1,2) by (simp add: dir_node_def node_def is_dir_def)
  have "names_ok (node d')"
    unfolding y(4)
  proof (rule names_ok_rmdir [OF _ n di u(1) ip name y(2)])
    show "names_ok (node d)" using fs by (simp add: fs_ok_def)
    show "dir_map ys = (dir_map xs)(name := None)" using y(3) by (simp add: without_name_def)
  qed
  with y(1) show "fs_ok d'" by (simp add: fs_ok_def)
  show "\<exists>ys. without_name xs name ys \<and> node d' = (node d)(unat i := None, unat p \<mapsto> (m, saturating_pred l, ys))"
    using y(3,4) by blast
qed

text \<open>The runs that change nothing.\<close>

lemma unlink_refused:
  fixes s :: "'a album_scheme"
  assumes ok: "album_ok e s" and fs: "fs_ok (disk e s)"
    and n: "node (disk e s) (unat p) = Some (m, l, xs)" "m AND S_IFMT = S_IFDIR"
  shows "dir_map xs name = None \<Longrightarrow> \<exists>u. unlink e p name s = (Err NotFound, u) \<and> album_ok e u \<and> disk e u = disk e s"
    "dir_map xs name = None \<Longrightarrow> \<exists>u. rmdir e p name s = (Err NotFound, u) \<and> album_ok e u \<and> disk e u = disk e s"
    "dir_map xs name = Some (i, t) \<Longrightarrow> t = FILE_TYPE_DIR \<Longrightarrow>
      \<exists>u. unlink e p name s = (Err IsDir, u) \<and> album_ok e u \<and> disk e u = disk e s"
    "dir_map xs name = Some (i, t) \<Longrightarrow> t \<noteq> FILE_TYPE_DIR \<Longrightarrow>
      \<exists>u. rmdir e p name s = (Err NotDir, u) \<and> album_ok e u \<and> disk e u = disk e s"
proof -
  let ?d = "disk e s"
  obtain u where u: "lookup e p name s = (Ok (map_option fst (dir_map xs name)), u)" "album_ok e u" "disk e u = ?d"
    using lookup_run(1) [OF ok fs, of p name] n by auto
  show "dir_map xs name = None \<Longrightarrow> \<exists>u. unlink e p name s = (Err NotFound, u) \<and> album_ok e u \<and> disk e u = ?d"
    "dir_map xs name = None \<Longrightarrow> \<exists>u. rmdir e p name s = (Err NotFound, u) \<and> album_ok e u \<and> disk e u = ?d"
    using u by (simp_all add: unlink_def rmdir_def bind_def run_simps)
  have g: "\<exists>v. getattr e i u = (Ok (inode_at ?d (unat i)), v) \<and> album_ok e v \<and> disk e v = ?d"
    if "dir_map xs name = Some (i, t)" for i t
  proof -
    have "inode_used ?d (unat i)" by (rule fs_target(1) [OF fs n that])
    then have "wp (getattr e i) (\<lambda>r v. r = inode_at ?d (unat i) \<and> album_ok e v \<and> disk e v = ?d) no_err u"
      by (intro wp_getattr [OF u(2)]) (simp_all add: u(3) inode_used_def)
    from wp_Ok_run [OF this] show ?thesis .
  qed
  show "\<exists>u. unlink e p name s = (Err IsDir, u) \<and> album_ok e u \<and> disk e u = ?d"
    if m: "dir_map xs name = Some (i, t)" "t = FILE_TYPE_DIR"
    using g [OF m(1)] fs_target(2) [OF fs n m(1)] m u(1) by (auto simp: unlink_def bind_def run_simps)
  show "\<exists>u. rmdir e p name s = (Err NotDir, u) \<and> album_ok e u \<and> disk e u = ?d"
    if m: "dir_map xs name = Some (i, t)" "t \<noteq> FILE_TYPE_DIR"
    using g [OF m(1)] fs_target(2) [OF fs n m(1)] m u(1) by (auto simp: rmdir_def bind_def run_simps)
qed

lemma rmdir_self:
  fixes s :: "'a album_scheme"
  assumes ok: "album_ok e s" and fs: "fs_ok (disk e s)"
    and n: "node (disk e s) (unat p) = Some (m, l, xs)" "m AND S_IFMT = S_IFDIR"
    and name: "dir_map xs name = Some (i, FILE_TYPE_DIR)" and full: "\<not> dots_only (file_data (disk e s) (unat i))"
  shows "\<exists>u. rmdir e p name s = (Err NotEmpty, u) \<and> album_ok e u \<and> disk e u = disk e s"
proof -
  let ?d = "disk e s"
  obtain u where u: "lookup e p name s = (Ok (Some i), u)" "album_ok e u" "disk e u = ?d"
    using lookup_run(1) [OF ok fs, of p name] n name by auto
  note T = fs_target [OF fs n name]
  have "wp (getattr e i) (\<lambda>r v. r = inode_at ?d (unat i) \<and> album_ok e v \<and> disk e v = ?d) no_err u"
    using T(1) by (intro wp_getattr [OF u(2)]) (simp_all add: u(3) inode_used_def)
  from wp_Ok_run [OF this] obtain v where v: "getattr e i u = (Ok (inode_at ?d (unat i)), v)" "album_ok e v" "disk e v = ?d"
    by blast
  have "wp (readdir e i) (\<lambda>r w. r = dir_list (file_data ?d (unat i)) \<and> album_ok e w \<and> disk e w = ?d) no_err v"
    using T(4) by (intro wp_readdir [OF v(2)]) (simp_all add: v(3))
  from wp_Ok_run [OF this] obtain w where w: "readdir e i v = (Ok (dir_list (file_data ?d (unat i))), w)" "album_ok e w" "disk e w = ?d"
    by blast
  show ?thesis using u(1) v(1) w full T(2) by (simp add: rmdir_def bind_def run_simps dots_only_def)
qed

text \<open>The runs that remove a name.\<close>

lemma wp_unlink_tree:
  fixes s :: "'a album_scheme"
  assumes laws: "codec_laws e" "jpeg_returns e" and ok: "album_ok e s" and fs: "fs_ok (disk e s)"
    and n: "node (disk e s) (unat p) = Some (m, l, xs)" "m AND S_IFMT = S_IFDIR" and td: "tidy_dir xs"
    and name: "dir_map xs name = Some (i, ft)" and ft: "ft \<noteq> FILE_TYPE_DIR"
    and P: "\<And>ys m' l' zs t. album_ok e t \<Longrightarrow> fs_ok (disk e t) \<Longrightarrow> without_name xs name ys \<Longrightarrow>
      node (disk e s) (unat i) = Some (m', l', zs) \<Longrightarrow> node (disk e t) = (node (disk e s))(unat p \<mapsto> (m, l, ys),
        unat i := (if l' \<le> 1 then None else Some (m', l' - 1, zs))) \<Longrightarrow>
      (if l' \<le> 1 then releases (unat i) (disk e s) (disk e t) else dk_used (disk e t) = dk_used (disk e s)) \<Longrightarrow> P t"
    and Q: "\<And>t. durable e t \<Longrightarrow> P t \<Longrightarrow> Q () t" and E: "\<And>x t. \<not> writable e s \<Longrightarrow> P t \<Longrightarrow> E x t"
  shows "wp (unlink e p name) Q E s"
proof -
  note T = fs_target [OF fs n name]
  have P': "P t" if "album_ok e t" "unlinked p name (unat i) (disk e s) (disk e t)" for t :: "'a album_scheme"
    using unlinked_ok [OF fs n name ft that(2)] P [OF that(1)] by blast
  show ?thesis
  proof (rule wp_unlink [OF laws ok _ fs_dir(1) [OF fs n] _ _ T(3) [OF ft] T(1) T(5) [OF ft]])
    show "volume_ok (disk e s)" using fs by (simp add: fs_ok_def)
    show "dir_tidy (disk e s) (unat p)" using td tidy_dir_iff [OF fs n] by simp
    show "names (disk e s) (unat p) name = Some (i, ft)" using fs_dir(2) [OF fs n] name by simp
  qed (use P' Q E in blast)+
qed

lemma wp_rmdir_tree:
  fixes s :: "'a album_scheme"
  assumes laws: "codec_laws e" "jpeg_returns e" and ok: "album_ok e s" and fs: "fs_ok (disk e s)"
    and n: "node (disk e s) (unat p) = Some (m, l, xs)" "m AND S_IFMT = S_IFDIR" and td: "tidy_dir xs"
    and nd: "name \<notin> dots" and name: "dir_map xs name = Some (i, FILE_TYPE_DIR)"
    and only: "dots_only (file_data (disk e s) (unat i))"
    and P: "\<And>ys t. album_ok e t \<Longrightarrow> fs_ok (disk e t) \<Longrightarrow> without_name xs name ys \<Longrightarrow>
      node (disk e t) = (node (disk e s))(unat i := None, unat p \<mapsto> (m, saturating_pred l, ys)) \<Longrightarrow>
      (\<And>k. k \<noteq> unat i \<Longrightarrow> k \<noteq> unat p \<Longrightarrow> inode_used (disk e s) k \<Longrightarrow> inode_at (disk e t) k = inode_at (disk e s) k) \<Longrightarrow>
      releases (unat i) (disk e s) (disk e t) \<Longrightarrow> P t"
    and Q: "\<And>t. durable e t \<Longrightarrow> P t \<Longrightarrow> Q () t" and E: "\<And>x t. \<not> writable e s \<Longrightarrow> P t \<Longrightarrow> E x t"
  shows "wp (rmdir e p name) Q E s"
proof -
  note T = fs_target [OF fs n name]
  have ip: "i \<noteq> p" using name nd only fs_dir(3) [OF fs n] unfolding dots_only_map dots_def by auto
  have P': "P t" if "album_ok e t" "rmdired p name (unat i) (disk e s) (disk e t)" for t :: "'a album_scheme"
    using rmdired_ok [OF fs n name nd ip only that(2)] P [OF that(1)] that(2) unfolding rmdired_def by blast
  show ?thesis
  proof (rule wp_rmdir [OF laws ok _ fs_dir(1) [OF fs n] _ _ T(4) [OF refl] ip])
    show "volume_ok (disk e s)" using fs by (simp add: fs_ok_def)
    show "dir_tidy (disk e s) (unat p)" using td tidy_dir_iff [OF fs n] by simp
    show "names (disk e s) (unat p) name = Some (i, FILE_TYPE_DIR)" using fs_dir(2) [OF fs n] name by simp
    show "name \<notin> dots" by (rule nd)
  qed (use P' Q E only in auto)
qed

lemma bind_lift_Ok: "bind (lift (Ok x)) f = f x"
  by (rule ext) (simp add: bind_def run_simps)

lemma bind_OkD: "bind m f s = (Ok y, t) \<Longrightarrow> \<exists>x u. m s = (Ok x, u)"
  by (auto simp: bind_def split: prod.splits res.splits)

lemma lookup_Ok_dir:
  fixes s :: "'a album_scheme"
  assumes "album_ok e s" "fs_ok (disk e s)" "lookup e p name s = (Ok r, t)"
  obtains m l xs where "node (disk e s) (unat p) = Some (m, l, xs)" "m AND S_IFMT = S_IFDIR"
    "r = map_option fst (dir_map xs name)"
  using lookup_run(1) [OF assms(1,2), of p name] assms(3) by (auto split: option.splits if_splits)


subsection \<open>The contract\<close>

text \<open>C12: Looking up a name in a directory of an intact tree gives the inode the directory's map holds
  for it, or nothing; listing the directory gives the list of its entries. A number not in use is
  \<open>NotFound\<close>, a file that is not a directory \<open>NotDir\<close>; in every case nothing changes.\<close>

theorem lookup_refines:
  fixes s :: "'a album_scheme"
  assumes "album_ok e s" "fs_ok (disk e s)"
  shows "(\<exists>t. lookup e p name s = (case node (disk e s) (unat p) of None \<Rightarrow> Err NotFound
      | Some (m, l, xs) \<Rightarrow> if m AND S_IFMT = S_IFDIR then Ok (map_option fst (dir_map xs name)) else Err NotDir, t) \<and>
      album_ok e t \<and> disk e t = disk e s) \<and>
    (\<exists>t. readdir e p s = (case node (disk e s) (unat p) of None \<Rightarrow> Err NotFound
      | Some (m, l, xs) \<Rightarrow> if m AND S_IFMT = S_IFDIR then Ok (dir_list xs) else Err NotDir, t) \<and>
      album_ok e t \<and> disk e t = disk e s)"
  by (intro conjI lookup_run assms)

lemma others_sameD:
  assumes "if N \<noteq> None then x = Exists \<and> d' = d else others_same p d d' \<and> R"
  shows "if N \<noteq> None then x = Exists \<and> d' = d
    else (\<forall>k. k \<noteq> p \<longrightarrow> node d k \<noteq> None \<longrightarrow> node d' k = node d k) \<and> R"
  using assms unfolding others_same_def node_dom by simp

text \<open>C6: Creating a regular file adds one empty file under a number that was not in use and one entry
  for it in the directory, changes no other file and keeps the tree intact, and the result is durable.
  A name that is there already is \<open>Exists\<close> and nothing changes; any other error means that there was no
  place for the file or that the carriers cannot be written back, and every file that existed is as
  before, the directory apart.\<close>

theorem create_file_refines:
  fixes s :: "'a album_scheme"
  assumes laws: "codec_laws e" "jpeg_returns e" and ok: "album_ok e s" and fs: "fs_ok (disk e s)"
    and n: "node (disk e s) (unat p) = Some (m, l, xs)" "m AND S_IFMT = S_IFDIR" and u: "utf8_valid name"
  shows "case create_file e p name mode s of
      (Ok i, t) \<Rightarrow> album_ok e t \<and> durable e t \<and> fs_ok (disk e t) \<and> dir_map xs name = None \<and>
        with_file (node (disk e s)) p name i FILE_TYPE_FILE (S_IFREG OR (mode AND 0xFFF), 1, []) 0 (node (disk e t))
    | (Err x, t) \<Rightarrow> album_ok e t \<and> (if dir_map xs name \<noteq> None then x = Exists \<and> disk e t = disk e s
        else (\<forall>k. k \<noteq> unat p \<longrightarrow> node (disk e s) k \<noteq> None \<longrightarrow> node (disk e t) k = node (disk e s) k) \<and>
          (no_place name (unat p) (disk e s) \<or> \<not> writable e s))
    | (Panic, t) \<Rightarrow> False"
proof (rule wp_create_file [OF laws ok _ fs_dir(1) [OF fs n] u, unfolded wp_def fs_dir(2) [OF fs n]])
  show "volume_ok (disk e s)" using fs by (simp add: fs_ok_def)
qed (use added_file_ok [OF fs n] added_with_file [OF fs n] others_sameD in blast)+

text \<open>C8: Making a directory adds one directory of one block, holding \<open>.\<close> and \<open>..\<close>, under a number that
  was not in use, an entry for it in the parent and a link to the parent; the tree stays intact and the
  result is durable. Errors as for \<open>create\<close>.\<close>

theorem mkdir_refines:
  fixes s :: "'a album_scheme"
  assumes laws: "codec_laws e" "jpeg_returns e" and ok: "album_ok e s" and fs: "fs_ok (disk e s)"
    and n: "node (disk e s) (unat p) = Some (m, l, xs)" "m AND S_IFMT = S_IFDIR" and u: "utf8_valid name"
  shows "case mkdir e p name mode s of
      (Ok i, t) \<Rightarrow> album_ok e t \<and> durable e t \<and> fs_ok (disk e t) \<and> dir_map xs name = None \<and>
        (\<exists>b. length b = UB \<and> dir_map b = [[46] \<mapsto> (i, FILE_TYPE_DIR), [46, 46] \<mapsto> (p, FILE_TYPE_DIR)] \<and>
          with_file (node (disk e s)) p name i FILE_TYPE_DIR (S_IFDIR OR (mode AND 0xFFF), 2, b) 1 (node (disk e t)))
    | (Err x, t) \<Rightarrow> album_ok e t \<and> (if dir_map xs name \<noteq> None then x = Exists \<and> disk e t = disk e s
        else (\<forall>k. k \<noteq> unat p \<longrightarrow> node (disk e s) k \<noteq> None \<longrightarrow> node (disk e t) k = node (disk e s) k) \<and>
          (no_place name (unat p) (disk e s) \<or> \<not> writable e s))
    | (Panic, t) \<Rightarrow> False"
proof (rule wp_mkdir [OF laws ok _ fs_dir(1) [OF fs n] u, unfolded wp_def fs_dir(2) [OF fs n]])
  show "volume_ok (disk e s)" using fs by (simp add: fs_ok_def)
next
  fix i b and t :: "'a album_scheme"
  assume t: "album_ok e t" "durable e t" "dir_map xs name = None" "initial_directory_block i p = Ok b"
    and a: "added p name FILE_TYPE_DIR (S_IFDIR OR (mode AND 0xFFF), 2, b) 1 i (disk e s) (disk e t)"
  have "i \<noteq> 0" using a ino_nonzero by (auto simp: added_def)
  note I = initial_directory(2,3) [OF t(4) this dir_nonzero [OF n(1)]]
  show "album_ok e t \<and> durable e t \<and> fs_ok (disk e t) \<and> dir_map xs name = None \<and>
        (\<exists>b. length b = UB \<and> dir_map b = [[46] \<mapsto> (i, FILE_TYPE_DIR), [46, 46] \<mapsto> (p, FILE_TYPE_DIR)] \<and>
          with_file (node (disk e s)) p name i FILE_TYPE_DIR (S_IFDIR OR (mode AND 0xFFF), 2, b) 1 (node (disk e t)))"
    using t(1-3) I added_with_file [OF fs n a] added_dir_ok [OF fs n t(3,4) a] by blast
qed (use others_sameD in blast)

text \<open>C7: Removing the name of a regular file takes exactly that entry out of the directory and one link
  from the file. With its last link the file is gone: its number is free, every block that held its bytes
  is free in the bitmap, no block of another file is, and no block is taken; when none of its pointer
  blocks is empty and no block lies past its size, exactly its blocks are released. As long as a link is
  left, the bitmap stays as it is. No other file changes and the tree stays intact. Names that are not
  there are \<open>NotFound\<close>, directories \<open>IsDir\<close>, with nothing changed; when the carriers can be written
  nothing else fails. The directory must be \<open>removable\<close>: it has one block, or in none of its blocks a free
  record comes after a live one. In a larger directory names may be added and removed in an order that
  breaks this, and then the code can leave a removed entry in place (see the end of \<open>DirReach\<close>).\<close>

theorem unlink_refines:
  fixes s :: "'a album_scheme"
  assumes laws: "codec_laws e" "jpeg_returns e" and ok: "album_ok e s" and fs: "fs_ok (disk e s)"
    and n: "node (disk e s) (unat p) = Some (m, l, xs)" "m AND S_IFMT = S_IFDIR" and rm: "removable xs"
  shows "\<exists>r t. unlink e p name s = (r, t) \<and> r \<noteq> Panic \<and> album_ok e t \<and> (case dir_map xs name of
        None \<Rightarrow> r = Err NotFound \<and> disk e t = disk e s
      | Some (i, ft) \<Rightarrow>
          if ft = FILE_TYPE_DIR then r = Err IsDir \<and> disk e t = disk e s
          else (r = Ok () \<and> durable e t \<or> \<not> writable e s) \<and> fs_ok (disk e t) \<and>
            (\<exists>ys m' l' zs. without_name xs name ys \<and> node (disk e s) (unat i) = Some (m', l', zs) \<and>
              node (disk e t) = (node (disk e s))(unat p \<mapsto> (m, l, ys),
                unat i := (if l' \<le> 1 then None else Some (m', l' - 1, zs))) \<and>
              (if l' \<le> 1 then releases (unat i) (disk e s) (disk e t) else dk_used (disk e t) = dk_used (disk e s))))"
proof (cases "dir_map xs name")
  case None
  from unlink_refused(1) [OF ok fs n this] obtain t where "unlink e p name s = (Err NotFound, t)" "album_ok e t"
    "disk e t = disk e s" by blast
  then show ?thesis using None by simp
next
  case (Some x)
  obtain i ft where x: "x = (i, ft)" by (cases x)
  note name = Some [unfolded x]
  show ?thesis
  proof (cases "ft = FILE_TYPE_DIR")
    case True
    from unlink_refused(3) [OF ok fs n name this] obtain t where "unlink e p name s = (Err IsDir, t)" "album_ok e t"
      "disk e t = disk e s" by blast
    then show ?thesis using name True by simp
  next
    case False
    let ?P = "\<lambda>t. album_ok e t \<and> fs_ok (disk e t) \<and>
      (\<exists>ys m' l' zs. without_name xs name ys \<and> node (disk e s) (unat i) = Some (m', l', zs) \<and>
        node (disk e t) = (node (disk e s))(unat p \<mapsto> (m, l, ys), unat i := (if l' \<le> 1 then None else Some (m', l' - 1, zs))) \<and>
        (if l' \<le> 1 then releases (unat i) (disk e s) (disk e t) else dk_used (disk e t) = dk_used (disk e s)))"
    have "wp (unlink e p name) (\<lambda>_ t. durable e t \<and> ?P t) (\<lambda>_ t. \<not> writable e s \<and> ?P t) s"
      by (rule wp_unlink_tree [where P = ?P, OF laws ok fs n removable_tidy [OF fs_dir(6) [OF fs n] rm] name False]) blast+
    then obtain r t where "unlink e p name s = (r, t)" "r \<noteq> Panic" "r = Ok () \<and> durable e t \<or> \<not> writable e s" "?P t"
      unfolding wp_def by (auto split: prod.splits res.splits)
    then show ?thesis using name False by simp
  qed
qed

text \<open>C9: Removing an empty directory takes its entry out of the parent, the link of its \<open>..\<close> from the
  parent, and frees the directory: its number, and its blocks in the bitmap as for \<open>unlink\<close>. Nothing
  else changes and the tree stays intact. Names that are not there are \<open>NotFound\<close>, other files
  \<open>NotDir\<close>, directories with entries \<open>NotEmpty\<close>, with nothing changed; when the carriers can be written
  nothing else fails. The name is neither \<open>.\<close> nor \<open>..\<close>, which the code leaves to the kernel to refuse, and the
  parent is \<open>removable\<close>, as for \<open>unlink\<close>.\<close>

theorem rmdir_refines:
  fixes s :: "'a album_scheme"
  assumes laws: "codec_laws e" "jpeg_returns e" and ok: "album_ok e s" and fs: "fs_ok (disk e s)"
    and n: "node (disk e s) (unat p) = Some (m, l, xs)" "m AND S_IFMT = S_IFDIR" and rm: "removable xs" and nd: "name \<notin> dots"
  shows "\<exists>r t. rmdir e p name s = (r, t) \<and> r \<noteq> Panic \<and> album_ok e t \<and> (case dir_map xs name of
        None \<Rightarrow> r = Err NotFound \<and> disk e t = disk e s
      | Some (i, ft) \<Rightarrow>
          if ft \<noteq> FILE_TYPE_DIR then r = Err NotDir \<and> disk e t = disk e s
          else if \<not> dots_only (file_data (disk e s) (unat i)) then r = Err NotEmpty \<and> disk e t = disk e s
          else (r = Ok () \<and> durable e t \<or> \<not> writable e s) \<and> fs_ok (disk e t) \<and>
            (\<exists>ys. without_name xs name ys \<and>
              node (disk e t) = (node (disk e s))(unat i := None, unat p \<mapsto> (m, saturating_pred l, ys))) \<and>
            releases (unat i) (disk e s) (disk e t))"
proof (cases "dir_map xs name")
  case None
  from unlink_refused(2) [OF ok fs n this] obtain t where "rmdir e p name s = (Err NotFound, t)" "album_ok e t"
    "disk e t = disk e s" by blast
  then show ?thesis using None by simp
next
  case (Some x)
  obtain i ft where x: "x = (i, ft)" by (cases x)
  note name = Some [unfolded x]
  consider "ft \<noteq> FILE_TYPE_DIR" | "ft = FILE_TYPE_DIR" "\<not> dots_only (file_data (disk e s) (unat i))"
    | "ft = FILE_TYPE_DIR" "dots_only (file_data (disk e s) (unat i))" by blast
  then show ?thesis
  proof cases
    case 1
    from unlink_refused(4) [OF ok fs n name this] obtain t where "rmdir e p name s = (Err NotDir, t)" "album_ok e t"
      "disk e t = disk e s" by blast
    then show ?thesis using name 1 by simp
  next
    case 2
    from rmdir_self [OF ok fs n name [unfolded 2(1)] 2(2)] obtain t where "rmdir e p name s = (Err NotEmpty, t)"
      "album_ok e t" "disk e t = disk e s" by blast
    then show ?thesis using name 2 by simp
  next
    case 3
    let ?P = "\<lambda>t. album_ok e t \<and> fs_ok (disk e t) \<and> (\<exists>ys. without_name xs name ys \<and>
      node (disk e t) = (node (disk e s))(unat i := None, unat p \<mapsto> (m, saturating_pred l, ys))) \<and>
      releases (unat i) (disk e s) (disk e t)"
    have "wp (rmdir e p name) (\<lambda>_ t. durable e t \<and> ?P t) (\<lambda>_ t. \<not> writable e s \<and> ?P t) s"
      by (rule wp_rmdir_tree [where P = ?P, OF laws ok fs n removable_tidy [OF fs_dir(6) [OF fs n] rm] nd
            name [unfolded 3(1)] 3(2)]) blast+
    then obtain r t where "rmdir e p name s = (r, t)" "r \<noteq> Panic" "r = Ok () \<and> durable e t \<or> \<not> writable e s" "?P t"
      unfolding wp_def by (auto split: prod.splits res.splits)
    then show ?thesis using name 3 by simp
  qed
qed

end
