(* ===== verification/MoveTree.thy ===== *)
theory MoveTree
  imports DirSpec
begin

text \<open>
  \<open>rename\<close> of \<^verbatim>\<open>src/fs/album.rs\<close> against the map of files: the entry gets its new name before the
  old one is removed, and a directory that moves to another parent gets a new \<open>..\<close>.
\<close>

subsection \<open>The tree of names\<close>

definition moved_entry :: "nodes \<Rightarrow> u64 \<Rightarrow> bytes \<Rightarrow> u64 \<Rightarrow> bytes \<Rightarrow> u64 \<Rightarrow> u8 \<Rightarrow> nat \<Rightarrow> bytes \<Rightarrow> u64 \<Rightarrow> u8 \<Rightarrow> bool" where
  "moved_entry N p name q new i t n nm j u \<longleftrightarrow>
     (if n = unat q \<and> nm = new then j = i \<and> u = t
      else if t = FILE_TYPE_DIR \<and> n = unat i \<and> nm = [46, 46] then j = q \<and> u = FILE_TYPE_DIR
      else \<not> (n = unat p \<and> nm = name) \<and> entry_in N n nm j u)"

lemma names_ok_move:
  assumes ok: "names_ok N" and old: "entry_in N (unat p) name i t'" "name \<notin> dots" and t: "t' = FILE_TYPE_DIR \<longleftrightarrow> t = FILE_TYPE_DIR"
    and q: "dir_node N (unat q) vs" "dir_map vs new = None"
    and dirs: "\<And>n. (\<exists>zs. dir_node N' n zs) \<longleftrightarrow> (\<exists>zs. dir_node N n zs)" and none: "\<And>n. N' n = None \<longleftrightarrow> N n = None"
    and bytes: "\<And>n zs. dir_node N' n zs \<Longrightarrow> dir_bytes_ok (of_nat n) zs"
    and ent: "\<And>n nm j u. entry_in N' n nm j u \<longleftrightarrow> moved_entry N p name q new i t n nm j u"
  shows "names_ok N'"
proof -
  note O = names_okD [OF ok]
  have new: "new \<notin> dots" using O(6,7) [OF q(1)] q(2) by (auto simp: dots_def)
  then have new': "new \<noteq> [46]" "new \<noteq> [46, 46]" by (simp_all add: dots_def)
  have name': "name \<noteq> [46]" "name \<noteq> [46, 46]" using old(2) by (simp_all add: dots_def)
  have i1: "unat i \<noteq> 1" by (rule O(9) [OF old])
  have free: "\<not> entry_in N (unat q) new j u" for j u using entry_in_dir [OF q(1)] q(2) by simp
  have here: "entry_in N' (unat q) new i t" unfolding ent moved_entry_def by simp
  have stays: "entry_in N' n nm j u" if "entry_in N n nm j u" "nm \<notin> dots" "j \<noteq> i" for n nm j u
  proof -
    have "\<not> (n = unat p \<and> nm = name)"
    proof
      assume "n = unat p \<and> nm = name"
      then have "entry_in N (unat p) name j u" using that(1) by simp
      with old(1) that(3) show False unfolding entry_in_def using dir_node_unique by fastforce
    qed
    moreover have "nm \<noteq> [46, 46]" using that(2) by (simp add: dots_def)
    ultimately show ?thesis using that(1) free unfolding ent moved_entry_def by auto
  qed
  have lead: "n = unat q \<and> nm = new \<and> j = i \<or> entry_in N n nm j u \<and> j \<noteq> i" if "entry_in N' n nm j u" "nm \<notin> dots" for n nm j u
  proof (cases "n = unat q \<and> nm = new")
    case False
    have "nm \<noteq> [46, 46]" using that(2) by (simp add: dots_def)
    with that(1) False have e: "entry_in N n nm j u" "\<not> (n = unat p \<and> nm = name)"
      unfolding ent moved_entry_def by (simp_all split: if_splits)
    have "j \<noteq> i" using O(5) [OF _ old(1) that(2) old(2)] e by auto
    with e(1) show ?thesis by blast
  qed (use that in \<open>simp add: ent moved_entry_def\<close>)
  show ?thesis
  proof (rule names_okI)
    show "\<exists>zs. dir_node N' 1 zs" using O(8) dirs by blast
    show "unat j \<noteq> 1" if "entry_in N' n nm j u" "nm \<notin> dots" for n nm j u
      using lead [OF that] O(9) that(2) i1 by blast
  next
    fix n zs assume d: "dir_node N' n zs"
    then obtain os where dn: "dir_node N n os" using dirs by blast
    show n64: "n < 2 ^ 64" by (rule O(1) [OF dn])
    show "dir_bytes_ok (of_nat n) zs" by (rule bytes [OF d])
    have "entry_in N' n [46] (of_nat n) FILE_TYPE_DIR"
      using entry_in_dir [OF dn] O(6) [OF dn] new' name' unfolding ent moved_entry_def by simp
    then show "dir_map zs [46] = Some (of_nat n, FILE_TYPE_DIR)" using entry_in_dir [OF d] by simp
    have un: "unat (of_nat n :: u64) = n" using n64 by (simp add: unat_of_nat64)
    from O(7) [OF dn] obtain r where r: "dir_map os [46, 46] = Some (r, FILE_TYPE_DIR)"
      "n = 1 \<and> r = 1 \<or> (\<exists>nm. nm \<notin> dots \<and> entry_in N (unat r) nm (of_nat n) FILE_TYPE_DIR)" by blast
    show "\<exists>r. dir_map zs [46, 46] = Some (r, FILE_TYPE_DIR) \<and>
       (n = 1 \<and> r = 1 \<or> (\<exists>nm. nm \<notin> dots \<and> entry_in N' (unat r) nm (of_nat n) FILE_TYPE_DIR))"
    proof (cases "n = unat i")
      case True
      then have "t = FILE_TYPE_DIR" using O(4) [OF old(1)] dn t by blast
      moreover have "entry_in N' n [46, 46] q FILE_TYPE_DIR"
        using True \<open>t = _\<close> new' unfolding ent moved_entry_def by simp
      ultimately show ?thesis using entry_in_dir [OF d] here new True by auto
    next
      case False
      have "entry_in N' n [46, 46] r FILE_TYPE_DIR"
        using entry_in_dir [OF dn] r(1) False new' name' unfolding ent moved_entry_def by simp
      then have "dir_map zs [46, 46] = Some (r, FILE_TYPE_DIR)" using entry_in_dir [OF d] by simp
      moreover have "of_nat n \<noteq> i" using False un by auto
      ultimately show ?thesis using r(2) stays by blast
    qed
  next
    fix n nm j u assume e: "entry_in N' n nm j u"
    from e consider "entry_in N n nm j u" | "j = i" "u = t" | "j = q" "u = FILE_TYPE_DIR"
      unfolding ent moved_entry_def by (auto split: if_splits)
    then show "N' (unat j) \<noteq> None" "u = FILE_TYPE_DIR \<longleftrightarrow> (\<exists>zs. dir_node N' (unat j) zs)"
      unfolding none dirs using O(3,4) old(1) q(1) t by (cases; auto simp: dir_node_def)+
    fix n' nm' u' assume e': "entry_in N' n' nm' j u'" and nd: "nm \<notin> dots" "nm' \<notin> dots"
    from lead [OF e nd(1)] lead [OF e' nd(2)] show "n = n' \<and> nm = nm'" using O(5) nd by blast
  qed
qed

text \<open>What \<open>rename\<close> makes of the map of files when the new name is free.\<close>

definition moved :: "nodes \<Rightarrow> u64 \<Rightarrow> bytes \<Rightarrow> u64 \<Rightarrow> bytes \<Rightarrow> u64 \<Rightarrow> u8 \<Rightarrow> nodes \<Rightarrow> bool" where
  "moved N p name q new i t N' \<longleftrightarrow> (\<exists>m l xs ys. N (unat p) = Some (m, l, xs) \<and>
     (if p = q then dir_map ys = (dir_map xs)(new \<mapsto> (i, t), name := None) \<and> N' = N(unat p \<mapsto> (m, l, ys))
      else \<exists>m' l' vs zs. N (unat q) = Some (m', l', vs) \<and> dir_map ys = (dir_map xs)(name := None) \<and>
        dir_map zs = (dir_map vs)(new \<mapsto> (i, t)) \<and>
        (if t = FILE_TYPE_DIR
         then \<exists>fm fl fx gx. N (unat i) = Some (fm, fl, fx) \<and> dir_map gx = (dir_map fx)([46, 46] \<mapsto> (q, FILE_TYPE_DIR)) \<and>
           N' = N(unat p \<mapsto> (m, saturating_pred l, ys), unat q \<mapsto> (m', l' + 1, zs), unat i \<mapsto> (fm, fl, gx))
         else N' = N(unat p \<mapsto> (m, l, ys), unat q \<mapsto> (m', l', zs)))))"

lemma moved_names_ok:
  assumes ok: "names_ok N" and p: "dir_node N (unat p) xs" and q: "dir_node N (unat q) vs"
    and old: "dir_map xs name = Some (i, t')" "name \<notin> dots" and t: "t' = FILE_TYPE_DIR \<longleftrightarrow> t = FILE_TYPE_DIR"
    and new: "dir_map vs new = None" and i: "t = FILE_TYPE_DIR \<Longrightarrow> p \<noteq> q \<Longrightarrow> i \<noteq> p \<and> i \<noteq> q"
    and mv: "moved N p name q new i t N'" and bytes: "\<And>n zs. dir_node N' n zs \<Longrightarrow> dir_bytes_ok (of_nat n) zs"
  shows "names_ok N'"
proof -
  have e: "entry_in N (unat p) name i t'" using entry_in_dir [OF p] old(1) by simp
  note O = names_okD [OF ok]
  have isd: "t = FILE_TYPE_DIR \<longleftrightarrow> (\<exists>ys. dir_node N (unat i) ys)" using O(4) [OF e] t by simp
  note at = dir_node_unique [OF p] dir_node_unique [OF q]
  have nq: "unat q \<noteq> unat p" if "p \<noteq> q" using that by (simp add: word_unat_eq_iff)
  obtain m l where pm: "N (unat p) = Some (m, l, xs)" "m AND S_IFMT = S_IFDIR" using p by (auto simp: dir_node_def)
  obtain m' l' where qm: "N (unat q) = Some (m', l', vs)" "m' AND S_IFMT = S_IFDIR" using q by (auto simp: dir_node_def)
  have nd: "name \<noteq> [46, 46]" "new \<noteq> [46, 46]" using old(2) O(7) [OF q] new by (auto simp: dots_def)
  consider (same) ys where "p = q" "dir_map ys = (dir_map xs)(new \<mapsto> (i, t), name := None)" "N' = N(unat p \<mapsto> (m, l, ys))"
    | (dir) ys zs fm fl fx gx where "p \<noteq> q" "t = FILE_TYPE_DIR" "dir_map ys = (dir_map xs)(name := None)"
        "dir_map zs = (dir_map vs)(new \<mapsto> (i, t))" "N (unat i) = Some (fm, fl, fx)"
        "dir_map gx = (dir_map fx)([46, 46] \<mapsto> (q, FILE_TYPE_DIR))"
        "N' = N(unat p \<mapsto> (m, saturating_pred l, ys), unat q \<mapsto> (m', l' + 1, zs), unat i \<mapsto> (fm, fl, gx))"
    | (regular) ys zs where "p \<noteq> q" "t \<noteq> FILE_TYPE_DIR" "dir_map ys = (dir_map xs)(name := None)"
        "dir_map zs = (dir_map vs)(new \<mapsto> (i, t))" "N' = N(unat p \<mapsto> (m, l, ys), unat q \<mapsto> (m', l', zs))"
  proof -
    have "p = q \<Longrightarrow> \<exists>ys. dir_map ys = (dir_map xs)(new \<mapsto> (i, t), name := None) \<and> N' = N(unat p \<mapsto> (m, l, ys))"
      using mv pm(1) unfolding moved_def by simp
    moreover have "p \<noteq> q \<Longrightarrow> t = FILE_TYPE_DIR \<Longrightarrow> \<exists>ys zs fm fl fx gx. dir_map ys = (dir_map xs)(name := None) \<and>
        dir_map zs = (dir_map vs)(new \<mapsto> (i, t)) \<and> N (unat i) = Some (fm, fl, fx) \<and>
        dir_map gx = (dir_map fx)([46, 46] \<mapsto> (q, FILE_TYPE_DIR)) \<and>
        N' = N(unat p \<mapsto> (m, saturating_pred l, ys), unat q \<mapsto> (m', l' + 1, zs), unat i \<mapsto> (fm, fl, gx))"
      using mv pm(1) qm(1) unfolding moved_def by simp
    moreover have "p \<noteq> q \<Longrightarrow> t \<noteq> FILE_TYPE_DIR \<Longrightarrow> \<exists>ys zs. dir_map ys = (dir_map xs)(name := None) \<and>
        dir_map zs = (dir_map vs)(new \<mapsto> (i, t)) \<and> N' = N(unat p \<mapsto> (m, l, ys), unat q \<mapsto> (m', l', zs))"
      using mv pm(1) qm(1) unfolding moved_def by simp
    ultimately show thesis using that by blast
  qed
  then show ?thesis
  proof cases
    case same
    have ne: "name \<noteq> new" using same(1) at(2) [of xs] p old(1) new by auto
    have vx: "vs = xs" using same(1) at p q by blast
    have dirs: "dir_node N' n zs \<longleftrightarrow> (if n = unat p then zs = ys else dir_node N n zs)" for n zs
      using same(3) pm(2) by (auto simp: dir_node_def)
    have dot: "entry_in N n [46, 46] j u \<longleftrightarrow> j = q \<and> u = FILE_TYPE_DIR" if d: "t = FILE_TYPE_DIR" "n = unat i" for n j u
    proof -
      obtain fx where fx: "dir_node N n fx" using isd d by blast
      obtain r where r: "dir_map fx [46, 46] = Some (r, FILE_TYPE_DIR)"
        "n = 1 \<and> r = 1 \<or> (\<exists>nm. nm \<notin> dots \<and> entry_in N (unat r) nm (of_nat n) FILE_TYPE_DIR)" using O(7) [OF fx] by blast
      have "n \<noteq> 1" using O(9) [OF e old(2)] d(2) by simp
      with r(2) obtain nm where nm: "nm \<notin> dots" "entry_in N (unat r) nm i FILE_TYPE_DIR" using d(2) by auto
      have "r = q" using O(5) [OF nm(2) e nm(1) old(2)] same(1) by (simp add: word_unat_eq_iff)
      then show ?thesis using entry_in_dir [OF fx] r(1) by auto
    qed
    have y: "dir_node N' (unat p) ys" unfolding dirs by simp
    show ?thesis
    proof (rule names_ok_move [OF ok e old(2) t q new _ _ bytes])
      show "(\<exists>zs. dir_node N' n zs) \<longleftrightarrow> (\<exists>zs. dir_node N n zs)" for n unfolding dirs using p by auto
      show "N' n = None \<longleftrightarrow> N n = None" for n using same(3) pm by auto
      show "entry_in N' n nm j u \<longleftrightarrow> moved_entry N p name q new i t n nm j u" for n nm j u
      proof (cases "n = unat p")
        case True
        show ?thesis
          using dot [of n j u] entry_in_dir [OF y, of nm j u] entry_in_dir [OF p, of nm j u] same(1,2) ne nd True
          unfolding moved_entry_def by auto
      next
        case False
        have "entry_in N' n nm j u \<longleftrightarrow> entry_in N n nm j u" using False by (simp add: entry_in_def dirs)
        then show ?thesis using dot [of n j u] False same(1) unfolding moved_entry_def by auto
      qed
    qed
  next
    case dir
    from i dir(1,2) have ni: "unat i \<noteq> unat p" "unat i \<noteq> unat q" by (simp_all add: word_unat_eq_iff)
    have fd: "fm AND S_IFMT = S_IFDIR" "dir_node N (unat i) fx" using isd dir(2,5) by (auto simp: dir_node_def)
    have dirs: "dir_node N' n os \<longleftrightarrow> (if n = unat i then os = gx else if n = unat q then os = zs else if n = unat p then os = ys
        else dir_node N n os)" for n os
      using dir(7) pm(2) qm(2) fd(1) ni nq [OF dir(1)] by (auto simp: dir_node_def)
    have y: "dir_node N' (unat p) ys" "dir_node N' (unat q) zs" "dir_node N' (unat i) gx"
      unfolding dirs using ni nq [OF dir(1)] by simp_all
    show ?thesis
    proof (rule names_ok_move [OF ok e old(2) t q new _ _ bytes])
      show "(\<exists>zs. dir_node N' n zs) \<longleftrightarrow> (\<exists>zs. dir_node N n zs)" for n unfolding dirs using p q fd(2) by auto
      show "N' n = None \<longleftrightarrow> N n = None" for n using dir(5,7) pm qm by auto
      show "entry_in N' n nm j u \<longleftrightarrow> moved_entry N p name q new i t n nm j u" for n nm j u
      proof -
        consider "n = unat p" | "n = unat q" | "n = unat i" | "n \<noteq> unat p" "n \<noteq> unat q" "n \<noteq> unat i" by blast
        then show ?thesis
        proof cases
          case 1
          then show ?thesis using entry_in_dir [OF y(1), of nm j u] entry_in_dir [OF p, of nm j u] dir(3) ni nq [OF dir(1)]
            unfolding moved_entry_def by auto
        next
          case 2
          then show ?thesis using entry_in_dir [OF y(2), of nm j u] entry_in_dir [OF q, of nm j u] dir(4) ni nq [OF dir(1)]
            unfolding moved_entry_def by auto
        next
          case 3
          then show ?thesis using entry_in_dir [OF y(3), of nm j u] entry_in_dir [OF fd(2), of nm j u] dir(2,6) ni
            unfolding moved_entry_def by auto
        next
          case 4
          then have "entry_in N' n nm j u \<longleftrightarrow> entry_in N n nm j u" by (simp add: entry_in_def dirs)
          with 4 show ?thesis unfolding moved_entry_def by auto
        qed
      qed
    qed
  next
    case regular
    have dirs: "dir_node N' n os \<longleftrightarrow> (if n = unat q then os = zs else if n = unat p then os = ys else dir_node N n os)" for n os
      using regular(5) pm(2) qm(2) nq [OF regular(1)] by (auto simp: dir_node_def)
    have y: "dir_node N' (unat p) ys" "dir_node N' (unat q) zs" unfolding dirs using nq [OF regular(1)] by simp_all
    show ?thesis
    proof (rule names_ok_move [OF ok e old(2) t q new _ _ bytes])
      show "(\<exists>zs. dir_node N' n zs) \<longleftrightarrow> (\<exists>zs. dir_node N n zs)" for n unfolding dirs using p q by auto
      show "N' n = None \<longleftrightarrow> N n = None" for n using regular(5) pm qm by auto
      show "entry_in N' n nm j u \<longleftrightarrow> moved_entry N p name q new i t n nm j u" for n nm j u
      proof -
        consider "n = unat p" | "n = unat q" | "n \<noteq> unat p" "n \<noteq> unat q" by blast
        then show ?thesis
        proof cases
          case 1
          then show ?thesis using entry_in_dir [OF y(1), of nm j u] entry_in_dir [OF p, of nm j u] regular(2,3) nq [OF regular(1)]
            unfolding moved_entry_def by auto
        next
          case 2
          then show ?thesis using entry_in_dir [OF y(2), of nm j u] entry_in_dir [OF q, of nm j u] regular(2,4) nq [OF regular(1)]
            unfolding moved_entry_def by auto
        next
          case 3
          then have "entry_in N' n nm j u \<longleftrightarrow> entry_in N n nm j u" by (simp add: entry_in_def dirs)
          with 3 regular(2) show ?thesis unfolding moved_entry_def by auto
        qed
      qed
    qed
  qed
qed

end
