(* ===== verification/Rename.thy ===== *)
theory Rename
  imports MoveTree
begin

text \<open>
  \<open>rename\<close> of \<^verbatim>\<open>src/fs/album.rs\<close> on the blocks: what it makes of the map of files.
\<close>

subsection \<open>A second name\<close>

lemma wp_name_more:
  fixes s :: "'a album_scheme"
  assumes ok: "album_ok e s" and v: "volume_ok (disk e s)" and dir: "dir_ok (disk e s) (unat q)"
    and name: "utf8_valid name" "i \<noteq> 0" "names (disk e s) (unat q) name = None"
    and Q: "\<And>t ys. album_ok e t \<Longrightarrow> volume_ok (disk e t) \<Longrightarrow> dir_bytes_ok q ys \<Longrightarrow>
      dir_map ys = (names (disk e s) (unat q))(name \<mapsto> (i, ft)) \<Longrightarrow> (packed (file_data (disk e s) (unat q)) \<longrightarrow> packed ys) \<Longrightarrow>
      node (disk e t) = (node (disk e s))(unat q \<mapsto>
        (i_mode (inode_at (disk e s) (unat q)), i_nlink (inode_at (disk e s) (unat q)), ys)) \<Longrightarrow>
      (\<And>m. m \<noteq> unat q \<Longrightarrow> inode_used (disk e s) m \<Longrightarrow> inode_at (disk e t) m = inode_at (disk e s) m) \<Longrightarrow> Q () t"
    and E: "\<And>x t. album_ok e t \<Longrightarrow> cramped 2 name (unat q) (disk e s) \<Longrightarrow> E x t"
  shows "wp (add_dir_entry e q i name ft) Q E s"
proof (rule wp_add_dir_entry [OF ok dir name])
  let ?d = "disk e s"
  fix t :: "'a album_scheme" assume t: "album_ok e t" "dir_added i name ft (unat q) ?d (disk e t)"
  then obtain ys where c: "changed ys (unat q) ?d (disk e t)" and D: "dir_ok (disk e t) (unat q)"
    "names (disk e t) (unat q) = (names ?d (unat q))(name \<mapsto> (i, ft))"
    "packed (file_data ?d (unat q)) \<longrightarrow> packed (file_data (disk e t) (unat q))" unfolding dir_added_def by blast
  have y: "file_data (disk e t) (unat q) = ys" by (rule changedD(3) [OF c])
  have qu: "inode_used ?d (unat q)" by (rule dir_ok_used [OF dir])
  show "Q () t"
  proof (rule Q [OF t(1) changed_volume [OF v qu c]])
    show "dir_bytes_ok q ys" using dir_okD(4) [OF D(1)] y by simp
    show "dir_map ys = (names ?d (unat q))(name \<mapsto> (i, ft))" using D(2) y by (simp add: names_def)
    show "packed (file_data ?d (unat q)) \<longrightarrow> packed ys" using D(3) y by simp
    show "node (disk e t) = (node ?d)(unat q \<mapsto> (i_mode (inode_at ?d (unat q)), i_nlink (inode_at ?d (unat q)), ys))"
      by (rule changed_node [OF v qu c])
    show "inode_at (disk e t) m = inode_at ?d m" if "m \<noteq> unat q" "inode_used ?d m" for m
      using only_file_spares [OF v qu changedD(1) [OF c]] that by (simp add: spares_def)
  qed
qed (rule E)


subsection \<open>A new parent\<close>

lemma dir_map_replace:
  assumes l: "dir_list xs = A @ (i, name, t) # B" "dir_list ys = A @ (j, name, t) # B"
    and d: "distinct (dir_names (dir_list xs))"
  shows "dir_map xs name = Some (i, t)" "dir_map ys = (dir_map xs)(name \<mapsto> (j, t))"
proof -
  let ?m = "map (\<lambda>(i, name, t). (name, (i :: u64, t :: u8)))"
  have dx: "distinct (map fst (?m A @ (name, (i, t)) # ?m B))" using d unfolding l names_of [symmetric] by simp
  then have dy: "distinct (map fst (?m A @ (name, (j, t)) # ?m B))" by simp
  from map_of_mid(1) [OF dx] map_of_mid(1) [OF dy]
  show "dir_map xs name = Some (i, t)" "dir_map ys = (dir_map xs)(name \<mapsto> (j, t))"
    unfolding dir_map_def l by simp_all
qed

lemma retarget_block:
  assumes f: "first_block_ok i p" and v: "v \<noteq> 0"
  obtains p' A q t B where "retarget_dotdot p 0 v = Ok (Some p')" "first_block_ok i p'"
    "listing (chain p) = A @ (q, [46, 46], t) # B" "listing (chain p') = A @ (v, [46, 46], t) # B"
proof -
  from f obtain es rest where es: "length p = UB" "scan_entries p 0 = Ok es" "\<forall>x \<in> set es. live x"
    "listing es = (i, [46], FILE_TYPE_DIR) # rest" "list_ex (\<lambda>(_, n, _). n = [46, 46]) rest"
    by (auto simp: first_block_ok_def)
  have "[46, 46] \<in> set (dir_names (listing es))" using es(4,5) by (force simp: dir_names_def list_ex_iff)
  then have "\<exists>x \<in> set es. has_name [46, 46] x" using listing_name by blast
  from split_list_first_prop [OF this] obtain pre x post where
    sp: "es = pre @ x # post" and x: "has_name [46, 46] x" and pre: "\<forall>y \<in> set pre. \<not> has_name [46, 46] y" by blast
  obtain off d where oe: "x = (off, d)" by (cases x)
  let ?p = "put p off (to_le 8 v)"
  have r: "retarget_dotdot p 0 v = Ok (Some ?p)"
    by (rule retarget_dotdot_result [OF es(2) [unfolded sp oe] pre x [unfolded oe]])
  note S = scan_after_reinode [OF es(2) [unfolded sp oe] es(1), of v]
  have n: "d_name d = [46, 46]" "d_inode d \<noteq> 0" using x by (simp_all add: oe has_name_def live_def)
  have l: "listing (chain p) = listing pre @ (d_inode d, [46, 46], d_file_type d) # listing post"
    unfolding chain_Ok [OF es(2)] using n by (simp add: sp oe live_def)
  have l': "listing (chain ?p) = listing pre @ (v, [46, 46], d_file_type d) # listing post"
    unfolding chain_Ok [OF S(2)] using n v by (simp add: live_def)
  show thesis by (rule that [OF r retarget_first_block_ok [OF f v r] l l'])
qed

text \<open>The block of a directory written back with no change to its inode.\<close>

lemma wp_dir_put:
  fixes s :: "'a album_scheme"
  assumes ok: "album_ok e s" and dir: "dir_ok (disk e s) n" and k: "k < dir_blocks (disk e s) n" and p: "length p = UB"
    and Q: "\<And>t. album_ok e t \<Longrightarrow> changed (put (file_data (disk e s) n) (k * UB) p) n (disk e s) (disk e t) \<Longrightarrow>
      inode_at (disk e t) n = inode_at (disk e s) n \<Longrightarrow> Q () t"
  shows "wp (write_block e (unat (mapped (dk_block (disk e s)) (inode_at (disk e s) n) k)) p) Q E s"
proof (rule wp_disk_write [OF ok])
  let ?d = "disk e s"
  let ?i = "inode_at ?d n" and ?xs = "file_data (disk e s) n"
  let ?sz = "unat (i_size ?i)" and ?b = "mapped (dk_block ?d) (inode_at ?d n) k"
  note dk = album_ok_disk [OF ok] and F = file_okD [OF dir_okD(1) [OF dir]]
  note B = dir_block [OF dk dir k]
  show "unat ?b \<noteq> 0" "unat ?b < dk_total ?d" "length p \<le> UB" using B(2,3) p by (simp_all add: unat_gt_0)
  fix t :: "'a album_scheme" assume t: "album_ok e t" "disk e t = ?d\<lparr>dk_block := (dk_block ?d)(unat ?b := pad p)\<rparr>"
  have l: "length (dk_block ?d (unat ?b)) = UB" using dk B(3) by (simp add: disk_ok_def blocks_full_def)
  have up: "updates 0 (written (k * UB) p) ?d ?i (disk e t) ?i"
    by (rule updates_block [OF dk F(2)])
      (use B(1,2) p l t(2) pad_eq [of p] put_0_whole [of p "dk_block ?d (unat ?b)"] in simp_all)
  note ed = updates_edits [OF F(2) up]
  note Ed = editsD [OF ed]
  have b: "k * UB + UB \<le> ?sz" using block_bound [OF k] by simp
  then have m: "?sz = max ?sz (k * UB + length p)" using p by simp
  note ob = overwrite_bytes [OF Ed(5) F(4,3) m F(3)]
  have fb: "file_bytes (dk_block (disk e t)) ?i 0 ?sz = put ?xs (k * UB) p"
    using ob(1) overwrite_put [of "k * UB" p ?xs] b p by (simp add: file_data_def)
  have at: "inode_at (disk e t) n = ?i" by (rule others_inode [OF Ed(1) dk F(1)])
  have io: "ino_ok (disk e t) n" using F(1) others_keptD(1) [OF Ed(1)] by (simp add: ino_ok_def)
  have fo: "file_ok (disk e t) n" unfolding file_ok_def at using Ed(2) F(3) io ob(2) by blast
  have "changed (put ?xs (k * UB) p) n ?d (disk e t)"
    unfolding changed_def using others_only [OF Ed(1) dk] fo fb Ed(4) at by (simp add: file_data_def file_blocks_def)
  then show "Q () t" by (rule Q [OF t(1) _ at])
qed

lemma wp_update_dotdot:
  fixes s :: "'a album_scheme"
  assumes ok: "album_ok e s" and v: "volume_ok (disk e s)" and dir: "dir_ok (disk e s) (unat i)" and q: "q \<noteq> 0"
    and t: "names (disk e s) (unat i) [46, 46] = Some (r, ft)"
    and Q: "\<And>t ys. album_ok e t \<Longrightarrow> volume_ok (disk e t) \<Longrightarrow> dir_bytes_ok i ys \<Longrightarrow>
      dir_map ys = (names (disk e s) (unat i))([46, 46] \<mapsto> (q, ft)) \<Longrightarrow>
      node (disk e t) = (node (disk e s))(unat i \<mapsto>
        (i_mode (inode_at (disk e s) (unat i)), i_nlink (inode_at (disk e s) (unat i)), ys)) \<Longrightarrow> Q () t"
  shows "wp (update_dotdot e (inode_at (disk e s) (unat i)) q) Q E s"
  unfolding update_dotdot_def wp_bind [of "bmap _ _ _ _"]
proof -
  let ?d = "disk e s" and ?n = "unat i"
  let ?i = "inode_at ?d ?n" and ?xs = "file_data ?d ?n"
  note D = dir_bytes_okD [OF dir_okD(4) [OF dir]]
  have k: "0 < dir_blocks ?d ?n" by (rule D(6))
  have f: "first_block_ok i (dir_chunk ?xs 0)" using D(3) by simp
  obtain p A r' t' B where p: "retarget_dotdot (dir_chunk ?xs 0) 0 q = Ok (Some p)" "first_block_ok i p"
    "listing (chain (dir_chunk ?xs 0)) = A @ (r', [46, 46], t') # B" "listing (chain p) = A @ (q, [46, 46], t') # B"
    by (rule retarget_block [OF f q])
  have lp: "length p = UB" using p(2) by (simp add: first_block_ok_def)
  let ?ys = "put ?xs (0 * UB) p"
  obtain A' B' where L: "dir_list ?xs = A' @ listing (chain (dir_chunk ?xs 0)) @ B'" "dir_list ?ys = A' @ listing (chain p) @ B'"
    by (rule dir_list_put [OF k lp])
  have nm: "dir_names (dir_list ?ys) = dir_names (dir_list ?xs)" unfolding L p(3,4) by (simp add: dir_names_def)
  have bo: "dir_bytes_ok i ?ys"
    by (rule dir_bytes_ok_put [OF _ k lp first_block_chained [OF p(2)] p(2)]) (use dir_okD(4) [OF dir] D(5) nm in simp_all)
  have m: "dir_map ?ys = (names ?d ?n)([46, 46] \<mapsto> (q, ft))"
  proof -
    have X: "dir_list ?xs = (A' @ A) @ (r', [46, 46], t') # (B @ B')" "dir_list ?ys = (A' @ A) @ (q, [46, 46], t') # (B @ B')"
      using L p(3,4) by simp_all
    from dir_map_replace [OF X D(5)] t show ?thesis by (simp add: names_def)
  qed
  have run: "wp (bind (read_block e (unat (mapped (dk_block ?d) ?i 0))) (\<lambda>payload.
      bind (lift (retarget_dotdot payload 0 q)) (\<lambda>found. case found of
       Some payload \<Rightarrow> write_block e (unat (mapped (dk_block ?d) ?i 0)) payload
     | None \<Rightarrow> raise (Manifest ''directory has no parent entry'')))) Q E u" if u: "album_ok e u" "disk e u = ?d" for u :: "'a album_scheme"
    unfolding u(2) [symmetric] wp_bind [of "read_block _ _"]
  proof (rule wp_dir_read [OF u(1)])
    show "dir_ok (disk e u) ?n" "0 < dir_blocks (disk e u) ?n" using dir k u(2) by simp_all
    fix w :: "'a album_scheme" assume w: "album_ok e w" "disk e w = disk e u"
    have dw: "disk e w = ?d" using w(2) u(2) by simp
    have "wp (write_block e (unat (mapped (dk_block ?d) ?i 0)) p) Q E w"
      unfolding dw [symmetric]
    proof (rule wp_dir_put [OF w(1)])
      show "dir_ok (disk e w) ?n" "0 < dir_blocks (disk e w) ?n" "length p = UB" using dir k lp dw by simp_all
      fix x :: "'a album_scheme" assume x: "album_ok e x" "changed (put (file_data (disk e w) ?n) (0 * UB) p) ?n (disk e w) (disk e x)"
      have c: "changed ?ys ?n ?d (disk e x)" using x(2) dw by simp
      have iu: "inode_used ?d ?n" by (rule dir_ok_used [OF dir])
      show "Q () x" by (rule Q [OF x(1) changed_volume [OF v iu c] bo m changed_node [OF v iu c]])
    qed
    then show "wp (bind (lift (retarget_dotdot (dir_chunk (file_data (disk e u) ?n) 0) 0 q)) (\<lambda>found. case found of
       Some payload \<Rightarrow> write_block e (unat (mapped (dk_block (disk e u)) (inode_at (disk e u) ?n) 0)) payload
     | None \<Rightarrow> raise (Manifest ''directory has no parent entry''))) Q E w"
      unfolding u(2) p(1) by (simp add: wp_bind wp_prim)
  qed
  show "wp (bmap e ?i 0 False) (\<lambda>x. wp (case x of (block, _) \<Rightarrow>
     bind (lift (ok_or (Manifest ''directory has no first block'') block)) (\<lambda>block.
     bind (read_block e (unat block)) (\<lambda>payload.
     bind (lift (retarget_dotdot payload 0 q)) (\<lambda>found.
     case found of Some payload \<Rightarrow> write_block e (unat block) payload
     | None \<Rightarrow> raise (Manifest ''directory has no parent entry''))))) Q E) E s"
    by (rule wp_dir_bmap [OF ok dir k]) (simp only: prod.case ok_or_simps wp_bind [of "lift _"] wp_prim run)
qed


subsection \<open>Moving an entry\<close>

definition move_data :: "ext \<Rightarrow> u64 \<Rightarrow> inode \<Rightarrow> u64 \<Rightarrow> bytes \<Rightarrow> u64 \<Rightarrow> bytes \<Rightarrow> ('a album_scheme, unit, fs_error) prog" where
  "move_data e ino source p name q new =
     bind (add_dir_entry e q ino new (if is_dir source then FILE_TYPE_DIR else FILE_TYPE_FILE)) (\<lambda>_.
     bind (remove_dir_entry e p name) (\<lambda>_.
     if is_dir source \<and> p \<noteq> q then
       bind (update_dotdot e source q) (\<lambda>_.
       bind (now e) (\<lambda>t.
       bind (bind (getattr e p) (\<lambda>old_parent. write_inode e p
         (old_parent\<lparr>i_nlink := saturating_pred (i_nlink old_parent), i_mtime := t, i_ctime := t\<rparr>))) (\<lambda>_.
       bind (getattr e q) (\<lambda>new_parent. write_inode e q
         (new_parent\<lparr>i_nlink := i_nlink new_parent + 1, i_mtime := t, i_ctime := t\<rparr>)))))
     else ret ()))"

definition clear_target :: "ext \<Rightarrow> inode \<Rightarrow> u64 option \<Rightarrow> u64 \<Rightarrow> bytes \<Rightarrow> ('a album_scheme, unit, fs_error) prog" where
  "clear_target e source existing q new =
     (case existing of
        None \<Rightarrow> ret ()
      | Some target_ino \<Rightarrow>
          bind (getattr e target_ino) (\<lambda>target.
          if is_dir source \<and> \<not> is_dir target then raise NotDir
          else if \<not> is_dir source \<and> is_dir target then raise IsDir
          else if is_dir source then rmdir e q new
          else unlink e q new))"

lemma rename_split:
  "rename_entry e p name q new =
     (if p = q \<and> name = new then ret ()
      else
        bind (lookup e p name) (\<lambda>found.
        bind (lift (ok_or NotFound found)) (\<lambda>ino.
        bind (getattr e ino) (\<lambda>source.
        bind (lookup e q new) (\<lambda>existing.
        if existing = Some ino then ret ()
        else bind (clear_target e source existing q new) (\<lambda>_.
          bind (move_data e ino source p name q new) (\<lambda>_. sync e)))))))"
  unfolding rename_entry_def clear_target_def move_data_def Let_def
  by (simp add: bind_assoc bind_if_distrib cong: if_cong)

lemma dir_node_upd:
  "dir_node (N(k \<mapsto> (m, l, xs))) n zs \<longleftrightarrow> (if n = k then m AND S_IFMT = S_IFDIR \<and> zs = xs else dir_node N n zs)"
  by (auto simp: dir_node_def)

text \<open>One parent's links and times.\<close>

lemma wp_relink:
  fixes s :: "'a album_scheme"
  assumes ok: "album_ok e s" and v: "volume_ok (disk e s)" and n: "node (disk e s) (unat p) = Some (m, l, ys)"
    and Q: "\<And>t. album_ok e t \<Longrightarrow> volume_ok (disk e t) \<Longrightarrow>
      node (disk e t) = (node (disk e s))(unat p \<mapsto> (m, f l, ys)) \<Longrightarrow> Q () t"
  shows "wp (bind (getattr e p) (\<lambda>parent. write_inode e p (parent\<lparr>i_nlink := f (i_nlink parent), i_mtime := x, i_ctime := x\<rparr>))) Q E s"
  unfolding wp_bind
proof (rule wp_getattr [OF ok])
  let ?d = "disk e s" and ?p = "unat p"
  from node_SomeD [OF n] have at: "inode_used ?d ?p" "i_nlink (inode_at ?d ?p) = l" by simp_all
  then show "ino_ok ?d ?p" "i_mode (inode_at ?d ?p) \<noteq> 0" by (simp_all add: inode_used_def)
  fix t :: "'a album_scheme" assume t: "album_ok e t" "disk e t = ?d"
  have "wp (write_inode e p ((inode_at (disk e t) ?p)\<lparr>i_nlink := f l, i_mtime := x, i_ctime := x\<rparr>)) Q E t"
    by (rule wp_restamp [OF t(1), where m = m and l = l and ys = ys]) (use v n Q t(2) in simp_all)
  then show "wp (write_inode e p ((inode_at ?d ?p)\<lparr>i_nlink := f (i_nlink (inode_at ?d ?p)), i_mtime := x, i_ctime := x\<rparr>)) Q E t"
    using at(2) t(2) by simp
qed

text \<open>The last steps, for a directory with a new parent.\<close>

lemma wp_adopt:
  fixes s :: "'a album_scheme"
  assumes ok: "album_ok e s" and v: "volume_ok (disk e s)"
    and p: "node (disk e s) (unat p) = Some (m, l, ys)" and q: "node (disk e s) (unat q) = Some (m', l', zs)"
    and dir: "dir_ok (disk e s) (unat i)" and dd: "names (disk e s) (unat i) [46, 46] = Some (r, FILE_TYPE_DIR)"
    and ne: "p \<noteq> q" "i \<noteq> p" "i \<noteq> q" and i: "node (disk e s) (unat i) = Some (fm, fl, fx)"
    and Q: "\<And>t gx. album_ok e t \<Longrightarrow> volume_ok (disk e t) \<Longrightarrow> dir_bytes_ok i gx \<Longrightarrow>
      dir_map gx = (dir_map fx)([46, 46] \<mapsto> (q, FILE_TYPE_DIR)) \<Longrightarrow>
      node (disk e t) = (node (disk e s))(unat p \<mapsto> (m, saturating_pred l, ys), unat q \<mapsto> (m', l' + 1, zs),
        unat i \<mapsto> (fm, fl, gx)) \<Longrightarrow> Q () t"
  shows "wp (bind (update_dotdot e (inode_at (disk e s) (unat i)) q) (\<lambda>_.
       bind (now e) (\<lambda>t.
       bind (bind (getattr e p) (\<lambda>old_parent. write_inode e p
         (old_parent\<lparr>i_nlink := saturating_pred (i_nlink old_parent), i_mtime := t, i_ctime := t\<rparr>))) (\<lambda>_.
       bind (getattr e q) (\<lambda>new_parent. write_inode e q
         (new_parent\<lparr>i_nlink := i_nlink new_parent + 1, i_mtime := t, i_ctime := t\<rparr>)))))) Q E s"
  unfolding wp_bind [of "update_dotdot _ _ _"]
proof (rule wp_update_dotdot [OF ok v dir _ dd])
  let ?d = "disk e s"
  have un: "unat p \<noteq> unat q" "unat i \<noteq> unat p" "unat i \<noteq> unat q" using ne by (simp_all add: word_unat_eq_iff)
  show "q \<noteq> 0" by (rule dir_nonzero [OF q])
  note I = node_SomeD [OF i]
  fix t :: "'a album_scheme" and gx
  assume t: "album_ok e t" "volume_ok (disk e t)" and g: "dir_bytes_ok i gx"
    "dir_map gx = (names ?d (unat i))([46, 46] \<mapsto> (q, FILE_TYPE_DIR))"
    and nt: "node (disk e t) = (node ?d)(unat i \<mapsto> (i_mode (inode_at ?d (unat i)), i_nlink (inode_at ?d (unat i)), gx))"
  have gm: "dir_map gx = (dir_map fx)([46, 46] \<mapsto> (q, FILE_TYPE_DIR))" using g(2) I by (simp add: names_def)
  have nt': "node (disk e t) = (node ?d)(unat i \<mapsto> (fm, fl, gx))" using nt I by simp
  show "wp (bind (now e) (\<lambda>t.
       bind (bind (getattr e p) (\<lambda>old_parent. write_inode e p
         (old_parent\<lparr>i_nlink := saturating_pred (i_nlink old_parent), i_mtime := t, i_ctime := t\<rparr>))) (\<lambda>_.
       bind (getattr e q) (\<lambda>new_parent. write_inode e q
         (new_parent\<lparr>i_nlink := i_nlink new_parent + 1, i_mtime := t, i_ctime := t\<rparr>))))) Q E t"
    unfolding wp_bind [of "now e"]
  proof (rule wp_disk_now [OF t(1)])
    fix x and u :: "'a album_scheme" assume u: "album_ok e u" "disk e u = disk e t"
    show "wp (bind (bind (getattr e p) (\<lambda>old_parent. write_inode e p
         (old_parent\<lparr>i_nlink := saturating_pred (i_nlink old_parent), i_mtime := x, i_ctime := x\<rparr>))) (\<lambda>_.
       bind (getattr e q) (\<lambda>new_parent. write_inode e q
         (new_parent\<lparr>i_nlink := i_nlink new_parent + 1, i_mtime := x, i_ctime := x\<rparr>)))) Q E u"
      unfolding wp_bind [of "bind (getattr e p) _"]
    proof (rule wp_relink [OF u(1), where f = saturating_pred])
      show "volume_ok (disk e u)" "node (disk e u) (unat p) = Some (m, l, ys)" using t(2) nt' p un u(2) by simp_all
      fix w :: "'a album_scheme" assume w: "album_ok e w" "volume_ok (disk e w)"
        "node (disk e w) = (node (disk e u))(unat p \<mapsto> (m, saturating_pred l, ys))"
      show "wp (bind (getattr e q) (\<lambda>new_parent. write_inode e q
         (new_parent\<lparr>i_nlink := i_nlink new_parent + 1, i_mtime := x, i_ctime := x\<rparr>))) Q E w"
      proof (rule wp_relink [OF w(1,2), where f = "\<lambda>l. l + 1"])
        show "node (disk e w) (unat q) = Some (m', l', zs)" using w(3) u(2) nt' q un by simp
        fix y :: "'a album_scheme" assume y: "album_ok e y" "volume_ok (disk e y)"
          "node (disk e y) = (node (disk e w))(unat q \<mapsto> (m', l' + 1, zs))"
        have "node (disk e y) = (node ?d)(unat p \<mapsto> (m, saturating_pred l, ys), unat q \<mapsto> (m', l' + 1, zs),
            unat i \<mapsto> (fm, fl, gx))"
          unfolding y(3) w(3) u(2) nt' using un by (auto simp: fun_eq_iff)
        then show "Q () y" by (rule Q [OF y(1,2) g(1) gm])
      qed
    qed
  qed
qed

text \<open>The map of files after the move, without a new parent or with one.\<close>

lemma movedI:
  assumes "N (unat p) = Some (m, l, xs)"
  shows "p = q \<Longrightarrow> dir_map ys = (dir_map xs)(new \<mapsto> (i, t), name := None) \<Longrightarrow> N' = N(unat p \<mapsto> (m, l, ys)) \<Longrightarrow>
      moved N p name q new i t N'"
    "p \<noteq> q \<Longrightarrow> N (unat q) = Some (m', l', vs) \<Longrightarrow> dir_map ys = (dir_map xs)(name := None) \<Longrightarrow>
      dir_map zs = (dir_map vs)(new \<mapsto> (i, t)) \<Longrightarrow> t \<noteq> FILE_TYPE_DIR \<Longrightarrow>
      N' = N(unat p \<mapsto> (m, l, ys), unat q \<mapsto> (m', l', zs)) \<Longrightarrow> moved N p name q new i t N'"
    "p \<noteq> q \<Longrightarrow> N (unat q) = Some (m', l', vs) \<Longrightarrow> dir_map ys = (dir_map xs)(name := None) \<Longrightarrow>
      dir_map zs = (dir_map vs)(new \<mapsto> (i, t)) \<Longrightarrow> t = FILE_TYPE_DIR \<Longrightarrow> N (unat i) = Some (fm, fl, fx) \<Longrightarrow>
      dir_map gx = (dir_map fx)([46, 46] \<mapsto> (q, FILE_TYPE_DIR)) \<Longrightarrow>
      N' = N(unat p \<mapsto> (m, saturating_pred l, ys), unat q \<mapsto> (m', l' + 1, zs), unat i \<mapsto> (fm, fl, gx)) \<Longrightarrow>
      moved N p name q new i t N'"
  using assms unfolding moved_def by (simp; blast)+

lemma moved_ok:
  assumes fs: "fs_ok d" and p: "node d (unat p) = Some (m, l, xs)" "m AND S_IFMT = S_IFDIR"
    and q: "node d (unat q) = Some (m', l', vs)" "m' AND S_IFMT = S_IFDIR"
    and name: "dir_map xs name = Some (i, t')" "name \<notin> dots" and new: "dir_map vs new = None"
    and t: "t' = FILE_TYPE_DIR \<longleftrightarrow> t = FILE_TYPE_DIR" and ne: "t = FILE_TYPE_DIR \<Longrightarrow> p \<noteq> q \<Longrightarrow> i \<noteq> p \<and> i \<noteq> q"
    and mv: "moved (node d) p name q new i t (node d')" and v: "volume_ok d'"
    and bytes: "\<And>n zs. dir_node (node d') n zs \<Longrightarrow> dir_node (node d) n zs \<or> dir_bytes_ok (of_nat n) zs"
  shows "fs_ok d'"
proof -
  have ok: "names_ok (node d)" using fs by (simp add: fs_ok_def)
  have "names_ok (node d')"
  proof (rule moved_names_ok [OF ok _ _ name t new ne mv])
    show "dir_node (node d) (unat p) xs" "dir_node (node d) (unat q) vs" using p q by (simp_all add: dir_node_def)
    show "dir_bytes_ok (of_nat n) zs" if "dir_node (node d') n zs" for n zs
      using bytes [OF that] names_okD(2) [OF ok] by blast
  qed
  with v show ?thesis by (simp add: fs_ok_def)
qed

lemma wp_move_data:
  fixes s :: "'a album_scheme"
  assumes ok: "album_ok e s" and fs: "fs_ok (disk e s)"
    and p: "node (disk e s) (unat p) = Some (m, l, xs)" "m AND S_IFMT = S_IFDIR"
    and q: "node (disk e s) (unat q) = Some (m', l', vs)" "m' AND S_IFMT = S_IFDIR"
    and name: "dir_map xs name = Some (i, t)" "name \<notin> dots" and new: "dir_map vs new = None" "utf8_valid new"
    and td: "tidy_dir xs" "p = q \<Longrightarrow> packed xs" and ne: "t = FILE_TYPE_DIR \<Longrightarrow> p \<noteq> q \<Longrightarrow> i \<noteq> p \<and> i \<noteq> q"
    and src: "is_dir source \<longleftrightarrow> t = FILE_TYPE_DIR" "t = FILE_TYPE_DIR \<Longrightarrow> source = inode_at (disk e s) (unat i)"
    and Q: "\<And>u. album_ok e u \<Longrightarrow> fs_ok (disk e u) \<Longrightarrow>
      moved (node (disk e s)) p name q new i (if t = FILE_TYPE_DIR then FILE_TYPE_DIR else FILE_TYPE_FILE) (node (disk e u)) \<Longrightarrow> Q () u"
    and E: "\<And>x u. album_ok e u \<Longrightarrow> cramped 2 new (unat q) (disk e s) \<Longrightarrow> E x u"
  shows "wp (move_data e i source p name q new) Q E s"
  unfolding move_data_def wp_bind [of "add_dir_entry _ _ _ _ _"]
proof -
  let ?d = "disk e s"
  let ?t = "if t = FILE_TYPE_DIR then FILE_TYPE_DIR else FILE_TYPE_FILE"
  note P = fs_dir [OF fs p] and K = fs_dir [OF fs q] and T = fs_target [OF fs p name(1)]
  have v: "volume_ok ?d" and nok: "names_ok (node ?d)" using fs by (simp_all add: fs_ok_def)
  note isd = src(1)
  have kind: "(if is_dir source then FILE_TYPE_DIR else FILE_TYPE_FILE) = ?t" by (simp add: isd)
  have i0: "i \<noteq> 0" using T(1) by (auto simp: inode_used_def ino_ok_def)
  have tt: "t = FILE_TYPE_DIR \<longleftrightarrow> ?t = FILE_TYPE_DIR" by (simp add: FILE_TYPE_FILE_def FILE_TYPE_DIR_def)
  have nn: "p = q \<Longrightarrow> xs = vs \<and> name \<noteq> new" using p q name new by auto
  have un: "p \<noteq> q \<Longrightarrow> unat p \<noteq> unat q" by (simp add: word_unat_eq_iff)
  note ok1 = moved_ok [OF fs p q name new(1) tt]
  let ?rest = "if is_dir source \<and> p \<noteq> q then
       bind (update_dotdot e source q) (\<lambda>_.
       bind (now e) (\<lambda>t.
       bind (bind (getattr e p) (\<lambda>old_parent. write_inode e p
         (old_parent\<lparr>i_nlink := saturating_pred (i_nlink old_parent), i_mtime := t, i_ctime := t\<rparr>))) (\<lambda>_.
       bind (getattr e q) (\<lambda>new_parent. write_inode e q
         (new_parent\<lparr>i_nlink := i_nlink new_parent + 1, i_mtime := t, i_ctime := t\<rparr>)))))
     else ret ()"
  show "wp (add_dir_entry e q i new (if is_dir source then FILE_TYPE_DIR else FILE_TYPE_FILE))
      (\<lambda>_. wp (bind (remove_dir_entry e p name) (\<lambda>_. ?rest)) Q E) E s"
    unfolding kind
  proof (rule wp_name_more [OF ok v K(1) new(2) i0])
    show "names ?d (unat q) new = None" using K(2) new(1) by simp
    fix u :: "'a album_scheme" and zs
    assume u: "album_ok e u" "volume_ok (disk e u)" and z: "dir_bytes_ok q zs" "dir_map zs = (names ?d (unat q))(new \<mapsto> (i, ?t))"
      "packed (file_data ?d (unat q)) \<longrightarrow> packed zs"
      and nu: "node (disk e u) = (node ?d)(unat q \<mapsto> (i_mode (inode_at ?d (unat q)), i_nlink (inode_at ?d (unat q)), zs))"
      and au: "\<And>k. k \<noteq> unat q \<Longrightarrow> inode_used ?d k \<Longrightarrow> inode_at (disk e u) k = inode_at ?d k"
    have zm: "dir_map zs = (dir_map vs)(new \<mapsto> (i, ?t))" using z(2) K(2) by simp
    have nu': "node (disk e u) = (node ?d)(unat q \<mapsto> (m', l', zs))" using nu K(4,5) by simp
    define xs1 where "xs1 = (if p = q then zs else xs)"
    have p1: "node (disk e u) (unat p) = Some (m, l, xs1)" using nu' p(1) q(1) un by (auto simp: xs1_def)
    have b1: "dir_bytes_ok p xs1" using z(1) P(6) by (simp add: xs1_def)
    note N1 = node_SomeD [OF p1]
    have d1: "dir_ok (disk e u) (unat p)" using dir_ok_node [OF u(2), of "unat p"] p1 p(2) b1 by simp
    have n1: "names (disk e u) (unat p) = dir_map xs1" using N1 by (simp add: names_def)
    have has: "dir_map xs1 name = Some (i, t)" using name(1) zm nn by (auto simp: xs1_def)
    have t1: "tidy_dir xs1" using td z(3) K(3) nn packed_tidy by (auto simp: xs1_def)
    show "wp (bind (remove_dir_entry e p name) (\<lambda>_. ?rest)) Q E u"
      unfolding wp_bind [of "remove_dir_entry _ _ _"]
    proof (rule wp_unname [OF u d1 _ name(2)])
      show "dir_tidy (disk e u) (unat p)" using t1 N1 by (simp add: dir_tidy_def tidy_dir_def)
      show "names (disk e u) (unat p) name \<noteq> None" using n1 has by simp
      fix w :: "'a album_scheme" and ys
      assume w: "album_ok e w" "volume_ok (disk e w)" and y: "unnamed p name ys (disk e u)"
        and nw: "node (disk e w) = (node (disk e u))(unat p \<mapsto>
          (i_mode (inode_at (disk e u) (unat p)), i_nlink (inode_at (disk e u) (unat p)), ys))"
        and aw: "\<And>k. k \<noteq> unat p \<Longrightarrow> inode_used (disk e u) k \<Longrightarrow> inode_at (disk e w) k = inode_at (disk e u) k"
      have ym: "dir_map ys = (dir_map xs1)(name := None)" "dir_bytes_ok p ys" using y n1 by (simp_all add: unnamed_def)
      have nw': "node (disk e w) = (node ?d)(unat q \<mapsto> (m', l', zs), unat p \<mapsto> (m, l, ys))"
        unfolding nw nu' using N1 by simp
      show "wp ?rest Q E w"
      proof (cases "is_dir source \<and> p \<noteq> q")
        case False
        have mv: "moved (node ?d) p name q new i ?t (node (disk e w))"
        proof (cases "p = q")
          case True
          show ?thesis by (rule movedI(1) [where N = "node ?d", OF p(1) True]) (use nw' True ym(1) zm nn in \<open>auto simp: xs1_def\<close>)
        next
          case pq: False
          then have "?t \<noteq> FILE_TYPE_DIR" using False isd tt by blast
          moreover have "node (disk e w) = (node ?d)(unat p \<mapsto> (m, l, ys), unat q \<mapsto> (m', l', zs))"
            unfolding nw' using un [OF pq] by (simp add: fun_upd_twist)
          ultimately show ?thesis by (intro movedI(2) [where N = "node ?d", OF p(1) pq q(1) _ zm]) (use ym(1) pq in \<open>simp_all add: xs1_def\<close>)
        qed
        have "fs_ok (disk e w)"
        proof (rule ok1 [OF _ mv w(2)])
          show "?t = FILE_TYPE_DIR \<Longrightarrow> p \<noteq> q \<Longrightarrow> i \<noteq> p \<and> i \<noteq> q" using ne tt by blast
          show "dir_node (node ?d) n os \<or> dir_bytes_ok (of_nat n) os" if "dir_node (node (disk e w)) n os" for n os
            using that ym(2) z(1) unfolding nw' dir_node_upd by (auto split: if_splits)
        qed
        then have "Q () w" using Q [OF w(1) _ mv] by blast
        then show ?thesis unfolding if_not_P [OF False] by (simp add: wp_prim)
      next
        case True
        then have td: "t = FILE_TYPE_DIR" and pq: "p \<noteq> q" using isd by blast+
        from ne [OF td pq] have ii: "unat i \<noteq> unat p" "unat i \<noteq> unat q" by (simp_all add: word_unat_eq_iff)
        obtain fm fl fx where fi: "node ?d (unat i) = Some (fm, fl, fx)" using T(1) by (simp add: node_def)
        note F = node_SomeD [OF fi]
        have fd: "fm AND S_IFMT = S_IFDIR" using T(2) td F by (simp add: is_dir_def)
        have iw: "node (disk e w) (unat i) = Some (fm, fl, fx)" unfolding nw' using fi ii by simp
        have iu: "inode_used (disk e u) (unat i)" using node_dom [of "disk e u" "unat i"] fi ii nu' by simp
        have at: "inode_at (disk e w) (unat i) = source" using aw [OF ii(1) iu] au [OF ii(2) T(1)] src(2) td by simp
        have bi: "dir_bytes_ok i fx" using names_okD(2) [OF nok, of "unat i" fx] fi fd by (simp add: dir_node_def)
        have di: "dir_ok (disk e w) (unat i)" using dir_ok_node [OF w(2), of "unat i"] iw fd bi by simp
        obtain r where r: "dir_map fx [46, 46] = Some (r, FILE_TYPE_DIR)"
          using names_okD(7) [OF nok, of "unat i" fx] fi fd by (auto simp: dir_node_def)
        have dd: "names (disk e w) (unat i) [46, 46] = Some (r, FILE_TYPE_DIR)"
          using node_SomeD [OF iw] r by (simp add: names_def)
        have "wp (bind (update_dotdot e (inode_at (disk e w) (unat i)) q) (\<lambda>_.
             bind (now e) (\<lambda>t.
             bind (bind (getattr e p) (\<lambda>old_parent. write_inode e p
               (old_parent\<lparr>i_nlink := saturating_pred (i_nlink old_parent), i_mtime := t, i_ctime := t\<rparr>))) (\<lambda>_.
             bind (getattr e q) (\<lambda>new_parent. write_inode e q
               (new_parent\<lparr>i_nlink := i_nlink new_parent + 1, i_mtime := t, i_ctime := t\<rparr>)))))) Q E w"
        proof (rule wp_adopt [OF w _ _ di dd pq _ _ iw])
          show "node (disk e w) (unat p) = Some (m, l, ys)" "node (disk e w) (unat q) = Some (m', l', zs)"
            unfolding nw' using un [OF pq] by simp_all
          show "i \<noteq> p" "i \<noteq> q" using ne [OF td pq] by blast+
          fix x :: "'a album_scheme" and gx
          assume x: "album_ok e x" "volume_ok (disk e x)" "dir_bytes_ok i gx"
            "dir_map gx = (dir_map fx)([46, 46] \<mapsto> (q, FILE_TYPE_DIR))"
            and nx: "node (disk e x) = (node (disk e w))(unat p \<mapsto> (m, saturating_pred l, ys), unat q \<mapsto> (m', l' + 1, zs),
              unat i \<mapsto> (fm, fl, gx))"
          have nx': "node (disk e x) = (node ?d)(unat p \<mapsto> (m, saturating_pred l, ys), unat q \<mapsto> (m', l' + 1, zs),
              unat i \<mapsto> (fm, fl, gx))"
            unfolding nx nw' using un [OF pq] ii by (auto simp: fun_eq_iff)
          have mv: "moved (node ?d) p name q new i ?t (node (disk e x))"
            by (rule movedI(3) [where N = "node ?d", OF p(1) pq q(1) _ zm _ fi x(4) nx']) (use ym(1) pq td in \<open>simp_all add: xs1_def\<close>)
          have "fs_ok (disk e x)"
          proof (rule ok1 [OF _ mv x(2)])
            show "?t = FILE_TYPE_DIR \<Longrightarrow> p \<noteq> q \<Longrightarrow> i \<noteq> p \<and> i \<noteq> q" using ne tt by blast
            show "dir_node (node ?d) n os \<or> dir_bytes_ok (of_nat n) os" if "dir_node (node (disk e x)) n os" for n os
              using that ym(2) z(1) x(3) unfolding nx' dir_node_upd by (auto split: if_splits)
          qed
          then show "Q () x" using Q [OF x(1) _ mv] by blast
        qed
        then show ?thesis unfolding if_P [OF True] at .
      qed
    qed
  qed (rule E)
qed

end
