(* ===== verification/RenameSpec.thy ===== *)
theory RenameSpec
  imports Rename
begin

text \<open>
  The contract of \<open>rename\<close>: what stands under the new name goes first, as \<open>unlink\<close> or \<open>rmdir\<close>
  would remove it, then the entry moves.
\<close>

subsection \<open>The target\<close>

text \<open>When nothing is moved: the result.\<close>

definition blocked :: "nodes \<Rightarrow> u64 \<Rightarrow> u8 \<Rightarrow> (u64 \<times> u8) option \<Rightarrow> (unit, fs_error) res option" where
  "blocked N i ft target = (case target of
       None \<Rightarrow> None
     | Some (j, jt) \<Rightarrow>
         if j = i then Some (Ok ())
         else if ft = FILE_TYPE_DIR \<and> jt \<noteq> FILE_TYPE_DIR then Some (Err NotDir)
         else if ft \<noteq> FILE_TYPE_DIR \<and> jt = FILE_TYPE_DIR then Some (Err IsDir)
         else if ft = FILE_TYPE_DIR \<and> (case N (unat j) of None \<Rightarrow> True | Some (m, l, zs) \<Rightarrow> \<not> dots_only zs)
           then Some (Err NotEmpty)
         else None)"

text \<open>The map of files without the target.\<close>

definition cleared :: "nodes \<Rightarrow> u64 \<Rightarrow> bytes \<Rightarrow> nodes \<Rightarrow> bool" where
  "cleared N q new N' \<longleftrightarrow> (\<exists>m l vs. N (unat q) = Some (m, l, vs) \<and> (case dir_map vs new of
       None \<Rightarrow> N' = N
     | Some (j, jt) \<Rightarrow> \<exists>ws. without_name vs new ws \<and>
         (if jt = FILE_TYPE_DIR then N' = N(unat j := None, unat q \<mapsto> (m, saturating_pred l, ws))
          else \<exists>fm fl zs. N (unat j) = Some (fm, fl, zs) \<and>
            N' = N(unat q \<mapsto> (m, l, ws), unat j := (if fl \<le> 1 then None else Some (fm, fl - 1, zs))))))"

lemma save_bitmap_fs_ok: "disk_ok d \<Longrightarrow> fs_ok d \<Longrightarrow> fs_ok (save_bitmap d)"
  using save_bitmap_volume unfolding fs_ok_def by simp

lemma keeps_move_data: "keeps (move_data e i source p name q new)"
  unfolding move_data_def by (intro keeps_intros)

lemma getattr_run:
  fixes s :: "'a album_scheme"
  assumes ok: "album_ok e s" and u: "inode_used (disk e s) (unat i)"
  shows "\<exists>t. getattr e i s = (Ok (inode_at (disk e s) (unat i)), t) \<and> album_ok e t \<and> disk e t = disk e s \<and> static t = static s"
proof -
  have "wp (getattr e i) (\<lambda>r t. r = inode_at (disk e s) (unat i) \<and> album_ok e t \<and> disk e t = disk e s) no_err s"
    by (rule wp_getattr [OF ok]) (use u in \<open>simp_all add: inode_used_def\<close>)
  from wp_Ok_run [OF this] obtain t
    where t: "getattr e i s = (Ok (inode_at (disk e s) (unat i)), t)" "album_ok e t" "disk e t = disk e s" by blast
  from keepsD [OF ab.runs_inodes(3) t(1)] t show ?thesis by blast
qed

lemma lookup_found:
  fixes s :: "'a album_scheme"
  assumes ok: "album_ok e s" and fs: "fs_ok (disk e s)" and p: "node (disk e s) (unat p) = Some (m, l, xs)" "m AND S_IFMT = S_IFDIR"
  shows "\<exists>t. lookup e p name s = (Ok (map_option fst (dir_map xs name)), t) \<and> album_ok e t \<and> disk e t = disk e s \<and> static t = static s"
proof -
  obtain t where t: "lookup e p name s = (Ok (map_option fst (dir_map xs name)), t)" "album_ok e t" "disk e t = disk e s"
    using lookup_run(1) [OF ok fs, of p name] p by auto
  from keepsD [OF ab.runs_directories(1) t(1)] t show ?thesis by blast
qed

text \<open>The run up to the target.\<close>

lemma rename_source:
  fixes s :: "'a album_scheme"
  assumes ok: "album_ok e s" and fs: "fs_ok (disk e s)"
    and p: "node (disk e s) (unat p) = Some (m, l, xs)" "m AND S_IFMT = S_IFDIR" and ne: "\<not> (p = q \<and> name = new)"
  shows "dir_map xs name = None \<Longrightarrow>
      \<exists>u. rename_entry e p name q new s = (Err NotFound, u) \<and> album_ok e u \<and> disk e u = disk e s"
    "dir_map xs name = Some (i, ft) \<Longrightarrow> \<exists>u. album_ok e u \<and> disk e u = disk e s \<and> static u = static s \<and>
      rename_entry e p name q new s = bind (lookup e q new) (\<lambda>existing.
        if existing = Some i then ret ()
        else bind (clear_target e (inode_at (disk e s) (unat i)) existing q new) (\<lambda>_.
          bind (move_data e i (inode_at (disk e s) (unat i)) p name q new) (\<lambda>_. sync e))) u"
proof -
  let ?d = "disk e s"
  note R = rename_split [of e p name q new, unfolded if_not_P [OF ne]]
  obtain a where a: "lookup e p name s = (Ok (map_option fst (dir_map xs name)), a)" "album_ok e a" "disk e a = ?d"
    "static a = static s" using lookup_found [OF ok fs p] by blast
  show "\<exists>u. rename_entry e p name q new s = (Err NotFound, u) \<and> album_ok e u \<and> disk e u = ?d" if "dir_map xs name = None"
    using a that by (auto simp: R bind_def run_simps)
  assume name: "dir_map xs name = Some (i, ft)"
  have "inode_used (disk e a) (unat i)" using fs_target(1) [OF fs p name] a(3) by simp
  from getattr_run [OF a(2) this] obtain b where b: "getattr e i a = (Ok (inode_at ?d (unat i)), b)" "album_ok e b" "disk e b = ?d"
    "static b = static s" using a(3,4) by auto
  show "\<exists>u. album_ok e u \<and> disk e u = disk e s \<and> static u = static s \<and>
      rename_entry e p name q new s = bind (lookup e q new) (\<lambda>existing.
        if existing = Some i then ret ()
        else bind (clear_target e (inode_at (disk e s) (unat i)) existing q new) (\<lambda>_.
          bind (move_data e i (inode_at (disk e s) (unat i)) p name q new) (\<lambda>_. sync e))) u"
    by (rule exI [of _ b]) (use a(1) b name in \<open>simp add: R bind_def [of "lookup e p name"] bind_def [of "getattr e i"] bind_lift_Ok\<close>)
qed

lemma rename_found:
  fixes s :: "'a album_scheme"
  assumes ok: "album_ok e s" and fs: "fs_ok (disk e s)"
    and p: "node (disk e s) (unat p) = Some (m, l, xs)" "m AND S_IFMT = S_IFDIR"
    and q: "node (disk e s) (unat q) = Some (m', l', vs)" "m' AND S_IFMT = S_IFDIR"
    and ne: "\<not> (p = q \<and> name = new)" and name: "dir_map xs name = Some (i, ft)"
  shows "\<exists>u. album_ok e u \<and> disk e u = disk e s \<and> static u = static s \<and>
      rename_entry e p name q new s =
        (if map_option fst (dir_map vs new) = Some i then (Ok (), u)
         else bind (clear_target e (inode_at (disk e s) (unat i)) (map_option fst (dir_map vs new)) q new) (\<lambda>_.
           bind (move_data e i (inode_at (disk e s) (unat i)) p name q new) (\<lambda>_. sync e)) u)"
proof -
  let ?K = "\<lambda>existing. if existing = Some i then ret ()
        else bind (clear_target e (inode_at (disk e s) (unat i)) existing q new) (\<lambda>_.
          bind (move_data e i (inode_at (disk e s) (unat i)) p name q new) (\<lambda>_. sync e))"
  obtain b where b: "album_ok e b" "disk e b = disk e s" "static b = static s"
    "rename_entry e p name q new s = bind (lookup e q new) ?K b"
    using rename_source(2) [OF ok fs p ne name] by blast
  have "fs_ok (disk e b)" "node (disk e b) (unat q) = Some (m', l', vs)" using fs q b(2) by simp_all
  from lookup_found [OF b(1) this q(2)] obtain u where u: "lookup e q new b = (Ok (map_option fst (dir_map vs new)), u)"
    "album_ok e u" "disk e u = disk e s" "static u = static s" using b(2,3) by auto
  have "rename_entry e p name q new s = ?K (map_option fst (dir_map vs new)) u"
    unfolding b(4) using u(1) by (simp add: bind_def [of "lookup e q new"])
  then show ?thesis using u(2-4) by (intro exI [of _ u]) (simp add: run_simps)
qed


subsection \<open>The move\<close>

lemma wp_move:
  fixes s :: "'a album_scheme"
  assumes laws: "codec_laws e" "jpeg_returns e" and ok: "album_ok e s" and fs: "fs_ok (disk e s)"
    and p: "node (disk e s) (unat p) = Some (m, l, xs)" "m AND S_IFMT = S_IFDIR"
    and q: "node (disk e s) (unat q) = Some (m', l', vs)" "m' AND S_IFMT = S_IFDIR"
    and name: "dir_map xs name = Some (i, t)" "name \<notin> dots" and new: "dir_map vs new = None" "utf8_valid new"
    and td: "tidy_dir xs" "p = q \<Longrightarrow> packed xs" and ne: "t = FILE_TYPE_DIR \<Longrightarrow> p \<noteq> q \<Longrightarrow> i \<noteq> p \<and> i \<noteq> q"
    and src: "is_dir source \<longleftrightarrow> t = FILE_TYPE_DIR" "t = FILE_TYPE_DIR \<Longrightarrow> source = inode_at (disk e s) (unat i)"
  shows "\<exists>r u. bind (move_data e i source p name q new) (\<lambda>_. sync e) s = (r, u) \<and> r \<noteq> Panic \<and> album_ok e u \<and>
    (r = Ok () \<and> durable e u \<and> fs_ok (disk e u) \<and>
       moved (node (disk e s)) p name q new i (if t = FILE_TYPE_DIR then FILE_TYPE_DIR else FILE_TYPE_FILE) (node (disk e u)) \<or>
     r \<noteq> Ok () \<and> (\<not> writable e s \<or> cramped 2 new (unat q) (disk e s)))"
proof -
  let ?mv = "\<lambda>d. fs_ok d \<and>
       moved (node (disk e s)) p name q new i (if t = FILE_TYPE_DIR then FILE_TYPE_DIR else FILE_TYPE_FILE) (node d)"
  let ?E = "\<lambda>_ u. album_ok e u \<and> (\<not> writable e s \<or> cramped 2 new (unat q) (disk e s))"
  have "wp (move_data e i source p name q new) (\<lambda>_ u. album_ok e u \<and> ?mv (save_bitmap (disk e u))) ?E s"
  proof (rule wp_move_data [OF ok fs p q name new td ne src])
    fix u :: "'a album_scheme" assume u: "album_ok e u" "fs_ok (disk e u)"
      "moved (node (disk e s)) p name q new i (if t = FILE_TYPE_DIR then FILE_TYPE_DIR else FILE_TYPE_FILE) (node (disk e u))"
    have "volume_ok (disk e u)" using u(2) by (simp add: fs_ok_def)
    note S = save_bitmap_volume(2) [OF album_ok_disk [OF u(1)] this]
    show "album_ok e u \<and> ?mv (save_bitmap (disk e u))"
      using u save_bitmap_fs_ok [OF album_ok_disk [OF u(1)] u(2)] unfolding S by blast
  qed simp_all
  then have "wp (move_data e i source p name q new) (\<lambda>x. wp (sync e) (\<lambda>_ u. album_ok e u \<and> durable e u \<and> ?mv (disk e u)) ?E) ?E s"
    by (rule wp_then_sync [OF laws keeps_move_data]) simp_all
  then have "wp (bind (move_data e i source p name q new) (\<lambda>_. sync e))
      (\<lambda>_ u. album_ok e u \<and> durable e u \<and> ?mv (disk e u)) ?E s" unfolding wp_bind .
  then show ?thesis unfolding wp_def by (auto split: prod.splits res.splits)
qed


subsection \<open>The target goes\<close>

lemma dots_onlyD: "dots_only xs \<Longrightarrow> dir_map xs name = Some x \<Longrightarrow> name \<in> dots"
  unfolding dots_only_map dots_def by auto

lemma clear_refused:
  fixes s :: "'a album_scheme"
  assumes ok: "album_ok e s" and fs: "fs_ok (disk e s)"
    and q: "node (disk e s) (unat q) = Some (m', l', vs)" "m' AND S_IFMT = S_IFDIR"
    and tg: "dir_map vs new = Some (j, jt)" and src: "is_dir source \<longleftrightarrow> ft = FILE_TYPE_DIR"
    and b: "blocked (node (disk e s)) i ft (Some (j, jt)) = Some r" "j \<noteq> i"
  shows "\<exists>u x. r = Err x \<and> clear_target e source (Some j) q new s = (r, u) \<and> album_ok e u \<and> disk e u = disk e s"
proof -
  let ?d = "disk e s"
  note T = fs_target [OF fs q tg]
  obtain u where u: "getattr e j s = (Ok (inode_at ?d (unat j)), u)" "album_ok e u" "disk e u = ?d"
    using getattr_run [OF ok T(1)] by blast
  consider "is_dir source" "jt \<noteq> FILE_TYPE_DIR" "r = Err NotDir" | "\<not> is_dir source" "jt = FILE_TYPE_DIR" "r = Err IsDir"
    | "is_dir source" "jt = FILE_TYPE_DIR" "r = Err NotEmpty" "case node ?d (unat j) of None \<Rightarrow> True | Some (m, l, zs) \<Rightarrow> \<not> dots_only zs"
    using b src by (auto simp: blocked_def split: if_splits)
  then show ?thesis
  proof cases
    case 3
    have "\<not> dots_only (file_data ?d (unat j))" using 3(4) T(1) by (simp add: node_def)
    then have full: "\<not> dots_only (file_data (disk e u) (unat j))" using u(3) by simp
    have at: "fs_ok (disk e u)" "node (disk e u) (unat q) = Some (m', l', vs)" using q fs u(3) by simp_all
    obtain w where "rmdir e q new u = (Err NotEmpty, w)" "album_ok e w" "disk e w = ?d"
      using rmdir_self [OF u(2) at q(2) tg [unfolded 3(2)] full] u(3) by auto
    then show ?thesis using u 3 T(2) by (simp add: clear_target_def bind_def run_simps)
  qed (use u T(2) in \<open>simp_all add: clear_target_def bind_def run_simps\<close>)
qed

lemma clear_target_run:
  fixes s :: "'a album_scheme"
  assumes laws: "codec_laws e" "jpeg_returns e" and ok: "album_ok e s" and fs: "fs_ok (disk e s)"
    and q: "node (disk e s) (unat q) = Some (m', l', vs)" "m' AND S_IFMT = S_IFDIR"
    and tg: "dir_map vs new = Some (j, jt)" "new \<notin> dots" "tidy_dir vs" and src: "is_dir source \<longleftrightarrow> ft = FILE_TYPE_DIR"
    and b: "blocked (node (disk e s)) i ft (Some (j, jt)) = None"
  shows "\<exists>r u ws l''. clear_target e source (Some j) q new s = (r, u) \<and> r \<noteq> Panic \<and> album_ok e u \<and> fs_ok (disk e u) \<and>
      (r = Ok () \<or> \<not> writable e s) \<and> cleared (node (disk e s)) q new (node (disk e u)) \<and> without_name vs new ws \<and>
      node (disk e u) (unat q) = Some (m', l'', ws) \<and>
      (\<forall>k. k \<noteq> unat q \<longrightarrow> k \<noteq> unat j \<longrightarrow> node (disk e u) k = node (disk e s) k) \<and>
      (ft = FILE_TYPE_DIR \<longrightarrow> dots_only (file_data (disk e s) (unat j)) \<and>
        (\<forall>k. k \<noteq> unat q \<longrightarrow> k \<noteq> unat j \<longrightarrow> inode_used (disk e s) k \<longrightarrow> inode_at (disk e u) k = inode_at (disk e s) k))"
proof -
  let ?d = "disk e s"
  note T = fs_target [OF fs q tg(1)]
  obtain s' where u: "getattr e j s = (Ok (inode_at ?d (unat j)), s')" "album_ok e s'" "disk e s' = ?d" "static s' = static s"
    using getattr_run [OF ok T(1)] by blast
  have w: "writable e s' = writable e s" by (rule writable_static [OF u(4)])
  have at: "fs_ok (disk e s')" "node (disk e s') (unat q) = Some (m', l', vs)" using q fs u(3) by simp_all
  have jd: "dir_ok ?d (unat q)" by (rule fs_dir(1) [OF fs q])
  from b have same: "ft = FILE_TYPE_DIR \<longleftrightarrow> jt = FILE_TYPE_DIR" by (auto simp: blocked_def split: if_splits)
  let ?G = "\<lambda>u. album_ok e u \<and> fs_ok (disk e u) \<and> cleared (node ?d) q new (node (disk e u)) \<and>
      (\<exists>ws l''. without_name vs new ws \<and> node (disk e u) (unat q) = Some (m', l'', ws)) \<and>
      (\<forall>k. k \<noteq> unat q \<longrightarrow> k \<noteq> unat j \<longrightarrow> node (disk e u) k = node ?d k) \<and>
      (ft = FILE_TYPE_DIR \<longrightarrow> dots_only (file_data ?d (unat j)) \<and>
        (\<forall>k. k \<noteq> unat q \<longrightarrow> k \<noteq> unat j \<longrightarrow> inode_used ?d k \<longrightarrow> inode_at (disk e u) k = inode_at ?d k))"
  have run: "\<exists>r u. (if is_dir source then rmdir e q new else unlink e q new) s' = (r, u) \<and> r \<noteq> Panic \<and>
      (r = Ok () \<or> \<not> writable e s) \<and> ?G u"
  proof (cases "ft = FILE_TYPE_DIR")
    case True
    have jt: "dir_map vs new = Some (j, FILE_TYPE_DIR)" using tg(1) True same by simp
    have only: "dots_only (file_data ?d (unat j))"
      using b True same T(1) by (auto simp: blocked_def node_def split: if_splits)
    have only': "dots_only (file_data (disk e s') (unat j))" using only u(3) by simp
    have jq: "unat j \<noteq> unat q"
      using dots_onlyD [OF only, of new] fs_dir(3) [OF fs q] tg(1,2) by auto
    have "wp (rmdir e q new) (\<lambda>_. ?G) (\<lambda>_ u. \<not> writable e s' \<and> ?G u) s'"
    proof (rule wp_rmdir_tree [where P = ?G, OF laws u(2) at q(2) tg(3,2) jt only'])
      fix ws and t :: "'a album_scheme"
      assume t: "album_ok e t" "fs_ok (disk e t)" "without_name vs new ws"
        "node (disk e t) = (node (disk e s'))(unat j := None, unat q \<mapsto> (m', saturating_pred l', ws))"
        "\<And>k. k \<noteq> unat j \<Longrightarrow> k \<noteq> unat q \<Longrightarrow> inode_used (disk e s') k \<Longrightarrow> inode_at (disk e t) k = inode_at (disk e s') k"
      have "cleared (node ?d) q new (node (disk e t))"
        unfolding cleared_def using q(1) jt t(3,4) u(3) by auto
      then show "?G t" using t u(3) only by auto
    qed auto
    then show ?thesis using True src w unfolding wp_def by (auto split: prod.splits res.splits)
  next
    case False
    then have jt: "jt \<noteq> FILE_TYPE_DIR" using same by simp
    have jq: "unat j \<noteq> unat q" using T(3) [OF jt] dir_okD(3) [OF jd] by (auto simp: regular_def)
    have "wp (unlink e q new) (\<lambda>_. ?G) (\<lambda>_ u. \<not> writable e s' \<and> ?G u) s'"
    proof (rule wp_unlink_tree [where P = ?G, OF laws u(2) at q(2) tg(3,1) jt])
      fix ws fm fl zs and t :: "'a album_scheme"
      assume t: "album_ok e t" "fs_ok (disk e t)" "without_name vs new ws" "node (disk e s') (unat j) = Some (fm, fl, zs)"
        "node (disk e t) = (node (disk e s'))(unat q \<mapsto> (m', l', ws), unat j := (if fl \<le> 1 then None else Some (fm, fl - 1, zs)))"
      have "cleared (node ?d) q new (node (disk e t))"
        unfolding cleared_def using q(1) tg(1) jt t(3-5) u(3) by auto
      then show "?G t" using t(1-3,5) u(3) False jq by auto
    qed auto
    then show ?thesis using False src w unfolding wp_def by (auto split: prod.splits res.splits)
  qed
  have c: "clear_target e source (Some j) q new s = (if is_dir source then rmdir e q new else unlink e q new) s'"
    using u(1) T(2) src same by (auto simp: clear_target_def bind_def run_simps)
  show ?thesis unfolding c using run by blast
qed


subsection \<open>The contract\<close>

text \<open>What holds of a run of \<open>rename\<close> that was not refused: the target went, then the entry moved.\<close>

definition rename_done :: "ext \<Rightarrow> 'a album_scheme \<Rightarrow> u64 \<Rightarrow> bytes \<Rightarrow> u64 \<Rightarrow> bytes \<Rightarrow> u64 \<Rightarrow> u8 \<Rightarrow>
    'a album_scheme \<Rightarrow> (unit, fs_error) res \<Rightarrow> 'a album_scheme \<Rightarrow> bool" where
  "rename_done e s p name q new i ft u r t \<longleftrightarrow>
     album_ok e u \<and> fs_ok (disk e u) \<and> cleared (node (disk e s)) q new (node (disk e u)) \<and>
     (r = Ok () \<and> durable e t \<and> fs_ok (disk e t) \<and>
        moved (node (disk e u)) p name q new i (if ft = FILE_TYPE_DIR then FILE_TYPE_DIR else FILE_TYPE_FILE) (node (disk e t)) \<or>
      r \<noteq> Ok () \<and> (\<not> writable e s \<or> \<not> writable e u \<or> cramped 2 new (unat q) (disk e u)))"

lemma rename_run:
  fixes s :: "'a album_scheme"
  assumes laws: "codec_laws e" "jpeg_returns e" and ok: "album_ok e s" and fs: "fs_ok (disk e s)"
    and p: "node (disk e s) (unat p) = Some (m, l, xs)" "m AND S_IFMT = S_IFDIR"
    and q: "node (disk e s) (unat q) = Some (m', l', vs)" "m' AND S_IFMT = S_IFDIR"
    and names: "name \<notin> dots" "new \<notin> dots" "utf8_valid new"
    and td: "tidy_dir xs" "tidy_dir vs" "p = q \<longrightarrow> packed xs \<and> (dir_map vs new \<noteq> None \<longrightarrow> length xs = UB)"
    and name: "dir_map xs name = Some (i, ft)" and ne: "i \<noteq> p" "i \<noteq> q" and pq: "\<not> (p = q \<and> name = new)"
  shows "\<exists>r t. rename_entry e p name q new s = (r, t) \<and> r \<noteq> Panic \<and> album_ok e t \<and>
    (case blocked (node (disk e s)) i ft (dir_map vs new) of
       Some v \<Rightarrow> r = v \<and> disk e t = disk e s
     | None \<Rightarrow> \<exists>u. rename_done e s p name q new i ft u r t)"
proof -
  let ?d = "disk e s"
  let ?src = "inode_at ?d (unat i)"
  obtain a where a: "album_ok e a" "disk e a = ?d" "static a = static s"
    and run: "rename_entry e p name q new s = (if map_option fst (dir_map vs new) = Some i then (Ok (), a)
         else bind (clear_target e ?src (map_option fst (dir_map vs new)) q new) (\<lambda>_.
           bind (move_data e i ?src p name q new) (\<lambda>_. sync e)) a)"
    using rename_found [OF ok fs p q pq name] by blast
  have src: "is_dir ?src \<longleftrightarrow> ft = FILE_TYPE_DIR" using fs_target(2) [OF fs p name] by simp
  have fa: "fs_ok (disk e a)" and na: "node (disk e a) = node ?d" and wa: "writable e a = writable e s"
    using a fs writable_static by simp_all
  show ?thesis
  proof (cases "dir_map vs new")
    case None
    have pa: "node (disk e a) (unat p) = Some (m, l, xs)" "node (disk e a) (unat q) = Some (m', l', vs)" using p q na by simp_all
    have "\<exists>r u. bind (move_data e i ?src p name q new) (\<lambda>_. sync e) a = (r, u) \<and> r \<noteq> Panic \<and> album_ok e u \<and>
      (r = Ok () \<and> durable e u \<and> fs_ok (disk e u) \<and>
         moved (node (disk e a)) p name q new i (if ft = FILE_TYPE_DIR then FILE_TYPE_DIR else FILE_TYPE_FILE) (node (disk e u)) \<or>
       r \<noteq> Ok () \<and> (\<not> writable e a \<or> cramped 2 new (unat q) (disk e a)))"
      by (rule wp_move [OF laws a(1) fa pa(1) p(2) pa(2) q(2) name names(1) None names(3) td(1)])
        (use td(3) ne src a(2) in simp_all)
    then obtain r u where u: "bind (move_data e i ?src p name q new) (\<lambda>_. sync e) a = (r, u)" "r \<noteq> Panic" "album_ok e u"
      "r = Ok () \<and> durable e u \<and> fs_ok (disk e u) \<and>
         moved (node (disk e a)) p name q new i (if ft = FILE_TYPE_DIR then FILE_TYPE_DIR else FILE_TYPE_FILE) (node (disk e u)) \<or>
       r \<noteq> Ok () \<and> (\<not> writable e a \<or> cramped 2 new (unat q) (disk e a))" by blast
    have "cleared (node ?d) q new (node (disk e a))" unfolding cleared_def using q(1) None na by simp
    then have "rename_done e s p name q new i ft a r u" unfolding rename_done_def using u(4) a(1) fa wa by blast
    moreover have "rename_entry e p name q new s = (r, u)" using run None u(1) by (simp add: clear_target_def bind_ret)
    ultimately show ?thesis using u(2,3) None by (auto simp: blocked_def)
  next
    case (Some x)
    obtain j jt where x: "x = (j, jt)" by (cases x)
    note tg = Some [unfolded x]
    show ?thesis
    proof (cases "blocked (node ?d) i ft (dir_map vs new)")
      case (Some v)
      then show ?thesis
      proof (cases "j = i")
        case True
        then show ?thesis using run tg a Some by (auto simp: blocked_def)
      next
        case False
        have bl: "blocked (node (disk e a)) i ft (Some (j, jt)) = Some v" using Some tg na by simp
        have qa: "node (disk e a) (unat q) = Some (m', l', vs)" using q na by simp
        obtain u y where "v = Err y" "clear_target e ?src (Some j) q new a = (v, u)" "album_ok e u" "disk e u = ?d"
          using clear_refused [OF a(1) fa qa q(2) tg src bl False] a(2) by auto
        then show ?thesis using run tg False Some by (simp add: bind_def)
      qed
    next
      case None
      have bl: "blocked (node (disk e a)) i ft (Some (j, jt)) = None" using None tg na by simp
      have ji: "j \<noteq> i" using bl by (auto simp: blocked_def)
      have qa: "node (disk e a) (unat q) = Some (m', l', vs)" using q na by simp
      obtain r u ws l'' where c: "clear_target e ?src (Some j) q new a = (r, u)" "r \<noteq> Panic" "album_ok e u" "fs_ok (disk e u)"
        "r = Ok () \<or> \<not> writable e a" "cleared (node ?d) q new (node (disk e u))" "without_name vs new ws"
        "node (disk e u) (unat q) = Some (m', l'', ws)"
        "\<forall>k. k \<noteq> unat q \<longrightarrow> k \<noteq> unat j \<longrightarrow> node (disk e u) k = node ?d k"
        "ft = FILE_TYPE_DIR \<longrightarrow> dots_only (file_data ?d (unat j)) \<and>
          (\<forall>k. k \<noteq> unat q \<longrightarrow> k \<noteq> unat j \<longrightarrow> inode_used ?d k \<longrightarrow> inode_at (disk e u) k = inode_at ?d k)"
        using clear_target_run [OF laws a(1) fa qa q(2) tg names(2) td(2) src bl] a(2) by auto
      show ?thesis
      proof (cases "r = Ok ()")
        case False
        then have "rename_entry e p name q new s = (r, u)" using run tg ji c(1,2) by (cases r) (simp_all add: bind_def)
        moreover have "rename_done e s p name q new i ft u r u" unfolding rename_done_def using c False wa by blast
        ultimately show ?thesis using c(2,3) None by auto
      next
        case True
        define xs1 where "xs1 = (if p = q then ws else xs)"
        have pj: "p \<noteq> q \<Longrightarrow> unat p \<noteq> unat j"
        proof
          assume e: "unat p = unat j"
          have jd: "jt = FILE_TYPE_DIR" using fs_target(2) [OF fs q tg] fs_dir(4) [OF fs p] p(2) e by (simp add: is_dir_def)
          then have "ft = FILE_TYPE_DIR" using bl by (auto simp: blocked_def split: if_splits)
          then have "dots_only xs" using c(10) fs_dir(3) [OF fs p] e by simp
          from dots_onlyD [OF this name] names(1) show False by simp
        qed
        have pu: "node (disk e u) (unat p) = Some (m, if p = q then l'' else l, xs1)"
          using c(8,9) p q pj by (auto simp: xs1_def word_unat_eq_iff)
        have wn: "dir_map ws = (dir_map vs)(new := None)" "length ws = length vs" "tidy_dir ws"
          using c(7) by (simp_all add: without_name_def)
        have xv: "p = q \<Longrightarrow> xs = vs" using p q by simp
        have n1: "dir_map xs1 name = Some (i, ft)" using name wn(1) xv pq by (auto simp: xs1_def)
        have t1: "tidy_dir xs1" using td(1) wn(3) by (simp add: xs1_def)
        have k1: "packed xs1" if "p = q"
        proof -
          have "dir_bytes_ok q ws" by (rule fs_dir(6) [OF c(4,8) q(2)])
          then show ?thesis using packed_one_block td(3) [THEN mp, OF that] tg wn(2) xv [OF that] that by (simp add: xs1_def)
        qed
        have sr: "ft = FILE_TYPE_DIR \<Longrightarrow> ?src = inode_at (disk e u) (unat i)"
          using c(10) ne(2) ji fs_target(1) [OF fs p name] by (simp add: word_unat_eq_iff)
        have "\<exists>r t. bind (move_data e i ?src p name q new) (\<lambda>_. sync e) u = (r, t) \<and> r \<noteq> Panic \<and> album_ok e t \<and>
          (r = Ok () \<and> durable e t \<and> fs_ok (disk e t) \<and>
             moved (node (disk e u)) p name q new i (if ft = FILE_TYPE_DIR then FILE_TYPE_DIR else FILE_TYPE_FILE) (node (disk e t)) \<or>
           r \<noteq> Ok () \<and> (\<not> writable e u \<or> cramped 2 new (unat q) (disk e u)))"
          by (rule wp_move [OF laws c(3,4) pu p(2) c(8) q(2) n1 names(1) _ names(3) t1 k1 _ src sr]) (use wn(1) ne in simp_all)
        then obtain v t where t: "bind (move_data e i ?src p name q new) (\<lambda>_. sync e) u = (v, t)" "v \<noteq> Panic" "album_ok e t"
          "v = Ok () \<and> durable e t \<and> fs_ok (disk e t) \<and>
             moved (node (disk e u)) p name q new i (if ft = FILE_TYPE_DIR then FILE_TYPE_DIR else FILE_TYPE_FILE) (node (disk e t)) \<or>
           v \<noteq> Ok () \<and> (\<not> writable e u \<or> cramped 2 new (unat q) (disk e u))" by blast
        have "rename_done e s p name q new i ft u v t" unfolding rename_done_def using t(4) c(3,4,6) by blast
        moreover have "rename_entry e p name q new s = (v, t)" using run tg ji c(1) True t(1) by (simp add: bind_def [of "clear_target _ _ _ _ _"])
        ultimately show ?thesis using t(2,3) None by auto
      qed
    qed
  qed
qed

text \<open>
  The names a rename takes from the kernel, which resolves them first: neither is \<open>.\<close> or \<open>..\<close>, the new one
  is UTF-8, and the entry is not one of the parents. The directories must be such that removal is exact; a
  rename inside one directory of more than one block asks also that it has no free record and no entry
  under the new name, so that it stays so after the first step.
\<close>

definition rename_guard :: "disk \<Rightarrow> u64 \<Rightarrow> bytes \<Rightarrow> u64 \<Rightarrow> bytes \<Rightarrow> bool" where
  "rename_guard d p name q new \<longleftrightarrow> name \<notin> dots \<and> new \<notin> dots \<and> utf8_valid new \<and>
     removable (file_data d (unat p)) \<and> removable (file_data d (unat q)) \<and>
     (p = q \<longrightarrow> UB < length (file_data d (unat p)) \<longrightarrow> packed (file_data d (unat p)) \<and> names d (unat p) new = None) \<and>
     (case names d (unat p) name of None \<Rightarrow> True | Some (i, _) \<Rightarrow> i \<noteq> p \<and> i \<noteq> q)"

lemma rename_guardD:
  assumes fs: "fs_ok d"
    and p: "node d (unat p) = Some (m, l, xs)" "m AND S_IFMT = S_IFDIR"
    and q: "node d (unat q) = Some (m', l', vs)" "m' AND S_IFMT = S_IFDIR"
    and name: "dir_map xs name = Some (i, ft)" and g: "rename_guard d p name q new"
  shows "name \<notin> dots" "new \<notin> dots" "utf8_valid new" "tidy_dir xs" "tidy_dir vs"
    "p = q \<longrightarrow> packed xs \<and> (dir_map vs new \<noteq> None \<longrightarrow> length xs = UB)" "i \<noteq> p" "i \<noteq> q"
proof -
  note P = fs_dir [OF fs p] and K = fs_dir [OF fs q]
  have g': "name \<notin> dots" "new \<notin> dots" "utf8_valid new" "removable xs" "removable vs"
    "p = q \<Longrightarrow> UB < length xs \<Longrightarrow> packed xs \<and> dir_map xs new = None" "i \<noteq> p" "i \<noteq> q"
    using g P(2,3) K(3) name by (auto simp: rename_guard_def)
  show "name \<notin> dots" "new \<notin> dots" "utf8_valid new" "i \<noteq> p" "i \<noteq> q" by (rule g')+
  show "tidy_dir xs" "tidy_dir vs" by (rule removable_tidy [OF P(6) g'(4)], rule removable_tidy [OF K(6) g'(5)])
  show "p = q \<longrightarrow> packed xs \<and> (dir_map vs new \<noteq> None \<longrightarrow> length xs = UB)"
  proof
    assume pq: "p = q"
    then have "vs = xs" using p q by simp
    then show "packed xs \<and> (dir_map vs new \<noteq> None \<longrightarrow> length xs = UB)"
      using g'(6) [OF pq] one_block [OF P(6)] packed_one_block [OF P(6)] by (cases "UB < length xs") auto
  qed
qed

lemma rename_kept:
  fixes s :: "'a album_scheme"
  assumes laws: "codec_laws e" "jpeg_returns e" and ok: "album_ok e s" and fs: "fs_ok (disk e s)"
    and g: "rename_guard (disk e s) p name q new" and run: "rename_entry e p name q new s = (Ok (), t)"
  shows "album_ok e t \<and> fs_ok (disk e t)"
proof (cases "p = q \<and> name = new")
  case True
  then show ?thesis using run ok fs by (simp add: rename_split run_simps)
next
  case False
  note R = run [unfolded rename_split if_not_P [OF False]]
  obtain r u where lp: "lookup e p name s = (Ok r, u)" using bind_OkD [OF R] by blast
  obtain m l xs where p: "node (disk e s) (unat p) = Some (m, l, xs)" "m AND S_IFMT = S_IFDIR"
    by (rule lookup_Ok_dir [OF ok fs lp]) (rule that)
  note P = fs_dir [OF fs p]
  obtain i ft where name: "dir_map xs name = Some (i, ft)"
    using rename_source(1) [OF ok fs p False] run by (cases "dir_map xs name") auto
  obtain b where b: "album_ok e b" "disk e b = disk e s"
    "rename_entry e p name q new s = bind (lookup e q new) (\<lambda>existing.
        if existing = Some i then ret ()
        else bind (clear_target e (inode_at (disk e s) (unat i)) existing q new) (\<lambda>_.
          bind (move_data e i (inode_at (disk e s) (unat i)) p name q new) (\<lambda>_. sync e))) b"
    using rename_source(2) [OF ok fs p False name] by blast
  obtain r u where lk: "lookup e q new b = (Ok r, u)" using bind_OkD [OF run [unfolded b(3)]] by blast
  have fb: "fs_ok (disk e b)" using fs b(2) by simp
  obtain m' l' vs where q: "node (disk e s) (unat q) = Some (m', l', vs)" "m' AND S_IFMT = S_IFDIR"
    by (rule lookup_Ok_dir [OF b(1) fb lk]) (use b(2) in \<open>auto intro: that\<close>)
  note K = fs_dir [OF fs q]
  note G = rename_guardD [OF fs p q name g]
  from rename_run [OF laws ok fs p q G(1-6) name G(7,8) False] obtain r u
    where u: "rename_entry e p name q new s = (r, u)" "r \<noteq> Panic" "album_ok e u"
    "case blocked (node (disk e s)) i ft (dir_map vs new) of
       Some v \<Rightarrow> r = v \<and> disk e u = disk e s
     | None \<Rightarrow> \<exists>x. rename_done e s p name q new i ft x r u"
    by (elim exE conjE)
  then show ?thesis using run fs by (auto simp: rename_done_def split: option.splits)
qed

text \<open>C10: Renaming moves one entry: it goes from the old directory to the new one under the new name, the
  file it leads to keeps its number, mode, links and contents, except that the \<open>..\<close> of a directory that
  changes its parent is the new parent, and the two parents' link counts follow. What stood under the new
  name is removed first, as \<open>unlink\<close> or \<open>rmdir\<close> would. The tree stays intact and a success is durable. A
  missing name is \<open>NotFound\<close>, a directory over a file \<open>NotDir\<close>, a file over a directory \<open>IsDir\<close>, a directory
  over one with entries \<open>NotEmpty\<close>, all with nothing changed; renaming to another name of the same file does
  nothing. Any other error means that there was no room for the entry or that the carriers cannot be
  written back.

  The call must satisfy \<open>rename_guard\<close>. Of the names: neither is \<open>.\<close> or \<open>..\<close>, the new one is UTF-8, and the
  entry is not one of the two parents. Of the parents: each is \<open>removable\<close> (one block, or no free record
  after a live one in any block), and a rename inside one directory of more than one block finds no free
  record in it and no entry under the new name.\<close>

theorem rename_refines:
  fixes s :: "'a album_scheme"
  assumes laws: "codec_laws e" "jpeg_returns e" and ok: "album_ok e s" and fs: "fs_ok (disk e s)"
    and p: "node (disk e s) (unat p) = Some (m, l, xs)" "m AND S_IFMT = S_IFDIR"
    and q: "node (disk e s) (unat q) = Some (m', l', vs)" "m' AND S_IFMT = S_IFDIR"
    and g: "rename_guard (disk e s) p name q new"
  shows "\<exists>r t. rename_entry e p name q new s = (r, t) \<and> r \<noteq> Panic \<and> album_ok e t \<and>
    (if p = q \<and> name = new then r = Ok () \<and> t = s
     else case dir_map xs name of
       None \<Rightarrow> r = Err NotFound \<and> disk e t = disk e s
     | Some (i, ft) \<Rightarrow>
         (case blocked (node (disk e s)) i ft (dir_map vs new) of
            Some v \<Rightarrow> r = v \<and> disk e t = disk e s
          | None \<Rightarrow> \<exists>u. rename_done e s p name q new i ft u r t))"
proof (cases "p = q \<and> name = new")
  case True
  then show ?thesis using ok by (simp add: rename_split run_simps)
next
  case False
  note P = fs_dir [OF fs p] and K = fs_dir [OF fs q]
  show ?thesis
  proof (cases "dir_map xs name")
    case None
    then show ?thesis using rename_source(1) [OF ok fs p False None] False by auto
  next
    case (Some x)
    obtain i ft where x: "x = (i, ft)" by (cases x)
    note name = Some [unfolded x]
    note G = rename_guardD [OF fs p q name g]
    from rename_run [OF laws ok fs p q G(1-6) name G(7,8) False] show ?thesis
      unfolding if_not_P [OF False] name option.case prod.case .
  qed
qed

end
