(* ===== verification/FsKeep.thy ===== *)
theory FsKeep
  imports RenameSpec
begin

text \<open>
  What each operation leaves of an intact album, whatever it returns. The operations that only read, and
  \<open>truncate\<close>, \<open>unlink\<close>, \<open>rmdir\<close> and \<open>sync\<close>, leave it intact when they fail as well (\<open>intact\<close>);
  \<open>write\<close>, \<open>create\<close>, \<open>mkdir\<close> and \<open>rename\<close> can fail half-way for lack of space, and then only the
  store, the bitmap and the inode table are known to be sound (\<open>returns\<close>).
\<close>

definition fs_inv :: "ext \<Rightarrow> album \<Rightarrow> bool" where
  "fs_inv e s \<longleftrightarrow> codec_laws e \<and> jpeg_returns e \<and> album_ok e s \<and> fs_ok (disk e s)"

text \<open>The tree of names depends on the directories and on which files there are.\<close>

lemma names_ok_cong:
  assumes d: "\<And>n xs. dir_node N' n xs \<longleftrightarrow> dir_node N n xs" and n: "\<And>n. N' n = None \<longleftrightarrow> N n = None"
  shows "names_ok N' \<longleftrightarrow> names_ok N"
  unfolding names_ok_def entry_in_def d n ..

lemma file_fs_ok:
  assumes fs: "fs_ok d" and r: "regular d n" "inode_used d n" and c: "changed xs n d d'"
  shows "fs_ok d'"
proof -
  have v: "volume_ok d" "names_ok (node d)" using fs by (simp_all add: fs_ok_def)
  note N = changed_node [OF v(1) r(2) c]
  have nd: "\<not> i_mode (inode_at d n) AND S_IFMT = S_IFDIR" using r(1) by (simp add: regular_def is_dir_def)
  have "names_ok (node d') \<longleftrightarrow> names_ok (node d)"
  proof (rule names_ok_cong)
    show "dir_node (node d') k ys \<longleftrightarrow> dir_node (node d) k ys" for k ys
      unfolding N dir_node_def using nd by (auto simp: node_def)
    show "node d' k = None \<longleftrightarrow> node d k = None" for k unfolding N using r(2) by (simp add: node_def)
  qed
  with v(2) changed_volume [OF v(1) r(2) c] show ?thesis by (simp add: fs_ok_def)
qed

text \<open>An operation that starts with \<open>getattr\<close> and refuses directories.\<close>

lemma getattr_Ok:
  fixes s :: album
  assumes ok: "album_ok e s" and r: "getattr e i s = (Ok inode, t)"
  shows "inode_used (disk e s) (unat i)" "inode = inode_at (disk e s) (unat i)" "album_ok e t" "disk e t = disk e s"
proof -
  show u: "inode_used (disk e s) (unat i)" using getattr_unused [OF ok, of i] r by (metis prod.inject res.distinct(1))
  have "wp (getattr e i) (\<lambda>r t. r = inode_at (disk e s) (unat i) \<and> album_ok e t \<and> disk e t = disk e s) no_err s"
    by (rule wp_getattr [OF ok]) (use u in \<open>simp_all add: inode_used_def\<close>)
  from wp_Ok_run [OF this] r
  show "inode = inode_at (disk e s) (unat i)" "album_ok e t" "disk e t = disk e s" by auto
qed

lemma file_guard:
  fixes s :: album
  assumes ok: "album_ok e s"
    and r: "bind (getattr e i) (\<lambda>inode. if is_dir inode then raise IsDir else f inode) s = (Ok y, t)"
  shows "inode_used (disk e s) (unat i) \<and> regular (disk e s) (unat i)"
proof -
  obtain inode u where u: "getattr e i s = (Ok inode, u)" using bind_OkD [OF r] by blast
  note G = getattr_Ok [OF ok u]
  have "\<not> is_dir inode" using r u by (auto simp: bind_def run_simps split: if_splits)
  then show ?thesis using G(1,2) by (simp add: regular_def inode_used_def)
qed

lemma dir_guard:
  fixes s :: album
  assumes "album_ok e s" "fs_ok (disk e s)" "bind (lookup e p name) f s = (Ok y, t)"
  obtains m l xs where "node (disk e s) (unat p) = Some (m, l, xs)" "m AND S_IFMT = S_IFDIR"
proof -
  from bind_OkD [OF assms(3)] obtain r u where l: "lookup e p name s = (Ok r, u)" by blast
  show thesis by (rule lookup_Ok_dir [OF assms(1,2) l]) (rule that)
qed

lemma create_file_kept:
  assumes inv: "fs_inv e s" and run: "create_file e p name mode s = (Ok i, t)" and g: "utf8_valid name"
  shows "fs_inv e t"
proof -
  have laws: "codec_laws e" "jpeg_returns e" and ok: "album_ok e s" and fs: "fs_ok (disk e s)"
    using inv by (simp_all add: fs_inv_def)
  obtain m l xs where n: "node (disk e s) (unat p) = Some (m, l, xs)" "m AND S_IFMT = S_IFDIR"
    by (rule dir_guard [OF ok fs run [unfolded create_file_def]])
  have v: "volume_ok (disk e s)" using fs by (simp add: fs_ok_def)
  have "album_ok e t \<and> fs_ok (disk e t)"
    by (rule wp_OkD [OF wp_create_file [OF laws ok v fs_dir(1) [OF fs n] g, unfolded fs_dir(2) [OF fs n]] run])
      (use added_file_ok [OF fs n] in blast)+
  with laws show ?thesis by (simp add: fs_inv_def)
qed

lemma mkdir_kept:
  assumes inv: "fs_inv e s" and run: "mkdir e p name mode s = (Ok i, t)" and g: "utf8_valid name"
  shows "fs_inv e t"
proof -
  have laws: "codec_laws e" "jpeg_returns e" and ok: "album_ok e s" and fs: "fs_ok (disk e s)"
    using inv by (simp_all add: fs_inv_def)
  obtain m l xs where n: "node (disk e s) (unat p) = Some (m, l, xs)" "m AND S_IFMT = S_IFDIR"
    by (rule dir_guard [OF ok fs run [unfolded mkdir_def]])
  have v: "volume_ok (disk e s)" using fs by (simp add: fs_ok_def)
  have "album_ok e t \<and> fs_ok (disk e t)"
    by (rule wp_OkD [OF wp_mkdir [OF laws ok v fs_dir(1) [OF fs n] g, unfolded fs_dir(2) [OF fs n]] run])
      (use added_dir_ok [OF fs n] in blast)+
  with laws show ?thesis by (simp add: fs_inv_def)
qed

subsection \<open>Runs on an intact album\<close>

text \<open>The kind of the file an operation is asked about.\<close>

lemma file_kinds:
  assumes fs: "fs_ok d"
  obtains "node d n = None" "\<not> inode_used d n"
  | m l xs where "node d n = Some (m, l, xs)" "m AND S_IFMT = S_IFDIR" "inode_used d n" "is_dir (inode_at d n)"
  | m l xs where "node d n = Some (m, l, xs)" "m AND S_IFMT \<noteq> S_IFDIR" "inode_used d n" "regular d n"
proof (cases "node d n")
  case None
  then show thesis using that(1) by (simp add: node_def split: if_splits)
next
  case (Some f)
  then obtain m l xs where f: "node d n = Some (m, l, xs)" by (cases f) auto
  note N = node_SomeD [OF f]
  have u: "inode_used d n" using f by (simp add: node_def split: if_splits)
  show thesis
  proof (cases "m AND S_IFMT = S_IFDIR")
    case True
    with that(2) [OF f _ u] N show thesis by (simp add: is_dir_def)
  next
    case False
    with that(3) [OF f _ u] N u show thesis by (simp add: is_dir_def regular_def inode_used_def)
  qed
qed

lemma getattr_returns:
  assumes ok: "album_ok e s" and fs: "fs_ok (disk e s)"
  shows "\<exists>r t. getattr e i s = (r, t) \<and> r \<noteq> Panic \<and> album_ok e t \<and> disk e t = disk e s \<and>
    (r = Ok (inode_at (disk e s) (unat i)) \<and> inode_used (disk e s) (unat i) \<or> r = Err NotFound)"
proof (cases "inode_used (disk e s) (unat i)")
  case True
  with getattr_run [OF ok this] show ?thesis by blast
next
  case False
  with getattr_unused [OF ok this] show ?thesis by blast
qed

text \<open>An operation returns a value or an error on an intact album and leaves a sound store.\<close>

definition returns :: "ext \<Rightarrow> (album, 'b, fs_error) prog \<Rightarrow> album \<Rightarrow> bool" where
  "returns e m s \<longleftrightarrow> wp m (\<lambda>_ _. True) (\<lambda>_ t. album_ok e t) s"

lemma returnsI: "m s = (r, t) \<Longrightarrow> album_ok e t \<Longrightarrow> r \<noteq> Panic \<Longrightarrow> returns e m s"
  by (cases r) (simp_all add: returns_def wp_def)

lemma returns_wp: "wp m Q E s \<Longrightarrow> (\<And>x t. E x t \<Longrightarrow> album_ok e t) \<Longrightarrow> returns e m s"
  unfolding returns_def by (erule wp_conseq) simp_all

text \<open>Bound to an operation that only reads.\<close>

lemma returns_read_Err: "m s = (Err x, t) \<Longrightarrow> album_ok e t \<Longrightarrow> returns e (bind m f) s"
  by (simp add: returns_def wp_def bind_def)

lemma returns_read_Ok: "m s = (Ok x, t) \<Longrightarrow> returns e (f x) t \<Longrightarrow> returns e (bind m f) s"
  by (simp add: returns_def wp_def bind_def)

text \<open>An operation that refuses directories, on files.\<close>

lemma returns_file:
  assumes ok: "album_ok e s" and fs: "fs_ok (disk e s)"
    and m: "m = bind (getattr e i) (\<lambda>inode. if is_dir inode then raise IsDir else f inode)"
    and fl: "inode_used (disk e s) (unat i) \<Longrightarrow> regular (disk e s) (unat i) \<Longrightarrow> returns e m s"
  shows "returns e m s"
proof (cases rule: file_kinds [OF fs, of "unat i"])
  case 1
  then obtain t where "getattr e i s = (Err NotFound, t)" "album_ok e t" using getattr_unused [OF ok, of i] by blast
  then show ?thesis unfolding m by (rule returns_read_Err)
next
  case (2 m' l xs)
  then obtain t where "getattr e i s = (Ok (inode_at (disk e s) (unat i)), t)" "album_ok e t" using getattr_run [OF ok, of i] by blast
  with 2(4) show ?thesis unfolding m by (auto intro: returnsI simp: bind_def run_simps)
qed (use fl in blast)

text \<open>An operation that starts with a lookup.\<close>

lemma returns_dir:
  assumes ok: "album_ok e s" and fs: "fs_ok (disk e s)"
    and m: "m = bind (lookup e p name) f"
    and dir: "\<And>mo l xs. node (disk e s) (unat p) = Some (mo, l, xs) \<Longrightarrow> mo AND S_IFMT = S_IFDIR \<Longrightarrow> returns e m s"
  shows "returns e m s"
proof -
  obtain r t where r: "lookup e p name s = (r, t)" "album_ok e t"
    "r = (case node (disk e s) (unat p) of None \<Rightarrow> Err NotFound
      | Some (m, l, xs) \<Rightarrow> if m AND S_IFMT = S_IFDIR then Ok (map_option fst (dir_map xs name)) else Err NotDir)"
    using lookup_run(1) [OF ok fs, of p name] by blast
  show ?thesis
  proof (cases r)
    case (Ok x)
    then show ?thesis using r(3) dir by (auto split: option.splits if_splits)
  next
    case (Err x)
    show ?thesis unfolding m by (rule returns_read_Err [where m = "lookup e p name", OF r(1) [unfolded Err] r(2)])
  next
    case Panic
    then show ?thesis using r(3) by (auto split: option.splits if_splits)
  qed
qed


text \<open>An operation that leaves the album intact, whatever it returns.\<close>

definition intact :: "ext \<Rightarrow> (album, 'b, fs_error) prog \<Rightarrow> album \<Rightarrow> bool" where
  "intact e m s \<longleftrightarrow> wp m (\<lambda>_. fs_inv e) (\<lambda>_. fs_inv e) s"

lemma intactI:
  assumes "fs_inv e s" "m s = (r, t)" "r \<noteq> Panic" "album_ok e t" "disk e t = disk e s"
  shows "intact e m s"
  using assms by (cases r) (simp_all add: intact_def wp_def fs_inv_def)

lemma intactD: "intact e m s \<Longrightarrow> m s = (r, t) \<Longrightarrow> fs_inv e t"
  unfolding intact_def wp_def by (cases r) simp_all

lemma intact_returns: "intact e m s \<Longrightarrow> returns e m s"
  unfolding intact_def by (erule returns_wp) (simp add: fs_inv_def)

lemma intact_file:
  assumes inv: "fs_inv e s"
    and m: "m = bind (getattr e i) (\<lambda>inode. if is_dir inode then raise IsDir else f inode)"
    and fl: "inode_used (disk e s) (unat i) \<Longrightarrow> regular (disk e s) (unat i) \<Longrightarrow> intact e m s"
  shows "intact e m s"
proof -
  have ok: "album_ok e s" and fs: "fs_ok (disk e s)" using inv by (simp_all add: fs_inv_def)
  show ?thesis
  proof (cases rule: file_kinds [OF fs, of "unat i"])
    case 1
    then obtain t where "getattr e i s = (Err NotFound, t)" "album_ok e t" "disk e t = disk e s"
      using getattr_unused [OF ok, of i] by blast
    then show ?thesis unfolding m by (intro intactI [OF inv, where r = "Err NotFound" and t = t]) (simp_all add: bind_def)
  next
    case (2 m' l xs)
    then obtain t where "getattr e i s = (Ok (inode_at (disk e s) (unat i)), t)" "album_ok e t" "disk e t = disk e s"
      using getattr_run [OF ok, of i] by blast
    with 2(4) show ?thesis unfolding m
      by (intro intactI [OF inv, where r = "Err IsDir" and t = t]) (simp_all add: bind_def run_simps)
  qed (use fl in blast)
qed

lemma intact_dir:
  assumes inv: "fs_inv e s" and m: "m = bind (lookup e p name) f"
    and dir: "\<And>mo l xs. node (disk e s) (unat p) = Some (mo, l, xs) \<Longrightarrow> mo AND S_IFMT = S_IFDIR \<Longrightarrow> intact e m s"
  shows "intact e m s"
proof -
  have ok: "album_ok e s" and fs: "fs_ok (disk e s)" using inv by (simp_all add: fs_inv_def)
  obtain r t where r: "lookup e p name s = (r, t)" "album_ok e t" "disk e t = disk e s"
    "r = (case node (disk e s) (unat p) of None \<Rightarrow> Err NotFound
      | Some (m, l, xs) \<Rightarrow> if m AND S_IFMT = S_IFDIR then Ok (map_option fst (dir_map xs name)) else Err NotDir)"
    using lookup_run(1) [OF ok fs, of p name] by blast
  show ?thesis
  proof (cases "\<exists>mo l xs. node (disk e s) (unat p) = Some (mo, l, xs) \<and> mo AND S_IFMT = S_IFDIR")
    case True
    then show ?thesis using dir by blast
  next
    case False
    then obtain x where "r = Err x" using r(4) by (auto split: option.splits)
    then show ?thesis unfolding m using r(1-3)
      by (intro intactI [OF inv, where r = "Err x" and t = t]) (simp_all add: bind_def)
  qed
qed

lemma intact_reads:
  assumes inv: "fs_inv e s"
  shows "intact e (getattr e i) s" "intact e (lookup e p name) s" "intact e (readdir e p) s"
    "intact e (read_file e i offset len) s"
proof -
  have ok: "album_ok e s" and fs: "fs_ok (disk e s)" using inv by (simp_all add: fs_inv_def)
  have v: "volume_ok (disk e s)" using fs by (simp add: fs_ok_def)
  show "intact e (getattr e i) s" using getattr_returns [OF ok fs, of i] intactI [OF inv] by blast
  have np: "(case node (disk e s) (unat p) of None \<Rightarrow> Err NotFound
      | Some (m, l, xs) \<Rightarrow> if m AND S_IFMT = S_IFDIR then Ok (f xs) else Err NotDir) \<noteq> Panic" for f :: "bytes \<Rightarrow> 'b"
    by (simp split: option.split)
  from lookup_run(1) [OF ok fs, of p name] show "intact e (lookup e p name) s"
    by (elim exE conjE) (rule intactI [OF inv, where m = "lookup e p name"], assumption, rule np)
  from lookup_run(2) [OF ok fs, of p] show "intact e (readdir e p) s"
    by (elim exE conjE) (rule intactI [OF inv, where m = "readdir e p"], assumption, rule np)
  show "intact e (read_file e i offset len) s"
  proof (rule intact_file [OF inv read_file_def])
    assume u: "inode_used (disk e s) (unat i)" "regular (disk e s) (unat i)"
    from read_file_run [OF ok volume_okD(1) [OF v u(1)] u(2)]
    show "intact e (read_file e i offset len) s" by (auto intro: intactI [OF inv])
  qed
qed

lemma intact_writes:
  assumes inv: "fs_inv e s"
  shows "n \<le> MAX_BYTES \<Longrightarrow> intact e (truncate_file e i n) s" "intact e (sync e) s"
    "removable (file_data (disk e s) (unat p)) \<Longrightarrow> intact e (unlink e p name) s"
    "removable (file_data (disk e s) (unat p)) \<Longrightarrow> name \<notin> dots \<Longrightarrow> intact e (rmdir e p name) s"
proof -
  have laws: "codec_laws e" "jpeg_returns e" and ok: "album_ok e s" and fs: "fs_ok (disk e s)"
    using inv by (simp_all add: fs_inv_def)
  have v: "volume_ok (disk e s)" using fs by (simp add: fs_ok_def)
  show "intact e (truncate_file e i n) s" if n: "n \<le> MAX_BYTES"
  proof (rule intact_file [OF inv truncate_file_def])
    assume u: "inode_used (disk e s) (unat i)" "regular (disk e s) (unat i)"
    have "fs_inv e t" if "album_ok e t"
      "replaced (resize n (file_data (disk e s) (unat i))) (unat i) (disk e s) (disk e t)" for t :: album
      using file_fs_ok [OF fs u(2,1) replacedD(1) [OF that(2)]] that(1) laws by (simp add: fs_inv_def)
    then show "intact e (truncate_file e i n) s"
      unfolding intact_def by (intro wp_truncate_file [OF laws ok volume_okD(1) [OF v u(1)] u(2) n])
  qed
  show "intact e (sync e) s"
    unfolding intact_def
    by (rule wp_sync [OF laws ok]) (use laws save_bitmap_fs_ok [OF album_ok_disk [OF ok] fs] in \<open>simp_all add: fs_inv_def\<close>)
  show "intact e (unlink e p name) s" if rm: "removable (file_data (disk e s) (unat p))"
  proof (rule intact_dir [OF inv unlink_def])
    fix m l xs assume n: "node (disk e s) (unat p) = Some (m, l, xs)" "m AND S_IFMT = S_IFDIR"
    have td: "tidy_dir xs" using removable_tidy [OF fs_dir(6) [OF fs n]] rm fs_dir(3) [OF fs n] by simp
    show "intact e (unlink e p name) s"
    proof (cases "dir_map xs name")
      case None
      then show ?thesis using unlink_refused(1) [OF ok fs n] by (auto intro: intactI [OF inv])
    next
      case (Some r)
      obtain i t where r: "r = (i, t)" by (cases r)
      show ?thesis
      proof (cases "t = FILE_TYPE_DIR")
        case True
        from unlink_refused(3) [OF ok fs n Some [unfolded r] True] show ?thesis by (auto intro: intactI [OF inv])
      next
        case False
        show ?thesis unfolding intact_def
          by (rule wp_unlink_tree [OF laws ok fs n td Some [unfolded r] False, where P = "fs_inv e"])
            (simp_all add: fs_inv_def laws)
      qed
    qed
  qed
  show "intact e (rmdir e p name) s" if rm: "removable (file_data (disk e s) (unat p))" and nd: "name \<notin> dots"
  proof (rule intact_dir [OF inv rmdir_def])
    fix m l xs assume n: "node (disk e s) (unat p) = Some (m, l, xs)" "m AND S_IFMT = S_IFDIR"
    have td: "tidy_dir xs" using removable_tidy [OF fs_dir(6) [OF fs n]] rm fs_dir(3) [OF fs n] by simp
    show "intact e (rmdir e p name) s"
    proof (cases "dir_map xs name")
      case None
      then show ?thesis using unlink_refused(2) [OF ok fs n] by (auto intro: intactI [OF inv])
    next
      case (Some r)
      obtain i t where r: "r = (i, t)" by (cases r)
      consider "t \<noteq> FILE_TYPE_DIR" | "t = FILE_TYPE_DIR" "dots_only (file_data (disk e s) (unat i))"
        | "t = FILE_TYPE_DIR" "\<not> dots_only (file_data (disk e s) (unat i))" by blast
      then show ?thesis
      proof cases
        case 1
        from unlink_refused(4) [OF ok fs n Some [unfolded r] 1] show ?thesis by (auto intro: intactI [OF inv])
      next
        case 2
        show ?thesis unfolding intact_def
          by (rule wp_rmdir_tree [OF laws ok fs n td nd Some [unfolded r 2(1)] 2(2), where P = "fs_inv e"])
            (simp_all add: fs_inv_def laws)
      next
        case 3
        from rmdir_self [OF ok fs n Some [unfolded r 3(1)] 3(2)] show ?thesis by (auto intro: intactI [OF inv])
      qed
    qed
  qed
qed


subsection \<open>The operations that take space\<close>

lemma write_file_kept:
  assumes inv: "fs_inv e s" and run: "write_file e i offset data s = (Ok n, t)" and g: "data \<noteq> [] \<or> offset \<le> MAX_BYTES"
  shows "fs_inv e t"
proof -
  have laws: "codec_laws e" "jpeg_returns e" and ok: "album_ok e s" and fs: "fs_ok (disk e s)"
    using inv by (simp_all add: fs_inv_def)
  have v: "volume_ok (disk e s)" using fs by (simp add: fs_ok_def)
  have u: "inode_used (disk e s) (unat i) \<and> regular (disk e s) (unat i)"
    by (rule file_guard [OF ok]) (use run in \<open>simp add: write_file_def\<close>)
  note f = volume_okD(1) [OF v conjunct1 [OF u]]
  have rng: "offset + length data \<le> MAX_BYTES"
  proof (rule ccontr)
    assume "\<not> offset + length data \<le> MAX_BYTES"
    then have far: "data \<noteq> []" "MAX_BYTES < offset + length data" using g by auto
    have "wp (write_file e i offset data) (\<lambda>_ _. False) (\<lambda>_ _. True) s"
      by (rule wp_write_file_beyond [OF ok f conjunct2 [OF u] far]) simp
    with run show False by (simp add: wp_def)
  qed
  note W = write_file_Ok [OF laws ok f conjunct2 [OF u] rng run]
  show ?thesis
    using W(2) file_fs_ok [OF fs conjunct2 [OF u] conjunct1 [OF u] replacedD(1) [OF W(4)]] laws by (simp add: fs_inv_def)
qed

lemma returns_creating:
  assumes inv: "fs_inv e s"
  shows "data \<noteq> [] \<or> offset \<le> MAX_BYTES \<Longrightarrow> returns e (write_file e i offset data) s"
    "utf8_valid name \<Longrightarrow> returns e (create_file e p name mode) s"
    "utf8_valid name \<Longrightarrow> returns e (mkdir e p name mode) s"
proof -
  have laws: "codec_laws e" "jpeg_returns e" and ok: "album_ok e s" and fs: "fs_ok (disk e s)"
    using inv by (simp_all add: fs_inv_def)
  have v: "volume_ok (disk e s)" using fs by (simp add: fs_ok_def)
  show "returns e (write_file e i offset data) s" if g: "data \<noteq> [] \<or> offset \<le> MAX_BYTES"
  proof (rule returns_file [OF ok fs write_file_def])
    assume u: "inode_used (disk e s) (unat i)" "regular (disk e s) (unat i)"
    note f = volume_okD(1) [OF v u(1)]
    show "returns e (write_file e i offset data) s"
    proof (cases "offset + length data \<le> MAX_BYTES")
      case True
      show ?thesis unfolding returns_def by (rule wp_write_file [OF laws ok f u(2) True]) simp_all
    next
      case False
      then have far: "data \<noteq> []" "MAX_BYTES < offset + length data" using g by auto
      show ?thesis unfolding returns_def by (rule wp_write_file_beyond [OF ok f u(2) far])
    qed
  qed
  show "returns e (create_file e p name mode) s" if u: "utf8_valid name"
  proof (rule returns_dir [OF ok fs create_file_def])
    fix m l xs assume n: "node (disk e s) (unat p) = Some (m, l, xs)" "m AND S_IFMT = S_IFDIR"
    show "returns e (create_file e p name mode) s"
      unfolding returns_def by (rule wp_create_file [OF laws ok v fs_dir(1) [OF fs n] u]) simp_all
  qed
  show "returns e (mkdir e p name mode) s" if u: "utf8_valid name"
  proof (rule returns_dir [OF ok fs mkdir_def])
    fix m l xs assume n: "node (disk e s) (unat p) = Some (m, l, xs)" "m AND S_IFMT = S_IFDIR"
    show "returns e (mkdir e p name mode) s"
      unfolding returns_def by (rule wp_mkdir [OF laws ok v fs_dir(1) [OF fs n] u]) simp_all
  qed
qed

lemma rename_returns:
  assumes inv: "fs_inv e s" and g: "rename_guard (disk e s) p name q new"
  shows "returns e (rename_entry e p name q new) s"
proof (cases "p = q \<and> name = new")
  case True
  then show ?thesis using inv by (auto intro: returnsI simp: fs_inv_def rename_split run_simps)
next
  case False
  have laws: "codec_laws e" "jpeg_returns e" and ok: "album_ok e s" and fs: "fs_ok (disk e s)"
    using inv by (simp_all add: fs_inv_def)
  show ?thesis
  proof (rule returns_dir [OF ok fs rename_split [of e p name q new, unfolded if_not_P [OF False]]])
    fix m l xs assume p: "node (disk e s) (unat p) = Some (m, l, xs)" "m AND S_IFMT = S_IFDIR"
    note P = fs_dir [OF fs p]
    show "returns e (rename_entry e p name q new) s"
    proof (cases "dir_map xs name")
      case None
      from rename_source(1) [OF ok fs p False this] show ?thesis by (auto intro: returnsI)
    next
      case (Some r)
      obtain i ft where r: "dir_map xs name = Some (i, ft)" using Some by (cases r) auto
      let ?f = "\<lambda>existing. if existing = Some i then ret ()
          else bind (clear_target e (inode_at (disk e s) (unat i)) existing q new) (\<lambda>_.
            bind (move_data e i (inode_at (disk e s) (unat i)) p name q new) (\<lambda>_. sync e))"
      obtain b where b: "album_ok e b" "disk e b = disk e s"
        "rename_entry e p name q new s = bind (lookup e q new) ?f b"
        using rename_source(2) [OF ok fs p False r] by blast
      have eq: "returns e (rename_entry e p name q new) s \<longleftrightarrow> returns e (bind (lookup e q new) ?f) b"
        by (simp add: returns_def wp_def b(3))
      show ?thesis unfolding eq
      proof (rule returns_dir [OF b(1) _ refl])
        show "fs_ok (disk e b)" using fs b(2) by simp
        fix m' l' vs assume "node (disk e b) (unat q) = Some (m', l', vs)" and qd: "m' AND S_IFMT = S_IFDIR"
        then have q: "node (disk e s) (unat q) = Some (m', l', vs)" by (simp add: b(2))
        note K = fs_dir [OF fs q qd]
        show "returns e (bind (lookup e q new) ?f) b" unfolding eq [symmetric]
          using rename_run [OF laws ok fs p q qd rename_guardD(1-6) [OF fs p q qd r g] r rename_guardD(7,8) [OF fs p q qd r g] False]
          by (auto intro: returnsI)
      qed
    qed
  qed
qed

end
