(* ===== verification/FsReach.thy ===== *)
theory FsReach
  imports FsKeep
begin

text \<open>
  The states of an open album: the steps are its operations, closing and opening again after a durable one
  among them. The album stays intact and so does the tree of names.
\<close>

subsection \<open>An invariant of a step relation\<close>

locale kept =
  fixes step :: "'s \<Rightarrow> 's \<Rightarrow> bool" and inv :: "'s \<Rightarrow> bool"
  assumes keep: "step s t \<Longrightarrow> inv s \<Longrightarrow> inv t"
begin

lemma reached: "step\<^sup>*\<^sup>* s t \<Longrightarrow> inv s \<Longrightarrow> inv t"
  by (induction rule: rtranclp_induct) (simp_all add: keep)

end

subsection \<open>The steps\<close>

text \<open>
  A step is a call with whatever it returned: for \<open>write\<close>, \<open>create\<close>, \<open>mkdir\<close> and \<open>rename\<close> a value, or an
  error that left the disk as it was (\<open>settled\<close>), for all others any value and any error. The calls are
  those in the range of the theorems: truncation to sizes the block tree can hold, no write of no bytes
  past them (it would only record the size), new names that are UTF-8 (as every \<^verbatim>\<open>&str\<close> is), removals from \<open>removable\<close> directories and of names other than \<open>.\<close> and \<open>..\<close>, renames under
  \<open>rename_guard\<close>.
\<close>

definition settled :: "ext \<Rightarrow> album \<Rightarrow> ('b, fs_error) res \<Rightarrow> album \<Rightarrow> bool" where
  "settled e s r t \<longleftrightarrow> (\<exists>x. r = Ok x) \<or> disk e t = disk e s"

inductive fs_step :: "ext \<Rightarrow> album \<Rightarrow> album \<Rightarrow> bool" for e where
  step_getattr: "getattr e i s = (r, t) \<Longrightarrow> fs_step e s t"
| step_lookup: "lookup e p name s = (r, t) \<Longrightarrow> fs_step e s t"
| step_readdir: "readdir e p s = (r, t) \<Longrightarrow> fs_step e s t"
| step_read: "read_file e i offset len s = (r, t) \<Longrightarrow> fs_step e s t"
| step_write: "write_file e i offset data s = (r, t) \<Longrightarrow> settled e s r t \<Longrightarrow> data \<noteq> [] \<or> offset \<le> MAX_BYTES \<Longrightarrow> fs_step e s t"
| step_truncate: "truncate_file e i n s = (r, t) \<Longrightarrow> n \<le> MAX_BYTES \<Longrightarrow> fs_step e s t"
| step_create: "create_file e p name mode s = (r, t) \<Longrightarrow> settled e s r t \<Longrightarrow> utf8_valid name \<Longrightarrow> fs_step e s t"
| step_mkdir: "mkdir e p name mode s = (r, t) \<Longrightarrow> settled e s r t \<Longrightarrow> utf8_valid name \<Longrightarrow> fs_step e s t"
| step_unlink: "unlink e p name s = (r, t) \<Longrightarrow> removable (file_data (disk e s) (unat p)) \<Longrightarrow> fs_step e s t"
| step_rmdir: "rmdir e p name s = (r, t) \<Longrightarrow> removable (file_data (disk e s) (unat p)) \<Longrightarrow> name \<notin> dots \<Longrightarrow> fs_step e s t"
| step_rename: "rename_entry e p name q new s = (r, t) \<Longrightarrow> settled e s r t \<Longrightarrow> rename_guard (disk e s) p name q new \<Longrightarrow> fs_step e s t"
| step_sync: "sync e s = (r, t) \<Longrightarrow> fs_step e s t"
| step_reopen: "durable e s \<Longrightarrow> album_open_store e (Ok (al_sb s, closed s)) = Ok t \<Longrightarrow> fs_step e s t"

lemma settled_kept:
  assumes inv: "fs_inv e s" and m: "returns e m s" and run: "m s = (r, t)" and st: "settled e s r t"
    and kept: "\<And>x. m s = (Ok x, t) \<Longrightarrow> fs_inv e t"
  shows "fs_inv e t"
proof (cases "\<exists>x. r = Ok x")
  case True
  then show ?thesis using run kept by blast
next
  case False
  then have "disk e t = disk e s" using st by (simp add: settled_def)
  moreover have "album_ok e t" using m run False by (cases r) (auto simp: returns_def wp_def)
  ultimately show ?thesis using inv by (simp add: fs_inv_def)
qed

lemma step_keeps:
  assumes st: "fs_step e s t" and inv: "fs_inv e s"
  shows "fs_inv e t"
proof -
  have laws: "codec_laws e" "jpeg_returns e" and ok: "album_ok e s" and fs: "fs_ok (disk e s)"
    using inv by (simp_all add: fs_inv_def)
  note R = intactD [OF intact_reads(1) [OF inv]] intactD [OF intact_reads(2) [OF inv]]
    intactD [OF intact_reads(3) [OF inv]] intactD [OF intact_reads(4) [OF inv]]
  from st show ?thesis
  proof cases
    case (step_write i offset data r)
    show ?thesis
      by (rule settled_kept [OF inv returns_creating(1) [OF inv step_write(3)] step_write(1,2)])
        (rule write_file_kept [OF inv _ step_write(3)])
  next
    case (step_truncate i n r)
    show ?thesis by (rule intactD [OF intact_writes(1) [OF inv step_truncate(2)] step_truncate(1)])
  next
    case (step_create p name mode r)
    show ?thesis
      by (rule settled_kept [OF inv returns_creating(2) [OF inv step_create(3)] step_create(1,2)])
        (rule create_file_kept [OF inv _ step_create(3)])
  next
    case (step_mkdir p name mode r)
    show ?thesis
      by (rule settled_kept [OF inv returns_creating(3) [OF inv step_mkdir(3)] step_mkdir(1,2)])
        (rule mkdir_kept [OF inv _ step_mkdir(3)])
  next
    case (step_unlink p name r)
    show ?thesis by (rule intactD [OF intact_writes(3) [OF inv step_unlink(2)] step_unlink(1)])
  next
    case (step_rmdir p name r)
    show ?thesis by (rule intactD [OF intact_writes(4) [OF inv step_rmdir(2,3)] step_rmdir(1)])
  next
    case (step_rename p name q new r)
    have "fs_inv e t" if "rename_entry e p name q new s = (Ok x, t)" for x
      using rename_kept [OF laws ok fs step_rename(3)] that laws by (simp add: fs_inv_def)
    then show ?thesis by (rule settled_kept [OF inv rename_returns [OF inv step_rename(3)] step_rename(1,2)])
  next
    case step_reopen
    then show ?thesis using reopen [OF ok step_reopen(1)] laws fs by (auto simp: fs_inv_def)
  qed (erule R intactD [OF intact_writes(2) [OF inv]])+
qed

interpretation fs: kept "fs_step e" "fs_inv e" for e
  by unfold_locales (rule step_keeps)

text \<open>C5: After every sequence of steps from an intact album, the album is intact: the store, the
  bitmap and every file, and in the tree of names every entry leads to a file in use of its type, no file
  has two names and \<open>..\<close> is the directory that holds the name.

  The steps are those of \<open>fs_step\<close>: reading calls, \<open>truncate\<close>, \<open>unlink\<close>, \<open>rmdir\<close> and \<open>sync\<close> with any
  result, error included; \<open>write\<close>, \<open>create\<close>, \<open>mkdir\<close> and \<open>rename\<close> that returned a value or an error with
  nothing changed; closing and opening a durable album. An error of these four that comes half-way is not
  a step. Sizes to truncate to are at most \<open>MAX_BYTES\<close>, a write of no bytes is not at an offset past it, and new
  names are UTF-8; \<open>unlink\<close> and \<open>rmdir\<close> ask for a directory that is \<open>removable\<close> (one block, or no free record after a live one in any block), \<open>rmdir\<close> for a name other than
  \<open>.\<close> and \<open>..\<close>, \<open>rename\<close> for \<open>rename_guard\<close>: outside these the code can break the tree.\<close>

theorem reachable_intact:
  assumes "(fs_step e)\<^sup>*\<^sup>* s t" "codec_laws e" "jpeg_returns e" "album_ok e s" "fs_ok (disk e s)"
  shows "album_ok e t \<and> fs_ok (disk e t)"
  using fs.reached [OF assms(1)] assms(2-5) by (simp add: fs_inv_def)

end
