(* ===== verification/DirWitnesses.thy ===== *)
theory DirWitnesses
  imports AlbumWitnesses FsReach
begin

text \<open>Instances of the properties of the directory layer on the small album.\<close>

abbreviation demo_d :: disk where "demo_d \<equiv> disk demo_ext demo_album"

lemma demo_root_map:
  "dir_bytes_ok 1 demo_root_block"
  "dir_map demo_root_block = [[46] \<mapsto> (1, FILE_TYPE_DIR), [46, 46] \<mapsto> (1, FILE_TYPE_DIR)]"
  "tidy_dir demo_root_block"
  using initial_directory [OF demo_root_block(1)] unfolding tidy_dir_def by simp_all

lemma demo_root_data: "file_data demo_d 1 = demo_root_block"
proof -
  have l: "logical (dk_block demo_d) demo_root 0 = demo_root_block"
    using demo_mapped(1) [of 0] by (simp add: logical_def demo_disk_sel MAX_BLOCKS_def)
  have s: "unat (i_size demo_root) = UB" by (simp add: demo_root_def inode_default_def UB_val)
  have "byte_at (dk_block demo_d) demo_root p = demo_root_block ! p" if "p < UB" for p
    using that l by (simp add: byte_at_def)
  moreover have "inode_at demo_d 1 = demo_root" by (subst demo_inode_at) simp_all
  ultimately show ?thesis
    unfolding file_data_def file_bytes_def
    using demo_root_block(2) s by (intro nth_equalityI) (simp_all del: One_nat_def)
qed

lemma demo_node:
  "node demo_d 1 = Some (S_IFDIR OR 0x1ED, 2, demo_root_block)" "node demo_d 2 = Some (S_IFREG OR 0x1A4, 1, [])"
  "n \<noteq> 1 \<Longrightarrow> n \<noteq> 2 \<Longrightarrow> node demo_d n = None"
  unfolding node_def demo_used
  using demo_root_data demo_data by (simp_all add: demo_inode_at) (simp_all add: demo_root_def demo_file_def inode_default_def)

lemma demo_dir_mode: "(S_IFDIR OR 0x1ED :: u32) AND S_IFMT = S_IFDIR" "(S_IFREG OR 0x1A4 :: u32) AND S_IFMT \<noteq> S_IFDIR"
  by (simp_all add: S_IFDIR_def S_IFREG_def S_IFMT_def)

lemma demo_fs_ok: "fs_ok demo_d"
proof -
  have dirs: "dir_node (node demo_d) n xs \<longleftrightarrow> n = 1 \<and> xs = demo_root_block" for n xs
    using demo_node demo_dir_mode unfolding dir_node_def by (cases "n = 1"; cases "n = 2") auto
  have ent: "entry_in (node demo_d) n name i t \<longleftrightarrow> n = 1 \<and> i = 1 \<and> t = FILE_TYPE_DIR \<and> name \<in> dots" for n name i t
    unfolding entry_in_def dirs by (auto simp: demo_root_map(2) dots_def)
  have "names_ok (node demo_d)"
    by (rule names_okI) (auto simp: dirs ent demo_node demo_root_map dots_def simp del: One_nat_def)
  then show ?thesis using demo_volume_ok by (simp add: fs_ok_def)
qed

lemma demo_root_node: "node demo_d (unat (1 :: u64)) = Some (S_IFDIR OR 0x1ED, 2, demo_root_block)"
  using demo_node(1) by simp

lemma demo_place: "length name \<le> 255 \<Longrightarrow> \<not> no_place name 1 demo_d"
proof -
  assume l: "length name \<le> 255"
  have "ino_ok demo_d 3" "\<not> inode_used demo_d 3" by (simp_all add: ino_ok_def demo_disk_sel demo_used)
  moreover have "\<not> few 3 demo_d" using demo_free by (simp add: few_def)
  moreover have "dir_blocks demo_d 1 = 1" using demo_root_data demo_root_block(2) by simp
  ultimately show ?thesis using l unfolding no_place_def cramped_def by (auto simp: MAX_BLOCKS_def)
qed

lemma demo_packed: "packed demo_root_block"
  by (rule packed_one_block [OF demo_root_map(1) demo_root_block(2)])

lemma demo_name: "utf8_valid [97]"
  by code_simp

text \<open>A new file and a new directory in the root.\<close>

lemma demo_create:
  obtains i t ys where "create_file demo_ext 1 [97] 0x1A4 demo_album = (Ok i, t)" "album_ok demo_ext t" "fs_ok (disk demo_ext t)"
    "node (disk demo_ext t) 1 = Some (S_IFDIR OR 0x1ED, 2, ys)" "tidy_dir ys"
    "dir_map ys = (dir_map demo_root_block)([97] \<mapsto> (i, FILE_TYPE_FILE))"
    "node (disk demo_ext t) (unat i) = Some (S_IFREG OR 0x1A4, 1, [])" "packed ys"
proof -
  let ?d = "disk demo_ext"
  obtain r t where run: "create_file demo_ext 1 [97] 0x1A4 demo_album = (r, t)"
    by (cases "create_file demo_ext 1 [97] 0x1A4 demo_album")
  note D = fs_dir [OF demo_fs_ok demo_root_node demo_dir_mode(1)]
  have "wp (create_file demo_ext 1 [97] 0x1A4) (\<lambda>i t. album_ok demo_ext t \<and>
      added 1 [97] FILE_TYPE_FILE (S_IFREG OR (0x1A4 AND 0xFFF), 1, []) 0 i (?d demo_album) (?d t)) (\<lambda>_ _. False) demo_album"
    by (rule wp_create_file [OF demo_codec_laws demo_jpeg_returns demo_album_ok demo_volume_ok D(1) demo_name])
      (use demo_place [of "[97]"] demo_writable D(2) in \<open>auto simp: demo_root_map(2)\<close>)
  then obtain i where i: "r = Ok i" "album_ok demo_ext t"
    "added 1 [97] FILE_TYPE_FILE (S_IFREG OR (0x1A4 AND 0xFFF), 1, []) 0 i (?d demo_album) (?d t)"
    unfolding wp_def run by (auto split: res.splits)
  have new: "dir_map demo_root_block [97] = None" by (simp add: demo_root_map(2))
  have fs: "fs_ok (?d t)" by (rule added_file_ok [OF demo_fs_ok demo_root_node demo_dir_mode(1) new i(3)])
  obtain ys where ys: "node (?d demo_album) (unat i) = None" "dir_map ys = (dir_map demo_root_block)([97] \<mapsto> (i, FILE_TYPE_FILE))"
    "packed ys" "node (?d t) = (node (?d demo_album))(unat i \<mapsto> (S_IFREG OR (0x1A4 AND 0xFFF), 1, []),
       unat (1 :: u64) \<mapsto> (S_IFDIR OR 0x1ED, 2, ys))"
    using added_with_file [OF demo_fs_ok demo_root_node demo_dir_mode(1) i(3)] demo_packed demo_root_node
    by (auto simp: with_file_def)
  have ne: "unat i \<noteq> 1" using ys(1) demo_node(1) by auto
  show thesis
    by (rule that [OF run [unfolded i(1)] i(2) fs _ packed_tidy [OF ys(3)] ys(2) _ ys(3)]) (use ys(4) ne in simp_all)
qed

lemma demo_mkdir:
  obtains i t ys b where "mkdir demo_ext 1 [97] 0x1ED demo_album = (Ok i, t)" "album_ok demo_ext t" "fs_ok (disk demo_ext t)"
    "node (disk demo_ext t) 1 = Some (S_IFDIR OR 0x1ED, 3, ys)" "tidy_dir ys"
    "dir_map ys = (dir_map demo_root_block)([97] \<mapsto> (i, FILE_TYPE_DIR))"
    "file_data (disk demo_ext t) (unat i) = b" "dots_only b"
proof -
  let ?d = "disk demo_ext"
  obtain r t where run: "mkdir demo_ext 1 [97] 0x1ED demo_album = (r, t)"
    by (cases "mkdir demo_ext 1 [97] 0x1ED demo_album")
  note D = fs_dir [OF demo_fs_ok demo_root_node demo_dir_mode(1)]
  have "wp (mkdir demo_ext 1 [97] 0x1ED) (\<lambda>i t. album_ok demo_ext t \<and> (\<exists>b. initial_directory_block i 1 = Ok b \<and>
      added 1 [97] FILE_TYPE_DIR (S_IFDIR OR (0x1ED AND 0xFFF), 2, b) 1 i (?d demo_album) (?d t))) (\<lambda>_ _. False) demo_album"
    by (rule wp_mkdir [OF demo_codec_laws demo_jpeg_returns demo_album_ok demo_volume_ok D(1) demo_name])
      (use demo_place [of "[97]"] demo_writable D(2) in \<open>auto simp: demo_root_map(2)\<close>)
  then obtain i b where i: "r = Ok i" "album_ok demo_ext t" "initial_directory_block i 1 = Ok b"
    "added 1 [97] FILE_TYPE_DIR (S_IFDIR OR (0x1ED AND 0xFFF), 2, b) 1 i (?d demo_album) (?d t)"
    unfolding wp_def run by (auto split: res.splits)
  have new: "dir_map demo_root_block [97] = None" by (simp add: demo_root_map(2))
  have fs: "fs_ok (?d t)" by (rule added_dir_ok [OF demo_fs_ok demo_root_node demo_dir_mode(1) new i(3,4)])
  obtain ys where ys: "i \<noteq> 0" "node (?d demo_album) (unat i) = None" "dir_map ys = (dir_map demo_root_block)([97] \<mapsto> (i, FILE_TYPE_DIR))"
    "packed ys" "node (?d t) = (node (?d demo_album))(unat i \<mapsto> (S_IFDIR OR (0x1ED AND 0xFFF), 2, b),
       unat (1 :: u64) \<mapsto> (S_IFDIR OR 0x1ED, 2 + 1, ys))"
    using added_with_file [OF demo_fs_ok demo_root_node demo_dir_mode(1) i(4)] demo_packed demo_root_node
    by (auto simp: with_file_def)
  have ne: "unat i \<noteq> 1" using ys(2) demo_node(1) by auto
  have "node (?d t) (unat i) = Some (S_IFDIR OR (0x1ED AND 0xFFF), 2, b)" unfolding ys(5) using ne by simp
  then have fd: "file_data (?d t) (unat i) = b" using node_SomeD by blast
  have "dots_only b"
    using initial_directory(2) [OF i(3) ys(1)] unfolding dots_only_map by simp
  then show thesis
    by (intro that [OF run [unfolded i(1)] i(2) fs _ packed_tidy [OF ys(4)] ys(3) fd]) (use ys(5) in simp_all)
qed


subsection \<open>Instances\<close>

theorem lookup_refines_witness:
  "\<exists>t u. lookup demo_ext 1 [46, 46] demo_album = (Ok (Some 1), t) \<and> lookup demo_ext 2 [46] demo_album = (Err NotDir, u)"
  using lookup_refines [OF demo_album_ok demo_fs_ok, of 1 "[46, 46]"] lookup_refines [OF demo_album_ok demo_fs_ok, of 2 "[46]"]
    demo_node demo_dir_mode by (auto simp: demo_root_map)

theorem create_file_refines_witness:
  "\<exists>i t. create_file demo_ext 1 [97] 0x1A4 demo_album = (Ok i, t) \<and>
     node (disk demo_ext t) (unat i) = Some (S_IFREG OR 0x1A4, 1, [])"
proof -
  obtain r t where run: "create_file demo_ext 1 [97] 0x1A4 demo_album = (r, t)"
    by (cases "create_file demo_ext 1 [97] 0x1A4 demo_album")
  note C = create_file_refines [OF demo_codec_laws demo_jpeg_returns demo_album_ok demo_fs_ok demo_root_node demo_dir_mode(1)
      demo_name, where mode = "0x1A4", unfolded run prod.case]
  show ?thesis
    using C run demo_place [of "[97]"] demo_writable demo_node(1)
    by (cases r) (auto simp: with_file_def demo_root_map)
qed

theorem mkdir_refines_witness:
  "\<exists>i t. mkdir demo_ext 1 [97] 0x1ED demo_album = (Ok i, t) \<and> fs_ok (disk demo_ext t)"
proof -
  obtain r t where run: "mkdir demo_ext 1 [97] 0x1ED demo_album = (r, t)"
    by (cases "mkdir demo_ext 1 [97] 0x1ED demo_album")
  note C = mkdir_refines [OF demo_codec_laws demo_jpeg_returns demo_album_ok demo_fs_ok demo_root_node demo_dir_mode(1)
      demo_name, where mode = "0x1ED", unfolded run prod.case]
  show ?thesis using C run demo_place [of "[97]"] demo_writable by (cases r) (auto simp: demo_root_map)
qed

theorem unlink_refines_witness:
  "\<exists>i t r u. create_file demo_ext 1 [97] 0x1A4 demo_album = (Ok i, t) \<and> unlink demo_ext 1 [97] t = (r, u) \<and>
     node (disk demo_ext u) (unat i) = None \<and> fs_ok (disk demo_ext u)"
proof -
  obtain i t ys where t: "create_file demo_ext 1 [97] 0x1A4 demo_album = (Ok i, t)" "album_ok demo_ext t" "fs_ok (disk demo_ext t)"
    "node (disk demo_ext t) (unat (1 :: u64)) = Some (S_IFDIR OR 0x1ED, 2, ys)" "tidy_dir ys"
    "dir_map ys = (dir_map demo_root_block)([97] \<mapsto> (i, FILE_TYPE_FILE))"
    "node (disk demo_ext t) (unat i) = Some (S_IFREG OR 0x1A4, 1, [])"
    using demo_create by (metis unat_1)
  have "FILE_TYPE_FILE \<noteq> FILE_TYPE_DIR" by (simp add: FILE_TYPE_FILE_def FILE_TYPE_DIR_def)
  have rm: "removable ys" using t(5) by (simp add: removable_def)
  with \<open>FILE_TYPE_FILE \<noteq> FILE_TYPE_DIR\<close> unlink_refines [OF demo_codec_laws demo_jpeg_returns t(2,3,4) demo_dir_mode(1) rm, of "[97]"] t(1,6,7)
  show ?thesis by auto
qed

theorem rmdir_refines_witness:
  "\<exists>i t r u. mkdir demo_ext 1 [97] 0x1ED demo_album = (Ok i, t) \<and> rmdir demo_ext 1 [97] t = (r, u) \<and>
     node (disk demo_ext u) (unat i) = None \<and> fs_ok (disk demo_ext u)"
proof -
  obtain i t ys b where t: "mkdir demo_ext 1 [97] 0x1ED demo_album = (Ok i, t)" "album_ok demo_ext t" "fs_ok (disk demo_ext t)"
    "node (disk demo_ext t) (unat (1 :: u64)) = Some (S_IFDIR OR 0x1ED, 3, ys)" "tidy_dir ys"
    "dir_map ys = (dir_map demo_root_block)([97] \<mapsto> (i, FILE_TYPE_DIR))"
    "file_data (disk demo_ext t) (unat i) = b" "dots_only b"
    using demo_mkdir by (metis unat_1)
  have nd: "[97] \<notin> dots" by (simp add: dots_def)
  have rm: "removable ys" using t(5) by (simp add: removable_def)
  note R = rmdir_refines [OF demo_codec_laws demo_jpeg_returns t(2,3,4) demo_dir_mode(1) rm nd]
  have ne: "unat i \<noteq> 1" using fs_target(6) [OF t(3,4) demo_dir_mode(1), of "[97]"] t(6) nd by simp
  from R t(1,6,7,8) ne show ?thesis by auto
qed

theorem rename_refines_witness:
  "\<exists>i t r u v. create_file demo_ext 1 [97] 0x1A4 demo_album = (Ok i, t) \<and> rename_entry demo_ext 1 [97] 1 [98] t = (r, u) \<and>
     r \<noteq> Panic \<and> rename_done demo_ext t 1 [97] 1 [98] i FILE_TYPE_FILE v r u"
proof -
  obtain i t ys where t: "create_file demo_ext 1 [97] 0x1A4 demo_album = (Ok i, t)" "album_ok demo_ext t" "fs_ok (disk demo_ext t)"
    "node (disk demo_ext t) (unat (1 :: u64)) = Some (S_IFDIR OR 0x1ED, 2, ys)" "tidy_dir ys"
    "dir_map ys = (dir_map demo_root_block)([97] \<mapsto> (i, FILE_TYPE_FILE))"
    "packed ys"
    using demo_create by (metis unat_1)
  note D = fs_dir [OF t(3,4) demo_dir_mode(1)]
  have nd: "[97] \<notin> dots" "[98] \<notin> dots" by (simp_all add: dots_def)
  have u: "utf8_valid [98]" by code_simp
  have "unat i \<noteq> 1" using fs_target(6) [OF t(3,4) demo_dir_mode(1), of "[97]"] t(6) nd by simp
  then have ne: "i \<noteq> 1" by auto
  have free: "dir_map ys [98] = None" using t(6) by (simp add: demo_root_map)
  have g: "rename_guard (disk demo_ext t) 1 [97] 1 [98]"
    unfolding rename_guard_def D(2,3) removable_def using nd u t(5-7) ne free by simp
  show ?thesis
    using rename_refines [OF demo_codec_laws demo_jpeg_returns t(2,3,4) demo_dir_mode(1) t(4) demo_dir_mode(1) g] t(1,6) free
    by (auto simp: blocked_def)
qed

theorem reachable_intact_witness:
  "\<exists>i t. create_file demo_ext 1 [97] 0x1A4 demo_album = (Ok i, t) \<and> album_ok demo_ext t \<and> fs_ok (disk demo_ext t)"
proof -
  obtain i t where run: "create_file demo_ext 1 [97] 0x1A4 demo_album = (Ok i, t)" using demo_create by metis
  have "settled demo_ext demo_album (Ok i :: (u64, fs_error) res) t" by (simp add: settled_def)
  from step_create [OF run this demo_name] have "(fs_step demo_ext)\<^sup>*\<^sup>* demo_album t" by (rule r_into_rtranclp)
  from reachable_intact [OF this demo_codec_laws demo_jpeg_returns demo_album_ok demo_fs_ok] run show ?thesis by blast
qed

end
