(* ===== verification/FormatSpec.thy ===== *)
theory FormatSpec
  imports FsReach
begin

text \<open>
  What \<open>format\<close> leaves behind: an album that is intact and whose tree is the root alone, so every
  state that operations reach from it is intact too (\<open>FsReach\<close>).
\<close>

subsection \<open>The geometry\<close>

lemma div_ceil_le: "div_ceil a b \<le> a div b + 1"
  by (simp add: div_ceil_def)

lemma format_geometry_Ok:
  assumes g: "format_geometry tb = Ok g"
    and sb: "sb_total_blocks sb = g_total_blocks g" "sb_inode_count sb = g_inode_count g" "sb_bitmap_start sb = g_bitmap_start g"
      "sb_inode_table_start sb = g_inode_table_start g" "sb_data_start sb = g_data_start g"
  shows "regions_ok sb" "sb_total_blocks sb = tb" "unat (sb_bitmap_start sb) = 1"
    "unat (sb_data_start sb) < unat tb" "64 \<le> unat (sb_inode_count sb)" "unat (sb_inode_count sb) \<le> max 64 (unat tb div 4)"
proof -
  let ?bm = "div_ceil (div_ceil (unat tb) 8) UB" and ?c = "max 64 (tb div 4)"
  have G: "g = \<lparr>g_total_blocks = tb, g_inode_count = ?c, g_bitmap_start = 1, g_inode_table_start = 1 + of_nat ?bm,
      g_data_start = 1 + of_nat ?bm + of_nat (div_ceil (unat ?c) 21)\<rparr>"
    and lt: "1 + of_nat ?bm + of_nat (div_ceil (unat ?c) 21) < tb"
    using g by (auto simp: format_geometry_def Let_def not_le split: if_splits)
  have t: "unat tb < 2 ^ 64" using unat_u64 .
  have b: "?bm \<le> 2 ^ 62"
  proof -
    have "?bm \<le> div_ceil (unat tb) 8 + 1"
      using div_ceil_le [of "div_ceil (unat tb) 8" UB] div_le_dividend [of "div_ceil (unat tb) 8" UB] by linarith
    then show ?thesis using t div_ceil_le [of "unat tb" 8] by simp
  qed
  have c: "unat ?c = max 64 (unat tb div 4)" by (simp add: max_def word_le_nat_alt unat_div)
  have i: "div_ceil (unat ?c) 21 \<le> 2 ^ 62"
    unfolding c using t div_ceil_le [of "max 64 (unat tb div 4)" 21] by (simp add: max_def split: if_splits)
  have u1: "unat (1 + of_nat ?bm :: u64) = 1 + ?bm"
    using b by (simp add: unat_word_ariths unat_of_nat64)
  have u2: "unat (1 + of_nat ?bm + of_nat (div_ceil (unat ?c) 21) :: u64) = 1 + ?bm + div_ceil (unat ?c) 21"
    using b i u1 by (simp add: unat_word_ariths unat_of_nat64)
  show "sb_total_blocks sb = tb" "unat (sb_bitmap_start sb) = 1" using sb by (simp_all add: G)
  show "unat (sb_data_start sb) < unat tb" using sb lt by (simp add: G word_less_nat_alt)
  show "64 \<le> unat (sb_inode_count sb)" "unat (sb_inode_count sb) \<le> max 64 (unat tb div 4)" using sb c by (simp_all add: G)
  show "regions_ok sb"
    unfolding regions_ok_def IPB_val using sb u1 u2 lt by (simp add: G word_less_nat_alt)
qed

lemma validate_ranges_tiled:
  "validate_ranges a ms = Ok n \<Longrightarrow>
     tiled (map (\<lambda>r. (cr_block_start r, cr_block_count r, f r)) ms) (unat a) (unat n) \<and>
     a + sum_list (map cr_block_count ms) = n"
proof (induction a ms rule: validate_ranges.induct)
  case (2 a r ms)
  then have r: "cr_block_start r = a" "unat a + unat (cr_block_count r) \<le> MAX64"
    "validate_ranges (a + cr_block_count r) ms = Ok n" by (auto split: if_splits)
  then have "unat (a + cr_block_count r) = unat a + unat (cr_block_count r)"
    by (simp add: unat_word_ariths MAX64_def)
  with 2 r show ?case by (auto simp: add.assoc split: if_splits)
qed simp

lemma tiled_part: "tiled L a n \<Longrightarrow> (st, ct, r) \<in> set L \<Longrightarrow> unat ct \<le> n"
proof (induction L a n rule: tiled.induct)
  case (2 st ct r L a n)
  have "tiled L a n \<Longrightarrow> a \<le> n" for L a n by (induction L a n rule: tiled.induct) auto
  with 2 show ?case by (auto dest: le_trans [OF le_add2])
qed simp


subsection \<open>A new store\<close>

lemma new_layout:
  assumes "length paths = length ms"
  shows "layout e (new_for_format paths ms keys w) =
    map (\<lambda>r. (cr_block_start r, cr_block_count r, Ok (replicate (unat (cr_block_count r * of_nat PB)) 0))) ms"
    "map cs_path (bs_carriers (new_for_format paths ms keys w)) = paths"
proof -
  show "layout e (new_for_format paths ms keys w) =
    map (\<lambda>r. (cr_block_start r, cr_block_count r, Ok (replicate (unat (cr_block_count r * of_nat PB)) 0))) ms"
    unfolding layout_def new_for_format_def store_of_def using assms
    by (intro nth_equalityI) (simp_all add: slot_bytes_def)
  show "map cs_path (bs_carriers (new_for_format paths ms keys w)) = paths"
    unfolding new_for_format_def store_of_def using assms by (intro nth_equalityI) simp_all
qed

definition formattable :: "ext \<Rightarrow> superblock \<Rightarrow> path list \<Rightarrow> store_keys option \<Rightarrow> bool" where
  "formattable e sb paths keys \<longleftrightarrow> length paths = length (sb_manifest sb) \<and> separate paths \<and>
     validate_manifest_geometry sb = Ok () \<and> unat (sb_total_blocks sb) * PB \<le> MAX64 \<and>
     (\<not> sb_encrypted sb \<longrightarrow> length (sb_salt sb) = 16 \<and> (length (sb_manifest sb) < 2 ^ 32 \<longrightarrow> superblock_wf sb)) \<and>
     (\<forall>k. keys = Some k \<longrightarrow> crypto_laws e \<and> length (sk_cipher k) = 32)"

lemma new_store_part:
  assumes f: "formattable e sb paths keys"
  shows "store_part e {} (new_for_format paths (sb_manifest sb) keys w)"
    "synced e (new_for_format paths (sb_manifest sb) keys w)"
    "bs_total_blocks (new_for_format paths (sb_manifest sb) keys w) = sb_total_blocks sb"
proof -
  let ?s = "new_for_format paths (sb_manifest sb) keys w"
  have v: "validate_ranges 0 (sb_manifest sb) = Ok (sb_total_blocks sb)"
    using f by (cases "validate_ranges 0 (sb_manifest sb)") (auto simp: formattable_def validate_manifest_geometry_def split: if_splits)
  note T = validate_ranges_tiled [OF v]
  show total: "bs_total_blocks ?s = sb_total_blocks sb" using T by (simp add: new_for_format_def store_of_def)
  have len: "length paths = length (sb_manifest sb)" "unat (sb_total_blocks sb) * PB \<le> MAX64" using f by (simp_all add: formattable_def)
  note L = new_layout [OF len(1), where keys = keys and w = w]
  have tl: "tiled (layout e ?s) 0 (unat (sb_total_blocks sb))" unfolding L(1) using T by simp
  have "\<exists>b. r = Ok b \<and> length b = unat ct * PB" if m: "(st, ct, r) \<in> set (layout e ?s)" for st ct r
  proof -
    have "unat ct * PB \<le> MAX64" using tiled_part [OF tl m] len(2) by (meson le_trans mult_le_mono1)
    then have "unat (ct * of_nat PB) = unat ct * PB"
      by (simp add: unat_word_ariths unat_of_nat64 MAX64_def PB_val)
    with m show ?thesis unfolding L(1) by auto
  qed
  then have "layout_wf (layout e ?s) (unat (sb_total_blocks sb))" using tl len(2) by (auto simp: layout_wf_def)
  then show "store_part e {} ?s"
    using f total by (auto simp: store_part_def formattable_def new_for_format_def store_of_def)
  have "separate (map cs_path (bs_carriers ?s))" unfolding L(2) using f by (simp add: formattable_def)
  then show "synced e ?s" by (auto simp: synced_def new_for_format_def store_of_def)
qed

lemma wp_zero_blocks:
  fixes s :: "'a store_scheme"
  assumes ok: "store_part e {} s" "synced e s"
    and Q: "\<And>t. device_ok e t \<Longrightarrow> bs_total_blocks t = bs_total_blocks s \<Longrightarrow> store_rest t = store_rest s \<Longrightarrow>
      (\<forall>l < unat (bs_total_blocks s). view e t l = zeros) \<Longrightarrow> Q () t"
  shows "wp (for_each [0..<unat (bs_total_blocks s)] (\<lambda>lba. write_block e lba (replicate UB 0))) Q E s"
proof (rule wp_for_each [where I = "\<lambda>past t. store_part e (set past) t \<and> synced e t \<and>
    bs_total_blocks t = bs_total_blocks s \<and> store_rest t = store_rest s \<and> (\<forall>l \<in> set past. view e t l = zeros)"])
  fix past l todo and t :: "'a store_scheme"
  assume split: "[0..<unat (bs_total_blocks s)] = past @ l # todo"
    and t: "store_part e (set past) t \<and> synced e t \<and>
    bs_total_blocks t = bs_total_blocks s \<and> store_rest t = store_rest s \<and> (\<forall>l \<in> set past. view e t l = zeros)"
  have l: "l < unat (bs_total_blocks s)" using arg_cong [OF split, of set] by auto
  have z: "pad (replicate UB 0) = zeros" by (simp add: pad_eq zeros_def)
  have t': "store_part e (set past) t" "synced e t" "l < unat (bs_total_blocks t)" using t l by simp_all
  obtain u where "write_block e l (replicate UB 0) t = (Ok (), u)" "store_part e (insert l (set past)) u" "synced e u"
    "bs_total_blocks u = bs_total_blocks t" "view e u = (view e t)(l := zeros)" "store_rest u = store_rest t"
    using write_block_synced [OF t', of "replicate UB 0"] unfolding z by auto
  with t show "wp (write_block e l (replicate UB 0)) (\<lambda>_ t. store_part e (set (past @ [l])) t \<and> synced e t \<and>
    bs_total_blocks t = bs_total_blocks s \<and> store_rest t = store_rest s \<and> (\<forall>l \<in> set (past @ [l]). view e t l = zeros)) E t"
    by (simp add: wp_def)
next
  fix t :: "'a store_scheme" assume t: "store_part e (set [0..<unat (bs_total_blocks s)]) t \<and> synced e t \<and>
    bs_total_blocks t = bs_total_blocks s \<and> store_rest t = store_rest s \<and> (\<forall>l \<in> set [0..<unat (bs_total_blocks s)]. view e t l = zeros)"
  have "store_ok e t" by (rule store_part_all [OF conjunct1 [OF t]]) (use t in auto)
  then show "Q () t" using t by (intro Q) (auto simp: device_ok_def)
qed (use ok in simp)

subsection \<open>The root directory\<close>

lemma fresh_bitmap:
  assumes "k \<le> n"
  shows "bitmap_wf (foldl set_block (bitmap_new n) [0..<k])" "bm_total (foldl set_block (bitmap_new n) [0..<k]) = n"
    "used (foldl set_block (bitmap_new n) [0..<k]) = {..<k}"
proof -
  have "bitmap_wf (foldl set_block (bitmap_new n) [0..<k]) \<and> bm_total (foldl set_block (bitmap_new n) [0..<k]) = n \<and>
      used (foldl set_block (bitmap_new n) [0..<k]) = {..<k}" using assms
  proof (induction k)
    case 0
    have "bm_total (bitmap_new n) = n" by (simp add: bitmap_new_def)
    then show ?case by simp
  next
    case (Suc k)
    then show ?case by (auto simp: used_set lessThan_Suc)
  qed
  then show "bitmap_wf (foldl set_block (bitmap_new n) [0..<k])" "bm_total (foldl set_block (bitmap_new n) [0..<k]) = n"
    "used (foldl set_block (bitmap_new n) [0..<k]) = {..<k}" by blast+
qed

lemma empty_table:
  assumes ok: "disk_ok d" and z: "\<forall>l. dk_table d \<le> l \<longrightarrow> l < dk_data d \<longrightarrow> dk_block d l = zeros"
  shows "\<not> inode_used d n" "volume_ok d"
proof -
  have used: "\<not> inode_used d n" for n
  proof
    assume u: "inode_used d n"
    then have n: "ino_ok d n" by (simp add: inode_used_def)
    have "slot_index n * INODE_SIZE + INODE_SIZE \<le> UB"
      using ino.slot_bound [OF slot_index_bound, of UB n] inodes_fill_block by simp
    then have "slice zeros (slot_index n * INODE_SIZE) (slot_index n * INODE_SIZE + INODE_SIZE) = replicate INODE_SIZE 0"
      by (simp add: zeros_def slice_replicate)
    then have "inode_at d n = inode_default"
      using z slot_block_bounds [OF ok n] inode_decode_zeros by (simp add: inode_at_def ino.get_slot_def)
    then show False using u by (simp add: inode_used_def inode_default_def)
  qed
  then show "\<not> inode_used d n" "volume_ok d" by (simp_all add: volume_ok_def)
qed

lemma root_only_ok:
  assumes m: "m AND S_IFMT = S_IFDIR" and b: "dir_bytes_ok 1 b"
    "dir_map b = [[46] \<mapsto> (1, FILE_TYPE_DIR), [46, 46] \<mapsto> (1, FILE_TYPE_DIR)]"
  shows "names_ok [1 \<mapsto> (m, l, b)]"
proof -
  have dirs: "dir_node [1 \<mapsto> (m, l, b)] n xs \<longleftrightarrow> n = 1 \<and> xs = b" for n xs
    using m unfolding dir_node_def by auto
  have ent: "entry_in [1 \<mapsto> (m, l, b)] n name i t \<longleftrightarrow> n = 1 \<and> i = 1 \<and> t = FILE_TYPE_DIR \<and> name \<in> dots" for n name i t
    unfolding entry_in_def dirs by (auto simp: b(2) dots_def)
  show ?thesis by (rule names_okI) (auto simp: dirs ent b dots_def simp del: One_nat_def)
qed

lemma root_disk:
  assumes ok: "disk_ok d" and z: "\<forall>l. dk_table d \<le> l \<longrightarrow> l < dk_total d \<longrightarrow> dk_block d l = zeros"
    and u: "dk_used d = {..<dk_data d}" and n: "dk_data d < dk_total d" "1 \<le> unat (sb_inode_count (dk_sb d))"
    and b: "initial_directory_block 1 1 = Ok b"
    and d1: "d1 = d\<lparr>dk_block := (dk_block d)(dk_data d := b), dk_bitmap := set_block (dk_bitmap d) (dk_data d)\<rparr>"
  shows "set_inode d1 1 (root_inode_of (dk_data d)) =
      d1\<lparr>dk_block := (dk_block d1)(dk_table d := put (dk_block d1 (dk_table d)) 0 (inode_encode (root_inode_of (dk_data d))))\<rparr>"
    "disk_ok (set_inode d1 1 (root_inode_of (dk_data d)))" "fs_ok (set_inode d1 1 (root_inode_of (dk_data d)))"
    "node (set_inode d1 1 (root_inode_of (dk_data d))) = [1 \<mapsto> (S_IFDIR OR 0x1ED, 2, b)]"
proof -
  let ?i = "root_inode_of (dk_data d)" and ?b = "of_nat (dk_data d) :: u64"
  note I = initial_directory [OF b, simplified]
  have bu: "unat ?b = dk_data d" by simp
  have rg: "regions_ok (dk_sb d)" "bitmap_wf (dk_bitmap d)" "bm_total (dk_bitmap d) = dk_total d" using ok by (simp_all add: disk_ok_def)
  have d0: "0 < dk_data d" using rg(1) by (simp add: regions_ok_def)
  have ok1: "disk_ok d1" using ok n(1) I(3) unfolding d1 by (auto simp: disk_ok_def blocks_full_def)
  have i: "one_block ?i ?b" "i_mode ?i \<noteq> 0" "inode_wf ?i" "i_mode ?i = S_IFDIR OR 0x1ED" "i_nlink ?i = 2"
    by (simp_all add: one_block_def root_inode_of_def inode_default_def inode_wf_def UB_val S_IFDIR_def)
  have in1: "ino_ok d 1" "ino_ok d1 1" using n(2) by (simp_all add: ino_ok_def d1)
  have v: "\<not> inode_used d m" "volume_ok d" for m
    using empty_table [OF ok] z n(1) by (meson less_trans)+
  have u1: "dk_used d1 = insert (unat ?b) (dk_used d)" using used_set [OF rg(2)] rg(3) n(1) by (simp add: d1)
  have nb: "?b \<noteq> 0" using d0 by (metis bu less_numeral_extra(3) unat_0)
  note N = born_block_node [OF v(2) ok ok1 in1(1) i(1,2) _ u1 nb]
  have N': "volume_ok (set_inode d1 1 ?i)" "node (set_inode d1 1 ?i) = (node d)(1 \<mapsto> (i_mode ?i, i_nlink ?i, b))"
    by (rule N; use n(1) u I(3) in \<open>simp add: d1\<close>)+
  have nd: "node d = Map.empty" using v(1) by (simp add: fun_eq_iff node_def)
  show node: "node (set_inode d1 1 ?i) = [1 \<mapsto> (S_IFDIR OR 0x1ED, 2, b)]" using N'(2) i(4,5) nd by simp
  have m: "(S_IFDIR OR 0x1ED :: u32) AND S_IFMT = S_IFDIR" by (simp add: S_IFDIR_def S_IFMT_def)
  show "fs_ok (set_inode d1 1 ?i)" unfolding fs_ok_def node using N'(1) root_only_ok [OF m I(1,2)] by blast
  show "disk_ok (set_inode d1 1 ?i)" by (rule set_inode_ok [OF ok1 in1(2) i(3)])
  have "slot_block (dk_sb d1) 1 = dk_table d" "slot_index 1 = 0" by (simp_all add: slot_block_def slot_index_def d1)
  then show "set_inode d1 1 ?i = d1\<lparr>dk_block := (dk_block d1)(dk_table d := put (dk_block d1 (dk_table d)) 0 (inode_encode ?i))\<rparr>"
    by (simp add: set_inode_def ino.set_slot_def)
qed

subsection \<open>Formatting\<close>

text \<open>An album whose tree is the root alone.\<close>

definition fresh_album :: "ext \<Rightarrow> 'a album_scheme \<Rightarrow> bool" where
  "fresh_album e a \<longleftrightarrow> album_ok e a \<and> durable e a \<and> fs_ok (disk e a) \<and> dk_used (disk e a) = {..dk_data (disk e a)} \<and>
     (\<exists>b. node (disk e a) = [1 \<mapsto> (S_IFDIR OR 0x1ED, 2, b)] \<and>
        dir_map b = [[46] \<mapsto> (1, FILE_TYPE_DIR), [46, 46] \<mapsto> (1, FILE_TYPE_DIR)] \<and> packed b)"

text \<open>The last steps: the root inode goes into its table block, the bitmap into its blocks.\<close>

lemma album_of_sel:
  "al_sb (album_of s sb bm) = sb" "al_bitmap (album_of s sb bm) = bm" "bs_total_blocks (album_of s sb bm) = bs_total_blocks s"
  by (simp_all add: album_of_def store.defs album.defs)

lemma album_of_device:
  fixes s :: store
  shows "device_ok e (album_of s sb bm) = device_ok e s" "view e (album_of s sb bm) = view e s"
    "disk e (album_of s sb bm) = disk_of e sb bm s"
    "store_ok e (drop_buffers (album_of s sb bm)) = store_ok e (drop_buffers s)"
    "view e (drop_buffers (album_of s sb bm)) = view e (drop_buffers s)" "all_clean (album_of s sb bm) = all_clean s"
proof -
  show d: "device_ok e (album_of s sb bm) = device_ok e s" "view e (album_of s sb bm) = view e s"
    by (rule store_view_cong; simp add: album_of_def extend_sel)+
  show "disk e (album_of s sb bm) = disk_of e sb bm s" by (simp add: disk_def disk_of_def album_of_sel d)
  show "store_ok e (drop_buffers (album_of s sb bm)) = store_ok e (drop_buffers s)"
    "view e (drop_buffers (album_of s sb bm)) = view e (drop_buffers s)"
    by (rule store_view_cong; simp add: album_of_def extend_sel drop_buffers_def)+
  show "all_clean (album_of s sb bm) = all_clean s" by (simp add: all_clean_def album_of_def extend_sel)
qed

text \<open>All blocks are written, in the buffers.\<close>

definition ready :: "ext \<Rightarrow> superblock \<Rightarrow> bitmap \<Rightarrow> bytes \<Rightarrow> store \<Rightarrow> bool" where
  "ready e sb bm b t \<longleftrightarrow> device_ok e t \<and> bs_total_blocks t = sb_total_blocks sb \<and> initial_directory_block 1 1 = Ok b \<and>
     super_ok e sb t \<and> used bm = {..unat (sb_data_start sb)} \<and> disk_ok (disk_of e sb bm t) \<and> fs_ok (disk_of e sb bm t) \<and> bm_saved (disk_of e sb bm t) \<and>
     node (disk_of e sb bm t) = [1 \<mapsto> (S_IFDIR OR 0x1ED, 2, b)]"

lemma wp_format_end:
  fixes s :: store
  assumes s: "device_ok e s" "bs_total_blocks s = sb_total_blocks sb" "super_ok e sb s"
    and ok: "disk_ok (disk_of e sb bm s)" and fs: "fs_ok (disk_of e sb bm s)"
    and nd: "node (disk_of e sb bm s) = [1 \<mapsto> (S_IFDIR OR 0x1ED, 2, b)]" and us: "used bm = {..unat (sb_data_start sb)}"
    and b: "initial_directory_block 1 1 = Ok b" and Q: "\<And>t. ready e sb bm b t \<Longrightarrow> Q () t"
  shows "wp (write_bitmap e sb bm) Q E s"
proof (rule wp_store_bitmap [OF s(1)])
  have rg: "regions_ok sb" using ok by (simp add: disk_ok_def disk_of_def)
  then show "unat (sb_inode_table_start sb) \<le> unat (bs_total_blocks s)" "unat (sb_bitmap_start sb) \<le> unat (sb_inode_table_start sb)"
    unfolding s(2) regions_ok_def by auto
  fix t :: store
  assume t: "device_ok e t" "unat (bs_total_blocks t) = unat (bs_total_blocks s)"
    "disk_of e sb bm t = save_bitmap (disk_of e sb bm s)"
  have "disk_ok (disk_of e sb bm t)"
    using ok sdev.content_length [OF t(1)] t(2) s(2) by (simp add: disk_ok_def disk_of_def blocks_full_def)
  moreover have "fs_ok (disk_of e sb bm t)" unfolding t(3) by (rule save_bitmap_fs_ok [OF ok fs])
  moreover have "node (disk_of e sb bm t) = [1 \<mapsto> (S_IFDIR OR 0x1ED, 2, b)]"
    unfolding t(3) using save_bitmap_volume(2) [OF ok] fs nd by (simp add: fs_ok_def)
  moreover have "bm_saved (disk_of e sb bm t)" unfolding t(3) by simp
  moreover have "super_ok e sb t"
    using arg_cong [OF t(3), of "\<lambda>d. dk_block d 0"] save_bitmap_0 [of "disk_of e sb bm s"] s(3) super_ok_cong [of e t s sb] rg
    by (simp add: disk_of_def)
  ultimately show "Q () t" using t(1,2) s(2) b us by (intro Q) (simp add: ready_def word_unat_eq_iff)
qed

lemma wp_ready_flush:
  fixes s :: store
  assumes laws: "codec_laws e" "jpeg_returns e" and r: "ready e sb bm b s"
  shows "wp (flush e) (\<lambda>_ u. fresh_album e (album_of u sb bm)) (\<lambda>_ _. True) s"
proof (rule wp_flush [OF laws])
  show "device_ok e s" using r by (simp add: ready_def)
  note R = r [unfolded ready_def] and I = initial_directory [of 1 1 b, simplified]
  fix u :: store
  assume u: "device_ok e u" "view e u = view e s" "bs_total_blocks u = bs_total_blocks s"
    "store_ok e (drop_buffers u)" "view e (drop_buffers u) = view e s" "all_clean u"
  let ?a = "album_of u sb bm"
  have du: "disk e ?a = disk_of e sb bm s" using u(2) by (simp add: album_of_device disk_of_def)
  have "album_ok e ?a"
    using R u(1-3) by (simp add: album_ok_def album_of_device album_of_sel disk_ok_def disk_of_def super_ok_def)
  moreover have "dk_used (disk_of e sb bm s) = {..dk_data (disk_of e sb bm s)}" using R by (simp add: disk_of_def)
  moreover have "durable e ?a" using u(2,4-6) R by (simp add: durable_def du) (simp add: album_of_device)
  ultimately show "fresh_album e ?a"
    using R I(2) packed_one_block [OF I(1,3)] unfolding fresh_album_def du by blast
qed simp

lemma wp_format_rest:
  fixes s :: store
  assumes s: "device_ok e s" "bs_total_blocks s = sb_total_blocks sb" "super_ok e sb s"
    and rg: "regions_ok sb" "unat (sb_data_start sb) < unat (sb_total_blocks sb)" "1 \<le> unat (sb_inode_count sb)"
      "unat (sb_total_blocks sb) * PB \<le> MAX64"
    and z: "\<forall>l. 1 \<le> l \<longrightarrow> l < unat (sb_total_blocks sb) \<longrightarrow> view e s l = zeros"
    and b: "initial_directory_block 1 1 = Ok b"
    and bm: "bm = set_block (foldl set_block (bitmap_new (unat (sb_total_blocks sb))) [0..<unat (sb_data_start sb)])
      (unat (sb_data_start sb))"
    and Q: "\<And>t. ready e sb bm b t \<Longrightarrow> Q () t"
  shows "wp (bind (write_block e (unat (sb_data_start sb)) b) (\<lambda>_.
      bind (read_block e (unat (sb_inode_table_start sb))) (\<lambda>inode_table.
      bind (write_block e (unat (sb_inode_table_start sb))
        (put inode_table 0 (inode_encode (root_inode_of (unat (sb_data_start sb)))))) (\<lambda>_.
      write_bitmap e sb bm)))) Q E s"
proof -
  let ?k = "unat (sb_data_start sb)" and ?t = "unat (sb_inode_table_start sb)" and ?n = "unat (sb_total_blocks sb)"
  let ?bm0 = "foldl set_block (bitmap_new ?n) [0..<?k]" and ?r = "inode_encode (root_inode_of ?k)"
  let ?d = "disk_of e sb ?bm0 s"
  note F = fresh_bitmap [of ?k ?n] and I = initial_directory [OF b, simplified]
  have full: "length (view e u l) = UB" if "device_ok e u" "l < unat (bs_total_blocks u)" for u :: store and l
    using sdev.content_length [OF that] .
  have d: "disk_ok ?d" using rg F full [OF s(1)] s(2) by (simp add: disk_ok_def disk_of_def blocks_full_def)
  have d0: "1 \<le> ?k" using rg(1) by (simp add: regions_ok_def)
  have tb: "1 \<le> ?t" "?t < ?n" "?t \<noteq> ?k" using rg(1-3) by (auto simp: regions_ok_def div_ceil_def IPB_val split: if_splits)
  have u0: "dk_used ?d = {..<dk_data ?d}" using F(3) rg(2) by (simp add: disk_of_def)
  have z0: "\<forall>l. dk_table ?d \<le> l \<longrightarrow> l < dk_total ?d \<longrightarrow> dk_block ?d l = zeros" using z tb(1) by (simp add: disk_of_def)
  let ?d1 = "?d\<lparr>dk_block := (dk_block ?d)(dk_data ?d := b), dk_bitmap := set_block (dk_bitmap ?d) (dk_data ?d)\<rparr>"
  have n: "dk_data ?d < dk_total ?d" "1 \<le> unat (sb_inode_count (dk_sb ?d))" using rg(2,3) by (simp_all add: disk_of_def)
  note R = root_disk [OF d z0 u0 n b refl]
  have sel: "dk_data ?d = ?k" "dk_table ?d = ?t" by (simp_all add: disk_of_def)
  show ?thesis
    unfolding wp_bind [of "write_block e ?k b"]
  proof (rule sdev.wp_wr [OF s(1)])
    show "?k < unat (bs_total_blocks s)" "length b \<le> UB" using rg(2) s(2) I(3) by simp_all
    fix u :: store
    assume u: "device_ok e u" "unat (bs_total_blocks u) = unat (bs_total_blocks s)" "view e u = (view e s)(?k := pad b)"
    have pb: "pad b = b" using I(3) by (simp add: pad_eq)
    have x: "view e u ?t = zeros" using z tb u(3) by simp
    show "wp (bind (read_block e ?t) (\<lambda>inode_table. bind (write_block e ?t (put inode_table 0 ?r)) (\<lambda>_.
        write_bitmap e sb bm))) Q E u"
      unfolding wp_bind [of "read_block e ?t"]
    proof (rule sdev.wp_rd [OF u(1)])
      show "?t < unat (bs_total_blocks u)" using tb(2) u(2) s(2) by simp
      fix v :: store
      assume v: "device_ok e v" "unat (bs_total_blocks v) = unat (bs_total_blocks u)" "view e v = view e u"
      have lr: "length (put (view e u ?t) 0 ?r) = UB" using x length_inode_encode [of "root_inode_of ?k"]
        by (simp add: zeros_def root_inode_of_def inode_default_def inode_wf_def INODE_SIZE_def UB_val)
      show "wp (bind (write_block e ?t (put (view e u ?t) 0 ?r)) (\<lambda>_. write_bitmap e sb bm)) Q E v"
        unfolding wp_bind [of "write_block e ?t _"]
      proof (rule sdev.wp_wr [OF v(1)])
        show "?t < unat (bs_total_blocks v)" "length (put (view e u ?t) 0 ?r) \<le> UB" using tb(2) u(2) v(2) s(2) lr by simp_all
        fix w :: store
        assume w: "device_ok e w" "unat (bs_total_blocks w) = unat (bs_total_blocks v)"
          "view e w = (view e v)(?t := pad (put (view e u ?t) 0 ?r))"
        have vw: "view e w = (view e u)(?t := put (view e u ?t) 0 ?r)" using w(3) v(3) lr by (simp add: pad_eq)
        have vu: "view e u = (view e s)(?k := b)" using u(3) pb by simp
        have ub: "used bm = {..?k}"
          using used_set [OF F(1), of ?k] F(2,3) rg(2) by (simp add: bm lessThan_Suc_atMost [symmetric] lessThan_Suc)
        have sw: "super_ok e sb w" using vw vu tb(1) d0 s(3) super_ok_cong [of e w s sb] by simp
        have "disk_of e sb bm w = set_inode ?d1 1 (root_inode_of (dk_data ?d))"
          unfolding R(1) using vw vu by (simp add: disk_of_def bm)
        with R(2-4) show "wp (write_bitmap e sb bm) Q E w"
          by (intro wp_format_end [OF w(1) _ sw _ _ _ ub b]) (use w(2) v(2) u(2) s(2) Q in \<open>simp_all add: word_unat_eq_iff\<close>)
      qed
    qed
  qed
qed

text \<open>Everything but the last flush.\<close>

definition format_data :: "ext \<Rightarrow> superblock \<Rightarrow> (store, unit, fs_error) prog" where
  "format_data e sb =
     bind (for_each [0..<unat (sb_total_blocks sb)] (\<lambda>lba. write_block e lba (replicate UB 0))) (\<lambda>_.
     bind
       (if \<not> sb_encrypted sb then
          if length (superblock_encode (e_crc32 e) sb) > UB then raise (Manifest ''superblock does not fit the block'')
          else write_block e 0 (superblock_encode (e_crc32 e) sb)
        else ret ()) (\<lambda>_.
     bind (lift (alloc_from (foldl set_block (bitmap_new (unat (sb_total_blocks sb))) [0..<unat (sb_data_start sb)])
         (unat (sb_data_start sb)))) (\<lambda>(root_block, bm).
     bind (lift (initial_directory_block 1 1)) (\<lambda>block.
     bind (write_block e root_block block) (\<lambda>_.
     bind (read_block e (unat (sb_inode_table_start sb))) (\<lambda>inode_table.
     bind (write_block e (unat (sb_inode_table_start sb)) (put inode_table 0 (inode_encode (root_inode_of root_block)))) (\<lambda>_.
     write_bitmap e sb bm)))))))"

lemma format_store_split: "format_store e sb = bind (format_data e sb) (\<lambda>_. flush e)"
  by (simp add: format_store_def format_data_def bind_assoc Let_def split_def cong: if_cong)

lemma keeps_format_data: "keeps (format_data e sb)"
  unfolding format_data_def write_bitmap_def by (intro keeps_intros)

definition too_long :: "ext \<Rightarrow> superblock \<Rightarrow> bool" where
  "too_long e sb \<longleftrightarrow> \<not> sb_encrypted sb \<and> UB < length (superblock_encode (e_crc32 e) sb)"

text \<open>The superblock that was written decodes, for its manifest is short.\<close>

lemma manifest_fits:
  assumes "length (sb_salt sb) = 16" "length (superblock_encode (e_crc32 e) sb) \<le> UB"
  shows "length (sb_manifest sb) < 2 ^ 32"
proof -
  have l: "length xs \<le> (\<Sum>c \<leftarrow> xs. 2 + length (cr_name c) + 20)" for xs by (induction xs) simp_all
  have "length (sb_manifest sb) \<le> manifest_len_of sb"
  proof (cases "sb_version sb \<ge> MARKERLESS_FS_VERSION")
    case True
    show ?thesis unfolding manifest_len_of_def if_P [OF True] by (rule l)
  qed (simp add: manifest_len_of_def)
  then show ?thesis using assms length_superblock_encode [OF assms(1), of "e_crc32 e"] by (simp add: UB_val)
qed

lemma super_block:
  assumes f: "formattable e sb paths keys" and plain: "\<not> sb_encrypted sb" and p: "length (superblock_encode (e_crc32 e) sb) \<le> UB"
  shows "superblock_decode (e_crc32 e) (pad (superblock_encode (e_crc32 e) sb)) = Ok sb"
proof -
  have "superblock_wf sb" using f plain manifest_fits [OF _ p] by (simp add: formattable_def)
  moreover have "UB \<le> MAX64" by (simp add: UB_val MAX64_def)
  ultimately show ?thesis unfolding pad_eq [OF p] by (intro superblock_decode_encode) (use p in simp_all)
qed

lemma wp_format_data:
  assumes f: "formattable e sb paths keys"
    and rg: "regions_ok sb" "unat (sb_data_start sb) < unat (sb_total_blocks sb)" "1 \<le> unat (sb_inode_count sb)"
    and Q: "\<And>bm b t. ready e sb bm b t \<Longrightarrow> Q () t" and E: "\<And>x t. too_long e sb \<Longrightarrow> E x t"
  shows "wp (format_data e sb) Q E (new_for_format paths (sb_manifest sb) keys w)"
proof -
  let ?k = "unat (sb_data_start sb)" and ?n = "unat (sb_total_blocks sb)"
  let ?bm0 = "foldl set_block (bitmap_new ?n) [0..<?k]"
  note S = new_store_part [OF f, of w]
  have max: "?n * PB \<le> MAX64" using f by (simp add: formattable_def)
  note F = fresh_bitmap [of ?k ?n]
  obtain b where b: "initial_directory_block 1 1 = Ok b" by (rule initial_directory_block_chain)
  let ?tail = "\<lambda>(root_block, bm). bind (lift (initial_directory_block 1 1)) (\<lambda>block.
     bind (write_block e root_block block) (\<lambda>_.
     bind (read_block e (unat (sb_inode_table_start sb))) (\<lambda>inode_table.
     bind (write_block e (unat (sb_inode_table_start sb)) (put inode_table 0 (inode_encode (root_inode_of root_block)))) (\<lambda>_.
     write_bitmap e sb bm))))"
  have al: "alloc_from ?bm0 ?k = Ok (?k, set_block ?bm0 ?k)"
  proof (cases "alloc_from ?bm0 ?k")
    case (Ok p)
    obtain r bm where p: "p = (r, bm)" by (cases p)
    from alloc_from_Ok [OF Ok [unfolded p]] F rg(2) have r: "?k \<le> r" "{?k..<r} \<subseteq> {..<?k}" "bm = set_block ?bm0 r" by simp_all
    then have "r = ?k" by (metis atLeastLessThan_iff le_neq_implies_less lessThan_iff less_irrefl order_refl subsetD)
    with Ok p r(3) show ?thesis by simp
  next
    case (Err x)
    then have "{?k..<?n} \<subseteq> {..<?k}" using F rg(2) by (simp add: alloc_from_Err)
    then have "?k \<in> {..<?k}" using rg(2) by (meson atLeastLessThan_iff order_refl subsetD)
    then show ?thesis by simp
  qed (use alloc_scan_no_panic in \<open>simp add: alloc_from_def\<close>)
  have tail: "wp (bind (lift (alloc_from ?bm0 ?k)) ?tail) Q E s"
    if s: "device_ok e s" "bs_total_blocks s = sb_total_blocks sb" "super_ok e sb s" "\<forall>l. 1 \<le> l \<longrightarrow> l < ?n \<longrightarrow> view e s l = zeros" for s :: store
    unfolding al bind_lift_Ok prod.case b
    by (rule wp_format_rest [OF s(1-3) rg max s(4) b refl]) (rule Q)
  let ?super = "if \<not> sb_encrypted sb then
      (if length (superblock_encode (e_crc32 e) sb) > UB then raise (Manifest ''superblock does not fit the block'')
       else write_block e 0 (superblock_encode (e_crc32 e) sb)) else ret ()"
  have super: "wp ?super (\<lambda>_. wp (bind (lift (alloc_from ?bm0 ?k)) ?tail) Q E) E s"
    if s: "device_ok e s" "bs_total_blocks s = sb_total_blocks sb" "\<forall>l < ?n. view e s l = zeros" for s :: store
  proof -
    let ?enc = "superblock_encode (e_crc32 e) sb"
    have w: "wp (write_block e 0 ?enc) (\<lambda>_. wp (bind (lift (alloc_from ?bm0 ?k)) ?tail) Q E) E s" if p: "length ?enc \<le> UB"
    proof (rule sdev.wp_wr [OF s(1) _ p])
      show "0 < unat (bs_total_blocks s)" using rg(2) s(2) by simp
      fix t :: store
      assume "device_ok e t" "unat (bs_total_blocks t) = unat (bs_total_blocks s)" "view e t = (view e s)(0 := pad ?enc)"
      then show "wp (bind (lift (alloc_from ?bm0 ?k)) ?tail) Q E t"
        by (intro tail) (use s(2,3) super_block [OF f _ p] in \<open>simp_all add: word_unat_eq_iff super_ok_def\<close>)
    qed
    have "wp (bind (lift (alloc_from ?bm0 ?k)) ?tail) Q E s" if "sb_encrypted sb"
      by (rule tail) (use s that in \<open>simp_all add: super_ok_def\<close>)
    with w E show ?thesis by (simp add: wp_prim not_less too_long_def)
  qed
  have "wp (for_each [0..<?n] (\<lambda>lba. write_block e lba (replicate UB 0)))
      (\<lambda>_. wp ?super (\<lambda>_. wp (bind (lift (alloc_from ?bm0 ?k)) ?tail) Q E) E) E (new_for_format paths (sb_manifest sb) keys w)"
    by (rule wp_zero_blocks [OF S(1,2), unfolded S(3)]) (use super in blast)
  then show ?thesis unfolding format_data_def wp_bind .
qed

text \<open>It fails only when the superblock does not fit its block or the carriers cannot be written.\<close>

lemma wp_format_store:
  assumes laws: "codec_laws e" "jpeg_returns e" and f: "formattable e sb paths keys"
    and rg: "regions_ok sb" "unat (sb_data_start sb) < unat (sb_total_blocks sb)" "1 \<le> unat (sb_inode_count sb)"
  shows "wp (format_store e sb) (\<lambda>_ t. \<exists>bm. fresh_album e (album_of t sb bm))
    (\<lambda>_ _. too_long e sb \<or> \<not> writable e (new_for_format paths (sb_manifest sb) keys w)) (new_for_format paths (sb_manifest sb) keys w)"
    (is "wp _ ?Q ?E ?s")
  unfolding format_store_split wp_bind
proof (rule wp_keeps [OF keeps_format_data], rule wp_format_data [OF f rg])
  fix bm b t assume r: "ready e sb bm b t"
  show "static t = static ?s \<longrightarrow> wp (flush e) ?Q ?E t"
  proof
    assume st: "static t = static ?s"
    have fl: "wp (flush e) (\<lambda>_ u. fresh_album e (album_of u sb bm)) (\<lambda>_ _. True) t" by (rule wp_ready_flush [OF laws r])
    have "\<exists>u. flush e t = (Ok (), u)" if "writable e ?s"
      using that st r unfolding writable_def ready_def by blast
    with fl show "wp (flush e) ?Q ?E t" by (auto simp: wp_def split: prod.splits res.splits)
  qed
qed simp

text \<open>The store that was formatted, opened again.\<close>

lemma closed_album_of: "closed (album_of t sb bm) = closed t"
  by (cases t) (simp add: closed_def album_of_def drop_buffers_def store.defs)

lemma fresh_reopen:
  assumes "fresh_album e (album_of t sb bm)"
  shows "\<exists>a b. album_open_store e (Ok (sb, closed t)) = Ok a \<and> album_ok e a \<and> fs_ok (disk e a) \<and>
    node (disk e a) = [1 \<mapsto> (S_IFDIR OR 0x1ED, 2, b)] \<and>
    dir_map b = [[46] \<mapsto> (1, FILE_TYPE_DIR), [46, 46] \<mapsto> (1, FILE_TYPE_DIR)] \<and> packed b \<and>
    dk_used (disk e a) = {..unat (sb_data_start sb)} \<and> al_sb a = sb"
  using reopen [of e "album_of t sb bm"] assms unfolding fresh_album_def closed_album_of album_of_sel
  by (auto simp: disk_def album_of_sel)

lemma build_manifest_valid:
  "\<forall>(p, name, c) \<in> set us. c \<noteq> 0 \<Longrightarrow> unat start + (\<Sum>(p, name, c) \<leftarrow> us. unat c) \<le> MAX64 \<Longrightarrow>
     build_manifest k start us = (m, n) \<Longrightarrow>
     validate_ranges start m = Ok n \<and> length m = length us \<and> unat n = unat start + (\<Sum>(p, name, c) \<leftarrow> us. unat c)"
proof (induction us arbitrary: k start m n)
  case (Cons u us)
  obtain p name c where u: "u = (p, name, c)" by (cases u)
  obtain m' where m: "build_manifest (k + 1) (start + c) us = (m', n)"
    "m = \<lparr>cr_name = name, cr_chunk_index = of_nat k, cr_block_start = start, cr_block_count = c\<rparr> # m'"
    using Cons.prems(3) by (auto simp: u split: prod.splits)
  have s: "unat (start + c) = unat start + unat c" using Cons.prems(2) by (simp add: u unat_word_ariths MAX64_def)
  have "validate_ranges (start + c) m' = Ok n \<and> length m' = length us \<and>
      unat n = unat (start + c) + (\<Sum>(p, name, c) \<leftarrow> us. unat c)"
    by (rule Cons.IH [OF _ _ m(1)]) (use Cons.prems(1,2) s in \<open>simp_all add: u\<close>)
  then show ?case using Cons.prems(1,2) m(2) s by (simp add: u)
qed simp

lemma usable_nonzero:
  "usable_carriers e enc anchor fs seen ps = Ok us \<Longrightarrow> (q, name, c) \<in> set us \<Longrightarrow> c \<noteq> 0"
proof (induction ps arbitrary: enc anchor seen us q name c)
  case (Cons p ps)
  from Cons.prems show ?case
    by (auto simp: Let_def split: if_splits dest: Cons.IH)
qed simp

lemma format_store_fresh:
  assumes "codec_laws e" "jpeg_returns e" "formattable e sb paths keys" "format_geometry n = Ok g"
    "sb_total_blocks sb = g_total_blocks g" "sb_inode_count sb = g_inode_count g" "sb_bitmap_start sb = g_bitmap_start g"
    "sb_inode_table_start sb = g_inode_table_start g" "sb_data_start sb = g_data_start g"
    and run: "format_store e sb (new_for_format paths (sb_manifest sb) keys w) = (Ok (), t)"
  shows "\<exists>bm. fresh_album e (album_of t sb bm)"
proof -
  note G = format_geometry_Ok [OF assms(4-9)]
  show ?thesis
    by (rule wp_OkD [OF wp_format_store [OF assms(1-3) G(1)] run]) (use G in simp_all)
qed

lemma usable_room:
  "usable_carriers e False anchor fs seen ps = Ok us \<Longrightarrow> (p, name, c) \<in> set us \<Longrightarrow>
     name = [] \<and> (\<exists>k raw. codec_for_path p = Some k \<and> codec_raw_capacity_bytes e k p fs = Ok raw \<and>
       unat c * PB \<le> unat raw - CHUNK_HEADER_LEN)"
proof (induction ps arbitrary: seen us)
  case (Cons q ps)
  show ?case
  proof (cases "anchor = Some q")
    case True
    with Cons show ?thesis by auto
  next
    case False
    with Cons.prems(1) obtain k capacity where k: "codec_of q = Ok k" "codec_capacity_bytes e k q fs = Ok capacity"
      by (auto simp: and_then_Ok_iff map_err_Ok_iff)
    obtain raw where raw: "codec_raw_capacity_bytes e k q fs = Ok raw" "capacity = of_nat (unat raw - CHUNK_HEADER_LEN)"
      using k(2) by (auto simp: codec_capacity_bytes_def and_then_Ok_iff)
    have ck: "codec_for_path q = Some k" using k(1) by (cases "codec_for_path q") (simp_all add: codec_of_def)
    have cap: "unat capacity = unat raw - CHUNK_HEADER_LEN" using raw(2) unat_u64 [of raw] by (simp add: unat_of_nat64)
    have "unat (capacity div of_nat PB) * PB \<le> unat capacity" by (simp add: unat_div PB_val)
    with Cons False k ck raw(1) cap show ?thesis by (auto simp: Let_def and_then_Ok_iff split: if_splits)
  qed
qed simp

lemma build_manifest_nth:
  "build_manifest k start us = (m, n) \<Longrightarrow> length m = length us \<and> (\<forall>i < length us. cr_name (m ! i) = fst (snd (us ! i)) \<and>
     cr_chunk_index (m ! i) = of_nat (k + i) \<and> cr_block_count (m ! i) = snd (snd (us ! i)))"
proof (induction us arbitrary: k start m n)
  case (Cons u us)
  obtain p name c where u: "u = (p, name, c)" by (cases u)
  obtain m' where m: "build_manifest (k + 1) (start + c) us = (m', n)"
    "m = \<lparr>cr_name = name, cr_chunk_index = of_nat k, cr_block_start = start, cr_block_count = c\<rparr> # m'"
    using Cons.prems by (auto simp: u split: prod.splits)
  from Cons.IH [OF m(1)] show ?case by (auto simp: m(2) u nth_Cons split: nat.splits)
qed simp

lemma plain_formattable:
  assumes us: "usable_carriers e False None fs [] paths = Ok us" "separate (map fst us)"
      "(\<Sum>(p, name, c) \<leftarrow> us. unat c) * PB \<le> MAX64"
    and m: "build_manifest 0 0 us = (m, n)" and sb: "sb = superblock_standard a b c d k m False" "sb_total_blocks sb = n"
  shows "formattable e sb (map fst us) None"
proof -
  have st: "sb_manifest sb = m" "sb_version sb = FS_VERSION" "length (sb_salt sb) = 16" by (simp_all add: sb(1) superblock_standard_def)
  have names: "fst (snd u) = []" if "u \<in> set us" for u
    using usable_room [OF us(1), of "fst u" "fst (snd u)" "snd (snd u)"] that by simp
  have "cr_name (m ! i) = []" if "i < length us" for i
    using build_manifest_nth [OF m] names [OF nth_mem [OF that]] that by simp
  then have "\<forall>r \<in> set m. cr_name r = []" using build_manifest_nth [OF m] unfolding all_set_conv_all_nth by simp
  then have wf: "length m < 2 ^ 32 \<longrightarrow> superblock_wf sb"
    using st by (simp add: superblock_wf_def carrier_wf_def FS_VERSION_def MARKERLESS_FS_VERSION_def)
  have s: "(\<Sum>(p, name, c) \<leftarrow> us. unat c) \<le> MAX64" using us(3) by (simp add: PB_val)
  have nz: "\<forall>(p, name, c) \<in> set us. c \<noteq> 0" using usable_nonzero [OF us(1)] by blast
  from build_manifest_valid [OF nz _ m] s us(2,3) show ?thesis
    using wf st sb(2) by (simp add: formattable_def validate_manifest_geometry_def)
qed

text \<open>The run of a format that finds room and carriers that can be written.\<close>

lemma format_run:
  assumes "codec_laws e" "jpeg_returns e"
    and us: "usable_carriers e False None (w_files w) [] (carrier_paths w) = Ok us" "separate (map fst us)"
      "(\<Sum>(p, name, c) \<leftarrow> us. unat c) * PB \<le> MAX64"
    and m: "build_manifest 0 0 us = (m, n)" and g: "format_geometry n = Ok g"
    and sb: "sb = superblock_standard (g_total_blocks g) (g_inode_count g) (g_bitmap_start g) (g_inode_table_start g)
      (g_data_start g) m False"
    and fits: "length (superblock_encode (e_crc32 e) sb) \<le> UB"
    and writable: "writable e (new_for_format (map fst us) m None w)"
    and clear: "force \<or> contains_valid_plaintext_filesystem e (carrier_paths w) (w_files w) = Ok False"
  shows "\<exists>w'. format_with_anchor_options e None None force w = (Ok \<lparr>fr_superblock = sb, fr_anchor = None\<rparr>, w')"
proof -
  have sel: "sb_total_blocks sb = g_total_blocks g" "sb_inode_count sb = g_inode_count g" "sb_bitmap_start sb = g_bitmap_start g"
    "sb_inode_table_start sb = g_inode_table_start g" "sb_data_start sb = g_data_start g" "sb_manifest sb = m"
    by (simp_all add: sb superblock_standard_def)
  note G = format_geometry_Ok [OF g sel(1-5)]
  have f: "formattable e sb (map fst us) None" by (rule plain_formattable [OF us m sb G(2)])
  have "wp (format_store e sb) (\<lambda>_ _. True) (\<lambda>_ _. False) (new_for_format (map fst us) m None w)"
    by (rule wp_conseq [OF wp_format_store [OF assms(1,2) f G(1), of w, unfolded sel(6)]])
      (use G fits writable in \<open>auto simp: too_long_def\<close>)
  then obtain t where t: "format_store e sb (new_for_format (map fst us) m None w) = (Ok (), t)"
    by (auto simp: wp_def split: prod.splits res.splits)
  have ne: "us \<noteq> []" using g m by (auto simp: format_geometry_def Let_def split: if_splits)
  then have "carrier_paths w \<noteq> []" using us(1) by auto
  moreover have "(if force then Ok False else contains_valid_plaintext_filesystem e (carrier_paths w) (w_files w)) = Ok False"
    using clear by auto
  ultimately show ?thesis
    using us(1) m g ne t sel(6)
    by (simp add: format_with_anchor_options_def format_superblock_def with_store_def bind_def run_simps Let_def sb [symmetric])
qed

text \<open>Reading a chunk never panics, so the look for a superblock answers yes or no.\<close>

lemma extract_no_panic:
  assumes "\<And>p. p \<in> set ps \<Longrightarrow> get_bit img p \<noteq> Panic"
  shows "extract_with get_bit img ps off len \<noteq> Panic"
proof -
  have "extract_loop get_bit img bs k qs \<noteq> Panic" if "\<And>p. p \<in> set qs \<Longrightarrow> get_bit img p \<noteq> Panic" for bs k qs
    using that by (induction qs arbitrary: bs k) (auto simp: and_then_Panic_iff)
  moreover have "set (slice ps off n) \<subseteq> set ps" for n
    unfolding slice_def by (meson order_trans set_drop_subset set_take_subset)
  ultimately have "extract_loop get_bit img bs k (slice ps off n) \<noteq> Panic" for bs k n using assms by (metis subsetD)
  then show ?thesis unfolding extract_with_def Let_def by simp
qed

lemma read_chunk_no_panic:
  assumes laws: "codec_laws e" "jpeg_returns e"
  shows "codec_read_chunk e codec p ReadFramed key fs \<noteq> Panic"
proof (cases codec)
  case Png
  have r: "png_read_bytes img [0..<png_slots img] off len \<noteq> Panic" if op: "image_open e p fs = Ok img" for img off len
  proof -
    have wf: "png_wf img" by (rule image_open_wf [OF _ op]) (use laws in \<open>simp add: codec_laws_def\<close>)
    show ?thesis
      unfolding png_read_bytes_def
      by (rule extract_no_panic) (use png_bits(1) png_capacity(1) [OF wf] in auto)
  qed
  have "image_open e p fs \<noteq> Panic" by (auto simp: image_open_def ok_or_def split: option.splits)
  with r show ?thesis using Png
    by (auto simp: codec_read_chunk_def png_read_chunk_def Let_def and_then_Panic_iff decode_header_no_panic)
next
  case JpegKind
  have g: "jpeg_get_bit img q \<noteq> Panic" for img q by (simp add: jpeg_get_bit_def and_then_Panic_iff)
  have "extract_bytes img ps off len \<noteq> Panic" for img ps off len
    unfolding extract_bytes_def by (rule extract_no_panic) (rule g)
  moreover have "read_coefficients e bs \<noteq> Panic" for bs
    using laws(2) by (simp add: read_coefficients_def jpeg_returns_def)
  ultimately show ?thesis using JpegKind
    by (auto simp: codec_read_chunk_def jpeg_read_chunk_def read_original_def Let_def and_then_Panic_iff decode_header_no_panic)
qed

lemma contains_answers:
  assumes "codec_laws e" "jpeg_returns e"
  shows "contains_valid_plaintext_filesystem e ps fs = Ok True \<or> contains_valid_plaintext_filesystem e ps fs = Ok False"
proof (induction ps)
  case (Cons p ps)
  then show ?case
    using read_chunk_no_panic [OF assms] read_physical_block_no_panic superblock_decode_in_range
    by (auto split: option.splits res.splits)
qed simp

lemma format_refused:
  assumes "contains_valid_plaintext_filesystem e (carrier_paths w) (w_files w) = Ok True"
  shows "format_with_anchor_options e None None False w = (Err AlreadyFormatted, w)"
proof -
  have "carrier_paths w \<noteq> []" using assms by auto
  then show ?thesis using assms by (simp add: format_with_anchor_options_def bind_def run_simps)
qed

text \<open>C21: A plaintext format, without passphrase and anchor, of carriers that can be written back succeeds, with
  or without \<open>--force\<close>, when their blocks make room for the bitmap, the inode table and a root directory and the
  superblock fits its block, provided that it is forced or that no image holds a readable superblock; no carrier may
  be the temporary file of another, and together they hold less than 2^64 bytes. Without
  \<open>--force\<close> a pool in which an image does hold one is refused with \<open>AlreadyFormatted\<close> and nothing changes; the look
  at the images has no other outcome.\<close>

theorem format_succeeds:
  assumes "codec_laws e" "jpeg_returns e"
    and us: "usable_carriers e False None (w_files w) [] (carrier_paths w) = Ok us" "separate (map fst us)"
      "(\<Sum>(p, name, c) \<leftarrow> us. unat c) * PB \<le> MAX64"
    and m: "build_manifest 0 0 us = (m, n)" and g: "format_geometry n = Ok g"
    and sb: "sb = superblock_standard (g_total_blocks g) (g_inode_count g) (g_bitmap_start g) (g_inode_table_start g)
      (g_data_start g) m False"
    and fits: "length (superblock_encode (e_crc32 e) sb) \<le> UB"
    and writable: "writable e (new_for_format (map fst us) m None w)"
  shows "if force \<or> contains_valid_plaintext_filesystem e (carrier_paths w) (w_files w) \<noteq> Ok True
    then \<exists>w'. format_with_anchor_options e None None force w = (Ok \<lparr>fr_superblock = sb, fr_anchor = None\<rparr>, w')
    else format_with_anchor_options e None None force w = (Err AlreadyFormatted, w)"
  using format_run [OF assms, of force] format_refused [of e w] contains_answers [OF assms(1,2), of "carrier_paths w" "w_files w"]
  by auto

text \<open>C24: The regions \<open>format\<close> lays out on any number of blocks: behind block 0 a bitmap with a bit for every
  block, an inode table with a slot for every inode, one inode for four blocks but at least 64, and at
  least one data block. Where they do not fit the only error is \<open>EmptyPool\<close>; no sum wraps around.\<close>

theorem geometry_in_bounds:
  "case format_geometry n of
     Ok g \<Rightarrow> g_total_blocks g = n \<and> unat (g_bitmap_start g) = 1 \<and> unat (g_bitmap_start g) \<le> unat (g_inode_table_start g) \<and>
       unat n \<le> 8 * UB * (unat (g_inode_table_start g) - unat (g_bitmap_start g)) \<and>
       unat (g_inode_table_start g) \<le> unat (g_data_start g) \<and>
       unat (g_inode_count g) \<le> INODES_PER_BLOCK * (unat (g_data_start g) - unat (g_inode_table_start g)) \<and>
       unat (g_data_start g) < unat n \<and> unat (g_inode_count g) = max 64 (unat n div 4)
   | Err x \<Rightarrow> x = EmptyPool
   | Panic \<Rightarrow> False"
proof (cases "format_geometry n")
  case (Ok g)
  let ?sb = "superblock_standard (g_total_blocks g) (g_inode_count g) (g_bitmap_start g) (g_inode_table_start g)
      (g_data_start g) [] False"
  note G = format_geometry_Ok [OF Ok, of ?sb]
  have sel: "sb_total_blocks ?sb = g_total_blocks g" "sb_inode_count ?sb = g_inode_count g" "sb_bitmap_start ?sb = g_bitmap_start g"
    "sb_inode_table_start ?sb = g_inode_table_start g" "sb_data_start ?sb = g_data_start g"
    by (simp_all add: superblock_standard_def)
  note G = G [OF sel, unfolded sel]
  have up: "a \<le> b * c" if "div_ceil a b \<le> c" "0 < b" for a b c
    using that by (simp add: div_ceil_le_iff mult.commute)
  have c: "unat (g_inode_count g) = max 64 (unat n div 4)"
    using Ok by (auto simp: format_geometry_def Let_def max_def word_le_nat_alt unat_div split: if_splits)
  have r: "div_ceil (div_ceil (unat n) 8) UB \<le> unat (g_inode_table_start g) - unat (g_bitmap_start g)"
    "div_ceil (unat (g_inode_count g)) INODES_PER_BLOCK \<le> unat (g_data_start g) - unat (g_inode_table_start g)"
    "unat (g_bitmap_start g) \<le> unat (g_inode_table_start g)" "unat (g_inode_table_start g) \<le> unat (g_data_start g)"
    using G(1,2) by (auto simp: regions_ok_def sel)
  have "unat n \<le> 8 * (UB * (unat (g_inode_table_start g) - unat (g_bitmap_start g)))"
    by (rule up) (use up [OF r(1)] in \<open>simp_all add: UB_val\<close>)
  with up [OF r(2)] G(2-4) r(3,4) c Ok show ?thesis by (simp add: mult.assoc IPB_val)
qed (auto simp: format_geometry_def Let_def split: if_splits)

end
