(* ===== verification/FormatOpen.thy ===== *)
theory FormatOpen
  imports FormatSpec
begin

text \<open>
  Opening a plaintext album from the images of its directory. After a flush every carrier holds its chunk
  with its index and its flags, so \<open>open\<close> finds the carriers, the superblock in block 0 and the store
  that was closed.
\<close>

subsection \<open>What the files of a pool hold\<close>

definition slot_range :: "carrier_slot \<Rightarrow> carrier_range" where
  "slot_range c = \<lparr>cr_name = [], cr_chunk_index = cs_chunk_index c, cr_block_start = cs_block_start c,
     cr_block_count = cs_block_count c\<rparr>"

definition roomy :: "ext \<Rightarrow> files \<Rightarrow> carrier_slot \<Rightarrow> bool" where
  "roomy e fs c \<longleftrightarrow> (\<exists>k raw. codec_for_path (cs_path c) = Some k \<and> codec_raw_capacity_bytes e k (cs_path c) fs = Ok raw \<and>
     unat (cs_block_count c * of_nat PB) \<le> unat raw - CHUNK_HEADER_LEN)"

definition recorded :: "ext \<Rightarrow> files \<Rightarrow> carrier_slot \<Rightarrow> bool" where
  "recorded e fs c \<longleftrightarrow> roomy e fs c \<and> (cs_dirty c \<or> (\<exists>b. framed e fs c b))"

lemma framed_local: "fs' (cs_path c) = fs (cs_path c) \<Longrightarrow> framed e fs' c = framed e fs c"
  using codec.read_local [of fs' "cs_path c" fs] by (simp add: framed_def fun_eq_iff)

lemma roomy_local: "fs' (cs_path c) = fs (cs_path c) \<Longrightarrow> roomy e fs' c = roomy e fs c"
  using codec.capacity_local [of fs' "cs_path c" fs] by (simp add: roomy_def)

lemma slot_fields:
  "framed e fs (c\<lparr>cs_dirty := d\<rparr>) = framed e fs c" "roomy e fs (c\<lparr>cs_dirty := d\<rparr>) = roomy e fs c"
  "slot_range (c\<lparr>cs_dirty := d\<rparr>) = slot_range c"
  by (simp_all add: framed_def fun_eq_iff roomy_def slot_range_def)

lemma framed_loaded:
  assumes "framed e (w_files s) c b" "\<not> bs_encrypted s" "load_slot e s c = Ok b'"
  shows "b' = b"
  using assms by (auto simp: framed_def load_slot_def Let_def split: if_splits)

lemma flushed_path:
  assumes f: "flushed e s k u" and j: "j < length (bs_carriers s)"
  shows "cs_path (bs_carriers u ! j) = cs_path (bs_carriers s ! j)"
proof (cases "j < k")
  case True
  then have "bs_carriers u ! j = (bs_carriers s ! j)\<lparr>cs_dirty := False\<rparr>" using f j by (simp add: flushed_def)
  then show ?thesis by simp
next
  case False
  then have "bs_carriers u ! j = bs_carriers s ! j" using f j by (simp add: flushed_def)
  then show ?thesis by simp
qed

text \<open>A flush that succeeds leaves every carrier with its chunk.\<close>

lemma flush_recorded:
  assumes laws: "codec_laws e" and ok: "store_ok e s" and sy: "synced e s" and plain: "\<not> bs_encrypted s"
    and rec: "\<forall>c \<in> set (bs_carriers s). recorded e (w_files s) c" and run: "flush e s = (Ok (), t)"
  shows "bs_carriers t = map (\<lambda>c. c\<lparr>cs_dirty := False\<rparr>) (bs_carriers s)"
    "\<forall>c \<in> set (bs_carriers t). recorded e (w_files t) c"
proof -
  let ?n = "length (bs_carriers s)" and ?c = "\<lambda>i. bs_carriers s ! i"
  let ?I = "\<lambda>k u. flushed e s k u \<and> (\<forall>i < ?n. roomy e (w_files u) (?c i) \<and>
      (i < k \<or> \<not> cs_dirty (?c i) \<longrightarrow> (\<exists>b. framed e (w_files u) (?c i) b)))"
  have I: "?I ?n t"
  proof (rule flush_induct [where I = ?I, OF _ _ run])
    fix k u v assume k: "k < ?n" and I: "?I k u" and st: "flush_slot e k u = (Ok (), v)"
    have f: "flushed e s (Suc k) v" by (rule flushed_step [OF laws ok sy k _ st]) (use I in blast)
    have fu: "flushed e s k u" using I by blast
    have ue: "u = bs_carriers_update (\<lambda>_. bs_carriers u) (w_files_update (\<lambda>_. w_files u) s)"
      and lu: "length (bs_carriers u) = ?n" and cu: "bs_carriers u ! k = ?c k"
      using fu k by (simp_all add: flushed_def)
    have eu: "\<not> bs_encrypted u" using plain by (subst ue) simp
    show "?I (Suc k) v"
    proof (cases "cs_dirty (?c k)")
      case False
      then have "v = u" using st cu by (simp add: flush_slot_clean)
      with I f False show ?thesis by (auto simp: less_Suc_eq)
    next
      case True
      obtain b where b: "cs_buffer (?c k) = Some b" "length b = unat (cs_block_count (?c k) * of_nat PB)"
        by (rule dirty_slot [OF ok sy k True])
      have p: "cs_path (bs_carriers u ! j) = cs_path (?c j)" if "j < ?n" for j
        using flushed_path [OF fu that] .
      have "map cs_path (bs_carriers u) = map cs_path (bs_carriers s)"
        by (rule nth_equalityI) (simp_all add: lu p)
      then have sep: "separate (map cs_path (bs_carriers u))" using sy by (simp add: synced_def)
      obtain fs where fs: "w_files v = fs" "framed e fs (?c k) b"
          "\<forall>j < ?n. j \<noteq> k \<longrightarrow> fs (cs_path (?c j)) = w_files u (cs_path (?c j))"
          "\<forall>kd. codec_for_path (cs_path (?c k)) = Some kd \<longrightarrow> codec_raw_capacity_bytes e kd (cs_path (?c k)) fs =
            codec_raw_capacity_bytes e kd (cs_path (?c k)) (w_files u)"
        using flush_slot_run [OF laws _ _ _ sep st, of b] k lu cu True b eu p by auto
      have "roomy e fs (?c k)" using I k fs(4) by (auto simp: roomy_def)
      then show ?thesis
        using f I fs(1,2) fs(3) [rule_format] framed_local [of fs _ "w_files u"] roomy_local [of fs _ "w_files u"]
        by (auto simp: less_Suc_eq) metis+
    qed
  next
    show "?I 0 s" using rec by (auto simp: flushed_def recorded_def)
  qed
  then have f: "flushed e s ?n t" by blast
  show c: "bs_carriers t = map (\<lambda>c. c\<lparr>cs_dirty := False\<rparr>) (bs_carriers s)"
    by (rule nth_equalityI) (use f flushed_slots(1) [OF f] in \<open>simp_all add: flushed_def\<close>)
  show "\<forall>c \<in> set (bs_carriers t). recorded e (w_files t) c"
    using I unfolding c by (auto simp: recorded_def slot_fields in_set_conv_nth)
qed


subsection \<open>Finding the carriers\<close>

definition slot_meta :: "carrier_slot \<Rightarrow> chunk_meta" where
  "slot_meta c = \<lparr>cm_chunk_index = cs_chunk_index c, cm_flags = (if cs_is_primary c then 1 else 0)\<rparr>"

lemma scan_slots:
  assumes "\<forall>c \<in> set cs. framed e fs c (B c)"
  shows "scan_carriers e fs (map cs_path cs) = Ok (map (\<lambda>c. (cs_path c, slot_meta c, B c)) cs)"
  using assms by (induction cs) (auto simp: framed_def slot_meta_def)

lemma find_distinct:
  "distinct (map f xs) \<Longrightarrow> x \<in> set xs \<Longrightarrow> find (\<lambda>y. f y = f x) xs = Some x"
  by (induction xs) (auto simp: image_iff)

lemma find_map: "find P (map g xs) = map_option g (find (P \<circ> g) xs)"
  by (induction xs) auto

lemma match_slots:
  assumes dis: "distinct (map cs_chunk_index cs)" and ds: "set ds \<subseteq> set cs"
    and c: "\<And>c. c \<in> set cs \<Longrightarrow> roomy e fs c \<and> length (B c) = unat (cs_block_count c * of_nat PB)"
  shows "match_carriers e fs (map (\<lambda>c. (cs_path c, slot_meta c, B c)) cs) (map slot_range ds) =
    Ok (map (\<lambda>c. (cs_path c, cs_is_primary c)) ds)"
  using ds
proof (induction ds)
  case (Cons d ds)
  then have d: "d \<in> set cs" by simp
  from c [OF d] obtain k raw where k: "codec_for_path (cs_path d) = Some k"
    "codec_raw_capacity_bytes e k (cs_path d) fs = Ok raw" "length (B d) \<le> unat raw - CHUNK_HEADER_LEN"
    "length (B d) = unat (cs_block_count d * of_nat PB)" by (auto simp: roomy_def)
  have "find (\<lambda>(_, meta, _). cm_chunk_index meta = cr_chunk_index (slot_range d)) (map (\<lambda>c. (cs_path c, slot_meta c, B c)) cs) =
      Some (cs_path d, slot_meta d, B d)"
    using find_distinct [OF dis d] by (simp add: find_map o_def slot_meta_def slot_range_def)
  moreover have "unat (of_nat (unat raw - CHUNK_HEADER_LEN) :: u64) = unat raw - CHUNK_HEADER_LEN"
    using unat_u64 [of raw] by (simp add: unat_of_nat64)
  ultimately show ?case
    using Cons k by (simp add: codec_of_def codec_capacity_bytes_def slot_range_def slot_meta_def)
qed simp


subsection \<open>A pool and its superblock\<close>

text \<open>
  The slots of a plaintext store are the ranges of the manifest, its carriers are the images of the
  directory, at separate paths, the first is the primary one, and each has room for its blocks.
\<close>

definition pool_of :: "ext \<Rightarrow> superblock \<Rightarrow> 'a store_scheme \<Rightarrow> bool" where
  "pool_of e sb s \<longleftrightarrow> \<not> bs_encrypted s \<and> bs_cipher s = None \<and> bs_order_key s = None \<and>
     \<not> sb_encrypted sb \<and> validate_manifest_geometry sb = Ok () \<and> bs_total_blocks s = sb_total_blocks sb \<and>
     sb_manifest sb = map slot_range (bs_carriers s) \<and> distinct (map cs_chunk_index (bs_carriers s)) \<and>
     bs_carriers s \<noteq> [] \<and> cs_is_primary (hd (bs_carriers s)) \<and>
     carrier_paths (world.truncate s) = map cs_path (bs_carriers s) \<and> separate (map cs_path (bs_carriers s)) \<and>
     (\<forall>c \<in> set (bs_carriers s). recorded e (w_files s) c)"

lemma from_manifest_closed:
  assumes p: "pool_of e sb s"
  shows "from_manifest (map (\<lambda>c. (cs_path c, cs_is_primary c)) (bs_carriers s)) (sb_manifest sb) None (world.truncate s) = closed s"
proof -
  have "validate_ranges 0 (sb_manifest sb) = Ok (sb_total_blocks sb)"
    using p by (cases "validate_ranges 0 (sb_manifest sb)") (auto simp: pool_of_def validate_manifest_geometry_def split: if_splits)
  then have "sum_list (map cr_block_count (sb_manifest sb)) = bs_total_blocks s"
    using validate_ranges_tiled p by (force simp: pool_of_def)
  moreover have "map (\<lambda>((path, is_primary), range).
          \<lparr>cs_path = path, cs_chunk_index = cr_chunk_index range, cs_is_primary = is_primary,
           cs_block_start = cr_block_start range, cs_block_count = cr_block_count range, cs_buffer = None, cs_dirty = False\<rparr>)
        (zip (map (\<lambda>c. (cs_path c, cs_is_primary c)) (bs_carriers s)) (map slot_range (bs_carriers s))) =
      map (\<lambda>c. c\<lparr>cs_buffer := None, cs_dirty := False\<rparr>) (bs_carriers s)"
    by (rule nth_equalityI) (simp_all add: slot_range_def)
  ultimately show ?thesis
    using p by (simp add: pool_of_def from_manifest_def store_of_def closed_def drop_buffers_def store.defs world.defs)
qed

text \<open>What every carrier of such a pool holds when nothing is dirty.\<close>

definition payload_of :: "ext \<Rightarrow> 'a store_scheme \<Rightarrow> carrier_slot \<Rightarrow> bytes" where
  "payload_of e s c = (case load_slot e s c of Ok b \<Rightarrow> b | _ \<Rightarrow> [])"

lemma closed_layout:
  "layout e (drop_buffers s) = map (\<lambda>c. (cs_block_start c, cs_block_count c, load_slot e s c)) (bs_carriers s)"
  by (simp add: layout_def drop_buffers_def slot_bytes_def load_slot_fields o_def)

lemma pool_payload:
  assumes p: "pool_of e sb s" and clean: "all_clean s"
    and wf: "layout_wf (layout e (drop_buffers s)) (unat (bs_total_blocks s))" and c: "c \<in> set (bs_carriers s)"
  shows "load_slot e s c = Ok (payload_of e s c)" "length (payload_of e s c) = unat (cs_block_count c) * PB"
    "length (payload_of e s c) = unat (cs_block_count c * of_nat PB)" "framed e (w_files s) c (payload_of e s c)"
    "unat (cs_block_count c) \<le> unat (bs_total_blocks s)"
proof -
  have m: "(cs_block_start c, cs_block_count c, load_slot e s c) \<in> set (layout e (drop_buffers s))"
    using c by (simp add: closed_layout)
  have ld: "load_slot e s c = Ok (payload_of e s c) \<and> length (payload_of e s c) = unat (cs_block_count c) * PB"
    using wf m unfolding layout_wf_def payload_of_def by fastforce
  then show "load_slot e s c = Ok (payload_of e s c)" "length (payload_of e s c) = unat (cs_block_count c) * PB" by blast+
  show ct: "unat (cs_block_count c) \<le> unat (bs_total_blocks s)" using wf m tiled_part unfolding layout_wf_def by blast
  then have "unat (cs_block_count c) * PB \<le> MAX64"
    using wf le_trans [OF mult_le_mono1 [of _ "unat (bs_total_blocks s)" PB]] by (simp add: layout_wf_def)
  then show "length (payload_of e s c) = unat (cs_block_count c * of_nat PB)"
    using ld by (simp add: unat_word_ariths MAX64_def PB_val)
  obtain b where b: "framed e (w_files s) c b" using p clean c by (auto simp: pool_of_def recorded_def all_clean_def)
  have "\<not> bs_encrypted s" using p by (simp add: pool_of_def)
  from framed_loaded [OF b this] ld b show "framed e (w_files s) c (payload_of e s c)" by blast
qed

lemma pool_block_zero:
  assumes p: "pool_of e sb s" and clean: "all_clean s"
    and ok: "store_ok e (drop_buffers s)" and sup: "super_ok e sb (drop_buffers s)" and cs: "bs_carriers s = c # cs"
  shows "PB \<le> length (payload_of e s c)"
    "\<exists>q. read_physical_block (e_crc32 e) 0 (slice (payload_of e s c) 0 PB) = Ok q \<and> superblock_decode (e_crc32 e) q = Ok sb"
proof -
  have plain: "\<not> bs_encrypted s" "\<not> sb_encrypted sb" using p by (simp_all add: pool_of_def)
  have wf: "layout_wf (layout e (drop_buffers s)) (unat (bs_total_blocks s))"
    using ok by (simp add: store_ok_def drop_buffers_def)
  note P = pool_payload [OF p clean wf, of c, unfolded cs, simplified]
  have "validate_ranges 0 (map slot_range (bs_carriers s)) = Ok (sb_total_blocks sb)"
    using p by (cases "validate_ranges 0 (sb_manifest sb)") (auto simp: pool_of_def validate_manifest_geometry_def split: if_splits)
  then have z: "cs_block_start c = 0" "cs_block_count c \<noteq> 0" by (auto simp: cs slot_range_def split: if_splits)
  have ct: "0 < unat (cs_block_count c)" using z(2) by (simp add: unat_gt_0)
  then show "PB \<le> length (payload_of e s c)" using P(2) by simp
  have tot: "0 < unat (bs_total_blocks s)" using ct P(5) by linarith
  have ph: "physical (layout e (drop_buffers s)) 0 = Some (slice (payload_of e s c) 0 PB)"
    unfolding closed_layout cs physical_def using z(1) ct P(1) by (simp add: contains_def)
  have sv: "superblock_decode (e_crc32 e) (view e (drop_buffers s) 0) = Ok sb" using sup plain(2) by (simp add: super_ok_def)
  have "\<exists>q. read_physical_block (e_crc32 e) 0 (slice (payload_of e s c) 0 PB) = Ok q"
    using ok tot ph plain(1) by (auto simp: store_ok_def decode_block_def drop_buffers_def)
  with sv tot ph plain(1)
  show "\<exists>q. read_physical_block (e_crc32 e) 0 (slice (payload_of e s c) 0 PB) = Ok q \<and> superblock_decode (e_crc32 e) q = Ok sb"
    by (auto simp: view_def decode_block_def drop_buffers_def)
qed

lemma pool_opens:
  assumes p: "pool_of e sb s" and clean: "all_clean s"
    and ok: "store_ok e (drop_buffers s)" and sup: "super_ok e sb (drop_buffers s)"
  shows "open_plaintext e (world.truncate s) = Ok (sb, closed s)"
proof -
  let ?cs = "bs_carriers s" and ?fs = "w_files s" and ?B = "payload_of e s"
  have wf: "layout_wf (layout e (drop_buffers s)) (unat (bs_total_blocks s))"
    using ok by (simp add: store_ok_def drop_buffers_def)
  note P = pool_payload [OF p clean wf]
  obtain c cs where cs: "?cs = c # cs" using p by (cases ?cs) (auto simp: pool_of_def)
  note Z = pool_block_zero [OF p clean ok sup cs]
  obtain q where q: "read_physical_block (e_crc32 e) 0 (slice (?B c) 0 PB) = Ok q" "superblock_decode (e_crc32 e) q = Ok sb"
    using Z(2) by blast
  have m: "sb_manifest sb = map slot_range ?cs" "distinct (map cs_chunk_index ?cs)" "length (sb_manifest sb) = length ?cs"
    "validate_manifest_geometry sb = Ok ()" "\<not> sb_encrypted sb" using p by (simp_all add: pool_of_def)
  have mt: "match_carriers e ?fs (map (\<lambda>c. (cs_path c, slot_meta c, ?B c)) ?cs) (sb_manifest sb) =
      Ok (map (\<lambda>c. (cs_path c, cs_is_primary c)) ?cs)"
    unfolding m(1) by (rule match_slots [OF m(2)]) (use p P(3) in \<open>auto simp: pool_of_def recorded_def\<close>)
  have wf': "w_files (world.truncate s) = ?fs" by (simp add: world.defs)
  have sc: "scan_carriers e ?fs (carrier_paths (world.truncate s)) = Ok (map (\<lambda>c. (cs_path c, slot_meta c, ?B c)) ?cs)"
    using scan_slots [of ?cs e ?fs ?B] P(4) p by (simp add: pool_of_def)
  have "find (\<lambda>(_, meta, _). cm_flags meta AND 1 \<noteq> 0) (map (\<lambda>c. (cs_path c, slot_meta c, ?B c)) ?cs) =
      Some (cs_path c, slot_meta c, ?B c)"
    using p by (simp add: cs pool_of_def slot_meta_def)
  then show ?thesis
    unfolding open_plaintext_def Let_def wf' sc
    using Z(1) q m(3-5) mt from_manifest_closed [OF p] by simp
qed


subsection \<open>What keeps a pool a pool\<close>

lemma pool_cong:
  assumes "\<And>c. c \<in> set (bs_carriers t) \<Longrightarrow> recorded e (w_files t) c"
    and "map cs_path (bs_carriers t) = map cs_path (bs_carriers s)" "map slot_range (bs_carriers t) = map slot_range (bs_carriers s)"
      "map cs_chunk_index (bs_carriers t) = map cs_chunk_index (bs_carriers s)"
      "map cs_is_primary (bs_carriers t) = map cs_is_primary (bs_carriers s)"
    and "bs_encrypted t = bs_encrypted s" "bs_cipher t = bs_cipher s" "bs_order_key t = bs_order_key s"
      "bs_total_blocks t = bs_total_blocks s" "w_entries t = w_entries s"
    and p: "pool_of e sb s"
  shows "pool_of e sb t"
proof -
  have ne: "bs_carriers t \<noteq> []" "bs_carriers s \<noteq> []" using assms(2) p by (auto simp: pool_of_def)
  then have "cs_is_primary (hd (bs_carriers t)) = cs_is_primary (hd (bs_carriers s))"
    using arg_cong [OF assms(5), of hd] by (simp add: hd_map)
  moreover have "carrier_paths (world.truncate t) = carrier_paths (world.truncate s)"
    using assms(10) by (simp add: carrier_paths_def world.defs)
  ultimately show ?thesis using assms ne by (simp add: pool_of_def)
qed

lemma pool_kept:
  assumes st: "static t = static s" and di: "dirtier s t" and p: "pool_of e sb s"
  shows "pool_of e sb t"
proof (rule pool_cong [OF _ _ _ _ _ _ _ _ _ _ p])
  let ?cs = "bs_carriers s" and ?ct = "bs_carriers t"
  let ?f = "\<lambda>c. (cs_path c, cs_chunk_index c, cs_is_primary c, cs_block_start c, cs_block_count c)"
  have m: "map ?f ?ct = map ?f ?cs" and x: "bs_encrypted t = bs_encrypted s" "bs_cipher t = bs_cipher s"
    "bs_order_key t = bs_order_key s" "bs_total_blocks t = bs_total_blocks s" "w_files t = w_files s" "w_entries t = w_entries s"
    using st by (simp_all add: static_def)
  have len: "length ?ct = length ?cs" using arg_cong [OF m, of length] by simp
  have f: "?f (?ct ! i) = ?f (?cs ! i)" if "i < length ?cs" for i
    using arg_cong [OF m, of "\<lambda>xs. xs ! i"] that len by simp
  show "map cs_path ?ct = map cs_path ?cs" "map cs_chunk_index ?ct = map cs_chunk_index ?cs"
    "map cs_is_primary ?ct = map cs_is_primary ?cs" "map slot_range ?ct = map slot_range ?cs"
    by (rule nth_equalityI; use f len in \<open>simp add: slot_range_def\<close>)+
  show "bs_encrypted t = bs_encrypted s" "bs_cipher t = bs_cipher s"
    "bs_order_key t = bs_order_key s" "bs_total_blocks t = bs_total_blocks s" "w_entries t = w_entries s" using x by simp_all
  fix c assume "c \<in> set ?ct"
  then obtain i where i: "i < length ?cs" "?ct ! i = c" using len by (auto simp: in_set_conv_nth)
  have "recorded e (w_files s) (?cs ! i)" using p i(1) by (simp add: pool_of_def)
  moreover have "cs_dirty (?cs ! i) \<longrightarrow> cs_dirty c" using di i by (auto simp: dirtier_def list_all2_conv_all_nth)
  ultimately show "recorded e (w_files t) c"
    using f [OF i(1)] i(2) x(5) by (auto simp: recorded_def roomy_def framed_def)
qed

lemma pool_flushed:
  assumes laws: "codec_laws e" and d: "device_ok e s" and p: "pool_of e sb s" and run: "flush e s = (Ok (), t)"
  shows "pool_of e sb t" "all_clean t"
proof -
  have ok: "store_ok e s" "synced e s" using d by (simp_all add: device_ok_def)
  have pl: "\<not> bs_encrypted s" "\<forall>c \<in> set (bs_carriers s). recorded e (w_files s) c" using p by (simp_all add: pool_of_def)
  note R = flush_recorded [OF laws ok pl run]
  have "flushed e s (length (bs_carriers s)) t" by (rule flush_all [OF laws ok run])
  then have te: "t = bs_carriers_update (\<lambda>_. bs_carriers t) (w_files_update (\<lambda>_. w_files t) s)" by (simp add: flushed_def)
  have x: "bs_encrypted t = bs_encrypted s" "bs_cipher t = bs_cipher s"
    "bs_order_key t = bs_order_key s" "bs_total_blocks t = bs_total_blocks s" "w_entries t = w_entries s"
    by (subst te, simp)+
  show "pool_of e sb t"
    by (rule pool_cong [OF R(2) [rule_format] _ _ _ _ x p]) (simp_all add: R(1) slot_fields o_def)
  show "all_clean t" by (simp add: R(1) all_clean_def)
qed

text \<open>Whatever was done to the blocks: after a flush the directory opens as the store that was closed.\<close>

lemma pool_reopens:
  assumes laws: "codec_laws e" and d: "device_ok e s" and p: "pool_of e sb s" and run: "flush e s = (Ok (), t)"
    and sup: "super_ok e sb s"
  shows "open_plaintext e (world.truncate t) = Ok (sb, closed t)"
proof -
  have ok: "store_ok e s" "synced e s" using d by (simp_all add: device_ok_def)
  note F = flushed_same [OF flush_all [OF laws ok run]]
  show ?thesis
    by (rule pool_opens [OF pool_flushed [OF laws d p run]])
      (use F ok sup in \<open>simp_all add: super_ok_def\<close>)
qed


text \<open>An album opened on a pool is one.\<close>

lemma pool_closed:
  fixes s :: "'a store_scheme"
  assumes p: "pool_of e sb s" and clean: "all_clean s"
  shows "pool_of e sb (closed s)"
proof -
  have f: "bs_carriers (closed s) = map (\<lambda>c. c\<lparr>cs_buffer := None, cs_dirty := False\<rparr>) (bs_carriers s)"
    "w_files (closed s) = w_files s" "w_entries (closed s) = w_entries s"
    "bs_encrypted (closed s) = bs_encrypted s" "bs_cipher (closed s) = bs_cipher s" "bs_order_key (closed s) = bs_order_key s"
    "bs_total_blocks (closed s) = bs_total_blocks s"
    by (simp_all add: closed_def drop_buffers_def store.defs)
  show ?thesis
    by (rule pool_cong [OF _ _ _ _ _ _ _ _ _ _ p])
      (use p clean in \<open>auto simp: f o_def slot_range_def recorded_def roomy_def framed_def pool_of_def all_clean_def\<close>)
qed

lemma pool_opened:
  fixes t :: "'a store_scheme"
  assumes p: "pool_of e sb t" "all_clean t" and a: "album_open_store e (Ok (sb, closed t)) = Ok a"
  shows "pool_of e sb a" "al_sb a = sb"
proof -
  obtain bm u where u: "load_bitmap e sb (closed t) = (Ok bm, u)" "a = album_of u sb bm"
    using a by (auto simp: album_open_store_def split: prod.splits res.splits)
  have p': "pool_of e sb u"
    by (rule pool_kept [OF keepsD [OF sb.runs_load_bitmap u(1)] keeps_dirtier [OF sb.runs_load_bitmap u(1)]])
      (rule pool_closed [OF p])
  have f: "bs_carriers a = bs_carriers u" "w_files a = w_files u" "w_entries a = w_entries u" "bs_encrypted a = bs_encrypted u"
    "bs_cipher a = bs_cipher u" "bs_order_key a = bs_order_key u" "bs_total_blocks a = bs_total_blocks u"
    unfolding u(2) by (simp_all add: album_of_def store.defs)
  show "pool_of e sb a"
    by (rule pool_cong [OF _ _ _ _ _ _ _ _ _ _ p']) (use p' in \<open>simp_all add: f pool_of_def\<close>)
  show "al_sb a = sb" unfolding u(2) by (simp add: album_of_sel)
qed


subsection \<open>The pool a format leaves\<close>

lemma new_slots:
  assumes "build_manifest 0 0 us = (m, n)" "i < length us"
  shows "bs_carriers (new_for_format (map fst us) m keys w) ! i =
    \<lparr>cs_path = fst (us ! i), cs_chunk_index = of_nat i, cs_is_primary = (of_nat i = (0 :: u32)),
     cs_block_start = cr_block_start (m ! i), cs_block_count = snd (snd (us ! i)),
     cs_buffer = Some (replicate (unat (snd (snd (us ! i)) * of_nat PB)) 0), cs_dirty = True\<rparr>"
  using build_manifest_nth [OF assms(1)] assms(2) by (simp add: new_for_format_def store_of_def)

lemma new_pool:
  assumes us: "usable_carriers e False None (w_files w) [] (carrier_paths w) = Ok us" "map fst us = carrier_paths w" "us \<noteq> []"
      "separate (map fst us)"
    and m: "build_manifest 0 0 us = (m, n)" and short: "length m < 2 ^ 32"
    and sb: "sb = superblock_standard a b c d k m False" and v: "validate_manifest_geometry sb = Ok ()"
  shows "pool_of e sb (new_for_format (map fst us) m None w)"
proof -
  let ?s = "new_for_format (map fst us) m None w" and ?cs = "bs_carriers (new_for_format (map fst us) m None w)"
  note M = build_manifest_nth [OF m] and S = new_slots [OF m, where keys = None and w = w]
  have len: "length ?cs = length us" using M by (simp add: new_for_format_def store_of_def)
  have paths: "map fst us = map cs_path ?cs" by (rule nth_equalityI) (simp_all add: len S)
  have names: "fst (snd (us ! i)) = []" if "i < length us" for i
    using usable_room [OF us(1), of "fst (us ! i)" "fst (snd (us ! i))" "snd (snd (us ! i))"] that by simp
  have mm: "sb_manifest sb = m" "\<not> sb_encrypted sb"
    by (simp_all add: sb superblock_standard_def sb_encrypted_def)
  have rng: "m = map slot_range ?cs"
    by (rule nth_equalityI) (use M S len names in \<open>simp_all add: slot_range_def\<close>)
  have "distinct (map cs_chunk_index ?cs)"
  proof -
    have "map cs_chunk_index ?cs = map of_nat [0..<length us]" by (rule nth_equalityI) (simp_all add: len S)
    moreover have "inj_on (of_nat :: nat \<Rightarrow> u32) {0..<length us}"
      using short M by (intro inj_onI) (simp add: word_unat_eq_iff unat_of_nat take_bit_eq_mod)
    ultimately show ?thesis by (simp add: distinct_map)
  qed
  moreover have "bs_total_blocks ?s = sb_total_blocks sb"
  proof -
    have "validate_ranges 0 m = Ok (sb_total_blocks sb)"
      using v mm(1) by (cases "validate_ranges 0 m") (auto simp: validate_manifest_geometry_def split: if_splits)
    then show ?thesis using validate_ranges_tiled by (fastforce simp: new_for_format_def store_of_def)
  qed
  moreover have ne: "?cs \<noteq> []" using us(3) len by (metis length_0_conv)
  moreover have "cs_is_primary (hd ?cs)" unfolding hd_conv_nth [OF ne] using us(3) S [of 0] by simp
  moreover have "carrier_paths (world.truncate ?s) = map cs_path ?cs"
  proof -
    have "carrier_paths (world.truncate ?s) = map fst us"
      using us(2) by (simp add: carrier_paths_def new_for_format_def store_of_def world.defs)
    also note paths
    finally show ?thesis .
  qed
  moreover have "separate (map cs_path ?cs)" by (subst paths [symmetric]) (rule us(4))
  moreover have "recorded e (w_files ?s) c" if c: "c \<in> set ?cs" for c
  proof -
    obtain i where i: "i < length us" "?cs ! i = c" using c unfolding in_set_conv_nth len by blast
    have wf: "w_files ?s = w_files w" by (simp add: new_for_format_def store_of_def)
    have "unat (x * of_nat PB :: u64) \<le> unat x * PB" for x by (simp add: unat_word_ariths PB_val)
    then show ?thesis
      using usable_room [OF us(1), of "fst (us ! i)" "fst (snd (us ! i))" "snd (snd (us ! i))"] i(1)
      unfolding i(2) [symmetric] S [OF i(1)] wf by (auto simp: recorded_def roomy_def intro: le_trans)
  qed
  ultimately show ?thesis
    using mm v rng by (simp add: pool_of_def) (simp add: new_for_format_def store_of_def)
qed

lemma format_data_fits: "format_data e sb s = (Ok x, t) \<Longrightarrow> \<not> too_long e sb"
  by (auto simp: format_data_def too_long_def bind_def run_simps split: prod.splits res.splits if_splits)

lemma format_store_reopens:
  assumes laws: "codec_laws e" "jpeg_returns e" and f: "formattable e sb (map fst us) None"
    and g: "format_geometry n = Ok g" and sb: "sb = superblock_standard (g_total_blocks g) (g_inode_count g) (g_bitmap_start g)
      (g_inode_table_start g) (g_data_start g) m False"
    and us: "usable_carriers e False None (w_files w) [] (carrier_paths w) = Ok us" "map fst us = carrier_paths w" "us \<noteq> []"
      "separate (map fst us)"
    and m: "build_manifest 0 0 us = (m, n)" and run: "format_store e sb (new_for_format (map fst us) m None w) = (Ok (), t)"
  shows "\<exists>bm. fresh_album e (album_of t sb bm)" "open_plaintext e (world.truncate t) = Ok (sb, closed t)"
    "pool_of e sb t" "all_clean t"
proof -
  let ?s = "new_for_format (map fst us) m None w"
  have sel: "sb_total_blocks sb = g_total_blocks g" "sb_inode_count sb = g_inode_count g" "sb_bitmap_start sb = g_bitmap_start g"
    "sb_inode_table_start sb = g_inode_table_start g" "sb_data_start sb = g_data_start g" "sb_manifest sb = m" "\<not> sb_encrypted sb"
    "length (sb_salt sb) = 16" "sb_version sb = FS_VERSION"
    by (simp_all add: sb superblock_standard_def sb_encrypted_def)
  note G = format_geometry_Ok [OF g sel(1-5)]
  show "\<exists>bm. fresh_album e (album_of t sb bm)"
    by (rule format_store_fresh [OF laws f g sel(1-5)]) (use run sel(6) in simp)
  obtain u where u: "format_data e sb ?s = (Ok (), u)" "flush e u = (Ok (), t)"
    using run unfolding format_store_split by (auto elim: bind_OkE)
  have "wp (format_data e sb) (\<lambda>_ u. \<exists>bm b. ready e sb bm b u) (\<lambda>_ _. True) ?s"
    by (rule wp_format_data [OF f G(1), of _ _ w, unfolded sel(6)]) (use G in auto)
  from wp_OkD [OF this u(1)] obtain bm b where r: "ready e sb bm b u" by blast
  then have d: "device_ok e u" "super_ok e sb u" by (simp_all add: ready_def)
  have "length m < 2 ^ 32"
    using manifest_fits [OF sel(8)] format_data_fits [OF u(1)] sel(6,7) by (simp add: too_long_def not_less)
  moreover have "validate_manifest_geometry sb = Ok ()" using f by (simp add: formattable_def)
  ultimately have "pool_of e sb ?s" by (rule new_pool [OF us m _ sb])
  then have p: "pool_of e sb u"
    by (rule pool_kept [OF keepsD [OF keeps_format_data u(1)] keeps_dirtier [OF keeps_format_data u(1)]])
  show "open_plaintext e (world.truncate t) = Ok (sb, closed t)"
    by (rule pool_reopens [OF laws(1) d(1) p u(2) d(2)])
  show "pool_of e sb t" "all_clean t" by (rule pool_flushed [OF laws(1) d(1) p u(2)])+
qed

text \<open>The directory of a format that succeeds opens as an album.\<close>

lemma format_opens:
  assumes "codec_laws e" "jpeg_returns e"
    and us: "usable_carriers e False None (w_files w) [] (carrier_paths w) = Ok us" "map fst us = carrier_paths w" "separate (map fst us)"
      "(\<Sum>(p, name, c) \<leftarrow> us. unat c) * PB \<le> MAX64"
    and run: "format_with_anchor_options e None None force w = (Ok res, w')"
  shows "\<exists>s a b. open_pool e w' = Ok (fr_superblock res, s) \<and> album_open_store e (Ok (fr_superblock res, s)) = Ok a \<and>
    album_ok e a \<and> fs_ok (disk e a) \<and> node (disk e a) = [1 \<mapsto> (S_IFDIR OR 0x1ED, 2, b)] \<and>
    dir_map b = [[46] \<mapsto> (1, FILE_TYPE_DIR), [46, 46] \<mapsto> (1, FILE_TYPE_DIR)] \<and> packed b \<and>
    validate_manifest_geometry (fr_superblock res) = Ok () \<and> al_sb a = fr_superblock res \<and>
    dk_used (disk e a) = {..unat (sb_data_start (fr_superblock res))} \<and> \<not> sb_encrypted (fr_superblock res) \<and>
    sb_root_inode (fr_superblock res) = 1 \<and> fr_anchor res = None \<and> pool_of e (fr_superblock res) a"
proof -
  obtain m n where m: "build_manifest 0 0 us = (m, n)" by (cases "build_manifest 0 0 us")
  have sm: "sb_manifest (superblock_standard a b c d k m f) = m" for a b c d k f by (simp add: superblock_standard_def)
  obtain g sb t where g: "format_geometry n = Ok g" and sb: "sb = superblock_standard (g_total_blocks g) (g_inode_count g)
      (g_bitmap_start g) (g_inode_table_start g) (g_data_start g) m False"
    and t: "format_store e sb (new_for_format (map fst us) m None w) = (Ok (), t)" "w' = world.truncate t" "fr_superblock res = sb"
      "fr_anchor res = None"
    and ne: "us \<noteq> []"
    using run us(1) m
    by (auto simp: format_with_anchor_options_def format_superblock_def with_store_def bind_def run_simps Let_def sm
        split: prod.splits res.splits if_splits)
  have sel: "sb_total_blocks sb = g_total_blocks g" "sb_inode_count sb = g_inode_count g" "sb_bitmap_start sb = g_bitmap_start g"
    "sb_inode_table_start sb = g_inode_table_start g" "sb_data_start sb = g_data_start g" "sb_manifest sb = m" "\<not> sb_encrypted sb"
    "sb_root_inode sb = 1"
    by (simp_all add: sb superblock_standard_def sb_encrypted_def)
  have "sb_total_blocks sb = n" by (rule format_geometry_Ok(2) [OF g sel(1-5)])
  then have f: "formattable e sb (map fst us) None" by (rule plain_formattable [OF us(1,3,4) m sb])
  note R = format_store_reopens [OF assms(1,2) f g sb us(1,2) ne us(3) m t(1)]
  obtain bm where "fresh_album e (album_of t sb bm)" using R(1) by blast
  from fresh_reopen [OF this] obtain a b where A: "album_open_store e (Ok (sb, closed t)) = Ok a \<and> album_ok e a \<and> fs_ok (disk e a) \<and>
    node (disk e a) = [1 \<mapsto> (S_IFDIR OR 0x1ED, 2, b)] \<and>
    dir_map b = [[46] \<mapsto> (1, FILE_TYPE_DIR), [46, 46] \<mapsto> (1, FILE_TYPE_DIR)] \<and> packed b \<and>
    dk_used (disk e a) = {..unat (sb_data_start sb)} \<and> al_sb a = sb" by blast
  then have pa: "pool_of e sb a" using pool_opened [OF R(3,4)] by blast
  have v: "validate_manifest_geometry sb = Ok ()" using f by (simp add: formattable_def)
  show ?thesis
    unfolding t(2,3) open_pool_def R(2) by (rule exI [of _ "closed t"], rule exI [of _ a], rule exI [of _ b]) (use A v sel(7,8) t(4) pa in blast)
qed

text \<open>C20: After a plaintext format that succeeds, \<open>open\<close> on the directory finds the images and their superblock
  again and gives an album that is intact and holds nothing but the root directory with \<open>.\<close> and
  \<open>..\<close>; the blocks in use are those before the data region and the one of the root. Every image of the directory
  must have room for a block, the images must have separate paths, none of them the temporary file of another, and
  fewer than $2^{64}$ bytes in all.\<close>

theorem format_intact:
  assumes "codec_laws e" "jpeg_returns e"
    and us: "usable_carriers e False None (w_files w) [] (carrier_paths w) = Ok us" "map fst us = carrier_paths w" "separate (map fst us)"
      "(\<Sum>(p, name, c) \<leftarrow> us. unat c) * PB \<le> MAX64"
    and run: "format_with_anchor_options e None None force w = (Ok res, w')"
  shows "\<exists>a b. album_open e w' = Ok a \<and> al_sb a = fr_superblock res \<and> album_ok e a \<and> fs_ok (disk e a) \<and>
    node (disk e a) = [1 \<mapsto> (S_IFDIR OR 0x1ED, 2, b)] \<and>
    dir_map b = [[46] \<mapsto> (1, FILE_TYPE_DIR), [46, 46] \<mapsto> (1, FILE_TYPE_DIR)] \<and> packed b \<and>
    dk_used (disk e a) = {..unat (sb_data_start (fr_superblock res))}"
  using format_opens [OF assms] unfolding album_open_def by metis

end
