(* ===== verification/Session.thy ===== *)
theory Session
  imports FormatOpen FsReach
begin

text \<open>
  From format to format: whatever the operations of the filesystem do to a plaintext album, its carriers
  stay a pool of images that \<open>open\<close> finds. So a session may end after any operation whose result is
  durable, without a further call: the directory opens as the same disk.
\<close>

subsection \<open>An album stays a pool\<close>

definition stays_pool :: "ext \<Rightarrow> superblock \<Rightarrow> 'a album_scheme \<Rightarrow> 'a album_scheme \<Rightarrow> bool" where
  "stays_pool e sb s t \<longleftrightarrow> (codec_laws e \<longrightarrow> al_sb s = sb \<longrightarrow> pool_of e sb s \<longrightarrow> al_sb t = sb \<and> pool_of e sb t)"

lemma only_blocks_pool: "only_blocks s t \<Longrightarrow> al_sb t = al_sb s \<Longrightarrow> stays_pool e sb s t"
  using pool_kept by (auto simp: stays_pool_def only_blocks_def)

lemma pool_size: "pool_of e sb s \<Longrightarrow> length (bs_carriers s) = length (sb_manifest sb)"
  by (simp add: pool_of_def)

text \<open>Writing one slot back, whether it succeeds or not.\<close>

lemma flush_slot_pool:
  assumes laws: "codec_laws e" and p: "pool_of e sb s" and i: "i < length (bs_carriers s)" and run: "flush_slot e i s = (r, t)"
  shows "pool_of e sb t"
proof (cases "r = Ok () \<and> cs_dirty (bs_carriers s ! i)")
  case False
  then have "t = s" using run flush_slot_failed [OF run] by (auto simp: flush_slot_clean)
  with p show ?thesis by simp
next
  case True
  let ?c = "bs_carriers s ! i"
  have ok: "flush_slot e i s = (Ok (), t)" and d: "cs_dirty ?c" using True run by simp_all
  obtain b where b: "cs_buffer ?c = Some b"
    using ok d by (cases "cs_buffer ?c") (simp_all add: flush_slot_def bind_def run_simps)
  have sep: "separate (map cs_path (bs_carriers s))" and plain: "\<not> bs_encrypted s" using p by (simp_all add: pool_of_def)
  obtain fs where fs: "t = bs_carriers_update (\<lambda>cs. cs[i := ?c\<lparr>cs_dirty := False\<rparr>]) (w_files_update (\<lambda>_. fs) s)"
      "\<And>j. j < length (bs_carriers s) \<Longrightarrow> j \<noteq> i \<Longrightarrow> fs (cs_path (bs_carriers s ! j)) = w_files s (cs_path (bs_carriers s ! j))"
      "framed e fs ?c b"
      "\<And>k. codec_for_path (cs_path ?c) = Some k \<Longrightarrow>
        codec_raw_capacity_bytes e k (cs_path ?c) fs = codec_raw_capacity_bytes e k (cs_path ?c) (w_files s)"
    using flush_slot_run [OF laws i d b sep ok] plain by blast
  let ?cs = "(bs_carriers s)[i := ?c\<lparr>cs_dirty := False\<rparr>]"
  have sel: "bs_carriers t = ?cs" "w_files t = fs" by (simp_all add: fs(1))
  have f: "map g ?cs = map g (bs_carriers s)" if "g (?c\<lparr>cs_dirty := False\<rparr>) = g ?c" for g :: "carrier_slot \<Rightarrow> 'z"
    using that i by (simp add: map_update list_update_same_conv)
  show ?thesis
  proof (rule pool_cong [OF _ _ _ _ _ _ _ _ _ _ p])
    fix c assume "c \<in> set (bs_carriers t)"
    then obtain j where j: "j < length (bs_carriers s)" "c = ?cs ! j" by (auto simp: sel in_set_conv_nth)
    have rec: "recorded e (w_files s) (bs_carriers s ! j)" using p j(1) by (simp add: pool_of_def)
    show "recorded e (w_files t) c"
    proof (cases "j = i")
      case True
      have "roomy e fs ?c" using rec fs(4) True by (auto simp: recorded_def roomy_def)
      with fs(3) show ?thesis using j i True by (auto simp: recorded_def sel slot_fields)
    next
      case False
      then show ?thesis
        using rec fs(2) [OF j(1)] j by (simp add: recorded_def sel roomy_local [of fs _ "w_files s"] framed_local [of fs _ "w_files s"])
    qed
  qed (simp_all add: fs(1) f slot_range_def)
qed

lemma flush_pool: "stays_pool e sb s (snd (flush e s))"
  unfolding stays_pool_def
proof (intro impI)
  assume laws: "codec_laws e" and s: "al_sb s = sb" "pool_of e sb s"
  show "al_sb (snd (flush e s)) = sb \<and> pool_of e sb (snd (flush e s))"
  proof (rule flush_keeps [where I = "\<lambda>u. al_sb u = sb \<and> pool_of e sb u"])
    fix k r and u v :: "'a album_scheme"
    assume k: "k < length (bs_carriers s)" and u: "al_sb u = sb \<and> pool_of e sb u" and st: "flush_slot e k u = (r, v)"
    have "k < length (bs_carriers u)" using k u pool_size [OF s(2)] pool_size [of e sb u] by simp
    then have "pool_of e sb v" using flush_slot_pool [OF laws _ _ st] u by blast
    moreover have "al_sb v = al_sb u" by (subst flush_slot_frame [OF st]) simp
    ultimately show "al_sb v = sb \<and> pool_of e sb v" using u by simp
  qed (use s in simp)
qed

interpretation po: album_sessions "stays_pool e sb" e for e sb
proof unfold_locales
  fix s t u :: "'a album_scheme"
  show "stays_pool e sb s s" by (simp add: stays_pool_def)
  show "stays_pool e sb s t \<Longrightarrow> stays_pool e sb t u \<Longrightarrow> stays_pool e sb s u" by (simp add: stays_pool_def)
  show "stays_pool e sb s (snd (flush e s))" by (rule flush_pool)
qed (rule only_blocks_pool; simp add: only_blocks_def static_buffer dirtier_buffer dirtier_refl static_frame)+


subsection \<open>The operations of a session\<close>

lemma pool_step:
  assumes laws: "codec_laws e" and p: "al_sb s = sb" "pool_of e sb s" and st: "fs_step e s t"
  shows "al_sb t = sb \<and> pool_of e sb t"
proof -
  have kept: ?thesis if "runs (stays_pool e sb) m" "m s = (r, t)" for m :: "(album, 'b, fs_error) prog" and r
    using runsD [OF that] laws p by (simp add: stays_pool_def)
  show ?thesis
    using st
  proof cases
    case (step_reopen)
    then show ?thesis using pool_opened [of e sb s t] p by (simp add: durable_def)
  qed (rule kept, (rule po.runs_inodes po.runs_directories po.runs_read_file po.runs_files po.runs_making po.runs_removing
    po.runs_rename po.runs_sync), assumption)+
qed

interpretation fp: kept "fs_step e" "\<lambda>s. codec_laws e \<and> al_sb s = sb \<and> pool_of e sb s" for e sb
  by unfold_locales (use pool_step in blast)

text \<open>A durable album of a pool is what its directory opens as.\<close>

lemma pool_durable:
  fixes s :: album
  assumes p: "al_sb s = sb" "pool_of e sb s" and ok: "album_ok e s" and d: "durable e s"
  shows "\<exists>v. album_open e (world.truncate s) = Ok v \<and> al_sb v = sb \<and> album_ok e v \<and> disk e v = disk e s"
proof -
  have "super_ok e sb (drop_buffers s)" using ok d p(1) by (simp add: album_ok_def durable_def super_ok_def)
  then have "open_plaintext e (world.truncate s) = Ok (sb, closed s)"
    using d by (intro pool_opens [OF p(2)]) (simp_all add: durable_def)
  then show ?thesis
    using reopen [OF ok d] p(1) unfolding album_open_def open_pool_def by (auto simp: disk_def)
qed

text \<open>C14: A plaintext album survives its session. Format a directory in which every image is usable as a carrier
  and no image is the temporary file of another, all together of less than 2^64 bytes, open it, and run operations of the filesystem, closing and
  opening the store between them or not: whenever the state reached is durable, opening the directory anew finds
  the images, the superblock and the same disk, with every file and every name on it.

  The operations are the steps of \<open>fs_step\<close> in \<open>FsReach\<close>: reading calls, \<open>truncate\<close> to a size up to \<open>MAX_BYTES\<close>,
  \<open>unlink\<close>, \<open>rmdir\<close> and \<open>sync\<close> with any result, error included; \<open>write\<close>, \<open>create\<close>, \<open>mkdir\<close> and \<open>rename\<close> that
  returned a value or an error with nothing changed, not one that failed half-way. \<open>unlink\<close> and \<open>rmdir\<close> are
  called for a directory that is \<open>removable\<close> (one block, or no free record after a live one in any block),
  \<open>rmdir\<close> not for \<open>.\<close> and \<open>..\<close>, \<open>rename\<close> under \<open>rename_guard\<close>, new names are UTF-8, and a write of no bytes is not
  at an offset past \<open>MAX_BYTES\<close>.\<close>

theorem session_reopens:
  assumes "codec_laws e" "jpeg_returns e"
    and us: "usable_carriers e False None (w_files w) [] (carrier_paths w) = Ok us" "map fst us = carrier_paths w" "separate (map fst us)"
      "(\<Sum>(p, name, c) \<leftarrow> us. unat c) * PB \<le> MAX64"
    and run: "format_with_anchor_options e None None force w = (Ok res, w')" "album_open e w' = Ok a"
    and steps: "(fs_step e)\<^sup>*\<^sup>* a s" and d: "durable e s"
  shows "\<exists>v. album_open e (world.truncate s) = Ok v \<and> al_sb v = fr_superblock res \<and> album_ok e v \<and>
    fs_ok (disk e v) \<and> disk e v = disk e s"
proof -
  have a: "al_sb a = fr_superblock res" "pool_of e (fr_superblock res) a" "album_ok e a" "fs_ok (disk e a)"
    using format_opens [OF assms(1-6) run(1)] run(2) unfolding album_open_def by auto
  have s: "al_sb s = fr_superblock res" "pool_of e (fr_superblock res) s"
    using fp.reached [OF steps] assms(1) a(1,2) by blast+
  have ok: "album_ok e s" "fs_ok (disk e s)"
    using fs.reached [OF steps] assms(1,2) a(3,4) by (simp_all add: fs_inv_def)
  from pool_durable [OF s ok(1) d] ok(2) show ?thesis by auto
qed

end
