(* ===== verification/FormatWitnesses.thy ===== *)
theory FormatWitnesses
  imports DirWitnesses Session
begin

text \<open>Formatting one small image: 23 blocks, of which the last 17 hold data.\<close>

lemma demo_dimensions: "\<exists>bs. demo_files demo_path = Some bs \<and> e_png_dimensions demo_ext bs = Some (512, 512)"
proof -
  obtain bs where bs: "demo_png_save demo_image = Some bs" by (simp add: demo_png_save_def)
  from demo_png_open_save [OF demo_image_wf bs] bs show ?thesis
    by (simp add: demo_files_def demo_ext_def demo_image_def)
qed

lemma demo_usable:
  "usable_carriers demo_ext False None (w_files demo_world) [] (carrier_paths demo_world) = Ok [(demo_path, [], 23)]"
  "map fst [(demo_path, [] :: bytes, 23 :: u64)] = carrier_paths demo_world"
proof -
  have k: "kind_for demo_path \<noteq> None" using demo_kind by (auto simp: codec_for_path_def)
  then have p: "carrier_paths demo_world = [demo_path]" by (simp add: carrier_paths_def demo_world_def)
  obtain bs where bs: "demo_files demo_path = Some bs" "e_png_dimensions demo_ext bs = Some (512, 512)"
    using demo_dimensions by blast
  have "codec_capacity_bytes demo_ext Png demo_path demo_files = Ok (of_nat (98304 - CHUNK_HEADER_LEN))"
    using bs by (simp add: codec_capacity_bytes_def codec_raw_capacity_bytes_def png_raw_capacity_bytes_def png_raw_capacity_def)
  then show "usable_carriers demo_ext False None (w_files demo_world) [] (carrier_paths demo_world) = Ok [(demo_path, [], 23)]"
    unfolding p by (simp add: codec_of_def demo_kind demo_world_def PB_val CHUNK_HEADER_LEN_def)
  show "map fst [(demo_path, [] :: bytes, 23 :: u64)] = carrier_paths demo_world" by (simp add: p)
qed

definition demo_manifest :: "carrier_range list" where
  "demo_manifest = [\<lparr>cr_name = [], cr_chunk_index = 0, cr_block_start = 0, cr_block_count = 23\<rparr>]"

definition demo_geometry :: geometry where
  "demo_geometry = \<lparr>g_total_blocks = 23, g_inode_count = 64, g_bitmap_start = 1, g_inode_table_start = 2, g_data_start = 6\<rparr>"

definition demo_format_sb :: superblock where
  "demo_format_sb = superblock_standard 23 64 1 2 6 demo_manifest False"

lemma demo_separate: "separate (map fst [(demo_path, [], 23)])"
  using demo_synced by (simp add: synced_def demo_slots)

lemma demo_build: "build_manifest 0 0 [(demo_path, [], 23)] = (demo_manifest, 23)"
  by (simp add: demo_manifest_def)

lemma demo_format_geometry: "format_geometry 23 = Ok demo_geometry"
  by (simp add: format_geometry_def demo_geometry_def div_ceil_def UB_val Let_def)

lemma demo_format_writable:
  "writable demo_ext (new_for_format (map fst [(demo_path, [], 23)]) demo_manifest None demo_world)"
  by (rule demo_static_writable [where n = 23])
    (simp_all add: static_def new_for_format_def store_of_def demo_manifest_def demo_world_def)

lemma demo_capacity: "(\<Sum>(p, name, c) \<leftarrow> [(demo_path, [] :: bytes, 23 :: u64)]. unat c) * PB \<le> MAX64"
  by (simp add: PB_val MAX64_def)

lemma demo_format_superblock:
  "demo_format_sb = superblock_standard (g_total_blocks demo_geometry) (g_inode_count demo_geometry)
      (g_bitmap_start demo_geometry) (g_inode_table_start demo_geometry) (g_data_start demo_geometry) demo_manifest False"
  "length (superblock_encode (e_crc32 demo_ext) demo_format_sb) \<le> UB"
proof -
  show "demo_format_sb = superblock_standard (g_total_blocks demo_geometry) (g_inode_count demo_geometry)
      (g_bitmap_start demo_geometry) (g_inode_table_start demo_geometry) (g_data_start demo_geometry) demo_manifest False"
    by (simp add: demo_format_sb_def demo_geometry_def)
  show "length (superblock_encode (e_crc32 demo_ext) demo_format_sb) \<le> UB"
    using length_superblock_encode [of demo_format_sb]
    by (simp add: demo_format_sb_def superblock_standard_def FS_VERSION_def manifest_len_of_def demo_manifest_def header_len_of_def
        V1_HEADER_LEN_def V2_HEADER_LEN_def V3_HEADER_LEN_def MARKERLESS_FS_VERSION_def UB_val)
qed

lemmas demo_formatting = demo_codec_laws demo_jpeg_returns demo_usable(1) demo_separate demo_capacity demo_build
  demo_format_geometry demo_format_superblock demo_format_writable

theorem format_succeeds_witness:
  "\<exists>w'. format_with_anchor_options demo_ext None None True demo_world = (Ok \<lparr>fr_superblock = demo_format_sb, fr_anchor = None\<rparr>, w')"
  using format_succeeds [OF demo_formatting, of True] by simp

theorem format_intact_witness:
  "\<exists>w' a b. format_with_anchor_options demo_ext None None True demo_world =
      (Ok \<lparr>fr_superblock = demo_format_sb, fr_anchor = None\<rparr>, w') \<and>
    album_open demo_ext w' = Ok a \<and> album_ok demo_ext a \<and> fs_ok (disk demo_ext a) \<and>
    node (disk demo_ext a) = [1 \<mapsto> (S_IFDIR OR 0x1ED, 2, b)] \<and> dk_used (disk demo_ext a) = {..6}"
proof -
  obtain w' where run: "format_with_anchor_options demo_ext None None True demo_world =
      (Ok \<lparr>fr_superblock = demo_format_sb, fr_anchor = None\<rparr>, w')"
    using format_run [OF demo_formatting, of True] by blast
  have d: "unat (sb_data_start demo_format_sb) = 6" by (simp add: demo_format_sb_def superblock_standard_def)
  from format_intact [OF demo_codec_laws demo_jpeg_returns demo_usable demo_separate demo_capacity run] run d
  show ?thesis by auto
qed

text \<open>Carriers of the environment that have room for their blocks can be written.\<close>

lemma demo_capacity_image:
  assumes "codec_raw_capacity_bytes demo_ext k p fs = Ok raw"
  obtains img where "k = Png" "image_open demo_ext p fs = Ok img" "raw = png_raw_capacity (im_width img) (im_height img)"
proof -
  have k: "k = Png"
    using assms by (cases k) (auto simp: codec_raw_capacity_bytes_def jpeg_raw_capacity_bytes_def demo_ext_def
        read_coefficients_def)
  then obtain bs img where img: "fs p = Some bs" "demo_png_open bs = Some img" "raw = png_raw_capacity (im_width img) (im_height img)"
    using assms by (cases "fs p"; cases "demo_png_open (the (fs p))")
      (auto simp: codec_raw_capacity_bytes_def png_raw_capacity_bytes_def demo_ext_png)
  then have "image_open demo_ext p fs = Ok img" by (simp add: image_open_def demo_ext_png)
  then show thesis using k img(3) that by blast
qed

lemma demo_rooms:
  assumes r: "roomy demo_ext fs c" and len: "length b = unat (cs_block_count c * of_nat PB)" "length b \<noteq> 0" "length b \<le> 23 * PB"
  shows "\<exists>k fs'. codec_for_path (cs_path c) = Some k \<and> codec_write_chunk demo_ext k (cs_path c) (WriteFramed m) b [] fs = Ok fs'"
proof -
  obtain k raw where k: "codec_for_path (cs_path c) = Some k" "codec_raw_capacity_bytes demo_ext k (cs_path c) fs = Ok raw"
      "length b \<le> unat raw - CHUNK_HEADER_LEN" using r len(1) by (auto simp: roomy_def)
  obtain img where img: "k = Png" "image_open demo_ext (cs_path c) fs = Ok img" "raw = png_raw_capacity (im_width img) (im_height img)"
    by (rule demo_capacity_image [OF k(2)])
  have "\<exists>fs'. png_write_chunk demo_ext (cs_path c) (WriteFramed m) b [] fs = Ok fs'"
  proof (rule png_write_chunk_fits [OF demo_png_laws img(2)])
    show "e_png_save demo_ext i \<noteq> None" "e_fs_write demo_ext fs p bs" "e_fs_rename demo_ext fs p q" for i fs p q bs
      by (simp_all add: demo_ext_def demo_png_save_def)
    show "16 + length b \<le> unat (png_raw_capacity (im_width img) (im_height img))"
      using k(3) len(2) unfolding img(3) [symmetric] CHUNK_HEADER_LEN_def length_0_conv [symmetric] by linarith
    show "length b < 2 ^ 32" using len(3) by (simp add: PB_val)
  qed
  then show ?thesis using k(1) img(1) by (simp add: codec_write_chunk_def)
qed

lemma demo_pool_writable:
  fixes s :: "'a store_scheme"
  assumes p: "pool_of demo_ext sb s" and m: "map cr_block_count (sb_manifest sb) = [23]"
  shows "writable demo_ext s"
  unfolding writable_def
proof (intro allI impI)
  fix t :: "'a store_scheme" assume t: "static t = static s" "device_ok demo_ext t"
  have "map cr_block_count (sb_manifest sb) = map cs_block_count (bs_carriers s)"
    using p by (simp add: pool_of_def slot_range_def)
  then obtain c where c: "bs_carriers s = [c]" "cs_block_count c = 23" using m by (auto simp: map_eq_Cons_conv)
  then obtain d where d: "bs_carriers t = [d]" "cs_path d = cs_path c" "cs_block_count d = 23" "cs_block_start d = cs_block_start c"
    and e: "bs_encrypted t = bs_encrypted s" "w_files t = w_files s" using t(1) by (auto simp: static_def)
  have plain: "\<not> bs_encrypted t" and r: "roomy demo_ext (w_files t) d"
    using p c d(2,3) e by (auto simp: pool_of_def recorded_def roomy_def)
  show "\<exists>u. flush demo_ext t = (Ok (), u)"
  proof (cases "cs_dirty d")
    case False
    then show ?thesis using d by (simp add: flush_def flush_slot_def bind_def run_simps)
  next
    case True
    have ok: "store_ok demo_ext t" "synced demo_ext t" using t(2) by (simp_all add: device_ok_def)
    obtain b where b: "cs_buffer d = Some b" "length b = unat (cs_block_count d * of_nat PB)"
      using dirty_slot [OF ok, of 0] d(1) True by auto
    have len: "length b \<noteq> 0" "length b \<le> 23 * PB" using b(2) d(3) by (simp_all add: PB_val)
    obtain k fs' where "codec_for_path (cs_path d) = Some k" "codec_write_chunk demo_ext k (cs_path d)
        (WriteFramed \<lparr>cm_chunk_index = cs_chunk_index d, cm_flags = (if cs_is_primary d then 1 else 0)\<rparr>) b [] (w_files t) = Ok fs'"
      using demo_rooms [OF r b(2) len] by blast
    then show ?thesis
      using d b plain True by (simp add: flush_def flush_slot_def bind_def run_simps)
  qed
qed

theorem session_reopens_witness:
  "\<exists>w' a s v. format_with_anchor_options demo_ext None None True demo_world =
      (Ok \<lparr>fr_superblock = demo_format_sb, fr_anchor = None\<rparr>, w') \<and> album_open demo_ext w' = Ok a \<and>
    sync demo_ext a = (Ok (), s) \<and> album_open demo_ext (world.truncate s) = Ok v \<and> disk demo_ext v = disk demo_ext s"
proof -
  obtain w' where run: "format_with_anchor_options demo_ext None None True demo_world =
      (Ok \<lparr>fr_superblock = demo_format_sb, fr_anchor = None\<rparr>, w')"
    using format_run [OF demo_formatting, of True] by blast
  obtain a where a: "album_open demo_ext w' = Ok a" "album_ok demo_ext a" "pool_of demo_ext demo_format_sb a"
    using format_opens [OF demo_codec_laws demo_jpeg_returns demo_usable demo_separate demo_capacity run]
    unfolding album_open_def by auto
  have "writable demo_ext a"
    by (rule demo_pool_writable [OF a(3)]) (simp add: demo_format_sb_def superblock_standard_def demo_manifest_def)
  then have "wp (sync demo_ext) (\<lambda>_ s. durable demo_ext s) no_err a"
    by (intro wp_sync_writable [OF demo_codec_laws demo_jpeg_returns a(2)])
  then obtain s where s: "sync demo_ext a = (Ok (), s)" "durable demo_ext s" unfolding wp_no_err by auto
  have "(fs_step demo_ext)\<^sup>*\<^sup>* a s" using step_sync [OF s(1)] by blast
  from session_reopens [OF demo_codec_laws demo_jpeg_returns demo_usable demo_separate demo_capacity run a(1) this s(2)]
  show ?thesis using run a(1) s(1) by blast
qed

end
