(* ===== verification/StatsSpec.thy ===== *)
theory StatsSpec
  imports Stats Fuse FormatSpec
begin

text \<open>
  The usage report of \<^verbatim>\<open>src/fs/stats.rs\<close> against the album it was collected from, and against what
  \<open>statfs\<close> of \<^verbatim>\<open>src/fs/fuse.rs\<close> replies.
\<close>

subsection \<open>Counting inodes\<close>

lemma wp_count_inodes:
  fixes s :: "'a album_scheme"
  assumes "album_ok e s" "\<forall>n \<in> set ns. ino_ok (disk e s) n \<and> n < 2 ^ 64"
    and "\<And>t. album_ok e t \<Longrightarrow> disk e t = disk e s \<Longrightarrow>
      Q (k + length (filter (\<lambda>n. i_mode (inode_at (disk e s) n) \<noteq> 0) ns)) t"
  shows "wp (count_inodes e k ns) Q E s"
  using assms
proof (induction ns arbitrary: s k)
  case Nil
  then show ?case by (simp add: wp_simps)
next
  case (Cons n ns)
  have n: "unat (of_nat n :: u64) = n" "ino_ok (disk e s) n" using Cons.prems(2) unat_of_nat64 [of n] by simp_all
  have "wp (read_inode e (of_nat n)) (\<lambda>i. wp (count_inodes e (if i_mode i \<noteq> 0 then k + 1 else k) ns) Q E) E s"
  proof (rule wp_read_inode [OF Cons.prems(1)])
    show "ino_ok (disk e s) (unat (of_nat n :: u64))" using n by simp
    fix t :: "'a album_scheme" assume t: "album_ok e t" "disk e t = disk e s"
    show "wp (count_inodes e (if i_mode (inode_at (disk e s) (unat (of_nat n :: u64))) \<noteq> 0 then k + 1 else k) ns) Q E t"
      unfolding n(1)
      by (rule Cons.IH [OF t(1)]) (use Cons.prems(2,3) t(2) in auto)
  qed
  then show ?case by (simp add: wp_bind)
qed

lemma used_inodes_run:
  fixes s :: "'a album_scheme"
  assumes ok: "album_ok e s"
  shows "\<exists>t. used_inodes e s = (Ok (card {n. inode_used (disk e s) n}), t) \<and> album_ok e t \<and> disk e t = disk e s"
    "card {n. inode_used (disk e s) n} \<le> unat (sb_inode_count (al_sb s))"
proof -
  let ?n = "unat (sb_inode_count (al_sb s))"
  let ?p = "\<lambda>n. i_mode (inode_at (disk e s) n) \<noteq> 0"
  have sb: "dk_sb (disk e s) = al_sb s" by (simp add: disk_def)
  have io: "ino_ok (disk e s) n \<longleftrightarrow> n \<in> set [1..<Suc ?n]" for n by (auto simp: ino_ok_def sb)
  have b: "?n < 2 ^ 64" by (rule unat_u64)
  have "set (filter ?p [1..<Suc ?n]) = {n. inode_used (disk e s) n}"
    using io by (auto simp: inode_used_def)
  then have c: "length (filter ?p [1..<Suc ?n]) = card {n. inode_used (disk e s) n}"
    by (metis distinct_card distinct_filter distinct_upt)
  have "wp (count_inodes e 0 [1..<Suc ?n]) (\<lambda>r t. r = length (filter ?p [1..<Suc ?n]) \<and> album_ok e t \<and> disk e t = disk e s) no_err s"
    by (rule wp_count_inodes [OF ok]) (use io b in auto)
  from wp_Ok_run [OF this] show "\<exists>t. used_inodes e s = (Ok (card {n. inode_used (disk e s) n}), t) \<and> album_ok e t \<and> disk e t = disk e s"
    unfolding c by (simp add: used_inodes_def inode_count_def bind_def run_simps del: upt_Suc)
  show "card {n. inode_used (disk e s) n} \<le> ?n"
    unfolding c [symmetric] using length_filter_le [of ?p "[1..<Suc ?n]"] by (simp del: upt_Suc)
qed


subsection \<open>Counting blocks\<close>

text \<open>The manifest of a store that was opened tiles its blocks.\<close>

lemma open_with_geometry:
  assumes "open_with_passphrase e pw w = Ok (sb, s) \<or> open_with_anchor e anchor secret w = Ok (sb, s)"
  shows "validate_manifest_geometry sb = Ok ()"
  using assms
  by (auto simp: open_with_passphrase_def open_plaintext_def open_with_anchor_def Let_def split_def split: if_splits)

lemma range_used:
  assumes "a \<le> b"
  shows "length (filter (is_set bm) [a..<b]) + length (filter (\<lambda>l. \<not> is_set bm l) [a..<b]) = b - a"
  using sum_length_filter_compl [of "is_set bm" "[a..<b]"] by simp

lemma manifest_counts:
  "validate_ranges a ms = Ok n \<Longrightarrow> unat a \<le> unat n \<and>
     (\<Sum>r \<leftarrow> ms. unat (cr_block_count r)) = unat n - unat a \<and>
     (\<Sum>r \<leftarrow> ms. cf_used_blocks (carrier_fill_of bm r)) = length (filter (is_set bm) [unat a..<unat n])"
proof (induction a ms rule: validate_ranges.induct)
  case (2 a r ms)
  then have r: "cr_block_start r = a" "unat a + unat (cr_block_count r) \<le> MAX64"
    "validate_ranges (a + cr_block_count r) ms = Ok n" by (auto split: if_splits)
  then have s: "unat (a + cr_block_count r) = unat a + unat (cr_block_count r)"
    by (simp add: unat_word_ariths MAX64_def)
  note IH = 2(1) [OF _ _ r(3)]
  have "[unat a..<unat n] = [unat a..<unat a + unat (cr_block_count r)] @ [unat a + unat (cr_block_count r)..<unat n]"
    if "unat a + unat (cr_block_count r) \<le> unat n" using that upt_add_eq_append [of "unat a" "unat a + unat (cr_block_count r)" "unat n - (unat a + unat (cr_block_count r))"] by simp
  then show ?case using IH r s 2(2) by (auto simp: carrier_fill_of_def split: if_splits)
qed simp

lemma opened_counts:
  assumes "validate_manifest_geometry sb = Ok ()"
  shows "(\<Sum>c \<leftarrow> map (carrier_fill_of bm) (sb_manifest sb). unat (cf_capacity_blocks c)) = unat (sb_total_blocks sb)"
    "(\<Sum>c \<leftarrow> map (carrier_fill_of bm) (sb_manifest sb). cf_used_blocks c) =
       length (filter (is_set bm) [0..<unat (sb_total_blocks sb)])"
proof -
  have "validate_ranges 0 (sb_manifest sb) = Ok (sb_total_blocks sb)"
    using assms by (auto simp: validate_manifest_geometry_def split: if_splits)
  from manifest_counts [OF this, of bm]
  show "(\<Sum>c \<leftarrow> map (carrier_fill_of bm) (sb_manifest sb). unat (cf_capacity_blocks c)) = unat (sb_total_blocks sb)"
    "(\<Sum>c \<leftarrow> map (carrier_fill_of bm) (sb_manifest sb). cf_used_blocks c) =
       length (filter (is_set bm) [0..<unat (sb_total_blocks sb)])"
    by (simp_all add: o_def carrier_fill_of_def)
qed


subsection \<open>The report\<close>

text \<open>C23: The usage report of an intact album, whose manifest tiles its blocks as opening it checks, agrees with
  the album and with what \<open>statfs\<close> replies when it is mounted: the free blocks are those the bitmap does not mark, the used inodes those with a mode, no more
  than there are; the capacities of the carriers add up to all blocks, and their used blocks to the blocks
  that are not free.\<close>

theorem stats_agree:
  assumes m: "validate_manifest_geometry sb = Ok ()"
    and a: "album_open_store e (Ok (sb, s)) = Ok a" "album_ok e a"
  shows "\<exists>st t. collect_opened e sb s = Ok st \<and>
    fuse_statfs e (fuse_new a) = (Ok \<lparr>st_blocks = ss_total_blocks st, st_bfree = ss_free_blocks st, st_bavail = ss_free_blocks st,
      st_files = ss_total_inodes st, st_ffree = ss_total_inodes st - of_nat (ss_used_inodes st),
      st_bsize = 4096, st_namelen = 255, st_frsize = 4096\<rparr>, t) \<and>
    ss_free_blocks st = card ({..<dk_total (disk e a)} - dk_used (disk e a)) \<and>
    ss_used_inodes st = card {n. inode_used (disk e a) n} \<and> ss_used_inodes st \<le> unat (ss_total_inodes st) \<and>
    (\<Sum>c \<leftarrow> ss_carriers st. cf_used_blocks c) + ss_free_blocks st = unat (ss_total_blocks st) \<and>
    (\<Sum>c \<leftarrow> ss_carriers st. unat (cf_capacity_blocks c)) = unat (ss_total_blocks st)"
proof -
  obtain bm u where l: "load_bitmap e sb s = (Ok bm, u)" and aa: "a = album_of u sb bm"
    using a(1) by (auto simp: album_open_store_def split: prod.splits res.splits)
  have sel: "al_sb a = sb" "al_bitmap a = bm" by (simp_all add: aa album_of_sel)
  have bm: "bm_total bm = unat (sb_total_blocks sb)" using a(2) by (simp add: album_ok_def sel)
  obtain t where t: "used_inodes e a = (Ok (card {n. inode_used (disk e a) n}), t)" "disk e t = disk e a"
    using used_inodes_run(1) [OF a(2)] by blast
  have sb: "al_sb t = sb" "al_bitmap t = bm" using t(2) sel by (simp_all add: disk_def)
  note G = opened_counts [OF m, of bm]
  let ?st = "\<lparr>ss_block_size = sb_block_size sb, ss_total_blocks = sb_total_blocks sb, ss_free_blocks = count_free bm,
      ss_used_inodes = card {n. inode_used (disk e a) n}, ss_total_inodes = sb_inode_count sb, ss_encrypted = sb_encrypted sb,
      ss_carriers = map (carrier_fill_of bm) (sb_manifest sb)\<rparr>"
  have c: "collect_opened e sb s = Ok ?st"
    using t(1) by (simp add: collect_opened_def l aa)
  have "fuse_statfs e (fuse_new a) = (Ok \<lparr>st_blocks = sb_total_blocks sb, st_bfree = count_free bm, st_bavail = count_free bm,
      st_files = sb_inode_count sb, st_ffree = sb_inode_count sb - of_nat (card {n. inode_used (disk e a) n}),
      st_bsize = 4096, st_namelen = 255, st_frsize = 4096\<rparr>, fuse_new t)"
    using t(1) by (simp add: fuse_statfs_def lock_def fuse_new_def bind_def run_simps total_blocks_def free_blocks_def
        inode_count_def sb)
  moreover have "count_free bm = card ({..<dk_total (disk e a)} - dk_used (disk e a))"
    by (simp add: count_free_card disk_def sel bm)
  moreover have "length (filter (is_set bm) [0..<unat (sb_total_blocks sb)]) + count_free bm = unat (sb_total_blocks sb)"
    unfolding count_free_def bm using range_used [of 0 "unat (sb_total_blocks sb)" bm] by simp
  ultimately show ?thesis
    using c G used_inodes_run(2) [OF a(2)] sel(1) by (intro exI [of _ ?st] exI [of _ "fuse_new t"]) simp
qed

end
