(* ===== verification/StatsWitnesses.thy ===== *)
theory StatsWitnesses
  imports FormatWitnesses StatsSpec
begin

text \<open>The report on the album that formatting the small image leaves.\<close>

theorem stats_agree_witness:
  "\<exists>w' s a st t. format_with_anchor_options demo_ext None None True demo_world =
      (Ok \<lparr>fr_superblock = demo_format_sb, fr_anchor = None\<rparr>, w') \<and>
    open_pool demo_ext w' = Ok (demo_format_sb, s) \<and> album_open_store demo_ext (Ok (demo_format_sb, s)) = Ok a \<and>
    collect_opened demo_ext demo_format_sb s = Ok st \<and>
    fuse_statfs demo_ext (fuse_new a) = (Ok \<lparr>st_blocks = ss_total_blocks st, st_bfree = ss_free_blocks st,
      st_bavail = ss_free_blocks st, st_files = ss_total_inodes st, st_ffree = ss_total_inodes st - of_nat (ss_used_inodes st),
      st_bsize = 4096, st_namelen = 255, st_frsize = 4096\<rparr>, t) \<and>
    ss_used_inodes st = card {n. inode_used (disk demo_ext a) n}"
proof -
  obtain w' where run: "format_with_anchor_options demo_ext None None True demo_world =
      (Ok \<lparr>fr_superblock = demo_format_sb, fr_anchor = None\<rparr>, w')"
    using format_run [OF demo_formatting, of True] by blast
  obtain s a where u: "open_pool demo_ext w' = Ok (demo_format_sb, s)" "album_open_store demo_ext (Ok (demo_format_sb, s)) = Ok a"
    "album_ok demo_ext a" "validate_manifest_geometry demo_format_sb = Ok ()"
    using format_opens [OF demo_codec_laws demo_jpeg_returns demo_usable demo_separate demo_capacity run] by auto
  from stats_agree [OF u(4,2,3)] run u(1,2) show ?thesis by blast
qed

end
