(* ===== verification/DirHostile.thy ===== *)
theory DirHostile
  imports DirChain
begin

text \<open>
  The loops over a directory block on bytes nobody has vetted: a carrier may have been changed by others,
  so nothing is assumed of the block but its length.
\<close>

text \<open>The records of a chain lie one behind the other and are at least 12 bytes long.\<close>

lemma scan_records:
  assumes "scan_entries p off = Ok es" "length p = UB" "off \<le> UB"
  shows "off + 12 * length es \<le> UB"
    "\<forall>(o', x) \<in> set es. off \<le> o' \<and> o' + rec_len x \<le> UB \<and> 4 dvd rec_len x \<and>
       12 + length (d_name x) \<le> rec_len x \<and> length (d_name x) \<le> 255 \<and> utf8_valid (d_name x)"
    "\<forall>i. Suc i < length es \<longrightarrow> fst (es ! Suc i) = fst (es ! i) + rec_len (snd (es ! i))"
    "es \<noteq> [] \<longrightarrow> fst (hd es) = off \<and> fst (last es) + rec_len (snd (last es)) = UB"
proof -
  have "off + 12 * length es \<le> UB \<and>
    (\<forall>(o', x) \<in> set es. off \<le> o' \<and> o' + rec_len x \<le> UB \<and> 4 dvd rec_len x \<and>
       12 + length (d_name x) \<le> rec_len x \<and> length (d_name x) \<le> 255 \<and> utf8_valid (d_name x)) \<and>
    (\<forall>i. Suc i < length es \<longrightarrow> fst (es ! Suc i) = fst (es ! i) + rec_len (snd (es ! i))) \<and>
    (es \<noteq> [] \<longrightarrow> fst (hd es) = off \<and> fst (last es) + rec_len (snd (last es)) = UB)"
    using assms
  proof (induction es arbitrary: off)
    case (Cons x es)
    obtain e where x: "x = (off, e)" and d: "dirent_decode p off = Ok e" and s: "scan_entries p (off + rec_len e) = Ok es"
      using Cons.prems(1) by (cases x) (auto simp: scan_Cons_iff)
    note D = dirent_decode_OkD [OF d, folded rec_len_def] dirent_decode_name_len [OF d]
    have le: "off + rec_len e \<le> UB" using D(3) Cons.prems(2) by simp
    note IH = Cons.IH [OF s Cons.prems(2) le]
    have end': "off + rec_len e = UB" if "es = []" using s le that by (simp add: scan_Nil_iff)
    have next': "fst ((x # es) ! Suc i) = fst ((x # es) ! i) + rec_len (snd ((x # es) ! i))" if "Suc i < length (x # es)" for i
    proof (cases i)
      case 0
      with that IH show ?thesis by (cases es) (auto simp: x)
    next
      case (Suc j)
      with that IH show ?thesis by simp
    qed
    have tail: "\<forall>(o', x) \<in> set es. off \<le> o' \<and> o' + rec_len x \<le> UB \<and> 4 dvd rec_len x \<and>
       12 + length (d_name x) \<le> rec_len x \<and> length (d_name x) \<le> 255 \<and> utf8_valid (d_name x)"
      using IH by force
    have bound: "off + 12 * length (x # es) \<le> UB" using IH D(4) by simp
    have lst: "fst (last (x # es)) + rec_len (snd (last (x # es))) = UB" using IH end' by (simp add: x)
    show ?case using tail bound lst next' D le by (simp add: x)
  qed simp
  then show "off + 12 * length es \<le> UB"
    "\<forall>(o', x) \<in> set es. off \<le> o' \<and> o' + rec_len x \<le> UB \<and> 4 dvd rec_len x \<and>
       12 + length (d_name x) \<le> rec_len x \<and> length (d_name x) \<le> 255 \<and> utf8_valid (d_name x)"
    "\<forall>i. Suc i < length es \<longrightarrow> fst (es ! Suc i) = fst (es ! i) + rec_len (snd (es ! i))"
    "es \<noteq> [] \<longrightarrow> fst (hd es) = off \<and> fst (last es) + rec_len (snd (last es)) = UB" by blast+
qed

lemma dirent_decode_Err: "dirent_decode p off = Err x \<Longrightarrow> \<exists>m. x = Manifest m"
  by (auto simp: dirent_decode_def Let_def split: if_splits)

lemma scan_Err: "scan_entries p off = Err x \<Longrightarrow> \<exists>m. x = Manifest m"
proof (induction p off rule: scan_entries.induct)
  case (1 p off)
  show ?case
  proof (cases "off < UB")
    case True
    show ?thesis
    proof (cases "dirent_decode p off")
      case (Ok e)
      from 1(2) True Ok have "scan_entries p (off + unat (d_rec_len e)) = Err x"
        by (subst (asm) scan_entries.simps) (cases "scan_entries p (off + unat (d_rec_len e))"; simp)
      with 1(1) [OF True] Ok show ?thesis by blast
    next
      case (Err y)
      with 1(2) True have "y = x" by (subst (asm) scan_entries.simps) simp
      with dirent_decode_Err [OF Err] show ?thesis by simp
    qed (use dirent_decode_no_panic in auto)
  next
    case False
    then show ?thesis using 1(2) by (subst (asm) scan_entries.simps) simp
  qed
qed

text \<open>Every loop returns: it reports a bad block, finds no record, or returns a block of the same length.\<close>

definition returns_block :: "nat \<Rightarrow> (bytes option, fs_error) res \<Rightarrow> bool" where
  "returns_block n r \<longleftrightarrow> (case r of Ok None \<Rightarrow> True | Ok (Some q) \<Rightarrow> length q = n | Err x \<Rightarrow> (\<exists>m. x = Manifest m) | Panic \<Rightarrow> False)"

lemma returns_block_simps [simp]:
  "returns_block n (Ok None)" "returns_block n (Ok (Some q)) \<longleftrightarrow> length q = n" "returns_block n (Err (Manifest m))"
  by (simp_all add: returns_block_def)

lemma returns_block_if:
  assumes "c \<Longrightarrow> returns_block n x" "\<not> c \<Longrightarrow> returns_block n y"
  shows "returns_block n (if c then x else y)"
  using assms by simp

lemma returns_block_decode:
  assumes "\<And>e. dirent_decode p off = Ok e \<Longrightarrow> returns_block n (f e)"
  shows "returns_block n (and_then (dirent_decode p off) f)"
proof (cases "dirent_decode p off")
  case (Err x)
  with dirent_decode_Err [OF Err] show ?thesis by auto
qed (use assms dirent_decode_no_panic in auto)

text \<open>A record written into a range of the block.\<close>

lemma returns_block_record:
  assumes "b + r \<le> length p" "length p = n"
  shows "returns_block n (and_then (dirent_new i name ft r) (\<lambda>e.
    and_then (dirent_encode_into e (slice p b (b + r))) (\<lambda>t. Ok (Some (put p b t)))))"
proof (cases "dirent_new i name ft r")
  case (Ok e)
  show ?thesis
  proof (cases "dirent_encode_into e (slice p b (b + r))")
    case (Ok t)
    have "length t = r" using dirent_encode_into_Ok(3) [OF Ok] assms by simp
    with Ok \<open>dirent_new i name ft r = Ok e\<close> assms show ?thesis by simp
  qed (use Ok in \<open>auto simp: dirent_encode_into_def Let_def split: if_splits\<close>)
qed (auto simp: dirent_new_def split: if_splits)

lemma insert_entry_returns:
  "length p = UB \<Longrightarrow> returns_block UB (insert_entry p off i name ft needed)"
proof (induction p off i name ft needed rule: insert_entry.induct)
  case (1 p off i name ft needed)
  show ?case
    unfolding insert_entry.simps [of p off] Let_def
  proof (intro returns_block_if returns_block_decode returns_block_record)
    fix e assume off: "off < UB" and e: "dirent_decode p off = Ok e"
    note D = dirent_decode_OkD [OF e] dirent_decode_minimal [OF e]
    show "off + unat (d_rec_len e) \<le> length p" "length p = UB" using D(3) 1(2) by simp_all
    show l: "length (put p (off + 8) (to_le 2 (of_nat (required_len (length (d_name e))) :: u16))) = UB"
      using D(3,4) 1(2) by simp
    show "off + required_len (length (d_name e)) + (unat (d_rec_len e) - required_len (length (d_name e))) \<le>
        length (put p (off + 8) (to_le 2 (of_nat (required_len (length (d_name e))) :: u16)))"
      unfolding l using D(3,8) 1(2) by simp
    assume "\<not> (d_inode e = 0 \<and> needed \<le> unat (d_rec_len e))"
      "\<not> (d_inode e \<noteq> 0 \<and> needed \<le> unat (d_rec_len e) - required_len (length (d_name e)))"
    then show "returns_block UB (insert_entry p (off + unat (d_rec_len e)) i name ft needed)"
      using 1(1) [OF off e refl _ refl _ 1(2)] by simp
  qed simp
qed

lemma remove_entry_returns:
  "length p = UB \<Longrightarrow> (\<And>o'. prev = Some o' \<Longrightarrow> o' + 10 \<le> UB) \<Longrightarrow> returns_block UB (remove_entry p off prev name)"
proof (induction p off prev name rule: remove_entry.induct)
  case (1 p off prev name)
  show ?case
    unfolding remove_entry.simps [of p off] Let_def
  proof (intro returns_block_if returns_block_decode)
    fix e assume off: "off < UB" and e: "dirent_decode p off = Ok e"
    note D = dirent_decode_OkD [OF e]
    show "returns_block UB (case prev of Some o' \<Rightarrow> Ok (Some (put p (o' + 8) (to_le 2
          (of_nat (unat (from_le (slice p (o' + 8) (o' + 10)) :: u16) + unat (d_rec_len e)) :: u16))))
        | None \<Rightarrow> Ok (Some (put p off (replicate 8 0))))"
      using 1(2,3) D(3,4) by (cases prev) auto
    assume g: "\<not> (d_inode e \<noteq> 0 \<and> d_name e = name)"
    show "returns_block UB (remove_entry p (off + unat (d_rec_len e)) (if d_inode e \<noteq> 0 then Some off else prev) name)"
      by (rule 1(1) [OF off e refl g 1(2)]) (use 1(2,3) D(3,4) in \<open>auto split: if_splits\<close>)
  qed simp
qed

lemma retarget_returns:
  "length p = UB \<Longrightarrow> returns_block UB (retarget_dotdot p off parent)"
proof (induction p off parent rule: retarget_dotdot.induct)
  case (1 p off parent)
  show ?case
    unfolding retarget_dotdot.simps [of p off]
  proof (intro returns_block_if returns_block_decode)
    fix e assume off: "off < UB" and e: "dirent_decode p off = Ok e"
    note D = dirent_decode_OkD [OF e]
    show "returns_block UB (Ok (Some (put p off (to_le 8 parent))))" using 1(2) D(3,4) by simp
    assume g: "\<not> (d_inode e \<noteq> 0 \<and> d_name e = [46, 46])"
    show "returns_block UB (retarget_dotdot p (off + unat (d_rec_len e)) parent)"
      by (rule 1(1) [OF off e g 1(2)])
  qed simp
qed

text \<open>C30: On a directory block of any bytes the record loops return, without a panic. The chain they run over
  has at most \<open>UB / 12\<close> records, which lie one behind the other from the first byte of the block to its last,
  with names in UTF-8 inside their records; or the block is reported as bad. What an insertion, a
  removal or the rewrite of \<open>..\<close> returns has the length of the block.\<close>

theorem hostile_directory_block:
  assumes "length p = UB"
  shows "(case scan_entries p 0 of
      Ok es \<Rightarrow> es \<noteq> [] \<and> length es \<le> UB div 12 \<and> fst (hd es) = 0 \<and>
        (\<forall>i. Suc i < length es \<longrightarrow> fst (es ! Suc i) = fst (es ! i) + rec_len (snd (es ! i))) \<and>
        fst (last es) + rec_len (snd (last es)) = UB \<and>
        (\<forall>(off, e) \<in> set es. 12 + length (d_name e) \<le> rec_len e \<and> off + rec_len e \<le> UB \<and>
           length (d_name e) \<le> 255 \<and> utf8_valid (d_name e))
    | Err x \<Rightarrow> \<exists>m. x = Manifest m
    | Panic \<Rightarrow> False) \<and>
    returns_block UB (insert_entry p 0 ino name ft needed) \<and>
    returns_block UB (remove_entry p 0 None name) \<and>
    returns_block UB (retarget_dotdot p 0 parent)"
proof (intro conjI)
  show "(case scan_entries p 0 of
      Ok es \<Rightarrow> es \<noteq> [] \<and> length es \<le> UB div 12 \<and> fst (hd es) = 0 \<and>
        (\<forall>i. Suc i < length es \<longrightarrow> fst (es ! Suc i) = fst (es ! i) + rec_len (snd (es ! i))) \<and>
        fst (last es) + rec_len (snd (last es)) = UB \<and>
        (\<forall>(off, e) \<in> set es. 12 + length (d_name e) \<le> rec_len e \<and> off + rec_len e \<le> UB \<and>
           length (d_name e) \<le> 255 \<and> utf8_valid (d_name e))
    | Err x \<Rightarrow> \<exists>m. x = Manifest m
    | Panic \<Rightarrow> False)"
  proof (cases "scan_entries p 0")
    case (Ok es)
    note S = scan_records [OF Ok assms]
    have ne: "es \<noteq> []" using Ok by (auto simp: scan_Nil_iff UB_val)
    have "length es \<le> UB div 12" using S(1) by simp
    then show ?thesis using S ne Ok by auto
  qed (use scan_Err scan_no_panic in auto)
qed (rule insert_entry_returns [OF assms] remove_entry_returns [OF assms] retarget_returns [OF assms], simp?)+

theorem hostile_directory_block_witness:
  "\<exists>m. scan_entries (replicate UB 0xFF) 0 = Err (Manifest m)"
proof -
  have l: "length (replicate UB 0xFF :: bytes) = UB" by simp
  have "10 \<le> UB" "UB \<le> MAX64" by (simp_all add: UB_val MAX64_def)
  then have "slice (replicate UB 0xFF) 8 10 = [0xFF, 0xFF :: u8]" by (simp add: slice_replicate numeral_2_eq_2)
  then have "dirent_decode (replicate UB 0xFF) 0 \<noteq> Ok e" for e
    using dirent_decode_Ok_iff [of "replicate UB 0xFF" 0 e] \<open>UB \<le> MAX64\<close> by (auto simp: decodes_def)
  then have ne: "scan_entries (replicate UB 0xFF) 0 \<noteq> Ok es" for es
    using \<open>10 \<le> UB\<close> by (cases es) (auto simp: scan_Nil_iff scan_Cons_iff)
  show ?thesis
  proof (cases "scan_entries (replicate UB 0xFF) 0")
    case (Err x)
    then show ?thesis using conjunct1 [OF hostile_directory_block [OF l]] by simp
  qed (use ne conjunct1 [OF hostile_directory_block [OF l]] in simp_all)
qed

end
