(* ===== verification/FusePages.thy ===== *)
theory FusePages
  imports Fuse DirSpec
begin

text \<open>
  Listing a directory through \<^verbatim>\<open>src/fs/fuse.rs\<close>: the kernel has a buffer of some size, so it asks again from
  the offset of the last entry it received until a reply is empty.
\<close>

type_synonym dir_item = "u64 \<times> int \<times> file_kind \<times> bytes"

definition item_of :: "(u64 \<times> bytes \<times> u8) list \<Rightarrow> nat \<Rightarrow> dir_item" where
  "item_of entries k = (let (ino, name, ft) = entries ! k
     in (ino, int k + 1, (if ft = 2 then Directory else RegularFile), name))"

text \<open>One reply: a part of the entries from the offset on, which is empty only where there are none left.\<close>

lemma fill_reply_part:
  "\<exists>k. fill_reply full entries acc (map (\<lambda>i. (i, int i + 1)) js) = acc @ map (item_of entries) (take k js) \<and>
     (js \<noteq> [] \<longrightarrow> (\<forall>x. \<not> full acc x) \<longrightarrow> k \<noteq> 0)"
proof (induction js arbitrary: acc)
  case (Cons j js)
  have item: "fill_reply full entries acc (map (\<lambda>i. (i, int i + 1)) (j # js)) =
    (if full acc (item_of entries j) then acc
     else fill_reply full entries (acc @ [item_of entries j]) (map (\<lambda>i. (i, int i + 1)) js))"
    by (cases "entries ! j") (simp add: item_of_def)
  show ?case
  proof (cases "full acc (item_of entries j)")
    case True
    then have "\<not> (\<forall>x. \<not> full acc x)" by blast
    then show ?thesis unfolding item if_P [OF True] by (intro exI [of _ 0]) (simp only: take_0 list.map append_Nil2, blast)
  next
    case False
    obtain k where "fill_reply full entries (acc @ [item_of entries j]) (map (\<lambda>i. (i, int i + 1)) js) =
      (acc @ [item_of entries j]) @ map (item_of entries) (take k js)"
      using Cons.IH by blast
    then show ?thesis unfolding item using False by (intro exI [of _ "Suc k"]) simp
  qed
qed simp

lemma readdir_reply:
  assumes ok: "album_ok e (fu_fs s)" "\<not> fu_poisoned s" and fs: "fs_ok (disk e (fu_fs s))"
    and n: "node (disk e (fu_fs s)) (unat ino) = Some (m, l, xs)" "m AND S_IFMT = S_IFDIR"
    and full: "\<And>x. \<not> full [] x" and off: "off \<le> length (dir_list xs)"
  obtains k t where "fuse_readdir e full ino (int off) s = (Ok (map (item_of (dir_list xs)) [off..<k]), t)"
    "album_ok e (fu_fs t)" "disk e (fu_fs t) = disk e (fu_fs s)" "\<not> fu_poisoned t"
    "k \<le> length (dir_list xs)" "off \<le> k" "off < length (dir_list xs) \<Longrightarrow> off < k"
proof -
  let ?es = "dir_list xs" and ?js = "[off..<length (dir_list xs)]"
  obtain a where a: "readdir e ino (fu_fs s) = (Ok ?es, a)" "album_ok e a" "disk e a = disk e (fu_fs s)"
    using lookup_run(2) [OF ok(1) fs, of ino] n by auto
  obtain k where k: "fill_reply full ?es [] (map (\<lambda>i. (i, int i + 1)) ?js) = map (item_of ?es) (take k ?js)"
    "?js \<noteq> [] \<longrightarrow> k \<noteq> 0"
    using fill_reply_part [of full ?es "[]" ?js] full by auto
  have "readdir_page (length ?es) (int off) (length ?es) = map (\<lambda>i. (i, int i + 1)) ?js"
    by (simp add: readdir_page_def)
  then have "fuse_readdir e full ino (int off) s = (Ok (map (item_of ?es) (take k ?js)), s\<lparr>fu_fs := a\<rparr>)"
    using a(1) ok(2) k(1) by (simp add: fuse_readdir_def lock_def bind_def run_simps)
  moreover have "take k ?js = [off..<min (off + k) (length ?es)]" by (simp add: take_upt min_def)
  ultimately show thesis
    by (intro that [of "min (off + k) (length ?es)" "s\<lparr>fu_fs := a\<rparr>"]) (use a k(2) off ok(2) in auto)
qed

text \<open>
  The kernel's loop, with fuel for the replies: \<open>None\<close> when it has not come to an empty one.
\<close>

fun read_pages :: "nat \<Rightarrow> ext \<Rightarrow> (dir_item list \<Rightarrow> dir_item \<Rightarrow> bool) \<Rightarrow> u64 \<Rightarrow> int \<Rightarrow>
    (fuse_state, dir_item list option, int) prog" where
  "read_pages 0 e full ino offset = ret None"
| "read_pages (Suc fuel) e full ino offset =
     bind (fuse_readdir e full ino offset) (\<lambda>page.
     if page = [] then ret (Some [])
     else
       bind (read_pages fuel e full ino (fst (snd (last page)))) (\<lambda>rest.
       ret (map_option (\<lambda>rest. page @ rest) rest)))"

lemma read_pages_run:
  assumes ok: "album_ok e (fu_fs s)" "\<not> fu_poisoned s" and fs: "fs_ok (disk e (fu_fs s))"
    and n: "node (disk e (fu_fs s)) (unat ino) = Some (m, l, xs)" "m AND S_IFMT = S_IFDIR"
    and full: "\<And>x. \<not> full [] x" and off: "off \<le> length (dir_list xs)" "length (dir_list xs) - off < fuel"
  shows "\<exists>t. read_pages fuel e full ino (int off) s =
      (Ok (Some (map (item_of (dir_list xs)) [off..<length (dir_list xs)])), t) \<and>
    album_ok e (fu_fs t) \<and> disk e (fu_fs t) = disk e (fu_fs s) \<and> \<not> fu_poisoned t"
  using ok fs n off
proof (induction fuel arbitrary: s off)
  case (Suc fuel)
  let ?es = "dir_list xs"
  obtain k t where t: "fuse_readdir e full ino (int off) s = (Ok (map (item_of ?es) [off..<k]), t)"
    "album_ok e (fu_fs t)" "disk e (fu_fs t) = disk e (fu_fs s)" "\<not> fu_poisoned t"
    "k \<le> length ?es" "off \<le> k" "off < length ?es \<Longrightarrow> off < k"
    by (rule readdir_reply [where full = full, OF Suc.prems(1-5) full Suc.prems(6)]) (rule that)
  show ?case
  proof (cases "off < length ?es")
    case True
    then have ne: "[off..<k] \<noteq> []" "last [off..<k] = k - 1" "off < k" using t(7) by simp_all
    then have nxt: "fst (snd (last (map (item_of ?es) [off..<k]))) = int k"
      by (simp add: last_map item_of_def split_def Let_def)
    have lt: "length ?es - k < fuel" using ne(3) True Suc.prems(7) by linarith
    have "\<exists>u. read_pages fuel e full ino (int k) t = (Ok (Some (map (item_of ?es) [k..<length ?es])), u) \<and>
      album_ok e (fu_fs u) \<and> disk e (fu_fs u) = disk e (fu_fs t) \<and> \<not> fu_poisoned u"
      by (rule Suc.IH [OF t(2,4) _ _ _ t(5) lt]) (use t(3) Suc.prems(3-5) in simp_all)
    then obtain u where u: "read_pages fuel e full ino (int k) t = (Ok (Some (map (item_of ?es) [k..<length ?es])), u)"
      "album_ok e (fu_fs u)" "disk e (fu_fs u) = disk e (fu_fs t)" "\<not> fu_poisoned u" by blast
    have "[off..<length ?es] = [off..<k] @ [k..<length ?es]"
      using upt_add_eq_append [of off k "length ?es - k"] t(5,6) by simp
    then show ?thesis using t(1,3) u ne(1) by (simp add: bind_def run_simps nxt del: upt_Suc)
  next
    case False
    then have "[off..<k] = []" "[off..<length ?es] = []" using t(5) by simp_all
    then show ?thesis using t(1-4) by (simp add: bind_def run_simps)
  qed
qed simp

text \<open>C13: Listing a directory of an intact mounted album through replies of any size ends: after at most one
  reply for every entry and an empty one the kernel has every entry once, in the order of the
  directory, with the directory's own numbers, kinds and names, if the buffer holds at least one entry.
  Nothing is changed and the lock stays usable.\<close>

theorem readdir_pages:
  assumes "album_ok e (fu_fs s)" "\<not> fu_poisoned s" "fs_ok (disk e (fu_fs s))"
    and "node (disk e (fu_fs s)) (unat ino) = Some (m, l, xs)" "m AND S_IFMT = S_IFDIR"
    and "\<And>x. \<not> full [] x" "length (dir_list xs) < fuel"
  shows "\<exists>items t. read_pages fuel e full ino 0 s = (Ok (Some items), t) \<and>
    map (\<lambda>(i, _, kind, name). (i, kind, name)) items =
      map (\<lambda>(i, name, ft). (i, if ft = FILE_TYPE_DIR then Directory else RegularFile, name)) (dir_list xs) \<and>
    map (\<lambda>(_, offset, _). offset) items = map int [1..<Suc (length (dir_list xs))] \<and>
    album_ok e (fu_fs t) \<and> disk e (fu_fs t) = disk e (fu_fs s) \<and> \<not> fu_poisoned t"
proof -
  let ?es = "dir_list xs"
  obtain t where t: "read_pages fuel e full ino 0 s = (Ok (Some (map (item_of ?es) [0..<length ?es])), t)"
    "album_ok e (fu_fs t)" "disk e (fu_fs t) = disk e (fu_fs s)" "\<not> fu_poisoned t"
    using read_pages_run [of e s ino m l xs full 0 fuel] assms by auto
  have "map (\<lambda>(i, _, kind, name). (i, kind, name)) (map (item_of ?es) [0..<length ?es]) =
      map (\<lambda>(i, name, ft). (i, if ft = FILE_TYPE_DIR then Directory else RegularFile, name)) ?es"
    by (rule nth_equalityI) (simp_all add: item_of_def FILE_TYPE_DIR_def split_def Let_def)
  moreover have "map (\<lambda>(_, offset, _). offset) (map (item_of ?es) [0..<length ?es]) = map int [1..<Suc (length ?es)]"
    by (rule nth_equalityI) (simp_all add: item_of_def split_def Let_def del: upt_Suc)
  ultimately show ?thesis using t by blast
qed

end
