(* ===== verification/FuseSafe.thy ===== *)
theory FuseSafe
  imports FusePages FsReach StatsSpec
begin

text \<open>
  The handlers of \<^verbatim>\<open>src/fs/fuse.rs\<close> on an intact mounted album: none panics, so none poisons the lock;
  the ones that reply with a value keep the album intact.
\<close>

subsection \<open>Attributes\<close>

text \<open>Mode, owner and times change, neither the type nor the bytes of the file.\<close>

definition same_file :: "inode \<Rightarrow> inode \<Rightarrow> bool" where
  "same_file i j \<longleftrightarrow> i_direct i = i_direct j \<and> i_single i = i_single j \<and> i_double i = i_double j \<and> i_size i = i_size j \<and>
     i_mode i AND S_IFMT = i_mode j AND S_IFMT \<and> i_mode i \<noteq> 0"

lemma reattr_fs_ok:
  assumes fs: "fs_ok d" and ok: "disk_ok d" and u: "inode_used d n" and i: "same_file i (inode_at d n)"
  shows "fs_ok (set_inode d n i)" "inode_wf i"
proof -
  have v: "volume_ok d" "names_ok (node d)" using fs by (simp_all add: fs_ok_def)
  have "i_direct i = i_direct (inode_at d n)" "i_single i = i_single (inode_at d n)" "i_double i = i_double (inode_at d n)"
    "i_size i = i_size (inode_at d n)" "i_mode i \<noteq> 0" and t: "i_mode i AND S_IFMT = i_mode (inode_at d n) AND S_IFMT"
    using i by (simp_all add: same_file_def)
  note R = reattr_node [OF v(1) ok u this(1-5)]
  show "inode_wf i" by (rule R(3))
  have nd: "node d n = Some (i_mode (inode_at d n), i_nlink (inode_at d n), file_data d n)" using u by (simp add: node_def)
  have "names_ok (node (set_inode d n i)) \<longleftrightarrow> names_ok (node d)"
  proof (rule names_ok_cong)
    show "dir_node (node (set_inode d n i)) k ys \<longleftrightarrow> dir_node (node d) k ys" for k ys
      unfolding R(2) dir_node_def using nd t by auto
    show "node (set_inode d n i) k = None \<longleftrightarrow> node d k = None" for k unfolding R(2) using nd by simp
  qed
  then show "fs_ok (set_inode d n i)" using R(1) v(2) by (simp add: fs_ok_def)
qed

lemma wp_store_inode:
  assumes inv: "fs_inv e s" and u: "inode_used (disk e s) (unat ino)" and i: "same_file i (inode_at (disk e s) (unat ino))"
  shows "wp (bind (write_inode e ino i) (\<lambda>_. bind (sync e) (\<lambda>_. ret x))) (\<lambda>_. fs_inv e) (\<lambda>_. fs_inv e) s"
proof -
  have laws: "codec_laws e" "jpeg_returns e" and ok: "album_ok e s" and fs: "fs_ok (disk e s)"
    using inv by (simp_all add: fs_inv_def)
  note R = reattr_fs_ok [OF fs album_ok_disk [OF ok] u i]
  show ?thesis
    unfolding wp_bind [of "write_inode e ino i"]
  proof (rule wp_write_inode [OF ok _ R(2)])
    show "ino_ok (disk e s) (unat ino)" using u by (simp add: inode_used_def)
    fix t :: album assume t: "album_ok e t" "disk e t = set_inode (disk e s) (unat ino) i"
    show "wp (bind (sync e) (\<lambda>_. ret x)) (\<lambda>_. fs_inv e) (\<lambda>_. fs_inv e) t"
      unfolding wp_bind
      by (rule wp_sync [OF laws t(1)])
        (use R(1) t laws save_bitmap_fs_ok [OF album_ok_disk [OF t(1)]] in \<open>simp_all add: wp_prim fs_inv_def\<close>)
  qed
qed

lemma wp_own_new_inode:
  assumes inv: "fs_inv e s" and u: "inode_used (disk e s) (unat ino)"
  shows "wp (own_new_inode e ino uid gid) (\<lambda>_. fs_inv e) (\<lambda>_. fs_inv e) s"
proof -
  have ok: "album_ok e s" using inv by (simp add: fs_inv_def)
  show ?thesis
    unfolding own_new_inode_def Let_def wp_bind [of "getattr e ino"]
  proof (rule wp_getattr [OF ok])
    show "ino_ok (disk e s) (unat ino)" "i_mode (inode_at (disk e s) (unat ino)) \<noteq> 0" using u by (simp_all add: inode_used_def)
    then have m: "same_file (inode_at (disk e s) (unat ino)\<lparr>i_uid := uid, i_gid := gid\<rparr>) (inode_at (disk e s) (unat ino))"
      by (simp add: same_file_def)
    fix t :: album assume t: "album_ok e t" "disk e t = disk e s"
    have "fs_inv e t" using inv t by (simp add: fs_inv_def)
    then show "wp (bind (write_inode e ino (inode_at (disk e s) (unat ino)\<lparr>i_uid := uid, i_gid := gid\<rparr>)) (\<lambda>_. bind (sync e)
        (\<lambda>_. ret (to_fileattr ino (inode_at (disk e s) (unat ino)\<lparr>i_uid := uid, i_gid := gid\<rparr>))))) (\<lambda>_. fs_inv e) (\<lambda>_. fs_inv e) t"
      by (rule wp_store_inode) (use u m t in simp_all)
  qed
qed


lemma masked_type: "((x AND S_IFMT) OR (y AND 0xFFF)) AND S_IFMT = x AND S_IFMT" for x y :: u32
  by (simp add: S_IFMT_def bit.conj_disj_distrib2 and.assoc)

lemma same_file_times:
  "same_file (i\<lparr>i_atime := t\<rparr>) j = same_file i j" "same_file (i\<lparr>i_mtime := t\<rparr>) j = same_file i j"
  "same_file (i\<lparr>i_ctime := t\<rparr>) j = same_file i j" "same_file (i\<lparr>i_uid := u\<rparr>) j = same_file i j"
  "same_file (i\<lparr>i_gid := u\<rparr>) j = same_file i j"
  by (simp_all add: same_file_def)

lemma wp_set_time:
  fixes s :: album
  assumes ok: "album_ok e s"
    and Q: "\<And>j t. album_ok e t \<Longrightarrow> disk e t = disk e s \<Longrightarrow> (\<And>k. (\<And>x i. same_file (put_time x i) k = same_file i k) \<Longrightarrow>
      same_file j k = same_file i k) \<Longrightarrow> Q j t"
  shows "wp (set_time e when put_time i) Q E s"
proof (cases "when")
  case None
  then show ?thesis using Q [OF ok] by (simp add: set_time_def wp_prim)
next
  case (Some x)
  show ?thesis
  proof (cases x)
    case (SpecificTime y)
    then show ?thesis using Q [OF ok] Some by (simp add: set_time_def time_or_now_seconds_def wp_simps)
  next
    case Now
    show ?thesis
      unfolding Some Now set_time_def time_or_now_seconds_def option.case time_or_now.case wp_bind
      by (rule wp_disk_now [OF ok]) (use Q in \<open>simp add: wp_prim\<close>)
  qed
qed

definition new_attributes :: "u32 option \<Rightarrow> u32 option \<Rightarrow> u32 option \<Rightarrow> inode \<Rightarrow> inode" where
  "new_attributes mode uid gid inode =
     (let inode = (case mode of None \<Rightarrow> inode
            | Some new_mode \<Rightarrow> inode\<lparr>i_mode := (i_mode inode AND S_IFMT) OR (new_mode AND 0xFFF)\<rparr>);
          inode = (case uid of None \<Rightarrow> inode | Some new_uid \<Rightarrow> inode\<lparr>i_uid := new_uid\<rparr>)
      in (case gid of None \<Rightarrow> inode | Some new_gid \<Rightarrow> inode\<lparr>i_gid := new_gid\<rparr>))"

lemma new_attributes_same:
  assumes "i_mode i \<noteq> 0" "mode \<noteq> None \<longrightarrow> i_mode i AND S_IFMT \<noteq> 0"
  shows "same_file (new_attributes mode uid gid i) i"
proof -
  have "(i_mode i AND S_IFMT) OR (m AND 0xFFF) \<noteq> 0" if "i_mode i AND S_IFMT \<noteq> 0" for m
    using that masked_type [of "i_mode i" m] by (metis and_zero_eq bit.conj_zero_left)
  then show ?thesis using assms masked_type
    by (cases mode; cases uid; cases gid) (simp_all add: new_attributes_def same_file_def Let_def)
qed

text \<open>\<open>setattr\<close> behind the lock.\<close>

lemma setattr_body:
  "fuse_setattr e ino mode uid gid requested_size atime mtime ctime =
     lock (
       bind (case requested_size of None \<Rightarrow> ret () | Some new_size \<Rightarrow> truncate_file e ino (unat new_size)) (\<lambda>_.
       bind (getattr e ino) (\<lambda>inode.
       bind (set_time e atime (\<lambda>t i. i\<lparr>i_atime := t\<rparr>) (new_attributes mode uid gid inode)) (\<lambda>inode.
       bind (set_time e mtime (\<lambda>t i. i\<lparr>i_mtime := t\<rparr>) inode) (\<lambda>inode.
       bind (write_inode e ino (case ctime of None \<Rightarrow> inode | Some t \<Rightarrow> inode\<lparr>i_ctime := system_time_seconds t\<rparr>)) (\<lambda>_.
       bind (sync e) (\<lambda>_.
       ret (to_fileattr ino (case ctime of None \<Rightarrow> inode | Some t \<Rightarrow> inode\<lparr>i_ctime := system_time_seconds t\<rparr>)))))))))"
  by (simp add: fuse_setattr_def new_attributes_def Let_def)

lemma wp_setattr_body:
  assumes inv: "fs_inv e s" and m: "mode \<noteq> None \<longrightarrow> i_mode (inode_at (disk e s) (unat ino)) AND S_IFMT \<noteq> 0"
  shows "wp (bind (getattr e ino) (\<lambda>inode.
       bind (set_time e atime (\<lambda>t i. i\<lparr>i_atime := t\<rparr>) (new_attributes mode uid gid inode)) (\<lambda>inode.
       bind (set_time e mtime (\<lambda>t i. i\<lparr>i_mtime := t\<rparr>) inode) (\<lambda>inode.
       bind (write_inode e ino (case ctime of None \<Rightarrow> inode | Some t \<Rightarrow> inode\<lparr>i_ctime := system_time_seconds t\<rparr>)) (\<lambda>_.
       bind (sync e) (\<lambda>_.
       ret (to_fileattr ino (case ctime of None \<Rightarrow> inode | Some t \<Rightarrow> inode\<lparr>i_ctime := system_time_seconds t\<rparr>))))))))
    (\<lambda>_. fs_inv e) (\<lambda>_. fs_inv e) s"
proof -
  have ok: "album_ok e s" and fs: "fs_ok (disk e s)" using inv by (simp_all add: fs_inv_def)
  let ?i = "inode_at (disk e s) (unat ino)"
  show ?thesis
  proof (cases "inode_used (disk e s) (unat ino)")
    case False
    then show ?thesis using getattr_unused [OF ok, of ino] inv by (auto simp: wp_def bind_def fs_inv_def)
  next
    case True
    then have u: "ino_ok (disk e s) (unat ino)" "i_mode ?i \<noteq> 0" by (simp_all add: inode_used_def)
    show ?thesis
      unfolding wp_bind [of "getattr e ino"]
    proof (rule wp_getattr [OF ok u], unfold wp_bind [of "set_time _ _ _ _"], rule wp_set_time, assumption, rule wp_set_time, assumption)
      fix t v w :: album and j k
      assume t: "album_ok e t" "disk e t = disk e s" and v: "album_ok e v" "disk e v = disk e t"
        and w: "album_ok e w" "disk e w = disk e v"
        and j: "\<And>k. (\<And>x i. same_file (i\<lparr>i_atime := x\<rparr>) k = same_file i k) \<Longrightarrow> same_file j k = same_file (new_attributes mode uid gid ?i) k"
        and k: "\<And>l. (\<And>x i. same_file (i\<lparr>i_mtime := x\<rparr>) l = same_file i l) \<Longrightarrow> same_file k l = same_file j l"
      let ?k = "case ctime of None \<Rightarrow> k | Some t \<Rightarrow> k\<lparr>i_ctime := system_time_seconds t\<rparr>"
      have "same_file k ?i" using j k new_attributes_same [OF u(2) m] by (simp add: same_file_times)
      then have f: "same_file ?k ?i" by (simp add: same_file_times split: option.split)
      have "fs_inv e w" using inv t v w by (simp add: fs_inv_def)
      then show "wp (bind (write_inode e ino ?k) (\<lambda>_. bind (sync e) (\<lambda>_. ret (to_fileattr ino ?k)))) (\<lambda>_. fs_inv e) (\<lambda>_. fs_inv e) w"
        by (rule wp_store_inode) (use True f t v w in simp_all)
    qed
  qed
qed

end
