(* ===== verification/FuseSession.thy ===== *)
theory FuseSession
  imports FuseSafe
begin

text \<open>
  A mounted album: the kernel's requests as data, each answered by its handler of \<^verbatim>\<open>src/fs/fuse.rs\<close>, and the
  states a session of them reaches.
\<close>

subsection \<open>Serving\<close>

text \<open>A program behind the lock keeps the album intact where it returns a value; no panic.\<close>

definition serves :: "ext \<Rightarrow> (album, 'b, fs_error) prog \<Rightarrow> album \<Rightarrow> bool" where
  "serves e m s \<longleftrightarrow> wp m (\<lambda>_. fs_inv e) (\<lambda>_. album_ok e) s"

lemma servesI:
  assumes "returns e m s" "\<And>x t. m s = (Ok x, t) \<Longrightarrow> fs_inv e t"
  shows "serves e m s"
  using assms unfolding serves_def returns_def wp_def by (auto split: prod.splits res.splits)

lemma intact_serves: "intact e m s \<Longrightarrow> serves e m s"
  unfolding intact_def serves_def by (erule wp_conseq) (simp_all add: fs_inv_def)

lemma serves_bind:
  assumes "serves e m s" "\<And>x t. m s = (Ok x, t) \<Longrightarrow> fs_inv e t \<Longrightarrow> serves e (f x) t"
  shows "serves e (bind m f) s"
  using assms unfolding serves_def wp_def by (auto simp: bind_def split: prod.splits res.splits)

lemma intact_prim:
  "fs_inv e s \<Longrightarrow> intact e (ret x) s" "fs_inv e s \<Longrightarrow> intact e (get f) s"
  "fs_inv e s \<Longrightarrow> r \<noteq> Panic \<Longrightarrow> intact e (lift r) s"
  by (cases r; simp add: intact_def wp_simps)+

lemma intact_bind:
  assumes "intact e m s" "\<And>x t. m s = (Ok x, t) \<Longrightarrow> fs_inv e t \<Longrightarrow> intact e (f x) t"
  shows "intact e (bind m f) s"
  using assms unfolding intact_def wp_def by (auto simp: bind_def split: prod.splits res.splits)

lemma serves_creating:
  assumes inv: "fs_inv e s"
  shows "data \<noteq> [] \<or> offset \<le> MAX_BYTES \<Longrightarrow> serves e (write_file e i offset data) s"
    "utf8_valid name \<Longrightarrow> serves e (create_file e p name mode) s"
    "utf8_valid name \<Longrightarrow> serves e (mkdir e p name mode) s"
    "rename_guard (disk e s) p name q new \<Longrightarrow> serves e (rename_entry e p name q new) s"
proof -
  have laws: "codec_laws e" "jpeg_returns e" and ok: "album_ok e s" and fs: "fs_ok (disk e s)"
    using inv by (simp_all add: fs_inv_def)
  show "serves e (write_file e i offset data) s" if "data \<noteq> [] \<or> offset \<le> MAX_BYTES"
    by (rule servesI [OF returns_creating(1) [OF inv that] write_file_kept [OF inv _ that]])
  show "serves e (create_file e p name mode) s" if "utf8_valid name"
    by (rule servesI [OF returns_creating(2) [OF inv that] create_file_kept [OF inv _ that]])
  show "serves e (mkdir e p name mode) s" if "utf8_valid name"
    by (rule servesI [OF returns_creating(3) [OF inv that] mkdir_kept [OF inv _ that]])
  show "serves e (rename_entry e p name q new) s" if g: "rename_guard (disk e s) p name q new"
    by (rule servesI [OF rename_returns [OF inv g]])
      (use rename_kept [OF laws ok fs g] laws in \<open>simp add: fs_inv_def\<close>)
qed

text \<open>The composite bodies of the handlers.\<close>

lemma intact_used_inodes:
  assumes inv: "fs_inv e s"
  shows "intact e (used_inodes e) s"
proof -
  have ok: "album_ok e s" using inv by (simp add: fs_inv_def)
  obtain t where "used_inodes e s = (Ok (card {n. inode_used (disk e s) n}), t)" "album_ok e t" "disk e t = disk e s"
    using used_inodes_run(1) [OF ok] by blast
  then show ?thesis by (auto intro: intactI [OF inv])
qed

lemma intact_bodies:
  assumes inv: "fs_inv e s"
  shows "intact e (bind (lookup e p name) (\<lambda>found. bind (lift (ok_or NotFound found)) (\<lambda>ino.
      bind (getattr e ino) (\<lambda>inode. ret (to_fileattr ino inode))))) s"
    "intact e (bind (getattr e ino) (\<lambda>inode. ret (to_fileattr ino inode))) s"
    "intact e (bind (used_inodes e) (\<lambda>used_inodes.
       bind (get (\<lambda>s. (total_blocks s, free_blocks s, inode_count s))) (\<lambda>(blocks, free, inodes).
       ret \<lparr>st_blocks = blocks, st_bfree = free, st_bavail = free, st_files = inodes,
            st_ffree = inodes - of_nat used_inodes, st_bsize = 4096, st_namelen = 255, st_frsize = 4096\<rparr>))) s"
  by (intro intact_bind intact_reads intact_used_inodes intact_prim inv ok_or_no_panic | simp only: split_def)+

text \<open>A new inode is given its owner.\<close>

lemma created_used:
  assumes inv: "fs_inv e s" and u: "utf8_valid name"
  shows "create_file e p name mode s = (Ok i, t) \<Longrightarrow> inode_used (disk e t) (unat i)"
    "mkdir e p name mode s = (Ok i, t) \<Longrightarrow> inode_used (disk e t) (unat i)"
proof -
  have laws: "codec_laws e" "jpeg_returns e" and ok: "album_ok e s" and fs: "fs_ok (disk e s)"
    using inv by (simp_all add: fs_inv_def)
  have v: "volume_ok (disk e s)" using fs by (simp add: fs_ok_def)
  have a: "inode_used (disk e t) (unat i)" if "added p name ft f links i (disk e s) (disk e t)" for ft f links
  proof -
    have "node (disk e t) (unat i) \<noteq> None" using that unfolding added_def by (elim conjE exE) (cases f, simp)
    then show ?thesis by (simp add: node_def split: if_splits)
  qed
  show "inode_used (disk e t) (unat i)" if run: "create_file e p name mode s = (Ok i, t)"
  proof -
    obtain m l xs where n: "node (disk e s) (unat p) = Some (m, l, xs)" "m AND S_IFMT = S_IFDIR"
      by (rule dir_guard [OF ok fs run [unfolded create_file_def]])
    have "added p name FILE_TYPE_FILE (S_IFREG OR (mode AND 0xFFF), 1, []) 0 i (disk e s) (disk e t)"
      by (rule wp_OkD [OF wp_create_file [OF laws ok v fs_dir(1) [OF fs n] u] run]) simp_all
    then show ?thesis by (rule a)
  qed
  show "inode_used (disk e t) (unat i)" if run: "mkdir e p name mode s = (Ok i, t)"
  proof -
    obtain m l xs where n: "node (disk e s) (unat p) = Some (m, l, xs)" "m AND S_IFMT = S_IFDIR"
      by (rule dir_guard [OF ok fs run [unfolded mkdir_def]])
    have "\<exists>f. added p name FILE_TYPE_DIR f 1 i (disk e s) (disk e t)"
      by (rule wp_OkD [OF wp_mkdir [OF laws ok v fs_dir(1) [OF fs n] u] run]) auto
    then show ?thesis using a by blast
  qed
qed

lemma serves_creation:
  assumes inv: "fs_inv e s" and u: "utf8_valid name"
  shows "serves e (bind (create_file e p name mode) (\<lambda>ino. own_new_inode e ino uid gid)) s"
    "serves e (bind (mkdir e p name mode) (\<lambda>ino. own_new_inode e ino uid gid)) s"
proof -
  have own: "serves e (own_new_inode e i uid gid) t" if "fs_inv e t" "inode_used (disk e t) (unat i)" for i t
    by (rule intact_serves) (simp add: intact_def wp_own_new_inode [OF that])
  show "serves e (bind (create_file e p name mode) (\<lambda>ino. own_new_inode e ino uid gid)) s"
    by (rule serves_bind [OF serves_creating(2) [OF inv u]]) (use own created_used(1) [OF inv u] in blast)
  show "serves e (bind (mkdir e p name mode) (\<lambda>ino. own_new_inode e ino uid gid)) s"
    by (rule serves_bind [OF serves_creating(3) [OF inv u]]) (use own created_used(2) [OF inv u] in blast)
qed

text \<open>Cutting a file keeps its type.\<close>

lemma truncate_type:
  assumes inv: "fs_inv e s" and n: "n \<le> MAX_BYTES" and run: "truncate_file e i n s = (Ok (), t)"
  shows "i_mode (inode_at (disk e t) (unat i)) = i_mode (inode_at (disk e s) (unat i))"
proof -
  have laws: "codec_laws e" "jpeg_returns e" and ok: "album_ok e s" and fs: "fs_ok (disk e s)"
    using inv by (simp_all add: fs_inv_def)
  have v: "volume_ok (disk e s)" using fs by (simp add: fs_ok_def)
  have g: "inode_used (disk e s) (unat i) \<and> regular (disk e s) (unat i)"
    by (rule file_guard [OF ok]) (use run in \<open>simp add: truncate_file_def\<close>)
  have "replaced (resize n (file_data (disk e s) (unat i))) (unat i) (disk e s) (disk e t)"
    by (rule wp_OkD [OF wp_truncate_file [OF laws ok volume_okD(1) [OF v] _ n] run]) (use g in auto)
  from changed_node [OF v conjunct1 [OF g] replacedD(1) [OF this]]
  have "node (disk e t) (unat i) = Some (i_mode (inode_at (disk e s) (unat i)), i_nlink (inode_at (disk e s) (unat i)),
      resize n (file_data (disk e s) (unat i)))" by simp
  from node_SomeD [OF this] show ?thesis by simp
qed

lemma intact_setattr:
  assumes inv: "fs_inv e s" and sz: "\<And>n. requested_size = Some n \<Longrightarrow> unat n \<le> MAX_BYTES"
    and m: "mode \<noteq> None \<longrightarrow> i_mode (inode_at (disk e s) (unat ino)) AND S_IFMT \<noteq> 0"
  shows "intact e (bind (case requested_size of None \<Rightarrow> ret () | Some new_size \<Rightarrow> truncate_file e ino (unat new_size)) (\<lambda>_.
       bind (getattr e ino) (\<lambda>inode.
       bind (set_time e atime (\<lambda>t i. i\<lparr>i_atime := t\<rparr>) (new_attributes mode uid gid inode)) (\<lambda>inode.
       bind (set_time e mtime (\<lambda>t i. i\<lparr>i_mtime := t\<rparr>) inode) (\<lambda>inode.
       bind (write_inode e ino (case ctime of None \<Rightarrow> inode | Some t \<Rightarrow> inode\<lparr>i_ctime := system_time_seconds t\<rparr>)) (\<lambda>_.
       bind (sync e) (\<lambda>_.
       ret (to_fileattr ino (case ctime of None \<Rightarrow> inode | Some t \<Rightarrow> inode\<lparr>i_ctime := system_time_seconds t\<rparr>)))))))))  s"
proof (rule intact_bind)
  show "intact e (case requested_size of None \<Rightarrow> ret () | Some new_size \<Rightarrow> truncate_file e ino (unat new_size)) s"
    using intact_writes(1) [OF inv sz] intact_prim(1) [OF inv] by (cases requested_size) simp_all
  fix x t assume x: "(case requested_size of None \<Rightarrow> ret () | Some new_size \<Rightarrow> truncate_file e ino (unat new_size)) s = (Ok x, t)"
    and t: "fs_inv e t"
  have "i_mode (inode_at (disk e t) (unat ino)) = i_mode (inode_at (disk e s) (unat ino))"
    using x truncate_type [OF inv sz] by (cases requested_size) (auto simp: run_simps)
  with m show "intact e (bind (getattr e ino) (\<lambda>inode.
       bind (set_time e atime (\<lambda>t i. i\<lparr>i_atime := t\<rparr>) (new_attributes mode uid gid inode)) (\<lambda>inode.
       bind (set_time e mtime (\<lambda>t i. i\<lparr>i_mtime := t\<rparr>) inode) (\<lambda>inode.
       bind (write_inode e ino (case ctime of None \<Rightarrow> inode | Some t \<Rightarrow> inode\<lparr>i_ctime := system_time_seconds t\<rparr>)) (\<lambda>_.
       bind (sync e) (\<lambda>_.
       ret (to_fileattr ino (case ctime of None \<Rightarrow> inode | Some t \<Rightarrow> inode\<lparr>i_ctime := system_time_seconds t\<rparr>)))))))) t"
    unfolding intact_def by (intro wp_setattr_body [OF t]) simp
qed


subsection \<open>Requests\<close>

datatype request =
    Op_lookup u64 bytes
  | Op_getattr u64
  | Op_setattr u64 "u32 option" "u32 option" "u32 option" "u64 option" "time_or_now option" "time_or_now option" "int option"
  | Op_read u64 int u32
  | Op_write u64 int bytes
  | Op_create u32 u32 u64 bytes u32 u32
  | Op_mkdir u32 u32 u64 bytes u32 u32
  | Op_unlink u64 bytes
  | Op_rmdir u64 bytes
  | Op_rename u64 bytes u64 bytes u32
  | Op_readdir u64 int
  | Op_flush | Op_release | Op_releasedir | Op_fsync | Op_fsyncdir
  | Op_statfs
  | Op_destroy

definition void :: "('s, 'a, 'e) prog \<Rightarrow> ('s, unit, 'e) prog" where
  "void m = bind m (\<lambda>_. ret ())"

fun serve :: "ext \<Rightarrow> (dir_item list \<Rightarrow> dir_item \<Rightarrow> bool) \<Rightarrow> request \<Rightarrow> (fuse_state, unit, int) prog" where
  "serve e full (Op_lookup parent name) = void (fuse_lookup e parent name)"
| "serve e full (Op_getattr ino) = void (fuse_getattr e ino)"
| "serve e full (Op_setattr ino mode uid gid requested_size atime mtime ctime) =
     void (fuse_setattr e ino mode uid gid requested_size atime mtime ctime)"
| "serve e full (Op_read ino offset len) = void (fuse_read e ino offset len)"
| "serve e full (Op_write ino offset data) = void (fuse_write e ino offset data)"
| "serve e full (Op_create uid gid parent name mode umask) = void (fuse_create e uid gid parent name mode umask)"
| "serve e full (Op_mkdir uid gid parent name mode umask) = void (fuse_mkdir e uid gid parent name mode umask)"
| "serve e full (Op_unlink parent name) = fuse_unlink e parent name"
| "serve e full (Op_rmdir parent name) = fuse_rmdir e parent name"
| "serve e full (Op_rename parent name newparent newname flags) = fuse_rename e parent name newparent newname flags"
| "serve e full (Op_readdir ino offset) = void (fuse_readdir e full ino offset)"
| "serve e full Op_flush = fuse_flush e"
| "serve e full Op_release = fuse_release e"
| "serve e full Op_releasedir = fuse_releasedir e"
| "serve e full Op_fsync = fuse_fsync e"
| "serve e full Op_fsyncdir = fuse_fsyncdir e"
| "serve e full Op_statfs = void (fuse_statfs e)"
| "serve e full Op_destroy = fuse_destroy e"

text \<open>
  What the theorems ask of a request: sizes inside the range of the block tree (a write of bytes past it just
  fails), a file type for an inode whose
  mode is set, for removals a \<open>removable\<close> directory, that is one of a single block or without a free record after
  a live one in any block, and for renames \<open>rename_guard\<close>. A name that is not UTF-8 is refused before all that.
\<close>

fun sound_request :: "disk \<Rightarrow> request \<Rightarrow> bool" where
  "sound_request d (Op_setattr ino mode uid gid requested_size atime mtime ctime) \<longleftrightarrow>
     (case requested_size of None \<Rightarrow> True | Some n \<Rightarrow> unat n \<le> MAX_BYTES) \<and>
     (mode \<noteq> None \<longrightarrow> i_mode (inode_at d (unat ino)) AND S_IFMT \<noteq> 0)"
| "sound_request d (Op_write ino offset data) \<longleftrightarrow> data \<noteq> [] \<or> nat offset \<le> MAX_BYTES"
| "sound_request d (Op_unlink parent name) \<longleftrightarrow> removable (file_data d (unat parent))"
| "sound_request d (Op_rmdir parent name) \<longleftrightarrow> removable (file_data d (unat parent)) \<and> name \<notin> dots"
| "sound_request d (Op_rename parent name newparent newname flags) \<longleftrightarrow>
     (flags = 0 \<longrightarrow> utf8_valid newname \<longrightarrow> rename_guard d parent name newparent newname)"
| "sound_request d _ \<longleftrightarrow> True"

text \<open>The requests that can run out of space half-way.\<close>

fun takes_space :: "request \<Rightarrow> bool" where
  "takes_space (Op_write ino offset data) \<longleftrightarrow> True"
| "takes_space (Op_create uid gid parent name mode umask) \<longleftrightarrow> True"
| "takes_space (Op_mkdir uid gid parent name mode umask) \<longleftrightarrow> True"
| "takes_space (Op_rename parent name newparent newname flags) \<longleftrightarrow> True"
| "takes_space _ \<longleftrightarrow> False"

definition fuse_inv :: "ext \<Rightarrow> fuse_state \<Rightarrow> bool" where
  "fuse_inv e s \<longleftrightarrow> fs_inv e (fu_fs s) \<and> \<not> fu_poisoned s"

definition fuse_sound :: "ext \<Rightarrow> fuse_state \<Rightarrow> bool" where
  "fuse_sound e s \<longleftrightarrow> album_ok e (fu_fs s) \<and> \<not> fu_poisoned s"

lemma fuse_inv_sound: "fuse_inv e s \<Longrightarrow> fuse_sound e s"
  by (simp add: fuse_inv_def fuse_sound_def fs_inv_def)

text \<open>A handler that does well, and one that does well even where it fails.\<close>

definition handles :: "ext \<Rightarrow> (fuse_state, 'b, int) prog \<Rightarrow> fuse_state \<Rightarrow> bool" where
  "handles e m s \<longleftrightarrow> wp m (\<lambda>_. fuse_inv e) (\<lambda>_. fuse_sound e) s"

definition tends :: "ext \<Rightarrow> (fuse_state, 'b, int) prog \<Rightarrow> fuse_state \<Rightarrow> bool" where
  "tends e m s \<longleftrightarrow> wp m (\<lambda>_. fuse_inv e) (\<lambda>_. fuse_inv e) s"

lemma tends_handles: "tends e m s \<Longrightarrow> handles e m s"
  unfolding tends_def handles_def by (erule wp_conseq) (simp_all add: fuse_inv_sound)

lemma handles_lock:
  assumes "fuse_inv e s" "serves e m (fu_fs s)"
  shows "handles e (lock m) s"
  using assms unfolding handles_def serves_def wp_def lock_def fuse_inv_def fuse_sound_def
  by (auto split: prod.splits res.splits)

lemma tends_lock:
  assumes "fuse_inv e s" "intact e m (fu_fs s)"
  shows "tends e (lock m) s"
  using assms unfolding tends_def intact_def wp_def lock_def fuse_inv_def
  by (auto split: prod.splits res.splits)

lemma void_runs:
  "handles e m s \<Longrightarrow> handles e (void m) s" "tends e m s \<Longrightarrow> tends e (void m) s"
  unfolding handles_def tends_def void_def wp_def bind_def by (auto simp: run_simps split: prod.splits res.splits)

lemma raise_runs: "fuse_inv e s \<Longrightarrow> tends e (raise x) s"
  by (simp add: tends_def wp_prim)

lemma with_name_runs:
  "fuse_inv e s \<Longrightarrow> (utf8_valid name \<Longrightarrow> handles e m s) \<Longrightarrow> handles e (with_name name m) s"
  "fuse_inv e s \<Longrightarrow> (utf8_valid name \<Longrightarrow> tends e m s) \<Longrightarrow> tends e (with_name name m) s"
  by (simp_all add: with_name_def raise_runs tends_handles)

lemma tends_sync:
  assumes inv: "fuse_inv e s"
  shows "tends e (sync_reply e) s" "tends e (fuse_destroy e) s"
proof -
  have fi: "fs_inv e (fu_fs s)" using inv by (simp add: fuse_inv_def)
  have "wp (lock (sync e)) (\<lambda>_. fuse_inv e) (\<lambda>_. fuse_inv e) s"
    using tends_lock [OF inv intact_writes(2) [OF fi]] by (simp add: tends_def)
  then show "tends e (sync_reply e) s" "tends e (fuse_destroy e) s"
    unfolding tends_def wp_def sync_reply_def fuse_destroy_def by (auto split: prod.splits res.splits)
qed

lemma tends_readdir:
  assumes "fuse_inv e s"
  shows "tends e (fuse_readdir e full ino offset) s"
proof -
  have "tends e (lock (readdir e ino)) s"
    by (rule tends_lock [OF assms intact_reads(3)]) (use assms in \<open>simp add: fuse_inv_def\<close>)
  then show ?thesis unfolding fuse_readdir_def tends_def wp_def bind_def
    by (auto simp: run_simps split: prod.splits res.splits)
qed

lemma serve_tends:
  assumes inv: "fuse_inv e s" and g: "sound_request (disk e (fu_fs s)) r" and small: "\<not> takes_space r"
  shows "tends e (serve e full r) s"
proof -
  have fi: "fs_inv e (fu_fs s)" using inv by (simp add: fuse_inv_def)
  note under = tends_lock [OF inv] and nm = with_name_runs(2) [OF inv] and err = raise_runs [OF inv] and void = void_runs(2)
  show ?thesis
  proof (cases r)
    case (Op_lookup parent name)
    show ?thesis unfolding Op_lookup serve.simps fuse_lookup_def
      by (rule void, rule nm, rule under, rule intact_bodies(1) [OF fi])
  next
    case (Op_getattr ino)
    show ?thesis unfolding Op_getattr serve.simps fuse_getattr_def
      by (rule void, rule under, rule intact_bodies(2) [OF fi])
  next
    case (Op_setattr ino mode uid gid requested_size atime mtime ctime)
    show ?thesis unfolding Op_setattr serve.simps setattr_body
      by (rule void, rule under, rule intact_setattr [OF fi]) (use g Op_setattr in simp_all)
  next
    case (Op_read ino offset len)
    have "tends e (fuse_read e ino offset len) s"
      by (simp add: fuse_read_def under [OF intact_reads(4) [OF fi]] err)
    then show ?thesis unfolding Op_read serve.simps by (rule void)
  next
    case (Op_unlink parent name)
    show ?thesis unfolding Op_unlink serve.simps fuse_unlink_def
      by (rule nm, rule under, rule intact_writes(3) [OF fi]) (use g Op_unlink in simp)
  next
    case (Op_rmdir parent name)
    show ?thesis unfolding Op_rmdir serve.simps fuse_rmdir_def
      by (rule nm, rule under, rule intact_writes(4) [OF fi]) (use g Op_rmdir in simp_all)
  next
    case (Op_readdir ino offset)
    show ?thesis unfolding Op_readdir serve.simps by (rule void [OF tends_readdir [OF inv]])
  next
    case Op_statfs
    show ?thesis unfolding Op_statfs serve.simps fuse_statfs_def
      by (rule void, rule under, rule intact_bodies(3) [OF fi])
  qed (use small tends_sync [OF inv] in
      \<open>simp_all add: fuse_flush_def fuse_release_def fuse_releasedir_def fuse_fsync_def fuse_fsyncdir_def\<close>)
qed

lemma serve_handles:
  assumes inv: "fuse_inv e s" and g: "sound_request (disk e (fu_fs s)) r"
  shows "handles e (serve e full r) s"
proof (cases "takes_space r")
  case False
  then show ?thesis by (intro tends_handles serve_tends [OF inv g])
next
  case True
  have fi: "fs_inv e (fu_fs s)" using inv by (simp add: fuse_inv_def)
  note under = handles_lock [OF inv] and nm = with_name_runs(1) [OF inv] and void = void_runs(1)
    and err = tends_handles [OF raise_runs [OF inv]]
  from True show ?thesis
  proof (cases rule: takes_space.elims(2))
    case (1 ino offset data)
    have "serves e (bind (write_file e ino (nat offset) data) (\<lambda>written. ret (of_nat written :: u32))) (fu_fs s)"
      by (rule serves_bind [OF serves_creating(1) [OF fi] intact_serves [OF intact_prim(1)]]) (use g 1 in simp_all)
    then have "handles e (fuse_write e ino offset data) s" by (simp add: fuse_write_def under err)
    then show ?thesis unfolding 1 serve.simps by (rule void)
  next
    case (2 uid gid parent name mode umask)
    show ?thesis unfolding 2 serve.simps fuse_create_def
      by (rule void, rule nm, rule under, rule serves_creation(1) [OF fi])
  next
    case (3 uid gid parent name mode umask)
    show ?thesis unfolding 3 serve.simps fuse_mkdir_def
      by (rule void, rule nm, rule under, rule serves_creation(2) [OF fi])
  next
    case (4 parent name newparent newname flags)
    show ?thesis
    proof (cases "flags = 0")
      case True
      have "handles e (with_name name (with_name newname (lock (rename_entry e parent name newparent newname)))) s"
        by (rule nm, rule nm, rule under, rule serves_creating(4) [OF fi]) (use g 4 True in simp)
      then show ?thesis using True by (simp add: 4 fuse_rename_def)
    next
      case False
      then show ?thesis using err by (simp add: 4 fuse_rename_def)
    qed
  qed
qed


subsection \<open>Sessions\<close>

text \<open>
  Requests and their answers. A value or an error; only where a request can run out of space half-way the
  error must have come before anything was changed.
\<close>

inductive fuse_step :: "ext \<Rightarrow> fuse_state \<Rightarrow> fuse_state \<Rightarrow> bool" for e where
  step_reply: "serve e full r s = (Ok (), t) \<Longrightarrow> sound_request (disk e (fu_fs s)) r \<Longrightarrow> fuse_step e s t"
| step_errno: "serve e full r s = (Err x, t) \<Longrightarrow> sound_request (disk e (fu_fs s)) r \<Longrightarrow>
    \<not> takes_space r \<or> disk e (fu_fs t) = disk e (fu_fs s) \<Longrightarrow> fuse_step e s t"

lemma fuse_step_keeps:
  assumes st: "fuse_step e s t" and inv: "fuse_inv e s"
  shows "fuse_inv e t"
  using st
proof cases
  case (step_reply full r)
  then show ?thesis using wp_OkD [OF serve_handles [OF inv, unfolded handles_def]] by blast
next
  case (step_errno full r x)
  show ?thesis
  proof (cases "takes_space r")
    case True
    have "fuse_sound e t" using wp_ErrD [OF serve_handles [OF inv, unfolded handles_def]] step_errno(1,2) by blast
    then show ?thesis using step_errno(3) True inv by (simp add: fuse_inv_def fuse_sound_def fs_inv_def)
  next
    case False
    then show ?thesis using wp_ErrD [OF serve_tends [OF inv, unfolded tends_def]] step_errno(1,2) by blast
  qed
qed

interpretation mounted: kept "fuse_step e" "fuse_inv e" for e
  by unfold_locales (rule fuse_step_keeps)

text \<open>C11: While an intact album is mounted no sound request makes a handler panic after any sequence of
  sound requests, so the lock is never poisoned: every request is answered with a value or an error number;
  the store, the bitmap and the inode table stay sound, and the tree of names and files is intact after an
  answer with a value, and after an error too unless the request takes space.

  A request is sound (\<open>sound_request\<close>) when a size it sets is at most \<open>MAX_BYTES\<close> and a write of no bytes is not at an
  offset past it, when an inode whose
  mode it sets has a file type, when it removes from a \<open>removable\<close> directory (one block, or no free record after a
  live one in any block), \<open>rmdir\<close> not the names \<open>.\<close> and \<open>..\<close>, and when a rename satisfies \<open>rename_guard\<close>. The
  requests before may have failed, with any error where they take no space; an error of \<open>write\<close>,
  \<open>create\<close>, \<open>mkdir\<close> or \<open>rename\<close> counts only when it left the disk as it was, so a session is not
  followed past a write that ran out of space half-way.\<close>

theorem fuse_session_safe:
  assumes "(fuse_step e)\<^sup>*\<^sup>* (fuse_new a) s" "codec_laws e" "jpeg_returns e" "album_ok e a" "fs_ok (disk e a)"
    and "sound_request (disk e (fu_fs s)) r"
  shows "case serve e full r s of
      (Ok _, t) \<Rightarrow> \<not> fu_poisoned t \<and> album_ok e (fu_fs t) \<and> fs_ok (disk e (fu_fs t))
    | (Err x, t) \<Rightarrow> \<not> fu_poisoned t \<and> album_ok e (fu_fs t) \<and> (takes_space r \<or> fs_ok (disk e (fu_fs t)))
    | (Panic, t) \<Rightarrow> False"
proof -
  have "fuse_inv e (fuse_new a)" using assms(2-5) by (simp add: fuse_inv_def fs_inv_def fuse_new_def)
  note inv = mounted.reached [OF assms(1) this]
  note H = serve_handles [OF inv assms(6), of full, unfolded handles_def]
    and T = serve_tends [OF inv assms(6), where full = full, unfolded tends_def]
  obtain v t where run: "serve e full r s = (v, t)" by (cases "serve e full r s")
  show ?thesis
    using H T unfolding wp_def run
    by (cases v; cases "takes_space r") (simp_all add: fuse_inv_def fuse_sound_def fs_inv_def)
qed

end
