(* ===== verification/FuseWitnesses.thy ===== *)
theory FuseWitnesses
  imports DirWitnesses FuseSession
begin

text \<open>The properties of the handlers on the small album.\<close>

theorem readdir_pages_witness:
  "\<exists>t. read_pages 3 demo_ext (\<lambda>acc _. acc \<noteq> []) 1 0 (fuse_new demo_album) =
     (Ok (Some [(1, 1, Directory, [46]), (1, 2, Directory, [46, 46])]), t)"
proof -
  have l: "dir_list demo_root_block = [(1, [46], FILE_TYPE_DIR), (1, [46, 46], FILE_TYPE_DIR)]"
    using initial_directory(5) [OF demo_root_block(1)] by simp
  have s: "fu_fs (fuse_new demo_album) = demo_album" "\<not> fu_poisoned (fuse_new demo_album)" by (simp_all add: fuse_new_def)
  obtain items t where t: "read_pages 3 demo_ext (\<lambda>acc _. acc \<noteq> []) 1 0 (fuse_new demo_album) = (Ok (Some items), t)"
    "map (\<lambda>(i, _, kind, name). (i, kind, name)) items =
      map (\<lambda>(i, name, ft). (i, if ft = FILE_TYPE_DIR then Directory else RegularFile, name)) (dir_list demo_root_block)"
    "map (\<lambda>(_, offset, _). offset) items = map int [1..<Suc (length (dir_list demo_root_block))]"
    using readdir_pages [where e = demo_ext and s = "fuse_new demo_album" and ino = 1 and full = "\<lambda>acc _. acc \<noteq> []" and fuel = 3,
        unfolded s(1), OF demo_album_ok s(2) demo_fs_ok demo_root_node demo_dir_mode(1)] l by auto
  have "items = [(1, 1, Directory, [46]), (1, 2, Directory, [46, 46])]"
    using t(2,3) unfolding l by (auto simp: map_eq_Cons_conv upt_rec)
  with t(1) show ?thesis by blast
qed

theorem fuse_session_safe_witness:
  "fst (serve demo_ext (\<lambda>_ _. False) (Op_create 1000 1000 1 [97] 0x1A4 0x12) (fuse_new demo_album)) \<noteq> Panic"
proof -
  obtain v t where run: "serve demo_ext (\<lambda>_ _. False) (Op_create 1000 1000 1 [97] 0x1A4 0x12) (fuse_new demo_album) = (v, t)"
    by (cases "serve demo_ext (\<lambda>_ _. False) (Op_create 1000 1000 1 [97] 0x1A4 0x12) (fuse_new demo_album)")
  from fuse_session_safe [where full = "\<lambda>_ _. False" and r = "Op_create 1000 1000 1 [97] 0x1A4 0x12",
      OF rtranclp.rtrancl_refl demo_codec_laws demo_jpeg_returns demo_album_ok demo_fs_ok]
  show ?thesis unfolding run by (cases v) simp_all
qed

end
