(* ===== verification/Cli.thy ===== *)
theory Cli
  imports Fuse Stats
begin

text \<open>
  \<^verbatim>\<open>src/main.rs\<close>: the commands. The state is the album directory and what was printed. Parsing the
  arguments is left to \<open>clap\<close>: a command is the value it parses, without the name of the directory
  and of the mount point.
\<close>

datatype cmd =
    Capacity path
  | CodecSelftest path
  | Format "bytes option" bool "path option"
  | Info "bytes option" "path option"
  | Stats "bytes option" "path option"
  | Mount "bytes option" "path option"
  | Umount

record console = world +
  co_out :: "text_line list"
  co_err :: "text_line list"

text \<open>\<open>Exit\<close> is \<open>std::process::exit\<close>.\<close>

datatype cli_error = FsFailure fs_error | CodecFailure codec_error | Anyhow string | Exit nat

definition println :: "string \<Rightarrow> format_arg list \<Rightarrow> (console, unit, cli_error) prog" where
  "println fmt args = modify (co_out_update (\<lambda>ls. ls @ [(fmt, args)]))"

definition eprintln :: "string \<Rightarrow> format_arg list \<Rightarrow> (console, unit, cli_error) prog" where
  "eprintln fmt args = modify (co_err_update (\<lambda>ls. ls @ [(fmt, args)]))"

definition on_world :: "(world, 'b, fs_error) prog \<Rightarrow> (console, 'b, cli_error) prog" where
  "on_world m c = (let (r, w) = m (world.truncate c) in (map_err FsFailure r, world.extend w (world.more c)))"

definition from_world :: "(world \<Rightarrow> ('b, fs_error) res) \<Rightarrow> (console, 'b, cli_error) prog" where
  "from_world f = bind (get world.truncate) (\<lambda>w. lift (map_err FsFailure (f w)))"

datatype env_var = Present bytes | NotPresent | NotUnicode

definition resolve_passphrase :: "env_var \<Rightarrow> bytes option \<Rightarrow> (bytes option, cli_error) res" where
  "resolve_passphrase env flag =
     (case flag of
        Some passphrase \<Rightarrow> Ok (Some passphrase)
      | None \<Rightarrow>
          (case env of
             Present passphrase \<Rightarrow> Ok (Some passphrase)
           | NotPresent \<Rightarrow> Ok None
           | NotUnicode \<Rightarrow> Err (Anyhow ''ALBUMFS_PASSPHRASE is not valid Unicode'')))"

definition carrier_codec_for :: "path \<Rightarrow> (image_kind, cli_error) res" where
  "carrier_codec_for img = ok_or (Anyhow ''unsupported carrier image type'') (codec_for_path img)"

definition capacity_cmd :: "ext \<Rightarrow> path \<Rightarrow> (console, unit, cli_error) prog" where
  "capacity_cmd e img =
     bind (lift (carrier_codec_for img)) (\<lambda>codec.
     bind (get w_files) (\<lambda>fs.
     bind (lift (map_err CodecFailure (codec_capacity_bytes e codec img fs))) (\<lambda>cap.
     println ''{} usable bytes'' [Num (unat cap)])))"

definition codec_selftest_cmd :: "ext \<Rightarrow> path \<Rightarrow> (console, unit, cli_error) prog" where
  "codec_selftest_cmd e img =
     bind (lift (carrier_codec_for img)) (\<lambda>codec.
     bind (get w_files) (\<lambda>fs.
     bind (lift (map_err CodecFailure (codec_capacity_bytes e codec img fs))) (\<lambda>cap.
     let n = unat (max (cap div 2) 1) in
     bind (fill_bytes e n) (\<lambda>payload.
     let meta = \<lparr>cm_chunk_index = 0, cm_flags = 1\<rparr> in
     bind (lift (map_err CodecFailure (codec_write_chunk e codec img (WriteFramed meta) payload [] fs))) (\<lambda>fs.
     bind (modify (w_files_update (\<lambda>_. fs))) (\<lambda>_.
     bind (lift (map_err CodecFailure (codec_read_chunk e codec img ReadFramed [] fs))) (\<lambda>(rmeta, rpayload).
     if rmeta = meta \<and> rpayload = payload
     then println ''PASS: {n} bytes round-tripped through {}'' [Num n, Name img]
     else bind (eprintln ''FAIL: mismatch after round-trip'' []) (\<lambda>_. raise (Exit 1)))))))))"

definition format_cmd ::
    "ext \<Rightarrow> env_var \<Rightarrow> bytes option \<Rightarrow> bool \<Rightarrow> path option \<Rightarrow> (console, unit, cli_error) prog" where
  "format_cmd e env passphrase force anchor =
     bind (lift (resolve_passphrase env passphrase)) (\<lambda>passphrase.
     bind (on_world (format_with_anchor_options e passphrase anchor force)) (\<lambda>result.
     let sb = fr_superblock result in
     bind (println ''formatted {} blocks, data starts at {}, {} images, encrypted: {}''
         [Num (unat (sb_total_blocks sb)), Num (unat (sb_data_start sb)), Num (length (sb_manifest sb)), Flag (sb_encrypted sb)]) (\<lambda>_.
     case fr_anchor result of
       Some anchor \<Rightarrow> println ''anchor: {}'' [Name anchor]
     | None \<Rightarrow> ret ())))"

text \<open>The album is opened a second time for the inodes.\<close>

definition inspect_root :: "ext \<Rightarrow> u64 \<Rightarrow> world \<Rightarrow> (nat \<times> bool, fs_error) res" where
  "inspect_root e root w =
     and_then (album_open e w) (\<lambda>fs.
     fst (bind (used_inodes e) (\<lambda>used_inodes.
          bind (getattr e root) (\<lambda>inode. ret (used_inodes, is_dir inode))) fs))"

definition info_cmd :: "ext \<Rightarrow> env_var \<Rightarrow> bytes option \<Rightarrow> path option \<Rightarrow> (console, unit, cli_error) prog" where
  "info_cmd e env passphrase anchor =
     bind (lift (resolve_passphrase env passphrase)) (\<lambda>passphrase.
     bind (case (anchor, passphrase) of
         (Some anchor, Some passphrase) \<Rightarrow> from_world (open_with_anchor e anchor passphrase)
       | (None, None) \<Rightarrow> from_world (open_pool e)
       | _ \<Rightarrow> raise (Anyhow ''encrypted info requires both --anchor and a passphrase'')) (\<lambda>(sb, store).
     bind (println ''block size: {}'' [Num (unat (sb_block_size sb))]) (\<lambda>_.
     bind (println ''total blocks: {}'' [Num (unat (sb_total_blocks sb))]) (\<lambda>_.
     bind (println ''inode count: {}'' [Num (unat (sb_inode_count sb))]) (\<lambda>_.
     bind (println ''image count: {}'' [Num (length (sb_manifest sb))]) (\<lambda>_.
     bind (println ''encrypted: {}'' [Flag (sb_encrypted sb)]) (\<lambda>_.
     bind
       (if sb_encrypted sb then
          bind (println ''free blocks: unavailable without passphrase'' []) (\<lambda>_.
          println ''used inodes: unavailable without passphrase'' [])
        else
          bind (lift (map_err FsFailure (fst (load_bitmap e sb store)))) (\<lambda>bitmap.
          bind (println ''free blocks: {}'' [Num (count_free bitmap)]) (\<lambda>_.
          bind (from_world (inspect_root e (sb_root_inode sb))) (\<lambda>(used_inodes, root_is_directory).
          bind (println ''used inodes: {used_inodes}'' [Num used_inodes]) (\<lambda>_.
          println ''root present and directory: {root_is_directory}'' [Flag root_is_directory]))))) (\<lambda>_.
     for_each (sb_manifest sb) (\<lambda>carrier.
       println ''carrier {}: blocks {}..{}''
         [Num (unat (cr_chunk_index carrier)), Num (unat (cr_block_start carrier)),
          Num (unat (cr_block_start carrier + cr_block_count carrier))])))))))))"

definition stats_cmd :: "ext \<Rightarrow> env_var \<Rightarrow> bytes option \<Rightarrow> path option \<Rightarrow> (console, unit, cli_error) prog" where
  "stats_cmd e env passphrase anchor =
     bind (lift (resolve_passphrase env passphrase)) (\<lambda>passphrase.
     bind (case (anchor, passphrase) of
         (Some anchor, Some passphrase) \<Rightarrow> from_world (collect_with_anchor e anchor passphrase)
       | (None, None) \<Rightarrow> from_world (collect e None)
       | _ \<Rightarrow> raise (Anyhow ''encrypted stats requires both --anchor and a passphrase'')) (\<lambda>stats.
     modify (co_out_update (\<lambda>ls. ls @ render stats))))"

definition mount_cmd ::
    "ext \<Rightarrow> session \<Rightarrow> env_var \<Rightarrow> bytes option \<Rightarrow> path option \<Rightarrow> (console, unit, cli_error) prog" where
  "mount_cmd e mount2 env passphrase anchor =
     bind (lift (resolve_passphrase env passphrase)) (\<lambda>passphrase.
     case (anchor, passphrase) of
       (Some anchor, Some passphrase) \<Rightarrow> on_world (mount_with_anchor e mount2 anchor passphrase)
     | (None, None) \<Rightarrow> on_world (mount_with_passphrase e mount2 None)
     | _ \<Rightarrow> raise (Anyhow ''encrypted mount requires both --anchor and a passphrase''))"

text \<open>
  \<open>main\<close>, with the foreign parts as arguments: the session of \<open>fuser\<close>, the status of the unmount
  command and the environment variable.
\<close>

definition main ::
    "ext \<Rightarrow> session \<Rightarrow> (bool, fs_error) res \<Rightarrow> env_var \<Rightarrow> cmd \<Rightarrow> (console, unit, cli_error) prog" where
  "main e mount2 status env cmd =
     (case cmd of
        Capacity img \<Rightarrow> capacity_cmd e img
      | CodecSelftest img \<Rightarrow> codec_selftest_cmd e img
      | Format passphrase force anchor \<Rightarrow> format_cmd e env passphrase force anchor
      | Info passphrase anchor \<Rightarrow> info_cmd e env passphrase anchor
      | Stats passphrase anchor \<Rightarrow> stats_cmd e env passphrase anchor
      | Mount passphrase anchor \<Rightarrow> mount_cmd e mount2 env passphrase anchor
      | Umount \<Rightarrow> lift (map_err FsFailure (umount status)))"

end
