(* ===== verification/CliSpec.thy ===== *)
theory CliSpec
  imports Cli FormatOpen StatsSpec
begin

text \<open>
  The commands together: what \<open>format\<close> leaves is what \<open>info\<close> reports, and a self-test of a carrier
  never reports a mismatch.
\<close>

lemma print_run:
  "println fmt args c = (Ok (), c\<lparr>co_out := co_out c @ [(fmt, args)]\<rparr>)"
  by (simp add: println_def run_simps)

lemma print_all:
  "for_each xs (\<lambda>x. println fmt (g x)) c = (Ok (), c\<lparr>co_out := co_out c @ map (\<lambda>x. (fmt, g x)) xs\<rparr>)"
  by (induction xs arbitrary: c) (simp_all add: run_simps bind_def print_run)

lemma world_extend [simp]:
  "world.truncate (world.extend w x) = w" "co_out (world.extend w (world.more c)) = co_out c"
  "world.truncate (co_out_update f c) = world.truncate c"
  by (cases w; cases c; simp add: world.defs)+

text \<open>What \<open>info\<close> prints of a plaintext pool.\<close>

definition info_lines :: "superblock \<Rightarrow> nat \<Rightarrow> nat \<Rightarrow> bool \<Rightarrow> text_line list" where
  "info_lines sb free inodes root =
     [(''block size: {}'', [Num (unat (sb_block_size sb))]), (''total blocks: {}'', [Num (unat (sb_total_blocks sb))]),
      (''inode count: {}'', [Num (unat (sb_inode_count sb))]), (''image count: {}'', [Num (length (sb_manifest sb))]),
      (''encrypted: {}'', [Flag False]), (''free blocks: {}'', [Num free]), (''used inodes: {used_inodes}'', [Num inodes]),
      (''root present and directory: {root_is_directory}'', [Flag root])] @
     map (\<lambda>r. (''carrier {}: blocks {}..{}'', [Num (unat (cr_chunk_index r)), Num (unat (cr_block_start r)),
       Num (unat (cr_block_start r + cr_block_count r))])) (sb_manifest sb)"

lemma info_run:
  assumes o: "open_pool e (world.truncate c) = Ok (sb, s)" and l: "load_bitmap e sb s = (Ok bm, u)" and plain: "\<not> sb_encrypted sb"
    and r: "inspect_root e (sb_root_inode sb) (world.truncate c) = Ok (inodes, root)"
  shows "main e mount2 status NotPresent (Info None None) c =
    (Ok (), c\<lparr>co_out := co_out c @ info_lines sb (count_free bm) inodes root\<rparr>)"
  using o l plain r
  by (simp add: main_def info_cmd_def resolve_passphrase_def from_world_def bind_def run_simps print_run print_all info_lines_def)

text \<open>The root of an album that holds nothing else.\<close>

lemma inspect_root_run:
  assumes a: "album_open e w = Ok a" "album_ok e a"
    and n: "node (disk e a) = [1 \<mapsto> (m, l, b)]" and d: "m AND S_IFMT = S_IFDIR"
  shows "inspect_root e 1 w = Ok (1, True)"
proof -
  have u: "inode_used (disk e a) k \<longleftrightarrow> k = 1" for k using node_dom [of "disk e a" k] n by (auto split: if_splits)
  obtain t where t: "used_inodes e a = (Ok 1, t)" "album_ok e t" "disk e t = disk e a"
    using used_inodes_run(1) [OF a(2)] by (auto simp: u)
  have "i_mode (inode_at (disk e a) 1) = m" using fun_cong [OF n, of 1] by (simp add: node_def split: if_splits)
  then have "wp (getattr e 1) (\<lambda>r v. is_dir r) no_err t"
    by (intro wp_getattr [OF t(2)]) (use u [of 1] d t(3) in \<open>simp_all add: inode_used_def is_dir_def\<close>)
  then obtain i v where "getattr e 1 t = (Ok i, v)" "is_dir i" unfolding wp_no_err by blast
  with t(1) a(1) show ?thesis by (simp add: inspect_root_def bind_def run_simps)
qed

text \<open>C22: For a plaintext album, when the command \<open>format\<close> without passphrase and anchor, with or without \<open>--force\<close>,
  succeeded on a directory, the command \<open>info\<close> without passphrase and anchor succeeds and prints the geometry that
  \<open>format\<close> announced: all blocks behind the one of the root directory are free, one inode is in use, and the root
  is present and a directory. \<open>info\<close> changes nothing but the output.

  The passphrase variable of the environment is unset, every image of the directory is usable as a carrier,
  none is the temporary file of another, and together they hold less than 2^64 bytes. Encrypted albums are not covered: there \<open>info\<close> prints that the counts
  are unavailable.\<close>

theorem format_then_info:
  assumes laws: "codec_laws e" "jpeg_returns e" and w: "world.truncate c = w"
    and us: "usable_carriers e False None (w_files w) [] (carrier_paths w) = Ok us" "map fst us = carrier_paths w"
      "separate (map fst us)" "(\<Sum>(p, name, n) \<leftarrow> us. unat n) * PB \<le> MAX64"
    and run: "main e mount2 status NotPresent (Format None force None) c = (Ok (), c')"
  shows "\<exists>sb. co_out c' = co_out c @ [(''formatted {} blocks, data starts at {}, {} images, encrypted: {}'',
      [Num (unat (sb_total_blocks sb)), Num (unat (sb_data_start sb)), Num (length (sb_manifest sb)), Flag False])] \<and>
    main e mount2 status NotPresent (Info None None) c' =
      (Ok (), c'\<lparr>co_out := co_out c' @ info_lines sb (unat (sb_total_blocks sb) - Suc (unat (sb_data_start sb))) 1 True\<rparr>)"
proof -
  obtain res w' where f: "format_with_anchor_options e None None force w = (Ok res, w')"
    using run w by (cases "format_with_anchor_options e None None force w")
      (auto simp: main_def format_cmd_def resolve_passphrase_def on_world_def bind_def run_simps split: res.splits)
  let ?sb = "fr_superblock res"
  obtain s a b where O: "open_pool e w' = Ok (?sb, s)" "album_open_store e (Ok (?sb, s)) = Ok a" "album_ok e a"
    "node (disk e a) = [1 \<mapsto> (S_IFDIR OR 0x1ED, 2, b)]" "dk_used (disk e a) = {..unat (sb_data_start ?sb)}"
    "\<not> sb_encrypted ?sb" "sb_root_inode ?sb = 1" "fr_anchor res = None" "al_sb a = ?sb"
    using format_opens [OF laws us f] by blast
  have c': "c' = (world.extend w' (world.more c))\<lparr>co_out := co_out c @
      [(''formatted {} blocks, data starts at {}, {} images, encrypted: {}'',
        [Num (unat (sb_total_blocks ?sb)), Num (unat (sb_data_start ?sb)), Num (length (sb_manifest ?sb)), Flag False])]\<rparr>"
    using run w f O(6,8)
    by (simp add: main_def format_cmd_def resolve_passphrase_def on_world_def bind_def run_simps print_run Let_def)
  obtain bm u where l: "load_bitmap e ?sb s = (Ok bm, u)" and aa: "a = album_of u ?sb bm"
    using O(2) by (auto simp: album_open_store_def split: prod.splits res.splits)
  have "count_free bm = card ({..<unat (sb_total_blocks ?sb)} - {..unat (sb_data_start ?sb)})"
    using O(3,5,9) by (simp add: count_free_card aa album_ok_def album_of_sel disk_sel)
  also have "\<dots> = unat (sb_total_blocks ?sb) - Suc (unat (sb_data_start ?sb))"
  proof -
    have "{..<n} - {..k} = {Suc k..<n}" for n k :: nat by auto
    then show ?thesis by simp
  qed
  finally have free: "count_free bm = unat (sb_total_blocks ?sb) - Suc (unat (sb_data_start ?sb))" .
  have m: "(S_IFDIR OR 0x1ED :: u32) AND S_IFMT = S_IFDIR" by (simp add: S_IFDIR_def S_IFMT_def)
  have "inspect_root e (sb_root_inode ?sb) w' = Ok (1, True)"
    unfolding O(7) by (rule inspect_root_run [OF _ O(3,4) m]) (simp add: album_open_def O(1,2))
  from info_run [of e c' ?sb s bm u 1 True mount2 status] O(1,6) l this
  have "main e mount2 status NotPresent (Info None None) c' = (Ok (), c'\<lparr>co_out := co_out c' @ info_lines ?sb (count_free bm) 1 True\<rparr>)"
    by (simp add: c')
  then show ?thesis unfolding free by (intro exI [of _ ?sb]) (simp add: c')
qed

text \<open>The self-test writes a chunk and reads it back: it passes or fails with an error of the codec.\<close>

lemma codec_failure: "map_err CodecFailure m \<noteq> Err (Exit n)"
  by (cases m) simp_all

lemma selftest_passes:
  assumes laws: "codec_laws e" and run: "main e mount2 status env (CodecSelftest img) c = (r, c')"
  shows "r \<noteq> Err (Exit 1)" "co_err c' = co_err c"
    "r = Ok () \<Longrightarrow> \<exists>n. co_out c' = co_out c @ [(''PASS: {n} bytes round-tripped through {}'', [Num n, Name img])]"
proof -
  have same: "codec_read_chunk e k img ReadFramed [] fs' = Ok (m, b)"
    if "codec_write_chunk e k img (WriteFramed m) b [] fs = Ok fs'" for k m b fs fs'
    by (rule codec.framed [OF laws that])
  show "r \<noteq> Err (Exit 1)" "co_err c' = co_err c"
    "r = Ok () \<Longrightarrow> \<exists>n. co_out c' = co_out c @ [(''PASS: {n} bytes round-tripped through {}'', [Num n, Name img])]"
    using run by (auto simp: main_def codec_selftest_cmd_def carrier_codec_for_def bind_def run_simps fill_bytes_def Let_def
        print_run same codec_failure ok_or_def split: option.splits res.splits prod.splits if_splits)
qed

end
