(* ===== verification/CliWitnesses.thy ===== *)
theory CliWitnesses
  imports CliSpec FormatWitnesses
begin

text \<open>The commands on the directory of the small image.\<close>

definition demo_console :: console where
  "demo_console = world.extend demo_world (console.fields [] [])"

theorem format_then_info_witness:
  "\<exists>c' d. main demo_ext (ret ()) (Ok True) NotPresent (Format None True None) demo_console = (Ok (), c') \<and>
    main demo_ext (ret ()) (Ok True) NotPresent (Info None None) c' = (Ok (), d) \<and>
    (''free blocks: {}'', [Num 16]) \<in> set (co_out d) \<and> (''used inodes: {used_inodes}'', [Num 1]) \<in> set (co_out d)"
proof -
  obtain w' where f: "format_with_anchor_options demo_ext None None True demo_world =
      (Ok \<lparr>fr_superblock = demo_format_sb, fr_anchor = None\<rparr>, w')"
    using format_run [OF demo_formatting, of True] by blast
  have sb: "unat (sb_total_blocks demo_format_sb) = 23" "unat (sb_data_start demo_format_sb) = 6"
    by (simp_all add: demo_format_sb_def superblock_standard_def)
  have w: "world.truncate demo_console = demo_world" "co_out demo_console = []"
    by (simp_all add: demo_console_def world.defs console.defs)
  obtain c' x y where run: "main demo_ext (ret ()) (Ok True) NotPresent (Format None True None) demo_console = (Ok (), c')"
    and out: "co_out c' = [(''formatted {} blocks, data starts at {}, {} images, encrypted: {}'', [Num 23, Num 6, x, y])]"
    using f w sb by (simp add: main_def format_cmd_def resolve_passphrase_def on_world_def bind_def run_simps print_run Let_def)
  from format_then_info [OF demo_codec_laws demo_jpeg_returns w(1) demo_usable demo_separate demo_capacity run]
  obtain sb :: superblock where "unat (sb_total_blocks sb) = 23" "unat (sb_data_start sb) = 6"
    and info: "main demo_ext (ret ()) (Ok True) NotPresent (Info None None) c' =
      (Ok (), c'\<lparr>co_out := co_out c' @ info_lines sb (unat (sb_total_blocks sb) - Suc (unat (sb_data_start sb))) 1 True\<rparr>)"
    using out w(2) by auto
  then have "main demo_ext (ret ()) (Ok True) NotPresent (Info None None) c' =
      (Ok (), c'\<lparr>co_out := co_out c' @ info_lines sb 16 1 True\<rparr>)" by simp
  with run show ?thesis by (intro exI conjI) (assumption | simp add: info_lines_def)+
qed

end
