(* ===== verification/Sealed.thy ===== *)
theory Sealed
  imports Session
begin

text \<open>
  An encrypted album: the images of its manifest hold their blocks without a mark, in an order that the key
  decides, and the anchor holds the superblock under the passphrase. \<open>open_with_anchor\<close> finds both after
  a format and after any session, for no operation changes the anchor, the names or the room of an image.
\<close>

subsection \<open>What the images hold\<close>

definition sealed_range :: "carrier_slot \<Rightarrow> carrier_range" where
  "sealed_range c = \<lparr>cr_name = path_name (cs_path c), cr_chunk_index = cs_chunk_index c, cr_block_start = cs_block_start c,
     cr_block_count = cs_block_count c\<rparr>"

definition range_path :: "carrier_range \<Rightarrow> path" where
  "range_path r = Path (cr_name r)"

definition spacious :: "ext \<Rightarrow> files \<Rightarrow> carrier_range \<Rightarrow> bool" where
  "spacious e fs r \<longleftrightarrow> (\<exists>k raw. codec_for_path (range_path r) = Some k \<and>
     codec_raw_capacity_bytes e k (range_path r) fs = Ok raw \<and> unat (cr_block_count r) * PB \<le> unat raw)"

text \<open>The data carriers, none of them the anchor or its temporary file.\<close>

definition data_files :: "ext \<Rightarrow> path \<Rightarrow> superblock \<Rightarrow> files \<Rightarrow> bool" where
  "data_files e anchor sb fs \<longleftrightarrow> separate (anchor # map range_path (sb_manifest sb)) \<and>
     (\<forall>r \<in> set (sb_manifest sb). validate_name (cr_name r) = Ok () \<and> spacious e fs r)"

definition anchored :: "ext \<Rightarrow> path \<Rightarrow> bytes \<Rightarrow> store_keys \<Rightarrow> superblock \<Rightarrow> files \<Rightarrow> bool" where
  "anchored e anchor passphrase keys sb fs \<longleftrightarrow> (\<exists>k raw bootstrap plain. codec_for_path anchor = Some k \<and>
     codec_raw_capacity_bytes e k anchor fs = Ok raw \<and> BOOTSTRAP_LEN \<le> unat raw \<and>
     codec_read_prefix e k anchor BOOTSTRAP_LEN fs = Ok bootstrap \<and>
     open_bootstrap e passphrase bootstrap = Ok (plain, keys) \<and> superblock_decode (e_crc32 e) plain = Ok sb)"

definition data_pool :: "ext \<Rightarrow> path \<Rightarrow> store_keys \<Rightarrow> superblock \<Rightarrow> 'a store_scheme \<Rightarrow> bool" where
  "data_pool e anchor keys sb s \<longleftrightarrow> bs_encrypted s \<and> bs_cipher s = Some (sk_cipher keys) \<and> bs_order_key s = Some (sk_order keys) \<and>
     markerless_encrypted sb \<and> validate_manifest_geometry sb = Ok () \<and> bs_total_blocks s = sb_total_blocks sb \<and>
     unat (sb_total_blocks sb) * PB \<le> MAX64 \<and> sb_manifest sb = map sealed_range (bs_carriers s) \<and>
     data_files e anchor sb (w_files s)"

lemma range_path [simp]: "range_path (sealed_range c) = cs_path c"
  by (simp add: range_path_def sealed_range_def)

lemma anchored_local:
  "fs' anchor = fs anchor \<Longrightarrow> anchored e anchor passphrase keys sb fs' = anchored e anchor passphrase keys sb fs"
  using codec.prefix_local [of fs' anchor fs] codec.capacity_local [of fs' anchor fs] by (simp add: anchored_def)

lemma data_files_cong:
  assumes "\<And>r k. r \<in> set (sb_manifest sb) \<Longrightarrow> codec_for_path (range_path r) = Some k \<Longrightarrow>
      codec_raw_capacity_bytes e k (range_path r) fs' = codec_raw_capacity_bytes e k (range_path r) fs"
    and "data_files e anchor sb fs"
  shows "data_files e anchor sb fs'"
  using assms by (fastforce simp: data_files_def spacious_def)

subsection \<open>Opening\<close>

lemma find_anchor:
  assumes "anchor \<in> set paths" "fs anchor \<noteq> None"
  shows "find (\<lambda>path. canonicalize path fs = Ok anchor) paths = Some anchor"
proof -
  have "(\<lambda>path. canonicalize path fs = Ok anchor) = (\<lambda>path. path = anchor)" using assms(2) by (auto simp: canonicalize_def)
  moreover have "find (\<lambda>path. path = anchor) paths = Some anchor" using assms(1) by (induction paths) auto
  ultimately show ?thesis by simp
qed

lemma select_again:
  assumes "anchored e anchor passphrase keys sb fs" "anchor \<in> set paths"
  shows "select_anchor e paths (Some anchor) fs = Ok anchor"
proof -
  obtain k raw where k: "codec_for_path anchor = Some k" "codec_raw_capacity_bytes e k anchor fs = Ok raw" "BOOTSTRAP_LEN \<le> unat raw"
    using assms(1) by (auto simp: anchored_def)
  have "fs anchor \<noteq> None" by (rule capacity_exists [OF k(2)])
  then show ?thesis using k find_anchor [OF assms(2)] by (simp add: select_anchor_def canonicalize_def codec_of_def)
qed

lemma check_data:
  assumes "\<forall>r \<in> set rs. validate_name (cr_name r) = Ok () \<and> spacious e fs r \<and> unat (cr_block_count r) * PB \<le> MAX64"
    and "distinct (map range_path rs)" "anchor \<notin> set (map range_path rs)" "\<forall>n \<in> set seen. Path n \<notin> set (map range_path rs)"
    and "fs anchor \<noteq> None"
  shows "check_ranges e anchor fs seen rs = Ok (map (\<lambda>r. (range_path r, False)) rs)"
  using assms
proof (induction rs arbitrary: seen)
  case (Cons r rs)
  obtain k raw where k: "codec_for_path (range_path r) = Some k" "codec_raw_capacity_bytes e k (range_path r) fs = Ok raw"
    "unat (cr_block_count r) * PB \<le> unat raw" using Cons.prems(1) by (auto simp: spacious_def)
  have x: "fs (range_path r) \<noteq> None" by (rule capacity_exists [OF k(2)])
  have "check_ranges e anchor fs (cr_name r # seen) rs = Ok (map (\<lambda>r. (range_path r, False)) rs)"
    by (rule Cons.IH) (use Cons.prems in \<open>auto simp: range_path_def\<close>)
  moreover have "cr_name r \<notin> set seen" using Cons.prems(4) by (auto simp: range_path_def)
  ultimately show ?case
    using Cons.prems(1,3,5) k x unfolding range_path_def by (auto simp: canonicalize_def codec_of_def not_less)
qed simp

definition unmarked :: "store \<Rightarrow> store" where
  "unmarked = bs_carriers_update (map (\<lambda>c. c\<lparr>cs_is_primary := False\<rparr>))"

lemma sealed_opens:
  assumes p: "data_pool e anchor keys sb s" and a: "anchored e anchor passphrase keys sb (w_files s)"
    and m: "anchor \<in> set (carrier_paths (world.truncate s))"
  shows "open_with_anchor e anchor passphrase (world.truncate s) = Ok (sb, unmarked (closed s))"
proof -
  let ?ms = "sb_manifest sb" and ?fs = "w_files s"
  have wf: "w_files (world.truncate s) = ?fs" by (simp add: world.defs)
  obtain k raw bootstrap plain where A: "codec_for_path anchor = Some k" "codec_raw_capacity_bytes e k anchor ?fs = Ok raw"
      "codec_read_prefix e k anchor BOOTSTRAP_LEN ?fs = Ok bootstrap"
      "open_bootstrap e passphrase bootstrap = Ok (plain, keys)" "superblock_decode (e_crc32 e) plain = Ok sb"
    using a by (auto simp: anchored_def)
  have P: "markerless_encrypted sb" "validate_manifest_geometry sb = Ok ()" "?ms = map sealed_range (bs_carriers s)"
    "unat (sb_total_blocks sb) * PB \<le> MAX64" "data_files e anchor sb ?fs" using p by (simp_all add: data_pool_def)
  have v: "validate_ranges 0 ?ms = Ok (sb_total_blocks sb)"
    using P(2) by (cases "validate_ranges 0 ?ms") (auto simp: validate_manifest_geometry_def split: if_splits)
  note T = validate_ranges_tiled [OF v]
  have cnt: "unat (cr_block_count r) * PB \<le> MAX64" if r: "r \<in> set ?ms" for r
  proof -
    have "unat (cr_block_count r) \<le> unat (sb_total_blocks sb)"
      using tiled_part [OF conjunct1 [OF T]] r by force
    then show ?thesis using P(4) by (meson le_trans mult_le_mono1)
  qed
  have "check_ranges e anchor ?fs [] ?ms = Ok (map (\<lambda>r. (range_path r, False)) ?ms)"
  proof (rule check_data)
    show "\<forall>r \<in> set ?ms. validate_name (cr_name r) = Ok () \<and> spacious e ?fs r \<and> unat (cr_block_count r) * PB \<le> MAX64"
      using P(5) cnt by (simp add: data_files_def)
    show "distinct (map range_path ?ms)" "anchor \<notin> set (map range_path ?ms)"
      using P(5) by (simp_all add: data_files_def separate_def)
    show "?fs anchor \<noteq> None" by (rule capacity_exists [OF A(2)])
  qed simp
  moreover have "from_manifest (map (\<lambda>r. (range_path r, False)) ?ms) ?ms (Some keys) (world.truncate s) = unmarked (closed s)"
  proof -
    have "sum_list (map cr_block_count ?ms) = bs_total_blocks s" using T p by (simp add: data_pool_def)
    moreover have "map (\<lambda>((path, is_primary), range).
          \<lparr>cs_path = path, cs_chunk_index = cr_chunk_index range, cs_is_primary = is_primary,
           cs_block_start = cr_block_start range, cs_block_count = cr_block_count range, cs_buffer = None, cs_dirty = False\<rparr>)
        (zip (map (\<lambda>r. (range_path r, False)) ?ms) ?ms) =
      map (\<lambda>c. c\<lparr>cs_is_primary := False, cs_buffer := None, cs_dirty := False\<rparr>) (bs_carriers s)"
      unfolding P(3) by (rule nth_equalityI) (simp_all add: sealed_range_def range_path_def)
    ultimately show ?thesis
      using p by (simp add: data_pool_def from_manifest_def store_of_def unmarked_def closed_def drop_buffers_def store.defs world.defs o_def)
  qed
  ultimately show ?thesis
    unfolding open_with_anchor_def Let_def wf select_again [OF a m] using A P(1,2) by (simp add: codec_of_def)
qed

end
