(* ===== verification/SealedSession.thy ===== *)
theory SealedSession
  imports Sealed
begin

text \<open>The pool of an encrypted album through a format, an opening and a session.\<close>

subsection \<open>What keeps a pool sealed\<close>

lemma separate_Cons: "separate (p # ps) \<Longrightarrow> separate ps"
  by (simp add: separate_def)

lemma separate_path:
  assumes "separate (p # ps)" "q \<in> set ps" "codec_for_path q = Some k"
  shows "p \<noteq> q" "p \<noteq> tmp_path k q"
  using assms by (auto simp: separate_def codec_for_path_def)

lemma data_pool_cong:
  assumes p: "data_pool e anchor keys sb s"
    and f: "bs_encrypted t = bs_encrypted s" "bs_cipher t = bs_cipher s" "bs_order_key t = bs_order_key s"
      "bs_total_blocks t = bs_total_blocks s" "map sealed_range (bs_carriers t) = map sealed_range (bs_carriers s)"
    and fs: "\<And>c k. c \<in> set (bs_carriers s) \<Longrightarrow> codec_for_path (cs_path c) = Some k \<Longrightarrow>
      codec_raw_capacity_bytes e k (cs_path c) (w_files t) = codec_raw_capacity_bytes e k (cs_path c) (w_files s)"
  shows "data_pool e anchor keys sb t"
proof -
  have "data_files e anchor sb (w_files t)"
  proof (rule data_files_cong)
    show "data_files e anchor sb (w_files s)" using p by (simp add: data_pool_def)
    fix r k assume r: "r \<in> set (sb_manifest sb)" and k: "codec_for_path (range_path r) = Some k"
    obtain c where "c \<in> set (bs_carriers s)" "r = sealed_range c" using r p by (auto simp: data_pool_def)
    with fs k show "codec_raw_capacity_bytes e k (range_path r) (w_files t) =
        codec_raw_capacity_bytes e k (range_path r) (w_files s)" by simp
  qed
  with p f show ?thesis by (simp add: data_pool_def)
qed

lemma data_pool_paths: "data_pool e anchor keys sb s \<Longrightarrow> separate (anchor # map cs_path (bs_carriers s))"
  by (auto simp: data_pool_def data_files_def o_def)

lemma data_pool_static:
  fixes s t :: "'a store_scheme"
  assumes "only_blocks s t" "data_pool e anchor keys sb s"
  shows "data_pool e anchor keys sb t" "w_files t = w_files s" "w_entries t = w_entries s"
proof -
  have st: "static t = static s" using assms(1) by (simp add: only_blocks_def)
  then show f: "w_files t = w_files s" "w_entries t = w_entries s" by (simp_all add: static_def)
  let ?g = "\<lambda>(p, i, z :: bool, a, n). \<lparr>cr_name = path_name p, cr_chunk_index = i, cr_block_start = a, cr_block_count = n\<rparr>"
  have "map sealed_range (bs_carriers u) = map ?g (fst (static u))" for u :: "'a store_scheme"
    by (simp add: static_def sealed_range_def)
  with st have "map sealed_range (bs_carriers t) = map sealed_range (bs_carriers s)" by metis
  then show "data_pool e anchor keys sb t"
    by (intro data_pool_cong [OF assms(2)]) (use st f in \<open>simp_all add: static_def\<close>)
qed

lemma flush_slot_sealed:
  assumes laws: "codec_laws e" and p: "data_pool e anchor keys sb s" and i: "i < length (bs_carriers s)" and run: "flush_slot e i s = (r, t)"
  shows "data_pool e anchor keys sb t" "w_files t anchor = w_files s anchor"
proof -
  have "data_pool e anchor keys sb t \<and> w_files t anchor = w_files s anchor"
  proof (cases "r = Ok () \<and> cs_dirty (bs_carriers s ! i)")
    case False
    then have "t = s" using run flush_slot_failed [OF run] by (auto simp: flush_slot_clean)
    with p show ?thesis by simp
  next
    case True
    let ?c = "bs_carriers s ! i"
    have ok: "flush_slot e i s = (Ok (), t)" and d: "cs_dirty ?c" using True run by simp_all
    obtain b where b: "cs_buffer ?c = Some b"
      using ok d by (cases "cs_buffer ?c") (simp_all add: flush_slot_def bind_def run_simps)
    obtain k where k: "codec_for_path (cs_path ?c) = Some k"
      using ok d b by (cases "codec_for_path (cs_path ?c)") (simp_all add: flush_slot_def bind_def run_simps)
    note sep = data_pool_paths [OF p]
    obtain fs where fs: "t = bs_carriers_update (\<lambda>cs. cs[i := ?c\<lparr>cs_dirty := False\<rparr>]) (w_files_update (\<lambda>_. fs) s)"
        "\<And>j. j < length (bs_carriers s) \<Longrightarrow> j \<noteq> i \<Longrightarrow> fs (cs_path (bs_carriers s ! j)) = w_files s (cs_path (bs_carriers s ! j))"
        "codec_raw_capacity_bytes e k (cs_path ?c) fs = codec_raw_capacity_bytes e k (cs_path ?c) (w_files s)"
        "\<And>q. q \<noteq> cs_path ?c \<Longrightarrow> q \<noteq> tmp_path k (cs_path ?c) \<Longrightarrow> fs q = w_files s q"
      using flush_slot_run [OF laws i d b separate_Cons [OF sep] ok] k by blast
    have m: "map sealed_range ((bs_carriers s)[i := ?c\<lparr>cs_dirty := False\<rparr>]) = map sealed_range (bs_carriers s)"
      using i by (simp add: map_update list_update_same_conv sealed_range_def)
    have "data_pool e anchor keys sb t"
    proof (rule data_pool_cong [OF p])
      fix c k' assume c: "c \<in> set (bs_carriers s)" "codec_for_path (cs_path c) = Some k'"
      then obtain j where j: "j < length (bs_carriers s)" "c = bs_carriers s ! j" by (auto simp: in_set_conv_nth)
      then show "codec_raw_capacity_bytes e k' (cs_path c) (w_files t) = codec_raw_capacity_bytes e k' (cs_path c) (w_files s)"
        using fs(2) [of j] fs(3) c k codec.capacity_local [of fs "cs_path c" "w_files s" e k'] by (cases "j = i") (simp_all add: fs(1))
    qed (simp_all add: fs(1) m)
    moreover have "fs anchor = w_files s anchor"
      by (rule fs(4)) (use separate_path [OF sep _ k] nth_mem [OF i] in auto)
    ultimately show ?thesis by (simp add: fs(1))
  qed
  then show "data_pool e anchor keys sb t" "w_files t anchor = w_files s anchor" by blast+
qed

lemma flush_sealed:
  fixes s :: "'a store_scheme"
  assumes laws: "codec_laws e" and p: "data_pool e anchor keys sb s"
  shows "data_pool e anchor keys sb (snd (flush e s)) \<and> w_files (snd (flush e s)) anchor = w_files s anchor \<and>
    w_entries (snd (flush e s)) = w_entries s \<and> store.more (snd (flush e s)) = store.more s"
proof (rule flush_keeps [where I = "\<lambda>u. data_pool e anchor keys sb u \<and> w_files u anchor = w_files s anchor \<and>
    w_entries u = w_entries s \<and> store.more u = store.more s"])
  fix k r and u v :: "'a store_scheme"
  assume k: "k < length (bs_carriers s)" and u: "data_pool e anchor keys sb u \<and> w_files u anchor = w_files s anchor \<and>
    w_entries u = w_entries s \<and> store.more u = store.more s" and st: "flush_slot e k u = (r, v)"
  have len: "length (bs_carriers x) = length (sb_manifest sb)" if "data_pool e anchor keys sb x" for x :: "'a store_scheme"
    using that by (simp add: data_pool_def)
  have "k < length (bs_carriers u)" using k len [OF p] len [of u] u by simp
  then have "data_pool e anchor keys sb v" "w_files v anchor = w_files u anchor"
    using flush_slot_sealed [OF laws _ _ st] u by blast+
  moreover have "w_entries v = w_entries u" "store.more v = store.more u" by (subst flush_slot_frame [OF st], simp)+
  ultimately show "data_pool e anchor keys sb v \<and> w_files v anchor = w_files s anchor \<and>
    w_entries v = w_entries s \<and> store.more v = store.more s" using u by simp
qed (use p in simp)

text \<open>An album opened on such a store.\<close>

lemma data_pool_opened:
  fixes c :: store
  assumes p: "data_pool e anchor keys sb c" and a: "album_open_store e (Ok (sb, c)) = Ok a"
  shows "al_sb a = sb" "data_pool e anchor keys sb a" "w_files a = w_files c" "w_entries a = w_entries c"
proof -
  obtain bm u where u: "load_bitmap e sb c = (Ok bm, u)" "a = album_of u sb bm"
    using a by (auto simp: album_open_store_def split: prod.splits res.splits)
  note S = data_pool_static [OF runsD [OF sb.runs_load_bitmap u(1)] p]
  have f: "bs_carriers a = bs_carriers u" "w_files a = w_files u" "w_entries a = w_entries u" "bs_encrypted a = bs_encrypted u"
    "bs_cipher a = bs_cipher u" "bs_order_key a = bs_order_key u" "bs_total_blocks a = bs_total_blocks u"
    unfolding u(2) by (simp_all add: album_of_def store.defs)
  show "al_sb a = sb" unfolding u(2) by (simp add: album_of_sel)
  show "w_files a = w_files c" "w_entries a = w_entries c" using S f by simp_all
  show "data_pool e anchor keys sb a" by (rule data_pool_cong [OF S(1)]) (simp_all add: f)
qed

lemma data_pool_closed:
  fixes s :: "'a store_scheme"
  assumes p: "data_pool e anchor keys sb s"
  shows "data_pool e anchor keys sb (closed s)" "data_pool e anchor keys sb (unmarked (closed s))"
    "w_files (unmarked (closed s)) = w_files s" "w_entries (unmarked (closed s)) = w_entries s"
    "w_files (closed s) = w_files s" "w_entries (closed s) = w_entries s"
proof -
  show "w_files (unmarked (closed s)) = w_files s" "w_entries (unmarked (closed s)) = w_entries s"
    "w_files (closed s) = w_files s" "w_entries (closed s) = w_entries s"
    by (simp_all add: unmarked_def closed_def drop_buffers_def store.defs)
  show "data_pool e anchor keys sb (closed s)" "data_pool e anchor keys sb (unmarked (closed s))"
    by (rule data_pool_cong [OF p]; simp add: unmarked_def closed_def drop_buffers_def store.defs o_def sealed_range_def)+
qed


subsection \<open>A session\<close>

definition stays_sealed :: "ext \<Rightarrow> path \<Rightarrow> store_keys \<Rightarrow> superblock \<Rightarrow> 'a album_scheme \<Rightarrow> 'a album_scheme \<Rightarrow> bool" where
  "stays_sealed e anchor keys sb s t \<longleftrightarrow> (codec_laws e \<longrightarrow> al_sb s = sb \<longrightarrow> data_pool e anchor keys sb s \<longrightarrow>
     al_sb t = sb \<and> data_pool e anchor keys sb t \<and> w_files t anchor = w_files s anchor \<and> w_entries t = w_entries s)"

lemma only_blocks_sealed: "only_blocks s t \<Longrightarrow> al_sb t = al_sb s \<Longrightarrow> stays_sealed e anchor keys sb s t"
  using data_pool_static [of s t] by (simp add: stays_sealed_def)

interpretation ps: album_sessions "stays_sealed e anchor keys sb" e for e anchor keys sb
proof unfold_locales
  fix s t u :: "'a album_scheme"
  show "stays_sealed e anchor keys sb s s" by (simp add: stays_sealed_def)
  show "stays_sealed e anchor keys sb s t \<Longrightarrow> stays_sealed e anchor keys sb t u \<Longrightarrow> stays_sealed e anchor keys sb s u"
    by (simp add: stays_sealed_def)
  show "stays_sealed e anchor keys sb s (snd (flush e s))"
    using flush_sealed [of e anchor keys sb s] album_more [of "snd (flush e s)" s] by (simp add: stays_sealed_def)
qed (rule only_blocks_sealed; simp add: only_blocks_def static_buffer dirtier_buffer dirtier_refl static_frame)+

text \<open>The album of an anchor and a passphrase.\<close>

definition sealed :: "ext \<Rightarrow> path \<Rightarrow> bytes \<Rightarrow> store_keys \<Rightarrow> superblock \<Rightarrow> 'a album_scheme \<Rightarrow> bool" where
  "sealed e anchor passphrase keys sb s \<longleftrightarrow> codec_laws e \<and> al_sb s = sb \<and> data_pool e anchor keys sb s \<and>
     anchored e anchor passphrase keys sb (w_files s) \<and> anchor \<in> set (carrier_paths (world.truncate s))"

lemma sealed_kept:
  assumes "sealed e anchor passphrase keys sb s" "al_sb t = sb" "data_pool e anchor keys sb t"
    "w_files t anchor = w_files s anchor" "w_entries t = w_entries s"
  shows "sealed e anchor passphrase keys sb t"
proof -
  have "carrier_paths (world.truncate t) = carrier_paths (world.truncate s)"
    using assms(5) by (simp add: carrier_paths_def world.defs)
  then show ?thesis using assms(1-3) assms(4) anchored_local [of "w_files t" anchor "w_files s"] by (simp add: sealed_def)
qed

lemma sealed_step:
  assumes p: "sealed e anchor passphrase keys sb s" and st: "fs_step e s t"
  shows "sealed e anchor passphrase keys sb t"
proof -
  have D: "codec_laws e" "al_sb s = sb" "data_pool e anchor keys sb s" using p by (simp_all add: sealed_def)
  have kept: ?thesis if "runs (stays_sealed e anchor keys sb) m" "m s = (r, t)" for m :: "(album, 'b, fs_error) prog" and r
    using sealed_kept [OF p, of t] runsD [OF that] D by (simp add: stays_sealed_def)
  show ?thesis
    using st
  proof cases
    case (step_reopen)
    then have a: "album_open_store e (Ok (sb, closed s)) = Ok t" using D(2) by simp
    note O = data_pool_opened [OF data_pool_closed(1) [OF D(3)] a]
    show ?thesis by (rule sealed_kept [OF p O(1,2)]) (simp_all add: O(3,4) data_pool_closed(5,6) [OF D(3)])
  qed (rule kept, (rule ps.runs_inodes ps.runs_directories ps.runs_read_file ps.runs_files ps.runs_making ps.runs_removing
    ps.runs_rename ps.runs_sync), assumption)+
qed

interpretation fe: kept "fs_step e" "sealed e anchor passphrase keys sb" for e anchor passphrase keys sb
  by unfold_locales (rule sealed_step)

text \<open>A durable one is what its anchor opens as.\<close>

lemma unmarked_store:
  fixes s :: album
  assumes "album_ok e s" "durable e s"
  shows "device_ok e (unmarked (closed s))" "view e (unmarked (closed s)) = view e s"
    "bs_total_blocks (unmarked (closed s)) = bs_total_blocks s"
  using closed_store [OF assms] store_like_cong [of "unmarked (closed s)" "\<lambda>_. False" "closed s" e]
  by (simp_all add: unmarked_def)

lemma sealed_durable:
  fixes s :: album
  assumes p: "sealed e anchor passphrase keys sb s" and ok: "album_ok e s" and d: "durable e s"
  shows "\<exists>v. album_open_with_anchor e anchor passphrase (world.truncate s) = Ok v \<and> al_sb v = sb \<and> album_ok e v \<and>
    disk e v = disk e s \<and> sealed e anchor passphrase keys sb v"
proof -
  have D: "al_sb s = sb" "data_pool e anchor keys sb s" "anchored e anchor passphrase keys sb (w_files s)"
    "anchor \<in> set (carrier_paths (world.truncate s))" using p by (simp_all add: sealed_def)
  obtain v where v: "album_open_store e (Ok (sb, unmarked (closed s))) = Ok v" "album_ok e v" "disk e v = disk e s"
    using reopen_store [OF ok d unmarked_store [OF ok d]] D(1) by auto
  note O = data_pool_opened [OF data_pool_closed(2) [OF D(2)] v(1)]
  have "sealed e anchor passphrase keys sb v"
    by (rule sealed_kept [OF p O(1,2)]) (simp_all add: O(3,4) data_pool_closed(3,4) [OF D(2)])
  then show ?thesis
    using v O(1) sealed_opens [OF D(2-4)] unfolding album_open_with_anchor_def by auto
qed

end
