(* ===== verification/SealedFormat.thy ===== *)
theory SealedFormat
  imports SealedSession
begin

text \<open>
  A format with a passphrase: the pool it leaves, and the anchor that is written last.
\<close>

subsection \<open>The pool of a new store\<close>

lemma usable_named:
  "usable_carriers e True anchor fs seen ps = Ok us \<Longrightarrow> (p, name, c) \<in> set us \<Longrightarrow>
     name = path_name p \<and> utf8_valid name \<and> validate_name name = Ok () \<and>
     (\<exists>k raw. codec_for_path p = Some k \<and> codec_raw_capacity_bytes e k p fs = Ok raw \<and> unat c * PB \<le> unat raw)"
proof (induction ps arbitrary: seen us)
  case (Cons q ps)
  show ?case
  proof (cases "anchor = Some q")
    case True
    with Cons show ?thesis by auto
  next
    case False
    with Cons.prems(1) obtain k capacity where k: "codec_of q = Ok k" "codec_raw_capacity_bytes e k q fs = Ok capacity"
      by (auto simp: and_then_Ok_iff map_err_Ok_iff)
    have ck: "codec_for_path q = Some k" using k(1) by (cases "codec_for_path q") (simp_all add: codec_of_def)
    have "unat (capacity div of_nat PB) * PB \<le> unat capacity" by (simp add: unat_div PB_val)
    with Cons False k ck show ?thesis by (auto simp: Let_def and_then_Ok_iff split: if_splits)
  qed
qed simp

lemma usable_sealed:
  assumes "usable_carriers e True anchor fs seen ps = Ok us" "u \<in> set us"
  shows "fst (snd u) = path_name (fst u)" "utf8_valid (fst (snd u))" "validate_name (fst (snd u)) = Ok ()"
    "\<exists>k raw. codec_for_path (fst u) = Some k \<and> codec_raw_capacity_bytes e k (fst u) fs = Ok raw \<and> unat (snd (snd u)) * PB \<le> unat raw"
proof -
  have "(fst u, fst (snd u), snd (snd u)) \<in> set us" using assms(2) by simp
  from usable_named [OF assms(1) this] show "fst (snd u) = path_name (fst u)" "utf8_valid (fst (snd u))" "validate_name (fst (snd u)) = Ok ()"
    "\<exists>k raw. codec_for_path (fst u) = Some k \<and> codec_raw_capacity_bytes e k (fst u) fs = Ok raw \<and> unat (snd (snd u)) * PB \<le> unat raw"
    by blast+
qed

lemma markerless_sel:
  assumes "sb = superblock_markerless a b c d k m"
  shows "sb_total_blocks sb = a" "sb_inode_count sb = b" "sb_bitmap_start sb = c" "sb_inode_table_start sb = d"
    "sb_data_start sb = k" "sb_manifest sb = m" "markerless_encrypted sb" "sb_encrypted sb" "length (sb_salt sb) = 16"
    "sb_version sb = MARKERLESS_FS_VERSION"
  by (simp_all add: assms superblock_markerless_def superblock_standard_def markerless_encrypted_def sb_encrypted_def
      CRYPTO_FLAG_ENCRYPTED_def)

lemma sealed_superblock:
  assumes us: "usable_carriers e True anchor fs [] ps = Ok us" and m: "build_manifest 0 0 us = (m, n)"
    and sb: "sb = superblock_markerless a b c d k m" and fits: "length (superblock_encode (e_crc32 e) sb) \<le> UB"
  shows "superblock_decode (e_crc32 e) (pad (superblock_encode (e_crc32 e) sb)) = Ok sb"
proof -
  note S = markerless_sel [OF sb] and M = build_manifest_nth [OF m]
  have "\<forall>r \<in> set m. utf8_valid (cr_name r) \<and> validate_name (cr_name r) = Ok ()"
    using M usable_sealed(2,3) [OF us nth_mem] unfolding all_set_conv_all_nth by simp
  moreover have "length (sb_manifest sb) < 2 ^ 32" by (rule manifest_fits [OF S(9) fits])
  ultimately have "superblock_wf sb"
    using S by (simp add: superblock_wf_def carrier_wf_def MARKERLESS_FS_VERSION_def)
      (simp add: sb superblock_markerless_def superblock_standard_def)
  moreover have "UB \<le> MAX64" by (simp add: UB_val MAX64_def)
  ultimately show ?thesis unfolding pad_eq [OF fits] by (intro superblock_decode_encode) (use fits in simp_all)
qed

lemma new_data_pool:
  assumes us: "usable_carriers e True anchor0 (w_files w) [] ps = Ok us" "separate (anchor # map fst us)"
      "(\<Sum>(p, name, c) \<leftarrow> us. unat c) * PB \<le> MAX64"
    and m: "build_manifest 0 0 us = (m, n)" and sb: "sb = superblock_markerless a b c d k m" "sb_total_blocks sb = n"
  shows "validate_manifest_geometry sb = Ok ()" "unat (sb_total_blocks sb) * PB \<le> MAX64" "length m = length us"
    "data_pool e anchor keys sb (new_for_format (map fst us) m (Some keys) w)"
proof -
  let ?s = "new_for_format (map fst us) m (Some keys) w"
  note S = markerless_sel [OF sb(1)] and M = build_manifest_nth [OF m] and N = new_slots [OF m, where keys = "Some keys" and w = w]
  have s: "(\<Sum>(p, name, c) \<leftarrow> us. unat c) \<le> MAX64" using us(3) by (simp add: PB_val)
  have nz: "\<forall>(p, name, c) \<in> set us. c \<noteq> 0" using usable_nonzero [OF us(1)] by blast
  have V: "validate_ranges 0 m = Ok n" "unat n = (\<Sum>(p, name, c) \<leftarrow> us. unat c)"
    using build_manifest_valid [OF nz _ m] s by simp_all
  then show v: "validate_manifest_geometry sb = Ok ()" using S(6) sb(2) by (simp add: validate_manifest_geometry_def)
  show total: "unat (sb_total_blocks sb) * PB \<le> MAX64" using V(2) us(3) sb(2) by simp
  show "length m = length us" using M by simp
  have len: "length (bs_carriers ?s) = length us" using M by (simp add: new_for_format_def store_of_def)
  note names = usable_sealed [OF us(1) nth_mem]
  have rng: "m = map sealed_range (bs_carriers ?s)"
    by (rule nth_equalityI) (use M N len names(1) in \<open>simp_all add: sealed_range_def\<close>)
  have path: "range_path (m ! i) = fst (us ! i)" if "i < length us" for i
    using M names(1) [OF that] that by (simp add: range_path_def)
  have paths: "map range_path m = map fst us" by (rule nth_equalityI) (use M path in simp_all)
  have "validate_name (cr_name r) = Ok () \<and> spacious e (w_files w) r" if r: "r \<in> set m" for r
  proof -
    obtain i where i: "i < length us" "r = m ! i" using r M by (auto simp: in_set_conv_nth)
    show ?thesis using names(3,4) [OF i(1)] M i path [OF i(1)] by (simp add: spacious_def)
  qed
  then have "data_files e anchor sb (w_files w)" using us(2) by (simp add: data_files_def S(6) paths)
  moreover have "bs_total_blocks ?s = sb_total_blocks sb"
    using validate_ranges_tiled [OF V(1)] sb(2) by (simp add: new_for_format_def store_of_def)
  ultimately show "data_pool e anchor keys sb ?s"
    using v total S(6,7) rng by (simp add: data_pool_def) (simp add: new_for_format_def store_of_def)
qed


subsection \<open>The anchor\<close>

text \<open>The carriers of a store do not change when the anchor is written.\<close>

lemma anchor_written:
  assumes laws: "codec_laws e" and p: "data_pool e anchor keys sb s" and k: "codec_for_path anchor = Some k"
    and wr: "codec_write_prefix e k anchor bootstrap (w_files s) = Ok fs" and len: "length bootstrap = BOOTSTRAP_LEN"
    and cap: "codec_raw_capacity_bytes e k anchor (w_files s) = Ok raw" "BOOTSTRAP_LEN \<le> unat raw"
    and boot: "open_bootstrap e passphrase bootstrap = Ok (plain, keys)" "superblock_decode (e_crc32 e) plain = Ok sb"
  shows "data_pool e anchor keys sb (w_files_update (\<lambda>_. fs) s)" "anchored e anchor passphrase keys sb fs"
    "\<forall>c \<in> set (bs_carriers s). fs (cs_path c) = w_files s (cs_path c)"
proof -
  have sep: "separate (anchor # map cs_path (bs_carriers s))" by (rule data_pool_paths [OF p])
  show f: "\<forall>c \<in> set (bs_carriers s). fs (cs_path c) = w_files s (cs_path c)"
  proof
    fix c assume "c \<in> set (bs_carriers s)"
    then have "cs_path c \<noteq> anchor" "cs_path c \<noteq> tmp_path k anchor"
      using sep k by (auto simp: separate_def codec_for_path_def)
    then show "fs (cs_path c) = w_files s (cs_path c)" by (rule codec.prefix_frame [OF laws wr])
  qed
  show "data_pool e anchor keys sb (w_files_update (\<lambda>_. fs) s)"
    by (rule data_pool_cong [OF p]) (use f codec.capacity_local [of fs _ "w_files s"] in simp_all)
  have "codec_read_prefix e k anchor BOOTSTRAP_LEN fs = Ok bootstrap" using codec.prefix_back [OF laws wr] len by simp
  moreover have "codec_raw_capacity_bytes e k anchor fs = Ok raw" using codec.prefix_capacity_kept [OF laws wr] cap(1) by simp
  ultimately show "anchored e anchor passphrase keys sb fs" using k cap(2) boot unfolding anchored_def by blast
qed

lemma fresh_files:
  fixes t :: store
  assumes fr: "fresh_album e (album_of t sb bm)" and f: "\<forall>c \<in> set (bs_carriers t). fs (cs_path c) = w_files t (cs_path c)"
  shows "fresh_album e (album_of (w_files_update (\<lambda>_. fs) t) sb bm)"
proof -
  let ?t = "w_files_update (\<lambda>_. fs) t"
  have C: "device_ok e ?t = device_ok e t" "view e ?t = view e t"
    using store_like_cong [of ?t cs_is_primary t e] f by simp_all
  have B: "store_ok e (drop_buffers ?t) = store_ok e (drop_buffers t)" "view e (drop_buffers ?t) = view e (drop_buffers t)"
    using store_like_cong [of "drop_buffers ?t" cs_is_primary "drop_buffers t" e] f by (simp_all add: drop_buffers_def)
  have d: "disk e (album_of ?t sb bm) = disk e (album_of t sb bm)" by (simp add: album_of_device disk_of_def C)
  have "album_ok e (album_of ?t sb bm) = album_ok e (album_of t sb bm)"
    by (simp add: album_ok_def album_of_device album_of_sel super_ok_def C)
  moreover have "all_clean ?t = all_clean t" by (simp add: all_clean_def)
  then have "durable e (album_of ?t sb bm) = durable e (album_of t sb bm)"
    unfolding durable_def d by (simp add: album_of_device B C)
  ultimately show ?thesis using fr unfolding fresh_album_def d by simp
qed

text \<open>The choice of the anchor.\<close>

lemma largest_in: "largest_carrier e ps l fs = Ok (Some (p, c)) \<Longrightarrow> p \<in> set ps \<or> l = Some (p, c)"
  by (induction ps arbitrary: l) (fastforce split: if_splits)+

lemma select_anchor_Ok:
  assumes "select_anchor e ps requested fs = Ok anchor"
  shows "anchor \<in> set ps" "\<exists>k raw. codec_for_path anchor = Some k \<and> codec_raw_capacity_bytes e k anchor fs = Ok raw \<and> BOOTSTRAP_LEN \<le> unat raw"
proof -
  let ?pick = "case requested of
      Some candidate \<Rightarrow> and_then (canonicalize candidate fs) (\<lambda>canonical.
        ok_or (Manifest ''anchor is not an image carrier'') (find (\<lambda>path. canonicalize path fs = Ok canonical) ps))
    | None \<Rightarrow> and_then (largest_carrier e ps None fs) (\<lambda>largest. ok_or EmptyPool (map_option fst largest))"
  obtain p k raw where p: "?pick = Ok p" "codec_of p = Ok k" "codec_raw_capacity_bytes e k p fs = Ok raw" "\<not> unat raw < BOOTSTRAP_LEN" "anchor = p"
    using assms unfolding select_anchor_def by (auto split: if_splits)
  have "codec_for_path p = Some k" using p(2) by (cases "codec_for_path p") (simp_all add: codec_of_def)
  then show "\<exists>k raw. codec_for_path anchor = Some k \<and> codec_raw_capacity_bytes e k anchor fs = Ok raw \<and> BOOTSTRAP_LEN \<le> unat raw"
    using p(3-5) by auto
  have o: "ok_or x v = Ok y \<Longrightarrow> v = Some y" for x :: fs_error and v and y :: path by (cases v) simp_all
  show "anchor \<in> set ps"
  proof (cases requested)
    case None
    then obtain l where l: "largest_carrier e ps None fs = Ok l" "ok_or EmptyPool (map_option fst l) = Ok p"
      using p(1) by auto
    then obtain c where "l = Some (p, c)" using o [OF l(2)] by auto
    with l(1) largest_in p(5) show ?thesis by fastforce
  next
    case (Some c)
    then obtain x where "ok_or (Manifest ''anchor is not an image carrier'') (find (\<lambda>path. canonicalize path fs = Ok x) ps) = Ok p"
      using p(1) by auto
    from o [OF this] p(5) show ?thesis by (auto simp: find_Some_iff)
  qed
qed

text \<open>The steps of a run that returns.\<close>

lemma sealed_format_steps:
  assumes an: "select_anchor e (carrier_paths w) requested (w_files w) = Ok anchor"
    and us: "usable_carriers e True (Some anchor) (w_files w) [] (carrier_paths w) = Ok us"
    and run: "format_with_anchor_options e (Some passphrase) requested force w = (Ok res, w')"
  obtains m n g sb bootstrap keys w1 t k fs where "build_manifest 0 0 us = (m, n)" "format_geometry n = Ok g"
    "sb = superblock_markerless (g_total_blocks g) (g_inode_count g) (g_bitmap_start g) (g_inode_table_start g) (g_data_start g) m"
    "create_bootstrap e passphrase (superblock_encode (e_crc32 e) sb) w = (Ok (bootstrap, keys), w1)"
    "format_store e sb (new_for_format (map fst us) m (Some keys) w1) = (Ok (), t)"
    "codec_for_path anchor = Some k" "codec_write_prefix e k anchor bootstrap (w_files t) = Ok fs"
    "w' = world.truncate (w_files_update (\<lambda>_. fs) t)" "res = \<lparr>fr_superblock = sb, fr_anchor = Some anchor\<rparr>"
proof -
  obtain m n where m: "build_manifest 0 0 us = (m, n)" by (cases "build_manifest 0 0 us")
  obtain k where k: "codec_for_path anchor = Some k"
    using select_anchor_Ok(2) [OF an] by blast
  have sm: "sb_manifest (superblock_markerless a b c d k m) = m" for a b c d k by (simp add: superblock_markerless_def superblock_standard_def)
  have cd: "codec_of anchor = Ok k" using k by (simp add: codec_of_def)
  have "\<exists>g sb bootstrap keys w1 t fs. format_geometry n = Ok g \<and>
    sb = superblock_markerless (g_total_blocks g) (g_inode_count g) (g_bitmap_start g) (g_inode_table_start g) (g_data_start g) m \<and>
    create_bootstrap e passphrase (superblock_encode (e_crc32 e) sb) w = (Ok (bootstrap, keys), w1) \<and>
    format_store e sb (new_for_format (map fst us) m (Some keys) w1) = (Ok (), t) \<and>
    codec_write_prefix e k anchor bootstrap (w_files t) = Ok fs \<and>
    w' = world.truncate (w_files_update (\<lambda>_. fs) t) \<and> res = \<lparr>fr_superblock = sb, fr_anchor = Some anchor\<rparr>"
    using run an us m cd
    by (auto simp: format_with_anchor_options_def format_superblock_def with_store_def bind_def run_simps Let_def sm world.defs
        split: prod.splits res.splits if_splits)
  then show thesis using that m k by blast
qed


subsection \<open>From a format to the next opening\<close>

lemma format_store_sealed:
  assumes laws: "codec_laws e" and p: "data_pool e anchor keys sb (new_for_format paths m ks w)"
    and run: "format_store e sb (new_for_format paths m ks w) = (Ok (), t)"
  shows "data_pool e anchor keys sb t" "w_files t anchor = w_files w anchor" "w_entries t = w_entries w"
proof -
  obtain u where u: "format_data e sb (new_for_format paths m ks w) = (Ok (), u)" "flush e u = (Ok (), t)"
    using run unfolding format_store_split by (auto elim: bind_OkE)
  note U = data_pool_static [OF runsD [OF keeps_format_data u(1)] p]
  show "data_pool e anchor keys sb t" "w_files t anchor = w_files w anchor" "w_entries t = w_entries w"
    using flush_sealed [OF laws U(1)] u(2) U(2,3) by (simp_all add: new_for_format_def store_of_def)
qed

text \<open>What a format leaves is a sealed album.\<close>

lemma format_sealed:
  assumes laws: "codec_laws e" "jpeg_returns e" "crypto_laws e"
    and an: "select_anchor e (carrier_paths w) requested (w_files w) = Ok anchor"
    and us: "usable_carriers e True (Some anchor) (w_files w) [] (carrier_paths w) = Ok us" "separate (anchor # map fst us)"
      "(\<Sum>(p, name, c) \<leftarrow> us. unat c) * PB \<le> MAX64"
    and run: "format_with_anchor_options e (Some passphrase) requested force w = (Ok res, w')"
  shows "\<exists>(a :: album) keys. fresh_album e a \<and> sealed e anchor passphrase keys (fr_superblock res) a \<and> w' = world.truncate a \<and>
    fr_anchor res = Some anchor"
proof -
  obtain m n g sb bootstrap keys w1 t k fs where R: "build_manifest 0 0 us = (m, n)" "format_geometry n = Ok g"
    "sb = superblock_markerless (g_total_blocks g) (g_inode_count g) (g_bitmap_start g) (g_inode_table_start g) (g_data_start g) m"
    "create_bootstrap e passphrase (superblock_encode (e_crc32 e) sb) w = (Ok (bootstrap, keys), w1)"
    "format_store e sb (new_for_format (map fst us) m (Some keys) w1) = (Ok (), t)"
    "codec_for_path anchor = Some k" "codec_write_prefix e k anchor bootstrap (w_files t) = Ok fs"
    "w' = world.truncate (w_files_update (\<lambda>_. fs) t)" "res = \<lparr>fr_superblock = sb, fr_anchor = Some anchor\<rparr>"
    by (rule sealed_format_steps [OF an us(1) run])
  note S = markerless_sel [OF R(3)]
  let ?s = "new_for_format (map fst us) m (Some keys) w1"
  note B = bootstrap_roundtrip [OF laws(3) R(4)]
  have w1: "w_files w1 = w_files w" "w_entries w1 = w_entries w" using B by simp_all
  have fits: "length (superblock_encode (e_crc32 e) sb) \<le> UB"
    using R(4) by (simp add: create_bootstrap_def run_simps split: if_splits)
  have n: "sb_total_blocks sb = n" by (rule format_geometry_Ok(2) [OF R(2) S(1-5)])
  note D = new_data_pool [OF us(1) [folded w1(1)] us(2,3) R(1,3) n]
  have f: "formattable e sb (map fst us) (Some keys)"
    using D(1-3) us(2) S B separate_Cons [OF us(2)] laws(3) by (simp add: formattable_def)
  obtain bm where fr: "fresh_album e (album_of t sb bm)"
    using format_store_fresh [OF laws(1,2) f R(2) S(1-5), of w1 t] R(5) S(6) by auto
  note T = format_store_sealed [OF laws(1) D(4) R(5), unfolded w1]
  obtain k' raw where cap: "codec_for_path anchor = Some k'" "codec_raw_capacity_bytes e k' anchor (w_files w) = Ok raw" "BOOTSTRAP_LEN \<le> unat raw"
    using select_anchor_Ok(2) [OF an] by blast
  have cap': "codec_raw_capacity_bytes e k anchor (w_files t) = Ok raw"
    using cap(1,2) R(6) codec.capacity_local [of "w_files t" anchor "w_files w"] T(2) by simp
  have boot: "open_bootstrap e passphrase bootstrap = Ok (pad (superblock_encode (e_crc32 e) sb), keys)" "length bootstrap = BOOTSTRAP_LEN"
    using B by simp_all
  note A = anchor_written [OF laws(1) T(1) R(6,7) boot(2) cap' cap(3) boot(1) sealed_superblock [OF us(1) R(1,3) fits]]
  let ?t = "w_files_update (\<lambda>_. fs) t" and ?a = "album_of (w_files_update (\<lambda>_. fs) t) sb bm"
  have af: "w_files ?a = fs" "w_entries ?a = w_entries t" "bs_carriers ?a = bs_carriers t" "bs_encrypted ?a = bs_encrypted t"
    "bs_cipher ?a = bs_cipher t" "bs_order_key ?a = bs_order_key t" "bs_total_blocks ?a = bs_total_blocks t" "world.truncate ?a = w'"
    by (simp_all add: album_of_def store.defs R(8) world.defs)
  have "w_entries (world.truncate ?a) = w_entries w" unfolding T(3) [symmetric] af(2) [symmetric] by (simp add: world.defs)
  then have "carrier_paths (world.truncate ?a) = carrier_paths w" by (simp only: carrier_paths_def)
  then have m: "anchor \<in> set (carrier_paths (world.truncate ?a))" using select_anchor_Ok(1) [OF an] by simp
  have "data_pool e anchor keys sb ?a" by (rule data_pool_cong [OF A(1)]) (simp_all add: af)
  then have "sealed e anchor passphrase keys sb ?a"
    using laws(1) A(2) m by (simp add: sealed_def af album_of_sel)
  moreover have "fresh_album e ?a" by (rule fresh_files [OF fr A(3)])
  ultimately show ?thesis using af(8) R(9) by (intro exI [of _ ?a] exI [of _ keys]) simp
qed

text \<open>C15: An encrypted album survives. Format a directory with a passphrase; then the anchor and the passphrase open it,
  and the album is intact and empty but for the root directory. After operations of the filesystem, closing and
  opening the store between them or not, whenever the state reached is durable, the anchor and the passphrase open
  the directory anew and give the same disk, with every file and every name on it. The images and the anchor must
  have separate paths, none of them the temporary file of another, and the carriers together less than 2^64 bytes; other images may be
  unusable.

  The operations are the steps of \<open>fs_step\<close> in \<open>FsReach\<close>: reading calls, \<open>truncate\<close> to a size up to \<open>MAX_BYTES\<close>,
  \<open>unlink\<close>, \<open>rmdir\<close> and \<open>sync\<close> with any result, error included; \<open>write\<close>, \<open>create\<close>, \<open>mkdir\<close> and \<open>rename\<close> that
  returned a value or an error with nothing changed, not one that failed half-way. \<open>unlink\<close> and \<open>rmdir\<close> are
  called for a directory that is \<open>removable\<close> (one block, or no free record after a live one in any block),
  \<open>rmdir\<close> not for \<open>.\<close> and \<open>..\<close>, \<open>rename\<close> under \<open>rename_guard\<close>, new names are UTF-8, and a write of no bytes is not
  at an offset past \<open>MAX_BYTES\<close>.\<close>

theorem sealed_session_reopens:
  assumes "codec_laws e" "jpeg_returns e" "crypto_laws e"
    and an: "select_anchor e (carrier_paths w) requested (w_files w) = Ok anchor"
    and us: "usable_carriers e True (Some anchor) (w_files w) [] (carrier_paths w) = Ok us" "separate (anchor # map fst us)"
      "(\<Sum>(p, name, c) \<leftarrow> us. unat c) * PB \<le> MAX64"
    and run: "format_with_anchor_options e (Some passphrase) requested force w = (Ok res, w')"
  shows "fr_anchor res = Some anchor \<and> (\<exists>a b. album_open_with_anchor e anchor passphrase w' = Ok a \<and>
    al_sb a = fr_superblock res \<and> album_ok e a \<and> fs_ok (disk e a) \<and> node (disk e a) = [1 \<mapsto> (S_IFDIR OR 0x1ED, 2, b)] \<and>
    dir_map b = [[46] \<mapsto> (1, FILE_TYPE_DIR), [46, 46] \<mapsto> (1, FILE_TYPE_DIR)] \<and>
    (\<forall>s. (fs_step e)\<^sup>*\<^sup>* a s \<longrightarrow> durable e s \<longrightarrow>
      (\<exists>v. album_open_with_anchor e anchor passphrase (world.truncate s) = Ok v \<and> al_sb v = fr_superblock res \<and>
        album_ok e v \<and> fs_ok (disk e v) \<and> disk e v = disk e s)))"
proof -
  let ?sb = "fr_superblock res"
  obtain a0 :: album and keys where f: "fresh_album e a0" "sealed e anchor passphrase keys ?sb a0" "w' = world.truncate a0" "fr_anchor res = Some anchor"
    using format_sealed [OF assms] by blast
  then obtain b where F: "album_ok e a0" "durable e a0" "fs_ok (disk e a0)" "node (disk e a0) = [1 \<mapsto> (S_IFDIR OR 0x1ED, 2, b)]"
    "dir_map b = [[46] \<mapsto> (1, FILE_TYPE_DIR), [46, 46] \<mapsto> (1, FILE_TYPE_DIR)]" by (auto simp: fresh_album_def)
  obtain a where a: "album_open_with_anchor e anchor passphrase w' = Ok a" "al_sb a = ?sb" "album_ok e a" "disk e a = disk e a0"
    "sealed e anchor passphrase keys ?sb a"
    using sealed_durable [OF f(2) F(1,2)] f(3) by auto
  have "\<exists>v. album_open_with_anchor e anchor passphrase (world.truncate s) = Ok v \<and> al_sb v = ?sb \<and>
      album_ok e v \<and> fs_ok (disk e v) \<and> disk e v = disk e s" if s: "(fs_step e)\<^sup>*\<^sup>* a s" and d: "durable e s" for s
  proof -
    have ok: "album_ok e s" "fs_ok (disk e s)"
      using fs.reached [OF s] assms(1,2) a(3,4) F(3) by (simp_all add: fs_inv_def)
    from sealed_durable [OF fe.reached [OF s a(5)] ok(1) d] ok(2) show ?thesis by auto
  qed
  with f(4) a F(3-5) show ?thesis by auto
qed

end
