(* ===== verification/SealedWitnesses.thy ===== *)
theory SealedWitnesses
  imports FormatWitnesses SealedFormat
begin

text \<open>A small encrypted album: the anchor \<^verbatim>\<open>a.png\<close> and the data carrier \<^verbatim>\<open>b.png\<close> with 24 blocks.\<close>

definition pair_path :: path where "pair_path = Path [98, 46, 112, 110, 103]"

definition pair_world :: world where
  "pair_world = \<lparr>w_files = demo_files(pair_path \<mapsto> the (demo_png_save demo_image)), w_entries = [demo_path, pair_path],
     w_draws = 0, w_ticks = 0\<rparr>"

lemma pair_kind: "codec_for_path pair_path = Some Png"
  by (simp add: codec_for_path_def kind_for_def pair_path_def extension_def split_name_def
      to_ascii_lowercase_def utf8_valid_ascii)

lemma pair_paths: "carrier_paths pair_world = [demo_path, pair_path]"
proof -
  have "kind_for demo_path \<noteq> None" "kind_for pair_path \<noteq> None"
    using demo_kind pair_kind by (auto simp: codec_for_path_def)
  moreover have "demo_path \<le> pair_path" by (simp add: demo_path_def pair_path_def less_eq_path_def)
  ultimately show ?thesis by (simp add: carrier_paths_def pair_world_def)
qed

lemma pair_files:
  "w_files pair_world demo_path = demo_files demo_path" "w_files pair_world pair_path = demo_files demo_path"
  "codec_raw_capacity_bytes demo_ext Png p (w_files pair_world) = Ok 98304" if "p \<in> {demo_path, pair_path}" for p
proof -
  have ne: "demo_path \<noteq> pair_path" by (simp add: demo_path_def pair_path_def)
  show f: "w_files pair_world demo_path = demo_files demo_path" "w_files pair_world pair_path = demo_files demo_path"
    using ne by (simp_all add: pair_world_def demo_files_def)
  obtain bs where bs: "demo_files demo_path = Some bs" "e_png_dimensions demo_ext bs = Some (512, 512)"
    using demo_dimensions by blast
  then show "codec_raw_capacity_bytes demo_ext Png p (w_files pair_world) = Ok 98304"
    using that f by (auto simp: codec_raw_capacity_bytes_def png_raw_capacity_bytes_def png_raw_capacity_def)
qed

lemma pair_anchor: "select_anchor demo_ext (carrier_paths pair_world) (Some demo_path) (w_files pair_world) = Ok demo_path"
proof -
  have "w_files pair_world demo_path \<noteq> None" by (rule capacity_exists [OF pair_files(3) [of demo_path]]) simp
  then show ?thesis
    using demo_kind pair_files(3) [of demo_path]
    by (simp add: select_anchor_def canonicalize_def pair_paths codec_of_def BOOTSTRAP_LEN_def UB_val)
qed

lemma pair_usable:
  "usable_carriers demo_ext True (Some demo_path) (w_files pair_world) [] (carrier_paths pair_world) =
     Ok [(pair_path, path_name pair_path, 24)]"
  "separate (demo_path # map fst [(pair_path, path_name pair_path, 24 :: u64)])"
  "(\<Sum>(p, name, c) \<leftarrow> [(pair_path, path_name pair_path, 24 :: u64)]. unat c) * PB \<le> MAX64"
  "build_manifest 0 0 [(pair_path, path_name pair_path, 24)] =
     ([\<lparr>cr_name = path_name pair_path, cr_chunk_index = 0, cr_block_start = 0, cr_block_count = 24\<rparr>], 24)"
proof -
  have ne: "demo_path \<noteq> pair_path" by (simp add: demo_path_def pair_path_def)
  have v: "utf8_valid (path_name pair_path)" "validate_name (path_name pair_path) = Ok ()"
    by (simp_all add: pair_path_def utf8_valid_ascii validate_name_def has_sub_def)
  have c: "codec_raw_capacity_bytes demo_ext Png pair_path (w_files pair_world) = Ok 98304" by (rule pair_files(3)) simp
  show "usable_carriers demo_ext True (Some demo_path) (w_files pair_world) [] (carrier_paths pair_world) =
     Ok [(pair_path, path_name pair_path, 24)]"
    unfolding pair_paths using ne v c pair_kind by (simp add: codec_of_def PB_val Let_def)
  show "separate (demo_path # map fst [(pair_path, path_name pair_path, 24 :: u64)])"
    by (auto simp: separate_def demo_path_def pair_path_def tmp_path_def with_extension_def split_name_def
        PNG_TMP_def JPG_TMP_def split: image_kind.splits)
qed (simp_all add: PB_val MAX64_def)


subsection \<open>Writing\<close>

lemma demo_bytes:
  assumes op: "image_open demo_ext p fs = Ok img" and room: "length b \<le> unat (png_raw_capacity (im_width img) (im_height img))"
    and ps: "n \<le> png_slots img" "8 * length b \<le> n"
  shows "\<exists>img'. png_write_bytes img [0..<n] [] b = Ok img'"
proof -
  have wf: "png_wf img" by (rule image_open_wf [OF demo_png_laws op])
  note cap = png_capacity [OF wf]
  have "set [0..<n] \<subseteq> set (png_positions img)" using ps(1) wf cap(1) by (auto simp: png_positions_def)
  moreover have "8 * length b \<le> MAX64" using ps wf cap(1) by (simp add: png_wf_def)
  ultimately show ?thesis
    using png.embed_extract [of "[0..<n]" img "[]" b] ps(2) by (auto simp: png_write_bytes_def)
qed

lemma demo_save: "\<exists>fs'. png_save_atomic demo_ext p img fs = Ok fs'"
  by (simp add: png_save_atomic_def demo_ext_def demo_png_save_def Let_def)

lemma demo_markerless:
  assumes c: "codec_raw_capacity_bytes demo_ext k p fs = Ok raw" "length b \<le> unat raw" and key: "length key = 32"
  shows "\<exists>fs'. codec_write_chunk demo_ext k p (WriteMarkerless i) b key fs = Ok fs'"
proof -
  obtain img where img: "k = Png" "image_open demo_ext p fs = Ok img" "raw = png_raw_capacity (im_width img) (im_height img)"
    by (rule demo_capacity_image [OF c(1)])
  have "png_wf img" by (rule image_open_wf [OF demo_png_laws img(2)])
  then have "8 * length b \<le> png_slots img" using c(2) png_capacity(2) [of img] img(3) by simp
  then obtain img' where w: "png_write_bytes img [0..<png_slots img] [] b = Ok img'"
    using demo_bytes [OF img(2)] c(2) img(3) by blast
  have o: "order_positions demo_ext ps key i = Ok ps" for ps
    using key by (simp add: order_positions_def Let_def) (simp add: demo_ext_def)
  obtain fs' where "png_save_atomic demo_ext p img' fs = Ok fs'" using demo_save by blast
  then show ?thesis
    using img c(2) w o by (simp add: codec_write_chunk_def png_write_chunk_def Let_def)
qed

lemma demo_prefix:
  assumes c: "codec_raw_capacity_bytes demo_ext k p fs = Ok raw" "length b \<le> unat raw"
  shows "\<exists>fs'. codec_write_prefix demo_ext k p b fs = Ok fs'"
proof -
  obtain img where img: "k = Png" "image_open demo_ext p fs = Ok img" "raw = png_raw_capacity (im_width img) (im_height img)"
    by (rule demo_capacity_image [OF c(1)])
  have "png_wf img" by (rule image_open_wf [OF demo_png_laws img(2)])
  then have "length b * 8 \<le> png_slots img" using c(2) png_capacity(2) [of img] img(3) by simp
  then obtain img' where w: "png_write_bytes img [0..<length b * 8] [] b = Ok img'"
    using demo_bytes [OF img(2)] c(2) img(3) by (metis mult.commute order_refl)
  obtain fs' where "png_save_atomic demo_ext p img' fs = Ok fs'" using demo_save by blast
  then show ?thesis
    using img c(2) w by (simp add: codec_write_prefix_def png_write_prefix_def Let_def)
qed

lemma demo_sealed_writable:
  fixes s :: "'a store_scheme"
  assumes p: "data_pool demo_ext anchor keys sb s" and m: "map cr_block_count (sb_manifest sb) = [24]" and key: "length (sk_order keys) = 32"
  shows "writable demo_ext s"
  unfolding writable_def
proof (intro allI impI)
  fix t :: "'a store_scheme" assume t: "static t = static s" "device_ok demo_ext t"
  have "map cr_block_count (sb_manifest sb) = map cs_block_count (bs_carriers s)"
    using p by (simp add: data_pool_def sealed_range_def)
  then obtain c where c: "bs_carriers s = [c]" "cs_block_count c = 24" using m by (auto simp: map_eq_Cons_conv)
  then obtain d where d: "bs_carriers t = [d]" "cs_path d = cs_path c" "cs_block_count d = 24" "cs_block_start d = cs_block_start c"
    and e: "bs_encrypted t = bs_encrypted s" "w_files t = w_files s" "bs_order_key t = bs_order_key s"
    using t(1) by (auto simp: static_def)
  have enc: "bs_encrypted t" "bs_order_key t = Some (sk_order keys)" using p e by (simp_all add: data_pool_def)
  have "spacious demo_ext (w_files t) (sealed_range c)" using p c e(2) by (simp add: data_pool_def data_files_def)
  then obtain k raw where k: "codec_for_path (cs_path d) = Some k" "codec_raw_capacity_bytes demo_ext k (cs_path d) (w_files t) = Ok raw"
      "24 * PB \<le> unat raw" using c(2) d(2) by (auto simp: spacious_def sealed_range_def range_path_def)
  show "\<exists>u. flush demo_ext t = (Ok (), u)"
  proof (cases "cs_dirty d")
    case False
    then show ?thesis using d by (simp add: flush_def flush_slot_def bind_def run_simps)
  next
    case True
    have ok: "store_ok demo_ext t" "synced demo_ext t" using t(2) by (simp_all add: device_ok_def)
    obtain b where b: "cs_buffer d = Some b" "length b = unat (cs_block_count d * of_nat PB)"
      using dirty_slot [OF ok, of 0] d(1) True by auto
    have len: "length b \<le> unat raw" using b(2) d(3) k(3) by (simp add: PB_val)
    obtain fs' where "codec_write_chunk demo_ext k (cs_path d) (WriteMarkerless (cs_chunk_index d)) b (sk_order keys) (w_files t) = Ok fs'"
      using demo_markerless [OF k(2) len key] by blast
    then show ?thesis
      using d b enc True k(1) by (simp add: flush_def flush_slot_def bind_def run_simps)
  qed
qed


subsection \<open>The run and the session\<close>

definition pair_manifest :: "carrier_range list" where
  "pair_manifest = [\<lparr>cr_name = path_name pair_path, cr_chunk_index = 0, cr_block_start = 0, cr_block_count = 24\<rparr>]"

definition pair_sb :: superblock where
  "pair_sb = superblock_markerless 24 64 1 2 6 pair_manifest"

definition pair_geometry :: geometry where
  "pair_geometry = \<lparr>g_total_blocks = 24, g_inode_count = 64, g_bitmap_start = 1, g_inode_table_start = 2, g_data_start = 6\<rparr>"

lemma pair_format_geometry: "format_geometry 24 = Ok pair_geometry"
  by (simp add: format_geometry_def pair_geometry_def div_ceil_def UB_val Let_def)

lemmas pair_sb_sel = markerless_sel [OF pair_sb_def]

lemma pair_fits: "length (superblock_encode (e_crc32 demo_ext) pair_sb) \<le> UB"
  using length_superblock_encode [OF pair_sb_sel(9), of "e_crc32 demo_ext"] pair_sb_sel(6,10)
  by (simp add: MARKERLESS_FS_VERSION_def manifest_len_of_def pair_manifest_def header_len_of_def pair_path_def
      V1_HEADER_LEN_def V2_HEADER_LEN_def V3_HEADER_LEN_def UB_val)

lemma demo_bootstrap:
  assumes "length enc \<le> UB"
  shows "\<exists>b keys w'. create_bootstrap demo_ext passphrase enc w = (Ok (b, keys), w')"
  using assms
  by (simp add: create_bootstrap_def bind_def fill_bytes_run run_simps derive_keys_def cipher_new_def Let_def not_less)
    (simp add: demo_ext_def run_simps)

lemma demo_keys: "open_bootstrap demo_ext passphrase b = Ok (plain, keys) \<Longrightarrow> length (sk_order keys) = 32"
  by (auto simp: open_bootstrap_def derive_keys_def demo_ext_def cipher_new_def Let_def split: if_splits)

lemma pair_run:
  "\<exists>res w'. format_with_anchor_options demo_ext (Some passphrase) (Some demo_path) True pair_world = (Ok res, w')"
proof -
  let ?enc = "superblock_encode (e_crc32 demo_ext) pair_sb"
  obtain b keys w1 where b: "create_bootstrap demo_ext passphrase ?enc pair_world = (Ok (b, keys), w1)"
    using demo_bootstrap [OF pair_fits] by blast
  note B = bootstrap_roundtrip [OF demo_crypto_laws b]
  have w1: "w_files w1 = w_files pair_world" using B by simp
  have us: "usable_carriers demo_ext True (Some demo_path) (w_files w1) [] (carrier_paths pair_world) = Ok [(pair_path, path_name pair_path, 24)]"
    unfolding w1 by (rule pair_usable(1))
  note D = new_data_pool [OF us pair_usable(2,3) pair_usable(4) [folded pair_manifest_def] pair_sb_def pair_sb_sel(1)]
  note P = D(4) [where keys = keys]
  let ?s = "new_for_format (map fst [(pair_path, path_name pair_path, 24 :: u64)]) pair_manifest (Some keys) w1"
  have wr: "writable demo_ext ?s"
    by (rule demo_sealed_writable [OF P]) (use B in \<open>simp_all add: pair_sb_sel(6) pair_manifest_def\<close>)
  have f: "formattable demo_ext pair_sb (map fst [(pair_path, path_name pair_path, 24 :: u64)]) (Some keys)"
    using D(1-3) pair_sb_sel B separate_Cons [OF pair_usable(2)] demo_crypto_laws by (simp add: formattable_def)
  have sel: "sb_total_blocks pair_sb = g_total_blocks pair_geometry" "sb_inode_count pair_sb = g_inode_count pair_geometry"
    "sb_bitmap_start pair_sb = g_bitmap_start pair_geometry" "sb_inode_table_start pair_sb = g_inode_table_start pair_geometry"
    "sb_data_start pair_sb = g_data_start pair_geometry" by (simp_all add: pair_sb_sel pair_geometry_def)
  note G = format_geometry_Ok [OF pair_format_geometry sel]
  have "wp (format_store demo_ext pair_sb) (\<lambda>_ t. \<exists>bm. fresh_album demo_ext (album_of t pair_sb bm))
      (\<lambda>_ _. too_long demo_ext pair_sb \<or> \<not> writable demo_ext ?s) ?s"
    using wp_format_store [OF demo_codec_laws demo_jpeg_returns f G(1), of w1] G(2-6) pair_sb_sel(1,6) by simp
  then obtain t where t: "format_store demo_ext pair_sb ?s = (Ok (), t)"
    using wr pair_sb_sel(8) by (auto simp: wp_def too_long_def split: prod.splits res.splits)
  have "codec_raw_capacity_bytes demo_ext Png demo_path (w_files t) = Ok 98304"
    using format_store_sealed(2) [OF demo_codec_laws P t] w1 pair_files(3) [of demo_path]
      codec.capacity_local [of "w_files t" demo_path "w_files pair_world"] by simp
  then obtain fs where p: "codec_write_prefix demo_ext Png demo_path b (w_files t) = Ok fs"
    using demo_prefix [of Png demo_path "w_files t" 98304 b] B by (auto simp: BOOTSTRAP_LEN_def UB_val)
  have sb: "superblock_markerless (g_total_blocks pair_geometry) (g_inode_count pair_geometry) (g_bitmap_start pair_geometry)
      (g_inode_table_start pair_geometry) (g_data_start pair_geometry) pair_manifest = pair_sb"
    by (simp add: pair_sb_def pair_geometry_def)
  show ?thesis
    using pair_anchor pair_usable(1,4) pair_format_geometry b t p sb demo_kind pair_sb_sel(6)
    by (simp add: format_with_anchor_options_def format_superblock_def with_store_def bind_def run_simps pair_manifest_def [symmetric]
        codec_of_def pair_paths world.defs)
qed

theorem sealed_session_reopens_witness:
  "\<exists>res w' a s v. format_with_anchor_options demo_ext (Some [112]) (Some demo_path) True pair_world = (Ok res, w') \<and>
    album_open_with_anchor demo_ext demo_path [112] w' = Ok a \<and> sync demo_ext a = (Ok (), s) \<and>
    album_open_with_anchor demo_ext demo_path [112] (world.truncate s) = Ok v \<and> disk demo_ext v = disk demo_ext s"
proof -
  obtain res w' where run: "format_with_anchor_options demo_ext (Some [112]) (Some demo_path) True pair_world = (Ok res, w')"
    using pair_run by blast
  note S = sealed_session_reopens [OF demo_codec_laws demo_jpeg_returns demo_crypto_laws pair_anchor pair_usable(1-3) run]
  let ?sb = "fr_superblock res"
  have m: "map cr_block_count (sb_manifest ?sb) = [24]"
    by (rule sealed_format_steps [OF pair_anchor pair_usable(1) run])
      (use pair_usable(4) markerless_sel(6) in \<open>auto simp: superblock_markerless_def superblock_standard_def\<close>)
  obtain a0 :: album and keys where f: "fresh_album demo_ext a0" "sealed demo_ext demo_path [112] keys ?sb a0" "w' = world.truncate a0"
    using format_sealed [OF demo_codec_laws demo_jpeg_returns demo_crypto_laws pair_anchor pair_usable(1-3) run] by blast
  then obtain a where a: "album_open_with_anchor demo_ext demo_path [112] w' = Ok a" "album_ok demo_ext a"
      "sealed demo_ext demo_path [112] keys ?sb a"
    using sealed_durable [OF f(2)] by (auto simp: fresh_album_def)
  have key: "length (sk_order keys) = 32" using a(3) demo_keys by (auto simp: sealed_def anchored_def)
  have dp: "data_pool demo_ext demo_path keys ?sb a" using a(3) by (simp add: sealed_def)
  have "writable demo_ext a" by (rule demo_sealed_writable [OF dp m key])
  then have "wp (sync demo_ext) (\<lambda>_ s. durable demo_ext s) no_err a"
    by (intro wp_sync_writable [OF demo_codec_laws demo_jpeg_returns a(2)])
  then obtain s where s: "sync demo_ext a = (Ok (), s)" "durable demo_ext s" unfolding wp_no_err by auto
  have "(fs_step demo_ext)\<^sup>*\<^sup>* a s" using step_sync [OF s(1)] by blast
  with S a(1) s show ?thesis using run by (metis res.inject(1))
qed

end
