(* ===== verification/Spec2Isabelle.thy ===== *)
theory Spec2Isabelle
  imports StatsWitnesses DirHostile FuseWitnesses CliWitnesses SealedWitnesses
begin

text \<open>
  \<^bold>\<open>AlbumFS\<close> stores a file system inside the pixels of an album of photographs. This development models the
  Rust program under \<^verbatim>\<open>src/src\<close> and proves what its parts and their composition promise.

  \<^bold>\<open>The program and its theories.\<close> A value or an error is a \<^verbatim>\<open>res\<close> (\<open>Ok\<close>, \<open>Err\<close>, \<open>Panic\<close>); a function with a
  \<^verbatim>\<open>&mut\<close> state is a \<^verbatim>\<open>prog\<close> from states to a result and a state, and an error keeps the state reached so
  far, since Rust rolls nothing back (\<open>Prelude\<close>, with the \<open>wp\<close> calculus and \<open>runs\<close>, what every run
  of a program keeps; \<open>Bytes\<close>, little-endian integers, reads
  that may run out of range, UTF-8, and the locale \<open>fixed_record\<close> of fixed-width records).

  \<^item> \<^verbatim>\<open>stego/\<close>: \<open>Stego\<close> (chunk header, order of the embedding positions, the locale \<open>bit_carrier\<close> with the
    embedding loop), \<open>Png\<close> and \<open>Jpeg\<close> (the two carriers, each an interpretation of it) and \<open>Codec\<close> (the dispatch on
    the kind of the image, the locale \<open>carrier_codec\<close> that states what the block store relies on).
  \<^item> \<^verbatim>\<open>fs/mod.rs\<close>, \<^verbatim>\<open>fs/crypto.rs\<close>, \<^verbatim>\<open>fs/superblock.rs\<close>, \<^verbatim>\<open>fs/bitmap.rs\<close>, \<^verbatim>\<open>fs/inode.rs\<close>, \<^verbatim>\<open>fs/dirent.rs\<close>: \<open>FsTypes\<close>,
    \<open>Crypto\<close>, \<open>Superblock\<close>, \<open>Bitmap\<close> (locale \<open>allocator\<close>), \<open>Inode\<close>, \<open>Dirent\<close>.
  \<^item> \<^verbatim>\<open>fs/block.rs\<close>: \<open>Block\<close> maps a logical block to a carrier and an offset in its payload; the locale
    \<open>block_device\<close> is its contract, interpreted for a store that is only in memory and, in \<open>BlockFlush\<close>, for one
    that agrees with its files. \<open>FlushSafe\<close> and \<open>Static\<close>: what errors leave, and what no operation changes.
  \<^item> \<^verbatim>\<open>fs/format.rs\<close>: \<open>Format\<close> (formatting, opening, the bitmap blocks).
  \<^item> \<^verbatim>\<open>fs/album.rs\<close>: \<open>Album\<close> (state, inode table, allocation, block mapping), \<open>DirChain\<close> (the loops over the records
    of a directory block) and \<open>AlbumOps\<close> (directories, files, removing, renaming), one definition per function.
    \<open>Programs\<close> walks through them once: a preorder on states that holds of every step of the store and the album
    (locales \<open>store_programs\<close>, \<open>album_programs\<close>, \<open>album_sessions\<close>) holds of every operation.
  \<^item> \<^verbatim>\<open>fs/fuse.rs\<close>: \<open>Fuse\<close> (attributes, the lock, every handler, mounting); \<^verbatim>\<open>fs/stats.rs\<close>: \<open>Stats\<close>;
    \<^verbatim>\<open>main.rs\<close>: \<open>Cli\<close> (the commands; what they print is a list of format strings with their arguments).

  \<^bold>\<open>What is proved, from the carriers up.\<close>
  \<^item> Carriers (\<open>Stego\<close>, \<open>Png\<close>, \<open>Jpeg\<close>, \<open>Codec\<close>): embedded bits are read back, only lowest bits change, a chunk
    that was written is what is read, framed or markerless.
  \<^item> Formats (\<open>Superblock\<close>, \<open>Inode\<close>, \<open>Crypto\<close>, \<open>Dirent\<close>, \<open>Bitmap\<close>): decoding inverts encoding, decoding any bytes
    does not panic, what was decoded is well formed; allocation takes the lowest free block.
  \<^item> Blocks (\<open>Block\<close>, \<open>BlockFlush\<close>): reading after writing, and nothing lost by a flush and a new opening.
  \<^item> The abstract disk (\<open>Disk\<close>): contents of blocks, superblock and bitmap. \<open>album_ok\<close> is the invariant under which
    the programs of \<^verbatim>\<open>album.rs\<close> read and write it, whatever buffers, carriers and ciphers lie below; it includes
    that block 0 of a plaintext album still holds its superblock.
    \<open>BlockTree\<close>, \<open>BlockShrink\<close>, \<open>BlockMap\<close>, \<open>BlockFree\<close>, \<open>InodeTable\<close>, \<open>AlbumSpec\<close>: the tree of blocks of an
    inode and the inode table as an array.
  \<^item> Files (\<open>FileData\<close>, \<open>Edits\<close>, \<open>FileOps\<close>, \<open>FileTrunc\<close>, \<open>Sync\<close>, \<open>FileSpec\<close>): a file is the list of its bytes, and
    \<open>read\<close>, \<open>write\<close> and \<open>truncate\<close> refine the operations on lists; \<open>volume_ok\<close> says no two files share a block.
  \<^item> Directories (\<open>DirReach\<close>, \<open>DirData\<close>, \<open>DirOps\<close>, \<open>DirEdit\<close>, \<open>DirRemove\<close>): a directory is a map from names, and
    on blocks of any bytes its loops end without a panic (\<open>DirHostile\<close>).
  \<^item> The tree of names (\<open>FsTree\<close>, \<open>MoveTree\<close>): \<open>fs_ok\<close> says every entry leads to a file in use of its type, no file
    has two names, and \<open>..\<close> is the directory that holds the name. Over the map \<open>node\<close> of files, \<open>Volume\<close>,
    \<open>Create\<close>, \<open>Mkdir\<close>, \<open>Unlink\<close>, \<open>Rmdir\<close>, \<open>Rename\<close>, \<open>DirSpec\<close> and \<open>RenameSpec\<close> prove that \<open>create\<close>, \<open>mkdir\<close>,
    \<open>unlink\<close>, \<open>rmdir\<close> and \<open>rename\<close> refine one update of the map each, on every branch, errors included.
  \<^item> Compositions: \<open>FsKeep\<close> and \<open>FsReach\<close> (every operation, and an inductive step relation of them all, keeps an intact
    album intact, for the most part even where it fails), \<open>FormatSpec\<close>
    (a format leaves an intact empty album, or is refused), \<open>FormatOpen\<close> (\<open>open\<close> finds the images and the superblock again: every
    carrier holds its chunk after a flush, and only a flush makes a slot clean, \<open>Static\<close>), \<open>Session\<close> (so it does
    after any steps of a session that end in a durable state), \<open>Sealed\<close>, \<open>SealedSession\<close> and \<open>SealedFormat\<close>
    (the same for an encrypted album, opened with its anchor and passphrase), \<open>CliSpec\<close> (\<open>info\<close> after
    \<open>format\<close>, the self-test), \<open>StatsSpec\<close> (the report agrees with \<open>statfs\<close>), \<open>FusePages\<close>
    (listing a directory in replies of any size), \<open>FuseSafe\<close> and \<open>FuseSession\<close> (no handler panics on a mounted album).
  \<^item> \<open>Witnesses\<close>, \<open>AlbumWitnesses\<close>, \<open>DirWitnesses\<close>, \<open>FormatWitnesses\<close>, \<open>StatsWitnesses\<close>, \<open>FuseWitnesses\<close>,
    \<open>CliWitnesses\<close>, \<open>SealedWitnesses\<close>: small
    carriers, stores and albums on which the properties are instantiated, with concrete codecs and ciphers.

  \<^bold>\<open>Parameters.\<close> The fields of \<open>ext\<close> stand for code that is not in the repository or not in Rust: CRC32, BLAKE3,
  Argon2, XChaCha20-Poly1305, the shuffle of the positions, the image crate, libjpeg, the random source,
  the clock, and whether the operating system lets the code write and rename a file. \<open>codec_laws\<close> says that
  an image that was saved is loaded again with the same pixels or coefficients and that a shuffle is a permutation; \<open>crypto_laws\<close> that a sealed text opens under its key and
  nonce; \<open>jpeg_returns\<close> that the bridge reports failures as errors; \<open>writable\<close> that saving the carriers
  succeeds, the writing and renaming of their temporary files included. The session loop of \<^verbatim>\<open>fuser\<close> is the
  parameter \<open>mount2\<close>; the status of the external unmount command
  and the environment variable of the passphrase are arguments of \<open>main\<close>.

  \<^bold>\<open>Bounds and guards.\<close> Offsets and block indices are natural numbers; the code's checks against \<open>2^64\<close> are
  written out (\<open>MAX64\<close>), words are kept where the code stores them. \<open>MAX_BLOCKS\<close> is the range of the block
  tree and \<open>MAX_BYTES\<close> its bytes. A write that ends past them fails, which is proved; \<open>truncate\<close> to a larger size and a
  write of no bytes past the range only record a size, in the code too, and are left out. A
  write needs at most three free blocks for every block it touches. Loops end by a measure (\<open>function\<close> with
  \<open>termination\<close>); no definition has fuel but \<open>read_pages\<close>, the loop of the kernel that lists a directory, where one
  more than the number of entries is enough. Carriers have separate paths: none is the temporary file of another.

  Removing asks for a directory that is \<open>removable\<close>: it has one block, or it is \<open>tidy_dir\<close>, no free record following a
  live one in any block. Directories that only grew (\<open>packed\<close>) are tidy; in others the code can leave a removed
  entry in place. \<open>rename_guard\<close> asks that both parents are \<open>removable\<close>, that a rename inside one directory of
  more than one block finds no free record in it and no entry under the new name, that names are neither \<open>.\<close> nor
  \<open>..\<close>, and that the entry is none of the parents; that it is not moved below itself the kernel checks.
  The steps of a session (\<open>fs_step\<close>, and \<open>fuse_step\<close> for requests) are the calls under these guards, whatever they
  return; only for \<open>write\<close>, \<open>create\<close>, \<open>mkdir\<close> and \<open>rename\<close> an error must have left the disk as it was (\<open>settled\<close>):
  when one of these runs out of space half-way the code leaves blocks or inodes allocated that nothing reaches.

  \<^bold>\<open>Not modelled.\<close> \<^verbatim>\<open>jpeg_ffi.rs\<close> and \<^verbatim>\<open>jpeg_bridge.c\<close> are glue around libjpeg with raw pointers: what they do is
  in C and in libjpeg, so they are parameters. \<open>clap\<close> parses the arguments and the standard library lays out
  numbers and the percentage of a carrier, which the code computes in floating point; the model keeps the two
  numbers. When the temporary file of a carrier cannot be renamed, the code reports the error, as the model does, but
  leaves that file behind; the model does not show it. The tests and the build script are left out. Memory is not zeroed in the model, word arithmetic wraps as in a
  release build (a debug build panics), and paths are names inside one directory without symbolic links.
\<close>

end
